(* ===== verification/Asp_Prelude.thy ===== *)
theory Asp_Prelude
  imports Main "HOL-Library.Word"
begin

text \<open>
  Shared vocabulary of the development: the integer types of \<^verbatim>\<open>include/t_stddef.h\<close> at the
  width they have on the GR-PEACH target (ILP32), the error codes, the object attributes and the
  limits of \<^verbatim>\<open>include/kernel.h\<close> and \<^verbatim>\<open>kernel/kernel_impl.h\<close>, the collections of simplification
  rules of the components, and the generic list and word lemmas they share.
\<close>

unbundle bit_operations_syntax

section \<open>Types of the kernel interface\<close>

type_synonym ID = int
type_synonym ER = int
type_synonym PRI = int
type_synonym TMO = int
type_synonym ATR = "32 word"
type_synonym MODE = "32 word"
type_synonym STAT = "32 word"
type_synonym RELTIM = "32 word"
type_synonym EVTTIM = "32 word"
type_synonym FLGPTN = "32 word"
type_synonym TEXPTN = "32 word"
type_synonym uint_t = "32 word"

section \<open>Error codes\<close>

abbreviation E_OK :: ER where "E_OK \<equiv> 0"
abbreviation E_SYS :: ER where "E_SYS \<equiv> - 5"
abbreviation E_NOSPT :: ER where "E_NOSPT \<equiv> - 9"
abbreviation E_RSATR :: ER where "E_RSATR \<equiv> - 11"
abbreviation E_PAR :: ER where "E_PAR \<equiv> - 17"
abbreviation E_ID :: ER where "E_ID \<equiv> - 18"
abbreviation E_CTX :: ER where "E_CTX \<equiv> - 25"
abbreviation E_ILUSE :: ER where "E_ILUSE \<equiv> - 28"
abbreviation E_NOMEM :: ER where "E_NOMEM \<equiv> - 33"
abbreviation E_NOID :: ER where "E_NOID \<equiv> - 34"
abbreviation E_OBJ :: ER where "E_OBJ \<equiv> - 41"
abbreviation E_NOEXS :: ER where "E_NOEXS \<equiv> - 42"
abbreviation E_QOVR :: ER where "E_QOVR \<equiv> - 43"
abbreviation E_RLWAI :: ER where "E_RLWAI \<equiv> - 49"
abbreviation E_TMOUT :: ER where "E_TMOUT \<equiv> - 50"
abbreviation E_DLT :: ER where "E_DLT \<equiv> - 51"

section \<open>Attributes, limits and reserved values\<close>

abbreviation TA_NULL :: ATR where "TA_NULL \<equiv> 0"
abbreviation TA_ACT :: ATR where "TA_ACT \<equiv> 2"
abbreviation TA_TPRI :: ATR where "TA_TPRI \<equiv> 1"
abbreviation TA_MPRI :: ATR where "TA_MPRI \<equiv> 2"
abbreviation TA_WMUL :: ATR where "TA_WMUL \<equiv> 2"
abbreviation TA_CLR :: ATR where "TA_CLR \<equiv> 4"
abbreviation TA_CEILING :: ATR where "TA_CEILING \<equiv> 3"
abbreviation TA_STA :: ATR where "TA_STA \<equiv> 2"
abbreviation TA_NOEXS :: ATR where "TA_NOEXS \<equiv> - 1"
abbreviation TA_MEMALLOC :: ATR where "TA_MEMALLOC \<equiv> 0x8000"
abbreviation TA_MBALLOC :: ATR where "TA_MBALLOC \<equiv> 0x4000"

abbreviation TMO_POL :: TMO where "TMO_POL \<equiv> 0"
abbreviation TMO_FEVR :: TMO where "TMO_FEVR \<equiv> - 1"

abbreviation TSK_SELF :: ID where "TSK_SELF \<equiv> 0"
abbreviation TSK_NONE :: ID where "TSK_NONE \<equiv> 0"
abbreviation TPRI_SELF :: PRI where "TPRI_SELF \<equiv> 0"
abbreviation TPRI_INI :: PRI where "TPRI_INI \<equiv> 0"
abbreviation TMIN_TPRI :: PRI where "TMIN_TPRI \<equiv> 1"
abbreviation TMAX_TPRI :: PRI where "TMAX_TPRI \<equiv> 16"
abbreviation TNUM_TPRI :: nat where "TNUM_TPRI \<equiv> 16"
abbreviation TMIN_DPRI :: PRI where "TMIN_DPRI \<equiv> 1"
abbreviation TMAX_DPRI :: PRI where "TMAX_DPRI \<equiv> 16"
abbreviation TMIN_MPRI :: PRI where "TMIN_MPRI \<equiv> 1"
abbreviation TMAX_MPRI :: PRI where "TMAX_MPRI \<equiv> 16"
abbreviation TWF_ORW :: MODE where "TWF_ORW \<equiv> 1"
abbreviation TWF_ANDW :: MODE where "TWF_ANDW \<equiv> 2"

text \<open>\<open>LONG_MAX\<close> on ILP32, the branch \<open>UINT_MAX < LONG_MAX\<close> being false.\<close>

abbreviation TMAX_RELTIM :: RELTIM where "TMAX_RELTIM \<equiv> 0x7fffffff"

section \<open>Collections of rules\<close>

named_theorems queue_simps \<open>equations of the queue store operations\<close>
named_theorems ctx_simps \<open>the macros of check.h and of the lock and context primitives\<close>
named_theorems tstat_simps \<open>evaluation of the task state predicates\<close>
named_theorems kernel_frame \<open>fields an internal operation leaves alone\<close>

section \<open>Generic lemmas on lists\<close>

lemma set_remove1_distinct [simp]:
  "distinct xs \<Longrightarrow> set (remove1 x xs) = set xs - {x}"
  by (rule set_remove1_eq)

lemma hd_append_singleton: "hd (xs @ [x]) = (if xs = [] then x else hd xs)"
  by simp

lemma remove1_hd: "xs \<noteq> [] \<Longrightarrow> remove1 (hd xs) xs = tl xs"
  by (cases xs) auto

lemma remove1_last_distinct:
  "distinct (xs @ [x]) \<Longrightarrow> remove1 x (xs @ [x]) = xs"
  by (simp add: remove1_append)

lemma fst_if: "fst (if b then x else y) = (if b then fst x else fst y)"
  by simp

lemma snd_if: "snd (if b then x else y) = (if b then snd x else snd y)"
  by simp

lemma Least_nat_eqI:
  fixes n :: nat
  assumes "P n" and "\<And>m. m < n \<Longrightarrow> \<not> P m"
  shows "(LEAST m. P m) = n"
  using assms by (metis LeastI Least_le le_neq_implies_less)

section \<open>Ring buffers\<close>

text \<open>The \<open>count\<close> elements of an array of size \<open>n\<close> from index \<open>head\<close> on, with wrap-around.\<close>

definition ring_list :: "(nat \<Rightarrow> 'a) \<Rightarrow> nat \<Rightarrow> nat \<Rightarrow> nat \<Rightarrow> 'a list" where
  "ring_list buf n head count = map (\<lambda>k. buf ((head + k) mod n)) [0..<count]"

lemma length_ring_list [simp]: "length (ring_list buf n head count) = count"
  by (simp add: ring_list_def)

lemma ring_list_0 [simp]: "ring_list buf n head 0 = []"
  by (simp add: ring_list_def)

text \<open>The wrap-around of an index is a remainder.\<close>

lemma wrap_index: "i < n \<Longrightarrow> (if n \<le> i + 1 then 0 else i + 1) = (i + 1) mod (n :: nat)"
  by (auto simp: mod_Suc)

lemma mod_add_ne:
  fixes h :: nat
  assumes "k < c" and "c < n"
  shows "(h + k) mod n \<noteq> (h + c) mod n"
  using mod_eq_dvd_iff_nat[of "h + k" "h + c" n] assms by (auto dest: dvd_imp_le)

lemma mod_back:
  fixes h k n :: nat
  assumes "0 < k"
  shows "((h + 1) mod n + (k - 1)) mod n = (h + k) mod n"
  using assms by (cases k) (simp_all add: mod_simps)

lemma ring_push:
  assumes "count < n" and "t = (head + count) mod n"
  shows "ring_list (buf(t := x)) n head (count + 1) = ring_list buf n head count @ [x]"
  using mod_add_ne[OF _ assms(1)] by (simp add: ring_list_def assms(2))

lemma ring_pop:
  assumes "0 < count" and "head < n" and "h = (head + 1) mod n"
  shows "ring_list buf n head count = buf head # ring_list buf n h (count - 1)"
proof -
  obtain k where k: "count = Suc k" using assms(1) by (cases count) auto
  have m: "((head + 1) mod n + j) mod n = (head + Suc j) mod n" for j by (simp add: mod_add_left_eq)
  have "map (\<lambda>j. buf ((head + j) mod n)) [0..<Suc k] = buf head # map (\<lambda>j. buf ((head + Suc j) mod n)) [0..<k]"
    using assms(2) by (simp add: upt_conv_Cons map_Suc_upt[symmetric] comp_def del: upt_Suc)
  then show ?thesis using m by (simp add: ring_list_def k assms(3) del: upt_Suc)
qed

end
