(* ===== verification/Asp_Queue.thy ===== *)
theory Asp_Queue
  imports Asp_Prelude
begin

text \<open>
  The queue library \<^verbatim>\<open>include/queue.h\<close>: rings of doubly linked nodes through a queue header.
  The first part models the pointer code, assignment by assignment, on a store of \<open>p_next\<close> and
  \<open>p_prev\<close> fields. The second part is the abstract queue store the kernel model works on, a list
  of entries per header. \<open>qrep\<close> relates the two, and the locale \<open>queue_store\<close> states what the
  kernel relies on; its interpretation \<open>ring\<close> shows that the pointer code provides it.
\<close>

section \<open>The pointer code\<close>

text \<open>A queue node is a queue header or the link field embedded in an entry.\<close>

datatype ('h, 'e) qnode = Head 'h | Entry 'e

record 'n qmem =
  p_next :: "'n \<Rightarrow> 'n"
  p_prev :: "'n \<Rightarrow> 'n"

definition set_next :: "'n \<Rightarrow> 'n \<Rightarrow> 'n qmem \<Rightarrow> 'n qmem" where
  "set_next a b m = m\<lparr>p_next := (p_next m)(a := b)\<rparr>"

definition set_prev :: "'n \<Rightarrow> 'n \<Rightarrow> 'n qmem \<Rightarrow> 'n qmem" where
  "set_prev a b m = m\<lparr>p_prev := (p_prev m)(a := b)\<rparr>"

definition queue_initialize :: "'n \<Rightarrow> 'n qmem \<Rightarrow> 'n qmem" where
  "queue_initialize p_queue m =
    (let m = set_prev p_queue p_queue m
     in set_next p_queue p_queue m)"

definition queue_insert_prev :: "'n \<Rightarrow> 'n \<Rightarrow> 'n qmem \<Rightarrow> 'n qmem" where
  "queue_insert_prev p_queue p_entry m =
    (let m = set_prev p_entry (p_prev m p_queue) m;
         m = set_next p_entry p_queue m;
         m = set_next (p_prev m p_queue) p_entry m
     in set_prev p_queue p_entry m)"

definition queue_insert_next :: "'n \<Rightarrow> 'n \<Rightarrow> 'n qmem \<Rightarrow> 'n qmem" where
  "queue_insert_next p_queue p_entry m =
    (let m = set_prev p_entry p_queue m;
         m = set_next p_entry (p_next m p_queue) m;
         m = set_prev (p_next m p_queue) p_entry m
     in set_next p_queue p_entry m)"

definition queue_delete :: "'n \<Rightarrow> 'n qmem \<Rightarrow> 'n qmem" where
  "queue_delete p_entry m =
    (let m = set_next (p_prev m p_entry) (p_next m p_entry) m
     in set_prev (p_next m p_entry) (p_prev m p_entry) m)"

definition queue_delete_next :: "'n \<Rightarrow> 'n qmem \<Rightarrow> 'n \<times> 'n qmem" where
  "queue_delete_next p_queue m =
    (let p_entry = p_next m p_queue;
         m = set_next p_queue (p_next m p_entry) m;
         m = set_prev (p_next m p_entry) p_queue m
     in (p_entry, m))"

definition queue_empty :: "'n \<Rightarrow> 'n qmem \<Rightarrow> bool" where
  "queue_empty p_queue m \<longleftrightarrow> p_next m p_queue = p_queue"

section \<open>The abstract queue store\<close>

type_synonym ('h, 'e) qstore = "'h \<Rightarrow> 'e list"

definition q_initialize :: "'h \<Rightarrow> ('h, 'e) qstore \<Rightarrow> ('h, 'e) qstore" where
  [queue_simps]: "q_initialize h f = f(h := [])"

definition q_insert_prev :: "'h \<Rightarrow> 'e \<Rightarrow> ('h, 'e) qstore \<Rightarrow> ('h, 'e) qstore" where
  [queue_simps]: "q_insert_prev h e f = f(h := f h @ [e])"

definition q_insert_next :: "'h \<Rightarrow> 'e \<Rightarrow> ('h, 'e) qstore \<Rightarrow> ('h, 'e) qstore" where
  [queue_simps]: "q_insert_next h e f = f(h := e # f h)"

text \<open>The C code unlinks an entry without naming its queue: it leaves whatever ring holds it.\<close>

definition q_delete :: "'e \<Rightarrow> ('h, 'e) qstore \<Rightarrow> ('h, 'e) qstore" where
  [queue_simps]: "q_delete e f = (\<lambda>h. remove1 e (f h))"

definition q_delete_next :: "'h \<Rightarrow> ('h, 'e) qstore \<Rightarrow> 'e \<times> ('h, 'e) qstore" where
  [queue_simps]: "q_delete_next h f = (hd (f h), f(h := tl (f h)))"

definition q_empty :: "'h \<Rightarrow> ('h, 'e) qstore \<Rightarrow> bool" where
  [queue_simps]: "q_empty h f \<longleftrightarrow> f h = []"

text \<open>
  Insertion in task priority order, \<open>queue_insert_tpri\<close> of \<^verbatim>\<open>kernel/wait.h\<close>: before the first
  entry whose priority value is larger, so behind the entries of the same priority.
\<close>

primrec insert_tpri :: "('e \<Rightarrow> nat) \<Rightarrow> 'e \<Rightarrow> 'e list \<Rightarrow> 'e list" where
  "insert_tpri pr e [] = [e]"
| "insert_tpri pr e (x # xs) =
    (if pr e < pr x then e # x # xs else x # insert_tpri pr e xs)"

definition q_insert_tpri :: "('e \<Rightarrow> nat) \<Rightarrow> 'h \<Rightarrow> 'e \<Rightarrow> ('h, 'e) qstore \<Rightarrow> ('h, 'e) qstore" where
  [queue_simps]: "q_insert_tpri pr h e f = f(h := insert_tpri pr e (f h))"

text \<open>
  The same insertion as the C code runs it: a walk along \<open>p_next\<close> from the header, which stops at
  the header again or at the first entry with a larger priority value. Nothing bounds the walk on
  an arbitrary store, so it is partial here; it returns on every store that holds rings
  (theorem \<open>queue_insert_tpri_refines\<close>).
\<close>

partial_function (option) tpri_walk ::
  "('n \<Rightarrow> nat) \<Rightarrow> nat \<Rightarrow> 'n qmem \<Rightarrow> 'n \<Rightarrow> 'n \<Rightarrow> 'n option" where
  "tpri_walk pr pri m p_queue p_entry =
    (if p_entry = p_queue then Some p_entry
     else if pri < pr p_entry then Some p_entry
     else tpri_walk pr pri m p_queue (p_next m p_entry))"

definition queue_insert_tpri ::
  "('n \<Rightarrow> nat) \<Rightarrow> 'n \<Rightarrow> 'n \<Rightarrow> 'n qmem \<Rightarrow> 'n qmem option" where
  "queue_insert_tpri pr p_queue p_tcb m =
    (case tpri_walk pr (pr p_tcb) m p_queue (p_next m p_queue) of
       None \<Rightarrow> None
     | Some p_entry \<Rightarrow> Some (queue_insert_prev p_entry p_tcb m))"

section \<open>Chains and rings\<close>

primrec chain :: "'n qmem \<Rightarrow> 'n \<Rightarrow> 'n list \<Rightarrow> 'n \<Rightarrow> bool" where
  "chain m a [] b \<longleftrightarrow> p_next m a = b \<and> p_prev m b = a"
| "chain m a (x # xs) b \<longleftrightarrow> p_next m a = x \<and> p_prev m x = a \<and> chain m x xs b"

definition qrep :: "('h, 'e) qnode qmem \<Rightarrow> ('h, 'e) qstore \<Rightarrow> bool" where
  "qrep m f \<longleftrightarrow>
    (\<forall>h. chain m (Head h) (map Entry (f h)) (Head h) \<and> distinct (f h)) \<and>
    (\<forall>h h'. h \<noteq> h' \<longrightarrow> set (f h) \<inter> set (f h') = {})"

text \<open>An entry that is linked into no ring.\<close>

definition q_free :: "'e \<Rightarrow> ('h, 'e) qstore \<Rightarrow> bool" where
  "q_free e f \<longleftrightarrow> (\<forall>h. e \<notin> set (f h))"

lemma chain_append:
  "chain m a (xs @ y # ys) b \<longleftrightarrow> chain m a xs y \<and> chain m y ys b"
  by (induction xs arbitrary: a) auto

lemma chain_frame:
  assumes "\<And>n. n = a \<or> n \<in> set xs \<Longrightarrow> p_next m' n = p_next m n"
    and "\<And>n. n = b \<or> n \<in> set xs \<Longrightarrow> p_prev m' n = p_prev m n"
  shows "chain m' a xs b = chain m a xs b"
  using assms by (induction xs arbitrary: a) auto

lemma chain_next: "chain m a xs b \<Longrightarrow> p_next m a = hd (xs @ [b])"
  by (cases xs) auto

lemma chain_prev: "chain m a xs b \<Longrightarrow> p_prev m b = last (a # xs)"
  by (induction xs arbitrary: a) auto

text \<open>
  Changing the neighbour at one end of a chain: enough that the two pointers at that end are set
  and that the pointers inside are kept.
\<close>

lemma chain_change_end:
  assumes "chain m a xs b"
    and "\<And>n. n \<in> set (butlast (a # xs)) \<Longrightarrow> p_next m' n = p_next m n"
    and "\<And>n. n \<in> set xs \<Longrightarrow> p_prev m' n = p_prev m n"
    and "p_next m' (last (a # xs)) = c" and "p_prev m' c = last (a # xs)"
  shows "chain m' a xs c"
  using assms by (induction xs arbitrary: a) (auto split: if_splits)

lemma chain_change_start:
  assumes "chain m a xs b"
    and "p_next m' c = hd (xs @ [b])" and "p_prev m' (hd (xs @ [b])) = c"
    and "\<And>n. n \<in> set xs \<Longrightarrow> p_next m' n = p_next m n"
    and "\<And>n. n \<in> set (tl (xs @ [b])) \<Longrightarrow> p_prev m' n = p_prev m n"
  shows "chain m' c xs b"
proof (cases xs)
  case Nil
  then show ?thesis using assms by simp
next
  case (Cons x ys)
  then have "chain m' x ys b = chain m x ys b"
    using assms(4,5) by (intro chain_frame) auto
  then show ?thesis using assms Cons by simp
qed

text \<open>Linking a fresh node into a chain, just before the node \<open>q\<close> and just behind it.\<close>

lemma queue_insert_prev_chain:
  assumes "chain m a xs q" and "chain m q ys b"
    and "distinct (a # xs @ q # ys)" and "b = a \<or> b \<notin> set (xs @ q # ys)"
    and "e \<notin> set (a # b # xs @ q # ys)"
  shows "chain (queue_insert_prev q e m) a (xs @ e # q # ys) b"
proof -
  let ?m = "queue_insert_prev q e m"
  have l: "p_prev m q = last (a # xs)" using assms(1) by (rule chain_prev)
  have lin: "last (a # xs) \<in> set (a # xs)" by (rule last_in_set) simp
  have m: "p_next ?m = (p_next m)(e := q, last (a # xs) := e)"
    "p_prev ?m = (p_prev m)(e := last (a # xs), q := e)"
    using assms(5) l by (auto simp: queue_insert_prev_def set_next_def set_prev_def Let_def)
  have bl: "last (a # xs) \<notin> set (butlast (a # xs))"
    using assms(3) by (metis append_butlast_last_id distinct.simps(2) distinct_append
        list.distinct(1) not_distinct_conv_prefix Cons_eq_appendI)
  have "chain ?m a xs e"
    using assms lin bl
    by (intro chain_change_end[OF assms(1)]) (auto simp: m dest: in_set_butlastD)
  moreover have "chain ?m q ys b"
    using assms lin by (subst chain_frame[where m = m]) (auto simp: m)
  moreover have "p_next ?m e = q" "p_prev ?m q = e"
    using assms(5) lin by (auto simp: m)
  ultimately show ?thesis by (simp add: chain_append)
qed

lemma queue_insert_prev_ring:
  assumes "chain m a xs a" and "distinct (a # xs)" and "e \<notin> set (a # xs)"
  shows "chain (queue_insert_prev a e m) a (xs @ [e]) a"
proof -
  let ?m = "queue_insert_prev a e m"
  have l: "p_prev m a = last (a # xs)" using assms(1) by (rule chain_prev)
  have lin: "last (a # xs) \<in> set (a # xs)" by (rule last_in_set) simp
  have m: "p_next ?m = (p_next m)(e := a, last (a # xs) := e)"
    "p_prev ?m = (p_prev m)(e := last (a # xs), a := e)"
    using assms(3) l by (auto simp: queue_insert_prev_def set_next_def set_prev_def Let_def)
  have bl: "last (a # xs) \<notin> set (butlast (a # xs))"
    using assms(2) by (metis append_butlast_last_id distinct_append list.distinct(1)
        not_distinct_conv_prefix)
  have "chain ?m a xs e"
    using assms lin bl
    by (intro chain_change_end[OF assms(1)]) (auto simp: m dest: in_set_butlastD)
  moreover have "p_next ?m e = a" "p_prev ?m a = e"
    using assms(3) lin by (auto simp: m)
  ultimately show ?thesis by (simp add: chain_append)
qed

lemma queue_insert_next_ring:
  assumes "chain m a xs a" and "distinct (a # xs)" and "e \<notin> set (a # xs)"
  shows "chain (queue_insert_next a e m) a (e # xs) a"
proof -
  let ?m = "queue_insert_next a e m"
  have n: "p_next m a = hd (xs @ [a])" using assms(1) by (rule chain_next)
  have ne: "hd (xs @ [a]) \<noteq> e" using assms(3) by (cases xs) auto
  have m: "p_next ?m = (p_next m)(e := hd (xs @ [a]), a := e)"
    "p_prev ?m = (p_prev m)(e := a, hd (xs @ [a]) := e)"
    using assms(3) n by (auto simp: queue_insert_next_def set_next_def set_prev_def Let_def)
  have "chain ?m e xs a"
    using assms ne
    by (intro chain_change_start[OF assms(1)]) (cases xs; auto simp: m)+
  then show ?thesis using assms(3) ne by (auto simp: m)
qed

lemma queue_delete_ring:
  assumes "chain m a (xs @ x # ys) a" and "distinct (a # xs @ x # ys)"
  shows "chain (queue_delete x m) a (xs @ ys) a"
proof -
  let ?m = "queue_delete x m"
  have c: "chain m a xs x" "chain m x ys a" using assms(1) by (auto simp: chain_append)
  have p: "p_prev m x = last (a # xs)" and n: "p_next m x = hd (ys @ [a])"
    using chain_prev[OF c(1)] chain_next[OF c(2)] .
  have lin: "last (a # xs) \<in> set (a # xs)" by (rule last_in_set) simp
  have lx: "last (a # xs) \<noteq> x" using lin assms(2) by auto
  have m: "p_next ?m = (p_next m)(last (a # xs) := hd (ys @ [a]))"
    "p_prev ?m = (p_prev m)(hd (ys @ [a]) := last (a # xs))"
    using lx p n by (auto simp: queue_delete_def set_next_def set_prev_def Let_def)
  have bl: "last (a # xs) \<notin> set (butlast (a # xs))"
    using assms(2) by (metis append_butlast_last_id distinct.simps(2) distinct_append
        list.distinct(1) not_distinct_conv_prefix Cons_eq_appendI)
  have e: "chain ?m a xs (hd (ys @ [a]))"
    using assms(2) lin bl
    by (intro chain_change_end[OF c(1)]) (cases ys; auto simp: m dest: in_set_butlastD)+
  show ?thesis
  proof (cases ys)
    case Nil
    then show ?thesis using e by simp
  next
    case (Cons y zs)
    have "chain ?m y zs a"
      using c(2) assms(2) lin by (subst chain_frame[where m = m]) (auto simp: m Cons)
    then show ?thesis using e by (simp add: Cons chain_append)
  qed
qed

lemma queue_delete_next_ring:
  assumes "chain m a (x # xs) a" and "distinct (a # x # xs)"
  shows "fst (queue_delete_next a m) = x" and "chain (snd (queue_delete_next a m)) a xs a"
proof -
  let ?m = "snd (queue_delete_next a m)"
  have x: "p_next m a = x" and c: "chain m x xs a" using assms(1) by auto
  have n: "p_next m x = hd (xs @ [a])" using c by (rule chain_next)
  show "fst (queue_delete_next a m) = x" by (simp add: queue_delete_next_def x Let_def)
  have m: "p_next ?m = (p_next m)(a := hd (xs @ [a]))"
    "p_prev ?m = (p_prev m)(hd (xs @ [a]) := a)"
    using assms(2) x n by (auto simp: queue_delete_next_def set_next_def set_prev_def Let_def)
  show "chain ?m a xs a"
    using assms(2)
    by (intro chain_change_start[OF c]) (cases xs; auto simp: m)+
qed

section \<open>The representation relation is kept\<close>

lemma qrepD:
  assumes "qrep m f"
  shows "chain m (Head h) (map Entry (f h)) (Head h)" and "distinct (f h)"
  using assms by (auto simp: qrep_def)

lemma distinct_map_Entry [simp]: "distinct (map Entry xs) = distinct xs"
  by (auto simp: distinct_map inj_on_def)

lemma distinct_ring: "distinct (Head h # map Entry xs) = distinct xs"
  by (auto simp: distinct_map inj_on_def)

lemma qrep_disjoint:
  "qrep m f \<Longrightarrow> x \<in> set (f g) \<Longrightarrow> x \<in> set (f h) \<Longrightarrow> g = h"
  by (auto simp: qrep_def)

text \<open>A ring is untouched by an update of pointers of nodes outside it.\<close>

lemma chain_other:
  assumes "qrep m f"
    and "\<And>n. n = Head h \<or> n \<in> Entry ` set (f h) \<Longrightarrow> p_next m' n = p_next m n"
    and "\<And>n. n = Head h \<or> n \<in> Entry ` set (f h) \<Longrightarrow> p_prev m' n = p_prev m n"
  shows "chain m' (Head h) (map Entry (f h)) (Head h)"
proof -
  have "chain m' (Head h) (map Entry (f h)) (Head h) = chain m (Head h) (map Entry (f h)) (Head h)"
    by (rule chain_frame) (auto intro: assms(2,3))
  then show ?thesis using qrepD(1)[OF assms(1)] by simp
qed

text \<open>
  Reduction of a step of the store to a step on one ring: the ring at \<open>h\<close> becomes \<open>xs\<close>, and the
  nodes whose pointers change belong to that ring or are the new entry.
\<close>

lemma qrep_upd:
  assumes "qrep m f" and "chain m' (Head h) (map Entry xs) (Head h)" and "distinct xs"
    and "\<And>x h'. x \<in> set xs \<Longrightarrow> h' \<noteq> h \<Longrightarrow> x \<notin> set (f h')"
    and "\<And>n. n \<noteq> Head h \<Longrightarrow> n \<notin> Entry ` (set (f h) \<union> set xs) \<Longrightarrow>
           p_next m' n = p_next m n \<and> p_prev m' n = p_prev m n"
  shows "qrep m' (f(h := xs))"
  unfolding qrep_def
proof (intro conjI allI impI)
  fix g
  show "chain m' (Head g) (map Entry ((f(h := xs)) g)) (Head g)"
  proof (cases "g = h")
    case True
    then show ?thesis using assms(2) by simp
  next
    case False
    have "n \<notin> Entry ` (set (f h) \<union> set xs)" "n \<noteq> Head h"
      if "n = Head g \<or> n \<in> Entry ` set (f g)" for n
      using that False assms(4) by (auto dest: qrep_disjoint[OF assms(1), of _ g h])
    then show ?thesis using False assms(5) by (auto intro!: chain_other[OF assms(1)])
  qed
  show "distinct ((f(h := xs)) g)" using assms(3) qrepD(2)[OF assms(1)] by simp
next
  fix g g' :: 'a
  assume "g \<noteq> g'"
  then show "set ((f(h := xs)) g) \<inter> set ((f(h := xs)) g') = {}"
    using assms(1,4) by (auto simp: qrep_def)
qed

lemma qrep_initialize: "qrep m f \<Longrightarrow> qrep (queue_initialize (Head h) m) (q_initialize h f)"
  unfolding q_initialize_def
  by (rule qrep_upd) (auto simp: queue_initialize_def set_next_def set_prev_def Let_def)

lemma chain_last_in: "chain m a xs b \<Longrightarrow> p_prev m b \<in> set (a # xs)"
  using chain_prev last_in_set by (metis list.distinct(1))

lemma chain_hd_in: "chain m a xs b \<Longrightarrow> p_next m a \<in> set (b # xs)"
  using chain_next by (cases xs) fastforce+

lemma qrep_insert_prev:
  assumes "qrep m f" and "q_free e f"
  shows "qrep (queue_insert_prev (Head h) (Entry e) m) (q_insert_prev h e f)"
  unfolding q_insert_prev_def
proof (rule qrep_upd[OF assms(1)])
  note c = qrepD[OF assms(1), of h]
  show "chain (queue_insert_prev (Head h) (Entry e) m) (Head h) (map Entry (f h @ [e])) (Head h)"
    using queue_insert_prev_ring[OF c(1), of "Entry e"] c(2) assms(2) by (auto simp: q_free_def)
  show "distinct (f h @ [e])" using c(2) assms(2) by (auto simp: q_free_def)
  show "x \<notin> set (f h')" if "x \<in> set (f h @ [e])" "h' \<noteq> h" for x h'
    using that assms by (auto simp: q_free_def dest: qrep_disjoint[OF assms(1), of x h h'])
  show "p_next (queue_insert_prev (Head h) (Entry e) m) n = p_next m n \<and>
        p_prev (queue_insert_prev (Head h) (Entry e) m) n = p_prev m n"
    if "n \<noteq> Head h" "n \<notin> Entry ` (set (f h) \<union> set (f h @ [e]))" for n
    using that chain_last_in[OF c(1)]
    by (auto simp: queue_insert_prev_def set_next_def set_prev_def Let_def)
qed

lemma qrep_insert_next:
  assumes "qrep m f" and "q_free e f"
  shows "qrep (queue_insert_next (Head h) (Entry e) m) (q_insert_next h e f)"
  unfolding q_insert_next_def
proof (rule qrep_upd[OF assms(1)])
  note c = qrepD[OF assms(1), of h]
  show "chain (queue_insert_next (Head h) (Entry e) m) (Head h) (map Entry (e # f h)) (Head h)"
    using queue_insert_next_ring[OF c(1), of "Entry e"] c(2) assms(2) by (auto simp: q_free_def)
  show "distinct (e # f h)" using c(2) assms(2) by (auto simp: q_free_def)
  show "x \<notin> set (f h')" if "x \<in> set (e # f h)" "h' \<noteq> h" for x h'
    using that assms by (auto simp: q_free_def dest: qrep_disjoint[OF assms(1), of x h h'])
  show "p_next (queue_insert_next (Head h) (Entry e) m) n = p_next m n \<and>
        p_prev (queue_insert_next (Head h) (Entry e) m) n = p_prev m n"
    if "n \<noteq> Head h" "n \<notin> Entry ` (set (f h) \<union> set (e # f h))" for n
    using that chain_hd_in[OF c(1)]
    by (auto simp: queue_insert_next_def set_next_def set_prev_def Let_def)
qed

text \<open>Linking an entry in just before an entry of the ring, as \<open>queue_insert_tpri\<close> does.\<close>

lemma qrep_insert_before:
  assumes "qrep m f" and "q_free e f" and "f h = xs @ x # ys"
  shows "qrep (queue_insert_prev (Entry x) (Entry e) m) (f(h := xs @ e # x # ys))"
proof (rule qrep_upd[OF assms(1)])
  note c = qrepD[OF assms(1), of h]
  have c': "chain m (Head h) (map Entry xs) (Entry x)" "chain m (Entry x) (map Entry ys) (Head h)"
    using c(1) by (auto simp: assms(3) chain_append)
  have d: "distinct (Head h # map Entry (xs @ x # ys))"
    using c(2) unfolding assms(3) distinct_ring .
  have e: "e \<notin> set (f h)" using assms(2) by (simp add: q_free_def)
  show "chain (queue_insert_prev (Entry x) (Entry e) m) (Head h) (map Entry (xs @ e # x # ys)) (Head h)"
    using queue_insert_prev_chain[OF c', of "Entry e"] d e by (auto simp: assms(3))
  show "distinct (xs @ e # x # ys)" using c(2) e by (auto simp: assms(3))
  show "z \<notin> set (f h')" if "z \<in> set (xs @ e # x # ys)" "h' \<noteq> h" for z h'
    using that assms(2,3) qrep_disjoint[OF assms(1), of z h h'] by (auto simp: q_free_def)
  show "p_next (queue_insert_prev (Entry x) (Entry e) m) n = p_next m n \<and>
        p_prev (queue_insert_prev (Entry x) (Entry e) m) n = p_prev m n"
    if "n \<noteq> Head h" "n \<notin> Entry ` (set (f h) \<union> set (xs @ e # x # ys))" for n
    using that chain_last_in[OF c'(1)]
    by (auto simp: queue_insert_prev_def set_next_def set_prev_def Let_def)
qed

lemma qrep_delete:
  assumes "qrep m f" and "e \<in> set (f h)"
  shows "qrep (queue_delete (Entry e) m) (q_delete e f)"
proof -
  note c = qrepD[OF assms(1), of h]
  obtain xs ys where f: "f h = xs @ e # ys" using split_list[OF assms(2)] by auto
  have nin: "e \<notin> set xs" using c(2) by (auto simp: f)
  have r: "remove1 e (f h) = xs @ ys" by (simp add: f remove1_append nin)
  have o: "remove1 e (f g) = f g" if "g \<noteq> h" for g
    using that assms by (intro remove1_idem) (auto dest: qrep_disjoint[OF assms(1), of e h g])
  have q: "q_delete e f = f(h := xs @ ys)"
    unfolding q_delete_def by (rule ext) (simp add: o r)
  have c': "chain m (Head h) (map Entry xs) (Entry e)" "chain m (Entry e) (map Entry ys) (Head h)"
    using c(1) by (auto simp: f chain_append)
  show ?thesis
    unfolding q
  proof (rule qrep_upd[OF assms(1)])
    show "chain (queue_delete (Entry e) m) (Head h) (map Entry (xs @ ys)) (Head h)"
      using queue_delete_ring[of m "Head h" "map Entry xs" "Entry e" "map Entry ys"] c
      unfolding f map_append list.map distinct_ring by (auto simp: distinct_map inj_on_def)
    show "distinct (xs @ ys)" using c(2) by (auto simp: f)
    show "z \<notin> set (f h')" if "z \<in> set (xs @ ys)" "h' \<noteq> h" for z h'
      using that qrep_disjoint[OF assms(1), of z h h'] by (auto simp: f)
    show "p_next (queue_delete (Entry e) m) n = p_next m n \<and>
          p_prev (queue_delete (Entry e) m) n = p_prev m n"
      if "n \<noteq> Head h" "n \<notin> Entry ` (set (f h) \<union> set (xs @ ys))" for n
      using that chain_last_in[OF c'(1)] chain_hd_in[OF c'(2)]
      by (auto simp: queue_delete_def set_next_def set_prev_def Let_def f)
  qed
qed

lemma qrep_delete_next:
  assumes "qrep m f" and "f h \<noteq> []"
  shows "fst (queue_delete_next (Head h) m) = Entry (fst (q_delete_next h f))"
    and "qrep (snd (queue_delete_next (Head h) m)) (snd (q_delete_next h f))"
proof -
  note c = qrepD[OF assms(1), of h]
  obtain x xs where f: "f h = x # xs" using assms(2) by (cases "f h") auto
  have d: "chain m (Head h) (Entry x # map Entry xs) (Head h)"
    "distinct (Head h # Entry x # map Entry xs)"
    using c by (auto simp: f distinct_map inj_on_def)
  note dn = queue_delete_next_ring[OF d]
  show "fst (queue_delete_next (Head h) m) = Entry (fst (q_delete_next h f))"
    by (simp add: dn q_delete_next_def f)
  have "qrep (snd (queue_delete_next (Head h) m)) (f(h := xs))"
  proof (rule qrep_upd[OF assms(1)])
    show "chain (snd (queue_delete_next (Head h) m)) (Head h) (map Entry xs) (Head h)" by (rule dn(2))
    show "distinct xs" using c(2) by (simp add: f)
    show "z \<notin> set (f h')" if "z \<in> set xs" "h' \<noteq> h" for z h'
      using that qrep_disjoint[OF assms(1), of z h h'] by (auto simp: f)
    show "p_next (snd (queue_delete_next (Head h) m)) n = p_next m n \<and>
          p_prev (snd (queue_delete_next (Head h) m)) n = p_prev m n"
      if "n \<noteq> Head h" "n \<notin> Entry ` (set (f h) \<union> set xs)" for n
      using that d chain_hd_in[of m "Entry x" "map Entry xs" "Head h"]
      by (auto simp: queue_delete_next_def set_next_def set_prev_def Let_def f)
  qed
  then show "qrep (snd (queue_delete_next (Head h) m)) (snd (q_delete_next h f))"
    by (simp add: q_delete_next_def f)
qed

lemma qrep_empty: "qrep m f \<Longrightarrow> queue_empty (Head h) m = q_empty h f"
  using qrepD(1)[of m f h] by (cases "f h") (auto simp: queue_empty_def q_empty_def)

section \<open>Priority-ordered insertion\<close>

lemma insert_tpri_conv:
  "insert_tpri pr e xs =
    takeWhile (\<lambda>x. \<not> pr e < pr x) xs @ e # dropWhile (\<lambda>x. \<not> pr e < pr x) xs"
  by (induction xs) auto

lemma set_insert_tpri [simp]: "set (insert_tpri pr e xs) = insert e (set xs)"
  by (induction xs) auto

lemma distinct_insert_tpri [simp]:
  "distinct (insert_tpri pr e xs) \<longleftrightarrow> e \<notin> set xs \<and> distinct xs"
  by (induction xs) auto

lemma insert_tpri_not_Nil [simp]: "insert_tpri pr e xs \<noteq> []"
  by (cases xs) auto

lemma sorted_insert_tpri:
  "sorted (map pr xs) \<Longrightarrow> sorted (map pr (insert_tpri pr e xs))"
  by (induction xs) auto

lemma insert_tpri_stable:
  "sorted (map pr xs) \<Longrightarrow>
    filter (\<lambda>x. pr x = p) (insert_tpri pr e xs) =
    filter (\<lambda>x. pr x = p) xs @ (if pr e = p then [e] else [])"
proof (induction xs)
  case (Cons x xs)
  have "filter (\<lambda>y. pr y = pr e) xs = []" if "pr e < pr x"
    using Cons.prems that by (fastforce simp: filter_empty_conv)
  then show ?case using Cons by auto
qed simp

lemma insert_tpri_cong:
  "(\<And>x. x \<in> insert e (set xs) \<Longrightarrow> pr x = pr' x) \<Longrightarrow> insert_tpri pr e xs = insert_tpri pr' e xs"
  by (induction xs) auto

lemma tpri_walk_chain:
  assumes "chain m a (map Entry xs) (Head h)"
  shows "tpri_walk pr pri m (Head h) (p_next m a) =
    Some (case dropWhile (\<lambda>x. \<not> pri < pr (Entry x)) xs of [] \<Rightarrow> Head h | x # _ \<Rightarrow> Entry x)"
  using assms
proof (induction xs arbitrary: a)
  case Nil
  then show ?case by (simp add: tpri_walk.simps)
next
  case (Cons x xs)
  then have n: "p_next m a = Entry x" and c: "chain m (Entry x) (map Entry xs) (Head h)" by auto
  show ?case
    using Cons.IH[OF c] by (subst tpri_walk.simps) (simp add: n)
qed

section \<open>The contract of the queue library\<close>

text \<open>Taking up to \<open>k\<close> entries of a queue, first to last.\<close>

fun drain :: "('h \<Rightarrow> 'm \<Rightarrow> bool) \<Rightarrow> ('h \<Rightarrow> 'm \<Rightarrow> 'n \<times> 'm) \<Rightarrow> nat \<Rightarrow> 'h \<Rightarrow> 'm \<Rightarrow> 'n list" where
  "drain is_empty del_next 0 h m = []"
| "drain is_empty del_next (Suc k) h m =
    (if is_empty h m then []
     else fst (del_next h m) # drain is_empty del_next k h (snd (del_next h m)))"

text \<open>
  What the kernel relies on: with respect to the abstraction \<open>rep\<close>, the operations of the library
  are the operations of the list store. The lemmas of the locale are the ways the kernel combines
  them.
\<close>

locale queue_store =
  fixes rep :: "'m \<Rightarrow> ('h, 'e) qstore \<Rightarrow> bool"
    and link :: "'e \<Rightarrow> 'n"
    and ins_prev :: "'h \<Rightarrow> 'e \<Rightarrow> 'm \<Rightarrow> 'm"
    and ins_next :: "'h \<Rightarrow> 'e \<Rightarrow> 'm \<Rightarrow> 'm"
    and del :: "'e \<Rightarrow> 'm \<Rightarrow> 'm"
    and del_next :: "'h \<Rightarrow> 'm \<Rightarrow> 'n \<times> 'm"
    and is_empty :: "'h \<Rightarrow> 'm \<Rightarrow> bool"
  assumes rep_distinct: "rep m f \<Longrightarrow> distinct (f h)"
    and rep_disjoint: "rep m f \<Longrightarrow> x \<in> set (f g) \<Longrightarrow> x \<in> set (f h) \<Longrightarrow> g = h"
    and rep_ins_prev: "rep m f \<Longrightarrow> q_free e f \<Longrightarrow> rep (ins_prev h e m) (q_insert_prev h e f)"
    and rep_ins_next: "rep m f \<Longrightarrow> q_free e f \<Longrightarrow> rep (ins_next h e m) (q_insert_next h e f)"
    and rep_del: "rep m f \<Longrightarrow> e \<in> set (f h) \<Longrightarrow> rep (del e m) (q_delete e f)"
    and rep_del_next: "rep m f \<Longrightarrow> f h \<noteq> [] \<Longrightarrow>
      fst (del_next h m) = link (fst (q_delete_next h f)) \<and>
      rep (snd (del_next h m)) (snd (q_delete_next h f))"
    and rep_empty: "rep m f \<Longrightarrow> is_empty h m = q_empty h f"
begin

lemma rep_free_delete:
  assumes "rep m f"
  shows "q_free e (q_delete e f)"
  using rep_distinct[OF assms] by (auto simp: q_free_def q_delete_def)

text \<open>Moving an entry to the end or the front of another queue, as \<open>change_priority\<close> does.\<close>

lemma rep_move_last:
  assumes "rep m f" and "e \<in> set (f h)"
  shows "rep (ins_prev h' e (del e m)) (q_insert_prev h' e (q_delete e f))"
  using rep_ins_prev[OF rep_del[OF assms] rep_free_delete[OF assms(1)]] .

lemma rep_move_first:
  assumes "rep m f" and "e \<in> set (f h)"
  shows "rep (ins_next h' e (del e m)) (q_insert_next h' e (q_delete e f))"
  using rep_ins_next[OF rep_del[OF assms] rep_free_delete[OF assms(1)]] .

lemma drain_all:
  "rep m f \<Longrightarrow> length (f h) \<le> k \<Longrightarrow> drain is_empty del_next k h m = map link (f h)"
proof (induction k arbitrary: m f)
  case (Suc k)
  show ?case
  proof (cases "f h")
    case Nil
    then show ?thesis using Suc.prems by (simp add: rep_empty q_empty_def)
  next
    case (Cons x xs)
    then have "f h \<noteq> []" by simp
    note d = rep_del_next[OF Suc.prems(1) this]
    have "length (snd (q_delete_next h f) h) \<le> k"
      using Suc.prems(2) Cons by (simp add: q_delete_next_def)
    then have "drain is_empty del_next k h (snd (del_next h m)) = map link (snd (q_delete_next h f) h)"
      by (rule Suc.IH[OF conjunct2[OF d]])
    then show ?thesis
      using d Suc.prems(1) Cons by (simp add: rep_empty q_empty_def q_delete_next_def)
  qed
qed simp

text \<open>Entries put at the end one after the other come out in the order they went in.\<close>

lemma rep_fold_ins_prev:
  assumes "rep m f" and "distinct es" and "\<And>e. e \<in> set es \<Longrightarrow> q_free e f"
  shows "rep (fold (ins_prev h) es m) (f(h := f h @ es))"
  using assms
proof (induction es arbitrary: m f)
  case (Cons e es)
  have "rep (ins_prev h e m) (q_insert_prev h e f)"
    using Cons.prems by (intro rep_ins_prev) auto
  moreover have "q_free x (q_insert_prev h e f)" if "x \<in> set es" for x
    using Cons.prems(2,3) that by (auto simp: q_free_def q_insert_prev_def)
  ultimately have "rep (fold (ins_prev h) es (ins_prev h e m))
      ((q_insert_prev h e f)(h := q_insert_prev h e f h @ es))"
    using Cons.prems(2) by (intro Cons.IH) auto
  moreover have "(q_insert_prev h e f)(h := q_insert_prev h e f h @ es) = f(h := f h @ e # es)"
    by (auto simp: q_insert_prev_def)
  ultimately show ?case by (simp del: fun_upd_apply)
qed simp

lemma drain_fifo:
  assumes "rep m f" and "f h = []" and "distinct es" and "\<And>e. e \<in> set es \<Longrightarrow> q_free e f"
  shows "drain is_empty del_next (length es) h (fold (ins_prev h) es m) = map link es"
  using drain_all[OF rep_fold_ins_prev[OF assms(1,3,4)], where h = h and k = "length es"] assms(2)
  by simp

end

interpretation ring: queue_store
  "qrep :: ('h, 'e) qnode qmem \<Rightarrow> ('h, 'e) qstore \<Rightarrow> bool" Entry
  "\<lambda>h e. queue_insert_prev (Head h) (Entry e)" "\<lambda>h e. queue_insert_next (Head h) (Entry e)"
  "\<lambda>e. queue_delete (Entry e)" "\<lambda>h. queue_delete_next (Head h)" "\<lambda>h. queue_empty (Head h)"
  by unfold_locales
    (auto intro: qrepD(2) qrep_disjoint qrep_insert_prev qrep_insert_next qrep_delete
      qrep_delete_next simp: qrep_empty)

section \<open>Properties\<close>

text \<open>
  Two rings that hold nothing, for the examples: every node of the store points at itself.
\<close>

definition self_rings :: "'n qmem" where
  "self_rings = \<lparr>p_next = (\<lambda>n. n), p_prev = (\<lambda>n. n)\<rparr>"

lemma qrep_self_rings: "qrep self_rings (\<lambda>_. [])"
  by (simp add: qrep_def self_rings_def)

text \<open>
  C23: on a store that holds disjoint rings, the priority-ordered insertion of
  \<^verbatim>\<open>wait.h\<close> always finds its place (the walk along \<open>p_next\<close> ends), and the store it leaves holds
  the same rings with the entry put behind every entry of the same or a higher priority, in
  particular in the order \<open>insert_tpri\<close> describes.
\<close>

theorem queue_insert_tpri_refines:
  fixes m :: "('h, 'e) qnode qmem"
  assumes "qrep m f" and "q_free e f" and "\<And>x. npr (Entry x) = pr x"
  shows "\<exists>m'. queue_insert_tpri npr (Head h) (Entry e) m = Some m' \<and>
    qrep m' (q_insert_tpri pr h e f)"
proof -
  let ?P = "\<lambda>x. \<not> pr e < pr x"
  let ?d = "dropWhile ?P (f h)"
  have c: "chain m (Head h) (map Entry (f h)) (Head h)" by (rule qrepD[OF assms(1)])
  have w: "tpri_walk npr (npr (Entry e)) m (Head h) (p_next m (Head h)) =
      Some (case ?d of [] \<Rightarrow> Head h | x # _ \<Rightarrow> Entry x)"
    using tpri_walk_chain[OF c, of npr "npr (Entry e)"] by (simp add: assms(3))
  show ?thesis
  proof (cases ?d)
    case Nil
    then have "insert_tpri pr e (f h) = f h @ [e]"
      by (simp add: insert_tpri_conv takeWhile_eq_all_conv dropWhile_eq_Nil_conv)
    then show ?thesis
      using qrep_insert_prev[OF assms(1,2), of h] w Nil
      by (simp add: queue_insert_tpri_def q_insert_tpri_def q_insert_prev_def)
  next
    case (Cons x ys)
    then have f: "f h = takeWhile ?P (f h) @ x # ys" by (metis takeWhile_dropWhile_id)
    have "insert_tpri pr e (f h) = takeWhile ?P (f h) @ e # x # ys"
      by (simp add: insert_tpri_conv Cons)
    then show ?thesis
      using qrep_insert_before[OF assms(1,2) f] w Cons
      by (simp add: queue_insert_tpri_def q_insert_tpri_def)
  qed
qed

theorem queue_insert_tpri_refines_witness:
  "\<exists>m'. queue_insert_tpri (\<lambda>n. case n of Head _ \<Rightarrow> 0 | Entry x \<Rightarrow> x) (Head True) (Entry (3 :: nat))
      self_rings = Some m' \<and> qrep m' (q_insert_tpri (\<lambda>x. x) True 3 (\<lambda>_ :: bool. []))"
  using queue_insert_tpri_refines[OF qrep_self_rings, of "3 :: nat"
      "\<lambda>n. case n of Head _ \<Rightarrow> 0 | Entry x \<Rightarrow> x" "\<lambda>x. x" True]
  by (simp add: q_free_def)

text \<open>
  Entries linked one after the other at the end of an empty ring are taken from its front by
  \<open>queue_delete_next\<close> in the same order, none lost and none repeated, whatever the other rings of
  the store hold.
\<close>

lemma queue_ring_fifo:
  fixes m :: "('h, 'e) qnode qmem"
  assumes "qrep m f" and "f h = []" and "distinct es" and "\<And>e. e \<in> set es \<Longrightarrow> q_free e f"
  shows "drain (\<lambda>h. queue_empty (Head h)) (\<lambda>h. queue_delete_next (Head h)) (length es) h
    (fold (\<lambda>e. queue_insert_prev (Head h) (Entry e)) es m) = map Entry es"
  using ring.drain_fifo[OF assms] .

lemma queue_ring_fifo_witness:
  "drain (\<lambda>h. queue_empty (Head h)) (\<lambda>h. queue_delete_next (Head h)) 3 True
    (fold (\<lambda>e. queue_insert_prev (Head True) (Entry e)) [5, 2, 9 :: nat] self_rings)
   = map Entry [5, 2, 9]"
  using queue_ring_fifo[OF qrep_self_rings, of "[5, 2, 9 :: nat]" True]
  by (simp add: q_free_def eval_nat_numeral)

end
