(* ===== verification/Asp_State.thy ===== *)
theory Asp_State
  imports Asp_Queue
begin

text \<open>
  The data model of the kernel, from its header files: the control and initialisation blocks
  (\<^verbatim>\<open>task.h\<close>, \<^verbatim>\<open>wait.h\<close>, \<^verbatim>\<open>time_event.h\<close>, \<^verbatim>\<open>semaphore.h\<close>, \<^verbatim>\<open>eventflag.h\<close>, \<^verbatim>\<open>dataqueue.h\<close>,
  \<^verbatim>\<open>pridataq.h\<close>, \<^verbatim>\<open>mailbox.h\<close>, \<^verbatim>\<open>mutex.h\<close>, \<^verbatim>\<open>mempfix.h\<close>, \<^verbatim>\<open>cyclic.h\<close>, \<^verbatim>\<open>alarm.h\<close>), the global
  variables as one record, and the configuration that the configurator generates as
  \<^verbatim>\<open>kernel_cfg.c\<close>, which is a parameter. A pointer to a control block is the index of the block in
  its table, the null pointer is \<open>None\<close>, and the initialisation block a control block points to is
  a field of it. The links of \<open>task_queue\<close> are the queue store \<open>queues\<close>.
\<close>

section \<open>Task states\<close>

abbreviation TS_DORMANT :: "8 word" where "TS_DORMANT \<equiv> 0"
abbreviation TS_RUNNABLE :: "8 word" where "TS_RUNNABLE \<equiv> 1"
abbreviation TS_WAITING :: "8 word" where "TS_WAITING \<equiv> 2"
abbreviation TS_SUSPENDED :: "8 word" where "TS_SUSPENDED \<equiv> 4"

abbreviation TS_WAIT_DLY :: "8 word" where "TS_WAIT_DLY \<equiv> 0"
abbreviation TS_WAIT_SLP :: "8 word" where "TS_WAIT_SLP \<equiv> 0x08"
abbreviation TS_WAIT_RDTQ :: "8 word" where "TS_WAIT_RDTQ \<equiv> 0x10"
abbreviation TS_WAIT_RPDQ :: "8 word" where "TS_WAIT_RPDQ \<equiv> 0x18"
abbreviation TS_WAIT_SEM :: "8 word" where "TS_WAIT_SEM \<equiv> 0x20"
abbreviation TS_WAIT_FLG :: "8 word" where "TS_WAIT_FLG \<equiv> 0x28"
abbreviation TS_WAIT_SDTQ :: "8 word" where "TS_WAIT_SDTQ \<equiv> 0x30"
abbreviation TS_WAIT_SPDQ :: "8 word" where "TS_WAIT_SPDQ \<equiv> 0x38"
abbreviation TS_WAIT_MBX :: "8 word" where "TS_WAIT_MBX \<equiv> 0x40"
abbreviation TS_WAIT_MPF :: "8 word" where "TS_WAIT_MPF \<equiv> 0x48"
abbreviation TS_WAIT_MTX :: "8 word" where "TS_WAIT_MTX \<equiv> 0x50"
abbreviation TS_WAIT_MASK :: "8 word" where "TS_WAIT_MASK \<equiv> 0x78"

definition TSTAT_DORMANT :: "8 word \<Rightarrow> bool" where
  "TSTAT_DORMANT tstat \<longleftrightarrow> tstat = TS_DORMANT"

definition TSTAT_RUNNABLE :: "8 word \<Rightarrow> bool" where
  "TSTAT_RUNNABLE tstat \<longleftrightarrow> tstat AND TS_RUNNABLE \<noteq> 0"

definition TSTAT_WAITING :: "8 word \<Rightarrow> bool" where
  "TSTAT_WAITING tstat \<longleftrightarrow> tstat AND TS_WAITING \<noteq> 0"

definition TSTAT_SUSPENDED :: "8 word \<Rightarrow> bool" where
  "TSTAT_SUSPENDED tstat \<longleftrightarrow> tstat AND TS_SUSPENDED \<noteq> 0"

definition TSTAT_WAIT_SLP :: "8 word \<Rightarrow> bool" where
  "TSTAT_WAIT_SLP tstat \<longleftrightarrow> tstat AND TS_WAIT_MASK = TS_WAIT_SLP"

definition TSTAT_WAIT_WOBJ :: "8 word \<Rightarrow> bool" where
  "TSTAT_WAIT_WOBJ tstat \<longleftrightarrow> TS_WAIT_RDTQ \<le> tstat AND TS_WAIT_MASK"

definition TSTAT_WAIT_WOBJCB :: "8 word \<Rightarrow> bool" where
  "TSTAT_WAIT_WOBJCB tstat \<longleftrightarrow> TS_WAIT_SEM \<le> tstat AND TS_WAIT_MASK"

definition TSTAT_WAIT_MTX :: "8 word \<Rightarrow> bool" where
  "TSTAT_WAIT_MTX tstat \<longleftrightarrow> tstat AND TS_WAIT_MASK = TS_WAIT_MTX"

section \<open>Tasks\<close>

type_synonym tsk = nat
type_synonym intptr_t = "32 word"

record TINIB =
  tskatr :: ATR
  exinf :: intptr_t
  task :: nat
  ipriority :: nat
  stksz :: nat
  stk :: "nat option"
  texatr :: ATR
  texrtn :: "nat option"

text \<open>
  Synchronisation and communication objects, as \<open>WOBJCB\<close> pointers, and the queue headers of the
  kernel: the ready queue of each priority, the wait queue in the common part of an object (for
  data queues the queue of the senders), the second wait queue of a data queue and of a priority
  data queue (the receivers), and the list of unused task control blocks.
\<close>

datatype wobj = SEM nat | FLG nat | DTQ nat | PDQ nat | MBX nat | MPF nat | MTX nat

datatype qhead = ReadyQ nat | WaitQ wobj | RWaitQ wobj | FreeTcb

text \<open>
  Time event blocks: one per task, which stands for the local variable \<open>tmevtb\<close> of the service
  call the task waits in, and one in each cyclic and alarm handler control block. A callback is
  the callback function with its argument.
\<close>

datatype tmevtb_id = TskTmevtb tsk | CycTmevtb nat | AlmTmevtb nat

datatype cback = Wait_tmout tsk | Wait_tmout_ok tsk | Call_cychdr nat | Call_almhdr nat

text \<open>
  The waiting information block, the local variable \<open>winfo\<close> of the service call the task waits
  in: the union \<open>WINFO\<close> and the fields that \<open>WINFO_WOBJ\<close>, \<open>WINFO_FLG\<close>, \<open>WINFO_DTQ\<close>, \<open>WINFO_PDQ\<close>,
  \<open>WINFO_MBX\<close> and \<open>WINFO_MPF\<close> add to it.
\<close>

datatype winfo_union = Wercd ER | P_tmevtb "tmevtb_id option"

record WINFO =
  winfo :: winfo_union
  p_wobjcb :: wobj
  w_waiptn :: FLGPTN
  w_wfmode :: MODE
  w_flgptn :: FLGPTN
  w_data :: intptr_t
  w_datapri :: PRI
  w_msg :: "nat option"
  w_blk :: nat

record TCB =
  p_tinib :: TINIB
  tstat :: "8 word"
  bpriority :: nat
  priority :: nat
  actque :: bool
  wupque :: bool
  enatex :: bool
  texptn :: TEXPTN
  p_winfo :: WINFO

section \<open>Time events\<close>

record TMEVTB =
  index :: nat
  callback :: cback

record TMEVTN =
  time :: EVTTIM
  p_tmevtb :: tmevtb_id

record TMEVT =
  tmevt_heap :: "nat \<Rightarrow> TMEVTN"
  tmevtb :: "tmevtb_id \<Rightarrow> TMEVTB"
  last_index :: nat
  current_time :: EVTTIM
  min_time :: EVTTIM
  next_time :: EVTTIM

section \<open>Synchronisation and communication objects\<close>

record SEMINIB =
  sematr :: ATR
  isemcnt :: uint_t
  maxsem :: uint_t

record SEMCB =
  p_seminib :: SEMINIB
  semcnt :: uint_t

record FLGINIB =
  flgatr :: ATR
  iflgptn :: FLGPTN

record FLGCB =
  p_flginib :: FLGINIB
  flgptn :: FLGPTN

record DTQINIB =
  dtqatr :: ATR
  dtqcnt :: nat
  p_dtqmb :: "nat option"

text \<open>\<open>dtqmb\<close> is the data management area \<open>p_dtqmb\<close> points to.\<close>

record DTQCB =
  p_dtqinib :: DTQINIB
  dtq_count :: nat
  dtq_head :: nat
  dtq_tail :: nat
  dtqmb :: "nat \<Rightarrow> intptr_t"

record PDQMB =
  pdq_next :: "nat option"
  pdq_data :: intptr_t
  pdq_datapri :: PRI

record PDQINIB =
  pdqatr :: ATR
  pdqcnt :: nat
  maxdpri :: PRI
  p_pdqmb :: "nat option"

text \<open>A pointer into the management area of a priority data queue is an index into \<open>pdqmb\<close>.\<close>

record PDQCB =
  p_pdqinib :: PDQINIB
  pdq_count :: nat
  pdq_head :: "nat option"
  pdq_unused :: nat
  pdq_freelist :: "nat option"
  pdqmb :: "nat \<Rightarrow> PDQMB"

record MBXINIB =
  mbxatr :: ATR
  maxmpri :: PRI

record MBXCB =
  p_mbxinib :: MBXINIB
  pk_head :: "nat option"
  pk_last :: nat

record MPFINIB =
  mpfatr :: ATR
  blkcnt :: nat
  blksz :: nat
  mpf :: nat
  p_mpfmb :: "nat option"

text \<open>\<open>INDEX_NULL\<close> is \<open>None\<close>; \<open>mpfmb\<close> is the array \<open>p_mpfmb\<close> points to.\<close>

record MPFCB =
  p_mpfinib :: MPFINIB
  fblkcnt :: nat
  mpf_unused :: nat
  mpf_freelist :: "nat option"
  mpfmb :: "nat \<Rightarrow> nat option"

record MTXINIB =
  mtxatr :: ATR
  ceilpri :: nat

record MTXCB =
  p_mtxinib :: MTXINIB
  p_loctsk :: "tsk option"

section \<open>Time event handlers\<close>

record CYCINIB =
  cycatr :: ATR
  cyc_exinf :: intptr_t
  cychdr :: nat
  cyctim :: RELTIM
  cycphs :: RELTIM

record CYCCB =
  p_cycinib :: CYCINIB
  cycsta :: bool
  cyc_evttim :: EVTTIM

record ALMINIB =
  almatr :: ATR
  alm_exinf :: intptr_t
  almhdr :: nat

record ALMCB =
  p_alminib :: ALMINIB
  almsta :: bool

section \<open>The global variables and the configuration\<close>

text \<open>
  \<open>cpu_lock\<close> is the state \<open>t_sense_lock\<close> and \<open>i_sense_lock\<close> read, \<open>intctx\<close> what \<open>sense_context\<close>
  returns, \<open>intpri\<close> the interrupt priority mask. \<open>mtxqs\<close> holds the queues \<open>mutex_queue\<close> of the
  tasks. \<open>kmm_brk\<close> is the offset of the break of \<open>kernel_malloc\<close> in its area. \<open>pk_next\<close> and
  \<open>msgpri\<close> are the header fields of the messages in user memory, by address.
\<close>

record kernel =
  tcb :: "tsk \<Rightarrow> TCB"
  queues :: "(qhead, tsk) qstore"
  mtxqs :: "(tsk, nat) qstore"
  p_runtsk :: "tsk option"
  p_schedtsk :: "tsk option"
  reqflg :: bool
  ipmflg :: bool
  disdsp :: bool
  dspflg :: bool
  ready_primap :: "16 word"
  cpu_lock :: bool
  intctx :: bool
  intpri :: PRI
  kmm_brk :: nat
  tme :: TMEVT
  semcb :: "nat \<Rightarrow> SEMCB"
  free_semcb :: "nat list"
  flgcb :: "nat \<Rightarrow> FLGCB"
  free_flgcb :: "nat list"
  dtqcb :: "nat \<Rightarrow> DTQCB"
  free_dtqcb :: "nat list"
  pdqcb :: "nat \<Rightarrow> PDQCB"
  free_pdqcb :: "nat list"
  mbxcb :: "nat \<Rightarrow> MBXCB"
  free_mbxcb :: "nat list"
  pk_next :: "nat \<Rightarrow> nat option"
  msgpri :: "nat \<Rightarrow> PRI"
  mpfcb :: "nat \<Rightarrow> MPFCB"
  free_mpfcb :: "nat list"
  mtxcb :: "nat \<Rightarrow> MTXCB"
  free_mtxcb :: "nat list"
  cyccb :: "nat \<Rightarrow> CYCCB"
  free_cyccb :: "nat list"
  almcb :: "nat \<Rightarrow> ALMCB"
  free_almcb :: "nat list"

record kernel_cfg =
  tmax_tskid :: ID
  tmax_stskid :: ID
  tinib_table :: "nat \<Rightarrow> TINIB"
  torder_table :: "nat \<Rightarrow> ID"
  tmax_semid :: ID
  tmax_ssemid :: ID
  seminib_table :: "nat \<Rightarrow> SEMINIB"
  tmax_flgid :: ID
  tmax_sflgid :: ID
  flginib_table :: "nat \<Rightarrow> FLGINIB"
  tmax_dtqid :: ID
  tmax_sdtqid :: ID
  dtqinib_table :: "nat \<Rightarrow> DTQINIB"
  tmax_pdqid :: ID
  tmax_spdqid :: ID
  pdqinib_table :: "nat \<Rightarrow> PDQINIB"
  tmax_mbxid :: ID
  tmax_smbxid :: ID
  mbxinib_table :: "nat \<Rightarrow> MBXINIB"
  tmax_mpfid :: ID
  tmax_smpfid :: ID
  mpfinib_table :: "nat \<Rightarrow> MPFINIB"
  tmax_mtxid :: ID
  tmax_smtxid :: ID
  mtxinib_table :: "nat \<Rightarrow> MTXINIB"
  tmax_cycid :: ID
  tmax_scycid :: ID
  cycinib_table :: "nat \<Rightarrow> CYCINIB"
  tmax_almid :: ID
  tmax_salmid :: ID
  alminib_table :: "nat \<Rightarrow> ALMINIB"
  kmm :: nat
  kmmsz :: nat

text \<open>Number of tasks, \<open>tnum_tsk\<close> and \<open>tnum_stsk\<close>; \<open>TMIN_TSKID\<close> is 1.\<close>

definition tnum_tsk :: "kernel_cfg \<Rightarrow> nat" where "tnum_tsk cfg = nat (tmax_tskid cfg)"
definition tnum_stsk :: "kernel_cfg \<Rightarrow> nat" where "tnum_stsk cfg = nat (tmax_stskid cfg)"

definition INDEX_TSK :: "ID \<Rightarrow> tsk" where "INDEX_TSK tskid = nat (tskid - 1)"
definition TSKID :: "tsk \<Rightarrow> ID" where "TSKID p_tcb = int p_tcb + 1"

abbreviation runtsk :: "kernel \<Rightarrow> tsk" where "runtsk s \<equiv> the (p_runtsk s)"

definition get_tcb_self :: "ID \<Rightarrow> kernel \<Rightarrow> tsk" where
  "get_tcb_self tskid s = (if tskid = TSK_SELF then runtsk s else INDEX_TSK tskid)"

text \<open>Conversion between the external and the internal representation of a task priority.\<close>

definition INT_PRIORITY :: "PRI \<Rightarrow> nat" where "INT_PRIORITY x = nat (x - TMIN_TPRI)"
definition EXT_TSKPRI :: "nat \<Rightarrow> PRI" where "EXT_TSKPRI x = int x + TMIN_TPRI"

text \<open>Assignment to fields of a task control block and of the block \<open>p_winfo\<close> points to.\<close>

abbreviation upd_tcb :: "tsk \<Rightarrow> (TCB \<Rightarrow> TCB) \<Rightarrow> kernel \<Rightarrow> kernel" where
  "upd_tcb p g s \<equiv> s\<lparr>tcb := (tcb s)(p := g (tcb s p))\<rparr>"

abbreviation upd_winfo :: "tsk \<Rightarrow> (WINFO \<Rightarrow> WINFO) \<Rightarrow> kernel \<Rightarrow> kernel" where
  "upd_winfo p g s \<equiv> upd_tcb p (\<lambda>t. t\<lparr>p_winfo := g (p_winfo t)\<rparr>) s"

abbreviation set_tstat :: "tsk \<Rightarrow> 8 word \<Rightarrow> kernel \<Rightarrow> kernel" where
  "set_tstat p v s \<equiv> upd_tcb p (\<lambda>t. t\<lparr>tstat := v\<rparr>) s"

abbreviation tskpri :: "kernel \<Rightarrow> tsk \<Rightarrow> nat" where
  "tskpri s p \<equiv> priority (tcb s p)"

section \<open>Lock, context and dispatch primitives\<close>

text \<open>
  \<open>dispatch\<close> and its variants are the dispatcher of the ARM support code: the task
  with the highest precedence becomes the running task, or none when the ready queue is empty (the
  idle loop with \<open>p_runtsk\<close> null). A service call that blocks returns to its caller when the caller
  is dispatched again; the model gives the state right after the switch.
\<close>

definition t_lock_cpu :: "kernel \<Rightarrow> kernel" where
  "t_lock_cpu s = s\<lparr>cpu_lock := True\<rparr>"

definition t_unlock_cpu :: "kernel \<Rightarrow> kernel" where
  "t_unlock_cpu s = s\<lparr>cpu_lock := False\<rparr>"

definition i_lock_cpu :: "kernel \<Rightarrow> kernel" where
  "i_lock_cpu s = s\<lparr>cpu_lock := True\<rparr>"

definition i_unlock_cpu :: "kernel \<Rightarrow> kernel" where
  "i_unlock_cpu s = s\<lparr>cpu_lock := False\<rparr>"

definition dispatch :: "kernel \<Rightarrow> kernel" where
  "dispatch s = s\<lparr>p_runtsk := p_schedtsk s\<rparr>"

definition dispatch_if :: "bool \<times> kernel \<Rightarrow> kernel" where
  "dispatch_if r = (if fst r then dispatch (snd r) else snd r)"

definition reqflg_if :: "bool \<times> kernel \<Rightarrow> kernel" where
  "reqflg_if r = (if fst r then (snd r)\<lparr>reqflg := True\<rparr> else snd r)"

text \<open>
  The result of a service call: an error code (or a value) returned at once, or, when the call put
  the caller into a waiting state, the code that its \<open>winfo.wercd\<close> holds when it runs again.
\<close>

datatype result = Ret ER | Wait_ercd tsk

definition result_of :: "result \<Rightarrow> kernel \<Rightarrow> ER option" where
  "result_of r s = (case r of Ret e \<Rightarrow> Some e
     | Wait_ercd p \<Rightarrow> (case winfo (p_winfo (tcb s p)) of Wercd e \<Rightarrow> Some e | P_tmevtb _ \<Rightarrow> None))"

section \<open>Checks of service call arguments and contexts\<close>

definition CHECK_TSKCTX_UNL :: "kernel \<Rightarrow> bool" where
  "CHECK_TSKCTX_UNL s \<longleftrightarrow> \<not> (intctx s \<or> cpu_lock s)"

definition CHECK_INTCTX_UNL :: "kernel \<Rightarrow> bool" where
  "CHECK_INTCTX_UNL s \<longleftrightarrow> \<not> (\<not> intctx s \<or> cpu_lock s)"

definition CHECK_DISPATCH :: "kernel \<Rightarrow> bool" where
  "CHECK_DISPATCH s \<longleftrightarrow> \<not> (intctx s \<or> cpu_lock s \<or> \<not> dspflg s)"

definition VALID_TSKID :: "kernel_cfg \<Rightarrow> ID \<Rightarrow> bool" where
  "VALID_TSKID cfg tskid \<longleftrightarrow> 1 \<le> tskid \<and> tskid \<le> tmax_tskid cfg"

definition VALID_TPRI :: "PRI \<Rightarrow> bool" where
  "VALID_TPRI tpri \<longleftrightarrow> TMIN_TPRI \<le> tpri \<and> tpri \<le> TMAX_TPRI"

definition CHECK_TMOUT :: "TMO \<Rightarrow> bool" where
  "CHECK_TMOUT tmout \<longleftrightarrow> TMO_FEVR \<le> tmout"

definition CHECK_RSATR :: "ATR \<Rightarrow> ATR \<Rightarrow> bool" where
  "CHECK_RSATR atr valid_atr \<longleftrightarrow> atr AND NOT valid_atr = 0"


section \<open>Frame\<close>

text \<open>Everything but the tasks, their queues and time events, and the dispatching state.\<close>

definition objects where
  "objects s =
    (mtxqs s, ipmflg s, disdsp s, dspflg s, intctx s, intpri s, kmm_brk s, semcb s,
     free_semcb s, flgcb s, free_flgcb s, dtqcb s, free_dtqcb s, pdqcb s, free_pdqcb s,
     mbxcb s, free_mbxcb s, pk_next s, msgpri s, mpfcb s, free_mpfcb s, mtxcb s, free_mtxcb s,
     cyccb s, free_cyccb s, almcb s, free_almcb s)"

lemma objectsD:
  assumes "objects s' = objects s"
  shows "mtxqs s' = mtxqs s" "ipmflg s' = ipmflg s" "disdsp s' = disdsp s" "dspflg s' = dspflg s"
    "intctx s' = intctx s" "intpri s' = intpri s" "kmm_brk s' = kmm_brk s"
    "semcb s' = semcb s" "free_semcb s' = free_semcb s" "flgcb s' = flgcb s"
    "free_flgcb s' = free_flgcb s" "dtqcb s' = dtqcb s" "free_dtqcb s' = free_dtqcb s"
    "pdqcb s' = pdqcb s" "free_pdqcb s' = free_pdqcb s" "mbxcb s' = mbxcb s"
    "free_mbxcb s' = free_mbxcb s" "pk_next s' = pk_next s" "msgpri s' = msgpri s"
    "mpfcb s' = mpfcb s" "free_mpfcb s' = free_mpfcb s" "mtxcb s' = mtxcb s"
    "free_mtxcb s' = free_mtxcb s" "cyccb s' = cyccb s" "free_cyccb s' = free_cyccb s"
    "almcb s' = almcb s" "free_almcb s' = free_almcb s"
  using assms by (simp_all add: objects_def)

lemma objects_cong: "objects (s\<lparr>tcb := a\<rparr>) = objects s" "objects (s\<lparr>queues := b\<rparr>) = objects s"
  "objects (s\<lparr>tme := c\<rparr>) = objects s" "objects (s\<lparr>p_schedtsk := d\<rparr>) = objects s"
  "objects (s\<lparr>p_runtsk := d\<rparr>) = objects s" "objects (s\<lparr>ready_primap := e\<rparr>) = objects s"
  "objects (s\<lparr>reqflg := x\<rparr>) = objects s" "objects (s\<lparr>cpu_lock := x\<rparr>) = objects s"
  by (simp_all add: objects_def)

declare objects_cong [simp]

end
