(* ===== verification/Asp_Task.thy ===== *)
theory Asp_Task
  imports Asp_State
begin

text \<open>
  The task management module \<^verbatim>\<open>kernel/task.c\<close>: the ready queue with its priority bitmap, the task
  of highest precedence, and the transitions into and out of the runnable state. The invariant
  \<open>ready_ok\<close> says that the bitmap shows which ready queues hold tasks, that every task is in the
  queue of its priority, and that \<open>p_schedtsk\<close> is the first task of the highest non-empty queue.
  Every operation keeps it and reports a dispatch exactly when that task changed.
\<close>

section \<open>Ready queue bitmap\<close>

definition PRIMAP_BIT :: "nat \<Rightarrow> 16 word" where
  "PRIMAP_BIT pri = push_bit pri 1"

definition bitmap_search_table :: "nat list" where
  "bitmap_search_table = [0, 1, 0, 2, 0, 1, 0, 3, 0, 1, 0, 2, 0, 1, 0]"

definition bitmap_search :: "16 word \<Rightarrow> nat" where
  "bitmap_search bitmap =
    (let n = 0;
         (bitmap, n) = (if bitmap AND 0x00ff = 0 then (drop_bit 8 bitmap, n + 8) else (bitmap, n));
         (bitmap, n) = (if bitmap AND 0x0f = 0 then (drop_bit 4 bitmap, n + 4) else (bitmap, n))
     in n + bitmap_search_table ! (unat (bitmap AND 0x0f) - 1))"

definition primap_empty :: "kernel \<Rightarrow> bool" where
  "primap_empty s \<longleftrightarrow> ready_primap s = 0"

definition primap_search :: "kernel \<Rightarrow> nat" where
  "primap_search s = bitmap_search (ready_primap s)"

definition primap_set :: "nat \<Rightarrow> kernel \<Rightarrow> kernel" where
  "primap_set pri s = s\<lparr>ready_primap := ready_primap s OR PRIMAP_BIT pri\<rparr>"

definition primap_clear :: "nat \<Rightarrow> kernel \<Rightarrow> kernel" where
  "primap_clear pri s = s\<lparr>ready_primap := ready_primap s AND NOT (PRIMAP_BIT pri)\<rparr>"

section \<open>Operations\<close>

definition search_schedtsk :: "kernel \<Rightarrow> tsk" where
  "search_schedtsk s = (let schedpri = primap_search s in hd (queues s (ReadyQ schedpri)))"

definition make_runnable :: "tsk \<Rightarrow> kernel \<Rightarrow> bool \<times> kernel" where
  "make_runnable p_tcb s =
    (let pri = tskpri s p_tcb;
         s = s\<lparr>queues := q_insert_prev (ReadyQ pri) p_tcb (queues s)\<rparr>;
         s = primap_set pri s
     in if p_schedtsk s = None \<or> pri < tskpri s (the (p_schedtsk s))
        then (dspflg s, s\<lparr>p_schedtsk := Some p_tcb\<rparr>)
        else (False, s))"

definition make_non_runnable :: "tsk \<Rightarrow> kernel \<Rightarrow> bool \<times> kernel" where
  "make_non_runnable p_tcb s =
    (let pri = tskpri s p_tcb;
         s = s\<lparr>queues := q_delete p_tcb (queues s)\<rparr>
     in if q_empty (ReadyQ pri) (queues s)
        then (let s = primap_clear pri s
              in if p_schedtsk s = Some p_tcb
                 then (dspflg s,
                       s\<lparr>p_schedtsk := if primap_empty s then None else Some (search_schedtsk s)\<rparr>)
                 else (False, s))
        else (if p_schedtsk s = Some p_tcb
              then (dspflg s, s\<lparr>p_schedtsk := Some (hd (queues s (ReadyQ pri)))\<rparr>)
              else (False, s)))"

definition make_dormant :: "tsk \<Rightarrow> kernel \<Rightarrow> kernel" where
  "make_dormant p_tcb s =
    upd_tcb p_tcb (\<lambda>t. t\<lparr>tstat := TS_DORMANT,
                        bpriority := ipriority (p_tinib t),
                        priority := ipriority (p_tinib t),
                        wupque := False,
                        enatex := False,
                        texptn := 0\<rparr>) s"

text \<open>\<open>activate_context\<close> sets up the machine context of the task, which is not part of the model.\<close>

definition make_active :: "tsk \<Rightarrow> kernel \<Rightarrow> bool \<times> kernel" where
  "make_active p_tcb s = make_runnable p_tcb (set_tstat p_tcb TS_RUNNABLE s)"

text \<open>
  From \<^verbatim>\<open>wait.h\<close>: the attribute in the common part of the initialisation block of an object, and
  the new position of a waiting task whose priority changed.
\<close>

definition wobjatr :: "kernel \<Rightarrow> wobj \<Rightarrow> ATR" where
  "wobjatr s w = (case w of
      SEM i \<Rightarrow> sematr (p_seminib (semcb s i))
    | FLG i \<Rightarrow> flgatr (p_flginib (flgcb s i))
    | DTQ i \<Rightarrow> dtqatr (p_dtqinib (dtqcb s i))
    | PDQ i \<Rightarrow> pdqatr (p_pdqinib (pdqcb s i))
    | MBX i \<Rightarrow> mbxatr (p_mbxinib (mbxcb s i))
    | MPF i \<Rightarrow> mpfatr (p_mpfinib (mpfcb s i))
    | MTX i \<Rightarrow> mtxatr (p_mtxinib (mtxcb s i)))"

definition wobj_change_priority :: "wobj \<Rightarrow> tsk \<Rightarrow> kernel \<Rightarrow> kernel" where
  "wobj_change_priority w p_tcb s =
    (if wobjatr s w AND TA_TPRI \<noteq> 0
     then (let s = s\<lparr>queues := q_delete p_tcb (queues s)\<rparr>
           in s\<lparr>queues := q_insert_tpri (tskpri s) (WaitQ w) p_tcb (queues s)\<rparr>)
     else s)"

definition change_priority :: "tsk \<Rightarrow> nat \<Rightarrow> bool \<Rightarrow> kernel \<Rightarrow> bool \<times> kernel" where
  "change_priority p_tcb newpri mtxmode s =
    (let oldpri = tskpri s p_tcb;
         s = upd_tcb p_tcb (\<lambda>t. t\<lparr>priority := newpri\<rparr>) s
     in if TSTAT_RUNNABLE (tstat (tcb s p_tcb))
        then (let s = s\<lparr>queues := q_delete p_tcb (queues s)\<rparr>;
                  s = (if q_empty (ReadyQ oldpri) (queues s) then primap_clear oldpri s else s);
                  s = (if mtxmode
                       then s\<lparr>queues := q_insert_next (ReadyQ newpri) p_tcb (queues s)\<rparr>
                       else s\<lparr>queues := q_insert_prev (ReadyQ newpri) p_tcb (queues s)\<rparr>);
                  s = primap_set newpri s
              in if p_schedtsk s = Some p_tcb
                 then (if newpri \<ge> oldpri
                       then (let s = s\<lparr>p_schedtsk := Some (search_schedtsk s)\<rparr>
                             in (p_schedtsk s \<noteq> Some p_tcb \<and> dspflg s, s))
                       else (False, s))
                 else (if (if mtxmode then newpri \<le> tskpri s (the (p_schedtsk s))
                           else newpri < tskpri s (the (p_schedtsk s)))
                       then (dspflg s, s\<lparr>p_schedtsk := Some p_tcb\<rparr>)
                       else (False, s)))
        else (if TSTAT_WAIT_WOBJCB (tstat (tcb s p_tcb))
              then (False, wobj_change_priority (p_wobjcb (p_winfo (tcb s p_tcb))) p_tcb s)
              else (False, s)))"

definition rotate_ready_queue :: "nat \<Rightarrow> kernel \<Rightarrow> bool \<times> kernel" where
  "rotate_ready_queue pri s =
    (if \<not> q_empty (ReadyQ pri) (queues s) \<and> tl (queues s (ReadyQ pri)) \<noteq> []
     then (let (p_entry, q) = q_delete_next (ReadyQ pri) (queues s);
               s = s\<lparr>queues := q_insert_prev (ReadyQ pri) p_entry q\<rparr>
           in if p_schedtsk s = Some p_entry
              then (dspflg s, s\<lparr>p_schedtsk := Some (hd (queues s (ReadyQ pri)))\<rparr>)
              else (False, s))
     else (False, s))"

text \<open>
  Initialisation. The first loop goes over the statically created tasks in the order of
  \<open>torder_table\<close>, the second puts the remaining control blocks into the free list.
\<close>

definition initialize_task_body :: "kernel_cfg \<Rightarrow> nat \<Rightarrow> kernel \<Rightarrow> kernel" where
  "initialize_task_body cfg i s =
    (let j = INDEX_TSK (torder_table cfg i);
         s = upd_tcb j (\<lambda>t. t\<lparr>p_tinib := tinib_table cfg j\<rparr>) s;
         s = upd_tcb j (\<lambda>t. t\<lparr>actque := False\<rparr>) s;
         s = make_dormant j s;
         s = s\<lparr>mtxqs := q_initialize j (mtxqs s)\<rparr>
     in if tskatr (p_tinib (tcb s j)) AND TA_ACT \<noteq> 0 then snd (make_active j s) else s)"

definition initialize_task_free :: "nat \<Rightarrow> kernel \<Rightarrow> kernel" where
  "initialize_task_free i s =
    (let s = upd_tcb i (\<lambda>t. t\<lparr>p_tinib := (p_tinib t)\<lparr>tskatr := TA_NOEXS\<rparr>\<rparr>) s
     in s\<lparr>queues := q_insert_prev FreeTcb i (queues s)\<rparr>)"

definition initialize_task :: "kernel_cfg \<Rightarrow> kernel \<Rightarrow> kernel" where
  "initialize_task cfg s =
    (let s = s\<lparr>p_runtsk := None, p_schedtsk := None, reqflg := False, ipmflg := True,
               disdsp := False, dspflg := True\<rparr>;
         s = s\<lparr>queues := fold (\<lambda>i. q_initialize (ReadyQ i)) [0..<TNUM_TPRI] (queues s)\<rparr>;
         s = s\<lparr>ready_primap := 0\<rparr>;
         s = fold (initialize_task_body cfg) [0..<tnum_stsk cfg] s;
         s = s\<lparr>queues := q_initialize FreeTcb (queues s)\<rparr>
     in fold initialize_task_free [tnum_stsk cfg..<tnum_tsk cfg] s)"

section \<open>The bitmap search\<close>

lemma least_bit_drop:
  fixes w :: "16 word"
  assumes "\<And>i. i < k \<Longrightarrow> \<not> bit w i" and "w \<noteq> 0"
  shows "(LEAST i. bit w i) = k + (LEAST i. bit (drop_bit k w) i)" and "drop_bit k w \<noteq> 0"
proof -
  obtain j where j: "bit w j" using assms(2) by (metis bit_eqI bit_0_eq bot_apply bot_bool_def)
  then have "k \<le> j" using assms(1) leI by blast
  then have "bit (drop_bit k w) (j - k)" using j by (simp add: bit_drop_bit_eq)
  then have l: "bit (drop_bit k w) (LEAST i. bit (drop_bit k w) i)" by (rule LeastI)
  then show "drop_bit k w \<noteq> 0" by auto
  show "(LEAST i. bit w i) = k + (LEAST i. bit (drop_bit k w) i)"
  proof (rule Least_nat_eqI)
    show "bit w (k + (LEAST i. bit (drop_bit k w) i))" using l by (simp add: bit_drop_bit_eq)
    fix m assume m: "m < k + (LEAST i. bit (drop_bit k w) i)"
    show "\<not> bit w m"
    proof (cases "m < k")
      case False
      then have "\<not> bit (drop_bit k w) (m - k)" using m by (intro not_less_Least) auto
      then show ?thesis using False by (simp add: bit_drop_bit_eq)
    qed (rule assms(1))
  qed
qed

lemma bit_and_mask_iff: "n < k \<Longrightarrow> bit (w AND mask k) n = bit (w :: 16 word) n"
  by (auto simp: bit_and_iff bit_mask_iff dest: bit_imp_le_length)

lemma and_mask_zero_bits: "w AND mask k = (0 :: 16 word) \<Longrightarrow> i < k \<Longrightarrow> \<not> bit w i"
  using bit_and_mask_iff[of i k w] by simp

lemma mask_16: "(0x0f :: 16 word) = mask 4" "(0x00ff :: 16 word) = mask 8"
  by (simp_all add: mask_eq_exp_minus_1)

lemma nibble_search:
  assumes "w AND 0x0f \<noteq> (0 :: 16 word)"
  shows "bitmap_search_table ! (unat (w AND 0x0f) - 1) = (LEAST i. bit w i)"
proof -
  define k where "k = unat (w AND 0x0f)"
  have w: "w AND 0x0f = of_nat k" by (simp add: k_def)
  have "k < 16"
    by (simp add: k_def mask_16 take_bit_eq_mask[symmetric] unsigned_take_bit_eq take_bit_nat_def)
  moreover have "k \<noteq> 0" using assms by (simp add: k_def unat_0_iff)
  ultimately have "k \<in> {1, 2, 3, 4, 5, 6, 7, 8, 9, 10, 11, 12, 13, 14, 15}" by (simp, arith)
  then have "bit k (bitmap_search_table ! (k - 1)) \<and> bitmap_search_table ! (k - 1) < 4 \<and>
      (\<forall>i < bitmap_search_table ! (k - 1). \<not> bit k i)"
    unfolding bitmap_search_table_def
    by (elim insertE emptyE; simp only:; code_simp)
  moreover have "bit (w AND 0x0f) i = bit k i" if "i < 4" for i
    using that unfolding w by (simp add: bit_of_nat_iff)
  ultimately have "bit w (bitmap_search_table ! (k - 1)) \<and>
      (\<forall>i < bitmap_search_table ! (k - 1). \<not> bit w i)"
    unfolding mask_16 by (auto simp: bit_and_mask_iff)
  then show ?thesis
    unfolding k_def[symmetric] by (intro Least_nat_eqI[symmetric]) auto
qed

lemma bitmap_search_least:
  assumes "bitmap \<noteq> 0"
  shows "bitmap_search bitmap = (LEAST i. bit bitmap i)"
proof -
  define b n where "b = (if bitmap AND 0x00ff = 0 then drop_bit 8 bitmap else bitmap)"
    and "n = (if bitmap AND 0x00ff = 0 then 8 else 0 :: nat)"
  have b: "(LEAST i. bit bitmap i) = n + (LEAST i. bit b i)" "b \<noteq> 0"
    using least_bit_drop[of 8 bitmap] and_mask_zero_bits[of bitmap 8] assms
    by (auto simp: b_def n_def mask_16)
  have s: "bitmap_search bitmap = n + (if b AND 0x0f = 0
      then 4 + bitmap_search_table ! (unat (drop_bit 4 b AND 0x0f) - 1)
      else bitmap_search_table ! (unat (b AND 0x0f) - 1))"
    by (simp add: bitmap_search_def b_def n_def Let_def)
  show ?thesis
  proof (cases "b AND 0x0f = 0")
    case False
    then show ?thesis using b(1) s nibble_search[OF False] by simp
  next
    case True
    note d = least_bit_drop[of 4 b, OF and_mask_zero_bits[of b 4] b(2)]
    have "drop_bit 4 b AND 0x0f \<noteq> 0"
    proof
      assume z: "drop_bit 4 b AND 0x0f = 0"
      have lo: "\<not> bit b i" if "i < 8" for i
        using and_mask_zero_bits[of b 4 i] and_mask_zero_bits[of "drop_bit 4 b" 4 "i - 4"] True z that
        by (cases "i < 4") (auto simp: mask_16 bit_drop_bit_eq)
      have hi: "n = 8 \<Longrightarrow> \<not> bit b i" if "8 \<le> i" for i
        using that by (auto simp: b_def n_def bit_drop_bit_eq dest: bit_imp_le_length split: if_splits)
      have "n = 8"
      proof (rule ccontr)
        assume "n \<noteq> 8"
        then have nz: "bitmap AND mask 8 \<noteq> 0" and e: "b = bitmap"
          by (auto simp: n_def b_def mask_16 split: if_splits)
        from nz obtain i where "bit (bitmap AND mask 8) i"
          by (metis bit_eqI bit_0_eq bot_apply bot_bool_def)
        then show False using lo[of i] by (simp add: e bit_and_iff bit_mask_iff)
      qed
      then have "b = 0" using lo hi by (metis bit_eqI bit_0_eq bot_apply bot_bool_def not_less)
      then show False using b(2) by simp
    qed
    then show ?thesis using b(1) s d True nibble_search[of "drop_bit 4 b"] by (simp add: mask_16)
  qed
qed

lemma bitmap_search_bit: "bitmap \<noteq> 0 \<Longrightarrow> bit bitmap (bitmap_search bitmap)"
  using bitmap_search_least[of bitmap]
  by (metis LeastI bit_eqI bit_0_eq bot_apply bot_bool_def)

lemma bitmap_search_below: "bitmap \<noteq> 0 \<Longrightarrow> i < bitmap_search bitmap \<Longrightarrow> \<not> bit bitmap i"
  using bitmap_search_least[of bitmap] not_less_Least by metis

section \<open>The invariant of the ready queue\<close>

text \<open>The task of highest precedence: the first of the first non-empty ready queue.\<close>

definition top_ready :: "(qhead, tsk) qstore \<Rightarrow> tsk option" where
  "top_ready f = (case filter (\<lambda>p. f (ReadyQ p) \<noteq> []) [0..<TNUM_TPRI] of
      [] \<Rightarrow> None
    | p # _ \<Rightarrow> Some (hd (f (ReadyQ p))))"

definition queues_ok :: "('h, 'e) qstore \<Rightarrow> bool" where
  "queues_ok f \<longleftrightarrow> (\<forall>h. distinct (f h)) \<and>
    (\<forall>h h' t. t \<in> set (f h) \<longrightarrow> t \<in> set (f h') \<longrightarrow> h = h')"

definition primap_ok :: "kernel \<Rightarrow> bool" where
  "primap_ok s \<longleftrightarrow> (\<forall>p < TNUM_TPRI. bit (ready_primap s) p \<longleftrightarrow> queues s (ReadyQ p) \<noteq> [])"

definition ready_pri_ok :: "kernel \<Rightarrow> bool" where
  "ready_pri_ok s \<longleftrightarrow>
    (\<forall>p t. t \<in> set (queues s (ReadyQ p)) \<longrightarrow> tskpri s t = p \<and> p < TNUM_TPRI)"

definition ready_ok :: "kernel \<Rightarrow> bool" where
  "ready_ok s \<longleftrightarrow> queues_ok (queues s) \<and> primap_ok s \<and> ready_pri_ok s \<and>
    p_schedtsk s = top_ready (queues s)"

subsection \<open>Lemmas on queue stores\<close>

lemma queues_okD:
  assumes "queues_ok f"
  shows "distinct (f h)" and "t \<in> set (f h) \<Longrightarrow> t \<in> set (f h') \<Longrightarrow> h = h'"
  using assms by (auto simp: queues_ok_def)

lemma q_delete_eq:
  assumes "queues_ok f" and "t \<in> set (f h)"
  shows "q_delete t f = f(h := remove1 t (f h))"
proof (rule ext)
  fix g
  show "q_delete t f g = (f(h := remove1 t (f h))) g"
    using queues_okD(2)[OF assms(1) assms(2), of g] by (auto simp: q_delete_def intro!: remove1_idem)
qed

lemma queues_ok_delete: "queues_ok f \<Longrightarrow> queues_ok (q_delete t f)"
  by (auto simp: queues_ok_def q_delete_def)

lemma q_free_delete: "queues_ok f \<Longrightarrow> q_free t (q_delete t f)"
  by (auto simp: queues_ok_def q_delete_def q_free_def)

lemma queues_ok_upd:
  assumes "queues_ok f" and "distinct xs"
    and "\<And>t h'. t \<in> set xs \<Longrightarrow> h' \<noteq> h \<Longrightarrow> t \<notin> set (f h')"
  shows "queues_ok (f(h := xs))"
  using assms by (auto simp: queues_ok_def)

lemma queues_ok_insert:
  assumes "queues_ok f" and "q_free t f" and "set xs = insert t (set (f h))" and "distinct xs"
  shows "queues_ok (f(h := xs))"
  using assms by (intro queues_ok_upd) (auto simp: q_free_def queues_ok_def)

lemma queues_ok_insert_prev:
  "queues_ok f \<Longrightarrow> q_free t f \<Longrightarrow> queues_ok (q_insert_prev h t f)"
  unfolding q_insert_prev_def
  by (rule queues_ok_insert) (auto simp: queues_ok_def q_free_def)

lemma queues_ok_insert_next:
  "queues_ok f \<Longrightarrow> q_free t f \<Longrightarrow> queues_ok (q_insert_next h t f)"
  unfolding q_insert_next_def
  by (rule queues_ok_insert) (auto simp: queues_ok_def q_free_def)

lemma queues_ok_insert_tpri:
  "queues_ok f \<Longrightarrow> q_free t f \<Longrightarrow> queues_ok (q_insert_tpri pr h t f)"
  unfolding q_insert_tpri_def
  by (rule queues_ok_insert) (auto simp: queues_ok_def q_free_def)

subsection \<open>Lemmas on the task of highest precedence\<close>

lemma top_ready_None: "top_ready f = None \<longleftrightarrow> (\<forall>p < TNUM_TPRI. f (ReadyQ p) = [])"
proof -
  have "filter (\<lambda>p. f (ReadyQ p) \<noteq> []) [0..<TNUM_TPRI] = [] \<longleftrightarrow> (\<forall>p < TNUM_TPRI. f (ReadyQ p) = [])"
    by (auto simp: filter_empty_conv)
  then show ?thesis
    unfolding top_ready_def
    by (cases "filter (\<lambda>p. f (ReadyQ p) \<noteq> []) [0..<TNUM_TPRI]") simp_all
qed

lemma top_ready_SomeI:
  assumes "p < TNUM_TPRI" and "f (ReadyQ p) \<noteq> []" and "\<And>q. q < p \<Longrightarrow> f (ReadyQ q) = []"
  shows "top_ready f = Some (hd (f (ReadyQ p)))"
proof -
  have "[0..<TNUM_TPRI] = [0..<p] @ p # [Suc p..<TNUM_TPRI]"
    using assms(1) upt_add_eq_append[of 0 p "TNUM_TPRI - p"] by (simp add: upt_conv_Cons)
  moreover have "filter (\<lambda>p. f (ReadyQ p) \<noteq> []) [0..<p] = []"
    using assms(3) by (simp add: filter_empty_conv)
  ultimately show ?thesis using assms(2) by (simp add: top_ready_def)
qed

lemma top_ready_SomeE:
  assumes "top_ready f = Some t"
  obtains p where "p < TNUM_TPRI" and "f (ReadyQ p) \<noteq> []" and "t = hd (f (ReadyQ p))"
    and "\<And>q. q < p \<Longrightarrow> f (ReadyQ q) = []"
proof -
  define p where "p = (LEAST q. f (ReadyQ q) \<noteq> [])"
  obtain q where q: "q < TNUM_TPRI" "f (ReadyQ q) \<noteq> []"
    using assms top_ready_None[of f] by fastforce
  have 1: "f (ReadyQ p) \<noteq> []" unfolding p_def by (rule LeastI[of _ q], rule q(2))
  have "p \<le> q" unfolding p_def by (rule Least_le, rule q(2))
  then have 2: "p < TNUM_TPRI" using q(1) by simp
  have 3: "f (ReadyQ r) = []" if "r < p" for r using not_less_Least[OF that[unfolded p_def]] by simp
  from top_ready_SomeI[of p f, OF 2 1 3] assms have "t = hd (f (ReadyQ p))" by simp
  with that 1 2 3 show ?thesis by blast
qed

lemma search_schedtsk_top:
  assumes "primap_ok s" and "ready_primap s \<noteq> 0"
  shows "top_ready (queues s) = Some (search_schedtsk s)"
proof -
  let ?p = "bitmap_search (ready_primap s)"
  have b: "bit (ready_primap s) ?p" by (rule bitmap_search_bit[OF assms(2)])
  then have p: "?p < TNUM_TPRI" by (auto dest: bit_imp_le_length)
  show ?thesis
    unfolding search_schedtsk_def primap_search_def Let_def
    using p b bitmap_search_below[OF assms(2)] assms(1)
    by (intro top_ready_SomeI) (auto simp: primap_ok_def)
qed

lemma primap_zero_iff:
  assumes "primap_ok s"
  shows "ready_primap s = 0 \<longleftrightarrow> top_ready (queues s) = None"
proof
  assume "ready_primap s = 0"
  then show "top_ready (queues s) = None" using assms by (simp add: top_ready_None primap_ok_def)
next
  assume n: "top_ready (queues s) = None"
  have "\<not> bit (ready_primap s) i" for i
    using n assms by (cases "i < TNUM_TPRI")
      (auto simp: top_ready_None primap_ok_def dest: bit_imp_le_length)
  then show "ready_primap s = 0" by (metis bit_eqI bit_0_eq bot_apply bot_bool_def)
qed

lemma bit_PRIMAP_BIT: "p < TNUM_TPRI \<Longrightarrow> bit (PRIMAP_BIT q) p \<longleftrightarrow> q = p"
  by (auto simp: PRIMAP_BIT_def bit_exp_iff)

lemma bit_primap_set [simp]:
  "p < TNUM_TPRI \<Longrightarrow> bit (ready_primap (primap_set q s)) p \<longleftrightarrow> bit (ready_primap s) p \<or> q = p"
  by (simp add: primap_set_def bit_or_iff bit_PRIMAP_BIT)

lemma bit_primap_clear [simp]:
  "p < TNUM_TPRI \<Longrightarrow> bit (ready_primap (primap_clear q s)) p \<longleftrightarrow> bit (ready_primap s) p \<and> q \<noteq> p"
  by (auto simp: primap_clear_def bit_and_iff bit_not_iff bit_PRIMAP_BIT)

lemma hd_remove1_other:
  "xs \<noteq> [] \<Longrightarrow> hd xs = t \<Longrightarrow> t \<noteq> p \<Longrightarrow> hd (remove1 p xs) = t \<and> remove1 p xs \<noteq> []"
  by (cases xs) auto

subsection \<open>Elimination of the invariant\<close>

lemma ready_okD:
  assumes "ready_ok s"
  shows "queues_ok (queues s)" and "primap_ok s" and "ready_pri_ok s"
    and "p_schedtsk s = top_ready (queues s)"
  using assms by (auto simp: ready_ok_def)

lemma ready_ok_schedtsk:
  assumes "ready_ok s" and "p_schedtsk s = Some t"
  shows "t = hd (queues s (ReadyQ (tskpri s t)))" and "queues s (ReadyQ (tskpri s t)) \<noteq> []"
    and "tskpri s t < TNUM_TPRI" and "\<And>q. q < tskpri s t \<Longrightarrow> queues s (ReadyQ q) = []"
    and "t \<in> set (queues s (ReadyQ (tskpri s t)))"
proof -
  from assms have "top_ready (queues s) = Some t" by (simp add: ready_ok_def)
  then obtain p where p: "p < TNUM_TPRI" "queues s (ReadyQ p) \<noteq> []" "t = hd (queues s (ReadyQ p))"
    "\<And>q. q < p \<Longrightarrow> queues s (ReadyQ q) = []"
    by (rule top_ready_SomeE) blast
  have "tskpri s t = p"
    using ready_okD(3)[OF assms(1)] hd_in_set[OF p(2)] p(3) by (auto simp: ready_pri_ok_def)
  with p show "t = hd (queues s (ReadyQ (tskpri s t)))" "queues s (ReadyQ (tskpri s t)) \<noteq> []"
    "tskpri s t < TNUM_TPRI" "\<And>q. q < tskpri s t \<Longrightarrow> queues s (ReadyQ q) = []"
    "t \<in> set (queues s (ReadyQ (tskpri s t)))"
    by auto
qed

section \<open>Transitions into and out of the runnable state\<close>

lemma make_runnable_queues [simp]:
  "queues (snd (make_runnable p s)) = q_insert_prev (ReadyQ (tskpri s p)) p (queues s)"
  by (simp add: make_runnable_def primap_set_def Let_def)

lemma make_non_runnable_queues [simp]:
  "queues (snd (make_non_runnable p s)) = q_delete p (queues s)"
  by (simp add: make_non_runnable_def primap_clear_def Let_def)

lemma make_runnable_ready_ok:
  assumes "ready_ok s" and "q_free p (queues s)" and "tskpri s p < TNUM_TPRI"
  shows "ready_ok (snd (make_runnable p s))"
    and "fst (make_runnable p s) \<longleftrightarrow>
      dspflg s \<and> p_schedtsk (snd (make_runnable p s)) \<noteq> p_schedtsk s"
proof -
  let ?pri = "tskpri s p" and ?f = "queues s"
  let ?g = "q_insert_prev (ReadyQ ?pri) p ?f"
  note r = ready_okD[OF assms(1)]
  define newtop where "newtop = (p_schedtsk s = None \<or> ?pri < tskpri s (the (p_schedtsk s)))"
  have m: "make_runnable p s =
      (newtop \<and> dspflg s,
       s\<lparr>queues := ?g, ready_primap := ready_primap s OR PRIMAP_BIT ?pri,
         p_schedtsk := if newtop then Some p else p_schedtsk s\<rparr>)"
    by (simp add: make_runnable_def newtop_def primap_set_def Let_def)
  have top: "top_ready ?g = (if newtop then Some p else p_schedtsk s)"
  proof (cases newtop)
    case True
    have "?f (ReadyQ q) = []" if "q \<le> ?pri" for q
    proof (cases "p_schedtsk s")
      case None
      then have "top_ready ?f = None" using r(4) by simp
      then show ?thesis using that assms(3) by (simp add: top_ready_None)
    next
      case (Some t)
      then have "?pri < tskpri s t" using True by (simp add: newtop_def)
      then show ?thesis using ready_ok_schedtsk(4)[OF assms(1) Some] that by simp
    qed
    then show ?thesis
      using True assms(3) top_ready_SomeI[of ?pri ?g] by (simp add: q_insert_prev_def)
  next
    case False
    then obtain t where t: "p_schedtsk s = Some t" "tskpri s t \<le> ?pri"
      by (auto simp: newtop_def)
    note h = ready_ok_schedtsk[OF assms(1) t(1)]
    have "top_ready ?g = Some (hd (?g (ReadyQ (tskpri s t))))"
      using h t(2) by (intro top_ready_SomeI) (auto simp: q_insert_prev_def)
    moreover have "hd (?g (ReadyQ (tskpri s t))) = t"
      using h(1,2) unfolding q_insert_prev_def by (metis fun_upd_apply hd_append2)
    ultimately show ?thesis using False t(1) by simp
  qed
  have "p_schedtsk s \<noteq> Some p"
    using ready_ok_schedtsk(5)[OF assms(1), of p] assms(2) by (auto simp: q_free_def)
  then show "fst (make_runnable p s) \<longleftrightarrow> dspflg s \<and> p_schedtsk (snd (make_runnable p s)) \<noteq> p_schedtsk s"
    by (auto simp: m)
  have "queues_ok ?g" using r(1) assms(2) by (rule queues_ok_insert_prev)
  moreover have "primap_ok (snd (make_runnable p s))"
    using r(2) by (auto simp: m primap_ok_def bit_or_iff bit_PRIMAP_BIT q_insert_prev_def)
  moreover have "ready_pri_ok (snd (make_runnable p s))"
    using r(3) assms(3) by (auto simp: m ready_pri_ok_def q_insert_prev_def split: if_splits)
  ultimately show "ready_ok (snd (make_runnable p s))" using top by (auto simp: ready_ok_def m)
qed

lemma make_non_runnable_ready_ok:
  assumes "ready_ok s" and "p \<in> set (queues s (ReadyQ (tskpri s p)))"
  shows "ready_ok (snd (make_non_runnable p s))"
    and "fst (make_non_runnable p s) \<longleftrightarrow> dspflg s \<and> p_schedtsk s = Some p"
    and "p_schedtsk s = Some p \<longleftrightarrow> p_schedtsk (snd (make_non_runnable p s)) \<noteq> p_schedtsk s"
proof -
  let ?pri = "tskpri s p" and ?f = "queues s"
  let ?g = "q_delete p ?f" and ?s = "snd (make_non_runnable p s)"
  note r = ready_okD[OF assms(1)]
  have pri: "?pri < TNUM_TPRI" using r(3) assms(2) unfolding ready_pri_ok_def by blast
  have g: "?g = ?f(ReadyQ ?pri := remove1 p (?f (ReadyQ ?pri)))"
    using r(1) assms(2) by (rule q_delete_eq)
  have pmap: "ready_primap ?s = (if ?g (ReadyQ ?pri) = [] then ready_primap (primap_clear ?pri s)
      else ready_primap s)"
    by (simp add: make_non_runnable_def Let_def q_empty_def primap_clear_def)
  have ne: "?f (ReadyQ ?pri) \<noteq> []" using assms(2) by auto
  have "bit (ready_primap ?s) q \<longleftrightarrow> ?g (ReadyQ q) \<noteq> []" if "q < TNUM_TPRI" for q
    using r(2) that ne unfolding pmap primap_ok_def by (cases "q = ?pri") (simp_all add: g)
  then have primap: "primap_ok ?s" by (simp add: primap_ok_def)
  have top: "p_schedtsk ?s = top_ready ?g"
  proof (cases "p_schedtsk s = Some p")
    case True
    note h = ready_ok_schedtsk[OF assms(1) True]
    show ?thesis
    proof (cases "?g (ReadyQ ?pri) = []")
      case e: True
      have "search_schedtsk (primap_clear ?pri (s\<lparr>queues := ?g\<rparr>)) = search_schedtsk ?s"
        by (simp add: search_schedtsk_def primap_search_def pmap e primap_clear_def)
      then show ?thesis
        using True e pmap search_schedtsk_top[OF primap] primap_zero_iff[OF primap]
        by (auto simp: make_non_runnable_def Let_def q_empty_def primap_empty_def primap_clear_def)
    next
      case ne: False
      have "top_ready ?g = Some (hd (?g (ReadyQ ?pri)))"
        using ne h pri by (intro top_ready_SomeI) (auto simp: g)
      then show ?thesis using True ne by (simp add: make_non_runnable_def Let_def q_empty_def)
    qed
  next
    case False
    have "top_ready ?f \<noteq> None" using ne pri by (auto simp: top_ready_None)
    then obtain t where t: "p_schedtsk s = Some t" using r(4) by auto
    note h = ready_ok_schedtsk[OF assms(1) t]
    have nt: "t \<noteq> p" using False t by simp
    have "hd (?g (ReadyQ (tskpri s t))) = t \<and> ?g (ReadyQ (tskpri s t)) \<noteq> []"
      using hd_remove1_other[OF h(2) h(1)[symmetric] nt] by (simp add: q_delete_def)
    then have "top_ready ?g = Some t"
      using top_ready_SomeI[of "tskpri s t" ?g] h(3,4) by (auto simp: q_delete_def)
    then show ?thesis
      using False t by (simp add: make_non_runnable_def Let_def primap_clear_def)
  qed
  have "ready_pri_ok ?s"
    using r(3) by (auto simp: ready_pri_ok_def make_non_runnable_def Let_def g primap_clear_def
        dest: notin_set_remove1 split: if_splits)
  then show "ready_ok ?s"
    using primap top queues_ok_delete[OF r(1)] by (auto simp: ready_ok_def)
  show "fst (make_non_runnable p s) \<longleftrightarrow> dspflg s \<and> p_schedtsk s = Some p"
    by (auto simp: make_non_runnable_def Let_def primap_clear_def)
  have "top_ready ?g \<noteq> Some p"
    using q_free_delete[OF r(1), of p] by (metis hd_in_set q_free_def top_ready_SomeE)
  moreover have "p_schedtsk ?s = p_schedtsk s" if "p_schedtsk s \<noteq> Some p"
    using that by (simp add: make_non_runnable_def Let_def primap_clear_def)
  ultimately show "p_schedtsk s = Some p \<longleftrightarrow> p_schedtsk ?s \<noteq> p_schedtsk s"
    using top by auto
qed

section \<open>Change of priority and rotation\<close>

text \<open>Moving a runnable task to another ready queue, at its end or, for mutexes, at its front.\<close>

definition move_ready :: "bool \<Rightarrow> nat \<Rightarrow> tsk \<Rightarrow> (qhead, tsk) qstore \<Rightarrow> (qhead, tsk) qstore" where
  "move_ready mtxmode newpri p f =
    (if mtxmode then q_insert_next (ReadyQ newpri) p (q_delete p f)
     else q_insert_prev (ReadyQ newpri) p (q_delete p f))"

lemma move_ready_other: "q \<noteq> newpri \<Longrightarrow> move_ready m newpri p f (ReadyQ q) = remove1 p (f (ReadyQ q))"
  by (simp add: move_ready_def queue_simps)

lemma move_ready_new:
  "move_ready m newpri p f (ReadyQ newpri) =
    (if m then p # remove1 p (f (ReadyQ newpri)) else remove1 p (f (ReadyQ newpri)) @ [p])"
  by (simp add: move_ready_def queue_simps)

lemma queues_ok_move_ready: "queues_ok f \<Longrightarrow> queues_ok (move_ready m newpri p f)"
  by (simp add: move_ready_def queues_ok_insert_next queues_ok_insert_prev queues_ok_delete
      q_free_delete)

lemma change_priority_runnable:
  assumes "TSTAT_RUNNABLE (tstat (tcb s p))"
  shows "queues (snd (change_priority p newpri m s)) = move_ready m newpri p (queues s)"
    and "tcb (snd (change_priority p newpri m s)) =
      (tcb s)(p := (tcb s p)\<lparr>priority := newpri\<rparr>)"
  using assms by (simp_all add: change_priority_def move_ready_def Let_def primap_set_def primap_clear_def)

lemma change_priority_primap:
  assumes "ready_ok s" and "p \<in> set (queues s (ReadyQ (tskpri s p)))"
    and "TSTAT_RUNNABLE (tstat (tcb s p))" and "newpri < TNUM_TPRI"
  shows "primap_ok (snd (change_priority p newpri m s))"
proof -
  let ?f = "queues s" and ?old = "tskpri s p" and ?s = "snd (change_priority p newpri m s)"
  note r = ready_okD[OF assms(1)]
  have pm: "ready_primap ?s =
      (if remove1 p (?f (ReadyQ ?old)) = [] then ready_primap (primap_clear ?old s)
       else ready_primap s) OR PRIMAP_BIT newpri"
    using assms(3) by (simp add: change_priority_def Let_def primap_set_def primap_clear_def
        q_empty_def q_delete_def)
  have o: "remove1 p (?f (ReadyQ q)) = ?f (ReadyQ q)" if "q \<noteq> ?old" for q
    using that queues_okD(2)[OF r(1) assms(2), of "ReadyQ q"] by (intro remove1_idem) auto
  have ne: "?f (ReadyQ ?old) \<noteq> []" using assms(2) by auto
  have "bit (ready_primap ?s) q \<longleftrightarrow> move_ready m newpri p ?f (ReadyQ q) \<noteq> []" if "q < TNUM_TPRI" for q
  proof (cases "q = newpri")
    case True
    then show ?thesis using that by (simp add: pm move_ready_new bit_or_iff bit_PRIMAP_BIT)
  next
    case False
    then show ?thesis
      using that r(2) ne o unfolding pm primap_ok_def
      by (cases "q = ?old") (simp_all add: move_ready_other bit_or_iff bit_PRIMAP_BIT)
  qed
  then show ?thesis by (simp add: primap_ok_def change_priority_runnable[OF assms(3)])
qed

lemma change_priority_top:
  assumes "ready_ok s" and "p \<in> set (queues s (ReadyQ (tskpri s p)))"
    and "TSTAT_RUNNABLE (tstat (tcb s p))" and "newpri < TNUM_TPRI"
  shows "p_schedtsk (snd (change_priority p newpri m s)) = top_ready (move_ready m newpri p (queues s))"
proof -
  let ?f = "queues s" and ?old = "tskpri s p" and ?s = "snd (change_priority p newpri m s)"
  let ?g = "move_ready m newpri p ?f"
  note r = ready_okD[OF assms(1)]
  have topnew: "top_ready ?g = Some p"
    if "\<And>q. q < newpri \<Longrightarrow> ?f (ReadyQ q) = []" and "m \<or> ?f (ReadyQ newpri) = []"
  proof -
    have "hd (?g (ReadyQ newpri)) = p" using that(2) by (auto simp: move_ready_new)
    moreover have "top_ready ?g = Some (hd (?g (ReadyQ newpri)))"
      using that(1) assms(4) by (intro top_ready_SomeI) (auto simp: move_ready_other move_ready_new)
    ultimately show ?thesis by simp
  qed
  show ?thesis
  proof (cases "p_schedtsk s = Some p")
    case True
    note h = ready_ok_schedtsk[OF assms(1) True]
    show ?thesis
    proof (cases "newpri \<ge> ?old")
      case ge: True
      have sch: "p_schedtsk ?s = Some (search_schedtsk ?s)"
        using True ge assms(3)
        by (simp add: change_priority_def Let_def primap_set_def primap_clear_def
            search_schedtsk_def primap_search_def)
      have pok: "primap_ok ?s" by (rule change_priority_primap[OF assms])
      have "top_ready (queues ?s) \<noteq> None"
        using assms(4) by (auto simp: top_ready_None change_priority_runnable[OF assms(3)] move_ready_new
            split: if_splits)
      then show ?thesis
        using search_schedtsk_top[OF pok] primap_zero_iff[OF pok] sch
        by (simp add: change_priority_runnable[OF assms(3)])
    next
      case lt: False
      then have "p_schedtsk ?s = Some p"
        using True assms(3) by (simp add: change_priority_def Let_def primap_set_def primap_clear_def)
      then show ?thesis using topnew h(4) lt by simp
    qed
  next
    case False
    have "top_ready ?f \<noteq> None"
      using assms(2) r(3) unfolding ready_pri_ok_def top_ready_None by fastforce
    then obtain t where t: "p_schedtsk s = Some t" using r(4) by auto
    note h = ready_ok_schedtsk[OF assms(1) t]
    have nt: "t \<noteq> p" using False t by simp
    define up where "up = (if m then newpri \<le> tskpri s t else newpri < tskpri s t)"
    have sch: "p_schedtsk ?s = (if up then Some p else Some t)"
      using False t nt assms(3)
      by (simp add: change_priority_def Let_def primap_set_def primap_clear_def up_def)
    show ?thesis
    proof (cases up)
      case True
      have "m \<or> ?f (ReadyQ newpri) = []" "\<And>q. q < newpri \<Longrightarrow> ?f (ReadyQ q) = []"
        using True h(4) unfolding up_def by (auto split: if_splits)
      then show ?thesis using topnew sch True by simp
    next
      case no: False
      note k = hd_remove1_other[OF h(2) h(1)[symmetric] nt]
      have c: "if m then tskpri s t < newpri else tskpri s t \<le> newpri"
        using no by (auto simp: up_def split: if_splits)
      then have "hd (?g (ReadyQ (tskpri s t))) = t \<and> ?g (ReadyQ (tskpri s t)) \<noteq> []"
        using k by (cases "tskpri s t = newpri") (auto simp: move_ready_other move_ready_new split: if_splits)
      moreover have "?g (ReadyQ q) = []" if "q < tskpri s t" for q
        using h(4)[OF that] c that by (subst move_ready_other) (auto split: if_splits)
      ultimately show ?thesis
        using top_ready_SomeI[of "tskpri s t" ?g] h(3) sch no by simp
    qed
  qed
qed

lemma change_priority_ready_ok:
  assumes "ready_ok s" and "p \<in> set (queues s (ReadyQ (tskpri s p)))"
    and "TSTAT_RUNNABLE (tstat (tcb s p))" and "newpri < TNUM_TPRI"
  shows "ready_ok (snd (change_priority p newpri m s))"
    and "fst (change_priority p newpri m s) \<longleftrightarrow>
      dspflg s \<and> p_schedtsk (snd (change_priority p newpri m s)) \<noteq> p_schedtsk s"
proof -
  let ?s = "snd (change_priority p newpri m s)"
  note r = ready_okD[OF assms(1)] and c = change_priority_runnable[OF assms(3)]
  have "ready_pri_ok ?s"
    using r(1,3) assms(2,4) unfolding ready_pri_ok_def c move_ready_def
    by (auto simp: queue_simps queues_ok_def split: if_splits)
  then show "ready_ok ?s"
    using change_priority_primap[OF assms] change_priority_top[OF assms] queues_ok_move_ready[OF r(1)]
    by (simp add: ready_ok_def c)
  show "fst (change_priority p newpri m s) \<longleftrightarrow> dspflg s \<and> p_schedtsk ?s \<noteq> p_schedtsk s"
    using assms(3) by (auto simp: change_priority_def Let_def primap_set_def primap_clear_def)
qed

lemma rotate_ready_queue_queues:
  "queues (snd (rotate_ready_queue pri s)) =
    (queues s)(ReadyQ pri := rotate1 (queues s (ReadyQ pri)))"
proof (cases "queues s (ReadyQ pri)")
  case Nil
  then show ?thesis by (auto simp: rotate_ready_queue_def queue_simps)
next
  case (Cons x xs)
  then show ?thesis
    by (cases xs) (auto simp: rotate_ready_queue_def queue_simps Let_def)
qed

lemma rotate_ready_queue_ready_ok:
  assumes "ready_ok s"
  shows "ready_ok (snd (rotate_ready_queue pri s))"
    and "fst (rotate_ready_queue pri s) \<longleftrightarrow>
      dspflg s \<and> p_schedtsk (snd (rotate_ready_queue pri s)) \<noteq> p_schedtsk s"
proof -
  let ?f = "queues s" and ?s = "snd (rotate_ready_queue pri s)"
  let ?g = "?f(ReadyQ pri := rotate1 (?f (ReadyQ pri)))"
  note r = ready_okD[OF assms]
  have main: "ready_ok ?s \<and> (fst (rotate_ready_queue pri s) \<longleftrightarrow> dspflg s \<and> p_schedtsk ?s \<noteq> p_schedtsk s)"
  proof (cases "\<exists>x y ys. ?f (ReadyQ pri) = x # y # ys")
    case False
    then have "rotate_ready_queue pri s = (False, s)"
      by (cases "?f (ReadyQ pri)"; cases "tl (?f (ReadyQ pri))")
        (auto simp: rotate_ready_queue_def queue_simps)
    then show ?thesis using assms by simp
  next
    case True
    then obtain x y ys where q: "?f (ReadyQ pri) = x # y # ys" by blast
    have pri: "pri < TNUM_TPRI" and tp: "tskpri s x = pri"
      using r(3) q unfolding ready_pri_ok_def by (metis list.set_intros(1))+
    have xy: "x \<noteq> y" using queues_okD(1)[OF r(1), of "ReadyQ pri"] q by simp
    have R: "rotate_ready_queue pri s =
        (dspflg s \<and> p_schedtsk s = Some x,
         s\<lparr>queues := ?g, p_schedtsk := if p_schedtsk s = Some x then Some y else p_schedtsk s\<rparr>)"
      by (simp add: rotate_ready_queue_def queue_simps q Let_def)
    have top: "top_ready ?g = (if p_schedtsk s = Some x then Some y else p_schedtsk s)"
    proof -
      have "top_ready ?f \<noteq> None" using q pri by (auto simp: top_ready_None)
      then obtain t where t: "p_schedtsk s = Some t" using r(4) by auto
      note h = ready_ok_schedtsk[OF assms t]
      have "top_ready ?g = Some (hd (?g (ReadyQ (tskpri s t))))"
        using h by (intro top_ready_SomeI) auto
      moreover have "tskpri s t = pri \<longleftrightarrow> t = x" using h(1) q tp by auto
      ultimately show ?thesis using t h(1) q by auto
    qed
    have "queues_ok ?g"
      using r(1) by (intro queues_ok_upd) (auto simp: queues_ok_def)
    moreover have "primap_ok ?s" using r(2) by (simp add: R primap_ok_def)
    moreover have "ready_pri_ok ?s" using r(3) by (simp add: R ready_pri_ok_def)
    ultimately have "ready_ok ?s" using top by (simp add: R ready_ok_def)
    then show ?thesis using xy by (auto simp: R)
  qed
  then show "ready_ok ?s"
    and "fst (rotate_ready_queue pri s) \<longleftrightarrow> dspflg s \<and> p_schedtsk ?s \<noteq> p_schedtsk s"
    by auto
qed

section \<open>Fields the operations leave alone\<close>

lemma objects_task [simp]:
  "objects (snd (make_runnable p s)) = objects s"
  "objects (snd (make_non_runnable p s)) = objects s"
  "objects (make_dormant p s) = objects s"
  "objects (snd (make_active p s)) = objects s"
  "objects (wobj_change_priority w p s) = objects s"
  "objects (snd (change_priority p n m s)) = objects s"
  "objects (snd (rotate_ready_queue pri s)) = objects s"
  by (simp_all add: make_runnable_def make_non_runnable_def make_dormant_def make_active_def
      wobj_change_priority_def change_priority_def rotate_ready_queue_def primap_set_def
      primap_clear_def Let_def q_delete_next_def)

lemmas make_runnable_objects [simp] = objectsD[OF objects_task(1)]
lemmas make_non_runnable_objects [simp] = objectsD[OF objects_task(2)]
lemmas make_dormant_objects [simp] = objectsD[OF objects_task(3)]
lemmas make_active_objects [simp] = objectsD[OF objects_task(4)]
lemmas wobj_change_priority_objects [simp] = objectsD[OF objects_task(5)]
lemmas change_priority_objects [simp] = objectsD[OF objects_task(6)]
lemmas rotate_ready_queue_objects [simp] = objectsD[OF objects_task(7)]

lemma make_runnable_frame [simp]:
  "tcb (snd (make_runnable p s)) = tcb s" "p_runtsk (snd (make_runnable p s)) = p_runtsk s"
  "reqflg (snd (make_runnable p s)) = reqflg s" "cpu_lock (snd (make_runnable p s)) = cpu_lock s"
  "tme (snd (make_runnable p s)) = tme s"
  by (simp_all add: make_runnable_def primap_set_def Let_def)

lemma make_non_runnable_frame [simp]:
  "tcb (snd (make_non_runnable p s)) = tcb s" "p_runtsk (snd (make_non_runnable p s)) = p_runtsk s"
  "reqflg (snd (make_non_runnable p s)) = reqflg s" "cpu_lock (snd (make_non_runnable p s)) = cpu_lock s"
  "tme (snd (make_non_runnable p s)) = tme s"
  by (simp_all add: make_non_runnable_def primap_clear_def Let_def)

lemma make_dormant_frame [simp]:
  "queues (make_dormant p s) = queues s" "p_runtsk (make_dormant p s) = p_runtsk s"
  "p_schedtsk (make_dormant p s) = p_schedtsk s" "ready_primap (make_dormant p s) = ready_primap s"
  "reqflg (make_dormant p s) = reqflg s" "cpu_lock (make_dormant p s) = cpu_lock s"
  "tme (make_dormant p s) = tme s"
  by (simp_all add: make_dormant_def)

lemma make_active_frame [simp]:
  "p_runtsk (snd (make_active p s)) = p_runtsk s" "reqflg (snd (make_active p s)) = reqflg s"
  "cpu_lock (snd (make_active p s)) = cpu_lock s" "tme (snd (make_active p s)) = tme s"
  by (simp_all add: make_active_def)

lemma change_priority_frame [simp]:
  "p_runtsk (snd (change_priority p n m s)) = p_runtsk s" "reqflg (snd (change_priority p n m s)) = reqflg s"
  "cpu_lock (snd (change_priority p n m s)) = cpu_lock s" "tme (snd (change_priority p n m s)) = tme s"
  by (simp_all add: change_priority_def wobj_change_priority_def primap_set_def primap_clear_def Let_def)

lemma rotate_ready_queue_frame [simp]:
  "tcb (snd (rotate_ready_queue pri s)) = tcb s" "p_runtsk (snd (rotate_ready_queue pri s)) = p_runtsk s"
  "reqflg (snd (rotate_ready_queue pri s)) = reqflg s" "cpu_lock (snd (rotate_ready_queue pri s)) = cpu_lock s"
  "tme (snd (rotate_ready_queue pri s)) = tme s"
  by (simp_all add: rotate_ready_queue_def Let_def q_delete_next_def)

end
