(* ===== verification/Asp_Time_Event.thy ===== *)
theory Asp_Time_Event
  imports Asp_State
begin

text \<open>
  The time event module \<^verbatim>\<open>kernel/time_event.c\<close> and \<^verbatim>\<open>time_event.h\<close>: a binary heap of time events
  in an array, with a back pointer from each time event block to its node. Times are 32-bit
  words that wrap around and are compared relative to \<open>min_time\<close>. The abstraction \<open>evts\<close> reads the
  heap as a finite map from time event blocks to their times; the locale \<open>event_queue\<close> states
  what the rest of the kernel relies on, and its interpretation shows that the heap provides it.
\<close>

section \<open>The heap operations\<close>

definition PARENT :: "nat \<Rightarrow> nat" where "PARENT i = i div 2"
definition LCHILD :: "nat \<Rightarrow> nat" where "LCHILD i = 2 * i"

definition TMEVT_NODE :: "TMEVT \<Rightarrow> nat \<Rightarrow> TMEVTN" where
  "TMEVT_NODE tm i = tmevt_heap tm (i - 1)"

definition set_node :: "nat \<Rightarrow> TMEVTN \<Rightarrow> TMEVT \<Rightarrow> TMEVT" where
  "set_node i n tm = tm\<lparr>tmevt_heap := (tmevt_heap tm)(i - 1 := n)\<rparr>"

definition set_index :: "tmevtb_id \<Rightarrow> nat \<Rightarrow> TMEVT \<Rightarrow> TMEVT" where
  "set_index b i tm = tm\<lparr>tmevtb := (tmevtb tm)(b := (tmevtb tm b)\<lparr>index := i\<rparr>)\<rparr>"

definition EVTTIM_LT :: "TMEVT \<Rightarrow> EVTTIM \<Rightarrow> EVTTIM \<Rightarrow> bool" where
  "EVTTIM_LT tm t1 t2 \<longleftrightarrow> t1 - min_time tm < t2 - min_time tm"

definition EVTTIM_LE :: "TMEVT \<Rightarrow> EVTTIM \<Rightarrow> EVTTIM \<Rightarrow> bool" where
  "EVTTIM_LE tm t1 t2 \<longleftrightarrow> t1 - min_time tm \<le> t2 - min_time tm"

text \<open>\<open>TIC_NUME\<close> and \<open>TIC_DENO\<close> are 1 on this target, so there is no \<open>next_subtime\<close>.\<close>

abbreviation TIC_NUME :: "32 word" where "TIC_NUME \<equiv> 1"

abbreviation base_time :: "TMEVT \<Rightarrow> EVTTIM" where "base_time tm \<equiv> next_time tm"

definition initialize_tmevt :: "TMEVT \<Rightarrow> TMEVT" where
  "initialize_tmevt tm = tm\<lparr>current_time := 0, min_time := 0, next_time := 0 + TIC_NUME, last_index := 0\<rparr>"

function tmevt_up :: "nat \<Rightarrow> EVTTIM \<Rightarrow> TMEVT \<Rightarrow> nat \<times> TMEVT" where
  "tmevt_up i t tm =
    (if i > 1
     then (let par = PARENT i
           in if EVTTIM_LE tm (time (TMEVT_NODE tm par)) t then (i, tm)
              else (let tm = set_node i (TMEVT_NODE tm par) tm;
                        tm = set_index (p_tmevtb (TMEVT_NODE tm i)) i tm
                    in tmevt_up par t tm))
     else (i, tm))"
  by pat_completeness auto
termination
  by (relation "measure (\<lambda>(i, t, tm). i)") (auto simp: PARENT_def)

text \<open>
  Heap positions count from 1. The first test makes the function total at position 0, which the
  kernel never passes (it would index the array at -1).
\<close>

function tmevt_down :: "nat \<Rightarrow> EVTTIM \<Rightarrow> TMEVT \<Rightarrow> nat \<times> TMEVT" where
  "tmevt_down i t tm =
    (if i = 0 then (i, tm)
     else (let child = LCHILD i
      in if child \<le> last_index tm
         then (let child =
                     (if child + 1 \<le> last_index tm \<and>
                         EVTTIM_LT tm (time (TMEVT_NODE tm (child + 1))) (time (TMEVT_NODE tm child))
                      then child + 1 else child)
               in if EVTTIM_LE tm t (time (TMEVT_NODE tm child)) then (i, tm)
                  else (let tm = set_node i (TMEVT_NODE tm child) tm;
                            tm = set_index (p_tmevtb (TMEVT_NODE tm i)) i tm
                        in tmevt_down child t tm))
         else (i, tm)))"
  by pat_completeness auto
termination
  by (relation "measure (\<lambda>(i, t, tm). last_index tm + 1 - i)")
    (auto simp: LCHILD_def set_node_def set_index_def split: if_splits)

declare tmevt_up.simps [simp del] tmevt_down.simps [simp del]

definition tmevtb_insert :: "tmevtb_id \<Rightarrow> EVTTIM \<Rightarrow> TMEVT \<Rightarrow> TMEVT" where
  "tmevtb_insert b t tm =
    (let tm = tm\<lparr>last_index := last_index tm + 1\<rparr>;
         (i, tm) = tmevt_up (last_index tm) t tm;
         tm = set_node i ((TMEVT_NODE tm i)\<lparr>time := t\<rparr>) tm;
         tm = set_node i ((TMEVT_NODE tm i)\<lparr>p_tmevtb := b\<rparr>) tm
     in set_index b i tm)"

definition tmevtb_delete :: "tmevtb_id \<Rightarrow> TMEVT \<Rightarrow> TMEVT" where
  "tmevtb_delete b tm =
    (let i = index (tmevtb tm b);
         event_time = time (TMEVT_NODE tm (last_index tm));
         tm = tm\<lparr>last_index := last_index tm - 1\<rparr>
     in if last_index tm = 0 then tm
        else (let (i, tm) =
                    (if i > 1 \<and> EVTTIM_LT tm event_time (time (TMEVT_NODE tm (PARENT i)))
                     then (let par = PARENT i;
                               tm = set_node i (TMEVT_NODE tm par) tm;
                               tm = set_index (p_tmevtb (TMEVT_NODE tm i)) i tm
                           in tmevt_up par event_time tm)
                     else tmevt_down i event_time tm);
                  tm = set_node i (TMEVT_NODE tm (last_index tm + 1)) tm
              in set_index (p_tmevtb (TMEVT_NODE tm i)) i tm))"

definition tmevtb_delete_top :: "TMEVT \<Rightarrow> TMEVT" where
  "tmevtb_delete_top tm =
    (let event_time = time (TMEVT_NODE tm (last_index tm));
         tm = tm\<lparr>last_index := last_index tm - 1\<rparr>
     in if last_index tm = 0 then tm
        else (let (i, tm) = tmevt_down 1 event_time tm;
                  tm = set_node i (TMEVT_NODE tm (last_index tm + 1)) tm
              in set_index (p_tmevtb (TMEVT_NODE tm i)) i tm))"

definition set_callback :: "tmevtb_id \<Rightarrow> cback \<Rightarrow> TMEVT \<Rightarrow> TMEVT" where
  "set_callback b cb tm = tm\<lparr>tmevtb := (tmevtb tm)(b := (tmevtb tm b)\<lparr>callback := cb\<rparr>)\<rparr>"

definition tmevtb_enqueue :: "tmevtb_id \<Rightarrow> RELTIM \<Rightarrow> cback \<Rightarrow> TMEVT \<Rightarrow> TMEVT" where
  "tmevtb_enqueue b t cb tm =
    (let tm = set_callback b cb tm in tmevtb_insert b (base_time tm + t) tm)"

definition tmevtb_enqueue_evttim :: "tmevtb_id \<Rightarrow> EVTTIM \<Rightarrow> cback \<Rightarrow> TMEVT \<Rightarrow> TMEVT" where
  "tmevtb_enqueue_evttim b t cb tm =
    (let tm = set_callback b cb tm in tmevtb_insert b t tm)"

definition tmevtb_dequeue :: "tmevtb_id \<Rightarrow> TMEVT \<Rightarrow> TMEVT" where
  "tmevtb_dequeue b tm = tmevtb_delete b tm"

definition tmevt_lefttim :: "tmevtb_id \<Rightarrow> TMEVT \<Rightarrow> RELTIM" where
  "tmevt_lefttim b tm =
    (let t = time (TMEVT_NODE tm (index (tmevtb tm b)))
     in if EVTTIM_LE tm t (next_time tm) then 0 else t - base_time tm)"

section \<open>The invariant and the abstraction\<close>

definition key :: "TMEVT \<Rightarrow> nat \<Rightarrow> EVTTIM" where
  "key tm i = time (TMEVT_NODE tm i) - min_time tm"

definition heap_ok :: "TMEVT \<Rightarrow> bool" where
  "heap_ok tm \<longleftrightarrow>
    (\<forall>j \<in> {2..last_index tm}. key tm (PARENT j) \<le> key tm j) \<and>
    (\<forall>j \<in> {1..last_index tm}. index (tmevtb tm (p_tmevtb (TMEVT_NODE tm j))) = j)"

text \<open>The registered time events: a block is registered when the node it points at points back.\<close>

definition evts :: "TMEVT \<Rightarrow> tmevtb_id \<rightharpoonup> EVTTIM" where
  "evts tm b =
    (let i = index (tmevtb tm b)
     in if 1 \<le> i \<and> i \<le> last_index tm \<and> p_tmevtb (TMEVT_NODE tm i) = b
        then Some (time (TMEVT_NODE tm i)) else None)"

text \<open>A heap with a hole at position \<open>i\<close>, and the events in its other positions.\<close>

definition hole_ok :: "TMEVT \<Rightarrow> nat \<Rightarrow> bool" where
  "hole_ok tm i \<longleftrightarrow> 1 \<le> i \<and> i \<le> last_index tm \<and>
    (\<forall>j \<in> {2..last_index tm}. j \<noteq> i \<longrightarrow> PARENT j \<noteq> i \<longrightarrow> key tm (PARENT j) \<le> key tm j) \<and>
    (\<forall>j \<in> {2..last_index tm}. 1 < i \<longrightarrow> PARENT j = i \<longrightarrow> key tm (PARENT i) \<le> key tm j) \<and>
    (\<forall>j \<in> {1..last_index tm}. j \<noteq> i \<longrightarrow> index (tmevtb tm (p_tmevtb (TMEVT_NODE tm j))) = j)"

definition hevts :: "TMEVT \<Rightarrow> nat \<Rightarrow> tmevtb_id \<rightharpoonup> EVTTIM" where
  "hevts tm i b =
    (let j = index (tmevtb tm b)
     in if 1 \<le> j \<and> j \<le> last_index tm \<and> j \<noteq> i \<and> p_tmevtb (TMEVT_NODE tm j) = b
        then Some (time (TMEVT_NODE tm j)) else None)"

text \<open>What moving events around in the heap leaves alone.\<close>

definition tme_frame :: "TMEVT \<Rightarrow> TMEVT \<Rightarrow> bool" where
  "tme_frame tm tm' \<longleftrightarrow> last_index tm' = last_index tm \<and> current_time tm' = current_time tm \<and>
    min_time tm' = min_time tm \<and> next_time tm' = next_time tm \<and>
    (\<forall>b. callback (tmevtb tm' b) = callback (tmevtb tm b)) \<and>
    (\<forall>j > last_index tm. TMEVT_NODE tm' j = TMEVT_NODE tm j)"

lemma tme_frame_refl [simp]: "tme_frame tm tm"
  by (simp add: tme_frame_def)

lemma tme_frame_trans: "tme_frame a b \<Longrightarrow> tme_frame b c \<Longrightarrow> tme_frame a c"
  by (simp add: tme_frame_def)

definition move_node :: "nat \<Rightarrow> nat \<Rightarrow> TMEVT \<Rightarrow> TMEVT" where
  "move_node c i tm = set_index (p_tmevtb (TMEVT_NODE tm c)) i (set_node i (TMEVT_NODE tm c) tm)"

lemma move_node_fold:
  "(let tm = set_node i (TMEVT_NODE tm c) tm in set_index (p_tmevtb (TMEVT_NODE tm i)) i tm) =
    move_node c i tm"
  by (simp add: move_node_def Let_def set_node_def TMEVT_NODE_def)

lemma NODE_set_node_same [simp]: "TMEVT_NODE (set_node i n tm) i = n"
  by (simp add: TMEVT_NODE_def set_node_def)

lemma NODE_set_node:
  "1 \<le> i \<Longrightarrow> 1 \<le> j \<Longrightarrow> TMEVT_NODE (set_node i n tm) j = (if j = i then n else TMEVT_NODE tm j)"
  by (auto simp: TMEVT_NODE_def set_node_def)

lemma NODE_set_index [simp]: "TMEVT_NODE (set_index b i tm) j = TMEVT_NODE tm j"
  by (simp add: TMEVT_NODE_def set_index_def)

lemma TMEVTN_upd_all [simp]: "(x :: TMEVTN)\<lparr>time := t, p_tmevtb := b\<rparr> = \<lparr>time = t, p_tmevtb = b\<rparr>"
  by (cases x) simp

lemma move_node_NODE:
  "1 \<le> i \<Longrightarrow> 1 \<le> j \<Longrightarrow>
    TMEVT_NODE (move_node c i tm) j = (if j = i then TMEVT_NODE tm c else TMEVT_NODE tm j)"
  by (auto simp: move_node_def set_index_def set_node_def TMEVT_NODE_def)

lemma move_node_sel [simp]:
  "last_index (move_node c i tm) = last_index tm" "min_time (move_node c i tm) = min_time tm"
  "current_time (move_node c i tm) = current_time tm" "next_time (move_node c i tm) = next_time tm"
  "tmevtb (move_node c i tm) =
    (tmevtb tm)(p_tmevtb (TMEVT_NODE tm c) := (tmevtb tm (p_tmevtb (TMEVT_NODE tm c)))\<lparr>index := i\<rparr>)"
  by (simp_all add: move_node_def set_index_def set_node_def)

lemma move_node_key:
  "1 \<le> i \<Longrightarrow> 1 \<le> j \<Longrightarrow> key (move_node c i tm) j = (if j = i then key tm c else key tm j)"
  by (simp add: key_def move_node_NODE)

lemma move_node_frame: "1 \<le> i \<Longrightarrow> i \<le> last_index tm \<Longrightarrow> tme_frame tm (move_node c i tm)"
  by (auto simp: tme_frame_def move_node_NODE)

text \<open>Moving the event at position \<open>c\<close> into the hole at \<open>i\<close>: the hole is at \<open>c\<close> then.\<close>

lemma move_node_back:
  assumes "hole_ok tm i" and "1 \<le> c" and "c \<le> last_index tm" and "c \<noteq> i"
    and "1 \<le> j" and "j \<le> last_index tm" and "j \<noteq> c"
  shows "index (tmevtb (move_node c i tm) (p_tmevtb (TMEVT_NODE (move_node c i tm) j))) = j"
proof -
  have i: "1 \<le> i" using assms(1) by (simp add: hole_ok_def)
  have b: "index (tmevtb tm (p_tmevtb (TMEVT_NODE tm k))) = k"
    if "1 \<le> k" "k \<le> last_index tm" "k \<noteq> i" for k
    using assms(1) that by (simp add: hole_ok_def)
  show ?thesis
    using i b[of c] b[of j] assms(2-) by (cases "j = i") (auto simp: move_node_NODE)
qed

lemma move_node_hevts:
  assumes "hole_ok tm i" and "1 \<le> c" and "c \<le> last_index tm" and "c \<noteq> i"
  shows "hevts (move_node c i tm) c = hevts tm i"
proof
  fix b
  have i: "1 \<le> i" "i \<le> last_index tm" using assms(1) by (simp_all add: hole_ok_def)
  have ic: "index (tmevtb tm (p_tmevtb (TMEVT_NODE tm c))) = c"
    using assms by (simp add: hole_ok_def)
  show "hevts (move_node c i tm) c b = hevts tm i b"
    using i ic assms(2-)
    by (cases "b = p_tmevtb (TMEVT_NODE tm c)") 
      (auto simp: hevts_def Let_def move_node_NODE split: if_splits)
qed

section \<open>The two loops\<close>

text \<open>The event of time key \<open>k\<close> fits into the hole at \<open>i\<close> with respect to its children, its parent.\<close>

definition below_ok :: "TMEVT \<Rightarrow> nat \<Rightarrow> EVTTIM \<Rightarrow> bool" where
  "below_ok tm i k \<longleftrightarrow> (\<forall>j \<in> {2..last_index tm}. PARENT j = i \<longrightarrow> k \<le> key tm j)"

definition above_ok :: "TMEVT \<Rightarrow> nat \<Rightarrow> EVTTIM \<Rightarrow> bool" where
  "above_ok tm i k \<longleftrightarrow> (1 < i \<longrightarrow> key tm (PARENT i) \<le> k)"

lemma hole_okD:
  assumes "hole_ok tm i"
  shows "1 \<le> i" and "i \<le> last_index tm"
    and "2 \<le> j \<Longrightarrow> j \<le> last_index tm \<Longrightarrow> j \<noteq> i \<Longrightarrow> PARENT j \<noteq> i \<Longrightarrow> key tm (PARENT j) \<le> key tm j"
    and "2 \<le> j \<Longrightarrow> j \<le> last_index tm \<Longrightarrow> 1 < i \<Longrightarrow> PARENT j = i \<Longrightarrow> key tm (PARENT i) \<le> key tm j"
  using assms by (auto simp: hole_ok_def)

lemma PARENT_le: "PARENT j \<le> j" "0 < j \<Longrightarrow> PARENT j < j" "2 \<le> j \<Longrightarrow> 1 \<le> PARENT j"
  by (auto simp: PARENT_def)

lemma hole_up_step:
  assumes "hole_ok tm i" and "1 < i" and "k < key tm (PARENT i)"
  shows "hole_ok (move_node (PARENT i) i tm) (PARENT i)"
    and "below_ok (move_node (PARENT i) i tm) (PARENT i) k"
proof -
  let ?p = "PARENT i" and ?tm = "move_node (PARENT i) i tm"
  note h = hole_okD[OF assms(1)]
  have p: "1 \<le> ?p" "?p < i" using assms(2) by (auto simp: PARENT_def)
  have pn: "?p \<le> last_index tm" using p(2) h(2) by simp
  have sib: "key tm ?p \<le> key tm j" if "2 \<le> j" "j \<le> last_index tm" "PARENT j = ?p" "j \<noteq> i" for j
    using h(3)[of j] that p by simp
  show "below_ok ?tm ?p k"
    unfolding below_ok_def
  proof (intro ballI impI)
    fix j assume j: "j \<in> {2..last_index ?tm}" "PARENT j = ?p"
    show "k \<le> key ?tm j"
      using sib[of j] j assms(3) h(1) by (cases "j = i") (auto simp: move_node_key)
  qed
  have "key ?tm (PARENT j) \<le> key ?tm j"
    if "2 \<le> j" "j \<le> last_index tm" "j \<noteq> ?p" "PARENT j \<noteq> ?p" for j
    using that h(1) h(3)[of j] h(4)[of j] assms(2) PARENT_le(3)[of j]
    by (cases "PARENT j = i") (auto simp: move_node_key)
  moreover have "key ?tm (PARENT ?p) \<le> key ?tm j"
    if "2 \<le> j" "j \<le> last_index tm" "1 < ?p" "PARENT j = ?p" for j
  proof -
    have pp: "1 \<le> PARENT ?p" "PARENT ?p < ?p" using that(3) by (auto simp: PARENT_def)
    have "key tm (PARENT ?p) \<le> key tm ?p" using h(3)[of ?p] that(3) p pn pp by simp
    then show ?thesis
      using sib[of j] that p pp h(1)
      by (cases "j = i") (auto simp: move_node_key intro: order_trans)
  qed
  ultimately show "hole_ok ?tm ?p"
    using p pn move_node_back[OF assms(1) p(1) pn] by (auto simp: hole_ok_def)
qed

lemma tmevt_up_ok:
  assumes "hole_ok tm i" and "below_ok tm i (t - min_time tm)" and "tmevt_up i t tm = (i', tm')"
  shows "hole_ok tm' i' \<and> below_ok tm' i' (t - min_time tm') \<and> above_ok tm' i' (t - min_time tm') \<and>
    hevts tm' i' = hevts tm i \<and> tme_frame tm tm'"
  using assms
proof (induction i t tm rule: tmevt_up.induct)
  case (1 i t tm)
  let ?p = "PARENT i" and ?tm = "move_node (PARENT i) i tm"
  note h = hole_okD[OF "1.prems"(1)]
  show ?case
  proof (cases "1 < i \<and> \<not> EVTTIM_LE tm (time (TMEVT_NODE tm ?p)) t")
    case False
    then have "(i', tm') = (i, tm)"
      using "1.prems"(3) by (subst (asm) tmevt_up.simps) (auto simp: Let_def split: if_splits)
    then show ?thesis
      using "1.prems" False by (auto simp: above_ok_def EVTTIM_LE_def key_def)
  next
    case True
    then have lt: "t - min_time tm < key tm ?p" by (auto simp: EVTTIM_LE_def key_def)
    have p: "1 \<le> ?p" "?p \<noteq> i" "?p \<le> last_index tm" using True h(2) by (auto simp: PARENT_def)
    have up: "tmevt_up ?p t ?tm = (i', tm')"
      using "1.prems"(3) True
      by (subst (asm) tmevt_up.simps)
        (simp add: Let_def move_node_def set_node_def TMEVT_NODE_def)
    have IH: "hole_ok ?tm ?p \<Longrightarrow> below_ok ?tm ?p (t - min_time ?tm) \<Longrightarrow>
        hole_ok tm' i' \<and> below_ok tm' i' (t - min_time tm') \<and> above_ok tm' i' (t - min_time tm') \<and>
        hevts tm' i' = hevts ?tm ?p \<and> tme_frame ?tm tm'"
      using "1.IH"[OF _ refl _ refl refl] True up
      by (simp add: move_node_def set_node_def TMEVT_NODE_def)
    show ?thesis
      using IH hole_up_step[OF "1.prems"(1) _ lt] True
        move_node_hevts[OF "1.prems"(1) p(1,3,2)] move_node_frame[OF h(1,2), of ?p]
      by (auto intro: tme_frame_trans)
  qed
qed

lemma hole_down_step:
  assumes "hole_ok tm i" and "2 \<le> c" and "c \<le> last_index tm" and "PARENT c = i"
    and "\<And>j. 2 \<le> j \<Longrightarrow> j \<le> last_index tm \<Longrightarrow> PARENT j = i \<Longrightarrow> key tm c \<le> key tm j"
  shows "hole_ok (move_node c i tm) c"
proof -
  let ?tm = "move_node c i tm"
  note h = hole_okD[OF assms(1)]
  have c: "i < c" using assms(2,4) PARENT_le(2)[of c] by simp
  have "key ?tm (PARENT j) \<le> key ?tm j"
    if "2 \<le> j" "j \<le> last_index tm" "j \<noteq> c" "PARENT j \<noteq> c" for j
  proof -
    have jp: "1 \<le> PARENT j" "PARENT j \<noteq> j" using that(1) by (auto simp: PARENT_def)
    consider (i) "j = i" | (child) "j \<noteq> i" "PARENT j = i" | (other) "j \<noteq> i" "PARENT j \<noteq> i" by blast
    then show ?thesis
    proof cases
      case i
      then show ?thesis using h(1) h(4)[of c] that jp assms(2-4) by (simp add: move_node_key)
    next
      case child
      then show ?thesis using h(1) that assms(5)[of j] by (simp add: move_node_key)
    next
      case other
      then show ?thesis using h(1) h(3)[of j] that jp by (simp add: move_node_key)
    qed
  qed
  moreover have "key ?tm (PARENT c) \<le> key ?tm j"
    if "2 \<le> j" "j \<le> last_index tm" "PARENT j = c" for j
  proof -
    have "j \<noteq> i" using that(3) c PARENT_le(1)[of j] by auto
    then show ?thesis
      using h(1) h(3)[of j] that c assms(4) by (simp add: move_node_key)
  qed
  ultimately show ?thesis
    using assms(2,3) c move_node_back[OF assms(1), of c] by (auto simp: hole_ok_def)
qed

lemma children_cases: "1 \<le> i \<Longrightarrow> PARENT j = i \<longleftrightarrow> j = LCHILD i \<or> j = LCHILD i + 1"
  by (auto simp: PARENT_def LCHILD_def)

lemma tmevt_down_unfold:
  assumes "1 \<le> i" and "LCHILD i \<le> last_index tm"
    and "c = (if LCHILD i + 1 \<le> last_index tm \<and>
      EVTTIM_LT tm (time (TMEVT_NODE tm (LCHILD i + 1))) (time (TMEVT_NODE tm (LCHILD i)))
    then LCHILD i + 1 else LCHILD i)"
  shows "tmevt_down i t tm =
    (if EVTTIM_LE tm t (time (TMEVT_NODE tm c)) then (i, tm) else tmevt_down c t (move_node c i tm))"
  using assms(1,2) unfolding assms(3)
  by (subst tmevt_down.simps) (simp add: Let_def move_node_def set_node_def TMEVT_NODE_def)

lemma tmevt_down_ok:
  assumes "hole_ok tm i" and "above_ok tm i (t - min_time tm)" and "tmevt_down i t tm = (i', tm')"
  shows "hole_ok tm' i' \<and> below_ok tm' i' (t - min_time tm') \<and> above_ok tm' i' (t - min_time tm') \<and>
    hevts tm' i' = hevts tm i \<and> tme_frame tm tm'"
  using assms
proof (induction i t tm rule: tmevt_down.induct)
  case (1 i t tm)
  note h = hole_okD[OF "1.prems"(1)]
  define c where "c = (if LCHILD i + 1 \<le> last_index tm \<and>
      EVTTIM_LT tm (time (TMEVT_NODE tm (LCHILD i + 1))) (time (TMEVT_NODE tm (LCHILD i)))
    then LCHILD i + 1 else LCHILD i)"
  show ?case
  proof (cases "LCHILD i \<le> last_index tm")
    case False
    then have "(i', tm') = (i, tm)"
      using "1.prems"(3) by (subst (asm) tmevt_down.simps) (auto simp: Let_def split: if_splits)
    moreover have "below_ok tm i k" for k
      using False h(1) by (auto simp: below_ok_def children_cases)
    ultimately show ?thesis using "1.prems" by simp
  next
    case True
    have c: "2 \<le> c" "c \<le> last_index tm" "PARENT c = i" "c \<noteq> i"
      using True h(1) by (auto simp: c_def LCHILD_def PARENT_def)
    have cmin: "key tm c \<le> key tm j" if "2 \<le> j" "j \<le> last_index tm" "PARENT j = i" for j
      using that h(1) True unfolding children_cases[OF h(1)]
      by (auto simp: c_def EVTTIM_LT_def key_def)
    show ?thesis
    proof (cases "EVTTIM_LE tm t (time (TMEVT_NODE tm c))")
      case stop: True
      then have "(i', tm') = (i, tm)"
        using "1.prems"(3) by (simp add: tmevt_down_unfold[OF h(1) True c_def])
      moreover have "below_ok tm i (t - min_time tm)"
        using stop cmin by (auto simp: below_ok_def EVTTIM_LE_def key_def intro: order_trans)
      ultimately show ?thesis using "1.prems" by simp
    next
      case False
      let ?tm = "move_node c i tm"
      have down: "tmevt_down c t ?tm = (i', tm')"
        using "1.prems"(3) False by (simp add: tmevt_down_unfold[OF h(1) True c_def])
      have "hole_ok ?tm c" by (rule hole_down_step[OF "1.prems"(1) c(1-3) cmin])
      moreover have "above_ok ?tm c (t - min_time ?tm)"
        using False c h(1) by (auto simp: above_ok_def move_node_NODE EVTTIM_LE_def key_def)
      ultimately have "hole_ok tm' i' \<and> below_ok tm' i' (t - min_time tm') \<and>
          above_ok tm' i' (t - min_time tm') \<and> hevts tm' i' = hevts ?tm c \<and> tme_frame ?tm tm'"
        using "1.IH"[OF _ refl True c_def False refl refl] h(1) down
        by (simp add: move_node_def set_node_def TMEVT_NODE_def)
      then show ?thesis
        using move_node_hevts[OF "1.prems"(1) _ c(2,4)] c(1) move_node_frame[OF h(1,2), of c]
        by (auto intro: tme_frame_trans)
    qed
  qed
qed

section \<open>Insertion and deletion\<close>

text \<open>Filling the hole.\<close>

lemma fill_hole:
  assumes "hole_ok tm i" and "below_ok tm i (time n - min_time tm)"
    and "above_ok tm i (time n - min_time tm)" and "hevts tm i (p_tmevtb n) = None"
  shows "heap_ok (set_index (p_tmevtb n) i (set_node i n tm))"
    and "evts (set_index (p_tmevtb n) i (set_node i n tm)) = (hevts tm i)(p_tmevtb n \<mapsto> time n)"
    and "tme_frame tm (set_index (p_tmevtb n) i (set_node i n tm))"
proof -
  let ?tm = "set_index (p_tmevtb n) i (set_node i n tm)"
  note h = hole_okD[OF assms(1)]
  have N: "TMEVT_NODE ?tm j = (if j = i then n else TMEVT_NODE tm j)" if "1 \<le> j" for j
    using that h(1) by (auto simp: set_index_def set_node_def TMEVT_NODE_def)
  have f: "last_index ?tm = last_index tm" "min_time ?tm = min_time tm"
    "tmevtb ?tm = (tmevtb tm)(p_tmevtb n := (tmevtb tm (p_tmevtb n))\<lparr>index := i\<rparr>)"
    by (simp_all add: set_index_def set_node_def)
  have K: "key ?tm j = (if j = i then time n - min_time tm else key tm j)" if "1 \<le> j" for j
    using that N by (simp add: key_def f)
  have other: "p_tmevtb (TMEVT_NODE tm j) \<noteq> p_tmevtb n \<and> index (tmevtb tm (p_tmevtb (TMEVT_NODE tm j))) = j"
    if "1 \<le> j" "j \<le> last_index tm" "j \<noteq> i" for j
  proof -
    have b: "index (tmevtb tm (p_tmevtb (TMEVT_NODE tm j))) = j"
      using assms(1) that by (simp add: hole_ok_def)
    then have "hevts tm i (p_tmevtb (TMEVT_NODE tm j)) \<noteq> None"
      using that by (simp add: hevts_def Let_def)
    then show ?thesis using b assms(4) by auto
  qed
  have "key ?tm (PARENT j) \<le> key ?tm j" if "2 \<le> j" "j \<le> last_index tm" for j
  proof -
    have "1 \<le> PARENT j" "PARENT j \<noteq> j" using that(1) by (auto simp: PARENT_def)
    then show ?thesis
      using that h(3)[of j] assms(2,3)
      by (cases "j = i"; cases "PARENT j = i") (auto simp: K below_ok_def above_ok_def)
  qed
  moreover have "index (tmevtb ?tm (p_tmevtb (TMEVT_NODE ?tm j))) = j"
    if "1 \<le> j" "j \<le> last_index tm" for j
    using other[of j] that h(1) by (cases "j = i") (auto simp: NODE_set_node f)
  ultimately show "heap_ok ?tm" by (simp add: heap_ok_def f)
  show "evts ?tm = (hevts tm i)(p_tmevtb n \<mapsto> time n)"
  proof
    fix x
    show "evts ?tm x = ((hevts tm i)(p_tmevtb n \<mapsto> time n)) x"
      using h(1,2)
      by (cases "x = p_tmevtb n") (auto simp: evts_def hevts_def Let_def NODE_set_node f split: if_splits)
  qed
  show "tme_frame tm ?tm"
    using N h(2) by (auto simp: tme_frame_def set_index_def set_node_def TMEVT_NODE_def)
qed

lemma tmevtb_insert_ok:
  assumes "heap_ok tm" and "evts tm b = None"
  shows "heap_ok (tmevtb_insert b t tm)" and "evts (tmevtb_insert b t tm) = (evts tm)(b \<mapsto> t)"
    and "tme_frame (tm\<lparr>last_index := Suc (last_index tm)\<rparr>) (tmevtb_insert b t tm)"
proof -
  let ?n = "Suc (last_index tm)"
  let ?tm = "tm\<lparr>last_index := ?n\<rparr>"
  have N: "TMEVT_NODE ?tm j = TMEVT_NODE tm j" "key ?tm j = key tm j" for j
    by (simp_all add: TMEVT_NODE_def key_def)
  have h: "hole_ok ?tm ?n"
    using assms(1) by (auto simp: hole_ok_def heap_ok_def N PARENT_def)
  have b: "below_ok ?tm ?n k" for k by (auto simp: below_ok_def PARENT_def)
  have e: "hevts ?tm ?n = evts tm" by (auto simp: hevts_def evts_def N Let_def fun_eq_iff)
  obtain i tm' where u: "tmevt_up ?n t ?tm = (i, tm')" by force
  note ok = tmevt_up_ok[OF h b u]
  let ?nd = "\<lparr>time = t, p_tmevtb = b\<rparr>"
  have ins: "tmevtb_insert b t tm = set_index (p_tmevtb ?nd) i (set_node i ?nd tm')"
    by (simp add: tmevtb_insert_def u Let_def set_node_def set_index_def TMEVT_NODE_def)
  note fill = fill_hole[of tm' i ?nd, unfolded ins[symmetric]]
  have hn: "hevts tm' i (p_tmevtb ?nd) = None" using ok e assms(2) by simp
  show "heap_ok (tmevtb_insert b t tm)" using fill(1) ok hn by simp
  show "evts (tmevtb_insert b t tm) = (evts tm)(b \<mapsto> t)" using fill(2) ok hn e by simp
  show "tme_frame ?tm (tmevtb_insert b t tm)"
    using fill(3) ok hn by (auto intro: tme_frame_trans)
qed

text \<open>The heap without its last node, and with a hole at the position of a deleted event.\<close>

lemma heap_drop_last:
  assumes "heap_ok tm" and "1 \<le> i" and "i < last_index tm"
  defines "tm1 \<equiv> tm\<lparr>last_index := last_index tm - 1\<rparr>"
  shows "hole_ok tm1 i"
    and "hevts tm1 i = (evts tm)(p_tmevtb (TMEVT_NODE tm i) := None,
                                p_tmevtb (TMEVT_NODE tm (last_index tm)) := None)"
proof -
  have N: "TMEVT_NODE tm1 j = TMEVT_NODE tm j" "key tm1 j = key tm j" "tmevtb tm1 = tmevtb tm" for j
    by (simp_all add: tm1_def TMEVT_NODE_def key_def)
  have n: "last_index tm1 = last_index tm - 1" by (simp add: tm1_def)
  have o: "key tm (PARENT j) \<le> key tm j" if "2 \<le> j" "j \<le> last_index tm" for j
    using assms(1) that by (simp add: heap_ok_def)
  have b: "index (tmevtb tm (p_tmevtb (TMEVT_NODE tm j))) = j" if "1 \<le> j" "j \<le> last_index tm" for j
    using assms(1) that by (simp add: heap_ok_def)
  have "key tm (PARENT i) \<le> key tm j" if "2 \<le> j" "j \<le> last_index tm - 1" "1 < i" "PARENT j = i" for j
    using o[of j] o[of i] that assms(3) by (auto intro: order_trans)
  then show "hole_ok tm1 i" using assms(2,3) o b by (auto simp: hole_ok_def N n)
  show "hevts tm1 i = (evts tm)(p_tmevtb (TMEVT_NODE tm i) := None,
                                p_tmevtb (TMEVT_NODE tm (last_index tm)) := None)"
  proof
    fix x
    show "hevts tm1 i x = ((evts tm)(p_tmevtb (TMEVT_NODE tm i) := None,
        p_tmevtb (TMEVT_NODE tm (last_index tm)) := None)) x"
      using b[of i] b[of "last_index tm"] assms(2,3)
      by (cases "index (tmevtb tm x) = last_index tm") (auto simp: hevts_def evts_def Let_def N n)
  qed
qed

text \<open>Putting the last node into the hole finishes the deletion of the event at position \<open>i\<close>.\<close>

lemma delete_finish:
  assumes "heap_ok tm" and "1 \<le> i" and "i < last_index tm"
    and "tm1 = tm\<lparr>last_index := last_index tm - 1\<rparr>" and "nd = TMEVT_NODE tm (last_index tm)"
    and "hole_ok tm' i'" and "below_ok tm' i' (time nd - min_time tm')"
    and "above_ok tm' i' (time nd - min_time tm')"
    and "hevts tm' i' = hevts tm1 i" and "tme_frame tm1 tm'"
  defines "tm2 \<equiv> (let tm = set_node i' (TMEVT_NODE tm' (last_index tm' + 1)) tm'
                  in set_index (p_tmevtb (TMEVT_NODE tm i')) i' tm)"
  shows "heap_ok tm2 \<and> evts tm2 = (evts tm)(p_tmevtb (TMEVT_NODE tm i) := None) \<and> tme_frame tm1 tm2"
proof -
  let ?n = "last_index tm"
  have n: "last_index tm' + 1 = ?n"
    using assms(3,4,10) by (simp add: tme_frame_def)
  have nd: "TMEVT_NODE tm' ?n = nd"
    using assms(3-5,10) by (simp add: tme_frame_def TMEVT_NODE_def)
  have tm2: "tm2 = set_index (p_tmevtb nd) i' (set_node i' nd tm')"
    by (simp only: tm2_def n nd Let_def NODE_set_node_same)
  note d = heap_drop_last(2)[OF assms(1-3)]
  have hn: "hevts tm' i' (p_tmevtb nd) = None"
    unfolding assms(9,4) d assms(5) by simp
  note fill = fill_hole[OF assms(6-8) hn, folded tm2]
  have b: "index (tmevtb tm (p_tmevtb (TMEVT_NODE tm j))) = j" if "1 \<le> j" "j \<le> ?n" for j
    using assms(1) that by (simp add: heap_ok_def)
  have "p_tmevtb (TMEVT_NODE tm i) \<noteq> p_tmevtb nd"
    using b[of i] b[of ?n] assms(2,3,5) by auto
  moreover have "evts tm (p_tmevtb nd) = Some (time nd)"
    using b[of ?n] assms(2,3,5) by (simp add: evts_def)
  ultimately have "evts tm2 = (evts tm)(p_tmevtb (TMEVT_NODE tm i) := None)"
    unfolding fill(2) assms(9,4) d assms(5) by (auto simp: fun_eq_iff)
  then show ?thesis using fill(1,3) assms(10) by (auto intro: tme_frame_trans)
qed


lemma evts_SomeD:
  assumes "evts tm b = Some t"
  shows "1 \<le> index (tmevtb tm b)" and "index (tmevtb tm b) \<le> last_index tm"
    and "p_tmevtb (TMEVT_NODE tm (index (tmevtb tm b))) = b"
    and "time (TMEVT_NODE tm (index (tmevtb tm b))) = t"
  using assms by (auto simp: evts_def Let_def split: if_splits)

text \<open>The last node of the heap is deleted by counting \<open>last_index\<close> down.\<close>

lemma heap_pop_last:
  assumes "heap_ok tm" and "1 \<le> last_index tm"
  defines "tm1 \<equiv> tm\<lparr>last_index := last_index tm - 1\<rparr>"
  shows "heap_ok tm1" and "evts tm1 = (evts tm)(p_tmevtb (TMEVT_NODE tm (last_index tm)) := None)"
proof -
  have N: "TMEVT_NODE tm1 j = TMEVT_NODE tm j" "key tm1 j = key tm j" "tmevtb tm1 = tmevtb tm" for j
    by (simp_all add: tm1_def TMEVT_NODE_def key_def)
  have n: "last_index tm1 = last_index tm - 1" by (simp add: tm1_def)
  show "heap_ok tm1" using assms(1,2) by (auto simp: heap_ok_def N n)
  have "index (tmevtb tm (p_tmevtb (TMEVT_NODE tm (last_index tm)))) = last_index tm"
    using assms(1,2) by (simp add: heap_ok_def)
  moreover have "i \<le> last_index tm - 1 \<longleftrightarrow> i \<le> last_index tm \<and> i \<noteq> last_index tm" for i
    using assms(2) by linarith
  ultimately show "evts tm1 = (evts tm)(p_tmevtb (TMEVT_NODE tm (last_index tm)) := None)"
    using assms(2) by (auto simp: evts_def Let_def N n fun_eq_iff)
qed

lemma move_node_self:
  assumes "1 \<le> i" and "index (tmevtb tm (p_tmevtb (TMEVT_NODE tm i))) = i"
  shows "move_node i i tm = tm"
proof -
  have "(tmevtb tm (p_tmevtb (TMEVT_NODE tm i)))\<lparr>index := i\<rparr> = tmevtb tm (p_tmevtb (TMEVT_NODE tm i))"
    using assms(2) by (cases "tmevtb tm (p_tmevtb (TMEVT_NODE tm i))") simp
  then show ?thesis
    by (cases tm) (simp add: move_node_def set_index_def set_node_def TMEVT_NODE_def)
qed

text \<open>
  Deletion of the event at position \<open>i\<close>, given the search for a place for the last event: from
  the parent of \<open>i\<close> upwards or from \<open>i\<close> downwards.
\<close>

definition delete_place :: "nat \<Rightarrow> EVTTIM \<Rightarrow> TMEVT \<Rightarrow> nat \<times> TMEVT" where
  "delete_place i t tm =
    (if i > 1 \<and> EVTTIM_LT tm t (time (TMEVT_NODE tm (PARENT i)))
     then tmevt_up (PARENT i) t (move_node (PARENT i) i tm) else tmevt_down i t tm)"

lemma delete_place_ok:
  assumes "hole_ok tm i" and "delete_place i t tm = (i', tm')"
  shows "hole_ok tm' i' \<and> below_ok tm' i' (t - min_time tm') \<and> above_ok tm' i' (t - min_time tm') \<and>
    hevts tm' i' = hevts tm i \<and> tme_frame tm tm'"
proof (cases "i > 1 \<and> EVTTIM_LT tm t (time (TMEVT_NODE tm (PARENT i)))")
  case True
  note h = hole_okD[OF assms(1)]
  let ?tm = "move_node (PARENT i) i tm"
  have lt: "t - min_time tm < key tm (PARENT i)" using True by (simp add: EVTTIM_LT_def key_def)
  have p: "1 \<le> PARENT i" "PARENT i \<le> last_index tm" "PARENT i \<noteq> i"
    using True h(2) by (auto simp: PARENT_def)
  have up: "tmevt_up (PARENT i) t ?tm = (i', tm')" using assms(2) True by (simp add: delete_place_def)
  note st = hole_up_step[OF assms(1) _ lt]
  show ?thesis
    using tmevt_up_ok[OF st(1) _ up] st(2) True move_node_hevts[OF assms(1) p]
      move_node_frame[OF h(1,2), of "PARENT i"]
    by (auto intro: tme_frame_trans)
next
  case False
  then have "above_ok tm i (t - min_time tm)" by (auto simp: above_ok_def EVTTIM_LT_def key_def)
  then show ?thesis using tmevt_down_ok[OF assms(1)] assms(2) False by (auto simp: delete_place_def)
qed

definition delete_at :: "nat \<Rightarrow> TMEVT \<Rightarrow> TMEVT" where
  "delete_at i tm =
    (let tm1 = tm\<lparr>last_index := last_index tm - 1\<rparr>
     in if last_index tm1 = 0 then tm1
        else (let (i, tm) = delete_place i (time (TMEVT_NODE tm (last_index tm))) tm1;
                  tm = set_node i (TMEVT_NODE tm (last_index tm + 1)) tm
              in set_index (p_tmevtb (TMEVT_NODE tm i)) i tm))"

lemma tmevtb_delete_at: "tmevtb_delete b tm = delete_at (index (tmevtb tm b)) tm"
  by (simp add: tmevtb_delete_def delete_at_def delete_place_def Let_def move_node_def
      TMEVT_NODE_def set_node_def)

lemma tmevtb_delete_top_at: "tmevtb_delete_top tm = delete_at 1 tm"
  by (simp add: tmevtb_delete_top_def delete_at_def delete_place_def Let_def TMEVT_NODE_def)

lemma delete_at_last:
  assumes "heap_ok tm" and "1 \<le> last_index tm"
  shows "delete_at (last_index tm) tm = tm\<lparr>last_index := last_index tm - 1\<rparr>"
proof (cases "last_index tm = 1")
  case False
  let ?n = "last_index tm" and ?tm = "tm\<lparr>last_index := last_index tm - 1\<rparr>"
  have n: "2 \<le> ?n" using assms(2) False by simp
  have "key tm (PARENT ?n) \<le> key tm ?n" using assms(1) n by (simp add: heap_ok_def)
  then have "\<not> EVTTIM_LT ?tm (time (TMEVT_NODE tm ?n)) (time (TMEVT_NODE ?tm (PARENT ?n)))"
    by (simp add: EVTTIM_LT_def key_def TMEVT_NODE_def)
  moreover have "tmevt_down ?n t ?tm = (?n, ?tm)" for t
  proof -
    have "\<not> LCHILD ?n \<le> last_index ?tm" "?n \<noteq> 0" using n by (simp_all add: LCHILD_def)
    then show ?thesis by (subst tmevt_down.simps) (simp only: Let_def if_False)
  qed
  ultimately have "delete_place ?n (time (TMEVT_NODE tm ?n)) ?tm = (?n, ?tm)"
    by (simp add: delete_place_def)
  moreover have "move_node ?n ?n ?tm = ?tm"
    using assms by (intro move_node_self) (auto simp: heap_ok_def TMEVT_NODE_def)
  ultimately show ?thesis
    using n by (simp add: delete_at_def Let_def move_node_def)
qed (simp add: delete_at_def)

lemma delete_at_ok:
  assumes "heap_ok tm" and "1 \<le> i" and "i \<le> last_index tm"
  shows "heap_ok (delete_at i tm) \<and>
    evts (delete_at i tm) = (evts tm)(p_tmevtb (TMEVT_NODE tm i) := None) \<and>
    tme_frame (tm\<lparr>last_index := last_index tm - 1\<rparr>) (delete_at i tm)"
proof (cases "i = last_index tm")
  case True
  then show ?thesis using heap_pop_last[OF assms(1)] delete_at_last[OF assms(1)] assms(2) by simp
next
  case False
  let ?tm = "tm\<lparr>last_index := last_index tm - 1\<rparr>"
  have i: "i < last_index tm" using False assms(3) by simp
  obtain i' tm' where p: "delete_place i (time (TMEVT_NODE tm (last_index tm))) ?tm = (i', tm')" by force
  note ok = delete_place_ok[OF heap_drop_last(1)[OF assms(1,2) i] p]
  have "delete_at i tm = (let tm = set_node i' (TMEVT_NODE tm' (last_index tm' + 1)) tm'
                  in set_index (p_tmevtb (TMEVT_NODE tm i')) i' tm)"
    using p i assms(2) by (simp add: delete_at_def Let_def)
  then show ?thesis
    using delete_finish[OF assms(1,2) i refl refl] ok by simp
qed

lemma tmevtb_delete_ok:
  assumes "heap_ok tm" and "evts tm b \<noteq> None"
  shows "heap_ok (tmevtb_delete b tm)" and "evts (tmevtb_delete b tm) = (evts tm)(b := None)"
    and "tme_frame (tm\<lparr>last_index := last_index tm - 1\<rparr>) (tmevtb_delete b tm)"
proof -
  obtain t where "evts tm b = Some t" using assms(2) by auto
  note e = evts_SomeD[OF this]
  show "heap_ok (tmevtb_delete b tm)" and "evts (tmevtb_delete b tm) = (evts tm)(b := None)"
    and "tme_frame (tm\<lparr>last_index := last_index tm - 1\<rparr>) (tmevtb_delete b tm)"
    using delete_at_ok[OF assms(1) e(1,2)] e(3) by (simp_all add: tmevtb_delete_at)
qed

lemma tmevtb_delete_top_ok:
  assumes "heap_ok tm" and "1 \<le> last_index tm"
  shows "heap_ok (tmevtb_delete_top tm)"
    and "evts (tmevtb_delete_top tm) = (evts tm)(p_tmevtb (TMEVT_NODE tm 1) := None)"
    and "tme_frame (tm\<lparr>last_index := last_index tm - 1\<rparr>) (tmevtb_delete_top tm)"
  using delete_at_ok[OF assms(1) _ assms(2)] by (simp_all add: tmevtb_delete_top_at)

text \<open>The root is an event of least time.\<close>

lemma heap_root_min: "heap_ok tm \<Longrightarrow> 1 \<le> j \<Longrightarrow> j \<le> last_index tm \<Longrightarrow> key tm 1 \<le> key tm j"
proof (induction j rule: less_induct)
  case (less j)
  show ?case
  proof (cases "j = 1")
    case False
    then have j: "2 \<le> j" using less.prems by simp
    have p: "1 \<le> PARENT j" "PARENT j < j" using j by (auto simp: PARENT_def)
    have "key tm 1 \<le> key tm (PARENT j)" using less.IH[OF p(2) less.prems(1) p(1)] less.prems p by simp
    also have "... \<le> key tm j" using less.prems j by (simp add: heap_ok_def)
    finally show ?thesis .
  qed simp
qed

lemma heap_root_event:
  assumes "heap_ok tm" and "1 \<le> last_index tm"
  shows "evts tm (p_tmevtb (TMEVT_NODE tm 1)) = Some (time (TMEVT_NODE tm 1))"
proof -
  have "index (tmevtb tm (p_tmevtb (TMEVT_NODE tm 1))) = 1" using assms by (simp add: heap_ok_def)
  then show ?thesis using assms(2) by (simp add: evts_def Let_def)
qed

lemma heap_empty_evts: "last_index tm = 0 \<Longrightarrow> evts tm = Map.empty"
  by (auto simp: evts_def fun_eq_iff Let_def)

lemma heap_root_least:
  assumes "heap_ok tm" and "evts tm b = Some t"
  shows "EVTTIM_LE tm (time (TMEVT_NODE tm 1)) t"
  using heap_root_min[OF assms(1) evts_SomeD(1,2)[OF assms(2)]] evts_SomeD(4)[OF assms(2)]
  by (simp add: EVTTIM_LE_def key_def)


lemma dom_evts:
  assumes "heap_ok tm"
  shows "dom (evts tm) = (\<lambda>j. p_tmevtb (TMEVT_NODE tm j)) ` {1..last_index tm}" (is "_ = ?R")
proof
  show "dom (evts tm) \<subseteq> ?R"
  proof
    fix b assume "b \<in> dom (evts tm)"
    then obtain t where "evts tm b = Some t" by auto
    note e = evts_SomeD[OF this]
    show "b \<in> ?R" using e(1-3) by (intro image_eqI[where x = "index (tmevtb tm b)"]) simp_all
  qed
  have "index (tmevtb tm (p_tmevtb (TMEVT_NODE tm j))) = j" if "1 \<le> j" "j \<le> last_index tm" for j
    using assms that by (simp add: heap_ok_def)
  then show "?R \<subseteq> dom (evts tm)" by (auto simp: evts_def Let_def)
qed

lemma finite_evts: "heap_ok tm \<Longrightarrow> finite (dom (evts tm))"
  by (simp add: dom_evts)

lemma card_evts:
  assumes "heap_ok tm"
  shows "card (dom (evts tm)) = last_index tm"
proof -
  have "inj_on (\<lambda>j. p_tmevtb (TMEVT_NODE tm j)) {1..last_index tm}"
    using assms by (intro inj_on_inverseI[where g = "\<lambda>b. index (tmevtb tm b)"]) (simp add: heap_ok_def)
  then show ?thesis using assms by (simp add: dom_evts card_image)
qed

text \<open>The callback of a time event block is not part of the heap.\<close>

lemma evts_set_callback [simp]: "evts (set_callback b cb tm) = evts tm"
  by (auto simp: evts_def set_callback_def TMEVT_NODE_def Let_def fun_eq_iff)

lemma heap_ok_set_callback [simp]: "heap_ok (set_callback b cb tm) = heap_ok tm"
  by (auto simp: heap_ok_def set_callback_def TMEVT_NODE_def key_def)

lemma set_callback_sel [simp]:
  "last_index (set_callback b cb tm) = last_index tm" "min_time (set_callback b cb tm) = min_time tm"
  "current_time (set_callback b cb tm) = current_time tm" "next_time (set_callback b cb tm) = next_time tm"
  "callback (tmevtb (set_callback b cb tm) b') = (if b' = b then cb else callback (tmevtb tm b'))"
  by (simp_all add: set_callback_def)

lemma tme_frame_sel:
  assumes "tme_frame tm tm'"
  shows "last_index tm' = last_index tm" "min_time tm' = min_time tm"
    "current_time tm' = current_time tm" "next_time tm' = next_time tm"
    "callback (tmevtb tm' b) = callback (tmevtb tm b)"
  using assms by (simp_all add: tme_frame_def)

lemma tmevtb_insert_sel:
  assumes "heap_ok tm" and "evts tm b = None"
  shows "last_index (tmevtb_insert b t tm) = Suc (last_index tm)"
    "min_time (tmevtb_insert b t tm) = min_time tm"
    "current_time (tmevtb_insert b t tm) = current_time tm"
    "next_time (tmevtb_insert b t tm) = next_time tm"
    "callback (tmevtb (tmevtb_insert b t tm) b') = callback (tmevtb tm b')"
  using tme_frame_sel[OF tmevtb_insert_ok(3)[OF assms]] by simp_all

lemma tmevtb_delete_sel:
  assumes "heap_ok tm" and "evts tm b \<noteq> None"
  shows "min_time (tmevtb_delete b tm) = min_time tm"
    "current_time (tmevtb_delete b tm) = current_time tm"
    "next_time (tmevtb_delete b tm) = next_time tm"
    "callback (tmevtb (tmevtb_delete b tm) b') = callback (tmevtb tm b')"
  using tme_frame_sel[OF tmevtb_delete_ok(3)[OF assms]] by simp_all

lemma tmevtb_delete_top_sel:
  assumes "heap_ok tm" and "1 \<le> last_index tm"
  shows "min_time (tmevtb_delete_top tm) = min_time tm"
    "current_time (tmevtb_delete_top tm) = current_time tm"
    "next_time (tmevtb_delete_top tm) = next_time tm"
    "callback (tmevtb (tmevtb_delete_top tm) b') = callback (tmevtb tm b')"
  using tme_frame_sel[OF tmevtb_delete_top_ok(3)[OF assms]] by simp_all

section \<open>The event queue as an interface\<close>

text \<open>Taking the first event out of a queue until it is empty, at most \<open>n\<close> times.\<close>

fun pops :: "('s \<Rightarrow> bool) \<Rightarrow> ('s \<Rightarrow> 'b) \<Rightarrow> ('s \<Rightarrow> 's) \<Rightarrow> nat \<Rightarrow> 's \<Rightarrow> 'b list" where
  "pops em root del 0 s = []"
| "pops em root del (Suc n) s = (if em s then [] else root s # pops em root del n (del s))"

locale event_queue =
  fixes inv :: "'s \<Rightarrow> bool"
    and absm :: "'s \<Rightarrow> ('b \<rightharpoonup> 't)"
    and before :: "'s \<Rightarrow> 't \<Rightarrow> 't \<Rightarrow> bool"
    and ins :: "'b \<Rightarrow> 't \<Rightarrow> 's \<Rightarrow> 's"
    and del :: "'b \<Rightarrow> 's \<Rightarrow> 's"
    and del_top :: "'s \<Rightarrow> 's"
    and root :: "'s \<Rightarrow> 'b"
    and em :: "'s \<Rightarrow> bool"
  assumes before_trans: "before s t u \<Longrightarrow> before s u v \<Longrightarrow> before s t v"
    and before_total: "before s t u \<or> before s u t"
    and inv_finite: "inv s \<Longrightarrow> finite (dom (absm s))"
    and ins_law: "inv s \<Longrightarrow> absm s b = None \<Longrightarrow>
      inv (ins b t s) \<and> absm (ins b t s) = (absm s)(b \<mapsto> t) \<and> before (ins b t s) = before s"
    and del_law: "inv s \<Longrightarrow> absm s b \<noteq> None \<Longrightarrow>
      inv (del b s) \<and> absm (del b s) = (absm s)(b := None) \<and> before (del b s) = before s"
    and em_law: "inv s \<Longrightarrow> em s \<longleftrightarrow> absm s = Map.empty"
    and top_law: "inv s \<Longrightarrow> \<not> em s \<Longrightarrow> absm s (root s) \<noteq> None \<and>
      (\<forall>b t. absm s b = Some t \<longrightarrow> before s (the (absm s (root s))) t)"
    and del_top_law: "inv s \<Longrightarrow> \<not> em s \<Longrightarrow>
      inv (del_top s) \<and> absm (del_top s) = (absm s)(root s := None) \<and> before (del_top s) = before s"
begin

lemma dom_del_top: "inv s \<Longrightarrow> \<not> em s \<Longrightarrow> dom (absm s) = insert (root s) (dom (absm (del_top s)))"
  using del_top_law[of s] top_law[of s] by (auto simp: dom_def)

lemma top_not_in_del_top: "inv s \<Longrightarrow> \<not> em s \<Longrightarrow> root s \<notin> dom (absm (del_top s))"
  using del_top_law[of s] by simp

lemma pops_sub: "inv s \<Longrightarrow> set (pops em root del_top n s) \<subseteq> dom (absm s)"
proof (induction n arbitrary: s)
  case (Suc n)
  show ?case
  proof (cases "em s")
    case False
    have "set (pops em root del_top n (del_top s)) \<subseteq> dom (absm (del_top s))"
      using Suc.IH del_top_law[OF Suc.prems False] by blast
    also have "... \<subseteq> dom (absm s)" using dom_del_top[OF Suc.prems False] by blast
    finally show ?thesis using False dom_del_top[OF Suc.prems False] by simp
  qed simp
qed simp

lemma pops_all:
  "inv s \<Longrightarrow> card (dom (absm s)) \<le> n \<Longrightarrow>
    distinct (pops em root del_top n s) \<and> set (pops em root del_top n s) = dom (absm s)"
proof (induction n arbitrary: s)
  case 0
  then show ?case using inv_finite[of s] by simp
next
  case (Suc n)
  show ?case
  proof (cases "em s")
    case True
    then show ?thesis using em_law[OF Suc.prems(1)] by simp
  next
    case False
    note d = dom_del_top[OF Suc.prems(1) False] and t = top_not_in_del_top[OF Suc.prems(1) False]
    have i: "inv (del_top s)" using del_top_law[OF Suc.prems(1) False] by simp
    have "card (dom (absm s)) = Suc (card (dom (absm (del_top s))))"
      unfolding d by (rule card_insert_disjoint[OF inv_finite[OF i] t])
    then have "distinct (pops em root del_top n (del_top s)) \<and>
        set (pops em root del_top n (del_top s)) = dom (absm (del_top s))"
      using Suc.IH[OF i] Suc.prems(2) by simp
    then show ?thesis using False d t by simp
  qed
qed

lemma pops_sorted:
  "inv s \<Longrightarrow> sorted_wrt (\<lambda>b c. before s (the (absm s b)) (the (absm s c))) (pops em root del_top n s)"
proof (induction n arbitrary: s)
  case (Suc n)
  show ?case
  proof (cases "em s")
    case False
    note l = del_top_law[OF Suc.prems False]
    have sub: "set (pops em root del_top n (del_top s)) \<subseteq> dom (absm (del_top s))"
      using pops_sub l by blast
    have "sorted_wrt (\<lambda>b c. before s (the (absm s b)) (the (absm s c))) (pops em root del_top n (del_top s))"
      by (rule sorted_wrt_mono_rel[OF _ Suc.IH]) (use sub l in \<open>auto split: if_splits\<close>)
    moreover have "before s (the (absm s (root s))) (the (absm s c))"
      if "c \<in> set (pops em root del_top n (del_top s))" for c
    proof -
      have "c \<in> dom (absm s)" unfolding dom_del_top[OF Suc.prems False] using that sub by blast
      then obtain t where "absm s c = Some t" by blast
      then show ?thesis using top_law[OF Suc.prems False] by simp
    qed
    ultimately show ?thesis using False by simp
  qed simp
qed simp

lemma ins_del: "inv s \<Longrightarrow> absm s b = None \<Longrightarrow> absm (del b (ins b t s)) = absm s"
  using ins_law[of s b t] del_law[of "ins b t s" b] by auto

end

interpretation heapq: event_queue heap_ok evts EVTTIM_LE tmevtb_insert tmevtb_delete
  tmevtb_delete_top "\<lambda>tm. p_tmevtb (TMEVT_NODE tm 1)" "\<lambda>tm. last_index tm = 0"
proof
  show "EVTTIM_LE tm t u \<Longrightarrow> EVTTIM_LE tm u v \<Longrightarrow> EVTTIM_LE tm t v" for tm t u v
    by (auto simp: EVTTIM_LE_def)
  show "EVTTIM_LE tm t u \<or> EVTTIM_LE tm u t" for tm t u
    by (auto simp: EVTTIM_LE_def)
  show "heap_ok tm \<Longrightarrow> finite (dom (evts tm))" for tm
    by (rule finite_evts)
  have le: "min_time tm' = min_time tm \<Longrightarrow> EVTTIM_LE tm' = EVTTIM_LE tm" for tm tm'
    by (auto simp: EVTTIM_LE_def fun_eq_iff)
  show "heap_ok (tmevtb_insert b t tm) \<and> evts (tmevtb_insert b t tm) = (evts tm)(b \<mapsto> t) \<and>
      EVTTIM_LE (tmevtb_insert b t tm) = EVTTIM_LE tm" if "heap_ok tm" "evts tm b = None" for b t tm
    using tmevtb_insert_ok(1,2)[OF that] le[OF tmevtb_insert_sel(2)[OF that]] by simp
  show "heap_ok (tmevtb_delete b tm) \<and> evts (tmevtb_delete b tm) = (evts tm)(b := None) \<and>
      EVTTIM_LE (tmevtb_delete b tm) = EVTTIM_LE tm" if "heap_ok tm" "evts tm b \<noteq> None" for b tm
    using tmevtb_delete_ok(1,2)[OF that] le[OF tmevtb_delete_sel(1)[OF that]] by blast
  show "(last_index tm = 0) = (evts tm = Map.empty)" if "heap_ok tm" for tm
    using card_evts[OF that] finite_evts[OF that] by auto
  show "evts tm (p_tmevtb (TMEVT_NODE tm 1)) \<noteq> None \<and>
      (\<forall>b t. evts tm b = Some t \<longrightarrow> EVTTIM_LE tm (the (evts tm (p_tmevtb (TMEVT_NODE tm 1)))) t)"
    if "heap_ok tm" "last_index tm \<noteq> 0" for tm
    using heap_root_event[OF that(1)] heap_root_least[OF that(1)] that(2) by simp
  show "heap_ok (tmevtb_delete_top tm) \<and>
      evts (tmevtb_delete_top tm) = (evts tm)(p_tmevtb (TMEVT_NODE tm 1) := None) \<and>
      EVTTIM_LE (tmevtb_delete_top tm) = EVTTIM_LE tm" if "heap_ok tm" "last_index tm \<noteq> 0" for tm
    using tmevtb_delete_top_ok(1,2)[of tm] le[OF tmevtb_delete_top_sel(1), of tm] that by simp
qed


section \<open>Wrap-around of the system time\<close>

lemma NODE_clock [simp]:
  "TMEVT_NODE (tm\<lparr>min_time := x\<rparr>) i = TMEVT_NODE tm i"
  "TMEVT_NODE (tm\<lparr>current_time := x\<rparr>) i = TMEVT_NODE tm i"
  "TMEVT_NODE (tm\<lparr>next_time := x\<rparr>) i = TMEVT_NODE tm i"
  by (simp_all add: TMEVT_NODE_def)

lemma evts_clock [simp]:
  "evts (tm\<lparr>min_time := x\<rparr>) = evts tm"
  "evts (tm\<lparr>current_time := x\<rparr>) = evts tm"
  "evts (tm\<lparr>next_time := x\<rparr>) = evts tm"
  by (auto simp: evts_def fun_eq_iff Let_def)

lemma heap_ok_clock [simp]:
  "heap_ok (tm\<lparr>current_time := x\<rparr>) = heap_ok tm"
  "heap_ok (tm\<lparr>next_time := x\<rparr>) = heap_ok tm"
  by (auto simp: heap_ok_def key_def)

text \<open>
  Moving the reference point of the comparisons forward keeps the order of the events as long as
  it does not pass an event: no event time is ever compared across the wrap-around.
\<close>

lemma word_diff_shift:
  fixes x y a :: "32 word"
  assumes "a \<le> x" and "a \<le> y"
  shows "x - a \<le> y - a \<longleftrightarrow> x \<le> y"
proof -
  have "uint (x - a) = uint x - uint a" "uint (y - a) = uint y - uint a"
    using assms by (simp_all add: uint_sub_lem word_le_def)
  then show ?thesis by (simp add: word_le_def)
qed

lemma min_time_advance:
  assumes "heap_ok tm"
    and "\<And>b t. evts tm b = Some t \<Longrightarrow> EVTTIM_LE tm new t"
  shows "heap_ok (tm\<lparr>min_time := new\<rparr>)"
proof -
  let ?tm = "tm\<lparr>min_time := new\<rparr>"
  have k: "new - min_time tm \<le> key tm j" if "1 \<le> j" "j \<le> last_index tm" for j
  proof -
    have "evts tm (p_tmevtb (TMEVT_NODE tm j)) = Some (time (TMEVT_NODE tm j))"
      using assms(1) that by (simp add: heap_ok_def evts_def Let_def)
    from assms(2)[OF this] show ?thesis by (simp add: EVTTIM_LE_def key_def)
  qed
  have K: "key ?tm j = key tm j - (new - min_time tm)" for j by (simp add: key_def)
  have "key ?tm (PARENT j) \<le> key ?tm j" if "2 \<le> j" "j \<le> last_index tm" for j
  proof -
    have "1 \<le> PARENT j" "PARENT j \<le> last_index tm" using that by (auto simp: PARENT_def)
    then show ?thesis
      using word_diff_shift[OF k[of "PARENT j"] k[of j]] that assms(1) by (simp add: K heap_ok_def)
  qed
  then show "heap_ok ?tm" using assms(1) by (simp add: heap_ok_def)
qed

section \<open>Supply of a time tick\<close>

text \<open>
  The loop of \<open>signal_time\<close> calls the callbacks of the due events; \<open>call\<close> runs a callback function
  on its argument. Whether the loop ends depends on the callbacks, so it is a partial function.
\<close>

partial_function (option) expire :: "(cback \<Rightarrow> kernel \<Rightarrow> kernel) \<Rightarrow> kernel \<Rightarrow> kernel option" where
  "expire call s =
    (if last_index (tme s) > 0 \<and>
        EVTTIM_LE (tme s) (time (TMEVT_NODE (tme s) 1)) (current_time (tme s))
     then (let b = p_tmevtb (TMEVT_NODE (tme s) 1);
               s = s\<lparr>tme := tmevtb_delete_top (tme s)\<rparr>
           in expire call (call (callback (tmevtb (tme s) b)) s))
     else Some s)"

definition time_tick :: "kernel \<Rightarrow> kernel" where
  "time_tick s =
    (let s = i_lock_cpu s;
         s = s\<lparr>tme := (tme s)\<lparr>current_time := next_time (tme s)\<rparr>\<rparr>
     in s\<lparr>tme := (tme s)\<lparr>next_time := current_time (tme s) + TIC_NUME\<rparr>\<rparr>)"

definition time_tock :: "kernel \<Rightarrow> kernel" where
  "time_tock s =
    (let s = s\<lparr>tme := (tme s)\<lparr>min_time := current_time (tme s)\<rparr>\<rparr> in i_unlock_cpu s)"

definition signal_time :: "(cback \<Rightarrow> kernel \<Rightarrow> kernel) \<Rightarrow> kernel \<Rightarrow> kernel option" where
  "signal_time call s = map_option time_tock (expire call (time_tick s))"

definition due :: "TMEVT \<Rightarrow> tmevtb_id set" where
  "due tm = {b. \<exists>t. evts tm b = Some t \<and> EVTTIM_LE tm t (current_time tm)}"

definition same_clock :: "TMEVT \<Rightarrow> TMEVT \<Rightarrow> bool" where
  "same_clock tm tm' \<longleftrightarrow> min_time tm' = min_time tm \<and> current_time tm' = current_time tm \<and>
    next_time tm' = next_time tm"

text \<open>
  What the loop needs of the callbacks: run after the root, a due event, was deleted, a callback
  keeps the invariant \<open>I\<close>, leaves the clock alone, and registers only events later than the
  current time, or the event of the root again, for a later time than it had. A cyclic handler with
  phase 0 that is started at the start of the kernel is one tick late at its first activation; its
  next one may be due in the same tick. \<open>I0\<close> is the invariant between time ticks.
\<close>

locale time_callbacks =
  fixes call :: "cback \<Rightarrow> kernel \<Rightarrow> kernel"
    and I :: "kernel \<Rightarrow> bool"
    and I0 :: "kernel \<Rightarrow> bool"
  assumes I_heap: "I s \<Longrightarrow> heap_ok (tme s)"
    and call_law: "I s \<Longrightarrow> 0 < last_index (tme s) \<Longrightarrow>
      EVTTIM_LE (tme s) (time (TMEVT_NODE (tme s) 1)) (current_time (tme s)) \<Longrightarrow>
      s1 = s\<lparr>tme := tmevtb_delete_top (tme s)\<rparr> \<Longrightarrow>
      s2 = call (callback (tmevtb (tme s1) (p_tmevtb (TMEVT_NODE (tme s) 1)))) s1 \<Longrightarrow>
      I s2 \<and> same_clock (tme s1) (tme s2) \<and>
      (\<forall>b t. evts (tme s2) b = Some t \<longrightarrow>
        evts (tme s1) b = Some t \<or> EVTTIM_LT (tme s1) (current_time (tme s1)) t \<or>
        b = p_tmevtb (TMEVT_NODE (tme s) 1) \<and> EVTTIM_LT (tme s1) (time (TMEVT_NODE (tme s) 1)) t)"
    and tick_law: "I0 s \<Longrightarrow> I (time_tick s)"
    and tock_law: "I s \<Longrightarrow> due (tme s) = {} \<Longrightarrow> I0 (time_tock s)"
begin

text \<open>How late the due events are, the measure of the loop.\<close>

definition lag :: "TMEVT \<Rightarrow> EVTTIM \<Rightarrow> nat" where
  "lag tm t = Suc (unat (current_time tm - min_time tm)) - unat (t - min_time tm)"

definition work :: "TMEVT \<Rightarrow> nat" where
  "work tm = (\<Sum>b \<in> due tm. lag tm (the (evts tm b)))"

lemma lag_pos: "EVTTIM_LE tm t (current_time tm) \<Longrightarrow> 0 < lag tm t"
  by (simp add: lag_def EVTTIM_LE_def word_le_nat_alt)

lemma finite_due: "I s \<Longrightarrow> finite (due (tme s))"
  by (rule finite_subset[OF _ finite_evts[OF I_heap]]) (auto simp: due_def)

lemma work_shrinks:
  assumes "I s" and "0 < last_index (tme s)"
    and "EVTTIM_LE (tme s) (time (TMEVT_NODE (tme s) 1)) (current_time (tme s))"
    and "s1 = s\<lparr>tme := tmevtb_delete_top (tme s)\<rparr>"
    and "s2 = call (callback (tmevtb (tme s1) (p_tmevtb (TMEVT_NODE (tme s) 1)))) s1"
  shows "I s2" and "same_clock (tme s) (tme s2)" and "work (tme s2) < work (tme s)"
proof -
  let ?r = "p_tmevtb (TMEVT_NODE (tme s) 1)" and ?t = "time (TMEVT_NODE (tme s) 1)"
  note h = I_heap[OF assms(1)]
  have n: "1 \<le> last_index (tme s)" using assms(2) by simp
  note law = call_law[OF assms] and sel = tmevtb_delete_top_sel[OF h n]
  show I2: "I s2" using law by simp
  show c: "same_clock (tme s) (tme s2)" using law sel by (simp add: same_clock_def assms(4))
  have e1: "evts (tme s1) = (evts (tme s))(?r := None)"
    using tmevtb_delete_top_ok(2)[OF h n] by (simp add: assms(4))
  have r: "?r \<in> due (tme s)" and er: "evts (tme s) ?r = Some ?t"
    using heap_root_event[OF h n] assms(3) by (simp_all add: due_def)
  have ev: "(b \<noteq> ?r \<and> evts (tme s) b = Some t \<or> b = ?r \<and> EVTTIM_LT (tme s) ?t t) \<and>
      EVTTIM_LE (tme s) t (current_time (tme s))"
    if b: "b \<in> due (tme s2)" and t: "evts (tme s2) b = Some t" for b t
  proof -
    have le: "EVTTIM_LE (tme s) t (current_time (tme s))"
      using b t c by (auto simp: due_def same_clock_def EVTTIM_LE_def)
    then have "\<not> EVTTIM_LT (tme s1) (current_time (tme s1)) t"
      using sel by (simp add: EVTTIM_LT_def EVTTIM_LE_def assms(4) not_less)
    then have "evts (tme s1) b = Some t \<or> b = ?r \<and> EVTTIM_LT (tme s1) ?t t" using law t by blast
    then have "b \<noteq> ?r \<and> evts (tme s) b = Some t \<or> b = ?r \<and> EVTTIM_LT (tme s1) ?t t"
      unfolding e1 by (cases "b = ?r") auto
    then show ?thesis using le sel by (simp add: EVTTIM_LT_def assms(4))
  qed
  have lag2: "lag (tme s2) t = lag (tme s) t" for t using c by (simp add: lag_def same_clock_def)
  have "lag (tme s2) (the (evts (tme s2) ?r)) < lag (tme s) ?t" if in2: "?r \<in> due (tme s2)"
  proof -
    obtain t where t: "evts (tme s2) ?r = Some t" using in2 unfolding due_def by blast
    have "EVTTIM_LT (tme s) ?t t" "EVTTIM_LE (tme s) t (current_time (tme s))" using ev[OF in2 t] by auto
    then have "lag (tme s) t < lag (tme s) ?t"
      by (simp add: lag_def EVTTIM_LT_def EVTTIM_LE_def word_less_nat_alt word_le_nat_alt)
    then show ?thesis unfolding t lag2 by simp
  qed
  then have root: "(if ?r \<in> due (tme s2) then lag (tme s2) (the (evts (tme s2) ?r)) else 0) < lag (tme s) ?t"
    using lag_pos[OF assms(3)] by simp
  have sub: "due (tme s2) - {?r} \<subseteq> due (tme s) - {?r}"
    using ev by (fastforce simp: due_def)
  have "(\<Sum>b \<in> due (tme s2) - {?r}. lag (tme s2) (the (evts (tme s2) b))) =
      (\<Sum>b \<in> due (tme s2) - {?r}. lag (tme s) (the (evts (tme s) b)))"
  proof (rule sum.cong[OF refl])
    fix b
    assume b: "b \<in> due (tme s2) - {?r}"
    then obtain t where t: "evts (tme s2) b = Some t" by (auto simp: due_def)
    show "lag (tme s2) (the (evts (tme s2) b)) = lag (tme s) (the (evts (tme s) b))"
      using ev[OF _ t] b t by (simp add: lag2)
  qed
  also have "... \<le> (\<Sum>b \<in> due (tme s) - {?r}. lag (tme s) (the (evts (tme s) b)))"
    using finite_due[OF assms(1)] sub by (intro sum_mono2) auto
  finally show "work (tme s2) < work (tme s)"
    using root sum.remove[OF finite_due[OF assms(1)] r, of "\<lambda>b. lag (tme s) (the (evts (tme s) b))"]
      sum.remove[OF finite_due[OF I2], of ?r "\<lambda>b. lag (tme s2) (the (evts (tme s2) b))"] er
    by (cases "?r \<in> due (tme s2)") (auto simp: work_def)
qed

lemma not_due:
  assumes "I s"
    and "\<not> (last_index (tme s) > 0 \<and>
      EVTTIM_LE (tme s) (time (TMEVT_NODE (tme s) 1)) (current_time (tme s)))"
  shows "due (tme s) = {}"
proof (rule ccontr)
  assume "due (tme s) \<noteq> {}"
  then obtain b t where t: "evts (tme s) b = Some t" "EVTTIM_LE (tme s) t (current_time (tme s))"
    by (auto simp: due_def)
  show False
    using evts_SomeD(1,2)[OF t(1)] heap_root_least[OF I_heap[OF assms(1)] t(1)] t(2) assms(2)
    by (auto simp: EVTTIM_LE_def intro: order_trans)
qed

lemma expire_returns:
  "I s \<Longrightarrow> \<exists>s'. expire call s = Some s' \<and> I s' \<and> due (tme s') = {} \<and> same_clock (tme s) (tme s')"
proof (induction "work (tme s)" arbitrary: s rule: less_induct)
  case less
  show ?case
  proof (cases "last_index (tme s) > 0 \<and>
      EVTTIM_LE (tme s) (time (TMEVT_NODE (tme s) 1)) (current_time (tme s))")
    case True
    define s1 where "s1 = s\<lparr>tme := tmevtb_delete_top (tme s)\<rparr>"
    define s2 where "s2 = call (callback (tmevtb (tme s1) (p_tmevtb (TMEVT_NODE (tme s) 1)))) s1"
    note st = work_shrinks[OF less.prems _ _ s1_def s2_def]
    then obtain s' where "expire call s2 = Some s'" "I s'" "due (tme s') = {}" "same_clock (tme s2) (tme s')"
      using less.hyps[of s2] st(1,3) True by auto
    moreover have "expire call s = expire call s2"
      using True by (subst expire.simps) (simp add: s1_def s2_def Let_def)
    ultimately show ?thesis using st(2) True by (auto simp: same_clock_def)
  next
    case False
    then have "expire call s = Some s" by (subst expire.simps) auto
    then show ?thesis using less.prems not_due[OF less.prems False] by (simp add: same_clock_def)
  qed
qed

lemma signal_time_returns:
  assumes "I0 s"
  shows "\<exists>s'. signal_time call s = Some s' \<and> I0 s' \<and>
    current_time (tme s') = next_time (tme s) \<and> min_time (tme s') = next_time (tme s) \<and>
    next_time (tme s') = next_time (tme s) + 1 \<and>
    (\<forall>b t. evts (tme s') b = Some t \<longrightarrow> t \<noteq> current_time (tme s'))"
proof -
  obtain s1 where s1: "expire call (time_tick s) = Some s1" "I s1" "due (tme s1) = {}"
      "same_clock (tme (time_tick s)) (tme s1)"
    using expire_returns[OF tick_law[OF assms]] by blast
  have ev: "evts (tme (time_tock s1)) = evts (tme s1)"
    by (simp add: time_tock_def i_unlock_cpu_def)
  have "t \<noteq> current_time (tme s1)" if "evts (tme s1) b = Some t" for b t
    using s1(3) that by (auto simp: due_def EVTTIM_LE_def)
  then show ?thesis
    using s1 tock_law[OF s1(2,3)] ev
    by (auto simp: signal_time_def same_clock_def time_tick_def time_tock_def i_lock_cpu_def
        i_unlock_cpu_def Let_def)
qed

end


section \<open>Properties\<close>

text \<open>A time event heap shortly before the wrap-around of the system time, for the witnesses.\<close>

definition sample_tmevt :: TMEVT where
  "sample_tmevt =
    \<lparr>tmevt_heap = (\<lambda>_. \<lparr>time = 0, p_tmevtb = CycTmevtb 0\<rparr>),
     tmevtb = (\<lambda>_. \<lparr>index = 0, callback = Call_cychdr 0\<rparr>), last_index = 0,
     current_time = 0xfffffffe, min_time = 0xfffffffe, next_time = 0xffffffff\<rparr>"

definition sample_heap :: TMEVT where
  "sample_heap = tmevtb_insert (AlmTmevtb 1) 7 (tmevtb_insert (AlmTmevtb 0) 0xffffffff
    (tmevtb_insert (TskTmevtb 0) 3 sample_tmevt))"

lemma sample_tmevt_ok: "heap_ok sample_tmevt" "evts sample_tmevt = Map.empty"
  by (simp_all add: heap_ok_def sample_tmevt_def evts_def fun_eq_iff)

lemma sample_heap_ok:
  "heap_ok sample_heap"
  "evts sample_heap = [TskTmevtb 0 \<mapsto> 3, AlmTmevtb 0 \<mapsto> 0xffffffff, AlmTmevtb 1 \<mapsto> 7]"
  by (simp_all add: sample_heap_def tmevtb_insert_ok sample_tmevt_ok)

text \<open>
  C21: the time event heap is a finite map from time event blocks to times. Registering a block that
  is not registered adds exactly that event, deregistering a registered block removes exactly that
  event, both keep the heap order and the back pointers, and the clock is not touched.
\<close>

theorem time_event_heap_map:
  assumes "heap_ok tm" and "evts tm b = None" and "evts tm c \<noteq> None"
  shows "heap_ok (tmevtb_insert b t tm) \<and> evts (tmevtb_insert b t tm) = (evts tm)(b \<mapsto> t) \<and>
    same_clock tm (tmevtb_insert b t tm) \<and>
    heap_ok (tmevtb_delete c tm) \<and> evts (tmevtb_delete c tm) = (evts tm)(c := None) \<and>
    same_clock tm (tmevtb_delete c tm) \<and>
    last_index (tmevtb_insert b t tm) = last_index tm + 1 \<and>
    last_index (tmevtb_delete c tm) = last_index tm - 1"
  using tmevtb_insert_ok[OF assms(1,2), of t] tmevtb_insert_sel[OF assms(1,2)]
    tmevtb_delete_ok(1,2)[OF assms(1,3)] tmevtb_delete_sel[OF assms(1,3)]
    tme_frame_sel(1)[OF tmevtb_delete_ok(3)[OF assms(1,3)]]
  by (simp add: same_clock_def)

theorem time_event_heap_map_witness:
  "heap_ok sample_heap \<and> evts sample_heap (CycTmevtb 2) = None \<and> evts sample_heap (AlmTmevtb 0) \<noteq> None \<and>
    heap_ok (tmevtb_delete (AlmTmevtb 0) sample_heap)"
  using time_event_heap_map[OF sample_heap_ok(1), of "CycTmevtb 2" "AlmTmevtb 0" 5]
  by (simp add: sample_heap_ok)

text \<open>
  C22: taking the root out of the heap until it is empty yields every registered time event exactly
  once, in the order of the event times, also across the wrap-around of the 32-bit system time.
\<close>

theorem time_events_in_order:
  assumes "heap_ok tm"
    and "bs = pops (\<lambda>tm. last_index tm = 0) (\<lambda>tm. p_tmevtb (TMEVT_NODE tm 1)) tmevtb_delete_top
      (last_index tm) tm"
  shows "distinct bs \<and> set bs = dom (evts tm) \<and> length bs = last_index tm \<and>
    sorted_wrt (\<lambda>b c. EVTTIM_LE tm (the (evts tm b)) (the (evts tm c))) bs"
proof -
  have "distinct bs \<and> set bs = dom (evts tm)"
    using heapq.pops_all[OF assms(1), of "last_index tm"] card_evts[OF assms(1)] assms(2) by simp
  then show ?thesis
    using heapq.pops_sorted[OF assms(1)] card_evts[OF assms(1)] distinct_card[of bs] assms(2) by metis
qed

theorem time_events_in_order_witness:
  "heap_ok sample_heap \<and> sorted_wrt (\<lambda>b c. EVTTIM_LE sample_heap (the (evts sample_heap b)) (the (evts sample_heap c)))
      (pops (\<lambda>tm. last_index tm = 0) (\<lambda>tm. p_tmevtb (TMEVT_NODE tm 1)) tmevtb_delete_top 3 sample_heap) \<and>
    set (pops (\<lambda>tm. last_index tm = 0) (\<lambda>tm. p_tmevtb (TMEVT_NODE tm 1)) tmevtb_delete_top 3 sample_heap) =
      {AlmTmevtb 0, TskTmevtb 0, AlmTmevtb 1}"
proof -
  have "last_index sample_heap = 3" by code_simp
  then show ?thesis
    using time_events_in_order[OF sample_heap_ok(1) refl] sample_heap_ok by auto
qed

text \<open>
  when only blocks of a finite set are registered, the heap never holds more nodes than the set
  has blocks; so the array \<open>tmevt_heap\<close>, which the configuration gives one node per task, cyclic
  handler and alarm handler, is not overrun by a registration.
\<close>

lemma tmevt_heap_bound:
  assumes "heap_ok tm" and "finite B" and "dom (evts tm) \<subseteq> B" and "b \<in> B" and "evts tm b = None"
  shows "last_index (tmevtb_insert b t tm) \<le> card B"
proof -
  have "last_index (tmevtb_insert b t tm) = card (dom (evts (tmevtb_insert b t tm)))"
    using card_evts tmevtb_insert_ok(1)[OF assms(1,5)] by metis
  also have "... \<le> card B"
    using assms tmevtb_insert_ok(2)[OF assms(1,5), of t] by (intro card_mono) auto
  finally show ?thesis .
qed

lemma tmevt_heap_bound_witness:
  "last_index (tmevtb_insert (CycTmevtb 0) 9 sample_heap) \<le>
    card {TskTmevtb 0, AlmTmevtb 0, AlmTmevtb 1, CycTmevtb 0}"
  using tmevt_heap_bound[of sample_heap "{TskTmevtb 0, AlmTmevtb 0, AlmTmevtb 1, CycTmevtb 0}" "CycTmevtb 0" 9]
  by (simp add: sample_heap_ok)

end
