(* ===== verification/Asp_Wait.thy ===== *)
theory Asp_Wait
  imports Asp_Task Asp_Time_Event
begin

text \<open>
  Waiting states, \<^verbatim>\<open>kernel/wait.h\<close> and \<^verbatim>\<open>kernel/wait.c\<close>: the transitions of a task into and out of
  a waiting state, with the wait queues of the synchronisation objects and the time events of
  timeouts. The invariant \<open>tsk_inv\<close> ties the state of every task to the one queue that holds it and
  to its time event; blocking the running task and releasing a waiting one keep it.
\<close>

section \<open>Operations\<close>

abbreviation upd_tme :: "(TMEVT \<Rightarrow> TMEVT) \<Rightarrow> kernel \<Rightarrow> kernel" where
  "upd_tme g s \<equiv> s\<lparr>tme := g (tme s)\<rparr>"

text \<open>
  The waiting information block and the time event block are local variables of the service call;
  they belong to the task that runs it: field \<open>p_winfo\<close> and block \<open>TskTmevtb\<close>.
\<close>

definition make_wait :: "kernel \<Rightarrow> kernel" where
  "make_wait s =
    (let s = snd (make_non_runnable (runtsk s) s)
     in upd_winfo (runtsk s) (\<lambda>w. w\<lparr>winfo := P_tmevtb None\<rparr>) s)"

definition make_wait_tmout :: "TMO \<Rightarrow> kernel \<Rightarrow> kernel" where
  "make_wait_tmout tmout s =
    (let s = snd (make_non_runnable (runtsk s) s);
         b = TskTmevtb (runtsk s)
     in if tmout > 0
        then (let s = upd_winfo (runtsk s) (\<lambda>w. w\<lparr>winfo := P_tmevtb (Some b)\<rparr>) s
              in upd_tme (tmevtb_enqueue b (word_of_int tmout) (Wait_tmout (runtsk s))) s)
        else upd_winfo (runtsk s) (\<lambda>w. w\<lparr>winfo := P_tmevtb None\<rparr>) s)"

definition make_non_wait :: "tsk \<Rightarrow> kernel \<Rightarrow> bool \<times> kernel" where
  "make_non_wait p_tcb s =
    (if \<not> TSTAT_SUSPENDED (tstat (tcb s p_tcb))
     then make_runnable p_tcb (set_tstat p_tcb TS_RUNNABLE s)
     else (False, set_tstat p_tcb TS_SUSPENDED s))"

definition wait_dequeue_wobj :: "tsk \<Rightarrow> kernel \<Rightarrow> kernel" where
  "wait_dequeue_wobj p_tcb s =
    (if TSTAT_WAIT_WOBJ (tstat (tcb s p_tcb)) then s\<lparr>queues := q_delete p_tcb (queues s)\<rparr> else s)"

text \<open>The member \<open>p_tmevtb\<close> of the union \<open>WINFO\<close> is the live one while the task waits.\<close>

definition wait_dequeue_tmevtb :: "tsk \<Rightarrow> kernel \<Rightarrow> kernel" where
  "wait_dequeue_tmevtb p_tcb s =
    (case winfo (p_winfo (tcb s p_tcb)) of
       P_tmevtb (Some b) \<Rightarrow> upd_tme (tmevtb_dequeue b) s
     | _ \<Rightarrow> s)"

abbreviation set_wercd :: "tsk \<Rightarrow> ER \<Rightarrow> kernel \<Rightarrow> kernel" where
  "set_wercd p e s \<equiv> upd_winfo p (\<lambda>w. w\<lparr>winfo := Wercd e\<rparr>) s"

definition wait_complete :: "tsk \<Rightarrow> kernel \<Rightarrow> bool \<times> kernel" where
  "wait_complete p_tcb s =
    (let s = wait_dequeue_tmevtb p_tcb s;
         s = set_wercd p_tcb E_OK s
     in make_non_wait p_tcb s)"

text \<open>
  The two callbacks open a window for interrupts of higher priority at their end; the model is the
  run in which none is taken there.
\<close>

definition wait_tmout :: "tsk \<Rightarrow> kernel \<Rightarrow> kernel" where
  "wait_tmout p_tcb s =
    (let s = wait_dequeue_wobj p_tcb s;
         s = set_wercd p_tcb E_TMOUT s;
         s = reqflg_if (make_non_wait p_tcb s)
     in i_lock_cpu (i_unlock_cpu s))"

definition wait_tmout_ok :: "tsk \<Rightarrow> kernel \<Rightarrow> kernel" where
  "wait_tmout_ok p_tcb s =
    (let s = set_wercd p_tcb E_OK s;
         s = reqflg_if (make_non_wait p_tcb s)
     in i_lock_cpu (i_unlock_cpu s))"

definition wait_release :: "tsk \<Rightarrow> kernel \<Rightarrow> bool \<times> kernel" where
  "wait_release p_tcb s =
    (let s = wait_dequeue_wobj p_tcb s;
         s = wait_dequeue_tmevtb p_tcb s;
         s = set_wercd p_tcb E_RLWAI s
     in make_non_wait p_tcb s)"

definition wait_tskid :: "qhead \<Rightarrow> kernel \<Rightarrow> ID" where
  "wait_tskid q s = (if \<not> q_empty q (queues s) then TSKID (hd (queues s q)) else TSK_NONE)"

definition wobj_queue_insert :: "wobj \<Rightarrow> kernel \<Rightarrow> kernel" where
  "wobj_queue_insert w s =
    (if wobjatr s w AND TA_TPRI \<noteq> 0
     then s\<lparr>queues := q_insert_tpri (tskpri s) (WaitQ w) (runtsk s) (queues s)\<rparr>
     else s\<lparr>queues := q_insert_prev (WaitQ w) (runtsk s) (queues s)\<rparr>)"

definition wobj_make_wait :: "wobj \<Rightarrow> kernel \<Rightarrow> kernel" where
  "wobj_make_wait w s =
    (let s = make_wait s;
         s = wobj_queue_insert w s
     in upd_winfo (runtsk s) (\<lambda>i. i\<lparr>p_wobjcb := w\<rparr>) s)"

definition wobj_make_wait_tmout :: "wobj \<Rightarrow> TMO \<Rightarrow> kernel \<Rightarrow> kernel" where
  "wobj_make_wait_tmout w tmout s =
    (let s = make_wait_tmout tmout s;
         s = wobj_queue_insert w s
     in upd_winfo (runtsk s) (\<lambda>i. i\<lparr>p_wobjcb := w\<rparr>) s)"

text \<open>
  The loop takes the first task out of the queue until it is empty. Only wait queues are passed;
  the released tasks go to ready queues, so the queue gets shorter.
\<close>

definition is_waitq :: "qhead \<Rightarrow> bool" where
  "is_waitq q \<longleftrightarrow> (case q of WaitQ _ \<Rightarrow> True | RWaitQ _ \<Rightarrow> True | _ \<Rightarrow> False)"

lemma make_non_wait_queues:
  "queues (snd (make_non_wait p s)) =
    (if TSTAT_SUSPENDED (tstat (tcb s p)) then queues s
     else q_insert_prev (ReadyQ (tskpri s p)) p (queues s))"
  by (simp add: make_non_wait_def)

lemma wait_dequeue_tmevtb_queues [simp]: "queues (wait_dequeue_tmevtb p s) = queues s"
  by (simp add: wait_dequeue_tmevtb_def split: winfo_union.splits option.splits)

function init_wait_queue :: "qhead \<Rightarrow> kernel \<Rightarrow> bool \<times> kernel" where
  "init_wait_queue q s =
    (if \<not> q_empty q (queues s) \<and> is_waitq q
     then (let (p_tcb, f) = q_delete_next q (queues s);
               s = s\<lparr>queues := f\<rparr>;
               s = wait_dequeue_tmevtb p_tcb s;
               s = set_wercd p_tcb E_DLT s;
               (d, s) = make_non_wait p_tcb s;
               (dspreq, s) = init_wait_queue q s
           in (d \<or> dspreq, s))
     else (False, s))"
  by pat_completeness auto
termination
  by (relation "measure (\<lambda>(q, s). length (queues s q))")
    (auto simp: queue_simps is_waitq_def make_non_wait_queues dest!: arg_cong[where f = snd]
      split: qhead.splits if_splits)

declare init_wait_queue.simps [simp del]


section \<open>Fields the operations leave alone\<close>

lemma wobjatr_objects: "objects s' = objects s \<Longrightarrow> wobjatr s' = wobjatr s"
  by (rule ext) (simp add: wobjatr_def objects_def split: wobj.split)

lemma objects_wait [simp]:
  "objects (make_wait s) = objects s"
  "objects (make_wait_tmout tmout s) = objects s"
  "objects (snd (make_non_wait p s)) = objects s"
  "objects (wait_dequeue_wobj p s) = objects s"
  "objects (wait_dequeue_tmevtb p s) = objects s"
  "objects (wobj_queue_insert w s) = objects s"
  by (simp_all add: make_wait_def make_wait_tmout_def make_non_wait_def wait_dequeue_wobj_def
      wait_dequeue_tmevtb_def wobj_queue_insert_def Let_def split: winfo_union.splits option.splits)

lemma reqflg_if_objects [simp]: "objects (reqflg_if r) = objects (snd r)"
  by (simp add: reqflg_if_def)

lemma dispatch_if_objects [simp]: "objects (dispatch_if r) = objects (snd r)"
  by (simp add: dispatch_if_def dispatch_def)

lemma objects_lock [simp]:
  "objects (t_lock_cpu s) = objects s" "objects (t_unlock_cpu s) = objects s"
  "objects (i_lock_cpu s) = objects s" "objects (i_unlock_cpu s) = objects s"
  "objects (dispatch s) = objects s"
  by (simp_all add: t_lock_cpu_def t_unlock_cpu_def i_lock_cpu_def i_unlock_cpu_def dispatch_def)

lemma objects_wait2 [simp]:
  "objects (snd (wait_complete p s)) = objects s"
  "objects (snd (wait_release p s)) = objects s"
  "objects (wait_tmout p s) = objects s"
  "objects (wait_tmout_ok p s) = objects s"
  "objects (wobj_make_wait w s) = objects s"
  "objects (wobj_make_wait_tmout w tmout s) = objects s"
  by (simp_all add: wait_complete_def wait_release_def wait_tmout_def wait_tmout_ok_def
      wobj_make_wait_def wobj_make_wait_tmout_def Let_def)

text \<open>One round of the loop of \<open>init_wait_queue\<close>, for the first task of the queue.\<close>

definition init_wait_round :: "qhead \<Rightarrow> kernel \<Rightarrow> bool \<times> kernel" where
  "init_wait_round q s =
    make_non_wait (hd (queues s q)) (set_wercd (hd (queues s q)) E_DLT
      (wait_dequeue_tmevtb (hd (queues s q)) (s\<lparr>queues := (queues s)(q := tl (queues s q))\<rparr>)))"

lemma init_wait_queue_round:
  "init_wait_queue q s =
    (if queues s q \<noteq> [] \<and> is_waitq q
     then (fst (init_wait_round q s) \<or> fst (init_wait_queue q (snd (init_wait_round q s))),
           snd (init_wait_queue q (snd (init_wait_round q s))))
     else (False, s))"
  by (subst init_wait_queue.simps)
    (simp add: init_wait_round_def Let_def queue_simps case_prod_beta)

lemma init_wait_round_shorter:
  "queues s q \<noteq> [] \<Longrightarrow> is_waitq q \<Longrightarrow> queues (snd (init_wait_round q s)) q = tl (queues s q)"
  by (auto simp: init_wait_round_def make_non_wait_queues queue_simps is_waitq_def split: qhead.splits)

lemma init_wait_queue_induct [consumes 1, case_names empty round]:
  assumes "is_waitq q"
    and "\<And>s. queues s q = [] \<Longrightarrow> P s"
    and "\<And>s. queues s q \<noteq> [] \<Longrightarrow> P (snd (init_wait_round q s)) \<Longrightarrow> P s"
  shows "P s"
proof (induction "length (queues s q)" arbitrary: s rule: less_induct)
  case less
  show ?case
  proof (cases "queues s q = []")
    case False
    then have "length (queues (snd (init_wait_round q s)) q) < length (queues s q)"
      using init_wait_round_shorter[OF False assms(1)] by simp
    then show ?thesis using assms(3)[OF False] less by blast
  qed (rule assms(2))
qed

lemma objects_init_wait_queue [simp]: "objects (snd (init_wait_queue q s)) = objects s"
proof (cases "is_waitq q")
  case True
  have r: "objects (snd (init_wait_round q s)) = objects s" for s by (simp add: init_wait_round_def)
  show ?thesis
    using True
  proof (induction s rule: init_wait_queue_induct)
    case (round s)
    then show ?case using True r[of s] by (subst init_wait_queue_round) simp
  qed (simp add: init_wait_queue_round)
qed (simp add: init_wait_queue_round)


section \<open>The invariant of tasks, queues and time events\<close>

text \<open>The wait cause that belongs to a wait queue.\<close>

fun wait_code :: "qhead \<Rightarrow> 8 word" where
  "wait_code (RWaitQ (DTQ _)) = TS_WAIT_RDTQ"
| "wait_code (RWaitQ (PDQ _)) = TS_WAIT_RPDQ"
| "wait_code (WaitQ (SEM _)) = TS_WAIT_SEM"
| "wait_code (WaitQ (FLG _)) = TS_WAIT_FLG"
| "wait_code (WaitQ (DTQ _)) = TS_WAIT_SDTQ"
| "wait_code (WaitQ (PDQ _)) = TS_WAIT_SPDQ"
| "wait_code (WaitQ (MBX _)) = TS_WAIT_MBX"
| "wait_code (WaitQ (MPF _)) = TS_WAIT_MPF"
| "wait_code (WaitQ (MTX _)) = TS_WAIT_MTX"
| "wait_code _ = TS_WAIT_DLY"

definition tstat_ok :: "8 word \<Rightarrow> bool" where
  "tstat_ok v \<longleftrightarrow> v \<in> {TS_DORMANT, TS_RUNNABLE, TS_SUSPENDED} \<or>
    v AND TS_WAIT_MASK \<in> {TS_WAIT_DLY, TS_WAIT_SLP, TS_WAIT_RDTQ, TS_WAIT_RPDQ, TS_WAIT_SEM, TS_WAIT_FLG,
      TS_WAIT_SDTQ, TS_WAIT_SPDQ, TS_WAIT_MBX, TS_WAIT_MPF, TS_WAIT_MTX} \<and>
    (v = TS_WAITING OR (v AND TS_WAIT_MASK) \<or> v = TS_WAITING OR TS_SUSPENDED OR (v AND TS_WAIT_MASK))"

text \<open>The queue that holds a task, from its control block.\<close>

definition task_place :: "TCB \<Rightarrow> qhead option" where
  "task_place t =
    (if tskatr (p_tinib t) = TA_NOEXS then Some FreeTcb
     else if TSTAT_RUNNABLE (tstat t) then Some (ReadyQ (priority t))
     else if TSTAT_WAITING (tstat t) \<and> TSTAT_WAIT_WOBJ (tstat t)
     then Some (if tstat t AND TS_WAIT_MASK \<in> {TS_WAIT_RDTQ, TS_WAIT_RPDQ}
                then RWaitQ (p_wobjcb (p_winfo t)) else WaitQ (p_wobjcb (p_winfo t)))
     else None)"

text \<open>The time event of a task is registered exactly while it waits with a timeout.\<close>

definition timed :: "tsk \<Rightarrow> TCB \<Rightarrow> bool" where
  "timed p t \<longleftrightarrow> TSTAT_WAITING (tstat t) \<and> winfo (p_winfo t) = P_tmevtb (Some (TskTmevtb p))"

definition tcb_ok :: "tsk \<Rightarrow> TCB \<Rightarrow> bool" where
  "tcb_ok p t \<longleftrightarrow> tstat_ok (tstat t) \<and>
    (if tskatr (p_tinib t) = TA_NOEXS then tstat t = TS_DORMANT
     else priority t < TNUM_TPRI \<and> bpriority t < TNUM_TPRI \<and> ipriority (p_tinib t) < TNUM_TPRI) \<and>
    (TSTAT_WAITING (tstat t) \<longrightarrow>
      winfo (p_winfo t) \<in> {P_tmevtb None, P_tmevtb (Some (TskTmevtb p))} \<and>
      (TSTAT_WAIT_WOBJ (tstat t) \<longrightarrow> wait_code (the (task_place t)) = tstat t AND TS_WAIT_MASK))"

definition tmout_ok :: "tsk \<Rightarrow> TCB \<Rightarrow> TMEVT \<Rightarrow> bool" where
  "tmout_ok p t tm \<longleftrightarrow> (evts tm (TskTmevtb p) \<noteq> None \<longleftrightarrow> timed p t) \<and>
    (timed p t \<longrightarrow> callback (tmevtb tm (TskTmevtb p)) =
      (if tstat t AND TS_WAIT_MASK = TS_WAIT_DLY then Wait_tmout_ok p else Wait_tmout p))"

definition tsk_inv :: "kernel \<Rightarrow> bool" where
  "tsk_inv s \<longleftrightarrow> ready_ok s \<and> heap_ok (tme s) \<and>
    (\<forall>p. tcb_ok p (tcb s p) \<and> tmout_ok p (tcb s p) (tme s)) \<and>
    (\<forall>p h. p \<in> set (queues s h) \<longleftrightarrow> task_place (tcb s p) = Some h) \<and>
    (\<forall>w. wobjatr s w AND TA_TPRI \<noteq> 0 \<longrightarrow> sorted (map (tskpri s) (queues s (WaitQ w))))"

lemma tsk_invD:
  assumes "tsk_inv s"
  shows "ready_ok s" and "heap_ok (tme s)" and "tcb_ok p (tcb s p)" and "tmout_ok p (tcb s p) (tme s)"
    and "p \<in> set (queues s h) \<longleftrightarrow> task_place (tcb s p) = Some h"
    and "wobjatr s w AND TA_TPRI \<noteq> 0 \<Longrightarrow> sorted (map (tskpri s) (queues s (WaitQ w)))"
    and "queues_ok (queues s)"
  using assms by (auto simp: tsk_inv_def ready_ok_def)

text \<open>When a step changes one task \<open>p\<close> only.\<close>

lemma tsk_inv_one:
  assumes "tsk_inv s" and "ready_ok s'" and "heap_ok (tme s')"
    and "tcb s' = (tcb s)(p := t)" and "tcb_ok p t" and "tmout_ok p t (tme s')"
    and "\<And>q. q \<noteq> p \<Longrightarrow> evts (tme s') (TskTmevtb q) = evts (tme s) (TskTmevtb q)"
    and "\<And>q. q \<noteq> p \<Longrightarrow> callback (tmevtb (tme s') (TskTmevtb q)) = callback (tmevtb (tme s) (TskTmevtb q))"
    and "\<And>h. remove1 p (queues s' h) = remove1 p (queues s h)"
    and "\<And>h. p \<in> set (queues s' h) \<longleftrightarrow> task_place t = Some h"
    and "wobjatr s' = wobjatr s"
    and "\<And>w. task_place t = Some (WaitQ w) \<Longrightarrow> wobjatr s w AND TA_TPRI \<noteq> 0 \<Longrightarrow>
      sorted (map (tskpri s') (queues s' (WaitQ w)))"
  shows "tsk_inv s'"
  unfolding tsk_inv_def
proof (intro conjI allI impI)
  fix q h
  have dist: "distinct (queues s h)" "distinct (queues s' h)" for h
    using queues_okD(1)[OF tsk_invD(7)[OF assms(1)]] assms(2) by (auto simp: ready_ok_def queues_ok_def)
  show "tcb_ok q (tcb s' q)" using tsk_invD(3)[OF assms(1)] assms(4,5) by simp
  show "tmout_ok q (tcb s' q) (tme s')"
    using tsk_invD(4)[OF assms(1), of q] assms(4,6-8) by (cases "q = p") (simp_all add: tmout_ok_def)
  show "q \<in> set (queues s' h) \<longleftrightarrow> task_place (tcb s' q) = Some h"
  proof (cases "q = p")
    case False
    have "q \<in> set (queues s' h) \<longleftrightarrow> q \<in> set (remove1 p (queues s' h))"
      using False by (simp add: in_set_remove1)
    also have "... \<longleftrightarrow> q \<in> set (queues s h)" using False by (simp add: assms(9) in_set_remove1)
    finally show ?thesis using tsk_invD(5)[OF assms(1)] False assms(4) by simp
  qed (simp add: assms(4,10))
  fix w assume w: "wobjatr s' w AND TA_TPRI \<noteq> 0"
  show "sorted (map (tskpri s') (queues s' (WaitQ w)))"
  proof (cases "task_place t = Some (WaitQ w)")
    case False
    then have np: "p \<notin> set (queues s' (WaitQ w))" by (simp add: assms(10))
    then have q: "queues s' (WaitQ w) = remove1 p (queues s (WaitQ w))"
      using assms(9)[of "WaitQ w"] by (simp add: remove1_idem)
    have "sorted (map (tskpri s) (remove1 p (queues s (WaitQ w))))"
      using tsk_invD(6)[OF assms(1)] w dist(1)
      by (simp add: assms(11) distinct_remove1_removeAll removeAll_filter_not_eq sorted_filter)
    moreover have "map (tskpri s') (queues s' (WaitQ w)) = map (tskpri s) (queues s' (WaitQ w))"
      using np by (auto simp: assms(4))
    ultimately show ?thesis unfolding q by (simp only:)
  qed (use w assms(11,12) in simp)
qed (use assms in auto)


section \<open>Task states\<close>

lemma tstat_ok_cases:
  "tstat_ok v \<longleftrightarrow> v \<in> {0, 1, 4, 0x02, 0x0a, 0x12, 0x1a, 0x22, 0x2a, 0x32, 0x3a, 0x42, 0x4a, 0x52,
    0x06, 0x0e, 0x16, 0x1e, 0x26, 0x2e, 0x36, 0x3e, 0x46, 0x4e, 0x56}" (is "_ \<longleftrightarrow> v \<in> ?V")
proof
  assume "tstat_ok v"
  then consider "v \<in> {0, 1, 4}" | c where "v AND TS_WAIT_MASK = c" "v = TS_WAITING OR c \<or> v = TS_WAITING OR TS_SUSPENDED OR c"
      "c \<in> {0, 0x08, 0x10, 0x18, 0x20, 0x28, 0x30, 0x38, 0x40, 0x48, 0x50}"
    unfolding tstat_ok_def by blast
  then show "v \<in> ?V" by cases auto
next
  assume "v \<in> ?V"
  then show "tstat_ok v" by (elim insertE emptyE) (simp_all add: tstat_ok_def)
qed

lemmas TSTAT_defs = TSTAT_DORMANT_def TSTAT_RUNNABLE_def TSTAT_WAITING_def TSTAT_SUSPENDED_def
  TSTAT_WAIT_SLP_def TSTAT_WAIT_WOBJ_def TSTAT_WAIT_WOBJCB_def TSTAT_WAIT_MTX_def

lemma tstat_ok_excl:
  assumes "tstat_ok v"
  shows "TSTAT_RUNNABLE v \<longleftrightarrow> v = TS_RUNNABLE"
    and "TSTAT_WAITING v \<Longrightarrow> \<not> TSTAT_RUNNABLE v"
    and "TSTAT_SUSPENDED v \<Longrightarrow> \<not> TSTAT_RUNNABLE v"
    and "\<not> TSTAT_WAITING v \<Longrightarrow> TSTAT_SUSPENDED v \<Longrightarrow> v = TS_SUSPENDED"
    and "\<not> TSTAT_WAITING v \<Longrightarrow> \<not> TSTAT_SUSPENDED v \<Longrightarrow> v = TS_RUNNABLE \<or> v = TS_DORMANT"
  using assms unfolding tstat_ok_cases
  by (auto simp: TSTAT_defs)

section \<open>Releasing a task from its wait\<close>

text \<open>
  All releases have this form: the task leaves its wait queue, its time event is gone (\<open>tm\<close> is the
  heap without it), the result of its service call is set, and it becomes runnable or suspended.
\<close>

definition release :: "ER \<Rightarrow> TMEVT \<Rightarrow> tsk \<Rightarrow> kernel \<Rightarrow> bool \<times> kernel" where
  "release e tm p s =
    make_non_wait p (set_wercd p e (s\<lparr>queues := q_delete p (queues s), tme := tm\<rparr>))"

definition tm_without :: "tsk \<Rightarrow> TMEVT \<Rightarrow> TMEVT \<Rightarrow> bool" where
  "tm_without p tm tm' \<longleftrightarrow> heap_ok tm' \<and> evts tm' = (evts tm)(TskTmevtb p := None) \<and>
    same_clock tm tm' \<and> (\<forall>b. callback (tmevtb tm' b) = callback (tmevtb tm b))"

abbreviation released :: "ER \<Rightarrow> TCB \<Rightarrow> TCB" where
  "released e t \<equiv> t\<lparr>p_winfo := (p_winfo t)\<lparr>winfo := Wercd e\<rparr>,
    tstat := if TSTAT_SUSPENDED (tstat t) then TS_SUSPENDED else TS_RUNNABLE\<rparr>"

lemma release_sel [simp]:
  "tcb (snd (release e tm p s)) = (tcb s)(p := released e (tcb s p))"
  "queues (snd (release e tm p s)) =
    (if TSTAT_SUSPENDED (tstat (tcb s p)) then q_delete p (queues s)
     else q_insert_prev (ReadyQ (tskpri s p)) p (q_delete p (queues s)))"
  "tme (snd (release e tm p s)) = tm"
  "p_runtsk (snd (release e tm p s)) = p_runtsk s"
  "reqflg (snd (release e tm p s)) = reqflg s"
  "cpu_lock (snd (release e tm p s)) = cpu_lock s"
  "objects (snd (release e tm p s)) = objects s"
  by (simp_all add: release_def make_non_wait_def)

lemma ready_ok_other:
  assumes "ready_ok s" and "queues_ok (queues s')"
    and "\<And>pri. queues s' (ReadyQ pri) = queues s (ReadyQ pri)"
    and "\<And>pri t. t \<in> set (queues s (ReadyQ pri)) \<Longrightarrow> tskpri s' t = tskpri s t"
    and "ready_primap s' = ready_primap s" and "p_schedtsk s' = p_schedtsk s"
  shows "ready_ok s'"
proof -
  have "top_ready (queues s') = top_ready (queues s)" by (simp add: top_ready_def assms(3) split: list.split)
  then show ?thesis using assms by (auto simp: ready_ok_def primap_ok_def ready_pri_ok_def)
qed

lemma q_delete_absent: "(\<And>h. p \<in> set (f h) \<Longrightarrow> h \<noteq> g) \<Longrightarrow> q_delete p f g = f g"
  by (auto simp: q_delete_def intro: remove1_idem)

lemma waiting_not_ready:
  assumes "tsk_inv s" and "\<not> TSTAT_RUNNABLE (tstat (tcb s p))"
  shows "p \<notin> set (queues s (ReadyQ pri))"
  using tsk_invD(5)[OF assms(1), of p "ReadyQ pri"] assms(2) by (auto simp: task_place_def split: if_splits)

lemma waiting_exists: "tsk_inv s \<Longrightarrow> tstat (tcb s p) \<noteq> TS_DORMANT \<Longrightarrow> tskatr (p_tinib (tcb s p)) \<noteq> TA_NOEXS"
  using tsk_invD(3)[of s p] by (auto simp: tcb_ok_def)

lemma waiting_not_dormant: "TSTAT_WAITING v \<Longrightarrow> v \<noteq> TS_DORMANT"
  by (auto simp: TSTAT_defs)

lemma release_ready_ok:
  assumes "tsk_inv s" and "TSTAT_WAITING (tstat (tcb s p))"
  shows "ready_ok (snd (release e tm p s))"
    and "fst (release e tm p s) \<longleftrightarrow> dspflg s \<and> p_schedtsk (snd (release e tm p s)) \<noteq> p_schedtsk s"
    and "TSTAT_SUSPENDED (tstat (tcb s p)) \<Longrightarrow> p_schedtsk (snd (release e tm p s)) = p_schedtsk s"
proof -
  have nr: "\<not> TSTAT_RUNNABLE (tstat (tcb s p))"
    using tsk_invD(3)[OF assms(1), of p] tstat_ok_excl(2) assms(2) by (auto simp: tcb_ok_def)
  have ex: "tskatr (p_tinib (tcb s p)) \<noteq> TA_NOEXS"
    using waiting_exists[OF assms(1), of p] waiting_not_dormant[OF assms(2)] .
  have pri: "tskpri s p < TNUM_TPRI" using tsk_invD(3)[OF assms(1), of p] ex by (simp add: tcb_ok_def)
  let ?t = "(tcb s p)\<lparr>p_winfo := (p_winfo (tcb s p))\<lparr>winfo := Wercd e\<rparr>,
      tstat := if TSTAT_SUSPENDED (tstat (tcb s p)) then TS_SUSPENDED else TS_RUNNABLE\<rparr>"
  let ?s = "s\<lparr>queues := q_delete p (queues s), tme := tm, tcb := (tcb s)(p := ?t)\<rparr>"
  note q = tsk_invD(7)[OF assms(1)]
  have r: "ready_ok ?s"
  proof (rule ready_ok_other[OF tsk_invD(1)[OF assms(1)]])
    fix pri
    show "queues ?s (ReadyQ pri) = queues s (ReadyQ pri)"
      using waiting_not_ready[OF assms(1) nr] by (auto intro!: q_delete_absent)
  qed (use q in \<open>auto intro: queues_ok_delete\<close>)
  have eq: "release e tm p s = (if TSTAT_SUSPENDED (tstat (tcb s p)) then (False, ?s) else make_runnable p ?s)"
    by (simp add: release_def make_non_wait_def)
  note m = make_runnable_ready_ok[OF r, of p]
  show "ready_ok (snd (release e tm p s))"
    using r m(1) pri q_free_delete[OF q] by (cases "TSTAT_SUSPENDED (tstat (tcb s p))") (simp_all add: eq)
  show "fst (release e tm p s) \<longleftrightarrow> dspflg s \<and> p_schedtsk (snd (release e tm p s)) \<noteq> p_schedtsk s"
    using m(2) pri q_free_delete[OF q] by (cases "TSTAT_SUSPENDED (tstat (tcb s p))") (simp_all add: eq)
  show "TSTAT_SUSPENDED (tstat (tcb s p)) \<Longrightarrow> p_schedtsk (snd (release e tm p s)) = p_schedtsk s"
    by (simp add: eq)
qed

lemma release_inv:
  assumes "tsk_inv s" and "TSTAT_WAITING (tstat (tcb s p))" and "tm_without p (tme s) tm"
  shows "tsk_inv (snd (release e tm p s))"
proof -
  let ?t = "released e (tcb s p)" and ?s = "snd (release e tm p s)"
  have c: "tcb_ok p (tcb s p)" by (rule tsk_invD(3)[OF assms(1)])
  have ex: "tskatr (p_tinib (tcb s p)) \<noteq> TA_NOEXS"
    using waiting_exists[OF assms(1), of p] waiting_not_dormant[OF assms(2)] .
  have pl: "task_place ?t = (if TSTAT_SUSPENDED (tstat (tcb s p)) then None else Some (ReadyQ (tskpri s p)))"
    using ex by (simp add: task_place_def TSTAT_defs)
  have tm: "heap_ok tm" "evts tm = (evts (tme s))(TskTmevtb p := None)"
    "\<And>b. callback (tmevtb tm b) = callback (tmevtb (tme s) b)"
    using assms(3) by (auto simp: tm_without_def)
  have free: "q_free p (q_delete p (queues s))" by (rule q_free_delete[OF tsk_invD(7)[OF assms(1)]])
  show ?thesis
  proof (rule tsk_inv_one[OF assms(1) release_ready_ok(1)[OF assms(1,2)], where t = ?t and p = p])
    show "tcb_ok p ?t" using c ex by (auto simp: tcb_ok_def tstat_ok_def TSTAT_defs)
    show "tmout_ok p ?t (tme ?s)" by (simp add: tmout_ok_def timed_def tm(2))
    show "remove1 p (queues ?s h) = remove1 p (queues s h)" for h
      using free by (auto simp: queue_simps q_free_def remove1_append remove1_idem)
    show "p \<in> set (queues ?s h) \<longleftrightarrow> task_place ?t = Some h" for h
      using free by (auto simp: pl queue_simps q_free_def)
    show "wobjatr ?s = wobjatr s" by (rule wobjatr_objects) simp
  qed (use tm in \<open>auto simp: pl\<close>)
qed


subsection \<open>The releases of the kernel\<close>

text \<open>The heap after \<open>wait_dequeue_tmevtb\<close>.\<close>

definition tm_dequeued :: "tsk \<Rightarrow> kernel \<Rightarrow> TMEVT" where
  "tm_dequeued p s = tme (wait_dequeue_tmevtb p s)"

lemma wait_dequeue_tmevtb_eq: "wait_dequeue_tmevtb p s = s\<lparr>tme := tm_dequeued p s\<rparr>"
  by (simp add: tm_dequeued_def wait_dequeue_tmevtb_def split: winfo_union.split option.split)

lemma tm_dequeued_cong:
  "tme s' = tme s \<Longrightarrow> winfo (p_winfo (tcb s' p)) = winfo (p_winfo (tcb s p)) \<Longrightarrow>
    tm_dequeued p s' = tm_dequeued p s"
  by (simp add: tm_dequeued_def wait_dequeue_tmevtb_def split: winfo_union.split option.split)

lemma tm_dequeued_without:
  assumes "tsk_inv s" and "TSTAT_WAITING (tstat (tcb s p))"
  shows "tm_without p (tme s) (tm_dequeued p s)"
proof -
  have w: "winfo (p_winfo (tcb s p)) \<in> {P_tmevtb None, P_tmevtb (Some (TskTmevtb p))}"
    using tsk_invD(3)[OF assms(1), of p] assms(2) by (simp add: tcb_ok_def)
  note t = tsk_invD(4)[OF assms(1), of p] and h = tsk_invD(2)[OF assms(1)]
  show ?thesis
  proof (cases "winfo (p_winfo (tcb s p)) = P_tmevtb None")
    case True
    then have "evts (tme s) (TskTmevtb p) = None" using t by (simp add: tmout_ok_def timed_def)
    then show ?thesis
      using True h by (auto simp: tm_dequeued_def wait_dequeue_tmevtb_def tm_without_def same_clock_def fun_eq_iff)
  next
    case False
    then have wf: "winfo (p_winfo (tcb s p)) = P_tmevtb (Some (TskTmevtb p))" using w by simp
    then have e: "evts (tme s) (TskTmevtb p) \<noteq> None" using t assms(2) by (simp add: tmout_ok_def timed_def)
    have "tm_dequeued p s = tmevtb_delete (TskTmevtb p) (tme s)"
      using wf by (simp add: tm_dequeued_def wait_dequeue_tmevtb_def tmevtb_dequeue_def)
    then show ?thesis
      using tmevtb_delete_ok(1,2)[OF h e] tmevtb_delete_sel[OF h e]
      by (simp add: tm_without_def same_clock_def)
  qed
qed

lemma wait_dequeue_wobj_eq:
  assumes "tsk_inv s" and "TSTAT_WAITING (tstat (tcb s p))"
  shows "wait_dequeue_wobj p s = s\<lparr>queues := q_delete p (queues s)\<rparr>"
proof (cases "TSTAT_WAIT_WOBJ (tstat (tcb s p))")
  case False
  have "\<not> TSTAT_RUNNABLE (tstat (tcb s p))"
    using tsk_invD(3)[OF assms(1), of p] tstat_ok_excl(2) assms(2) by (auto simp: tcb_ok_def)
  then have "task_place (tcb s p) = None"
    using False waiting_exists[OF assms(1) waiting_not_dormant[OF assms(2)]] by (simp add: task_place_def)
  then have "q_delete p (queues s) = queues s"
    using tsk_invD(5)[OF assms(1), of p] by (intro ext q_delete_absent) simp
  then show ?thesis using False by (simp add: wait_dequeue_wobj_def)
qed (simp add: wait_dequeue_wobj_def)

lemma q_delete_next_eq:
  assumes "queues_ok f" and "f q = p # ps"
  shows "f(q := ps) = q_delete p f"
  using q_delete_eq[OF assms(1), of p q] assms(2) by simp

lemma waitq_waiting:
  assumes "tsk_inv s" and "p \<in> set (queues s q)" and "is_waitq q"
  shows "TSTAT_WAITING (tstat (tcb s p))" and "tstat (tcb s p) AND TS_WAIT_MASK = wait_code q"
  using tsk_invD(5)[OF assms(1), of p q] tsk_invD(3)[OF assms(1), of p] assms(2,3)
  by (auto simp: task_place_def is_waitq_def tcb_ok_def split: if_splits)

lemma wait_release_release:
  assumes "tsk_inv s" and "TSTAT_WAITING (tstat (tcb s p))"
  shows "wait_release p s = release E_RLWAI (tm_dequeued p s) p s"
proof -
  have "tm_dequeued p (s\<lparr>queues := q_delete p (queues s)\<rparr>) = tm_dequeued p s"
    by (rule tm_dequeued_cong) simp_all
  then show ?thesis
    by (simp add: wait_release_def wait_dequeue_wobj_eq[OF assms] wait_dequeue_tmevtb_eq release_def)
qed

lemma wait_complete_release:
  assumes "tsk_inv s" and "queues s q = p # ps"
  shows "wait_complete p (s\<lparr>queues := (queues s)(q := ps)\<rparr>) = release E_OK (tm_dequeued p s) p s"
proof -
  have "tm_dequeued p (s\<lparr>queues := q_delete p (queues s)\<rparr>) = tm_dequeued p s"
    by (rule tm_dequeued_cong) simp_all
  then show ?thesis
    by (simp add: wait_complete_def q_delete_next_eq[of "queues s" q p ps, OF tsk_invD(7)[OF assms(1)] assms(2)]
        wait_dequeue_tmevtb_eq release_def)
qed

lemma init_wait_round_release:
  assumes "tsk_inv s" and "queues s q = p # ps"
  shows "init_wait_round q s = release E_DLT (tm_dequeued p s) p s"
proof -
  have "tm_dequeued p (s\<lparr>queues := q_delete p (queues s)\<rparr>) = tm_dequeued p s"
    by (rule tm_dequeued_cong) simp_all
  then show ?thesis
    using assms(2) q_delete_next_eq[of "queues s" q p ps, OF tsk_invD(7)[OF assms(1)] assms(2)]
    by (simp add: init_wait_round_def wait_dequeue_tmevtb_eq release_def)
qed

lemma wait_tmout_release:
  assumes "tsk_inv s" and "TSTAT_WAITING (tstat (tcb s p))"
  shows "wait_tmout p (s\<lparr>tme := tm\<rparr>) = i_lock_cpu (i_unlock_cpu (reqflg_if (release E_TMOUT tm p s)))"
proof -
  have "wait_dequeue_wobj p (s\<lparr>tme := tm\<rparr>) = (wait_dequeue_wobj p s)\<lparr>tme := tm\<rparr>"
    by (simp add: wait_dequeue_wobj_def)
  then show ?thesis
    by (simp add: wait_tmout_def wait_dequeue_wobj_eq[OF assms] release_def)
qed

lemma wait_tmout_ok_release:
  assumes "tsk_inv s" and "TSTAT_WAITING (tstat (tcb s p))" and "\<not> TSTAT_WAIT_WOBJ (tstat (tcb s p))"
  shows "wait_tmout_ok p (s\<lparr>tme := tm\<rparr>) = i_lock_cpu (i_unlock_cpu (reqflg_if (release E_OK tm p s)))"
proof -
  have "q_delete p (queues s) = queues s"
    using wait_dequeue_wobj_eq[OF assms(1,2)] assms(3) unfolding wait_dequeue_wobj_def
    by (metis (no_types, lifting) kernel.select_convs(2) kernel.surjective kernel.update_convs(2))
  then show ?thesis by (simp add: wait_tmout_ok_def release_def)
qed

section \<open>Updates the invariant does not see\<close>

lemma tsk_inv_cong:
  assumes "tcb s' = tcb s" and "queues s' = queues s" and "tme s' = tme s"
    and "p_schedtsk s' = p_schedtsk s" and "ready_primap s' = ready_primap s"
    and "\<And>w. wobjatr s' w AND TA_TPRI \<noteq> 0 \<Longrightarrow> wobjatr s w AND TA_TPRI \<noteq> 0 \<or> queues s (WaitQ w) = []"
    and "tsk_inv s"
  shows "tsk_inv s'"
proof -
  have "sorted (map (tskpri s') (queues s' (WaitQ w)))" if "wobjatr s' w AND TA_TPRI \<noteq> 0" for w
    using assms(6)[OF that] tsk_invD(6)[OF assms(7), of w] by (auto simp: assms(1,2))
  moreover have "ready_ok s'"
    using tsk_invD(1)[OF assms(7)] by (simp add: ready_ok_def primap_ok_def ready_pri_ok_def assms(1-5))
  ultimately show ?thesis
    using assms(7) unfolding tsk_inv_def by (simp add: assms(1-3))
qed

lemma tsk_inv_same:
  assumes "tcb s' = tcb s" and "queues s' = queues s" and "tme s' = tme s"
    and "p_schedtsk s' = p_schedtsk s" and "ready_primap s' = ready_primap s" and "wobjatr s' = wobjatr s"
  shows "tsk_inv s' = tsk_inv s"
  using tsk_inv_cong[of s' s] tsk_inv_cong[of s s'] assms by metis

lemma wobjatr_upd [simp]:
  "wobjatr (s\<lparr>cpu_lock := b\<rparr>) = wobjatr s" "wobjatr (s\<lparr>reqflg := b\<rparr>) = wobjatr s"
  "wobjatr (s\<lparr>p_runtsk := r\<rparr>) = wobjatr s" "wobjatr (s\<lparr>intctx := b\<rparr>) = wobjatr s"
  "wobjatr (s\<lparr>dspflg := b\<rparr>) = wobjatr s" "wobjatr (s\<lparr>disdsp := b\<rparr>) = wobjatr s"
  "wobjatr (s\<lparr>tcb := tb\<rparr>) = wobjatr s" "wobjatr (s\<lparr>queues := q\<rparr>) = wobjatr s"
  "wobjatr (s\<lparr>tme := tm\<rparr>) = wobjatr s" "wobjatr (s\<lparr>mtxqs := mq\<rparr>) = wobjatr s"
  "wobjatr (s\<lparr>p_schedtsk := r\<rparr>) = wobjatr s" "wobjatr (s\<lparr>ready_primap := m\<rparr>) = wobjatr s"
  by (rule ext; simp add: wobjatr_def split: wobj.split)+

lemma tsk_inv_ctx [simp]:
  "tsk_inv (s\<lparr>cpu_lock := b\<rparr>) = tsk_inv s" "tsk_inv (s\<lparr>reqflg := b\<rparr>) = tsk_inv s"
  "tsk_inv (s\<lparr>p_runtsk := r\<rparr>) = tsk_inv s" "tsk_inv (s\<lparr>intctx := b\<rparr>) = tsk_inv s"
  "tsk_inv (s\<lparr>dspflg := b\<rparr>) = tsk_inv s" "tsk_inv (s\<lparr>disdsp := b\<rparr>) = tsk_inv s"
  by (rule tsk_inv_same; simp)+

lemma tsk_inv_lock [simp]:
  "tsk_inv (t_lock_cpu s) = tsk_inv s" "tsk_inv (t_unlock_cpu s) = tsk_inv s"
  "tsk_inv (i_lock_cpu s) = tsk_inv s" "tsk_inv (i_unlock_cpu s) = tsk_inv s"
  "tsk_inv (dispatch s) = tsk_inv s"
  by (simp_all add: t_lock_cpu_def t_unlock_cpu_def i_lock_cpu_def i_unlock_cpu_def dispatch_def)

lemma tsk_inv_dispatch_if [simp]: "tsk_inv (dispatch_if r) = tsk_inv (snd r)"
  by (simp add: dispatch_if_def)

lemma tsk_inv_reqflg_if [simp]: "tsk_inv (reqflg_if r) = tsk_inv (snd r)"
  by (simp add: reqflg_if_def)

text \<open>Fields of the control block and of the waiting information the invariant does not use.\<close>

lemma tsk_inv_tcb:
  assumes "tsk_inv s" and "tstat t = tstat (tcb s p)" and "p_tinib t = p_tinib (tcb s p)"
    and "priority t = tskpri s p" and "tskatr (p_tinib t) = TA_NOEXS \<or> bpriority t < TNUM_TPRI"
    and "winfo (p_winfo t) = winfo (p_winfo (tcb s p))" and "p_wobjcb (p_winfo t) = p_wobjcb (p_winfo (tcb s p))"
  shows "tsk_inv (s\<lparr>tcb := (tcb s)(p := t)\<rparr>)"
proof -
  let ?s = "s\<lparr>tcb := (tcb s)(p := t)\<rparr>"
  have pl: "task_place t = task_place (tcb s p)" by (simp add: task_place_def assms)
  have c: "tcb_ok p t" using tsk_invD(3)[OF assms(1), of p] assms(2-) by (auto simp: tcb_ok_def pl)
  have pr: "tskpri ?s = tskpri s" by (auto simp: assms(4) fun_eq_iff)
  have r: "ready_ok ?s"
    by (rule ready_ok_other[OF tsk_invD(1)[OF assms(1)]]) (use tsk_invD(7)[OF assms(1)] assms(4) in auto)
  show ?thesis
  proof (rule tsk_inv_one[OF assms(1) r, where p = p and t = t])
    show "tmout_ok p t (tme ?s)" using tsk_invD(4)[OF assms(1), of p] assms(2-) by (simp add: tmout_ok_def timed_def)
    show "p \<in> set (queues ?s h) \<longleftrightarrow> task_place t = Some h" for h
      using tsk_invD(5)[OF assms(1), of p] by (simp add: pl)
    show "sorted (map (tskpri ?s) (queues ?s (WaitQ w)))" if "wobjatr s w AND TA_TPRI \<noteq> 0" for w
      using tsk_invD(6)[OF assms(1) that] pr by simp
  qed (use tsk_invD(2)[OF assms(1)] c in simp_all)
qed


section \<open>Blocking the running task\<close>

lemma runnable_ready:
  assumes "tsk_inv s" and "TSTAT_RUNNABLE (tstat (tcb s p))"
  shows "p \<in> set (queues s (ReadyQ (tskpri s p)))" and "tskatr (p_tinib (tcb s p)) \<noteq> TA_NOEXS"
    and "evts (tme s) (TskTmevtb p) = None"
proof -
  have c: "tcb_ok p (tcb s p)" by (rule tsk_invD(3)[OF assms(1)])
  show ex: "tskatr (p_tinib (tcb s p)) \<noteq> TA_NOEXS"
    using c assms(2) by (auto simp: tcb_ok_def TSTAT_defs)
  show "p \<in> set (queues s (ReadyQ (tskpri s p)))"
    using tsk_invD(5)[OF assms(1), of p "ReadyQ (tskpri s p)"] ex assms(2) by (simp add: task_place_def)
  have "\<not> TSTAT_WAITING (tstat (tcb s p))" using c assms(2) tstat_ok_excl(2) by (auto simp: tcb_ok_def)
  then show "evts (tme s) (TskTmevtb p) = None"
    using tsk_invD(4)[OF assms(1), of p] by (simp add: tmout_ok_def timed_def)
qed

text \<open>
  The form of all transitions out of the runnable state: \<open>make_non_runnable\<close>, a new control block
  \<open>t\<close>, and an insertion into the queue the new block asks for, if any.
\<close>

definition requeued :: "tsk \<Rightarrow> TCB \<Rightarrow> kernel \<Rightarrow> kernel \<Rightarrow> bool" where
  "requeued p t s s' \<longleftrightarrow>
    (case task_place t of
       None \<Rightarrow> queues s' = q_delete p (queues s)
     | Some h \<Rightarrow> is_waitq h \<and>
        (if (\<exists>w. h = WaitQ w \<and> wobjatr s w AND TA_TPRI \<noteq> 0)
         then queues s' = q_insert_tpri (tskpri s) h p (q_delete p (queues s))
         else queues s' = q_insert_prev h p (q_delete p (queues s))))"

lemma requeued_remove1:
  assumes "queues_ok (queues s)" and "requeued p t s s'"
  shows "remove1 p (queues s' h) = remove1 p (queues s h)"
    and "p \<in> set (queues s' h) \<longleftrightarrow> task_place t = Some h"
    and "queues s' (ReadyQ pri) = q_delete p (queues s) (ReadyQ pri)"
    and "queues_ok (queues s')"
proof -
  have f: "p \<notin> set (q_delete p (queues s) h)" for h using q_free_delete[OF assms(1)] by (simp add: q_free_def)
  have ri: "remove1 p (insert_tpri pr p xs) = xs" if "p \<notin> set xs" for pr xs
    using that by (induction xs) auto
  show "remove1 p (queues s' h) = remove1 p (queues s h)"
    using assms(2) f[of h] by (auto simp: requeued_def queue_simps ri remove1_append remove1_idem
        split: option.splits if_splits)
  show "p \<in> set (queues s' h) \<longleftrightarrow> task_place t = Some h"
    using assms(2) f[of h] by (auto simp: requeued_def queue_simps split: option.splits if_splits)
  show "queues s' (ReadyQ pri) = q_delete p (queues s) (ReadyQ pri)"
    using assms(2) by (auto simp: requeued_def queue_simps is_waitq_def split: option.splits if_splits)
  show "queues_ok (queues s')"
    using assms(2) queues_ok_delete[OF assms(1), of p] q_free_delete[OF assms(1), of p]
    by (auto simp: requeued_def queues_ok_insert_tpri queues_ok_insert_prev split: option.splits if_splits)
qed

lemma block_inv:
  assumes "tsk_inv s" and "TSTAT_RUNNABLE (tstat (tcb s p))"
    and "tcb s' = (tcb s)(p := t)" and "requeued p t s s'"
    and "ready_primap s' = ready_primap (snd (make_non_runnable p s))"
    and "p_schedtsk s' = p_schedtsk (snd (make_non_runnable p s))"
    and "wobjatr s' = wobjatr s" and "tcb_ok p t" and "priority t = tskpri s p"
    and "heap_ok (tme s')" and "tmout_ok p t (tme s')"
    and "\<And>q. q \<noteq> p \<Longrightarrow> evts (tme s') (TskTmevtb q) = evts (tme s) (TskTmevtb q)"
    and "\<And>q. q \<noteq> p \<Longrightarrow> callback (tmevtb (tme s') (TskTmevtb q)) = callback (tmevtb (tme s) (TskTmevtb q))"
  shows "tsk_inv s'"
proof -
  note q = tsk_invD(7)[OF assms(1)] and rq = requeued_remove1[OF tsk_invD(7)[OF assms(1)] assms(4)]
  have pr: "tskpri s' = tskpri s" using assms(3,9) by (auto simp: fun_eq_iff)
  have "ready_ok (snd (make_non_runnable p s))"
    using make_non_runnable_ready_ok(1)[OF tsk_invD(1)[OF assms(1)] runnable_ready(1)[OF assms(1,2)]] .
  then have r: "ready_ok s'"
    by (rule ready_ok_other) (use rq assms(5,6) fun_cong[OF pr] in auto)
  show ?thesis
  proof (rule tsk_inv_one[OF assms(1) r assms(10,3,8,11-13) rq(1,2) assms(7)])
    fix w assume w: "task_place t = Some (WaitQ w)" "wobjatr s w AND TA_TPRI \<noteq> 0"
    have "sorted (map (tskpri s) (remove1 p (queues s (WaitQ w))))"
      using tsk_invD(6)[OF assms(1) w(2)] queues_okD(1)[OF q, of "WaitQ w"]
      by (simp add: distinct_remove1_removeAll removeAll_filter_not_eq sorted_filter)
    then show "sorted (map (tskpri s') (queues s' (WaitQ w)))"
      using assms(4) w by (simp add: requeued_def pr queue_simps sorted_insert_tpri)
  qed
qed

text \<open>The heap after \<open>make_wait\<close> (no timeout) or \<open>make_wait_tmout\<close>.\<close>

definition tm_enqueued :: "tsk \<Rightarrow> TMO \<Rightarrow> cback \<Rightarrow> TMEVT \<Rightarrow> TMEVT" where
  "tm_enqueued p tmout cb tm =
    (if tmout > 0 then tmevtb_enqueue (TskTmevtb p) (word_of_int tmout) cb tm else tm)"

lemma tm_enqueued_ok:
  assumes "heap_ok tm" and "evts tm (TskTmevtb p) = None"
  shows "heap_ok (tm_enqueued p tmout cb tm)"
    and "evts (tm_enqueued p tmout cb tm) =
      (if tmout > 0 then (evts tm)(TskTmevtb p \<mapsto> base_time tm + word_of_int tmout) else evts tm)"
    and "same_clock tm (tm_enqueued p tmout cb tm)"
    and "callback (tmevtb (tm_enqueued p tmout cb tm) b) =
      (if tmout > 0 \<and> b = TskTmevtb p then cb else callback (tmevtb tm b))"
  using assms tmevtb_insert_sel[of "set_callback (TskTmevtb p) cb tm"]
  by (simp_all add: tm_enqueued_def tmevtb_enqueue_def tmevtb_insert_ok same_clock_def Let_def)

abbreviation tmo_winfo :: "tsk \<Rightarrow> TMO \<Rightarrow> winfo_union" where
  "tmo_winfo p tmout \<equiv> P_tmevtb (if tmout > 0 then Some (TskTmevtb p) else None)"

lemma make_wait_sel:
  "make_wait s = make_wait_tmout TMO_FEVR s"
  by (simp add: make_wait_def make_wait_tmout_def)

lemma make_wait_tmout_sel [simp]:
  "tcb (make_wait_tmout tmout s) = (tcb s)(runtsk s := (tcb s (runtsk s))\<lparr>p_winfo :=
    (p_winfo (tcb s (runtsk s)))\<lparr>winfo := tmo_winfo (runtsk s) tmout\<rparr>\<rparr>)"
  "queues (make_wait_tmout tmout s) = q_delete (runtsk s) (queues s)"
  "tme (make_wait_tmout tmout s) = tm_enqueued (runtsk s) tmout (Wait_tmout (runtsk s)) (tme s)"
  "p_runtsk (make_wait_tmout tmout s) = p_runtsk s"
  "reqflg (make_wait_tmout tmout s) = reqflg s"
  "cpu_lock (make_wait_tmout tmout s) = cpu_lock s"
  "ready_primap (make_wait_tmout tmout s) = ready_primap (snd (make_non_runnable (runtsk s) s))"
  "p_schedtsk (make_wait_tmout tmout s) = p_schedtsk (snd (make_non_runnable (runtsk s) s))"
  by (simp_all add: make_wait_tmout_def tm_enqueued_def Let_def)

lemma make_non_runnable_cong:
  assumes "queues s' = queues s" and "p_schedtsk s' = p_schedtsk s" and "ready_primap s' = ready_primap s"
    and "tskpri s' p = tskpri s p" and "dspflg s' = dspflg s"
  shows "ready_primap (snd (make_non_runnable p s')) = ready_primap (snd (make_non_runnable p s))"
    and "p_schedtsk (snd (make_non_runnable p s')) = p_schedtsk (snd (make_non_runnable p s))"
    and "fst (make_non_runnable p s') = fst (make_non_runnable p s)"
  using assms by (simp_all add: make_non_runnable_def Let_def primap_clear_def primap_empty_def
      search_schedtsk_def primap_search_def)


definition wait_codes :: "8 word set" where
  "wait_codes = {TS_WAIT_DLY, TS_WAIT_SLP, TS_WAIT_RDTQ, TS_WAIT_RPDQ, TS_WAIT_SEM, TS_WAIT_FLG,
    TS_WAIT_SDTQ, TS_WAIT_SPDQ, TS_WAIT_MBX, TS_WAIT_MPF, TS_WAIT_MTX}"

lemma waiting_code:
  assumes "c \<in> wait_codes"
  shows "tstat_ok (TS_WAITING OR c)" and "TSTAT_WAITING (TS_WAITING OR c)"
    and "\<not> TSTAT_RUNNABLE (TS_WAITING OR c)" and "\<not> TSTAT_SUSPENDED (TS_WAITING OR c)"
    and "(TS_WAITING OR c) AND TS_WAIT_MASK = c"
    and "TSTAT_WAIT_WOBJ (TS_WAITING OR c) \<longleftrightarrow> c \<noteq> TS_WAIT_DLY \<and> c \<noteq> TS_WAIT_SLP"
  using assms unfolding wait_codes_def tstat_ok_cases by (auto simp: TSTAT_defs)

text \<open>The queue a task waits in, from the wait cause and the object.\<close>

definition wait_place :: "8 word \<Rightarrow> wobj \<Rightarrow> qhead option" where
  "wait_place c w = (if c \<in> {TS_WAIT_DLY, TS_WAIT_SLP} then None
     else if c \<in> {TS_WAIT_RDTQ, TS_WAIT_RPDQ} then Some (RWaitQ w) else Some (WaitQ w))"

lemma task_place_waiting:
  assumes "c \<in> wait_codes" and "tskatr (p_tinib t) \<noteq> TA_NOEXS" and "tstat t = TS_WAITING OR c"
  shows "task_place t = wait_place c (p_wobjcb (p_winfo t))"
  using waiting_code[OF assms(1)] assms(2,3) by (simp add: task_place_def wait_place_def)

lemma blocked_inv:
  assumes "tsk_inv s" and "TSTAT_RUNNABLE (tstat (tcb s p))" and "c \<in> wait_codes"
    and "tcb s' = (tcb s)(p := (tcb s p)\<lparr>tstat := TS_WAITING OR c, p_winfo := w\<rparr>)"
    and "winfo w = tmo_winfo p tmout"
    and "\<And>h. wait_place c (p_wobjcb w) = Some h \<Longrightarrow> wait_code h = c"
    and "requeued p ((tcb s p)\<lparr>tstat := TS_WAITING OR c, p_winfo := w\<rparr>) s s'"
    and "tme s' = tm_enqueued p tmout (if c = TS_WAIT_DLY then Wait_tmout_ok p else Wait_tmout p) (tme s)"
    and "ready_primap s' = ready_primap (snd (make_non_runnable p s))"
    and "p_schedtsk s' = p_schedtsk (snd (make_non_runnable p s))"
    and "wobjatr s' = wobjatr s"
  shows "tsk_inv s'"
proof -
  let ?t = "(tcb s p)\<lparr>tstat := TS_WAITING OR c, p_winfo := w\<rparr>"
  note r = runnable_ready[OF assms(1,2)] and wc = waiting_code[OF assms(3)]
  note en = tm_enqueued_ok[OF tsk_invD(2)[OF assms(1)] r(3), of tmout]
  have pl: "task_place ?t = wait_place c (p_wobjcb w)"
    using task_place_waiting[OF assms(3), of ?t] r(2) by simp
  have c: "tcb_ok p ?t"
    using tsk_invD(3)[OF assms(1), of p] r(2) wc assms(5,6)
    by (auto simp: tcb_ok_def pl wait_place_def)
  show ?thesis
    by (rule block_inv[OF assms(1,2,4,7,9-11) c])
      (use en wc assms(5) r(3) in \<open>auto simp: assms(8) tmout_ok_def timed_def\<close>)
qed

lemma wait_code_wait_place [simp]:
  "wait_place (wait_code (WaitQ w)) w = Some (WaitQ w)" "wait_code (WaitQ w) \<in> wait_codes"
  "wait_code (WaitQ w) \<noteq> TS_WAIT_DLY"
  by (cases w; simp add: wait_place_def wait_codes_def)+

lemma wobj_make_wait_tmout_sel [simp]:
  "tcb (wobj_make_wait_tmout w tmout s) = (tcb s)(runtsk s := (tcb s (runtsk s))\<lparr>p_winfo :=
    (p_winfo (tcb s (runtsk s)))\<lparr>winfo := tmo_winfo (runtsk s) tmout, p_wobjcb := w\<rparr>\<rparr>)"
  "queues (wobj_make_wait_tmout w tmout s) =
    (if wobjatr s w AND TA_TPRI \<noteq> 0
     then q_insert_tpri (tskpri s) (WaitQ w) (runtsk s) (q_delete (runtsk s) (queues s))
     else q_insert_prev (WaitQ w) (runtsk s) (q_delete (runtsk s) (queues s)))"
  "tme (wobj_make_wait_tmout w tmout s) = tm_enqueued (runtsk s) tmout (Wait_tmout (runtsk s)) (tme s)"
  "p_runtsk (wobj_make_wait_tmout w tmout s) = p_runtsk s"
  "reqflg (wobj_make_wait_tmout w tmout s) = reqflg s"
  "cpu_lock (wobj_make_wait_tmout w tmout s) = cpu_lock s"
  "ready_primap (wobj_make_wait_tmout w tmout s) = ready_primap (snd (make_non_runnable (runtsk s) s))"
  "p_schedtsk (wobj_make_wait_tmout w tmout s) = p_schedtsk (snd (make_non_runnable (runtsk s) s))"
proof -
  have pr: "tskpri (make_wait_tmout tmout s) = tskpri s" by (auto simp: fun_eq_iff)
  have a: "wobjatr (make_wait_tmout tmout s) = wobjatr s" by (rule wobjatr_objects) simp
  show "queues (wobj_make_wait_tmout w tmout s) =
    (if wobjatr s w AND TA_TPRI \<noteq> 0
     then q_insert_tpri (tskpri s) (WaitQ w) (runtsk s) (q_delete (runtsk s) (queues s))
     else q_insert_prev (WaitQ w) (runtsk s) (q_delete (runtsk s) (queues s)))"
    unfolding wobj_make_wait_tmout_def wobj_queue_insert_def Let_def pr a by simp
qed (simp_all add: wobj_make_wait_tmout_def wobj_queue_insert_def Let_def)

lemma wobj_make_wait_eq: "wobj_make_wait w s = wobj_make_wait_tmout w TMO_FEVR s"
  by (simp add: wobj_make_wait_def wobj_make_wait_tmout_def make_wait_sel)

lemma wobj_make_wait_tmout_inv:
  assumes "tsk_inv s" and "p_runtsk s = Some p" and "TSTAT_RUNNABLE (tstat (tcb s p))"
    and "c = wait_code (WaitQ w)"
  shows "tsk_inv (wobj_make_wait_tmout w tmout (set_tstat p (TS_WAITING OR c) s))"
proof -
  let ?s = "set_tstat p (TS_WAITING OR c) s" and ?w = "(p_winfo (tcb s p))\<lparr>winfo := tmo_winfo p tmout, p_wobjcb := w\<rparr>"
  let ?s' = "wobj_make_wait_tmout w tmout ?s"
  have pr: "tskpri ?s = tskpri s" by (auto simp: fun_eq_iff)
  have wc: "c \<in> wait_codes" "wait_place c w = Some (WaitQ w)" "c \<noteq> TS_WAIT_DLY"
    by (simp_all add: assms(4))
  have pl: "task_place ((tcb s p)\<lparr>tstat := TS_WAITING OR c, p_winfo := ?w\<rparr>) = Some (WaitQ w)"
    using runnable_ready(2)[OF assms(1,3)] wc by (simp add: task_place_waiting)
  have rq: "requeued p ((tcb s p)\<lparr>tstat := TS_WAITING OR c, p_winfo := ?w\<rparr>) s ?s'"
    unfolding requeued_def pl wobj_make_wait_tmout_sel(2) pr using assms(2)
    by (simp add: is_waitq_def)
  have mn: "ready_primap ?s' = ready_primap (snd (make_non_runnable p s))"
    "p_schedtsk ?s' = p_schedtsk (snd (make_non_runnable p s))"
    using make_non_runnable_cong[of ?s s p] assms(2) by simp_all
  have a: "wobjatr ?s' = wobjatr s" by (rule wobjatr_objects) simp
  have tc: "tcb ?s' = (tcb s)(p := (tcb s p)\<lparr>tstat := TS_WAITING OR c, p_winfo := ?w\<rparr>)"
    using assms(2) by (cases "tcb s p") simp
  show ?thesis
    by (rule blocked_inv[OF assms(1,3) wc(1) tc _ _ rq _ mn a, where tmout = tmout])
      (use assms(2,4) wc in simp_all)
qed


text \<open>The blocking of a task that waits in no queue, and in the second queue of an object.\<close>

lemma make_wait_tmout_inv:
  assumes "tsk_inv s" and "p_runtsk s = Some p" and "TSTAT_RUNNABLE (tstat (tcb s p))"
  shows "tsk_inv (make_wait_tmout tmout (set_tstat p (TS_WAITING OR TS_WAIT_SLP) s))"
proof -
  let ?s = "set_tstat p (TS_WAITING OR TS_WAIT_SLP) s"
  let ?w = "(p_winfo (tcb s p))\<lparr>winfo := tmo_winfo p tmout\<rparr>"
  let ?s' = "make_wait_tmout tmout ?s"
  have wc: "TS_WAIT_SLP \<in> wait_codes" "wait_place TS_WAIT_SLP w = None" for w
    by (simp_all add: wait_codes_def wait_place_def)
  have pl: "task_place ((tcb s p)\<lparr>tstat := TS_WAITING OR TS_WAIT_SLP, p_winfo := ?w\<rparr>) = None"
    using runnable_ready(2)[OF assms(1,3)] by (simp add: task_place_def TSTAT_defs)
  have rq: "requeued p ((tcb s p)\<lparr>tstat := TS_WAITING OR TS_WAIT_SLP, p_winfo := ?w\<rparr>) s ?s'"
    unfolding requeued_def pl using assms(2) by simp
  have mn: "ready_primap ?s' = ready_primap (snd (make_non_runnable p s))"
    "p_schedtsk ?s' = p_schedtsk (snd (make_non_runnable p s))"
    using make_non_runnable_cong[of ?s s p] assms(2) by simp_all
  have a: "wobjatr ?s' = wobjatr s" by (rule wobjatr_objects) simp
  have tc: "tcb ?s' = (tcb s)(p := (tcb s p)\<lparr>tstat := TS_WAITING OR TS_WAIT_SLP, p_winfo := ?w\<rparr>)"
    using assms(2) by (cases "tcb s p") simp
  show ?thesis
    by (rule blocked_inv[OF assms(1,3) wc(1) tc _ _ rq _ mn a, where tmout = tmout])
      (use assms(2) wc(2) in simp_all)
qed

text \<open>Waiting in the receive queue of a (priority) data queue, in FIFO order.\<close>

definition rwait_tmout :: "wobj \<Rightarrow> TMO \<Rightarrow> kernel \<Rightarrow> kernel" where
  "rwait_tmout w tmout s =
    (let s = make_wait_tmout tmout s;
         s = s\<lparr>queues := q_insert_prev (RWaitQ w) (runtsk s) (queues s)\<rparr>
     in upd_winfo (runtsk s) (\<lambda>i. i\<lparr>p_wobjcb := w\<rparr>) s)"

lemma rwait_tmout_inv:
  assumes "tsk_inv s" and "p_runtsk s = Some p" and "TSTAT_RUNNABLE (tstat (tcb s p))"
    and "c = wait_code (RWaitQ w)" and "c \<noteq> TS_WAIT_DLY"
  shows "tsk_inv (rwait_tmout w tmout (set_tstat p (TS_WAITING OR c) s))"
proof -
  let ?s = "set_tstat p (TS_WAITING OR c) s" and ?w = "(p_winfo (tcb s p))\<lparr>winfo := tmo_winfo p tmout, p_wobjcb := w\<rparr>"
  let ?s' = "rwait_tmout w tmout ?s"
  have wc: "c \<in> wait_codes" "wait_place c w = Some (RWaitQ w)"
    using assms(4,5) by (cases w; simp add: wait_codes_def wait_place_def)+
  have pl: "task_place ((tcb s p)\<lparr>tstat := TS_WAITING OR c, p_winfo := ?w\<rparr>) = Some (RWaitQ w)"
    using runnable_ready(2)[OF assms(1,3)] wc by (simp add: task_place_waiting)
  have rq: "requeued p ((tcb s p)\<lparr>tstat := TS_WAITING OR c, p_winfo := ?w\<rparr>) s ?s'"
    unfolding requeued_def pl using assms(2) by (simp add: is_waitq_def rwait_tmout_def Let_def)
  have mn: "ready_primap ?s' = ready_primap (snd (make_non_runnable p s))"
    "p_schedtsk ?s' = p_schedtsk (snd (make_non_runnable p s))"
    using make_non_runnable_cong[of ?s s p] assms(2) by (simp_all add: rwait_tmout_def Let_def)
  have a: "wobjatr ?s' = wobjatr s" by (rule wobjatr_objects) (simp add: rwait_tmout_def Let_def)
  have tc: "tcb ?s' = (tcb s)(p := (tcb s p)\<lparr>tstat := TS_WAITING OR c, p_winfo := ?w\<rparr>)"
    using assms(2) by (cases "tcb s p") (simp add: rwait_tmout_def Let_def)
  show ?thesis
    by (rule blocked_inv[OF assms(1,3) wc(1) tc _ _ rq _ mn a, where tmout = tmout])
      (use assms(2,4,5) wc in \<open>simp_all add: rwait_tmout_def Let_def\<close>)
qed

section \<open>The running task\<close>

text \<open>
  The running task is runnable, and it is the task of highest precedence unless dispatching is
  disabled or a dispatch at the end of the interrupt handling has been requested.
\<close>

definition winv :: "kernel \<Rightarrow> bool" where
  "winv s \<longleftrightarrow> tsk_inv s \<and> (\<forall>p. p_runtsk s = Some p \<longrightarrow> TSTAT_RUNNABLE (tstat (tcb s p)))"

definition kinv :: "kernel \<Rightarrow> bool" where
  "kinv s \<longleftrightarrow> winv s \<and> (dspflg s \<longrightarrow> \<not> reqflg s \<longrightarrow> p_runtsk s = p_schedtsk s)"

lemma kinvD:
  assumes "kinv s"
  shows "tsk_inv s" and "winv s" and "p_runtsk s = Some p \<Longrightarrow> TSTAT_RUNNABLE (tstat (tcb s p))"
  using assms by (simp_all add: kinv_def winv_def)

lemma winvD:
  assumes "winv s"
  shows "tsk_inv s" and "p_runtsk s = Some p \<Longrightarrow> TSTAT_RUNNABLE (tstat (tcb s p))"
  using assms by (simp_all add: winv_def)

lemma schedtsk_runnable:
  assumes "tsk_inv s" and "p_schedtsk s = Some p"
  shows "TSTAT_RUNNABLE (tstat (tcb s p))"
  using ready_ok_schedtsk(5)[OF tsk_invD(1)[OF assms(1)] assms(2)]
    tsk_invD(5)[OF assms(1), of p "ReadyQ (tskpri s p)"]
  by (auto simp: task_place_def split: if_splits)

lemma kinv_lock [simp]:
  "kinv (t_lock_cpu s) = kinv s" "kinv (t_unlock_cpu s) = kinv s"
  "kinv (i_lock_cpu s) = kinv s" "kinv (i_unlock_cpu s) = kinv s"
  by (simp_all add: kinv_def winv_def t_lock_cpu_def t_unlock_cpu_def i_lock_cpu_def i_unlock_cpu_def)

lemma kinv_dispatch: "tsk_inv s \<Longrightarrow> kinv (dispatch s)"
  using schedtsk_runnable[of s] by (simp add: kinv_def winv_def dispatch_def)

text \<open>
  An internal operation that keeps the running task runnable and reports a dispatch when the
  scheduled task changed. It is followed by the dispatch (in task context) or by setting the
  request flag (in interrupt context).
\<close>

definition op_ok :: "kernel \<Rightarrow> bool \<times> kernel \<Rightarrow> bool" where
  "op_ok s r \<longleftrightarrow> winv (snd r) \<and> (dspflg s \<and> p_schedtsk (snd r) \<noteq> p_schedtsk s \<longrightarrow> fst r) \<and>
    p_runtsk (snd r) = p_runtsk s \<and> reqflg (snd r) = reqflg s \<and> dspflg (snd r) = dspflg s"

lemma op_ok_dispatch_if: "kinv s \<Longrightarrow> op_ok s r \<Longrightarrow> kinv (dispatch_if r)"
  using kinv_dispatch[of "snd r"] by (cases "fst r") (auto simp: dispatch_if_def kinv_def winv_def op_ok_def)

lemma op_ok_reqflg_if: "kinv s \<Longrightarrow> op_ok s r \<Longrightarrow> kinv (reqflg_if r)"
  by (auto simp: reqflg_if_def kinv_def winv_def op_ok_def)

lemma op_ok_trans:
  "op_ok s r \<Longrightarrow> op_ok (snd r) r' \<Longrightarrow> op_ok s (fst r \<or> fst r', snd r')"
  by (auto simp: op_ok_def)

lemma op_ok_refl: "winv s \<Longrightarrow> op_ok s (b, s)"
  by (simp add: op_ok_def)

lemma release_op_ok:
  assumes "winv s" and "TSTAT_WAITING (tstat (tcb s p))" and "tm_without p (tme s) tm"
  shows "op_ok s (release e tm p s)"
proof -
  have t: "tsk_inv s" using assms(1) by (simp add: winv_def)
  have nr: "\<not> TSTAT_RUNNABLE (tstat (tcb s p))"
    using tsk_invD(3)[OF t, of p] tstat_ok_excl(2) assms(2) by (auto simp: tcb_ok_def)
  have run: "p_runtsk s = Some q \<Longrightarrow> TSTAT_RUNNABLE (tstat (tcb (snd (release e tm p s)) q))" for q
    using winvD(2)[OF assms(1), of q] nr by auto
  show "op_ok s (release e tm p s)"
    using release_inv[OF t assms(2,3)] release_ready_ok(2)[OF t assms(2), of e tm] run
      objectsD(4)[of "snd (release e tm p s)" s]
    by (auto simp: op_ok_def winv_def)
qed

lemma wait_release_op_ok:
  assumes "winv s" and "TSTAT_WAITING (tstat (tcb s p))"
  shows "op_ok s (wait_release p s)"
  using release_op_ok[OF assms tm_dequeued_without[OF winvD(1)[OF assms(1)] assms(2)]]
    wait_release_release[OF winvD(1)[OF assms(1)] assms(2)] by simp

lemma wait_complete_op_ok:
  assumes "winv s" and "queues s q = p # ps" and "is_waitq q"
  shows "op_ok s (wait_complete p (s\<lparr>queues := (queues s)(q := ps)\<rparr>))"
proof -
  note t = winvD(1)[OF assms(1)]
  have w: "TSTAT_WAITING (tstat (tcb s p))" using waitq_waiting(1)[OF t _ assms(3)] assms(2) by simp
  show ?thesis
    using release_op_ok[OF assms(1) w tm_dequeued_without[OF t w]] wait_complete_release[OF t assms(2)] by simp
qed

lemma init_wait_queue_op_ok:
  assumes "is_waitq q"
  shows "winv s \<Longrightarrow> op_ok s (init_wait_queue q s) \<and> queues (snd (init_wait_queue q s)) q = []"
  using assms
proof (induction s rule: init_wait_queue_induct)
  case (empty s)
  then show ?case by (simp add: init_wait_queue_round op_ok_refl)
next
  case (round s)
  obtain p ps where q: "queues s q = p # ps" using round.hyps by (cases "queues s q") auto
  note t = winvD(1)[OF round.prems]
  have w: "TSTAT_WAITING (tstat (tcb s p))" using waitq_waiting(1)[OF t _ assms] q by simp
  have r: "op_ok s (init_wait_round q s)"
    using release_op_ok[OF round.prems w tm_dequeued_without[OF t w]] init_wait_round_release[OF t q] by simp
  then have ih: "op_ok (snd (init_wait_round q s)) (init_wait_queue q (snd (init_wait_round q s))) \<and>
      queues (snd (init_wait_queue q (snd (init_wait_round q s)))) q = []"
    using round.IH by (simp add: op_ok_def)
  then show ?case using op_ok_trans[OF r] round.hyps assms by (subst (1 2) init_wait_queue_round) simp
qed

text \<open>Waiting queues only lose tasks when tasks are released.\<close>

lemma init_wait_queue_other:
  assumes "is_waitq q"
  shows "winv s \<Longrightarrow> is_waitq q' \<Longrightarrow> q' \<noteq> q \<Longrightarrow> queues (snd (init_wait_queue q s)) q' = queues s q'"
  using assms
proof (induction s rule: init_wait_queue_induct)
  case (empty s)
  then show ?case by (simp add: init_wait_queue_round)
next
  case (round s)
  obtain p ps where q: "queues s q = p # ps" using round.hyps by (cases "queues s q") auto
  note t = winvD(1)[OF round.prems(1)]
  have w: "TSTAT_WAITING (tstat (tcb s p))" using waitq_waiting(1)[OF t _ assms] q by simp
  have r: "op_ok s (init_wait_round q s)"
    using release_op_ok[OF round.prems(1) w tm_dequeued_without[OF t w]] init_wait_round_release[OF t q] by simp
  have "queues (snd (init_wait_round q s)) q' = queues s q'"
    using round.prems(2,3) by (auto simp: init_wait_round_def make_non_wait_queues queue_simps is_waitq_def
        split: qhead.splits)
  then show ?case
    using round.IH r round.prems round.hyps assms by (subst init_wait_queue_round) (simp add: op_ok_def)
qed

section \<open>Making a task runnable that is in no queue\<close>

lemma make_runnable_op_ok:
  assumes "winv s" and "task_place (tcb s p) = None" and "\<not> TSTAT_WAITING (tstat (tcb s p))"
    and "tcb s1 = (tcb s)(p := (tcb s p)\<lparr>tstat := TS_RUNNABLE\<rparr>)" and "queues s1 = queues s"
    and "tme s1 = tme s" and "objects s1 = objects s" and "ready_primap s1 = ready_primap s"
    and "p_schedtsk s1 = p_schedtsk s" and "p_runtsk s1 = p_runtsk s" and "reqflg s1 = reqflg s"
  shows "op_ok s (make_runnable p s1)"
proof -
  note t = winvD(1)[OF assms(1)]
  let ?t = "(tcb s p)\<lparr>tstat := TS_RUNNABLE\<rparr>" and ?s = "snd (make_runnable p s1)"
  have ex: "tskatr (p_tinib (tcb s p)) \<noteq> TA_NOEXS" using assms(2) by (auto simp: task_place_def)
  have pri: "tskpri s p < TNUM_TPRI" using tsk_invD(3)[OF t, of p] ex by (simp add: tcb_ok_def)
  have free: "q_free p (queues s)" using tsk_invD(5)[OF t, of p] assms(2) by (simp add: q_free_def)
  have r1: "ready_ok s1"
    by (rule ready_ok_other[OF tsk_invD(1)[OF t]]) (use assms(4-9) tsk_invD(7)[OF t] in auto)
  note m = make_runnable_ready_ok[OF r1, of p]
  have e: "evts (tme s) (TskTmevtb p) = None"
    using tsk_invD(4)[OF t, of p] assms(3) by (simp add: tmout_ok_def timed_def)
  have pl: "task_place ?t = Some (ReadyQ (tskpri s p))" using ex by (simp add: task_place_def TSTAT_defs)
  have "tsk_inv ?s"
  proof (rule tsk_inv_one[OF t, where p = p and t = ?t])
    show "ready_ok ?s" using m(1) free pri by (simp add: assms(4,5))
    show "tcb_ok p ?t"
      using tsk_invD(3)[OF t, of p] ex by (auto simp: tcb_ok_def tstat_ok_def TSTAT_defs)
    show "tmout_ok p ?t (tme ?s)" using e by (simp add: tmout_ok_def timed_def TSTAT_defs assms(6))
    show "remove1 p (queues ?s h) = remove1 p (queues s h)" for h
      using free by (auto simp: queue_simps q_free_def remove1_append remove1_idem assms(4,5))
    show "p \<in> set (queues ?s h) \<longleftrightarrow> task_place ?t = Some h" for h
      using free by (auto simp: pl queue_simps q_free_def assms(4,5))
    show "wobjatr ?s = wobjatr s" by (rule wobjatr_objects) (simp add: assms(7))
  qed (use tsk_invD(2)[OF t] in \<open>simp_all add: pl assms(4-6)\<close>)
  moreover have "p_runtsk s = Some q \<Longrightarrow> TSTAT_RUNNABLE (tstat (tcb ?s q))" for q
    using winvD(2)[OF assms(1), of q] by (auto simp: assms(4) TSTAT_defs)
  ultimately show ?thesis
    using m(2) free pri objectsD(4)[OF assms(7)]
    by (auto simp: op_ok_def winv_def assms(4,5,9-11))
qed

lemma make_active_op_ok:
  assumes "winv s" and "TSTAT_DORMANT (tstat (tcb s p))" and "tskatr (p_tinib (tcb s p)) \<noteq> TA_NOEXS"
  shows "op_ok s (make_active p s)"
  unfolding make_active_def
  by (rule make_runnable_op_ok[OF assms(1)]) (use assms(2,3) in \<open>simp_all add: task_place_def TSTAT_defs\<close>)

section \<open>Frames of the release\<close>

lemma wait_complete_queues:
  "is_waitq q \<Longrightarrow> queues (snd (wait_complete p s)) q = queues s q"
  by (auto simp: wait_complete_def Let_def make_non_wait_queues queue_simps is_waitq_def split: qhead.splits)

section \<open>Service calls\<close>

text \<open>The frame of a service call in task context and in interrupt context.\<close>

definition tsk_call :: "(kernel \<Rightarrow> 'r \<times> kernel) \<Rightarrow> kernel \<Rightarrow> 'r \<times> kernel" where
  "tsk_call body s = (let (r, s) = body (t_lock_cpu s) in (r, t_unlock_cpu s))"

definition int_call :: "(kernel \<Rightarrow> 'r \<times> kernel) \<Rightarrow> kernel \<Rightarrow> 'r \<times> kernel" where
  "int_call body s = (let (r, s) = body (i_lock_cpu s) in (r, i_unlock_cpu s))"

lemma kinv_tsk_call: "kinv (snd (body (t_lock_cpu s))) \<Longrightarrow> kinv (snd (tsk_call body s))"
  by (simp add: tsk_call_def case_prod_beta)

lemma kinv_int_call: "kinv (snd (body (i_lock_cpu s))) \<Longrightarrow> kinv (snd (int_call body s))"
  by (simp add: int_call_def case_prod_beta)

lemma kinv_wake:
  assumes "kinv s" and "\<not> q_empty q (queues s)" and "is_waitq q"
  shows "kinv (dispatch_if (wait_complete (hd (queues s q)) (s\<lparr>queues := (queues s)(q := tl (queues s q))\<rparr>)))"
    and "kinv (reqflg_if (wait_complete (hd (queues s q)) (s\<lparr>queues := (queues s)(q := tl (queues s q))\<rparr>)))"
proof -
  have "op_ok s (wait_complete (hd (queues s q)) (s\<lparr>queues := (queues s)(q := tl (queues s q))\<rparr>))"
    using wait_complete_op_ok[OF kinvD(2)[OF assms(1)], of q] assms(2,3)
    by (cases "queues s q") (simp_all add: q_empty_def)
  then show "kinv (dispatch_if (wait_complete (hd (queues s q)) (s\<lparr>queues := (queues s)(q := tl (queues s q))\<rparr>)))"
    and "kinv (reqflg_if (wait_complete (hd (queues s q)) (s\<lparr>queues := (queues s)(q := tl (queues s q))\<rparr>)))"
    using op_ok_dispatch_if op_ok_reqflg_if assms(1) by blast+
qed

lemma kinv_wobj_wait:
  assumes "kinv s" and "p_runtsk s = Some p" and "c = wait_code (WaitQ w)"
  shows "kinv (dispatch (wobj_make_wait_tmout w tmout (set_tstat (runtsk s) (TS_WAITING OR c) s)))"
  using wobj_make_wait_tmout_inv[OF kinvD(1)[OF assms(1)] assms(2) kinvD(3)[OF assms(1,2)] assms(3)]
    assms(2) kinv_dispatch by simp

text \<open>Changes of fields that no invariant of tasks uses.\<close>

lemma kinv_same:
  assumes "tcb s' = tcb s" and "queues s' = queues s" and "tme s' = tme s"
    and "p_schedtsk s' = p_schedtsk s" and "ready_primap s' = ready_primap s" and "wobjatr s' = wobjatr s"
    and "p_runtsk s' = p_runtsk s" and "dspflg s' = dspflg s" and "reqflg s' = reqflg s"
  shows "kinv s' = kinv s" and "winv s' = winv s"
  using tsk_inv_same[OF assms(1-6)] by (simp_all add: kinv_def winv_def assms)


text \<open>
  After the wait queue of an object was emptied its attribute may change; then the dispatch that
  \<open>init_wait_queue\<close> asked for takes place.
\<close>

lemma winv_atr:
  assumes "winv s" and "tcb s' = tcb s" and "queues s' = queues s" and "tme s' = tme s"
    and "p_schedtsk s' = p_schedtsk s" and "ready_primap s' = ready_primap s"
    and "p_runtsk s' = p_runtsk s"
    and "\<And>w. w \<noteq> v \<Longrightarrow> wobjatr s' w = wobjatr s w" and "queues s (WaitQ v) = []"
  shows "winv s'"
proof -
  have "tsk_inv s'"
    by (rule tsk_inv_cong[OF assms(2-6) _ winvD(1)[OF assms(1)]]) (use assms(8,9) in metis)
  then show ?thesis using assms by (simp add: winv_def)
qed

lemma kinv_after_init:
  assumes "kinv s" and "op_ok s r" and "queues (snd r) (WaitQ v) = []"
    and "tcb s' = tcb (snd r)" and "queues s' = queues (snd r)" and "tme s' = tme (snd r)"
    and "p_schedtsk s' = p_schedtsk (snd r)" and "ready_primap s' = ready_primap (snd r)"
    and "p_runtsk s' = p_runtsk (snd r)" and "reqflg s' = reqflg (snd r)" and "dspflg s' = dspflg (snd r)"
    and "\<And>w. w \<noteq> v \<Longrightarrow> wobjatr s' w = wobjatr (snd r) w"
  shows "kinv (dispatch_if (fst r, s'))"
proof -
  have "winv s'" by (rule winv_atr[OF _ assms(4-9,12,3)]) (use assms(2) in \<open>simp add: op_ok_def\<close>)
  then show ?thesis using assms(2) by (intro op_ok_dispatch_if[OF assms(1)]) (simp add: op_ok_def assms)
qed

lemma kinv_atr:
  assumes "kinv s" and "tcb s' = tcb s" and "queues s' = queues s" and "tme s' = tme s"
    and "p_schedtsk s' = p_schedtsk s" and "ready_primap s' = ready_primap s"
    and "p_runtsk s' = p_runtsk s" and "reqflg s' = reqflg s" and "dspflg s' = dspflg s"
    and "\<And>w. w \<noteq> v \<Longrightarrow> wobjatr s' w = wobjatr s w" and "queues s (WaitQ v) = []"
  shows "kinv s'"
  using winv_atr[OF kinvD(2)[OF assms(1)] assms(2-7,10,11)] assms(1) by (simp add: kinv_def assms)

end
