(* ===== verification/Asp_Sample.thy ===== *)
theory Asp_Sample
  imports Asp_Wait
begin

text \<open>
  Small concrete kernels on which the properties of the components are evaluated: a configuration,
  the state of a kernel without active tasks, and a kernel with a running task and a second ready
  task. They are built with the operations of the model, so the invariant follows from its lemmas.
\<close>

definition sample_tinib :: TINIB where
  "sample_tinib = \<lparr>tskatr = TA_NULL, exinf = 0, task = 0, ipriority = 4, stksz = 1024, stk = Some 0,
    texatr = TA_NULL, texrtn = None\<rparr>"

definition sample_winfo :: WINFO where
  "sample_winfo = \<lparr>winfo = Wercd E_OK, p_wobjcb = SEM 0, w_waiptn = 0, w_wfmode = 0, w_flgptn = 0,
    w_data = 0, w_datapri = 0, w_msg = None, w_blk = 0\<rparr>"

definition sample_tcb :: TCB where
  "sample_tcb = \<lparr>p_tinib = sample_tinib, tstat = TS_DORMANT, bpriority = 4, priority = 4,
    actque = False, wupque = False, enatex = False, texptn = 0, p_winfo = sample_winfo\<rparr>"

text \<open>All objects exist: semaphores with count 0 of at most 5, queues with room for two data.\<close>

definition idle_kernel :: kernel where
  "idle_kernel =
    \<lparr>tcb = (\<lambda>_. sample_tcb), queues = (\<lambda>_. []), mtxqs = (\<lambda>_. []), p_runtsk = None, p_schedtsk = None,
     reqflg = False, ipmflg = True, disdsp = False, dspflg = True, ready_primap = 0, cpu_lock = False,
     intctx = False, intpri = 0, kmm_brk = 0, tme = sample_tmevt,
     semcb = (\<lambda>_. \<lparr>p_seminib = \<lparr>sematr = TA_TPRI, isemcnt = 0, maxsem = 5\<rparr>, semcnt = 0\<rparr>),
     free_semcb = [],
     flgcb = (\<lambda>_. \<lparr>p_flginib = \<lparr>flgatr = TA_CLR, iflgptn = 0\<rparr>, flgptn = 0\<rparr>), free_flgcb = [],
     dtqcb = (\<lambda>_. \<lparr>p_dtqinib = \<lparr>dtqatr = TA_NULL, dtqcnt = 2, p_dtqmb = Some 0\<rparr>, dtq_count = 0,
       dtq_head = 0, dtq_tail = 0, dtqmb = (\<lambda>_. 0)\<rparr>), free_dtqcb = [],
     pdqcb = (\<lambda>_. \<lparr>p_pdqinib = \<lparr>pdqatr = TA_NULL, pdqcnt = 2, maxdpri = 3, p_pdqmb = Some 0\<rparr>,
       pdq_count = 0, pdq_head = None, pdq_unused = 0, pdq_freelist = None,
       pdqmb = (\<lambda>_. \<lparr>pdq_next = None, pdq_data = 0, pdq_datapri = 0\<rparr>)\<rparr>), free_pdqcb = [],
     mbxcb = (\<lambda>_. \<lparr>p_mbxinib = \<lparr>mbxatr = TA_NULL, maxmpri = 3\<rparr>, pk_head = None, pk_last = 0\<rparr>),
     free_mbxcb = [], pk_next = (\<lambda>_. None), msgpri = (\<lambda>_. 1),
     mpfcb = (\<lambda>_. \<lparr>p_mpfinib = \<lparr>mpfatr = TA_NULL, blkcnt = 2, blksz = 16, mpf = 0, p_mpfmb = Some 0\<rparr>,
       fblkcnt = 2, mpf_unused = 0, mpf_freelist = None, mpfmb = (\<lambda>_. None)\<rparr>), free_mpfcb = [],
     mtxcb = (\<lambda>_. \<lparr>p_mtxinib = \<lparr>mtxatr = TA_CEILING, ceilpri = 2\<rparr>, p_loctsk = None\<rparr>), free_mtxcb = [],
     cyccb = (\<lambda>_. \<lparr>p_cycinib = \<lparr>cycatr = TA_NULL, cyc_exinf = 0, cychdr = 0, cyctim = 10, cycphs = 0\<rparr>,
       cycsta = False, cyc_evttim = 0\<rparr>), free_cyccb = [],
     almcb = (\<lambda>_. \<lparr>p_alminib = \<lparr>almatr = TA_NULL, alm_exinf = 0, almhdr = 0\<rparr>, almsta = False\<rparr>),
     free_almcb = []\<rparr>"

definition sample_cfg :: kernel_cfg where
  "sample_cfg =
    \<lparr>tmax_tskid = 4, tmax_stskid = 4, tinib_table = (\<lambda>_. sample_tinib), torder_table = (\<lambda>i. int i + 1),
     tmax_semid = 2, tmax_ssemid = 2, seminib_table = (\<lambda>_. \<lparr>sematr = TA_TPRI, isemcnt = 0, maxsem = 5\<rparr>),
     tmax_flgid = 2, tmax_sflgid = 2, flginib_table = (\<lambda>_. \<lparr>flgatr = TA_CLR, iflgptn = 0\<rparr>),
     tmax_dtqid = 2, tmax_sdtqid = 2, dtqinib_table = (\<lambda>_. \<lparr>dtqatr = TA_NULL, dtqcnt = 2, p_dtqmb = Some 0\<rparr>),
     tmax_pdqid = 2, tmax_spdqid = 2,
     pdqinib_table = (\<lambda>_. \<lparr>pdqatr = TA_NULL, pdqcnt = 2, maxdpri = 3, p_pdqmb = Some 0\<rparr>),
     tmax_mbxid = 2, tmax_smbxid = 2, mbxinib_table = (\<lambda>_. \<lparr>mbxatr = TA_NULL, maxmpri = 3\<rparr>),
     tmax_mpfid = 2, tmax_smpfid = 2,
     mpfinib_table = (\<lambda>_. \<lparr>mpfatr = TA_NULL, blkcnt = 2, blksz = 16, mpf = 0, p_mpfmb = Some 0\<rparr>),
     tmax_mtxid = 2, tmax_smtxid = 2, mtxinib_table = (\<lambda>_. \<lparr>mtxatr = TA_CEILING, ceilpri = 2\<rparr>),
     tmax_cycid = 1, tmax_scycid = 1,
     cycinib_table = (\<lambda>_. \<lparr>cycatr = TA_NULL, cyc_exinf = 0, cychdr = 0, cyctim = 10, cycphs = 0\<rparr>),
     tmax_almid = 1, tmax_salmid = 1, alminib_table = (\<lambda>_. \<lparr>almatr = TA_NULL, alm_exinf = 0, almhdr = 0\<rparr>),
     kmm = 0x1000, kmmsz = 0x100\<rparr>"

lemma kinv_idle_kernel: "kinv idle_kernel"
proof -
  have "ready_ok idle_kernel"
    by (simp add: ready_ok_def queues_ok_def primap_ok_def ready_pri_ok_def idle_kernel_def top_ready_def)
  moreover have "tcb_ok p sample_tcb" "\<not> timed p sample_tcb" "task_place sample_tcb = None" for p
    by (simp_all add: tcb_ok_def timed_def sample_tcb_def sample_tinib_def tstat_ok_def TSTAT_defs task_place_def)
  ultimately show ?thesis
    by (simp add: kinv_def winv_def tsk_inv_def tmout_ok_def idle_kernel_def sample_tmevt_ok)
qed

text \<open>Task 0 runs; the ready task 1 has the same priority and comes after it.\<close>

definition run_kernel :: kernel where
  "run_kernel = dispatch_if (make_active 1 (dispatch_if (make_active 0 idle_kernel)))"

lemma idle_sel:
  "tcb idle_kernel p = sample_tcb" "queues idle_kernel h = []" "p_schedtsk idle_kernel = None"
  "p_runtsk idle_kernel = None" "dspflg idle_kernel" "\<not> cpu_lock idle_kernel" "\<not> intctx idle_kernel"
  "\<not> reqflg idle_kernel" "tme idle_kernel = sample_tmevt"
  by (simp_all add: idle_kernel_def)

lemma run_kernel_sel:
  "tcb run_kernel = (\<lambda>_. sample_tcb)(0 := sample_tcb\<lparr>tstat := TS_RUNNABLE\<rparr>, 1 := sample_tcb\<lparr>tstat := TS_RUNNABLE\<rparr>)"
  "queues run_kernel = (\<lambda>_. [])(ReadyQ 4 := [0, 1])" "p_runtsk run_kernel = Some 0"
  "p_schedtsk run_kernel = Some 0" "dspflg run_kernel" "\<not> cpu_lock run_kernel" "\<not> intctx run_kernel"
  "\<not> reqflg run_kernel" "tme run_kernel = sample_tmevt" "objects run_kernel = objects idle_kernel"
  by (simp_all add: run_kernel_def dispatch_if_def dispatch_def make_active_def make_runnable_def
      primap_set_def Let_def idle_kernel_def sample_tcb_def q_insert_prev_def fun_eq_iff objects_def)

lemmas run_kernel_objects = objectsD[OF run_kernel_sel(10)]

lemma kinv_run_kernel: "kinv run_kernel"
proof -
  have a: "op_ok idle_kernel (make_active 0 idle_kernel)"
    by (rule make_active_op_ok[OF kinvD(2)[OF kinv_idle_kernel]])
      (simp_all add: idle_sel sample_tcb_def sample_tinib_def TSTAT_defs)
  note k = op_ok_dispatch_if[OF kinv_idle_kernel a]
  have "tcb (dispatch_if (make_active 0 idle_kernel)) 1 = sample_tcb"
    by (simp add: dispatch_if_def dispatch_def make_active_def idle_sel)
  then show ?thesis
    unfolding run_kernel_def
    by (intro op_ok_dispatch_if[OF k] make_active_op_ok[OF kinvD(2)[OF k]])
      (simp_all add: sample_tcb_def sample_tinib_def TSTAT_defs)
qed

end
