(* ===== verification/Asp_Service.thy ===== *)
theory Asp_Service
  imports Asp_Sample
begin

text \<open>
  What the service calls of several modules share: changes of the priority of a task, suspension
  and resumption, release of a waiting task together with data for it, and the checks of
  \<^verbatim>\<open>kernel/check.h\<close> they have in common.
\<close>

section \<open>Checks\<close>

definition CHECK_TSKID_SELF :: "kernel_cfg \<Rightarrow> ID \<Rightarrow> bool" where
  "CHECK_TSKID_SELF cfg tskid \<longleftrightarrow> VALID_TSKID cfg tskid \<or> tskid = TSK_SELF"

definition CHECK_TPRI_INI :: "PRI \<Rightarrow> bool" where
  "CHECK_TPRI_INI tpri \<longleftrightarrow> VALID_TPRI tpri \<or> tpri = TPRI_INI"

definition CHECK_TPRI_SELF :: "PRI \<Rightarrow> bool" where
  "CHECK_TPRI_SELF tpri \<longleftrightarrow> VALID_TPRI tpri \<or> tpri = TPRI_SELF"

definition CHECK_TSKCTX :: "kernel \<Rightarrow> bool" where
  "CHECK_TSKCTX s \<longleftrightarrow> \<not> intctx s"

definition ALIGNED :: "nat \<Rightarrow> nat \<Rightarrow> bool" where
  "ALIGNED val align \<longleftrightarrow> val mod align = 0"

text \<open>The alignment units of \<^verbatim>\<open>arch/arm_gcc/common/core_config.h\<close>.\<close>

definition FUNC_ALIGNED :: "nat \<Rightarrow> bool" where "FUNC_ALIGNED func = ALIGNED func 4"
definition STKSZ_ALIGNED :: "nat \<Rightarrow> bool" where "STKSZ_ALIGNED sz = ALIGNED sz 8"
definition STACK_ALIGNED :: "nat \<Rightarrow> bool" where "STACK_ALIGNED stack = ALIGNED stack 4"
definition MPF_ALIGNED :: "nat \<Rightarrow> bool" where "MPF_ALIGNED area = ALIGNED area 4"
definition MB_ALIGNED :: "nat \<Rightarrow> bool" where "MB_ALIGNED mb = ALIGNED mb 4"

section \<open>Change of priority\<close>

lemma wobjcb_code:
  assumes "tstat_ok v"
  shows "TSTAT_WAIT_WOBJCB v \<longleftrightarrow> TSTAT_WAITING v \<and> TSTAT_WAIT_WOBJ v \<and>
    v AND TS_WAIT_MASK \<noteq> TS_WAIT_RDTQ \<and> v AND TS_WAIT_MASK \<noteq> TS_WAIT_RPDQ"
  using assms unfolding tstat_ok_cases by (auto simp: TSTAT_defs)

lemma change_priority_waiting:
  assumes "\<not> TSTAT_RUNNABLE (tstat (tcb s p))"
  shows "tcb (snd (change_priority p newpri m s)) = (tcb s)(p := (tcb s p)\<lparr>priority := newpri\<rparr>)"
    and "queues (snd (change_priority p newpri m s)) =
      (if TSTAT_WAIT_WOBJCB (tstat (tcb s p)) \<and> wobjatr s (p_wobjcb (p_winfo (tcb s p))) AND TA_TPRI \<noteq> 0
       then q_insert_tpri ((tskpri s)(p := newpri)) (WaitQ (p_wobjcb (p_winfo (tcb s p)))) p (q_delete p (queues s))
       else queues s)"
    and "ready_primap (snd (change_priority p newpri m s)) = ready_primap s"
    and "p_schedtsk (snd (change_priority p newpri m s)) = p_schedtsk s"
    and "fst (change_priority p newpri m s) = False"
proof -
  have pr: "tskpri (s\<lparr>tcb := (tcb s)(p := (tcb s p)\<lparr>priority := newpri\<rparr>), queues := q\<rparr>) =
      (tskpri s)(p := newpri)" for q by (auto simp: fun_eq_iff)
  have a: "wobjatr (s\<lparr>tcb := t\<rparr>) = wobjatr s" for t by simp
  show "queues (snd (change_priority p newpri m s)) =
      (if TSTAT_WAIT_WOBJCB (tstat (tcb s p)) \<and> wobjatr s (p_wobjcb (p_winfo (tcb s p))) AND TA_TPRI \<noteq> 0
       then q_insert_tpri ((tskpri s)(p := newpri)) (WaitQ (p_wobjcb (p_winfo (tcb s p)))) p (q_delete p (queues s))
       else queues s)"
    using assms pr by (simp add: change_priority_def wobj_change_priority_def Let_def)
qed (use assms in \<open>simp_all add: change_priority_def wobj_change_priority_def Let_def\<close>)


lemma change_priority_op_ok:
  assumes "winv s" and "tskatr (p_tinib (tcb s p)) \<noteq> TA_NOEXS" and "newpri < TNUM_TPRI"
  shows "op_ok s (change_priority p newpri m s)"
proof -
  let ?s = "snd (change_priority p newpri m s)" and ?t = "(tcb s p)\<lparr>priority := newpri\<rparr>"
  note t = winvD(1)[OF assms(1)]
  have c: "tcb_ok p (tcb s p)" by (rule tsk_invD(3)[OF t])
  have tstat: "tstat_ok (tstat (tcb s p))" using c by (simp add: tcb_ok_def)
  have tcb': "tcb ?s = (tcb s)(p := ?t)"
    using change_priority_runnable(2)[of s p newpri m] change_priority_waiting(1)[of s p newpri m] by blast
  have a: "wobjatr ?s = wobjatr s" by (rule wobjatr_objects) simp
  have place: "task_place ?t = (if TSTAT_RUNNABLE (tstat (tcb s p)) then Some (ReadyQ newpri) else task_place (tcb s p))"
    using assms(2) by (simp add: task_place_def)
  have ok: "tcb_ok p ?t"
    using c assms(2,3) tstat_ok_excl(2)[OF tstat] by (auto simp: tcb_ok_def place)
  have tmo: "tmout_ok p ?t (tme ?s)"
    using tsk_invD(4)[OF t, of p] by (simp add: tmout_ok_def timed_def)
  have inv: "tsk_inv ?s \<and> (dspflg s \<and> p_schedtsk ?s \<noteq> p_schedtsk s \<longrightarrow> fst (change_priority p newpri m s))"
  proof (cases "TSTAT_RUNNABLE (tstat (tcb s p))")
    case True
    note r = change_priority_ready_ok[OF tsk_invD(1)[OF t] runnable_ready(1)[OF t True] True assms(3), of m]
    note q = change_priority_runnable(1)[OF True, of newpri m]
    have f: "p \<notin> set (q_delete p (queues s) h)" for h
      using q_free_delete[OF tsk_invD(7)[OF t]] by (simp add: q_free_def)
    have mr: "remove1 p (move_ready m newpri p (queues s) h) = remove1 p (queues s h)"
      "p \<in> set (move_ready m newpri p (queues s) h) \<longleftrightarrow> ReadyQ newpri = h" for h
      using f[of h] by (auto simp: move_ready_def queue_simps remove1_append remove1_idem)
    have "tsk_inv ?s"
      by (rule tsk_inv_one[OF t r(1) _ tcb' ok tmo])
        (use tsk_invD(2)[OF t] mr a True in \<open>simp_all add: q place\<close>)
    then show ?thesis using r(2) by simp
  next
    case False
    note w = change_priority_waiting[OF False, of newpri m] and cd = wobjcb_code[OF tstat]
    let ?w = "p_wobjcb (p_winfo (tcb s p))"
    have pl: "task_place (tcb s p) = Some (WaitQ v) \<longleftrightarrow> TSTAT_WAIT_WOBJCB (tstat (tcb s p)) \<and> v = ?w" for v
      using assms(2) False cd by (auto simp: task_place_def)
    have notready: "p \<notin> set (queues s (ReadyQ pri))" for pri by (rule waiting_not_ready[OF t False])
    note f = q_free_delete[OF tsk_invD(7)[OF t], of p]
    have ri: "remove1 p (insert_tpri pr p xs) = xs" if "p \<notin> set xs" for pr xs
      using that by (induction xs) auto
    have q1: "remove1 p (queues ?s h) = remove1 p (queues s h)" for h
      using f by (auto simp: w(2) queue_simps q_free_def ri remove1_idem)
    have mem: "p \<in> set (queues s h) \<longleftrightarrow> task_place (tcb s p) = Some h" for h by (rule tsk_invD(5)[OF t])
    have q2: "p \<in> set (queues ?s h) \<longleftrightarrow> task_place ?t = Some h" for h
      using f pl[of ?w] False mem by (auto simp: w(2) place queue_simps q_free_def)
    have q3: "queues_ok (queues ?s)"
      using tsk_invD(7)[OF t] f by (auto simp: w(2) queues_ok_insert_tpri queues_ok_delete)
    have r: "ready_ok ?s"
    proof (rule ready_ok_other[OF tsk_invD(1)[OF t] q3])
      show "queues ?s (ReadyQ pri) = queues s (ReadyQ pri)" for pri
        using notready[of pri] by (simp add: w(2) queue_simps remove1_idem)
      show "x \<in> set (queues s (ReadyQ pri)) \<Longrightarrow> tskpri ?s x = tskpri s x" for x pri
        using notready[of pri] by (auto simp: w(1))
    qed (simp_all add: w)
    have pr: "tskpri ?s = (tskpri s)(p := newpri)" by (auto simp: w(1) fun_eq_iff)
    have srt: "sorted (map (tskpri ?s) (queues ?s (WaitQ v)))"
      if v: "task_place ?t = Some (WaitQ v)" and tp: "wobjatr s v AND TA_TPRI \<noteq> 0" for v
    proof -
      have v': "v = ?w" "TSTAT_WAIT_WOBJCB (tstat (tcb s p))" using v pl[of v] False by (auto simp: place)
      have "sorted (map (tskpri s) (remove1 p (queues s (WaitQ v))))"
        using tsk_invD(6)[OF t tp] queues_okD(1)[OF tsk_invD(7)[OF t], of "WaitQ v"]
        by (simp add: distinct_remove1_removeAll removeAll_filter_not_eq sorted_filter)
      moreover have "map ((tskpri s)(p := newpri)) (remove1 p (queues s (WaitQ v))) =
          map (tskpri s) (remove1 p (queues s (WaitQ v)))"
        using f by (auto simp: q_free_def q_delete_def)
      ultimately have "sorted (map ((tskpri s)(p := newpri)) (remove1 p (queues s (WaitQ v))))" by (simp only:)
      then show ?thesis
        unfolding pr using v' tp by (simp add: w(2) queue_simps sorted_insert_tpri del: map_fun_upd)
    qed
    have "tsk_inv ?s"
      by (rule tsk_inv_one[OF t r _ tcb' ok tmo _ _ q1 q2 a srt]) (use tsk_invD(2)[OF t] in simp_all)
    then show ?thesis using w(4) by simp
  qed
  have "p_runtsk s = Some q \<Longrightarrow> TSTAT_RUNNABLE (tstat (tcb ?s q))" for q
    using winvD(2)[OF assms(1), of q] by (auto simp: tcb')
  then show ?thesis using inv by (simp add: op_ok_def winv_def)
qed


section \<open>Suspension, resumption and delay\<close>

lemma suspend_running:
  assumes "winv s" and "TSTAT_RUNNABLE (tstat (tcb s p))"
  shows "tsk_inv (snd (make_non_runnable p (set_tstat p TS_SUSPENDED s)))"
    and "fst (make_non_runnable p (set_tstat p TS_SUSPENDED s)) \<longleftrightarrow> dspflg s \<and> p_schedtsk s = Some p"
    and "p_schedtsk s \<noteq> Some p \<Longrightarrow>
      p_schedtsk (snd (make_non_runnable p (set_tstat p TS_SUSPENDED s))) = p_schedtsk s"
proof -
  note t = winvD(1)[OF assms(1)]
  let ?s1 = "set_tstat p TS_SUSPENDED s" and ?t = "(tcb s p)\<lparr>tstat := TS_SUSPENDED\<rparr>"
  note cong = make_non_runnable_cong[of ?s1 s p]
  note m = make_non_runnable_ready_ok[OF tsk_invD(1)[OF t] runnable_ready(1)[OF t assms(2)]]
  have pl: "task_place ?t = None"
    using runnable_ready(2)[OF t assms(2)] by (simp add: task_place_def TSTAT_defs)
  have a: "wobjatr (snd (make_non_runnable p ?s1)) = wobjatr s" by (rule wobjatr_objects) simp
  show "tsk_inv (snd (make_non_runnable p ?s1))"
  proof (rule block_inv[OF t assms(2), where t = ?t])
    show "requeued p ?t s (snd (make_non_runnable p ?s1))" by (simp add: requeued_def pl)
    show "tcb_ok p ?t"
      using tsk_invD(3)[OF t, of p] runnable_ready(2)[OF t assms(2)]
      by (auto simp: tcb_ok_def tstat_ok_def TSTAT_defs)
    show "tmout_ok p ?t (tme (snd (make_non_runnable p ?s1)))"
      using runnable_ready(3)[OF t assms(2)] by (simp add: tmout_ok_def timed_def TSTAT_defs)
  qed (use tsk_invD(2)[OF t] a cong in simp_all)
  show "fst (make_non_runnable p ?s1) \<longleftrightarrow> dspflg s \<and> p_schedtsk s = Some p"
    using m(2) cong(3) by simp
  show "p_schedtsk s \<noteq> Some p \<Longrightarrow> p_schedtsk (snd (make_non_runnable p ?s1)) = p_schedtsk s"
    using m(3) cong(2) by simp
qed

text \<open>
  The suspension bit of a waiting task: it changes neither its queue nor its timeout.
\<close>

lemma tstat_suspend_bit:
  assumes "tstat_ok v" and "TSTAT_WAITING v" and "v' = v OR TS_SUSPENDED \<or> v' = v AND NOT TS_SUSPENDED"
  shows "tstat_ok v'" and "TSTAT_WAITING v'" and "v' AND TS_WAIT_MASK = v AND TS_WAIT_MASK"
    and "\<not> TSTAT_RUNNABLE v'" and "\<not> TSTAT_RUNNABLE v" and "TSTAT_WAIT_WOBJ v' \<longleftrightarrow> TSTAT_WAIT_WOBJ v"
  using assms unfolding tstat_ok_cases by (auto simp: TSTAT_defs)

lemma tsk_inv_suspend_bit:
  assumes "tsk_inv s" and "TSTAT_WAITING (tstat (tcb s p))"
    and "v = tstat (tcb s p) OR TS_SUSPENDED \<or> v = tstat (tcb s p) AND NOT TS_SUSPENDED"
  shows "tsk_inv (set_tstat p v s)"
proof -
  have c: "tcb_ok p (tcb s p)" by (rule tsk_invD(3)[OF assms(1)])
  have tk: "tstat_ok (tstat (tcb s p))" using c by (simp add: tcb_ok_def)
  note b = tstat_suspend_bit[OF tk assms(2,3)]
  let ?t = "(tcb s p)\<lparr>tstat := v\<rparr>"
  have pl: "task_place ?t = task_place (tcb s p)" using b assms(2) by (simp add: task_place_def)
  have r: "ready_ok (set_tstat p v s)"
    by (rule ready_ok_other[OF tsk_invD(1)[OF assms(1)]]) (use tsk_invD(7)[OF assms(1)] in auto)
  have ex: "tskatr (p_tinib (tcb s p)) \<noteq> TA_NOEXS"
    by (rule waiting_exists[OF assms(1) waiting_not_dormant[OF assms(2)]])
  have pr: "tskpri (set_tstat p v s) = tskpri s" by (auto simp: fun_eq_iff)
  show ?thesis
  proof (rule tsk_inv_one[OF assms(1) r, where p = p and t = ?t])
    show "tcb_ok p ?t" using c b assms(2) ex by (auto simp: tcb_ok_def pl)
    show "tmout_ok p ?t (tme (set_tstat p v s))"
      using tsk_invD(4)[OF assms(1), of p] b assms(2) by (simp add: tmout_ok_def timed_def)
    show "p \<in> set (queues (set_tstat p v s) h) \<longleftrightarrow> task_place ?t = Some h" for h
      using tsk_invD(5)[OF assms(1), of p] by (simp add: pl)
    show "sorted (map (tskpri (set_tstat p v s)) (queues (set_tstat p v s) (WaitQ w)))"
      if "wobjatr s w AND TA_TPRI \<noteq> 0" for w
      using tsk_invD(6)[OF assms(1) that] pr by simp
  qed (use tsk_invD(2)[OF assms(1)] in simp_all)
qed

section \<open>Data for a released task\<close>

text \<open>
  Fields of the control block of a task that play no role in the invariants: the queueing flags,
  the exception state and the data fields of the waiting information.
\<close>

lemma kinv_tcb:
  assumes "kinv s" and "tstat t = tstat (tcb s p)" and "p_tinib t = p_tinib (tcb s p)"
    and "priority t = tskpri s p" and "bpriority t = bpriority (tcb s p)"
    and "winfo (p_winfo t) = winfo (p_winfo (tcb s p))" and "p_wobjcb (p_winfo t) = p_wobjcb (p_winfo (tcb s p))"
  shows "kinv (s\<lparr>tcb := (tcb s)(p := t)\<rparr>)"
proof -
  have "tskatr (p_tinib t) = TA_NOEXS \<or> bpriority t < TNUM_TPRI"
    using tsk_invD(3)[OF kinvD(1)[OF assms(1)], of p] assms(3,5)
    by (auto simp: tcb_ok_def split: if_splits)
  then have "tsk_inv (s\<lparr>tcb := (tcb s)(p := t)\<rparr>)"
    by (rule tsk_inv_tcb[OF kinvD(1)[OF assms(1)] assms(2-4) _ assms(6,7)])
  then show ?thesis using assms(1,2) by (auto simp: kinv_def winv_def)
qed


lemma kinv_wake_data:
  assumes "kinv s" and "queues s q \<noteq> []" and "is_waitq q"
    and "\<And>w. winfo (g w) = winfo w \<and> p_wobjcb (g w) = p_wobjcb w"
    and "s1 = s\<lparr>queues := (queues s)(q := tl (queues s q))\<rparr>"
  shows "kinv (dispatch_if (wait_complete (hd (queues s q)) (upd_winfo (hd (queues s q)) g s1)))"
    and "kinv (reqflg_if (wait_complete (hd (queues s q)) (upd_winfo (hd (queues s q)) g s1)))"
proof -
  let ?s = "upd_winfo (hd (queues s q)) g s"
  have k: "kinv ?s" by (rule kinv_tcb[OF assms(1)]) (simp_all add: assms(4))
  have e: "upd_winfo (hd (queues s q)) g s1 = ?s\<lparr>queues := (queues ?s)(q := tl (queues ?s q))\<rparr>"
    by (simp add: assms(5))
  show "kinv (dispatch_if (wait_complete (hd (queues s q)) (upd_winfo (hd (queues s q)) g s1)))"
    and "kinv (reqflg_if (wait_complete (hd (queues s q)) (upd_winfo (hd (queues s q)) g s1)))"
    using kinv_wake[OF k, of q] assms(2,3) by (simp_all add: e q_empty_def)
qed

text \<open>Blocking in the second queue of an object and without a queue.\<close>

lemma kinv_rwait:
  assumes "kinv s" and "p_runtsk s = Some p" and "c = wait_code (RWaitQ w)" and "c \<noteq> TS_WAIT_DLY"
  shows "kinv (dispatch (rwait_tmout w tmout (set_tstat (runtsk s) (TS_WAITING OR c) s)))"
  using rwait_tmout_inv[OF kinvD(1)[OF assms(1)] assms(2) kinvD(3)[OF assms(1,2)] assms(3,4)]
    assms(2) kinv_dispatch by simp

lemma kinv_sleep:
  assumes "kinv s" and "p_runtsk s = Some p"
  shows "kinv (dispatch (make_wait_tmout tmout (set_tstat (runtsk s) (TS_WAITING OR TS_WAIT_SLP) s)))"
  using make_wait_tmout_inv[OF kinvD(1)[OF assms(1)] assms(2) kinvD(3)[OF assms(1,2)]]
    assms(2) kinv_dispatch by simp

lemma lock_runtsk [simp]: "p_runtsk (t_lock_cpu s) = p_runtsk s" "p_runtsk (i_lock_cpu s) = p_runtsk s"
  by (simp_all add: t_lock_cpu_def i_lock_cpu_def)

lemma lock_sel:
  "queues (t_lock_cpu s) = queues s" "queues (i_lock_cpu s) = queues s"
  "tcb (t_lock_cpu s) = tcb s" "tcb (i_lock_cpu s) = tcb s"
  "tme (t_lock_cpu s) = tme s" "tme (i_lock_cpu s) = tme s"
  "p_schedtsk (t_lock_cpu s) = p_schedtsk s" "p_schedtsk (i_lock_cpu s) = p_schedtsk s"
  "queues (t_unlock_cpu s) = queues s" "queues (i_unlock_cpu s) = queues s"
  "tcb (t_unlock_cpu s) = tcb s" "tcb (i_unlock_cpu s) = tcb s"
  "tme (t_unlock_cpu s) = tme s" "tme (i_unlock_cpu s) = tme s"
  "p_runtsk (t_unlock_cpu s) = p_runtsk s" "p_runtsk (i_unlock_cpu s) = p_runtsk s"
  "p_schedtsk (t_unlock_cpu s) = p_schedtsk s" "p_schedtsk (i_unlock_cpu s) = p_schedtsk s"
  by (simp_all add: t_lock_cpu_def i_lock_cpu_def t_unlock_cpu_def i_unlock_cpu_def)

lemmas lock_objects = objectsD[OF objects_lock(1)] objectsD[OF objects_lock(2)]
  objectsD[OF objects_lock(3)] objectsD[OF objects_lock(4)]

end
