(* ===== verification/Asp_Semaphore.thy ===== *)
theory Asp_Semaphore
  imports Asp_Service
begin

text \<open>
  Semaphores, \<^verbatim>\<open>kernel/semaphore.c\<close>. Every service call keeps the kernel invariant \<open>kinv\<close> and the
  invariant \<open>sem_inv\<close> of the semaphores: the count stays within its bounds and is zero while tasks
  wait.
\<close>

section \<open>Operations\<close>

definition tnum_sem :: "kernel_cfg \<Rightarrow> nat" where "tnum_sem cfg = nat (tmax_semid cfg)"
definition tnum_ssem :: "kernel_cfg \<Rightarrow> nat" where "tnum_ssem cfg = nat (tmax_ssemid cfg)"
definition INDEX_SEM :: "ID \<Rightarrow> nat" where "INDEX_SEM semid = nat (semid - 1)"
definition SEMID :: "nat \<Rightarrow> ID" where "SEMID i = int i + 1"

definition VALID_SEMID :: "kernel_cfg \<Rightarrow> ID \<Rightarrow> bool" where
  "VALID_SEMID cfg semid \<longleftrightarrow> 1 \<le> semid \<and> semid \<le> tmax_semid cfg"

abbreviation TMAX_MAXSEM :: uint_t where "TMAX_MAXSEM \<equiv> - 1"

abbreviation upd_sem :: "nat \<Rightarrow> (SEMCB \<Rightarrow> SEMCB) \<Rightarrow> kernel \<Rightarrow> kernel" where
  "upd_sem i g s \<equiv> s\<lparr>semcb := (semcb s)(i := g (semcb s i))\<rparr>"

definition initialize_semaphore :: "kernel_cfg \<Rightarrow> kernel \<Rightarrow> kernel" where
  "initialize_semaphore cfg s =
    (let s = fold (\<lambda>i s.
               let s = s\<lparr>queues := q_initialize (WaitQ (SEM i)) (queues s)\<rparr>;
                   s = upd_sem i (\<lambda>c. c\<lparr>p_seminib := seminib_table cfg i\<rparr>) s
               in upd_sem i (\<lambda>c. c\<lparr>semcnt := isemcnt (p_seminib c)\<rparr>) s)
             [0..<tnum_ssem cfg] s;
         s = s\<lparr>free_semcb := []\<rparr>
     in fold (\<lambda>i s.
          let s = upd_sem i (\<lambda>c. c\<lparr>p_seminib := (p_seminib c)\<lparr>sematr := TA_NOEXS\<rparr>\<rparr>) s
          in s\<lparr>free_semcb := free_semcb s @ [i]\<rparr>)
        [tnum_ssem cfg..<tnum_sem cfg] s)"

definition acre_sem :: "kernel_cfg \<Rightarrow> SEMINIB \<Rightarrow> kernel \<Rightarrow> result \<times> kernel" where
  "acre_sem cfg pk_csem s =
    (if \<not> CHECK_TSKCTX_UNL s then (Ret E_CTX, s)
     else if \<not> CHECK_RSATR (sematr pk_csem) TA_TPRI then (Ret E_RSATR, s)
     else if \<not> (0 \<le> isemcnt pk_csem \<and> isemcnt pk_csem \<le> maxsem pk_csem) then (Ret E_PAR, s)
     else if \<not> (1 \<le> maxsem pk_csem \<and> maxsem pk_csem \<le> TMAX_MAXSEM) then (Ret E_PAR, s)
     else tsk_call (\<lambda>s.
       if tnum_sem cfg = 0 \<or> free_semcb s = [] then (Ret E_NOID, s)
       else (let i = hd (free_semcb s);
                 s = s\<lparr>free_semcb := tl (free_semcb s)\<rparr>;
                 s = upd_sem i (\<lambda>c. c\<lparr>p_seminib := (p_seminib c)\<lparr>sematr := sematr pk_csem,
                       isemcnt := isemcnt pk_csem, maxsem := maxsem pk_csem\<rparr>\<rparr>) s;
                 s = s\<lparr>queues := q_initialize (WaitQ (SEM i)) (queues s)\<rparr>;
                 s = upd_sem i (\<lambda>c. c\<lparr>semcnt := isemcnt (p_seminib c)\<rparr>) s
             in (Ret (SEMID i), s))) s)"

definition del_sem :: "kernel_cfg \<Rightarrow> ID \<Rightarrow> kernel \<Rightarrow> result \<times> kernel" where
  "del_sem cfg semid s =
    (if \<not> CHECK_TSKCTX_UNL s then (Ret E_CTX, s)
     else if \<not> VALID_SEMID cfg semid then (Ret E_ID, s)
     else let i = INDEX_SEM semid in tsk_call (\<lambda>s.
       if sematr (p_seminib (semcb s i)) = TA_NOEXS then (Ret E_NOEXS, s)
       else if SEMID i > tmax_ssemid cfg
       then (let (dspreq, s) = init_wait_queue (WaitQ (SEM i)) s;
                 s = upd_sem i (\<lambda>c. c\<lparr>p_seminib := (p_seminib c)\<lparr>sematr := TA_NOEXS\<rparr>\<rparr>) s;
                 s = s\<lparr>free_semcb := free_semcb s @ [i]\<rparr>
             in (Ret E_OK, dispatch_if (dspreq, s)))
       else (Ret E_OBJ, s)) s)"

definition sig_sem :: "kernel_cfg \<Rightarrow> ID \<Rightarrow> kernel \<Rightarrow> result \<times> kernel" where
  "sig_sem cfg semid s =
    (if \<not> CHECK_TSKCTX_UNL s then (Ret E_CTX, s)
     else if \<not> VALID_SEMID cfg semid then (Ret E_ID, s)
     else let i = INDEX_SEM semid in tsk_call (\<lambda>s.
       if sematr (p_seminib (semcb s i)) = TA_NOEXS then (Ret E_NOEXS, s)
       else if \<not> q_empty (WaitQ (SEM i)) (queues s)
       then (let (p_tcb, f) = q_delete_next (WaitQ (SEM i)) (queues s);
                 s = s\<lparr>queues := f\<rparr>
             in (Ret E_OK, dispatch_if (wait_complete p_tcb s)))
       else if semcnt (semcb s i) < maxsem (p_seminib (semcb s i))
       then (Ret E_OK, upd_sem i (\<lambda>c. c\<lparr>semcnt := semcnt c + 1\<rparr>) s)
       else (Ret E_QOVR, s)) s)"

definition isig_sem :: "kernel_cfg \<Rightarrow> ID \<Rightarrow> kernel \<Rightarrow> result \<times> kernel" where
  "isig_sem cfg semid s =
    (if \<not> CHECK_INTCTX_UNL s then (Ret E_CTX, s)
     else if \<not> VALID_SEMID cfg semid then (Ret E_ID, s)
     else let i = INDEX_SEM semid in int_call (\<lambda>s.
       if sematr (p_seminib (semcb s i)) = TA_NOEXS then (Ret E_NOEXS, s)
       else if \<not> q_empty (WaitQ (SEM i)) (queues s)
       then (let (p_tcb, f) = q_delete_next (WaitQ (SEM i)) (queues s);
                 s = s\<lparr>queues := f\<rparr>
             in (Ret E_OK, reqflg_if (wait_complete p_tcb s)))
       else if semcnt (semcb s i) < maxsem (p_seminib (semcb s i))
       then (Ret E_OK, upd_sem i (\<lambda>c. c\<lparr>semcnt := semcnt c + 1\<rparr>) s)
       else (Ret E_QOVR, s)) s)"

definition wai_sem :: "kernel_cfg \<Rightarrow> ID \<Rightarrow> kernel \<Rightarrow> result \<times> kernel" where
  "wai_sem cfg semid s =
    (if \<not> CHECK_DISPATCH s then (Ret E_CTX, s)
     else if \<not> VALID_SEMID cfg semid then (Ret E_ID, s)
     else let i = INDEX_SEM semid in tsk_call (\<lambda>s.
       if sematr (p_seminib (semcb s i)) = TA_NOEXS then (Ret E_NOEXS, s)
       else if semcnt (semcb s i) \<ge> 1
       then (Ret E_OK, upd_sem i (\<lambda>c. c\<lparr>semcnt := semcnt c - 1\<rparr>) s)
       else (let s = set_tstat (runtsk s) (TS_WAITING OR TS_WAIT_SEM) s;
                 s = wobj_make_wait (SEM i) s
             in (Wait_ercd (runtsk s), dispatch s))) s)"

definition pol_sem :: "kernel_cfg \<Rightarrow> ID \<Rightarrow> kernel \<Rightarrow> result \<times> kernel" where
  "pol_sem cfg semid s =
    (if \<not> CHECK_TSKCTX_UNL s then (Ret E_CTX, s)
     else if \<not> VALID_SEMID cfg semid then (Ret E_ID, s)
     else let i = INDEX_SEM semid in tsk_call (\<lambda>s.
       if sematr (p_seminib (semcb s i)) = TA_NOEXS then (Ret E_NOEXS, s)
       else if semcnt (semcb s i) \<ge> 1
       then (Ret E_OK, upd_sem i (\<lambda>c. c\<lparr>semcnt := semcnt c - 1\<rparr>) s)
       else (Ret E_TMOUT, s)) s)"

definition twai_sem :: "kernel_cfg \<Rightarrow> ID \<Rightarrow> TMO \<Rightarrow> kernel \<Rightarrow> result \<times> kernel" where
  "twai_sem cfg semid tmout s =
    (if \<not> CHECK_DISPATCH s then (Ret E_CTX, s)
     else if \<not> VALID_SEMID cfg semid then (Ret E_ID, s)
     else if \<not> CHECK_TMOUT tmout then (Ret E_PAR, s)
     else let i = INDEX_SEM semid in tsk_call (\<lambda>s.
       if sematr (p_seminib (semcb s i)) = TA_NOEXS then (Ret E_NOEXS, s)
       else if semcnt (semcb s i) \<ge> 1
       then (Ret E_OK, upd_sem i (\<lambda>c. c\<lparr>semcnt := semcnt c - 1\<rparr>) s)
       else if tmout = TMO_POL then (Ret E_TMOUT, s)
       else (let s = set_tstat (runtsk s) (TS_WAITING OR TS_WAIT_SEM) s;
                 s = wobj_make_wait_tmout (SEM i) tmout s
             in (Wait_ercd (runtsk s), dispatch s))) s)"

definition ini_sem :: "kernel_cfg \<Rightarrow> ID \<Rightarrow> kernel \<Rightarrow> result \<times> kernel" where
  "ini_sem cfg semid s =
    (if \<not> CHECK_TSKCTX_UNL s then (Ret E_CTX, s)
     else if \<not> VALID_SEMID cfg semid then (Ret E_ID, s)
     else let i = INDEX_SEM semid in tsk_call (\<lambda>s.
       if sematr (p_seminib (semcb s i)) = TA_NOEXS then (Ret E_NOEXS, s)
       else (let (dspreq, s) = init_wait_queue (WaitQ (SEM i)) s;
                 s = upd_sem i (\<lambda>c. c\<lparr>semcnt := isemcnt (p_seminib c)\<rparr>) s
             in (Ret E_OK, dispatch_if (dspreq, s)))) s)"

record T_RSEM =
  rsem_wtskid :: ID
  rsem_semcnt :: uint_t

definition ref_sem :: "kernel_cfg \<Rightarrow> ID \<Rightarrow> kernel \<Rightarrow> (result \<times> T_RSEM option) \<times> kernel" where
  "ref_sem cfg semid s =
    (if \<not> CHECK_TSKCTX_UNL s then ((Ret E_CTX, None), s)
     else if \<not> VALID_SEMID cfg semid then ((Ret E_ID, None), s)
     else let i = INDEX_SEM semid in tsk_call (\<lambda>s.
       if sematr (p_seminib (semcb s i)) = TA_NOEXS then ((Ret E_NOEXS, None), s)
       else ((Ret E_OK, Some \<lparr>rsem_wtskid = wait_tskid (WaitQ (SEM i)) s,
                             rsem_semcnt = semcnt (semcb s i)\<rparr>), s)) s)"

section \<open>The kernel invariant\<close>

lemma wobjatr_semcb:
  "(\<And>i. sematr (p_seminib (c i)) = sematr (p_seminib (semcb s i))) \<Longrightarrow>
    wobjatr (s\<lparr>semcb := c\<rparr>) = wobjatr s"
  by (rule ext) (simp add: wobjatr_def split: wobj.split)

lemma wobjatr_free_semcb [simp]: "wobjatr (s\<lparr>free_semcb := l\<rparr>) = wobjatr s"
  by (rule ext) (simp add: wobjatr_def split: wobj.split)

lemma kinv_semcnt [simp]: "kinv (s\<lparr>semcb := (semcb s)(i := (semcb s i)\<lparr>semcnt := n\<rparr>)\<rparr>) = kinv s"
  by (rule kinv_same) (auto intro: wobjatr_semcb)

lemma kinv_sem_calls:
  assumes "kinv s"
  shows "kinv (snd (sig_sem cfg semid s))" and "kinv (snd (isig_sem cfg semid s))"
    and "kinv (snd (pol_sem cfg semid s))" and "kinv (snd (ref_sem cfg semid s))"
    and "p_runtsk s = Some p \<Longrightarrow> kinv (snd (wai_sem cfg semid s))"
    and "p_runtsk s = Some p \<Longrightarrow> kinv (snd (twai_sem cfg semid tmout s))"
  using assms kinv_wake[of "t_lock_cpu s" "WaitQ (SEM (INDEX_SEM semid))"]
    kinv_wake[of "i_lock_cpu s" "WaitQ (SEM (INDEX_SEM semid))"]
    kinv_wobj_wait[of "t_lock_cpu s" p TS_WAIT_SEM "SEM (INDEX_SEM semid)"]
  by (auto simp: sig_sem_def isig_sem_def pol_sem_def ref_sem_def wai_sem_def twai_sem_def Let_def
      q_delete_next_def is_waitq_def wobj_make_wait_eq intro!: kinv_tsk_call kinv_int_call)


text \<open>
  Reinitialisation and deletion release all waiting tasks; deletion changes the attribute only when
  the wait queue is empty.
\<close>

lemma wobjatr_sem_other: "w \<noteq> SEM i \<Longrightarrow> wobjatr (s\<lparr>semcb := (semcb s)(i := c)\<rparr>) w = wobjatr s w"
  by (simp add: wobjatr_def split: wobj.split)

lemma kinv_sem_init:
  assumes "kinv s"
  shows "kinv (snd (ini_sem cfg semid s))" and "kinv (snd (del_sem cfg semid s))"
proof -
  let ?v = "SEM (INDEX_SEM semid)" and ?s = "t_lock_cpu s"
  have k: "kinv ?s" using assms by simp
  note i = init_wait_queue_op_ok[of "WaitQ ?v" ?s, OF _ kinvD(2)[OF k]]
  note a = kinv_after_init[OF k, of "init_wait_queue (WaitQ ?v) ?s" ?v]
  show "kinv (snd (ini_sem cfg semid s))"
    using i a assms
    by (auto simp: ini_sem_def Let_def case_prod_beta is_waitq_def wobjatr_sem_other intro!: kinv_tsk_call)
  show "kinv (snd (del_sem cfg semid s))"
    using i a assms
    by (auto simp: del_sem_def Let_def case_prod_beta is_waitq_def wobjatr_sem_other intro!: kinv_tsk_call)
qed


section \<open>The invariant of the semaphores\<close>

definition sem_inv :: "kernel_cfg \<Rightarrow> kernel \<Rightarrow> bool" where
  "sem_inv cfg s \<longleftrightarrow>
    (\<forall>i. queues s (WaitQ (SEM i)) \<noteq> [] \<longrightarrow>
      sematr (p_seminib (semcb s i)) \<noteq> TA_NOEXS \<and> semcnt (semcb s i) = 0) \<and>
    (\<forall>i. sematr (p_seminib (semcb s i)) \<noteq> TA_NOEXS \<longrightarrow>
      semcnt (semcb s i) \<le> maxsem (p_seminib (semcb s i)) \<and>
      isemcnt (p_seminib (semcb s i)) \<le> maxsem (p_seminib (semcb s i))) \<and>
    distinct (free_semcb s) \<and>
    (\<forall>i \<in> set (free_semcb s). sematr (p_seminib (semcb s i)) = TA_NOEXS \<and> tnum_ssem cfg \<le> i \<and> i < tnum_sem cfg)"

lemma sem_invD:
  assumes "sem_inv cfg s"
  shows "queues s (WaitQ (SEM i)) \<noteq> [] \<Longrightarrow> semcnt (semcb s i) = 0"
    and "queues s (WaitQ (SEM i)) \<noteq> [] \<Longrightarrow> sematr (p_seminib (semcb s i)) \<noteq> TA_NOEXS"
    and "sematr (p_seminib (semcb s i)) \<noteq> TA_NOEXS \<Longrightarrow> semcnt (semcb s i) \<le> maxsem (p_seminib (semcb s i))"
    and "i \<in> set (free_semcb s) \<Longrightarrow> sematr (p_seminib (semcb s i)) = TA_NOEXS"
    and "sematr (p_seminib (semcb s i)) \<noteq> TA_NOEXS \<Longrightarrow>
      isemcnt (p_seminib (semcb s i)) \<le> maxsem (p_seminib (semcb s i))"
  using assms by (auto simp: sem_inv_def)

text \<open>The other parts of the kernel only take tasks out of the wait queues of semaphores.\<close>

lemma sem_inv_shrink:
  assumes "sem_inv cfg s" and "semcb s' = semcb s" and "free_semcb s' = free_semcb s"
    and "\<And>i. queues s (WaitQ (SEM i)) = [] \<Longrightarrow> queues s' (WaitQ (SEM i)) = []"
  shows "sem_inv cfg s'"
  using assms by (auto simp: sem_inv_def)

lemma sem_inv_lock [simp]:
  "sem_inv cfg (t_lock_cpu s) = sem_inv cfg s" "sem_inv cfg (t_unlock_cpu s) = sem_inv cfg s"
  "sem_inv cfg (i_lock_cpu s) = sem_inv cfg s" "sem_inv cfg (i_unlock_cpu s) = sem_inv cfg s"
  "sem_inv cfg (dispatch s) = sem_inv cfg s"
  by (simp_all add: sem_inv_def t_lock_cpu_def t_unlock_cpu_def i_lock_cpu_def i_unlock_cpu_def dispatch_def)

lemma sem_inv_if [simp]:
  "sem_inv cfg (dispatch_if r) = sem_inv cfg (snd r)" "sem_inv cfg (reqflg_if r) = sem_inv cfg (snd r)"
  by (simp_all add: dispatch_if_def reqflg_if_def) (simp add: sem_inv_def)

lemma sem_inv_tsk_call: "sem_inv cfg (snd (body (t_lock_cpu s))) \<Longrightarrow> sem_inv cfg (snd (tsk_call body s))"
  by (simp add: tsk_call_def case_prod_beta)

lemma sem_inv_int_call: "sem_inv cfg (snd (body (i_lock_cpu s))) \<Longrightarrow> sem_inv cfg (snd (int_call body s))"
  by (simp add: int_call_def case_prod_beta)

lemma sem_inv_wake:
  assumes "sem_inv cfg s"
  shows "sem_inv cfg (snd (wait_complete p (s\<lparr>queues := (queues s)(q := tl (queues s q))\<rparr>)))"
proof (rule sem_inv_shrink[OF assms])
  fix i assume "queues s (WaitQ (SEM i)) = []"
  then show "queues (snd (wait_complete p (s\<lparr>queues := (queues s)(q := tl (queues s q))\<rparr>))) (WaitQ (SEM i)) = []"
    by (auto simp: wait_complete_queues is_waitq_def)
qed (use objectsD[OF objects_wait2(1), of p "s\<lparr>queues := (queues s)(q := tl (queues s q))\<rparr>"] in simp_all)

lemma word_add_one_le: "(a :: uint_t) < b \<Longrightarrow> a + 1 \<le> b"
  by (metis inc_le)

lemma word_sub_one_le: "1 \<le> (a :: uint_t) \<Longrightarrow> a - 1 \<le> a"
  using word_sub_le by blast

lemma sem_inv_cnt:
  assumes "sem_inv cfg s" and "queues s (WaitQ (SEM i)) = [] \<or> n = 0"
    and "sematr (p_seminib (semcb s i)) \<noteq> TA_NOEXS \<Longrightarrow> n \<le> maxsem (p_seminib (semcb s i))"
  shows "sem_inv cfg (s\<lparr>semcb := (semcb s)(i := (semcb s i)\<lparr>semcnt := n\<rparr>)\<rparr>)"
  using assms by (auto simp: sem_inv_def)

lemma sem_inv_block:
  assumes "sem_inv cfg s" and "semcnt (semcb s i) = 0" and "sematr (p_seminib (semcb s i)) \<noteq> TA_NOEXS"
  shows "sem_inv cfg (wobj_make_wait_tmout (SEM i) tmout (set_tstat p v s))"
proof -
  let ?s = "wobj_make_wait_tmout (SEM i) tmout (set_tstat p v s)"
  have o: "objects ?s = objects s" by simp
  have "queues s (WaitQ (SEM j)) = [] \<Longrightarrow> j \<noteq> i \<Longrightarrow> queues ?s (WaitQ (SEM j)) = []" for j
    by (simp add: queue_simps)
  then show ?thesis
    using assms objectsD[OF o] unfolding sem_inv_def by metis
qed

lemma sem_calls_inv:
  assumes "sem_inv cfg s"
  shows "sem_inv cfg (snd (sig_sem cfg semid s))" and "sem_inv cfg (snd (isig_sem cfg semid s))"
    and "sem_inv cfg (snd (pol_sem cfg semid s))" and "sem_inv cfg (snd (ref_sem cfg semid s))"
    and "sem_inv cfg (snd (wai_sem cfg semid s))" and "sem_inv cfg (snd (twai_sem cfg semid tmout s))"
proof -
  let ?i = "INDEX_SEM semid"
  note simps = Let_def q_delete_next_def q_empty_def
  have t: "sem_inv cfg (t_lock_cpu s)" and i: "sem_inv cfg (i_lock_cpu s)" using assms by simp_all
  have dec: "a - 1 \<le> m" if "1 \<le> a" "a \<le> m" for a m :: uint_t
    using that word_sub_one_le order_trans by blast
  have z: "\<not> 1 \<le> a \<Longrightarrow> a = 0" for a :: uint_t by (simp add: word_less_1 not_le)
  have ne: "queues (t_lock_cpu s) (WaitQ (SEM ?i)) = []" if "1 \<le> semcnt (semcb (t_lock_cpu s) ?i)"
    using sem_invD(1)[OF t, of ?i] that by (metis word_not_simps(1) word_le_0_iff zero_neq_one)
  show "sem_inv cfg (snd (sig_sem cfg semid s))" "sem_inv cfg (snd (isig_sem cfg semid s))"
    using assms sem_inv_wake[OF t] sem_inv_wake[OF i] sem_inv_cnt[OF t, of ?i] sem_inv_cnt[OF i, of ?i]
    by (auto simp: sig_sem_def isig_sem_def simps word_add_one_le intro!: sem_inv_tsk_call sem_inv_int_call)
  show "sem_inv cfg (snd (pol_sem cfg semid s))" "sem_inv cfg (snd (ref_sem cfg semid s))"
    using assms sem_inv_cnt[OF t, of ?i] ne sem_invD(3)[OF t, of ?i] dec
    by (auto simp: pol_sem_def ref_sem_def simps intro!: sem_inv_tsk_call)
  show "sem_inv cfg (snd (wai_sem cfg semid s))" "sem_inv cfg (snd (twai_sem cfg semid tmout s))"
    using assms sem_inv_cnt[OF t, of ?i] ne sem_invD(3)[OF t, of ?i] dec sem_inv_block[OF t, of ?i] z
    by (auto simp: wai_sem_def twai_sem_def simps wobj_make_wait_eq intro!: sem_inv_tsk_call)
qed


lemma sem_inv_init:
  assumes "sem_inv cfg s" and "winv s" and "i \<notin> set (free_semcb s)"
    and "s1 = snd (init_wait_queue (WaitQ (SEM i)) s)"
  shows "isemcnt (p_seminib (semcb s i)) \<le> maxsem (p_seminib (semcb s i)) \<Longrightarrow>
      sem_inv cfg (s1\<lparr>semcb := (semcb s1)(i := (semcb s1 i)\<lparr>semcnt := isemcnt (p_seminib (semcb s1 i))\<rparr>)\<rparr>)"
    and "tnum_ssem cfg \<le> i \<Longrightarrow> i < tnum_sem cfg \<Longrightarrow>
      sem_inv cfg (s1\<lparr>semcb := (semcb s1)(i := (semcb s1 i)\<lparr>p_seminib :=
        (p_seminib (semcb s1 i))\<lparr>sematr := TA_NOEXS\<rparr>\<rparr>), free_semcb := free_semcb s1 @ [i]\<rparr>)"
proof -
  have o: "objects s1 = objects s" by (simp add: assms(4))
  note f = objectsD[OF o]
  have q: "queues s1 (WaitQ (SEM i)) = []"
    using init_wait_queue_op_ok[of "WaitQ (SEM i)", OF _ assms(2)] by (simp add: assms(4) is_waitq_def)
  have r: "j \<noteq> i \<Longrightarrow> queues s1 (WaitQ (SEM j)) = queues s (WaitQ (SEM j))" for j
    using init_wait_queue_other[of "WaitQ (SEM i)", OF _ assms(2)] by (simp add: assms(4) is_waitq_def)
  show "isemcnt (p_seminib (semcb s i)) \<le> maxsem (p_seminib (semcb s i)) \<Longrightarrow>
      sem_inv cfg (s1\<lparr>semcb := (semcb s1)(i := (semcb s1 i)\<lparr>semcnt := isemcnt (p_seminib (semcb s1 i))\<rparr>)\<rparr>)"
    using assms(1) q r unfolding sem_inv_def by (simp add: f)
  show "tnum_ssem cfg \<le> i \<Longrightarrow> i < tnum_sem cfg \<Longrightarrow>
      sem_inv cfg (s1\<lparr>semcb := (semcb s1)(i := (semcb s1 i)\<lparr>p_seminib :=
        (p_seminib (semcb s1 i))\<lparr>sematr := TA_NOEXS\<rparr>\<rparr>), free_semcb := free_semcb s1 @ [i]\<rparr>)"
    using assms(1,3) q r unfolding sem_inv_def by (simp add: f)
qed

lemma sem_init_inv:
  assumes "sem_inv cfg s" and "kinv s"
  shows "sem_inv cfg (snd (ini_sem cfg semid s))" and "sem_inv cfg (snd (del_sem cfg semid s))"
proof -
  let ?i = "INDEX_SEM semid" and ?s = "t_lock_cpu s"
  have t: "sem_inv cfg ?s" "winv ?s" using assms kinvD(2)[of ?s] by simp_all
  note n = sem_inv_init[OF t, of ?i]
  have nf: "?i \<notin> set (free_semcb ?s)" if "sematr (p_seminib (semcb ?s ?i)) \<noteq> TA_NOEXS"
    using sem_invD(4)[OF t(1), of ?i] that by auto
  show "sem_inv cfg (snd (ini_sem cfg semid s))"
    using n(1) nf sem_invD(5)[OF t(1), of ?i] assms(1)
    by (auto simp: ini_sem_def Let_def case_prod_beta intro!: sem_inv_tsk_call)
  have "tnum_ssem cfg \<le> ?i \<and> ?i < tnum_sem cfg"
    if "VALID_SEMID cfg semid" "SEMID ?i > tmax_ssemid cfg"
    using that by (auto simp: VALID_SEMID_def SEMID_def INDEX_SEM_def tnum_sem_def tnum_ssem_def)
  then show "sem_inv cfg (snd (del_sem cfg semid s))"
    using n(2) nf assms(1)
    by (auto simp: del_sem_def Let_def case_prod_beta intro!: sem_inv_tsk_call)
qed

lemma acre_sem_inv:
  assumes "sem_inv cfg s" and "kinv s"
  shows "sem_inv cfg (snd (acre_sem cfg pk s))" and "kinv (snd (acre_sem cfg pk s))"
proof -
  let ?s = "t_lock_cpu s" and ?i = "hd (free_semcb (t_lock_cpu s))"
  have t: "sem_inv cfg ?s" "kinv ?s" using assms by simp_all
  have e: "free_semcb ?s \<noteq> [] \<Longrightarrow> queues ?s (WaitQ (SEM ?i)) = []"
    using sem_invD(2,4)[OF t(1), of ?i] by auto
  let ?c = "(semcb ?s ?i)\<lparr>p_seminib := (p_seminib (semcb ?s ?i))\<lparr>sematr := sematr pk,
      isemcnt := isemcnt pk, maxsem := maxsem pk\<rparr>, semcnt := isemcnt pk\<rparr>"
  define s1 where "s1 = ?s\<lparr>free_semcb := tl (free_semcb ?s),
    queues := (queues ?s)(WaitQ (SEM ?i) := []), semcb := (semcb ?s)(?i := ?c)\<rparr>"
  have a: "snd (acre_sem cfg pk s) = s \<or> snd (acre_sem cfg pk s) = t_unlock_cpu ?s \<or>
      snd (acre_sem cfg pk s) = t_unlock_cpu s1 \<and> free_semcb ?s \<noteq> [] \<and> isemcnt pk \<le> maxsem pk"
    by (auto simp: acre_sem_def tsk_call_def s1_def Let_def q_initialize_def split: if_splits)
  have "kinv s1" if "free_semcb ?s \<noteq> []"
    by (rule kinv_atr[OF t(2), where v = "SEM ?i"])
      (use e[OF that] in \<open>auto simp: s1_def fun_upd_idem wobjatr_def split: wobj.split\<close>)
  then show "kinv (snd (acre_sem cfg pk s))" using a assms(2) by auto
  have "sem_inv cfg s1" if "free_semcb ?s \<noteq> []" "isemcnt pk \<le> maxsem pk"
    using t(1) that by (cases "free_semcb ?s") (auto simp: s1_def sem_inv_def)
  then show "sem_inv cfg (snd (acre_sem cfg pk s))" using a assms(1) by auto
qed


section \<open>Properties\<close>

text \<open>The kernel in which task 0 waits for semaphore 1 and task 1 runs.\<close>

definition sem_wait_kernel :: kernel where
  "sem_wait_kernel = snd (wai_sem sample_cfg 1 run_kernel)"

lemma sem_inv_run_kernel: "sem_inv sample_cfg run_kernel"
  by (simp add: sem_inv_def run_kernel_sel run_kernel_objects) (simp add: idle_kernel_def)

lemma sem_wait_kernel_sel:
  "queues sem_wait_kernel (WaitQ (SEM 0)) = [0]" "CHECK_TSKCTX_UNL sem_wait_kernel"
  "kinv sem_wait_kernel" "sem_inv sample_cfg sem_wait_kernel"
proof -
  let ?b = "dispatch (wobj_make_wait_tmout (SEM 0) TMO_FEVR
    (set_tstat (runtsk (t_lock_cpu run_kernel)) (TS_WAITING OR TS_WAIT_SEM) (t_lock_cpu run_kernel)))"
  have e: "sem_wait_kernel = t_unlock_cpu ?b"
    by (simp add: sem_wait_kernel_def wai_sem_def tsk_call_def run_kernel_sel CHECK_DISPATCH_def Let_def
        VALID_SEMID_def sample_cfg_def INDEX_SEM_def t_lock_cpu_def run_kernel_objects wobj_make_wait_eq)
      (simp add: idle_kernel_def)
  have "intctx ?b = intctx run_kernel" by (rule objectsD) simp
  then show "CHECK_TSKCTX_UNL sem_wait_kernel"
    by (simp add: e CHECK_TSKCTX_UNL_def t_unlock_cpu_def run_kernel_sel)
  show "queues sem_wait_kernel (WaitQ (SEM 0)) = [0]"
    by (simp add: e t_unlock_cpu_def dispatch_def run_kernel_sel t_lock_cpu_def queue_simps)
  show "kinv sem_wait_kernel"
    unfolding sem_wait_kernel_def by (rule kinv_sem_calls(5)[OF kinv_run_kernel run_kernel_sel(3)])
  show "sem_inv sample_cfg sem_wait_kernel"
    unfolding sem_wait_kernel_def by (rule sem_calls_inv(5)[OF sem_inv_run_kernel])
qed

text \<open>
  C19: every service call on semaphores, on every branch, keeps the kernel invariant (queues, ready
  bitmap, scheduled and running task, timeouts) and the invariant of the semaphores: the count
  never exceeds the maximum, tasks wait only at existing semaphores with count zero, and free
  control blocks are not in use.
\<close>

theorem semaphore_calls_keep_inv:
  assumes "kinv s" and "sem_inv cfg s" and "p_runtsk s = Some p"
  shows "\<forall>s' \<in> {snd (acre_sem cfg pk s), snd (del_sem cfg semid s), snd (sig_sem cfg semid s),
      snd (isig_sem cfg semid s), snd (wai_sem cfg semid s), snd (pol_sem cfg semid s),
      snd (twai_sem cfg semid tmout s), snd (ini_sem cfg semid s), snd (ref_sem cfg semid s)}.
    kinv s' \<and> sem_inv cfg s'"
  using kinv_sem_calls[OF assms(1)] assms(3) kinv_sem_init[OF assms(1)] sem_calls_inv[OF assms(2)]
    sem_init_inv[OF assms(2,1)] acre_sem_inv[OF assms(2,1)]
  by simp

theorem semaphore_calls_keep_inv_witness:
  "kinv (snd (twai_sem sample_cfg 1 10 run_kernel)) \<and> sem_inv sample_cfg (snd (twai_sem sample_cfg 1 10 run_kernel))"
  using semaphore_calls_keep_inv[OF kinv_run_kernel sem_inv_run_kernel run_kernel_sel(3), of _ 1 10] by blast

text \<open>
  C20: when tasks wait, \<open>sig_sem\<close> returns \<open>E_OK\<close> and releases exactly the first task of the wait
  queue: it leaves the queue, its service call returns \<open>E_OK\<close>, its timeout is cancelled, and the
  count and the order of the other waiters stay as they were. In a semaphore with attribute
  \<open>TA_TPRI\<close> the released task has the highest priority among the waiters.
\<close>

theorem sig_sem_wakes_first:
  assumes "kinv s" and "CHECK_TSKCTX_UNL s" and "VALID_SEMID cfg semid" and "i = INDEX_SEM semid"
    and "sematr (p_seminib (semcb s i)) \<noteq> TA_NOEXS" and "queues s (WaitQ (SEM i)) = p # ps"
    and "s' = snd (sig_sem cfg semid s)"
  shows "fst (sig_sem cfg semid s) = Ret E_OK \<and> queues s' (WaitQ (SEM i)) = ps \<and>
    result_of (Wait_ercd p) s' = Some E_OK \<and> \<not> TSTAT_WAITING (tstat (tcb s' p)) \<and>
    evts (tme s') (TskTmevtb p) = None \<and> semcb s' = semcb s \<and>
    (sematr (p_seminib (semcb s i)) AND TA_TPRI \<noteq> 0 \<longrightarrow> (\<forall>q \<in> set ps. tskpri s p \<le> tskpri s q))"
proof -
  let ?s = "t_lock_cpu s" and ?q = "WaitQ (SEM i)"
  have t: "tsk_inv ?s" "tsk_inv s" using kinvD(1)[OF assms(1)] by simp_all
  have sel: "queues ?s = queues s" "semcb ?s = semcb s" "tcb ?s = tcb s" by (simp_all add: t_lock_cpu_def)
  have r: "sig_sem cfg semid s =
      (Ret E_OK, t_unlock_cpu (dispatch_if (wait_complete p (?s\<lparr>queues := (queues ?s)(?q := ps)\<rparr>))))"
    using assms(2-6) by (simp add: sig_sem_def tsk_call_def sel q_empty_def q_delete_next_def Let_def)
  have w: "TSTAT_WAITING (tstat (tcb ?s p))"
    using waitq_waiting(1)[OF t(1), of p ?q] assms(6) by (simp add: sel is_waitq_def)
  have s': "s' = t_unlock_cpu (dispatch_if (release E_OK (tm_dequeued p ?s) p ?s))"
    unfolding assms(7) r using wait_complete_release[OF t(1), of ?q p ps] assms(6) by (simp add: sel)
  note d = tm_dequeued_without[OF t(1) w]
  have o: "objects s' = objects s" by (simp add: s')
  have f: "tcb s' = (tcb s)(p := released E_OK (tcb s p))" "tme s' = tm_dequeued p ?s"
    "queues s' ?q = remove1 p (queues s ?q)"
    by (simp_all add: s' t_unlock_cpu_def dispatch_if_def dispatch_def sel queue_simps)
  have "sorted (map (tskpri s) (p # ps))" if "sematr (p_seminib (semcb s i)) AND TA_TPRI \<noteq> 0"
    using tsk_invD(6)[OF t(2), of "SEM i"] that assms(6) by (simp add: wobjatr_def)
  then show ?thesis
    using d objectsD(8)[OF o] assms(6)
    by (auto simp: r f result_of_def TSTAT_defs tm_without_def)
qed

theorem sig_sem_wakes_first_witness:
  "fst (sig_sem sample_cfg 1 sem_wait_kernel) = Ret E_OK \<and>
    result_of (Wait_ercd 0) (snd (sig_sem sample_cfg 1 sem_wait_kernel)) = Some E_OK"
proof -
  have "sematr (p_seminib (semcb sem_wait_kernel 0)) \<noteq> TA_NOEXS"
    using sem_invD(2)[OF sem_wait_kernel_sel(4), of 0] sem_wait_kernel_sel(1) by simp
  then show ?thesis
    using sig_sem_wakes_first[OF sem_wait_kernel_sel(3,2), of sample_cfg 1 0 0 "[]", OF _ _ _ _ refl]
      sem_wait_kernel_sel(1) by (simp add: VALID_SEMID_def sample_cfg_def INDEX_SEM_def)
qed

end
