(* ===== verification/Asp_Mutex.thy ===== *)
theory Asp_Mutex
  imports Asp_Service
begin

text \<open>
  Mutexes with the priority ceiling protocol, \<^verbatim>\<open>kernel/mutex.c\<close>. The invariant \<open>mtx_inv\<close> says that
  the list of mutexes a task has locked agrees with the owners in the mutex control blocks, that
  tasks wait only for locked mutexes, and that the current priority of every task is the highest of
  its base priority and the ceilings of the mutexes it has locked.
\<close>

section \<open>Operations\<close>

definition tnum_mtx :: "kernel_cfg \<Rightarrow> nat" where "tnum_mtx cfg = nat (tmax_mtxid cfg)"
definition tnum_smtx :: "kernel_cfg \<Rightarrow> nat" where "tnum_smtx cfg = nat (tmax_smtxid cfg)"
definition INDEX_MTX :: "ID \<Rightarrow> nat" where "INDEX_MTX mtxid = nat (mtxid - 1)"
definition MTXID :: "nat \<Rightarrow> ID" where "MTXID i = int i + 1"

definition VALID_MTXID :: "kernel_cfg \<Rightarrow> ID \<Rightarrow> bool" where
  "VALID_MTXID cfg mtxid \<longleftrightarrow> 1 \<le> mtxid \<and> mtxid \<le> tmax_mtxid cfg"

abbreviation upd_mtx :: "nat \<Rightarrow> (MTXCB \<Rightarrow> MTXCB) \<Rightarrow> kernel \<Rightarrow> kernel" where
  "upd_mtx i g s \<equiv> s\<lparr>mtxcb := (mtxcb s)(i := g (mtxcb s i))\<rparr>"

abbreviation mtx_ceilpri :: "kernel \<Rightarrow> nat \<Rightarrow> nat" where
  "mtx_ceilpri s i \<equiv> ceilpri (p_mtxinib (mtxcb s i))"

definition MTX_CEILING :: "kernel \<Rightarrow> nat \<Rightarrow> bool" where
  "MTX_CEILING s i \<longleftrightarrow> mtxatr (p_mtxinib (mtxcb s i)) AND 0x03 = TA_CEILING"

definition initialize_mutex :: "kernel_cfg \<Rightarrow> kernel \<Rightarrow> kernel" where
  "initialize_mutex cfg s =
    (let s = fold (\<lambda>i s.
               let s = s\<lparr>queues := q_initialize (WaitQ (MTX i)) (queues s)\<rparr>;
                   s = upd_mtx i (\<lambda>c. c\<lparr>p_mtxinib := mtxinib_table cfg i\<rparr>) s
               in upd_mtx i (\<lambda>c. c\<lparr>p_loctsk := None\<rparr>) s)
             [0..<tnum_smtx cfg] s;
         s = s\<lparr>free_mtxcb := []\<rparr>
     in fold (\<lambda>i s.
          let s = upd_mtx i (\<lambda>c. c\<lparr>p_mtxinib := (p_mtxinib c)\<lparr>mtxatr := TA_NOEXS\<rparr>\<rparr>) s
          in s\<lparr>free_mtxcb := free_mtxcb s @ [i]\<rparr>)
        [tnum_smtx cfg..<tnum_mtx cfg] s)"

text \<open>The loops over the queue of mutexes a task has locked, as recursion over that list.\<close>

primrec check_ceilpri_loop :: "kernel \<Rightarrow> nat \<Rightarrow> nat list \<Rightarrow> bool" where
  "check_ceilpri_loop s bpri [] = True"
| "check_ceilpri_loop s bpri (i # is) =
    (if MTX_CEILING s i \<and> bpri < mtx_ceilpri s i then False else check_ceilpri_loop s bpri is)"

definition mutex_check_ceilpri :: "tsk \<Rightarrow> nat \<Rightarrow> kernel \<Rightarrow> bool" where
  "mutex_check_ceilpri p_tcb bpri s =
    (if \<not> check_ceilpri_loop s bpri (mtxqs s p_tcb) then False
     else if TSTAT_WAIT_MTX (tstat (tcb s p_tcb))
     then (case p_wobjcb (p_winfo (tcb s p_tcb)) of
             MTX i \<Rightarrow> \<not> (MTX_CEILING s i \<and> bpri < mtx_ceilpri s i)
           | _ \<Rightarrow> True)
     else True)"

primrec scan_ceilmtx_loop :: "kernel \<Rightarrow> nat list \<Rightarrow> bool" where
  "scan_ceilmtx_loop s [] = False"
| "scan_ceilmtx_loop s (i # is) = (if MTX_CEILING s i then True else scan_ceilmtx_loop s is)"

definition mutex_scan_ceilmtx :: "tsk \<Rightarrow> kernel \<Rightarrow> bool" where
  "mutex_scan_ceilmtx p_tcb s = scan_ceilmtx_loop s (mtxqs s p_tcb)"

primrec calc_priority_loop :: "kernel \<Rightarrow> nat \<Rightarrow> nat list \<Rightarrow> nat" where
  "calc_priority_loop s pri [] = pri"
| "calc_priority_loop s pri (i # is) =
    calc_priority_loop s (if MTX_CEILING s i \<and> mtx_ceilpri s i < pri then mtx_ceilpri s i else pri) is"

definition mutex_calc_priority :: "tsk \<Rightarrow> kernel \<Rightarrow> nat" where
  "mutex_calc_priority p_tcb s = calc_priority_loop s (bpriority (tcb s p_tcb)) (mtxqs s p_tcb)"

definition mutex_raise_priority :: "tsk \<Rightarrow> nat \<Rightarrow> kernel \<Rightarrow> bool \<times> kernel" where
  "mutex_raise_priority p_tcb newpri s =
    (if newpri < tskpri s p_tcb then change_priority p_tcb newpri True s else (False, s))"

definition mutex_drop_priority :: "tsk \<Rightarrow> nat \<Rightarrow> kernel \<Rightarrow> bool \<times> kernel" where
  "mutex_drop_priority p_tcb oldpri s =
    (if oldpri = tskpri s p_tcb
     then (let newpri = mutex_calc_priority p_tcb s
           in if newpri \<noteq> tskpri s p_tcb then change_priority p_tcb newpri True s else (False, s))
     else (False, s))"

definition mutex_acquire :: "tsk \<Rightarrow> nat \<Rightarrow> kernel \<Rightarrow> bool \<times> kernel" where
  "mutex_acquire loctsk i s =
    (let s = upd_mtx i (\<lambda>c. c\<lparr>p_loctsk := Some loctsk\<rparr>) s;
         s = s\<lparr>mtxqs := q_insert_next loctsk i (mtxqs s)\<rparr>
     in if MTX_CEILING s i then mutex_raise_priority loctsk (mtx_ceilpri s i) s else (False, s))"

definition mutex_release :: "nat \<Rightarrow> kernel \<Rightarrow> bool \<times> kernel" where
  "mutex_release i s =
    (if q_empty (WaitQ (MTX i)) (queues s)
     then (False, upd_mtx i (\<lambda>c. c\<lparr>p_loctsk := None\<rparr>) s)
     else (let (p_tcb, f) = q_delete_next (WaitQ (MTX i)) (queues s);
               s = s\<lparr>queues := f\<rparr>;
               s = wait_dequeue_tmevtb p_tcb s;
               s = set_wercd p_tcb E_OK s;
               s = upd_mtx i (\<lambda>c. c\<lparr>p_loctsk := Some p_tcb\<rparr>) s;
               s = s\<lparr>mtxqs := q_insert_prev p_tcb i (mtxqs s)\<rparr>;
               s = (if MTX_CEILING s i \<and> mtx_ceilpri s i < tskpri s p_tcb
                    then upd_tcb p_tcb (\<lambda>t. t\<lparr>priority := mtx_ceilpri s i\<rparr>) s else s)
           in make_non_wait p_tcb s))"

lemma mutex_release_mtxqs:
  "mtxqs (snd (mutex_release i s)) =
    (if queues s (WaitQ (MTX i)) = [] then mtxqs s
     else q_insert_prev (hd (queues s (WaitQ (MTX i)))) i (mtxqs s))"
  by (simp add: mutex_release_def Let_def queue_simps objectsD(1)[OF objects_wait(3)] objectsD(1)[OF objects_wait(5)])

lemma mutex_release_waitq:
  "is_waitq q \<Longrightarrow> queues (snd (mutex_release i s)) q =
    (if q = WaitQ (MTX i) then tl (queues s q) else queues s q)"
  by (auto simp: mutex_release_def Let_def queue_simps make_non_wait_queues is_waitq_def split: qhead.splits)

text \<open>
  Releasing every mutex of a task. A released mutex may go to a task that waits for it, and then
  the wait queue of that mutex gets shorter; so the loop ends on every state.
\<close>

definition release_measure :: "tsk \<Rightarrow> kernel \<Rightarrow> nat" where
  "release_measure p s = sum_list (map (\<lambda>i. 1 + length (queues s (WaitQ (MTX i)))) (mtxqs s p))"

lemma sum_list_remove1: "i \<in> set xs \<Longrightarrow> sum_list (map (f :: 'a \<Rightarrow> nat) (remove1 i xs)) + f i = sum_list (map f xs)"
  by (induction xs) auto

lemma mutex_release_measure:
  assumes "mtxqs s p = i # is"
  shows "release_measure p (snd (mutex_release i (s\<lparr>mtxqs := q_delete i (mtxqs s)\<rparr>))) < release_measure p s"
proof -
  let ?s = "s\<lparr>mtxqs := q_delete i (mtxqs s)\<rparr>" and ?q = "\<lambda>j. queues s (WaitQ (MTX j))"
  let ?s' = "snd (mutex_release i ?s)"
  have q: "queues ?s' (WaitQ (MTX j)) = (if j = i then tl (?q j) else ?q j)" for j
    by (simp add: mutex_release_waitq is_waitq_def)
  have m: "mtxqs ?s' p = (if ?q i \<noteq> [] \<and> hd (?q i) = p then is @ [i] else is)"
    using assms by (simp add: mutex_release_mtxqs queue_simps)
  have "sum_list (map (\<lambda>j. 1 + length (queues ?s' (WaitQ (MTX j)))) is) \<le>
      sum_list (map (\<lambda>j. 1 + length (?q j)) is)"
    by (intro sum_list_mono) (simp add: q)
  moreover have "sum_list (map (\<lambda>j. 1 + length (queues ?s' (WaitQ (MTX j)))) (mtxqs ?s' p)) \<le>
      sum_list (map (\<lambda>j. 1 + length (queues ?s' (WaitQ (MTX j)))) is) + length (?q i)"
    by (cases "?q i") (simp_all add: m q)
  ultimately show ?thesis unfolding release_measure_def assms by simp
qed

function mutex_release_all :: "tsk \<Rightarrow> kernel \<Rightarrow> bool \<times> kernel" where
  "mutex_release_all p_tcb s =
    (if \<not> q_empty p_tcb (mtxqs s)
     then (let i = hd (mtxqs s p_tcb);
               s = s\<lparr>mtxqs := q_delete i (mtxqs s)\<rparr>;
               (d, s) = mutex_release i s;
               (dspreq, s) = mutex_release_all p_tcb s
           in (d \<or> dspreq, s))
     else (False, s))"
  by pat_completeness auto
termination
proof (relation "measure (\<lambda>(p, s). release_measure p s)")
  fix p s i s1 r d s2
  assume "\<not> q_empty p (mtxqs s)" "i = hd (mtxqs s p)" "s1 = s\<lparr>mtxqs := q_delete i (mtxqs s)\<rparr>"
    "r = mutex_release i s1" "(d, s2) = r"
  then show "((p, s2), p, s) \<in> measure (\<lambda>(p, s). release_measure p s)"
    using mutex_release_measure[of s p i "tl (mtxqs s p)"] by (auto simp: q_empty_def dest: arg_cong[where f = snd])
qed simp

declare mutex_release_all.simps [simp del]

text \<open>One round of the loop.\<close>

definition release_all_round :: "tsk \<Rightarrow> kernel \<Rightarrow> bool \<times> kernel" where
  "release_all_round p s = mutex_release (hd (mtxqs s p)) (s\<lparr>mtxqs := q_delete (hd (mtxqs s p)) (mtxqs s)\<rparr>)"

lemma mutex_release_all_round:
  "mutex_release_all p s =
    (if mtxqs s p \<noteq> []
     then (fst (release_all_round p s) \<or> fst (mutex_release_all p (snd (release_all_round p s))),
           snd (mutex_release_all p (snd (release_all_round p s))))
     else (False, s))"
  by (subst mutex_release_all.simps) (simp add: release_all_round_def Let_def q_empty_def case_prod_beta)

lemma release_all_induct [case_names empty round]:
  assumes "\<And>s. mtxqs s p = [] \<Longrightarrow> P s"
    and "\<And>s. mtxqs s p \<noteq> [] \<Longrightarrow> P (snd (release_all_round p s)) \<Longrightarrow> P s"
  shows "P s"
proof (induction "release_measure p s" arbitrary: s rule: less_induct)
  case less
  show ?case
  proof (cases "mtxqs s p")
    case (Cons i "is")
    then have "release_measure p (snd (release_all_round p s)) < release_measure p s"
      using mutex_release_measure[OF Cons] by (simp add: release_all_round_def)
    from less[OF this] show ?thesis using assms(2)[of s] Cons by simp
  qed (rule assms(1))
qed


section \<open>Service calls\<close>

text \<open>The packet of \<open>acre_mtx\<close> holds the ceiling in its external representation.\<close>

record T_CMTX =
  cmtx_mtxatr :: ATR
  cmtx_ceilpri :: PRI

definition acre_mtx :: "kernel_cfg \<Rightarrow> T_CMTX \<Rightarrow> kernel \<Rightarrow> result \<times> kernel" where
  "acre_mtx cfg pk_cmtx s =
    (if \<not> CHECK_TSKCTX_UNL s then (Ret E_CTX, s)
     else if \<not> VALID_TPRI (cmtx_ceilpri pk_cmtx) then (Ret E_PAR, s)
     else tsk_call (\<lambda>s.
       if tnum_mtx cfg = 0 \<or> free_mtxcb s = [] then (Ret E_NOID, s)
       else (let i = hd (free_mtxcb s);
                 s = s\<lparr>free_mtxcb := tl (free_mtxcb s)\<rparr>;
                 s = upd_mtx i (\<lambda>c. c\<lparr>p_mtxinib := (p_mtxinib c)\<lparr>mtxatr := cmtx_mtxatr pk_cmtx,
                       ceilpri := nat (cmtx_ceilpri pk_cmtx)\<rparr>\<rparr>) s;
                 s = s\<lparr>queues := q_initialize (WaitQ (MTX i)) (queues s)\<rparr>;
                 s = upd_mtx i (\<lambda>c. c\<lparr>p_loctsk := None\<rparr>) s
             in (Ret (MTXID i), s))) s)"

definition del_mtx :: "kernel_cfg \<Rightarrow> ID \<Rightarrow> kernel \<Rightarrow> result \<times> kernel" where
  "del_mtx cfg mtxid s =
    (if \<not> CHECK_TSKCTX_UNL s then (Ret E_CTX, s)
     else if \<not> VALID_MTXID cfg mtxid then (Ret E_ID, s)
     else let i = INDEX_MTX mtxid in tsk_call (\<lambda>s.
       if mtxatr (p_mtxinib (mtxcb s i)) = TA_NOEXS then (Ret E_NOEXS, s)
       else if MTXID i > tmax_smtxid cfg
       then (let (dspreq, s) = init_wait_queue (WaitQ (MTX i)) s;
                 s = upd_mtx i (\<lambda>c. c\<lparr>p_mtxinib := (p_mtxinib c)\<lparr>mtxatr := TA_NOEXS\<rparr>\<rparr>) s;
                 s = s\<lparr>free_mtxcb := free_mtxcb s @ [i]\<rparr>
             in (Ret E_OK, dispatch_if (dspreq, s)))
       else (Ret E_OBJ, s)) s)"

definition loc_mtx :: "kernel_cfg \<Rightarrow> ID \<Rightarrow> kernel \<Rightarrow> result \<times> kernel" where
  "loc_mtx cfg mtxid s =
    (if \<not> CHECK_DISPATCH s then (Ret E_CTX, s)
     else if \<not> VALID_MTXID cfg mtxid then (Ret E_ID, s)
     else let i = INDEX_MTX mtxid in tsk_call (\<lambda>s.
       if mtxatr (p_mtxinib (mtxcb s i)) = TA_NOEXS then (Ret E_NOEXS, s)
       else if MTX_CEILING s i \<and> bpriority (tcb s (runtsk s)) < mtx_ceilpri s i then (Ret E_ILUSE, s)
       else if p_loctsk (mtxcb s i) = None then (Ret E_OK, snd (mutex_acquire (runtsk s) i s))
       else if p_loctsk (mtxcb s i) = p_runtsk s then (Ret E_OBJ, s)
       else (let s = set_tstat (runtsk s) (TS_WAITING OR TS_WAIT_MTX) s;
                 s = wobj_make_wait (MTX i) s
             in (Wait_ercd (runtsk s), dispatch s))) s)"

definition ploc_mtx :: "kernel_cfg \<Rightarrow> ID \<Rightarrow> kernel \<Rightarrow> result \<times> kernel" where
  "ploc_mtx cfg mtxid s =
    (if \<not> CHECK_TSKCTX_UNL s then (Ret E_CTX, s)
     else if \<not> VALID_MTXID cfg mtxid then (Ret E_ID, s)
     else let i = INDEX_MTX mtxid in tsk_call (\<lambda>s.
       if mtxatr (p_mtxinib (mtxcb s i)) = TA_NOEXS then (Ret E_NOEXS, s)
       else if MTX_CEILING s i \<and> bpriority (tcb s (runtsk s)) < mtx_ceilpri s i then (Ret E_ILUSE, s)
       else if p_loctsk (mtxcb s i) = None then (Ret E_OK, snd (mutex_acquire (runtsk s) i s))
       else if p_loctsk (mtxcb s i) = p_runtsk s then (Ret E_OBJ, s)
       else (Ret E_TMOUT, s)) s)"

definition tloc_mtx :: "kernel_cfg \<Rightarrow> ID \<Rightarrow> TMO \<Rightarrow> kernel \<Rightarrow> result \<times> kernel" where
  "tloc_mtx cfg mtxid tmout s =
    (if \<not> CHECK_DISPATCH s then (Ret E_CTX, s)
     else if \<not> VALID_MTXID cfg mtxid then (Ret E_ID, s)
     else if \<not> CHECK_TMOUT tmout then (Ret E_PAR, s)
     else let i = INDEX_MTX mtxid in tsk_call (\<lambda>s.
       if mtxatr (p_mtxinib (mtxcb s i)) = TA_NOEXS then (Ret E_NOEXS, s)
       else if MTX_CEILING s i \<and> bpriority (tcb s (runtsk s)) < mtx_ceilpri s i then (Ret E_ILUSE, s)
       else if p_loctsk (mtxcb s i) = None then (Ret E_OK, snd (mutex_acquire (runtsk s) i s))
       else if p_loctsk (mtxcb s i) = p_runtsk s then (Ret E_OBJ, s)
       else if tmout = TMO_POL then (Ret E_TMOUT, s)
       else (let s = set_tstat (runtsk s) (TS_WAITING OR TS_WAIT_MTX) s;
                 s = wobj_make_wait_tmout (MTX i) tmout s
             in (Wait_ercd (runtsk s), dispatch s))) s)"

definition unl_mtx :: "kernel_cfg \<Rightarrow> ID \<Rightarrow> kernel \<Rightarrow> result \<times> kernel" where
  "unl_mtx cfg mtxid s =
    (if \<not> CHECK_TSKCTX_UNL s then (Ret E_CTX, s)
     else if \<not> VALID_MTXID cfg mtxid then (Ret E_ID, s)
     else let i = INDEX_MTX mtxid in tsk_call (\<lambda>s.
       if mtxatr (p_mtxinib (mtxcb s i)) = TA_NOEXS then (Ret E_NOEXS, s)
       else if p_loctsk (mtxcb s i) \<noteq> p_runtsk s then (Ret E_OBJ, s)
       else (let s = s\<lparr>mtxqs := q_delete i (mtxqs s)\<rparr>;
                 (d1, s) = (if MTX_CEILING s i then mutex_drop_priority (runtsk s) (mtx_ceilpri s i) s
                            else (False, s));
                 (d2, s) = mutex_release i s
             in (Ret E_OK, dispatch_if (d1 \<or> d2, s)))) s)"

definition ini_mtx :: "kernel_cfg \<Rightarrow> ID \<Rightarrow> kernel \<Rightarrow> result \<times> kernel" where
  "ini_mtx cfg mtxid s =
    (if \<not> CHECK_TSKCTX_UNL s then (Ret E_CTX, s)
     else if \<not> VALID_MTXID cfg mtxid then (Ret E_ID, s)
     else let i = INDEX_MTX mtxid in tsk_call (\<lambda>s.
       let (d1, s) = init_wait_queue (WaitQ (MTX i)) s;
           (d2, s) = (case p_loctsk (mtxcb s i) of
               None \<Rightarrow> (False, s)
             | Some loctsk \<Rightarrow>
                 (let s = s\<lparr>mtxqs := q_delete i (mtxqs s)\<rparr>;
                      s = upd_mtx i (\<lambda>c. c\<lparr>p_loctsk := None\<rparr>) s
                  in if MTX_CEILING s i then mutex_drop_priority loctsk (mtx_ceilpri s i) s
                     else (False, s)))
       in (Ret E_OK, dispatch_if (d1 \<or> d2, s))) s)"

record T_RMTX =
  rmtx_htskid :: ID
  rmtx_wtskid :: ID

definition ref_mtx :: "kernel_cfg \<Rightarrow> ID \<Rightarrow> kernel \<Rightarrow> (result \<times> T_RMTX option) \<times> kernel" where
  "ref_mtx cfg mtxid s =
    (if \<not> CHECK_TSKCTX_UNL s then ((Ret E_CTX, None), s)
     else if \<not> VALID_MTXID cfg mtxid then ((Ret E_ID, None), s)
     else let i = INDEX_MTX mtxid in tsk_call (\<lambda>s.
       if mtxatr (p_mtxinib (mtxcb s i)) = TA_NOEXS then ((Ret E_NOEXS, None), s)
       else ((Ret E_OK, Some \<lparr>rmtx_htskid = (case p_loctsk (mtxcb s i) of
                 Some p \<Rightarrow> TSKID p | None \<Rightarrow> TSK_NONE),
               rmtx_wtskid = wait_tskid (WaitQ (MTX i)) s\<rparr>), s)) s)"

section \<open>The kernel invariant\<close>

lemma wobjatr_mtxcb:
  "(\<And>i. mtxatr (p_mtxinib (c i)) = mtxatr (p_mtxinib (mtxcb s i))) \<Longrightarrow>
    wobjatr (s\<lparr>mtxcb := c\<rparr>) = wobjatr s"
  by (rule ext) (simp add: wobjatr_def split: wobj.split)

lemma wobjatr_mtx_other: "w \<noteq> MTX i \<Longrightarrow> wobjatr (s\<lparr>mtxcb := (mtxcb s)(i := c)\<rparr>) w = wobjatr s w"
  by (simp add: wobjatr_def split: wobj.split)

lemma wobjatr_free_mtxcb [simp]: "wobjatr (s\<lparr>free_mtxcb := l\<rparr>) = wobjatr s"
  by (rule ext) (simp add: wobjatr_def split: wobj.split)

text \<open>The owner of a mutex and the lists of locked mutexes are not part of the task invariant.\<close>

lemma winv_mtx [simp]:
  "winv (s\<lparr>mtxqs := q\<rparr>) = winv s" "kinv (s\<lparr>mtxqs := q\<rparr>) = kinv s"
  "winv (s\<lparr>mtxcb := (mtxcb s)(i := (mtxcb s i)\<lparr>p_loctsk := r\<rparr>)\<rparr>) = winv s"
  "kinv (s\<lparr>mtxcb := (mtxcb s)(i := (mtxcb s i)\<lparr>p_loctsk := r\<rparr>)\<rparr>) = kinv s"
  by (rule kinv_same; simp add: wobjatr_mtxcb)+


lemma calc_priority_loop_le: "calc_priority_loop s pri is \<le> pri"
proof (induction "is" arbitrary: pri)
  case (Cons i "is")
  show ?case using Cons[of "if MTX_CEILING s i \<and> mtx_ceilpri s i < pri then mtx_ceilpri s i else pri"]
    by (auto split: if_splits)
qed simp

lemma exists_pri:
  assumes "winv s" and "tskatr (p_tinib (tcb s p)) \<noteq> TA_NOEXS"
  shows "tskpri s p < TNUM_TPRI" and "bpriority (tcb s p) < TNUM_TPRI" and "ipriority (p_tinib (tcb s p)) < TNUM_TPRI"
  using tsk_invD(3)[OF winvD(1)[OF assms(1)], of p] assms(2) by (simp_all add: tcb_ok_def)

lemma mutex_drop_op_ok:
  assumes "winv s" and "tskatr (p_tinib (tcb s p)) \<noteq> TA_NOEXS"
  shows "op_ok s (mutex_drop_priority p old s)"
proof -
  have "mutex_calc_priority p s < TNUM_TPRI"
    unfolding mutex_calc_priority_def
    by (rule le_less_trans[OF calc_priority_loop_le exists_pri(2)[OF assms]])
  then show ?thesis
    using change_priority_op_ok[OF assms] by (simp add: mutex_drop_priority_def Let_def op_ok_refl assms(1))
qed

lemma mutex_raise_op_ok:
  assumes "winv s" and "tskatr (p_tinib (tcb s p)) \<noteq> TA_NOEXS"
  shows "op_ok s (mutex_raise_priority p new s)"
  using change_priority_op_ok[OF assms, of new] exists_pri(1)[OF assms]
  by (simp add: mutex_raise_priority_def op_ok_refl assms(1))

lemma op_ok_before:
  "op_ok s0 r \<Longrightarrow> p_schedtsk s0 = p_schedtsk s \<Longrightarrow> p_runtsk s0 = p_runtsk s \<Longrightarrow> reqflg s0 = reqflg s \<Longrightarrow>
    dspflg s0 = dspflg s \<Longrightarrow> op_ok s r"
  by (simp add: op_ok_def)

lemma mutex_acquire_op_ok:
  assumes "winv s" and "tskatr (p_tinib (tcb s p)) \<noteq> TA_NOEXS"
  shows "op_ok s (mutex_acquire p i s)"
proof -
  let ?s = "s\<lparr>mtxcb := (mtxcb s)(i := (mtxcb s i)\<lparr>p_loctsk := Some p\<rparr>), mtxqs := q_insert_next p i (mtxqs s)\<rparr>"
  have w: "winv ?s" using assms(1) by simp
  have "op_ok ?s (mutex_acquire p i s)"
    using mutex_raise_op_ok[OF w, of p] assms(2) op_ok_refl[OF w]
    by (simp add: mutex_acquire_def Let_def)
  then show ?thesis by (rule op_ok_before) simp_all
qed

text \<open>A first waiter may be given a higher priority in place: the order of the queue stays.\<close>

lemma tsk_inv_raise_first:
  assumes "tsk_inv s" and "queues s (WaitQ w) = p # ps" and "c \<le> tskpri s p"
  shows "tsk_inv (upd_tcb p (\<lambda>t. t\<lparr>priority := c\<rparr>) s)"
proof -
  let ?s = "upd_tcb p (\<lambda>t. t\<lparr>priority := c\<rparr>) s" and ?t = "(tcb s p)\<lparr>priority := c\<rparr>"
  have wt: "TSTAT_WAITING (tstat (tcb s p))"
    using waitq_waiting(1)[OF assms(1), of p "WaitQ w"] assms(2) by (simp add: is_waitq_def)
  have ok: "tcb_ok p (tcb s p)" by (rule tsk_invD(3)[OF assms(1)])
  have nr: "\<not> TSTAT_RUNNABLE (tstat (tcb s p))" using ok tstat_ok_excl(2) wt by (auto simp: tcb_ok_def)
  have ex: "tskatr (p_tinib (tcb s p)) \<noteq> TA_NOEXS" by (rule waiting_exists[OF assms(1) waiting_not_dormant[OF wt]])
  have pl: "task_place ?t = task_place (tcb s p)" using nr by (simp add: task_place_def)
  have place: "task_place (tcb s p) = Some (WaitQ w)" using tsk_invD(5)[OF assms(1), of p "WaitQ w"] assms(2) by simp
  have r: "ready_ok ?s"
    by (rule ready_ok_other[OF tsk_invD(1)[OF assms(1)]])
      (use tsk_invD(7)[OF assms(1)] waiting_not_ready[OF assms(1) nr] in auto)
  show ?thesis
  proof (rule tsk_inv_one[OF assms(1) r, where p = p and t = ?t])
    show "tcb_ok p ?t" using ok ex assms(3) by (auto simp: tcb_ok_def pl)
    show "tmout_ok p ?t (tme ?s)" using tsk_invD(4)[OF assms(1), of p] by (simp add: tmout_ok_def timed_def)
    show "p \<in> set (queues ?s h) \<longleftrightarrow> task_place ?t = Some h" for h
      using tsk_invD(5)[OF assms(1), of p] by (simp add: pl)
    fix v assume v: "task_place ?t = Some (WaitQ v)" "wobjatr s v AND TA_TPRI \<noteq> 0"
    have "sorted (map (tskpri s) (p # ps))" using tsk_invD(6)[OF assms(1) v(2)] v(1) place pl assms(2) by simp
    moreover have "p \<notin> set ps" using queues_okD(1)[OF tsk_invD(7)[OF assms(1)], of "WaitQ w"] assms(2) by simp
    moreover have "v = w" using v(1) pl place by simp
    moreover have "p \<notin> set ps \<Longrightarrow> map (tskpri ?s) ps = map (tskpri s) ps" by auto
    ultimately show "sorted (map (tskpri ?s) (queues ?s (WaitQ v)))"
      using assms(2,3) by (simp del: map_eq_conv) (auto intro: order_trans)
  qed (use tsk_invD(2)[OF assms(1)] in simp_all)
qed

lemma mutex_release_release:
  assumes "winv s" and "queues s (WaitQ (MTX i)) = p # ps"
    and "c = (if MTX_CEILING s i \<and> mtx_ceilpri s i < tskpri s p then mtx_ceilpri s i else tskpri s p)"
    and "s0 = s\<lparr>tcb := (tcb s)(p := (tcb s p)\<lparr>priority := c\<rparr>), mtxqs := q_insert_prev p i (mtxqs s),
      mtxcb := (mtxcb s)(i := (mtxcb s i)\<lparr>p_loctsk := Some p\<rparr>)\<rparr>"
  shows "mutex_release i s = release E_OK (tm_dequeued p s) p s0"
proof -
  have tm: "tm_dequeued p (s\<lparr>queues := q_delete p (queues s)\<rparr>) = tm_dequeued p s"
    by (rule tm_dequeued_cong) simp_all
  have q: "(queues s)(WaitQ (MTX i) := ps) = q_delete p (queues s)"
    by (rule q_delete_next_eq[OF tsk_invD(7)[OF winvD(1)[OF assms(1)]] assms(2)])
  have c: "MTX_CEILING (s'\<lparr>mtxcb := (mtxcb s)(i := (mtxcb s i)\<lparr>p_loctsk := r\<rparr>), mtxqs := m\<rparr>) i = MTX_CEILING s i"
    for s' r m by (simp add: MTX_CEILING_def)
  show ?thesis
    unfolding mutex_release_def release_def assms(4) using assms(2)
    by (simp add: q_empty_def q_delete_next_def q wait_dequeue_tmevtb_eq tm c Let_def assms(3))
      (auto intro!: arg_cong[where f = "make_non_wait p"] kernel.equality)
qed

lemma mutex_release_op_ok:
  assumes "winv s"
  shows "op_ok s (mutex_release i s)"
proof (cases "queues s (WaitQ (MTX i))")
  case Nil
  then show ?thesis using assms by (simp add: mutex_release_def q_empty_def op_ok_def)
next
  case (Cons p ps)
  define c where "c = (if MTX_CEILING s i \<and> mtx_ceilpri s i < tskpri s p then mtx_ceilpri s i else tskpri s p)"
  define s1 where "s1 = s\<lparr>tcb := (tcb s)(p := (tcb s p)\<lparr>priority := c\<rparr>)\<rparr>"
  define s0 where "s0 = s1\<lparr>mtxqs := q_insert_prev p i (mtxqs s),
      mtxcb := (mtxcb s)(i := (mtxcb s i)\<lparr>p_loctsk := Some p\<rparr>)\<rparr>"
  have "tsk_inv s1"
    unfolding s1_def by (rule tsk_inv_raise_first[OF winvD(1)[OF assms] Cons]) (simp add: c_def)
  then have "winv s1" using winvD(2)[OF assms] by (auto simp: winv_def s1_def)
  moreover have "wobjatr s0 = wobjatr s1"
    by (rule ext) (simp add: s0_def s1_def wobjatr_def split: wobj.split)
  ultimately have w: "winv s0" by (subst kinv_same(2)[of s0 s1]) (simp_all add: s0_def)
  have wt: "TSTAT_WAITING (tstat (tcb s0 p))"
    using waitq_waiting(1)[OF winvD(1)[OF assms], of p "WaitQ (MTX i)"] Cons
    by (simp add: is_waitq_def s0_def s1_def)
  have "tm_dequeued p s0 = tm_dequeued p s" by (rule tm_dequeued_cong) (simp_all add: s0_def s1_def)
  then have "op_ok s0 (mutex_release i s)"
    using mutex_release_release[OF assms Cons c_def, of s0] release_op_ok[OF w wt tm_dequeued_without[OF winvD(1)[OF w] wt]]
    by (simp add: s0_def s1_def)
  then show ?thesis by (rule op_ok_before) (simp_all add: s0_def s1_def)
qed


lemma mutex_release_all_op_ok: "winv s \<Longrightarrow> op_ok s (mutex_release_all p s)"
proof (induction s rule: release_all_induct[where p = p])
  case (round s)
  let ?s = "s\<lparr>mtxqs := q_delete (hd (mtxqs s p)) (mtxqs s)\<rparr>"
  have r: "op_ok s (release_all_round p s)"
    unfolding release_all_round_def
    by (rule op_ok_before[OF mutex_release_op_ok[of ?s]]) (use round.prems in simp_all)
  have "op_ok (snd (release_all_round p s)) (mutex_release_all p (snd (release_all_round p s)))"
    by (rule round.IH) (use r in \<open>simp add: op_ok_def\<close>)
  from op_ok_trans[OF r this] show ?case using round.hyps by (subst mutex_release_all_round) simp
qed (simp add: mutex_release_all_round op_ok_refl)

lemma kinv_snd_op: "kinv s \<Longrightarrow> op_ok s r \<Longrightarrow> p_schedtsk (snd r) = p_schedtsk s \<or> \<not> dspflg s \<Longrightarrow> kinv (snd r)"
  by (auto simp: kinv_def op_ok_def winv_def)

text \<open>Locking a mutex raises the priority of the running task, which stays the scheduled one.\<close>

lemma mutex_acquire_schedtsk:
  assumes "winv s" and "p_schedtsk s = Some p" and "TSTAT_RUNNABLE (tstat (tcb s p))"
  shows "p_schedtsk (snd (mutex_acquire p i s)) = Some p"
  using assms(2,3)
  by (simp add: mutex_acquire_def mutex_raise_priority_def change_priority_def Let_def primap_set_def primap_clear_def)

lemma kinv_acquire:
  assumes "kinv s" and "p_runtsk s = Some p" and "dspflg s \<longrightarrow> \<not> reqflg s"
  shows "kinv (snd (mutex_acquire p i s))"
proof (rule kinv_snd_op[OF assms(1)])
  note w = kinvD(2)[OF assms(1)] and r = kinvD(3)[OF assms(1,2)]
  show "op_ok s (mutex_acquire p i s)"
    by (rule mutex_acquire_op_ok[OF w runnable_ready(2)[OF winvD(1)[OF w] r]])
  show "p_schedtsk (snd (mutex_acquire p i s)) = p_schedtsk s \<or> \<not> dspflg s"
    using mutex_acquire_schedtsk[OF w _ r, of i] assms by (auto simp: kinv_def)
qed

lemma kinv_mtx_calls:
  assumes "kinv s" and "p_runtsk s = Some p" and "dspflg s \<longrightarrow> \<not> reqflg s"
  shows "kinv (snd (loc_mtx cfg mtxid s))" and "kinv (snd (ploc_mtx cfg mtxid s))"
    and "kinv (snd (tloc_mtx cfg mtxid tmout s))" and "kinv (snd (ref_mtx cfg mtxid s))"
proof -
  let ?s = "t_lock_cpu s" and ?i = "INDEX_MTX mtxid"
  have k: "kinv ?s" "p_runtsk ?s = Some p" "dspflg ?s \<longrightarrow> \<not> reqflg ?s"
    using assms by (simp_all add: t_lock_cpu_def) (simp add: kinv_def winv_def)
  note a = kinv_acquire[OF k, of ?i] and w = kinv_wobj_wait[OF k(1,2), of TS_WAIT_MTX "MTX ?i"]
  show "kinv (snd (loc_mtx cfg mtxid s))" "kinv (snd (ploc_mtx cfg mtxid s))"
    "kinv (snd (tloc_mtx cfg mtxid tmout s))" "kinv (snd (ref_mtx cfg mtxid s))"
    using assms(1,2) a w k(1)
    by (auto simp: loc_mtx_def ploc_mtx_def tloc_mtx_def ref_mtx_def Let_def wobj_make_wait_eq intro!: kinv_tsk_call)
qed

lemma kinv_unl_mtx:
  assumes "kinv s" and "p_runtsk s = Some p"
  shows "kinv (snd (unl_mtx cfg mtxid s))"
proof -
  let ?s = "t_lock_cpu s" and ?i = "INDEX_MTX mtxid"
  let ?s1 = "?s\<lparr>mtxqs := q_delete ?i (mtxqs ?s)\<rparr>"
  have k: "kinv ?s" using assms by simp
  have w1: "winv ?s1" using kinvD(2)[OF k] by simp
  have ex: "tskatr (p_tinib (tcb ?s p)) \<noteq> TA_NOEXS"
    by (rule runnable_ready(2)[OF kinvD(1)[OF k] kinvD(3)[OF k]]) (use assms(2) in simp)
  define r1 where "r1 = (if MTX_CEILING ?s1 ?i then mutex_drop_priority (runtsk ?s1) (mtx_ceilpri ?s1 ?i) ?s1 else (False, ?s1))"
  have "op_ok ?s1 r1"
    using mutex_drop_op_ok[OF w1, of p] op_ok_refl[OF w1] ex assms(2) by (simp add: r1_def)
  then have r1: "op_ok ?s r1" by (rule op_ok_before) simp_all
  then have "op_ok (snd r1) (mutex_release ?i (snd r1))"
    by (intro mutex_release_op_ok) (simp add: op_ok_def)
  from op_ok_dispatch_if[OF k op_ok_trans[OF r1 this]]
  show ?thesis
    using assms(1) unfolding r1_def
    by (auto simp: unl_mtx_def Let_def case_prod_beta intro!: kinv_tsk_call)
qed


section \<open>The invariant of the mutexes\<close>

text \<open>The priority a task with priority \<open>pri\<close> has when it also locks the mutex \<open>i\<close>.\<close>

definition ceil_min :: "kernel \<Rightarrow> nat \<Rightarrow> nat \<Rightarrow> nat" where
  "ceil_min s i pri = (if MTX_CEILING s i \<and> mtx_ceilpri s i < pri then mtx_ceilpri s i else pri)"

text \<open>The loop computes the least of the base priority and the ceilings, in any order.\<close>

lemma calc_priority_le_iff:
  "calc_priority_loop s pri is \<le> x \<longleftrightarrow> pri \<le> x \<or> (\<exists>i \<in> set is. MTX_CEILING s i \<and> mtx_ceilpri s i \<le> x)"
proof (induction "is" arbitrary: pri)
  case (Cons i "is")
  show ?case unfolding calc_priority_loop.simps Cons by auto
qed simp

lemma le_iff_eqI: "(\<And>x. (a :: nat) \<le> x \<longleftrightarrow> b \<le> x) \<Longrightarrow> a = b"
  by (meson dual_order.antisym order_refl)

lemma calc_priority_insert:
  assumes "set xs = insert i (set ys)"
  shows "calc_priority_loop s pri xs = ceil_min s i (calc_priority_loop s pri ys)"
proof (rule le_iff_eqI)
  fix x
  have "ceil_min s i pri' \<le> x \<longleftrightarrow> pri' \<le> x \<or> MTX_CEILING s i \<and> mtx_ceilpri s i \<le> x" for pri'
    by (auto simp: ceil_min_def)
  then show "calc_priority_loop s pri xs \<le> x \<longleftrightarrow> ceil_min s i (calc_priority_loop s pri ys) \<le> x"
    by (auto simp: calc_priority_le_iff assms)
qed

lemma calc_priority_cong:
  assumes "\<And>i. p_mtxinib (mtxcb s' i) = p_mtxinib (mtxcb s i)"
  shows "calc_priority_loop s' pri is = calc_priority_loop s pri is"
    and "MTX_CEILING s' i = MTX_CEILING s i" and "ceil_min s' i pri = ceil_min s i pri"
proof -
  show c: "MTX_CEILING s' i = MTX_CEILING s i" for i using assms by (simp add: MTX_CEILING_def)
  show "ceil_min s' i pri = ceil_min s i pri" using assms c by (simp add: ceil_min_def)
  show "calc_priority_loop s' pri is = calc_priority_loop s pri is"
    by (rule le_iff_eqI) (simp add: calc_priority_le_iff c assms)
qed

text \<open>
  The invariant, with mutexes \<open>A\<close> that are being released and tasks \<open>X\<close> that are being terminated:
  those tasks may be dormant already, and their priority is no longer kept up.
\<close>

definition mtx_gen :: "nat set \<Rightarrow> tsk set \<Rightarrow> kernel \<Rightarrow> bool" where
  "mtx_gen A X s \<longleftrightarrow>
    (\<forall>p. distinct (mtxqs s p)) \<and>
    (\<forall>i p. i \<in> set (mtxqs s p) \<longleftrightarrow> i \<notin> A \<and> p_loctsk (mtxcb s i) = Some p) \<and>
    (\<forall>i p. i \<notin> A \<longrightarrow> p \<notin> X \<longrightarrow> p_loctsk (mtxcb s i) = Some p \<longrightarrow> tstat (tcb s p) \<noteq> TS_DORMANT) \<and>
    (\<forall>i. i \<notin> A \<longrightarrow> queues s (WaitQ (MTX i)) \<noteq> [] \<longrightarrow> p_loctsk (mtxcb s i) \<noteq> None) \<and>
    (\<forall>p. p \<notin> X \<longrightarrow> tstat (tcb s p) \<noteq> TS_DORMANT \<longrightarrow> tskpri s p = mutex_calc_priority p s)"

definition mtx_inv :: "kernel \<Rightarrow> bool" where
  "mtx_inv s \<longleftrightarrow> mtx_gen {} {} s"

lemma mtx_genD:
  assumes "mtx_gen A X s"
  shows "distinct (mtxqs s p)" and "i \<in> set (mtxqs s p) \<longleftrightarrow> i \<notin> A \<and> p_loctsk (mtxcb s i) = Some p"
    and "i \<notin> A \<Longrightarrow> p \<notin> X \<Longrightarrow> p_loctsk (mtxcb s i) = Some p \<Longrightarrow> tstat (tcb s p) \<noteq> TS_DORMANT"
    and "i \<notin> A \<Longrightarrow> queues s (WaitQ (MTX i)) \<noteq> [] \<Longrightarrow> p_loctsk (mtxcb s i) \<noteq> None"
    and "p \<notin> X \<Longrightarrow> tstat (tcb s p) \<noteq> TS_DORMANT \<Longrightarrow> tskpri s p = mutex_calc_priority p s"
  using assms unfolding mtx_gen_def by blast+

text \<open>Steps that touch neither mutexes nor priorities.\<close>

lemma mtx_gen_same:
  assumes "mtx_gen A X s" and "mtxcb s' = mtxcb s" and "mtxqs s' = mtxqs s"
    and "\<And>p. p \<notin> X \<Longrightarrow> priority (tcb s' p) = priority (tcb s p) \<and> bpriority (tcb s' p) = bpriority (tcb s p)"
    and "\<And>p. p \<notin> X \<Longrightarrow> tstat (tcb s' p) = TS_DORMANT \<longleftrightarrow> tstat (tcb s p) = TS_DORMANT"
    and "\<And>i. queues s (WaitQ (MTX i)) = [] \<Longrightarrow> queues s' (WaitQ (MTX i)) = [] \<or> p_loctsk (mtxcb s i) \<noteq> None"
  shows "mtx_gen A X s'"
proof -
  have c: "p \<notin> X \<Longrightarrow> mutex_calc_priority p s' = mutex_calc_priority p s" for p
    using calc_priority_cong(1)[of s' s] assms(2-4) by (simp add: mutex_calc_priority_def)
  have "i \<notin> A \<Longrightarrow> queues s (WaitQ (MTX i)) = [] \<or> p_loctsk (mtxcb s i) \<noteq> None" for i
    using mtx_genD(4)[OF assms(1)] by blast
  then have w: "i \<notin> A \<Longrightarrow> queues s' (WaitQ (MTX i)) \<noteq> [] \<Longrightarrow> p_loctsk (mtxcb s i) \<noteq> None" for i
    using assms(6) by blast
  show ?thesis
    using mtx_genD[OF assms(1)] w c unfolding mtx_gen_def assms(2,3) by (simp add: assms(4,5))
qed

lemma mtx_inv_same:
  assumes "mtx_inv s" and "mtxcb s' = mtxcb s" and "mtxqs s' = mtxqs s"
    and "\<And>p. priority (tcb s' p) = priority (tcb s p) \<and> bpriority (tcb s' p) = bpriority (tcb s p)"
    and "\<And>p. tstat (tcb s' p) = TS_DORMANT \<longleftrightarrow> tstat (tcb s p) = TS_DORMANT"
    and "\<And>i. queues s (WaitQ (MTX i)) = [] \<Longrightarrow> queues s' (WaitQ (MTX i)) = [] \<or> p_loctsk (mtxcb s i) \<noteq> None"
  shows "mtx_inv s'"
  unfolding mtx_inv_def by (rule mtx_gen_same[OF assms(1)[unfolded mtx_inv_def] assms(2-6)])

lemma mtx_inv_lock [simp]:
  "mtx_inv (t_lock_cpu s) = mtx_inv s" "mtx_inv (t_unlock_cpu s) = mtx_inv s"
  "mtx_inv (i_lock_cpu s) = mtx_inv s" "mtx_inv (i_unlock_cpu s) = mtx_inv s"
  "mtx_inv (dispatch s) = mtx_inv s"
  by (rule iffI; erule mtx_inv_same;
      simp add: t_lock_cpu_def t_unlock_cpu_def i_lock_cpu_def i_unlock_cpu_def dispatch_def)+

lemma mtx_inv_dispatch_if [simp]: "mtx_inv (dispatch_if r) = mtx_inv (snd r)"
  by (simp add: dispatch_if_def)

text \<open>Locking: the mutex becomes the first of the list of the task, whose priority may rise.\<close>

lemma mutex_acquire_sel:
  assumes "TSTAT_RUNNABLE (tstat (tcb s p))"
  shows "tcb (snd (mutex_acquire p i s)) = (tcb s)(p := (tcb s p)\<lparr>priority := ceil_min s i (tskpri s p)\<rparr>)"
    and "mtxqs (snd (mutex_acquire p i s)) = q_insert_next p i (mtxqs s)"
    and "mtxcb (snd (mutex_acquire p i s)) = (mtxcb s)(i := (mtxcb s i)\<lparr>p_loctsk := Some p\<rparr>)"
    and "queues (snd (mutex_acquire p i s)) (WaitQ w) = (if p \<in> set (queues s (WaitQ w)) then queues (snd (mutex_acquire p i s)) (WaitQ w) else queues s (WaitQ w))"
proof -
  let ?s = "s\<lparr>mtxcb := (mtxcb s)(i := (mtxcb s i)\<lparr>p_loctsk := Some p\<rparr>), mtxqs := q_insert_next p i (mtxqs s)\<rparr>"
  have r: "TSTAT_RUNNABLE (tstat (tcb ?s p))" using assms by simp
  have c: "MTX_CEILING ?s i = MTX_CEILING s i" by (simp add: MTX_CEILING_def)
  note cp = change_priority_runnable[OF r, of "mtx_ceilpri s i" True]
  have e: "mutex_acquire p i s = (if MTX_CEILING s i \<and> mtx_ceilpri s i < tskpri s p
      then change_priority p (mtx_ceilpri s i) True ?s else (False, ?s))"
    by (simp add: mutex_acquire_def mutex_raise_priority_def Let_def c)
  show "tcb (snd (mutex_acquire p i s)) = (tcb s)(p := (tcb s p)\<lparr>priority := ceil_min s i (tskpri s p)\<rparr>)"
    using cp(2) by (simp add: e ceil_min_def)
  show "mtxqs (snd (mutex_acquire p i s)) = q_insert_next p i (mtxqs s)"
    "mtxcb (snd (mutex_acquire p i s)) = (mtxcb s)(i := (mtxcb s i)\<lparr>p_loctsk := Some p\<rparr>)"
    by (simp_all add: e)
  show "queues (snd (mutex_acquire p i s)) (WaitQ w) = (if p \<in> set (queues s (WaitQ w)) then queues (snd (mutex_acquire p i s)) (WaitQ w) else queues s (WaitQ w))"
    using cp(1) by (auto simp: e move_ready_def queue_simps remove1_idem)
qed

lemma mutex_acquire_mtx_inv:
  assumes "mtx_inv s" and "TSTAT_RUNNABLE (tstat (tcb s p))" and "p_loctsk (mtxcb s i) = None" and "tsk_inv s"
  shows "mtx_inv (snd (mutex_acquire p i s))"
proof -
  let ?s = "snd (mutex_acquire p i s)"
  note sel = mutex_acquire_sel[OF assms(2), of i]
  note inv = mtx_genD[OF assms(1)[unfolded mtx_inv_def]]
  have nd: "tstat (tcb s p) \<noteq> TS_DORMANT" using assms(2) by (auto simp: TSTAT_defs)
  have ini: "p_mtxinib (mtxcb ?s j) = p_mtxinib (mtxcb s j)" for j by (simp add: sel)
  note cc = calc_priority_cong[of ?s s, OF ini]
  have calc: "mutex_calc_priority q ?s = (if q = p then ceil_min s i (mutex_calc_priority p s) else mutex_calc_priority q s)" for q
    using calc_priority_insert[of "i # mtxqs s p" i "mtxqs s p" s] cc(1)
    by (simp add: mutex_calc_priority_def sel queue_simps)
  have nw: "p \<notin> set (queues s (WaitQ w))" for w
    using tsk_invD(5)[OF assms(4), of p "WaitQ w"] assms(2) by (auto simp: task_place_def)
  have ni: "i \<notin> set (mtxqs s q)" for q using inv(2)[of i q] assms(3) by simp
  have q: "queues ?s (WaitQ w) = queues s (WaitQ w)" for w using sel(4)[of w] nw[of w] by simp
  show ?thesis
    unfolding mtx_inv_def mtx_gen_def calc q sel(1-3)
    using inv nd ni assms(3) by (auto simp: queue_simps split: if_splits)
qed


text \<open>Unlocking: the mutex leaves the list of its owner and goes to the first waiter, if any.\<close>

lemma mtx_gen_unlink:
  assumes "mtx_gen {} X s" and "p_loctsk (mtxcb s i) = Some p" and "X' = insert p X"
  shows "mtx_gen {i} X' (s\<lparr>mtxqs := q_delete i (mtxqs s)\<rparr>)"
    and "p \<notin> X \<Longrightarrow> tskpri s p = ceil_min s i (mutex_calc_priority p (s\<lparr>mtxqs := q_delete i (mtxqs s)\<rparr>))"
proof -
  let ?s = "s\<lparr>mtxqs := q_delete i (mtxqs s)\<rparr>"
  note inv = mtx_genD[OF assms(1)]
  have ini: "p_mtxinib (mtxcb ?s j) = p_mtxinib (mtxcb s j)" for j by simp
  note cc = calc_priority_cong[of ?s s, OF ini]
  have i: "i \<in> set (mtxqs s q) \<longleftrightarrow> q = p" for q using inv(2)[of i q] assms(2) by auto
  have calc: "q \<noteq> p \<Longrightarrow> mutex_calc_priority q ?s = mutex_calc_priority q s" for q
    using cc(1) i[of q] by (simp add: mutex_calc_priority_def q_delete_def remove1_idem)
  show "mtx_gen {i} X' ?s"
    unfolding mtx_gen_def assms(3) using inv calc by (auto simp: q_delete_def)
  have "set (mtxqs s p) = insert i (set (mtxqs ?s p))"
    using i[of p] inv(1)[of p] by (auto simp: q_delete_def)
  from calc_priority_insert[OF this, of s]
  have "mutex_calc_priority p s = ceil_min s i (mutex_calc_priority p ?s)"
    using cc(1) by (simp add: mutex_calc_priority_def)
  moreover have "p \<notin> X \<Longrightarrow> tskpri s p = mutex_calc_priority p s" using inv(3)[of i p] inv(5)[of p] assms(2) by simp
  ultimately show "p \<notin> X \<Longrightarrow> tskpri s p = ceil_min s i (mutex_calc_priority p ?s)" by simp
qed

lemma mutex_release_mtx_gen:
  assumes "mtx_gen {i} X s" and "winv s"
  shows "mtx_gen {} X (snd (mutex_release i s))"
proof (cases "queues s (WaitQ (MTX i))")
  case Nil
  let ?s = "s\<lparr>mtxcb := (mtxcb s)(i := (mtxcb s i)\<lparr>p_loctsk := None\<rparr>)\<rparr>"
  have "p_mtxinib (mtxcb ?s j) = p_mtxinib (mtxcb s j)" for j by simp
  note cc = calc_priority_cong(1)[of ?s s, OF this]
  have "mtx_gen {} X ?s"
    using mtx_genD[OF assms(1)] Nil unfolding mtx_gen_def by (auto simp: mutex_calc_priority_def cc)
  then show ?thesis using Nil by (simp add: mutex_release_def q_empty_def)
next
  case (Cons p ps)
  define c where "c = (if MTX_CEILING s i \<and> mtx_ceilpri s i < tskpri s p then mtx_ceilpri s i else tskpri s p)"
  define s0 where "s0 = s\<lparr>tcb := (tcb s)(p := (tcb s p)\<lparr>priority := c\<rparr>), mtxqs := q_insert_prev p i (mtxqs s),
      mtxcb := (mtxcb s)(i := (mtxcb s i)\<lparr>p_loctsk := Some p\<rparr>)\<rparr>"
  let ?s = "snd (mutex_release i s)"
  note r = mutex_release_release[OF assms(2) Cons c_def s0_def]
  have f: "tcb ?s = (tcb s)(p := released E_OK ((tcb s p)\<lparr>priority := c\<rparr>))"
    "mtxqs ?s = q_insert_prev p i (mtxqs s)" "mtxcb ?s = (mtxcb s)(i := (mtxcb s i)\<lparr>p_loctsk := Some p\<rparr>)"
    using objectsD(1,22)[OF release_sel(7), of E_OK "tm_dequeued p s" p s0] by (simp_all add: r s0_def)
  have q: "queues ?s (WaitQ (MTX j)) = (if j = i then ps else queues s (WaitQ (MTX j)))" for j
    using Cons by (simp add: mutex_release_waitq is_waitq_def)
  note inv = mtx_genD[OF assms(1)]
  have "p_mtxinib (mtxcb ?s j) = p_mtxinib (mtxcb s j)" for j by (simp add: f)
  note cc = calc_priority_cong(1)[of ?s s, OF this]
  have nd: "tstat (tcb s p) \<noteq> TS_DORMANT"
    using waitq_waiting(1)[OF winvD(1)[OF assms(2)], of p "WaitQ (MTX i)"] Cons waiting_not_dormant
    by (auto simp: is_waitq_def)
  have "calc_priority_loop s pri (mtxqs s p @ [i]) = ceil_min s i (calc_priority_loop s pri (mtxqs s p))" for pri
    by (rule calc_priority_insert) simp
  then have calc: "mutex_calc_priority r ?s = (if r = p then ceil_min s i (mutex_calc_priority p s) else mutex_calc_priority r s)" for r
    by (simp add: mutex_calc_priority_def cc f q_insert_prev_def)
  have c: "c = ceil_min s i (tskpri s p)" by (simp add: c_def ceil_min_def)
  show ?thesis
    unfolding mtx_gen_def calc q f(1-3) c
    using inv nd by (auto simp: q_insert_prev_def)
qed


lemma change_priority_tcb:
  "tcb (snd (change_priority p n m s)) = (tcb s)(p := (tcb s p)\<lparr>priority := n\<rparr>)"
  using change_priority_runnable(2)[of s p n m] change_priority_waiting(1)[of s p n m] by blast

lemma change_priority_waitq_empty:
  assumes "tsk_inv s" and "tskatr (p_tinib (tcb s p)) \<noteq> TA_NOEXS" and "queues s (WaitQ w) = []"
  shows "queues (snd (change_priority p n m s)) (WaitQ w) = []"
proof (cases "TSTAT_RUNNABLE (tstat (tcb s p))")
  case True
  then show ?thesis using change_priority_runnable(1)[OF True, of n m] assms(3) by (simp add: move_ready_def queue_simps)
next
  case False
  have "tstat_ok (tstat (tcb s p))" using tsk_invD(3)[OF assms(1), of p] by (simp add: tcb_ok_def)
  then have "TSTAT_WAIT_WOBJCB (tstat (tcb s p)) \<Longrightarrow> p \<in> set (queues s (WaitQ (p_wobjcb (p_winfo (tcb s p)))))"
    using tsk_invD(5)[OF assms(1), of p] False assms(2) by (auto simp: task_place_def wobjcb_code)
  then show ?thesis using change_priority_waiting(2)[OF False, of n m] assms(3) by (auto simp: queue_simps)
qed

lemma mutex_drop_mtx_gen:
  assumes "mtx_gen A {p} s" and "tsk_inv s" and "tskatr (p_tinib (tcb s p)) \<noteq> TA_NOEXS"
    and "MTX_CEILING s i \<Longrightarrow> tskpri s p = ceil_min s i (mutex_calc_priority p s)"
    and "MTX_CEILING s i \<Longrightarrow> r = mutex_drop_priority p (mtx_ceilpri s i) s"
    and "\<not> MTX_CEILING s i \<Longrightarrow> r = (False, s) \<and> tskpri s p = mutex_calc_priority p s"
    and "\<And>j. p_loctsk (mtxcb s j) = Some p \<Longrightarrow> j \<notin> A \<Longrightarrow> tstat (tcb s p) \<noteq> TS_DORMANT"
  shows "mtx_gen A {} (snd r)"
proof -
  let ?c = "mutex_calc_priority p s"
  define s' where "s' = snd r"
  have s': "s' = s \<and> tskpri s p = ?c \<or> s' = snd (change_priority p ?c True s)"
  proof (cases "MTX_CEILING s i")
    case True
    then have "r = mutex_drop_priority p (mtx_ceilpri s i) s" "tskpri s p = ceil_min s i ?c"
      using assms(4,5) by auto
    then show ?thesis using True
      by (auto simp: s'_def mutex_drop_priority_def Let_def ceil_min_def split: if_splits)
  qed (use assms(6) in \<open>simp add: s'_def\<close>)
  have f: "mtxcb s' = mtxcb s" "mtxqs s' = mtxqs s" "tcb s' = (tcb s)(p := (tcb s p)\<lparr>priority := ?c\<rparr>)"
    using s' by (auto simp: change_priority_tcb)
  have q: "queues s (WaitQ w) = [] \<Longrightarrow> queues s' (WaitQ w) = []" for w
    using s' change_priority_waitq_empty[OF assms(2,3)] by auto
  have cc: "mutex_calc_priority x s' = mutex_calc_priority x s" for x
    using calc_priority_cong(1)[of s' s] by (simp add: mutex_calc_priority_def f)
  show ?thesis
    using mtx_genD[OF assms(1)] assms(7) q unfolding mtx_gen_def s'_def[symmetric] cc f by auto metis
qed


lemma mtx_inv_tsk_call: "mtx_inv (snd (body (t_lock_cpu s))) \<Longrightarrow> mtx_inv (snd (tsk_call body s))"
  by (simp add: tsk_call_def case_prod_beta)

text \<open>Unlinking a mutex from its owner and giving the owner its remaining priority.\<close>

lemma mutex_unlink_drop:
  assumes "mtx_inv s" and "winv s" and "p_loctsk (mtxcb s i) = Some p"
    and "s1 = s\<lparr>mtxqs := q_delete i (mtxqs s)\<rparr>"
    and "r = (if MTX_CEILING s1 i then mutex_drop_priority p (mtx_ceilpri s1 i) s1 else (False, s1))"
  shows "mtx_gen {i} {} (snd r)" and "op_ok s r"
proof -
  note inv = mtx_genD[OF assms(1)[unfolded mtx_inv_def]]
  note u = mtx_gen_unlink[OF assms(1)[unfolded mtx_inv_def] assms(3) refl]
  have nd: "tstat (tcb s p) \<noteq> TS_DORMANT" using inv(3)[of i p] assms(3) by simp
  have ex: "tskatr (p_tinib (tcb s p)) \<noteq> TA_NOEXS" by (rule waiting_exists[OF winvD(1)[OF assms(2)] nd])
  have w: "winv s1" using assms(2) by (simp add: assms(4))
  have cm: "ceil_min s1 i x = ceil_min s i x" "MTX_CEILING s1 i = MTX_CEILING s i" for x
    by (simp_all add: ceil_min_def MTX_CEILING_def assms(4))
  show "mtx_gen {i} {} (snd r)"
    by (rule mutex_drop_mtx_gen[OF _ winvD(1)[OF w], where p = p and i = i])
      (use u nd ex in \<open>simp_all add: assms(4,5) ceil_min_def MTX_CEILING_def\<close>)
  have "op_ok s1 r"
    using mutex_drop_op_ok[OF w, of p] op_ok_refl[OF w] ex by (simp add: assms(5)) (simp add: assms(4))
  then show "op_ok s r" by (rule op_ok_before) (simp_all add: assms(4))
qed

lemma unl_mtx_inv:
  assumes "mtx_inv s" and "kinv s" and "p_runtsk s = Some p"
  shows "mtx_inv (snd (unl_mtx cfg mtxid s))"
proof -
  let ?s = "t_lock_cpu s" and ?i = "INDEX_MTX mtxid"
  define s1 where "s1 = ?s\<lparr>mtxqs := q_delete ?i (mtxqs ?s)\<rparr>"
  define r where "r = (if MTX_CEILING s1 ?i then mutex_drop_priority p (mtx_ceilpri s1 ?i) s1 else (False, s1))"
  have t: "mtx_inv ?s" "winv ?s" using assms kinvD(2)[of ?s] by simp_all
  have "mtx_inv (snd (mutex_release ?i (snd r)))" if "p_loctsk (mtxcb ?s ?i) = Some p"
    using mutex_unlink_drop[OF t that s1_def r_def] mutex_release_mtx_gen[of ?i "{}" "snd r"]
    by (simp add: op_ok_def mtx_inv_def)
  then show ?thesis
    using assms(1,3) unfolding unl_mtx_def r_def s1_def
    by (auto simp: Let_def case_prod_beta intro!: mtx_inv_tsk_call)
qed

lemma mtx_inv_block:
  assumes "mtx_inv s" and "p_loctsk (mtxcb s i) \<noteq> None" and "v \<noteq> TS_DORMANT" and "tstat (tcb s p) \<noteq> TS_DORMANT"
  shows "mtx_inv (wobj_make_wait_tmout (MTX i) tmout (set_tstat p v s))"
proof (rule mtx_inv_same[OF assms(1)])
  let ?s = "wobj_make_wait_tmout (MTX i) tmout (set_tstat p v s)"
  have o: "objects ?s = objects s" by simp
  show "mtxcb ?s = mtxcb s" "mtxqs ?s = mtxqs s" by (rule objectsD(22)[OF o], rule objectsD(1)[OF o])
  show "queues ?s (WaitQ (MTX j)) = [] \<or> p_loctsk (mtxcb s j) \<noteq> None" if "queues s (WaitQ (MTX j)) = []" for j
    using that assms(2) by (cases "j = i") (simp_all add: queue_simps)
qed (use assms(3,4) in auto)

lemma mtx_lock_inv:
  assumes "mtx_inv s" and "kinv s" and "p_runtsk s = Some p"
  shows "mtx_inv (snd (loc_mtx cfg mtxid s))" and "mtx_inv (snd (ploc_mtx cfg mtxid s))"
    and "mtx_inv (snd (tloc_mtx cfg mtxid tmout s))" and "mtx_inv (snd (ref_mtx cfg mtxid s))"
proof -
  let ?s = "t_lock_cpu s" and ?i = "INDEX_MTX mtxid"
  have t: "mtx_inv ?s" "kinv ?s" "p_runtsk ?s = Some p" using assms by simp_all
  note run = kinvD(3)[OF t(2,3)]
  note a = mutex_acquire_mtx_inv[OF t(1) run _ kinvD(1)[OF t(2)], of ?i]
  have nd: "tstat (tcb ?s p) \<noteq> TS_DORMANT" using run by (auto simp: TSTAT_defs)
  note b = mtx_inv_block[OF t(1), of ?i "TS_WAITING OR TS_WAIT_MTX" p]
  show "mtx_inv (snd (loc_mtx cfg mtxid s))" "mtx_inv (snd (ploc_mtx cfg mtxid s))"
    "mtx_inv (snd (tloc_mtx cfg mtxid tmout s))" "mtx_inv (snd (ref_mtx cfg mtxid s))"
    using assms(1,3) a b nd
    by (auto simp: loc_mtx_def ploc_mtx_def tloc_mtx_def ref_mtx_def Let_def wobj_make_wait_eq
        intro!: mtx_inv_tsk_call)
qed

text \<open>Emptying a wait queue touches neither mutexes nor priorities.\<close>

lemma init_wait_queue_tcb:
  assumes "is_waitq q"
  shows "winv s \<Longrightarrow> priority (tcb (snd (init_wait_queue q s)) p) = priority (tcb s p) \<and>
    bpriority (tcb (snd (init_wait_queue q s)) p) = bpriority (tcb s p) \<and>
    (tstat (tcb (snd (init_wait_queue q s)) p) = TS_DORMANT \<longleftrightarrow> tstat (tcb s p) = TS_DORMANT) \<and>
    p_tinib (tcb (snd (init_wait_queue q s)) p) = p_tinib (tcb s p)"
  using assms
proof (induction s rule: init_wait_queue_induct)
  case (empty s)
  then show ?case by (simp add: init_wait_queue_round)
next
  case (round s)
  obtain x ps where q: "queues s q = x # ps" using round.hyps by (cases "queues s q") auto
  note t = winvD(1)[OF round.prems]
  have w: "TSTAT_WAITING (tstat (tcb s x))" using waitq_waiting(1)[OF t _ assms] q by simp
  note e = init_wait_round_release[OF t q]
  have "winv (snd (init_wait_round q s))"
    using release_op_ok[OF round.prems w tm_dequeued_without[OF t w], of E_DLT] by (simp add: e op_ok_def)
  from round.IH[OF this] show ?case
    using round.hyps assms waiting_not_dormant[OF w] by (subst (1 2 3 4) init_wait_queue_round) (auto simp: e)
qed


lemma init_wait_queue_mtx_inv:
  assumes "mtx_inv s" and "winv s" and "is_waitq q"
  shows "mtx_inv (snd (init_wait_queue q s))"
proof (rule mtx_inv_same[OF assms(1)])
  let ?s = "snd (init_wait_queue q s)"
  have o: "objects ?s = objects s" by simp
  show "mtxcb ?s = mtxcb s" "mtxqs ?s = mtxqs s" by (rule objectsD(22)[OF o], rule objectsD(1)[OF o])
  show "queues ?s (WaitQ (MTX j)) = [] \<or> p_loctsk (mtxcb s j) \<noteq> None" if "queues s (WaitQ (MTX j)) = []" for j
  proof (cases "WaitQ (MTX j) = q")
    case False
    then show ?thesis
      using that init_wait_queue_other[OF assms(3,2), of "WaitQ (MTX j)"] by (simp add: is_waitq_def)
  qed (use that in \<open>auto simp: init_wait_queue_round\<close>)
qed (use init_wait_queue_tcb[OF assms(3,2)] in auto)

text \<open>Reinitialisation: the waiters are released, then the owner loses the mutex.\<close>

lemma mutex_unlock_drop:
  assumes "mtx_inv s" and "winv s" and "queues s (WaitQ (MTX i)) = []" and "p_loctsk (mtxcb s i) = Some p"
    and "s1 = s\<lparr>mtxqs := q_delete i (mtxqs s), mtxcb := (mtxcb s)(i := (mtxcb s i)\<lparr>p_loctsk := None\<rparr>)\<rparr>"
    and "r = (if MTX_CEILING s1 i then mutex_drop_priority p (mtx_ceilpri s1 i) s1 else (False, s1))"
  shows "mtx_inv (snd r)" and "op_ok s r"
proof -
  let ?s0 = "s\<lparr>mtxqs := q_delete i (mtxqs s)\<rparr>"
  note inv = mtx_genD[OF assms(1)[unfolded mtx_inv_def]]
  note u = mtx_gen_unlink[OF assms(1)[unfolded mtx_inv_def] assms(4) refl]
  have nd: "tstat (tcb s p) \<noteq> TS_DORMANT" using inv(3)[of i p] assms(4) by simp
  have ex: "tskatr (p_tinib (tcb s p)) \<noteq> TA_NOEXS" by (rule waiting_exists[OF winvD(1)[OF assms(2)] nd])
  have w0: "winv ?s0" and w: "winv s1" using assms(2) by (simp_all add: assms(5) winv_mtx(3)[of ?s0, simplified])
  have rel: "snd (mutex_release i ?s0) = s1"
    using assms(3) by (simp add: mutex_release_def q_empty_def assms(5))
  have g: "mtx_gen {} {p} s1" using mutex_release_mtx_gen[OF u(1) w0] by (simp add: rel)
  have ini: "p_mtxinib (mtxcb s1 j) = p_mtxinib (mtxcb ?s0 j)" for j by (simp add: assms(5))
  note cc = calc_priority_cong[of s1 ?s0, OF ini]
  have calc: "mutex_calc_priority p s1 = mutex_calc_priority p ?s0"
    using cc(1) by (simp add: mutex_calc_priority_def assms(5))
  have cs: "MTX_CEILING s1 i = MTX_CEILING s i" "ceil_min s1 i x = ceil_min s i x" for x
    by (simp_all add: MTX_CEILING_def ceil_min_def assms(5))
  have "mtx_gen {} {} (snd r)"
    by (rule mutex_drop_mtx_gen[OF g winvD(1)[OF w], where i = i])
      (use u(2) nd ex calc cs in \<open>simp_all add: assms(6) ceil_min_def\<close>, simp_all add: assms(5))
  then show "mtx_inv (snd r)" by (simp add: mtx_inv_def)
  have "op_ok s1 r"
    using mutex_drop_op_ok[OF w, of p] op_ok_refl[OF w] ex by (simp add: assms(6)) (simp add: assms(5))
  then show "op_ok s r" by (rule op_ok_before) (simp_all add: assms(5))
qed

lemma ini_mtx_inv:
  assumes "kinv s"
  shows "mtx_inv s \<Longrightarrow> mtx_inv (snd (ini_mtx cfg mtxid s))" and "mtx_inv s \<Longrightarrow> kinv (snd (ini_mtx cfg mtxid s))"
proof -
  let ?s = "t_lock_cpu s" and ?i = "INDEX_MTX mtxid"
  define r where "r = init_wait_queue (WaitQ (MTX ?i)) ?s"
  define s1 where "s1 = (snd r)\<lparr>mtxqs := q_delete ?i (mtxqs (snd r)),
    mtxcb := (mtxcb (snd r))(?i := (mtxcb (snd r) ?i)\<lparr>p_loctsk := None\<rparr>)\<rparr>"
  define r2 where "r2 p = (if MTX_CEILING s1 ?i then mutex_drop_priority p (mtx_ceilpri s1 ?i) s1 else (False, s1))" for p
  assume m: "mtx_inv s"
  have k: "kinv ?s" "winv ?s" "mtx_inv ?s" using assms kinvD(2)[of ?s] m by simp_all
  have q: "is_waitq (WaitQ (MTX ?i))" by (simp add: is_waitq_def)
  have r: "op_ok ?s r" "queues (snd r) (WaitQ (MTX ?i)) = []"
    using init_wait_queue_op_ok[OF q k(2)] by (simp_all add: r_def)
  have m1: "mtx_inv (snd r)" unfolding r_def by (rule init_wait_queue_mtx_inv[OF k(3,2) q])
  have w1: "winv (snd r)" using r(1) by (simp add: op_ok_def)
  have d: "mtx_inv (snd (r2 p)) \<and> op_ok (snd r) (r2 p)" if "p_loctsk (mtxcb (snd r) ?i) = Some p" for p
    using mutex_unlock_drop[OF m1 w1 r(2) that s1_def, of "r2 p"] by (simp add: r2_def)
  have e: "snd (ini_mtx cfg mtxid s) \<in> {s, t_unlock_cpu (dispatch_if (fst r, snd r))} \<or>
      (\<exists>p. p_loctsk (mtxcb (snd r) ?i) = Some p \<and>
        snd (ini_mtx cfg mtxid s) = t_unlock_cpu (dispatch_if (fst r \<or> fst (r2 p), snd (r2 p))))"
    by (cases "p_loctsk (mtxcb (snd r) ?i)")
      (auto simp: ini_mtx_def tsk_call_def Let_def case_prod_beta r_def[symmetric] r2_def s1_def)
  show "mtx_inv (snd (ini_mtx cfg mtxid s))" using e m m1 d by auto
  show "kinv (snd (ini_mtx cfg mtxid s))"
    using e assms op_ok_dispatch_if[OF k(1) r(1)] op_ok_dispatch_if[OF k(1) op_ok_trans[OF r(1)]] d by auto
qed

section \<open>Creation and deletion\<close>

text \<open>The list of free mutex control blocks.\<close>

definition mtx_free :: "kernel_cfg \<Rightarrow> kernel \<Rightarrow> bool" where
  "mtx_free cfg s \<longleftrightarrow> distinct (free_mtxcb s) \<and>
    (\<forall>i \<in> set (free_mtxcb s). mtxatr (p_mtxinib (mtxcb s i)) = TA_NOEXS \<and> p_loctsk (mtxcb s i) = None \<and>
      queues s (WaitQ (MTX i)) = [] \<and> tnum_smtx cfg \<le> i \<and> i < tnum_mtx cfg)"

lemma mtx_free_same:
  assumes "mtx_free cfg s" and "free_mtxcb s' = free_mtxcb s"
    and "\<And>i. mtxatr (p_mtxinib (mtxcb s i)) = TA_NOEXS \<Longrightarrow> p_loctsk (mtxcb s i) = None \<Longrightarrow>
      queues s (WaitQ (MTX i)) = [] \<Longrightarrow> mtxcb s' i = mtxcb s i \<and> queues s' (WaitQ (MTX i)) = []"
  shows "mtx_free cfg s'"
  using assms unfolding mtx_free_def by metis

lemma mtx_free_lock [simp]:
  "mtx_free cfg (t_lock_cpu s) = mtx_free cfg s" "mtx_free cfg (t_unlock_cpu s) = mtx_free cfg s"
  "mtx_free cfg (dispatch s) = mtx_free cfg s" "mtx_free cfg (dispatch_if r) = mtx_free cfg (snd r)"
  by (simp_all add: mtx_free_def t_lock_cpu_def t_unlock_cpu_def dispatch_if_def dispatch_def)

lemma mtx_inv_other_ceiling:
  assumes "mtx_inv s" and "p_loctsk (mtxcb s i) = None"
    and "tcb s' = tcb s" and "queues s' = queues s" and "mtxqs s' = mtxqs s"
    and "mtxcb s' = (mtxcb s)(i := c)" and "p_loctsk c = None"
  shows "mtx_inv s'"
proof -
  note inv = mtx_genD[OF assms(1)[unfolded mtx_inv_def]]
  have ni: "i \<notin> set (mtxqs s p)" for p using inv(2)[of i p] assms(2) by simp
  have "calc_priority_loop s' b (mtxqs s p) = calc_priority_loop s b (mtxqs s p)" for b p
    by (rule le_iff_eqI)
      (use ni[of p] in \<open>auto simp: calc_priority_le_iff MTX_CEILING_def assms(6)\<close>)
  then have "mutex_calc_priority p s' = mutex_calc_priority p s" for p
    by (simp add: mutex_calc_priority_def assms(3,5))
  moreover have "queues s (WaitQ (MTX i)) = []" using inv(4)[of i] assms(2) by auto
  ultimately show ?thesis
    using inv assms(2,7) unfolding mtx_inv_def mtx_gen_def assms(3-6) by auto
qed

lemma kinv_del_mtx:
  assumes "kinv s"
  shows "kinv (snd (del_mtx cfg mtxid s))"
proof -
  let ?v = "MTX (INDEX_MTX mtxid)" and ?s = "t_lock_cpu s"
  have k: "kinv ?s" using assms by simp
  note i = init_wait_queue_op_ok[of "WaitQ ?v" ?s, OF _ kinvD(2)[OF k]]
  note a = kinv_after_init[OF k, of "init_wait_queue (WaitQ ?v) ?s" ?v]
  show ?thesis
    using i a assms
    by (auto simp: del_mtx_def Let_def case_prod_beta is_waitq_def wobjatr_mtx_other intro!: kinv_tsk_call)
qed

text \<open>Deleting a mutex that nobody has locked.\<close>

lemma del_mtx_inv:
  assumes "kinv s" and "mtx_inv s" and "mtx_free cfg s" and "p_loctsk (mtxcb s (INDEX_MTX mtxid)) = None"
  shows "mtx_inv (snd (del_mtx cfg mtxid s))" and "mtx_free cfg (snd (del_mtx cfg mtxid s))"
proof -
  let ?i = "INDEX_MTX mtxid" and ?s = "t_lock_cpu s"
  define r where "r = init_wait_queue (WaitQ (MTX ?i)) ?s"
  define s1 where "s1 = (snd r)\<lparr>mtxcb := (mtxcb (snd r))(?i := (mtxcb (snd r) ?i)\<lparr>p_mtxinib :=
      (p_mtxinib (mtxcb (snd r) ?i))\<lparr>mtxatr := TA_NOEXS\<rparr>\<rparr>), free_mtxcb := free_mtxcb (snd r) @ [?i]\<rparr>"
  have k: "winv ?s" "mtx_inv ?s" "p_loctsk (mtxcb ?s ?i) = None" "mtx_free cfg ?s"
    using assms kinvD(2)[of ?s] by (simp_all add: lock_objects)
  have q: "is_waitq (WaitQ (MTX ?i))" by (simp add: is_waitq_def)
  have m1: "mtx_inv (snd r)" unfolding r_def by (rule init_wait_queue_mtx_inv[OF k(2,1) q])
  have o: "objects (snd r) = objects ?s" by (simp add: r_def)
  note f = objectsD(22,23)[OF o]
  have m: "mtx_inv s1" by (rule mtx_inv_other_ceiling[OF m1, of ?i s1 "mtxcb s1 ?i"]) (use k(3) f in \<open>simp_all add: s1_def\<close>)
  have qe: "queues (snd r) (WaitQ (MTX j)) = (if j = ?i then [] else queues ?s (WaitQ (MTX j)))" for j
    using init_wait_queue_op_ok[OF q k(1)] init_wait_queue_other[OF q k(1), of "WaitQ (MTX j)"]
    by (simp add: r_def is_waitq_def)
  have fr: "mtx_free cfg s1" if "mtxatr (p_mtxinib (mtxcb ?s ?i)) \<noteq> TA_NOEXS" "tnum_smtx cfg \<le> ?i" "?i < tnum_mtx cfg"
    using k(3,4) that by (auto simp: mtx_free_def s1_def f qe)
  have b: "tnum_smtx cfg \<le> ?i \<and> ?i < tnum_mtx cfg"
    if "VALID_MTXID cfg mtxid" "MTXID ?i > tmax_smtxid cfg"
    using that by (auto simp: VALID_MTXID_def MTXID_def INDEX_MTX_def tnum_mtx_def tnum_smtx_def)
  have e: "snd (del_mtx cfg mtxid s) \<in> {s, t_unlock_cpu ?s} \<or>
      snd (del_mtx cfg mtxid s) = t_unlock_cpu (dispatch_if (fst r, s1)) \<and>
      mtxatr (p_mtxinib (mtxcb ?s ?i)) \<noteq> TA_NOEXS \<and> VALID_MTXID cfg mtxid \<and> MTXID ?i > tmax_smtxid cfg"
    by (auto simp: del_mtx_def tsk_call_def Let_def case_prod_beta r_def[symmetric] s1_def)
  show "mtx_inv (snd (del_mtx cfg mtxid s))" using e assms(2) m by auto
  show "mtx_free cfg (snd (del_mtx cfg mtxid s))" using e assms(3) fr b by auto
qed

lemma acre_mtx_inv:
  assumes "kinv s" and "mtx_inv s" and "mtx_free cfg s"
  shows "kinv (snd (acre_mtx cfg pk s))" and "mtx_inv (snd (acre_mtx cfg pk s))"
    and "mtx_free cfg (snd (acre_mtx cfg pk s))"
proof -
  let ?s = "t_lock_cpu s" and ?i = "hd (free_mtxcb (t_lock_cpu s))"
  have t: "kinv ?s" "mtx_inv ?s" "mtx_free cfg ?s" using assms by simp_all
  let ?c = "(mtxcb ?s ?i)\<lparr>p_mtxinib := (p_mtxinib (mtxcb ?s ?i))\<lparr>mtxatr := cmtx_mtxatr pk,
      ceilpri := nat (cmtx_ceilpri pk)\<rparr>, p_loctsk := None\<rparr>"
  define s1 where "s1 = ?s\<lparr>free_mtxcb := tl (free_mtxcb ?s),
    queues := (queues ?s)(WaitQ (MTX ?i) := []), mtxcb := (mtxcb ?s)(?i := ?c)\<rparr>"
  have a: "snd (acre_mtx cfg pk s) = s \<or> snd (acre_mtx cfg pk s) = t_unlock_cpu ?s \<or>
      snd (acre_mtx cfg pk s) = t_unlock_cpu s1 \<and> free_mtxcb ?s \<noteq> []"
    by (auto simp: acre_mtx_def tsk_call_def s1_def Let_def q_initialize_def)
  have e: "queues ?s (WaitQ (MTX ?i)) = []" "p_loctsk (mtxcb ?s ?i) = None" if "free_mtxcb ?s \<noteq> []"
    using t(3) that by (auto simp: mtx_free_def)
  have "kinv s1" if "free_mtxcb ?s \<noteq> []"
    by (rule kinv_atr[OF t(1), where v = "MTX ?i"])
      (use e[OF that] in \<open>auto simp: s1_def fun_upd_idem wobjatr_def split: wobj.split\<close>)
  then show "kinv (snd (acre_mtx cfg pk s))" using a assms(1) by auto
  have "mtx_inv s1" if "free_mtxcb ?s \<noteq> []"
    by (rule mtx_inv_other_ceiling[OF t(2) e(2)[OF that], of s1 ?c])
      (use e[OF that] in \<open>auto simp: s1_def fun_upd_idem\<close>)
  then show "mtx_inv (snd (acre_mtx cfg pk s))" using a assms(2) by auto
  have "mtx_free cfg s1" if "free_mtxcb ?s \<noteq> []"
    using t(3) that by (cases "free_mtxcb ?s") (auto simp: s1_def mtx_free_def)
  then show "mtx_free cfg (snd (acre_mtx cfg pk s))"
    using a assms(3) by auto
qed


lemma mtx_free_call: "mtx_free cfg (snd (body (t_lock_cpu s))) \<Longrightarrow> mtx_free cfg (snd (tsk_call body s))"
  by (simp add: tsk_call_def case_prod_beta)

lemma mutex_drop_waitq_empty:
  assumes "winv s" and "tskatr (p_tinib (tcb s p)) \<noteq> TA_NOEXS" and "queues s (WaitQ w) = []"
  shows "queues (snd (mutex_drop_priority p old s)) (WaitQ w) = []" and "mtxcb (snd (mutex_drop_priority p old s)) = mtxcb s"
    and "free_mtxcb (snd (mutex_drop_priority p old s)) = free_mtxcb s"
  using change_priority_waitq_empty[OF winvD(1)[OF assms(1)] assms(2,3)] assms(3)
  by (simp_all add: mutex_drop_priority_def Let_def)

text \<open>The calls that lock and unlock leave the free control blocks alone.\<close>

lemma mtx_free_lock_calls:
  assumes "kinv s" and "mtx_free cfg s" and "p_runtsk s = Some p"
  shows "mtx_free cfg (snd (loc_mtx cfg mtxid s))" and "mtx_free cfg (snd (ploc_mtx cfg mtxid s))"
    and "mtx_free cfg (snd (tloc_mtx cfg mtxid tmout s))" and "mtx_free cfg (snd (ref_mtx cfg mtxid s))"
proof -
  let ?s = "t_lock_cpu s" and ?i = "INDEX_MTX mtxid"
  have t: "kinv ?s" "mtx_free cfg ?s" "p_runtsk ?s = Some p" using assms by simp_all
  note run = kinvD(3)[OF t(1,3)]
  have nw: "p \<notin> set (queues ?s (WaitQ w))" for w
    using tsk_invD(5)[OF kinvD(1)[OF t(1)], of p "WaitQ w"] run by (auto simp: task_place_def)
  have a: "mtx_free cfg (snd (mutex_acquire p ?i ?s))" if "mtxatr (p_mtxinib (mtxcb ?s ?i)) \<noteq> TA_NOEXS"
  proof (rule mtx_free_same[OF t(2)])
    show "free_mtxcb (snd (mutex_acquire p ?i ?s)) = free_mtxcb ?s"
      by (simp add: mutex_acquire_def mutex_raise_priority_def Let_def)
  qed (use that mutex_acquire_sel(3,4)[OF run, of ?i] nw in auto)
  have b: "mtx_free cfg (wobj_make_wait_tmout (MTX ?i) x (set_tstat p v ?s))"
    if "mtxatr (p_mtxinib (mtxcb ?s ?i)) \<noteq> TA_NOEXS" for x v
  proof (rule mtx_free_same[OF t(2)])
    have o: "objects (wobj_make_wait_tmout (MTX ?i) x (set_tstat p v ?s)) = objects ?s" by simp
    note f = objectsD(22,23)[OF o]
    show "free_mtxcb (wobj_make_wait_tmout (MTX ?i) x (set_tstat p v ?s)) = free_mtxcb ?s" by (rule f)
    show "mtxcb (wobj_make_wait_tmout (MTX ?i) x (set_tstat p v ?s)) i = mtxcb ?s i \<and>
      queues (wobj_make_wait_tmout (MTX ?i) x (set_tstat p v ?s)) (WaitQ (MTX i)) = []"
      if "mtxatr (p_mtxinib (mtxcb ?s i)) = TA_NOEXS" "queues ?s (WaitQ (MTX i)) = []" for i
      using that \<open>mtxatr (p_mtxinib (mtxcb ?s ?i)) \<noteq> TA_NOEXS\<close>
      by (cases "i = ?i") (simp_all add: f(1) queue_simps)
  qed
  show "mtx_free cfg (snd (loc_mtx cfg mtxid s))" "mtx_free cfg (snd (ploc_mtx cfg mtxid s))"
    "mtx_free cfg (snd (tloc_mtx cfg mtxid tmout s))" "mtx_free cfg (snd (ref_mtx cfg mtxid s))"
    using assms(2,3) a b
    by (auto simp: loc_mtx_def ploc_mtx_def tloc_mtx_def ref_mtx_def Let_def wobj_make_wait_eq
        intro!: mtx_free_call)
qed

lemma mutex_release_mtxcb:
  "j \<noteq> i \<Longrightarrow> mtxcb (snd (mutex_release i s)) j = mtxcb s j" "free_mtxcb (snd (mutex_release i s)) = free_mtxcb s"
  using objectsD(22,23)[OF objects_wait(3)] objectsD(22,23)[OF objects_wait(5)]
  by (auto simp: mutex_release_def Let_def case_prod_beta)

lemma mtx_free_unl_mtx:
  assumes "kinv s" and "mtx_free cfg s" and "p_runtsk s = Some p"
  shows "mtx_free cfg (snd (unl_mtx cfg mtxid s))"
proof -
  let ?s = "t_lock_cpu s" and ?i = "INDEX_MTX mtxid"
  define s1 where "s1 = ?s\<lparr>mtxqs := q_delete ?i (mtxqs ?s)\<rparr>"
  define r where "r = (if MTX_CEILING s1 ?i then mutex_drop_priority p (mtx_ceilpri s1 ?i) s1 else (False, s1))"
  have k: "kinv ?s" "mtx_free cfg ?s" "p_runtsk ?s = Some p" using assms by simp_all
  have w: "winv s1" using kinvD(2)[OF k(1)] by (simp add: s1_def)
  have ex: "tskatr (p_tinib (tcb s1 p)) \<noteq> TA_NOEXS"
    using runnable_ready(2)[OF kinvD(1)[OF k(1)] kinvD(3)[OF k(1,3)]] by (simp add: s1_def)
  have f: "mtxcb (snd r) = mtxcb ?s" "free_mtxcb (snd r) = free_mtxcb ?s"
    by (simp_all add: r_def mutex_drop_priority_def Let_def s1_def)
  have q: "queues (snd r) (WaitQ v) = []" if "queues ?s (WaitQ v) = []" for v
    using mutex_drop_waitq_empty(1)[OF w ex] that by (simp add: r_def) (simp add: s1_def)
  have "mtx_free cfg (snd (mutex_release ?i (snd r)))" if "mtxatr (p_mtxinib (mtxcb ?s ?i)) \<noteq> TA_NOEXS"
  proof (rule mtx_free_same[OF k(2)])
    show "free_mtxcb (snd (mutex_release ?i (snd r))) = free_mtxcb ?s" by (simp add: mutex_release_mtxcb f)
    fix j assume "mtxatr (p_mtxinib (mtxcb ?s j)) = TA_NOEXS" "queues ?s (WaitQ (MTX j)) = []"
    then show "mtxcb (snd (mutex_release ?i (snd r))) j = mtxcb ?s j \<and> queues (snd (mutex_release ?i (snd r))) (WaitQ (MTX j)) = []"
      using that q[of "MTX j"] by (cases "j = ?i") (simp_all add: mutex_release_mtxcb mutex_release_waitq f is_waitq_def)
  qed
  then show ?thesis
    using assms(2,3) unfolding unl_mtx_def r_def s1_def by (auto simp: Let_def case_prod_beta intro!: mtx_free_call)
qed

lemma mtx_free_ini_mtx:
  assumes "kinv s" and "mtx_free cfg s" and "mtx_inv s"
  shows "mtx_free cfg (snd (ini_mtx cfg mtxid s))"
proof -
  let ?s = "t_lock_cpu s" and ?i = "INDEX_MTX mtxid" and ?q = "WaitQ (MTX (INDEX_MTX mtxid))"
  define s0 where "s0 = snd (init_wait_queue ?q ?s)"
  define s1 where "s1 = s0\<lparr>mtxqs := q_delete ?i (mtxqs s0),
    mtxcb := (mtxcb s0)(?i := (mtxcb s0 ?i)\<lparr>p_loctsk := None\<rparr>)\<rparr>"
  have k: "winv ?s" "mtx_free cfg ?s" "mtx_inv ?s" using assms kinvD(2)[of ?s] by simp_all
  have q: "is_waitq ?q" by (simp add: is_waitq_def)
  have m0: "mtx_inv s0" unfolding s0_def by (rule init_wait_queue_mtx_inv[OF k(3,1) q])
  have w0: "winv s0" using init_wait_queue_op_ok[OF q k(1)] by (simp add: op_ok_def s0_def)
  have o: "objects s0 = objects ?s" by (simp add: s0_def)
  have qe: "queues s0 (WaitQ (MTX j)) = []" if "queues ?s (WaitQ (MTX j)) = []" for j
    using init_wait_queue_op_ok[OF q k(1)] init_wait_queue_other[OF q k(1), of "WaitQ (MTX j)"] that
    by (cases "j = ?i") (simp_all add: s0_def is_waitq_def)
  have f0: "mtx_free cfg s0"
    by (rule mtx_free_same[OF k(2)]) (use objectsD(22,23)[OF o] qe in simp_all)
  have d: "mtx_free cfg (snd (if MTX_CEILING s1 ?i then mutex_drop_priority p (mtx_ceilpri s1 ?i) s1 else (False, s1)))"
    if "p_loctsk (mtxcb s0 ?i) = Some p" for p
  proof (rule mtx_free_same[OF f0])
    have ex: "tskatr (p_tinib (tcb s1 p)) \<noteq> TA_NOEXS"
      using waiting_exists[OF winvD(1)[OF w0]] mtx_genD(3)[OF m0[unfolded mtx_inv_def], of ?i p] that by (simp add: s1_def)
    have w1: "winv s1" using w0 winv_mtx(3)[of "s0\<lparr>mtxqs := q_delete ?i (mtxqs s0)\<rparr>"] by (simp add: s1_def)
    fix j assume "p_loctsk (mtxcb s0 j) = None" "queues s0 (WaitQ (MTX j)) = []"
    then show "mtxcb (snd (if MTX_CEILING s1 ?i then mutex_drop_priority p (mtx_ceilpri s1 ?i) s1 else (False, s1))) j = mtxcb s0 j \<and>
      queues (snd (if MTX_CEILING s1 ?i then mutex_drop_priority p (mtx_ceilpri s1 ?i) s1 else (False, s1))) (WaitQ (MTX j)) = []"
      using mutex_drop_waitq_empty[OF w1 ex, of "MTX j"] that by (cases "j = ?i") (simp_all add: s1_def)
  qed (simp add: mutex_drop_priority_def Let_def s1_def)
  show ?thesis
    using assms(2) f0 d unfolding s1_def s0_def ini_mtx_def
    by (auto simp: Let_def case_prod_beta intro!: mtx_free_call split: option.split)
qed

section \<open>Properties\<close>

lemma mtx_inv_run_kernel: "mtx_inv run_kernel"
  by (simp add: mtx_inv_def mtx_gen_def run_kernel_sel run_kernel_objects mutex_calc_priority_def)
    (simp add: idle_kernel_def sample_tcb_def)

lemma mtx_free_run_kernel: "mtx_free sample_cfg run_kernel"
  by (simp add: mtx_free_def run_kernel_objects) (simp add: idle_kernel_def)



text \<open>A kernel in which task 0 has locked mutex 1, with ceiling 2, and task 1 waits for it.\<close>

definition mtx_wait_kernel :: kernel where
  "mtx_wait_kernel = dispatch (wobj_make_wait_tmout (MTX 0) TMO_FEVR
    (set_tstat 1 (TS_WAITING OR TS_WAIT_MTX) ((snd (loc_mtx sample_cfg 1 run_kernel))\<lparr>p_runtsk := Some 1\<rparr>)))"

lemma mutex_locked_kernel:
  "snd (loc_mtx sample_cfg 1 run_kernel) = t_unlock_cpu (snd (mutex_acquire 0 0 (t_lock_cpu run_kernel)))"
  by (simp add: loc_mtx_def tsk_call_def CHECK_DISPATCH_def VALID_MTXID_def INDEX_MTX_def sample_cfg_def run_kernel_sel
      run_kernel_objects lock_objects Let_def) (simp add: idle_kernel_def MTX_CEILING_def run_kernel_objects lock_objects run_kernel_sel lock_sel sample_tcb_def)

lemma locked_kernel_sel:
  defines "s \<equiv> snd (loc_mtx sample_cfg 1 run_kernel)"
  shows "tcb s 1 = sample_tcb\<lparr>tstat := TS_RUNNABLE\<rparr>" and "p_schedtsk s = Some 0" and "p_loctsk (mtxcb s 0) = Some 0"
    and "queues s (WaitQ w) = []" and "queues s (ReadyQ 4) = [1]" and "queues s (ReadyQ 2) = [0]"
    and "dspflg s" and "\<not> cpu_lock s" and "\<not> intctx s" and "mtxatr (p_mtxinib (mtxcb s i)) = TA_CEILING"
    and "tskpri s 1 = 4"
proof -
  have "mtxcb (t_lock_cpu run_kernel) = (\<lambda>_. \<lparr>p_mtxinib = \<lparr>mtxatr = TA_CEILING, ceilpri = 2\<rparr>, p_loctsk = None\<rparr>)"
    by (simp add: run_kernel_objects lock_objects) (simp add: idle_kernel_def)
  then show "tcb s 1 = sample_tcb\<lparr>tstat := TS_RUNNABLE\<rparr>" and "p_schedtsk s = Some 0" and "p_loctsk (mtxcb s 0) = Some 0"
    and "queues s (WaitQ w) = []" and "queues s (ReadyQ 4) = [1]" and "queues s (ReadyQ 2) = [0]"
    and "dspflg s" and "\<not> cpu_lock s" and "\<not> intctx s" and "mtxatr (p_mtxinib (mtxcb s i)) = TA_CEILING"
    and "tskpri s 1 = 4"
    by (simp_all add: s_def mutex_locked_kernel t_unlock_cpu_def mutex_acquire_def mutex_raise_priority_def
        MTX_CEILING_def Let_def change_priority_def run_kernel_sel lock_sel sample_tcb_def TSTAT_defs queue_simps
        primap_set_def primap_clear_def lock_objects run_kernel_objects)
qed

lemma mtx_wait_kernel_sel:
  "kinv mtx_wait_kernel" "mtx_inv mtx_wait_kernel" "p_runtsk mtx_wait_kernel = Some 0"
  "queues mtx_wait_kernel (WaitQ (MTX 0)) = [1]" "p_loctsk (mtxcb mtx_wait_kernel 0) = Some 0"
  "CHECK_TSKCTX_UNL mtx_wait_kernel" "mtxatr (p_mtxinib (mtxcb mtx_wait_kernel 0)) \<noteq> TA_NOEXS"
proof -
  let ?l = "snd (loc_mtx sample_cfg 1 run_kernel)"
  let ?s = "?l\<lparr>p_runtsk := Some 1\<rparr>"
  note l = locked_kernel_sel
  have k: "kinv ?l" "mtx_inv ?l"
    using kinv_mtx_calls(1)[OF kinv_run_kernel run_kernel_sel(3)] mtx_lock_inv(1)[OF mtx_inv_run_kernel kinv_run_kernel run_kernel_sel(3)]
    by (simp_all add: run_kernel_sel)
  have t: "tsk_inv ?s" using kinvD(1)[OF k(1)] by simp
  have m: "mtx_inv ?s" by (rule mtx_inv_same[OF k(2)]) simp_all
  show "kinv mtx_wait_kernel"
    unfolding mtx_wait_kernel_def
    by (rule kinv_dispatch[OF wobj_make_wait_tmout_inv[OF t]]) (use l(1) in \<open>simp_all add: TSTAT_defs sample_tcb_def\<close>)
  show "mtx_inv mtx_wait_kernel"
    unfolding mtx_wait_kernel_def using mtx_inv_block[OF m, of 0 "TS_WAITING OR TS_WAIT_MTX" 1 TMO_FEVR] l(1,3)
    by (simp add: sample_tcb_def)
  show "p_runtsk mtx_wait_kernel = Some 0"
    by (simp add: mtx_wait_kernel_def dispatch_def make_non_runnable_def l Let_def queue_simps primap_clear_def)
  show "queues mtx_wait_kernel (WaitQ (MTX 0)) = [1]"
    by (simp add: mtx_wait_kernel_def dispatch_def l queue_simps)
  have o: "objects mtx_wait_kernel = objects ?l" by (simp add: mtx_wait_kernel_def)
  have c: "cpu_lock mtx_wait_kernel = cpu_lock ?l" by (simp add: mtx_wait_kernel_def dispatch_def)
  show "p_loctsk (mtxcb mtx_wait_kernel 0) = Some 0" "CHECK_TSKCTX_UNL mtx_wait_kernel"
    "mtxatr (p_mtxinib (mtxcb mtx_wait_kernel 0)) \<noteq> TA_NOEXS"
    using objectsD[OF o] c l by (simp_all add: CHECK_TSKCTX_UNL_def)
qed

lemma mutex_drop_running:
  assumes "TSTAT_RUNNABLE (tstat (tcb s p))" and "p \<notin> set (queues s (WaitQ w))"
  shows "queues (snd (mutex_drop_priority p old s)) (WaitQ w) = queues s (WaitQ w)"
  using change_priority_runnable(1)[OF assms(1)] assms(2)
  by (simp add: mutex_drop_priority_def Let_def move_ready_def queue_simps remove1_idem)

text \<open>
  C14: unlocking a mutex for which tasks wait gives it to the first of them: \<open>unl_mtx\<close> returns
  \<open>E_OK\<close>, that task is the new owner and has the mutex in its list, its own service call returns
  \<open>E_OK\<close>, the other waiters stay in order, and the previous owner no longer has it.
\<close>

theorem unl_mtx_hands_over:
  assumes "kinv s" and "mtx_inv s" and "CHECK_TSKCTX_UNL s" and "VALID_MTXID cfg mtxid" and "i = INDEX_MTX mtxid"
    and "mtxatr (p_mtxinib (mtxcb s i)) \<noteq> TA_NOEXS" and "p_runtsk s = Some p" and "p_loctsk (mtxcb s i) = Some p"
    and "queues s (WaitQ (MTX i)) = q # qs" and "s' = snd (unl_mtx cfg mtxid s)"
  shows "fst (unl_mtx cfg mtxid s) = Ret E_OK \<and> p_loctsk (mtxcb s' i) = Some q \<and> i \<in> set (mtxqs s' q) \<and>
    i \<notin> set (mtxqs s' p) \<and> queues s' (WaitQ (MTX i)) = qs \<and> result_of (Wait_ercd q) s' = Some E_OK \<and>
    \<not> TSTAT_WAITING (tstat (tcb s' q)) \<and> tskpri s' q = mutex_calc_priority q s'"
proof -
  let ?s = "t_lock_cpu s"
  define s1 where "s1 = ?s\<lparr>mtxqs := q_delete i (mtxqs ?s)\<rparr>"
  define r where "r = (if MTX_CEILING s1 i then mutex_drop_priority p (mtx_ceilpri s1 i) s1 else (False, s1))"
  have k: "kinv ?s" "winv ?s" "mtx_inv ?s" "p_runtsk ?s = Some p" using assms(1,2,7) kinvD(2)[of ?s] by simp_all
  have e: "unl_mtx cfg mtxid s = (Ret E_OK, t_unlock_cpu (dispatch_if (fst r \<or> fst (mutex_release i (snd r)), snd (mutex_release i (snd r)))))"
    using assms(3-8) by (simp add: unl_mtx_def tsk_call_def Let_def case_prod_beta lock_objects r_def s1_def)
  note run = kinvD(3)[OF k(1,4)]
  have nw: "p \<notin> set (queues ?s (WaitQ w))" for w
    using tsk_invD(5)[OF winvD(1)[OF k(2)], of p "WaitQ w"] run by (auto simp: task_place_def)
  have q1: "queues (snd r) (WaitQ (MTX i)) = q # qs"
    using mutex_drop_running[of s1 p "MTX i" "mtx_ceilpri s1 i"] run nw[of "MTX i"] assms(9)
    by (auto simp: r_def s1_def lock_sel)
  have "p_loctsk (mtxcb ?s i) = Some p" using assms(8) by (simp add: lock_objects)
  from mutex_unlink_drop(2)[OF k(3,2) this s1_def r_def] have w: "winv (snd r)" by (simp add: op_ok_def)
  note rel = mutex_release_release[OF w q1 refl refl]
  have m: "mtx_inv s'" unfolding assms(10) by (rule unl_mtx_inv[OF assms(2,1,7)])
  have t: "tcb s' q = tcb (snd (mutex_release i (snd r))) q" "mtxcb s' = mtxcb (snd (mutex_release i (snd r)))"
    "queues s' = queues (snd (mutex_release i (snd r)))"
    by (simp_all add: assms(10) e t_unlock_cpu_def dispatch_if_def dispatch_def)
  have lo: "p_loctsk (mtxcb s' i) = Some q"
    using objectsD(22)[OF release_sel(7)] by (simp add: t(2) rel)
  have st: "winfo (p_winfo (tcb s' q)) = Wercd E_OK" "\<not> TSTAT_WAITING (tstat (tcb s' q))" "tstat (tcb s' q) \<noteq> TS_DORMANT"
    by (simp_all add: t(1) rel TSTAT_defs)
  have "p \<noteq> q" using nw[of "MTX i"] assms(9) by (auto simp: lock_sel)
  moreover have "queues s' (WaitQ (MTX i)) = qs" using q1 by (simp add: t(3) mutex_release_waitq is_waitq_def)
  ultimately show ?thesis
    using e lo st mtx_genD(2,5)[OF m[unfolded mtx_inv_def]] by (simp add: result_of_def)
qed

theorem unl_mtx_hands_over_witness:
  "fst (unl_mtx sample_cfg 1 mtx_wait_kernel) = Ret E_OK \<and>
    p_loctsk (mtxcb (snd (unl_mtx sample_cfg 1 mtx_wait_kernel)) 0) = Some 1"
  using unl_mtx_hands_over[OF mtx_wait_kernel_sel(1,2,6), of sample_cfg 1 0 0 1 "[]"] mtx_wait_kernel_sel(3-7)
  by (simp add: VALID_MTXID_def sample_cfg_def INDEX_MTX_def)

text \<open>
  \<open>acre_mtx\<close> stores the ceiling without the conversion to the internal representation. A task
  whose base priority equals the ceiling passed to \<open>acre_mtx\<close>, which the ceiling protocol allows,
  gets \<open>E_ILUSE\<close> from \<open>loc_mtx\<close> on the new mutex.
\<close>

lemma acre_mtx_ceiling_one_too_low:
  assumes "CHECK_DISPATCH s" and "VALID_TPRI (cmtx_ceilpri pk)" and "cmtx_mtxatr pk = TA_CEILING"
    and "free_mtxcb s = i # is" and "VALID_MTXID cfg (MTXID i)" and "p_runtsk s = Some p"
    and "bpriority (tcb s p) = INT_PRIORITY (cmtx_ceilpri pk)"
  shows "fst (acre_mtx cfg pk s) = Ret (MTXID i) \<and>
    fst (loc_mtx cfg (MTXID i) (snd (acre_mtx cfg pk s))) = Ret E_ILUSE"
proof -
  let ?s = "snd (acre_mtx cfg pk s)"
  have n: "tnum_mtx cfg \<noteq> 0" "INDEX_MTX (MTXID i) = i"
    using assms(5) by (auto simp: VALID_MTXID_def MTXID_def INDEX_MTX_def tnum_mtx_def)
  have a: "fst (acre_mtx cfg pk s) = Ret (MTXID i)" "tcb ?s = tcb s" "p_runtsk ?s = p_runtsk s" "CHECK_DISPATCH ?s"
    "mtxatr (p_mtxinib (mtxcb ?s i)) = TA_CEILING" "mtx_ceilpri ?s i = nat (cmtx_ceilpri pk)"
    using assms(1-4) n(1)
    by (simp_all add: acre_mtx_def tsk_call_def CHECK_TSKCTX_UNL_def CHECK_DISPATCH_def t_lock_cpu_def t_unlock_cpu_def Let_def)
  have "MTX_CEILING ?s i" using a(5) by (simp add: MTX_CEILING_def)
  moreover have "INT_PRIORITY (cmtx_ceilpri pk) < nat (cmtx_ceilpri pk)"
    using assms(2) by (simp add: INT_PRIORITY_def VALID_TPRI_def)
  moreover have "MTX_CEILING (t_lock_cpu ?s) i = MTX_CEILING ?s i" by (simp add: MTX_CEILING_def lock_objects)
  ultimately show ?thesis
    using a assms(5-7) by (simp add: loc_mtx_def tsk_call_def n(2) lock_objects lock_sel Let_def)
qed

definition dyn_cfg :: kernel_cfg where
  "dyn_cfg = sample_cfg\<lparr>tmax_smtxid := 1\<rparr>"

lemma acre_mtx_ceiling_one_too_low_witness:
  "fst (loc_mtx dyn_cfg 2 (snd (acre_mtx dyn_cfg \<lparr>cmtx_mtxatr = TA_CEILING, cmtx_ceilpri = 5\<rparr>
    (run_kernel\<lparr>free_mtxcb := [1]\<rparr>)))) = Ret E_ILUSE"
  using acre_mtx_ceiling_one_too_low[of "run_kernel\<lparr>free_mtxcb := [1]\<rparr>" "\<lparr>cmtx_mtxatr = TA_CEILING, cmtx_ceilpri = 5\<rparr>" 1 "[]" dyn_cfg 0]
  by (simp add: CHECK_DISPATCH_def run_kernel_sel VALID_TPRI_def VALID_MTXID_def MTXID_def dyn_cfg_def
      sample_cfg_def INT_PRIORITY_def sample_tcb_def)

text \<open>
  \<open>del_mtx\<close> does not look at the owner. A locked mutex without waiters is put into the list of
  free control blocks while it stays in the list of mutexes its owner has locked.
\<close>

lemma del_mtx_leaves_owner:
  assumes "CHECK_TSKCTX_UNL s" and "VALID_MTXID cfg mtxid" and "i = INDEX_MTX mtxid" and "tmax_smtxid cfg < mtxid"
    and "mtxatr (p_mtxinib (mtxcb s i)) \<noteq> TA_NOEXS" and "queues s (WaitQ (MTX i)) = []" and "i \<in> set (mtxqs s p)"
  shows "fst (del_mtx cfg mtxid s) = Ret E_OK \<and> i \<in> set (free_mtxcb (snd (del_mtx cfg mtxid s))) \<and>
    i \<in> set (mtxqs (snd (del_mtx cfg mtxid s)) p)"
  using assms
  by (simp add: del_mtx_def tsk_call_def Let_def case_prod_beta lock_objects lock_sel init_wait_queue_round
      dispatch_if_def MTXID_def INDEX_MTX_def VALID_MTXID_def)

lemma del_mtx_leaves_owner_witness:
  "0 \<in> set (free_mtxcb (snd (del_mtx (sample_cfg\<lparr>tmax_smtxid := 0\<rparr>) 1 (snd (loc_mtx sample_cfg 1 run_kernel)))))"
proof -
  have "0 \<in> set (mtxqs (snd (loc_mtx sample_cfg 1 run_kernel)) 0)"
    using mtx_genD(2)[OF mtx_lock_inv(1)[OF mtx_inv_run_kernel kinv_run_kernel run_kernel_sel(3), unfolded mtx_inv_def]]
      locked_kernel_sel(3) by simp
  then show ?thesis
    using del_mtx_leaves_owner[of "snd (loc_mtx sample_cfg 1 run_kernel)" "sample_cfg\<lparr>tmax_smtxid := 0\<rparr>" 1 0 0] locked_kernel_sel
    by (simp add: CHECK_TSKCTX_UNL_def VALID_MTXID_def INDEX_MTX_def sample_cfg_def)
qed

end
