(* ===== verification/Asp_Object.thy ===== *)
theory Asp_Object
  imports Asp_Service
begin

text \<open>
  What the synchronisation and communication objects have in common: a control block per object
  with an attribute that marks unused blocks, a list of free blocks for dynamic creation, and one
  or two wait queues. The contract \<open>object_pool\<close> states how the invariant of one kind of object
  survives steps of the kernel on that object and on the other objects; every kind of object is an
  instance of it. The theory also has the allocator of \<^verbatim>\<open>kernel/startup.c\<close>.
\<close>

section \<open>Memory for dynamically created objects\<close>

definition kernel_malloc :: "kernel_cfg \<Rightarrow> nat \<Rightarrow> kernel \<Rightarrow> nat option \<times> kernel" where
  "kernel_malloc cfg sz s =
    (if kmm_brk s \<ge> sz
     then (let s = s\<lparr>kmm_brk := kmm_brk s - sz\<rparr> in (Some (kmm cfg + kmm_brk s), s))
     else (None, s))"

definition kernel_free :: "nat option \<Rightarrow> kernel \<Rightarrow> kernel" where
  "kernel_free p s = s"

lemma kernel_malloc_eq:
  assumes "mb = fst (kernel_malloc cfg sz s)" and "b = kmm_brk (snd (kernel_malloc cfg sz s))"
  shows "kernel_malloc cfg sz s = (mb, s\<lparr>kmm_brk := b\<rparr>)" and "mb = None \<Longrightarrow> b = kmm_brk s"
  by (simp_all add: assms kernel_malloc_def Let_def split: if_splits)

text \<open>\<open>SIZE\<close> is 32 bits wide; sizes are computed modulo $2^{32}$.\<close>

definition SIZE_of :: "nat \<Rightarrow> nat" where
  "SIZE_of n = n mod 2 ^ 32"

text \<open>Attributes that pass the check, with the flags for allocated memory, are not \<open>TA_NOEXS\<close>.\<close>

lemma rsatr_exists:
  assumes "CHECK_RSATR atr valid" and "bit (valid OR TA_MBALLOC OR TA_MEMALLOC) 31 = False"
  shows "atr \<noteq> TA_NOEXS" and "atr OR TA_MBALLOC \<noteq> TA_NOEXS" and "atr OR TA_MEMALLOC \<noteq> TA_NOEXS"
    and "(atr OR TA_MEMALLOC) OR TA_MBALLOC \<noteq> TA_NOEXS"
proof -
  have "\<not> bit (atr AND NOT valid) 31" using assms(1) by (simp add: CHECK_RSATR_def)
  then have n: "\<not> bit atr 31" using assms(2) by (simp add: bit_and_iff bit_or_iff bit_not_iff)
  have ne: "x \<noteq> TA_NOEXS" if "\<not> bit x 31" for x :: ATR using that by (auto simp: bit_minus_1_iff)
  show "atr \<noteq> TA_NOEXS" "atr OR TA_MBALLOC \<noteq> TA_NOEXS" "atr OR TA_MEMALLOC \<noteq> TA_NOEXS"
    "(atr OR TA_MEMALLOC) OR TA_MBALLOC \<noteq> TA_NOEXS"
    using n assms(2) by (intro ne; simp add: bit_or_iff)+
qed

section \<open>Steps that leave the tasks alone\<close>

definition same_tasks :: "kernel \<Rightarrow> kernel \<Rightarrow> bool" where
  "same_tasks s s' \<longleftrightarrow> tcb s' = tcb s \<and> queues s' = queues s \<and> tme s' = tme s \<and>
    p_schedtsk s' = p_schedtsk s \<and> ready_primap s' = ready_primap s \<and> p_runtsk s' = p_runtsk s \<and>
    reqflg s' = reqflg s \<and> dspflg s' = dspflg s"

lemma same_tasks_kinv:
  assumes "same_tasks s s'" and "wobjatr s' = wobjatr s"
  shows "kinv s' = kinv s" and "winv s' = winv s"
  using kinv_same[of s' s] assms by (simp_all add: same_tasks_def)

lemma same_tasks_op_ok:
  assumes "same_tasks s s1" and "op_ok s1 r"
  shows "op_ok s r"
  using assms by (simp add: same_tasks_def op_ok_def)

lemma op_ok_same_tasks:
  assumes "op_ok s r" and "same_tasks (snd r) s'" and "wobjatr s' = wobjatr (snd r)"
  shows "op_ok s (fst r, s')"
  using assms same_tasks_kinv(2)[OF assms(2,3)] by (simp add: same_tasks_def op_ok_def)

text \<open>A waiting task gets data with its release.\<close>

lemma wake_data_op_ok:
  assumes "winv s" and "queues s q = p # ps" and "is_waitq q"
    and "\<And>w. winfo (g w) = winfo w \<and> p_wobjcb (g w) = p_wobjcb w"
  shows "op_ok s (wait_complete p (upd_winfo p g (s\<lparr>queues := (queues s)(q := ps)\<rparr>)))"
proof -
  let ?s = "upd_winfo p g s"
  have "tskatr (p_tinib (tcb s p)) = TA_NOEXS \<or> bpriority (tcb s p) < TNUM_TPRI"
    using tsk_invD(3)[OF winvD(1)[OF assms(1)], of p] by (auto simp: tcb_ok_def split: if_splits)
  then have "tsk_inv ?s" by (intro tsk_inv_tcb[OF winvD(1)[OF assms(1)]]) (simp_all add: assms(4))
  then have w: "winv ?s" using assms(1) by (simp add: winv_def)
  have "op_ok ?s (wait_complete p (?s\<lparr>queues := (queues ?s)(q := ps)\<rparr>))"
    by (rule wait_complete_op_ok[OF w]) (simp_all add: assms(2,3))
  moreover have "?s\<lparr>queues := (queues ?s)(q := ps)\<rparr> = upd_winfo p g (s\<lparr>queues := (queues s)(q := ps)\<rparr>)" by simp
  ultimately show ?thesis by (simp only: op_ok_def) simp
qed

section \<open>Steps that only take tasks out of wait queues\<close>

abbreviation winfos :: "kernel \<Rightarrow> tsk \<Rightarrow> WINFO" where
  "winfos s p \<equiv> p_winfo (tcb s p)"

text \<open>All wait queues but those in \<open>Q\<close> lose tasks at most, and the remaining tasks keep their data.\<close>

definition wait_sub :: "qhead set \<Rightarrow> kernel \<Rightarrow> kernel \<Rightarrow> bool" where
  "wait_sub Q s s' \<longleftrightarrow> (\<forall>q. is_waitq q \<longrightarrow> q \<notin> Q \<longrightarrow>
    set (queues s' q) \<subseteq> set (queues s q) \<and> length (queues s' q) \<le> length (queues s q) \<and>
    (\<forall>p \<in> set (queues s' q). winfos s' p = winfos s p))"

lemma wait_subD:
  assumes "wait_sub Q s s'" and "is_waitq q" and "q \<notin> Q"
  shows "set (queues s' q) \<subseteq> set (queues s q)" and "length (queues s' q) \<le> length (queues s q)"
    and "p \<in> set (queues s' q) \<Longrightarrow> winfos s' p = winfos s p"
  using assms by (auto simp: wait_sub_def)

lemma wait_sub_refl [simp]: "wait_sub Q s s"
  by (simp add: wait_sub_def)

lemma wait_sub_trans:
  assumes "wait_sub Q s s1" and "wait_sub Q s1 s2"
  shows "wait_sub Q s s2"
  unfolding wait_sub_def
proof (intro allI impI conjI ballI)
  fix q assume q: "is_waitq q" "q \<notin> Q"
  note a = wait_subD[OF assms(1) q] and b = wait_subD[OF assms(2) q]
  show "set (queues s2 q) \<subseteq> set (queues s q)" using a(1) b(1) by (rule subset_trans[rotated])
  show "length (queues s2 q) \<le> length (queues s q)" using a(2) b(2) by (rule order_trans[rotated])
  show "winfos s2 p = winfos s p" if "p \<in> set (queues s2 q)" for p
    using a(3)[of p] b(3)[OF that] b(1) that by auto
qed

lemma wait_sub_mono: "wait_sub Q s s' \<Longrightarrow> Q \<subseteq> Q' \<Longrightarrow> wait_sub Q' s s'"
  unfolding wait_sub_def by blast

lemma wait_sub_same:
  "tcb s' = tcb s \<Longrightarrow> queues s' = queues s \<Longrightarrow> wait_sub Q s s'"
  by (simp add: wait_sub_def)

lemma wait_sub_cong:
  assumes "tcb s1' = tcb s1" and "queues s1' = queues s1" and "tcb s2' = tcb s2" and "queues s2' = queues s2"
  shows "wait_sub Q s1' s2' = wait_sub Q s1 s2"
  using assms by (simp add: wait_sub_def)

lemma wait_sub_lock [simp]:
  "wait_sub Q s (t_lock_cpu s') = wait_sub Q s s'" "wait_sub Q s (t_unlock_cpu s') = wait_sub Q s s'"
  "wait_sub Q s (i_lock_cpu s') = wait_sub Q s s'" "wait_sub Q s (i_unlock_cpu s') = wait_sub Q s s'"
  "wait_sub Q s (dispatch s') = wait_sub Q s s'" "wait_sub Q s (dispatch_if r) = wait_sub Q s (snd r)"
  "wait_sub Q s (reqflg_if r) = wait_sub Q s (snd r)"
  by (rule wait_sub_cong; simp add: lock_sel dispatch_def dispatch_if_def reqflg_if_def)+

lemma wait_sub_release:
  assumes "queues_ok (queues s)"
  shows "wait_sub Q s (snd (release e tm p s))"
proof -
  let ?s = "snd (release e tm p s)"
  have f: "p \<notin> set (q_delete p (queues s) q)" for q
    using q_free_delete[OF assms] by (simp add: q_free_def)
  have q: "queues ?s q = remove1 p (queues s q)" if "is_waitq q" for q
    using that by (auto simp: queue_simps is_waitq_def)
  show ?thesis
    unfolding wait_sub_def
  proof (intro allI impI conjI ballI)
    fix q assume w: "is_waitq q"
    show "set (queues ?s q) \<subseteq> set (queues s q)" unfolding q[OF w] by (rule set_remove1_subset)
    show "length (queues ?s q) \<le> length (queues s q)" unfolding q[OF w] by (simp add: length_remove1)
    show "winfos ?s x = winfos s x" if "x \<in> set (queues ?s q)" for x
      using f[of q] that unfolding q[OF w] by (auto simp: q_delete_def)
  qed
qed

lemma wait_sub_init_wait_queue:
  assumes "is_waitq q"
  shows "winv s \<Longrightarrow> wait_sub Q s (snd (init_wait_queue q s))"
  using assms
proof (induction s rule: init_wait_queue_induct)
  case (empty s)
  then show ?case by (simp add: init_wait_queue_round)
next
  case (round s)
  obtain x ps where q: "queues s q = x # ps" using round.hyps by (cases "queues s q") auto
  note t = winvD(1)[OF round.prems]
  have w: "TSTAT_WAITING (tstat (tcb s x))" using waitq_waiting(1)[OF t _ assms] q by simp
  note e = init_wait_round_release[OF t q]
  have "winv (snd (init_wait_round q s))"
    using release_op_ok[OF round.prems w tm_dequeued_without[OF t w], of E_DLT] by (simp add: e op_ok_def)
  from wait_sub_trans[OF _ round.IH[OF this]] show ?case
    using round.hyps assms wait_sub_release[OF tsk_invD(7)[OF t]]
    by (subst init_wait_queue_round) (simp add: e)
qed

text \<open>The running task waits in one queue; it was in no wait queue before.\<close>

lemma wait_sub_block:
  assumes "winv s" and "p_runtsk s = Some p" and "\<And>r. r \<noteq> p \<Longrightarrow> tcb s' r = tcb s r"
    and "\<And>r. is_waitq r \<Longrightarrow> r \<noteq> q \<Longrightarrow> queues s' r = q_delete p (queues s) r"
  shows "wait_sub {q} s s'"
proof -
  have n: "p \<notin> set (queues s r)" if "is_waitq r" for r
    using tsk_invD(5)[OF winvD(1)[OF assms(1)], of p r] winvD(2)[OF assms(1,2)] that
    by (auto simp: task_place_def is_waitq_def split: if_splits)
  then have "queues s' r = queues s r" if "is_waitq r" "r \<noteq> q" for r
    using assms(4)[OF that] that by (simp add: q_delete_def remove1_idem)
  moreover have "winfos s' x = winfos s x" if "x \<in> set (queues s r)" "is_waitq r" for x r
    using assms(3)[of x] n[OF that(2)] that(1) by (cases "x = p") auto
  ultimately show ?thesis by (simp add: wait_sub_def)
qed

text \<open>Blocking the running task with data in its waiting information.\<close>

lemma winv_winfo:
  assumes "winv s" and "\<And>w. winfo (g w) = winfo w \<and> p_wobjcb (g w) = p_wobjcb w"
  shows "winv (upd_winfo p g s)"
proof -
  have "tskatr (p_tinib (tcb s p)) = TA_NOEXS \<or> bpriority (tcb s p) < TNUM_TPRI"
    using tsk_invD(3)[OF winvD(1)[OF assms(1)], of p] by (auto simp: tcb_ok_def split: if_splits)
  then have "tsk_inv (upd_winfo p g s)" by (intro tsk_inv_tcb[OF winvD(1)[OF assms(1)]]) (simp_all add: assms(2))
  then show ?thesis using assms(1) by (simp add: winv_def)
qed

lemma kinv_wobj_wait_data:
  assumes "kinv s" and "p_runtsk s = Some p" and "c = wait_code (WaitQ w)"
    and "\<And>w. winfo (g w) = winfo w \<and> p_wobjcb (g w) = p_wobjcb w"
  shows "kinv (dispatch (wobj_make_wait_tmout w tmout (set_tstat p (TS_WAITING OR c) (upd_winfo p g s))))"
proof -
  have "kinv (upd_winfo p g s)" by (rule kinv_tcb[OF assms(1)]) (simp_all add: assms(4))
  from kinv_wobj_wait[OF this _ assms(3), of p] show ?thesis using assms(2) by simp
qed

lemma kinv_rwait_data:
  assumes "kinv s" and "p_runtsk s = Some p" and "c = wait_code (RWaitQ w)" and "c \<noteq> TS_WAIT_DLY"
    and "\<And>w. winfo (g w) = winfo w \<and> p_wobjcb (g w) = p_wobjcb w"
  shows "kinv (dispatch (rwait_tmout w tmout (set_tstat p (TS_WAITING OR c) (upd_winfo p g s))))"
proof -
  have "kinv (upd_winfo p g s)" by (rule kinv_tcb[OF assms(1)]) (simp_all add: assms(5))
  from kinv_rwait[OF this _ assms(3,4), of p] show ?thesis using assms(2) by simp
qed

lemma length_insert_tpri [simp]: "length (insert_tpri pr p xs) = Suc (length xs)"
  by (induction xs) auto

lemma wait_sub_wobj_wait:
  assumes "winv s" and "p_runtsk s = Some p" and "p_runtsk s1 = Some p" and "queues s1 = queues s"
    and "\<And>r. r \<noteq> p \<Longrightarrow> tcb s1 r = tcb s r"
  shows "wait_sub {WaitQ w} s (wobj_make_wait_tmout w tmout s1)"
  by (rule wait_sub_block[OF assms(1,2)]) (use assms(3-5) in \<open>auto simp: queue_simps\<close>)

lemma rwait_tmout_sel:
  "tcb (rwait_tmout w tmout s) = (tcb s)(runtsk s := (tcb s (runtsk s))\<lparr>p_winfo :=
    (winfos s (runtsk s))\<lparr>winfo := tmo_winfo (runtsk s) tmout, p_wobjcb := w\<rparr>\<rparr>)"
  "queues (rwait_tmout w tmout s) = q_insert_prev (RWaitQ w) (runtsk s) (q_delete (runtsk s) (queues s))"
  "objects (rwait_tmout w tmout s) = objects s"
  "p_runtsk (rwait_tmout w tmout s) = p_runtsk s"
  by (simp_all add: rwait_tmout_def Let_def)

lemma wait_sub_rwait:
  assumes "winv s" and "p_runtsk s = Some p" and "p_runtsk s1 = Some p" and "queues s1 = queues s"
    and "\<And>r. r \<noteq> p \<Longrightarrow> tcb s1 r = tcb s r"
  shows "wait_sub {RWaitQ w} s (rwait_tmout w tmout s1)"
  by (rule wait_sub_block[OF assms(1,2)]) (use assms(3-5) in \<open>auto simp: queue_simps rwait_tmout_sel\<close>)

text \<open>The first waiting task is released, with data.\<close>

lemma wake_obj:
  assumes "winv s" and "queues s q = p # ps" and "is_waitq q"
    and "\<And>w. winfo (g w) = winfo w \<and> p_wobjcb (g w) = p_wobjcb w"
    and "r = wait_complete p (upd_winfo p g (s\<lparr>queues := (queues s)(q := ps)\<rparr>))"
  shows "op_ok s r" and "wait_sub Q s (snd r)" and "objects (snd r) = objects s"
    and "is_waitq h \<Longrightarrow> queues (snd r) h = (if h = q then ps else queues s h)"
    and "x \<noteq> p \<Longrightarrow> tcb (snd r) x = tcb s x"
    and "winfos (snd r) p = (g (winfos s p))\<lparr>winfo := Wercd E_OK\<rparr>" and "\<not> TSTAT_WAITING (tstat (tcb (snd r) p))"
    and "evts (tme (snd r)) (TskTmevtb p) = None"
proof -
  show "op_ok s r" unfolding assms(5) by (rule wake_data_op_ok[OF assms(1-4)])
  show "objects (snd r) = objects s" by (simp add: assms(5))
  let ?s = "upd_winfo p g s"
  have w: "winv ?s" by (rule winv_winfo[OF assms(1,4)])
  have u: "upd_winfo p g (s\<lparr>queues := (queues s)(q := ps)\<rparr>) = ?s\<lparr>queues := (queues ?s)(q := ps)\<rparr>" by simp
  have e: "r = release E_OK (tm_dequeued p ?s) p ?s"
    unfolding assms(5) u by (rule wait_complete_release[OF winvD(1)[OF w]]) (simp add: assms(2))
  have ok: "queues_ok (queues s)" by (rule tsk_invD(7)[OF winvD(1)[OF assms(1)]])
  have d: "q_delete p (queues s) = (queues s)(q := ps)" by (rule q_delete_next_eq[OF ok assms(2), symmetric])
  show q: "is_waitq h \<Longrightarrow> queues (snd r) h = (if h = q then ps else queues s h)" for h
    by (auto simp: e d q_insert_prev_def is_waitq_def)
  show t: "x \<noteq> p \<Longrightarrow> tcb (snd r) x = tcb s x" for x by (simp add: e)
  show "winfos (snd r) p = (g (winfos s p))\<lparr>winfo := Wercd E_OK\<rparr>" "\<not> TSTAT_WAITING (tstat (tcb (snd r) p))"
    by (simp_all add: e TSTAT_defs)
  have wt: "TSTAT_WAITING (tstat (tcb ?s p))"
    using waitq_waiting(1)[OF winvD(1)[OF assms(1)], of p q] assms(2,3) by simp
  show "evts (tme (snd r)) (TskTmevtb p) = None"
    using tm_dequeued_without[OF winvD(1)[OF w] wt] by (simp add: e tm_without_def)
  have n: "p \<notin> set (queues (snd r) h)" if "is_waitq h" for h
    using q_free_delete[OF ok, of p] q[OF that] by (simp add: q_free_def d)
  show "wait_sub Q s (snd r)"
    unfolding wait_sub_def
  proof (intro allI impI conjI ballI)
    fix h assume h: "is_waitq h"
    show "set (queues (snd r) h) \<subseteq> set (queues s h)" "length (queues (snd r) h) \<le> length (queues s h)"
      using assms(2) by (auto simp: q[OF h])
    show "winfos (snd r) x = winfos s x" if "x \<in> set (queues (snd r) h)" for x
      using n[OF h] t[of x] that by metis
  qed
qed

text \<open>The running task blocks in the wait queue or in the second wait queue of an object.\<close>

lemma block_obj:
  assumes "kinv s" and "p_runtsk s = Some p" and "c = wait_code (WaitQ w)"
    and "\<And>w. winfo (g w) = winfo w \<and> p_wobjcb (g w) = p_wobjcb w"
    and "s' = wobj_make_wait_tmout w tmout (set_tstat p (TS_WAITING OR c) (upd_winfo p g s))"
  shows "kinv (dispatch s')" and "wait_sub {WaitQ w} s s'" and "objects s' = objects s"
    and "queues s' (RWaitQ w) = queues s (RWaitQ w)" and "p \<notin> set (queues s (WaitQ w))"
    and "set (queues s' (WaitQ w)) = insert p (set (queues s (WaitQ w)))"
    and "length (queues s' (WaitQ w)) = Suc (length (queues s (WaitQ w)))"
    and "winfos s' p = (g (winfos s p))\<lparr>winfo := tmo_winfo p tmout, p_wobjcb := w\<rparr>"
    and "x \<noteq> p \<Longrightarrow> tcb s' x = tcb s x"
    and "wobjatr s w AND TA_TPRI = 0 \<Longrightarrow> queues s' (WaitQ w) = queues s (WaitQ w) @ [p]"
proof -
  show "kinv (dispatch s')" unfolding assms(5) by (rule kinv_wobj_wait_data[OF assms(1-4)])
  show "wait_sub {WaitQ w} s s'"
    unfolding assms(5) by (rule wait_sub_wobj_wait[OF kinvD(2)[OF assms(1)] assms(2)]) (simp_all add: assms(2))
  show "objects s' = objects s" by (simp add: assms(5))
  have n: "p \<notin> set (queues s h)" if "is_waitq h" for h
    using tsk_invD(5)[OF kinvD(1)[OF assms(1)], of p h] kinvD(3)[OF assms(1,2)] that
    by (auto simp: task_place_def is_waitq_def split: if_splits)
  show "queues s' (RWaitQ w) = queues s (RWaitQ w)"
    using n[of "RWaitQ w"] by (simp add: assms(2,5) queue_simps is_waitq_def remove1_idem)
  show nw: "p \<notin> set (queues s (WaitQ w))" using n[of "WaitQ w"] by (simp add: is_waitq_def)
  show "set (queues s' (WaitQ w)) = insert p (set (queues s (WaitQ w)))"
    "length (queues s' (WaitQ w)) = Suc (length (queues s (WaitQ w)))"
    using nw by (simp_all add: assms(2,5) queue_simps remove1_idem)
  show "wobjatr s w AND TA_TPRI = 0 \<Longrightarrow> queues s' (WaitQ w) = queues s (WaitQ w) @ [p]"
    using nw by (simp add: assms(2,5) queue_simps remove1_idem)
  show "winfos s' p = (g (winfos s p))\<lparr>winfo := tmo_winfo p tmout, p_wobjcb := w\<rparr>" "x \<noteq> p \<Longrightarrow> tcb s' x = tcb s x"
    by (simp_all add: assms(2,5))
qed

lemma rblock_obj:
  assumes "kinv s" and "p_runtsk s = Some p" and "c = wait_code (RWaitQ w)" and "c \<noteq> TS_WAIT_DLY"
    and "s' = rwait_tmout w tmout (set_tstat p (TS_WAITING OR c) s)"
  shows "kinv (dispatch s')" and "wait_sub {RWaitQ w} s s'" and "objects s' = objects s"
    and "queues s' (WaitQ w) = queues s (WaitQ w)" and "p \<notin> set (queues s (RWaitQ w))"
    and "queues s' (RWaitQ w) = queues s (RWaitQ w) @ [p]"
    and "winfos s' p = (winfos s p)\<lparr>winfo := tmo_winfo p tmout, p_wobjcb := w\<rparr>"
    and "x \<noteq> p \<Longrightarrow> tcb s' x = tcb s x"
proof -
  show "kinv (dispatch s')" unfolding assms(5) using kinv_rwait[OF assms(1-4)] assms(2) by simp
  show "wait_sub {RWaitQ w} s s'"
    unfolding assms(5) by (rule wait_sub_rwait[OF kinvD(2)[OF assms(1)] assms(2)]) (simp_all add: assms(2))
  show "objects s' = objects s" by (simp add: assms(5) rwait_tmout_sel)
  have n: "p \<notin> set (queues s h)" if "is_waitq h" for h
    using tsk_invD(5)[OF kinvD(1)[OF assms(1)], of p h] kinvD(3)[OF assms(1,2)] that
    by (auto simp: task_place_def is_waitq_def split: if_splits)
  show "queues s' (WaitQ w) = queues s (WaitQ w)" "queues s' (RWaitQ w) = queues s (RWaitQ w) @ [p]"
    using n[of "RWaitQ w"] n[of "WaitQ w"]
    by (simp_all add: assms(2,5) queue_simps is_waitq_def remove1_idem rwait_tmout_sel)
  show "p \<notin> set (queues s (RWaitQ w))" using n[of "RWaitQ w"] by (simp add: is_waitq_def)
  show "winfos s' p = (winfos s p)\<lparr>winfo := tmo_winfo p tmout, p_wobjcb := w\<rparr>" "x \<noteq> p \<Longrightarrow> tcb s' x = tcb s x"
    by (simp_all add: assms(2,5) rwait_tmout_sel)
qed

text \<open>Emptying one or both wait queues of an object.\<close>

lemma init_wait_queue_obj:
  assumes "winv s" and "r = init_wait_queue (WaitQ w) s"
  shows "op_ok s r" and "queues (snd r) (WaitQ w) = []" and "queues (snd r) (RWaitQ w) = queues s (RWaitQ w)"
    and "wait_sub Q s (snd r)" and "objects (snd r) = objects s"
proof -
  have q: "is_waitq (WaitQ w)" "is_waitq (RWaitQ w)" by (simp_all add: is_waitq_def)
  show "op_ok s r" "queues (snd r) (WaitQ w) = []"
    using init_wait_queue_op_ok[OF q(1) assms(1)] by (simp_all add: assms(2))
  show "queues (snd r) (RWaitQ w) = queues s (RWaitQ w)"
    using init_wait_queue_other[OF q(1) assms(1) q(2)] by (simp add: assms(2))
  show "wait_sub Q s (snd r)" unfolding assms(2) by (rule wait_sub_init_wait_queue[OF q(1) assms(1)])
  show "objects (snd r) = objects s" by (simp add: assms(2))
qed

lemma init_wait_queues_obj:
  assumes "winv s" and "r1 = init_wait_queue (WaitQ w) s" and "r2 = init_wait_queue (RWaitQ w) (snd r1)"
    and "r = (fst r1 \<or> fst r2, snd r2)"
  shows "op_ok s r" and "objects (snd r) = objects s" and "queues (snd r) (WaitQ w) = []"
    and "queues (snd r) (RWaitQ w) = []" and "wait_sub Q s (snd r)"
proof -
  have q: "is_waitq (WaitQ w)" "is_waitq (RWaitQ w)" by (simp_all add: is_waitq_def)
  note a = init_wait_queue_op_ok[OF q(1) assms(1), folded assms(2)]
  have w: "winv (snd r1)" using a by (simp add: op_ok_def)
  note b = init_wait_queue_op_ok[OF q(2) w, folded assms(3)]
  show "op_ok s r" using op_ok_trans[of s r1 r2] a b by (simp add: assms(4))
  show "queues (snd r) (RWaitQ w) = []" using b by (simp add: assms(4))
  show "queues (snd r) (WaitQ w) = []"
    using a init_wait_queue_other[OF q(2) w, of "WaitQ w", folded assms(3)] q(1) by (simp add: assms(4))
  show "wait_sub Q s (snd r)"
    using wait_sub_trans[OF wait_sub_init_wait_queue[OF q(1) assms(1), folded assms(2)]
        wait_sub_init_wait_queue[OF q(2) w, folded assms(3)]] by (simp add: assms(4))
  show "objects (snd r) = objects s" by (simp add: assms(2-4))
qed

lemma kinv_after_same:
  assumes "kinv s" and "op_ok s r" and "same_tasks (snd r) s'" and "wobjatr s' = wobjatr (snd r)"
  shows "kinv (dispatch_if (fst r, s'))"
  by (rule op_ok_dispatch_if[OF assms(1) op_ok_same_tasks[OF assms(2-4)]])

lemma kinv_after:
  assumes "kinv s" and "op_ok s r" and "queues (snd r) (WaitQ v) = []" and "same_tasks (snd r) s'"
    and "\<And>w. w \<noteq> v \<Longrightarrow> wobjatr s' w = wobjatr (snd r) w"
  shows "kinv (dispatch_if (fst r, s'))"
  by (rule kinv_after_init[OF assms(1-3)]) (use assms(4,5) in \<open>simp_all add: same_tasks_def\<close>)

section \<open>The contract of a kind of object\<close>

text \<open>
  The invariant of the objects of one kind: free control blocks are unused, unused objects have no
  waiting tasks, and the local condition \<open>P\<close> holds between the control block of an existing object,
  the waiting information of the tasks, and its two wait queues.
\<close>

definition pool_inv ::
  "(nat \<Rightarrow> wobj) \<Rightarrow> (kernel \<Rightarrow> nat \<Rightarrow> 'cb) \<Rightarrow> ('cb \<Rightarrow> ATR) \<Rightarrow> (kernel \<Rightarrow> nat list) \<Rightarrow>
    ('cb \<Rightarrow> (tsk \<Rightarrow> WINFO) \<Rightarrow> tsk list \<Rightarrow> tsk list \<Rightarrow> bool) \<Rightarrow> nat \<Rightarrow> nat \<Rightarrow> kernel \<Rightarrow> bool" where
  "pool_inv obj cb atr free P lo hi s \<longleftrightarrow> distinct (free s) \<and>
    (\<forall>i \<in> set (free s). atr (cb s i) = TA_NOEXS \<and> lo \<le> i \<and> i < hi) \<and>
    (\<forall>i. if atr (cb s i) = TA_NOEXS then queues s (WaitQ (obj i)) = [] \<and> queues s (RWaitQ (obj i)) = []
         else P (cb s i) (winfos s) (queues s (WaitQ (obj i))) (queues s (RWaitQ (obj i))))"

lemma pool_invD:
  assumes "pool_inv obj cb atr free P lo hi s"
  shows "distinct (free s)" and "i \<in> set (free s) \<Longrightarrow> atr (cb s i) = TA_NOEXS"
    and "i \<in> set (free s) \<Longrightarrow> lo \<le> i \<and> i < hi"
    and "atr (cb s i) = TA_NOEXS \<Longrightarrow> queues s (WaitQ (obj i)) = [] \<and> queues s (RWaitQ (obj i)) = []"
    and "atr (cb s i) \<noteq> TA_NOEXS \<Longrightarrow> P (cb s i) (winfos s) (queues s (WaitQ (obj i))) (queues s (RWaitQ (obj i)))"
  using assms unfolding pool_inv_def by (auto split: if_splits)

lemma pool_inv_cong:
  assumes "tcb s' = tcb s" and "queues s' = queues s" and "cb s' = cb s" and "free s' = free s"
  shows "pool_inv obj cb atr free P lo hi s' = pool_inv obj cb atr free P lo hi s"
  using assms by (simp add: pool_inv_def)

locale object_pool =
  fixes obj :: "nat \<Rightarrow> wobj" and cb :: "kernel \<Rightarrow> nat \<Rightarrow> 'cb" and atr :: "'cb \<Rightarrow> ATR"
    and free :: "kernel \<Rightarrow> nat list"
    and P :: "'cb \<Rightarrow> (tsk \<Rightarrow> WINFO) \<Rightarrow> tsk list \<Rightarrow> tsk list \<Rightarrow> bool"
  assumes obj_inj: "obj i = obj j \<longleftrightarrow> i = j"
    and obj_atr: "wobjatr s (obj i) = atr (cb s i)"
    and frame: "objects s' = objects s \<Longrightarrow> cb s' = cb s \<and> free s' = free s"
    and P_sub: "P c w sq rq \<Longrightarrow> set sq' \<subseteq> set sq \<Longrightarrow> set rq' \<subseteq> set rq \<Longrightarrow> length sq' \<le> length sq \<Longrightarrow>
      length rq' \<le> length rq \<Longrightarrow> (\<And>p. p \<in> set sq' \<union> set rq' \<Longrightarrow> w' p = w p) \<Longrightarrow> P c w' sq' rq'"
begin

abbreviation inv :: "nat \<Rightarrow> nat \<Rightarrow> kernel \<Rightarrow> bool" where
  "inv lo hi s \<equiv> pool_inv obj cb atr free P lo hi s"

lemma local_sub:
  assumes "inv lo hi s" and "wait_sub Q s s'" and "WaitQ (obj j) \<notin> Q" and "RWaitQ (obj j) \<notin> Q"
  shows "if atr (cb s j) = TA_NOEXS then queues s' (WaitQ (obj j)) = [] \<and> queues s' (RWaitQ (obj j)) = []
    else P (cb s j) (winfos s') (queues s' (WaitQ (obj j))) (queues s' (RWaitQ (obj j)))"
proof -
  have q: "is_waitq (WaitQ (obj j))" "is_waitq (RWaitQ (obj j))" by (simp_all add: is_waitq_def)
  note a = wait_subD[OF assms(2) q(1) assms(3)] and b = wait_subD[OF assms(2) q(2) assms(4)]
  show ?thesis
  proof (cases "atr (cb s j) = TA_NOEXS")
    case True
    then show ?thesis using pool_invD(4)[OF assms(1), of j] a(1) b(1) by simp
  next
    case False
    have "P (cb s j) (winfos s') (queues s' (WaitQ (obj j))) (queues s' (RWaitQ (obj j)))"
      by (rule P_sub[OF pool_invD(5)[OF assms(1) False] a(1) b(1) a(2) b(2)]) (use a(3) b(3) in blast)
    then show ?thesis using False by simp
  qed
qed

text \<open>One object changes; of the others only waiting tasks may be taken away.\<close>

lemma inv_one:
  assumes "inv lo hi s" and "free s' = free s" and "\<And>j. j \<noteq> i \<Longrightarrow> cb s' j = cb s j"
    and "wait_sub {WaitQ (obj i), RWaitQ (obj i)} s s'" and "atr (cb s i) \<noteq> TA_NOEXS"
    and "atr (cb s' i) \<noteq> TA_NOEXS"
    and "P (cb s' i) (winfos s') (queues s' (WaitQ (obj i))) (queues s' (RWaitQ (obj i)))"
  shows "inv lo hi s'"
  unfolding pool_inv_def
proof (intro conjI allI ballI)
  fix j assume j: "j \<in> set (free s')"
  then have "j \<noteq> i" using pool_invD(2)[OF assms(1), of j] assms(2,5) by auto
  then show "atr (cb s' j) = TA_NOEXS" using pool_invD(2)[OF assms(1), of j] j assms(2,3) by simp
  show "lo \<le> j" "j < hi" using pool_invD(3)[OF assms(1), of j] j assms(2) by simp_all
next
  fix j
  show "if atr (cb s' j) = TA_NOEXS then queues s' (WaitQ (obj j)) = [] \<and> queues s' (RWaitQ (obj j)) = []
    else P (cb s' j) (winfos s') (queues s' (WaitQ (obj j))) (queues s' (RWaitQ (obj j)))"
  proof (cases "j = i")
    case False
    have "WaitQ (obj j) \<notin> {WaitQ (obj i), RWaitQ (obj i)}" "RWaitQ (obj j) \<notin> {WaitQ (obj i), RWaitQ (obj i)}"
      using False obj_inj by auto
    from local_sub[OF assms(1,4) this] show ?thesis using assms(3)[OF False] by simp
  qed (use assms(6,7) in simp)
qed (use pool_invD(1)[OF assms(1)] assms(2) in simp)

text \<open>Nothing but waiting tasks taken away.\<close>

lemma inv_other:
  assumes "inv lo hi s" and "cb s' = cb s" and "free s' = free s" and "wait_sub Q s s'"
    and "\<And>i. WaitQ (obj i) \<notin> Q \<and> RWaitQ (obj i) \<notin> Q"
  shows "inv lo hi s'"
  using local_sub[OF assms(1,4)] assms(1-3,5) by (simp add: pool_inv_def)

text \<open>Creation of an object from the first free control block, with empty wait queues.\<close>

lemma inv_create:
  assumes "inv lo hi s" and "free s = i # is" and "free s' = is" and "cb s' = (cb s)(i := c)"
    and "atr c \<noteq> TA_NOEXS" and "tcb s' = tcb s" and "queues s' = queues s" and "P c (winfos s) [] []"
  shows "inv lo hi s'"
proof -
  have i: "atr (cb s i) = TA_NOEXS" using pool_invD(2)[OF assms(1)] assms(2) by simp
  have "i \<notin> set is" using pool_invD(1)[OF assms(1)] assms(2) by simp
  then show ?thesis
    using assms(1,5,8) pool_invD(4)[OF assms(1) i]
    by (auto simp: pool_inv_def assms(2-4,6,7))
qed

lemma kinv_create:
  assumes "kinv s" and "inv lo hi s" and "free s = i # is" and "same_tasks s s'"
    and "\<And>w. w \<noteq> obj i \<Longrightarrow> wobjatr s' w = wobjatr s w"
  shows "kinv s'"
proof (rule kinv_atr[OF assms(1), where v = "obj i"])
  show "queues s (WaitQ (obj i)) = []" using pool_invD(2,4)[OF assms(2), of i] assms(3) by simp
qed (use assms(4,5) in \<open>simp_all add: same_tasks_def\<close>)

text \<open>Deletion, after the wait queues of the object have been emptied.\<close>

lemma inv_delete:
  assumes "inv lo hi s" and "atr (cb s i) \<noteq> TA_NOEXS" and "lo \<le> i" and "i < hi"
    and "free s' = free s @ [i]" and "cb s' = (cb s)(i := c)" and "atr c = TA_NOEXS"
    and "wait_sub {} s s'" and "queues s' (WaitQ (obj i)) = []" and "queues s' (RWaitQ (obj i)) = []"
  shows "inv lo hi s'"
proof -
  have "i \<notin> set (free s)" using pool_invD(2)[OF assms(1), of i] assms(2) by auto
  moreover have l: "if atr (cb s' j) = TA_NOEXS then queues s' (WaitQ (obj j)) = [] \<and> queues s' (RWaitQ (obj j)) = []
    else P (cb s' j) (winfos s') (queues s' (WaitQ (obj j))) (queues s' (RWaitQ (obj j)))" for j
    using local_sub[OF assms(1,8), of j] assms(6,7,9,10) by (cases "j = i") simp_all
  moreover have "\<forall>j \<in> set (free s'). atr (cb s' j) = TA_NOEXS \<and> lo \<le> j \<and> j < hi"
    using pool_invD(2,3)[OF assms(1)] assms(3-7) by auto
  ultimately show ?thesis
    unfolding pool_inv_def using pool_invD(1)[OF assms(1)] assms(5)
    by (intro conjI allI) (simp, blast, rule l)
qed

lemma inv_lock [simp]:
  "inv lo hi (t_lock_cpu s) = inv lo hi s" "inv lo hi (t_unlock_cpu s) = inv lo hi s"
  "inv lo hi (i_lock_cpu s) = inv lo hi s" "inv lo hi (i_unlock_cpu s) = inv lo hi s"
  "inv lo hi (dispatch s) = inv lo hi s" "inv lo hi (dispatch_if r) = inv lo hi (snd r)"
  "inv lo hi (reqflg_if r) = inv lo hi (snd r)"
  using frame[OF objects_lock(1)] frame[OF objects_lock(2)] frame[OF objects_lock(3)] frame[OF objects_lock(4)]
    frame[OF objects_lock(5)] frame[OF dispatch_if_objects] frame[OF reqflg_if_objects]
  by (simp_all add: pool_inv_def lock_sel) (simp_all add: dispatch_def dispatch_if_def reqflg_if_def)

text \<open>Together with the kernel invariant, for the body of a service call.\<close>

lemma both_call:
  "kinv (snd (body (t_lock_cpu s))) \<and> inv lo hi (snd (body (t_lock_cpu s))) \<Longrightarrow>
    kinv (snd (tsk_call body s)) \<and> inv lo hi (snd (tsk_call body s))"
  by (simp add: tsk_call_def case_prod_beta)

lemma both_int_call:
  "kinv (snd (body (i_lock_cpu s))) \<and> inv lo hi (snd (body (i_lock_cpu s))) \<Longrightarrow>
    kinv (snd (int_call body s)) \<and> inv lo hi (snd (int_call body s))"
  by (simp add: int_call_def case_prod_beta)

lemma local: "inv lo hi s \<Longrightarrow> atr (cb s i) \<noteq> TA_NOEXS \<Longrightarrow>
    P (cb s i) (winfos s) (queues s (WaitQ (obj i))) (queues s (RWaitQ (obj i)))"
  by (rule pool_invD(5))

text \<open>The control block of one object changes, the queues do not.\<close>

lemma inv_cb:
  assumes "kinv s" and "inv lo hi s" and "atr (cb s i) \<noteq> TA_NOEXS" and "same_tasks s s'" and "wobjatr s' = wobjatr s"
    and "free s' = free s" and "\<And>j. j \<noteq> i \<Longrightarrow> cb s' j = cb s j"
    and "P (cb s' i) (winfos s) (queues s (WaitQ (obj i))) (queues s (RWaitQ (obj i)))"
  shows "kinv s'" and "inv lo hi s'"
proof -
  show "kinv s'" using assms(1) same_tasks_kinv(1)[OF assms(4,5)] by simp
  have a: "atr (cb s' i) \<noteq> TA_NOEXS" using assms(3,5) obj_atr by metis
  show "inv lo hi s'"
    by (rule inv_one[OF assms(2,6,7) _ assms(3) a])
      (use assms(4,8) in \<open>simp_all add: same_tasks_def wait_sub_same\<close>)
qed

text \<open>The control block of one object changes and its first waiting task is released.\<close>

lemma inv_wake:
  assumes "kinv s" and "inv lo hi s" and "atr (cb s i) \<noteq> TA_NOEXS" and "same_tasks s s1" and "wobjatr s1 = wobjatr s"
    and "free s1 = free s" and "\<And>j. j \<noteq> i \<Longrightarrow> cb s1 j = cb s j"
    and "q = WaitQ (obj i) \<or> q = RWaitQ (obj i)" and "queues s q = p # ps"
    and "\<And>w. winfo (g w) = winfo w \<and> p_wobjcb (g w) = p_wobjcb w"
    and "r = wait_complete p (upd_winfo p g (s1\<lparr>queues := (queues s1)(q := ps)\<rparr>))"
    and "P (cb s1 i) (winfos s) (((queues s)(q := ps)) (WaitQ (obj i))) (((queues s)(q := ps)) (RWaitQ (obj i)))"
  shows "op_ok s r" and "inv lo hi (snd r)"
proof -
  have w: "winv s1" using kinvD(2)[OF assms(1)] same_tasks_kinv(2)[OF assms(4,5)] by simp
  have sq: "queues s1 = queues s" "tcb s1 = tcb s" using assms(4) by (simp_all add: same_tasks_def)
  have q: "is_waitq q" "is_waitq (WaitQ (obj i))" "is_waitq (RWaitQ (obj i))" using assms(8) by (auto simp: is_waitq_def)
  have q1: "queues s1 q = p # ps" using assms(9) sq by simp
  note k = wake_obj[OF w q1 q(1) assms(10,11)]
  show "op_ok s r" using same_tasks_op_ok[OF assms(4) k(1)] .
  have f: "cb (snd r) = cb s1" "free (snd r) = free s1" using frame[OF k(3)] by simp_all
  have qs: "queues (snd r) h = ((queues s)(q := ps)) h" if "is_waitq h" for h using k(4)[OF that] sq by simp
  have ws: "wait_sub Q s (snd r)" for Q using k(2) wait_sub_cong[of s1 s "snd r" "snd r"] sq by simp
  have "P (cb (snd r) i) (winfos (snd r)) (queues (snd r) (WaitQ (obj i))) (queues (snd r) (RWaitQ (obj i)))"
    unfolding f qs[OF q(2)] qs[OF q(3)]
  proof (rule P_sub[OF assms(12) subset_refl subset_refl order_refl order_refl])
    fix x assume "x \<in> set (((queues s)(q := ps)) (WaitQ (obj i))) \<union> set (((queues s)(q := ps)) (RWaitQ (obj i)))"
    then show "winfos (snd r) x = winfos s x"
      using wait_subD(3)[OF ws q(2), of "{}" x] wait_subD(3)[OF ws q(3), of "{}" x] by (auto simp: qs q)
  qed
  moreover have "atr (cb (snd r) i) \<noteq> TA_NOEXS" using assms(3,5) obj_atr f(1) by metis
  ultimately show "inv lo hi (snd r)"
    by (intro inv_one[OF assms(2) _ _ ws assms(3)]) (use f assms(6,7) in simp_all)
qed

text \<open>The running task blocks at an object.\<close>

lemma inv_block:
  assumes "kinv s" and "inv lo hi s" and "atr (cb s i) \<noteq> TA_NOEXS" and "p_runtsk s = Some p"
    and "c = wait_code (WaitQ (obj i))" and "\<And>w. winfo (g w) = winfo w \<and> p_wobjcb (g w) = p_wobjcb w"
    and "s' = wobj_make_wait_tmout (obj i) tmout (set_tstat p (TS_WAITING OR c) (upd_winfo p g s))"
    and "\<And>w sq v u. (\<And>x. x \<noteq> p \<Longrightarrow> w x = winfos s x) \<Longrightarrow> w p = (g (winfos s p))\<lparr>winfo := v, p_wobjcb := u\<rparr> \<Longrightarrow>
      set sq = insert p (set (queues s (WaitQ (obj i)))) \<Longrightarrow> length sq = Suc (length (queues s (WaitQ (obj i)))) \<Longrightarrow>
      P (cb s i) w sq (queues s (RWaitQ (obj i)))"
  shows "kinv (dispatch s')" and "inv lo hi s'"
proof -
  note k = block_obj[OF assms(1,4,5,6,7)]
  show "kinv (dispatch s')" by (rule k(1))
  have f: "cb s' = cb s" "free s' = free s" using frame[OF k(3)] by simp_all
  have "P (cb s' i) (winfos s') (queues s' (WaitQ (obj i))) (queues s' (RWaitQ (obj i)))"
    unfolding f k(4) by (rule assms(8)[where w = "winfos s'", OF _ k(8) k(6,7)]) (use k(9) in simp)
  then show "inv lo hi s'"
    by (intro inv_one[OF assms(2) _ _ _ assms(3)]) (use f assms(3) wait_sub_mono[OF k(2)] in simp_all)
qed

lemma inv_rblock:
  assumes "kinv s" and "inv lo hi s" and "atr (cb s i) \<noteq> TA_NOEXS" and "p_runtsk s = Some p"
    and "c = wait_code (RWaitQ (obj i))" and "c \<noteq> TS_WAIT_DLY"
    and "s' = rwait_tmout (obj i) tmout (set_tstat p (TS_WAITING OR c) s)"
    and "\<And>w. (\<And>x. x \<noteq> p \<Longrightarrow> w x = winfos s x) \<Longrightarrow>
      P (cb s i) w (queues s (WaitQ (obj i))) (queues s (RWaitQ (obj i)) @ [p])"
  shows "kinv (dispatch s')" and "inv lo hi s'"
proof -
  note k = rblock_obj[OF assms(1,4-7)]
  show "kinv (dispatch s')" by (rule k(1))
  have f: "cb s' = cb s" "free s' = free s" using frame[OF k(3)] by simp_all
  have "P (cb s' i) (winfos s') (queues s' (WaitQ (obj i))) (queues s' (RWaitQ (obj i)))"
    unfolding f k(4,6) by (rule assms(8)) (use k(8) in simp)
  then show "inv lo hi s'"
    by (intro inv_one[OF assms(2) _ _ _ assms(3)]) (use f assms(3) wait_sub_mono[OF k(2)] in simp_all)
qed

text \<open>The waiting tasks of an object are all released, then its control block changes or it is deleted.\<close>

lemma inv_init:
  assumes "kinv s" and "inv lo hi s" and "atr (cb s i) \<noteq> TA_NOEXS" and "op_ok s r" and "objects (snd r) = objects s"
    and "queues (snd r) (WaitQ (obj i)) = []" and "queues (snd r) (RWaitQ (obj i)) = []" and "wait_sub {} s (snd r)"
    and "same_tasks (snd r) s'" and "\<And>j. j \<noteq> i \<Longrightarrow> cb s' j = cb s j"
    and "\<And>w. w \<noteq> obj i \<Longrightarrow> wobjatr s' w = wobjatr s w"
  shows "kinv (dispatch_if (fst r, s'))"
    and "free s' = free s \<Longrightarrow> atr (cb s' i) \<noteq> TA_NOEXS \<Longrightarrow> P (cb s' i) (winfos s) [] [] \<Longrightarrow> inv lo hi s'"
    and "free s' = free s @ [i] \<Longrightarrow> atr (cb s' i) = TA_NOEXS \<Longrightarrow> lo \<le> i \<Longrightarrow> i < hi \<Longrightarrow> inv lo hi s'"
proof -
  show "kinv (dispatch_if (fst r, s'))"
    by (rule kinv_after[OF assms(1,4,6,9)]) (simp add: assms(11) wobjatr_objects[OF assms(5)])
  have st: "queues s' = queues (snd r)" "tcb s' = tcb (snd r)" using assms(9) by (simp_all add: same_tasks_def)
  have ws: "wait_sub {} s s'" using assms(8) wait_sub_cong[of s s s' "snd r"] st by simp
  show "inv lo hi s'" if a: "free s' = free s" "atr (cb s' i) \<noteq> TA_NOEXS" "P (cb s' i) (winfos s) [] []"
  proof (rule inv_one[OF assms(2) a(1) assms(10) wait_sub_mono[OF ws] assms(3) a(2)])
    show "P (cb s' i) (winfos s') (queues s' (WaitQ (obj i))) (queues s' (RWaitQ (obj i)))"
      using P_sub[OF a(3), of "[]" "[]" "winfos s'"] assms(6,7) st by simp
  qed simp_all
  have "cb s' = (cb s)(i := cb s' i)" using assms(10) by auto
  then show "inv lo hi s'" if "free s' = free s @ [i]" "atr (cb s' i) = TA_NOEXS" "lo \<le> i" "i < hi"
    using inv_delete[OF assms(2,3) that(3,4,1) _ that(2) ws] assms(6,7) st by simp
qed

end

end
