(* ===== verification/Asp_Eventflag.thy ===== *)
theory Asp_Eventflag
  imports Asp_Object
begin

text \<open>
  Event flags, \<^verbatim>\<open>kernel/eventflag.c\<close>. The invariant \<open>flg_inv\<close> says that no task waits whose release
  condition the current pattern satisfies, and that at most one task waits at a flag without
  \<open>TA_WMUL\<close>.
\<close>

section \<open>Operations\<close>

definition tnum_flg :: "kernel_cfg \<Rightarrow> nat" where "tnum_flg cfg = nat (tmax_flgid cfg)"
definition tnum_sflg :: "kernel_cfg \<Rightarrow> nat" where "tnum_sflg cfg = nat (tmax_sflgid cfg)"
definition INDEX_FLG :: "ID \<Rightarrow> nat" where "INDEX_FLG flgid = nat (flgid - 1)"
definition FLGID :: "nat \<Rightarrow> ID" where "FLGID i = int i + 1"

definition VALID_FLGID :: "kernel_cfg \<Rightarrow> ID \<Rightarrow> bool" where
  "VALID_FLGID cfg flgid \<longleftrightarrow> 1 \<le> flgid \<and> flgid \<le> tmax_flgid cfg"

abbreviation upd_flg :: "nat \<Rightarrow> (FLGCB \<Rightarrow> FLGCB) \<Rightarrow> kernel \<Rightarrow> kernel" where
  "upd_flg i g s \<equiv> s\<lparr>flgcb := (flgcb s)(i := g (flgcb s i))\<rparr>"

abbreviation flg_atr :: "kernel \<Rightarrow> nat \<Rightarrow> ATR" where
  "flg_atr s i \<equiv> flgatr (p_flginib (flgcb s i))"

definition initialize_eventflag :: "kernel_cfg \<Rightarrow> kernel \<Rightarrow> kernel" where
  "initialize_eventflag cfg s =
    (let s = fold (\<lambda>i s.
               let s = s\<lparr>queues := q_initialize (WaitQ (FLG i)) (queues s)\<rparr>;
                   s = upd_flg i (\<lambda>c. c\<lparr>p_flginib := flginib_table cfg i\<rparr>) s
               in upd_flg i (\<lambda>c. c\<lparr>flgptn := iflgptn (p_flginib c)\<rparr>) s)
             [0..<tnum_sflg cfg] s;
         s = s\<lparr>free_flgcb := []\<rparr>
     in fold (\<lambda>i s.
          let s = upd_flg i (\<lambda>c. c\<lparr>p_flginib := (p_flginib c)\<lparr>flgatr := TA_NOEXS\<rparr>\<rparr>) s
          in s\<lparr>free_flgcb := free_flgcb s @ [i]\<rparr>)
        [tnum_sflg cfg..<tnum_flg cfg] s)"

text \<open>The condition of \<open>check_flg_cond\<close>.\<close>

definition flg_cond :: "FLGPTN \<Rightarrow> FLGPTN \<Rightarrow> MODE \<Rightarrow> bool" where
  "flg_cond ptn waiptn wfmode =
    (if wfmode AND TWF_ORW \<noteq> 0 then ptn AND waiptn \<noteq> 0 else ptn AND waiptn = waiptn)"

text \<open>The function returns \<open>true\<close> exactly when it stores a pattern through \<open>p_flgptn\<close>.\<close>

definition check_flg_cond :: "nat \<Rightarrow> FLGPTN \<Rightarrow> MODE \<Rightarrow> kernel \<Rightarrow> FLGPTN option \<times> kernel" where
  "check_flg_cond i waiptn wfmode s =
    (if flg_cond (flgptn (flgcb s i)) waiptn wfmode
     then (let ptn = flgptn (flgcb s i);
               s = (if flg_atr s i AND TA_CLR \<noteq> 0 then upd_flg i (\<lambda>c. c\<lparr>flgptn := 0\<rparr>) s else s)
           in (Some ptn, s))
     else (None, s))"

definition acre_flg :: "kernel_cfg \<Rightarrow> FLGINIB \<Rightarrow> kernel \<Rightarrow> result \<times> kernel" where
  "acre_flg cfg pk_cflg s =
    (if \<not> CHECK_TSKCTX_UNL s then (Ret E_CTX, s)
     else if \<not> CHECK_RSATR (flgatr pk_cflg) (TA_TPRI OR TA_WMUL OR TA_CLR) then (Ret E_RSATR, s)
     else tsk_call (\<lambda>s.
       if tnum_flg cfg = 0 \<or> free_flgcb s = [] then (Ret E_NOID, s)
       else (let i = hd (free_flgcb s);
                 s = s\<lparr>free_flgcb := tl (free_flgcb s)\<rparr>;
                 s = upd_flg i (\<lambda>c. c\<lparr>p_flginib := (p_flginib c)\<lparr>flgatr := flgatr pk_cflg,
                       iflgptn := iflgptn pk_cflg\<rparr>\<rparr>) s;
                 s = s\<lparr>queues := q_initialize (WaitQ (FLG i)) (queues s)\<rparr>;
                 s = upd_flg i (\<lambda>c. c\<lparr>flgptn := iflgptn (p_flginib c)\<rparr>) s
             in (Ret (FLGID i), s))) s)"

definition del_flg :: "kernel_cfg \<Rightarrow> ID \<Rightarrow> kernel \<Rightarrow> result \<times> kernel" where
  "del_flg cfg flgid s =
    (if \<not> CHECK_TSKCTX_UNL s then (Ret E_CTX, s)
     else if \<not> VALID_FLGID cfg flgid then (Ret E_ID, s)
     else let i = INDEX_FLG flgid in tsk_call (\<lambda>s.
       if flg_atr s i = TA_NOEXS then (Ret E_NOEXS, s)
       else if FLGID i > tmax_sflgid cfg
       then (let (dspreq, s) = init_wait_queue (WaitQ (FLG i)) s;
                 s = upd_flg i (\<lambda>c. c\<lparr>p_flginib := (p_flginib c)\<lparr>flgatr := TA_NOEXS\<rparr>\<rparr>) s;
                 s = s\<lparr>free_flgcb := free_flgcb s @ [i]\<rparr>
             in (Ret E_OK, dispatch_if (dspreq, s)))
       else (Ret E_OBJ, s)) s)"

text \<open>
  The loop over the wait queue of \<open>set_flg\<close> and \<open>iset_flg\<close>. It reads the link to the next task
  before it takes the current one out, and only the current task leaves the queue, so it visits
  the tasks that were in the queue at the start.
\<close>

fun set_flg_loop :: "nat \<Rightarrow> tsk list \<Rightarrow> kernel \<Rightarrow> bool \<times> kernel" where
  "set_flg_loop i [] s = (False, s)"
| "set_flg_loop i (p_tcb # ps) s =
    (case check_flg_cond i (w_waiptn (winfos s p_tcb)) (w_wfmode (winfos s p_tcb)) s of
       (None, s) \<Rightarrow> set_flg_loop i ps s
     | (Some ptn, s) \<Rightarrow>
        (let s = upd_winfo p_tcb (\<lambda>w. w\<lparr>w_flgptn := ptn\<rparr>) s;
             s = s\<lparr>queues := q_delete p_tcb (queues s)\<rparr>;
             (d, s) = wait_complete p_tcb s
         in if flg_atr s i AND TA_CLR \<noteq> 0 then (d, s)
            else (let (dspreq, s) = set_flg_loop i ps s in (d \<or> dspreq, s))))"

definition set_flg :: "kernel_cfg \<Rightarrow> ID \<Rightarrow> FLGPTN \<Rightarrow> kernel \<Rightarrow> result \<times> kernel" where
  "set_flg cfg flgid setptn s =
    (if \<not> CHECK_TSKCTX_UNL s then (Ret E_CTX, s)
     else if \<not> VALID_FLGID cfg flgid then (Ret E_ID, s)
     else let i = INDEX_FLG flgid in tsk_call (\<lambda>s.
       if flg_atr s i = TA_NOEXS then (Ret E_NOEXS, s)
       else (let s = upd_flg i (\<lambda>c. c\<lparr>flgptn := flgptn c OR setptn\<rparr>) s
             in (Ret E_OK, dispatch_if (set_flg_loop i (queues s (WaitQ (FLG i))) s)))) s)"

text \<open>\<open>iset_flg\<close> sets \<open>reqflg\<close> in the loop; the loop does not read it.\<close>

definition iset_flg :: "kernel_cfg \<Rightarrow> ID \<Rightarrow> FLGPTN \<Rightarrow> kernel \<Rightarrow> result \<times> kernel" where
  "iset_flg cfg flgid setptn s =
    (if \<not> CHECK_INTCTX_UNL s then (Ret E_CTX, s)
     else if \<not> VALID_FLGID cfg flgid then (Ret E_ID, s)
     else let i = INDEX_FLG flgid in int_call (\<lambda>s.
       if flg_atr s i = TA_NOEXS then (Ret E_NOEXS, s)
       else (let s = upd_flg i (\<lambda>c. c\<lparr>flgptn := flgptn c OR setptn\<rparr>) s
             in (Ret E_OK, reqflg_if (set_flg_loop i (queues s (WaitQ (FLG i))) s)))) s)"

definition clr_flg :: "kernel_cfg \<Rightarrow> ID \<Rightarrow> FLGPTN \<Rightarrow> kernel \<Rightarrow> result \<times> kernel" where
  "clr_flg cfg flgid clrptn s =
    (if \<not> CHECK_TSKCTX_UNL s then (Ret E_CTX, s)
     else if \<not> VALID_FLGID cfg flgid then (Ret E_ID, s)
     else let i = INDEX_FLG flgid in tsk_call (\<lambda>s.
       if flg_atr s i = TA_NOEXS then (Ret E_NOEXS, s)
       else (Ret E_OK, upd_flg i (\<lambda>c. c\<lparr>flgptn := flgptn c AND clrptn\<rparr>) s)) s)"

text \<open>
  The calls that wait also return the pattern at the release: at once, or in \<open>w_flgptn\<close> of the
  waiting information when the wait ends with \<open>E_OK\<close>.
\<close>

definition wai_flg :: "kernel_cfg \<Rightarrow> ID \<Rightarrow> FLGPTN \<Rightarrow> MODE \<Rightarrow> kernel \<Rightarrow> (result \<times> FLGPTN option) \<times> kernel" where
  "wai_flg cfg flgid waiptn wfmode s =
    (if \<not> CHECK_DISPATCH s then ((Ret E_CTX, None), s)
     else if \<not> VALID_FLGID cfg flgid then ((Ret E_ID, None), s)
     else if waiptn = 0 then ((Ret E_PAR, None), s)
     else if \<not> (wfmode = TWF_ORW \<or> wfmode = TWF_ANDW) then ((Ret E_PAR, None), s)
     else let i = INDEX_FLG flgid in tsk_call (\<lambda>s.
       if flg_atr s i = TA_NOEXS then ((Ret E_NOEXS, None), s)
       else if flg_atr s i AND TA_WMUL = 0 \<and> \<not> q_empty (WaitQ (FLG i)) (queues s) then ((Ret E_ILUSE, None), s)
       else (case check_flg_cond i waiptn wfmode s of
          (Some ptn, s) \<Rightarrow> ((Ret E_OK, Some ptn), s)
        | (None, s) \<Rightarrow>
           (let s = upd_winfo (runtsk s) (\<lambda>w. w\<lparr>w_waiptn := waiptn\<rparr>) s;
                s = upd_winfo (runtsk s) (\<lambda>w. w\<lparr>w_wfmode := wfmode\<rparr>) s;
                s = set_tstat (runtsk s) (TS_WAITING OR TS_WAIT_FLG) s;
                s = wobj_make_wait (FLG i) s
            in ((Wait_ercd (runtsk s), None), dispatch s)))) s)"

definition pol_flg :: "kernel_cfg \<Rightarrow> ID \<Rightarrow> FLGPTN \<Rightarrow> MODE \<Rightarrow> kernel \<Rightarrow> (result \<times> FLGPTN option) \<times> kernel" where
  "pol_flg cfg flgid waiptn wfmode s =
    (if \<not> CHECK_TSKCTX_UNL s then ((Ret E_CTX, None), s)
     else if \<not> VALID_FLGID cfg flgid then ((Ret E_ID, None), s)
     else if waiptn = 0 then ((Ret E_PAR, None), s)
     else if \<not> (wfmode = TWF_ORW \<or> wfmode = TWF_ANDW) then ((Ret E_PAR, None), s)
     else let i = INDEX_FLG flgid in tsk_call (\<lambda>s.
       if flg_atr s i = TA_NOEXS then ((Ret E_NOEXS, None), s)
       else if flg_atr s i AND TA_WMUL = 0 \<and> \<not> q_empty (WaitQ (FLG i)) (queues s) then ((Ret E_ILUSE, None), s)
       else (case check_flg_cond i waiptn wfmode s of
          (Some ptn, s) \<Rightarrow> ((Ret E_OK, Some ptn), s)
        | (None, s) \<Rightarrow> ((Ret E_TMOUT, None), s))) s)"

definition twai_flg :: "kernel_cfg \<Rightarrow> ID \<Rightarrow> FLGPTN \<Rightarrow> MODE \<Rightarrow> TMO \<Rightarrow> kernel \<Rightarrow> (result \<times> FLGPTN option) \<times> kernel" where
  "twai_flg cfg flgid waiptn wfmode tmout s =
    (if \<not> CHECK_DISPATCH s then ((Ret E_CTX, None), s)
     else if \<not> VALID_FLGID cfg flgid then ((Ret E_ID, None), s)
     else if waiptn = 0 then ((Ret E_PAR, None), s)
     else if \<not> (wfmode = TWF_ORW \<or> wfmode = TWF_ANDW) then ((Ret E_PAR, None), s)
     else if \<not> CHECK_TMOUT tmout then ((Ret E_PAR, None), s)
     else let i = INDEX_FLG flgid in tsk_call (\<lambda>s.
       if flg_atr s i = TA_NOEXS then ((Ret E_NOEXS, None), s)
       else if flg_atr s i AND TA_WMUL = 0 \<and> \<not> q_empty (WaitQ (FLG i)) (queues s) then ((Ret E_ILUSE, None), s)
       else (case check_flg_cond i waiptn wfmode s of
          (Some ptn, s) \<Rightarrow> ((Ret E_OK, Some ptn), s)
        | (None, s) \<Rightarrow>
           (if tmout = TMO_POL then ((Ret E_TMOUT, None), s)
            else (let s = upd_winfo (runtsk s) (\<lambda>w. w\<lparr>w_waiptn := waiptn\<rparr>) s;
                      s = upd_winfo (runtsk s) (\<lambda>w. w\<lparr>w_wfmode := wfmode\<rparr>) s;
                      s = set_tstat (runtsk s) (TS_WAITING OR TS_WAIT_FLG) s;
                      s = wobj_make_wait_tmout (FLG i) tmout s
                  in ((Wait_ercd (runtsk s), None), dispatch s))))) s)"

definition ini_flg :: "kernel_cfg \<Rightarrow> ID \<Rightarrow> kernel \<Rightarrow> result \<times> kernel" where
  "ini_flg cfg flgid s =
    (if \<not> CHECK_TSKCTX_UNL s then (Ret E_CTX, s)
     else if \<not> VALID_FLGID cfg flgid then (Ret E_ID, s)
     else let i = INDEX_FLG flgid in tsk_call (\<lambda>s.
       if flg_atr s i = TA_NOEXS then (Ret E_NOEXS, s)
       else (let (dspreq, s) = init_wait_queue (WaitQ (FLG i)) s;
                 s = upd_flg i (\<lambda>c. c\<lparr>flgptn := iflgptn (p_flginib c)\<rparr>) s
             in (Ret E_OK, dispatch_if (dspreq, s)))) s)"

record T_RFLG =
  rflg_wtskid :: ID
  rflg_flgptn :: FLGPTN

definition ref_flg :: "kernel_cfg \<Rightarrow> ID \<Rightarrow> kernel \<Rightarrow> (result \<times> T_RFLG option) \<times> kernel" where
  "ref_flg cfg flgid s =
    (if \<not> CHECK_TSKCTX_UNL s then ((Ret E_CTX, None), s)
     else if \<not> VALID_FLGID cfg flgid then ((Ret E_ID, None), s)
     else let i = INDEX_FLG flgid in tsk_call (\<lambda>s.
       if flg_atr s i = TA_NOEXS then ((Ret E_NOEXS, None), s)
       else ((Ret E_OK, Some \<lparr>rflg_wtskid = wait_tskid (WaitQ (FLG i)) s,
                             rflg_flgptn = flgptn (flgcb s i)\<rparr>), s)) s)"

section \<open>The invariant of the event flags\<close>

definition flg_ok :: "FLGCB \<Rightarrow> (tsk \<Rightarrow> WINFO) \<Rightarrow> tsk list \<Rightarrow> tsk list \<Rightarrow> bool" where
  "flg_ok c w sq rq \<longleftrightarrow> rq = [] \<and>
    (flgatr (p_flginib c) AND TA_WMUL = 0 \<longrightarrow> length sq \<le> 1) \<and>
    (\<forall>p \<in> set sq. w_waiptn (w p) \<noteq> 0 \<and> (w_wfmode (w p) = TWF_ORW \<or> w_wfmode (w p) = TWF_ANDW) \<and>
      \<not> flg_cond (flgptn c) (w_waiptn (w p)) (w_wfmode (w p)))"

interpretation flg: object_pool FLG flgcb "\<lambda>c. flgatr (p_flginib c)" free_flgcb flg_ok
proof
  show "flgcb s' = flgcb s \<and> free_flgcb s' = free_flgcb s" if "objects s' = objects s" for s' s
    using objectsD[OF that] by simp
  show "flg_ok c w' sq' rq'"
    if "flg_ok c w sq rq" "set sq' \<subseteq> set sq" "set rq' \<subseteq> set rq" "length sq' \<le> length sq" "\<And>p. p \<in> set sq' \<union> set rq' \<Longrightarrow> w' p = w p"
    for c w sq rq sq' rq' w'
    using that by (auto simp: flg_ok_def subset_iff)
qed (simp_all add: wobjatr_def)

definition flg_inv :: "kernel_cfg \<Rightarrow> kernel \<Rightarrow> bool" where
  "flg_inv cfg s \<longleftrightarrow>
    pool_inv FLG flgcb (\<lambda>c. flgatr (p_flginib c)) free_flgcb flg_ok (tnum_sflg cfg) (tnum_flg cfg) s"

lemma flg_cond_zero: "w \<noteq> 0 \<Longrightarrow> m = TWF_ORW \<or> m = TWF_ANDW \<Longrightarrow> \<not> flg_cond 0 w m"
  by (auto simp: flg_cond_def)

lemma flg_cond_and:
  assumes "\<not> flg_cond ptn w m"
  shows "\<not> flg_cond (ptn AND clr) w m"
proof -
  have "(ptn AND clr) AND w = (ptn AND w) AND clr" by (simp add: ac_simps)
  moreover have "ptn AND w = w" if "(ptn AND w) AND clr = w"
    using that by (metis and.assoc and.commute and.idem)
  ultimately show ?thesis using assms by (auto simp: flg_cond_def)
qed

lemma wobjatr_flgcb [simp]:
  "flgatr (p_flginib c) = flg_atr s i \<Longrightarrow> wobjatr (s\<lparr>flgcb := (flgcb s)(i := c)\<rparr>) = wobjatr s"
  "wobjatr (s\<lparr>free_flgcb := l\<rparr>) = wobjatr s"
  by (rule ext, simp add: wobjatr_def split: wobj.split)+

lemma wobjatr_flg_other: "w \<noteq> FLG i \<Longrightarrow> wobjatr (s\<lparr>flgcb := (flgcb s)(i := c)\<rparr>) w = wobjatr s w"
  by (simp add: wobjatr_def split: wobj.split)

section \<open>Release by setting a pattern\<close>

text \<open>One step of the loop: the release of a task whose condition holds.\<close>

definition flg_wake :: "nat \<Rightarrow> tsk \<Rightarrow> kernel \<Rightarrow> bool \<times> kernel" where
  "flg_wake i p s =
    (let s = upd_winfo p (\<lambda>w. w\<lparr>w_flgptn := flgptn (flgcb s i)\<rparr>)
          (if flg_atr s i AND TA_CLR \<noteq> 0 then upd_flg i (\<lambda>c. c\<lparr>flgptn := 0\<rparr>) s else s)
     in wait_complete p (s\<lparr>queues := q_delete p (queues s)\<rparr>))"

abbreviation flg_holds :: "nat \<Rightarrow> kernel \<Rightarrow> tsk \<Rightarrow> bool" where
  "flg_holds i s p \<equiv> flg_cond (flgptn (flgcb s i)) (w_waiptn (winfos s p)) (w_wfmode (winfos s p))"

lemma objects_flg_wake:
  "flgcb (snd (flg_wake i p s)) = (if flg_atr s i AND TA_CLR \<noteq> 0 then (flgcb s)(i := (flgcb s i)\<lparr>flgptn := 0\<rparr>) else flgcb s)"
  "free_flgcb (snd (flg_wake i p s)) = free_flgcb s"
  using objectsD(10,11)[OF objects_wait2(1)] by (simp_all add: flg_wake_def Let_def)

lemma set_flg_loop_step:
  "set_flg_loop i (p # ps) s =
    (if flg_holds i s p
     then (if flg_atr s i AND TA_CLR \<noteq> 0 then flg_wake i p s
           else (fst (flg_wake i p s) \<or> fst (set_flg_loop i ps (snd (flg_wake i p s))),
                 snd (set_flg_loop i ps (snd (flg_wake i p s)))))
     else set_flg_loop i ps s)"
  by (cases "flg_atr s i AND TA_CLR = 0")
    (simp_all add: check_flg_cond_def flg_wake_def Let_def case_prod_beta objectsD(10)[OF objects_wait2(1)])

declare set_flg_loop.simps(2) [simp del]

lemma flg_wake_release:
  assumes "winv s" and "p \<in> set (queues s (WaitQ (FLG i)))"
  shows "op_ok s (flg_wake i p s)" and "wait_sub Q s (snd (flg_wake i p s))"
    and "tcb (snd (flg_wake i p s)) = (tcb s)(p := released E_OK ((tcb s p)\<lparr>p_winfo := (winfos s p)\<lparr>w_flgptn := flgptn (flgcb s i)\<rparr>\<rparr>))"
    and "is_waitq q \<Longrightarrow> queues (snd (flg_wake i p s)) q = remove1 p (queues s q)"
proof -
  define s1 where "s1 = upd_winfo p (\<lambda>w. w\<lparr>w_flgptn := flgptn (flgcb s i)\<rparr>)
      (if flg_atr s i AND TA_CLR \<noteq> 0 then upd_flg i (\<lambda>c. c\<lparr>flgptn := 0\<rparr>) s else s)"
  note t = winvD(1)[OF assms(1)]
  have "tskatr (p_tinib (tcb s p)) = TA_NOEXS \<or> bpriority (tcb s p) < TNUM_TPRI"
    using tsk_invD(3)[OF t, of p] by (auto simp: tcb_ok_def split: if_splits)
  then have "tsk_inv (upd_winfo p (\<lambda>w. w\<lparr>w_flgptn := flgptn (flgcb s i)\<rparr>) s)" (is "tsk_inv ?s0")
    by (intro tsk_inv_tcb[OF t]) simp_all
  then have w0: "winv ?s0" using assms(1) by (simp add: winv_def)
  have "same_tasks ?s0 s1" "wobjatr s1 = wobjatr ?s0" by (auto simp: s1_def same_tasks_def)
  then have w: "winv s1" using same_tasks_kinv(2) w0 by blast
  have wt: "TSTAT_WAITING (tstat (tcb s1 p))"
    using waitq_waiting(1)[OF t assms(2)] by (simp add: s1_def is_waitq_def)
  have "tm_dequeued p (s1\<lparr>queues := q_delete p (queues s1)\<rparr>) = tm_dequeued p s1" by (rule tm_dequeued_cong) simp_all
  then have e: "flg_wake i p s = release E_OK (tm_dequeued p s1) p s1"
    by (simp add: flg_wake_def wait_complete_def wait_dequeue_tmevtb_eq release_def Let_def s1_def[symmetric])
  have "op_ok s1 (flg_wake i p s)"
    unfolding e by (rule release_op_ok[OF w wt tm_dequeued_without[OF winvD(1)[OF w] wt]])
  then show "op_ok s (flg_wake i p s)" by (simp add: op_ok_def s1_def)
  have q1: "queues s1 = queues s" and t1: "tcb s1 = (tcb s)(p := (tcb s p)\<lparr>p_winfo := (winfos s p)\<lparr>w_flgptn := flgptn (flgcb s i)\<rparr>\<rparr>)"
    by (simp_all add: s1_def)
  show "tcb (snd (flg_wake i p s)) = (tcb s)(p := released E_OK ((tcb s p)\<lparr>p_winfo := (winfos s p)\<lparr>w_flgptn := flgptn (flgcb s i)\<rparr>\<rparr>))"
    by (simp add: e t1)
  show q: "is_waitq q \<Longrightarrow> queues (snd (flg_wake i p s)) q = remove1 p (queues s q)" for q
    by (auto simp: e q1 queue_simps is_waitq_def)
  have d: "p \<notin> set (remove1 p (queues s q))" for q
    using queues_okD(1)[OF tsk_invD(7)[OF t], of q] by simp
  have "wait_sub Q s1 (snd (flg_wake i p s))" unfolding e by (rule wait_sub_release) (use tsk_invD(7)[OF t] q1 in simp)
  then show "wait_sub Q s (snd (flg_wake i p s))"
    using d unfolding wait_sub_def by (auto simp: q q1 t1)
qed

text \<open>The tasks that the loop releases, and the state it leaves.\<close>

definition flg_matched :: "nat \<Rightarrow> tsk list \<Rightarrow> kernel \<Rightarrow> tsk list" where
  "flg_matched i ps s =
    (if flg_atr s i AND TA_CLR \<noteq> 0 then take 1 (filter (flg_holds i s) ps) else filter (flg_holds i s) ps)"

lemma set_flg_loop_spec:
  assumes "winv s" and "set ps \<subseteq> set (queues s (WaitQ (FLG i)))" and "distinct ps"
  shows "op_ok s (set_flg_loop i ps s) \<and> wait_sub Q s (snd (set_flg_loop i ps s)) \<and>
    tcb (snd (set_flg_loop i ps s)) = (\<lambda>p. if p \<in> set (flg_matched i ps s)
      then released E_OK ((tcb s p)\<lparr>p_winfo := (winfos s p)\<lparr>w_flgptn := flgptn (flgcb s i)\<rparr>\<rparr>) else tcb s p) \<and>
    (\<forall>q. is_waitq q \<longrightarrow> queues (snd (set_flg_loop i ps s)) q = filter (\<lambda>p. p \<notin> set (flg_matched i ps s)) (queues s q)) \<and>
    flgcb (snd (set_flg_loop i ps s)) = (if flg_atr s i AND TA_CLR \<noteq> 0 \<and> flg_matched i ps s \<noteq> []
      then (flgcb s)(i := (flgcb s i)\<lparr>flgptn := 0\<rparr>) else flgcb s) \<and>
    free_flgcb (snd (set_flg_loop i ps s)) = free_flgcb s"
  using assms
proof (induction ps arbitrary: s)
  case Nil
  then show ?case by (simp add: op_ok_refl flg_matched_def)
next
  case (Cons p ps)
  let ?h = "flg_holds i s"
  have p: "p \<in> set (queues s (WaitQ (FLG i)))" using Cons.prems(2) by simp
  have rem: "remove1 p (queues s q) = filter (\<lambda>x. x \<noteq> p) (queues s q)" for q
    using queues_okD(1)[OF tsk_invD(7)[OF winvD(1)[OF Cons.prems(1)]], of q]
    by (simp add: distinct_remove1_removeAll removeAll_filter_not_eq) (metis)
  note f = flg_wake_release[OF Cons.prems(1) p] and o = objects_flg_wake[of i p s]
  show ?case
  proof (cases "?h p")
    case False
    then have "flg_matched i (p # ps) s = flg_matched i ps s" by (simp add: flg_matched_def)
    then show ?thesis using False Cons.IH[OF Cons.prems(1)] Cons.prems(2,3) by (simp add: set_flg_loop_step)
  next
    case True
    show ?thesis
    proof (cases "flg_atr s i AND TA_CLR \<noteq> 0")
      case clr: True
      have "flg_matched i (p # ps) s = [p]" using True clr by (simp add: flg_matched_def)
      then show ?thesis using f o rem clr True by (simp add: set_flg_loop_step fun_eq_iff)
    next
      case clr: False
      let ?s = "snd (flg_wake i p s)"
      have w: "winv ?s" using f(1) by (simp add: op_ok_def)
      have qs: "set ps \<subseteq> set (queues ?s (WaitQ (FLG i)))"
        using Cons.prems(2,3) by (auto simp: f(4) is_waitq_def rem)
      have "flg_holds i ?s x = ?h x" if "x \<in> set ps" for x
        using that Cons.prems(3) clr by (auto simp: f(3) o)
      then have m': "flg_matched i ps ?s = flg_matched i ps s"
        using clr by (auto simp: flg_matched_def o intro: filter_cong)
      have m: "flg_matched i (p # ps) s = p # flg_matched i ps s" using True clr by (simp add: flg_matched_def)
      have np: "p \<notin> set (flg_matched i ps s)" using Cons.prems(3) by (auto simp: flg_matched_def dest: in_set_takeD)
      note ih = Cons.IH[OF w qs] 
      have "op_ok s (set_flg_loop i (p # ps) s)" "wait_sub Q s (snd (set_flg_loop i (p # ps) s))"
        using op_ok_trans[OF f(1), of "set_flg_loop i ps ?s"] wait_sub_trans[OF f(2), of Q "snd (set_flg_loop i ps ?s)"] ih Cons.prems(3) True clr
        by (simp_all add: set_flg_loop_step)
      then show ?thesis
        using ih Cons.prems(3) True clr np
        by (simp add: set_flg_loop_step m m' f(3,4) o rem fun_eq_iff conj_commute)
    qed
  qed
qed


section \<open>The service calls keep the invariants\<close>

lemma set_flg_body:
  assumes "kinv s" and "flg_inv cfg s" and "flg_atr s i \<noteq> TA_NOEXS"
    and "s1 = upd_flg i (\<lambda>c. c\<lparr>flgptn := flgptn c OR setptn\<rparr>) s"
    and "r = set_flg_loop i (queues s1 (WaitQ (FLG i))) s1"
  shows "op_ok s r" and "flg_inv cfg (snd r)"
proof -
  have st: "same_tasks s s1" and w: "winv s1"
    using kinvD(2)[OF assms(1)] same_tasks_kinv(2)[of s s1] by (simp_all add: assms(4) same_tasks_def)
  let ?q = "queues s1 (WaitQ (FLG i))" and ?m = "flg_matched i (queues s1 (WaitQ (FLG i))) s1"
  note spec = set_flg_loop_spec[OF w subset_refl queues_okD(1)[OF tsk_invD(7)[OF winvD(1)[OF w]]], of i "{}", folded assms(5)]
  show "op_ok s r" using same_tasks_op_ok[OF st] spec by blast
  have ok: "flg_ok (flgcb s i) (winfos s) ?q (queues s (RWaitQ (FLG i)))"
    using pool_invD(5)[OF assms(2)[unfolded flg_inv_def] assms(3)] by (simp add: assms(4))
  have q: "queues (snd r) (WaitQ (FLG i)) = filter (\<lambda>p. p \<notin> set ?m) ?q"
    "queues (snd r) (RWaitQ (FLG i)) = filter (\<lambda>p. p \<notin> set ?m) (queues s (RWaitQ (FLG i)))"
    using spec by (simp_all add: is_waitq_def assms(4))
  have t: "tcb (snd r) x = tcb s x" if "x \<notin> set ?m" for x using spec that by (simp add: assms(4))
  have c: "flgcb (snd r) i = (flgcb s1 i)\<lparr>flgptn := if flg_atr s i AND TA_CLR \<noteq> 0 \<and> ?m \<noteq> [] then 0 else flgptn (flgcb s1 i)\<rparr>"
    using spec by (auto simp: assms(4))
  have nh: "\<not> flg_cond (flgptn (flgcb (snd r) i)) (w_waiptn (winfos s x)) (w_wfmode (winfos s x))"
    if "x \<in> set ?q" "x \<notin> set ?m" for x
  proof (cases "flg_atr s i AND TA_CLR \<noteq> 0 \<and> ?m \<noteq> []")
    case True
    then show ?thesis using ok that(1) by (simp add: c flg_ok_def flg_cond_zero)
  next
    case False
    then have "\<not> flg_holds i s1 x" using that by (auto simp: flg_matched_def assms(4) filter_empty_conv split: if_splits)
    then show ?thesis using False by (auto simp: c assms(4))
  qed
  have "flg_ok (flgcb (snd r) i) (winfos (snd r)) (queues (snd r) (WaitQ (FLG i))) (queues (snd r) (RWaitQ (FLG i)))"
    using ok nh t unfolding flg_ok_def q by (auto simp: c assms(4) intro: order_trans[OF length_filter_le])
  moreover have "wait_sub {WaitQ (FLG i), RWaitQ (FLG i)} s (snd r)"
    using wait_sub_mono[of "{}" s1 "snd r"] spec wait_sub_cong[of s s1 "snd r" "snd r"] by (simp add: assms(4))
  moreover have "free_flgcb (snd r) = free_flgcb s" "\<And>j. j \<noteq> i \<Longrightarrow> flgcb (snd r) j = flgcb s j"
    using spec by (auto simp: assms(4))
  ultimately show "flg_inv cfg (snd r)"
    unfolding flg_inv_def
    by (intro flg.inv_one[OF assms(2)[unfolded flg_inv_def], where i = i]) (use assms(3) c in \<open>simp_all add: assms(4)\<close>)
qed

lemma flg_inv_lock [simp]:
  "flg_inv cfg (t_lock_cpu s) = flg_inv cfg s" "flg_inv cfg (t_unlock_cpu s) = flg_inv cfg s"
  "flg_inv cfg (i_lock_cpu s) = flg_inv cfg s" "flg_inv cfg (i_unlock_cpu s) = flg_inv cfg s"
  "flg_inv cfg (dispatch s) = flg_inv cfg s" "flg_inv cfg (dispatch_if r) = flg_inv cfg (snd r)"
  "flg_inv cfg (reqflg_if r) = flg_inv cfg (snd r)"
  by (simp_all add: flg_inv_def flg.inv_lock)

lemma flg_both_call:
  assumes "kinv (snd (body (t_lock_cpu s))) \<and> flg_inv cfg (snd (body (t_lock_cpu s)))"
  shows "kinv (snd (tsk_call body s)) \<and> flg_inv cfg (snd (tsk_call body s))"
  using assms by (simp add: tsk_call_def case_prod_beta)

lemma flg_both_int_call:
  assumes "kinv (snd (body (i_lock_cpu s))) \<and> flg_inv cfg (snd (body (i_lock_cpu s)))"
  shows "kinv (snd (int_call body s)) \<and> flg_inv cfg (snd (int_call body s))"
  using assms by (simp add: int_call_def case_prod_beta)

lemma set_flg_inv:
  assumes "kinv s" and "flg_inv cfg s"
  shows "kinv (snd (set_flg cfg flgid ptn s)) \<and> flg_inv cfg (snd (set_flg cfg flgid ptn s))"
    and "kinv (snd (iset_flg cfg flgid ptn s)) \<and> flg_inv cfg (snd (iset_flg cfg flgid ptn s))"
proof -
  have t: "kinv (t_lock_cpu s)" "flg_inv cfg (t_lock_cpu s)" and i: "kinv (i_lock_cpu s)" "flg_inv cfg (i_lock_cpu s)"
    using assms by simp_all
  note a = set_flg_body[OF t _ refl refl] and b = set_flg_body[OF i _ refl refl]
  show "kinv (snd (set_flg cfg flgid ptn s)) \<and> flg_inv cfg (snd (set_flg cfg flgid ptn s))"
    using assms a op_ok_dispatch_if[OF t(1) a(1)] by (auto simp: set_flg_def Let_def intro!: flg_both_call)
  show "kinv (snd (iset_flg cfg flgid ptn s)) \<and> flg_inv cfg (snd (iset_flg cfg flgid ptn s))"
    using assms b op_ok_reqflg_if[OF i(1) b(1)] by (auto simp: iset_flg_def Let_def intro!: flg_both_int_call)
qed


text \<open>A flag whose pattern loses bits.\<close>

lemma flg_ptn_inv:
  assumes "kinv s" and "flg_inv cfg s" and "flg_atr s i \<noteq> TA_NOEXS"
    and "ptn = flgptn (flgcb s i) AND m \<or> ptn = 0"
  shows "kinv (upd_flg i (\<lambda>c. c\<lparr>flgptn := ptn\<rparr>) s) \<and> flg_inv cfg (upd_flg i (\<lambda>c. c\<lparr>flgptn := ptn\<rparr>) s)"
proof
  let ?s = "upd_flg i (\<lambda>c. c\<lparr>flgptn := ptn\<rparr>) s"
  show "kinv ?s" using assms(1) same_tasks_kinv(1)[of s ?s] by (simp add: same_tasks_def)
  have ok: "flg_ok (flgcb s i) (winfos s) (queues s (WaitQ (FLG i))) (queues s (RWaitQ (FLG i)))"
    using pool_invD(5)[OF assms(2)[unfolded flg_inv_def] assms(3)] by simp
  have "\<not> flg_cond ptn w md" if "\<not> flg_cond (flgptn (flgcb s i)) w md" "w \<noteq> 0" "md = TWF_ORW \<or> md = TWF_ANDW" for w md
    using assms(4) that flg_cond_and flg_cond_zero by blast
  then have "flg_ok (flgcb ?s i) (winfos ?s) (queues ?s (WaitQ (FLG i))) (queues ?s (RWaitQ (FLG i)))"
    using ok unfolding flg_ok_def by simp
  then show "flg_inv cfg ?s"
    unfolding flg_inv_def
    by (intro flg.inv_one[OF assms(2)[unfolded flg_inv_def], where i = i])
      (use assms(3) in \<open>simp_all add: wait_sub_same\<close>)
qed

lemma check_flg_cond_inv:
  assumes "kinv s" and "flg_inv cfg s" and "flg_atr s i \<noteq> TA_NOEXS"
  shows "kinv (snd (check_flg_cond i waiptn wfmode s)) \<and> flg_inv cfg (snd (check_flg_cond i waiptn wfmode s))"
  using assms flg_ptn_inv[OF assms, of 0] by (auto simp: check_flg_cond_def Let_def)

lemma flg_block_inv:
  assumes "kinv s" and "flg_inv cfg s" and "flg_atr s i \<noteq> TA_NOEXS" and "p_runtsk s = Some p"
    and "flg_atr s i AND TA_WMUL = 0 \<Longrightarrow> queues s (WaitQ (FLG i)) = []"
    and "waiptn \<noteq> 0" and "wfmode = TWF_ORW \<or> wfmode = TWF_ANDW" and "\<not> flg_cond (flgptn (flgcb s i)) waiptn wfmode"
    and "s1 = set_tstat p (TS_WAITING OR TS_WAIT_FLG) (upd_winfo p (\<lambda>w. w\<lparr>w_waiptn := waiptn, w_wfmode := wfmode\<rparr>) s)"
  shows "kinv (dispatch (wobj_make_wait_tmout (FLG i) tmout s1)) \<and> flg_inv cfg (wobj_make_wait_tmout (FLG i) tmout s1)"
proof
  let ?s = "wobj_make_wait_tmout (FLG i) tmout s1"
  show "kinv (dispatch ?s)" unfolding assms(9) by (rule kinv_wobj_wait_data[OF assms(1,4)]) simp_all
  have o: "objects ?s = objects s" by (simp add: assms(9))
  note f = objectsD(10,11)[OF o]
  have ws: "wait_sub {WaitQ (FLG i)} s ?s"
    by (rule wait_sub_wobj_wait[OF kinvD(2)[OF assms(1)] assms(4)]) (simp_all add: assms(4,9))
  have n: "p \<notin> set (queues s (WaitQ (FLG i)))"
    using tsk_invD(5)[OF kinvD(1)[OF assms(1)], of p] kinvD(3)[OF assms(1,4)] by (auto simp: task_place_def)
  have rq: "queues ?s (RWaitQ (FLG i)) = remove1 p (queues s (RWaitQ (FLG i)))"
    by (simp add: assms(4,9) queue_simps)
  have q: "set (queues ?s (WaitQ (FLG i))) = insert p (set (queues s (WaitQ (FLG i))))"
    "length (queues ?s (WaitQ (FLG i))) = Suc (length (queues s (WaitQ (FLG i))))"
    using n by (simp_all add: assms(4,9) queue_simps remove1_idem)
  have w: "winfos ?s x = (if x = p then (winfos s p)\<lparr>w_waiptn := waiptn, w_wfmode := wfmode,
      winfo := tmo_winfo p tmout, p_wobjcb := FLG i\<rparr> else winfos s x)" for x by (simp add: assms(4,9))
  have ok: "flg_ok (flgcb s i) (winfos s) (queues s (WaitQ (FLG i))) (queues s (RWaitQ (FLG i)))"
    using pool_invD(5)[OF assms(2)[unfolded flg_inv_def] assms(3)] by simp
  have "flg_ok (flgcb ?s i) (winfos ?s) (queues ?s (WaitQ (FLG i))) (queues ?s (RWaitQ (FLG i)))"
    using ok assms(5-8) unfolding flg_ok_def f q rq w by auto
  then show "flg_inv cfg ?s"
    unfolding flg_inv_def
    by (intro flg.inv_one[OF assms(2)[unfolded flg_inv_def], where i = i])
      (use assms(3) f wait_sub_mono[OF ws] in simp_all)
qed

lemma flg_wait_inv:
  assumes "kinv s" and "flg_inv cfg s" and "p_runtsk s = Some p"
  shows "kinv (snd (wai_flg cfg flgid waiptn wfmode s)) \<and> flg_inv cfg (snd (wai_flg cfg flgid waiptn wfmode s))"
    and "kinv (snd (pol_flg cfg flgid waiptn wfmode s)) \<and> flg_inv cfg (snd (pol_flg cfg flgid waiptn wfmode s))"
    and "kinv (snd (twai_flg cfg flgid waiptn wfmode tmout s)) \<and> flg_inv cfg (snd (twai_flg cfg flgid waiptn wfmode tmout s))"
proof -
  let ?s = "t_lock_cpu s" and ?i = "INDEX_FLG flgid"
  have t: "kinv ?s" "flg_inv cfg ?s" "p_runtsk ?s = Some p" using assms by simp_all
  define ok where "ok \<longleftrightarrow> wfmode = TWF_ORW \<or> wfmode = TWF_ANDW"
  note c = check_flg_cond_inv[OF t(1,2), of ?i waiptn wfmode]
    and b = flg_block_inv[OF t(1,2) _ t(3) _ _ _ _ refl, of ?i waiptn wfmode, folded ok_def]
  obtain x s1 where e: "check_flg_cond ?i waiptn wfmode ?s = (x, s1)" by fastforce
  have n: "x = None \<Longrightarrow> s1 = ?s \<and> \<not> flg_cond (flgptn (flgcb ?s ?i)) waiptn wfmode"
    using e by (auto simp: check_flg_cond_def Let_def split: if_splits)
  show "kinv (snd (wai_flg cfg flgid waiptn wfmode s)) \<and> flg_inv cfg (snd (wai_flg cfg flgid waiptn wfmode s))"
    "kinv (snd (pol_flg cfg flgid waiptn wfmode s)) \<and> flg_inv cfg (snd (pol_flg cfg flgid waiptn wfmode s))"
    "kinv (snd (twai_flg cfg flgid waiptn wfmode tmout s)) \<and> flg_inv cfg (snd (twai_flg cfg flgid waiptn wfmode tmout s))"
    using assms c b n t(3)
    by (auto simp: e wai_flg_def pol_flg_def twai_flg_def wobj_make_wait_eq q_empty_def Let_def ok_def[symmetric]
        intro!: flg_both_call split: option.split)
qed


lemma flg_misc_inv:
  assumes "kinv s" and "flg_inv cfg s"
  shows "kinv (snd (clr_flg cfg flgid clrptn s)) \<and> flg_inv cfg (snd (clr_flg cfg flgid clrptn s))"
    and "kinv (snd (ref_flg cfg flgid s)) \<and> flg_inv cfg (snd (ref_flg cfg flgid s))"
proof -
  have t: "kinv (t_lock_cpu s)" "flg_inv cfg (t_lock_cpu s)" using assms by simp_all
  show "kinv (snd (clr_flg cfg flgid clrptn s)) \<and> flg_inv cfg (snd (clr_flg cfg flgid clrptn s))"
    using assms flg_ptn_inv[OF t, of "INDEX_FLG flgid" "flgptn (flgcb (t_lock_cpu s) (INDEX_FLG flgid)) AND clrptn" clrptn]
    by (auto simp: clr_flg_def Let_def intro!: flg_both_call)
  show "kinv (snd (ref_flg cfg flgid s)) \<and> flg_inv cfg (snd (ref_flg cfg flgid s))"
    using assms by (auto simp: ref_flg_def Let_def intro!: flg_both_call)
qed

lemma flg_init_body:
  assumes "kinv s" and "flg_inv cfg s" and "flg_atr s i \<noteq> TA_NOEXS" and "r = init_wait_queue (WaitQ (FLG i)) s"
  shows "s1 = upd_flg i (\<lambda>c. c\<lparr>flgptn := iflgptn (p_flginib c)\<rparr>) (snd r) \<Longrightarrow>
      kinv (dispatch_if (fst r, s1)) \<and> flg_inv cfg s1"
    and "tnum_sflg cfg \<le> i \<Longrightarrow> i < tnum_flg cfg \<Longrightarrow>
      s2 = (upd_flg i (\<lambda>c. c\<lparr>p_flginib := (p_flginib c)\<lparr>flgatr := TA_NOEXS\<rparr>\<rparr>) (snd r))\<lparr>free_flgcb := free_flgcb (snd r) @ [i]\<rparr> \<Longrightarrow>
      kinv (dispatch_if (fst r, s2)) \<and> flg_inv cfg s2"
proof -
  note n = init_wait_queue_obj[OF kinvD(2)[OF assms(1)] assms(4)]
  note f = objectsD(10,11)[OF n(5)]
  note p = assms(2)[unfolded flg_inv_def]
  have ok: "flg_ok (flgcb s i) (winfos s) (queues s (WaitQ (FLG i))) (queues s (RWaitQ (FLG i)))"
    using pool_invD(5)[OF p assms(3)] by simp
  {
    assume s1: "s1 = upd_flg i (\<lambda>c. c\<lparr>flgptn := iflgptn (p_flginib c)\<rparr>) (snd r)"
    have "kinv (dispatch_if (fst r, s1))"
      by (rule kinv_after_same[OF assms(1) n(1)]) (simp_all add: s1 same_tasks_def)
    moreover have "wait_sub Q s s1" for Q using n(4) wait_sub_cong[of s s s1 "snd r"] by (simp add: s1)
    then have "flg_inv cfg s1"
      unfolding flg_inv_def by (intro flg.inv_one[OF p, where i = i])
        (use assms(3) ok n in \<open>simp_all add: s1 f flg_ok_def\<close>)
    ultimately show "kinv (dispatch_if (fst r, s1)) \<and> flg_inv cfg s1" by simp
  next
    assume i: "tnum_sflg cfg \<le> i" "i < tnum_flg cfg" and s2: "s2 = (upd_flg i (\<lambda>c. c\<lparr>p_flginib :=
      (p_flginib c)\<lparr>flgatr := TA_NOEXS\<rparr>\<rparr>) (snd r))\<lparr>free_flgcb := free_flgcb (snd r) @ [i]\<rparr>"
    have "kinv (dispatch_if (fst r, s2))"
      by (rule kinv_after[OF assms(1) n(1,2)]) (simp_all add: s2 same_tasks_def wobjatr_flg_other)
    moreover have "wait_sub {} s s2" using n(4) wait_sub_cong[of s s s2 "snd r"] by (simp add: s2)
    then have "flg_inv cfg s2"
      unfolding flg_inv_def
      by (intro flg.inv_delete[OF p assms(3) i, where c = "flgcb s2 i"])
        (use ok n in \<open>simp_all add: s2 f flg_ok_def\<close>)
    ultimately show "kinv (dispatch_if (fst r, s2)) \<and> flg_inv cfg s2" by simp
  }
qed

lemma flg_init_inv:
  assumes "kinv s" and "flg_inv cfg s"
  shows "kinv (snd (ini_flg cfg flgid s)) \<and> flg_inv cfg (snd (ini_flg cfg flgid s))"
    and "kinv (snd (del_flg cfg flgid s)) \<and> flg_inv cfg (snd (del_flg cfg flgid s))"
proof -
  let ?i = "INDEX_FLG flgid"
  have t: "kinv (t_lock_cpu s)" "flg_inv cfg (t_lock_cpu s)" using assms by simp_all
  note b = flg_init_body[OF t _ refl, of ?i]
  show "kinv (snd (ini_flg cfg flgid s)) \<and> flg_inv cfg (snd (ini_flg cfg flgid s))"
    using assms b(1)[OF _ refl] by (auto simp: ini_flg_def Let_def case_prod_beta intro!: flg_both_call)
  have "tnum_sflg cfg \<le> ?i \<and> ?i < tnum_flg cfg" if "VALID_FLGID cfg flgid" "FLGID ?i > tmax_sflgid cfg"
    using that by (auto simp: VALID_FLGID_def FLGID_def INDEX_FLG_def tnum_flg_def tnum_sflg_def)
  then show "kinv (snd (del_flg cfg flgid s)) \<and> flg_inv cfg (snd (del_flg cfg flgid s))"
    using assms b(2)[OF _ _ _ refl] by (auto simp: del_flg_def Let_def case_prod_beta intro!: flg_both_call)
qed

lemma flg_create_inv:
  assumes "kinv s" and "flg_inv cfg s"
  shows "kinv (snd (acre_flg cfg pk s)) \<and> flg_inv cfg (snd (acre_flg cfg pk s))"
proof -
  let ?s = "t_lock_cpu s" and ?i = "hd (free_flgcb (t_lock_cpu s))"
  have t: "kinv ?s" "flg_inv cfg ?s" using assms by simp_all
  let ?c = "(flgcb ?s ?i)\<lparr>p_flginib := (p_flginib (flgcb ?s ?i))\<lparr>flgatr := flgatr pk, iflgptn := iflgptn pk\<rparr>,
      flgptn := iflgptn pk\<rparr>"
  define s1 where "s1 = ?s\<lparr>free_flgcb := tl (free_flgcb ?s),
    queues := (queues ?s)(WaitQ (FLG ?i) := []), flgcb := (flgcb ?s)(?i := ?c)\<rparr>"
  have a: "snd (acre_flg cfg pk s) \<in> {s, t_unlock_cpu ?s} \<or>
      snd (acre_flg cfg pk s) = t_unlock_cpu s1 \<and> free_flgcb ?s \<noteq> [] \<and> CHECK_RSATR (flgatr pk) (TA_TPRI OR TA_WMUL OR TA_CLR)"
    by (auto simp: acre_flg_def tsk_call_def s1_def Let_def q_initialize_def)
  have "kinv s1 \<and> flg_inv cfg s1" if f: "free_flgcb ?s \<noteq> []" and "CHECK_RSATR (flgatr pk) (TA_TPRI OR TA_WMUL OR TA_CLR)"
  proof -
    have fr: "free_flgcb ?s = ?i # tl (free_flgcb ?s)" using f by simp
    note p = t(2)[unfolded flg_inv_def]
    have q: "queues ?s (WaitQ (FLG ?i)) = []" using pool_invD(2,4)[OF p, of ?i] f by simp
    have at: "flgatr pk \<noteq> TA_NOEXS" using that(2) by (auto simp: CHECK_RSATR_def)
    have "kinv s1" by (rule flg.kinv_create[OF t(1) p fr])
        (use q in \<open>auto simp: s1_def same_tasks_def fun_upd_idem wobjatr_def split: wobj.split\<close>)
    moreover have "flg_inv cfg s1"
      unfolding flg_inv_def by (rule flg.inv_create[OF p fr, of s1 ?c])
        (use q at in \<open>auto simp: s1_def fun_upd_idem flg_ok_def\<close>)
    ultimately show ?thesis ..
  qed
  then show ?thesis using a assms by auto
qed

section \<open>Properties\<close>

lemma flg_inv_run_kernel: "flg_inv sample_cfg run_kernel"
  by (simp add: flg_inv_def pool_inv_def flg_ok_def run_kernel_sel run_kernel_objects) (simp add: idle_kernel_def)

text \<open>
  C15: every service call on event flags, on every branch, keeps the kernel invariant and the
  invariant of the flags: no task waits whose release condition holds, and at most one task waits
  at a flag without \<open>TA_WMUL\<close>.
\<close>

theorem eventflag_calls_keep_inv:
  assumes "kinv s" and "flg_inv cfg s" and "p_runtsk s = Some p"
  shows "\<forall>s' \<in> {snd (acre_flg cfg pk s), snd (del_flg cfg flgid s), snd (set_flg cfg flgid ptn s),
      snd (iset_flg cfg flgid ptn s), snd (clr_flg cfg flgid ptn s), snd (wai_flg cfg flgid ptn wfmode s),
      snd (pol_flg cfg flgid ptn wfmode s), snd (twai_flg cfg flgid ptn wfmode tmout s),
      snd (ini_flg cfg flgid s), snd (ref_flg cfg flgid s)}. kinv s' \<and> flg_inv cfg s'"
  using set_flg_inv[OF assms(1,2)] flg_wait_inv[OF assms] flg_misc_inv[OF assms(1,2)] flg_init_inv[OF assms(1,2)]
    flg_create_inv[OF assms(1,2)] by simp

theorem eventflag_calls_keep_inv_witness:
  "flg_inv sample_cfg (snd (wai_flg sample_cfg 1 3 TWF_ANDW run_kernel))"
  using eventflag_calls_keep_inv[OF kinv_run_kernel flg_inv_run_kernel run_kernel_sel(3), of _ 1 3 TWF_ANDW] by blast


text \<open>
  C16: \<open>set_flg\<close> returns \<open>E_OK\<close> and releases, among the waiting tasks in queue order, those whose
  condition holds for the new pattern: all of them, or only the first one when the flag has
  \<open>TA_CLR\<close>, which then clears the pattern. A released task gets the pattern and \<open>E_OK\<close>; the other
  tasks keep their order in the queue.
\<close>

theorem set_flg_releases:
  assumes "kinv s" and "CHECK_TSKCTX_UNL s" and "VALID_FLGID cfg flgid" and "i = INDEX_FLG flgid"
    and "flg_atr s i \<noteq> TA_NOEXS" and "ptn = flgptn (flgcb s i) OR setptn" and "clr \<longleftrightarrow> flg_atr s i AND TA_CLR \<noteq> 0"
    and "m = filter (\<lambda>p. flg_cond ptn (w_waiptn (winfos s p)) (w_wfmode (winfos s p))) (queues s (WaitQ (FLG i)))"
    and "rel = (if clr then take 1 m else m)" and "s' = snd (set_flg cfg flgid setptn s)"
  shows "fst (set_flg cfg flgid setptn s) = Ret E_OK \<and>
    flgptn (flgcb s' i) = (if clr \<and> m \<noteq> [] then 0 else ptn) \<and>
    queues s' (WaitQ (FLG i)) = filter (\<lambda>p. p \<notin> set rel) (queues s (WaitQ (FLG i))) \<and>
    (\<forall>p \<in> set rel. \<not> TSTAT_WAITING (tstat (tcb s' p)) \<and> result_of (Wait_ercd p) s' = Some E_OK \<and>
      w_flgptn (winfos s' p) = ptn) \<and>
    (\<forall>p. p \<notin> set rel \<longrightarrow> tcb s' p = tcb s p)"
proof -
  let ?s = "t_lock_cpu s" and ?q = "queues s (WaitQ (FLG i))"
  define s1 where "s1 = upd_flg i (\<lambda>c. c\<lparr>flgptn := flgptn c OR setptn\<rparr>) ?s"
  let ?r = "set_flg_loop i ?q s1"
  have sel: "flgcb s1 = (flgcb s)(i := (flgcb s i)\<lparr>flgptn := ptn\<rparr>)" "tcb s1 = tcb s" "queues s1 = queues s"
    by (simp_all add: s1_def assms(6) lock_objects lock_sel)
  have w: "winv s1"
    using kinvD(2)[of ?s] assms(1) same_tasks_kinv(2)[of ?s s1] by (simp add: s1_def same_tasks_def)
  have e: "set_flg cfg flgid setptn s = (Ret E_OK, t_unlock_cpu (dispatch_if ?r))"
    using assms(2-5) by (simp add: set_flg_def tsk_call_def Let_def s1_def lock_objects lock_sel)
  note spec = set_flg_loop_spec[OF w, of ?q i "{}"]
  have d: "distinct ?q" using queues_okD(1)[OF tsk_invD(7)[OF winvD(1)[OF w]]] by (simp add: sel)
  have m: "flg_matched i ?q s1 = rel" by (simp add: flg_matched_def sel assms(7-9))
  have t: "tcb s' = tcb (snd ?r)" "queues s' = queues (snd ?r)" "flgcb s' = flgcb (snd ?r)"
    by (simp_all add: assms(10) e lock_sel lock_objects dispatch_if_def dispatch_def)
  have ne: "rel \<noteq> [] \<longleftrightarrow> m \<noteq> []" by (simp add: assms(9))
  have f: "tcb s' = (\<lambda>p. if p \<in> set rel then released E_OK ((tcb s p)\<lparr>p_winfo := (winfos s p)\<lparr>w_flgptn := ptn\<rparr>\<rparr>) else tcb s p)"
    "queues s' (WaitQ (FLG i)) = filter (\<lambda>p. p \<notin> set rel) ?q" "flgptn (flgcb s' i) = (if clr \<and> m \<noteq> [] then 0 else ptn)"
    using spec d ne by (simp_all add: m t sel is_waitq_def assms(7) cong: if_cong)
  show ?thesis by (simp add: f e result_of_def TSTAT_defs)
qed

text \<open>A kernel in which task 0 waits for both low bits of flag 1.\<close>

definition flg_wait_kernel :: kernel where
  "flg_wait_kernel = snd (wai_flg sample_cfg 1 3 TWF_ANDW run_kernel)"

lemma flg_wait_kernel_sel:
  "kinv flg_wait_kernel" "CHECK_TSKCTX_UNL flg_wait_kernel" "queues flg_wait_kernel (WaitQ (FLG 0)) = [0]"
  "w_waiptn (winfos flg_wait_kernel 0) = 3" "w_wfmode (winfos flg_wait_kernel 0) = TWF_ANDW"
  "flgcb flg_wait_kernel 0 = \<lparr>p_flginib = \<lparr>flgatr = TA_CLR, iflgptn = 0\<rparr>, flgptn = 0\<rparr>"
proof -
  let ?s = "t_lock_cpu run_kernel"
  have fl: "flgcb ?s = (\<lambda>_. \<lparr>p_flginib = \<lparr>flgatr = TA_CLR, iflgptn = 0\<rparr>, flgptn = 0\<rparr>)"
    by (simp add: lock_objects run_kernel_objects) (simp add: idle_kernel_def)
  let ?b = "wobj_make_wait_tmout (FLG 0) TMO_FEVR (set_tstat 0 (TS_WAITING OR TS_WAIT_FLG)
    (upd_winfo 0 (\<lambda>w. w\<lparr>w_waiptn := 3, w_wfmode := TWF_ANDW\<rparr>) ?s))"
  have e: "flg_wait_kernel = t_unlock_cpu (dispatch ?b)"
    by (simp add: flg_wait_kernel_def wai_flg_def tsk_call_def run_kernel_sel CHECK_DISPATCH_def VALID_FLGID_def INDEX_FLG_def
        sample_cfg_def check_flg_cond_def flg_cond_def fl Let_def wobj_make_wait_eq q_empty_def lock_sel)
  have o: "objects ?b = objects ?s" by simp
  show "kinv flg_wait_kernel"
    unfolding flg_wait_kernel_def using flg_wait_inv(1)[OF kinv_run_kernel flg_inv_run_kernel run_kernel_sel(3)] by simp
  show "CHECK_TSKCTX_UNL flg_wait_kernel"
    using objectsD(5)[OF o] by (simp add: e CHECK_TSKCTX_UNL_def t_unlock_cpu_def dispatch_def lock_objects run_kernel_sel)
  show "queues flg_wait_kernel (WaitQ (FLG 0)) = [0]" "w_waiptn (winfos flg_wait_kernel 0) = 3"
    "w_wfmode (winfos flg_wait_kernel 0) = TWF_ANDW"
    by (simp_all add: e lock_sel dispatch_def queue_simps run_kernel_sel)
  show "flgcb flg_wait_kernel 0 = \<lparr>p_flginib = \<lparr>flgatr = TA_CLR, iflgptn = 0\<rparr>, flgptn = 0\<rparr>"
    using objectsD(10)[OF o] fl by (simp add: e lock_objects dispatch_def)
qed

theorem set_flg_releases_witness:
  "queues (snd (set_flg sample_cfg 1 7 flg_wait_kernel)) (WaitQ (FLG 0)) = [] \<and>
    w_flgptn (winfos (snd (set_flg sample_cfg 1 7 flg_wait_kernel)) 0) = 7 \<and>
    flgptn (flgcb (snd (set_flg sample_cfg 1 7 flg_wait_kernel)) 0) = 0"
  using set_flg_releases[OF flg_wait_kernel_sel(1,2), of sample_cfg 1 0 7 7 True "[0]" "[0]", OF _ _ _ _ _ _ _ refl]
  by (simp add: VALID_FLGID_def INDEX_FLG_def sample_cfg_def flg_wait_kernel_sel flg_cond_def)

end
