(* ===== verification/Asp_Dataqueue.thy ===== *)
theory Asp_Dataqueue
  imports Asp_Object
begin

text \<open>
  Data queues, \<^verbatim>\<open>kernel/dataqueue.c\<close>. The ring buffer is a bounded list; together with the data of
  the tasks that wait to send it is the sequence of data that will be received. The invariant
  \<open>dtq_inv\<close> says that the indices of every ring buffer are consistent, that tasks wait to send only
  when the buffer is full, and that tasks wait to receive only when there is nothing to receive.
\<close>

section \<open>Operations\<close>

definition tnum_dtq :: "kernel_cfg \<Rightarrow> nat" where "tnum_dtq cfg = nat (tmax_dtqid cfg)"
definition tnum_sdtq :: "kernel_cfg \<Rightarrow> nat" where "tnum_sdtq cfg = nat (tmax_sdtqid cfg)"
definition INDEX_DTQ :: "ID \<Rightarrow> nat" where "INDEX_DTQ dtqid = nat (dtqid - 1)"
definition DTQID :: "nat \<Rightarrow> ID" where "DTQID i = int i + 1"

definition VALID_DTQID :: "kernel_cfg \<Rightarrow> ID \<Rightarrow> bool" where
  "VALID_DTQID cfg dtqid \<longleftrightarrow> 1 \<le> dtqid \<and> dtqid \<le> tmax_dtqid cfg"

abbreviation upd_dtq :: "nat \<Rightarrow> (DTQCB \<Rightarrow> DTQCB) \<Rightarrow> kernel \<Rightarrow> kernel" where
  "upd_dtq i g s \<equiv> s\<lparr>dtqcb := (dtqcb s)(i := g (dtqcb s i))\<rparr>"

abbreviation dtq_atr :: "kernel \<Rightarrow> nat \<Rightarrow> ATR" where
  "dtq_atr s i \<equiv> dtqatr (p_dtqinib (dtqcb s i))"

definition initialize_dataqueue :: "kernel_cfg \<Rightarrow> kernel \<Rightarrow> kernel" where
  "initialize_dataqueue cfg s =
    (let s = fold (\<lambda>i s.
               let s = s\<lparr>queues := q_initialize (WaitQ (DTQ i)) (queues s)\<rparr>;
                   s = upd_dtq i (\<lambda>c. c\<lparr>p_dtqinib := dtqinib_table cfg i\<rparr>) s;
                   s = s\<lparr>queues := q_initialize (RWaitQ (DTQ i)) (queues s)\<rparr>
               in upd_dtq i (\<lambda>c. c\<lparr>dtq_count := 0, dtq_head := 0, dtq_tail := 0\<rparr>) s)
             [0..<tnum_sdtq cfg] s;
         s = s\<lparr>free_dtqcb := []\<rparr>
     in fold (\<lambda>i s.
          let s = upd_dtq i (\<lambda>c. c\<lparr>p_dtqinib := (p_dtqinib c)\<lparr>dtqatr := TA_NOEXS\<rparr>\<rparr>) s
          in s\<lparr>free_dtqcb := free_dtqcb s @ [i]\<rparr>)
        [tnum_sdtq cfg..<tnum_dtq cfg] s)"

text \<open>The ring buffer. A function with a pointer to the control block maps the block.\<close>

definition enqueue_data :: "intptr_t \<Rightarrow> DTQCB \<Rightarrow> DTQCB" where
  "enqueue_data data c =
    (let c = c\<lparr>dtqmb := (dtqmb c)(dtq_tail c := data)\<rparr>;
         c = c\<lparr>dtq_count := dtq_count c + 1\<rparr>;
         c = c\<lparr>dtq_tail := dtq_tail c + 1\<rparr>
     in if dtq_tail c \<ge> dtqcnt (p_dtqinib c) then c\<lparr>dtq_tail := 0\<rparr> else c)"

definition force_enqueue_data :: "intptr_t \<Rightarrow> DTQCB \<Rightarrow> DTQCB" where
  "force_enqueue_data data c =
    (let c = c\<lparr>dtqmb := (dtqmb c)(dtq_tail c := data)\<rparr>;
         c = c\<lparr>dtq_tail := dtq_tail c + 1\<rparr>;
         c = (if dtq_tail c \<ge> dtqcnt (p_dtqinib c) then c\<lparr>dtq_tail := 0\<rparr> else c)
     in if dtq_count c < dtqcnt (p_dtqinib c) then c\<lparr>dtq_count := dtq_count c + 1\<rparr>
        else c\<lparr>dtq_head := dtq_tail c\<rparr>)"

definition dequeue_data :: "DTQCB \<Rightarrow> intptr_t \<times> DTQCB" where
  "dequeue_data c =
    (let data = dtqmb c (dtq_head c);
         c = c\<lparr>dtq_count := dtq_count c - 1\<rparr>;
         c = c\<lparr>dtq_head := dtq_head c + 1\<rparr>
     in (data, if dtq_head c \<ge> dtqcnt (p_dtqinib c) then c\<lparr>dtq_head := 0\<rparr> else c))"

text \<open>
  \<open>send_data\<close> and \<open>receive_data\<close> return \<open>None\<close> for \<open>false\<close> and otherwise what they store through
  their pointers.
\<close>

definition send_data :: "nat \<Rightarrow> intptr_t \<Rightarrow> kernel \<Rightarrow> bool option \<times> kernel" where
  "send_data i data s =
    (if \<not> q_empty (RWaitQ (DTQ i)) (queues s)
     then (let (p_tcb, f) = q_delete_next (RWaitQ (DTQ i)) (queues s);
               s = s\<lparr>queues := f\<rparr>;
               s = upd_winfo p_tcb (\<lambda>w. w\<lparr>w_data := data\<rparr>) s;
               (dspreq, s) = wait_complete p_tcb s
           in (Some dspreq, s))
     else if dtq_count (dtqcb s i) < dtqcnt (p_dtqinib (dtqcb s i))
     then (Some False, upd_dtq i (enqueue_data data) s)
     else (None, s))"

definition force_send_data :: "nat \<Rightarrow> intptr_t \<Rightarrow> kernel \<Rightarrow> bool \<times> kernel" where
  "force_send_data i data s =
    (if \<not> q_empty (RWaitQ (DTQ i)) (queues s)
     then (let (p_tcb, f) = q_delete_next (RWaitQ (DTQ i)) (queues s);
               s = s\<lparr>queues := f\<rparr>;
               s = upd_winfo p_tcb (\<lambda>w. w\<lparr>w_data := data\<rparr>) s
           in wait_complete p_tcb s)
     else (False, upd_dtq i (force_enqueue_data data) s))"

definition receive_data :: "nat \<Rightarrow> kernel \<Rightarrow> (intptr_t \<times> bool) option \<times> kernel" where
  "receive_data i s =
    (if dtq_count (dtqcb s i) > 0
     then (let (data, c) = dequeue_data (dtqcb s i);
               s = upd_dtq i (\<lambda>_. c) s
           in if \<not> q_empty (WaitQ (DTQ i)) (queues s)
              then (let (p_tcb, f) = q_delete_next (WaitQ (DTQ i)) (queues s);
                        s = s\<lparr>queues := f\<rparr>;
                        s = upd_dtq i (enqueue_data (w_data (winfos s p_tcb))) s;
                        (dspreq, s) = wait_complete p_tcb s
                    in (Some (data, dspreq), s))
              else (Some (data, False), s))
     else if \<not> q_empty (WaitQ (DTQ i)) (queues s)
     then (let (p_tcb, f) = q_delete_next (WaitQ (DTQ i)) (queues s);
               s = s\<lparr>queues := f\<rparr>;
               data = w_data (winfos s p_tcb);
               (dspreq, s) = wait_complete p_tcb s
           in (Some (data, dspreq), s))
     else (None, s))"

definition acre_dtq :: "kernel_cfg \<Rightarrow> DTQINIB \<Rightarrow> kernel \<Rightarrow> result \<times> kernel" where
  "acre_dtq cfg pk_cdtq s =
    (if \<not> CHECK_TSKCTX_UNL s then (Ret E_CTX, s)
     else if \<not> CHECK_RSATR (dtqatr pk_cdtq) TA_TPRI then (Ret E_RSATR, s)
     else if (case p_dtqmb pk_cdtq of Some mb \<Rightarrow> \<not> MB_ALIGNED mb | None \<Rightarrow> False) then (Ret E_PAR, s)
     else tsk_call (\<lambda>s.
       if tnum_dtq cfg = 0 \<or> free_dtqcb s = [] then (Ret E_NOID, s)
       else (let (atr, mb, s) =
                  (if dtqcnt pk_cdtq \<noteq> 0 \<and> p_dtqmb pk_cdtq = None
                   then (let (mb, s) = kernel_malloc cfg (SIZE_of (4 * dtqcnt pk_cdtq)) s
                         in (dtqatr pk_cdtq OR TA_MBALLOC, mb, s))
                   else (dtqatr pk_cdtq, p_dtqmb pk_cdtq, s))
             in if dtqcnt pk_cdtq \<noteq> 0 \<and> mb = None then (Ret E_NOMEM, s)
                else (let i = hd (free_dtqcb s);
                          s = s\<lparr>free_dtqcb := tl (free_dtqcb s)\<rparr>;
                          s = upd_dtq i (\<lambda>c. c\<lparr>p_dtqinib := (p_dtqinib c)\<lparr>dtqatr := atr,
                                dtqcnt := dtqcnt pk_cdtq, p_dtqmb := mb\<rparr>\<rparr>) s;
                          s = s\<lparr>queues := q_initialize (WaitQ (DTQ i)) (queues s)\<rparr>;
                          s = s\<lparr>queues := q_initialize (RWaitQ (DTQ i)) (queues s)\<rparr>;
                          s = upd_dtq i (\<lambda>c. c\<lparr>dtq_count := 0, dtq_head := 0, dtq_tail := 0\<rparr>) s
                      in (Ret (DTQID i), s)))) s)"

definition del_dtq :: "kernel_cfg \<Rightarrow> ID \<Rightarrow> kernel \<Rightarrow> result \<times> kernel" where
  "del_dtq cfg dtqid s =
    (if \<not> CHECK_TSKCTX_UNL s then (Ret E_CTX, s)
     else if \<not> VALID_DTQID cfg dtqid then (Ret E_ID, s)
     else let i = INDEX_DTQ dtqid in tsk_call (\<lambda>s.
       if dtq_atr s i = TA_NOEXS then (Ret E_NOEXS, s)
       else if DTQID i > tmax_sdtqid cfg
       then (let (d1, s) = init_wait_queue (WaitQ (DTQ i)) s;
                 (d2, s) = init_wait_queue (RWaitQ (DTQ i)) s;
                 s = (if dtq_atr s i AND TA_MBALLOC \<noteq> 0
                      then kernel_free (p_dtqmb (p_dtqinib (dtqcb s i))) s else s);
                 s = upd_dtq i (\<lambda>c. c\<lparr>p_dtqinib := (p_dtqinib c)\<lparr>dtqatr := TA_NOEXS\<rparr>\<rparr>) s;
                 s = s\<lparr>free_dtqcb := free_dtqcb s @ [i]\<rparr>
             in (Ret E_OK, dispatch_if (d1 \<or> d2, s)))
       else (Ret E_OBJ, s)) s)"

definition snd_dtq :: "kernel_cfg \<Rightarrow> ID \<Rightarrow> intptr_t \<Rightarrow> kernel \<Rightarrow> result \<times> kernel" where
  "snd_dtq cfg dtqid data s =
    (if \<not> CHECK_DISPATCH s then (Ret E_CTX, s)
     else if \<not> VALID_DTQID cfg dtqid then (Ret E_ID, s)
     else let i = INDEX_DTQ dtqid in tsk_call (\<lambda>s.
       if dtq_atr s i = TA_NOEXS then (Ret E_NOEXS, s)
       else (case send_data i data s of
          (Some dspreq, s) \<Rightarrow> (Ret E_OK, dispatch_if (dspreq, s))
        | (None, s) \<Rightarrow>
           (let s = upd_winfo (runtsk s) (\<lambda>w. w\<lparr>w_data := data\<rparr>) s;
                s = set_tstat (runtsk s) (TS_WAITING OR TS_WAIT_SDTQ) s;
                s = wobj_make_wait (DTQ i) s
            in (Wait_ercd (runtsk s), dispatch s)))) s)"

definition psnd_dtq :: "kernel_cfg \<Rightarrow> ID \<Rightarrow> intptr_t \<Rightarrow> kernel \<Rightarrow> result \<times> kernel" where
  "psnd_dtq cfg dtqid data s =
    (if \<not> CHECK_TSKCTX_UNL s then (Ret E_CTX, s)
     else if \<not> VALID_DTQID cfg dtqid then (Ret E_ID, s)
     else let i = INDEX_DTQ dtqid in tsk_call (\<lambda>s.
       if dtq_atr s i = TA_NOEXS then (Ret E_NOEXS, s)
       else (case send_data i data s of
          (Some dspreq, s) \<Rightarrow> (Ret E_OK, dispatch_if (dspreq, s))
        | (None, s) \<Rightarrow> (Ret E_TMOUT, s))) s)"

definition ipsnd_dtq :: "kernel_cfg \<Rightarrow> ID \<Rightarrow> intptr_t \<Rightarrow> kernel \<Rightarrow> result \<times> kernel" where
  "ipsnd_dtq cfg dtqid data s =
    (if \<not> CHECK_INTCTX_UNL s then (Ret E_CTX, s)
     else if \<not> VALID_DTQID cfg dtqid then (Ret E_ID, s)
     else let i = INDEX_DTQ dtqid in int_call (\<lambda>s.
       if dtq_atr s i = TA_NOEXS then (Ret E_NOEXS, s)
       else (case send_data i data s of
          (Some dspreq, s) \<Rightarrow> (Ret E_OK, reqflg_if (dspreq, s))
        | (None, s) \<Rightarrow> (Ret E_TMOUT, s))) s)"

definition tsnd_dtq :: "kernel_cfg \<Rightarrow> ID \<Rightarrow> intptr_t \<Rightarrow> TMO \<Rightarrow> kernel \<Rightarrow> result \<times> kernel" where
  "tsnd_dtq cfg dtqid data tmout s =
    (if \<not> CHECK_DISPATCH s then (Ret E_CTX, s)
     else if \<not> VALID_DTQID cfg dtqid then (Ret E_ID, s)
     else if \<not> CHECK_TMOUT tmout then (Ret E_PAR, s)
     else let i = INDEX_DTQ dtqid in tsk_call (\<lambda>s.
       if dtq_atr s i = TA_NOEXS then (Ret E_NOEXS, s)
       else (case send_data i data s of
          (Some dspreq, s) \<Rightarrow> (Ret E_OK, dispatch_if (dspreq, s))
        | (None, s) \<Rightarrow>
           (if tmout = TMO_POL then (Ret E_TMOUT, s)
            else (let s = upd_winfo (runtsk s) (\<lambda>w. w\<lparr>w_data := data\<rparr>) s;
                      s = set_tstat (runtsk s) (TS_WAITING OR TS_WAIT_SDTQ) s;
                      s = wobj_make_wait_tmout (DTQ i) tmout s
                  in (Wait_ercd (runtsk s), dispatch s))))) s)"

definition fsnd_dtq :: "kernel_cfg \<Rightarrow> ID \<Rightarrow> intptr_t \<Rightarrow> kernel \<Rightarrow> result \<times> kernel" where
  "fsnd_dtq cfg dtqid data s =
    (if \<not> CHECK_TSKCTX_UNL s then (Ret E_CTX, s)
     else if \<not> VALID_DTQID cfg dtqid then (Ret E_ID, s)
     else let i = INDEX_DTQ dtqid in tsk_call (\<lambda>s.
       if dtq_atr s i = TA_NOEXS then (Ret E_NOEXS, s)
       else if \<not> dtqcnt (p_dtqinib (dtqcb s i)) > 0 then (Ret E_ILUSE, s)
       else (Ret E_OK, dispatch_if (force_send_data i data s))) s)"

definition ifsnd_dtq :: "kernel_cfg \<Rightarrow> ID \<Rightarrow> intptr_t \<Rightarrow> kernel \<Rightarrow> result \<times> kernel" where
  "ifsnd_dtq cfg dtqid data s =
    (if \<not> CHECK_INTCTX_UNL s then (Ret E_CTX, s)
     else if \<not> VALID_DTQID cfg dtqid then (Ret E_ID, s)
     else let i = INDEX_DTQ dtqid in int_call (\<lambda>s.
       if dtq_atr s i = TA_NOEXS then (Ret E_NOEXS, s)
       else if \<not> dtqcnt (p_dtqinib (dtqcb s i)) > 0 then (Ret E_ILUSE, s)
       else (Ret E_OK, reqflg_if (force_send_data i data s))) s)"

text \<open>
  The receiving calls return the data at once, or in \<open>w_data\<close> of the waiting information when the
  wait ends with \<open>E_OK\<close>.
\<close>

definition rcv_dtq :: "kernel_cfg \<Rightarrow> ID \<Rightarrow> kernel \<Rightarrow> (result \<times> intptr_t option) \<times> kernel" where
  "rcv_dtq cfg dtqid s =
    (if \<not> CHECK_DISPATCH s then ((Ret E_CTX, None), s)
     else if \<not> VALID_DTQID cfg dtqid then ((Ret E_ID, None), s)
     else let i = INDEX_DTQ dtqid in tsk_call (\<lambda>s.
       if dtq_atr s i = TA_NOEXS then ((Ret E_NOEXS, None), s)
       else (case receive_data i s of
          (Some (data, dspreq), s) \<Rightarrow> ((Ret E_OK, Some data), dispatch_if (dspreq, s))
        | (None, s) \<Rightarrow>
           (let s = set_tstat (runtsk s) (TS_WAITING OR TS_WAIT_RDTQ) s;
                s = make_wait s;
                s = s\<lparr>queues := q_insert_prev (RWaitQ (DTQ i)) (runtsk s) (queues s)\<rparr>;
                s = upd_winfo (runtsk s) (\<lambda>w. w\<lparr>p_wobjcb := DTQ i\<rparr>) s
            in ((Wait_ercd (runtsk s), None), dispatch s)))) s)"

definition prcv_dtq :: "kernel_cfg \<Rightarrow> ID \<Rightarrow> kernel \<Rightarrow> (result \<times> intptr_t option) \<times> kernel" where
  "prcv_dtq cfg dtqid s =
    (if \<not> CHECK_TSKCTX_UNL s then ((Ret E_CTX, None), s)
     else if \<not> VALID_DTQID cfg dtqid then ((Ret E_ID, None), s)
     else let i = INDEX_DTQ dtqid in tsk_call (\<lambda>s.
       if dtq_atr s i = TA_NOEXS then ((Ret E_NOEXS, None), s)
       else (case receive_data i s of
          (Some (data, dspreq), s) \<Rightarrow> ((Ret E_OK, Some data), dispatch_if (dspreq, s))
        | (None, s) \<Rightarrow> ((Ret E_TMOUT, None), s))) s)"

definition trcv_dtq :: "kernel_cfg \<Rightarrow> ID \<Rightarrow> TMO \<Rightarrow> kernel \<Rightarrow> (result \<times> intptr_t option) \<times> kernel" where
  "trcv_dtq cfg dtqid tmout s =
    (if \<not> CHECK_DISPATCH s then ((Ret E_CTX, None), s)
     else if \<not> VALID_DTQID cfg dtqid then ((Ret E_ID, None), s)
     else if \<not> CHECK_TMOUT tmout then ((Ret E_PAR, None), s)
     else let i = INDEX_DTQ dtqid in tsk_call (\<lambda>s.
       if dtq_atr s i = TA_NOEXS then ((Ret E_NOEXS, None), s)
       else (case receive_data i s of
          (Some (data, dspreq), s) \<Rightarrow> ((Ret E_OK, Some data), dispatch_if (dspreq, s))
        | (None, s) \<Rightarrow>
           (if tmout = TMO_POL then ((Ret E_TMOUT, None), s)
            else (let s = set_tstat (runtsk s) (TS_WAITING OR TS_WAIT_RDTQ) s;
                      s = make_wait_tmout tmout s;
                      s = s\<lparr>queues := q_insert_prev (RWaitQ (DTQ i)) (runtsk s) (queues s)\<rparr>;
                      s = upd_winfo (runtsk s) (\<lambda>w. w\<lparr>p_wobjcb := DTQ i\<rparr>) s
                  in ((Wait_ercd (runtsk s), None), dispatch s))))) s)"

definition ini_dtq :: "kernel_cfg \<Rightarrow> ID \<Rightarrow> kernel \<Rightarrow> result \<times> kernel" where
  "ini_dtq cfg dtqid s =
    (if \<not> CHECK_TSKCTX_UNL s then (Ret E_CTX, s)
     else if \<not> VALID_DTQID cfg dtqid then (Ret E_ID, s)
     else let i = INDEX_DTQ dtqid in tsk_call (\<lambda>s.
       if dtq_atr s i = TA_NOEXS then (Ret E_NOEXS, s)
       else (let (d1, s) = init_wait_queue (WaitQ (DTQ i)) s;
                 (d2, s) = init_wait_queue (RWaitQ (DTQ i)) s;
                 s = upd_dtq i (\<lambda>c. c\<lparr>dtq_count := 0, dtq_head := 0, dtq_tail := 0\<rparr>) s
             in (Ret E_OK, dispatch_if (d1 \<or> d2, s)))) s)"

record T_RDTQ =
  rdtq_stskid :: ID
  rdtq_rtskid :: ID
  rdtq_sdtqcnt :: nat

definition ref_dtq :: "kernel_cfg \<Rightarrow> ID \<Rightarrow> kernel \<Rightarrow> (result \<times> T_RDTQ option) \<times> kernel" where
  "ref_dtq cfg dtqid s =
    (if \<not> CHECK_TSKCTX_UNL s then ((Ret E_CTX, None), s)
     else if \<not> VALID_DTQID cfg dtqid then ((Ret E_ID, None), s)
     else let i = INDEX_DTQ dtqid in tsk_call (\<lambda>s.
       if dtq_atr s i = TA_NOEXS then ((Ret E_NOEXS, None), s)
       else ((Ret E_OK, Some \<lparr>rdtq_stskid = wait_tskid (WaitQ (DTQ i)) s,
               rdtq_rtskid = wait_tskid (RWaitQ (DTQ i)) s, rdtq_sdtqcnt = dtq_count (dtqcb s i)\<rparr>), s)) s)"

section \<open>The ring buffer as a list\<close>

definition dtq_contents :: "DTQCB \<Rightarrow> intptr_t list" where
  "dtq_contents c = map (\<lambda>k. dtqmb c ((dtq_head c + k) mod dtqcnt (p_dtqinib c))) [0..<dtq_count c]"

definition buf_ok :: "DTQCB \<Rightarrow> bool" where
  "buf_ok c \<longleftrightarrow> dtq_count c \<le> dtqcnt (p_dtqinib c) \<and>
    (dtqcnt (p_dtqinib c) > 0 \<longrightarrow> dtq_head c < dtqcnt (p_dtqinib c) \<and>
      dtq_tail c = (dtq_head c + dtq_count c) mod dtqcnt (p_dtqinib c))"

lemma dtq_contents_ring: "dtq_contents c = ring_list (dtqmb c) (dtqcnt (p_dtqinib c)) (dtq_head c) (dtq_count c)"
  by (simp add: dtq_contents_def ring_list_def)

lemma enqueue_data_sel [simp]:
  "p_dtqinib (enqueue_data d c) = p_dtqinib c" "dtq_count (enqueue_data d c) = dtq_count c + 1"
  "dtq_head (enqueue_data d c) = dtq_head c" "dtqmb (enqueue_data d c) = (dtqmb c)(dtq_tail c := d)"
  "dtq_tail (enqueue_data d c) = (if dtqcnt (p_dtqinib c) \<le> dtq_tail c + 1 then 0 else dtq_tail c + 1)"
  by (simp_all add: enqueue_data_def Let_def)

lemma buf_enqueue:
  assumes "buf_ok c" and "dtq_count c < dtqcnt (p_dtqinib c)"
  shows "buf_ok (enqueue_data d c)" and "dtq_contents (enqueue_data d c) = dtq_contents c @ [d]"
proof -
  let ?n = "dtqcnt (p_dtqinib c)"
  have t: "dtq_tail c = (dtq_head c + dtq_count c) mod ?n" "dtq_head c < ?n" using assms by (simp_all add: buf_ok_def)
  have tl: "dtq_tail c < ?n" using t by simp
  have "dtq_tail (enqueue_data d c) = (dtq_tail c + 1) mod ?n"
    unfolding enqueue_data_sel using wrap_index[OF tl] by simp
  then have "dtq_tail (enqueue_data d c) = (dtq_head c + (dtq_count c + 1)) mod ?n" by (simp add: t(1) mod_Suc_eq)
  then show "buf_ok (enqueue_data d c)" using assms(2) t(2) by (simp add: buf_ok_def)
  show "dtq_contents (enqueue_data d c) = dtq_contents c @ [d]"
    using ring_push[OF assms(2) t(1)] by (simp add: dtq_contents_ring)
qed

lemma dequeue_data_sel [simp]:
  "p_dtqinib (snd (dequeue_data c)) = p_dtqinib c" "dtq_count (snd (dequeue_data c)) = dtq_count c - 1"
  "dtq_head (snd (dequeue_data c)) = (if dtqcnt (p_dtqinib c) \<le> dtq_head c + 1 then 0 else dtq_head c + 1)"
  "dtqmb (snd (dequeue_data c)) = dtqmb c" "dtq_tail (snd (dequeue_data c)) = dtq_tail c"
  "fst (dequeue_data c) = dtqmb c (dtq_head c)"
  by (simp_all add: dequeue_data_def Let_def)

lemma buf_dequeue:
  assumes "buf_ok c" and "dtq_count c > 0"
  shows "buf_ok (snd (dequeue_data c))"
    and "dtq_contents c = fst (dequeue_data c) # dtq_contents (snd (dequeue_data c))"
proof -
  let ?n = "dtqcnt (p_dtqinib c)"
  obtain k where k: "dtq_count c = Suc k" using assms(2) by (cases "dtq_count c") auto
  have n: "dtq_head c < ?n" "dtq_tail c = (dtq_head c + dtq_count c) mod ?n" using assms by (auto simp: buf_ok_def)
  have h: "dtq_head (snd (dequeue_data c)) = (dtq_head c + 1) mod ?n"
    unfolding dequeue_data_sel using wrap_index[OF n(1)] by simp
  have m: "((dtq_head c + 1) mod ?n + j) mod ?n = (dtq_head c + Suc j) mod ?n" for j
    by (simp add: mod_add_left_eq)
  show "buf_ok (snd (dequeue_data c))"
    using assms(1) n h m[of k] k unfolding buf_ok_def by (auto simp del: dequeue_data_sel(3))
  show "dtq_contents c = fst (dequeue_data c) # dtq_contents (snd (dequeue_data c))"
    using ring_pop[OF assms(2) n(1) h] by (simp add: dtq_contents_ring del: dequeue_data_sel(3))
qed

lemma force_enqueue_data_eq:
  assumes "buf_ok c" and "0 < dtqcnt (p_dtqinib c)"
  shows "force_enqueue_data d c =
    (if dtq_count c < dtqcnt (p_dtqinib c) then enqueue_data d c else enqueue_data d (snd (dequeue_data c)))"
proof (cases "dtq_count c < dtqcnt (p_dtqinib c)")
  case True
  then show ?thesis by (simp add: force_enqueue_data_def enqueue_data_def Let_def)
next
  case False
  then have "dtq_count c = dtqcnt (p_dtqinib c)" "dtq_tail c = dtq_head c" using assms by (auto simp: buf_ok_def)
  then show ?thesis using assms(2) by (simp add: force_enqueue_data_def enqueue_data_def dequeue_data_def Let_def)
qed

lemma buf_force_enqueue:
  assumes "buf_ok c" and "0 < dtqcnt (p_dtqinib c)"
  shows "buf_ok (force_enqueue_data d c)" and "p_dtqinib (force_enqueue_data d c) = p_dtqinib c"
    and "dtq_contents (force_enqueue_data d c) =
      (if dtq_count c < dtqcnt (p_dtqinib c) then dtq_contents c else tl (dtq_contents c)) @ [d]"
proof -
  have le: "dtq_count c \<le> dtqcnt (p_dtqinib c)" using assms(1) by (simp add: buf_ok_def)
  note f = force_enqueue_data_eq[OF assms] and e = buf_enqueue[OF assms(1)]
  note q = buf_dequeue[OF assms(1)] and e2 = buf_enqueue[of "snd (dequeue_data c)"]
  show "buf_ok (force_enqueue_data d c)" "p_dtqinib (force_enqueue_data d c) = p_dtqinib c"
    using le assms(2) e(1) q(1) e2(1) by (simp_all add: f)
  have "tl (dtq_contents c) = dtq_contents (snd (dequeue_data c))" if "0 < dtq_count c" using q(2)[OF that] by simp
  then show "dtq_contents (force_enqueue_data d c) =
      (if dtq_count c < dtqcnt (p_dtqinib c) then dtq_contents c else tl (dtq_contents c)) @ [d]"
    using le assms(2) e(2) e2(2) q(1) by (simp add: f)
qed

section \<open>The invariant of the data queues\<close>

definition dtq_ok :: "DTQCB \<Rightarrow> (tsk \<Rightarrow> WINFO) \<Rightarrow> tsk list \<Rightarrow> tsk list \<Rightarrow> bool" where
  "dtq_ok c w sq rq \<longleftrightarrow> buf_ok c \<and> (sq \<noteq> [] \<longrightarrow> dtq_count c = dtqcnt (p_dtqinib c)) \<and>
    (rq \<noteq> [] \<longrightarrow> dtq_count c = 0 \<and> sq = [])"

interpretation dtq: object_pool DTQ dtqcb "\<lambda>c. dtqatr (p_dtqinib c)" free_dtqcb dtq_ok
proof
  show "dtqcb s' = dtqcb s \<and> free_dtqcb s' = free_dtqcb s" if "objects s' = objects s" for s' s
    using objectsD[OF that] by simp
  show "dtq_ok c w' sq' rq'" if "dtq_ok c w sq rq" "set sq' \<subseteq> set sq" "set rq' \<subseteq> set rq" for c w sq rq sq' rq' w'
    using that by (auto simp: dtq_ok_def)
qed (simp_all add: wobjatr_def)

abbreviation dtq_inv :: "kernel_cfg \<Rightarrow> kernel \<Rightarrow> bool" where
  "dtq_inv cfg s \<equiv>
    pool_inv DTQ dtqcb (\<lambda>c. dtqatr (p_dtqinib c)) free_dtqcb dtq_ok (tnum_sdtq cfg) (tnum_dtq cfg) s"

lemma wobjatr_dtqcb [simp]:
  "dtqatr (p_dtqinib c) = dtq_atr s i \<Longrightarrow> wobjatr (s\<lparr>dtqcb := (dtqcb s)(i := c)\<rparr>) = wobjatr s"
  "wobjatr (s\<lparr>free_dtqcb := l\<rparr>) = wobjatr s" "wobjatr (s\<lparr>kmm_brk := b\<rparr>) = wobjatr s"
  by (rule ext, simp add: wobjatr_def split: wobj.split)+

lemma wobjatr_dtq_other: "w \<noteq> DTQ i \<Longrightarrow> wobjatr (s\<lparr>dtqcb := (dtqcb s)(i := c)\<rparr>) w = wobjatr s w"
  by (simp add: wobjatr_def split: wobj.split)

lemma dtqcb_before_queues: "s\<lparr>queues := q, dtqcb := c\<rparr> = s\<lparr>dtqcb := c, queues := q\<rparr>"
  by simp

text \<open>The sequence of data that will be received: the buffer, then the data of the waiting senders.\<close>

definition dtq_stream :: "kernel \<Rightarrow> nat \<Rightarrow> intptr_t list" where
  "dtq_stream s i = dtq_contents (dtqcb s i) @ map (\<lambda>p. w_data (winfos s p)) (queues s (WaitQ (DTQ i)))"

lemma send_data_ok:
  assumes "kinv s" and "dtq_inv cfg s" and "dtq_atr s i \<noteq> TA_NOEXS" and "send_data i d s = (x, s1)"
  shows "x = Some b \<Longrightarrow> op_ok s (b, s1) \<and> dtq_inv cfg s1"
    and "x = None \<Longrightarrow> s1 = s \<and> queues s (RWaitQ (DTQ i)) = [] \<and> dtq_count (dtqcb s i) = dtqcnt (p_dtqinib (dtqcb s i))"
    and "x = Some b \<Longrightarrow> dtq_stream s1 i = (if queues s (RWaitQ (DTQ i)) = [] then dtq_stream s i @ [d] else [])"
    and "x = Some b \<Longrightarrow> queues s (RWaitQ (DTQ i)) = p # ps \<Longrightarrow>
      w_data (winfos s1 p) = d \<and> winfo (winfos s1 p) = Wercd E_OK \<and> queues s1 (RWaitQ (DTQ i)) = ps"
proof -
  note l = dtq.local[OF assms(2,3)]
  have buf: "buf_ok (dtqcb s i)" using l by (simp add: dtq_ok_def)
  show "x = None \<Longrightarrow> s1 = s \<and> queues s (RWaitQ (DTQ i)) = [] \<and> dtq_count (dtqcb s i) = dtqcnt (p_dtqinib (dtqcb s i))"
    using assms(4) buf by (auto simp: send_data_def q_empty_def buf_ok_def split: if_splits prod.splits)
  have *: "(x = Some b \<longrightarrow> op_ok s (b, s1) \<and> dtq_inv cfg s1 \<and>
      dtq_stream s1 i = (if queues s (RWaitQ (DTQ i)) = [] then dtq_stream s i @ [d] else []) \<and>
      (\<forall>p ps. queues s (RWaitQ (DTQ i)) = p # ps \<longrightarrow>
        w_data (winfos s1 p) = d \<and> winfo (winfos s1 p) = Wercd E_OK \<and> queues s1 (RWaitQ (DTQ i)) = ps))"
  proof (cases "queues s (RWaitQ (DTQ i))")
    case (Cons p ps)
    let ?r = "wait_complete p (upd_winfo p (\<lambda>w. w\<lparr>w_data := d\<rparr>) (s\<lparr>queues := (queues s)(RWaitQ (DTQ i) := ps)\<rparr>))"
    obtain b' s' where r: "?r = (b', s')" by fastforce
    have e: "x = Some b'" "s1 = s'"
      using assms(4) Cons r by (auto simp: send_data_def q_empty_def q_delete_next_def Let_def split: prod.splits)
    have q: "is_waitq (RWaitQ (DTQ i))" "is_waitq (WaitQ (DTQ i))" by (simp_all add: is_waitq_def)
    note k = wake_obj[OF kinvD(2)[OF assms(1)] Cons q(1) _ refl, of "\<lambda>w. w\<lparr>w_data := d\<rparr>"]
    note iw = dtq.inv_wake[OF assms(1-3) _ _ _ _ disjI2[OF refl] Cons _ refl, of s "\<lambda>w. w\<lparr>w_data := d\<rparr>"]
    have "op_ok s ?r" "dtq_inv cfg (snd ?r)" using iw l Cons by (simp_all add: same_tasks_def dtq_ok_def)
    moreover have "dtq_stream (snd ?r) i = []"
      using l Cons k(4)[OF _ q(2)] objectsD(12)[OF k(3)] by (simp add: dtq_stream_def dtq_ok_def dtq_contents_def)
    ultimately show ?thesis using Cons k(6) k(4)[OF _ q(1)] r by (simp add: e) blast
  next
    case Nil
    let ?s = "upd_dtq i (enqueue_data d) s"
    show ?thesis
    proof (cases "dtq_count (dtqcb s i) < dtqcnt (p_dtqinib (dtqcb s i))")
      case True
      then have e: "x = Some False" "s1 = ?s"
        using assms(4) Nil by (auto simp: send_data_def q_empty_def)
      note b = buf_enqueue[OF buf True]
      note c = dtq.inv_cb[OF assms(1-3), of ?s]
      have sq: "queues s (WaitQ (DTQ i)) = []" using l True by (auto simp: dtq_ok_def)
      have "kinv ?s" "dtq_inv cfg ?s" using c b(1) sq Nil l by (simp_all add: same_tasks_def dtq_ok_def)
      moreover have "op_ok s (False, ?s)"
        using kinvD(2)[OF \<open>kinv ?s\<close>] by (simp add: op_ok_def)
      ultimately show ?thesis using e Nil b(2) sq by (simp add: dtq_stream_def)
    qed (use assms(4) Nil in \<open>auto simp: send_data_def q_empty_def\<close>)
  qed
  show "x = Some b \<Longrightarrow> op_ok s (b, s1) \<and> dtq_inv cfg s1"
    "x = Some b \<Longrightarrow> dtq_stream s1 i = (if queues s (RWaitQ (DTQ i)) = [] then dtq_stream s i @ [d] else [])"
    "x = Some b \<Longrightarrow> queues s (RWaitQ (DTQ i)) = p # ps \<Longrightarrow>
      w_data (winfos s1 p) = d \<and> winfo (winfos s1 p) = Wercd E_OK \<and> queues s1 (RWaitQ (DTQ i)) = ps"
    using * by blast+
qed

text \<open>\<open>receive_data\<close> takes the first element of that sequence, if there is one.\<close>

lemma receive_data_ok:
  assumes "kinv s" and "dtq_inv cfg s" and "dtq_atr s i \<noteq> TA_NOEXS" and "receive_data i s = (x, s1)"
  shows "x = None \<Longrightarrow> s1 = s \<and> queues s (WaitQ (DTQ i)) = [] \<and> dtq_count (dtqcb s i) = 0"
    and "x = Some (d, b) \<Longrightarrow> op_ok s (b, s1) \<and> dtq_inv cfg s1 \<and> dtq_stream s i = d # dtq_stream s1 i"
proof -
  let ?q = "WaitQ (DTQ i)" and ?c = "dtqcb s i"
  note l = dtq.local[OF assms(2,3)]
  have buf: "buf_ok ?c" using l by (simp add: dtq_ok_def)
  have q: "is_waitq ?q" by (simp add: is_waitq_def)
  show "x = None \<Longrightarrow> s1 = s \<and> queues s ?q = [] \<and> dtq_count ?c = 0"
    using assms(4) by (auto simp: receive_data_def q_empty_def Let_def split: if_splits prod.splits)
  assume x: "x = Some (d, b)"
  show "op_ok s (b, s1) \<and> dtq_inv cfg s1 \<and> dtq_stream s i = d # dtq_stream s1 i"
  proof (cases "dtq_count ?c > 0")
    case True
    define c1 where "c1 = snd (dequeue_data ?c)"
    have d: "buf_ok c1" "dtq_contents ?c = fst (dequeue_data ?c) # dtq_contents c1" "p_dtqinib c1 = p_dtqinib ?c"
      using buf_dequeue[OF buf True] by (simp_all add: c1_def)
    have rq: "queues s (RWaitQ (DTQ i)) = []" using l True by (auto simp: dtq_ok_def)
    show ?thesis
    proof (cases "queues s ?q")
      case Nil
      let ?s = "upd_dtq i (\<lambda>_. c1) s"
      have e: "d = fst (dequeue_data ?c)" "b = False" "s1 = ?s"
        using assms(4) x True Nil by (auto simp: receive_data_def q_empty_def case_prod_beta c1_def)
      have "kinv ?s" "dtq_inv cfg ?s"
        using dtq.inv_cb[OF assms(1-3), of ?s] d(1,3) rq Nil by (simp_all add: same_tasks_def dtq_ok_def)
      then show ?thesis using kinvD(2)[of ?s] e d(2) Nil by (simp add: op_ok_def dtq_stream_def)
    next
      case (Cons p ps)
      let ?c2 = "enqueue_data (w_data (winfos s p)) c1" and ?s = "upd_dtq i (\<lambda>_. enqueue_data (w_data (winfos s p)) c1) s"
      let ?r = "wait_complete p (upd_winfo p (\<lambda>w. w) (?s\<lparr>queues := (queues ?s)(?q := ps)\<rparr>))"
      have e: "d = fst (dequeue_data ?c)" "b = fst ?r" "s1 = snd ?r"
        using assms(4) x True Cons
        by (auto simp: receive_data_def q_empty_def q_delete_next_def case_prod_beta c1_def Let_def dtqcb_before_queues)
      have full: "dtq_count ?c = dtqcnt (p_dtqinib ?c)" using l Cons by (auto simp: dtq_ok_def)
      have "dtq_count c1 < dtqcnt (p_dtqinib c1)" using True full d(3) by (simp add: c1_def)
      note b2 = buf_enqueue[OF d(1) this]
      have ok: "dtq_ok ?c2 (winfos s) ps (queues s (RWaitQ (DTQ i)))"
        using b2(1) rq full True by (simp add: dtq_ok_def) (simp add: c1_def)
      note iw = dtq.inv_wake[OF assms(1-3) _ _ _ _ disjI1[OF refl] Cons _ refl, of ?s "\<lambda>w. w"]
      have op: "op_ok s ?r" "dtq_inv cfg (snd ?r)" using iw ok d(3) by (simp_all add: same_tasks_def)
      have w: "winv ?s" using same_tasks_kinv(2)[of s ?s] kinvD(2)[OF assms(1)] d(3) by (simp add: same_tasks_def)
      note k = wake_obj[OF w _ q _ refl, of p ps "\<lambda>w. w"]
      have "winfos (snd ?r) y = winfos s y" if "y \<in> set ps" for y
        using wait_subD(3)[OF k(2) q, of "{}"] k(4)[OF _ _ q] Cons that by simp
      then have "dtq_stream s i = d # dtq_stream (snd ?r) i"
        using k(3,4) Cons d(2) b2(2) e(1) q objectsD(12)[OF k(3)] by (simp add: dtq_stream_def cong: map_cong)
      then show ?thesis using op e by simp
    qed
  next
    case False
    then obtain p ps where Cons: "queues s ?q = p # ps"
      using assms(4) x by (cases "queues s ?q") (auto simp: receive_data_def q_empty_def)
    let ?r = "wait_complete p (upd_winfo p (\<lambda>w. w) (s\<lparr>queues := (queues s)(?q := ps)\<rparr>))"
    have e: "d = w_data (winfos s p)" "b = fst ?r" "s1 = snd ?r"
      using assms(4) x False Cons by (auto simp: receive_data_def q_empty_def q_delete_next_def case_prod_beta Let_def)
    note iw = dtq.inv_wake[OF assms(1-3) _ _ _ _ disjI1[OF refl] Cons _ refl, of s "\<lambda>w. w"]
    have op: "op_ok s ?r" "dtq_inv cfg (snd ?r)" using iw l Cons by (auto simp: same_tasks_def dtq_ok_def)
    note k = wake_obj[OF kinvD(2)[OF assms(1)] Cons q _ refl, of "\<lambda>w. w"]
    have "winfos (snd ?r) y = winfos s y" if "y \<in> set ps" for y
      using wait_subD(3)[OF k(2) q, of "{}"] k(4)[OF _ q] Cons that by simp
    then have "dtq_stream s i = d # dtq_stream (snd ?r) i"
      using k(3,4) Cons e(1) q objectsD(12)[OF k(3)] False by (simp add: dtq_stream_def dtq_contents_def cong: map_cong)
    then show ?thesis using op e by simp
  qed
qed

lemma force_send_data_ok:
  assumes "kinv s" and "dtq_inv cfg s" and "dtq_atr s i \<noteq> TA_NOEXS" and "dtqcnt (p_dtqinib (dtqcb s i)) > 0"
  shows "op_ok s (force_send_data i d s) \<and> dtq_inv cfg (snd (force_send_data i d s))"
proof (cases "queues s (RWaitQ (DTQ i))")
  case (Cons p ps)
  have "send_data i d s = (Some (fst (force_send_data i d s)), snd (force_send_data i d s))"
    using Cons by (auto simp: force_send_data_def send_data_def q_empty_def case_prod_beta Let_def)
  from send_data_ok(1)[OF assms(1-3) this refl] show ?thesis by simp
next
  case Nil
  let ?s = "upd_dtq i (force_enqueue_data d) s"
  note l = dtq.local[OF assms(2,3)]
  have buf: "buf_ok (dtqcb s i)" using l by (simp add: dtq_ok_def)
  note b = buf_force_enqueue[OF buf assms(4), of d]
  have "dtq_count (force_enqueue_data d (dtqcb s i)) = dtqcnt (p_dtqinib (dtqcb s i))"
    if "dtq_count (dtqcb s i) = dtqcnt (p_dtqinib (dtqcb s i))"
    using that assms(4) by (simp add: force_enqueue_data_eq[OF buf assms(4)])
  then have "kinv ?s" "dtq_inv cfg ?s"
    using dtq.inv_cb[OF assms(1-3), of ?s] b l Nil by (simp_all add: same_tasks_def dtq_ok_def)
  then show ?thesis using Nil kinvD(2)[of ?s] by (simp add: force_send_data_def q_empty_def op_ok_def)
qed

section \<open>The service calls keep the invariants\<close>

lemma dtq_block_inv:
  assumes "kinv s" and "dtq_inv cfg s" and "dtq_atr s i \<noteq> TA_NOEXS" and "p_runtsk s = Some p"
  shows "queues s (RWaitQ (DTQ i)) = [] \<Longrightarrow> dtq_count (dtqcb s i) = dtqcnt (p_dtqinib (dtqcb s i)) \<Longrightarrow>
      s1 = set_tstat p (TS_WAITING OR TS_WAIT_SDTQ) (upd_winfo p (\<lambda>w. w\<lparr>w_data := d\<rparr>) s) \<Longrightarrow>
      kinv (dispatch (wobj_make_wait_tmout (DTQ i) tmout s1)) \<and> dtq_inv cfg (wobj_make_wait_tmout (DTQ i) tmout s1)"
    and "queues s (WaitQ (DTQ i)) = [] \<Longrightarrow> dtq_count (dtqcb s i) = 0 \<Longrightarrow>
      s2 = set_tstat p (TS_WAITING OR TS_WAIT_RDTQ) s \<Longrightarrow>
      kinv (dispatch (rwait_tmout (DTQ i) tmout s2)) \<and> dtq_inv cfg (rwait_tmout (DTQ i) tmout s2)"
proof -
  note l = dtq.local[OF assms(2,3)]
  show "kinv (dispatch (wobj_make_wait_tmout (DTQ i) tmout s1)) \<and> dtq_inv cfg (wobj_make_wait_tmout (DTQ i) tmout s1)"
    if "queues s (RWaitQ (DTQ i)) = []" "dtq_count (dtqcb s i) = dtqcnt (p_dtqinib (dtqcb s i))"
      "s1 = set_tstat p (TS_WAITING OR TS_WAIT_SDTQ) (upd_winfo p (\<lambda>w. w\<lparr>w_data := d\<rparr>) s)"
    using dtq.inv_block[OF assms _ _ refl, of TS_WAIT_SDTQ "\<lambda>w. w\<lparr>w_data := d\<rparr>" tmout] that l
    by (simp add: dtq_ok_def)
  show "kinv (dispatch (rwait_tmout (DTQ i) tmout s2)) \<and> dtq_inv cfg (rwait_tmout (DTQ i) tmout s2)"
    if "queues s (WaitQ (DTQ i)) = []" "dtq_count (dtqcb s i) = 0" "s2 = set_tstat p (TS_WAITING OR TS_WAIT_RDTQ) s"
    using dtq.inv_rblock[OF assms _ _ refl, of TS_WAIT_RDTQ tmout] that l by (simp add: dtq_ok_def)
qed

lemma dtq_send_inv:
  assumes "kinv s" and "dtq_inv cfg s" and "p_runtsk s = Some p"
  shows "kinv (snd (snd_dtq cfg dtqid d s)) \<and> dtq_inv cfg (snd (snd_dtq cfg dtqid d s))"
    and "kinv (snd (psnd_dtq cfg dtqid d s)) \<and> dtq_inv cfg (snd (psnd_dtq cfg dtqid d s))"
    and "kinv (snd (tsnd_dtq cfg dtqid d tmout s)) \<and> dtq_inv cfg (snd (tsnd_dtq cfg dtqid d tmout s))"
    and "kinv (snd (fsnd_dtq cfg dtqid d s)) \<and> dtq_inv cfg (snd (fsnd_dtq cfg dtqid d s))"
proof -
  let ?s = "t_lock_cpu s" and ?i = "INDEX_DTQ dtqid"
  have t: "kinv ?s" "dtq_inv cfg ?s" "p_runtsk ?s = Some p" using assms by simp_all
  obtain x s1 where e: "send_data ?i d ?s = (x, s1)" by fastforce
  note c = send_data_ok(1,2)[OF t(1,2) _ e] and b = dtq_block_inv(1)[OF t(1,2) _ t(3) _ _ refl, where i = ?i and d = d]
  note dp = op_ok_dispatch_if[OF t(1)]
  show "kinv (snd (snd_dtq cfg dtqid d s)) \<and> dtq_inv cfg (snd (snd_dtq cfg dtqid d s))"
    "kinv (snd (psnd_dtq cfg dtqid d s)) \<and> dtq_inv cfg (snd (psnd_dtq cfg dtqid d s))"
    "kinv (snd (tsnd_dtq cfg dtqid d tmout s)) \<and> dtq_inv cfg (snd (tsnd_dtq cfg dtqid d tmout s))"
    using assms b c dp t(3)
    by (auto simp: e snd_dtq_def psnd_dtq_def tsnd_dtq_def wobj_make_wait_eq Let_def
        intro!: dtq.both_call split: option.split)
  show "kinv (snd (fsnd_dtq cfg dtqid d s)) \<and> dtq_inv cfg (snd (fsnd_dtq cfg dtqid d s))"
    using assms op_ok_dispatch_if[OF t(1), of "force_send_data ?i d ?s"] force_send_data_ok[OF t(1,2), of ?i d]
    by (auto simp: fsnd_dtq_def Let_def intro!: dtq.both_call)
qed

lemma dtq_isend_inv:
  assumes "kinv s" and "dtq_inv cfg s"
  shows "kinv (snd (ipsnd_dtq cfg dtqid d s)) \<and> dtq_inv cfg (snd (ipsnd_dtq cfg dtqid d s))"
    and "kinv (snd (ifsnd_dtq cfg dtqid d s)) \<and> dtq_inv cfg (snd (ifsnd_dtq cfg dtqid d s))"
proof -
  let ?s = "i_lock_cpu s" and ?i = "INDEX_DTQ dtqid"
  have t: "kinv ?s" "dtq_inv cfg ?s" using assms by simp_all
  obtain x s1 where e: "send_data ?i d ?s = (x, s1)" by fastforce
  note c = send_data_ok(1,2)[OF t _ e] and dp = op_ok_reqflg_if[OF t(1)]
  show "kinv (snd (ipsnd_dtq cfg dtqid d s)) \<and> dtq_inv cfg (snd (ipsnd_dtq cfg dtqid d s))"
    using assms c dp by (auto simp: e ipsnd_dtq_def Let_def intro!: dtq.both_int_call split: option.split)
  show "kinv (snd (ifsnd_dtq cfg dtqid d s)) \<and> dtq_inv cfg (snd (ifsnd_dtq cfg dtqid d s))"
    using assms op_ok_reqflg_if[OF t(1), of "force_send_data ?i d ?s"] force_send_data_ok[OF t, of ?i d]
    by (auto simp: ifsnd_dtq_def Let_def intro!: dtq.both_int_call)
qed

lemma dtq_receive_inv:
  assumes "kinv s" and "dtq_inv cfg s" and "p_runtsk s = Some p"
  shows "kinv (snd (rcv_dtq cfg dtqid s)) \<and> dtq_inv cfg (snd (rcv_dtq cfg dtqid s))"
    and "kinv (snd (prcv_dtq cfg dtqid s)) \<and> dtq_inv cfg (snd (prcv_dtq cfg dtqid s))"
    and "kinv (snd (trcv_dtq cfg dtqid tmout s)) \<and> dtq_inv cfg (snd (trcv_dtq cfg dtqid tmout s))"
    and "kinv (snd (ref_dtq cfg dtqid s)) \<and> dtq_inv cfg (snd (ref_dtq cfg dtqid s))"
proof -
  let ?s = "t_lock_cpu s" and ?i = "INDEX_DTQ dtqid"
  have t: "kinv ?s" "dtq_inv cfg ?s" "p_runtsk ?s = Some p" using assms by simp_all
  obtain x s1 where e: "receive_data ?i ?s = (x, s1)" by fastforce
  note c = receive_data_ok[OF t(1,2) _ e] and b = dtq_block_inv(2)[OF t(1,2) _ t(3) _ _ refl, of ?i]
  note dp = op_ok_dispatch_if[OF t(1)]
  show "kinv (snd (rcv_dtq cfg dtqid s)) \<and> dtq_inv cfg (snd (rcv_dtq cfg dtqid s))"
    "kinv (snd (prcv_dtq cfg dtqid s)) \<and> dtq_inv cfg (snd (prcv_dtq cfg dtqid s))"
    "kinv (snd (trcv_dtq cfg dtqid tmout s)) \<and> dtq_inv cfg (snd (trcv_dtq cfg dtqid tmout s))"
    "kinv (snd (ref_dtq cfg dtqid s)) \<and> dtq_inv cfg (snd (ref_dtq cfg dtqid s))"
    using assms b[where tmout = TMO_FEVR] b[where tmout = tmout] c dp t(3)
    by (auto simp: e rcv_dtq_def prcv_dtq_def trcv_dtq_def ref_dtq_def make_wait_sel rwait_tmout_def Let_def
        intro!: dtq.both_call split: option.split)
qed

lemma dtq_init_body:
  assumes "kinv s" and "dtq_inv cfg s" and "dtq_atr s i \<noteq> TA_NOEXS"
    and "r1 = init_wait_queue (WaitQ (DTQ i)) s" and "r2 = init_wait_queue (RWaitQ (DTQ i)) (snd r1)"
  shows "s1 = upd_dtq i (\<lambda>c. c\<lparr>dtq_count := 0, dtq_head := 0, dtq_tail := 0\<rparr>) (snd r2) \<Longrightarrow>
      kinv (dispatch_if (fst r1 \<or> fst r2, s1)) \<and> dtq_inv cfg s1"
    and "tnum_sdtq cfg \<le> i \<Longrightarrow> i < tnum_dtq cfg \<Longrightarrow>
      s2 = (upd_dtq i (\<lambda>c. c\<lparr>p_dtqinib := (p_dtqinib c)\<lparr>dtqatr := TA_NOEXS\<rparr>\<rparr>) (snd r2))\<lparr>free_dtqcb := free_dtqcb (snd r2) @ [i]\<rparr> \<Longrightarrow>
      kinv (dispatch_if (fst r1 \<or> fst r2, s2)) \<and> dtq_inv cfg s2"
proof -
  define r where "r = (fst r1 \<or> fst r2, snd r2)"
  note n = init_wait_queues_obj[OF kinvD(2)[OF assms(1)] assms(4,5) r_def]
  note f = objectsD(12,13)[OF n(2), unfolded r_def snd_conv] and b = dtq.inv_init[OF assms(1-3) n]
  have a: "wobjatr (snd r2) = wobjatr s" using wobjatr_objects[OF n(2)] by (simp add: r_def)
  show "kinv (dispatch_if (fst r1 \<or> fst r2, s1)) \<and> dtq_inv cfg s1"
    if s1: "s1 = upd_dtq i (\<lambda>c. c\<lparr>dtq_count := 0, dtq_head := 0, dtq_tail := 0\<rparr>) (snd r2)"
  proof -
    have w: "\<And>w. w \<noteq> DTQ i \<Longrightarrow> wobjatr s1 w = wobjatr s w" using a by (simp add: s1)
    have c: "same_tasks (snd r) s1" "\<And>j. j \<noteq> i \<Longrightarrow> dtqcb s1 j = dtqcb s j" by (simp_all add: s1 f r_def same_tasks_def)
    have "dtq_inv cfg s1"
      by (rule b(2)[OF c w]) (use assms(3) in \<open>simp_all add: s1 f dtq_ok_def buf_ok_def\<close>)
    then show ?thesis using b(1)[OF c w] by (simp add: r_def)
  qed
  show "kinv (dispatch_if (fst r1 \<or> fst r2, s2)) \<and> dtq_inv cfg s2"
    if i: "tnum_sdtq cfg \<le> i" "i < tnum_dtq cfg" and
      s2: "s2 = (upd_dtq i (\<lambda>c. c\<lparr>p_dtqinib := (p_dtqinib c)\<lparr>dtqatr := TA_NOEXS\<rparr>\<rparr>) (snd r2))\<lparr>free_dtqcb := free_dtqcb (snd r2) @ [i]\<rparr>"
  proof -
    have w: "\<And>w. w \<noteq> DTQ i \<Longrightarrow> wobjatr s2 w = wobjatr s w" using a by (simp add: s2 wobjatr_dtq_other)
    have c: "same_tasks (snd r) s2" "\<And>j. j \<noteq> i \<Longrightarrow> dtqcb s2 j = dtqcb s j" by (simp_all add: s2 f r_def same_tasks_def)
    have "dtq_inv cfg s2" by (rule b(3)[OF c w]) (use i in \<open>simp_all add: s2 f\<close>)
    then show ?thesis using b(1)[OF c w] by (simp add: r_def)
  qed
qed

lemma dtq_init_inv:
  assumes "kinv s" and "dtq_inv cfg s"
  shows "kinv (snd (ini_dtq cfg dtqid s)) \<and> dtq_inv cfg (snd (ini_dtq cfg dtqid s))"
    and "kinv (snd (del_dtq cfg dtqid s)) \<and> dtq_inv cfg (snd (del_dtq cfg dtqid s))"
proof -
  let ?i = "INDEX_DTQ dtqid"
  have t: "kinv (t_lock_cpu s)" "dtq_inv cfg (t_lock_cpu s)" using assms by simp_all
  note b = dtq_init_body[OF t _ refl refl, of ?i]
  show "kinv (snd (ini_dtq cfg dtqid s)) \<and> dtq_inv cfg (snd (ini_dtq cfg dtqid s))"
    using assms b(1)[OF _ refl] by (auto simp: ini_dtq_def Let_def case_prod_beta intro!: dtq.both_call)
  have "tnum_sdtq cfg \<le> ?i \<and> ?i < tnum_dtq cfg" if "VALID_DTQID cfg dtqid" "DTQID ?i > tmax_sdtqid cfg"
    using that by (auto simp: VALID_DTQID_def DTQID_def INDEX_DTQ_def tnum_dtq_def tnum_sdtq_def)
  then show "kinv (snd (del_dtq cfg dtqid s)) \<and> dtq_inv cfg (snd (del_dtq cfg dtqid s))"
    using assms b(2)[OF _ _ _ refl]
    by (auto simp: del_dtq_def Let_def case_prod_beta kernel_free_def intro!: dtq.both_call)
qed

lemma dtq_create_inv:
  assumes "kinv s" and "dtq_inv cfg s"
  shows "kinv (snd (acre_dtq cfg pk s)) \<and> dtq_inv cfg (snd (acre_dtq cfg pk s))"
proof -
  let ?s = "t_lock_cpu s" and ?i = "hd (free_dtqcb (t_lock_cpu s))"
  have t: "kinv ?s" "dtq_inv cfg ?s" using assms by simp_all
  define c where "c atr mb = (dtqcb ?s ?i)\<lparr>p_dtqinib := (p_dtqinib (dtqcb ?s ?i))\<lparr>dtqatr := atr,
      dtqcnt := dtqcnt pk, p_dtqmb := mb\<rparr>, dtq_count := 0, dtq_head := 0, dtq_tail := 0\<rparr>" for atr mb
  define s1 where "s1 b atr mb = ?s\<lparr>kmm_brk := b, free_dtqcb := tl (free_dtqcb ?s),
    queues := (queues ?s)(WaitQ (DTQ ?i) := [], RWaitQ (DTQ ?i) := []), dtqcb := (dtqcb ?s)(?i := c atr mb)\<rparr>" for b atr mb
  have a: "snd (acre_dtq cfg pk s) \<in> {s, t_unlock_cpu ?s} \<or>
      (\<exists>b atr mb. snd (acre_dtq cfg pk s) = t_unlock_cpu (s1 b atr mb) \<and> free_dtqcb ?s \<noteq> [] \<and>
        CHECK_RSATR (dtqatr pk) TA_TPRI \<and> (atr = dtqatr pk \<or> atr = dtqatr pk OR TA_MBALLOC))"
  proof (cases "CHECK_TSKCTX_UNL s \<and> CHECK_RSATR (dtqatr pk) TA_TPRI \<and>
      \<not> (case p_dtqmb pk of Some mb \<Rightarrow> \<not> MB_ALIGNED mb | None \<Rightarrow> False) \<and> tnum_dtq cfg \<noteq> 0 \<and> free_dtqcb ?s \<noteq> []")
    case ok: True
    let ?m = "kernel_malloc cfg (SIZE_of (4 * dtqcnt pk)) ?s"
    define mb where "mb = fst ?m"
    define b where "b = kmm_brk (snd ?m)"
    note m = kernel_malloc_eq[OF mb_def b_def]
    consider "\<not> (dtqcnt pk \<noteq> 0 \<and> p_dtqmb pk = None)" | "dtqcnt pk \<noteq> 0" "p_dtqmb pk = None" "mb = None"
      | "dtqcnt pk \<noteq> 0" "p_dtqmb pk = None" "mb \<noteq> None" by blast
    then show ?thesis
    proof cases
      case 1
      then have "snd (acre_dtq cfg pk s) = t_unlock_cpu (s1 (kmm_brk ?s) (dtqatr pk) (p_dtqmb pk))"
        using ok by (auto simp: acre_dtq_def tsk_call_def Let_def q_initialize_def s1_def c_def)
      then show ?thesis using ok by blast
    next
      case 2
      then have "snd (acre_dtq cfg pk s) = t_unlock_cpu ?s" using ok m by (simp add: acre_dtq_def tsk_call_def)
      then show ?thesis by blast
    next
      case 3
      then have "snd (acre_dtq cfg pk s) = t_unlock_cpu (s1 b (dtqatr pk OR TA_MBALLOC) mb)"
        using ok m(1) by (auto simp: acre_dtq_def tsk_call_def Let_def q_initialize_def s1_def c_def)
      then show ?thesis using ok by blast
    qed
  next
    case False
    then have "snd (acre_dtq cfg pk s) = s \<or> snd (acre_dtq cfg pk s) = t_unlock_cpu ?s"
      by (auto simp: acre_dtq_def tsk_call_def)
    then show ?thesis by blast
  qed
  have "kinv (s1 b atr mb) \<and> dtq_inv cfg (s1 b atr mb)"
    if f: "free_dtqcb ?s \<noteq> []" and at: "atr \<noteq> TA_NOEXS" for b atr mb
  proof -
    have fr: "free_dtqcb ?s = ?i # tl (free_dtqcb ?s)" using f by simp
    have q: "queues ?s (WaitQ (DTQ ?i)) = []" "queues ?s (RWaitQ (DTQ ?i)) = []" using pool_invD(2,4)[OF t(2), of ?i] f by simp_all
    have "kinv (s1 b atr mb)" by (rule dtq.kinv_create[OF t(1,2) fr])
        (use q in \<open>auto simp: s1_def same_tasks_def fun_upd_idem wobjatr_def split: wobj.split\<close>)
    moreover have "dtq_inv cfg (s1 b atr mb)"
      by (rule dtq.inv_create[OF t(2) fr, of "s1 b atr mb" "c atr mb"])
        (use q at in \<open>auto simp: s1_def c_def fun_upd_idem dtq_ok_def buf_ok_def\<close>)
    ultimately show ?thesis ..
  qed
  moreover have "atr \<noteq> TA_NOEXS" if "CHECK_RSATR (dtqatr pk) TA_TPRI" "atr = dtqatr pk \<or> atr = dtqatr pk OR TA_MBALLOC" for atr
    using that rsatr_exists(1,2)[of "dtqatr pk" TA_TPRI] by auto
  ultimately show ?thesis using a assms by fastforce
qed

section \<open>Properties\<close>

lemma dtq_inv_run_kernel: "dtq_inv sample_cfg run_kernel"
  by (simp add: pool_inv_def dtq_ok_def buf_ok_def run_kernel_sel run_kernel_objects) (simp add: idle_kernel_def)

text \<open>
  C17: every service call on data queues, on every branch, keeps the kernel invariant and the
  invariant of the data queues: the count and the two indices of the ring buffer agree, tasks wait
  to send only at a full queue and to receive only when there is neither data nor a waiting sender.
\<close>

theorem dataqueue_calls_keep_inv:
  assumes "kinv s" and "dtq_inv cfg s" and "p_runtsk s = Some p"
  shows "\<forall>s' \<in> {snd (acre_dtq cfg pk s), snd (del_dtq cfg dtqid s), snd (snd_dtq cfg dtqid d s),
      snd (psnd_dtq cfg dtqid d s), snd (ipsnd_dtq cfg dtqid d s), snd (tsnd_dtq cfg dtqid d tmout s),
      snd (fsnd_dtq cfg dtqid d s), snd (ifsnd_dtq cfg dtqid d s), snd (rcv_dtq cfg dtqid s),
      snd (prcv_dtq cfg dtqid s), snd (trcv_dtq cfg dtqid tmout s), snd (ini_dtq cfg dtqid s),
      snd (ref_dtq cfg dtqid s)}. kinv s' \<and> dtq_inv cfg s'"
  using dtq_create_inv[OF assms(1,2)] dtq_init_inv[OF assms(1,2)] dtq_send_inv[OF assms] dtq_isend_inv[OF assms(1,2)]
    dtq_receive_inv[OF assms] by simp

theorem dataqueue_calls_keep_inv_witness:
  "dtq_inv sample_cfg (snd (trcv_dtq sample_cfg 1 5 run_kernel))"
  using dataqueue_calls_keep_inv[OF kinv_run_kernel dtq_inv_run_kernel run_kernel_sel(3), of _ 1 0 5] by blast

text \<open>
  C18: the data queue is first in, first out. The sequence of data still to be received consists of
  the ring buffer and the data of the waiting senders in queue order. A successful \<open>psnd_dtq\<close>
  appends its data to it, or hands the data to the first waiting receiver; \<open>prcv_dtq\<close> returns its
  first element and removes it, and fails with \<open>E_TMOUT\<close> exactly when it is empty.
\<close>

theorem dataqueue_fifo:
  assumes "kinv s" and "dtq_inv cfg s" and "CHECK_TSKCTX_UNL s" and "VALID_DTQID cfg dtqid"
    and "i = INDEX_DTQ dtqid" and "dtq_atr s i \<noteq> TA_NOEXS"
    and "s1 = snd (psnd_dtq cfg dtqid d s)" and "s2 = snd (prcv_dtq cfg dtqid s)"
  shows "(fst (psnd_dtq cfg dtqid d s) = Ret E_OK \<longrightarrow>
      (case queues s (RWaitQ (DTQ i)) of [] \<Rightarrow> dtq_stream s1 i = dtq_stream s i @ [d]
       | p # ps \<Rightarrow> w_data (winfos s1 p) = d \<and> result_of (Wait_ercd p) s1 = Some E_OK)) \<and>
    (case dtq_stream s i of [] \<Rightarrow> fst (prcv_dtq cfg dtqid s) = (Ret E_TMOUT, None) \<and> dtq_stream s2 i = []
     | x # xs \<Rightarrow> fst (prcv_dtq cfg dtqid s) = (Ret E_OK, Some x) \<and> dtq_stream s2 i = xs)"
proof -
  let ?s = "t_lock_cpu s"
  have t: "kinv ?s" "dtq_inv cfg ?s" "dtq_atr ?s i \<noteq> TA_NOEXS" using assms(1,2,6) by (simp_all add: lock_objects)
  have str: "dtq_stream (dispatch_if r) i = dtq_stream (snd r) i" "dtq_stream ?s i = dtq_stream s i"
    "dtq_stream (t_unlock_cpu s') i = dtq_stream s' i" for r s'
    by (simp_all add: dtq_stream_def lock_objects lock_sel dispatch_if_def dispatch_def)
  obtain x u where e: "send_data i d ?s = (x, u)" by fastforce
  have p: "psnd_dtq cfg dtqid d s = (case x of Some b \<Rightarrow> (Ret E_OK, t_unlock_cpu (dispatch_if (b, u))) | None \<Rightarrow> (Ret E_TMOUT, t_unlock_cpu u))"
    using assms(3-6) e by (simp add: psnd_dtq_def tsk_call_def Let_def lock_objects split: option.split)
  obtain y v where f: "receive_data i ?s = (y, v)" by fastforce
  have r: "prcv_dtq cfg dtqid s = (case y of Some (c, b) \<Rightarrow> ((Ret E_OK, Some c), t_unlock_cpu (dispatch_if (b, v))) | None \<Rightarrow> ((Ret E_TMOUT, None), t_unlock_cpu v))"
    using assms(3-6) f by (auto simp: prcv_dtq_def tsk_call_def Let_def lock_objects split: option.split)
  have "case queues s (RWaitQ (DTQ i)) of [] \<Rightarrow> dtq_stream s1 i = dtq_stream s i @ [d]
       | p # ps \<Rightarrow> w_data (winfos s1 p) = d \<and> result_of (Wait_ercd p) s1 = Some E_OK"
    if ok: "fst (psnd_dtq cfg dtqid d s) = Ret E_OK"
  proof -
    obtain b where b: "x = Some b" using ok p by (cases x) auto
    have s1: "dtq_stream s1 i = dtq_stream u i" "tcb s1 = tcb u"
      unfolding assms(7) p b option.case snd_conv by (simp add: str) (simp add: lock_sel dispatch_if_def dispatch_def)
    show ?thesis
      using send_data_ok(3)[OF t e b] send_data_ok(4)[OF t e b]
      by (cases "queues s (RWaitQ (DTQ i))") (simp_all add: s1 str lock_sel result_of_def)
  qed
  moreover have "case dtq_stream s i of [] \<Rightarrow> fst (prcv_dtq cfg dtqid s) = (Ret E_TMOUT, None) \<and> dtq_stream s2 i = []
     | x # xs \<Rightarrow> fst (prcv_dtq cfg dtqid s) = (Ret E_OK, Some x) \<and> dtq_stream s2 i = xs"
  proof (cases y)
    case None
    then have "v = ?s" "dtq_stream s i = []"
      using receive_data_ok(1)[OF t f None] by (simp_all add: dtq_stream_def dtq_contents_def lock_objects lock_sel)
    then show ?thesis using None by (simp add: assms(8) r str)
  next
    case (Some z)
    obtain c b where z: "z = (c, b)" by (cases z)
    then have "dtq_stream ?s i = c # dtq_stream v i" using receive_data_ok(2)[OF t f, of c b] Some by simp
    then show ?thesis using Some z by (simp add: assms(8) r str)
  qed
  ultimately show ?thesis by blast
qed

theorem dataqueue_fifo_witness:
  "fst (prcv_dtq sample_cfg 1 run_kernel) = (Ret E_TMOUT, None)"
proof -
  have "dtq_stream run_kernel 0 = []" "dtq_atr run_kernel 0 \<noteq> TA_NOEXS"
    by (simp_all add: dtq_stream_def dtq_contents_def run_kernel_sel run_kernel_objects) (simp_all add: idle_kernel_def)
  then show ?thesis
    using dataqueue_fifo[OF kinv_run_kernel dtq_inv_run_kernel, of 1 0 _ 7, OF _ _ _ _ refl refl]
    by (simp add: CHECK_TSKCTX_UNL_def run_kernel_sel VALID_DTQID_def INDEX_DTQ_def sample_cfg_def)
qed

text \<open>
  \<open>acre_dtq\<close> computes the size of the management area in 32 bits. For a capacity of $2^{30}$
  the product wraps around to zero: the call succeeds and no memory is allocated.
\<close>

lemma acre_dtq_size_wraps:
  assumes "CHECK_TSKCTX_UNL s" and "free_dtqcb s = i # is" and "tnum_dtq cfg \<noteq> 0"
    and "pk = \<lparr>dtqatr = TA_NULL, dtqcnt = 2 ^ 30, p_dtqmb = None\<rparr>"
  shows "fst (acre_dtq cfg pk s) = Ret (DTQID i) \<and> kmm_brk (snd (acre_dtq cfg pk s)) = kmm_brk s \<and>
    dtqcnt (p_dtqinib (dtqcb (snd (acre_dtq cfg pk s)) i)) = 2 ^ 30"
  using assms
  by (simp add: acre_dtq_def tsk_call_def CHECK_RSATR_def kernel_malloc_def SIZE_of_def lock_objects Let_def)

lemma acre_dtq_size_wraps_witness:
  "kmm_brk (snd (acre_dtq sample_cfg \<lparr>dtqatr = TA_NULL, dtqcnt = 2 ^ 30, p_dtqmb = None\<rparr> (run_kernel\<lparr>free_dtqcb := [1]\<rparr>))) = 0"
  using acre_dtq_size_wraps[of "run_kernel\<lparr>free_dtqcb := [1]\<rparr>" 1 "[]" sample_cfg, OF _ _ _ refl]
  by (simp add: CHECK_TSKCTX_UNL_def run_kernel_sel tnum_dtq_def sample_cfg_def run_kernel_objects) (simp add: idle_kernel_def)

end
