(* ===== verification/Asp_List.thy ===== *)
theory Asp_List
  imports Asp_Prelude
begin

text \<open>
  Singly linked lists in arrays, as the priority data queue, the mailbox and the fixed-sized memory
  pool use them: the null pointer is \<open>None\<close>, \<open>nx\<close> gives the link of a node. The abstraction to
  lists, and the loop that finds the place of a node in a list kept in priority order.
\<close>

section \<open>The nodes of a linked list\<close>

fun slist :: "('n \<Rightarrow> 'n option) \<Rightarrow> 'n option \<Rightarrow> 'n list \<Rightarrow> bool" where
  "slist nx l [] \<longleftrightarrow> l = None"
| "slist nx l (x # xs) \<longleftrightarrow> l = Some x \<and> slist nx (nx x) xs"

text \<open>Up to \<open>k\<close> nodes from a pointer on.\<close>

fun nodes :: "('n \<Rightarrow> 'n option) \<Rightarrow> nat \<Rightarrow> 'n option \<Rightarrow> 'n list" where
  "nodes nx 0 l = []"
| "nodes nx (Suc k) l = (case l of None \<Rightarrow> [] | Some x \<Rightarrow> x # nodes nx k (nx x))"

lemma nodes_slist: "slist nx l xs \<Longrightarrow> nodes nx (length xs) l = xs"
  by (induction nx l xs rule: slist.induct) simp_all

lemma slist_unique: "slist nx l xs \<Longrightarrow> slist nx l ys \<Longrightarrow> xs = ys"
proof (induction nx l xs arbitrary: ys rule: slist.induct)
  case (1 nx l)
  then show ?case by (cases ys) simp_all
next
  case (2 nx l x xs)
  then show ?case by (cases ys) simp_all
qed

lemma slist_cong: "(\<And>x. x \<in> set xs \<Longrightarrow> nx' x = nx x) \<Longrightarrow> slist nx' l xs = slist nx l xs"
  by (induction nx l xs rule: slist.induct) simp_all

lemma slist_upd [simp]: "x \<notin> set xs \<Longrightarrow> slist (nx(x := v)) l xs = slist nx l xs"
  by (rule slist_cong) auto

lemma slist_None [simp]: "slist nx None xs \<longleftrightarrow> xs = []"
  by (cases xs) auto

lemma slist_Some: "slist nx (Some x) xs \<longleftrightarrow> (\<exists>ys. xs = x # ys \<and> slist nx (nx x) ys)"
  by (cases xs) auto

lemma slist_append:
  "xs \<noteq> [] \<Longrightarrow> distinct xs \<Longrightarrow>
    slist nx l (xs @ ys) \<longleftrightarrow> slist (nx(last xs := None)) l xs \<and> slist nx (nx (last xs)) ys"
proof (induction nx l xs rule: slist.induct)
  case (2 nx l x xs)
  then show ?case by (cases xs) auto
qed simp

section \<open>Insertion in priority order\<close>

text \<open>The reference: behind all elements of the same or a higher priority.\<close>

definition insert_pri :: "('a \<Rightarrow> 'p :: linorder) \<Rightarrow> 'a \<Rightarrow> 'a list \<Rightarrow> 'a list" where
  "insert_pri pr x xs = takeWhile (\<lambda>y. pr y \<le> pr x) xs @ x # dropWhile (\<lambda>y. pr y \<le> pr x) xs"

lemma set_insert_pri [simp]: "set (insert_pri pr x xs) = insert x (set xs)"
proof -
  have "set xs = set (takeWhile (\<lambda>y. pr y \<le> pr x) xs @ dropWhile (\<lambda>y. pr y \<le> pr x) xs)" by simp
  then show ?thesis unfolding set_append insert_pri_def by auto
qed

lemma length_insert_pri [simp]: "length (insert_pri pr x xs) = Suc (length xs)"
proof -
  have "length xs = length (takeWhile (\<lambda>y. pr y \<le> pr x) xs @ dropWhile (\<lambda>y. pr y \<le> pr x) xs)" by simp
  then show ?thesis unfolding length_append insert_pri_def by simp
qed

lemma insert_pri_Cons:
  "insert_pri pr x [] = [x]"
  "insert_pri pr x (y # ys) = (if pr y \<le> pr x then y # insert_pri pr x ys else x # y # ys)"
  by (simp_all add: insert_pri_def)

lemma distinct_insert_pri: "x \<notin> set xs \<Longrightarrow> distinct xs \<Longrightarrow> distinct (insert_pri pr x xs)"
  by (induction xs) (auto simp: insert_pri_Cons)

lemma sorted_insert_pri: "sorted (map pr xs) \<Longrightarrow> sorted (map pr (insert_pri pr x xs))"
  by (induction xs) (auto simp: insert_pri_Cons)

lemma map_insert_pri:
  "(\<And>y. y \<in> insert x (set xs) \<Longrightarrow> pr y = pr' (f y)) \<Longrightarrow> map f (insert_pri pr x xs) = insert_pri pr' (f x) (map f xs)"
  by (induction xs) (auto simp: insert_pri_Cons)

text \<open>Elements of one priority stay in the order of their insertion.\<close>

lemma insert_pri_stable:
  "sorted (map pr xs) \<Longrightarrow>
    filter (\<lambda>y. pr y = q) (insert_pri pr x xs) = filter (\<lambda>y. pr y = q) xs @ (if pr x = q then [x] else [])"
proof (induction xs)
  case (Cons y ys)
  have "filter (\<lambda>y. pr y = pr x) ys = []" if "\<not> pr y \<le> pr x"
    using Cons.prems that by (auto simp: filter_empty_conv)
  then show ?case using Cons by (auto simp: insert_pri_Cons)
qed (simp add: insert_pri_Cons)

section \<open>The loop\<close>

text \<open>
  A pointer to a link, such as \<open>pp_prev_next\<close>, points to the head of the list or to the link of a
  node. The loop moves it until it is at the end of the list or before a node of lower priority; on
  a list with a cycle it need not end, which is \<open>None\<close>.
\<close>

datatype 'n link = Head_link | Link_of 'n

definition get_link :: "'n option \<Rightarrow> ('n \<Rightarrow> 'n option) \<Rightarrow> 'n link \<Rightarrow> 'n option" where
  "get_link h nx pp = (case pp of Head_link \<Rightarrow> h | Link_of n \<Rightarrow> nx n)"

definition set_link :: "'n option \<Rightarrow> 'n link \<Rightarrow> 'n option \<times> ('n \<Rightarrow> 'n option) \<Rightarrow> 'n option \<times> ('n \<Rightarrow> 'n option)" where
  "set_link v pp r = (case pp of Head_link \<Rightarrow> (v, snd r) | Link_of n \<Rightarrow> (fst r, (snd r)(n := v)))"

partial_function (option) link_walk ::
  "('n \<Rightarrow> int) \<Rightarrow> int \<Rightarrow> 'n option \<Rightarrow> ('n \<Rightarrow> 'n option) \<Rightarrow> 'n link \<Rightarrow> ('n link \<times> 'n option) option" where
  "link_walk pr pri h nx pp =
    (case get_link h nx pp of
       None \<Rightarrow> Some (pp, None)
     | Some n \<Rightarrow> if pr n > pri then Some (pp, Some n) else link_walk pr pri h nx (Link_of n))"

definition link_insert ::
  "('n \<Rightarrow> int) \<Rightarrow> 'n \<Rightarrow> 'n option \<Rightarrow> ('n \<Rightarrow> 'n option) \<Rightarrow> ('n option \<times> ('n \<Rightarrow> 'n option)) option" where
  "link_insert pr x h nx =
    (case link_walk pr (pr x) h nx Head_link of
       None \<Rightarrow> None
     | Some (pp, p_next) \<Rightarrow> Some (set_link (Some x) pp (h, nx(x := p_next))))"

lemma link_walk_slist:
  "slist nx (get_link h nx pp) xs \<Longrightarrow> link_walk pr pri h nx pp =
    Some (let ys = takeWhile (\<lambda>y. pr y \<le> pri) xs in
      (if ys = [] then pp else Link_of (last ys),
       case dropWhile (\<lambda>y. pr y \<le> pri) xs of [] \<Rightarrow> None | z # _ \<Rightarrow> Some z))"
proof (induction xs arbitrary: pp)
  case Nil
  then show ?case by (simp add: link_walk.simps)
next
  case (Cons x xs)
  then have g: "get_link h nx pp = Some x" and t: "slist nx (get_link h nx (Link_of x)) xs"
    by (simp_all add: get_link_def)
  show ?case
  proof (cases "pr x \<le> pri")
    case True
    then show ?thesis using Cons.IH[OF t] by (subst link_walk.simps) (simp add: g Let_def)
  next
    case False
    then show ?thesis by (subst link_walk.simps) (simp add: g)
  qed
qed

text \<open>On a list the loop ends, and the result is the list with the node in its place.\<close>

lemma slist_insert_at:
  assumes "slist nx h (ys @ zs)" and "x \<notin> set (ys @ zs)" and "distinct (ys @ zs)"
    and "r = set_link (Some x) (if ys = [] then Head_link else Link_of (last ys))
      (h, nx(x := case zs of [] \<Rightarrow> None | z # _ \<Rightarrow> Some z))"
  shows "slist (snd r) (fst r) (ys @ x # zs)"
    and "y \<notin> insert x (set (ys @ zs)) \<Longrightarrow> snd r y = nx y"
proof -
  show "y \<notin> insert x (set (ys @ zs)) \<Longrightarrow> snd r y = nx y"
    by (auto simp: assms(4) set_link_def)
  let ?m = "if ys = [] then h else nx (last ys)"
  have a: "ys \<noteq> [] \<longrightarrow> slist (nx(last ys := None)) h ys" "slist nx ?m zs" "distinct ys"
    using assms(1,3) by (auto simp: slist_append)
  have m: "?m = (case zs of [] \<Rightarrow> None | z # _ \<Rightarrow> Some z)" using a(2) by (cases zs) auto
  have z: "slist (nx(x := ?m)) (Some x) (x # zs)" using a(2) assms(2) by simp
  show "slist (snd r) (fst r) (ys @ x # zs)"
  proof (cases "ys = []")
    case True
    then show ?thesis using z m by (simp add: assms(4) set_link_def)
  next
    case False
    let ?nx = "nx(x := ?m, last ys := Some x)"
    have r: "r = (h, ?nx)" using False m by (simp add: assms(4) set_link_def)
    have l: "last ys \<in> set ys" using False by simp
    then have l: "last ys \<in> set ys" "last ys \<notin> set zs" "last ys \<noteq> x"
      using assms(2,3) by (metis disjoint_iff distinct_append, metis disjoint_iff distinct_append, metis Un_iff set_append)
    have "slist (?nx(last ys := None)) h ys = slist (nx(last ys := None)) h ys"
      by (rule slist_cong) (use assms(2) in auto)
    moreover have "slist ?nx (Some x) (x # zs) = slist (nx(x := ?m)) (Some x) (x # zs)"
      by (rule slist_cong) (use l in auto)
    ultimately show ?thesis using False a(1,3) z by (simp add: r slist_append)
  qed
qed

lemma link_insert_slist:
  assumes "slist nx h xs" and "x \<notin> set xs" and "distinct xs"
  obtains h' nx' where "link_insert pr x h nx = Some (h', nx')" and "slist nx' h' (insert_pri pr x xs)"
    and "\<And>y. y \<notin> insert x (set xs) \<Longrightarrow> nx' y = nx y"
proof -
  let ?ys = "takeWhile (\<lambda>y. pr y \<le> pr x) xs" and ?zs = "dropWhile (\<lambda>y. pr y \<le> pr x) xs"
  define r where "r = set_link (Some x) (if ?ys = [] then Head_link else Link_of (last ?ys))
    (h, nx(x := case ?zs of [] \<Rightarrow> None | z # _ \<Rightarrow> Some z))"
  have e: "link_insert pr x h nx = Some (fst r, snd r)"
    unfolding link_insert_def r_def using link_walk_slist[of nx h Head_link xs pr "pr x"] assms(1)
    by (simp add: get_link_def Let_def)
  have "slist (snd r) (fst r) (?ys @ x # ?zs)" "y \<notin> insert x (set (?ys @ ?zs)) \<Longrightarrow> snd r y = nx y" for y
    using slist_insert_at[where ys = ?ys and zs = ?zs, OF _ _ _ r_def] assms by simp_all
  then show ?thesis using that[OF e] by (simp add: insert_pri_def)
qed

end
