(* ===== verification/Asp_Pridataq.thy ===== *)
theory Asp_Pridataq
  imports Asp_Object Asp_List
begin

text \<open>
  Priority data queues, \<^verbatim>\<open>kernel/pridataq.c\<close>. The data is kept in a singly linked list of management
  blocks in priority order, the blocks given back in a second list. The invariant \<open>pdq_inv\<close> says that
  the two lists are well formed and together have all blocks used so far, that the data is sorted by
  priority, that tasks wait to send only at a full queue and to receive only at an empty one.
\<close>

section \<open>Operations\<close>

definition tnum_pdq :: "kernel_cfg \<Rightarrow> nat" where "tnum_pdq cfg = nat (tmax_pdqid cfg)"
definition tnum_spdq :: "kernel_cfg \<Rightarrow> nat" where "tnum_spdq cfg = nat (tmax_spdqid cfg)"
definition INDEX_PDQ :: "ID \<Rightarrow> nat" where "INDEX_PDQ pdqid = nat (pdqid - 1)"
definition PDQID :: "nat \<Rightarrow> ID" where "PDQID i = int i + 1"

definition VALID_PDQID :: "kernel_cfg \<Rightarrow> ID \<Rightarrow> bool" where
  "VALID_PDQID cfg pdqid \<longleftrightarrow> 1 \<le> pdqid \<and> pdqid \<le> tmax_pdqid cfg"

definition VALID_DPRI :: "PRI \<Rightarrow> bool" where
  "VALID_DPRI dpri \<longleftrightarrow> TMIN_DPRI \<le> dpri \<and> dpri \<le> TMAX_DPRI"

abbreviation upd_pdq :: "nat \<Rightarrow> (PDQCB \<Rightarrow> PDQCB) \<Rightarrow> kernel \<Rightarrow> kernel" where
  "upd_pdq i g s \<equiv> s\<lparr>pdqcb := (pdqcb s)(i := g (pdqcb s i))\<rparr>"

abbreviation pdq_atr :: "kernel \<Rightarrow> nat \<Rightarrow> ATR" where
  "pdq_atr s i \<equiv> pdqatr (p_pdqinib (pdqcb s i))"

abbreviation pdq_maxdpri :: "kernel \<Rightarrow> nat \<Rightarrow> PRI" where
  "pdq_maxdpri s i \<equiv> maxdpri (p_pdqinib (pdqcb s i))"

abbreviation pdq_reset :: "PDQCB \<Rightarrow> PDQCB" where
  "pdq_reset c \<equiv> c\<lparr>pdq_count := 0, pdq_head := None, pdq_unused := 0, pdq_freelist := None\<rparr>"

definition initialize_pridataq :: "kernel_cfg \<Rightarrow> kernel \<Rightarrow> kernel" where
  "initialize_pridataq cfg s =
    (let s = fold (\<lambda>i s.
               let s = s\<lparr>queues := q_initialize (WaitQ (PDQ i)) (queues s)\<rparr>;
                   s = upd_pdq i (\<lambda>c. c\<lparr>p_pdqinib := pdqinib_table cfg i\<rparr>) s;
                   s = s\<lparr>queues := q_initialize (RWaitQ (PDQ i)) (queues s)\<rparr>
               in upd_pdq i (\<lambda>c. c\<lparr>pdq_count := 0, pdq_head := None, pdq_unused := 0, pdq_freelist := None\<rparr>) s)
             [0..<tnum_spdq cfg] s;
         s = s\<lparr>free_pdqcb := []\<rparr>
     in fold (\<lambda>i s.
          let s = upd_pdq i (\<lambda>c. c\<lparr>p_pdqinib := (p_pdqinib c)\<lparr>pdqatr := TA_NOEXS\<rparr>\<rparr>) s
          in s\<lparr>free_pdqcb := free_pdqcb s @ [i]\<rparr>)
        [tnum_spdq cfg..<tnum_pdq cfg] s)"

text \<open>
  The management blocks. \<open>None\<close> is a loop that does not end; \<open>enqueue_pridata_ok\<close> shows that it ends
  on the lists of the invariant.
\<close>

abbreviation pdq_links :: "PDQCB \<Rightarrow> nat \<Rightarrow> nat option" where
  "pdq_links c \<equiv> \<lambda>n. pdq_next (pdqmb c n)"

definition enqueue_pridata :: "intptr_t \<Rightarrow> PRI \<Rightarrow> PDQCB \<Rightarrow> PDQCB option" where
  "enqueue_pridata data datapri c =
    (let (mb, c) = (case pdq_freelist c of
                      Some mb \<Rightarrow> (mb, c\<lparr>pdq_freelist := pdq_next (pdqmb c mb)\<rparr>)
                    | None \<Rightarrow> (pdq_unused c, c\<lparr>pdq_unused := pdq_unused c + 1\<rparr>));
         c = c\<lparr>pdqmb := (pdqmb c)(mb := (pdqmb c mb)\<lparr>pdq_data := data, pdq_datapri := datapri\<rparr>)\<rparr>
     in case link_insert (\<lambda>n. pdq_datapri (pdqmb c n)) mb (pdq_head c) (pdq_links c) of
          None \<Rightarrow> None
        | Some (h, nx) \<Rightarrow> Some (c\<lparr>pdqmb := (\<lambda>n. (pdqmb c n)\<lparr>pdq_next := nx n\<rparr>), pdq_head := h,
            pdq_count := pdq_count c + 1\<rparr>))"

definition dequeue_pridata :: "PDQCB \<Rightarrow> (intptr_t \<times> PRI) \<times> PDQCB" where
  "dequeue_pridata c =
    (let mb = the (pdq_head c);
         c = c\<lparr>pdq_head := pdq_next (pdqmb c mb)\<rparr>;
         c = c\<lparr>pdq_count := pdq_count c - 1\<rparr>;
         data = pdq_data (pdqmb c mb);
         datapri = pdq_datapri (pdqmb c mb);
         c = c\<lparr>pdqmb := (pdqmb c)(mb := (pdqmb c mb)\<lparr>pdq_next := pdq_freelist c\<rparr>)\<rparr>;
         c = c\<lparr>pdq_freelist := Some mb\<rparr>
     in ((data, datapri), c))"

definition send_pridata :: "nat \<Rightarrow> intptr_t \<Rightarrow> PRI \<Rightarrow> kernel \<Rightarrow> bool option \<times> kernel" where
  "send_pridata i data datapri s =
    (if \<not> q_empty (RWaitQ (PDQ i)) (queues s)
     then (let (p_tcb, f) = q_delete_next (RWaitQ (PDQ i)) (queues s);
               s = s\<lparr>queues := f\<rparr>;
               s = upd_winfo p_tcb (\<lambda>w. w\<lparr>w_data := data, w_datapri := datapri\<rparr>) s;
               (dspreq, s) = wait_complete p_tcb s
           in (Some dspreq, s))
     else if pdq_count (pdqcb s i) < pdqcnt (p_pdqinib (pdqcb s i))
     then (Some False, upd_pdq i (\<lambda>c. the (enqueue_pridata data datapri c)) s)
     else (None, s))"

definition receive_pridata :: "nat \<Rightarrow> kernel \<Rightarrow> ((intptr_t \<times> PRI) \<times> bool) option \<times> kernel" where
  "receive_pridata i s =
    (if pdq_count (pdqcb s i) > 0
     then (let (x, c) = dequeue_pridata (pdqcb s i);
               s = upd_pdq i (\<lambda>_. c) s
           in if \<not> q_empty (WaitQ (PDQ i)) (queues s)
              then (let (p_tcb, f) = q_delete_next (WaitQ (PDQ i)) (queues s);
                        s = s\<lparr>queues := f\<rparr>;
                        data = w_data (winfos s p_tcb);
                        datapri = w_datapri (winfos s p_tcb);
                        s = upd_pdq i (\<lambda>c. the (enqueue_pridata data datapri c)) s;
                        (dspreq, s) = wait_complete p_tcb s
                    in (Some (x, dspreq), s))
              else (Some (x, False), s))
     else if \<not> q_empty (WaitQ (PDQ i)) (queues s)
     then (let (p_tcb, f) = q_delete_next (WaitQ (PDQ i)) (queues s);
               s = s\<lparr>queues := f\<rparr>;
               data = w_data (winfos s p_tcb);
               datapri = w_datapri (winfos s p_tcb);
               (dspreq, s) = wait_complete p_tcb s
           in (Some ((data, datapri), dspreq), s))
     else (None, s))"

definition acre_pdq :: "kernel_cfg \<Rightarrow> PDQINIB \<Rightarrow> kernel \<Rightarrow> result \<times> kernel" where
  "acre_pdq cfg pk_cpdq s =
    (if \<not> CHECK_TSKCTX_UNL s then (Ret E_CTX, s)
     else if \<not> CHECK_RSATR (pdqatr pk_cpdq) TA_TPRI then (Ret E_RSATR, s)
     else if \<not> VALID_DPRI (maxdpri pk_cpdq) then (Ret E_PAR, s)
     else if (case p_pdqmb pk_cpdq of Some mb \<Rightarrow> \<not> MB_ALIGNED mb | None \<Rightarrow> False) then (Ret E_PAR, s)
     else tsk_call (\<lambda>s.
       if tnum_pdq cfg = 0 \<or> free_pdqcb s = [] then (Ret E_NOID, s)
       else (let (atr, mb, s) =
                  (if pdqcnt pk_cpdq \<noteq> 0 \<and> p_pdqmb pk_cpdq = None
                   then (let (mb, s) = kernel_malloc cfg (SIZE_of (12 * pdqcnt pk_cpdq)) s
                         in (pdqatr pk_cpdq OR TA_MBALLOC, mb, s))
                   else (pdqatr pk_cpdq, p_pdqmb pk_cpdq, s))
             in if pdqcnt pk_cpdq \<noteq> 0 \<and> mb = None then (Ret E_NOMEM, s)
                else (let i = hd (free_pdqcb s);
                          s = s\<lparr>free_pdqcb := tl (free_pdqcb s)\<rparr>;
                          s = upd_pdq i (\<lambda>c. c\<lparr>p_pdqinib := (p_pdqinib c)\<lparr>pdqatr := atr,
                                pdqcnt := pdqcnt pk_cpdq, maxdpri := maxdpri pk_cpdq, p_pdqmb := mb\<rparr>\<rparr>) s;
                          s = s\<lparr>queues := q_initialize (WaitQ (PDQ i)) (queues s)\<rparr>;
                          s = s\<lparr>queues := q_initialize (RWaitQ (PDQ i)) (queues s)\<rparr>;
                          s = upd_pdq i (\<lambda>c. c\<lparr>pdq_count := 0, pdq_head := None, pdq_unused := 0, pdq_freelist := None\<rparr>) s
                      in (Ret (PDQID i), s)))) s)"

definition del_pdq :: "kernel_cfg \<Rightarrow> ID \<Rightarrow> kernel \<Rightarrow> result \<times> kernel" where
  "del_pdq cfg pdqid s =
    (if \<not> CHECK_TSKCTX_UNL s then (Ret E_CTX, s)
     else if \<not> VALID_PDQID cfg pdqid then (Ret E_ID, s)
     else let i = INDEX_PDQ pdqid in tsk_call (\<lambda>s.
       if pdq_atr s i = TA_NOEXS then (Ret E_NOEXS, s)
       else if PDQID i > tmax_spdqid cfg
       then (let (d1, s) = init_wait_queue (WaitQ (PDQ i)) s;
                 (d2, s) = init_wait_queue (RWaitQ (PDQ i)) s;
                 s = (if pdq_atr s i AND TA_MBALLOC \<noteq> 0
                      then kernel_free (p_pdqmb (p_pdqinib (pdqcb s i))) s else s);
                 s = upd_pdq i (\<lambda>c. c\<lparr>p_pdqinib := (p_pdqinib c)\<lparr>pdqatr := TA_NOEXS\<rparr>\<rparr>) s;
                 s = s\<lparr>free_pdqcb := free_pdqcb s @ [i]\<rparr>
             in (Ret E_OK, dispatch_if (d1 \<or> d2, s)))
       else (Ret E_OBJ, s)) s)"

definition snd_pdq :: "kernel_cfg \<Rightarrow> ID \<Rightarrow> intptr_t \<Rightarrow> PRI \<Rightarrow> kernel \<Rightarrow> result \<times> kernel" where
  "snd_pdq cfg pdqid data datapri s =
    (if \<not> CHECK_DISPATCH s then (Ret E_CTX, s)
     else if \<not> VALID_PDQID cfg pdqid then (Ret E_ID, s)
     else if \<not> TMIN_DPRI \<le> datapri then (Ret E_PAR, s)
     else let i = INDEX_PDQ pdqid in tsk_call (\<lambda>s.
       if pdq_atr s i = TA_NOEXS then (Ret E_NOEXS, s)
       else if \<not> datapri \<le> pdq_maxdpri s i then (Ret E_PAR, s)
       else (case send_pridata i data datapri s of
          (Some dspreq, s) \<Rightarrow> (Ret E_OK, dispatch_if (dspreq, s))
        | (None, s) \<Rightarrow>
           (let s = upd_winfo (runtsk s) (\<lambda>w. w\<lparr>w_data := data, w_datapri := datapri\<rparr>) s;
                s = set_tstat (runtsk s) (TS_WAITING OR TS_WAIT_SPDQ) s;
                s = wobj_make_wait (PDQ i) s
            in (Wait_ercd (runtsk s), dispatch s)))) s)"

definition psnd_pdq :: "kernel_cfg \<Rightarrow> ID \<Rightarrow> intptr_t \<Rightarrow> PRI \<Rightarrow> kernel \<Rightarrow> result \<times> kernel" where
  "psnd_pdq cfg pdqid data datapri s =
    (if \<not> CHECK_TSKCTX_UNL s then (Ret E_CTX, s)
     else if \<not> VALID_PDQID cfg pdqid then (Ret E_ID, s)
     else if \<not> TMIN_DPRI \<le> datapri then (Ret E_PAR, s)
     else let i = INDEX_PDQ pdqid in tsk_call (\<lambda>s.
       if pdq_atr s i = TA_NOEXS then (Ret E_NOEXS, s)
       else if \<not> datapri \<le> pdq_maxdpri s i then (Ret E_PAR, s)
       else (case send_pridata i data datapri s of
          (Some dspreq, s) \<Rightarrow> (Ret E_OK, dispatch_if (dspreq, s))
        | (None, s) \<Rightarrow> (Ret E_TMOUT, s))) s)"

definition ipsnd_pdq :: "kernel_cfg \<Rightarrow> ID \<Rightarrow> intptr_t \<Rightarrow> PRI \<Rightarrow> kernel \<Rightarrow> result \<times> kernel" where
  "ipsnd_pdq cfg pdqid data datapri s =
    (if \<not> CHECK_INTCTX_UNL s then (Ret E_CTX, s)
     else if \<not> VALID_PDQID cfg pdqid then (Ret E_ID, s)
     else if \<not> TMIN_DPRI \<le> datapri then (Ret E_PAR, s)
     else let i = INDEX_PDQ pdqid in int_call (\<lambda>s.
       if pdq_atr s i = TA_NOEXS then (Ret E_NOEXS, s)
       else if \<not> datapri \<le> pdq_maxdpri s i then (Ret E_PAR, s)
       else (case send_pridata i data datapri s of
          (Some dspreq, s) \<Rightarrow> (Ret E_OK, reqflg_if (dspreq, s))
        | (None, s) \<Rightarrow> (Ret E_TMOUT, s))) s)"

definition tsnd_pdq :: "kernel_cfg \<Rightarrow> ID \<Rightarrow> intptr_t \<Rightarrow> PRI \<Rightarrow> TMO \<Rightarrow> kernel \<Rightarrow> result \<times> kernel" where
  "tsnd_pdq cfg pdqid data datapri tmout s =
    (if \<not> CHECK_DISPATCH s then (Ret E_CTX, s)
     else if \<not> VALID_PDQID cfg pdqid then (Ret E_ID, s)
     else if \<not> CHECK_TMOUT tmout then (Ret E_PAR, s)
     else if \<not> TMIN_DPRI \<le> datapri then (Ret E_PAR, s)
     else let i = INDEX_PDQ pdqid in tsk_call (\<lambda>s.
       if pdq_atr s i = TA_NOEXS then (Ret E_NOEXS, s)
       else if \<not> datapri \<le> pdq_maxdpri s i then (Ret E_PAR, s)
       else (case send_pridata i data datapri s of
          (Some dspreq, s) \<Rightarrow> (Ret E_OK, dispatch_if (dspreq, s))
        | (None, s) \<Rightarrow>
           (if tmout = TMO_POL then (Ret E_TMOUT, s)
            else (let s = upd_winfo (runtsk s) (\<lambda>w. w\<lparr>w_data := data, w_datapri := datapri\<rparr>) s;
                      s = set_tstat (runtsk s) (TS_WAITING OR TS_WAIT_SPDQ) s;
                      s = wobj_make_wait_tmout (PDQ i) tmout s
                  in (Wait_ercd (runtsk s), dispatch s))))) s)"

text \<open>
  The receiving calls return data and priority at once, or in \<open>w_data\<close> and \<open>w_datapri\<close> of the
  waiting information when the wait ends with \<open>E_OK\<close>.
\<close>

definition rcv_pdq :: "kernel_cfg \<Rightarrow> ID \<Rightarrow> kernel \<Rightarrow> (result \<times> (intptr_t \<times> PRI) option) \<times> kernel" where
  "rcv_pdq cfg pdqid s =
    (if \<not> CHECK_DISPATCH s then ((Ret E_CTX, None), s)
     else if \<not> VALID_PDQID cfg pdqid then ((Ret E_ID, None), s)
     else let i = INDEX_PDQ pdqid in tsk_call (\<lambda>s.
       if pdq_atr s i = TA_NOEXS then ((Ret E_NOEXS, None), s)
       else (case receive_pridata i s of
          (Some (data, dspreq), s) \<Rightarrow> ((Ret E_OK, Some data), dispatch_if (dspreq, s))
        | (None, s) \<Rightarrow>
           (let s = set_tstat (runtsk s) (TS_WAITING OR TS_WAIT_RPDQ) s;
                s = make_wait s;
                s = s\<lparr>queues := q_insert_prev (RWaitQ (PDQ i)) (runtsk s) (queues s)\<rparr>;
                s = upd_winfo (runtsk s) (\<lambda>w. w\<lparr>p_wobjcb := PDQ i\<rparr>) s
            in ((Wait_ercd (runtsk s), None), dispatch s)))) s)"

definition prcv_pdq :: "kernel_cfg \<Rightarrow> ID \<Rightarrow> kernel \<Rightarrow> (result \<times> (intptr_t \<times> PRI) option) \<times> kernel" where
  "prcv_pdq cfg pdqid s =
    (if \<not> CHECK_TSKCTX_UNL s then ((Ret E_CTX, None), s)
     else if \<not> VALID_PDQID cfg pdqid then ((Ret E_ID, None), s)
     else let i = INDEX_PDQ pdqid in tsk_call (\<lambda>s.
       if pdq_atr s i = TA_NOEXS then ((Ret E_NOEXS, None), s)
       else (case receive_pridata i s of
          (Some (data, dspreq), s) \<Rightarrow> ((Ret E_OK, Some data), dispatch_if (dspreq, s))
        | (None, s) \<Rightarrow> ((Ret E_TMOUT, None), s))) s)"

definition trcv_pdq :: "kernel_cfg \<Rightarrow> ID \<Rightarrow> TMO \<Rightarrow> kernel \<Rightarrow> (result \<times> (intptr_t \<times> PRI) option) \<times> kernel" where
  "trcv_pdq cfg pdqid tmout s =
    (if \<not> CHECK_DISPATCH s then ((Ret E_CTX, None), s)
     else if \<not> VALID_PDQID cfg pdqid then ((Ret E_ID, None), s)
     else if \<not> CHECK_TMOUT tmout then ((Ret E_PAR, None), s)
     else let i = INDEX_PDQ pdqid in tsk_call (\<lambda>s.
       if pdq_atr s i = TA_NOEXS then ((Ret E_NOEXS, None), s)
       else (case receive_pridata i s of
          (Some (data, dspreq), s) \<Rightarrow> ((Ret E_OK, Some data), dispatch_if (dspreq, s))
        | (None, s) \<Rightarrow>
           (if tmout = TMO_POL then ((Ret E_TMOUT, None), s)
            else (let s = set_tstat (runtsk s) (TS_WAITING OR TS_WAIT_RPDQ) s;
                      s = make_wait_tmout tmout s;
                      s = s\<lparr>queues := q_insert_prev (RWaitQ (PDQ i)) (runtsk s) (queues s)\<rparr>;
                      s = upd_winfo (runtsk s) (\<lambda>w. w\<lparr>p_wobjcb := PDQ i\<rparr>) s
                  in ((Wait_ercd (runtsk s), None), dispatch s))))) s)"

definition ini_pdq :: "kernel_cfg \<Rightarrow> ID \<Rightarrow> kernel \<Rightarrow> result \<times> kernel" where
  "ini_pdq cfg pdqid s =
    (if \<not> CHECK_TSKCTX_UNL s then (Ret E_CTX, s)
     else if \<not> VALID_PDQID cfg pdqid then (Ret E_ID, s)
     else let i = INDEX_PDQ pdqid in tsk_call (\<lambda>s.
       if pdq_atr s i = TA_NOEXS then (Ret E_NOEXS, s)
       else (let (d1, s) = init_wait_queue (WaitQ (PDQ i)) s;
                 (d2, s) = init_wait_queue (RWaitQ (PDQ i)) s;
                 s = upd_pdq i (\<lambda>c. c\<lparr>pdq_count := 0, pdq_head := None, pdq_unused := 0, pdq_freelist := None\<rparr>) s
             in (Ret E_OK, dispatch_if (d1 \<or> d2, s)))) s)"

record T_RPDQ =
  rpdq_stskid :: ID
  rpdq_rtskid :: ID
  rpdq_spdqcnt :: nat

definition ref_pdq :: "kernel_cfg \<Rightarrow> ID \<Rightarrow> kernel \<Rightarrow> (result \<times> T_RPDQ option) \<times> kernel" where
  "ref_pdq cfg pdqid s =
    (if \<not> CHECK_TSKCTX_UNL s then ((Ret E_CTX, None), s)
     else if \<not> VALID_PDQID cfg pdqid then ((Ret E_ID, None), s)
     else let i = INDEX_PDQ pdqid in tsk_call (\<lambda>s.
       if pdq_atr s i = TA_NOEXS then ((Ret E_NOEXS, None), s)
       else ((Ret E_OK, Some \<lparr>rpdq_stskid = wait_tskid (WaitQ (PDQ i)) s,
               rpdq_rtskid = wait_tskid (RWaitQ (PDQ i)) s, rpdq_spdqcnt = pdq_count (pdqcb s i)\<rparr>), s)) s)"

section \<open>The management blocks as lists\<close>

definition pdq_nodes :: "PDQCB \<Rightarrow> nat list" where
  "pdq_nodes c = nodes (pdq_links c) (pdq_count c) (pdq_head c)"

definition pdq_free :: "PDQCB \<Rightarrow> nat list" where
  "pdq_free c = nodes (pdq_links c) (pdq_unused c - pdq_count c) (pdq_freelist c)"

text \<open>The data in the queue, each with its priority.\<close>

definition pdq_contents :: "PDQCB \<Rightarrow> (PRI \<times> intptr_t) list" where
  "pdq_contents c = map (\<lambda>n. (pdq_datapri (pdqmb c n), pdq_data (pdqmb c n))) (pdq_nodes c)"

definition pdq_buf_ok :: "PDQCB \<Rightarrow> bool" where
  "pdq_buf_ok c \<longleftrightarrow> slist (pdq_links c) (pdq_head c) (pdq_nodes c) \<and> slist (pdq_links c) (pdq_freelist c) (pdq_free c) \<and>
    distinct (pdq_nodes c @ pdq_free c) \<and> set (pdq_nodes c @ pdq_free c) = {..<pdq_unused c} \<and>
    length (pdq_nodes c) = pdq_count c \<and> pdq_unused c \<le> pdqcnt (p_pdqinib c) \<and>
    sorted (map fst (pdq_contents c)) \<and>
    (\<forall>x \<in> set (pdq_contents c). TMIN_DPRI \<le> fst x \<and> fst x \<le> maxdpri (p_pdqinib c))"

lemma pdq_buf_okI:
  assumes "slist (pdq_links c) (pdq_head c) xs" and "slist (pdq_links c) (pdq_freelist c) fs"
    and "distinct (xs @ fs)" and "set (xs @ fs) = {..<pdq_unused c}" and "length xs = pdq_count c"
    and "pdq_unused c \<le> pdqcnt (p_pdqinib c)"
    and "l = map (\<lambda>n. (pdq_datapri (pdqmb c n), pdq_data (pdqmb c n))) xs" and "sorted (map fst l)"
    and "\<forall>x \<in> set l. TMIN_DPRI \<le> fst x \<and> fst x \<le> maxdpri (p_pdqinib c)"
  shows "pdq_buf_ok c" and "pdq_contents c = l" and "pdq_nodes c = xs" and "pdq_free c = fs"
proof -
  have "length (xs @ fs) = pdq_unused c" using distinct_card[OF assms(3)] assms(4) by simp
  then have "length fs = pdq_unused c - pdq_count c" using assms(5) by simp
  then show n: "pdq_nodes c = xs" and f: "pdq_free c = fs"
    using nodes_slist[OF assms(1)] nodes_slist[OF assms(2)] assms(5) by (simp_all add: pdq_nodes_def pdq_free_def)
  show l: "pdq_contents c = l" by (simp add: pdq_contents_def n assms(7))
  show "pdq_buf_ok c" unfolding pdq_buf_ok_def n f l using assms by simp
qed

lemma pdq_buf_okD:
  assumes "pdq_buf_ok c"
  shows "slist (pdq_links c) (pdq_head c) (pdq_nodes c)" and "slist (pdq_links c) (pdq_freelist c) (pdq_free c)"
    and "distinct (pdq_nodes c @ pdq_free c)" and "set (pdq_nodes c @ pdq_free c) = {..<pdq_unused c}"
    and "length (pdq_nodes c) = pdq_count c" and "pdq_unused c \<le> pdqcnt (p_pdqinib c)"
    and "sorted (map fst (pdq_contents c))"
    and "x \<in> set (pdq_contents c) \<Longrightarrow> TMIN_DPRI \<le> fst x \<and> fst x \<le> maxdpri (p_pdqinib c)"
    and "length (pdq_nodes c) + length (pdq_free c) = pdq_unused c" and "length (pdq_contents c) = pdq_count c"
  using assms distinct_card[of "pdq_nodes c @ pdq_free c"] by (auto simp: pdq_buf_ok_def pdq_contents_def)

lemma pdq_reset_ok: "pdq_buf_ok (pdq_reset c)" "pdq_contents (pdq_reset c) = []"
  by (simp_all add: pdq_buf_ok_def pdq_nodes_def pdq_free_def pdq_contents_def)

text \<open>The block for new data: from the free list, or the next one never used.\<close>

lemma enqueue_node:
  assumes "pdq_buf_ok c" and "pdq_count c < pdqcnt (p_pdqinib c)"
    and "(mb, c1) = (case pdq_freelist c of Some mb \<Rightarrow> (mb, c\<lparr>pdq_freelist := pdq_next (pdqmb c mb)\<rparr>)
      | None \<Rightarrow> (pdq_unused c, c\<lparr>pdq_unused := pdq_unused c + 1\<rparr>))"
  obtains fs where "slist (pdq_links c) (pdq_freelist c1) fs" and "mb \<notin> set (pdq_nodes c)" and "mb \<notin> set fs"
    and "distinct (pdq_nodes c @ fs)" and "insert mb (set (pdq_nodes c @ fs)) = {..<pdq_unused c1}"
    and "pdq_unused c1 \<le> pdqcnt (p_pdqinib c)"
    and "c1 = c\<lparr>pdq_freelist := pdq_freelist c1, pdq_unused := pdq_unused c1\<rparr>"
proof (cases "pdq_freelist c")
  note d = pdq_buf_okD[OF assms(1)]
  case None
  then have e: "mb = pdq_unused c" "c1 = c\<lparr>pdq_unused := pdq_unused c + 1\<rparr>" using assms(3) by simp_all
  have f: "pdq_free c = []" using d(2) None by simp
  have "pdq_unused c = pdq_count c" using d(5,9) f by simp
  moreover have "pdq_unused c \<notin> set (pdq_nodes c)" using d(4) by auto
  ultimately show ?thesis using that[of "[]"] d(3,4) f assms(2) None e by (simp add: lessThan_Suc)
next
  note d = pdq_buf_okD[OF assms(1)]
  case (Some n)
  then have e: "mb = n" "c1 = c\<lparr>pdq_freelist := pdq_next (pdqmb c n)\<rparr>" using assms(3) by simp_all
  obtain fs where f: "pdq_free c = n # fs" "slist (pdq_links c) (pdq_next (pdqmb c n)) fs"
    using d(2) Some by (auto simp: slist_Some)
  show ?thesis using that[of fs] d(3,4,6) f e by simp
qed

lemma enqueue_pridata_ok:
  assumes "pdq_buf_ok c" and "pdq_count c < pdqcnt (p_pdqinib c)" and "TMIN_DPRI \<le> pri" and "pri \<le> maxdpri (p_pdqinib c)"
  obtains c' where "enqueue_pridata d pri c = Some c'" and "pdq_buf_ok c'" and "p_pdqinib c' = p_pdqinib c"
    and "pdq_contents c' = insert_pri fst (pri, d) (pdq_contents c)" and "pdq_count c' = pdq_count c + 1"
proof -
  note b = pdq_buf_okD[OF assms(1)]
  obtain mb c1 where e: "(mb, c1) = (case pdq_freelist c of Some mb \<Rightarrow> (mb, c\<lparr>pdq_freelist := pdq_next (pdqmb c mb)\<rparr>)
      | None \<Rightarrow> (pdq_unused c, c\<lparr>pdq_unused := pdq_unused c + 1\<rparr>))" by (metis surj_pair)
  obtain fs where f: "slist (pdq_links c) (pdq_freelist c1) fs" "mb \<notin> set (pdq_nodes c)" "mb \<notin> set fs"
    "distinct (pdq_nodes c @ fs)" "insert mb (set (pdq_nodes c @ fs)) = {..<pdq_unused c1}"
    "pdq_unused c1 \<le> pdqcnt (p_pdqinib c)" "c1 = c\<lparr>pdq_freelist := pdq_freelist c1, pdq_unused := pdq_unused c1\<rparr>"
    by (rule enqueue_node[OF assms(1,2) e])
  define m where "m = (pdqmb c)(mb := (pdqmb c mb)\<lparr>pdq_data := d, pdq_datapri := pri\<rparr>)"
  let ?pr = "\<lambda>n. pdq_datapri (m n)" and ?nx = "\<lambda>n. pdq_next (m n)" and ?el = "\<lambda>n. (pdq_datapri (m n), pdq_data (m n))"
  have nx: "?nx = pdq_links c" by (auto simp: m_def)
  have s: "slist ?nx (pdq_head c) (pdq_nodes c)" using b(1) nx by simp
  obtain h' nx' where i: "link_insert ?pr mb (pdq_head c) ?nx = Some (h', nx')"
    "slist nx' h' (insert_pri ?pr mb (pdq_nodes c))" "\<And>y. y \<notin> insert mb (set (pdq_nodes c)) \<Longrightarrow> nx' y = ?nx y"
    by (rule link_insert_slist[OF s f(2), where pr = ?pr]) (use f(4) in auto)
  define c' where "c' = c1\<lparr>pdqmb := (\<lambda>n. (m n)\<lparr>pdq_next := nx' n\<rparr>), pdq_head := h', pdq_count := pdq_count c + 1\<rparr>"
  have c1: "pdqmb c1 = pdqmb c" "pdq_head c1 = pdq_head c" "pdq_count c1 = pdq_count c" "p_pdqinib c1 = p_pdqinib c"
    by (subst f(7), simp)+
  have eq: "enqueue_pridata d pri c = Some c'"
    unfolding enqueue_pridata_def e[symmetric] using i(1) by (simp add: c'_def Let_def c1 m_def[symmetric] del: fun_upd_apply)
  have el: "map ?el (pdq_nodes c) = pdq_contents c" using f(2) by (auto simp: pdq_contents_def m_def)
  have l: "insert_pri fst (pri, d) (pdq_contents c) = map ?el (insert_pri ?pr mb (pdq_nodes c))"
    using map_insert_pri[of mb "pdq_nodes c" ?pr fst ?el] el by (simp add: m_def)
  have "nx' y = pdq_links c y" if "y \<in> set fs" for y
    using i(3)[of y] that f(3,4) fun_cong[OF nx, of y] by auto
  then have fr: "slist nx' (pdq_freelist c1) fs" using f(1) slist_cong[of fs nx' "pdq_links c"] by blast
  let ?xs = "insert_pri ?pr mb (pdq_nodes c)"
  have s': "slist (pdq_links c') (pdq_head c') ?xs" "slist (pdq_links c') (pdq_freelist c') fs"
    using i(2) fr by (simp_all add: c'_def)
  have u: "distinct (?xs @ fs)" "set (?xs @ fs) = {..<pdq_unused c'}" "length ?xs = pdq_count c'"
    "pdq_unused c' \<le> pdqcnt (p_pdqinib c')"
    using f(2-6) b(5) by (auto simp: c'_def c1 distinct_insert_pri)
  have l': "insert_pri fst (pri, d) (pdq_contents c) = map (\<lambda>n. (pdq_datapri (pdqmb c' n), pdq_data (pdqmb c' n))) ?xs"
    unfolding l by (simp add: c'_def)
  have o: "sorted (map fst (insert_pri fst (pri, d) (pdq_contents c)))"
    "\<forall>x \<in> set (insert_pri fst (pri, d) (pdq_contents c)). TMIN_DPRI \<le> fst x \<and> fst x \<le> maxdpri (p_pdqinib c')"
    using sorted_insert_pri[OF b(7)] b(8) assms(3,4) by (auto simp: c'_def c1)
  note p = pdq_buf_okI(1,2)[OF s' u l' o]
  show ?thesis by (rule that[OF eq p(1) _ p(2)]) (simp_all add: c'_def c1)
qed

lemma dequeue_pridata_ok:
  assumes "pdq_buf_ok c" and "pdq_count c > 0" and "((d, pri), c') = dequeue_pridata c"
  shows "pdq_buf_ok c'" and "pdq_contents c = (pri, d) # pdq_contents c'" and "p_pdqinib c' = p_pdqinib c"
    and "pdq_count c' = pdq_count c - 1"
proof -
  note b = pdq_buf_okD[OF assms(1)]
  obtain n ns where n: "pdq_nodes c = n # ns" using b(5) assms(2) by (cases "pdq_nodes c") auto
  then have h: "pdq_head c = Some n" "slist (pdq_links c) (pdq_next (pdqmb c n)) ns" using b(1) by simp_all
  have c': "c' = c\<lparr>pdq_head := pdq_next (pdqmb c n), pdq_count := pdq_count c - 1,
      pdqmb := (pdqmb c)(n := (pdqmb c n)\<lparr>pdq_next := pdq_freelist c\<rparr>), pdq_freelist := Some n\<rparr>"
    "d = pdq_data (pdqmb c n)" "pri = pdq_datapri (pdqmb c n)"
    using assms(3) h by (simp_all add: dequeue_pridata_def)
  have nx: "pdq_links c' = (pdq_links c)(n := pdq_freelist c)" by (auto simp: c'(1))
  have ns: "n \<notin> set ns" "n \<notin> set (pdq_free c)" using b(3) n by auto
  define l where "l = map (\<lambda>n. (pdq_datapri (pdqmb c' n), pdq_data (pdqmb c' n))) ns"
  have l: "pdq_contents c = (pri, d) # l" using ns(1) by (auto simp: pdq_contents_def n c' l_def)
  have s: "slist (pdq_links c') (pdq_head c') ns" "slist (pdq_links c') (pdq_freelist c') (n # pdq_free c)"
    unfolding nx using h(2) ns b(2) by (simp_all add: c'(1))
  have u: "distinct (ns @ n # pdq_free c)" "set (ns @ n # pdq_free c) = {..<pdq_unused c'}" "length ns = pdq_count c'"
    "pdq_unused c' \<le> pdqcnt (p_pdqinib c')"
    using b(3-6) n by (auto simp: c'(1))
  have o: "sorted (map fst l)" "\<forall>x \<in> set l. TMIN_DPRI \<le> fst x \<and> fst x \<le> maxdpri (p_pdqinib c')"
    using b(7,8) l by (simp_all add: c'(1))
  note p = pdq_buf_okI(1,2)[OF s u l_def o]
  show "pdq_buf_ok c'" "pdq_contents c = (pri, d) # pdq_contents c'" using p l by simp_all
  show "p_pdqinib c' = p_pdqinib c" "pdq_count c' = pdq_count c - 1" by (simp_all add: c'(1))
qed

section \<open>The invariant of the priority data queues\<close>

definition pdq_ok :: "PDQCB \<Rightarrow> (tsk \<Rightarrow> WINFO) \<Rightarrow> tsk list \<Rightarrow> tsk list \<Rightarrow> bool" where
  "pdq_ok c w sq rq \<longleftrightarrow> pdq_buf_ok c \<and> (sq \<noteq> [] \<longrightarrow> pdq_count c = pdqcnt (p_pdqinib c)) \<and>
    (rq \<noteq> [] \<longrightarrow> pdq_count c = 0 \<and> sq = []) \<and>
    (\<forall>p \<in> set sq. TMIN_DPRI \<le> w_datapri (w p) \<and> w_datapri (w p) \<le> maxdpri (p_pdqinib c))"

interpretation pdq: object_pool PDQ pdqcb "\<lambda>c. pdqatr (p_pdqinib c)" free_pdqcb pdq_ok
proof
  show "pdqcb s' = pdqcb s \<and> free_pdqcb s' = free_pdqcb s" if "objects s' = objects s" for s' s
    using objectsD[OF that] by simp
  show "pdq_ok c w' sq' rq'" if "pdq_ok c w sq rq" "set sq' \<subseteq> set sq" "set rq' \<subseteq> set rq"
    "\<And>p. p \<in> set sq' \<union> set rq' \<Longrightarrow> w' p = w p" for c w sq rq sq' rq' w'
    using that unfolding pdq_ok_def by (metis UnCI empty_set subset_empty set_empty subsetD)
qed (simp_all add: wobjatr_def)

abbreviation pdq_inv :: "kernel_cfg \<Rightarrow> kernel \<Rightarrow> bool" where
  "pdq_inv cfg s \<equiv>
    pool_inv PDQ pdqcb (\<lambda>c. pdqatr (p_pdqinib c)) free_pdqcb pdq_ok (tnum_spdq cfg) (tnum_pdq cfg) s"

lemma wobjatr_pdqcb [simp]:
  "pdqatr (p_pdqinib c) = pdq_atr s i \<Longrightarrow> wobjatr (s\<lparr>pdqcb := (pdqcb s)(i := c)\<rparr>) = wobjatr s"
  "wobjatr (s\<lparr>free_pdqcb := l\<rparr>) = wobjatr s"
  by (rule ext, simp add: wobjatr_def split: wobj.split)+

lemma wobjatr_pdq_other: "w \<noteq> PDQ i \<Longrightarrow> wobjatr (s\<lparr>pdqcb := (pdqcb s)(i := c)\<rparr>) w = wobjatr s w"
  by (simp add: wobjatr_def split: wobj.split)

lemma pdqcb_before_queues: "s\<lparr>queues := q, pdqcb := c\<rparr> = s\<lparr>pdqcb := c, queues := q\<rparr>"
  by simp

text \<open>The priority is within the bounds of the queue.\<close>

abbreviation pdq_pri_ok :: "kernel \<Rightarrow> nat \<Rightarrow> PRI \<Rightarrow> bool" where
  "pdq_pri_ok s i pri \<equiv> TMIN_DPRI \<le> pri \<and> pri \<le> pdq_maxdpri s i"

lemma send_pridata_ok:
  assumes "kinv s" and "pdq_inv cfg s" and "pdq_atr s i \<noteq> TA_NOEXS" and "pdq_pri_ok s i pri"
    and "send_pridata i d pri s = (x, s1)"
  shows "x = Some b \<Longrightarrow> op_ok s (b, s1) \<and> pdq_inv cfg s1"
    and "x = None \<Longrightarrow> s1 = s \<and> queues s (RWaitQ (PDQ i)) = [] \<and> pdq_count (pdqcb s i) = pdqcnt (p_pdqinib (pdqcb s i))"
    and "x = Some b \<Longrightarrow> queues s (RWaitQ (PDQ i)) = [] \<Longrightarrow>
      pdq_contents (pdqcb s1 i) = insert_pri fst (pri, d) (pdq_contents (pdqcb s i))"
    and "x = Some b \<Longrightarrow> queues s (RWaitQ (PDQ i)) = p # ps \<Longrightarrow>
      w_data (winfos s1 p) = d \<and> w_datapri (winfos s1 p) = pri \<and> winfo (winfos s1 p) = Wercd E_OK \<and>
      queues s1 (RWaitQ (PDQ i)) = ps \<and> pdqcb s1 = pdqcb s"
proof -
  note l = pdq.local[OF assms(2,3)]
  have buf: "pdq_buf_ok (pdqcb s i)" using l by (simp add: pdq_ok_def)
  have le: "pdq_count (pdqcb s i) \<le> pdqcnt (p_pdqinib (pdqcb s i))"
    using pdq_buf_okD(5,6,9)[OF buf] by simp
  show "x = None \<Longrightarrow> s1 = s \<and> queues s (RWaitQ (PDQ i)) = [] \<and> pdq_count (pdqcb s i) = pdqcnt (p_pdqinib (pdqcb s i))"
    using assms(5) le by (auto simp: send_pridata_def q_empty_def split: if_splits prod.splits)
  have *: "(x = Some b \<longrightarrow> op_ok s (b, s1) \<and> pdq_inv cfg s1 \<and>
      (queues s (RWaitQ (PDQ i)) = [] \<longrightarrow> pdq_contents (pdqcb s1 i) = insert_pri fst (pri, d) (pdq_contents (pdqcb s i))) \<and>
      (\<forall>p ps. queues s (RWaitQ (PDQ i)) = p # ps \<longrightarrow>
        w_data (winfos s1 p) = d \<and> w_datapri (winfos s1 p) = pri \<and> winfo (winfos s1 p) = Wercd E_OK \<and>
        queues s1 (RWaitQ (PDQ i)) = ps \<and> pdqcb s1 = pdqcb s))"
  proof (cases "queues s (RWaitQ (PDQ i))")
    case (Cons p ps)
    let ?g = "\<lambda>w. w\<lparr>w_data := d, w_datapri := pri\<rparr>"
    let ?r = "wait_complete p (upd_winfo p ?g (s\<lparr>queues := (queues s)(RWaitQ (PDQ i) := ps)\<rparr>))"
    obtain b' s' where r: "?r = (b', s')" by fastforce
    have e: "x = Some b'" "s1 = s'"
      using assms(5) Cons r by (auto simp: send_pridata_def q_empty_def q_delete_next_def Let_def split: prod.splits)
    have q: "is_waitq (RWaitQ (PDQ i))" by (simp add: is_waitq_def)
    note k = wake_obj[OF kinvD(2)[OF assms(1)] Cons q _ refl, of ?g]
    note iw = pdq.inv_wake[OF assms(1-3) _ _ _ _ disjI2[OF refl] Cons _ refl, of s ?g]
    have "op_ok s ?r" "pdq_inv cfg (snd ?r)" using iw l Cons by (simp_all add: same_tasks_def pdq_ok_def)
    moreover have "pdqcb (snd ?r) = pdqcb s" using objectsD(14)[OF k(3)] by simp
    ultimately show ?thesis using Cons k(6) k(4)[OF _ q] r by (simp add: e) blast
  next
    case Nil
    let ?s = "upd_pdq i (\<lambda>c. the (enqueue_pridata d pri c)) s"
    show ?thesis
    proof (cases "pdq_count (pdqcb s i) < pdqcnt (p_pdqinib (pdqcb s i))")
      case True
      then have e: "x = Some False" "s1 = ?s"
        using assms(5) Nil by (auto simp: send_pridata_def q_empty_def)
      obtain c' where b: "enqueue_pridata d pri (pdqcb s i) = Some c'" "pdq_buf_ok c'" "p_pdqinib c' = p_pdqinib (pdqcb s i)"
        "pdq_contents c' = insert_pri fst (pri, d) (pdq_contents (pdqcb s i))"
        by (rule enqueue_pridata_ok[OF buf True, where d = d]) (use assms(4) in auto)
      note c = pdq.inv_cb[OF assms(1-3), of ?s]
      have sq: "queues s (WaitQ (PDQ i)) = []" using l True by (auto simp: pdq_ok_def)
      have "kinv ?s" "pdq_inv cfg ?s" using c b sq Nil l by (simp_all add: same_tasks_def pdq_ok_def)
      moreover have "op_ok s (False, ?s)"
        using kinvD(2)[OF \<open>kinv ?s\<close>] by (simp add: op_ok_def)
      ultimately show ?thesis using e Nil b by simp
    qed (use assms(5) Nil in \<open>auto simp: send_pridata_def q_empty_def\<close>)
  qed
  show "x = Some b \<Longrightarrow> op_ok s (b, s1) \<and> pdq_inv cfg s1"
    "x = Some b \<Longrightarrow> queues s (RWaitQ (PDQ i)) = [] \<Longrightarrow>
      pdq_contents (pdqcb s1 i) = insert_pri fst (pri, d) (pdq_contents (pdqcb s i))"
    "x = Some b \<Longrightarrow> queues s (RWaitQ (PDQ i)) = p # ps \<Longrightarrow>
      w_data (winfos s1 p) = d \<and> w_datapri (winfos s1 p) = pri \<and> winfo (winfos s1 p) = Wercd E_OK \<and>
      queues s1 (RWaitQ (PDQ i)) = ps \<and> pdqcb s1 = pdqcb s"
    using * by blast+
qed

text \<open>
  \<open>receive_pridata\<close> takes the first data; the data of the first waiting sender, if there is one, is
  put into the queue in its place, or handed over at once when the queue has no capacity.
\<close>

definition pdq_receive_spec ::
  "(PRI \<times> intptr_t) list \<Rightarrow> (PRI \<times> intptr_t) list \<Rightarrow> ((PRI \<times> intptr_t) \<times> (PRI \<times> intptr_t) list) option" where
  "pdq_receive_spec contents senders = (case (contents, senders) of
     ([], []) \<Rightarrow> None
   | ([], y # ys) \<Rightarrow> Some (y, [])
   | (x # xs, []) \<Rightarrow> Some (x, xs)
   | (x # xs, y # ys) \<Rightarrow> Some (x, insert_pri fst y xs))"

abbreviation pdq_senders :: "kernel \<Rightarrow> nat \<Rightarrow> (PRI \<times> intptr_t) list" where
  "pdq_senders s i \<equiv> map (\<lambda>p. (w_datapri (winfos s p), w_data (winfos s p))) (queues s (WaitQ (PDQ i)))"

lemma receive_pridata_ok:
  assumes "kinv s" and "pdq_inv cfg s" and "pdq_atr s i \<noteq> TA_NOEXS" and "receive_pridata i s = (x, s1)"
  shows "x = None \<Longrightarrow> s1 = s \<and> queues s (WaitQ (PDQ i)) = [] \<and> pdq_count (pdqcb s i) = 0 \<and> pdq_contents (pdqcb s i) = []"
    and "x = Some ((d, pri), b) \<Longrightarrow> op_ok s (b, s1) \<and> pdq_inv cfg s1 \<and>
      pdq_receive_spec (pdq_contents (pdqcb s i)) (pdq_senders s i) = Some ((pri, d), pdq_contents (pdqcb s1 i))"
proof -
  let ?q = "WaitQ (PDQ i)" and ?c = "pdqcb s i"
  note l = pdq.local[OF assms(2,3)]
  have buf: "pdq_buf_ok ?c" using l by (simp add: pdq_ok_def)
  have z: "pdq_contents ?c = []" if "pdq_count ?c = 0" using pdq_buf_okD(10)[OF buf] that by simp
  have q: "is_waitq ?q" by (simp add: is_waitq_def)
  show "x = None \<Longrightarrow> s1 = s \<and> queues s ?q = [] \<and> pdq_count ?c = 0 \<and> pdq_contents (pdqcb s i) = []"
    using assms(4) z by (auto simp: receive_pridata_def q_empty_def Let_def split: if_splits prod.splits)
  assume x: "x = Some ((d, pri), b)"
  show "op_ok s (b, s1) \<and> pdq_inv cfg s1 \<and>
      pdq_receive_spec (pdq_contents ?c) (pdq_senders s i) = Some ((pri, d), pdq_contents (pdqcb s1 i))"
  proof (cases "pdq_count ?c > 0")
    case True
    obtain d' pri' c1 where dq: "((d', pri'), c1) = dequeue_pridata ?c" by (metis surj_pair)
    note d = dequeue_pridata_ok[OF buf True dq]
    have rq: "queues s (RWaitQ (PDQ i)) = []" using l True by (auto simp: pdq_ok_def)
    show ?thesis
    proof (cases "queues s ?q")
      case Nil
      let ?s = "upd_pdq i (\<lambda>_. c1) s"
      have e: "d = d'" "pri = pri'" "b = False" "s1 = ?s"
        using assms(4) x True Nil dq[symmetric] by (auto simp: receive_pridata_def q_empty_def)
      have "kinv ?s" "pdq_inv cfg ?s"
        using pdq.inv_cb[OF assms(1-3), of ?s] d(1,3) rq Nil by (simp_all add: same_tasks_def pdq_ok_def)
      then show ?thesis using kinvD(2)[of ?s] e d(2) Nil by (simp add: op_ok_def pdq_receive_spec_def)
    next
      case (Cons p ps)
      let ?d = "w_data (winfos s p)" and ?pri = "w_datapri (winfos s p)"
      have full: "pdq_count ?c = pdqcnt (p_pdqinib ?c)" using l Cons by (auto simp: pdq_ok_def)
      have room: "pdq_count c1 < pdqcnt (p_pdqinib c1)" using True full d(3,4) by simp
      have pri: "TMIN_DPRI \<le> ?pri" "?pri \<le> maxdpri (p_pdqinib c1)" using l Cons d(3) by (auto simp: pdq_ok_def)
      obtain c2 where b2: "enqueue_pridata ?d ?pri c1 = Some c2" "pdq_buf_ok c2" "p_pdqinib c2 = p_pdqinib c1"
        "pdq_contents c2 = insert_pri fst (?pri, ?d) (pdq_contents c1)" "pdq_count c2 = pdq_count c1 + 1"
        by (rule enqueue_pridata_ok[OF d(1) room pri])
      let ?s = "upd_pdq i (\<lambda>_. c2) s"
      let ?r = "wait_complete p (upd_winfo p (\<lambda>w. w) (?s\<lparr>queues := (queues ?s)(?q := ps)\<rparr>))"
      have e: "d = d'" "pri = pri'" "b = fst ?r" "s1 = snd ?r"
        using assms(4) x True Cons dq[symmetric] b2(1)
        by (auto simp: receive_pridata_def q_empty_def q_delete_next_def case_prod_beta Let_def pdqcb_before_queues)
      have ok: "pdq_ok c2 (winfos s) ps (queues s (RWaitQ (PDQ i)))"
        using b2 rq full True l Cons d(3,4) by (simp add: pdq_ok_def)
      note iw = pdq.inv_wake[OF assms(1-3) _ _ _ _ disjI1[OF refl] Cons _ refl, of ?s "\<lambda>w. w"]
      have op: "op_ok s ?r" "pdq_inv cfg (snd ?r)" using iw ok d(3) b2(3) by (simp_all add: same_tasks_def)
      have w: "winv ?s" using same_tasks_kinv(2)[of s ?s] kinvD(2)[OF assms(1)] d(3) b2(3) by (simp add: same_tasks_def)
      note k = wake_obj[OF w _ q _ refl, of p ps "\<lambda>w. w"]
      have "pdqcb (snd ?r) i = c2" using objectsD(14)[OF k(3)] Cons by simp
      then show ?thesis using op e Cons d(2) b2(4) by (simp add: pdq_receive_spec_def)
    qed
  next
    case False
    then obtain p ps where Cons: "queues s ?q = p # ps"
      using assms(4) x by (cases "queues s ?q") (auto simp: receive_pridata_def q_empty_def)
    let ?r = "wait_complete p (upd_winfo p (\<lambda>w. w) (s\<lparr>queues := (queues s)(?q := ps)\<rparr>))"
    have e: "d = w_data (winfos s p)" "pri = w_datapri (winfos s p)" "b = fst ?r" "s1 = snd ?r"
      using assms(4) x False Cons by (auto simp: receive_pridata_def q_empty_def q_delete_next_def case_prod_beta Let_def)
    note iw = pdq.inv_wake[OF assms(1-3) _ _ _ _ disjI1[OF refl] Cons _ refl, of s "\<lambda>w. w"]
    have op: "op_ok s ?r" "pdq_inv cfg (snd ?r)" using iw l Cons by (auto simp: same_tasks_def pdq_ok_def)
    note k = wake_obj[OF kinvD(2)[OF assms(1)] Cons q _ refl, of "\<lambda>w. w"]
    have "pdqcb (snd ?r) = pdqcb s" using objectsD(14)[OF k(3)] by simp
    then show ?thesis using op e z False Cons by (simp add: pdq_receive_spec_def)
  qed
qed

section \<open>The service calls keep the invariants\<close>

lemma pdq_block_inv:
  assumes "kinv s" and "pdq_inv cfg s" and "pdq_atr s i \<noteq> TA_NOEXS" and "p_runtsk s = Some p"
  shows "queues s (RWaitQ (PDQ i)) = [] \<Longrightarrow> pdq_count (pdqcb s i) = pdqcnt (p_pdqinib (pdqcb s i)) \<Longrightarrow> pdq_pri_ok s i pri \<Longrightarrow>
      s1 = set_tstat p (TS_WAITING OR TS_WAIT_SPDQ) (upd_winfo p (\<lambda>w. w\<lparr>w_data := d, w_datapri := pri\<rparr>) s) \<Longrightarrow>
      kinv (dispatch (wobj_make_wait_tmout (PDQ i) tmout s1)) \<and> pdq_inv cfg (wobj_make_wait_tmout (PDQ i) tmout s1)"
    and "queues s (WaitQ (PDQ i)) = [] \<Longrightarrow> pdq_count (pdqcb s i) = 0 \<Longrightarrow>
      s2 = set_tstat p (TS_WAITING OR TS_WAIT_RPDQ) s \<Longrightarrow>
      kinv (dispatch (rwait_tmout (PDQ i) tmout s2)) \<and> pdq_inv cfg (rwait_tmout (PDQ i) tmout s2)"
proof -
  note l = pdq.local[OF assms(2,3)]
  show "kinv (dispatch (wobj_make_wait_tmout (PDQ i) tmout s1)) \<and> pdq_inv cfg (wobj_make_wait_tmout (PDQ i) tmout s1)"
    if a: "queues s (RWaitQ (PDQ i)) = []" "pdq_count (pdqcb s i) = pdqcnt (p_pdqinib (pdqcb s i))" "pdq_pri_ok s i pri"
      "s1 = set_tstat p (TS_WAITING OR TS_WAIT_SPDQ) (upd_winfo p (\<lambda>w. w\<lparr>w_data := d, w_datapri := pri\<rparr>) s)"
  proof -
    let ?g = "\<lambda>w. w\<lparr>w_data := d, w_datapri := pri\<rparr>"
    have "pdq_ok (pdqcb s i) w sq (queues s (RWaitQ (PDQ i)))"
      if "\<And>x. x \<noteq> p \<Longrightarrow> w x = winfos s x" "w p = (?g (winfos s p))\<lparr>winfo := v, p_wobjcb := u\<rparr>"
        "set sq = insert p (set (queues s (WaitQ (PDQ i))))" for w sq v u
    proof -
      have "pdq_pri_ok s i (w_datapri (w x))" if "x \<in> set sq" for x
        using that \<open>set sq = _\<close> \<open>w p = _\<close> \<open>\<And>x. x \<noteq> p \<Longrightarrow> w x = winfos s x\<close>[of x] a(3) l
        by (cases "x = p") (auto simp: pdq_ok_def)
      then show ?thesis using a l by (simp add: pdq_ok_def)
    qed
    then show ?thesis
      using pdq.inv_block[OF assms _ _ refl, of TS_WAIT_SPDQ ?g tmout] by (simp add: a(4))
  qed
  show "kinv (dispatch (rwait_tmout (PDQ i) tmout s2)) \<and> pdq_inv cfg (rwait_tmout (PDQ i) tmout s2)"
    if "queues s (WaitQ (PDQ i)) = []" "pdq_count (pdqcb s i) = 0" "s2 = set_tstat p (TS_WAITING OR TS_WAIT_RPDQ) s"
    using pdq.inv_rblock[OF assms _ _ refl, of TS_WAIT_RPDQ tmout] that l by (simp add: pdq_ok_def)
qed

lemma pdq_send_inv:
  assumes "kinv s" and "pdq_inv cfg s" and "p_runtsk s = Some p"
  shows "kinv (snd (snd_pdq cfg pdqid d pri s)) \<and> pdq_inv cfg (snd (snd_pdq cfg pdqid d pri s))"
    and "kinv (snd (psnd_pdq cfg pdqid d pri s)) \<and> pdq_inv cfg (snd (psnd_pdq cfg pdqid d pri s))"
    and "kinv (snd (tsnd_pdq cfg pdqid d pri tmout s)) \<and> pdq_inv cfg (snd (tsnd_pdq cfg pdqid d pri tmout s))"
proof -
  let ?s = "t_lock_cpu s" and ?i = "INDEX_PDQ pdqid"
  have t: "kinv ?s" "pdq_inv cfg ?s" "p_runtsk ?s = Some p" using assms by simp_all
  obtain x s1 where e: "send_pridata ?i d pri ?s = (x, s1)" by fastforce
  note c = send_pridata_ok(1,2)[OF t(1,2) _ _ e] and b = pdq_block_inv(1)[OF t(1,2) _ t(3) _ _ _ refl, where i = ?i and d = d and pri = pri]
  note dp = op_ok_dispatch_if[OF t(1)]
  show "kinv (snd (snd_pdq cfg pdqid d pri s)) \<and> pdq_inv cfg (snd (snd_pdq cfg pdqid d pri s))"
    "kinv (snd (psnd_pdq cfg pdqid d pri s)) \<and> pdq_inv cfg (snd (psnd_pdq cfg pdqid d pri s))"
    "kinv (snd (tsnd_pdq cfg pdqid d pri tmout s)) \<and> pdq_inv cfg (snd (tsnd_pdq cfg pdqid d pri tmout s))"
    using assms b c dp t(3)
    by (auto simp: e snd_pdq_def psnd_pdq_def tsnd_pdq_def wobj_make_wait_eq Let_def
        intro!: pdq.both_call split: option.split)
qed

lemma pdq_isend_inv:
  assumes "kinv s" and "pdq_inv cfg s"
  shows "kinv (snd (ipsnd_pdq cfg pdqid d pri s)) \<and> pdq_inv cfg (snd (ipsnd_pdq cfg pdqid d pri s))"
proof -
  let ?s = "i_lock_cpu s" and ?i = "INDEX_PDQ pdqid"
  have t: "kinv ?s" "pdq_inv cfg ?s" using assms by simp_all
  obtain x s1 where e: "send_pridata ?i d pri ?s = (x, s1)" by fastforce
  note c = send_pridata_ok(1,2)[OF t _ _ e] and dp = op_ok_reqflg_if[OF t(1)]
  show ?thesis
    using assms c dp by (auto simp: e ipsnd_pdq_def Let_def intro!: pdq.both_int_call split: option.split)
qed

lemma pdq_receive_inv:
  assumes "kinv s" and "pdq_inv cfg s" and "p_runtsk s = Some p"
  shows "kinv (snd (rcv_pdq cfg pdqid s)) \<and> pdq_inv cfg (snd (rcv_pdq cfg pdqid s))"
    and "kinv (snd (prcv_pdq cfg pdqid s)) \<and> pdq_inv cfg (snd (prcv_pdq cfg pdqid s))"
    and "kinv (snd (trcv_pdq cfg pdqid tmout s)) \<and> pdq_inv cfg (snd (trcv_pdq cfg pdqid tmout s))"
    and "kinv (snd (ref_pdq cfg pdqid s)) \<and> pdq_inv cfg (snd (ref_pdq cfg pdqid s))"
proof -
  let ?s = "t_lock_cpu s" and ?i = "INDEX_PDQ pdqid"
  have t: "kinv ?s" "pdq_inv cfg ?s" "p_runtsk ?s = Some p" using assms by simp_all
  obtain x s1 where e: "receive_pridata ?i ?s = (x, s1)" by fastforce
  note c = receive_pridata_ok[OF t(1,2) _ e] and b = pdq_block_inv(2)[OF t(1,2) _ t(3) _ _ refl, of ?i]
  note dp = op_ok_dispatch_if[OF t(1)]
  show "kinv (snd (rcv_pdq cfg pdqid s)) \<and> pdq_inv cfg (snd (rcv_pdq cfg pdqid s))"
    "kinv (snd (prcv_pdq cfg pdqid s)) \<and> pdq_inv cfg (snd (prcv_pdq cfg pdqid s))"
    "kinv (snd (trcv_pdq cfg pdqid tmout s)) \<and> pdq_inv cfg (snd (trcv_pdq cfg pdqid tmout s))"
    "kinv (snd (ref_pdq cfg pdqid s)) \<and> pdq_inv cfg (snd (ref_pdq cfg pdqid s))"
    using assms b[where tmout = TMO_FEVR] b[where tmout = tmout] c dp t(3)
    by (auto simp: e rcv_pdq_def prcv_pdq_def trcv_pdq_def ref_pdq_def make_wait_sel rwait_tmout_def Let_def
        intro!: pdq.both_call split: option.split)
qed

lemma pdq_init_body:
  assumes "kinv s" and "pdq_inv cfg s" and "pdq_atr s i \<noteq> TA_NOEXS"
    and "r1 = init_wait_queue (WaitQ (PDQ i)) s" and "r2 = init_wait_queue (RWaitQ (PDQ i)) (snd r1)"
  shows "s1 = upd_pdq i (\<lambda>c. c\<lparr>pdq_count := 0, pdq_head := None, pdq_unused := 0, pdq_freelist := None\<rparr>) (snd r2) \<Longrightarrow>
      kinv (dispatch_if (fst r1 \<or> fst r2, s1)) \<and> pdq_inv cfg s1"
    and "tnum_spdq cfg \<le> i \<Longrightarrow> i < tnum_pdq cfg \<Longrightarrow>
      s2 = (upd_pdq i (\<lambda>c. c\<lparr>p_pdqinib := (p_pdqinib c)\<lparr>pdqatr := TA_NOEXS\<rparr>\<rparr>) (snd r2))\<lparr>free_pdqcb := free_pdqcb (snd r2) @ [i]\<rparr> \<Longrightarrow>
      kinv (dispatch_if (fst r1 \<or> fst r2, s2)) \<and> pdq_inv cfg s2"
proof -
  define r where "r = (fst r1 \<or> fst r2, snd r2)"
  note n = init_wait_queues_obj[OF kinvD(2)[OF assms(1)] assms(4,5) r_def]
  note f = objectsD(14,15)[OF n(2), unfolded r_def snd_conv] and b = pdq.inv_init[OF assms(1-3) n]
  have a: "wobjatr (snd r2) = wobjatr s" using wobjatr_objects[OF n(2)] by (simp add: r_def)
  show "kinv (dispatch_if (fst r1 \<or> fst r2, s1)) \<and> pdq_inv cfg s1"
    if s1: "s1 = upd_pdq i (\<lambda>c. c\<lparr>pdq_count := 0, pdq_head := None, pdq_unused := 0, pdq_freelist := None\<rparr>) (snd r2)"
  proof -
    have w: "\<And>w. w \<noteq> PDQ i \<Longrightarrow> wobjatr s1 w = wobjatr s w" using a by (simp add: s1)
    have c: "same_tasks (snd r) s1" "\<And>j. j \<noteq> i \<Longrightarrow> pdqcb s1 j = pdqcb s j" by (simp_all add: s1 f r_def same_tasks_def)
    have "pdq_inv cfg s1"
      by (rule b(2)[OF c w]) (use assms(3) in \<open>simp_all add: s1 f pdq_ok_def pdq_reset_ok\<close>)
    then show ?thesis using b(1)[OF c w] by (simp add: r_def)
  qed
  show "kinv (dispatch_if (fst r1 \<or> fst r2, s2)) \<and> pdq_inv cfg s2"
    if i: "tnum_spdq cfg \<le> i" "i < tnum_pdq cfg" and
      s2: "s2 = (upd_pdq i (\<lambda>c. c\<lparr>p_pdqinib := (p_pdqinib c)\<lparr>pdqatr := TA_NOEXS\<rparr>\<rparr>) (snd r2))\<lparr>free_pdqcb := free_pdqcb (snd r2) @ [i]\<rparr>"
  proof -
    have w: "\<And>w. w \<noteq> PDQ i \<Longrightarrow> wobjatr s2 w = wobjatr s w" using a by (simp add: s2 wobjatr_pdq_other)
    have c: "same_tasks (snd r) s2" "\<And>j. j \<noteq> i \<Longrightarrow> pdqcb s2 j = pdqcb s j" by (simp_all add: s2 f r_def same_tasks_def)
    have "pdq_inv cfg s2" by (rule b(3)[OF c w]) (use i in \<open>simp_all add: s2 f\<close>)
    then show ?thesis using b(1)[OF c w] by (simp add: r_def)
  qed
qed

lemma pdq_init_inv:
  assumes "kinv s" and "pdq_inv cfg s"
  shows "kinv (snd (ini_pdq cfg pdqid s)) \<and> pdq_inv cfg (snd (ini_pdq cfg pdqid s))"
    and "kinv (snd (del_pdq cfg pdqid s)) \<and> pdq_inv cfg (snd (del_pdq cfg pdqid s))"
proof -
  let ?i = "INDEX_PDQ pdqid"
  have t: "kinv (t_lock_cpu s)" "pdq_inv cfg (t_lock_cpu s)" using assms by simp_all
  note b = pdq_init_body[OF t _ refl refl, of ?i]
  show "kinv (snd (ini_pdq cfg pdqid s)) \<and> pdq_inv cfg (snd (ini_pdq cfg pdqid s))"
    using assms b(1)[OF _ refl] by (auto simp: ini_pdq_def Let_def case_prod_beta intro!: pdq.both_call)
  have "tnum_spdq cfg \<le> ?i \<and> ?i < tnum_pdq cfg" if "VALID_PDQID cfg pdqid" "PDQID ?i > tmax_spdqid cfg"
    using that by (auto simp: VALID_PDQID_def PDQID_def INDEX_PDQ_def tnum_pdq_def tnum_spdq_def)
  then show "kinv (snd (del_pdq cfg pdqid s)) \<and> pdq_inv cfg (snd (del_pdq cfg pdqid s))"
    using assms b(2)[OF _ _ _ refl]
    by (auto simp: del_pdq_def Let_def case_prod_beta kernel_free_def intro!: pdq.both_call)
qed

lemma pdq_create_inv:
  assumes "kinv s" and "pdq_inv cfg s"
  shows "kinv (snd (acre_pdq cfg pk s)) \<and> pdq_inv cfg (snd (acre_pdq cfg pk s))"
proof -
  let ?s = "t_lock_cpu s" and ?i = "hd (free_pdqcb (t_lock_cpu s))"
  have t: "kinv ?s" "pdq_inv cfg ?s" using assms by simp_all
  define c where "c atr mb = (pdqcb ?s ?i)\<lparr>p_pdqinib := (p_pdqinib (pdqcb ?s ?i))\<lparr>pdqatr := atr,
      pdqcnt := pdqcnt pk, maxdpri := maxdpri pk, p_pdqmb := mb\<rparr>, pdq_count := 0, pdq_head := None, pdq_unused := 0, pdq_freelist := None\<rparr>" for atr mb
  define s1 where "s1 b atr mb = ?s\<lparr>kmm_brk := b, free_pdqcb := tl (free_pdqcb ?s),
    queues := (queues ?s)(WaitQ (PDQ ?i) := [], RWaitQ (PDQ ?i) := []), pdqcb := (pdqcb ?s)(?i := c atr mb)\<rparr>" for b atr mb
  have a: "snd (acre_pdq cfg pk s) \<in> {s, t_unlock_cpu ?s} \<or>
      (\<exists>b atr mb. snd (acre_pdq cfg pk s) = t_unlock_cpu (s1 b atr mb) \<and> free_pdqcb ?s \<noteq> [] \<and>
        CHECK_RSATR (pdqatr pk) TA_TPRI \<and> (atr = pdqatr pk \<or> atr = pdqatr pk OR TA_MBALLOC))"
  proof (cases "CHECK_TSKCTX_UNL s \<and> CHECK_RSATR (pdqatr pk) TA_TPRI \<and> VALID_DPRI (maxdpri pk) \<and>
      \<not> (case p_pdqmb pk of Some mb \<Rightarrow> \<not> MB_ALIGNED mb | None \<Rightarrow> False) \<and> tnum_pdq cfg \<noteq> 0 \<and> free_pdqcb ?s \<noteq> []")
    case ok: True
    let ?m = "kernel_malloc cfg (SIZE_of (12 * pdqcnt pk)) ?s"
    define mb where "mb = fst ?m"
    define b where "b = kmm_brk (snd ?m)"
    note m = kernel_malloc_eq[OF mb_def b_def]
    consider "\<not> (pdqcnt pk \<noteq> 0 \<and> p_pdqmb pk = None)" | "pdqcnt pk \<noteq> 0" "p_pdqmb pk = None" "mb = None"
      | "pdqcnt pk \<noteq> 0" "p_pdqmb pk = None" "mb \<noteq> None" by blast
    then show ?thesis
    proof cases
      case 1
      then have "snd (acre_pdq cfg pk s) = t_unlock_cpu (s1 (kmm_brk ?s) (pdqatr pk) (p_pdqmb pk))"
        using ok by (auto simp: acre_pdq_def tsk_call_def Let_def q_initialize_def s1_def c_def)
      then show ?thesis using ok by blast
    next
      case 2
      then have "snd (acre_pdq cfg pk s) = t_unlock_cpu ?s" using ok m by (simp add: acre_pdq_def tsk_call_def)
      then show ?thesis by blast
    next
      case 3
      then have "snd (acre_pdq cfg pk s) = t_unlock_cpu (s1 b (pdqatr pk OR TA_MBALLOC) mb)"
        using ok m(1) by (auto simp: acre_pdq_def tsk_call_def Let_def q_initialize_def s1_def c_def)
      then show ?thesis using ok by blast
    qed
  next
    case False
    then have "snd (acre_pdq cfg pk s) = s \<or> snd (acre_pdq cfg pk s) = t_unlock_cpu ?s"
      by (auto simp: acre_pdq_def tsk_call_def)
    then show ?thesis by blast
  qed
  have "kinv (s1 b atr mb) \<and> pdq_inv cfg (s1 b atr mb)"
    if f: "free_pdqcb ?s \<noteq> []" and at: "atr \<noteq> TA_NOEXS" for b atr mb
  proof -
    have fr: "free_pdqcb ?s = ?i # tl (free_pdqcb ?s)" using f by simp
    have q: "queues ?s (WaitQ (PDQ ?i)) = []" "queues ?s (RWaitQ (PDQ ?i)) = []" using pool_invD(2,4)[OF t(2), of ?i] f by simp_all
    have "kinv (s1 b atr mb)" by (rule pdq.kinv_create[OF t(1,2) fr])
        (use q in \<open>auto simp: s1_def same_tasks_def fun_upd_idem wobjatr_def split: wobj.split\<close>)
    moreover have "pdq_inv cfg (s1 b atr mb)"
      by (rule pdq.inv_create[OF t(2) fr, of "s1 b atr mb" "c atr mb"])
        (use q at in \<open>auto simp: s1_def c_def fun_upd_idem pdq_ok_def pdq_reset_ok\<close>)
    ultimately show ?thesis ..
  qed
  moreover have "atr \<noteq> TA_NOEXS" if "CHECK_RSATR (pdqatr pk) TA_TPRI" "atr = pdqatr pk \<or> atr = pdqatr pk OR TA_MBALLOC" for atr
    using that rsatr_exists(1,2)[of "pdqatr pk" TA_TPRI] by auto
  ultimately show ?thesis using a assms by fastforce
qed

section \<open>Properties\<close>

lemma pdq_inv_run_kernel: "pdq_inv sample_cfg run_kernel"
  by (simp add: pool_inv_def pdq_ok_def run_kernel_sel run_kernel_objects)
    (simp add: idle_kernel_def pdq_buf_ok_def pdq_nodes_def pdq_free_def pdq_contents_def)

text \<open>
  C31: every service call on priority data queues, on every branch, keeps the kernel invariant and the
  invariant of the priority data queues: the list of the data and the free list are disjoint and have
  all management blocks used so far, the data is sorted by priority and within the bounds of the
  queue, and tasks wait to send only at a full queue and to receive only at an empty one.
\<close>

theorem pridataq_calls_keep_inv:
  assumes "kinv s" and "pdq_inv cfg s" and "p_runtsk s = Some p"
  shows "\<forall>s' \<in> {snd (acre_pdq cfg pk s), snd (del_pdq cfg pdqid s), snd (snd_pdq cfg pdqid d pri s),
      snd (psnd_pdq cfg pdqid d pri s), snd (ipsnd_pdq cfg pdqid d pri s), snd (tsnd_pdq cfg pdqid d pri tmout s),
      snd (rcv_pdq cfg pdqid s), snd (prcv_pdq cfg pdqid s), snd (trcv_pdq cfg pdqid tmout s),
      snd (ini_pdq cfg pdqid s), snd (ref_pdq cfg pdqid s)}. kinv s' \<and> pdq_inv cfg s'"
  using pdq_create_inv[OF assms(1,2)] pdq_init_inv[OF assms(1,2)] pdq_send_inv[OF assms] pdq_isend_inv[OF assms(1,2)]
    pdq_receive_inv[OF assms] by simp

theorem pridataq_calls_keep_inv_witness:
  "pdq_inv sample_cfg (snd (tsnd_pdq sample_cfg 1 7 2 5 run_kernel))"
  using pridataq_calls_keep_inv[OF kinv_run_kernel pdq_inv_run_kernel run_kernel_sel(3), of _ 1 7 2 5] by blast

text \<open>
  C32: the priority data queue is a list kept in priority order, first in first out among equal
  priorities. A successful \<open>psnd_pdq\<close> without a waiting receiver inserts its data behind all data of
  the same or a higher priority; the loop over the linked list ends. \<open>prcv_pdq\<close> returns the first
  data, which has the highest priority in the queue, and takes in the data of the first waiting
  sender; it fails with \<open>E_TMOUT\<close> exactly when there is neither data nor a waiting sender.
\<close>

theorem pridataq_priority_order:
  assumes "kinv s" and "pdq_inv cfg s" and "CHECK_TSKCTX_UNL s" and "VALID_PDQID cfg pdqid"
    and "i = INDEX_PDQ pdqid" and "pdq_atr s i \<noteq> TA_NOEXS"
    and "(r1, s1) = psnd_pdq cfg pdqid d pri s" and "(r2, s2) = prcv_pdq cfg pdqid s"
  shows "(r1 = Ret E_OK \<longrightarrow> queues s (RWaitQ (PDQ i)) = [] \<longrightarrow>
        pdq_contents (pdqcb s1 i) = insert_pri fst (pri, d) (pdq_contents (pdqcb s i))) \<and>
      (case pdq_receive_spec (pdq_contents (pdqcb s i)) (pdq_senders s i) of
         None \<Rightarrow> r2 = (Ret E_TMOUT, None) \<and> pdqcb s2 i = pdqcb s i
       | Some (x, xs) \<Rightarrow> r2 = (Ret E_OK, Some (snd x, fst x)) \<and> pdq_contents (pdqcb s2 i) = xs) \<and>
      sorted (map fst (pdq_contents (pdqcb s i)))"
proof (intro conjI impI)
  let ?s = "t_lock_cpu s"
  have t: "kinv ?s" "pdq_inv cfg ?s" "pdq_atr ?s i \<noteq> TA_NOEXS" using assms(1,2,6) by (simp_all add: lock_objects)
  have cb: "pdqcb (dispatch_if q) = pdqcb (snd q)" "pdqcb (t_unlock_cpu u) = pdqcb u" for q u
    by (simp_all add: lock_objects dispatch_if_def dispatch_def)
  show "pdq_contents (pdqcb s1 i) = insert_pri fst (pri, d) (pdq_contents (pdqcb s i))"
    if ok: "r1 = Ret E_OK" and rq: "queues s (RWaitQ (PDQ i)) = []"
  proof -
    obtain x u where e: "send_pridata i d pri ?s = (x, u)" by fastforce
    have pri: "pdq_pri_ok ?s i pri" and p: "(r1, s1) = (case x of Some b \<Rightarrow> (Ret E_OK, t_unlock_cpu (dispatch_if (b, u)))
        | None \<Rightarrow> (Ret E_TMOUT, t_unlock_cpu u))"
      using assms(3-7) e ok by (auto simp: psnd_pdq_def tsk_call_def Let_def lock_objects split: option.split if_splits)
    obtain b where b: "x = Some b" using ok p by (cases x) auto
    show ?thesis using send_pridata_ok(3)[OF t pri e b] rq p b by (simp add: lock_sel lock_objects cb)
  qed
  obtain y v where f: "receive_pridata i ?s = (y, v)" by fastforce
  have r: "(r2, s2) = (case y of Some (c, b) \<Rightarrow> ((Ret E_OK, Some c), t_unlock_cpu (dispatch_if (b, v)))
      | None \<Rightarrow> ((Ret E_TMOUT, None), t_unlock_cpu v))"
    using assms(3-6,8) f by (auto simp: prcv_pdq_def tsk_call_def Let_def lock_objects split: option.split)
  show "case pdq_receive_spec (pdq_contents (pdqcb s i)) (pdq_senders s i) of
         None \<Rightarrow> r2 = (Ret E_TMOUT, None) \<and> pdqcb s2 i = pdqcb s i
       | Some (x, xs) \<Rightarrow> r2 = (Ret E_OK, Some (snd x, fst x)) \<and> pdq_contents (pdqcb s2 i) = xs"
  proof (cases y)
    case None
    then show ?thesis
      using receive_pridata_ok(1)[OF t f None] r by (simp add: pdq_receive_spec_def lock_objects lock_sel cb)
  next
    case (Some z)
    obtain c p b where z: "z = ((c, p), b)" by (metis surj_pair)
    then show ?thesis using receive_pridata_ok(2)[OF t f, of c p b] Some r by (simp add: lock_objects lock_sel cb)
  qed
  show "sorted (map fst (pdq_contents (pdqcb s i)))"
    using pdq.local[OF assms(2), of i] assms(6) pdq_buf_okD(7) by (simp add: pdq_ok_def)
qed

theorem pridataq_priority_order_witness:
  "sorted (map fst (pdq_contents (pdqcb run_kernel 0))) \<and> fst (prcv_pdq sample_cfg 1 run_kernel) = (Ret E_TMOUT, None)"
proof -
  have z: "pdq_atr run_kernel 0 \<noteq> TA_NOEXS" "pdq_contents (pdqcb run_kernel 0) = []"
    by (simp_all add: run_kernel_objects) (simp_all add: idle_kernel_def pdq_contents_def pdq_nodes_def)
  show ?thesis
    using pridataq_priority_order[OF kinv_run_kernel pdq_inv_run_kernel, of 1 0 _ _ 7 2, OF _ _ _ z(1) prod.collapse prod.collapse] z(2)
    by (simp add: CHECK_TSKCTX_UNL_def run_kernel_sel VALID_PDQID_def INDEX_PDQ_def sample_cfg_def pdq_receive_spec_def)
qed

end
