(* ===== verification/Asp_Mailbox.thy ===== *)
theory Asp_Mailbox
  imports Asp_Object Asp_List
begin

text \<open>
  Mailboxes, \<^verbatim>\<open>kernel/mailbox.c\<close>. The messages are linked through headers in the memory of the
  application, which all mailboxes share. The abstraction \<open>mbx_rep qs s\<close> gives the list \<open>qs i\<close> of the
  messages in every mailbox; the calls implement operations on these lists.
\<close>

section \<open>Operations\<close>

definition tnum_mbx :: "kernel_cfg \<Rightarrow> nat" where "tnum_mbx cfg = nat (tmax_mbxid cfg)"
definition tnum_smbx :: "kernel_cfg \<Rightarrow> nat" where "tnum_smbx cfg = nat (tmax_smbxid cfg)"
definition INDEX_MBX :: "ID \<Rightarrow> nat" where "INDEX_MBX mbxid = nat (mbxid - 1)"
definition MBXID :: "nat \<Rightarrow> ID" where "MBXID i = int i + 1"

definition VALID_MBXID :: "kernel_cfg \<Rightarrow> ID \<Rightarrow> bool" where
  "VALID_MBXID cfg mbxid \<longleftrightarrow> 1 \<le> mbxid \<and> mbxid \<le> tmax_mbxid cfg"

definition VALID_MPRI :: "PRI \<Rightarrow> bool" where
  "VALID_MPRI mpri \<longleftrightarrow> TMIN_MPRI \<le> mpri \<and> mpri \<le> TMAX_MPRI"

abbreviation upd_mbx :: "nat \<Rightarrow> (MBXCB \<Rightarrow> MBXCB) \<Rightarrow> kernel \<Rightarrow> kernel" where
  "upd_mbx i g s \<equiv> s\<lparr>mbxcb := (mbxcb s)(i := g (mbxcb s i))\<rparr>"

abbreviation mbx_atr :: "kernel \<Rightarrow> nat \<Rightarrow> ATR" where
  "mbx_atr s i \<equiv> mbxatr (p_mbxinib (mbxcb s i))"

definition initialize_mailbox :: "kernel_cfg \<Rightarrow> kernel \<Rightarrow> kernel" where
  "initialize_mailbox cfg s =
    (let s = fold (\<lambda>i s.
               let s = s\<lparr>queues := q_initialize (WaitQ (MBX i)) (queues s)\<rparr>;
                   s = upd_mbx i (\<lambda>c. c\<lparr>p_mbxinib := mbxinib_table cfg i\<rparr>) s
               in upd_mbx i (\<lambda>c. c\<lparr>pk_head := None\<rparr>) s)
             [0..<tnum_smbx cfg] s;
         s = s\<lparr>free_mbxcb := []\<rparr>
     in fold (\<lambda>i s.
          let s = upd_mbx i (\<lambda>c. c\<lparr>p_mbxinib := (p_mbxinib c)\<lparr>mbxatr := TA_NOEXS\<rparr>\<rparr>) s
          in s\<lparr>free_mbxcb := free_mbxcb s @ [i]\<rparr>)
        [tnum_smbx cfg..<tnum_mbx cfg] s)"

text \<open>The loop over the messages; \<open>None\<close> when it does not end, which \<open>enqueue_msg_pri_ok\<close> excludes.\<close>

definition enqueue_msg_pri :: "nat \<Rightarrow> nat \<Rightarrow> kernel \<Rightarrow> kernel option" where
  "enqueue_msg_pri i pk_msg s =
    (case link_insert (msgpri s) pk_msg (pk_head (mbxcb s i)) (pk_next s) of
       None \<Rightarrow> None
     | Some (h, nx) \<Rightarrow> Some (upd_mbx i (\<lambda>c. c\<lparr>pk_head := h\<rparr>) (s\<lparr>pk_next := nx\<rparr>)))"

record T_CMBX =
  cmbx_mbxatr :: ATR
  cmbx_maxmpri :: PRI
  mprihd :: "nat option"

definition acre_mbx :: "kernel_cfg \<Rightarrow> T_CMBX \<Rightarrow> kernel \<Rightarrow> result \<times> kernel" where
  "acre_mbx cfg pk_cmbx s =
    (if \<not> CHECK_TSKCTX_UNL s then (Ret E_CTX, s)
     else if \<not> CHECK_RSATR (cmbx_mbxatr pk_cmbx) (TA_TPRI OR TA_MPRI) then (Ret E_RSATR, s)
     else if \<not> VALID_MPRI (cmbx_maxmpri pk_cmbx) then (Ret E_PAR, s)
     else if \<not> mprihd pk_cmbx = None then (Ret E_NOSPT, s)
     else tsk_call (\<lambda>s.
       if tnum_mbx cfg = 0 \<or> free_mbxcb s = [] then (Ret E_NOID, s)
       else (let i = hd (free_mbxcb s);
                 s = s\<lparr>free_mbxcb := tl (free_mbxcb s)\<rparr>;
                 s = upd_mbx i (\<lambda>c. c\<lparr>p_mbxinib := (p_mbxinib c)\<lparr>mbxatr := cmbx_mbxatr pk_cmbx,
                       maxmpri := cmbx_maxmpri pk_cmbx\<rparr>\<rparr>) s;
                 s = s\<lparr>queues := q_initialize (WaitQ (MBX i)) (queues s)\<rparr>;
                 s = upd_mbx i (\<lambda>c. c\<lparr>pk_head := None\<rparr>) s
             in (Ret (MBXID i), s))) s)"

definition del_mbx :: "kernel_cfg \<Rightarrow> ID \<Rightarrow> kernel \<Rightarrow> result \<times> kernel" where
  "del_mbx cfg mbxid s =
    (if \<not> CHECK_TSKCTX_UNL s then (Ret E_CTX, s)
     else if \<not> VALID_MBXID cfg mbxid then (Ret E_ID, s)
     else let i = INDEX_MBX mbxid in tsk_call (\<lambda>s.
       if mbx_atr s i = TA_NOEXS then (Ret E_NOEXS, s)
       else if MBXID i > tmax_smbxid cfg
       then (let (dspreq, s) = init_wait_queue (WaitQ (MBX i)) s;
                 s = upd_mbx i (\<lambda>c. c\<lparr>p_mbxinib := (p_mbxinib c)\<lparr>mbxatr := TA_NOEXS\<rparr>\<rparr>) s;
                 s = s\<lparr>free_mbxcb := free_mbxcb s @ [i]\<rparr>
             in (Ret E_OK, dispatch_if (dspreq, s)))
       else (Ret E_OBJ, s)) s)"

definition snd_mbx :: "kernel_cfg \<Rightarrow> ID \<Rightarrow> nat \<Rightarrow> kernel \<Rightarrow> result \<times> kernel" where
  "snd_mbx cfg mbxid pk_msg s =
    (if \<not> CHECK_TSKCTX_UNL s then (Ret E_CTX, s)
     else if \<not> VALID_MBXID cfg mbxid then (Ret E_ID, s)
     else let i = INDEX_MBX mbxid in tsk_call (\<lambda>s.
       if mbx_atr s i = TA_NOEXS then (Ret E_NOEXS, s)
       else if \<not> (mbx_atr s i AND TA_MPRI = 0 \<or>
                  (TMIN_MPRI \<le> msgpri s pk_msg \<and> msgpri s pk_msg \<le> maxmpri (p_mbxinib (mbxcb s i))))
       then (Ret E_PAR, s)
       else if \<not> q_empty (WaitQ (MBX i)) (queues s)
       then (let (p_tcb, f) = q_delete_next (WaitQ (MBX i)) (queues s);
                 s = s\<lparr>queues := f\<rparr>;
                 s = upd_winfo p_tcb (\<lambda>w. w\<lparr>w_msg := Some pk_msg\<rparr>) s
             in (Ret E_OK, dispatch_if (wait_complete p_tcb s)))
       else if mbx_atr s i AND TA_MPRI \<noteq> 0 then (Ret E_OK, the (enqueue_msg_pri i pk_msg s))
       else (let s = s\<lparr>pk_next := (pk_next s)(pk_msg := None)\<rparr>;
                 s = (if pk_head (mbxcb s i) \<noteq> None
                      then s\<lparr>pk_next := (pk_next s)(pk_last (mbxcb s i) := Some pk_msg)\<rparr>
                      else upd_mbx i (\<lambda>c. c\<lparr>pk_head := Some pk_msg\<rparr>) s);
                 s = upd_mbx i (\<lambda>c. c\<lparr>pk_last := pk_msg\<rparr>) s
             in (Ret E_OK, s))) s)"

text \<open>
  The receiving calls return the message at once, or in \<open>w_msg\<close> of the waiting information when the
  wait ends with \<open>E_OK\<close>.
\<close>

definition rcv_mbx :: "kernel_cfg \<Rightarrow> ID \<Rightarrow> kernel \<Rightarrow> (result \<times> nat option) \<times> kernel" where
  "rcv_mbx cfg mbxid s =
    (if \<not> CHECK_DISPATCH s then ((Ret E_CTX, None), s)
     else if \<not> VALID_MBXID cfg mbxid then ((Ret E_ID, None), s)
     else let i = INDEX_MBX mbxid in tsk_call (\<lambda>s.
       if mbx_atr s i = TA_NOEXS then ((Ret E_NOEXS, None), s)
       else (case pk_head (mbxcb s i) of
          Some pk_msg \<Rightarrow> ((Ret E_OK, Some pk_msg), upd_mbx i (\<lambda>c. c\<lparr>pk_head := pk_next s pk_msg\<rparr>) s)
        | None \<Rightarrow>
           (let s = set_tstat (runtsk s) (TS_WAITING OR TS_WAIT_MBX) s;
                s = wobj_make_wait (MBX i) s
            in ((Wait_ercd (runtsk s), None), dispatch s)))) s)"

definition prcv_mbx :: "kernel_cfg \<Rightarrow> ID \<Rightarrow> kernel \<Rightarrow> (result \<times> nat option) \<times> kernel" where
  "prcv_mbx cfg mbxid s =
    (if \<not> CHECK_TSKCTX_UNL s then ((Ret E_CTX, None), s)
     else if \<not> VALID_MBXID cfg mbxid then ((Ret E_ID, None), s)
     else let i = INDEX_MBX mbxid in tsk_call (\<lambda>s.
       if mbx_atr s i = TA_NOEXS then ((Ret E_NOEXS, None), s)
       else (case pk_head (mbxcb s i) of
          Some pk_msg \<Rightarrow> ((Ret E_OK, Some pk_msg), upd_mbx i (\<lambda>c. c\<lparr>pk_head := pk_next s pk_msg\<rparr>) s)
        | None \<Rightarrow> ((Ret E_TMOUT, None), s))) s)"

definition trcv_mbx :: "kernel_cfg \<Rightarrow> ID \<Rightarrow> TMO \<Rightarrow> kernel \<Rightarrow> (result \<times> nat option) \<times> kernel" where
  "trcv_mbx cfg mbxid tmout s =
    (if \<not> CHECK_DISPATCH s then ((Ret E_CTX, None), s)
     else if \<not> VALID_MBXID cfg mbxid then ((Ret E_ID, None), s)
     else if \<not> CHECK_TMOUT tmout then ((Ret E_PAR, None), s)
     else let i = INDEX_MBX mbxid in tsk_call (\<lambda>s.
       if mbx_atr s i = TA_NOEXS then ((Ret E_NOEXS, None), s)
       else (case pk_head (mbxcb s i) of
          Some pk_msg \<Rightarrow> ((Ret E_OK, Some pk_msg), upd_mbx i (\<lambda>c. c\<lparr>pk_head := pk_next s pk_msg\<rparr>) s)
        | None \<Rightarrow>
           (if tmout = TMO_POL then ((Ret E_TMOUT, None), s)
            else (let s = set_tstat (runtsk s) (TS_WAITING OR TS_WAIT_MBX) s;
                      s = wobj_make_wait_tmout (MBX i) tmout s
                  in ((Wait_ercd (runtsk s), None), dispatch s))))) s)"

definition ini_mbx :: "kernel_cfg \<Rightarrow> ID \<Rightarrow> kernel \<Rightarrow> result \<times> kernel" where
  "ini_mbx cfg mbxid s =
    (if \<not> CHECK_TSKCTX_UNL s then (Ret E_CTX, s)
     else if \<not> VALID_MBXID cfg mbxid then (Ret E_ID, s)
     else let i = INDEX_MBX mbxid in tsk_call (\<lambda>s.
       if mbx_atr s i = TA_NOEXS then (Ret E_NOEXS, s)
       else (let (dspreq, s) = init_wait_queue (WaitQ (MBX i)) s;
                 s = upd_mbx i (\<lambda>c. c\<lparr>pk_head := None\<rparr>) s
             in (Ret E_OK, dispatch_if (dspreq, s)))) s)"

record T_RMBX =
  rmbx_wtskid :: ID
  rmbx_pk_msg :: "nat option"

definition ref_mbx :: "kernel_cfg \<Rightarrow> ID \<Rightarrow> kernel \<Rightarrow> (result \<times> T_RMBX option) \<times> kernel" where
  "ref_mbx cfg mbxid s =
    (if \<not> CHECK_TSKCTX_UNL s then ((Ret E_CTX, None), s)
     else if \<not> VALID_MBXID cfg mbxid then ((Ret E_ID, None), s)
     else let i = INDEX_MBX mbxid in tsk_call (\<lambda>s.
       if mbx_atr s i = TA_NOEXS then ((Ret E_NOEXS, None), s)
       else ((Ret E_OK, Some \<lparr>rmbx_wtskid = wait_tskid (WaitQ (MBX i)) s, rmbx_pk_msg = pk_head (mbxcb s i)\<rparr>), s)) s)"

section \<open>The messages as lists\<close>

definition box_ok :: "MBXCB \<Rightarrow> (nat \<Rightarrow> nat option) \<Rightarrow> (nat \<Rightarrow> PRI) \<Rightarrow> nat list \<Rightarrow> bool" where
  "box_ok c nx pr xs \<longleftrightarrow>
    (if mbxatr (p_mbxinib c) = TA_NOEXS then xs = []
     else slist nx (pk_head c) xs \<and> distinct xs \<and>
       (if mbxatr (p_mbxinib c) AND TA_MPRI \<noteq> 0
        then sorted (map pr xs) \<and> (\<forall>m \<in> set xs. TMIN_MPRI \<le> pr m \<and> pr m \<le> maxmpri (p_mbxinib c))
        else xs \<noteq> [] \<longrightarrow> pk_last c = last xs))"

definition mbx_rep :: "(nat \<Rightarrow> nat list) \<Rightarrow> kernel \<Rightarrow> bool" where
  "mbx_rep qs s \<longleftrightarrow> (\<forall>i. box_ok (mbxcb s i) (pk_next s) (msgpri s) (qs i)) \<and>
    (\<forall>i j. i \<noteq> j \<longrightarrow> set (qs i) \<inter> set (qs j) = {})"

lemma mbx_repD:
  assumes "mbx_rep qs s"
  shows "box_ok (mbxcb s i) (pk_next s) (msgpri s) (qs i)" and "i \<noteq> j \<Longrightarrow> m \<in> set (qs i) \<Longrightarrow> m \<notin> set (qs j)"
  using assms by (auto simp: mbx_rep_def)

lemma mbx_rep_cong:
  "mbxcb s' = mbxcb s \<Longrightarrow> pk_next s' = pk_next s \<Longrightarrow> msgpri s' = msgpri s \<Longrightarrow> mbx_rep qs s' = mbx_rep qs s"
  by (simp add: mbx_rep_def)

lemma mbx_rep_objects: "objects s' = objects s \<Longrightarrow> mbx_rep qs s' = mbx_rep qs s"
  using objectsD[of s' s] by (intro mbx_rep_cong) simp_all

lemma mbx_rep_lock [simp]:
  "mbx_rep qs (t_lock_cpu s) = mbx_rep qs s" "mbx_rep qs (t_unlock_cpu s) = mbx_rep qs s"
  "mbx_rep qs (dispatch s) = mbx_rep qs s" "mbx_rep qs (dispatch_if r) = mbx_rep qs (snd r)"
  by (rule mbx_rep_cong; simp add: lock_objects dispatch_def dispatch_if_def)+

text \<open>One mailbox changes; links of nodes in no other mailbox may change.\<close>

lemma mbx_rep_one:
  assumes "mbx_rep qs s" and "\<And>j. j \<noteq> i \<Longrightarrow> mbxcb s' j = mbxcb s j" and "msgpri s' = msgpri s"
    and "\<And>j m. j \<noteq> i \<Longrightarrow> m \<in> set (qs j) \<Longrightarrow> pk_next s' m = pk_next s m"
    and "box_ok (mbxcb s' i) (pk_next s') (msgpri s) xs" and "\<And>j m. j \<noteq> i \<Longrightarrow> m \<in> set xs \<Longrightarrow> m \<notin> set (qs j)"
  shows "mbx_rep (qs(i := xs)) s'"
  unfolding mbx_rep_def
proof (intro conjI allI impI)
  fix j
  show "box_ok (mbxcb s' j) (pk_next s') (msgpri s') ((qs(i := xs)) j)"
  proof (cases "j = i")
    case False
    have "slist (pk_next s') h (qs j) = slist (pk_next s) h (qs j)" for h
      by (rule slist_cong) (use assms(4) False in blast)
    then show ?thesis using mbx_repD(1)[OF assms(1), of j] False assms(2,3) by (simp add: box_ok_def)
  qed (use assms(3,5) in simp)
next
  fix j k :: nat assume "j \<noteq> k"
  then show "set ((qs(i := xs)) j) \<inter> set ((qs(i := xs)) k) = {}"
    using mbx_repD(2)[OF assms(1)] assms(6) by (auto split: if_splits)
qed

section \<open>The invariant of the mailboxes\<close>

definition mbx_ok :: "MBXCB \<Rightarrow> (tsk \<Rightarrow> WINFO) \<Rightarrow> tsk list \<Rightarrow> tsk list \<Rightarrow> bool" where
  "mbx_ok c w sq rq \<longleftrightarrow> rq = [] \<and> (sq \<noteq> [] \<longrightarrow> pk_head c = None)"

interpretation mbx: object_pool MBX mbxcb "\<lambda>c. mbxatr (p_mbxinib c)" free_mbxcb mbx_ok
proof
  show "mbxcb s' = mbxcb s \<and> free_mbxcb s' = free_mbxcb s" if "objects s' = objects s" for s' s
    using objectsD[OF that] by simp
qed (auto simp: wobjatr_def mbx_ok_def)

abbreviation mbx_inv :: "kernel_cfg \<Rightarrow> kernel \<Rightarrow> bool" where
  "mbx_inv cfg s \<equiv>
    pool_inv MBX mbxcb (\<lambda>c. mbxatr (p_mbxinib c)) free_mbxcb mbx_ok (tnum_smbx cfg) (tnum_mbx cfg) s"

lemma wobjatr_mbxcb [simp]:
  "mbxatr (p_mbxinib c) = mbx_atr s i \<Longrightarrow> wobjatr (s\<lparr>mbxcb := (mbxcb s)(i := c)\<rparr>) = wobjatr s"
  "wobjatr (s\<lparr>free_mbxcb := l\<rparr>) = wobjatr s" "wobjatr (s\<lparr>pk_next := nx\<rparr>) = wobjatr s"
  "mbxatr (p_mbxinib c) = mbx_atr s i \<Longrightarrow> wobjatr (s\<lparr>pk_next := nx, mbxcb := (mbxcb s)(i := c)\<rparr>) = wobjatr s"
  by (rule ext, simp add: wobjatr_def split: wobj.split)+

lemma wobjatr_mbx_other: "w \<noteq> MBX i \<Longrightarrow> wobjatr (s\<lparr>mbxcb := (mbxcb s)(i := c)\<rparr>) w = wobjatr s w"
  by (simp add: wobjatr_def split: wobj.split)

text \<open>The three invariants together; \<open>qs\<close> are the messages in the mailboxes.\<close>

definition mbx_state :: "kernel_cfg \<Rightarrow> (nat \<Rightarrow> nat list) \<Rightarrow> kernel \<Rightarrow> bool" where
  "mbx_state cfg qs s \<longleftrightarrow> kinv s \<and> mbx_inv cfg s \<and> mbx_rep qs s"

lemma mbx_state_lock [simp]:
  "mbx_state cfg qs (t_lock_cpu s) = mbx_state cfg qs s" "mbx_state cfg qs (t_unlock_cpu s) = mbx_state cfg qs s"
  by (simp_all add: mbx_state_def)

lemma mbx_state_call: "mbx_state cfg qs (snd (body (t_lock_cpu s))) \<Longrightarrow> mbx_state cfg qs (snd (tsk_call body s))"
  by (simp add: tsk_call_def case_prod_beta)

lemma pk_last_upd: "pk_head c = Some h \<Longrightarrow> c\<lparr>pk_head := Some h, pk_last := m\<rparr> = c\<lparr>pk_last := m\<rparr>"
  by (cases c) simp

text \<open>The effect of a message on the list of its mailbox.\<close>

definition post :: "MBXCB \<Rightarrow> (nat \<Rightarrow> PRI) \<Rightarrow> nat \<Rightarrow> nat list \<Rightarrow> nat list" where
  "post c pr m xs = (if mbxatr (p_mbxinib c) AND TA_MPRI \<noteq> 0 then insert_pri pr m xs else xs @ [m])"

text \<open>A change of the messages of one mailbox without waiting tasks.\<close>

lemma mbx_state_one:
  assumes "mbx_state cfg qs s" and "mbx_atr s i \<noteq> TA_NOEXS" and "mbx_ok c w (queues s (WaitQ (MBX i))) []"
    and "s' = s\<lparr>pk_next := nx, mbxcb := (mbxcb s)(i := c)\<rparr>" and "p_mbxinib c = p_mbxinib (mbxcb s i)"
    and "\<And>j m. j \<noteq> i \<Longrightarrow> m \<in> set (qs j) \<Longrightarrow> nx m = pk_next s m"
    and "box_ok c nx (msgpri s) xs" and "\<And>j m. j \<noteq> i \<Longrightarrow> m \<in> set xs \<Longrightarrow> m \<notin> set (qs j)"
  shows "mbx_state cfg (qs(i := xs)) s'"
proof -
  have a: "kinv s" "mbx_inv cfg s" "mbx_rep qs s" using assms(1) by (simp_all add: mbx_state_def)
  have "kinv s'" "mbx_inv cfg s'"
    using mbx.inv_cb[OF a(1,2) assms(2), of s'] mbx.local[OF a(2) assms(2)] assms(3,5) by (simp_all add: assms(4) same_tasks_def mbx_ok_def)
  moreover have "mbx_rep (qs(i := xs)) s'"
    by (rule mbx_rep_one[OF a(3)]) (use assms(6-8) in \<open>simp_all add: assms(4)\<close>)
  ultimately show ?thesis by (simp add: mbx_state_def)
qed

lemma enqueue_msg_pri_ok:
  assumes "mbx_state cfg qs s" and "mbx_atr s i \<noteq> TA_NOEXS" and "mbx_atr s i AND TA_MPRI \<noteq> 0"
    and "TMIN_MPRI \<le> msgpri s m \<and> msgpri s m \<le> maxmpri (p_mbxinib (mbxcb s i))" and "\<And>j. m \<notin> set (qs j)"
    and "queues s (WaitQ (MBX i)) = []"
  obtains s' where "enqueue_msg_pri i m s = Some s'" and "mbx_state cfg (qs(i := insert_pri (msgpri s) m (qs i))) s'"
proof -
  have r: "mbx_rep qs s" using assms(1) by (simp add: mbx_state_def)
  have b: "slist (pk_next s) (pk_head (mbxcb s i)) (qs i)" "distinct (qs i)" "sorted (map (msgpri s) (qs i))"
    "\<forall>m \<in> set (qs i). TMIN_MPRI \<le> msgpri s m \<and> msgpri s m \<le> maxmpri (p_mbxinib (mbxcb s i))"
    using mbx_repD(1)[OF r, of i] assms(2,3) by (simp_all add: box_ok_def)
  obtain h nx where l: "link_insert (msgpri s) m (pk_head (mbxcb s i)) (pk_next s) = Some (h, nx)"
    "slist nx h (insert_pri (msgpri s) m (qs i))" "\<And>y. y \<notin> insert m (set (qs i)) \<Longrightarrow> nx y = pk_next s y"
    by (rule link_insert_slist[OF b(1) assms(5) b(2), where pr = "msgpri s"]) blast
  let ?c = "(mbxcb s i)\<lparr>pk_head := h\<rparr>"
  have "mbx_state cfg (qs(i := insert_pri (msgpri s) m (qs i))) (s\<lparr>pk_next := nx, mbxcb := (mbxcb s)(i := ?c)\<rparr>)"
  proof (rule mbx_state_one[OF assms(1,2) _ refl])
    show "nx x = pk_next s x" if "j \<noteq> i" "x \<in> set (qs j)" for j x
      using l(3)[of x] mbx_repD(2)[OF r that] assms(5)[of j] that by auto
    show "box_ok ?c nx (msgpri s) (insert_pri (msgpri s) m (qs i))"
      using l(2) b assms(2-5) by (simp add: box_ok_def distinct_insert_pri sorted_insert_pri)
    show "x \<notin> set (qs j)" if "j \<noteq> i" "x \<in> set (insert_pri (msgpri s) m (qs i))" for j x
      using that mbx_repD(2)[OF r that(1)[symmetric], of x] assms(5)[of j] by auto
  qed (use assms(6) in \<open>simp_all add: mbx_ok_def\<close>)
  then show ?thesis using that l(1) by (simp add: enqueue_msg_pri_def)
qed

text \<open>The other kind of mailbox: the message becomes the last one.\<close>

lemma append_msg_ok:
  assumes "mbx_state cfg qs s" and "mbx_atr s i \<noteq> TA_NOEXS" and "mbx_atr s i AND TA_MPRI = 0"
    and "\<And>j. m \<notin> set (qs j)" and "queues s (WaitQ (MBX i)) = []"
    and "nx = (if pk_head (mbxcb s i) = None then (pk_next s)(m := None)
      else (pk_next s)(m := None, pk_last (mbxcb s i) := Some m))"
    and "c = (mbxcb s i)\<lparr>pk_head := Some (case pk_head (mbxcb s i) of None \<Rightarrow> m | Some h \<Rightarrow> h), pk_last := m\<rparr>"
  shows "mbx_state cfg (qs(i := qs i @ [m])) (s\<lparr>pk_next := nx, mbxcb := (mbxcb s)(i := c)\<rparr>)"
proof -
  have r: "mbx_rep qs s" using assms(1) by (simp add: mbx_state_def)
  have b: "slist (pk_next s) (pk_head (mbxcb s i)) (qs i)" "distinct (qs i)" "qs i \<noteq> [] \<Longrightarrow> pk_last (mbxcb s i) = last (qs i)"
    using mbx_repD(1)[OF r, of i] assms(2,3) by (simp_all add: box_ok_def)
  have e: "pk_head (mbxcb s i) = None \<longleftrightarrow> qs i = []" using b(1) by (cases "qs i") auto
  define h where "h = pk_head (mbxcb s i)"
  have s: "slist nx (pk_head c) (qs i @ [m])"
    using slist_insert_at(1)[where ys = "qs i" and zs = "[]" and x = m and nx = "pk_next s" and h = h, OF _ _ _ refl]
      b assms(4)[of i] e by (cases "qs i = []") (auto simp: assms(6,7) h_def set_link_def)
  show ?thesis
  proof (rule mbx_state_one[OF assms(1,2) _ refl])
    show "nx x = pk_next s x" if "j \<noteq> i" "x \<in> set (qs j)" for j x
    proof -
      have "x \<noteq> m" "x \<notin> set (qs i)" using assms(4)[of j] that mbx_repD(2)[OF r that] by auto
      moreover have "pk_last (mbxcb s i) \<in> set (qs i)" if "pk_head (mbxcb s i) \<noteq> None"
        using that b(3) e by simp
      ultimately show ?thesis by (auto simp: assms(6))
    qed
    show "box_ok c nx (msgpri s) (qs i @ [m])"
      using s b(2) assms(2,3,4) by (simp add: box_ok_def assms(7))
    show "x \<notin> set (qs j)" if "j \<noteq> i" "x \<in> set (qs i @ [m])" for j x
      using that mbx_repD(2)[OF r that(1)[symmetric], of x] assms(4)[of j] by auto
  qed (use assms(5) in \<open>simp_all add: mbx_ok_def assms(7)\<close>)
qed

text \<open>The first waiting task gets the message.\<close>

lemma mbx_wake_ok:
  assumes "mbx_state cfg qs s" and "mbx_atr s i \<noteq> TA_NOEXS" and "queues s (WaitQ (MBX i)) = p # ps"
    and "r = wait_complete p (upd_winfo p (\<lambda>w. w\<lparr>w_msg := Some m\<rparr>) (s\<lparr>queues := (queues s)(WaitQ (MBX i) := ps)\<rparr>))"
  shows "mbx_state cfg qs (dispatch_if r)" and "w_msg (winfos (dispatch_if r) p) = Some m"
    and "winfo (winfos (dispatch_if r) p) = Wercd E_OK" and "objects (dispatch_if r) = objects s"
proof -
  have a: "kinv s" "mbx_inv cfg s" "mbx_rep qs s" using assms(1) by (simp_all add: mbx_state_def)
  let ?g = "\<lambda>w. w\<lparr>w_msg := Some m\<rparr>"
  note k = wake_obj[where g = ?g, OF kinvD(2)[OF a(1)] assms(3) _ _ assms(4)]
  note iw = mbx.inv_wake[where g = ?g and ?s1.0 = s, OF a(1,2) assms(2) _ _ _ _ disjI1[OF refl] assms(3) _ assms(4)]
  have "op_ok s r" "mbx_inv cfg (snd r)"
    using iw mbx.local[OF a(2) assms(2)] assms(3) by (simp_all add: same_tasks_def mbx_ok_def)
  moreover have o: "objects (snd r) = objects s" using k(3) by (simp add: is_waitq_def)
  ultimately show "mbx_state cfg qs (dispatch_if r)"
    using op_ok_dispatch_if[OF a(1), of r] mbx_rep_objects[OF o] a(3) by (simp add: mbx_state_def)
  show "w_msg (winfos (dispatch_if r) p) = Some m" "winfo (winfos (dispatch_if r) p) = Wercd E_OK"
    using k(6) by (simp_all add: is_waitq_def dispatch_if_def dispatch_def)
  show "objects (dispatch_if r) = objects s" using o by simp
qed

text \<open>\<open>snd_mbx\<close> appends the message to its list, in priority order under \<open>TA_MPRI\<close>, or hands it over.\<close>

lemma snd_mbx_cases:
  assumes "mbx_state cfg qs s" and "\<And>j. m \<notin> set (qs j)" and "i = INDEX_MBX mbxid"
    and "(r, s') = snd_mbx cfg mbxid m s"
  shows "r = Ret E_OK \<Longrightarrow> queues s (WaitQ (MBX i)) = [] \<Longrightarrow>
      mbx_state cfg (qs(i := post (mbxcb s i) (msgpri s) m (qs i))) s'"
    and "r = Ret E_OK \<Longrightarrow> queues s (WaitQ (MBX i)) = p # ps \<Longrightarrow>
      mbx_state cfg qs s' \<and> w_msg (winfos s' p) = Some m \<and> result_of (Wait_ercd p) s' = Some E_OK"
    and "r \<noteq> Ret E_OK \<Longrightarrow> mbx_state cfg qs s'"
proof -
  let ?s = "t_lock_cpu s"
  have t: "mbx_state cfg qs ?s" using assms(1) by simp
  let ?bad = "\<not> CHECK_TSKCTX_UNL s \<or> \<not> VALID_MBXID cfg mbxid \<or> mbx_atr s i = TA_NOEXS \<or>
    \<not> (mbx_atr s i AND TA_MPRI = 0 \<or> (TMIN_MPRI \<le> msgpri s m \<and> msgpri s m \<le> maxmpri (p_mbxinib (mbxcb s i))))"
  have bad: "r \<noteq> Ret E_OK \<and> mbx_state cfg qs s'" if ?bad
    using assms(1,3,4) that by (auto simp: snd_mbx_def tsk_call_def lock_objects Let_def split: if_splits)
  have good: "r = Ret E_OK \<and> (queues s (WaitQ (MBX i)) = [] \<longrightarrow> mbx_state cfg (qs(i := post (mbxcb s i) (msgpri s) m (qs i))) s') \<and>
      (\<forall>p ps. queues s (WaitQ (MBX i)) = p # ps \<longrightarrow>
        mbx_state cfg qs s' \<and> w_msg (winfos s' p) = Some m \<and> result_of (Wait_ercd p) s' = Some E_OK)"
    if ok: "\<not> ?bad"
  proof (cases "queues s (WaitQ (MBX i))")
    case (Cons p ps)
    define q where "q = wait_complete p (upd_winfo p (\<lambda>w. w\<lparr>w_msg := Some m\<rparr>) (?s\<lparr>queues := (queues ?s)(WaitQ (MBX i) := ps)\<rparr>))"
    have e: "r = Ret E_OK" "s' = t_unlock_cpu (dispatch_if q)"
      using assms(3,4) ok Cons by (auto simp: snd_mbx_def tsk_call_def q_empty_def q_delete_next_def lock_objects lock_sel Let_def q_def)
    show ?thesis
      using mbx_wake_ok[OF t _ _ q_def] Cons ok e by (simp add: lock_objects lock_sel result_of_def)
  next
    case Nil
    show ?thesis
    proof (cases "mbx_atr s i AND TA_MPRI \<noteq> 0")
      case True
      obtain u where u: "enqueue_msg_pri i m ?s = Some u" "mbx_state cfg (qs(i := insert_pri (msgpri ?s) m (qs i))) u"
        by (rule enqueue_msg_pri_ok[OF t _ _ _ assms(2), of i]) (use True ok Nil in \<open>auto simp: lock_objects lock_sel\<close>)
      then have "r = Ret E_OK" "s' = t_unlock_cpu u"
        using assms(3,4) ok Nil True by (auto simp: snd_mbx_def tsk_call_def q_empty_def lock_objects lock_sel Let_def)
      then show ?thesis using Nil u(2) True by (simp add: post_def lock_objects)
    next
      case False
      note ap = append_msg_ok[OF t _ _ assms(2) _ refl refl, of i]
      have "r = Ret E_OK" "s' = t_unlock_cpu (?s\<lparr>pk_next := (if pk_head (mbxcb ?s i) = None then (pk_next ?s)(m := None)
          else (pk_next ?s)(m := None, pk_last (mbxcb ?s i) := Some m)), mbxcb := (mbxcb ?s)(i := (mbxcb ?s i)\<lparr>pk_head :=
          Some (case pk_head (mbxcb ?s i) of None \<Rightarrow> m | Some h \<Rightarrow> h), pk_last := m\<rparr>)\<rparr>)"
        using assms(3,4) ok Nil False
        by (auto simp: snd_mbx_def tsk_call_def q_empty_def lock_objects lock_sel Let_def pk_last_upd)
      then show ?thesis using Nil ap ok False by (simp add: post_def lock_objects lock_sel)
    qed
  qed
  show "r = Ret E_OK \<Longrightarrow> queues s (WaitQ (MBX i)) = [] \<Longrightarrow>
      mbx_state cfg (qs(i := post (mbxcb s i) (msgpri s) m (qs i))) s'"
    "r = Ret E_OK \<Longrightarrow> queues s (WaitQ (MBX i)) = p # ps \<Longrightarrow>
      mbx_state cfg qs s' \<and> w_msg (winfos s' p) = Some m \<and> result_of (Wait_ercd p) s' = Some E_OK"
    "r \<noteq> Ret E_OK \<Longrightarrow> mbx_state cfg qs s'" using bad good by blast+
qed

text \<open>Taking the first message, and the whole list.\<close>

lemma mbx_take_ok:
  assumes "mbx_state cfg qs s" and "mbx_atr s i \<noteq> TA_NOEXS" and "pk_head (mbxcb s i) = Some m"
  shows "mbx_state cfg (qs(i := tl (qs i))) (upd_mbx i (\<lambda>c. c\<lparr>pk_head := pk_next s m\<rparr>) s)" and "\<exists>ms. qs i = m # ms"
proof -
  have a: "mbx_inv cfg s" "mbx_rep qs s" using assms(1) by (simp_all add: mbx_state_def)
  have b: "box_ok (mbxcb s i) (pk_next s) (msgpri s) (qs i)" by (rule mbx_repD(1)[OF a(2)])
  then obtain ms where q: "qs i = m # ms" "slist (pk_next s) (pk_next s m) ms"
    using assms(2,3) by (auto simp: box_ok_def slist_Some)
  have w: "queues s (WaitQ (MBX i)) = []"
    using mbx.local[OF a(1) assms(2)] assms(3) by (auto simp: mbx_ok_def)
  let ?c = "(mbxcb s i)\<lparr>pk_head := pk_next s m\<rparr>"
  have "mbx_state cfg (qs(i := ms)) (s\<lparr>pk_next := pk_next s, mbxcb := (mbxcb s)(i := ?c)\<rparr>)"
  proof (rule mbx_state_one[OF assms(1,2) _ refl])
    show "box_ok ?c (pk_next s) (msgpri s) ms" using b q assms(2) by (auto simp: box_ok_def)
    show "x \<notin> set (qs j)" if "j \<noteq> i" "x \<in> set ms" for j x
      using that mbx_repD(2)[OF a(2) that(1)[symmetric], of x] q(1) by simp
  qed (use w in \<open>simp_all add: mbx_ok_def\<close>)
  then show "mbx_state cfg (qs(i := tl (qs i))) (upd_mbx i (\<lambda>c. c\<lparr>pk_head := pk_next s m\<rparr>) s)" using q(1) by simp
  show "\<exists>ms. qs i = m # ms" using q(1) by blast
qed

lemma mbx_empty:
  assumes "mbx_state cfg qs s" and "mbx_atr s i \<noteq> TA_NOEXS"
  shows "pk_head (mbxcb s i) = None \<longleftrightarrow> qs i = []"
  using mbx_repD(1)[of qs s i] assms by (cases "qs i") (auto simp: mbx_state_def box_ok_def)

lemma mbx_block_ok:
  assumes "mbx_state cfg qs s" and "mbx_atr s i \<noteq> TA_NOEXS" and "pk_head (mbxcb s i) = None" and "p_runtsk s = Some p"
  shows "mbx_state cfg qs (dispatch (wobj_make_wait_tmout (MBX i) tmout (set_tstat p (TS_WAITING OR TS_WAIT_MBX) s)))"
proof -
  have a: "kinv s" "mbx_inv cfg s" "mbx_rep qs s" using assms(1) by (simp_all add: mbx_state_def)
  let ?s = "set_tstat p (TS_WAITING OR TS_WAIT_MBX) (upd_winfo p (\<lambda>w. w) s)"
  have "kinv (dispatch (wobj_make_wait_tmout (MBX i) tmout ?s)) \<and> mbx_inv cfg (wobj_make_wait_tmout (MBX i) tmout ?s)"
    using mbx.inv_block[OF a(1,2) assms(2,4) _ _ refl, of TS_WAIT_MBX "\<lambda>w. w" tmout] mbx.local[OF a(2) assms(2)] assms(3) by (simp add: mbx_ok_def)
  moreover have "mbx_rep qs (wobj_make_wait_tmout (MBX i) tmout ?s)"
    using mbx_rep_objects[of "wobj_make_wait_tmout (MBX i) tmout ?s" s] a(3) by simp
  ultimately show ?thesis by (simp add: mbx_state_def)
qed

text \<open>\<open>prcv_mbx\<close>, and the cases of the two blocking calls.\<close>

lemma mbx_receive_ok:
  assumes "mbx_state cfg qs s" and "i = INDEX_MBX mbxid"
  shows "CHECK_TSKCTX_UNL s \<Longrightarrow> VALID_MBXID cfg mbxid \<Longrightarrow> mbx_atr s i \<noteq> TA_NOEXS \<Longrightarrow>
      case qs i of [] \<Rightarrow> prcv_mbx cfg mbxid s = ((Ret E_TMOUT, None), t_unlock_cpu (t_lock_cpu s))
      | m # ms \<Rightarrow> fst (prcv_mbx cfg mbxid s) = (Ret E_OK, Some m) \<and> mbx_state cfg (qs(i := ms)) (snd (prcv_mbx cfg mbxid s))"
    and "s' \<in> {snd (prcv_mbx cfg mbxid s), snd (ref_mbx cfg mbxid s)} \<Longrightarrow>
      mbx_state cfg qs s' \<or> mbx_state cfg (qs(i := tl (qs i))) s'"
    and "p_runtsk s = Some p \<Longrightarrow> s' \<in> {snd (rcv_mbx cfg mbxid s), snd (trcv_mbx cfg mbxid tmout s)} \<Longrightarrow>
      mbx_state cfg qs s' \<or> mbx_state cfg (qs(i := tl (qs i))) s'"
proof -
  let ?s = "t_lock_cpu s"
  have t: "mbx_state cfg qs ?s" using assms(1) by simp
  note tk = mbx_take_ok[OF t, of i] and em = mbx_empty[OF t, of i] and bl = mbx_block_ok[OF t, of i]
  show "case qs i of [] \<Rightarrow> prcv_mbx cfg mbxid s = ((Ret E_TMOUT, None), t_unlock_cpu (t_lock_cpu s))
      | m # ms \<Rightarrow> fst (prcv_mbx cfg mbxid s) = (Ret E_OK, Some m) \<and> mbx_state cfg (qs(i := ms)) (snd (prcv_mbx cfg mbxid s))"
    if "CHECK_TSKCTX_UNL s" "VALID_MBXID cfg mbxid" "mbx_atr s i \<noteq> TA_NOEXS"
    using that assms(2) tk em
    by (cases "pk_head (mbxcb s i)") (auto simp: prcv_mbx_def tsk_call_def lock_objects Let_def)
  show "mbx_state cfg qs s' \<or> mbx_state cfg (qs(i := tl (qs i))) s'"
    if "s' \<in> {snd (prcv_mbx cfg mbxid s), snd (ref_mbx cfg mbxid s)}"
    using that assms tk
    by (cases "pk_head (mbxcb s i)") (auto simp: prcv_mbx_def ref_mbx_def tsk_call_def lock_objects Let_def split: if_splits)
  show "mbx_state cfg qs s' \<or> mbx_state cfg (qs(i := tl (qs i))) s'"
    if "p_runtsk s = Some p" "s' \<in> {snd (rcv_mbx cfg mbxid s), snd (trcv_mbx cfg mbxid tmout s)}"
    using that assms tk bl[of p]
    by (cases "pk_head (mbxcb s i)")
      (auto simp: rcv_mbx_def trcv_mbx_def tsk_call_def lock_objects lock_sel Let_def wobj_make_wait_eq split: if_splits)
qed

lemma mbx_init_ok:
  assumes "mbx_state cfg qs s" and "i = INDEX_MBX mbxid"
  shows "mbx_state cfg qs (snd (ini_mbx cfg mbxid s)) \<or> mbx_state cfg (qs(i := [])) (snd (ini_mbx cfg mbxid s))"
    and "mbx_state cfg qs (snd (del_mbx cfg mbxid s)) \<or> mbx_state cfg (qs(i := [])) (snd (del_mbx cfg mbxid s))"
proof -
  let ?s = "t_lock_cpu s"
  have t: "mbx_state cfg qs ?s" "kinv ?s" "mbx_inv cfg ?s" "mbx_rep qs ?s" using assms(1) by (simp_all add: mbx_state_def)
  define r where "r = init_wait_queue (WaitQ (MBX i)) ?s"
  note n = init_wait_queue_obj[OF kinvD(2)[OF t(2)] r_def]
  note f = objectsD(16,17)[OF n(5)]
  have a: "wobjatr (snd r) = wobjatr ?s" using wobjatr_objects[OF n(5)] .
  have rep: "mbx_rep (qs(i := [])) s'" if "s' = upd_mbx i g (snd r)" "box_ok (g (mbxcb s i)) (pk_next s) (msgpri s) []" for s' g
    by (rule mbx_rep_one[OF t(4)]) (use that(2) f objectsD(18,19)[OF n(5)] in \<open>simp_all add: that(1) lock_objects\<close>)
  have b: "kinv (dispatch_if (fst r, s'))"
    "free_mbxcb s' = free_mbxcb ?s \<Longrightarrow> mbx_atr s' i \<noteq> TA_NOEXS \<Longrightarrow> pk_head (mbxcb s' i) = None \<Longrightarrow> mbx_inv cfg s'"
    "free_mbxcb s' = free_mbxcb ?s @ [i] \<Longrightarrow> mbx_atr s' i = TA_NOEXS \<Longrightarrow> tnum_smbx cfg \<le> i \<Longrightarrow> i < tnum_mbx cfg \<Longrightarrow> mbx_inv cfg s'"
    if e: "mbx_atr s i \<noteq> TA_NOEXS" and s': "same_tasks (snd r) s'" "\<And>j. j \<noteq> i \<Longrightarrow> mbxcb s' j = mbxcb ?s j"
      "\<And>w. w \<noteq> MBX i \<Longrightarrow> wobjatr s' w = wobjatr (snd r) w" for s'
  proof -
    have e': "mbx_atr ?s i \<noteq> TA_NOEXS" using e by (simp add: lock_objects)
    have rq: "queues (snd r) (RWaitQ (MBX i)) = []" using n(3) mbx.local[OF t(3) e'] by (simp add: mbx_ok_def)
    have w: "\<And>w. w \<noteq> MBX i \<Longrightarrow> wobjatr s' w = wobjatr ?s w" using s'(3) a by simp
    note c = mbx.inv_init[OF t(2,3) e' n(1,5,2) rq n(4) s'(1,2) w]
    show "kinv (dispatch_if (fst r, s'))"
      "free_mbxcb s' = free_mbxcb ?s \<Longrightarrow> mbx_atr s' i \<noteq> TA_NOEXS \<Longrightarrow> pk_head (mbxcb s' i) = None \<Longrightarrow> mbx_inv cfg s'"
      "free_mbxcb s' = free_mbxcb ?s @ [i] \<Longrightarrow> mbx_atr s' i = TA_NOEXS \<Longrightarrow> tnum_smbx cfg \<le> i \<Longrightarrow> i < tnum_mbx cfg \<Longrightarrow> mbx_inv cfg s'"
      using c by (simp_all add: mbx_ok_def)
  qed
  let ?s1 = "upd_mbx i (\<lambda>c. c\<lparr>pk_head := None\<rparr>) (snd r)"
  have "mbx_state cfg (qs(i := [])) (dispatch_if (fst r, ?s1))" if e: "mbx_atr s i \<noteq> TA_NOEXS"
    using b[where s' = ?s1, OF e _ _ wobjatr_mbx_other] rep[OF refl, of "\<lambda>c. c\<lparr>pk_head := None\<rparr>"] e f
    by (simp add: mbx_state_def same_tasks_def box_ok_def lock_objects)
  then show "mbx_state cfg qs (snd (ini_mbx cfg mbxid s)) \<or> mbx_state cfg (qs(i := [])) (snd (ini_mbx cfg mbxid s))"
    using assms by (simp add: ini_mbx_def tsk_call_def Let_def case_prod_beta lock_objects r_def)
  let ?g = "\<lambda>c. c\<lparr>p_mbxinib := (p_mbxinib c)\<lparr>mbxatr := TA_NOEXS\<rparr>\<rparr>"
  let ?s2 = "(upd_mbx i ?g (snd r))\<lparr>free_mbxcb := free_mbxcb (snd r) @ [i]\<rparr>"
  have "mbx_state cfg (qs(i := [])) (dispatch_if (fst r, ?s2))"
    if e: "mbx_atr s i \<noteq> TA_NOEXS" "tnum_smbx cfg \<le> i" "i < tnum_mbx cfg"
  proof -
    have "mbx_rep (qs(i := [])) ?s2 = mbx_rep (qs(i := [])) (upd_mbx i ?g (snd r))" by (rule mbx_rep_cong) simp_all
    moreover have "wobjatr ?s2 w = wobjatr (snd r) w" if "w \<noteq> MBX i" for w
      using that by (simp only: wobjatr_mbxcb(2) wobjatr_mbx_other[OF that])
    ultimately show ?thesis
      using b[where s' = ?s2, OF e(1)] rep[OF refl, of ?g] e f
      by (simp add: mbx_state_def same_tasks_def box_ok_def lock_objects)
  qed
  moreover have "tnum_smbx cfg \<le> i \<and> i < tnum_mbx cfg" if "VALID_MBXID cfg mbxid" "MBXID i > tmax_smbxid cfg"
    using that assms(2) by (auto simp: VALID_MBXID_def MBXID_def INDEX_MBX_def tnum_mbx_def tnum_smbx_def)
  ultimately show "mbx_state cfg qs (snd (del_mbx cfg mbxid s)) \<or> mbx_state cfg (qs(i := [])) (snd (del_mbx cfg mbxid s))"
    using assms by (auto simp: del_mbx_def tsk_call_def Let_def case_prod_beta lock_objects r_def)
qed

lemma mbx_create_ok:
  assumes "mbx_state cfg qs s"
  shows "mbx_state cfg qs (snd (acre_mbx cfg pk s))"
proof -
  let ?s = "t_lock_cpu s" and ?i = "hd (free_mbxcb (t_lock_cpu s))"
  have t: "kinv ?s" "mbx_inv cfg ?s" "mbx_rep qs ?s" "mbx_state cfg qs ?s" using assms by (simp_all add: mbx_state_def)
  define c where "c = (mbxcb ?s ?i)\<lparr>p_mbxinib := (p_mbxinib (mbxcb ?s ?i))\<lparr>mbxatr := cmbx_mbxatr pk,
      maxmpri := cmbx_maxmpri pk\<rparr>, pk_head := None\<rparr>"
  define s1 where "s1 = ?s\<lparr>free_mbxcb := tl (free_mbxcb ?s), queues := (queues ?s)(WaitQ (MBX ?i) := []),
    mbxcb := (mbxcb ?s)(?i := c)\<rparr>"
  have "mbx_state cfg qs s1" if f: "free_mbxcb ?s \<noteq> []" and at: "CHECK_RSATR (cmbx_mbxatr pk) (TA_TPRI OR TA_MPRI)"
  proof -
    have fr: "free_mbxcb ?s = ?i # tl (free_mbxcb ?s)" using f by simp
    have i: "mbx_atr ?s ?i = TA_NOEXS" "queues ?s (WaitQ (MBX ?i)) = []" using pool_invD(2,4)[OF t(2), of ?i] f by simp_all
    have ex: "cmbx_mbxatr pk \<noteq> TA_NOEXS" using rsatr_exists(1)[OF at] by simp
    have "kinv s1" by (rule mbx.kinv_create[OF t(1,2) fr])
        (use i in \<open>auto simp: s1_def same_tasks_def fun_upd_idem wobjatr_def split: wobj.split\<close>)
    moreover have "mbx_inv cfg s1"
      by (rule mbx.inv_create[OF t(2) fr, of s1 c]) (use i ex in \<open>auto simp: s1_def c_def fun_upd_idem mbx_ok_def\<close>)
    moreover have q: "qs ?i = []" using mbx_repD(1)[OF t(3), of ?i] i(1) by (simp add: box_ok_def)
    then have "mbx_rep (qs(?i := [])) s1"
      by (intro mbx_rep_one[OF t(3)]) (simp_all add: s1_def c_def box_ok_def)
    ultimately show ?thesis using q by (simp add: mbx_state_def fun_upd_idem)
  qed
  then show ?thesis
    using assms t(4) by (auto simp: acre_mbx_def tsk_call_def Let_def q_initialize_def s1_def c_def)
qed

section \<open>Properties\<close>

definition no_msgs :: "nat \<Rightarrow> nat list" where
  "no_msgs i = []"

lemma mbx_state_run_kernel: "mbx_state sample_cfg no_msgs run_kernel"
  by (simp add: mbx_state_def kinv_run_kernel pool_inv_def mbx_ok_def mbx_rep_def run_kernel_sel run_kernel_objects)
    (simp add: idle_kernel_def box_ok_def no_msgs_def)



text \<open>
  C34: sending to a mailbox and receiving from it. Without a waiting task, a successful \<open>snd_mbx\<close> puts
  the message at the end of the list of its mailbox, or behind the messages of the same or a higher
  priority under \<open>TA_MPRI\<close>; the first waiting task gets the message otherwise. \<open>prcv_mbx\<close> takes the
  first message and fails exactly when there is none.
\<close>

theorem mailbox_list_refinement:
  assumes "mbx_state cfg qs s" and "\<And>j. m \<notin> set (qs j)" and "CHECK_TSKCTX_UNL s" and "VALID_MBXID cfg mbxid"
    and "i = INDEX_MBX mbxid" and "mbx_atr s i \<noteq> TA_NOEXS"
    and "(r1, s1) = snd_mbx cfg mbxid m s" and "(r2, s2) = prcv_mbx cfg mbxid s"
  shows "(r1 = Ret E_OK \<longrightarrow> (case queues s (WaitQ (MBX i)) of
        [] \<Rightarrow> mbx_state cfg (qs(i := post (mbxcb s i) (msgpri s) m (qs i))) s1
      | p # ps \<Rightarrow> mbx_state cfg qs s1 \<and> w_msg (winfos s1 p) = Some m \<and> result_of (Wait_ercd p) s1 = Some E_OK)) \<and>
    (case qs i of [] \<Rightarrow> r2 = (Ret E_TMOUT, None)
     | x # xs \<Rightarrow> r2 = (Ret E_OK, Some x) \<and> mbx_state cfg (qs(i := xs)) s2)"
proof -
  note c = snd_mbx_cases[OF assms(1,2,5,7)]
  have r: "r2 = fst (prcv_mbx cfg mbxid s)" "s2 = snd (prcv_mbx cfg mbxid s)" by (simp_all flip: assms(8))
  show ?thesis
    using c(1,2) mbx_receive_ok(1)[OF assms(1,5,3,4,6)]
    by (cases "queues s (WaitQ (MBX i))"; cases "qs i") (simp_all add: r)
qed

theorem mailbox_list_refinement_witness:
  "mbx_state sample_cfg (no_msgs(0 := [0x200])) (snd (snd_mbx sample_cfg 1 0x200 run_kernel))"
proof -
  have z: "mbxcb run_kernel 0 = \<lparr>p_mbxinib = \<lparr>mbxatr = TA_NULL, maxmpri = 3\<rparr>, pk_head = None, pk_last = 0\<rparr>"
    by (simp add: run_kernel_objects) (simp add: idle_kernel_def)
  have v: "CHECK_TSKCTX_UNL run_kernel" "VALID_MBXID sample_cfg 1" "INDEX_MBX 1 = 0" "mbx_atr run_kernel 0 \<noteq> TA_NOEXS"
    by (simp_all add: CHECK_TSKCTX_UNL_def run_kernel_sel VALID_MBXID_def sample_cfg_def INDEX_MBX_def z)
  have "fst (snd_mbx sample_cfg 1 0x200 run_kernel) = Ret E_OK"
    using v by (simp add: snd_mbx_def tsk_call_def lock_objects z lock_sel q_empty_def run_kernel_sel)
  then show ?thesis
    using mailbox_list_refinement[OF mbx_state_run_kernel _ v(1,2) v(3)[symmetric] v(4) prod.collapse prod.collapse,
        of "0x200"] by (simp add: no_msgs_def run_kernel_sel post_def z)
qed

text \<open>
  a message sent to an empty mailbox without waiting tasks is what the next \<open>prcv_mbx\<close> returns,
  and the mailbox is empty again.
\<close>

lemma mailbox_roundtrip:
  assumes "mbx_state cfg qs s" and "\<And>j. m \<notin> set (qs j)" and "qs (INDEX_MBX mbxid) = []"
    and "queues s (WaitQ (MBX (INDEX_MBX mbxid))) = []"
    and "(Ret E_OK, s1) = snd_mbx cfg mbxid m s" and "CHECK_TSKCTX_UNL s1" and "((r, x), s2) = prcv_mbx cfg mbxid s1"
  shows "r = Ret E_OK \<and> x = Some m \<and> mbx_state cfg qs s2"
proof -
  let ?i = "INDEX_MBX mbxid"
  have "mbx_state cfg (qs(?i := post (mbxcb s ?i) (msgpri s) m (qs ?i))) s1"
    by (rule snd_mbx_cases(1)[OF assms(1,2) refl assms(5) refl assms(4)])
  then have s1: "mbx_state cfg (qs(?i := [m])) s1" using assms(3) by (simp add: post_def insert_pri_Cons split: if_splits)
  have "VALID_MBXID cfg mbxid" using assms(5) by (auto simp: snd_mbx_def split: if_splits)
  moreover have "mbx_atr s1 ?i \<noteq> TA_NOEXS"
    using mbx_repD(1)[of "qs(?i := [m])" s1 ?i] s1 by (simp add: mbx_state_def box_ok_def split: if_splits)
  ultimately have "fst (prcv_mbx cfg mbxid s1) = (Ret E_OK, Some m)"
    "mbx_state cfg (qs(?i := [])) (snd (prcv_mbx cfg mbxid s1))"
    using mbx_receive_ok(1)[where mbxid = mbxid, OF s1 refl assms(6)] by simp_all
  then show ?thesis using assms(3) by (simp add: assms(7)[symmetric] fun_upd_idem)
qed

lemma mailbox_roundtrip_witness:
  "fst (prcv_mbx sample_cfg 1 (snd (snd_mbx sample_cfg 1 0x200 run_kernel))) = (Ret E_OK, Some 0x200)"
proof -
  let ?s1 = "snd (snd_mbx sample_cfg 1 0x200 run_kernel)"
  have z: "mbxcb run_kernel 0 = \<lparr>p_mbxinib = \<lparr>mbxatr = TA_NULL, maxmpri = 3\<rparr>, pk_head = None, pk_last = 0\<rparr>"
    by (simp add: run_kernel_objects) (simp add: idle_kernel_def)
  have v: "CHECK_TSKCTX_UNL run_kernel" "VALID_MBXID sample_cfg 1" "INDEX_MBX 1 = 0" "mbx_atr run_kernel 0 \<noteq> TA_NOEXS"
    by (simp_all add: CHECK_TSKCTX_UNL_def run_kernel_sel VALID_MBXID_def sample_cfg_def INDEX_MBX_def z)
  have e: "(Ret E_OK, ?s1) = snd_mbx sample_cfg 1 0x200 run_kernel"
    using v by (simp add: snd_mbx_def tsk_call_def lock_objects z lock_sel q_empty_def run_kernel_sel)
  have c: "CHECK_TSKCTX_UNL ?s1"
    using v by (simp add: snd_mbx_def tsk_call_def lock_objects z lock_sel q_empty_def run_kernel_sel CHECK_TSKCTX_UNL_def)
      (simp add: t_unlock_cpu_def t_lock_cpu_def)
  obtain r x s2 where p: "((r, x), s2) = prcv_mbx sample_cfg 1 ?s1" by (metis surj_pair)
  show ?thesis
    using mailbox_roundtrip[OF mbx_state_run_kernel _ _ _ e c p] v(3)
    by (simp add: no_msgs_def run_kernel_sel p[symmetric])
qed

end
