(* ===== verification/Asp_Mempfix.thy ===== *)
theory Asp_Mempfix
  imports Asp_Object Asp_List
begin

text \<open>
  Fixed-sized memory pools, \<^verbatim>\<open>kernel/mempfix.c\<close>. The invariant \<open>mpf_inv\<close> says that the free list of
  every pool is well formed, that exactly the blocks used so far and not in it are marked as
  allocated, and that the counter of free blocks is right. A block is therefore never handed out
  twice, and \<open>rel_mpf\<close> accepts exactly the addresses of allocated blocks.
\<close>

section \<open>Operations\<close>

definition tnum_mpf :: "kernel_cfg \<Rightarrow> nat" where "tnum_mpf cfg = nat (tmax_mpfid cfg)"
definition tnum_smpf :: "kernel_cfg \<Rightarrow> nat" where "tnum_smpf cfg = nat (tmax_smpfid cfg)"
definition INDEX_MPF :: "ID \<Rightarrow> nat" where "INDEX_MPF mpfid = nat (mpfid - 1)"
definition MPFID :: "nat \<Rightarrow> ID" where "MPFID i = int i + 1"

definition VALID_MPFID :: "kernel_cfg \<Rightarrow> ID \<Rightarrow> bool" where
  "VALID_MPFID cfg mpfid \<longleftrightarrow> 1 \<le> mpfid \<and> mpfid \<le> tmax_mpfid cfg"

text \<open>\<open>INDEX_NULL\<close>, the end of the free list, is \<open>None\<close>.\<close>

definition INDEX_ALLOC :: "nat option" where
  "INDEX_ALLOC = Some 0xFFFFFFFE"

text \<open>Rounding to a multiple of the size 4 of \<open>MPF_T\<close>, in 32 bits.\<close>

definition ROUND_MPF_T :: "nat \<Rightarrow> nat" where
  "ROUND_MPF_T sz = unat ((of_nat sz + 4 - 1 :: 32 word) AND NOT (4 - 1))"

abbreviation upd_mpf :: "nat \<Rightarrow> (MPFCB \<Rightarrow> MPFCB) \<Rightarrow> kernel \<Rightarrow> kernel" where
  "upd_mpf i g s \<equiv> s\<lparr>mpfcb := (mpfcb s)(i := g (mpfcb s i))\<rparr>"

abbreviation mpf_atr :: "kernel \<Rightarrow> nat \<Rightarrow> ATR" where
  "mpf_atr s i \<equiv> mpfatr (p_mpfinib (mpfcb s i))"

abbreviation mpf_cnt :: "MPFCB \<Rightarrow> nat" where
  "mpf_cnt c \<equiv> blkcnt (p_mpfinib c)"

definition initialize_mempfix :: "kernel_cfg \<Rightarrow> kernel \<Rightarrow> kernel" where
  "initialize_mempfix cfg s =
    (let s = fold (\<lambda>i s.
               let s = s\<lparr>queues := q_initialize (WaitQ (MPF i)) (queues s)\<rparr>;
                   s = upd_mpf i (\<lambda>c. c\<lparr>p_mpfinib := mpfinib_table cfg i\<rparr>) s
               in upd_mpf i (\<lambda>c. c\<lparr>fblkcnt := mpf_cnt c, mpf_unused := 0, mpf_freelist := None\<rparr>) s)
             [0..<tnum_smpf cfg] s;
         s = s\<lparr>free_mpfcb := []\<rparr>
     in fold (\<lambda>i s.
          let s = upd_mpf i (\<lambda>c. c\<lparr>p_mpfinib := (p_mpfinib c)\<lparr>mpfatr := TA_NOEXS\<rparr>\<rparr>) s
          in s\<lparr>free_mpfcb := free_mpfcb s @ [i]\<rparr>)
        [tnum_smpf cfg..<tnum_mpf cfg] s)"

text \<open>The address of the block is stored through \<open>p_blk\<close>.\<close>

definition get_mpf_block :: "MPFCB \<Rightarrow> nat \<times> MPFCB" where
  "get_mpf_block c =
    (let (blkidx, c) = (case mpf_freelist c of
                          Some blkidx \<Rightarrow> (blkidx, c\<lparr>mpf_freelist := mpfmb c blkidx\<rparr>)
                        | None \<Rightarrow> (mpf_unused c, c\<lparr>mpf_unused := mpf_unused c + 1\<rparr>));
         p_blk = mpf (p_mpfinib c) + blksz (p_mpfinib c) * blkidx;
         c = c\<lparr>fblkcnt := fblkcnt c - 1\<rparr>;
         c = c\<lparr>mpfmb := (mpfmb c)(blkidx := INDEX_ALLOC)\<rparr>
     in (p_blk, c))"

record T_CMPF =
  cmpf_mpfatr :: ATR
  cmpf_blkcnt :: nat
  cmpf_blksz :: nat
  cmpf_mpf :: "nat option"
  cmpf_mpfmb :: "nat option"

definition acre_mpf :: "kernel_cfg \<Rightarrow> T_CMPF \<Rightarrow> kernel \<Rightarrow> result \<times> kernel" where
  "acre_mpf cfg pk_cmpf s =
    (if \<not> CHECK_TSKCTX_UNL s then (Ret E_CTX, s)
     else if \<not> CHECK_RSATR (cmpf_mpfatr pk_cmpf) TA_TPRI then (Ret E_RSATR, s)
     else if \<not> cmpf_blkcnt pk_cmpf \<noteq> 0 then (Ret E_PAR, s)
     else if \<not> cmpf_blksz pk_cmpf \<noteq> 0 then (Ret E_PAR, s)
     else if (case cmpf_mpf pk_cmpf of Some m \<Rightarrow> \<not> MPF_ALIGNED m | None \<Rightarrow> False) then (Ret E_PAR, s)
     else if (case cmpf_mpfmb pk_cmpf of Some mb \<Rightarrow> \<not> MB_ALIGNED mb | None \<Rightarrow> False) then (Ret E_PAR, s)
     else tsk_call (\<lambda>s.
       if tnum_mpf cfg = 0 \<or> free_mpfcb s = [] then (Ret E_NOID, s)
       else (let (atr, pool, s) =
                  (if cmpf_mpf pk_cmpf = None
                   then (let (m, s) = kernel_malloc cfg (SIZE_of (ROUND_MPF_T (cmpf_blksz pk_cmpf) * cmpf_blkcnt pk_cmpf)) s
                         in (cmpf_mpfatr pk_cmpf OR TA_MEMALLOC, m, s))
                   else (cmpf_mpfatr pk_cmpf, cmpf_mpf pk_cmpf, s))
             in if pool = None then (Ret E_NOMEM, s)
                else (let (atr, mb, s) =
                           (if cmpf_mpfmb pk_cmpf = None
                            then (let (mb, s) = kernel_malloc cfg (SIZE_of (4 * cmpf_blkcnt pk_cmpf)) s
                                  in (atr OR TA_MBALLOC, mb, s))
                            else (atr, cmpf_mpfmb pk_cmpf, s))
                      in if mb = None
                         then (Ret E_NOMEM, if cmpf_mpf pk_cmpf = None then kernel_free pool s else s)
                         else (let i = hd (free_mpfcb s);
                                   s = s\<lparr>free_mpfcb := tl (free_mpfcb s)\<rparr>;
                                   s = upd_mpf i (\<lambda>c. c\<lparr>p_mpfinib := (p_mpfinib c)\<lparr>mpfatr := atr,
                                         blkcnt := cmpf_blkcnt pk_cmpf, blksz := ROUND_MPF_T (cmpf_blksz pk_cmpf),
                                         mpf := the pool, p_mpfmb := mb\<rparr>\<rparr>) s;
                                   s = s\<lparr>queues := q_initialize (WaitQ (MPF i)) (queues s)\<rparr>;
                                   s = upd_mpf i (\<lambda>c. c\<lparr>fblkcnt := mpf_cnt c, mpf_unused := 0, mpf_freelist := None\<rparr>) s
                               in (Ret (MPFID i), s))))) s)"

definition del_mpf :: "kernel_cfg \<Rightarrow> ID \<Rightarrow> kernel \<Rightarrow> result \<times> kernel" where
  "del_mpf cfg mpfid s =
    (if \<not> CHECK_TSKCTX_UNL s then (Ret E_CTX, s)
     else if \<not> VALID_MPFID cfg mpfid then (Ret E_ID, s)
     else let i = INDEX_MPF mpfid in tsk_call (\<lambda>s.
       if mpf_atr s i = TA_NOEXS then (Ret E_NOEXS, s)
       else if MPFID i > tmax_smpfid cfg
       then (let (dspreq, s) = init_wait_queue (WaitQ (MPF i)) s;
                 s = (if mpf_atr s i AND TA_MEMALLOC \<noteq> 0
                      then kernel_free (Some (mpf (p_mpfinib (mpfcb s i)))) s else s);
                 s = (if mpf_atr s i AND TA_MBALLOC \<noteq> 0
                      then kernel_free (p_mpfmb (p_mpfinib (mpfcb s i))) s else s);
                 s = upd_mpf i (\<lambda>c. c\<lparr>p_mpfinib := (p_mpfinib c)\<lparr>mpfatr := TA_NOEXS\<rparr>\<rparr>) s;
                 s = s\<lparr>free_mpfcb := free_mpfcb s @ [i]\<rparr>
             in (Ret E_OK, dispatch_if (dspreq, s)))
       else (Ret E_OBJ, s)) s)"

text \<open>
  The calls that get a block return its address at once, or in \<open>w_blk\<close> of the waiting information
  when the wait ends with \<open>E_OK\<close>.
\<close>

definition get_mpf :: "kernel_cfg \<Rightarrow> ID \<Rightarrow> kernel \<Rightarrow> (result \<times> nat option) \<times> kernel" where
  "get_mpf cfg mpfid s =
    (if \<not> CHECK_DISPATCH s then ((Ret E_CTX, None), s)
     else if \<not> VALID_MPFID cfg mpfid then ((Ret E_ID, None), s)
     else let i = INDEX_MPF mpfid in tsk_call (\<lambda>s.
       if mpf_atr s i = TA_NOEXS then ((Ret E_NOEXS, None), s)
       else if fblkcnt (mpfcb s i) > 0
       then (let (blk, c) = get_mpf_block (mpfcb s i) in ((Ret E_OK, Some blk), upd_mpf i (\<lambda>_. c) s))
       else (let s = set_tstat (runtsk s) (TS_WAITING OR TS_WAIT_MPF) s;
                 s = wobj_make_wait (MPF i) s
             in ((Wait_ercd (runtsk s), None), dispatch s))) s)"

definition pget_mpf :: "kernel_cfg \<Rightarrow> ID \<Rightarrow> kernel \<Rightarrow> (result \<times> nat option) \<times> kernel" where
  "pget_mpf cfg mpfid s =
    (if \<not> CHECK_TSKCTX_UNL s then ((Ret E_CTX, None), s)
     else if \<not> VALID_MPFID cfg mpfid then ((Ret E_ID, None), s)
     else let i = INDEX_MPF mpfid in tsk_call (\<lambda>s.
       if mpf_atr s i = TA_NOEXS then ((Ret E_NOEXS, None), s)
       else if fblkcnt (mpfcb s i) > 0
       then (let (blk, c) = get_mpf_block (mpfcb s i) in ((Ret E_OK, Some blk), upd_mpf i (\<lambda>_. c) s))
       else ((Ret E_TMOUT, None), s)) s)"

definition tget_mpf :: "kernel_cfg \<Rightarrow> ID \<Rightarrow> TMO \<Rightarrow> kernel \<Rightarrow> (result \<times> nat option) \<times> kernel" where
  "tget_mpf cfg mpfid tmout s =
    (if \<not> CHECK_DISPATCH s then ((Ret E_CTX, None), s)
     else if \<not> VALID_MPFID cfg mpfid then ((Ret E_ID, None), s)
     else if \<not> CHECK_TMOUT tmout then ((Ret E_PAR, None), s)
     else let i = INDEX_MPF mpfid in tsk_call (\<lambda>s.
       if mpf_atr s i = TA_NOEXS then ((Ret E_NOEXS, None), s)
       else if fblkcnt (mpfcb s i) > 0
       then (let (blk, c) = get_mpf_block (mpfcb s i) in ((Ret E_OK, Some blk), upd_mpf i (\<lambda>_. c) s))
       else if tmout = TMO_POL then ((Ret E_TMOUT, None), s)
       else (let s = set_tstat (runtsk s) (TS_WAITING OR TS_WAIT_MPF) s;
                 s = wobj_make_wait_tmout (MPF i) tmout s
             in ((Wait_ercd (runtsk s), None), dispatch s))) s)"

text \<open>The difference of the addresses is of the 32-bit type \<open>SIZE\<close>.\<close>

definition rel_mpf :: "kernel_cfg \<Rightarrow> ID \<Rightarrow> nat \<Rightarrow> kernel \<Rightarrow> result \<times> kernel" where
  "rel_mpf cfg mpfid blk s =
    (if \<not> CHECK_TSKCTX_UNL s then (Ret E_CTX, s)
     else if \<not> VALID_MPFID cfg mpfid then (Ret E_ID, s)
     else let i = INDEX_MPF mpfid in tsk_call (\<lambda>s.
       if mpf_atr s i = TA_NOEXS then (Ret E_NOEXS, s)
       else (let ini = p_mpfinib (mpfcb s i);
                 blkoffset = nat ((int blk - int (mpf ini)) mod 2 ^ 32);
                 blkidx = blkoffset div blksz ini
             in if \<not> mpf ini \<le> blk \<or> \<not> blkoffset mod blksz ini = 0 \<or>
                   \<not> blkoffset div blksz ini < mpf_unused (mpfcb s i) \<or>
                   \<not> mpfmb (mpfcb s i) blkidx = INDEX_ALLOC
                then (Ret E_PAR, s)
                else if \<not> q_empty (WaitQ (MPF i)) (queues s)
                then (let (p_tcb, f) = q_delete_next (WaitQ (MPF i)) (queues s);
                          s = s\<lparr>queues := f\<rparr>;
                          s = upd_winfo p_tcb (\<lambda>w. w\<lparr>w_blk := blk\<rparr>) s
                      in (Ret E_OK, dispatch_if (wait_complete p_tcb s)))
                else (Ret E_OK, upd_mpf i (\<lambda>c. c\<lparr>fblkcnt := fblkcnt c + 1,
                       mpfmb := (mpfmb c)(blkidx := mpf_freelist c), mpf_freelist := Some blkidx\<rparr>) s))) s)"

definition ini_mpf :: "kernel_cfg \<Rightarrow> ID \<Rightarrow> kernel \<Rightarrow> result \<times> kernel" where
  "ini_mpf cfg mpfid s =
    (if \<not> CHECK_TSKCTX_UNL s then (Ret E_CTX, s)
     else if \<not> VALID_MPFID cfg mpfid then (Ret E_ID, s)
     else let i = INDEX_MPF mpfid in tsk_call (\<lambda>s.
       if mpf_atr s i = TA_NOEXS then (Ret E_NOEXS, s)
       else (let (dspreq, s) = init_wait_queue (WaitQ (MPF i)) s;
                 s = upd_mpf i (\<lambda>c. c\<lparr>fblkcnt := mpf_cnt c, mpf_unused := 0, mpf_freelist := None\<rparr>) s
             in (Ret E_OK, dispatch_if (dspreq, s)))) s)"

record T_RMPF =
  rmpf_wtskid :: ID
  rmpf_fblkcnt :: nat

definition ref_mpf :: "kernel_cfg \<Rightarrow> ID \<Rightarrow> kernel \<Rightarrow> (result \<times> T_RMPF option) \<times> kernel" where
  "ref_mpf cfg mpfid s =
    (if \<not> CHECK_TSKCTX_UNL s then ((Ret E_CTX, None), s)
     else if \<not> VALID_MPFID cfg mpfid then ((Ret E_ID, None), s)
     else let i = INDEX_MPF mpfid in tsk_call (\<lambda>s.
       if mpf_atr s i = TA_NOEXS then ((Ret E_NOEXS, None), s)
       else ((Ret E_OK, Some \<lparr>rmpf_wtskid = wait_tskid (WaitQ (MPF i)) s, rmpf_fblkcnt = fblkcnt (mpfcb s i)\<rparr>), s)) s)"

section \<open>The free list and the allocated blocks\<close>

definition mpf_free :: "MPFCB \<Rightarrow> nat list" where
  "mpf_free c = nodes (mpfmb c) (fblkcnt c + mpf_unused c - mpf_cnt c) (mpf_freelist c)"

definition mpf_alloc :: "MPFCB \<Rightarrow> nat set" where
  "mpf_alloc c = {i. i < mpf_unused c \<and> mpfmb c i = INDEX_ALLOC}"

definition mpf_blocks_ok :: "MPFCB \<Rightarrow> bool" where
  "mpf_blocks_ok c \<longleftrightarrow> slist (mpfmb c) (mpf_freelist c) (mpf_free c) \<and> distinct (mpf_free c) \<and>
    length (mpf_free c) + mpf_cnt c = fblkcnt c + mpf_unused c \<and> mpf_unused c \<le> mpf_cnt c \<and>
    mpf_cnt c < 0xFFFFFFFF \<and> set (mpf_free c) \<union> mpf_alloc c = {..<mpf_unused c}"

lemma mpf_blocks_okI:
  assumes "slist (mpfmb c) (mpf_freelist c) fs" and "distinct fs" and "length fs + mpf_cnt c = fblkcnt c + mpf_unused c"
    and "mpf_unused c \<le> mpf_cnt c" and "mpf_cnt c < 0xFFFFFFFF" and "set fs \<union> mpf_alloc c = {..<mpf_unused c}"
  shows "mpf_blocks_ok c" and "mpf_free c = fs"
proof -
  have "length fs = fblkcnt c + mpf_unused c - mpf_cnt c" using assms(3) by simp
  then show "mpf_free c = fs" using nodes_slist[OF assms(1)] by (simp add: mpf_free_def)
  then show "mpf_blocks_ok c" using assms by (simp add: mpf_blocks_ok_def)
qed

lemma mpf_blocks_okD:
  assumes "mpf_blocks_ok c"
  shows "slist (mpfmb c) (mpf_freelist c) (mpf_free c)" and "distinct (mpf_free c)"
    and "length (mpf_free c) + mpf_cnt c = fblkcnt c + mpf_unused c" and "mpf_unused c \<le> mpf_cnt c"
    and "mpf_cnt c < 0xFFFFFFFF" and "set (mpf_free c) \<union> mpf_alloc c = {..<mpf_unused c}"
    and "x \<in> set (mpf_free c) \<Longrightarrow> x < mpf_unused c"
  using assms unfolding mpf_blocks_ok_def by blast+

text \<open>No block in the free list is marked as allocated: its link is the end mark or a small index.\<close>

lemma slist_links: "slist nx l xs \<Longrightarrow> x \<in> set xs \<Longrightarrow> nx x = None \<or> (\<exists>y \<in> set xs. nx x = Some y)"
proof (induction nx l xs rule: slist.induct)
  case (2 nx l y ys)
  then show ?case by (cases ys) auto
qed simp

lemma mpf_free_not_alloc:
  assumes "mpf_blocks_ok c" and "x \<in> set (mpf_free c)"
  shows "mpfmb c x \<noteq> INDEX_ALLOC"
proof -
  have "y \<noteq> 0xFFFFFFFE" if "y \<in> set (mpf_free c)" for y
    using mpf_blocks_okD(4,5)[OF assms(1)] mpf_blocks_okD(7)[OF assms(1) that] by simp
  then show ?thesis
    using slist_links[OF mpf_blocks_okD(1)[OF assms(1)] assms(2)] by (auto simp: INDEX_ALLOC_def)
qed

lemma mpf_free_alloc_disjoint: "mpf_blocks_ok c \<Longrightarrow> set (mpf_free c) \<inter> mpf_alloc c = {}"
  using mpf_free_not_alloc by (auto simp: mpf_alloc_def)

text \<open>Getting a block: one that is not allocated, and now is.\<close>

lemma get_mpf_block_ok:
  assumes "mpf_blocks_ok c" and "fblkcnt c > 0"
  obtains n c' where "get_mpf_block c = (mpf (p_mpfinib c) + blksz (p_mpfinib c) * n, c')" and "mpf_blocks_ok c'"
    and "n < mpf_cnt c" and "n \<notin> mpf_alloc c" and "mpf_alloc c' = insert n (mpf_alloc c)"
    and "p_mpfinib c' = p_mpfinib c" and "fblkcnt c' = fblkcnt c - 1"
proof -
  note b = mpf_blocks_okD[OF assms(1)]
  show ?thesis
  proof (cases "mpf_freelist c")
    case None
    let ?n = "mpf_unused c"
    define c' where "c' = c\<lparr>mpf_unused := ?n + 1, fblkcnt := fblkcnt c - 1, mpfmb := (mpfmb c)(?n := INDEX_ALLOC)\<rparr>"
    have f: "mpf_free c = []" using b(1) None by simp
    have u: "?n < mpf_cnt c" using b(3) f assms(2) by simp
    have al: "mpf_alloc c' = insert ?n (mpf_alloc c)" by (auto simp: mpf_alloc_def c'_def)
    have "mpf_blocks_ok c'"
    proof (rule mpf_blocks_okI[where fs = "[]"])
      have "mpf_alloc c = {..<?n}" using b(6) f by simp
      then show "set [] \<union> mpf_alloc c' = {..<mpf_unused c'}" unfolding al by (simp add: c'_def lessThan_Suc)
    qed (use b(3,5) f u assms(2) None in \<open>simp_all add: c'_def\<close>)
    moreover have "get_mpf_block c = (mpf (p_mpfinib c) + blksz (p_mpfinib c) * ?n, c')"
      using None by (simp add: get_mpf_block_def c'_def)
    ultimately show ?thesis using that[of ?n c'] u al by (simp add: c'_def mpf_alloc_def)
  next
    case (Some n)
    obtain fs where f: "mpf_free c = n # fs" "slist (mpfmb c) (mpfmb c n) fs"
      using b(1) Some by (auto simp: slist_Some)
    define c' where "c' = c\<lparr>mpf_freelist := mpfmb c n, fblkcnt := fblkcnt c - 1, mpfmb := (mpfmb c)(n := INDEX_ALLOC)\<rparr>"
    have n: "n < mpf_unused c" "n \<notin> mpf_alloc c" "n \<notin> set fs"
      using b(2,7) f(1) mpf_free_alloc_disjoint[OF assms(1)] by auto
    have al: "mpf_alloc c' = insert n (mpf_alloc c)" using n(1) by (auto simp: mpf_alloc_def c'_def)
    have "mpf_blocks_ok c'"
    proof (rule mpf_blocks_okI[where fs = fs])
      show "set fs \<union> mpf_alloc c' = {..<mpf_unused c'}"
        using al b(6) f(1) by (auto simp: c'_def)
    qed (use b(2-5) f n assms(2) in \<open>simp_all add: c'_def\<close>)
    moreover have "get_mpf_block c = (mpf (p_mpfinib c) + blksz (p_mpfinib c) * n, c')"
      using Some by (simp add: get_mpf_block_def c'_def)
    ultimately show ?thesis using that[of n c'] b(4) n al by (simp add: c'_def)
  qed
qed

text \<open>Giving a block back.\<close>

lemma put_mpf_block_ok:
  assumes "mpf_blocks_ok c" and "n \<in> mpf_alloc c"
    and "c' = c\<lparr>fblkcnt := fblkcnt c + 1, mpfmb := (mpfmb c)(n := mpf_freelist c), mpf_freelist := Some n\<rparr>"
  shows "mpf_blocks_ok c'" and "mpf_alloc c' = mpf_alloc c - {n}" and "fblkcnt c' = fblkcnt c + 1"
proof -
  note b = mpf_blocks_okD[OF assms(1)]
  have n: "n < mpf_unused c" "n \<notin> set (mpf_free c)"
    using assms(2) mpf_free_alloc_disjoint[OF assms(1)] by (auto simp: mpf_alloc_def)
  have "mpf_freelist c \<noteq> INDEX_ALLOC"
    using b(1,4,5) b(7)[of "hd (mpf_free c)"] by (cases "mpf_free c") (simp_all add: INDEX_ALLOC_def)
  then show al: "mpf_alloc c' = mpf_alloc c - {n}" by (auto simp: mpf_alloc_def assms(3))
  show "mpf_blocks_ok c'"
  proof (rule mpf_blocks_okI[where fs = "n # mpf_free c"])
    show "set (n # mpf_free c) \<union> mpf_alloc c' = {..<mpf_unused c'}"
      unfolding al using b(6) n(1) assms(2) by (auto simp: assms(3))
  qed (use b(1-5) n in \<open>simp_all add: assms(3)\<close>)
  show "fblkcnt c' = fblkcnt c + 1" by (simp add: assms(3))
qed

section \<open>The invariant of the pools\<close>

definition mpf_ok :: "MPFCB \<Rightarrow> (tsk \<Rightarrow> WINFO) \<Rightarrow> tsk list \<Rightarrow> tsk list \<Rightarrow> bool" where
  "mpf_ok c w sq rq \<longleftrightarrow> rq = [] \<and> mpf_blocks_ok c \<and> (sq \<noteq> [] \<longrightarrow> fblkcnt c = 0)"

interpretation mpf: object_pool MPF mpfcb "\<lambda>c. mpfatr (p_mpfinib c)" free_mpfcb mpf_ok
proof
  show "mpfcb s' = mpfcb s \<and> free_mpfcb s' = free_mpfcb s" if "objects s' = objects s" for s' s
    using objectsD[OF that] by simp
qed (auto simp: wobjatr_def mpf_ok_def)

abbreviation mpf_inv :: "kernel_cfg \<Rightarrow> kernel \<Rightarrow> bool" where
  "mpf_inv cfg s \<equiv>
    pool_inv MPF mpfcb (\<lambda>c. mpfatr (p_mpfinib c)) free_mpfcb mpf_ok (tnum_smpf cfg) (tnum_mpf cfg) s"

lemma wobjatr_mpfcb [simp]:
  "mpfatr (p_mpfinib c) = mpf_atr s i \<Longrightarrow> wobjatr (s\<lparr>mpfcb := (mpfcb s)(i := c)\<rparr>) = wobjatr s"
  "wobjatr (s\<lparr>free_mpfcb := l\<rparr>) = wobjatr s"
  by (rule ext, simp add: wobjatr_def split: wobj.split)+

lemma wobjatr_mpf_other: "w \<noteq> MPF i \<Longrightarrow> wobjatr (s\<lparr>mpfcb := (mpfcb s)(i := c)\<rparr>) w = wobjatr s w"
  by (simp add: wobjatr_def split: wobj.split)

text \<open>A block is taken; the running task waits for one.\<close>

lemma mpf_get_ok:
  assumes "kinv s" and "mpf_inv cfg s" and "mpf_atr s i \<noteq> TA_NOEXS" and "fblkcnt (mpfcb s i) > 0"
    and "s' = upd_mpf i (\<lambda>c. snd (get_mpf_block c)) s"
  shows "kinv s' \<and> mpf_inv cfg s'"
proof -
  note l = mpf.local[OF assms(2,3)]
  have b: "mpf_blocks_ok (mpfcb s i)" using l by (simp add: mpf_ok_def)
  obtain n c' where g: "get_mpf_block (mpfcb s i) = (mpf (p_mpfinib (mpfcb s i)) + blksz (p_mpfinib (mpfcb s i)) * n, c')"
    "mpf_blocks_ok c'" "p_mpfinib c' = p_mpfinib (mpfcb s i)" by (rule get_mpf_block_ok[OF b assms(4)])
  then show ?thesis
    using mpf.inv_cb[OF assms(1-3), of s'] l assms(4) by (simp add: assms(5) same_tasks_def mpf_ok_def)
qed

lemma mpf_block_ok:
  assumes "kinv s" and "mpf_inv cfg s" and "mpf_atr s i \<noteq> TA_NOEXS" and "fblkcnt (mpfcb s i) = 0" and "p_runtsk s = Some p"
    and "s' = wobj_make_wait_tmout (MPF i) tmout (set_tstat p (TS_WAITING OR TS_WAIT_MPF) s)"
  shows "kinv (dispatch s') \<and> mpf_inv cfg s'"
  using mpf.inv_block[OF assms(1-3,5) _ _ refl, of TS_WAIT_MPF "\<lambda>w. w" tmout] mpf.local[OF assms(2,3)] assms(4,6)
  by (simp add: mpf_ok_def)

lemma mpf_get_inv:
  assumes "kinv s" and "mpf_inv cfg s" and "p_runtsk s = Some p"
  shows "kinv (snd (get_mpf cfg mpfid s)) \<and> mpf_inv cfg (snd (get_mpf cfg mpfid s))"
    and "kinv (snd (pget_mpf cfg mpfid s)) \<and> mpf_inv cfg (snd (pget_mpf cfg mpfid s))"
    and "kinv (snd (tget_mpf cfg mpfid tmout s)) \<and> mpf_inv cfg (snd (tget_mpf cfg mpfid tmout s))"
    and "kinv (snd (ref_mpf cfg mpfid s)) \<and> mpf_inv cfg (snd (ref_mpf cfg mpfid s))"
proof -
  let ?s = "t_lock_cpu s" and ?i = "INDEX_MPF mpfid"
  have t: "kinv ?s" "mpf_inv cfg ?s" "p_runtsk ?s = Some p" using assms by simp_all
  note g = mpf_get_ok[OF t(1,2) _ _ refl, of ?i] and b = mpf_block_ok[OF t(1,2) _ _ t(3) refl, of ?i]
  show "kinv (snd (get_mpf cfg mpfid s)) \<and> mpf_inv cfg (snd (get_mpf cfg mpfid s))"
    "kinv (snd (pget_mpf cfg mpfid s)) \<and> mpf_inv cfg (snd (pget_mpf cfg mpfid s))"
    "kinv (snd (tget_mpf cfg mpfid tmout s)) \<and> mpf_inv cfg (snd (tget_mpf cfg mpfid tmout s))"
    "kinv (snd (ref_mpf cfg mpfid s)) \<and> mpf_inv cfg (snd (ref_mpf cfg mpfid s))"
    using assms g b[where tmout = TMO_FEVR] b[where tmout = tmout] t(3)
    by (auto simp: get_mpf_def pget_mpf_def tget_mpf_def ref_mpf_def wobj_make_wait_eq Let_def case_prod_beta
        intro!: mpf.both_call)
qed

text \<open>\<open>rel_mpf\<close> accepts the address of an allocated block, and only this.\<close>

definition blk_address :: "MPFINIB \<Rightarrow> nat \<Rightarrow> nat" where
  "blk_address ini n = mpf ini + blksz ini * n"

text \<open>The pool is within the address space.\<close>

definition pool_in_memory :: "MPFINIB \<Rightarrow> bool" where
  "pool_in_memory ini \<longleftrightarrow> 0 < blksz ini \<and> mpf ini + blksz ini * blkcnt ini \<le> 2 ^ 32"

lemma rel_offset:
  assumes "pool_in_memory ini" and "blk < 2 ^ 32" and "off = nat ((int blk - int (mpf ini)) mod 2 ^ 32)"
  shows "mpf ini \<le> blk \<and> off mod blksz ini = 0 \<and> off div blksz ini = n \<longleftrightarrow> blk = blk_address ini n" (is ?t)
proof -
  have z: "0 < blksz ini" using assms(1) by (simp add: pool_in_memory_def)
  have o: "off = blk - mpf ini" if "mpf ini \<le> blk"
  proof -
    have d: "int blk - int (mpf ini) = int (blk - mpf ini)" using that by (simp only: of_nat_diff)
    have "(blk - mpf ini) mod 2 ^ 32 = blk - mpf ini"
      by (rule mod_less) (rule le_less_trans[OF diff_le_self assms(2)])
    moreover have "nat (int (blk - mpf ini) mod 2 ^ 32) = (blk - mpf ini) mod 2 ^ 32"
      by (metis nat_int of_nat_mod of_nat_numeral of_nat_power)
    ultimately show ?thesis by (simp only: assms(3) d)
  qed
  show ?t
  proof
    assume a: "mpf ini \<le> blk \<and> off mod blksz ini = 0 \<and> off div blksz ini = n"
    then have "off = blksz ini * n" by (metis mult_div_mod_eq add_0_right)
    then have "blk - mpf ini = blksz ini * n" using o a by simp
    then show "blk = blk_address ini n" using a unfolding blk_address_def by linarith
  next
    assume a: "blk = blk_address ini n"
    then have "mpf ini \<le> blk" by (simp add: blk_address_def)
    then show "mpf ini \<le> blk \<and> off mod blksz ini = 0 \<and> off div blksz ini = n"
      using o a z by (simp add: blk_address_def)
  qed
qed

text \<open>What \<open>rel_mpf\<close> does with the CPU locked, as a case distinction on the block.\<close>

definition rel_body :: "nat \<Rightarrow> nat \<Rightarrow> kernel \<Rightarrow> result \<times> kernel" where
  "rel_body i blk s =
    (let ini = p_mpfinib (mpfcb s i); blkoffset = nat ((int blk - int (mpf ini)) mod 2 ^ 32); n = blkoffset div blksz ini
     in if \<not> (mpf ini \<le> blk \<and> blkoffset mod blksz ini = 0 \<and> n \<in> mpf_alloc (mpfcb s i)) then (Ret E_PAR, s)
        else (case queues s (WaitQ (MPF i)) of
            p # ps \<Rightarrow> (Ret E_OK, dispatch_if (wait_complete p
              (upd_winfo p (\<lambda>w. w\<lparr>w_blk := blk\<rparr>) (s\<lparr>queues := (queues s)(WaitQ (MPF i) := ps)\<rparr>))))
          | [] \<Rightarrow> (Ret E_OK, upd_mpf i (\<lambda>c. c\<lparr>fblkcnt := fblkcnt c + 1,
              mpfmb := (mpfmb c)(n := mpf_freelist c), mpf_freelist := Some n\<rparr>) s)))"

lemma rel_mpf_body:
  "rel_mpf cfg mpfid blk s =
    (if \<not> CHECK_TSKCTX_UNL s then (Ret E_CTX, s)
     else if \<not> VALID_MPFID cfg mpfid then (Ret E_ID, s)
     else tsk_call (\<lambda>s. if mpf_atr s (INDEX_MPF mpfid) = TA_NOEXS then (Ret E_NOEXS, s)
       else rel_body (INDEX_MPF mpfid) blk s) s)"
  by (auto simp: rel_mpf_def tsk_call_def rel_body_def mpf_alloc_def Let_def q_empty_def q_delete_next_def
      split: list.split)

lemma rel_body_ok:
  assumes "kinv s" and "mpf_inv cfg s" and "mpf_atr s i \<noteq> TA_NOEXS" and "(r, s') = rel_body i blk s"
  shows "kinv s' \<and> mpf_inv cfg s'"
proof -
  note l = mpf.local[OF assms(2,3)]
  have b: "mpf_blocks_ok (mpfcb s i)" using l by (simp add: mpf_ok_def)
  define off where "off = nat ((int blk - int (mpf (p_mpfinib (mpfcb s i)))) mod 2 ^ 32)"
  define n where "n = off div blksz (p_mpfinib (mpfcb s i))"
  show ?thesis
  proof (cases "mpf (p_mpfinib (mpfcb s i)) \<le> blk \<and> off mod blksz (p_mpfinib (mpfcb s i)) = 0 \<and> n \<in> mpf_alloc (mpfcb s i)")
    case False
    then show ?thesis using assms by (simp add: rel_body_def Let_def n_def off_def split: if_splits)
  next
    case True
    show ?thesis
    proof (cases "queues s (WaitQ (MPF i))")
      case (Cons p ps)
      let ?g = "\<lambda>w. w\<lparr>w_blk := blk\<rparr>"
      define q where "q = wait_complete p (upd_winfo p ?g (s\<lparr>queues := (queues s)(WaitQ (MPF i) := ps)\<rparr>))"
      have "s' = dispatch_if q" using assms(4) True Cons by (simp add: rel_body_def Let_def n_def off_def q_def)
      moreover have "op_ok s q \<and> mpf_inv cfg (snd q)"
        using mpf.inv_wake[where g = ?g and ?s1.0 = s, OF assms(1-3) _ _ _ _ disjI1[OF refl] Cons _ q_def] l Cons
        by (simp add: same_tasks_def mpf_ok_def)
      ultimately show ?thesis using op_ok_dispatch_if[OF assms(1), of q] by simp
    next
      case Nil
      define c where "c = (mpfcb s i)\<lparr>fblkcnt := fblkcnt (mpfcb s i) + 1,
        mpfmb := (mpfmb (mpfcb s i))(n := mpf_freelist (mpfcb s i)), mpf_freelist := Some n\<rparr>"
      have s': "s' = upd_mpf i (\<lambda>_. c) s" using assms(4) True Nil by (simp add: rel_body_def Let_def n_def off_def c_def)
      have "mpf_blocks_ok c" using put_mpf_block_ok(1)[OF b _ c_def] True by blast
      then show ?thesis
        using mpf.inv_cb[OF assms(1-3), of s'] l Nil by (simp add: s' same_tasks_def mpf_ok_def) (simp add: c_def)
    qed
  qed
qed

lemma mpf_rel_inv:
  assumes "kinv s" and "mpf_inv cfg s"
  shows "kinv (snd (rel_mpf cfg mpfid blk s)) \<and> mpf_inv cfg (snd (rel_mpf cfg mpfid blk s))"
proof -
  have t: "kinv (t_lock_cpu s)" "mpf_inv cfg (t_lock_cpu s)" using assms by simp_all
  show ?thesis
    using assms rel_body_ok[OF t _ prod.collapse, of "INDEX_MPF mpfid" blk] by (auto simp: rel_mpf_body intro!: mpf.both_call)
qed

lemma mpf_reset_ok:
  "mpf_cnt c < 0xFFFFFFFF \<Longrightarrow> mpf_blocks_ok (c\<lparr>fblkcnt := mpf_cnt c, mpf_unused := 0, mpf_freelist := None\<rparr>)"
  by (rule mpf_blocks_okI[where fs = "[]"]) (simp_all add: mpf_alloc_def)

lemma mpf_init_inv:
  assumes "kinv s" and "mpf_inv cfg s"
  shows "kinv (snd (ini_mpf cfg mpfid s)) \<and> mpf_inv cfg (snd (ini_mpf cfg mpfid s))"
    and "kinv (snd (del_mpf cfg mpfid s)) \<and> mpf_inv cfg (snd (del_mpf cfg mpfid s))"
proof -
  let ?s = "t_lock_cpu s" and ?i = "INDEX_MPF mpfid"
  have t: "kinv ?s" "mpf_inv cfg ?s" using assms by simp_all
  define r where "r = init_wait_queue (WaitQ (MPF ?i)) ?s"
  note n = init_wait_queue_obj[OF kinvD(2)[OF t(1)] r_def]
  note f = objectsD(20,21)[OF n(5)]
  have a: "wobjatr (snd r) = wobjatr ?s" using wobjatr_objects[OF n(5)] .
  have b: "kinv (dispatch_if (fst r, s')) \<and> mpf_inv cfg s'"
    if e: "mpf_atr ?s ?i \<noteq> TA_NOEXS" and s': "same_tasks (snd r) s'" "\<And>j. j \<noteq> ?i \<Longrightarrow> mpfcb s' j = mpfcb ?s j"
      "\<And>w. w \<noteq> MPF ?i \<Longrightarrow> wobjatr s' w = wobjatr ?s w"
      "free_mpfcb s' = free_mpfcb ?s \<and> mpf_atr s' ?i \<noteq> TA_NOEXS \<and> mpf_blocks_ok (mpfcb s' ?i) \<or>
       free_mpfcb s' = free_mpfcb ?s @ [?i] \<and> mpf_atr s' ?i = TA_NOEXS \<and> tnum_smpf cfg \<le> ?i \<and> ?i < tnum_mpf cfg" for s'
  proof -
    have rq: "queues (snd r) (RWaitQ (MPF ?i)) = []" using n(3) mpf.local[OF t(2) e] by (simp add: mpf_ok_def)
    show ?thesis using mpf.inv_init[OF t e n(1,5,2) rq n(4) s'(1-3)] s'(4) by (auto simp: mpf_ok_def)
  qed
  let ?g1 = "\<lambda>c. c\<lparr>fblkcnt := mpf_cnt c, mpf_unused := 0, mpf_freelist := None\<rparr>"
  let ?s1 = "upd_mpf ?i ?g1 (snd r)"
  have "kinv (dispatch_if (fst r, ?s1)) \<and> mpf_inv cfg ?s1" if e: "mpf_atr ?s ?i \<noteq> TA_NOEXS"
  proof (rule b[OF e])
    have "mpf_blocks_ok (mpfcb ?s ?i)" using mpf.local[OF t(2) e] by (simp add: mpf_ok_def)
    then show "free_mpfcb ?s1 = free_mpfcb ?s \<and> mpf_atr ?s1 ?i \<noteq> TA_NOEXS \<and> mpf_blocks_ok (mpfcb ?s1 ?i) \<or>
       free_mpfcb ?s1 = free_mpfcb ?s @ [?i] \<and> mpf_atr ?s1 ?i = TA_NOEXS \<and> tnum_smpf cfg \<le> ?i \<and> ?i < tnum_mpf cfg"
      using e f mpf_reset_ok[of "mpfcb ?s ?i"] mpf_blocks_okD(5)[of "mpfcb ?s ?i"] by simp
    show "wobjatr ?s1 w = wobjatr ?s w" for w using a by simp
  qed (simp_all add: f same_tasks_def)
  then show "kinv (snd (ini_mpf cfg mpfid s)) \<and> mpf_inv cfg (snd (ini_mpf cfg mpfid s))"
    using assms by (auto simp: ini_mpf_def Let_def case_prod_beta r_def intro!: mpf.both_call)
  let ?g2 = "\<lambda>c. c\<lparr>p_mpfinib := (p_mpfinib c)\<lparr>mpfatr := TA_NOEXS\<rparr>\<rparr>"
  let ?s2 = "(upd_mpf ?i ?g2 (snd r))\<lparr>free_mpfcb := free_mpfcb (snd r) @ [?i]\<rparr>"
  have "kinv (dispatch_if (fst r, ?s2)) \<and> mpf_inv cfg ?s2"
    if e: "mpf_atr ?s ?i \<noteq> TA_NOEXS" and i: "tnum_smpf cfg \<le> ?i" "?i < tnum_mpf cfg"
  proof (rule b[OF e])
    show "wobjatr ?s2 w = wobjatr ?s w" if "w \<noteq> MPF ?i" for w using that a by (simp add: wobjatr_mpf_other)
  qed (use i in \<open>simp_all add: f same_tasks_def\<close>)
  moreover have "tnum_smpf cfg \<le> ?i \<and> ?i < tnum_mpf cfg" if "VALID_MPFID cfg mpfid" "MPFID ?i > tmax_smpfid cfg"
    using that by (auto simp: VALID_MPFID_def MPFID_def INDEX_MPF_def tnum_mpf_def tnum_smpf_def)
  ultimately show "kinv (snd (del_mpf cfg mpfid s)) \<and> mpf_inv cfg (snd (del_mpf cfg mpfid s))"
    using assms by (auto simp: del_mpf_def Let_def case_prod_beta kernel_free_def r_def intro!: mpf.both_call)
qed

text \<open>Creation; memory that was allocated before the creation fails is not given back.\<close>

lemma kernel_malloc_brk: "\<exists>p b. kernel_malloc cfg n s = (p, s\<lparr>kmm_brk := b\<rparr>)"
  using kernel_malloc_eq(1)[OF refl refl] by blast

lemma mpf_inv_brk: "kinv s \<Longrightarrow> mpf_inv cfg s \<Longrightarrow> kinv (s\<lparr>kmm_brk := b\<rparr>) \<and> mpf_inv cfg (s\<lparr>kmm_brk := b\<rparr>)"
proof -
  assume a: "kinv s" "mpf_inv cfg s"
  have "wobjatr (s\<lparr>kmm_brk := b\<rparr>) = wobjatr s" by (rule ext) (simp add: wobjatr_def split: wobj.split)
  then show ?thesis
    using a same_tasks_kinv(1)[of s "s\<lparr>kmm_brk := b\<rparr>"] pool_inv_cong[of "s\<lparr>kmm_brk := b\<rparr>" s mpfcb free_mpfcb]
    by (simp add: same_tasks_def)
qed

definition mpf_created :: "T_CMPF \<Rightarrow> ATR \<Rightarrow> nat \<Rightarrow> nat option \<Rightarrow> MPFCB \<Rightarrow> MPFCB" where
  "mpf_created pk atr pool mb c = c\<lparr>p_mpfinib := (p_mpfinib c)\<lparr>mpfatr := atr, blkcnt := cmpf_blkcnt pk,
     blksz := ROUND_MPF_T (cmpf_blksz pk), mpf := pool, p_mpfmb := mb\<rparr>,
     fblkcnt := cmpf_blkcnt pk, mpf_unused := 0, mpf_freelist := None\<rparr>"

lemma acre_mpf_cases:
  assumes "t = t_lock_cpu s" and "i = hd (free_mpfcb t)" and "s' = snd (acre_mpf cfg pk s)"
  obtains "s' = s" | b where "s' = t_unlock_cpu (t\<lparr>kmm_brk := b\<rparr>)"
  | b atr pool mb where "s' = t_unlock_cpu (t\<lparr>kmm_brk := b, free_mpfcb := tl (free_mpfcb t),
        queues := (queues t)(WaitQ (MPF i) := []), mpfcb := (mpfcb t)(i := mpf_created pk atr pool mb (mpfcb t i))\<rparr>)"
    and "free_mpfcb t \<noteq> []" and "atr \<noteq> TA_NOEXS"
proof (cases "CHECK_TSKCTX_UNL s \<and> CHECK_RSATR (cmpf_mpfatr pk) TA_TPRI \<and> cmpf_blkcnt pk \<noteq> 0 \<and> cmpf_blksz pk \<noteq> 0 \<and>
    \<not> (case cmpf_mpf pk of Some m \<Rightarrow> \<not> MPF_ALIGNED m | None \<Rightarrow> False) \<and>
    \<not> (case cmpf_mpfmb pk of Some mb \<Rightarrow> \<not> MB_ALIGNED mb | None \<Rightarrow> False)")
  case False
  then have "s' = s" by (auto simp: assms(3) acre_mpf_def)
  then show ?thesis by (rule that(1))
next
  case ok: True
  have b0: "t = t\<lparr>kmm_brk := kmm_brk t\<rparr>" by simp
  show ?thesis
  proof (cases "tnum_mpf cfg = 0 \<or> free_mpfcb t = []")
    case True
    then have "s' = t_unlock_cpu t" using ok by (simp add: assms(1,3) acre_mpf_def tsk_call_def)
    then show ?thesis using that(2) b0 by metis
  next
    case room: False
    define m1 where "m1 = (if cmpf_mpf pk = None
      then kernel_malloc cfg (SIZE_of (ROUND_MPF_T (cmpf_blksz pk) * cmpf_blkcnt pk)) t else (cmpf_mpf pk, t))"
    define a1 where "a1 = (if cmpf_mpf pk = None then cmpf_mpfatr pk OR TA_MEMALLOC else cmpf_mpfatr pk)"
    obtain pool b1 where m1: "m1 = (pool, t\<lparr>kmm_brk := b1\<rparr>)"
      unfolding m1_def using kernel_malloc_brk[of cfg _ t] b0 by (metis (full_types))
    define m2 where "m2 = (if cmpf_mpfmb pk = None
      then kernel_malloc cfg (SIZE_of (4 * cmpf_blkcnt pk)) (t\<lparr>kmm_brk := b1\<rparr>) else (cmpf_mpfmb pk, t\<lparr>kmm_brk := b1\<rparr>))"
    define a2 where "a2 = (if cmpf_mpfmb pk = None then a1 OR TA_MBALLOC else a1)"
    have "\<exists>p b. m2 = (p, t\<lparr>kmm_brk := b\<rparr>)"
      using kernel_malloc_brk[of cfg "SIZE_of (4 * cmpf_blkcnt pk)" "t\<lparr>kmm_brk := b1\<rparr>"] by (auto simp: m2_def)
    then obtain mb b2 where m2: "m2 = (mb, t\<lparr>kmm_brk := b2\<rparr>)" by blast
    have a2: "a2 \<noteq> TA_NOEXS" using ok rsatr_exists[of "cmpf_mpfatr pk" TA_TPRI] by (simp add: a2_def a1_def)
    have e1: "(if cmpf_mpf pk = None
        then (let (m, s) = kernel_malloc cfg (SIZE_of (ROUND_MPF_T (cmpf_blksz pk) * cmpf_blkcnt pk)) t
              in (cmpf_mpfatr pk OR TA_MEMALLOC, m, s))
        else (cmpf_mpfatr pk, cmpf_mpf pk, t)) = (a1, fst m1, snd m1)"
      by (simp add: m1_def a1_def case_prod_beta)
    have e2: "(if cmpf_mpfmb pk = None
        then (let (mb, s) = kernel_malloc cfg (SIZE_of (4 * cmpf_blkcnt pk)) (t\<lparr>kmm_brk := b1\<rparr>) in (a1 OR TA_MBALLOC, mb, s))
        else (a1, cmpf_mpfmb pk, t\<lparr>kmm_brk := b1\<rparr>)) = (a2, fst m2, snd m2)"
      by (simp add: m2_def a2_def case_prod_beta)
    note e = e1[unfolded m1 fst_conv snd_conv] e2[unfolded m2 fst_conv snd_conv]
    show ?thesis
    proof (cases "pool = None \<or> mb = None")
      case True
      then have "s' = t_unlock_cpu (t\<lparr>kmm_brk := b1\<rparr>) \<or> s' = t_unlock_cpu (t\<lparr>kmm_brk := b2\<rparr>)"
        unfolding assms(3) acre_mpf_def tsk_call_def assms(1)[symmetric] using ok room
        by (auto simp: e kernel_free_def simp del: if_split)
      then show ?thesis using that(2) by blast
    next
      case False
      then obtain po m where pm: "pool = Some po" "mb = Some m" by auto
      have "s' = t_unlock_cpu (t\<lparr>kmm_brk := b2, free_mpfcb := tl (free_mpfcb t),
          queues := (queues t)(WaitQ (MPF i) := []), mpfcb := (mpfcb t)(i := mpf_created pk a2 (the pool) mb (mpfcb t i))\<rparr>)"
        unfolding assms(2,3) acre_mpf_def tsk_call_def assms(1)[symmetric] using ok room pm
        by (simp add: e Let_def q_initialize_def mpf_created_def del: if_split)
      then show ?thesis using that(3) room a2 by blast
    qed
  qed
qed

lemma mpf_create_inv:
  assumes "kinv s" and "mpf_inv cfg s" and "cmpf_blkcnt pk < 0xFFFFFFFF"
  shows "kinv (snd (acre_mpf cfg pk s)) \<and> mpf_inv cfg (snd (acre_mpf cfg pk s))"
proof -
  let ?s = "t_lock_cpu s" and ?i = "hd (free_mpfcb (t_lock_cpu s))"
  have t: "kinv ?s" "mpf_inv cfg ?s" using assms by simp_all
  show ?thesis
  proof (rule acre_mpf_cases[OF refl refl refl, of cfg pk s])
    assume "snd (acre_mpf cfg pk s) = s"
    then show ?thesis using assms by simp
  next
    fix b assume "snd (acre_mpf cfg pk s) = t_unlock_cpu (?s\<lparr>kmm_brk := b\<rparr>)"
    then show ?thesis using mpf_inv_brk[OF t] by simp
  next
    fix b atr pool mb
    define s1 where "s1 = ?s\<lparr>kmm_brk := b, free_mpfcb := tl (free_mpfcb ?s), queues := (queues ?s)(WaitQ (MPF ?i) := []),
      mpfcb := (mpfcb ?s)(?i := mpf_created pk atr pool mb (mpfcb ?s ?i))\<rparr>"
    assume e: "snd (acre_mpf cfg pk s) = t_unlock_cpu (?s\<lparr>kmm_brk := b, free_mpfcb := tl (free_mpfcb ?s),
        queues := (queues ?s)(WaitQ (MPF ?i) := []), mpfcb := (mpfcb ?s)(?i := mpf_created pk atr pool mb (mpfcb ?s ?i))\<rparr>)"
      and f: "free_mpfcb ?s \<noteq> []" and a: "atr \<noteq> TA_NOEXS"
    have fr: "free_mpfcb ?s = ?i # tl (free_mpfcb ?s)" using f by simp
    have q: "queues ?s (WaitQ (MPF ?i)) = []" using pool_invD(2,4)[OF t(2), of ?i] f by simp
    have "kinv s1" by (rule mpf.kinv_create[OF t(1,2) fr])
        (use q in \<open>auto simp: s1_def same_tasks_def fun_upd_idem wobjatr_def split: wobj.split\<close>)
    moreover have "mpf_blocks_ok (mpf_created pk atr pool mb (mpfcb ?s ?i))"
      by (rule mpf_blocks_okI[where fs = "[]"]) (use assms(3) in \<open>simp_all add: mpf_created_def mpf_alloc_def\<close>)
    then have "mpf_inv cfg s1"
      by (intro mpf.inv_create[OF t(2) fr, of s1 "mpf_created pk atr pool mb (mpfcb ?s ?i)"])
        (use q a in \<open>simp_all add: s1_def fun_upd_idem mpf_ok_def\<close>, simp add: mpf_created_def)
    ultimately show ?thesis by (simp add: e s1_def)
  qed
qed

section \<open>Properties\<close>

lemma mpf_inv_run_kernel: "mpf_inv sample_cfg run_kernel"
  by (simp add: pool_inv_def mpf_ok_def run_kernel_sel run_kernel_objects)
    (simp add: idle_kernel_def mpf_blocks_ok_def mpf_free_def mpf_alloc_def)

text \<open>
  C35: every service call on memory pools, on every branch, keeps the kernel invariant and the invariant
  of the pools: the free list has no cycle, every block used so far is either in it or marked as
  allocated, the counter of free blocks is right, and tasks wait only when there is no free block.
\<close>

theorem mempfix_calls_keep_inv:
  assumes "kinv s" and "mpf_inv cfg s" and "p_runtsk s = Some p" and "cmpf_blkcnt pk < 0xFFFFFFFF"
  shows "\<forall>s' \<in> {snd (acre_mpf cfg pk s), snd (del_mpf cfg mpfid s), snd (get_mpf cfg mpfid s),
      snd (pget_mpf cfg mpfid s), snd (tget_mpf cfg mpfid tmout s), snd (rel_mpf cfg mpfid blk s),
      snd (ini_mpf cfg mpfid s), snd (ref_mpf cfg mpfid s)}. kinv s' \<and> mpf_inv cfg s'"
  using mpf_create_inv[OF assms(1,2,4)] mpf_init_inv[OF assms(1,2)] mpf_get_inv[OF assms(1-3)] mpf_rel_inv[OF assms(1,2)]
  by simp

theorem mempfix_calls_keep_inv_witness:
  "mpf_inv sample_cfg (snd (tget_mpf sample_cfg 1 5 run_kernel))"
  using mempfix_calls_keep_inv[OF kinv_run_kernel mpf_inv_run_kernel run_kernel_sel(3),
      of "\<lparr>cmpf_mpfatr = 0, cmpf_blkcnt = 1, cmpf_blksz = 4, cmpf_mpf = None, cmpf_mpfmb = None\<rparr>"] by simp


lemma run_kernel_mpf:
  "mpfcb run_kernel 0 = \<lparr>p_mpfinib = \<lparr>mpfatr = TA_NULL, blkcnt = 2, blksz = 16, mpf = 0, p_mpfmb = Some 0\<rparr>,
    fblkcnt = 2, mpf_unused = 0, mpf_freelist = None, mpfmb = (\<lambda>_. None)\<rparr>"
  by (simp add: run_kernel_objects) (simp add: idle_kernel_def)

lemma run_kernel_mpf_call:
  "CHECK_TSKCTX_UNL run_kernel" "VALID_MPFID sample_cfg 1" "0 = INDEX_MPF 1" "mpf_atr run_kernel 0 \<noteq> TA_NOEXS"
  "mpf_alloc (mpfcb run_kernel 0) = {}"
  by (simp_all add: CHECK_TSKCTX_UNL_def run_kernel_sel VALID_MPFID_def sample_cfg_def INDEX_MPF_def run_kernel_mpf mpf_alloc_def)


text \<open>
  C37: \<open>rel_mpf\<close> refuses every address that is not that of an allocated block with \<open>E_PAR\<close> and
  changes nothing: blocks released twice, addresses inside a block or outside the pool. An
  allocated block becomes free, or goes to the first waiting task and stays allocated.
\<close>

theorem rel_mpf_only_allocated:
  assumes "kinv s" and "mpf_inv cfg s" and "CHECK_TSKCTX_UNL s" and "VALID_MPFID cfg mpfid"
    and "i = INDEX_MPF mpfid" and "mpf_atr s i \<noteq> TA_NOEXS" and "(r, s') = rel_mpf cfg mpfid blk s"
    and "pool_in_memory (p_mpfinib (mpfcb s i))" and "blk < 2 ^ 32"
  shows "if blk \<notin> blk_address (p_mpfinib (mpfcb s i)) ` mpf_alloc (mpfcb s i)
    then r = Ret E_PAR \<and> mpfcb s' = mpfcb s \<and> tcb s' = tcb s \<and> queues s' = queues s
    else r = Ret E_OK \<and> (case queues s (WaitQ (MPF i)) of
        [] \<Rightarrow> \<exists>n \<in> mpf_alloc (mpfcb s i). blk = blk_address (p_mpfinib (mpfcb s i)) n \<and>
                mpf_alloc (mpfcb s' i) = mpf_alloc (mpfcb s i) - {n} \<and> fblkcnt (mpfcb s' i) = fblkcnt (mpfcb s i) + 1
      | p # ps \<Rightarrow> mpfcb s' = mpfcb s \<and> w_blk (winfos s' p) = blk \<and> result_of (Wait_ercd p) s' = Some E_OK)"
proof -
  let ?s = "t_lock_cpu s" and ?ini = "p_mpfinib (mpfcb s i)"
  define off where "off = nat ((int blk - int (mpf ?ini)) mod 2 ^ 32)"
  define n where "n = off div blksz ?ini"
  have b: "mpf_blocks_ok (mpfcb s i)" using mpf.local[OF assms(2), of i] assms(6) by (simp add: mpf_ok_def)
  have e: "(r, s') = (fst (rel_body i blk ?s), t_unlock_cpu (snd (rel_body i blk ?s)))"
    using assms(3-7) by (simp add: rel_mpf_body tsk_call_def case_prod_beta lock_objects)
  note ro = rel_offset[OF assms(8,9) off_def]
  have c: "mpf ?ini \<le> blk \<and> off mod blksz ?ini = 0 \<and> n \<in> mpf_alloc (mpfcb s i) \<longleftrightarrow>
      blk \<in> blk_address ?ini ` mpf_alloc (mpfcb s i)"
  proof
    assume a: "mpf ?ini \<le> blk \<and> off mod blksz ?ini = 0 \<and> n \<in> mpf_alloc (mpfcb s i)"
    then have "blk = blk_address ?ini n" using ro[of n] by (simp only: n_def simp_thms)
    then show "blk \<in> blk_address ?ini ` mpf_alloc (mpfcb s i)" using a by blast
  next
    assume "blk \<in> blk_address ?ini ` mpf_alloc (mpfcb s i)"
    then obtain k where k: "k \<in> mpf_alloc (mpfcb s i)" "blk = blk_address ?ini k" by blast
    then show "mpf ?ini \<le> blk \<and> off mod blksz ?ini = 0 \<and> n \<in> mpf_alloc (mpfcb s i)"
      using ro[of k] unfolding n_def by blast
  qed
  show ?thesis
  proof (cases "blk \<in> blk_address ?ini ` mpf_alloc (mpfcb s i)")
    case False
    then show ?thesis using e c by (simp add: rel_body_def Let_def lock_objects lock_sel off_def n_def)
  next
    case True
    then have a: "mpf ?ini \<le> blk" "off mod blksz ?ini = 0" "n \<in> mpf_alloc (mpfcb s i)" using c by blast+
    have a4: "blk = blk_address ?ini n" by (rule iffD1[OF ro]) (intro conjI a(1,2) n_def[symmetric])
    have rb: "rel_body i blk ?s = (case queues s (WaitQ (MPF i)) of
        p # ps \<Rightarrow> (Ret E_OK, dispatch_if (wait_complete p
          (upd_winfo p (\<lambda>w. w\<lparr>w_blk := blk\<rparr>) (?s\<lparr>queues := (queues ?s)(WaitQ (MPF i) := ps)\<rparr>))))
      | [] \<Rightarrow> (Ret E_OK, upd_mpf i (\<lambda>c. c\<lparr>fblkcnt := fblkcnt c + 1,
          mpfmb := (mpfmb c)(n := mpf_freelist c), mpf_freelist := Some n\<rparr>) ?s))"
      unfolding rel_body_def Let_def lock_objects lock_sel off_def[symmetric] n_def[symmetric] using a(1-3) by (simp only: simp_thms if_False)
    show ?thesis
    proof (cases "queues s (WaitQ (MPF i))")
      case Nil
      then have r: "r = Ret E_OK" and m: "mpfcb s' i = (mpfcb s i)\<lparr>fblkcnt := fblkcnt (mpfcb s i) + 1,
          mpfmb := (mpfmb (mpfcb s i))(n := mpf_freelist (mpfcb s i)), mpf_freelist := Some n\<rparr>"
        using e by (simp_all add: rb lock_objects)
      have f: "mpf_alloc (mpfcb s' i) = mpf_alloc (mpfcb s i) - {n}" "fblkcnt (mpfcb s' i) = fblkcnt (mpfcb s i) + 1"
        by (rule put_mpf_block_ok(2,3)[OF b a(3) m])+
      have "\<exists>k \<in> mpf_alloc (mpfcb s i). blk = blk_address ?ini k \<and>
          mpf_alloc (mpfcb s' i) = mpf_alloc (mpfcb s i) - {k} \<and> fblkcnt (mpfcb s' i) = fblkcnt (mpfcb s i) + 1"
        by (rule bexI[OF _ a(3)]) (intro conjI a4 f)
      then show ?thesis using True r Nil by (simp only: list.case simp_thms if_False not_not)
    next
      case (Cons p ps)
      define q where "q = wait_complete p (upd_winfo p (\<lambda>w. w\<lparr>w_blk := blk\<rparr>) (?s\<lparr>queues := (queues ?s)(WaitQ (MPF i) := ps)\<rparr>))"
      have s': "r = Ret E_OK" "s' = t_unlock_cpu (dispatch_if q)"
        using e Cons by (simp_all add: rb q_def)
      have w: "winv ?s" using kinvD(2)[of ?s] assms(1) by simp
      note k = wake_obj[where g = "\<lambda>w. w\<lparr>w_blk := blk\<rparr>" and q = "WaitQ (MPF i)", OF w _ _ _ q_def]
      have "objects (snd q) = objects s" "winfos (snd q) p = (winfos s p)\<lparr>w_blk := blk, winfo := Wercd E_OK\<rparr>"
        using k(3,6) Cons by (simp_all add: lock_sel is_waitq_def)
      then show ?thesis
        using s' True Cons objectsD(20)[of "snd q" s]
        by (simp add: result_of_def lock_objects lock_sel) (simp add: dispatch_if_def dispatch_def)
    qed
  qed
qed

theorem rel_mpf_only_allocated_witness:
  "fst (rel_mpf sample_cfg 1 16 run_kernel) = Ret E_PAR"
proof -
  obtain r s' where e: "(r, s') = rel_mpf sample_cfg 1 16 run_kernel" by (metis surj_pair)
  have "r = Ret E_PAR"
    using rel_mpf_only_allocated[OF kinv_run_kernel mpf_inv_run_kernel run_kernel_mpf_call(1-4) e] run_kernel_mpf_call(5)
    by (simp add: run_kernel_mpf pool_in_memory_def)
  then show ?thesis by (simp add: e[symmetric])
qed

end
