(* ===== verification/Asp_Task_Sync.thy ===== *)
theory Asp_Task_Sync
  imports Asp_Object
begin

text \<open>
  Synchronisation that depends on the task only, \<^verbatim>\<open>kernel/task_sync.c\<close>: sleeping and wakeup, forced
  release from a wait, suspension and resumption, delay.
\<close>

section \<open>Operations\<close>

definition slp_tsk :: "kernel \<Rightarrow> result \<times> kernel" where
  "slp_tsk s =
    (if \<not> CHECK_DISPATCH s then (Ret E_CTX, s)
     else tsk_call (\<lambda>s.
       if wupque (tcb s (runtsk s)) then (Ret E_OK, upd_tcb (runtsk s) (\<lambda>t. t\<lparr>wupque := False\<rparr>) s)
       else (let s = set_tstat (runtsk s) (TS_WAITING OR TS_WAIT_SLP) s;
                 s = make_wait s
             in (Wait_ercd (runtsk s), dispatch s))) s)"

definition tslp_tsk :: "TMO \<Rightarrow> kernel \<Rightarrow> result \<times> kernel" where
  "tslp_tsk tmout s =
    (if \<not> CHECK_DISPATCH s then (Ret E_CTX, s)
     else if \<not> CHECK_TMOUT tmout then (Ret E_PAR, s)
     else tsk_call (\<lambda>s.
       if wupque (tcb s (runtsk s)) then (Ret E_OK, upd_tcb (runtsk s) (\<lambda>t. t\<lparr>wupque := False\<rparr>) s)
       else if tmout = TMO_POL then (Ret E_TMOUT, s)
       else (let s = set_tstat (runtsk s) (TS_WAITING OR TS_WAIT_SLP) s;
                 s = make_wait_tmout tmout s
             in (Wait_ercd (runtsk s), dispatch s))) s)"

definition wup_tsk :: "kernel_cfg \<Rightarrow> ID \<Rightarrow> kernel \<Rightarrow> result \<times> kernel" where
  "wup_tsk cfg tskid s =
    (if \<not> CHECK_TSKCTX_UNL s then (Ret E_CTX, s)
     else if \<not> CHECK_TSKID_SELF cfg tskid then (Ret E_ID, s)
     else let p_tcb = get_tcb_self tskid s in tsk_call (\<lambda>s.
       if tskatr (p_tinib (tcb s p_tcb)) = TA_NOEXS then (Ret E_NOEXS, s)
       else if TSTAT_DORMANT (tstat (tcb s p_tcb)) then (Ret E_OBJ, s)
       else if TSTAT_WAIT_SLP (tstat (tcb s p_tcb)) then (Ret E_OK, dispatch_if (wait_complete p_tcb s))
       else if \<not> wupque (tcb s p_tcb) then (Ret E_OK, upd_tcb p_tcb (\<lambda>t. t\<lparr>wupque := True\<rparr>) s)
       else (Ret E_QOVR, s)) s)"

definition iwup_tsk :: "kernel_cfg \<Rightarrow> ID \<Rightarrow> kernel \<Rightarrow> result \<times> kernel" where
  "iwup_tsk cfg tskid s =
    (if \<not> CHECK_INTCTX_UNL s then (Ret E_CTX, s)
     else if \<not> VALID_TSKID cfg tskid then (Ret E_ID, s)
     else let p_tcb = INDEX_TSK tskid in int_call (\<lambda>s.
       if tskatr (p_tinib (tcb s p_tcb)) = TA_NOEXS then (Ret E_NOEXS, s)
       else if TSTAT_DORMANT (tstat (tcb s p_tcb)) then (Ret E_OBJ, s)
       else if TSTAT_WAIT_SLP (tstat (tcb s p_tcb)) then (Ret E_OK, reqflg_if (wait_complete p_tcb s))
       else if \<not> wupque (tcb s p_tcb) then (Ret E_OK, upd_tcb p_tcb (\<lambda>t. t\<lparr>wupque := True\<rparr>) s)
       else (Ret E_QOVR, s)) s)"

definition can_wup :: "kernel_cfg \<Rightarrow> ID \<Rightarrow> kernel \<Rightarrow> result \<times> kernel" where
  "can_wup cfg tskid s =
    (if \<not> CHECK_TSKCTX_UNL s then (Ret E_CTX, s)
     else if \<not> CHECK_TSKID_SELF cfg tskid then (Ret E_ID, s)
     else let p_tcb = get_tcb_self tskid s in tsk_call (\<lambda>s.
       if tskatr (p_tinib (tcb s p_tcb)) = TA_NOEXS then (Ret E_NOEXS, s)
       else if TSTAT_DORMANT (tstat (tcb s p_tcb)) then (Ret E_OBJ, s)
       else (Ret (if wupque (tcb s p_tcb) then 1 else 0), upd_tcb p_tcb (\<lambda>t. t\<lparr>wupque := False\<rparr>) s)) s)"

definition rel_wai :: "kernel_cfg \<Rightarrow> ID \<Rightarrow> kernel \<Rightarrow> result \<times> kernel" where
  "rel_wai cfg tskid s =
    (if \<not> CHECK_TSKCTX_UNL s then (Ret E_CTX, s)
     else if \<not> VALID_TSKID cfg tskid then (Ret E_ID, s)
     else let p_tcb = INDEX_TSK tskid in tsk_call (\<lambda>s.
       if tskatr (p_tinib (tcb s p_tcb)) = TA_NOEXS then (Ret E_NOEXS, s)
       else if \<not> TSTAT_WAITING (tstat (tcb s p_tcb)) then (Ret E_OBJ, s)
       else (Ret E_OK, dispatch_if (wait_release p_tcb s))) s)"

definition irel_wai :: "kernel_cfg \<Rightarrow> ID \<Rightarrow> kernel \<Rightarrow> result \<times> kernel" where
  "irel_wai cfg tskid s =
    (if \<not> CHECK_INTCTX_UNL s then (Ret E_CTX, s)
     else if \<not> VALID_TSKID cfg tskid then (Ret E_ID, s)
     else let p_tcb = INDEX_TSK tskid in int_call (\<lambda>s.
       if tskatr (p_tinib (tcb s p_tcb)) = TA_NOEXS then (Ret E_NOEXS, s)
       else if \<not> TSTAT_WAITING (tstat (tcb s p_tcb)) then (Ret E_OBJ, s)
       else (Ret E_OK, reqflg_if (wait_release p_tcb s))) s)"

definition sus_tsk :: "kernel_cfg \<Rightarrow> ID \<Rightarrow> kernel \<Rightarrow> result \<times> kernel" where
  "sus_tsk cfg tskid s =
    (if \<not> CHECK_TSKCTX_UNL s then (Ret E_CTX, s)
     else if \<not> CHECK_TSKID_SELF cfg tskid then (Ret E_ID, s)
     else let p_tcb = get_tcb_self tskid s in tsk_call (\<lambda>s.
       if p_tcb = runtsk s \<and> \<not> dspflg s then (Ret E_CTX, s)
       else if tskatr (p_tinib (tcb s p_tcb)) = TA_NOEXS then (Ret E_NOEXS, s)
       else if TSTAT_DORMANT (tstat (tcb s p_tcb)) then (Ret E_OBJ, s)
       else if TSTAT_RUNNABLE (tstat (tcb s p_tcb))
       then (let s = set_tstat p_tcb TS_SUSPENDED s in (Ret E_OK, dispatch_if (make_non_runnable p_tcb s)))
       else if TSTAT_SUSPENDED (tstat (tcb s p_tcb)) then (Ret E_QOVR, s)
       else (Ret E_OK, upd_tcb p_tcb (\<lambda>t. t\<lparr>tstat := tstat t OR TS_SUSPENDED\<rparr>) s)) s)"

definition rsm_tsk :: "kernel_cfg \<Rightarrow> ID \<Rightarrow> kernel \<Rightarrow> result \<times> kernel" where
  "rsm_tsk cfg tskid s =
    (if \<not> CHECK_TSKCTX_UNL s then (Ret E_CTX, s)
     else if \<not> VALID_TSKID cfg tskid then (Ret E_ID, s)
     else let p_tcb = INDEX_TSK tskid in tsk_call (\<lambda>s.
       if tskatr (p_tinib (tcb s p_tcb)) = TA_NOEXS then (Ret E_NOEXS, s)
       else if \<not> TSTAT_SUSPENDED (tstat (tcb s p_tcb)) then (Ret E_OBJ, s)
       else if \<not> TSTAT_WAITING (tstat (tcb s p_tcb))
       then (let s = set_tstat p_tcb TS_RUNNABLE s in (Ret E_OK, dispatch_if (make_runnable p_tcb s)))
       else (Ret E_OK, upd_tcb p_tcb (\<lambda>t. t\<lparr>tstat := tstat t AND NOT TS_SUSPENDED\<rparr>) s)) s)"

definition dly_tsk :: "RELTIM \<Rightarrow> kernel \<Rightarrow> result \<times> kernel" where
  "dly_tsk dlytim s =
    (if \<not> CHECK_DISPATCH s then (Ret E_CTX, s)
     else if \<not> dlytim \<le> TMAX_RELTIM then (Ret E_PAR, s)
     else tsk_call (\<lambda>s.
       (let s = set_tstat (runtsk s) (TS_WAITING OR TS_WAIT_DLY) s;
            s = snd (make_non_runnable (runtsk s) s);
            b = TskTmevtb (runtsk s);
            s = upd_winfo (runtsk s) (\<lambda>w. w\<lparr>winfo := P_tmevtb (Some b)\<rparr>) s;
            s = upd_tme (tmevtb_enqueue b dlytim (Wait_tmout_ok (runtsk s))) s
        in (Wait_ercd (runtsk s), dispatch s))) s)"

section \<open>The calls keep the kernel invariant and touch no object\<close>

text \<open>
  The objects keep their control blocks, and their wait queues at most lose tasks. This is what the
  invariants of all kinds of objects survive (\<open>inv_other\<close> of the contract \<open>object_pool\<close>).
\<close>

definition task_step :: "kernel \<Rightarrow> kernel \<Rightarrow> bool" where
  "task_step s s' \<longleftrightarrow> kinv s' \<and> objects s' = objects s \<and> wait_sub {} s s'"

lemma task_step_refl: "kinv s \<Longrightarrow> task_step s s"
  by (simp add: task_step_def)

lemma task_step_lock [simp]:
  "task_step (t_lock_cpu s) s' = task_step s s'" "task_step s (t_unlock_cpu s') = task_step s s'"
  "task_step (i_lock_cpu s) s' = task_step s s'" "task_step s (i_unlock_cpu s') = task_step s s'"
  by (simp_all add: task_step_def wait_sub_cong[of "t_lock_cpu s" s s' s'] wait_sub_cong[of "i_lock_cpu s" s s' s'] lock_sel)

lemma task_step_call:
  "task_step s (snd (body (t_lock_cpu s))) \<Longrightarrow> task_step s (snd (tsk_call body s))"
  "task_step s (snd (body' (i_lock_cpu s))) \<Longrightarrow> task_step s (snd (int_call body' s))"
  by (simp_all add: tsk_call_def int_call_def case_prod_beta)

lemma wait_sub_waitqs:
  assumes "\<And>q. is_waitq q \<Longrightarrow> queues s' q = queues s q"
    and "\<And>q p. is_waitq q \<Longrightarrow> p \<in> set (queues s q) \<Longrightarrow> winfos s' p = winfos s p"
  shows "wait_sub Q s s'"
  using assms by (simp add: wait_sub_def)

lemma task_step_release:
  assumes "kinv s" and "TSTAT_WAITING (tstat (tcb s p))" and "r = release e (tm_dequeued p s) p s"
  shows "task_step s (dispatch_if r)" and "task_step s (reqflg_if r)"
proof -
  note t = kinvD(1)[OF assms(1)]
  have o: "op_ok s r" unfolding assms(3)
    by (rule release_op_ok[OF kinvD(2)[OF assms(1)] assms(2) tm_dequeued_without[OF t assms(2)]])
  show "task_step s (dispatch_if r)" "task_step s (reqflg_if r)"
    using op_ok_dispatch_if[OF assms(1) o] op_ok_reqflg_if[OF assms(1) o] wait_sub_release[OF tsk_invD(7)[OF t]]
    by (simp_all add: task_step_def assms(3))
qed

text \<open>A sleeping task is in no queue; its release is a release in the sense of the wait module.\<close>

lemma sleeping:
  assumes "tsk_inv s" and "TSTAT_WAIT_SLP (tstat (tcb s p))"
  shows "TSTAT_WAITING (tstat (tcb s p))" and "\<not> TSTAT_WAIT_WOBJ (tstat (tcb s p))"
    and "wait_complete p s = release E_OK (tm_dequeued p s) p s"
proof -
  have v: "tstat (tcb s p) \<in> {0x0a, 0x0e}"
    using tsk_invD(3)[OF assms(1), of p] assms(2) by (auto simp: tcb_ok_def tstat_ok_cases TSTAT_WAIT_SLP_def)
  then show w: "TSTAT_WAITING (tstat (tcb s p))" and "\<not> TSTAT_WAIT_WOBJ (tstat (tcb s p))"
    by (auto simp: TSTAT_defs)
  then have "task_place (tcb s p) = None"
    using v waiting_exists[OF assms(1), of p] by (auto simp: task_place_def TSTAT_defs)
  then have "q_delete p (queues s) = queues s"
    using tsk_invD(5)[OF assms(1), of p] by (auto simp: q_delete_def remove1_idem fun_eq_iff)
  then show "wait_complete p s = release E_OK (tm_dequeued p s) p s"
    by (simp add: wait_complete_def release_def wait_dequeue_tmevtb_eq)
qed

text \<open>A change of the queued requests of a task.\<close>

lemma task_step_tcb:
  assumes "kinv s" and "p_tinib t = p_tinib (tcb s p)" and "tstat t = tstat (tcb s p)" and "priority t = tskpri s p"
    and "bpriority t = bpriority (tcb s p)" and "p_winfo t = p_winfo (tcb s p)"
  shows "task_step s (s\<lparr>tcb := (tcb s)(p := t)\<rparr>)"
  using kinv_tcb[OF assms(1), of t p] assms(2-6) by (simp add: task_step_def wait_sub_def)

text \<open>The running task blocks in no queue.\<close>

lemma task_step_block:
  assumes "kinv s" and "p_runtsk s = Some p" and "kinv s'" and "objects s' = objects s"
    and "\<And>r. r \<noteq> p \<Longrightarrow> tcb s' r = tcb s r" and "queues s' = q_delete p (queues s)"
  shows "task_step s s'"
proof -
  have p: "p \<notin> set (queues s q)" if "is_waitq q" for q
    using tsk_invD(5)[OF kinvD(1)[OF assms(1)], of p q] kinvD(3)[OF assms(1,2)] that
    by (auto simp: task_place_def is_waitq_def split: if_splits)
  have "wait_sub {} s s'"
  proof (rule wait_sub_waitqs)
    show "queues s' q = queues s q" if "is_waitq q" for q
      using p[OF that] by (simp add: assms(6) q_delete_def remove1_idem)
    show "winfos s' x = winfos s x" if "is_waitq q" "x \<in> set (queues s q)" for q x
    proof -
      have "x \<noteq> p" using p[OF that(1)] that(2) by blast
      then show ?thesis by (simp add: assms(5))
    qed
  qed
  then show ?thesis using assms(3,4) by (simp add: task_step_def)
qed

lemma task_step_sleep:
  assumes "kinv s" and "p_runtsk s = Some p"
  shows "task_step s (dispatch (make_wait_tmout tmout (set_tstat p (TS_WAITING OR TS_WAIT_SLP) s)))"
  by (rule task_step_block[OF assms]) (use kinv_sleep[OF assms] assms(2) in \<open>simp_all add: dispatch_def\<close>)

text \<open>
  A delay is a wait of the kind \<open>TS_WAIT_DLY\<close>; its time event uses the same block. A delay of 0 is an
  event at the current base time.
\<close>

definition delay :: "RELTIM \<Rightarrow> tsk \<Rightarrow> kernel \<Rightarrow> kernel" where
  "delay d p s =
    (let s = snd (make_non_runnable p (set_tstat p (TS_WAITING OR TS_WAIT_DLY) s));
         s = upd_winfo p (\<lambda>w. w\<lparr>winfo := P_tmevtb (Some (TskTmevtb p))\<rparr>) s
     in upd_tme (tmevtb_enqueue (TskTmevtb p) d (Wait_tmout_ok p)) s)"

lemma delay_sel:
  "tcb (delay d p s) = (tcb s)(p := (tcb s p)\<lparr>tstat := TS_WAITING OR TS_WAIT_DLY,
    p_winfo := (winfos s p)\<lparr>winfo := P_tmevtb (Some (TskTmevtb p))\<rparr>\<rparr>)"
  "queues (delay d p s) = q_delete p (queues s)"
  "tme (delay d p s) = tm_enqueued p (uint d + 2 ^ 32) (Wait_tmout_ok p) (tme s)"
  "objects (delay d p s) = objects s" "p_runtsk (delay d p s) = p_runtsk s"
proof -
  have w: "(word_of_int (uint d + 2 ^ 32) :: 32 word) = d" by simp
  have pos: "uint d + 2 ^ 32 > 0" by (rule add_nonneg_pos) simp_all
  show "tme (delay d p s) = tm_enqueued p (uint d + 2 ^ 32) (Wait_tmout_ok p) (tme s)"
    unfolding tm_enqueued_def if_P[OF pos] w by (simp add: delay_def Let_def)
qed (simp_all add: delay_def Let_def)

lemma delay_inv:
  assumes "tsk_inv s" and "TSTAT_RUNNABLE (tstat (tcb s p))"
  shows "tsk_inv (delay d p s)"
proof -
  let ?w = "(winfos s p)\<lparr>winfo := P_tmevtb (Some (TskTmevtb p))\<rparr>" and ?s' = "delay d p s"
  let ?t = "(tcb s p)\<lparr>tstat := TS_WAITING OR TS_WAIT_DLY, p_winfo := ?w\<rparr>"
  have wc: "TS_WAIT_DLY \<in> wait_codes" "wait_place TS_WAIT_DLY w = None" for w
    by (simp_all add: wait_codes_def wait_place_def)
  have pl: "task_place ?t = None"
    using runnable_ready(2)[OF assms] by (simp add: task_place_def TSTAT_defs)
  have rq: "requeued p ?t s ?s'" unfolding requeued_def pl by (simp add: delay_sel)
  have mn: "ready_primap ?s' = ready_primap (snd (make_non_runnable p s))"
    "p_schedtsk ?s' = p_schedtsk (snd (make_non_runnable p s))"
    using make_non_runnable_cong[of "set_tstat p (TS_WAITING OR TS_WAIT_DLY) s" s p] by (simp_all add: delay_def Let_def)
  have a: "wobjatr ?s' = wobjatr s" by (rule wobjatr_objects) (simp add: delay_sel)
  have pos: "uint d + 2 ^ 32 > 0" by (rule add_nonneg_pos) simp_all
  show ?thesis
    by (rule blocked_inv[OF assms wc(1) delay_sel(1) _ _ rq _ mn a, where tmout = "uint d + 2 ^ 32"])
      (use pos wc(2) in \<open>simp_all add: delay_sel\<close>)
qed

lemma task_step_delay:
  assumes "kinv s" and "p_runtsk s = Some p"
  shows "task_step s (dispatch (delay d p s))"
  by (rule task_step_block[OF assms kinv_dispatch[OF delay_inv[OF kinvD(1)[OF assms(1)] kinvD(3)[OF assms]]]])
    (simp_all add: dispatch_def delay_sel)

text \<open>Suspension and resumption. In task context no dispatch is pending, so \<open>reqflg\<close> is false.\<close>

lemma task_step_suspend:
  assumes "kinv s" and "TSTAT_RUNNABLE (tstat (tcb s p))" and "p_runtsk s = Some p \<Longrightarrow> dspflg s" and "\<not> reqflg s"
    and "r = make_non_runnable p (set_tstat p TS_SUSPENDED s)"
  shows "task_step s (dispatch_if r)"
proof -
  note t = kinvD(1)[OF assms(1)] and w = suspend_running[OF kinvD(2)[OF assms(1)] assms(2), folded assms(5)]
  have ob: "objects (snd r) = objects s" and q: "queues (snd r) = q_delete p (queues s)" and rt: "p_runtsk (snd r) = p_runtsk s"
    and tc: "tcb (snd r) = (tcb s)(p := (tcb s p)\<lparr>tstat := TS_SUSPENDED\<rparr>)" and rf: "reqflg (snd r) = reqflg s"
    by (simp_all add: assms(5))
  have "kinv (dispatch_if r)"
  proof (cases "fst r")
    case True
    then show ?thesis using kinv_dispatch[OF w(1)] by (simp add: dispatch_if_def)
  next
    case False
    then have n: "p_runtsk s \<noteq> Some p" "dspflg s \<Longrightarrow> p_schedtsk s \<noteq> Some p"
      using w(2) assms(1,3,4) by (auto simp: kinv_def)
    have "dspflg (snd r) = dspflg s" using objectsD(4)[OF ob] .
    then show ?thesis using False n w(1,3) assms(1) kinvD(3)[OF assms(1)]
      by (auto simp: dispatch_if_def kinv_def winv_def rt tc rf)
  qed
  moreover have "wait_sub {} s (snd r)"
  proof (rule wait_sub_waitqs)
    have "p \<notin> set (queues s h)" if "is_waitq h" for h
      using tsk_invD(5)[OF t, of p h] assms(2) that by (auto simp: task_place_def is_waitq_def split: if_splits)
    then show "queues (snd r) h = queues s h" if "is_waitq h" for h
      using that by (simp add: q q_delete_def remove1_idem)
  qed (simp add: tc)
  ultimately show ?thesis using ob by (simp add: task_step_def)
qed

lemma task_step_resume:
  assumes "kinv s" and "tstat (tcb s p) = TS_SUSPENDED" and "r = make_runnable p (set_tstat p TS_RUNNABLE s)"
  shows "task_step s (dispatch_if r)"
proof -
  note t = kinvD(1)[OF assms(1)]
  have "task_place (tcb s p) = None" "\<not> TSTAT_WAITING (tstat (tcb s p))"
    using waiting_exists[OF t, of p] assms(2) by (simp_all add: task_place_def TSTAT_defs)
  then have o: "op_ok s r"
    unfolding assms(3) by (intro make_runnable_op_ok[OF kinvD(2)[OF assms(1)]]) simp_all
  have "wait_sub {} s (snd r)"
    by (rule wait_sub_waitqs) (auto simp: assms(3) q_insert_prev_def is_waitq_def)
  then show ?thesis using op_ok_dispatch_if[OF assms(1) o] by (simp add: task_step_def assms(3))
qed

lemma task_step_suspend_bit:
  assumes "kinv s" and "TSTAT_WAITING (tstat (tcb s p))"
    and "v = tstat (tcb s p) OR TS_SUSPENDED \<or> v = tstat (tcb s p) AND NOT TS_SUSPENDED"
  shows "task_step s (set_tstat p v s)"
proof -
  have n: "p_runtsk s \<noteq> Some p"
    using kinvD(3)[OF assms(1), of p] tstat_ok_excl(2)[of "tstat (tcb s p)"] tsk_invD(3)[OF kinvD(1)[OF assms(1)], of p] assms(2)
    by (auto simp: tcb_ok_def)
  have "kinv (set_tstat p v s)"
    using tsk_inv_suspend_bit[OF kinvD(1)[OF assms(1)] assms(2,3)] assms(1) n by (simp add: kinv_def winv_def)
  then show ?thesis by (simp add: task_step_def wait_sub_def)
qed

section \<open>The calls\<close>

lemma task_sync_steps:
  assumes "kinv s" and "p_runtsk s = Some p"
  shows "task_step s (snd (slp_tsk s))" and "task_step s (snd (tslp_tsk tmout s))"
    and "task_step s (snd (dly_tsk dlytim s))"
proof -
  let ?s = "t_lock_cpu s"
  have k: "kinv ?s" "p_runtsk ?s = Some p" using assms by simp_all
  note sl = task_step_sleep[OF k] and d = task_step_delay[OF k, of dlytim]
  have c: "task_step s (upd_tcb p (\<lambda>t. t\<lparr>wupque := False\<rparr>) ?s)"
    using task_step_tcb[OF k(1), of "(tcb ?s p)\<lparr>wupque := False\<rparr>" p] by simp
  show "task_step s (snd (slp_tsk s))" "task_step s (snd (tslp_tsk tmout s))"
    using assms c sl[of TMO_FEVR] sl[of tmout] task_step_refl[OF k(1)]
    by (auto simp: slp_tsk_def tslp_tsk_def make_wait_sel Let_def intro!: task_step_call task_step_refl)
  show "task_step s (snd (dly_tsk dlytim s))"
    using assms d by (auto simp: dly_tsk_def delay_def Let_def intro!: task_step_call task_step_refl)
qed

lemma task_wakeup_steps:
  assumes "kinv s"
  shows "task_step s (snd (wup_tsk cfg tskid s))" and "task_step s (snd (iwup_tsk cfg tskid s))"
    and "task_step s (snd (can_wup cfg tskid s))"
    and "task_step s (snd (rel_wai cfg tskid s))" and "task_step s (snd (irel_wai cfg tskid s))"
proof -
  have k: "kinv (t_lock_cpu s)" "kinv (i_lock_cpu s)" using assms by simp_all
  have w: "task_step s (dispatch_if (wait_complete p (t_lock_cpu s)))" "task_step s (reqflg_if (wait_complete p (i_lock_cpu s)))"
    if "TSTAT_WAIT_SLP (tstat (tcb s p))" for p
    using task_step_release(1)[OF k(1), of p] task_step_release(2)[OF k(2), of p] sleeping[OF kinvD(1)[OF k(1)], of p]
      sleeping[OF kinvD(1)[OF k(2)], of p] that by (simp_all add: lock_sel)
  have r: "task_step s (dispatch_if (wait_release p (t_lock_cpu s)))" "task_step s (reqflg_if (wait_release p (i_lock_cpu s)))"
    if "TSTAT_WAITING (tstat (tcb s p))" for p
    using task_step_release(1)[OF k(1), of p] task_step_release(2)[OF k(2), of p] wait_release_release[OF kinvD(1)[OF k(1)], of p]
      wait_release_release[OF kinvD(1)[OF k(2)], of p] that by (simp_all add: lock_sel)
  have c: "task_step s (upd_tcb p (\<lambda>t. t\<lparr>wupque := b\<rparr>) (t_lock_cpu s))" "task_step s (upd_tcb p (\<lambda>t. t\<lparr>wupque := b\<rparr>) (i_lock_cpu s))" for p b
    using task_step_tcb[OF k(1), of "(tcb (t_lock_cpu s) p)\<lparr>wupque := b\<rparr>" p]
      task_step_tcb[OF k(2), of "(tcb (i_lock_cpu s) p)\<lparr>wupque := b\<rparr>" p] by simp_all
  note u = task_step_refl[OF assms] task_step_refl[OF k(1)] task_step_refl[OF k(2)]
  show "task_step s (snd (wup_tsk cfg tskid s))" "task_step s (snd (iwup_tsk cfg tskid s))" "task_step s (snd (can_wup cfg tskid s))"
    using w[of "get_tcb_self tskid s"] w[of "INDEX_TSK tskid"] c u
    by (auto simp: wup_tsk_def iwup_tsk_def can_wup_def Let_def lock_sel intro!: task_step_call)
  show "task_step s (snd (rel_wai cfg tskid s))" "task_step s (snd (irel_wai cfg tskid s))"
    using r[of "INDEX_TSK tskid"] u by (auto simp: rel_wai_def irel_wai_def Let_def lock_sel intro!: task_step_call)
qed

lemma task_suspend_steps:
  assumes "kinv s" and "p_runtsk s = Some p" and "\<not> reqflg s"
  shows "task_step s (snd (sus_tsk cfg tskid s))" and "task_step s (snd (rsm_tsk cfg tskid s))"
proof -
  let ?s = "t_lock_cpu s"
  have k: "kinv ?s" "\<not> reqflg ?s" "p_runtsk ?s = Some p" using assms by simp_all (simp add: t_lock_cpu_def)
  note u = task_step_refl[OF assms(1)] task_step_refl[OF k(1)]
  have su: "task_step s (dispatch_if (make_non_runnable q (set_tstat q TS_SUSPENDED ?s)))"
    if "TSTAT_RUNNABLE (tstat (tcb s q))" "\<not> (q = p \<and> \<not> dspflg s)" for q
    using task_step_suspend[OF k(1) _ _ k(2) refl, of q] that k(3) by (auto simp: lock_sel lock_objects)
  have ok: "tstat_ok (tstat (tcb s q))" for q using tsk_invD(3)[OF kinvD(1)[OF assms(1)], of q] by (simp add: tcb_ok_def)
  have b: "task_step s (set_tstat q v ?s)"
    if "TSTAT_WAITING (tstat (tcb s q))" "v = tstat (tcb s q) OR TS_SUSPENDED \<or> v = tstat (tcb s q) AND NOT TS_SUSPENDED" for q v
    using task_step_suspend_bit[OF k(1), of q v] that by (simp add: lock_sel)
  have wt: "TSTAT_WAITING (tstat (tcb s q))"
    if "\<not> TSTAT_DORMANT (tstat (tcb s q))" "\<not> TSTAT_RUNNABLE (tstat (tcb s q))" "\<not> TSTAT_SUSPENDED (tstat (tcb s q))" for q
    using tstat_ok_excl(1,5)[OF ok, of q] that by (auto simp: TSTAT_DORMANT_def)
  have re: "task_step s (dispatch_if (make_runnable q (set_tstat q TS_RUNNABLE ?s)))"
    if "\<not> TSTAT_WAITING (tstat (tcb s q))" "TSTAT_SUSPENDED (tstat (tcb s q))" for q
    using task_step_resume[OF k(1) _ refl, of q] tstat_ok_excl(4)[OF ok, of q] that by (simp add: lock_sel)
  show "task_step s (snd (sus_tsk cfg tskid s))"
    using su[of "get_tcb_self tskid s"] b[of "get_tcb_self tskid s"] wt[of "get_tcb_self tskid s"] u k(3) assms(2)
    by (auto simp: sus_tsk_def Let_def lock_sel lock_objects intro!: task_step_call)
  show "task_step s (snd (rsm_tsk cfg tskid s))"
    using re[of "INDEX_TSK tskid"] b[of "INDEX_TSK tskid"] u
    by (auto simp: rsm_tsk_def Let_def lock_sel intro!: task_step_call)
qed

section \<open>Properties\<close>

text \<open>
  C8: sleeping, wakeup, release, suspension, resumption and delay keep the kernel invariant on every
  branch. They change no control block of an object, and they only take tasks out of wait queues, so
  that the invariants of all synchronisation and communication objects survive them.
\<close>

theorem task_sync_calls_keep_inv:
  assumes "kinv s" and "p_runtsk s = Some p" and "\<not> reqflg s"
  shows "\<forall>s' \<in> {snd (slp_tsk s), snd (tslp_tsk tmout s), snd (dly_tsk dlytim s), snd (wup_tsk cfg tskid s),
      snd (iwup_tsk cfg tskid s), snd (can_wup cfg tskid s), snd (rel_wai cfg tskid s), snd (irel_wai cfg tskid s),
      snd (sus_tsk cfg tskid s), snd (rsm_tsk cfg tskid s)}.
    kinv s' \<and> objects s' = objects s \<and> wait_sub {} s s'"
  using task_sync_steps[OF assms(1,2)] task_wakeup_steps[OF assms(1)] task_suspend_steps[OF assms]
  by (simp add: task_step_def)

theorem task_sync_calls_keep_inv_witness:
  "kinv (snd (sus_tsk sample_cfg 1 run_kernel)) \<and> kinv (snd (dly_tsk 5 run_kernel))"
  using task_sync_calls_keep_inv[OF kinv_run_kernel run_kernel_sel(3,8)] by blast

text \<open>
  C11: \<open>rel_wai\<close> ends any wait. Whatever the task waits for, it leaves its wait queue and its time
  event is cancelled, its service call returns \<open>E_RLWAI\<close>, and it is ready, or still suspended when
  it was suspended. A task that does not wait gives \<open>E_OBJ\<close>.
\<close>

theorem rel_wai_releases:
  assumes "kinv s" and "CHECK_TSKCTX_UNL s" and "VALID_TSKID cfg tskid" and "p = INDEX_TSK tskid"
    and "tskatr (p_tinib (tcb s p)) \<noteq> TA_NOEXS" and "(r, s') = rel_wai cfg tskid s"
  shows "if TSTAT_WAITING (tstat (tcb s p))
    then r = Ret E_OK \<and> result_of (Wait_ercd p) s' = Some E_RLWAI \<and> (\<forall>q. is_waitq q \<longrightarrow> p \<notin> set (queues s' q)) \<and>
      evts (tme s') = (evts (tme s))(TskTmevtb p := None) \<and>
      tstat (tcb s' p) = (if TSTAT_SUSPENDED (tstat (tcb s p)) then TS_SUSPENDED else TS_RUNNABLE)
    else r = Ret E_OBJ"
proof (cases "TSTAT_WAITING (tstat (tcb s p))")
  case True
  let ?s = "t_lock_cpu s" and ?tm = "tm_dequeued p (t_lock_cpu s)"
  have t: "tsk_inv ?s" "TSTAT_WAITING (tstat (tcb ?s p))" using kinvD(1)[OF assms(1)] True by (simp_all add: lock_sel)
  have e: "r = Ret E_OK" "s' = t_unlock_cpu (dispatch_if (release E_RLWAI ?tm p ?s))"
    using assms(2-6) True wait_release_release[OF t] by (auto simp: rel_wai_def tsk_call_def lock_sel Let_def)
  have sel: "tcb (dispatch_if q) = tcb (snd q)" "queues (dispatch_if q) = queues (snd q)" "tme (dispatch_if q) = tme (snd q)" for q
    by (simp_all add: dispatch_if_def dispatch_def)
  have n: "p \<notin> set (q_delete p (queues s) h)" for h
    using q_free_delete[OF tsk_invD(7)[OF kinvD(1)[OF assms(1)]]] by (simp add: q_free_def)
  show ?thesis
    using tm_dequeued_without[OF t] n e True
    by (auto simp: sel lock_sel result_of_def tm_without_def q_insert_prev_def is_waitq_def)
next
  case False
  then show ?thesis using assms(2-6) by (simp add: rel_wai_def tsk_call_def lock_sel Let_def)
qed

theorem rel_wai_releases_witness:
  "fst (rel_wai sample_cfg 2 run_kernel) = Ret E_OBJ"
proof -
  obtain r s' where e: "(r, s') = rel_wai sample_cfg 2 run_kernel" by (metis surj_pair)
  have v: "CHECK_TSKCTX_UNL run_kernel" "VALID_TSKID sample_cfg 2" "tskatr (p_tinib (tcb run_kernel 1)) \<noteq> TA_NOEXS"
    "\<not> TSTAT_WAITING (tstat (tcb run_kernel 1))" "1 = INDEX_TSK 2"
    by (simp_all add: CHECK_TSKCTX_UNL_def run_kernel_sel VALID_TSKID_def sample_cfg_def sample_tcb_def sample_tinib_def
        TSTAT_defs INDEX_TSK_def)
  have "r = Ret E_OBJ" using rel_wai_releases[OF kinv_run_kernel v(1,2,5,3) e] v(4) by simp
  then show ?thesis by (simp add: e[symmetric])
qed

lemma tcb_idem: "(t_lock_cpu s)\<lparr>tcb := tcb s\<rparr> = t_lock_cpu s"
  by (cases s) (simp add: t_lock_cpu_def)



end
