(* ===== verification/Asp_Ceiling.thy ===== *)
theory Asp_Ceiling
  imports Asp_Mutex
begin

text \<open>
  The ceiling of a mutex bounds the base priority of every task that has locked it or waits for it.
  The check at the head of \<open>loc_mtx\<close> and the one in \<open>chg_pri\<close> (\<open>mutex_check_ceilpri\<close>,
  \<^verbatim>\<open>kernel/mutex.c\<close>) are there to keep this, and the priority of an owner of a ceiling mutex is
  right because of it.
\<close>

definition mtx_user :: "kernel \<Rightarrow> nat \<Rightarrow> tsk \<Rightarrow> bool" where
  "mtx_user s i p \<longleftrightarrow> i \<in> set (mtxqs s p) \<or> p \<in> set (queues s (WaitQ (MTX i)))"

definition ceil_inv :: "kernel \<Rightarrow> bool" where
  "ceil_inv s \<longleftrightarrow> (\<forall>i p. MTX_CEILING s i \<longrightarrow> mtx_user s i p \<longrightarrow> mtx_ceilpri s i \<le> bpriority (tcb s p))"

lemma ceil_invD: "ceil_inv s \<Longrightarrow> MTX_CEILING s i \<Longrightarrow> mtx_user s i p \<Longrightarrow> mtx_ceilpri s i \<le> bpriority (tcb s p)"
  by (simp add: ceil_inv_def)

lemma ceil_inv_mono:
  assumes "ceil_inv s" and "\<And>i. p_mtxinib (mtxcb s' i) = p_mtxinib (mtxcb s i)"
    and "\<And>p. bpriority (tcb s' p) = bpriority (tcb s p)"
    and "\<And>i p. mtx_user s' i p \<Longrightarrow> mtx_user s i p \<or> (MTX_CEILING s i \<longrightarrow> mtx_ceilpri s i \<le> bpriority (tcb s p))"
  shows "ceil_inv s'"
  unfolding ceil_inv_def
proof (intro allI impI)
  fix i p
  assume i: "MTX_CEILING s' i" and u: "mtx_user s' i p"
  have "MTX_CEILING s i" using i assms(2) by (simp add: MTX_CEILING_def)
  then show "mtx_ceilpri s' i \<le> bpriority (tcb s' p)"
    using assms(4)[OF u] ceil_invD[OF assms(1)] assms(2,3) by auto
qed

lemma ceil_inv_lock [simp]:
  "ceil_inv (t_lock_cpu s) = ceil_inv s" "ceil_inv (t_unlock_cpu s) = ceil_inv s"
  "ceil_inv (i_lock_cpu s) = ceil_inv s" "ceil_inv (i_unlock_cpu s) = ceil_inv s"
  "ceil_inv (dispatch s) = ceil_inv s" "ceil_inv (dispatch_if r) = ceil_inv (snd r)"
  by (simp_all add: ceil_inv_def mtx_user_def MTX_CEILING_def t_lock_cpu_def t_unlock_cpu_def i_lock_cpu_def
      i_unlock_cpu_def dispatch_if_def dispatch_def)

lemma ceil_inv_tsk_call: "ceil_inv (snd (body (t_lock_cpu s))) \<Longrightarrow> ceil_inv (snd (tsk_call body s))"
  by (simp add: tsk_call_def case_prod_beta)

section \<open>The operations on mutexes\<close>

text \<open>A change of priority moves a task only within its wait queue.\<close>

lemma change_priority_waitq:
  assumes "winv s" and "tskatr (p_tinib (tcb s p)) \<noteq> TA_NOEXS" and "n < TNUM_TPRI" and "is_waitq h"
  shows "set (queues (snd (change_priority p n m s)) h) = set (queues s h)"
    and "length (queues (snd (change_priority p n m s)) h) = length (queues s h)"
proof -
  let ?s = "snd (change_priority p n m s)"
  have t: "tsk_inv ?s" using change_priority_op_ok[OF assms(1-3), of m] by (simp add: op_ok_def winv_def)
  note i = tsk_invD(5)[OF t] and j = tsk_invD(5)[OF winvD(1)[OF assms(1)]]
  have "task_place (tcb ?s x) = Some h \<longleftrightarrow> task_place (tcb s x) = Some h" for x
    using assms(4) by (auto simp: change_priority_tcb task_place_def is_waitq_def split: qhead.splits)
  then have "x \<in> set (queues ?s h) \<longleftrightarrow> x \<in> set (queues s h)" for x using i[of x h] j[of x h] by simp
  then show e: "set (queues ?s h) = set (queues s h)" by blast
  show "length (queues ?s h) = length (queues s h)"
    using e queues_okD(1)[OF tsk_invD(7)[OF t], of h] queues_okD(1)[OF tsk_invD(7)[OF winvD(1)[OF assms(1)]], of h]
    by (metis distinct_card)
qed

lemma change_priority_waitq_set:
  assumes "winv s" and "tskatr (p_tinib (tcb s p)) \<noteq> TA_NOEXS" and "n < TNUM_TPRI"
  shows "set (queues (snd (change_priority p n m s)) (WaitQ w)) = set (queues s (WaitQ w))"
  by (rule change_priority_waitq(1)[OF assms]) (simp add: is_waitq_def)

lemma ceil_inv_change_priority:
  assumes "ceil_inv s" and "winv s" and "tskatr (p_tinib (tcb s p)) \<noteq> TA_NOEXS" and "n < TNUM_TPRI"
  shows "ceil_inv (snd (change_priority p n m s))"
proof (rule ceil_inv_mono[OF assms(1)])
  note ob = objectsD[of "snd (change_priority p n m s)" s]
  show "p_mtxinib (mtxcb (snd (change_priority p n m s)) i) = p_mtxinib (mtxcb s i)" for i by (simp add: ob)
  show "bpriority (tcb (snd (change_priority p n m s)) q) = bpriority (tcb s q)" for q
    by (simp add: change_priority_tcb)
  show "mtx_user (snd (change_priority p n m s)) i q \<Longrightarrow>
      mtx_user s i q \<or> (MTX_CEILING s i \<longrightarrow> mtx_ceilpri s i \<le> bpriority (tcb s q))" for i q
    by (simp add: mtx_user_def change_priority_waitq_set[OF assms(2-4)] ob)
qed

lemma mutex_calc_lt:
  assumes "winv s" and "tskatr (p_tinib (tcb s p)) \<noteq> TA_NOEXS"
  shows "mutex_calc_priority p s < TNUM_TPRI"
  using calc_priority_loop_le[of s "bpriority (tcb s p)" "mtxqs s p"] exists_pri(2)[OF assms]
  by (simp add: mutex_calc_priority_def)

lemma ceil_inv_drop:
  assumes "ceil_inv s" and "winv s" and "tskatr (p_tinib (tcb s p)) \<noteq> TA_NOEXS"
  shows "ceil_inv (snd (mutex_drop_priority p old s))"
  using assms ceil_inv_change_priority[OF assms mutex_calc_lt[OF assms(2,3)]]
  by (simp add: mutex_drop_priority_def Let_def)

lemma ceil_inv_unlink: "ceil_inv s \<Longrightarrow> ceil_inv (s\<lparr>mtxqs := q_delete i (mtxqs s)\<rparr>)"
  by (erule ceil_inv_mono) (auto simp: mtx_user_def q_delete_def dest: set_mp[OF set_remove1_subset])

lemma ceil_inv_acquire:
  assumes "ceil_inv s" and "winv s" and "tskatr (p_tinib (tcb s p)) \<noteq> TA_NOEXS"
    and "MTX_CEILING s i \<longrightarrow> mtx_ceilpri s i \<le> bpriority (tcb s p)"
  shows "ceil_inv (snd (mutex_acquire p i s))"
proof -
  let ?s = "s\<lparr>mtxcb := (mtxcb s)(i := (mtxcb s i)\<lparr>p_loctsk := Some p\<rparr>), mtxqs := q_insert_next p i (mtxqs s)\<rparr>"
  have c: "ceil_inv ?s"
    by (rule ceil_inv_mono[OF assms(1)]) (use assms(4) in \<open>auto simp: mtx_user_def q_insert_next_def split: if_splits\<close>)
  have w: "winv ?s" using assms(2) by simp
  have "mtx_ceilpri s i < TNUM_TPRI" if "mtx_ceilpri s i < tskpri s p"
    using that exists_pri(1)[OF assms(2,3)] by simp
  then show ?thesis
    using c ceil_inv_change_priority[OF c w, of p "mtx_ceilpri s i" True] assms(3)
    by (simp add: mutex_acquire_def mutex_raise_priority_def MTX_CEILING_def Let_def)
qed

text \<open>What the release of a mutex changes: the task that gets it, and the mutex itself.\<close>

lemma mutex_release_cons:
  assumes "winv s" and "queues s (WaitQ (MTX i)) = q # qs"
  obtains c where "c \<le> tskpri s q"
    and "tcb (snd (mutex_release i s)) = (tcb s)(q := released E_OK ((tcb s q)\<lparr>priority := c\<rparr>))"
    and "objects (snd (mutex_release i s)) =
      objects (s\<lparr>mtxqs := q_insert_prev q i (mtxqs s), mtxcb := (mtxcb s)(i := (mtxcb s i)\<lparr>p_loctsk := Some q\<rparr>)\<rparr>)"
proof -
  define c where "c = (if MTX_CEILING s i \<and> mtx_ceilpri s i < tskpri s q then mtx_ceilpri s i else tskpri s q)"
  define s0 where "s0 = s\<lparr>tcb := (tcb s)(q := (tcb s q)\<lparr>priority := c\<rparr>), mtxqs := q_insert_prev q i (mtxqs s),
      mtxcb := (mtxcb s)(i := (mtxcb s i)\<lparr>p_loctsk := Some q\<rparr>)\<rparr>"
  note r = mutex_release_release[OF assms c_def s0_def]
  show ?thesis
  proof (rule that[of c])
    show "c \<le> tskpri s q" by (simp add: c_def)
    show "tcb (snd (mutex_release i s)) = (tcb s)(q := released E_OK ((tcb s q)\<lparr>priority := c\<rparr>))"
      by (simp add: r s0_def)
    show "objects (snd (mutex_release i s)) =
        objects (s\<lparr>mtxqs := q_insert_prev q i (mtxqs s), mtxcb := (mtxcb s)(i := (mtxcb s i)\<lparr>p_loctsk := Some q\<rparr>)\<rparr>)"
      unfolding r release_sel(7) by (simp add: s0_def objects_def)
  qed
qed

lemma mutex_release_nil:
  "queues s (WaitQ (MTX i)) = [] \<Longrightarrow>
    mutex_release i s = (False, s\<lparr>mtxcb := (mtxcb s)(i := (mtxcb s i)\<lparr>p_loctsk := None\<rparr>)\<rparr>)"
  by (simp add: mutex_release_def q_empty_def)

lemma ceil_inv_release:
  assumes "ceil_inv s" and "winv s"
  shows "ceil_inv (snd (mutex_release i s))"
proof (rule ceil_inv_mono[OF assms(1)])
  show "mtx_user (snd (mutex_release i s)) j p \<Longrightarrow>
      mtx_user s j p \<or> (MTX_CEILING s j \<longrightarrow> mtx_ceilpri s j \<le> bpriority (tcb s p))" for j p
    by (cases "queues s (WaitQ (MTX i))")
      (auto simp: mtx_user_def mutex_release_waitq mutex_release_mtxqs is_waitq_def q_insert_prev_def split: if_splits)
  show "p_mtxinib (mtxcb (snd (mutex_release i s)) j) = p_mtxinib (mtxcb s j)" for j
  proof (cases "queues s (WaitQ (MTX i))")
    case (Cons q qs)
    obtain c where "objects (snd (mutex_release i s)) = objects (s\<lparr>mtxqs := q_insert_prev q i (mtxqs s),
        mtxcb := (mtxcb s)(i := (mtxcb s i)\<lparr>p_loctsk := Some q\<rparr>)\<rparr>)"
      using mutex_release_cons[OF assms(2) Cons] by blast
    from objectsD(22)[OF this] show ?thesis by simp
  qed (simp add: mutex_release_nil)
  show "bpriority (tcb (snd (mutex_release i s)) p) = bpriority (tcb s p)" for p
  proof (cases "queues s (WaitQ (MTX i))")
    case (Cons q qs)
    obtain c where "tcb (snd (mutex_release i s)) = (tcb s)(q := released E_OK ((tcb s q)\<lparr>priority := c\<rparr>))"
      using mutex_release_cons[OF assms(2) Cons] by blast
    then show ?thesis by simp
  qed (simp add: mutex_release_nil)
qed

lemma release_all_round_winv: "winv s \<Longrightarrow> winv (snd (release_all_round p s))"
  using mutex_release_op_ok[of "s\<lparr>mtxqs := q_delete (hd (mtxqs s p)) (mtxqs s)\<rparr>"]
  by (simp add: release_all_round_def op_ok_def)

lemma ceil_inv_release_all: "winv s \<Longrightarrow> ceil_inv s \<Longrightarrow> ceil_inv (snd (mutex_release_all p s))"
proof (induction s rule: release_all_induct[where p = p])
  case (empty s)
  then show ?case by (simp add: mutex_release_all_round)
next
  case (round s)
  have "ceil_inv (snd (release_all_round p s))"
    unfolding release_all_round_def by (rule ceil_inv_release[OF ceil_inv_unlink[OF round(4)]]) (use round(3) in simp)
  then show ?case using round release_all_round_winv[OF round(3)] by (simp add: mutex_release_all_round[of p s])
qed

section \<open>The service calls\<close>

lemma ceil_inv_block:
  assumes "ceil_inv s" and "p_runtsk s = Some p" and "MTX_CEILING s i \<longrightarrow> mtx_ceilpri s i \<le> bpriority (tcb s p)"
  shows "ceil_inv (wobj_make_wait_tmout (MTX i) tmout (set_tstat p v s))" (is "ceil_inv ?s")
proof (rule ceil_inv_mono[OF assms(1)])
  note ob = objects_wait2(6)[of "MTX i" tmout "set_tstat p v s"]
  show "p_mtxinib (mtxcb ?s j) = p_mtxinib (mtxcb s j)" for j using objectsD(22)[OF ob] by simp
  show "bpriority (tcb ?s q) = bpriority (tcb s q)" for q using assms(2) by simp
  show "mtx_user ?s j q \<Longrightarrow> mtx_user s j q \<or> (MTX_CEILING s j \<longrightarrow> mtx_ceilpri s j \<le> bpriority (tcb s q))" for j q
    using objectsD(1)[OF ob] assms(2,3)
    by (auto simp: mtx_user_def queue_simps split: if_splits dest!: set_mp[OF set_remove1_subset])
qed

lemma ceil_inv_lock_calls:
  assumes "ceil_inv s" and "kinv s" and "p_runtsk s = Some p"
  shows "ceil_inv (snd (loc_mtx cfg mtxid s))" and "ceil_inv (snd (ploc_mtx cfg mtxid s))"
    and "ceil_inv (snd (tloc_mtx cfg mtxid tmout s))" and "ceil_inv (snd (ref_mtx cfg mtxid s))"
proof -
  let ?s = "t_lock_cpu s" and ?i = "INDEX_MTX mtxid"
  have w: "winv ?s" "ceil_inv ?s" "p_runtsk ?s = Some p" using assms kinvD(2)[of ?s] by simp_all
  have ex: "tskatr (p_tinib (tcb ?s p)) \<noteq> TA_NOEXS"
    by (rule runnable_ready(2)[OF winvD(1)[OF w(1)] winvD(2)[OF w(1,3)]])
  note b = ceil_inv_block[OF w(2,3), where i = ?i] and a = ceil_inv_acquire[OF w(2,1) ex, of ?i]
  show "ceil_inv (snd (loc_mtx cfg mtxid s))" "ceil_inv (snd (ploc_mtx cfg mtxid s))"
    "ceil_inv (snd (tloc_mtx cfg mtxid tmout s))" "ceil_inv (snd (ref_mtx cfg mtxid s))"
    using assms(1) w a b
    by (auto simp: loc_mtx_def ploc_mtx_def tloc_mtx_def ref_mtx_def Let_def wobj_make_wait_eq not_less
        intro!: ceil_inv_tsk_call)
qed

lemma ceil_inv_unl_mtx:
  assumes "ceil_inv s" and "kinv s" and "p_runtsk s = Some p"
  shows "ceil_inv (snd (unl_mtx cfg mtxid s))"
proof -
  let ?s = "t_lock_cpu s" and ?i = "INDEX_MTX mtxid"
  define s1 where "s1 = ?s\<lparr>mtxqs := q_delete ?i (mtxqs ?s)\<rparr>"
  define r where "r = (if MTX_CEILING s1 ?i then mutex_drop_priority p (mtx_ceilpri s1 ?i) s1 else (False, s1))"
  have w: "winv ?s" "ceil_inv ?s" "p_runtsk ?s = Some p" using assms kinvD(2)[of ?s] by simp_all
  have w1: "winv s1" "ceil_inv s1" "p_runtsk s1 = Some p"
    using w ceil_inv_unlink[OF w(2)] by (simp_all add: s1_def)
  have ex: "tskatr (p_tinib (tcb s1 p)) \<noteq> TA_NOEXS"
    by (rule runnable_ready(2)[OF winvD(1)[OF w1(1)] winvD(2)[OF w1(1,3)]])
  have "winv (snd r)" "ceil_inv (snd r)"
    using mutex_drop_op_ok[OF w1(1) ex] ceil_inv_drop[OF w1(2,1) ex] w1 by (simp_all add: r_def op_ok_def)
  then have c: "ceil_inv (snd (mutex_release ?i (snd r)))" by (rule ceil_inv_release[rotated])
  show ?thesis
    using assms(1) w w1(3) c unfolding r_def
    by (auto simp: unl_mtx_def Let_def case_prod_beta s1_def[symmetric] intro!: ceil_inv_tsk_call)
qed

lemma ceil_inv_init_wait_queue:
  assumes "ceil_inv s" and "winv s" and "is_waitq q"
  shows "ceil_inv (snd (init_wait_queue q s))"
proof (rule ceil_inv_mono[OF assms(1)])
  note ob = objects_init_wait_queue[of q s]
  show "p_mtxinib (mtxcb (snd (init_wait_queue q s)) i) = p_mtxinib (mtxcb s i)" for i using objectsD(22)[OF ob] by simp
  show "bpriority (tcb (snd (init_wait_queue q s)) p) = bpriority (tcb s p)" for p
    using init_wait_queue_tcb[OF assms(3,2)] by simp
  have "set (queues (snd (init_wait_queue q s)) (WaitQ w)) \<subseteq> set (queues s (WaitQ w))" for w
    using init_wait_queue_op_ok[OF assms(3,2)] init_wait_queue_other[OF assms(3,2), of "WaitQ w"]
    by (cases "q = WaitQ w") (auto simp: is_waitq_def)
  then show "mtx_user (snd (init_wait_queue q s)) i p \<Longrightarrow>
      mtx_user s i p \<or> (MTX_CEILING s i \<longrightarrow> mtx_ceilpri s i \<le> bpriority (tcb s p))" for i p
    using objectsD(1)[OF ob] by (auto simp: mtx_user_def)
qed

lemma ceil_inv_ini_mtx:
  assumes "ceil_inv s" and "kinv s" and "mtx_inv s"
  shows "ceil_inv (snd (ini_mtx cfg mtxid s))"
proof -
  let ?s = "t_lock_cpu s" and ?i = "INDEX_MTX mtxid"
  define r where "r = init_wait_queue (WaitQ (MTX ?i)) ?s"
  define s1 where "s1 = (snd r)\<lparr>mtxqs := q_delete ?i (mtxqs (snd r)),
    mtxcb := (mtxcb (snd r))(?i := (mtxcb (snd r) ?i)\<lparr>p_loctsk := None\<rparr>)\<rparr>"
  have k: "winv ?s" "ceil_inv ?s" "mtx_inv ?s" using assms kinvD(2)[of ?s] by simp_all
  have q: "is_waitq (WaitQ (MTX ?i))" by (simp add: is_waitq_def)
  have r: "winv (snd r)" "ceil_inv (snd r)" "mtx_inv (snd r)"
    using init_wait_queue_op_ok[OF q k(1)] ceil_inv_init_wait_queue[OF k(2,1) q] init_wait_queue_mtx_inv[OF k(3,1) q]
    by (simp_all add: r_def op_ok_def)
  have s1: "ceil_inv s1"
    by (rule ceil_inv_mono[OF ceil_inv_unlink[OF r(2), of ?i]]) (auto simp: s1_def mtx_user_def)
  have w1: "winv s1"
    using r(1) winv_mtx(3)[of "(snd r)\<lparr>mtxqs := q_delete ?i (mtxqs (snd r))\<rparr>" ?i None] by (simp add: s1_def)
  have d: "ceil_inv (snd (mutex_drop_priority p (mtx_ceilpri s1 ?i) s1))" if "p_loctsk (mtxcb (snd r) ?i) = Some p" for p
  proof (rule ceil_inv_drop[OF s1 w1])
    have "tstat (tcb (snd r) p) \<noteq> TS_DORMANT" using mtx_genD(3)[OF r(3)[unfolded mtx_inv_def], of ?i p] that by simp
    then show "tskatr (p_tinib (tcb s1 p)) \<noteq> TA_NOEXS"
      using waiting_exists[OF winvD(1)[OF r(1)]] by (simp add: s1_def)
  qed
  show ?thesis
    using assms(1) k(2) r(2) s1 d
    by (cases "p_loctsk (mtxcb (snd r) ?i)")
      (auto simp: ini_mtx_def Let_def case_prod_beta r_def[symmetric] s1_def[symmetric] intro!: ceil_inv_tsk_call)
qed

text \<open>A mutex that nobody has locked and that has no waiting task may get any ceiling.\<close>

lemma ceil_inv_other_ceiling:
  assumes "ceil_inv s" and "mtx_inv s" and "p_loctsk (mtxcb s i) = None" and "queues s (WaitQ (MTX i)) = []"
    and "tcb s' = tcb s" and "queues s' = queues s" and "mtxqs s' = mtxqs s" and "mtxcb s' = (mtxcb s)(i := c)"
  shows "ceil_inv s'"
  unfolding ceil_inv_def
proof (intro allI impI)
  fix j p
  assume c: "MTX_CEILING s' j" and u: "mtx_user s' j p"
  have "j \<noteq> i" using u assms(3-7) mtx_genD(2)[OF assms(2)[unfolded mtx_inv_def], of j p] by (auto simp: mtx_user_def)
  then show "mtx_ceilpri s' j \<le> bpriority (tcb s' p)"
    using ceil_invD[OF assms(1), of j p] c u assms(5-8) by (simp add: MTX_CEILING_def mtx_user_def)
qed

lemma ceil_inv_create_delete:
  assumes "ceil_inv s" and "kinv s" and "mtx_inv s" and "mtx_free cfg s"
  shows "ceil_inv (snd (acre_mtx cfg pk s))"
    and "p_loctsk (mtxcb s (INDEX_MTX mtxid)) = None \<Longrightarrow> ceil_inv (snd (del_mtx cfg mtxid s))"
proof -
  let ?s = "t_lock_cpu s" and ?i = "INDEX_MTX mtxid" and ?j = "hd (free_mtxcb (t_lock_cpu s))"
  have k: "winv ?s" "ceil_inv ?s" "mtx_inv ?s" "mtx_free cfg ?s" using assms kinvD(2)[of ?s] by simp_all
  have f: "p_loctsk (mtxcb ?s ?j) = None" "queues ?s (WaitQ (MTX ?j)) = []" if "free_mtxcb ?s \<noteq> []"
    using k(4) that by (auto simp: mtx_free_def)
  note oc = ceil_inv_other_ceiling[OF k(2,3) f]
  show "ceil_inv (snd (acre_mtx cfg pk s))"
    using assms(1) k(2) oc f(2)
    by (auto simp: acre_mtx_def Let_def q_initialize_def fun_upd_idem intro!: ceil_inv_tsk_call)
  assume n: "p_loctsk (mtxcb s ?i) = None"
  define r where "r = init_wait_queue (WaitQ (MTX ?i)) ?s"
  have q: "is_waitq (WaitQ (MTX ?i))" by (simp add: is_waitq_def)
  have r: "ceil_inv (snd r)" "mtx_inv (snd r)" "queues (snd r) (WaitQ (MTX ?i)) = []"
    using ceil_inv_init_wait_queue[OF k(2,1) q] init_wait_queue_mtx_inv[OF k(3,1) q] init_wait_queue_op_ok[OF q k(1)]
    by (simp_all add: r_def)
  have "p_loctsk (mtxcb (snd r) ?i) = None" using n objectsD(22)[OF objects_init_wait_queue] by (simp add: r_def lock_objects)
  note od = ceil_inv_other_ceiling[OF r(1,2) this r(3)]
  show "ceil_inv (snd (del_mtx cfg mtxid s))"
    using assms(1) k(2) od
    by (auto simp: del_mtx_def Let_def case_prod_beta r_def[symmetric] intro!: ceil_inv_tsk_call)
qed

section \<open>Properties\<close>


lemma ceil_inv_run_kernel: "ceil_inv run_kernel"
  using objectsD(1)[OF run_kernel_sel(10)]
  by (simp add: ceil_inv_def mtx_user_def run_kernel_sel idle_kernel_def)


text \<open>
  C10: a task that has locked ceiling mutexes runs at the highest of their ceilings, whatever its base
  priority; without ceiling mutexes it runs at its base priority.
\<close>

theorem owner_priority:
  assumes "mtx_inv s" and "ceil_inv s" and "tstat (tcb s p) \<noteq> TS_DORMANT"
  shows "tskpri s p = (if mutex_scan_ceilmtx p s
    then Min {mtx_ceilpri s i | i. i \<in> set (mtxqs s p) \<and> MTX_CEILING s i} else bpriority (tcb s p))"
proof -
  let ?C = "{mtx_ceilpri s i | i. i \<in> set (mtxqs s p) \<and> MTX_CEILING s i}"
  have scan: "scan_ceilmtx_loop s is \<longleftrightarrow> (\<exists>i \<in> set is. MTX_CEILING s i)" for "is" by (induction "is") auto
  have pri: "tskpri s p = calc_priority_loop s (bpriority (tcb s p)) (mtxqs s p)"
    using mtx_genD(5)[OF assms(1)[unfolded mtx_inv_def], of p] assms(3) by (simp add: mutex_calc_priority_def)
  have fin: "finite ?C" by simp
  have le: "c \<le> bpriority (tcb s p)" if "c \<in> ?C" for c
    using that ceil_invD[OF assms(2)] by (auto simp: mtx_user_def)
  have iff: "tskpri s p \<le> x \<longleftrightarrow> bpriority (tcb s p) \<le> x \<or> (\<exists>c \<in> ?C. c \<le> x)" for x
    unfolding pri calc_priority_le_iff by auto
  show ?thesis
  proof (cases "mutex_scan_ceilmtx p s")
    case True
    then have ne: "?C \<noteq> {}" by (auto simp: mutex_scan_ceilmtx_def scan)
    have "tskpri s p = Min ?C"
    proof (rule antisym)
      show "tskpri s p \<le> Min ?C" using iff[of "Min ?C"] Min_in[OF fin ne] by blast
      have "Min ?C \<le> c" if "c \<in> ?C" for c using that fin by simp
      moreover have "\<exists>c \<in> ?C. c \<le> tskpri s p" using iff[of "tskpri s p"] ne le by (meson ex_in_conv order_refl order_trans)
      ultimately show "Min ?C \<le> tskpri s p" using order_trans by blast
    qed
    then show ?thesis using True by simp
  next
    case False
    then have "?C = {}" by (auto simp: mutex_scan_ceilmtx_def scan)
    then have "tskpri s p \<le> x \<longleftrightarrow> bpriority (tcb s p) \<le> x" for x using iff[of x] by blast
    then show ?thesis using False by (simp add: le_iff_eqI)
  qed
qed

theorem owner_priority_witness:
  "tskpri (snd (loc_mtx sample_cfg 1 run_kernel)) 0 =
    Min {mtx_ceilpri (snd (loc_mtx sample_cfg 1 run_kernel)) i | i.
      i \<in> set (mtxqs (snd (loc_mtx sample_cfg 1 run_kernel)) 0) \<and> MTX_CEILING (snd (loc_mtx sample_cfg 1 run_kernel)) i}"
proof -
  let ?s = "snd (loc_mtx sample_cfg 1 run_kernel)"
  have m: "mtx_inv ?s" by (rule mtx_lock_inv(1)[OF mtx_inv_run_kernel kinv_run_kernel run_kernel_sel(3)])
  have c: "ceil_inv ?s" by (rule ceil_inv_lock_calls(1)[OF ceil_inv_run_kernel kinv_run_kernel run_kernel_sel(3)])
  have "0 \<in> set (mtxqs ?s 0)"
    using locked_kernel_sel(3) mtx_genD(2)[OF m[unfolded mtx_inv_def], of 0 0] by simp
  moreover have "MTX_CEILING ?s i" for i using locked_kernel_sel(10) by (simp add: MTX_CEILING_def)
  ultimately have "mutex_scan_ceilmtx 0 ?s" by (cases "mtxqs ?s 0") (auto simp: mutex_scan_ceilmtx_def)
  moreover have "tstat (tcb ?s 0) \<noteq> TS_DORMANT"
    using mtx_genD(3)[OF m[unfolded mtx_inv_def], of 0 0] locked_kernel_sel(3) by simp
  ultimately show ?thesis using owner_priority[OF m c] by simp
qed

end
