(* ===== verification/Asp_Task_Manage.thy ===== *)
theory Asp_Task_Manage
  imports Asp_Task_Sync Asp_Ceiling
begin

text \<open>
  Task management, \<^verbatim>\<open>kernel/task_manage.c\<close>: creation and deletion of tasks, activation and
  termination, base priority. The hooks \<open>mtxhook_check_ceilpri\<close>, \<open>mtxhook_scan_ceilmtx\<close> and
  \<open>mtxhook_release_all\<close> are the functions of the mutex module they point to.
\<close>

section \<open>Operations\<close>

record T_CTSK =
  ctsk_tskatr :: ATR
  ctsk_exinf :: intptr_t
  ctsk_task :: nat
  ctsk_itskpri :: PRI
  ctsk_stksz :: nat
  ctsk_stk :: "nat option"

text \<open>\<open>STK_T\<close> of the ARM GCC target is 8 bytes wide.\<close>

definition ROUND_STK_T :: "nat \<Rightarrow> nat" where
  "ROUND_STK_T sz = unat ((of_nat sz + 8 - 1 :: 32 word) AND NOT (8 - 1))"

abbreviation (input) TIPM_ENAALL :: PRI where "TIPM_ENAALL \<equiv> 0"
abbreviation (input) TARGET_TSKATR :: ATR where "TARGET_TSKATR \<equiv> 0"
abbreviation (input) TARGET_MIN_STKSZ :: nat where "TARGET_MIN_STKSZ \<equiv> 1"

definition FUNC_NONNULL :: "nat \<Rightarrow> bool" where "FUNC_NONNULL func \<longleftrightarrow> func \<noteq> 0"

definition CHECK_NONSELF :: "tsk \<Rightarrow> kernel \<Rightarrow> bool" where
  "CHECK_NONSELF p_tcb s \<longleftrightarrow> p_runtsk s \<noteq> Some p_tcb"

abbreviation upd_tinib :: "tsk \<Rightarrow> (TINIB \<Rightarrow> TINIB) \<Rightarrow> kernel \<Rightarrow> kernel" where
  "upd_tinib p g s \<equiv> upd_tcb p (\<lambda>t. t\<lparr>p_tinib := g (p_tinib t)\<rparr>) s"

definition acre_tsk :: "kernel_cfg \<Rightarrow> T_CTSK \<Rightarrow> kernel \<Rightarrow> result \<times> kernel" where
  "acre_tsk cfg pk_ctsk s =
    (if \<not> CHECK_TSKCTX_UNL s then (Ret E_CTX, s)
     else if \<not> CHECK_RSATR (ctsk_tskatr pk_ctsk) (TA_ACT OR TARGET_TSKATR) then (Ret E_RSATR, s)
     else if \<not> FUNC_ALIGNED (ctsk_task pk_ctsk) then (Ret E_PAR, s)
     else if \<not> FUNC_NONNULL (ctsk_task pk_ctsk) then (Ret E_PAR, s)
     else if \<not> VALID_TPRI (ctsk_itskpri pk_ctsk) then (Ret E_PAR, s)
     else if \<not> ctsk_stksz pk_ctsk \<ge> TARGET_MIN_STKSZ then (Ret E_PAR, s)
     else if ctsk_stk pk_ctsk \<noteq> None \<and> \<not> STKSZ_ALIGNED (ctsk_stksz pk_ctsk) then (Ret E_PAR, s)
     else if ctsk_stk pk_ctsk \<noteq> None \<and> \<not> STACK_ALIGNED (the (ctsk_stk pk_ctsk)) then (Ret E_PAR, s)
     else tsk_call (\<lambda>s.
       if q_empty FreeTcb (queues s) then (Ret E_NOID, s)
       else (let (sz, area, atr, s) =
               (if ctsk_stk pk_ctsk = None
                then (let sz = ROUND_STK_T (ctsk_stksz pk_ctsk);
                          (area, s) = kernel_malloc cfg sz s
                      in (sz, area, ctsk_tskatr pk_ctsk OR TA_MEMALLOC, s))
                else (ctsk_stksz pk_ctsk, ctsk_stk pk_ctsk, ctsk_tskatr pk_ctsk, s))
             in if area = None then (Ret E_NOMEM, s)
                else (let (p_tcb, f) = q_delete_next FreeTcb (queues s);
                          s = s\<lparr>queues := f\<rparr>;
                          s = upd_tinib p_tcb (\<lambda>i. i\<lparr>tskatr := atr, exinf := ctsk_exinf pk_ctsk,
                                task := ctsk_task pk_ctsk, ipriority := INT_PRIORITY (ctsk_itskpri pk_ctsk),
                                stksz := sz, stk := area, texatr := TA_NULL, texrtn := None\<rparr>) s;
                          s = upd_tcb p_tcb (\<lambda>t. t\<lparr>actque := False\<rparr>) s;
                          s = make_dormant p_tcb s;
                          s = s\<lparr>mtxqs := q_initialize p_tcb (mtxqs s)\<rparr>;
                          s = (if tskatr (p_tinib (tcb s p_tcb)) AND TA_ACT \<noteq> 0
                               then dispatch_if (make_active p_tcb s) else s)
                      in (Ret (TSKID p_tcb), s)))) s)"

definition del_tsk :: "kernel_cfg \<Rightarrow> ID \<Rightarrow> kernel \<Rightarrow> result \<times> kernel" where
  "del_tsk cfg tskid s =
    (if \<not> CHECK_TSKCTX_UNL s then (Ret E_CTX, s)
     else if \<not> VALID_TSKID cfg tskid then (Ret E_ID, s)
     else let p_tcb = INDEX_TSK tskid in tsk_call (\<lambda>s.
       if tskatr (p_tinib (tcb s p_tcb)) = TA_NOEXS then (Ret E_NOEXS, s)
       else if TSKID p_tcb > tmax_stskid cfg \<and> TSTAT_DORMANT (tstat (tcb s p_tcb))
       then (let s = (if tskatr (p_tinib (tcb s p_tcb)) AND TA_MEMALLOC \<noteq> 0
                      then kernel_free (stk (p_tinib (tcb s p_tcb))) s else s);
                 s = upd_tinib p_tcb (\<lambda>i. i\<lparr>tskatr := TA_NOEXS\<rparr>) s;
                 s = s\<lparr>queues := q_insert_prev FreeTcb p_tcb (queues s)\<rparr>
             in (Ret E_OK, s))
       else (Ret E_OBJ, s)) s)"

definition act_tsk :: "kernel_cfg \<Rightarrow> ID \<Rightarrow> kernel \<Rightarrow> result \<times> kernel" where
  "act_tsk cfg tskid s =
    (if \<not> CHECK_TSKCTX_UNL s then (Ret E_CTX, s)
     else if \<not> CHECK_TSKID_SELF cfg tskid then (Ret E_ID, s)
     else let p_tcb = get_tcb_self tskid s in tsk_call (\<lambda>s.
       if tskatr (p_tinib (tcb s p_tcb)) = TA_NOEXS then (Ret E_NOEXS, s)
       else if TSTAT_DORMANT (tstat (tcb s p_tcb)) then (Ret E_OK, dispatch_if (make_active p_tcb s))
       else if \<not> actque (tcb s p_tcb) then (Ret E_OK, upd_tcb p_tcb (\<lambda>t. t\<lparr>actque := True\<rparr>) s)
       else (Ret E_QOVR, s)) s)"

definition iact_tsk :: "kernel_cfg \<Rightarrow> ID \<Rightarrow> kernel \<Rightarrow> result \<times> kernel" where
  "iact_tsk cfg tskid s =
    (if \<not> CHECK_INTCTX_UNL s then (Ret E_CTX, s)
     else if \<not> VALID_TSKID cfg tskid then (Ret E_ID, s)
     else let p_tcb = INDEX_TSK tskid in int_call (\<lambda>s.
       if tskatr (p_tinib (tcb s p_tcb)) = TA_NOEXS then (Ret E_NOEXS, s)
       else if TSTAT_DORMANT (tstat (tcb s p_tcb)) then (Ret E_OK, reqflg_if (make_active p_tcb s))
       else if \<not> actque (tcb s p_tcb) then (Ret E_OK, upd_tcb p_tcb (\<lambda>t. t\<lparr>actque := True\<rparr>) s)
       else (Ret E_QOVR, s)) s)"

definition can_act :: "kernel_cfg \<Rightarrow> ID \<Rightarrow> kernel \<Rightarrow> result \<times> kernel" where
  "can_act cfg tskid s =
    (if \<not> CHECK_TSKCTX_UNL s then (Ret E_CTX, s)
     else if \<not> CHECK_TSKID_SELF cfg tskid then (Ret E_ID, s)
     else let p_tcb = get_tcb_self tskid s in tsk_call (\<lambda>s.
       if tskatr (p_tinib (tcb s p_tcb)) = TA_NOEXS then (Ret E_NOEXS, s)
       else (Ret (if actque (tcb s p_tcb) then 1 else 0), upd_tcb p_tcb (\<lambda>t. t\<lparr>actque := False\<rparr>) s)) s)"

text \<open>
  Successful termination of the calling task does not return: the result is \<open>None\<close>. The CPU is
  unlocked when the task that \<open>exit_and_dispatch\<close> switches to goes on.
\<close>

definition ext_tsk :: "kernel \<Rightarrow> result option \<times> kernel" where
  "ext_tsk s =
    (if \<not> CHECK_TSKCTX s then (Some (Ret E_CTX), s)
     else (let s = (if cpu_lock s then s else t_lock_cpu s);
               s = (if disdsp s then s\<lparr>disdsp := False\<rparr> else s);
               s = (if \<not> ipmflg s then s\<lparr>intpri := TIPM_ENAALL, ipmflg := True\<rparr> else s);
               s = s\<lparr>dspflg := True\<rparr>;
               p = runtsk s;
               s = snd (make_non_runnable p s);
               s = (if \<not> q_empty p (mtxqs s) then snd (mutex_release_all p s) else s);
               s = make_dormant p s;
               s = (if actque (tcb s p)
                    then (let s = upd_tcb p (\<lambda>t. t\<lparr>actque := False\<rparr>) s in snd (make_active p s))
                    else s)
           in (None, t_unlock_cpu (dispatch s))))"

definition ter_tsk :: "kernel_cfg \<Rightarrow> ID \<Rightarrow> kernel \<Rightarrow> result \<times> kernel" where
  "ter_tsk cfg tskid s =
    (if \<not> CHECK_TSKCTX_UNL s then (Ret E_CTX, s)
     else if \<not> VALID_TSKID cfg tskid then (Ret E_ID, s)
     else let p_tcb = INDEX_TSK tskid in
       if \<not> CHECK_NONSELF p_tcb s then (Ret E_ILUSE, s)
       else tsk_call (\<lambda>s.
         if tskatr (p_tinib (tcb s p_tcb)) = TA_NOEXS then (Ret E_NOEXS, s)
         else if TSTAT_DORMANT (tstat (tcb s p_tcb)) then (Ret E_OBJ, s)
         else (let s = (if TSTAT_RUNNABLE (tstat (tcb s p_tcb)) then snd (make_non_runnable p_tcb s)
                        else if TSTAT_WAITING (tstat (tcb s p_tcb))
                        then wait_dequeue_tmevtb p_tcb (wait_dequeue_wobj p_tcb s)
                        else s);
                   (d1, s) = (if \<not> q_empty p_tcb (mtxqs s) then mutex_release_all p_tcb s else (False, s));
                   s = make_dormant p_tcb s;
                   (d2, s) = (if actque (tcb s p_tcb)
                              then (let s = upd_tcb p_tcb (\<lambda>t. t\<lparr>actque := False\<rparr>) s in make_active p_tcb s)
                              else (False, s))
               in (Ret E_OK, dispatch_if (d1 \<or> d2, s)))) s)"

definition chg_pri :: "kernel_cfg \<Rightarrow> ID \<Rightarrow> PRI \<Rightarrow> kernel \<Rightarrow> result \<times> kernel" where
  "chg_pri cfg tskid pri s =
    (if \<not> CHECK_TSKCTX_UNL s then (Ret E_CTX, s)
     else if \<not> CHECK_TSKID_SELF cfg tskid then (Ret E_ID, s)
     else if \<not> CHECK_TPRI_INI pri then (Ret E_PAR, s)
     else let p_tcb = get_tcb_self tskid s;
              newbpri = (if pri = TPRI_INI then ipriority (p_tinib (tcb s p_tcb)) else INT_PRIORITY pri)
          in tsk_call (\<lambda>s.
            if tskatr (p_tinib (tcb s p_tcb)) = TA_NOEXS then (Ret E_NOEXS, s)
            else if TSTAT_DORMANT (tstat (tcb s p_tcb)) then (Ret E_OBJ, s)
            else if (\<not> q_empty p_tcb (mtxqs s) \<or> TSTAT_WAIT_MTX (tstat (tcb s p_tcb))) \<and>
                    \<not> mutex_check_ceilpri p_tcb newbpri s
            then (Ret E_ILUSE, s)
            else (let s = upd_tcb p_tcb (\<lambda>t. t\<lparr>bpriority := newbpri\<rparr>) s
                  in (Ret E_OK, if q_empty p_tcb (mtxqs s) \<or> \<not> mutex_scan_ceilmtx p_tcb s
                                then dispatch_if (change_priority p_tcb newbpri False s) else s))) s)"

definition get_pri :: "kernel_cfg \<Rightarrow> ID \<Rightarrow> kernel \<Rightarrow> (result \<times> PRI option) \<times> kernel" where
  "get_pri cfg tskid s =
    (if \<not> CHECK_TSKCTX_UNL s then ((Ret E_CTX, None), s)
     else if \<not> CHECK_TSKID_SELF cfg tskid then ((Ret E_ID, None), s)
     else let p_tcb = get_tcb_self tskid s in tsk_call (\<lambda>s.
       if tskatr (p_tinib (tcb s p_tcb)) = TA_NOEXS then ((Ret E_NOEXS, None), s)
       else if TSTAT_DORMANT (tstat (tcb s p_tcb)) then ((Ret E_OBJ, None), s)
       else ((Ret E_OK, Some (EXT_TSKPRI (priority (tcb s p_tcb)))), s)) s)"

definition get_inf :: "kernel \<Rightarrow> (result \<times> intptr_t option) \<times> kernel" where
  "get_inf s =
    (if \<not> CHECK_TSKCTX_UNL s then ((Ret E_CTX, None), s)
     else tsk_call (\<lambda>s. ((Ret E_OK, Some (exinf (p_tinib (tcb s (runtsk s))))), s)) s)"

section \<open>A task that is in no queue\<close>

text \<open>
  Termination takes a task out of its queue and its time event first, then releases its mutexes, and
  sets its state last. The release of the mutexes does not look at the control block of the
  terminated task, so it may as well come last.
\<close>

definition detached :: "tsk \<Rightarrow> kernel \<Rightarrow> bool" where
  "detached p s \<longleftrightarrow> q_free p (queues s) \<and> p_schedtsk s \<noteq> Some p"

definition with_tcb :: "tsk \<Rightarrow> TCB \<Rightarrow> tsk option \<Rightarrow> kernel \<Rightarrow> kernel" where
  "with_tcb p t r s = s\<lparr>tcb := (tcb s)(p := t), p_runtsk := r\<rparr>"

lemma make_runnable_with_tcb:
  assumes "p_schedtsk s \<noteq> Some p" and "q \<noteq> p"
  shows "make_runnable q (with_tcb p t r s) = (fst (make_runnable q s), with_tcb p t r (snd (make_runnable q s)))"
proof (cases "p_schedtsk s")
  case (Some x)
  then have "x \<noteq> p" using assms(1) by auto
  then show ?thesis using assms(2) Some by (simp add: make_runnable_def with_tcb_def primap_set_def Let_def)
qed (use assms in \<open>simp add: make_runnable_def with_tcb_def primap_set_def Let_def\<close>)

lemma make_non_wait_with_tcb:
  assumes "p_schedtsk s \<noteq> Some p" and "q \<noteq> p"
  shows "make_non_wait q (with_tcb p t r s) = (fst (make_non_wait q s), with_tcb p t r (snd (make_non_wait q s)))"
proof -
  have e: "set_tstat q v (with_tcb p t r s) = with_tcb p t r (set_tstat q v s)" for v
    using assms(2) by (simp add: with_tcb_def fun_upd_twist)
  have "tcb (with_tcb p t r s) q = tcb s q" using assms(2) by (simp add: with_tcb_def)
  then show ?thesis
    unfolding make_non_wait_def e using make_runnable_with_tcb[of "set_tstat q TS_RUNNABLE s" p q t r] assms by simp
qed

lemma make_non_wait_schedtsk: "p_schedtsk (snd (make_non_wait q s)) \<in> {p_schedtsk s, Some q}"
  by (simp add: make_non_wait_def make_runnable_def primap_set_def Let_def)

lemma make_non_wait_tcb: "q \<noteq> p \<Longrightarrow> tcb (snd (make_non_wait q s)) p = tcb s p"
  by (simp add: make_non_wait_def make_runnable_def primap_set_def Let_def)

text \<open>One round of the release, as a function of the state before the new owner gets ready.\<close>

definition handed_over :: "tsk \<Rightarrow> tsk list \<Rightarrow> nat \<Rightarrow> kernel \<Rightarrow> kernel" where
  "handed_over q qs i s =
    (let s = s\<lparr>queues := (queues s)(WaitQ (MTX i) := qs), tme := tm_dequeued q s\<rparr>;
         s = set_wercd q E_OK s;
         s = s\<lparr>mtxcb := (mtxcb s)(i := (mtxcb s i)\<lparr>p_loctsk := Some q\<rparr>), mtxqs := q_insert_prev q i (mtxqs s)\<rparr>
     in if MTX_CEILING s i \<and> mtx_ceilpri s i < tskpri s q
        then upd_tcb q (\<lambda>t. t\<lparr>priority := mtx_ceilpri s i\<rparr>) s else s)"

lemma mutex_release_handed_over:
  assumes "queues s (WaitQ (MTX i)) = q # qs"
  shows "mutex_release i s = make_non_wait q (handed_over q qs i s)"
proof -
  have "tm_dequeued q (s\<lparr>queues := f\<rparr>) = tm_dequeued q s" for f by (rule tm_dequeued_cong) simp_all
  then show ?thesis
    using assms
    by (simp add: mutex_release_def handed_over_def q_empty_def q_delete_next_def wait_dequeue_tmevtb_eq Let_def
        MTX_CEILING_def)
qed

lemma with_tcb_sel:
  "queues (with_tcb p t r s) = queues s" "mtxcb (with_tcb p t r s) = mtxcb s" "mtxqs (with_tcb p t r s) = mtxqs s"
  "q \<noteq> p \<Longrightarrow> tcb (with_tcb p t r s) q = tcb s q" "tcb (with_tcb p t r s) p = t"
  by (simp_all add: with_tcb_def)

lemma with_tcb_upd:
  "(with_tcb p t r s)\<lparr>queues := f\<rparr> = with_tcb p t r (s\<lparr>queues := f\<rparr>)"
  "(with_tcb p t r s)\<lparr>tme := tm\<rparr> = with_tcb p t r (s\<lparr>tme := tm\<rparr>)"
  "(with_tcb p t r s)\<lparr>mtxcb := mc\<rparr> = with_tcb p t r (s\<lparr>mtxcb := mc\<rparr>)"
  "(with_tcb p t r s)\<lparr>mtxqs := mq\<rparr> = with_tcb p t r (s\<lparr>mtxqs := mq\<rparr>)"
  by (simp_all add: with_tcb_def)

lemma with_tcb_upd_tcb:
  "q \<noteq> p \<Longrightarrow> (with_tcb p t r s)\<lparr>tcb := (tcb (with_tcb p t r s))(q := x)\<rparr> =
    with_tcb p t r (s\<lparr>tcb := (tcb s)(q := x)\<rparr>)"
  by (simp add: with_tcb_def fun_upd_twist)

lemma handed_over_with_tcb:
  assumes "q \<noteq> p"
  shows "handed_over q qs i (with_tcb p t r s) = with_tcb p t r (handed_over q qs i s)"
proof -
  have "tm_dequeued q (with_tcb p t r s) = tm_dequeued q s"
    using assms by (intro tm_dequeued_cong) (simp_all add: with_tcb_def)
  then show ?thesis
    unfolding handed_over_def Let_def MTX_CEILING_def
    by (simp only: with_tcb_sel with_tcb_upd with_tcb_upd_tcb[OF assms] with_tcb_sel(4)[OF assms] if_distrib[of "with_tcb p t r"])
qed

lemma handed_over_sel:
  "p_schedtsk (handed_over q qs i s) = p_schedtsk s" "q \<noteq> p \<Longrightarrow> tcb (handed_over q qs i s) p = tcb s p"
  "queues (handed_over q qs i s) = (queues s)(WaitQ (MTX i) := qs)"
  by (simp_all add: handed_over_def Let_def)

lemma mutex_release_detached:
  assumes "detached p s"
  shows "mutex_release i (with_tcb p t r s) = (fst (mutex_release i s), with_tcb p t r (snd (mutex_release i s)))"
    and "detached p (snd (mutex_release i s))" and "tcb (snd (mutex_release i s)) p = tcb s p"
proof -
  have "mutex_release i (with_tcb p t r s) = (fst (mutex_release i s), with_tcb p t r (snd (mutex_release i s))) \<and>
    detached p (snd (mutex_release i s)) \<and> tcb (snd (mutex_release i s)) p = tcb s p"
  proof (cases "queues s (WaitQ (MTX i))")
    case Nil
    then show ?thesis
      using assms by (simp add: mutex_release_nil with_tcb_def detached_def q_free_def)
  next
    case (Cons q qs)
    let ?h = "handed_over q qs i s"
    have qp: "q \<noteq> p" using assms Cons by (auto simp: detached_def q_free_def dest: spec[of _ "WaitQ (MTX i)"])
    have c': "queues (with_tcb p t r s) (WaitQ (MTX i)) = q # qs" using Cons by (simp add: with_tcb_def)
    have sch: "p_schedtsk ?h \<noteq> Some p" using assms by (simp add: handed_over_sel detached_def)
    have "q_free p (queues (snd (make_non_wait q ?h)))"
      using assms Cons qp
      by (auto simp: make_non_wait_queues handed_over_sel detached_def q_free_def q_insert_prev_def
          dest: spec[of _ "WaitQ (MTX i)"])
    moreover have "p_schedtsk (snd (make_non_wait q ?h)) \<noteq> Some p"
      using make_non_wait_schedtsk[of q ?h] sch qp by auto
    ultimately show ?thesis
      using make_non_wait_with_tcb[OF sch qp, of t r] make_non_wait_tcb[OF qp, of ?h]
      by (simp add: mutex_release_handed_over[OF Cons] mutex_release_handed_over[OF c'] handed_over_with_tcb[OF qp]
          detached_def handed_over_sel(2)[OF qp])
  qed
  then show "mutex_release i (with_tcb p t r s) = (fst (mutex_release i s), with_tcb p t r (snd (mutex_release i s)))"
    and "detached p (snd (mutex_release i s))" and "tcb (snd (mutex_release i s)) p = tcb s p" by blast+
qed

lemma mutex_release_all_detached:
  "detached p s \<Longrightarrow>
    mutex_release_all p' (with_tcb p t r s) = (fst (mutex_release_all p' s), with_tcb p t r (snd (mutex_release_all p' s))) \<and>
    detached p (snd (mutex_release_all p' s)) \<and> tcb (snd (mutex_release_all p' s)) p = tcb s p"
proof (induction s rule: release_all_induct[where p = p'])
  case (empty s)
  then show ?case by (simp add: mutex_release_all_round with_tcb_sel)
next
  case (round s)
  have d: "detached p (s\<lparr>mtxqs := m\<rparr>)" for m using round(3) by (simp add: detached_def)
  have e: "release_all_round p' (with_tcb p t r s) = (fst (release_all_round p' s), with_tcb p t r (snd (release_all_round p' s)))"
    "detached p (snd (release_all_round p' s))" "tcb (snd (release_all_round p' s)) p = tcb s p"
    using mutex_release_detached[OF d] by (simp_all add: release_all_round_def with_tcb_sel with_tcb_upd)
  have ne: "mtxqs (with_tcb p t r s) p' \<noteq> []" using round(1) by (simp add: with_tcb_sel)
  show ?case
    using round(1) ne round(2)[OF e(2)] e
    by (simp add: mutex_release_all_round[of p' s] mutex_release_all_round[of p' "with_tcb p t r s"])
qed

section \<open>Termination\<close>

definition unlink_task :: "tsk \<Rightarrow> kernel \<Rightarrow> kernel" where
  "unlink_task p s =
    (if TSTAT_RUNNABLE (tstat (tcb s p)) then snd (make_non_runnable p s)
     else if TSTAT_WAITING (tstat (tcb s p)) then wait_dequeue_tmevtb p (wait_dequeue_wobj p s)
     else s)"

lemma q_delete_free: "q_free p f \<Longrightarrow> q_delete p f = f"
  by (auto simp: q_free_def q_delete_def fun_eq_iff remove1_idem)

lemma unlink_task_sel:
  assumes "tsk_inv s" and "tstat (tcb s p) \<noteq> TS_DORMANT"
  shows "queues (unlink_task p s) = q_delete p (queues s)" and "tcb (unlink_task p s) = tcb s"
    and "objects (unlink_task p s) = objects s" and "ready_ok (unlink_task p s)"
    and "heap_ok (tme (unlink_task p s))"
    and "evts (tme (unlink_task p s)) = (evts (tme s))(TskTmevtb p := None)"
    and "callback (tmevtb (tme (unlink_task p s)) b) = callback (tmevtb (tme s) b)"
    and "p_runtsk (unlink_task p s) = p_runtsk s" and "reqflg (unlink_task p s) = reqflg s"
    and "detached p (unlink_task p s)" and "p_schedtsk s \<noteq> Some p \<Longrightarrow> p_schedtsk (unlink_task p s) = p_schedtsk s"
proof -
  let ?u = "unlink_task p s"
  have tk: "tstat_ok (tstat (tcb s p))" using tsk_invD(3)[OF assms(1), of p] by (simp add: tcb_ok_def)
  have ex: "tskatr (p_tinib (tcb s p)) \<noteq> TA_NOEXS" by (rule waiting_exists[OF assms])
  have all: "queues ?u = q_delete p (queues s) \<and> tcb ?u = tcb s \<and> objects ?u = objects s \<and> ready_ok ?u \<and>
    heap_ok (tme ?u) \<and> evts (tme ?u) = (evts (tme s))(TskTmevtb p := None) \<and>
    (\<forall>b. callback (tmevtb (tme ?u) b) = callback (tmevtb (tme s) b)) \<and> p_runtsk ?u = p_runtsk s \<and> reqflg ?u = reqflg s \<and>
    (p_schedtsk s \<noteq> Some p \<longrightarrow> p_schedtsk ?u = p_schedtsk s) \<and> p_schedtsk ?u \<noteq> Some p"
  proof (cases "TSTAT_RUNNABLE (tstat (tcb s p))")
    case True
    note m = make_non_runnable_ready_ok[OF tsk_invD(1)[OF assms(1)] runnable_ready(1)[OF assms(1) True]]
    have "evts (tme s) (TskTmevtb p) = None" by (rule runnable_ready(3)[OF assms(1) True])
    then show ?thesis
      using True m tsk_invD(2)[OF assms(1)] by (auto simp: unlink_task_def fun_upd_idem)
  next
    case nr: False
    have sch: "p_schedtsk s \<noteq> Some p" using schedtsk_runnable[OF assms(1), of p] nr by blast
    have rdy: "p \<notin> set (queues s (ReadyQ pri))" for pri by (rule waiting_not_ready[OF assms(1) nr])
    show ?thesis
    proof (cases "TSTAT_WAITING (tstat (tcb s p))")
      case True
      have u: "?u = s\<lparr>queues := q_delete p (queues s), tme := tm_dequeued p s\<rparr>"
        using True nr wait_dequeue_wobj_eq[OF assms(1) True] tm_dequeued_cong[of "s\<lparr>queues := q_delete p (queues s)\<rparr>" s p]
        by (simp add: unlink_task_def wait_dequeue_tmevtb_eq)
      have r: "ready_ok ?u"
      proof (rule ready_ok_other[OF tsk_invD(1)[OF assms(1)]])
        show "queues ?u (ReadyQ pri) = queues s (ReadyQ pri)" for pri
          using rdy[of pri] by (simp add: u q_delete_def remove1_idem)
      qed (use queues_ok_delete[OF tsk_invD(7)[OF assms(1)]] in \<open>simp_all add: u\<close>)
      show ?thesis using r sch tm_dequeued_without[OF assms(1) True] by (simp add: u tm_without_def)
    next
      case False
      have "q_free p (queues s)"
        using tsk_invD(5)[OF assms(1), of p] ex nr False by (simp add: q_free_def task_place_def)
      moreover have "evts (tme s) (TskTmevtb p) = None"
        using tsk_invD(4)[OF assms(1), of p] False by (simp add: tmout_ok_def timed_def)
      ultimately show ?thesis
        using nr False sch tsk_invD(1,2)[OF assms(1)] by (simp add: unlink_task_def q_delete_free fun_upd_idem)
    qed
  qed
  then show "queues ?u = q_delete p (queues s)" "tcb ?u = tcb s" "objects ?u = objects s" "ready_ok ?u" "heap_ok (tme ?u)"
    "evts (tme ?u) = (evts (tme s))(TskTmevtb p := None)" "callback (tmevtb (tme ?u) b) = callback (tmevtb (tme s) b)"
    "p_runtsk ?u = p_runtsk s" "reqflg ?u = reqflg s" "p_schedtsk s \<noteq> Some p \<Longrightarrow> p_schedtsk ?u = p_schedtsk s" by blast+
  show "detached p ?u"
    using all q_free_delete[OF tsk_invD(7)[OF assms(1)], of p] by (simp add: detached_def)
qed

text \<open>The control block of a task that gets dormant.\<close>

abbreviation dormant :: "TCB \<Rightarrow> TCB" where
  "dormant t \<equiv> t\<lparr>tstat := TS_DORMANT, bpriority := ipriority (p_tinib t), priority := ipriority (p_tinib t),
    wupque := False, enatex := False, texptn := 0\<rparr>"

lemma dormant_inv:
  assumes "tsk_inv s" and "tstat (tcb s p) \<noteq> TS_DORMANT" and "s' = with_tcb p t r (unlink_task p s)"
    and "tstat t = TS_DORMANT" and "p_tinib t = p_tinib (tcb s p)" and "priority t < TNUM_TPRI" and "bpriority t < TNUM_TPRI"
  shows "tsk_inv s'"
proof -
  note u = unlink_task_sel[OF assms(1,2)]
  have ex: "tskatr (p_tinib (tcb s p)) \<noteq> TA_NOEXS" by (rule waiting_exists[OF assms(1,2)])
  have c: "tcb_ok p (tcb s p)" by (rule tsk_invD(3)[OF assms(1)])
  have sel: "tcb s' = (tcb s)(p := t)" "queues s' = q_delete p (queues s)"
    "tme s' = tme (unlink_task p s)" "ready_primap s' = ready_primap (unlink_task p s)"
    "p_schedtsk s' = p_schedtsk (unlink_task p s)" "objects s' = objects s"
    using u(1-3) by (simp_all add: assms(3) with_tcb_def)
  have free: "p \<notin> set (q_delete p (queues s) h)" for h
    using u(10) by (simp add: detached_def q_free_def u(1))
  have pl: "task_place t = None" using ex assms(4,5) by (simp add: task_place_def TSTAT_defs)
  have rdy: "ready_ok s'"
  proof (rule ready_ok_other[OF u(4)])
    show "queues_ok (queues s')" using queues_ok_delete[OF tsk_invD(7)[OF assms(1)]] by (simp add: sel)
    show "x \<in> set (queues (unlink_task p s) (ReadyQ pri)) \<Longrightarrow> tskpri s' x = tskpri (unlink_task p s) x" for x pri
      using free[of "ReadyQ pri"] by (auto simp: sel u(1,2))
  qed (simp_all add: sel u(1))
  show ?thesis
  proof (rule tsk_inv_one[OF assms(1) rdy _ sel(1)])
    show "tcb_ok p t" using c ex assms(4-7) by (simp add: tcb_ok_def tstat_ok_def TSTAT_defs)
    show "tmout_ok p t (tme s')" using assms(4) by (simp add: tmout_ok_def timed_def TSTAT_defs sel u(6))
    show "remove1 p (queues s' h) = remove1 p (queues s h)" for h
      using free[of h] by (simp add: sel remove1_idem) (simp add: q_delete_def)
    show "p \<in> set (queues s' h) \<longleftrightarrow> task_place t = Some h" for h using free[of h] pl by (simp add: sel)
    show "wobjatr s' = wobjatr s" by (rule wobjatr_objects[OF sel(6)])
  qed (use u(5-7) pl in \<open>simp_all add: sel\<close>)
qed

section \<open>The invariants a call of this module keeps\<close>

text \<open>
  The values a dormant task has, as the comment at \<open>TCB\<close> in \<^verbatim>\<open>kernel/task.h\<close> says: the initial
  values of the priorities, of the wakeup request and of the exception state. No activation request
  is queued for it.
\<close>

definition tcb_dormant :: "TCB \<Rightarrow> bool" where
  "tcb_dormant t \<longleftrightarrow> bpriority t = ipriority (p_tinib t) \<and> priority t = ipriority (p_tinib t) \<and> \<not> wupque t \<and>
    \<not> enatex t \<and> texptn t = 0 \<and> \<not> actque t"

definition dormant_ok :: "kernel \<Rightarrow> bool" where
  "dormant_ok s \<longleftrightarrow> (\<forall>p. tskatr (p_tinib (tcb s p)) \<noteq> TA_NOEXS \<longrightarrow> tstat (tcb s p) = TS_DORMANT \<longrightarrow> tcb_dormant (tcb s p))"

lemma dormant_ok_mono:
  assumes "dormant_ok s" and "\<And>p. tstat (tcb s' p) = TS_DORMANT \<Longrightarrow> tcb s' p = tcb s p"
  shows "dormant_ok s'"
  unfolding dormant_ok_def
proof (intro allI impI)
  fix p
  assume "tskatr (p_tinib (tcb s' p)) \<noteq> TA_NOEXS" and d: "tstat (tcb s' p) = TS_DORMANT"
  then show "tcb_dormant (tcb s' p)" using assms(1) unfolding assms(2)[OF d] by (simp add: dormant_ok_def)
qed

text \<open>The objects that the module leaves alone.\<close>

definition pools where
  "pools s = (semcb s, free_semcb s, flgcb s, free_flgcb s, dtqcb s, free_dtqcb s, pdqcb s, free_pdqcb s,
    mbxcb s, free_mbxcb s, pk_next s, msgpri s, mpfcb s, free_mpfcb s, cyccb s, free_cyccb s, almcb s, free_almcb s)"

lemma pools_objects: "objects s' = objects s \<Longrightarrow> pools s' = pools s"
  by (simp add: pools_def objects_def)

lemma pools_upd [simp]:
  "pools (s\<lparr>tcb := a\<rparr>) = pools s" "pools (s\<lparr>queues := b\<rparr>) = pools s" "pools (s\<lparr>mtxqs := c\<rparr>) = pools s"
  "pools (s\<lparr>mtxcb := d\<rparr>) = pools s" "pools (s\<lparr>p_runtsk := e\<rparr>) = pools s" "pools (s\<lparr>kmm_brk := n\<rparr>) = pools s"
  "pools (s\<lparr>dspflg := f\<rparr>) = pools s" "pools (s\<lparr>disdsp := f\<rparr>) = pools s" "pools (s\<lparr>ipmflg := f\<rparr>) = pools s"
  "pools (s\<lparr>intpri := i\<rparr>) = pools s" "pools (s\<lparr>reqflg := f\<rparr>) = pools s"
  by (simp_all add: pools_def)

lemma pools_lock [simp]:
  "pools (t_lock_cpu s) = pools s" "pools (t_unlock_cpu s) = pools s"
  "pools (i_lock_cpu s) = pools s" "pools (i_unlock_cpu s) = pools s" "pools (dispatch s) = pools s"
  by (rule pools_objects, simp)+

text \<open>Release of the mutexes of a task: everything but its own priority is right again.\<close>

lemma mtx_gen_mono: "mtx_gen A X s \<Longrightarrow> X \<subseteq> Y \<Longrightarrow> mtx_gen A Y s"
  unfolding mtx_gen_def by blast

definition rel_ok :: "kernel_cfg \<Rightarrow> tsk \<Rightarrow> kernel \<Rightarrow> kernel \<Rightarrow> bool" where
  "rel_ok cfg p s s' \<longleftrightarrow> winv s' \<and> mtx_gen {} {p} s' \<and> mtx_free cfg s' \<and> (\<forall>q. tstat (tcb s' q) = TS_DORMANT \<longrightarrow> tcb s' q = tcb s q) \<and>
    wait_sub {} s s' \<and> pools s' = pools s"

lemma mutex_release_rel_ok:
  assumes "winv s" and "mtx_gen {} {p} s" and "mtx_free cfg s"
    and "p_loctsk (mtxcb s i) = Some p" and "s' = snd (mutex_release i (s\<lparr>mtxqs := q_delete i (mtxqs s)\<rparr>))"
  shows "rel_ok cfg p s s'"
proof -
  let ?s = "s\<lparr>mtxqs := q_delete i (mtxqs s)\<rparr>"
  have w: "winv ?s" using assms(1) by simp
  have "op_ok ?s (mutex_release i ?s)" by (rule mutex_release_op_ok[OF w])
  then have 1: "winv s'" by (simp add: op_ok_def assms(5))
  have 2: "mtx_gen {} {p} s'"
    unfolding assms(5) by (rule mutex_release_mtx_gen[OF mtx_gen_unlink(1)[OF assms(2,4)] w]) simp
  have 3: "mtx_free cfg s'"
  proof (rule mtx_free_same[OF assms(3)])
    show "free_mtxcb s' = free_mtxcb s" by (simp add: assms(5) mutex_release_mtxcb(2))
    show "mtxcb s' j = mtxcb s j \<and> queues s' (WaitQ (MTX j)) = []"
      if "p_loctsk (mtxcb s j) = None" "queues s (WaitQ (MTX j)) = []" for j
    proof -
      have "j \<noteq> i" using that(1) assms(4) by auto
      then show ?thesis
        using that mutex_release_mtxcb(1)[of j i ?s] mutex_release_waitq[of "WaitQ (MTX j)" i ?s]
        by (simp add: assms(5) is_waitq_def)
    qed
  qed
  have 4: "(\<forall>q. tstat (tcb s' q) = TS_DORMANT \<longrightarrow> tcb s' q = tcb s q) \<and> wait_sub {} s s' \<and> pools s' = pools s"
  proof (cases "queues s (WaitQ (MTX i))")
    case Nil
    then have "s' = s\<lparr>mtxqs := q_delete i (mtxqs s), mtxcb := (mtxcb s)(i := (mtxcb s i)\<lparr>p_loctsk := None\<rparr>)\<rparr>"
      by (simp add: assms(5) mutex_release_nil)
    then show ?thesis by (simp add: wait_sub_same)
  next
    case (Cons q qs)
    have c': "queues ?s (WaitQ (MTX i)) = q # qs" using Cons by simp
    define c where "c = (if MTX_CEILING ?s i \<and> mtx_ceilpri ?s i < tskpri ?s q then mtx_ceilpri ?s i else tskpri ?s q)"
    define s0 where "s0 = ?s\<lparr>tcb := (tcb ?s)(q := (tcb ?s q)\<lparr>priority := c\<rparr>), mtxqs := q_insert_prev q i (mtxqs ?s),
        mtxcb := (mtxcb ?s)(i := (mtxcb ?s i)\<lparr>p_loctsk := Some q\<rparr>)\<rparr>"
    have r: "s' = snd (release E_OK (tm_dequeued q ?s) q s0)"
      unfolding assms(5) by (simp only: mutex_release_release[OF w c' c_def s0_def])
    have "wait_sub {} s0 s'"
      unfolding r by (rule wait_sub_release) (use tsk_invD(7)[OF winvD(1)[OF w]] in \<open>simp add: s0_def\<close>)
    then have ws: "wait_sub {} s s'" by (simp add: wait_sub_def s0_def)
    have "pools s' = pools s0" by (rule pools_objects) (simp add: r)
    moreover have "pools s0 = pools s" by (simp add: s0_def)
    moreover have "tstat (tcb s' x) = TS_DORMANT \<Longrightarrow> tcb s' x = tcb s x" for x
      by (auto simp: r s0_def split: if_splits)
    ultimately show ?thesis using ws by simp
  qed
  from 1 2 3 4 show ?thesis by (simp add: rel_ok_def)
qed

lemma rel_ok_trans:
  assumes "rel_ok cfg p s s1" and "rel_ok cfg p s1 s2"
  shows "rel_ok cfg p s s2"
  using assms wait_sub_trans[of "{}" s s1 s2] unfolding rel_ok_def by metis

lemma mutex_release_all_rel_ok:
  "winv s \<Longrightarrow> mtx_gen {} {p} s \<Longrightarrow> mtx_free cfg s \<Longrightarrow>
    rel_ok cfg p s (snd (mutex_release_all p s)) \<and> mtxqs (snd (mutex_release_all p s)) p = []"
proof (induction s rule: release_all_induct[where p = p])
  case (empty s)
  then show ?case by (simp add: mutex_release_all_round rel_ok_def)
next
  case (round s)
  have "hd (mtxqs s p) \<in> set (mtxqs s p)" using round(1) by simp
  then have "p_loctsk (mtxcb s (hd (mtxqs s p))) = Some p" using mtx_genD(2)[OF round(4)] by blast
  then have r: "rel_ok cfg p s (snd (release_all_round p s))"
    using mutex_release_rel_ok[OF round(3-5)] by (simp add: release_all_round_def)
  then have "rel_ok cfg p (snd (release_all_round p s)) (snd (mutex_release_all p (snd (release_all_round p s)))) \<and>
      mtxqs (snd (mutex_release_all p (snd (release_all_round p s)))) p = []"
    by (intro round(2)) (simp_all add: rel_ok_def)
  then show ?case
    using rel_ok_trans[OF r] round(1) by (simp add: mutex_release_all_round[of p s])
qed

text \<open>
  A terminated task, with its mutexes released; \<open>r\<close> is the running task, none while the calling
  task terminates itself.
\<close>

definition ended :: "tsk \<Rightarrow> tsk option \<Rightarrow> kernel \<Rightarrow> bool \<times> kernel" where
  "ended p r s = mutex_release_all p (with_tcb p (dormant (tcb s p)) r (unlink_task p s))"

lemma ended_code:
  assumes "tsk_inv s" and "tstat (tcb s p) \<noteq> TS_DORMANT" and "v = mutex_release_all p (unlink_task p s)"
  shows "fst v = fst (ended p r s)" and "snd (ended p r s) = (make_dormant p (snd v))\<lparr>p_runtsk := r\<rparr>"
    and "make_dormant p (snd v) = snd (ended p (p_runtsk s) s)"
proof -
  note u = unlink_task_sel[OF assms(1,2)]
  note m = mutex_release_all_detached[OF u(10), of p]
  show "fst v = fst (ended p r s)" using m by (simp add: ended_def assms(3))
  show e: "snd (ended p r s) = (make_dormant p (snd v))\<lparr>p_runtsk := r\<rparr>" for r
    using m[of "dormant (tcb s p)" r] u(2) by (simp add: ended_def assms(3) make_dormant_def with_tcb_def)
  have "with_tcb p (tcb s p) (p_runtsk s) (unlink_task p s) = unlink_task p s"
    using u(2,8) by (intro kernel.equality) (simp_all add: with_tcb_def)
  note w = this
  have "snd v = with_tcb p (tcb s p) (p_runtsk s) (snd v)"
    using arg_cong[OF conjunct1[OF m[of "tcb s p" "p_runtsk s"], unfolded w], of snd] by (simp only: assms(3) snd_conv)
  from arg_cong[OF this, of p_runtsk] have "p_runtsk (snd v) = p_runtsk s" by (simp add: with_tcb_def)
  then show "make_dormant p (snd v) = snd (ended p (p_runtsk s) s)" by (simp add: e)
qed

text \<open>The invariants of all modules that tasks and mutexes share.\<close>

definition tman_base :: "kernel_cfg \<Rightarrow> kernel \<Rightarrow> bool" where
  "tman_base cfg s \<longleftrightarrow> winv s \<and> mtx_inv s \<and> mtx_free cfg s \<and> ceil_inv s \<and> dormant_ok s"

definition tman_inv :: "kernel_cfg \<Rightarrow> kernel \<Rightarrow> bool" where
  "tman_inv cfg s \<longleftrightarrow> kinv s \<and> mtx_inv s \<and> mtx_free cfg s \<and> ceil_inv s \<and> dormant_ok s"

lemma tman_invD:
  assumes "tman_inv cfg s"
  shows "kinv s" and "mtx_inv s" and "mtx_free cfg s" and "ceil_inv s" and "dormant_ok s"
  using assms by (simp_all add: tman_inv_def)

lemma tman_baseD:
  assumes "tman_base cfg s"
  shows "winv s" and "mtx_inv s" and "mtx_free cfg s" and "ceil_inv s" and "dormant_ok s"
  using assms by (simp_all add: tman_base_def)

lemma tman_inv_base: "tman_inv cfg s \<Longrightarrow> tman_base cfg s"
  by (simp add: tman_inv_def tman_base_def kinv_def)

lemma ended_start:
  assumes "tman_base cfg s" and "tstat (tcb s p) \<noteq> TS_DORMANT" and "t1 = with_tcb p t r (unlink_task p s)"
    and "tstat t = TS_DORMANT" and "p_tinib t = p_tinib (tcb s p)" and "priority t < TNUM_TPRI" and "bpriority t < TNUM_TPRI"
    and "\<forall>q. r = Some q \<longrightarrow> p_runtsk s = Some q \<and> q \<noteq> p"
  shows "winv t1" and "mtx_gen {} {p} t1" and "mtx_free cfg t1" and "wait_sub {} s t1" and "pools t1 = pools s"
    and "tcb t1 = (tcb s)(p := t)" and "queues t1 = q_delete p (queues s)" and "mtxqs t1 = mtxqs s" and "mtxcb t1 = mtxcb s"
proof -
  note i = tman_baseD[OF assms(1)] and t = winvD(1)[OF tman_baseD(1)[OF assms(1)]]
  note u = unlink_task_sel[OF t assms(2)]
  have sel: "tcb t1 = (tcb s)(p := t)" "queues t1 = q_delete p (queues s)" "objects t1 = objects s" "p_runtsk t1 = r"
    using u(1-3) by (simp_all add: assms(3) with_tcb_def)
  note ob = objectsD[OF sel(3)]
  show "winv t1"
    using dormant_inv[OF t assms(2-7)] winvD(2)[OF i(1)] assms(8) by (auto simp: winv_def sel)
  have nil: "queues s h = [] \<Longrightarrow> queues t1 h = []" for h by (simp add: sel q_delete_def)
  show "mtx_gen {} {p} t1"
    by (rule mtx_gen_same[OF mtx_gen_mono[OF i(2)[unfolded mtx_inv_def], of "{p}"]]) (use nil in \<open>simp_all add: sel ob\<close>)
  show "mtx_free cfg t1" by (rule mtx_free_same[OF i(3)]) (use nil in \<open>simp_all add: ob\<close>)
  show "wait_sub {} s t1"
    using u(10)
    by (auto simp: wait_sub_def sel q_delete_def length_remove1 detached_def q_free_def u(1) dest: set_mp[OF set_remove1_subset])
  show "pools t1 = pools s" by (rule pools_objects[OF sel(3)])
  show "tcb t1 = (tcb s)(p := t)" "queues t1 = q_delete p (queues s)" "mtxqs t1 = mtxqs s" "mtxcb t1 = mtxcb s"
    by (simp_all add: sel ob)
qed

lemma mtx_gen_dormant:
  assumes "mtx_gen {} {p} s" and "mtxqs s p = []" and "tstat (tcb s p) = TS_DORMANT"
  shows "mtx_inv s"
proof -
  note g = mtx_genD[OF assms(1)]
  have no: "p_loctsk (mtxcb s i) \<noteq> Some p" for i using g(2)[of i p] assms(2) by simp
  show ?thesis
    unfolding mtx_inv_def mtx_gen_def
  proof (intro conjI allI impI)
    fix i q
    assume "p_loctsk (mtxcb s i) = Some q"
    then show "tstat (tcb s q) \<noteq> TS_DORMANT" using g(3)[of i q] no[of i] by auto
  next
    fix q
    assume "tstat (tcb s q) \<noteq> TS_DORMANT"
    then show "tskpri s q = mutex_calc_priority q s" using g(5)[of q] assms(3) by auto
  qed (use g(1,2,4) in simp_all)
qed

text \<open>With its mutexes released, the terminated task is in order again, but for a queued activation.\<close>

lemma ended_ok:
  assumes "tman_base cfg s" and "tstat (tcb s p) \<noteq> TS_DORMANT"
    and "\<forall>q. r = Some q \<longrightarrow> p_runtsk s = Some q \<and> q \<noteq> p" and "e = snd (ended p r s)"
  shows "winv e" and "mtx_inv e" and "mtx_free cfg e" and "ceil_inv e" and "wait_sub {} s e" and "pools e = pools s"
    and "tcb e p = dormant (tcb s p)" and "\<And>q. q \<noteq> p \<Longrightarrow> tstat (tcb e q) = TS_DORMANT \<Longrightarrow> tcb e q = tcb s q"
    and "detached p e" and "mtxqs e p = []"
proof -
  let ?u = "unlink_task p s" and ?d = "dormant (tcb s p)" and ?t = "(tcb s p)\<lparr>tstat := TS_DORMANT\<rparr>"
  note i = tman_baseD[OF assms(1)] and t = winvD(1)[OF tman_baseD(1)[OF assms(1)]]
  have ex: "tskatr (p_tinib (tcb s p)) \<noteq> TA_NOEXS" by (rule waiting_exists[OF t assms(2)])
  note pri = exists_pri[OF i(1) ex]
  have det: "detached p ?u" by (rule unlink_task_sel(10)[OF t assms(2)])
  define t1 where "t1 = with_tcb p ?d r ?u"
  have e: "e = snd (mutex_release_all p t1)" by (simp add: assms(4) ended_def t1_def)
  note s1 = ended_start[OF assms(1,2) t1_def _ _ _ _ assms(3), simplified, OF pri(3)]
  have r: "rel_ok cfg p t1 e" and nil: "mtxqs e p = []"
    using mutex_release_all_rel_ok[OF s1(1-3)] by (simp_all add: e)
  have c: "e = with_tcb p ?d r (snd (mutex_release_all p ?u))" "detached p e"
    using mutex_release_all_detached[OF det, of p ?d r] by (simp_all add: e t1_def detached_def with_tcb_def)
  show "winv e" "mtx_free cfg e" "pools e = pools s" using r s1(5) by (simp_all add: rel_ok_def)
  show "wait_sub {} s e" using r wait_sub_trans[OF s1(4)] by (simp add: rel_ok_def)
  show d: "tcb e p = ?d" by (simp add: c with_tcb_def)
  show "mtxqs e p = []" "detached p e" by (rule nil, rule c(2))
  show "tcb e q = tcb s q" if "q \<noteq> p" "tstat (tcb e q) = TS_DORMANT" for q
  proof -
    have "tcb e q = tcb t1 q" using r that(2) unfolding rel_ok_def by blast
    then show ?thesis using that(1) by (simp add: s1(6))
  qed
  have g: "mtx_gen {} {p} e" using r by (simp add: rel_ok_def)
  show "mtx_inv e" by (rule mtx_gen_dormant[OF g nil]) (simp add: d)
  define t2 where "t2 = with_tcb p ?t r ?u"
  note s2 = ended_start[OF assms(1,2) t2_def _ _ _ _ assms(3), simplified, OF pri(1,2)]
  have "ceil_inv t2"
    by (rule ceil_inv_mono[OF i(4)]) (auto simp: s2(6-9) mtx_user_def q_delete_def dest: set_mp[OF set_remove1_subset])
  note ceil = ceil_inv_release_all[OF s2(1) this, of p]
  have e2: "snd (mutex_release_all p t2) = with_tcb p ?t r (snd (mutex_release_all p ?u))"
    using mutex_release_all_detached[OF det, of p ?t r] by (simp add: t2_def)
  show "ceil_inv e"
    unfolding ceil_inv_def
  proof (intro allI impI)
    fix j q
    assume a: "MTX_CEILING e j" and m: "mtx_user e j q"
    have "q \<noteq> p" using m nil c(2) by (auto simp: mtx_user_def detached_def q_free_def)
    then show "mtx_ceilpri e j \<le> bpriority (tcb e q)"
      using ceil_invD[OF ceil, of j q] a m by (simp add: e2 c with_tcb_def MTX_CEILING_def mtx_user_def)
  qed
qed

section \<open>Activation\<close>

definition tman_step :: "kernel_cfg \<Rightarrow> kernel \<Rightarrow> kernel \<Rightarrow> bool" where
  "tman_step cfg s s' \<longleftrightarrow> tman_inv cfg s' \<and> wait_sub {} s s' \<and> pools s' = pools s"

lemma tman_step_refl: "tman_inv cfg s \<Longrightarrow> tman_step cfg s s"
  by (simp add: tman_step_def)

lemma dormant_ok_lock [simp]:
  "dormant_ok (t_lock_cpu s) = dormant_ok s" "dormant_ok (t_unlock_cpu s) = dormant_ok s"
  "dormant_ok (i_lock_cpu s) = dormant_ok s" "dormant_ok (i_unlock_cpu s) = dormant_ok s"
  "dormant_ok (dispatch s) = dormant_ok s" "dormant_ok (s\<lparr>reqflg := b\<rparr>) = dormant_ok s"
  by (simp_all add: dormant_ok_def lock_sel dispatch_def)

lemma tman_lock [simp]:
  "tman_inv cfg (t_lock_cpu s) = tman_inv cfg s" "tman_inv cfg (t_unlock_cpu s) = tman_inv cfg s"
  "tman_inv cfg (i_lock_cpu s) = tman_inv cfg s" "tman_inv cfg (i_unlock_cpu s) = tman_inv cfg s"
proof -
  have "mtx_free cfg (i_lock_cpu s) = mtx_free cfg s" "mtx_free cfg (i_unlock_cpu s) = mtx_free cfg s"
    by (simp_all add: mtx_free_def lock_objects lock_sel)
  then show "tman_inv cfg (t_lock_cpu s) = tman_inv cfg s" "tman_inv cfg (t_unlock_cpu s) = tman_inv cfg s"
    "tman_inv cfg (i_lock_cpu s) = tman_inv cfg s" "tman_inv cfg (i_unlock_cpu s) = tman_inv cfg s"
    by (simp_all add: tman_inv_def)
qed

lemma tman_step_lock [simp]:
  "tman_step cfg (t_lock_cpu s) s' = tman_step cfg s s'" "tman_step cfg s (t_unlock_cpu s') = tman_step cfg s s'"
  "tman_step cfg (i_lock_cpu s) s' = tman_step cfg s s'" "tman_step cfg s (i_unlock_cpu s') = tman_step cfg s s'"
  by (simp_all add: tman_step_def wait_sub_cong[of "t_lock_cpu s" s s' s'] wait_sub_cong[of "i_lock_cpu s" s s' s'] lock_sel
      pools_objects[of "t_lock_cpu s" s] pools_objects[of "i_lock_cpu s" s]
      pools_objects[of "t_unlock_cpu s'" s'] pools_objects[of "i_unlock_cpu s'" s'])

lemma tman_step_call:
  "tman_step cfg s (snd (body (t_lock_cpu s))) \<Longrightarrow> tman_step cfg s (snd (tsk_call body s))"
  "tman_step cfg s (snd (body' (i_lock_cpu s))) \<Longrightarrow> tman_step cfg s (snd (int_call body' s))"
  by (simp_all add: tsk_call_def int_call_def case_prod_beta)

text \<open>From an operation on the ready queue to the end of the service call that does it.\<close>

definition tman_op :: "kernel_cfg \<Rightarrow> kernel \<Rightarrow> bool \<times> kernel \<Rightarrow> bool" where
  "tman_op cfg s r \<longleftrightarrow> op_ok s r \<and> mtx_inv (snd r) \<and> mtx_free cfg (snd r) \<and> ceil_inv (snd r) \<and>
    dormant_ok (snd r) \<and> wait_sub {} s (snd r) \<and> pools (snd r) = pools s"

lemma tman_op_step:
  assumes "kinv s" and "tman_op cfg s r"
  shows "tman_step cfg s (dispatch_if r)" and "tman_step cfg s (reqflg_if r)"
proof -
  have m: "mtx_inv (x\<lparr>reqflg := b\<rparr>) = mtx_inv x" "mtx_free cfg (x\<lparr>reqflg := b\<rparr>) = mtx_free cfg x"
    "ceil_inv (x\<lparr>reqflg := b\<rparr>) = ceil_inv x" for x b
    by (simp_all add: mtx_inv_def mtx_gen_def mutex_calc_priority_def mtx_free_def ceil_inv_def mtx_user_def
        MTX_CEILING_def calc_priority_cong(1)[of "x\<lparr>reqflg := b\<rparr>" x])
  have p: "pools (dispatch x) = pools x" for x by (rule pools_objects) simp
  show "tman_step cfg s (dispatch_if r)"
    using assms op_ok_dispatch_if[OF assms(1), of r]
    by (simp add: tman_step_def tman_op_def tman_inv_def) (simp add: dispatch_if_def p)
  show "tman_step cfg s (reqflg_if r)"
    using assms op_ok_reqflg_if[OF assms(1), of r]
    by (simp add: tman_step_def tman_op_def tman_inv_def) (simp add: reqflg_if_def m)
qed

lemma make_active_sel:
  "tcb (snd (make_active p s)) = (tcb s)(p := (tcb s p)\<lparr>tstat := TS_RUNNABLE\<rparr>)"
  "queues (snd (make_active p s)) = q_insert_prev (ReadyQ (tskpri s p)) p (queues s)"
  "objects (snd (make_active p s)) = objects s"
  by (simp_all add: make_active_def)

lemma make_active_tman:
  assumes "winv s" and "mtx_inv s" and "mtx_free cfg s" and "ceil_inv s"
    and "tstat (tcb s p) = TS_DORMANT" and "tskatr (p_tinib (tcb s p)) \<noteq> TA_NOEXS" and "tskpri s p = bpriority (tcb s p)"
    and "\<And>q. q \<noteq> p \<Longrightarrow> tskatr (p_tinib (tcb s q)) \<noteq> TA_NOEXS \<Longrightarrow> tstat (tcb s q) = TS_DORMANT \<Longrightarrow> tcb_dormant (tcb s q)"
  shows "tman_op cfg s (make_active p s)"
proof -
  let ?s = "snd (make_active p s)"
  note sel = make_active_sel[of p s]
  note ob = objectsD[OF sel(3)]
  note g = mtx_genD[OF assms(2)[unfolded mtx_inv_def]]
  have wq: "queues ?s (WaitQ w) = queues s (WaitQ w)" for w by (simp add: sel q_insert_prev_def)
  have nil: "mtxqs s p = []"
    using g(2)[of _ p] g(3)[of _ p] assms(5) by (cases "mtxqs s p") auto
  have cc: "calc_priority_loop ?s b is = calc_priority_loop s b is" for b "is" by (rule calc_priority_cong) (simp add: ob)
  have m: "mtx_inv ?s"
    unfolding mtx_inv_def mtx_gen_def
  proof (intro conjI allI impI)
    fix q
    assume "tstat (tcb ?s q) \<noteq> TS_DORMANT"
    then show "tskpri ?s q = mutex_calc_priority q ?s"
      using g(5)[of q] assms(7) nil by (cases "q = p") (simp_all add: mutex_calc_priority_def cc sel(1) ob)
  next
    fix i q
    assume "p_loctsk (mtxcb ?s i) = Some q"
    then show "tstat (tcb ?s q) \<noteq> TS_DORMANT" using g(3)[of i q] by (cases "q = p") (simp_all add: sel(1) ob)
  qed (use g(1,2,4) in \<open>simp_all add: ob wq\<close>)
  have f: "mtx_free cfg ?s" by (rule mtx_free_same[OF assms(3)]) (simp_all add: ob wq)
  have c: "ceil_inv ?s"
    by (rule ceil_inv_mono[OF assms(4)]) (auto simp: ob sel(1) wq mtx_user_def)
  have d: "dormant_ok ?s" using assms(8) by (simp add: dormant_ok_def sel(1))
  have ws: "wait_sub {} s ?s"
    by (rule wait_sub_waitqs) (auto simp: sel q_insert_prev_def is_waitq_def split: qhead.splits)
  have dm: "TSTAT_DORMANT (tstat (tcb s p))" using assms(5) by (simp add: TSTAT_defs)
  show ?thesis
    using make_active_op_ok[OF assms(1) dm assms(6)] m f c d ws pools_objects[OF sel(3)]
    by (simp add: tman_op_def)
qed

text \<open>The end of a termination: a queued activation request starts the task again.\<close>

definition restart :: "tsk \<Rightarrow> kernel \<Rightarrow> bool \<times> kernel" where
  "restart p s =
    (if actque (tcb s p) then (let s = upd_tcb p (\<lambda>t. t\<lparr>actque := False\<rparr>) s in make_active p s) else (False, s))"

lemma restart_tman:
  assumes "tman_base cfg s" and "tstat (tcb s p) \<noteq> TS_DORMANT"
    and "\<forall>q. r = Some q \<longrightarrow> p_runtsk s = Some q \<and> q \<noteq> p" and "e = snd (ended p r s)" and "x = restart p e"
  shows "op_ok e x" and "mtx_inv (snd x)" and "mtx_free cfg (snd x)" and "ceil_inv (snd x)"
    and "dormant_ok (snd x)" and "wait_sub {} s (snd x)" and "pools (snd x) = pools s"
proof -
  note i = tman_baseD[OF assms(1)] and e = ended_ok[OF assms(1-4)]
  have dm: "tskatr (p_tinib (tcb s q)) \<noteq> TA_NOEXS \<Longrightarrow> tstat (tcb s q) = TS_DORMANT \<Longrightarrow> tcb_dormant (tcb s q)" for q
    using i(5) by (simp add: dormant_ok_def)
  have dq: "tcb_dormant (tcb e q)" if "q \<noteq> p" "tskatr (p_tinib (tcb e q)) \<noteq> TA_NOEXS" "tstat (tcb e q) = TS_DORMANT" for q
    using e(8)[OF that(1,3)] dm[of q] that by simp
  have "op_ok e x \<and> mtx_inv (snd x) \<and> mtx_free cfg (snd x) \<and> ceil_inv (snd x) \<and> dormant_ok (snd x) \<and>
    wait_sub {} s (snd x) \<and> pools (snd x) = pools s"
  proof (cases "actque (tcb s p)")
    case True
    let ?e = "upd_tcb p (\<lambda>t. t\<lparr>actque := False\<rparr>) e"
    have ex: "tskatr (p_tinib (tcb s p)) \<noteq> TA_NOEXS" by (rule waiting_exists[OF winvD(1)[OF i(1)] assms(2)])
    have x: "x = make_active p ?e" using True e(7) by (simp add: assms(5) restart_def)
    have "bpriority (tcb e p) < TNUM_TPRI" using exists_pri(3)[OF i(1) ex] by (simp add: e(7))
    then have "tsk_inv ?e"
      by (intro tsk_inv_tcb[OF winvD(1)[OF e(1)]]) simp_all
    then have "winv ?e" using winvD(2)[OF e(1)] by (auto simp: winv_def)
    moreover have "mtx_inv ?e" by (rule mtx_inv_same[OF e(2)]) simp_all
    moreover have "mtx_free cfg ?e" by (rule mtx_free_same[OF e(3)]) simp_all
    moreover have "ceil_inv ?e" by (rule ceil_inv_mono[OF e(4)]) (auto simp: mtx_user_def)
    ultimately have m: "tman_op cfg ?e x"
      unfolding x by (rule make_active_tman) (use e(7) ex dq in simp_all)
    have "wait_sub {} s ?e" using e(5) e(9) by (auto simp: wait_sub_def detached_def q_free_def)
    then have "wait_sub {} s (snd x)" using m wait_sub_trans by (auto simp: tman_op_def)
    then show ?thesis
      using m e(6) op_ok_before[of ?e x e] by (simp add: tman_op_def)
  next
    case False
    then have x: "x = (False, e)" using e(7) by (simp add: assms(5) restart_def)
    have "dormant_ok e"
      unfolding dormant_ok_def
    proof (intro allI impI)
      fix q
      assume "tskatr (p_tinib (tcb e q)) \<noteq> TA_NOEXS" and "tstat (tcb e q) = TS_DORMANT"
      then show "tcb_dormant (tcb e q)" using dq[of q] e(7) False by (cases "q = p") (simp_all add: tcb_dormant_def)
    qed
    then show ?thesis using e op_ok_refl[OF e(1)] by (simp add: x)
  qed
  then show "op_ok e x" "mtx_inv (snd x)" "mtx_free cfg (snd x)" "ceil_inv (snd x)"
    "dormant_ok (snd x)" "wait_sub {} s (snd x)" "pools (snd x) = pools s" by blast+
qed

lemma ended_op_ok:
  assumes "tman_inv cfg s" and "tstat (tcb s p) \<noteq> TS_DORMANT" and "p_runtsk s \<noteq> Some p" and "\<not> reqflg s"
  shows "op_ok s (ended p (p_runtsk s) s)"
proof -
  note k = tman_invD(1)[OF assms(1)] and t = kinvD(1)[OF tman_invD(1)[OF assms(1)]]
  note u = unlink_task_sel[OF t assms(2)]
  have ex: "tskatr (p_tinib (tcb s p)) \<noteq> TA_NOEXS" by (rule waiting_exists[OF t assms(2)])
  define t1 where "t1 = with_tcb p (dormant (tcb s p)) (p_runtsk s) (unlink_task p s)"
  have run: "\<forall>q. p_runtsk s = Some q \<longrightarrow> p_runtsk s = Some q \<and> q \<noteq> p" using assms(3) by auto
  have "winv t1"
    by (rule ended_start(1)[OF tman_inv_base[OF assms(1)] assms(2) t1_def]) (use run exists_pri(3)[OF kinvD(2)[OF k] ex] in simp_all)
  then have m: "op_ok t1 (ended p (p_runtsk s) s)" using mutex_release_all_op_ok[of t1 p] by (simp add: ended_def t1_def)
  have sel: "p_runtsk t1 = p_runtsk s" "reqflg t1 = reqflg s" "dspflg t1 = dspflg s"
    "p_schedtsk s \<noteq> Some p \<Longrightarrow> p_schedtsk t1 = p_schedtsk s"
    using u(8,9,11) objectsD(4)[OF u(3)] by (simp_all add: t1_def with_tcb_def)
  have "dspflg s \<Longrightarrow> p_schedtsk s \<noteq> Some p" using k assms(3,4) by (simp add: kinv_def)
  then show ?thesis using m sel by (auto simp: op_ok_def)
qed

section \<open>The calls\<close>

lemma ter_tsk_step:
  assumes "tman_inv cfg s" and "\<not> reqflg s"
  shows "tman_step cfg s (snd (ter_tsk cfg tskid s))"
proof -
  let ?s = "t_lock_cpu s" and ?p = "INDEX_TSK tskid"
  have i: "tman_inv cfg ?s" "\<not> reqflg ?s" using assms by simp (use assms(2) in \<open>simp add: t_lock_cpu_def\<close>)
  define u where "u = unlink_task ?p ?s"
  define v where "v = mutex_release_all ?p u"
  define x where "x = restart ?p (snd (ended ?p (p_runtsk ?s) ?s))"
  have step: "tman_step cfg ?s (dispatch_if (fst v \<or> fst x, snd x))" and e: "make_dormant ?p (snd v) = snd (ended ?p (p_runtsk ?s) ?s)"
    if a: "p_runtsk s \<noteq> Some ?p" "tstat (tcb ?s ?p) \<noteq> TS_DORMANT"
  proof -
    note c = ended_code[OF kinvD(1)[OF tman_invD(1)[OF i(1)]] a(2) v_def[unfolded u_def]]
    have run: "\<forall>q. p_runtsk ?s = Some q \<longrightarrow> p_runtsk ?s = Some q \<and> q \<noteq> ?p" using a(1) by auto
    note r = restart_tman[OF tman_inv_base[OF i(1)] a(2) run refl x_def]
    have "op_ok ?s (ended ?p (p_runtsk ?s) ?s)" by (rule ended_op_ok[OF i(1) a(2) _ i(2)]) (use a(1) in simp)
    then have "tman_op cfg ?s (fst v \<or> fst x, snd x)"
      using op_ok_trans[OF _ r(1)] r(2-7) c(1)[of "p_runtsk ?s"] by (simp add: tman_op_def)
    then show "tman_step cfg ?s (dispatch_if (fst v \<or> fst x, snd x))" by (rule tman_op_step(1)[OF tman_invD(1)[OF i(1)]])
    show "make_dormant ?p (snd v) = snd (ended ?p (p_runtsk ?s) ?s)" by (rule c(3))
  qed
  have v: "(if \<not> q_empty ?p (mtxqs u) then mutex_release_all ?p u else (False, u)) = v"
    by (simp add: v_def q_empty_def mutex_release_all_round)
  have body: "snd (ter_tsk cfg tskid s) = s \<or> snd (ter_tsk cfg tskid s) = t_unlock_cpu ?s \<or>
    p_runtsk s \<noteq> Some ?p \<and> tstat (tcb ?s ?p) \<noteq> TS_DORMANT \<and>
    snd (ter_tsk cfg tskid s) = t_unlock_cpu (dispatch_if (fst v \<or> fst (restart ?p (make_dormant ?p (snd v))),
      snd (restart ?p (make_dormant ?p (snd v)))))"
    unfolding ter_tsk_def Let_def tsk_call_def unlink_task_def[symmetric] u_def[symmetric] v
    by (auto simp: CHECK_NONSELF_def case_prod_beta restart_def TSTAT_DORMANT_def Let_def)
  show ?thesis
    using body step e tman_step_refl[OF assms(1)] tman_step_refl[OF i(1)] by (auto simp: x_def)
qed

lemma restart_runtsk:
  "snd (restart p (s\<lparr>p_runtsk := r\<rparr>)) = (snd (restart p s))\<lparr>p_runtsk := r\<rparr>"
  by (simp add: restart_def make_active_def make_runnable_def primap_set_def Let_def)

text \<open>
  \<open>ext_tsk\<close> first sets the CPU lock, the interrupt priority mask and the dispatch flags, which the
  termination does not look at.
\<close>

definition ext_flags :: "kernel \<Rightarrow> kernel" where
  "ext_flags s =
    (let s = (if cpu_lock s then s else t_lock_cpu s);
         s = (if disdsp s then s\<lparr>disdsp := False\<rparr> else s);
         s = (if \<not> ipmflg s then s\<lparr>intpri := TIPM_ENAALL, ipmflg := True\<rparr> else s)
     in s\<lparr>dspflg := True\<rparr>)"

lemma ext_flags_sel:
  "tcb (ext_flags s) = tcb s" "queues (ext_flags s) = queues s" "tme (ext_flags s) = tme s"
  "mtxqs (ext_flags s) = mtxqs s" "mtxcb (ext_flags s) = mtxcb s" "free_mtxcb (ext_flags s) = free_mtxcb s"
  "p_schedtsk (ext_flags s) = p_schedtsk s" "p_runtsk (ext_flags s) = p_runtsk s"
  "ready_primap (ext_flags s) = ready_primap s" "pools (ext_flags s) = pools s" "wobjatr (ext_flags s) = wobjatr s"
  "dspflg (ext_flags s)" "ipmflg (ext_flags s)" "\<not> disdsp (ext_flags s)"
proof -
  have a: "wobjatr (ext_flags s) = wobjatr s" "pools (ext_flags s) = pools s"
    by (simp_all add: wobjatr_def[abs_def] pools_def ext_flags_def t_lock_cpu_def Let_def cong: wobj.case_cong)
  show "tcb (ext_flags s) = tcb s" "queues (ext_flags s) = queues s" "tme (ext_flags s) = tme s"
    "mtxqs (ext_flags s) = mtxqs s" "mtxcb (ext_flags s) = mtxcb s" "free_mtxcb (ext_flags s) = free_mtxcb s"
    "p_schedtsk (ext_flags s) = p_schedtsk s" "p_runtsk (ext_flags s) = p_runtsk s"
    "ready_primap (ext_flags s) = ready_primap s" "pools (ext_flags s) = pools s" "wobjatr (ext_flags s) = wobjatr s"
    "dspflg (ext_flags s)" "ipmflg (ext_flags s)" "\<not> disdsp (ext_flags s)"
    by (simp_all add: a) (simp_all add: ext_flags_def t_lock_cpu_def Let_def)
qed

lemma tman_base_same:
  assumes "tman_base cfg s" and "tcb s' = tcb s" and "queues s' = queues s" and "tme s' = tme s"
    and "mtxqs s' = mtxqs s" and "mtxcb s' = mtxcb s" and "free_mtxcb s' = free_mtxcb s"
    and "p_schedtsk s' = p_schedtsk s" and "ready_primap s' = ready_primap s" and "wobjatr s' = wobjatr s"
    and "p_runtsk s' \<in> {p_runtsk s, None}"
  shows "tman_base cfg s'"
proof -
  note i = tman_baseD[OF assms(1)]
  have "tsk_inv s'" using tsk_inv_same[OF assms(2-4,8,9,10)] winvD(1)[OF i(1)] by simp
  then have "winv s'" using winvD(2)[OF i(1)] assms(2,11) by (auto simp: winv_def)
  moreover have "mtx_inv s'" by (rule mtx_inv_same[OF i(2)]) (simp_all add: assms)
  moreover have "mtx_free cfg s'" by (rule mtx_free_same[OF i(3)]) (simp_all add: assms)
  moreover have "ceil_inv s'" by (rule ceil_inv_mono[OF i(4)]) (simp_all add: assms mtx_user_def)
  moreover have "dormant_ok s'" using i(5) by (simp add: dormant_ok_def assms(2))
  ultimately show ?thesis by (simp add: tman_base_def)
qed

lemma ext_tsk_step:
  assumes "tman_inv cfg s" and "p_runtsk s = Some p"
  shows "tman_step cfg s (snd (ext_tsk s))"
proof -
  let ?s = "ext_flags s"
  note f = ext_flags_sel[of s]
  have b: "tman_base cfg ?s" by (rule tman_base_same[OF tman_inv_base[OF assms(1)]]) (simp_all add: f)
  have run: "TSTAT_RUNNABLE (tstat (tcb ?s p))" using kinvD(3)[OF tman_invD(1)[OF assms(1)] assms(2)] by (simp add: f)
  then have nd: "tstat (tcb ?s p) \<noteq> TS_DORMANT" by (auto simp: TSTAT_defs)
  define u where "u = snd (make_non_runnable p ?s)"
  have u: "u = unlink_task p ?s" using run by (simp add: u_def unlink_task_def)
  define v where "v = mutex_release_all p u"
  note c = ended_code[OF winvD(1)[OF tman_baseD(1)[OF b]] nd v_def[unfolded u]]
  define x where "x = restart p (snd (ended p None ?s))"
  note r = restart_tman[OF b nd _ refl x_def, simplified]
  have x: "snd x = (snd (restart p (make_dormant p (snd v))))\<lparr>p_runtsk := None\<rparr>"
    by (simp add: x_def c(2)[of None] restart_runtsk)
  have ws: "wait_sub {} s (snd x)" using r(6) by (simp add: wait_sub_def f)
  define y where "y = t_unlock_cpu (dispatch (snd (restart p (make_dormant p (snd v)))))"
  have yx: "y = t_unlock_cpu (dispatch (snd x))" by (simp add: y_def x dispatch_def)
  have t: "tsk_inv (snd x)" using r(1) by (simp add: op_ok_def winv_def)
  have y: "tman_step cfg s y"
    using kinv_dispatch[OF t] r(2-5,7) ws pools_objects[of "dispatch (snd x)" "snd x"] f(10)
    by (simp add: yx tman_step_def tman_inv_def)
  have v: "(if \<not> q_empty p (mtxqs u) then snd (mutex_release_all p u) else u) = snd v"
    by (simp add: v_def q_empty_def mutex_release_all_round)
  have "snd (ext_tsk s) = s \<or> snd (ext_tsk s) = y"
  proof (cases "CHECK_TSKCTX s")
    case True
    have p: "runtsk ?s = p" using assms(2) by (simp add: f)
    have "ext_tsk s = (None, t_unlock_cpu (dispatch (let s = make_dormant p (if \<not> q_empty p (mtxqs u)
        then snd (mutex_release_all p u) else u) in if actque (tcb s p)
          then (let s = upd_tcb p (\<lambda>t. t\<lparr>actque := False\<rparr>) s in snd (make_active p s)) else s)))"
      using True p by (simp add: ext_tsk_def u_def ext_flags_def Let_def)
    then show ?thesis by (simp add: v y_def restart_def Let_def)
  qed (simp add: ext_tsk_def)
  then show ?thesis using y tman_step_refl[OF assms(1)] by auto
qed

lemma act_tsk_steps:
  assumes "tman_inv cfg s"
  shows "tman_step cfg s (snd (act_tsk cfg tskid s))" and "tman_step cfg s (snd (iact_tsk cfg tskid s))"
    and "tman_step cfg s (snd (can_act cfg tskid s))" and "tman_step cfg s (snd (get_pri cfg tskid s))"
    and "tman_step cfg s (snd (get_inf s))"
proof -
  have active: "tman_op cfg s (make_active p s)"
    if "tman_inv cfg s" "tskatr (p_tinib (tcb s p)) \<noteq> TA_NOEXS" "TSTAT_DORMANT (tstat (tcb s p))" for s p
  proof -
    note i = tman_invD[OF that(1)]
    have d: "tskatr (p_tinib (tcb s q)) \<noteq> TA_NOEXS \<Longrightarrow> tstat (tcb s q) = TS_DORMANT \<Longrightarrow> tcb_dormant (tcb s q)" for q
      using i(5) by (simp add: dormant_ok_def)
    show ?thesis
      by (rule make_active_tman[OF kinvD(2)[OF i(1)] i(2-4)])
        (use that(2,3) d[of p] d in \<open>simp_all add: TSTAT_defs tcb_dormant_def\<close>)
  qed
  note act = tman_op_step[OF tman_invD(1) active]
  have que: "tman_step cfg s (upd_tcb p (\<lambda>t. t\<lparr>actque := b\<rparr>) s)"
    if "tman_inv cfg s" "tskatr (p_tinib (tcb s p)) \<noteq> TA_NOEXS" "\<not> TSTAT_DORMANT (tstat (tcb s p)) \<or> \<not> b" for s p b
  proof -
    note i = tman_invD[OF that(1)]
    let ?s = "upd_tcb p (\<lambda>t. t\<lparr>actque := b\<rparr>) s"
    have "kinv ?s" by (rule kinv_tcb[OF i(1)]) simp_all
    moreover have "mtx_inv ?s" by (rule mtx_inv_same[OF i(2)]) simp_all
    moreover have "mtx_free cfg ?s" by (rule mtx_free_same[OF i(3)]) simp_all
    moreover have "ceil_inv ?s" by (rule ceil_inv_mono[OF i(4)]) (auto simp: mtx_user_def)
    moreover have "dormant_ok ?s" using i(5) that(3) by (auto simp: dormant_ok_def tcb_dormant_def TSTAT_defs)
    moreover have "wait_sub {} s ?s" by (rule wait_sub_waitqs) auto
    ultimately show ?thesis by (simp add: tman_step_def tman_inv_def)
  qed
  have t: "tman_inv cfg (t_lock_cpu s)" "tman_inv cfg (i_lock_cpu s)" using assms by simp_all
  have r: "tman_step cfg s (t_lock_cpu s)" "tman_step cfg s (i_lock_cpu s)"
    using tman_step_refl[OF t(1)] tman_step_refl[OF t(2)] by simp_all
  note la = act[OF t(1) t(1)] act[OF t(2) t(2)] and lq = que[OF t(1)] que[OF t(2)]
  show "tman_step cfg s (snd (act_tsk cfg tskid s))" "tman_step cfg s (snd (iact_tsk cfg tskid s))"
    "tman_step cfg s (snd (can_act cfg tskid s))" "tman_step cfg s (snd (get_pri cfg tskid s))"
    "tman_step cfg s (snd (get_inf s))"
    using tman_step_refl[OF assms] r la lq
    by (auto simp: act_tsk_def iact_tsk_def can_act_def get_pri_def get_inf_def Let_def intro!: tman_step_call)
qed

section \<open>Creation and deletion\<close>

lemma free_tcb:
  assumes "tsk_inv s" and "p \<in> set (queues s FreeTcb)"
  shows "tskatr (p_tinib (tcb s p)) = TA_NOEXS" and "tstat (tcb s p) = TS_DORMANT"
    and "evts (tme s) (TskTmevtb p) = None"
proof -
  show a: "tskatr (p_tinib (tcb s p)) = TA_NOEXS"
    using assms(2) tsk_invD(5)[OF assms(1), of p FreeTcb] by (auto simp: task_place_def split: if_splits)
  then show d: "tstat (tcb s p) = TS_DORMANT" using tsk_invD(3)[OF assms(1), of p] by (simp add: tcb_ok_def)
  show "evts (tme s) (TskTmevtb p) = None"
    using tsk_invD(4)[OF assms(1), of p] d by (simp add: tmout_ok_def timed_def TSTAT_defs)
qed

text \<open>A dormant task changes its control block, and moves into the free list or out of it.\<close>

lemma dormant_swap:
  assumes "tman_inv cfg s" and "tstat (tcb s p) = TS_DORMANT" and "tstat t = TS_DORMANT" and "tcb_ok p t"
    and "tskatr (p_tinib t) = TA_NOEXS \<or> tcb_dormant t"
    and "queues s' = (queues s)(FreeTcb := q)" and "remove1 p q = remove1 p (queues s FreeTcb)" and "distinct q"
    and "p \<in> set q \<longleftrightarrow> tskatr (p_tinib t) = TA_NOEXS"
    and "tcb s' = (tcb s)(p := t)" and "mtxqs s' = (mtxqs s)(p := [])" and "mtxcb s' = mtxcb s"
    and "free_mtxcb s' = free_mtxcb s" and "tme s' = tme s" and "p_schedtsk s' = p_schedtsk s"
    and "ready_primap s' = ready_primap s" and "p_runtsk s' = p_runtsk s" and "reqflg s' = reqflg s"
    and "dspflg s' = dspflg s" and "pools s' = pools s"
  shows "tman_step cfg s s'"
proof -
  note i = tman_invD[OF assms(1)] and t = kinvD(1)[OF tman_invD(1)[OF assms(1)]]
  note g = mtx_genD[OF i(2)[unfolded mtx_inv_def]]
  have np: "p \<notin> set (queues s h)" if "h \<noteq> FreeTcb" for h
    using tsk_invD(5)[OF t, of p h] assms(2) that by (auto simp: task_place_def TSTAT_defs split: if_splits)
  have place: "task_place t = (if tskatr (p_tinib t) = TA_NOEXS then Some FreeTcb else None)"
    using assms(3) by (simp add: task_place_def TSTAT_defs)
  have other: "x \<in> set q \<longleftrightarrow> x \<in> set (queues s FreeTcb)" if "x \<noteq> p" for x
    using that assms(7) by (metis in_set_remove1)
  have disj: "x \<notin> set (queues s h)" if "x \<in> set q" "h \<noteq> FreeTcb" for x h
    using that np[of h] other[of x] queues_okD(2)[OF tsk_invD(7)[OF t], of x FreeTcb h] by (cases "x = p") auto
  have qs: "queues_ok (queues s')"
    unfolding assms(6) by (rule queues_ok_upd[OF tsk_invD(7)[OF t] assms(8) disj])
  have rdy: "ready_ok s'"
    by (rule ready_ok_other[OF tsk_invD(1)[OF t] qs]) (use np assms in auto)
  have a: "wobjatr s' = wobjatr s"
    using assms(12,20) by (auto simp: wobjatr_def fun_eq_iff pools_def split: wobj.split)
  have nt: "evts (tme s) (TskTmevtb p) = None"
    using tsk_invD(4)[OF t, of p] assms(2) by (simp add: tmout_ok_def timed_def TSTAT_defs)
  have "tsk_inv s'"
  proof (rule tsk_inv_one[OF t rdy _ assms(10,4)])
    show "tmout_ok p t (tme s')" using nt assms(3,14) by (simp add: tmout_ok_def timed_def TSTAT_defs)
    show "p \<in> set (queues s' h) \<longleftrightarrow> task_place t = Some h" for h using np[of h] assms(6,9) by (simp add: place)
  qed (use tsk_invD(2)[OF t] assms(6,7,14) a place in \<open>auto split: if_splits\<close>)
  moreover have "p_runtsk s = Some x \<Longrightarrow> x \<noteq> p" for x using kinvD(3)[OF i(1), of x] assms(2) by (auto simp: TSTAT_defs)
  ultimately have k: "kinv s'" using i(1) assms(10,15,17-19) by (auto simp: kinv_def winv_def)
  have nil: "mtxqs s p = []" using g(2)[of _ p] g(3)[of _ p] assms(2) by (cases "mtxqs s p") auto
  have q0: "mtxqs s' = mtxqs s" using assms(11) nil by auto
  have cc: "calc_priority_loop s' b is = calc_priority_loop s b is" for b "is"
    by (rule calc_priority_cong) (simp add: assms(12))
  have m: "mtx_inv s'"
    unfolding mtx_inv_def mtx_gen_def
  proof (intro conjI allI impI)
    fix x
    assume "tstat (tcb s' x) \<noteq> TS_DORMANT"
    then show "tskpri s' x = mutex_calc_priority x s'"
      using g(5)[of x] assms(3,10) by (cases "x = p") (simp_all add: mutex_calc_priority_def cc q0)
  next
    fix j x
    assume "p_loctsk (mtxcb s' j) = Some x"
    then show "tstat (tcb s' x) \<noteq> TS_DORMANT" using g(3)[of j x] assms(2,10,12) by (cases "x = p") auto
  qed (use g(1,2,4) assms(6,12) q0 in simp_all)
  have f: "mtx_free cfg s'" by (rule mtx_free_same[OF i(3)]) (simp_all add: assms)
  have c: "ceil_inv s'"
    unfolding ceil_inv_def
  proof (intro allI impI)
    fix j x
    assume c: "MTX_CEILING s' j" and u: "mtx_user s' j x"
    have "x \<noteq> p" using u np[of "WaitQ (MTX j)"] nil q0 assms(6) by (auto simp: mtx_user_def)
    then show "mtx_ceilpri s' j \<le> bpriority (tcb s' x)"
      using ceil_invD[OF i(4), of j x] c u q0 assms(6,10,12) by (simp add: MTX_CEILING_def mtx_user_def)
  qed
  have d: "dormant_ok s'" using i(5) assms(5,10) by (auto simp: dormant_ok_def)
  have "wait_sub {} s s'"
    using np by (intro wait_sub_waitqs) (auto simp: assms(6,10) is_waitq_def split: qhead.splits)
  then show ?thesis using k m f c d assms(20) by (simp add: tman_step_def tman_inv_def)
qed

lemma int_priority_lt: "VALID_TPRI x \<Longrightarrow> INT_PRIORITY x < TNUM_TPRI"
  by (auto simp: VALID_TPRI_def INT_PRIORITY_def)

lemma tman_step_trans: "tman_step cfg s s1 \<Longrightarrow> tman_step cfg s1 s2 \<Longrightarrow> tman_step cfg s s2"
  using wait_sub_trans[of "{}" s s1 s2] by (simp add: tman_step_def)

definition new_tcb :: "T_CTSK \<Rightarrow> ATR \<Rightarrow> nat \<Rightarrow> nat option \<Rightarrow> TCB \<Rightarrow> TCB" where
  "new_tcb pk atr sz area t = dormant (t\<lparr>p_tinib := (p_tinib t)\<lparr>tskatr := atr, exinf := ctsk_exinf pk,
     task := ctsk_task pk, ipriority := INT_PRIORITY (ctsk_itskpri pk), stksz := sz, stk := area,
     texatr := TA_NULL, texrtn := None\<rparr>, actque := False\<rparr>)"

definition new_tsk :: "tsk \<Rightarrow> nat \<Rightarrow> TCB \<Rightarrow> kernel \<Rightarrow> kernel" where
  "new_tsk p b t s = s\<lparr>kmm_brk := b, queues := (queues s)(FreeTcb := tl (queues s FreeTcb)),
     tcb := (tcb s)(p := t), mtxqs := (mtxqs s)(p := [])\<rparr>"

lemma new_tsk_step:
  assumes "tman_inv cfg s" and "queues s FreeTcb \<noteq> []" and "p = hd (queues s FreeTcb)" and "atr \<noteq> TA_NOEXS"
    and "VALID_TPRI (ctsk_itskpri pk)" and "s' = new_tsk p b (new_tcb pk atr sz area (tcb s p)) s"
  shows "tman_step cfg s s'" and "tman_step cfg s (dispatch_if (make_active p s'))"
proof -
  let ?t = "new_tcb pk atr sz area (tcb s p)"
  note t = kinvD(1)[OF tman_invD(1)[OF assms(1)]]
  obtain ps where ps: "queues s FreeTcb = p # ps" using assms(2,3) by (cases "queues s FreeTcb") auto
  have p: "tstat (tcb s p) = TS_DORMANT" by (rule free_tcb(2)[OF t]) (simp add: ps)
  have d: "distinct (p # ps)" using queues_okD(1)[OF tsk_invD(7)[OF t], of FreeTcb] ps by simp
  have sel: "tstat ?t = TS_DORMANT" "tskatr (p_tinib ?t) = atr" "tcb_dormant ?t" "priority ?t = INT_PRIORITY (ctsk_itskpri pk)"
    "bpriority ?t = INT_PRIORITY (ctsk_itskpri pk)" "ipriority (p_tinib ?t) = INT_PRIORITY (ctsk_itskpri pk)"
    by (simp_all add: new_tcb_def tcb_dormant_def)
  have ok: "tcb_ok p ?t"
    using int_priority_lt[OF assms(5)] assms(4) by (simp add: tcb_ok_def sel tstat_ok_def TSTAT_defs)
  show s: "tman_step cfg s s'"
    by (rule dormant_swap[OF assms(1) p sel(1) ok, where q = ps]) (use d sel assms(4) ps in \<open>simp_all add: assms(6) new_tsk_def remove1_idem\<close>)
  have i: "tman_inv cfg s'" using s by (simp add: tman_step_def)
  note j = tman_invD[OF i]
  have tp: "tcb s' p = ?t" by (simp add: assms(6) new_tsk_def)
  have dm: "tskatr (p_tinib (tcb s' q)) \<noteq> TA_NOEXS \<Longrightarrow> tstat (tcb s' q) = TS_DORMANT \<Longrightarrow> tcb_dormant (tcb s' q)" for q
    using j(5) by (simp add: dormant_ok_def)
  have "tman_op cfg s' (make_active p s')"
    by (rule make_active_tman[OF kinvD(2)[OF j(1)] j(2-4)]) (use dm assms(4) in \<open>simp_all add: tp sel\<close>)
  then show "tman_step cfg s (dispatch_if (make_active p s'))"
    using tman_op_step(1)[OF j(1)] tman_step_trans[OF s] by blast
qed

lemma tman_brk:
  assumes "tman_inv cfg s"
  shows "tman_step cfg s (s\<lparr>kmm_brk := b\<rparr>)"
proof -
  note i = tman_invD[OF assms]
  have "wobjatr (s\<lparr>kmm_brk := b\<rparr>) = wobjatr s" by (auto simp: wobjatr_def fun_eq_iff split: wobj.split)
  then have "kinv (s\<lparr>kmm_brk := b\<rparr>)" using i(1) by (subst kinv_same(1)) simp_all
  moreover have "tman_base cfg (s\<lparr>kmm_brk := b\<rparr>)"
    by (rule tman_base_same[OF tman_inv_base[OF assms]]) (auto simp: wobjatr_def fun_eq_iff split: wobj.split)
  ultimately show ?thesis by (simp add: tman_step_def tman_inv_def tman_base_def wait_sub_same)
qed

lemma acre_tsk_cases:
  assumes "s0 = t_lock_cpu s" and "p = hd (queues s0 FreeTcb)"
  obtains (same) "snd (acre_tsk cfg pk s) \<in> {s, t_unlock_cpu s0}"
  | (brk) b where "snd (acre_tsk cfg pk s) = t_unlock_cpu (s0\<lparr>kmm_brk := b\<rparr>)"
  | (new) b sz area at s1 where "queues s0 FreeTcb \<noteq> []" and "at \<noteq> TA_NOEXS" and "VALID_TPRI (ctsk_itskpri pk)"
      and "s1 = new_tsk p b (new_tcb pk at sz area (tcb s0 p)) s0"
      and "snd (acre_tsk cfg pk s) \<in> {t_unlock_cpu s1, t_unlock_cpu (dispatch_if (make_active p s1))}"
proof (cases "CHECK_TSKCTX_UNL s \<and> CHECK_RSATR (ctsk_tskatr pk) (TA_ACT OR TARGET_TSKATR) \<and> VALID_TPRI (ctsk_itskpri pk) \<and>
    queues s FreeTcb \<noteq> []")
  case False
  then have "snd (acre_tsk cfg pk s) = s \<or> snd (acre_tsk cfg pk s) = t_unlock_cpu s0"
    unfolding assms(1) by (auto simp: acre_tsk_def tsk_call_def q_empty_def lock_sel)
  then show ?thesis using same by blast
next
  case True
  have f: "queues s0 FreeTcb \<noteq> []" using True by (simp add: assms(1) lock_sel)
  have atr: "ctsk_tskatr pk \<noteq> TA_NOEXS" "ctsk_tskatr pk OR TA_MEMALLOC \<noteq> TA_NOEXS"
    using rsatr_exists[of "ctsk_tskatr pk" "TA_ACT OR TARGET_TSKATR"] True by simp_all
  obtain sz area at b where m: "(if ctsk_stk pk = None
        then (let sz = ROUND_STK_T (ctsk_stksz pk); (area, s) = kernel_malloc cfg sz s0
              in (sz, area, ctsk_tskatr pk OR TA_MEMALLOC, s))
        else (ctsk_stksz pk, ctsk_stk pk, ctsk_tskatr pk, s0)) = (sz, area, at, s0\<lparr>kmm_brk := b\<rparr>)"
    and at: "at \<noteq> TA_NOEXS"
  proof (cases "ctsk_stk pk")
    case None
    obtain x y where "kernel_malloc cfg (ROUND_STK_T (ctsk_stksz pk)) s0 = (x, s0\<lparr>kmm_brk := y\<rparr>)"
      using kernel_malloc_eq(1)[OF refl refl] by blast
    then show ?thesis
      by (intro that[of "ROUND_STK_T (ctsk_stksz pk)" x "ctsk_tskatr pk OR TA_MEMALLOC" y]) (use None atr in simp_all)
  next
    case (Some x)
    show ?thesis
      by (rule that[of "ctsk_stksz pk" "ctsk_stk pk" "ctsk_tskatr pk" "kmm_brk s0"]) (use Some atr in simp_all)
  qed
  let ?s1 = "new_tsk p b (new_tcb pk at sz area (tcb s0 p)) s0"
  show ?thesis
  proof (cases "FUNC_ALIGNED (ctsk_task pk) \<and> FUNC_NONNULL (ctsk_task pk) \<and> ctsk_stksz pk \<ge> TARGET_MIN_STKSZ \<and>
      (ctsk_stk pk \<noteq> None \<longrightarrow> STKSZ_ALIGNED (ctsk_stksz pk) \<and> STACK_ALIGNED (the (ctsk_stk pk)))")
    case False
    then have "snd (acre_tsk cfg pk s) = s" by (auto simp: acre_tsk_def)
    then show ?thesis using same by simp
  next
    case ok: True
    have e: "snd (acre_tsk cfg pk s) = t_unlock_cpu (if area = None then s0\<lparr>kmm_brk := b\<rparr>
        else if at AND TA_ACT \<noteq> 0 then dispatch_if (make_active p ?s1) else ?s1)"
      using ok True f unfolding acre_tsk_def tsk_call_def assms(1)[symmetric] m q_empty_def
      by (cases "ctsk_stk pk") (simp_all add: q_delete_next_def q_initialize_def make_dormant_def new_tsk_def new_tcb_def assms(2))
    show ?thesis using new[OF f at _ refl, of b sz area] brk[of b] e True by (auto split: if_splits)
  qed
qed

lemma acre_tsk_step:
  assumes "tman_inv cfg s"
  shows "tman_step cfg s (snd (acre_tsk cfg pk s))"
proof -
  have i: "tman_inv cfg (t_lock_cpu s)" using assms by simp
  show ?thesis
  proof (cases rule: acre_tsk_cases[OF refl refl, where cfg = cfg and pk = pk and s = s, case_names same brk new])
    case (new b sz area at s1)
    then show ?thesis using new_tsk_step[OF i new(1) refl new(2,3,4)] by auto
  qed (use tman_step_refl[OF assms] tman_step_refl[OF i] tman_brk[OF i] in auto)
qed

lemma del_tsk_step:
  assumes "tman_inv cfg s"
  shows "tman_step cfg s (snd (del_tsk cfg tskid s))"
proof -
  let ?s = "t_lock_cpu s" and ?p = "INDEX_TSK tskid"
  have i: "tman_inv cfg ?s" using assms by simp
  note t = kinvD(1)[OF tman_invD(1)[OF i]]
  let ?t = "(tcb ?s ?p)\<lparr>p_tinib := (p_tinib (tcb ?s ?p))\<lparr>tskatr := TA_NOEXS\<rparr>\<rparr>"
  let ?s1 = "?s\<lparr>tcb := (tcb ?s)(?p := ?t), queues := q_insert_prev FreeTcb ?p (queues ?s)\<rparr>"
  have "tman_step cfg ?s ?s1" if ex: "tskatr (p_tinib (tcb ?s ?p)) \<noteq> TA_NOEXS" and d: "tstat (tcb ?s ?p) = TS_DORMANT"
  proof -
    have n: "?p \<notin> set (queues ?s FreeTcb)" using free_tcb(1)[OF t] ex by blast
    have ok: "tcb_ok ?p ?t" using d by (simp add: tcb_ok_def tstat_ok_def TSTAT_defs)
    have "mtxqs ?s ?p = []"
      using mtx_genD(2,3)[OF tman_invD(2)[OF i, unfolded mtx_inv_def], of _ ?p] d by (cases "mtxqs ?s ?p") auto
    then have q: "(mtxqs ?s)(?p := []) = mtxqs ?s" by auto
    show ?thesis
      by (rule dormant_swap[OF i d _ ok, where q = "queues ?s FreeTcb @ [?p]"])
        (use d n q queues_okD(1)[OF tsk_invD(7)[OF t], of FreeTcb] in
          \<open>simp_all add: q_insert_prev_def remove1_append remove1_idem\<close>)
  qed
  moreover have "snd (del_tsk cfg tskid s) \<in> {s, t_unlock_cpu ?s} \<or> snd (del_tsk cfg tskid s) = t_unlock_cpu ?s1 \<and>
      tskatr (p_tinib (tcb ?s ?p)) \<noteq> TA_NOEXS \<and> tstat (tcb ?s ?p) = TS_DORMANT"
    by (auto simp: del_tsk_def tsk_call_def kernel_free_def Let_def TSTAT_DORMANT_def)
  ultimately show ?thesis using tman_step_refl[OF assms] tman_step_refl[OF i] by auto
qed

section \<open>Change of the base priority\<close>

lemma mutex_check_ceilpriD:
  assumes "mutex_check_ceilpri p b s"
  shows "i \<in> set (mtxqs s p) \<Longrightarrow> MTX_CEILING s i \<Longrightarrow> mtx_ceilpri s i \<le> b"
    and "TSTAT_WAIT_MTX (tstat (tcb s p)) \<Longrightarrow> p_wobjcb (p_winfo (tcb s p)) = MTX i \<Longrightarrow> MTX_CEILING s i \<Longrightarrow>
      mtx_ceilpri s i \<le> b"
proof -
  have "check_ceilpri_loop s b is \<longleftrightarrow> (\<forall>i \<in> set is. MTX_CEILING s i \<longrightarrow> mtx_ceilpri s i \<le> b)" for "is"
    by (induction "is") auto
  then show "i \<in> set (mtxqs s p) \<Longrightarrow> MTX_CEILING s i \<Longrightarrow> mtx_ceilpri s i \<le> b"
    using assms by (auto simp: mutex_check_ceilpri_def split: if_splits)
  show "TSTAT_WAIT_MTX (tstat (tcb s p)) \<Longrightarrow> p_wobjcb (p_winfo (tcb s p)) = MTX i \<Longrightarrow> MTX_CEILING s i \<Longrightarrow>
      mtx_ceilpri s i \<le> b"
    using assms by (auto simp: mutex_check_ceilpri_def split: if_splits)
qed

lemma mtx_waiter:
  assumes "tsk_inv s" and "p \<in> set (queues s (WaitQ (MTX i)))"
  shows "TSTAT_WAIT_MTX (tstat (tcb s p))" and "p_wobjcb (p_winfo (tcb s p)) = MTX i"
  using assms waitq_waiting(2)[OF assms] tsk_invD(5)[OF assms(1), of p "WaitQ (MTX i)"]
  by (auto simp: TSTAT_WAIT_MTX_def is_waitq_def task_place_def split: if_splits)

text \<open>The new base priority is allowed: no mutex the task holds or waits for has a higher ceiling.\<close>

lemma chg_pri_users:
  assumes "tsk_inv s" and "mtxqs s p \<noteq> [] \<or> TSTAT_WAIT_MTX (tstat (tcb s p)) \<longrightarrow> mutex_check_ceilpri p b s"
    and "mtx_user s i p" and "MTX_CEILING s i"
  shows "mtx_ceilpri s i \<le> b"
proof (cases "i \<in> set (mtxqs s p)")
  case True
  then have "mutex_check_ceilpri p b s" using assms(2) by auto
  from mutex_check_ceilpriD(1)[OF this True assms(4)] show ?thesis .
next
  case False
  then have "p \<in> set (queues s (WaitQ (MTX i)))" using assms(3) by (simp add: mtx_user_def)
  note w = mtx_waiter[OF assms(1) this]
  show ?thesis using mutex_check_ceilpriD(2)[OF _ w assms(4)] assms(2) w(1) by blast
qed

lemma chg_base:
  assumes "tman_base cfg s" and "tstat (tcb s p) \<noteq> TS_DORMANT" and "b < TNUM_TPRI"
    and "\<forall>i. mtx_user s i p \<longrightarrow> MTX_CEILING s i \<longrightarrow> mtx_ceilpri s i \<le> b"
    and "s1 = upd_tcb p (\<lambda>t. t\<lparr>bpriority := b\<rparr>) s"
  shows "winv s1" and "mtx_gen {} {p} s1" and "mtx_free cfg s1" and "ceil_inv s1" and "dormant_ok s1" and "wait_sub {} s s1"
proof -
  note i = tman_baseD[OF assms(1)]
  have "tsk_inv s1" unfolding assms(5) by (rule tsk_inv_tcb[OF winvD(1)[OF i(1)]]) (use assms(3) in simp_all)
  then show "winv s1" using winvD(2)[OF i(1)] by (auto simp: winv_def assms(5))
  show "mtx_gen {} {p} s1"
    by (rule mtx_gen_same[OF mtx_gen_mono[OF i(2)[unfolded mtx_inv_def], of "{p}"]]) (simp_all add: assms(5))
  show "mtx_free cfg s1" by (rule mtx_free_same[OF i(3)]) (simp_all add: assms(5))
  show "dormant_ok s1" by (rule dormant_ok_mono[OF i(5)]) (use assms(2) in \<open>auto simp: assms(5) split: if_splits\<close>)
  show "wait_sub {} s s1" by (rule wait_sub_waitqs) (auto simp: assms(5))
  show "ceil_inv s1"
    unfolding ceil_inv_def
  proof (intro allI impI)
    fix j q
    assume a: "MTX_CEILING s1 j" and u: "mtx_user s1 j q"
    then have "MTX_CEILING s j" "mtx_user s j q" by (simp_all add: assms(5) MTX_CEILING_def mtx_user_def)
    then show "mtx_ceilpri s1 j \<le> bpriority (tcb s1 q)"
      using assms(4) ceil_invD[OF i(4)] by (cases "q = p") (simp_all add: assms(5))
  qed
qed

lemma mtx_gen_pri:
  assumes "mtx_gen {} {p} s" and "tskpri s p = mutex_calc_priority p s" and "tstat (tcb s p) \<noteq> TS_DORMANT"
  shows "mtx_inv s"
proof -
  note g = mtx_genD[OF assms(1)]
  show ?thesis
    unfolding mtx_inv_def mtx_gen_def
  proof (intro conjI allI impI)
    fix i q
    assume "p_loctsk (mtxcb s i) = Some q"
    then show "tstat (tcb s q) \<noteq> TS_DORMANT" using g(3)[of i q] assms(3) by auto
  next
    fix q
    assume "tstat (tcb s q) \<noteq> TS_DORMANT"
    then show "tskpri s q = mutex_calc_priority q s" using g(5)[of q] assms(2) by auto
  qed (use g(1,2,4) in simp_all)
qed

lemma scan_ceilmtx_iff: "mutex_scan_ceilmtx p s \<longleftrightarrow> (\<exists>i \<in> set (mtxqs s p). MTX_CEILING s i)"
proof -
  have "scan_ceilmtx_loop s is \<longleftrightarrow> (\<exists>i \<in> set is. MTX_CEILING s i)" for "is" by (induction "is") auto
  then show ?thesis by (simp add: mutex_scan_ceilmtx_def)
qed

text \<open>Without ceiling mutexes the priority follows the base priority.\<close>

lemma chg_pri_change:
  assumes "tman_base cfg s" and "tstat (tcb s p) \<noteq> TS_DORMANT" and "b < TNUM_TPRI"
    and "\<forall>i. mtx_user s i p \<longrightarrow> MTX_CEILING s i \<longrightarrow> mtx_ceilpri s i \<le> b"
    and "s1 = upd_tcb p (\<lambda>t. t\<lparr>bpriority := b\<rparr>) s" and "\<not> mutex_scan_ceilmtx p s1"
    and "r = change_priority p b False s1"
  shows "tman_op cfg s r"
proof -
  note c = chg_base[OF assms(1-5)]
  have ex: "tskatr (p_tinib (tcb s1 p)) \<noteq> TA_NOEXS"
    by (rule waiting_exists[OF winvD(1)[OF c(1)]]) (use assms(2) in \<open>simp add: assms(5)\<close>)
  have t: "tcb (snd r) = (tcb s1)(p := (tcb s1 p)\<lparr>priority := b\<rparr>)" by (simp add: assms(7) change_priority_tcb)
  have ob: "objects (snd r) = objects s1" by (simp add: assms(7))
  note o = objectsD[OF ob]
  have o1: "op_ok s1 r" unfolding assms(7) by (rule change_priority_op_ok[OF c(1) ex assms(3)])
  note wq = change_priority_waitq[OF c(1) ex assms(3), of _ False, folded assms(7)]
  have nil: "queues (snd r) (WaitQ w) = [] \<longleftrightarrow> queues s1 (WaitQ w) = []" for w
    using wq(1)[of "WaitQ w"] by (simp add: is_waitq_def) (metis set_empty)
  have g: "mtx_gen {} {p} (snd r)"
    by (rule mtx_gen_same[OF c(2)]) (simp_all add: o t nil)
  have "calc_priority_loop (snd r) b (mtxqs (snd r) p) = b"
    using calc_priority_loop_le[of "snd r" b "mtxqs (snd r) p"] assms(6)
      calc_priority_le_iff[of "snd r" b "mtxqs (snd r) p" "calc_priority_loop (snd r) b (mtxqs (snd r) p)"]
    by (auto simp: scan_ceilmtx_iff o MTX_CEILING_def)
  then have m: "mtx_inv (snd r)"
    by (intro mtx_gen_pri[OF g]) (use assms(2) in \<open>simp_all add: mutex_calc_priority_def t assms(5)\<close>)
  have f: "mtx_free cfg (snd r)" by (rule mtx_free_same[OF c(3)]) (simp_all add: o nil)
  have ce: "ceil_inv (snd r)" unfolding assms(7) by (rule ceil_inv_change_priority[OF c(4,1) ex assms(3)])
  have d: "dormant_ok (snd r)"
    by (rule dormant_ok_mono[OF c(5)]) (use assms(2) in \<open>auto simp: t assms(5) split: if_splits\<close>)
  have "wait_sub {} s1 (snd r)" using wq by (auto simp: wait_sub_def t)
  then have ws: "wait_sub {} s (snd r)" by (rule wait_sub_trans[OF c(6)])
  have "op_ok s r" by (rule op_ok_before[OF o1]) (simp_all add: assms(5))
  then show ?thesis using m f ce d ws pools_objects[OF ob] by (simp add: tman_op_def assms(5))
qed

text \<open>With ceiling mutexes the priority stays, and it is right for the new base priority.\<close>

lemma chg_pri_stay:
  assumes "tman_inv cfg s" and "tstat (tcb s p) \<noteq> TS_DORMANT" and "b < TNUM_TPRI"
    and "\<forall>i. mtx_user s i p \<longrightarrow> MTX_CEILING s i \<longrightarrow> mtx_ceilpri s i \<le> b"
    and "s1 = upd_tcb p (\<lambda>t. t\<lparr>bpriority := b\<rparr>) s" and "mutex_scan_ceilmtx p s1"
  shows "tman_step cfg s s1"
proof -
  note i = tman_invD[OF assms(1)] and c = chg_base[OF tman_inv_base[OF assms(1)] assms(2-5)]
  obtain j where j: "j \<in> set (mtxqs s p)" "MTX_CEILING s j"
    using assms(6) by (auto simp: scan_ceilmtx_iff assms(5) MTX_CEILING_def)
  then have u: "mtx_user s j p" by (simp add: mtx_user_def)
  have le: "mtx_ceilpri s j \<le> b" "mtx_ceilpri s j \<le> bpriority (tcb s p)"
    using assms(4) u j(2) ceil_invD[OF i(4) j(2) u] by blast+
  have cc: "calc_priority_loop s1 b is = calc_priority_loop s b is" for b "is"
    by (rule calc_priority_cong) (simp add: assms(5))
  have "calc_priority_loop s b (mtxqs s p) = calc_priority_loop s (bpriority (tcb s p)) (mtxqs s p)"
  proof (rule le_iff_eqI)
    fix x
    show "calc_priority_loop s b (mtxqs s p) \<le> x \<longleftrightarrow> calc_priority_loop s (bpriority (tcb s p)) (mtxqs s p) \<le> x"
      unfolding calc_priority_le_iff using j le by (meson order_trans)
  qed
  then have m: "mtx_inv s1"
    using mtx_genD(5)[OF i(2)[unfolded mtx_inv_def], of p] assms(2)
    by (intro mtx_gen_pri[OF c(2)]) (use cc[unfolded assms(5)] in \<open>simp_all add: mutex_calc_priority_def assms(5)\<close>)
  have "kinv s1" using c(1) i(1) by (simp add: kinv_def assms(5))
  then show ?thesis using m c(3-6) by (simp add: tman_step_def tman_inv_def assms(5))
qed

lemma chg_pri_step:
  assumes "tman_inv cfg s" and "p_runtsk s = Some q"
  shows "tman_step cfg s (snd (chg_pri cfg tskid pri s))"
proof -
  let ?s = "t_lock_cpu s" and ?p = "get_tcb_self tskid s"
  define b where "b = (if pri = TPRI_INI then ipriority (p_tinib (tcb s ?p)) else INT_PRIORITY pri)"
  define s1 where "s1 = upd_tcb ?p (\<lambda>t. t\<lparr>bpriority := b\<rparr>) ?s"
  have i: "tman_inv cfg ?s" using assms by simp
  note t = kinvD(1)[OF tman_invD(1)[OF i]]
  have step: "tman_step cfg ?s (if mutex_scan_ceilmtx ?p s1 then s1 else dispatch_if (change_priority ?p b False s1))"
    if ok: "CHECK_TPRI_INI pri" "tskatr (p_tinib (tcb ?s ?p)) \<noteq> TA_NOEXS" "\<not> TSTAT_DORMANT (tstat (tcb ?s ?p))"
      "mtxqs ?s ?p \<noteq> [] \<or> TSTAT_WAIT_MTX (tstat (tcb ?s ?p)) \<longrightarrow> mutex_check_ceilpri ?p b ?s"
  proof -
    have nd: "tstat (tcb ?s ?p) \<noteq> TS_DORMANT" using ok(3) by (simp add: TSTAT_defs)
    have b: "b < TNUM_TPRI"
      using ok(1) int_priority_lt exists_pri(3)[OF kinvD(2)[OF tman_invD(1)[OF i]] ok(2)]
      by (auto simp: b_def CHECK_TPRI_INI_def lock_sel)
    have us: "\<forall>j. mtx_user ?s j ?p \<longrightarrow> MTX_CEILING ?s j \<longrightarrow> mtx_ceilpri ?s j \<le> b"
      using chg_pri_users[OF t ok(4)] by blast
    show ?thesis
      using chg_pri_stay[OF i nd b us s1_def]
        tman_op_step(1)[OF tman_invD(1)[OF i] chg_pri_change[OF tman_inv_base[OF i] nd b us s1_def _ refl]]
      by auto
  qed
  have nil: "q_empty ?p (mtxqs s1) \<or> \<not> mutex_scan_ceilmtx ?p s1 \<longleftrightarrow> \<not> mutex_scan_ceilmtx ?p s1"
    by (auto simp: q_empty_def scan_ceilmtx_iff)
  have "snd (chg_pri cfg tskid pri s) = s \<or> snd (chg_pri cfg tskid pri s) = t_unlock_cpu ?s \<or>
      snd (chg_pri cfg tskid pri s) =
        t_unlock_cpu (if mutex_scan_ceilmtx ?p s1 then s1 else dispatch_if (change_priority ?p b False s1)) \<and>
      CHECK_TPRI_INI pri \<and> tskatr (p_tinib (tcb ?s ?p)) \<noteq> TA_NOEXS \<and> \<not> TSTAT_DORMANT (tstat (tcb ?s ?p)) \<and>
      (mtxqs ?s ?p \<noteq> [] \<or> TSTAT_WAIT_MTX (tstat (tcb ?s ?p)) \<longrightarrow> mutex_check_ceilpri ?p b ?s)" (is "_ \<or> _ \<or> ?E \<and> ?C")
    unfolding chg_pri_def tsk_call_def Let_def b_def[symmetric] s1_def[symmetric] nil
    by (auto simp: q_empty_def)
  then consider "snd (chg_pri cfg tskid pri s) = s" | "snd (chg_pri cfg tskid pri s) = t_unlock_cpu ?s" | "?E" "?C" by blast
  then show ?thesis
  proof cases
    case 3
    then show ?thesis using step by simp
  qed (use tman_step_refl[OF assms(1)] tman_step_refl[OF i] in simp_all)
qed

section \<open>Properties\<close>

lemma tman_inv_run_kernel: "tman_inv sample_cfg run_kernel"
proof -
  have "dormant_ok run_kernel"
    by (simp add: dormant_ok_def run_kernel_sel tcb_dormant_def sample_tcb_def sample_tinib_def)
  then show ?thesis
    using kinv_run_kernel mtx_inv_run_kernel mtx_free_run_kernel ceil_inv_run_kernel by (simp add: tman_inv_def)
qed

text \<open>
  C6: creation, deletion, activation and termination of tasks and the change of a base priority keep,
  on every branch, the kernel invariant, the invariants of the mutexes (a terminated task holds none
  and its priority ceilings are gone) and the values of dormant tasks. No other object is touched,
  and wait queues only lose tasks.
\<close>

theorem task_manage_calls_keep_inv:
  assumes "kinv s" and "mtx_inv s" and "mtx_free cfg s" and "ceil_inv s" and "dormant_ok s"
    and "p_runtsk s = Some p" and "\<not> reqflg s"
  shows "\<forall>s' \<in> {snd (acre_tsk cfg pk s), snd (del_tsk cfg tskid s), snd (act_tsk cfg tskid s), snd (iact_tsk cfg tskid s),
      snd (can_act cfg tskid s), snd (ext_tsk s), snd (ter_tsk cfg tskid s), snd (chg_pri cfg tskid pri s),
      snd (get_pri cfg tskid s), snd (get_inf s)}.
    kinv s' \<and> mtx_inv s' \<and> mtx_free cfg s' \<and> ceil_inv s' \<and> dormant_ok s' \<and> wait_sub {} s s' \<and> pools s' = pools s"
proof -
  have i: "tman_inv cfg s" using assms(1-5) by (simp add: tman_inv_def)
  have "\<forall>s' \<in> {snd (acre_tsk cfg pk s), snd (del_tsk cfg tskid s), snd (act_tsk cfg tskid s), snd (iact_tsk cfg tskid s),
      snd (can_act cfg tskid s), snd (ext_tsk s), snd (ter_tsk cfg tskid s), snd (chg_pri cfg tskid pri s),
      snd (get_pri cfg tskid s), snd (get_inf s)}. tman_step cfg s s'"
    using acre_tsk_step[OF i] del_tsk_step[OF i] act_tsk_steps[OF i] ext_tsk_step[OF i assms(6)]
      ter_tsk_step[OF i assms(7)] chg_pri_step[OF i assms(6)] by simp
  then show ?thesis unfolding tman_step_def tman_inv_def by blast
qed

theorem task_manage_calls_keep_inv_witness:
  "kinv (snd (ter_tsk sample_cfg 2 run_kernel)) \<and> mtx_inv (snd (ext_tsk run_kernel)) \<and>
    dormant_ok (snd (chg_pri sample_cfg 1 3 run_kernel))"
  using task_manage_calls_keep_inv[OF kinv_run_kernel mtx_inv_run_kernel mtx_free_run_kernel ceil_inv_run_kernel
      conjunct2[OF conjunct2[OF conjunct2[OF conjunct2[OF tman_inv_run_kernel[unfolded tman_inv_def]]]]]
      run_kernel_sel(3,8), of undefined 2]
    task_manage_calls_keep_inv[OF kinv_run_kernel mtx_inv_run_kernel mtx_free_run_kernel ceil_inv_run_kernel
      conjunct2[OF conjunct2[OF conjunct2[OF conjunct2[OF tman_inv_run_kernel[unfolded tman_inv_def]]]]]
      run_kernel_sel(3,8), of undefined 1 3] by blast

text \<open>
  C7: \<open>ter_tsk\<close> undoes whatever the task was doing: it leaves the wait queue and the time event it
  was in, its mutexes are released, and it is dormant with its initial priority, or, with a queued
  activation request, which is used up, active again.
\<close>

theorem ter_tsk_terminates:
  assumes "kinv s" and "mtx_inv s" and "mtx_free cfg s" and "ceil_inv s" and "dormant_ok s" and "\<not> reqflg s"
    and "CHECK_TSKCTX_UNL s" and "VALID_TSKID cfg tskid" and "p = INDEX_TSK tskid" and "p_runtsk s \<noteq> Some p"
    and "tskatr (p_tinib (tcb s p)) \<noteq> TA_NOEXS" and "tstat (tcb s p) \<noteq> TS_DORMANT" and "(r, s') = ter_tsk cfg tskid s"
  shows "r = Ret E_OK \<and> mtxqs s' p = [] \<and> (\<forall>i. p_loctsk (mtxcb s' i) \<noteq> Some p) \<and>
    (\<forall>q. is_waitq q \<longrightarrow> p \<notin> set (queues s' q)) \<and> evts (tme s') (TskTmevtb p) = None \<and>
    tcb s' p = (tcb s p)\<lparr>tstat := if actque (tcb s p) then TS_RUNNABLE else TS_DORMANT,
      bpriority := ipriority (p_tinib (tcb s p)), priority := ipriority (p_tinib (tcb s p)),
      wupque := False, enatex := False, texptn := 0, actque := False\<rparr>"
proof -
  let ?s = "t_lock_cpu s"
  have i: "tman_inv cfg s" using assms(1-5) by (simp add: tman_inv_def)
  then have il: "tman_inv cfg ?s" by simp
  have nd: "tstat (tcb ?s p) \<noteq> TS_DORMANT" using assms(12) by (simp add: lock_sel)
  have run: "\<forall>q. p_runtsk ?s = Some q \<longrightarrow> p_runtsk ?s = Some q \<and> q \<noteq> p" using assms(10) by auto
  define v where "v = mutex_release_all p (unlink_task p ?s)"
  define e where "e = snd (ended p (p_runtsk ?s) ?s)"
  define x where "x = restart p e"
  note c = ended_code[OF kinvD(1)[OF tman_invD(1)[OF il]] nd v_def]
  note en = ended_ok[OF tman_inv_base[OF il] nd run e_def]
  note re = restart_tman[OF tman_inv_base[OF il] nd run e_def x_def]
  have v: "(if \<not> q_empty p (mtxqs (unlink_task p ?s)) then mutex_release_all p (unlink_task p ?s)
      else (False, unlink_task p ?s)) = v"
    by (simp add: v_def q_empty_def mutex_release_all_round)
  have rs: "(r, s') = (Ret E_OK, t_unlock_cpu (dispatch_if (fst v \<or> fst x, snd x)))"
    unfolding assms(13) ter_tsk_def Let_def tsk_call_def unlink_task_def[symmetric] assms(9)[symmetric] v x_def e_def
    using assms(7,8,10-12) c(3)
    by (auto simp: CHECK_NONSELF_def case_prod_beta restart_def TSTAT_DORMANT_def Let_def lock_sel)
  have sel: "tcb s' = tcb (snd x)" "queues s' = queues (snd x)" "mtxqs s' = mtxqs (snd x)" "mtxcb s' = mtxcb (snd x)"
    "tme s' = tme (snd x)"
    using rs by (simp_all add: dispatch_if_def dispatch_def t_unlock_cpu_def)
  have tp: "tcb (snd x) p = (tcb s p)\<lparr>tstat := if actque (tcb s p) then TS_RUNNABLE else TS_DORMANT,
      bpriority := ipriority (p_tinib (tcb s p)), priority := ipriority (p_tinib (tcb s p)),
      wupque := False, enatex := False, texptn := 0, actque := False\<rparr>"
    using en(7) by (cases "actque (tcb s p)") (simp_all add: x_def restart_def make_active_sel lock_sel)
  have ob: "mtxqs (snd x) = mtxqs e" "mtxcb (snd x) = mtxcb e"
    using objectsD(1,22)[OF make_active_sel(3)] by (simp_all add: x_def restart_def)
  have nil: "mtxqs s' p = []" using en(10) by (simp add: sel ob)
  have own: "p_loctsk (mtxcb s' j) \<noteq> Some p" for j
    using mtx_genD(2)[OF re(2)[unfolded mtx_inv_def], of j p] nil by (simp add: sel)
  have t: "tsk_inv (snd x)" using re(1) by (simp add: op_ok_def winv_def)
  have "task_place (tcb (snd x) p) = Some h \<Longrightarrow> \<not> is_waitq h" for h
    by (auto simp: task_place_def tp is_waitq_def TSTAT_defs split: if_splits)
  then have q: "is_waitq h \<Longrightarrow> p \<notin> set (queues s' h)" for h using tsk_invD(5)[OF t, of p h] by (auto simp: sel)
  have "\<not> timed p (tcb (snd x) p)" by (simp add: timed_def tp TSTAT_defs)
  then have "evts (tme s') (TskTmevtb p) = None" using tsk_invD(4)[OF t, of p] by (simp add: tmout_ok_def sel)
  moreover have "r = Ret E_OK" using rs by simp
  ultimately show ?thesis using nil own q tp unfolding sel(1) by blast
qed

theorem ter_tsk_terminates_witness:
  "fst (ter_tsk sample_cfg 2 run_kernel) = Ret E_OK \<and> tstat (tcb (snd (ter_tsk sample_cfg 2 run_kernel)) 1) = TS_DORMANT"
proof -
  obtain r s' where e: "(r, s') = ter_tsk sample_cfg 2 run_kernel" by (metis surj_pair)
  note i = tman_invD[OF tman_inv_run_kernel]
  have v: "CHECK_TSKCTX_UNL run_kernel" "VALID_TSKID sample_cfg 2" "tskatr (p_tinib (tcb run_kernel 1)) \<noteq> TA_NOEXS"
    "tstat (tcb run_kernel 1) \<noteq> TS_DORMANT" "1 = INDEX_TSK 2" "p_runtsk run_kernel \<noteq> Some 1" "\<not> actque (tcb run_kernel 1)"
    by (simp_all add: CHECK_TSKCTX_UNL_def run_kernel_sel VALID_TSKID_def sample_cfg_def sample_tcb_def sample_tinib_def
        TSTAT_defs INDEX_TSK_def)
  show ?thesis
    using ter_tsk_terminates[OF i run_kernel_sel(8) v(1,2,5,6,3,4) e] v(7) by (simp add: e[symmetric])
qed

text \<open>
  The rounding of the stack size wraps around. For a size within 7 bytes of $2^{32}$ and no
  stack of the caller, \<open>ROUND_STK_T\<close> gives 0, the allocation of 0 bytes succeeds, and \<open>acre_tsk\<close>
  creates a task with a stack of no size.
\<close>

lemma acre_tsk_stack_wraps:
  assumes "CHECK_TSKCTX_UNL s" and "ctsk_tskatr pk = TA_NULL" and "FUNC_ALIGNED (ctsk_task pk)" and "FUNC_NONNULL (ctsk_task pk)"
    and "VALID_TPRI (ctsk_itskpri pk)" and "ctsk_stk pk = None"
    and "2 ^ 32 - 7 \<le> ctsk_stksz pk" and "ctsk_stksz pk < 2 ^ 32" and "queues s FreeTcb = p # ps"
  shows "fst (acre_tsk cfg pk s) = Ret (TSKID p) \<and>
    stksz (p_tinib (tcb (snd (acre_tsk cfg pk s)) p)) = 0 \<and>
    stk (p_tinib (tcb (snd (acre_tsk cfg pk s)) p)) \<noteq> None"
proof -
  have "ctsk_stksz pk \<in> {4294967289, 4294967290, 4294967291, 4294967292, 4294967293, 4294967294, 4294967295}"
    using assms(7,8) by auto
  then have z: "ROUND_STK_T (ctsk_stksz pk) = 0" by (auto simp: ROUND_STK_T_def)
  have rs: "CHECK_RSATR TA_NULL v" for v by (simp add: CHECK_RSATR_def)
  have k: "kernel_malloc cfg 0 (t_lock_cpu s) = (Some (kmm cfg + kmm_brk s), t_lock_cpu s)"
    by (simp add: kernel_malloc_def Let_def lock_objects)
  have at: "(TA_MEMALLOC AND TA_ACT :: ATR) = 0" by simp
  show ?thesis
    using assms(1-6,9) rs z k at assms(7)
    by (simp add: acre_tsk_def tsk_call_def q_empty_def lock_sel q_delete_next_def make_dormant_def Let_def)
qed

lemma acre_tsk_stack_wraps_witness:
  "fst (acre_tsk sample_cfg \<lparr>ctsk_tskatr = TA_NULL, ctsk_exinf = 0, ctsk_task = 4, ctsk_itskpri = 1,
      ctsk_stksz = 2 ^ 32 - 1, ctsk_stk = None\<rparr> (idle_kernel\<lparr>queues := (\<lambda>_. [])(FreeTcb := [3])\<rparr>)) = Ret 4"
  using acre_tsk_stack_wraps[of "idle_kernel\<lparr>queues := (\<lambda>_. [])(FreeTcb := [3])\<rparr>" "\<lparr>ctsk_tskatr = TA_NULL, ctsk_exinf = 0,
      ctsk_task = 4, ctsk_itskpri = 1, ctsk_stksz = 2 ^ 32 - 1, ctsk_stk = None\<rparr>" 3 "[]" sample_cfg]
  by (simp add: CHECK_TSKCTX_UNL_def idle_sel FUNC_ALIGNED_def ALIGNED_def FUNC_NONNULL_def VALID_TPRI_def TSKID_def)

end
