(* ===== verification/Asp_Handler.thy ===== *)
theory Asp_Handler
  imports Asp_Object
begin

text \<open>
  What cyclic and alarm handlers have in common (\<^verbatim>\<open>kernel/cyclic.c\<close>, \<^verbatim>\<open>kernel/alarm.c\<close>): a handler
  that is started has a time event in the heap with its own callback, one that is stopped has none.
  The contract \<open>handler_pool\<close> has the laws of the two control blocks, and its lemmas say what
  starting, stopping, creation and deletion do. \<^verbatim>\<open>Asp_Cyclic\<close> and \<^verbatim>\<open>Asp_Alarm\<close> interpret it.
\<close>

section \<open>Time events of handlers\<close>

definition hdl_event :: "tmevtb_id \<Rightarrow> bool" where
  "hdl_event b \<longleftrightarrow> (\<forall>p. b \<noteq> TskTmevtb p)"

text \<open>The time events of the tasks, and what does not depend on time events, stay.\<close>

definition same_but_tme :: "tmevtb_id \<Rightarrow> kernel \<Rightarrow> kernel \<Rightarrow> bool" where
  "same_but_tme b s s' \<longleftrightarrow> tcb s' = tcb s \<and> queues s' = queues s \<and> p_schedtsk s' = p_schedtsk s \<and>
    ready_primap s' = ready_primap s \<and> p_runtsk s' = p_runtsk s \<and> reqflg s' = reqflg s \<and> dspflg s' = dspflg s \<and>
    wobjatr s' = wobjatr s \<and> heap_ok (tme s') \<and> same_clock (tme s) (tme s') \<and>
    (\<forall>c. c \<noteq> b \<longrightarrow> evts (tme s') c = evts (tme s) c \<and>
      callback (tmevtb (tme s') c) = callback (tmevtb (tme s) c))"

lemma kinv_same_but_tme:
  assumes "kinv s" and "same_but_tme b s s'" and "hdl_event b"
  shows "kinv s'"
proof -
  note t = kinvD(1)[OF assms(1)]
  have sel: "tcb s' = tcb s" "queues s' = queues s" "p_schedtsk s' = p_schedtsk s" "ready_primap s' = ready_primap s"
    "p_runtsk s' = p_runtsk s" "reqflg s' = reqflg s" "dspflg s' = dspflg s" "wobjatr s' = wobjatr s" "heap_ok (tme s')"
    "\<And>p. evts (tme s') (TskTmevtb p) = evts (tme s) (TskTmevtb p)"
    "\<And>p. callback (tmevtb (tme s') (TskTmevtb p)) = callback (tmevtb (tme s) (TskTmevtb p))"
    using assms(2,3) by (auto simp: same_but_tme_def hdl_event_def)
  have "ready_ok s'" by (rule ready_ok_other[OF tsk_invD(1)[OF t]]) (use tsk_invD(7)[OF t] in \<open>simp_all add: sel\<close>)
  then have "tsk_inv s'"
    using t by (simp add: tsk_inv_def sel tmout_ok_def)
  then show ?thesis using assms(1) by (simp add: kinv_def winv_def sel)
qed

text \<open>The two operations on the heap: an event gets a new time, or goes.\<close>

definition ev_start :: "tmevtb_id \<Rightarrow> EVTTIM \<Rightarrow> cback \<Rightarrow> TMEVT \<Rightarrow> TMEVT" where
  "ev_start b t cb tm = tmevtb_insert b t (set_callback b cb tm)"

lemma enqueue_ev_start:
  "tmevtb_enqueue b d cb tm = ev_start b (base_time tm + d) cb tm"
  "tmevtb_enqueue_evttim b t cb tm = ev_start b t cb tm"
  by (simp_all add: tmevtb_enqueue_def tmevtb_enqueue_evttim_def ev_start_def)

lemma ev_start_ok:
  assumes "heap_ok tm" and "evts tm b = None"
  shows "heap_ok (ev_start b t cb tm)" and "evts (ev_start b t cb tm) = (evts tm)(b \<mapsto> t)"
    and "same_clock tm (ev_start b t cb tm)"
    and "callback (tmevtb (ev_start b t cb tm) c) = (if c = b then cb else callback (tmevtb tm c))"
proof -
  have h: "heap_ok (set_callback b cb tm)" "evts (set_callback b cb tm) b = None" using assms by simp_all
  show "heap_ok (ev_start b t cb tm)" "evts (ev_start b t cb tm) = (evts tm)(b \<mapsto> t)"
    using tmevtb_insert_ok(1,2)[OF h] by (simp_all add: ev_start_def)
  show "same_clock tm (ev_start b t cb tm)"
    using tmevtb_insert_sel(2-4)[OF h] by (simp add: ev_start_def same_clock_def)
  show "callback (tmevtb (ev_start b t cb tm) c) = (if c = b then cb else callback (tmevtb tm c))"
    using tmevtb_insert_sel(5)[OF h] by (simp add: ev_start_def)
qed

lemma ev_stop_ok:
  assumes "heap_ok tm" and "evts tm b \<noteq> None"
  shows "heap_ok (tmevtb_dequeue b tm)" and "evts (tmevtb_dequeue b tm) = (evts tm)(b := None)"
    and "same_clock tm (tmevtb_dequeue b tm)"
    and "callback (tmevtb (tmevtb_dequeue b tm) c) = callback (tmevtb tm c)"
  using tmevtb_delete_ok(1,2)[OF assms] tmevtb_delete_sel[OF assms]
  by (simp_all add: tmevtb_dequeue_def same_clock_def)

text \<open>A left time is exact while the clock is near the lower bound of the times in the heap.\<close>

lemma lefttim_start:
  assumes "heap_ok tm" and "evts tm b = Some (next_time tm + d)" and "next_time tm - min_time tm \<le> 2" and "d \<le> TMAX_RELTIM"
  shows "tmevt_lefttim b tm = d"
proof -
  have t: "time (TMEVT_NODE tm (index (tmevtb tm b))) = next_time tm + d" using evts_SomeD(4)[OF assms(2)] .
  have n: "unat (next_time tm - min_time tm) \<le> 2" "unat d \<le> 2147483647"
    using assms(3,4) by (simp_all add: word_le_nat_alt)
  have u: "unat (next_time tm - min_time tm + d) = unat (next_time tm - min_time tm) + unat d"
    using n by (simp add: unat_plus_if')
  have e: "next_time tm + d - min_time tm = (next_time tm - min_time tm) + d" by simp
  have "next_time tm + d - min_time tm \<le> next_time tm - min_time tm \<longleftrightarrow> d = 0"
    unfolding e word_le_nat_alt u by (simp add: unat_eq_0)
  then show ?thesis by (simp add: tmevt_lefttim_def t EVTTIM_LE_def Let_def)
qed

section \<open>The contract\<close>

definition hdl_inv ::
  "(nat \<Rightarrow> tmevtb_id) \<Rightarrow> (nat \<Rightarrow> cback) \<Rightarrow> (kernel \<Rightarrow> nat \<Rightarrow> 'cb) \<Rightarrow> ('cb \<Rightarrow> ATR) \<Rightarrow> ('cb \<Rightarrow> bool) \<Rightarrow>
    (kernel \<Rightarrow> nat list) \<Rightarrow> ('cb \<Rightarrow> EVTTIM option \<Rightarrow> bool) \<Rightarrow> nat \<Rightarrow> nat \<Rightarrow> kernel \<Rightarrow> bool" where
  "hdl_inv evb cbk cb atr sta free P lo hi s \<longleftrightarrow> distinct (free s) \<and>
    (\<forall>i \<in> set (free s). atr (cb s i) = TA_NOEXS \<and> lo \<le> i \<and> i < hi) \<and>
    (\<forall>i. (sta (cb s i) \<longleftrightarrow> evts (tme s) (evb i) \<noteq> None) \<and>
      (atr (cb s i) = TA_NOEXS \<longrightarrow> \<not> sta (cb s i)) \<and>
      (atr (cb s i) \<noteq> TA_NOEXS \<longrightarrow> P (cb s i) (evts (tme s) (evb i))) \<and>
      (sta (cb s i) \<longrightarrow> callback (tmevtb (tme s) (evb i)) = cbk i))"

lemma hdl_invD:
  assumes "hdl_inv evb cbk cb atr sta free P lo hi s"
  shows "distinct (free s)" and "i \<in> set (free s) \<Longrightarrow> atr (cb s i) = TA_NOEXS \<and> lo \<le> i \<and> i < hi"
    and "sta (cb s i) \<longleftrightarrow> evts (tme s) (evb i) \<noteq> None"
    and "atr (cb s i) = TA_NOEXS \<Longrightarrow> \<not> sta (cb s i)"
    and "atr (cb s i) \<noteq> TA_NOEXS \<Longrightarrow> P (cb s i) (evts (tme s) (evb i))"
    and "sta (cb s i) \<Longrightarrow> callback (tmevtb (tme s) (evb i)) = cbk i"
  using assms unfolding hdl_inv_def by blast+

locale handler_pool =
  fixes evb :: "nat \<Rightarrow> tmevtb_id" and cbk :: "nat \<Rightarrow> cback" and cb :: "kernel \<Rightarrow> nat \<Rightarrow> 'cb"
    and atr :: "'cb \<Rightarrow> ATR" and sta :: "'cb \<Rightarrow> bool" and free :: "kernel \<Rightarrow> nat list"
    and P :: "'cb \<Rightarrow> EVTTIM option \<Rightarrow> bool"
  assumes evb_inj: "evb i = evb j \<longleftrightarrow> i = j"
    and evb_hdl: "hdl_event (evb i)"
    and frame: "objects s' = objects s \<Longrightarrow> cb s' = cb s \<and> free s' = free s"
begin

abbreviation inv :: "nat \<Rightarrow> nat \<Rightarrow> kernel \<Rightarrow> bool" where
  "inv lo hi s \<equiv> hdl_inv evb cbk cb atr sta free P lo hi s"

lemma inv_one:
  assumes "inv lo hi s" and "same_but_tme (evb i) s s'" and "free s' = free s" and "\<And>j. j \<noteq> i \<Longrightarrow> cb s' j = cb s j"
    and "atr (cb s i) \<noteq> TA_NOEXS" and "atr (cb s' i) \<noteq> TA_NOEXS"
    and "sta (cb s' i) \<longleftrightarrow> evts (tme s') (evb i) \<noteq> None" and "P (cb s' i) (evts (tme s') (evb i))"
    and "sta (cb s' i) \<Longrightarrow> callback (tmevtb (tme s') (evb i)) = cbk i"
  shows "inv lo hi s'"
  unfolding hdl_inv_def
proof (intro conjI ballI allI impI)
  show "distinct (free s')" using hdl_invD(1)[OF assms(1)] assms(3) by simp
next
  fix j
  assume j: "j \<in> set (free s')"
  have "j \<noteq> i" using hdl_invD(2)[OF assms(1), of j] j assms(3,5) by auto
  then show "atr (cb s' j) = TA_NOEXS" "lo \<le> j" "j < hi" using hdl_invD(2)[OF assms(1), of j] j assms(3,4) by auto
next
  fix j
  have o: "j \<noteq> i \<Longrightarrow> evts (tme s') (evb j) = evts (tme s) (evb j) \<and>
      callback (tmevtb (tme s') (evb j)) = callback (tmevtb (tme s) (evb j))"
    using assms(2) evb_inj[of j i] by (simp add: same_but_tme_def)
  show "sta (cb s' j) \<longleftrightarrow> evts (tme s') (evb j) \<noteq> None" using o hdl_invD(3)[OF assms(1), of j] assms(4)[of j] assms(7) by (cases "j = i") auto
  show "\<not> sta (cb s' j)" if "atr (cb s' j) = TA_NOEXS"
    using that hdl_invD(4)[OF assms(1), of j] assms(4)[of j] assms(6) by (cases "j = i") auto
  show "P (cb s' j) (evts (tme s') (evb j))" if "atr (cb s' j) \<noteq> TA_NOEXS"
    using that o hdl_invD(5)[OF assms(1), of j] assms(4)[of j] assms(8) by (cases "j = i") auto
  show "callback (tmevtb (tme s') (evb j)) = cbk j" if "sta (cb s' j)"
    using that o hdl_invD(6)[OF assms(1), of j] assms(4)[of j] assms(9) by (cases "j = i") auto
qed

text \<open>Starting a handler, also one that runs already, whose event is then removed first.\<close>

lemma start_ok:
  assumes "kinv s" and "inv lo hi s" and "atr (cb s i) \<noteq> TA_NOEXS" and "same_tasks s s1" and "wobjatr s1 = wobjatr s"
    and "free s1 = free s" and "\<And>j. j \<noteq> i \<Longrightarrow> cb s1 j = cb s j" and "\<And>tm. cb (s1\<lparr>tme := tm\<rparr>) = cb s1" and "\<And>tm. free (s1\<lparr>tme := tm\<rparr>) = free s1"
    and "atr (cb s1 i) \<noteq> TA_NOEXS" and "sta (cb s1 i)" and "P (cb s1 i) (Some t)"
    and "tm = (if sta (cb s i) then tmevtb_dequeue (evb i) (tme s) else tme s)"
    and "s' = s1\<lparr>tme := ev_start (evb i) t (cbk i) tm\<rparr>"
  shows "kinv s'" and "inv lo hi s'"
proof -
  have h: "heap_ok (tme s)" using tsk_invD(2)[OF kinvD(1)[OF assms(1)]] .
  have tm: "heap_ok tm" "evts tm = (evts (tme s))(evb i := None)" "same_clock (tme s) tm"
    "callback (tmevtb tm c) = callback (tmevtb (tme s) c)" for c
    using hdl_invD(3)[OF assms(2), of i] ev_stop_ok[OF h, of "evb i"] h
    by (auto simp: assms(13) fun_upd_idem same_clock_def)
  note st = ev_start_ok[OF tm(1), of "evb i" t "cbk i"]
  have e: "same_but_tme (evb i) s s'"
    using st tm assms(4,5) by (simp add: same_but_tme_def assms(14) same_tasks_def same_clock_def)
  show "kinv s'" by (rule kinv_same_but_tme[OF assms(1) e evb_hdl])
  show "inv lo hi s'"
    by (rule inv_one[OF assms(2) e]) (use st tm assms(3,6,7,10-12) in \<open>simp_all add: assms(8,9,14)\<close>)
qed

lemma stop_ok:
  assumes "kinv s" and "inv lo hi s" and "sta (cb s i)" and "same_tasks s s1" and "wobjatr s1 = wobjatr s"
    and "free s1 = free s" and "\<And>j. j \<noteq> i \<Longrightarrow> cb s1 j = cb s j" and "\<And>tm. cb (s1\<lparr>tme := tm\<rparr>) = cb s1" and "\<And>tm. free (s1\<lparr>tme := tm\<rparr>) = free s1"
    and "atr (cb s1 i) \<noteq> TA_NOEXS" and "\<not> sta (cb s1 i)" and "P (cb s1 i) None"
    and "s' = s1\<lparr>tme := tmevtb_dequeue (evb i) (tme s)\<rparr>"
  shows "kinv s'" and "inv lo hi s'"
proof -
  have h: "heap_ok (tme s)" using tsk_invD(2)[OF kinvD(1)[OF assms(1)]] .
  have ev: "evts (tme s) (evb i) \<noteq> None" using hdl_invD(3)[OF assms(2), of i] assms(3) by simp
  note st = ev_stop_ok[OF h ev]
  have e: "same_but_tme (evb i) s s'"
    using st assms(4,5) by (simp add: same_but_tme_def assms(13) same_tasks_def same_clock_def)
  show "kinv s'" by (rule kinv_same_but_tme[OF assms(1) e evb_hdl])
  have "atr (cb s i) \<noteq> TA_NOEXS" using hdl_invD(4)[OF assms(2), of i] assms(3) by blast
  then show "inv lo hi s'"
    by (intro inv_one[OF assms(2) e]) (use st assms(6,7,10-12) in \<open>simp_all add: assms(8,9,13)\<close>)
qed

text \<open>A stopped handler takes a place in the free list, or leaves it; its time event stays away.\<close>

lemma create_ok:
  assumes "inv lo hi s" and "free s = i # is" and "free s1 = is" and "\<And>j. j \<noteq> i \<Longrightarrow> cb s1 j = cb s j" and "tme s1 = tme s"
    and "\<not> sta (cb s1 i)" and "atr (cb s1 i) \<noteq> TA_NOEXS" and "P (cb s1 i) None"
  shows "inv lo hi s1"
proof -
  have n: "evts (tme s) (evb i) = None" using hdl_invD(2,3,4)[OF assms(1), of i] assms(2) by auto
  show ?thesis
    unfolding hdl_inv_def
  proof (intro conjI ballI allI impI)
    show "distinct (free s1)" using hdl_invD(1)[OF assms(1)] assms(2,3) by simp
  next
    fix j
    assume j: "j \<in> set (free s1)"
    then have "j \<noteq> i" using hdl_invD(1)[OF assms(1)] assms(2,3) by auto
    then show "atr (cb s1 j) = TA_NOEXS" "lo \<le> j" "j < hi" using hdl_invD(2)[OF assms(1), of j] j assms(2-4) by auto
  next
    fix j
    note d = hdl_invD(3-6)[OF assms(1), of j] and o = assms(4)[of j]
    show "sta (cb s1 j) \<longleftrightarrow> evts (tme s1) (evb j) \<noteq> None" using d(1) o assms(5,6) n by (cases "j = i") auto
    show "\<not> sta (cb s1 j)" if "atr (cb s1 j) = TA_NOEXS" using that d(2) o assms(6) by (cases "j = i") auto
    show "P (cb s1 j) (evts (tme s1) (evb j))" if "atr (cb s1 j) \<noteq> TA_NOEXS"
      using that d(3) o assms(5,8) n by (cases "j = i") auto
    show "callback (tmevtb (tme s1) (evb j)) = cbk j" if "sta (cb s1 j)" using that d(4) o assms(5,6) by (cases "j = i") auto
  qed
qed

lemma delete_ok:
  assumes "inv lo hi s" and "atr (cb s i) \<noteq> TA_NOEXS" and "\<not> sta (cb s i)" and "lo \<le> i" and "i < hi"
    and "free s1 = free s @ [i]" and "\<And>j. j \<noteq> i \<Longrightarrow> cb s1 j = cb s j" and "tme s1 = tme s"
    and "\<not> sta (cb s1 i)" and "atr (cb s1 i) = TA_NOEXS"
  shows "inv lo hi s1"
proof -
  have n: "i \<notin> set (free s)" using hdl_invD(2)[OF assms(1), of i] assms(2) by auto
  show ?thesis
    unfolding hdl_inv_def
  proof (intro conjI ballI allI impI)
    show "distinct (free s1)" using hdl_invD(1)[OF assms(1)] assms(6) n by simp
  next
    fix j
    assume j: "j \<in> set (free s1)"
    then show "atr (cb s1 j) = TA_NOEXS" "lo \<le> j" "j < hi"
      using hdl_invD(2)[OF assms(1), of j] assms(4-7,10) by (cases "j = i"; auto)+
  next
    fix j
    note d = hdl_invD(3-6)[OF assms(1), of j] and o = assms(7)[of j]
    show "sta (cb s1 j) \<longleftrightarrow> evts (tme s1) (evb j) \<noteq> None" using d(1) o assms(3,8,9) by (cases "j = i") auto
    show "\<not> sta (cb s1 j)" if "atr (cb s1 j) = TA_NOEXS" using that d(2) o assms(9) by (cases "j = i") auto
    show "P (cb s1 j) (evts (tme s1) (evb j))" if "atr (cb s1 j) \<noteq> TA_NOEXS"
      using that d(3) o assms(8,10) by (cases "j = i") auto
    show "callback (tmevtb (tme s1) (evb j)) = cbk j" if "sta (cb s1 j)" using that d(4) o assms(8,9) by (cases "j = i") auto
  qed
qed

lemma inv_same:
  assumes "cb s' = cb s" and "free s' = free s" and "tme s' = tme s"
  shows "inv lo hi s' = inv lo hi s"
  by (simp add: hdl_inv_def assms)

lemma inv_lock [simp]:
  "inv lo hi (t_lock_cpu s) = inv lo hi s" "inv lo hi (t_unlock_cpu s) = inv lo hi s"
  "inv lo hi (i_lock_cpu s) = inv lo hi s" "inv lo hi (i_unlock_cpu s) = inv lo hi s"
  using frame[OF objects_lock(1)] frame[OF objects_lock(2)] frame[OF objects_lock(3)] frame[OF objects_lock(4)]
  by (simp_all add: hdl_inv_def lock_sel)

lemma both_call:
  "kinv (snd (body (t_lock_cpu s))) \<and> inv lo hi (snd (body (t_lock_cpu s))) \<Longrightarrow>
    kinv (snd (tsk_call body s)) \<and> inv lo hi (snd (tsk_call body s))"
  by (simp add: tsk_call_def case_prod_beta)

lemma both_int_call:
  "kinv (snd (body (i_lock_cpu s))) \<and> inv lo hi (snd (body (i_lock_cpu s))) \<Longrightarrow>
    kinv (snd (int_call body s)) \<and> inv lo hi (snd (int_call body s))"
  by (simp add: int_call_def case_prod_beta)

end

end
