(* ===== verification/Asp_Cyclic.thy ===== *)
theory Asp_Cyclic
  imports Asp_Handler
begin

text \<open>
  Cyclic handlers, \<^verbatim>\<open>kernel/cyclic.c\<close>. The handler routine is a parameter \<open>hdr\<close>: what the
  routine at an address does to the state when it is called with the extended information.
\<close>

section \<open>Operations\<close>

definition tnum_cyc :: "kernel_cfg \<Rightarrow> nat" where "tnum_cyc cfg = nat (tmax_cycid cfg)"
definition tnum_scyc :: "kernel_cfg \<Rightarrow> nat" where "tnum_scyc cfg = nat (tmax_scycid cfg)"

definition INDEX_CYC :: "ID \<Rightarrow> nat" where "INDEX_CYC cycid = nat (cycid - 1)"
definition CYCID :: "nat \<Rightarrow> ID" where "CYCID i = int i + 1"

definition VALID_CYCID :: "kernel_cfg \<Rightarrow> ID \<Rightarrow> bool" where
  "VALID_CYCID cfg cycid \<longleftrightarrow> 1 \<le> cycid \<and> cycid \<le> tmax_cycid cfg"

abbreviation upd_cyc :: "nat \<Rightarrow> (CYCCB \<Rightarrow> CYCCB) \<Rightarrow> kernel \<Rightarrow> kernel" where
  "upd_cyc i g s \<equiv> s\<lparr>cyccb := (cyccb s)(i := g (cyccb s i))\<rparr>"

definition tmevtb_enqueue_cyc :: "nat \<Rightarrow> EVTTIM \<Rightarrow> kernel \<Rightarrow> kernel" where
  "tmevtb_enqueue_cyc i evttim s =
    (let s = upd_tme (tmevtb_enqueue_evttim (CycTmevtb i) evttim (Call_cychdr i)) s
     in upd_cyc i (\<lambda>c. c\<lparr>cyc_evttim := evttim\<rparr>) s)"

definition initialize_cyclic :: "kernel_cfg \<Rightarrow> kernel \<Rightarrow> kernel" where
  "initialize_cyclic cfg s =
    (let s = fold (\<lambda>i s.
               let s = upd_cyc i (\<lambda>c. c\<lparr>p_cycinib := cycinib_table cfg i\<rparr>) s
               in if cycatr (p_cycinib (cyccb s i)) AND TA_STA \<noteq> 0
                  then (let s = upd_cyc i (\<lambda>c. c\<lparr>cycsta := True\<rparr>) s
                        in tmevtb_enqueue_cyc i (cycphs (p_cycinib (cyccb s i))) s)
                  else upd_cyc i (\<lambda>c. c\<lparr>cycsta := False\<rparr>) s)
             [0..<tnum_scyc cfg] s;
         s = s\<lparr>free_cyccb := []\<rparr>
     in fold (\<lambda>i s.
          let s = upd_cyc i (\<lambda>c. c\<lparr>p_cycinib := (p_cycinib c)\<lparr>cycatr := TA_NOEXS\<rparr>\<rparr>) s
          in s\<lparr>free_cyccb := free_cyccb s @ [i]\<rparr>)
        [tnum_scyc cfg..<tnum_cyc cfg] s)"

definition acre_cyc :: "kernel_cfg \<Rightarrow> CYCINIB \<Rightarrow> kernel \<Rightarrow> result \<times> kernel" where
  "acre_cyc cfg pk_ccyc s =
    (if \<not> CHECK_TSKCTX_UNL s then (Ret E_CTX, s)
     else if \<not> CHECK_RSATR (cycatr pk_ccyc) TA_STA then (Ret E_RSATR, s)
     else if \<not> FUNC_ALIGNED (cychdr pk_ccyc) then (Ret E_PAR, s)
     else if \<not> cychdr pk_ccyc \<noteq> 0 then (Ret E_PAR, s)
     else if \<not> (0 < cyctim pk_ccyc \<and> cyctim pk_ccyc \<le> TMAX_RELTIM) then (Ret E_PAR, s)
     else if \<not> (0 \<le> cycphs pk_ccyc \<and> cycphs pk_ccyc \<le> TMAX_RELTIM) then (Ret E_PAR, s)
     else tsk_call (\<lambda>s.
       if tnum_cyc cfg = 0 \<or> free_cyccb s = [] then (Ret E_NOID, s)
       else (let i = hd (free_cyccb s);
                 s = s\<lparr>free_cyccb := tl (free_cyccb s)\<rparr>;
                 s = upd_cyc i (\<lambda>c. c\<lparr>p_cycinib := \<lparr>cycatr = cycatr pk_ccyc, cyc_exinf = cyc_exinf pk_ccyc,
                       cychdr = cychdr pk_ccyc, cyctim = cyctim pk_ccyc, cycphs = cycphs pk_ccyc\<rparr>\<rparr>) s;
                 s = (if cycatr (p_cycinib (cyccb s i)) AND TA_STA \<noteq> 0
                      then (let s = upd_cyc i (\<lambda>c. c\<lparr>cycsta := True\<rparr>) s
                            in tmevtb_enqueue_cyc i (base_time (tme s) + cycphs (p_cycinib (cyccb s i))) s)
                      else upd_cyc i (\<lambda>c. c\<lparr>cycsta := False\<rparr>) s)
             in (Ret (CYCID i), s))) s)"

definition del_cyc :: "kernel_cfg \<Rightarrow> ID \<Rightarrow> kernel \<Rightarrow> result \<times> kernel" where
  "del_cyc cfg cycid s =
    (if \<not> CHECK_TSKCTX_UNL s then (Ret E_CTX, s)
     else if \<not> VALID_CYCID cfg cycid then (Ret E_ID, s)
     else let i = INDEX_CYC cycid in tsk_call (\<lambda>s.
       if cycatr (p_cycinib (cyccb s i)) = TA_NOEXS then (Ret E_NOEXS, s)
       else if CYCID i > tmax_scycid cfg
       then (let s = (if cycsta (cyccb s i)
                      then (let s = upd_cyc i (\<lambda>c. c\<lparr>cycsta := False\<rparr>) s
                            in upd_tme (tmevtb_dequeue (CycTmevtb i)) s)
                      else s);
                 s = upd_cyc i (\<lambda>c. c\<lparr>p_cycinib := (p_cycinib c)\<lparr>cycatr := TA_NOEXS\<rparr>\<rparr>) s;
                 s = s\<lparr>free_cyccb := free_cyccb s @ [i]\<rparr>
             in (Ret E_OK, s))
       else (Ret E_OBJ, s)) s)"

definition sta_cyc :: "kernel_cfg \<Rightarrow> ID \<Rightarrow> kernel \<Rightarrow> result \<times> kernel" where
  "sta_cyc cfg cycid s =
    (if \<not> CHECK_TSKCTX_UNL s then (Ret E_CTX, s)
     else if \<not> VALID_CYCID cfg cycid then (Ret E_ID, s)
     else let i = INDEX_CYC cycid in tsk_call (\<lambda>s.
       if cycatr (p_cycinib (cyccb s i)) = TA_NOEXS then (Ret E_NOEXS, s)
       else (let s = (if cycsta (cyccb s i) then upd_tme (tmevtb_dequeue (CycTmevtb i)) s
                      else upd_cyc i (\<lambda>c. c\<lparr>cycsta := True\<rparr>) s)
             in (Ret E_OK, tmevtb_enqueue_cyc i (base_time (tme s) + cycphs (p_cycinib (cyccb s i))) s))) s)"

definition stp_cyc :: "kernel_cfg \<Rightarrow> ID \<Rightarrow> kernel \<Rightarrow> result \<times> kernel" where
  "stp_cyc cfg cycid s =
    (if \<not> CHECK_TSKCTX_UNL s then (Ret E_CTX, s)
     else if \<not> VALID_CYCID cfg cycid then (Ret E_ID, s)
     else let i = INDEX_CYC cycid in tsk_call (\<lambda>s.
       if cycatr (p_cycinib (cyccb s i)) = TA_NOEXS then (Ret E_NOEXS, s)
       else (Ret E_OK, if cycsta (cyccb s i)
                       then (let s = upd_cyc i (\<lambda>c. c\<lparr>cycsta := False\<rparr>) s
                             in upd_tme (tmevtb_dequeue (CycTmevtb i)) s)
                       else s)) s)"

abbreviation (input) TCYC_STP :: STAT where "TCYC_STP \<equiv> 1"
abbreviation (input) TCYC_STA :: STAT where "TCYC_STA \<equiv> 2"

text \<open>The field \<open>lefttim\<close> is set for a running handler only.\<close>

record T_RCYC =
  rcyc_cycstat :: STAT
  rcyc_lefttim :: "RELTIM option"

definition ref_cyc :: "kernel_cfg \<Rightarrow> ID \<Rightarrow> kernel \<Rightarrow> (result \<times> T_RCYC option) \<times> kernel" where
  "ref_cyc cfg cycid s =
    (if \<not> CHECK_TSKCTX_UNL s then ((Ret E_CTX, None), s)
     else if \<not> VALID_CYCID cfg cycid then ((Ret E_ID, None), s)
     else let i = INDEX_CYC cycid in tsk_call (\<lambda>s.
       if cycatr (p_cycinib (cyccb s i)) = TA_NOEXS then ((Ret E_NOEXS, None), s)
       else ((Ret E_OK, Some (if cycsta (cyccb s i)
                then \<lparr>rcyc_cycstat = TCYC_STA, rcyc_lefttim = Some (tmevt_lefttim (CycTmevtb i) (tme s))\<rparr>
                else \<lparr>rcyc_cycstat = TCYC_STP, rcyc_lefttim = None\<rparr>)), s)) s)"

definition call_cychdr :: "(nat \<Rightarrow> intptr_t \<Rightarrow> kernel \<Rightarrow> kernel) \<Rightarrow> nat \<Rightarrow> kernel \<Rightarrow> kernel" where
  "call_cychdr hdr i s =
    (let s = tmevtb_enqueue_cyc i (cyc_evttim (cyccb s i) + cyctim (p_cycinib (cyccb s i))) s;
         saved_ipm = intpri s;
         s = i_unlock_cpu s;
         s = hdr (cychdr (p_cycinib (cyccb s i))) (cyc_exinf (p_cycinib (cyccb s i))) s;
         s = (if \<not> cpu_lock s then i_lock_cpu s else s)
     in s\<lparr>intpri := saved_ipm\<rparr>)"

section \<open>The invariant\<close>

text \<open>
  A running handler is due at \<open>evttim\<close>, and the period is positive, so that every activation moves it
  into the future.
\<close>

definition cyc_ok :: "CYCCB \<Rightarrow> EVTTIM option \<Rightarrow> bool" where
  "cyc_ok c t \<longleftrightarrow> 0 < cyctim (p_cycinib c) \<and> cyctim (p_cycinib c) \<le> TMAX_RELTIM \<and>
    cycphs (p_cycinib c) \<le> TMAX_RELTIM \<and> (t \<noteq> None \<longrightarrow> t = Some (cyc_evttim c))"

definition cyc_inv :: "kernel_cfg \<Rightarrow> kernel \<Rightarrow> bool" where
  "cyc_inv cfg s \<longleftrightarrow> hdl_inv CycTmevtb Call_cychdr cyccb (\<lambda>c. cycatr (p_cycinib c)) cycsta free_cyccb cyc_ok
    (tnum_scyc cfg) (tnum_cyc cfg) s"

interpretation cyc: handler_pool CycTmevtb Call_cychdr cyccb "\<lambda>c. cycatr (p_cycinib c)" cycsta free_cyccb cyc_ok
proof
  show "cyccb s' = cyccb s \<and> free_cyccb s' = free_cyccb s" if "objects s' = objects s" for s s'
    using objectsD(24,25)[OF that] by simp
qed (simp_all add: hdl_event_def)

lemma wobjatr_cyc [simp]: "wobjatr (s\<lparr>cyccb := c\<rparr>) = wobjatr s" "wobjatr (s\<lparr>free_cyccb := l\<rparr>) = wobjatr s"
  by (auto simp: wobjatr_def fun_eq_iff split: wobj.split)

lemma enqueue_cyc_eq:
  "tmevtb_enqueue_cyc i t s = s\<lparr>cyccb := (cyccb s)(i := (cyccb s i)\<lparr>cyc_evttim := t\<rparr>),
    tme := ev_start (CycTmevtb i) t (Call_cychdr i) (tme s)\<rparr>"
  by (simp add: tmevtb_enqueue_cyc_def enqueue_ev_start)

lemma cyc_inv_lock [simp]:
  "cyc_inv cfg (t_lock_cpu s) = cyc_inv cfg s" "cyc_inv cfg (t_unlock_cpu s) = cyc_inv cfg s"
  by (simp_all add: cyc_inv_def)

lemma cycsta_idem: "cycsta c \<Longrightarrow> c\<lparr>cycsta := True, cyc_evttim := t\<rparr> = c\<lparr>cyc_evttim := t\<rparr>"
  by (cases c) simp

lemma cycsta_idem_off: "\<not> cycsta c \<Longrightarrow> c\<lparr>cycsta := False\<rparr> = c"
  by (cases c) simp

lemma cyc_start:
  assumes "kinv s" and "cyc_inv cfg s" and "cycatr (p_cycinib (cyccb s i)) \<noteq> TA_NOEXS"
    and "s1 = (if cycsta (cyccb s i) then upd_tme (tmevtb_dequeue (CycTmevtb i)) s else upd_cyc i (\<lambda>c. c\<lparr>cycsta := True\<rparr>) s)"
    and "s' = tmevtb_enqueue_cyc i t s1"
  shows "kinv s'" and "cyc_inv cfg s'"
proof -
  let ?c = "(cyccb s i)\<lparr>cycsta := True, cyc_evttim := t\<rparr>"
  let ?s = "s\<lparr>cyccb := (cyccb s)(i := ?c)\<rparr>"
  let ?tm = "if cycsta (cyccb s i) then tmevtb_dequeue (CycTmevtb i) (tme s) else tme s"
  have e: "s' = ?s\<lparr>tme := ev_start (CycTmevtb i) t (Call_cychdr i) ?tm\<rparr>"
    by (cases "cycsta (cyccb s i)") (simp_all add: assms(4,5) enqueue_cyc_eq cycsta_idem)
  have p: "cyc_ok ?c (Some t)"
    using hdl_invD(5)[OF assms(2)[unfolded cyc_inv_def] assms(3)] by (simp add: cyc_ok_def)
  note st = cyc.start_ok[OF assms(1) assms(2)[unfolded cyc_inv_def] assms(3), of ?s t ?tm s']
  show "kinv s'" by (rule st(1)) (use assms(3) p in \<open>simp_all add: same_tasks_def e\<close>)
  show "cyc_inv cfg s'"
    unfolding cyc_inv_def by (rule st(2)) (use assms(3) p in \<open>simp_all add: same_tasks_def e\<close>)
qed

lemma cyc_stop:
  assumes "kinv s" and "cyc_inv cfg s" and "cycsta (cyccb s i)"
    and "s' = upd_tme (tmevtb_dequeue (CycTmevtb i)) (upd_cyc i (\<lambda>c. c\<lparr>cycsta := False\<rparr>) s)"
  shows "kinv s'" and "cyc_inv cfg s'" and "\<not> cycsta (cyccb s' i)"
proof -
  let ?s = "upd_cyc i (\<lambda>c. c\<lparr>cycsta := False\<rparr>) s"
  have a: "cycatr (p_cycinib (cyccb s i)) \<noteq> TA_NOEXS"
    using hdl_invD(4)[OF assms(2)[unfolded cyc_inv_def], of i] assms(3) by blast
  have p: "cyc_ok ((cyccb s i)\<lparr>cycsta := False\<rparr>) None"
    using hdl_invD(5)[OF assms(2)[unfolded cyc_inv_def] a] by (simp add: cyc_ok_def)
  note st = cyc.stop_ok[OF assms(1) assms(2)[unfolded cyc_inv_def] assms(3), of ?s s']
  show "kinv s'" by (rule st(1)) (use a p in \<open>simp_all add: same_tasks_def assms(4)\<close>)
  show "cyc_inv cfg s'"
    unfolding cyc_inv_def by (rule st(2)) (use a p in \<open>simp_all add: same_tasks_def assms(4)\<close>)
  show "\<not> cycsta (cyccb s' i)" by (simp add: assms(4))
qed

lemma start_stop_cyc_inv:
  assumes "kinv s" and "cyc_inv cfg s"
  shows "kinv (snd (sta_cyc cfg cycid s)) \<and> cyc_inv cfg (snd (sta_cyc cfg cycid s))"
    and "kinv (snd (stp_cyc cfg cycid s)) \<and> cyc_inv cfg (snd (stp_cyc cfg cycid s))"
    and "kinv (snd (ref_cyc cfg cycid s)) \<and> cyc_inv cfg (snd (ref_cyc cfg cycid s))"
proof -
  let ?s = "t_lock_cpu s" and ?i = "INDEX_CYC cycid"
  have i: "kinv ?s" "cyc_inv cfg ?s" using assms by simp_all
  have c: "kinv (snd (tsk_call body s)) \<and> cyc_inv cfg (snd (tsk_call body s))"
    if "kinv (snd (body ?s)) \<and> cyc_inv cfg (snd (body ?s))" for body :: "kernel \<Rightarrow> 'r \<times> kernel"
    using that by (simp add: tsk_call_def case_prod_beta)
  show "kinv (snd (sta_cyc cfg cycid s)) \<and> cyc_inv cfg (snd (sta_cyc cfg cycid s))"
    using assms i cyc_start[OF i _ refl refl, of ?i] unfolding sta_cyc_def Let_def
    by (auto intro!: c simp del: if_split)
  show "kinv (snd (stp_cyc cfg cycid s)) \<and> cyc_inv cfg (snd (stp_cyc cfg cycid s))"
    using assms i cyc_stop(1,2)[OF i _ refl, of ?i] unfolding stp_cyc_def Let_def
    by (auto intro!: c)
  show "kinv (snd (ref_cyc cfg cycid s)) \<and> cyc_inv cfg (snd (ref_cyc cfg cycid s))"
    using assms i unfolding ref_cyc_def Let_def by (auto intro!: c)
qed

lemma acre_cyc_inv:
  assumes "kinv s" and "cyc_inv cfg s"
  shows "kinv (snd (acre_cyc cfg pk s)) \<and> cyc_inv cfg (snd (acre_cyc cfg pk s))"
proof (cases "CHECK_TSKCTX_UNL s \<and> CHECK_RSATR (cycatr pk) TA_STA \<and> FUNC_ALIGNED (cychdr pk) \<and> cychdr pk \<noteq> 0 \<and>
    0 < cyctim pk \<and> cyctim pk \<le> TMAX_RELTIM \<and> 0 \<le> cycphs pk \<and> cycphs pk \<le> TMAX_RELTIM \<and>
    tnum_cyc cfg \<noteq> 0 \<and> free_cyccb s \<noteq> []")
  case False
  then show ?thesis using assms by (auto simp: acre_cyc_def tsk_call_def lock_objects)
next
  case ok: True
  obtain i js where fr: "free_cyccb s = i # js" using ok by (cases "free_cyccb s") auto
  let ?s = "t_lock_cpu s" and ?n = "\<lparr>cycatr = cycatr pk, cyc_exinf = cyc_exinf pk, cychdr = cychdr pk, cyctim = cyctim pk, cycphs = cycphs pk\<rparr>"
  define s1 where "s1 = upd_cyc i (\<lambda>c. c\<lparr>p_cycinib := ?n\<rparr>) (?s\<lparr>free_cyccb := js\<rparr>)"
  have i: "kinv ?s" "cyc_inv cfg ?s" using assms by simp_all
  have a: "cycatr pk \<noteq> TA_NOEXS" using ok rsatr_exists(1)[of "cycatr pk" TA_STA] by simp
  have st: "\<not> cycsta (cyccb ?s i)"
    using hdl_invD(2,4)[OF i(2)[unfolded cyc_inv_def], of i] fr by (simp add: lock_objects)
  have k1: "kinv s1"
    using i(1) same_tasks_kinv(1)[of ?s s1] by (simp add: s1_def same_tasks_def)
  have c1: "cyc_inv cfg s1"
    unfolding cyc_inv_def
    by (rule cyc.create_ok[OF i(2)[unfolded cyc_inv_def], of i js])
      (use fr st a ok in \<open>simp_all add: s1_def lock_objects cyc_ok_def\<close>)
  have d1: "\<not> cycsta (cyccb s1 i)" "cycatr (p_cycinib (cyccb s1 i)) \<noteq> TA_NOEXS"
    using st a by (simp_all add: s1_def)
  have e: "upd_cyc i (\<lambda>c. c\<lparr>cycsta := False\<rparr>) s1 = s1"
    unfolding cycsta_idem_off[OF d1(1)] fun_upd_triv by simp
  have sta: "kinv (tmevtb_enqueue_cyc i t (upd_cyc i (\<lambda>c. c\<lparr>cycsta := True\<rparr>) s1)) \<and>
      cyc_inv cfg (tmevtb_enqueue_cyc i t (upd_cyc i (\<lambda>c. c\<lparr>cycsta := True\<rparr>) s1))" for t
    using cyc_start[OF k1 c1 d1(2) refl refl, of t] d1(1) by simp
  have "snd (acre_cyc cfg pk s) = t_unlock_cpu (if cycatr pk AND TA_STA \<noteq> 0
    then tmevtb_enqueue_cyc i (base_time (tme s1) + cycphs (p_cycinib (cyccb s1 i))) (upd_cyc i (\<lambda>c. c\<lparr>cycsta := True\<rparr>) s1)
    else upd_cyc i (\<lambda>c. c\<lparr>cycsta := False\<rparr>) s1)"
    using ok fr by (simp add: acre_cyc_def tsk_call_def lock_objects lock_sel Let_def s1_def)
  then show ?thesis unfolding e using k1 c1 sta by (simp split: if_split)
qed

lemma del_cyc_inv:
  assumes "kinv s" and "cyc_inv cfg s"
  shows "kinv (snd (del_cyc cfg cycid s)) \<and> cyc_inv cfg (snd (del_cyc cfg cycid s))"
proof (cases "CHECK_TSKCTX_UNL s \<and> VALID_CYCID cfg cycid \<and> cycatr (p_cycinib (cyccb s (INDEX_CYC cycid))) \<noteq> TA_NOEXS \<and>
    CYCID (INDEX_CYC cycid) > tmax_scycid cfg")
  case False
  then show ?thesis using assms by (auto simp: del_cyc_def tsk_call_def lock_objects Let_def)
next
  case ok: True
  let ?s = "t_lock_cpu s" and ?i = "INDEX_CYC cycid"
  have i: "kinv ?s" "cyc_inv cfg ?s" using assms by simp_all
  define s1 where "s1 = (if cycsta (cyccb ?s ?i) then upd_tme (tmevtb_dequeue (CycTmevtb ?i)) (upd_cyc ?i (\<lambda>c. c\<lparr>cycsta := False\<rparr>) ?s)
    else ?s)"
  have s1: "kinv s1" "cyc_inv cfg s1" "\<not> cycsta (cyccb s1 ?i)"
    using cyc_stop[OF i _ refl, of ?i] i by (auto simp: s1_def)
  have a: "cycatr (p_cycinib (cyccb s1 ?i)) \<noteq> TA_NOEXS" using ok by (simp add: s1_def lock_objects)
  define s2 where "s2 = (upd_cyc ?i (\<lambda>c. c\<lparr>p_cycinib := (p_cycinib c)\<lparr>cycatr := TA_NOEXS\<rparr>\<rparr>) s1)\<lparr>free_cyccb := free_cyccb s1 @ [?i]\<rparr>"
  have b: "tnum_scyc cfg \<le> ?i" "?i < tnum_cyc cfg"
    using ok by (auto simp: VALID_CYCID_def CYCID_def INDEX_CYC_def tnum_scyc_def tnum_cyc_def)
  have "kinv s2" using s1(1) same_tasks_kinv(1)[of s1 s2] by (simp add: s2_def same_tasks_def)
  moreover have "cyc_inv cfg s2"
    unfolding cyc_inv_def
    by (rule cyc.delete_ok[OF s1(2)[unfolded cyc_inv_def] a s1(3) b]) (use s1(3) in \<open>simp_all add: s2_def\<close>)
  moreover have "snd (del_cyc cfg cycid s) = t_unlock_cpu s2"
    using ok by (simp add: del_cyc_def tsk_call_def lock_objects Let_def s1_def[symmetric] s2_def del: fun_upd_apply)
      (auto simp: s1_def lock_objects)
  ultimately show ?thesis by simp
qed

text \<open>What starting a handler leaves behind, seen from the caller.\<close>

lemma sta_cyc_effect:
  assumes "kinv s" and "cyc_inv cfg s" and "CHECK_TSKCTX_UNL s" and "VALID_CYCID cfg cycid" and "i = INDEX_CYC cycid"
    and "cycatr (p_cycinib (cyccb s i)) \<noteq> TA_NOEXS"
    and "t = base_time (tme s) + cycphs (p_cycinib (cyccb s i))"
  shows "fst (sta_cyc cfg cycid s) = Ret E_OK"
    and "cyccb (snd (sta_cyc cfg cycid s)) i = (cyccb s i)\<lparr>cycsta := True, cyc_evttim := t\<rparr>"
    and "evts (tme (snd (sta_cyc cfg cycid s))) = (evts (tme s))(CycTmevtb i \<mapsto> t)"
    and "same_clock (tme s) (tme (snd (sta_cyc cfg cycid s)))" and "heap_ok (tme (snd (sta_cyc cfg cycid s)))"
    and "CHECK_TSKCTX_UNL (snd (sta_cyc cfg cycid s))"
proof -
  let ?tm = "if cycsta (cyccb s i) then tmevtb_dequeue (CycTmevtb i) (tme s) else tme s"
  have h: "heap_ok (tme s)" using tsk_invD(2)[OF kinvD(1)[OF assms(1)]] .
  have ev: "cycsta (cyccb s i) \<longleftrightarrow> evts (tme s) (CycTmevtb i) \<noteq> None"
    using hdl_invD(3)[OF assms(2)[unfolded cyc_inv_def]] .
  have tm: "heap_ok ?tm" "evts ?tm = (evts (tme s))(CycTmevtb i := None)" "same_clock (tme s) ?tm"
    using ev ev_stop_ok(1-3)[OF h, of "CycTmevtb i"] h by (auto simp: fun_upd_idem same_clock_def)
  have tn: "evts ?tm (CycTmevtb i) = None" unfolding tm(2) by simp
  have b: "base_time ?tm = base_time (tme s)" using tm(3) by (simp add: same_clock_def split: if_splits)
  have e: "sta_cyc cfg cycid s = (Ret E_OK, t_unlock_cpu (tmevtb_enqueue_cyc i t
      (if cycsta (cyccb s i) then upd_tme (tmevtb_dequeue (CycTmevtb i)) (t_lock_cpu s)
       else upd_cyc i (\<lambda>c. c\<lparr>cycsta := True\<rparr>) (t_lock_cpu s))))"
    using assms(3-7) b by (auto simp: sta_cyc_def tsk_call_def Let_def lock_objects lock_sel)
  note st = ev_start_ok[OF tm(1) tn, of t "Call_cychdr i"]
  have sel: "tme (snd (sta_cyc cfg cycid s)) = ev_start (CycTmevtb i) t (Call_cychdr i) ?tm"
    by (simp add: e lock_sel lock_objects enqueue_cyc_eq)
  show "fst (sta_cyc cfg cycid s) = Ret E_OK" by (simp add: e)
  show "cyccb (snd (sta_cyc cfg cycid s)) i = (cyccb s i)\<lparr>cycsta := True, cyc_evttim := t\<rparr>"
    by (simp add: e enqueue_cyc_eq lock_objects cycsta_idem)
  show "evts (tme (snd (sta_cyc cfg cycid s))) = (evts (tme s))(CycTmevtb i \<mapsto> t)"
    using st(2) tm(2) by (simp add: sel)
  show "same_clock (tme s) (tme (snd (sta_cyc cfg cycid s)))" "heap_ok (tme (snd (sta_cyc cfg cycid s)))"
    unfolding sel using st(1,3) tm(3) by (simp_all add: same_clock_def)
  show "CHECK_TSKCTX_UNL (snd (sta_cyc cfg cycid s))"
    using assms(3) by (simp add: e CHECK_TSKCTX_UNL_def t_unlock_cpu_def t_lock_cpu_def enqueue_cyc_eq)
qed

section \<open>Properties\<close>

text \<open>
  C30: every service call on cyclic handlers keeps the invariant of the kernel and of the handlers: a
  handler runs exactly when its time event is in the heap, with the callback that activates it and
  at the time \<open>evttim\<close> of its control block; its period stays positive; unused control blocks are
  stopped, and the list of unused blocks holds each of them once.
\<close>

theorem cyclic_calls_keep_inv:
  assumes "kinv s" and "cyc_inv cfg s"
    and "s' \<in> {snd (acre_cyc cfg pk s), snd (del_cyc cfg cycid s), snd (sta_cyc cfg cycid s), snd (stp_cyc cfg cycid s),
      snd (ref_cyc cfg cycid s)}"
  shows "kinv s' \<and> cyc_inv cfg s'"
  using assms(3) acre_cyc_inv[OF assms(1,2)] del_cyc_inv[OF assms(1,2)] start_stop_cyc_inv[OF assms(1,2)] by auto

lemma cyc_inv_run_kernel: "cyc_inv sample_cfg run_kernel"
  by (simp add: cyc_inv_def hdl_inv_def run_kernel_objects run_kernel_sel idle_kernel_def sample_tmevt_ok cyc_ok_def)

theorem cyclic_calls_keep_inv_witness:
  "kinv (snd (sta_cyc sample_cfg 1 run_kernel)) \<and> cyc_inv sample_cfg (snd (sta_cyc sample_cfg 1 run_kernel))"
  by (rule cyclic_calls_keep_inv[OF kinv_run_kernel cyc_inv_run_kernel, of _ undefined 1]) simp

text \<open>
  A cyclic handler that is started is reported as running, with its activation phase as the time
  left, and its first activation is due the phase after the next tick; when it is stopped then, it is
  reported as stopped and its time event is gone.
\<close>

lemma sta_cyc_ref_cyc:
  assumes "kinv s" and "cyc_inv cfg s" and "CHECK_TSKCTX_UNL s" and "VALID_CYCID cfg cycid" and "i = INDEX_CYC cycid"
    and "cycatr (p_cycinib (cyccb s i)) \<noteq> TA_NOEXS" and "next_time (tme s) - min_time (tme s) \<le> 2"
    and "s1 = snd (sta_cyc cfg cycid s)" and "s2 = snd (stp_cyc cfg cycid s1)"
  shows "fst (sta_cyc cfg cycid s) = Ret E_OK \<and>
    evts (tme s1) (CycTmevtb i) = Some (next_time (tme s) + cycphs (p_cycinib (cyccb s i))) \<and>
    fst (ref_cyc cfg cycid s1) = (Ret E_OK, Some \<lparr>rcyc_cycstat = TCYC_STA, rcyc_lefttim = Some (cycphs (p_cycinib (cyccb s i)))\<rparr>) \<and>
    fst (ref_cyc cfg cycid s2) = (Ret E_OK, Some \<lparr>rcyc_cycstat = TCYC_STP, rcyc_lefttim = None\<rparr>) \<and>
    evts (tme s2) = (evts (tme s))(CycTmevtb i := None)"
proof -
  let ?d = "cycphs (p_cycinib (cyccb s i))"
  note ef = sta_cyc_effect[OF assms(1-6) refl, folded assms(8)]
  have d: "?d \<le> TMAX_RELTIM"
    using hdl_invD(5)[OF assms(2)[unfolded cyc_inv_def] assms(6)] by (simp add: cyc_ok_def)
  have a: "cycatr (p_cycinib (cyccb s1 i)) \<noteq> TA_NOEXS" "cycsta (cyccb s1 i)" using ef(2) assms(6) by simp_all
  have l: "tmevt_lefttim (CycTmevtb i) (tme s1) = ?d"
    by (rule lefttim_start) (use ef(3-5) assms(7) d in \<open>simp_all add: same_clock_def\<close>)
  have r1: "fst (ref_cyc cfg cycid s1) = (Ret E_OK, Some \<lparr>rcyc_cycstat = TCYC_STA, rcyc_lefttim = Some ?d\<rparr>)"
    using ef(6) assms(4,5) a l by (simp add: ref_cyc_def tsk_call_def lock_objects lock_sel Let_def)
  have e2: "s2 = t_unlock_cpu (upd_tme (tmevtb_dequeue (CycTmevtb i)) (upd_cyc i (\<lambda>c. c\<lparr>cycsta := False\<rparr>) (t_lock_cpu s1)))"
    using ef(6) assms(4,5) a by (simp add: assms(9) stp_cyc_def tsk_call_def lock_objects lock_sel Let_def)
  have u2: "CHECK_TSKCTX_UNL s2"
    using ef(6) by (simp add: e2 CHECK_TSKCTX_UNL_def t_unlock_cpu_def t_lock_cpu_def)
  have r2: "fst (ref_cyc cfg cycid s2) = (Ret E_OK, Some \<lparr>rcyc_cycstat = TCYC_STP, rcyc_lefttim = None\<rparr>)"
    using u2 assms(4,5) a(1) by (simp add: ref_cyc_def tsk_call_def lock_objects lock_sel Let_def e2)
  have "evts (tme s2) = (evts (tme s))(CycTmevtb i := None)"
    using ev_stop_ok(2)[OF ef(5), of "CycTmevtb i"] ef(3) by (simp add: e2 lock_sel)
  then show ?thesis using ef(1,3) r1 r2 by simp
qed

lemma sta_cyc_ref_cyc_witness:
  "fst (ref_cyc sample_cfg 1 (snd (sta_cyc sample_cfg 1 run_kernel))) =
    (Ret E_OK, Some \<lparr>rcyc_cycstat = TCYC_STA, rcyc_lefttim = Some 0\<rparr>)"
proof -
  have v: "CHECK_TSKCTX_UNL run_kernel" "VALID_CYCID sample_cfg 1" "0 = INDEX_CYC 1"
    "cycatr (p_cycinib (cyccb run_kernel 0)) \<noteq> TA_NOEXS" "next_time (tme run_kernel) - min_time (tme run_kernel) \<le> 2"
    "cycphs (p_cycinib (cyccb run_kernel 0)) = 0"
    by (simp_all add: CHECK_TSKCTX_UNL_def run_kernel_sel run_kernel_objects VALID_CYCID_def sample_cfg_def INDEX_CYC_def
        idle_kernel_def sample_tmevt_def)
  show ?thesis
    using sta_cyc_ref_cyc[OF kinv_run_kernel cyc_inv_run_kernel v(1-5) refl refl] v(6) by simp
qed

end
