(* ===== verification/Asp_Alarm.thy ===== *)
theory Asp_Alarm
  imports Asp_Handler
begin

text \<open>
  Alarm handlers, \<^verbatim>\<open>kernel/alarm.c\<close>. The handler routine is a parameter \<open>hdr\<close>: what the routine
  at an address does to the state when it is called with the extended information.
\<close>

section \<open>Operations\<close>

definition tnum_alm :: "kernel_cfg \<Rightarrow> nat" where "tnum_alm cfg = nat (tmax_almid cfg)"
definition tnum_salm :: "kernel_cfg \<Rightarrow> nat" where "tnum_salm cfg = nat (tmax_salmid cfg)"

definition INDEX_ALM :: "ID \<Rightarrow> nat" where "INDEX_ALM almid = nat (almid - 1)"
definition ALMID :: "nat \<Rightarrow> ID" where "ALMID i = int i + 1"

definition VALID_ALMID :: "kernel_cfg \<Rightarrow> ID \<Rightarrow> bool" where
  "VALID_ALMID cfg almid \<longleftrightarrow> 1 \<le> almid \<and> almid \<le> tmax_almid cfg"

abbreviation upd_alm :: "nat \<Rightarrow> (ALMCB \<Rightarrow> ALMCB) \<Rightarrow> kernel \<Rightarrow> kernel" where
  "upd_alm i g s \<equiv> s\<lparr>almcb := (almcb s)(i := g (almcb s i))\<rparr>"

definition initialize_alarm :: "kernel_cfg \<Rightarrow> kernel \<Rightarrow> kernel" where
  "initialize_alarm cfg s =
    (let s = fold (\<lambda>i s.
               let s = upd_alm i (\<lambda>c. c\<lparr>p_alminib := alminib_table cfg i\<rparr>) s
               in upd_alm i (\<lambda>c. c\<lparr>almsta := False\<rparr>) s)
             [0..<tnum_salm cfg] s;
         s = s\<lparr>free_almcb := []\<rparr>
     in fold (\<lambda>i s.
          let s = upd_alm i (\<lambda>c. c\<lparr>p_alminib := (p_alminib c)\<lparr>almatr := TA_NOEXS\<rparr>\<rparr>) s
          in s\<lparr>free_almcb := free_almcb s @ [i]\<rparr>)
        [tnum_salm cfg..<tnum_alm cfg] s)"

definition acre_alm :: "kernel_cfg \<Rightarrow> ALMINIB \<Rightarrow> kernel \<Rightarrow> result \<times> kernel" where
  "acre_alm cfg pk_calm s =
    (if \<not> CHECK_TSKCTX_UNL s then (Ret E_CTX, s)
     else if \<not> CHECK_RSATR (almatr pk_calm) TA_NULL then (Ret E_RSATR, s)
     else if \<not> FUNC_ALIGNED (almhdr pk_calm) then (Ret E_PAR, s)
     else if \<not> almhdr pk_calm \<noteq> 0 then (Ret E_PAR, s)
     else tsk_call (\<lambda>s.
       if tnum_alm cfg = 0 \<or> free_almcb s = [] then (Ret E_NOID, s)
       else (let i = hd (free_almcb s);
                 s = s\<lparr>free_almcb := tl (free_almcb s)\<rparr>;
                 s = upd_alm i (\<lambda>c. c\<lparr>p_alminib := \<lparr>almatr = almatr pk_calm, alm_exinf = alm_exinf pk_calm,
                       almhdr = almhdr pk_calm\<rparr>\<rparr>) s;
                 s = upd_alm i (\<lambda>c. c\<lparr>almsta := False\<rparr>) s
             in (Ret (ALMID i), s))) s)"

definition del_alm :: "kernel_cfg \<Rightarrow> ID \<Rightarrow> kernel \<Rightarrow> result \<times> kernel" where
  "del_alm cfg almid s =
    (if \<not> CHECK_TSKCTX_UNL s then (Ret E_CTX, s)
     else if \<not> VALID_ALMID cfg almid then (Ret E_ID, s)
     else let i = INDEX_ALM almid in tsk_call (\<lambda>s.
       if almatr (p_alminib (almcb s i)) = TA_NOEXS then (Ret E_NOEXS, s)
       else if ALMID i > tmax_salmid cfg
       then (let s = (if almsta (almcb s i)
                      then (let s = upd_alm i (\<lambda>c. c\<lparr>almsta := False\<rparr>) s
                            in upd_tme (tmevtb_dequeue (AlmTmevtb i)) s)
                      else s);
                 s = upd_alm i (\<lambda>c. c\<lparr>p_alminib := (p_alminib c)\<lparr>almatr := TA_NOEXS\<rparr>\<rparr>) s;
                 s = s\<lparr>free_almcb := free_almcb s @ [i]\<rparr>
             in (Ret E_OK, s))
       else (Ret E_OBJ, s)) s)"

text \<open>The bodies that the variants for tasks and for handlers share, inside the CPU lock.\<close>

definition sta_alm_body :: "nat \<Rightarrow> RELTIM \<Rightarrow> kernel \<Rightarrow> result \<times> kernel" where
  "sta_alm_body i almtim s =
    (if almatr (p_alminib (almcb s i)) = TA_NOEXS then (Ret E_NOEXS, s)
     else (let s = (if almsta (almcb s i) then upd_tme (tmevtb_dequeue (AlmTmevtb i)) s
                    else upd_alm i (\<lambda>c. c\<lparr>almsta := True\<rparr>) s)
           in (Ret E_OK, upd_tme (tmevtb_enqueue (AlmTmevtb i) almtim (Call_almhdr i)) s)))"

definition stp_alm_body :: "nat \<Rightarrow> kernel \<Rightarrow> result \<times> kernel" where
  "stp_alm_body i s =
    (if almatr (p_alminib (almcb s i)) = TA_NOEXS then (Ret E_NOEXS, s)
     else (Ret E_OK, if almsta (almcb s i)
                     then (let s = upd_alm i (\<lambda>c. c\<lparr>almsta := False\<rparr>) s
                           in upd_tme (tmevtb_dequeue (AlmTmevtb i)) s)
                     else s))"

definition sta_alm :: "kernel_cfg \<Rightarrow> ID \<Rightarrow> RELTIM \<Rightarrow> kernel \<Rightarrow> result \<times> kernel" where
  "sta_alm cfg almid almtim s =
    (if \<not> CHECK_TSKCTX_UNL s then (Ret E_CTX, s)
     else if \<not> VALID_ALMID cfg almid then (Ret E_ID, s)
     else if \<not> almtim \<le> TMAX_RELTIM then (Ret E_PAR, s)
     else tsk_call (sta_alm_body (INDEX_ALM almid) almtim) s)"

definition ista_alm :: "kernel_cfg \<Rightarrow> ID \<Rightarrow> RELTIM \<Rightarrow> kernel \<Rightarrow> result \<times> kernel" where
  "ista_alm cfg almid almtim s =
    (if \<not> CHECK_INTCTX_UNL s then (Ret E_CTX, s)
     else if \<not> VALID_ALMID cfg almid then (Ret E_ID, s)
     else if \<not> almtim \<le> TMAX_RELTIM then (Ret E_PAR, s)
     else int_call (sta_alm_body (INDEX_ALM almid) almtim) s)"

definition stp_alm :: "kernel_cfg \<Rightarrow> ID \<Rightarrow> kernel \<Rightarrow> result \<times> kernel" where
  "stp_alm cfg almid s =
    (if \<not> CHECK_TSKCTX_UNL s then (Ret E_CTX, s)
     else if \<not> VALID_ALMID cfg almid then (Ret E_ID, s)
     else tsk_call (stp_alm_body (INDEX_ALM almid)) s)"

definition istp_alm :: "kernel_cfg \<Rightarrow> ID \<Rightarrow> kernel \<Rightarrow> result \<times> kernel" where
  "istp_alm cfg almid s =
    (if \<not> CHECK_INTCTX_UNL s then (Ret E_CTX, s)
     else if \<not> VALID_ALMID cfg almid then (Ret E_ID, s)
     else int_call (stp_alm_body (INDEX_ALM almid)) s)"

abbreviation (input) TALM_STP :: STAT where "TALM_STP \<equiv> 1"
abbreviation (input) TALM_STA :: STAT where "TALM_STA \<equiv> 2"

text \<open>The field \<open>lefttim\<close> is set for a running handler only.\<close>

record T_RALM =
  ralm_almstat :: STAT
  ralm_lefttim :: "RELTIM option"

definition ref_alm :: "kernel_cfg \<Rightarrow> ID \<Rightarrow> kernel \<Rightarrow> (result \<times> T_RALM option) \<times> kernel" where
  "ref_alm cfg almid s =
    (if \<not> CHECK_TSKCTX_UNL s then ((Ret E_CTX, None), s)
     else if \<not> VALID_ALMID cfg almid then ((Ret E_ID, None), s)
     else let i = INDEX_ALM almid in tsk_call (\<lambda>s.
       if almatr (p_alminib (almcb s i)) = TA_NOEXS then ((Ret E_NOEXS, None), s)
       else ((Ret E_OK, Some (if almsta (almcb s i)
                then \<lparr>ralm_almstat = TALM_STA, ralm_lefttim = Some (tmevt_lefttim (AlmTmevtb i) (tme s))\<rparr>
                else \<lparr>ralm_almstat = TALM_STP, ralm_lefttim = None\<rparr>)), s)) s)"

definition call_almhdr :: "(nat \<Rightarrow> intptr_t \<Rightarrow> kernel \<Rightarrow> kernel) \<Rightarrow> nat \<Rightarrow> kernel \<Rightarrow> kernel" where
  "call_almhdr hdr i s =
    (let s = upd_alm i (\<lambda>c. c\<lparr>almsta := False\<rparr>) s;
         saved_ipm = intpri s;
         s = i_unlock_cpu s;
         s = hdr (almhdr (p_alminib (almcb s i))) (alm_exinf (p_alminib (almcb s i))) s;
         s = (if \<not> cpu_lock s then i_lock_cpu s else s)
     in s\<lparr>intpri := saved_ipm\<rparr>)"

section \<open>The invariant\<close>

definition alm_inv :: "kernel_cfg \<Rightarrow> kernel \<Rightarrow> bool" where
  "alm_inv cfg s \<longleftrightarrow> hdl_inv AlmTmevtb Call_almhdr almcb (\<lambda>c. almatr (p_alminib c)) almsta free_almcb (\<lambda>_ _. True)
    (tnum_salm cfg) (tnum_alm cfg) s"

interpretation alm: handler_pool AlmTmevtb Call_almhdr almcb "\<lambda>c. almatr (p_alminib c)" almsta free_almcb "\<lambda>_ _. True"
proof
  show "almcb s' = almcb s \<and> free_almcb s' = free_almcb s" if "objects s' = objects s" for s s'
    using objectsD(26,27)[OF that] by simp
qed (simp_all add: hdl_event_def)

lemma wobjatr_alm [simp]: "wobjatr (s\<lparr>almcb := c\<rparr>) = wobjatr s" "wobjatr (s\<lparr>free_almcb := l\<rparr>) = wobjatr s"
  by (auto simp: wobjatr_def fun_eq_iff split: wobj.split)

lemma alm_inv_lock [simp]:
  "alm_inv cfg (t_lock_cpu s) = alm_inv cfg s" "alm_inv cfg (t_unlock_cpu s) = alm_inv cfg s"
  "alm_inv cfg (i_lock_cpu s) = alm_inv cfg s" "alm_inv cfg (i_unlock_cpu s) = alm_inv cfg s"
  by (simp_all add: alm_inv_def)

lemma almsta_idem: "almsta c \<Longrightarrow> c\<lparr>almsta := True\<rparr> = c" "\<not> almsta c \<Longrightarrow> c\<lparr>almsta := False\<rparr> = c"
  by (cases c, simp)+

lemma sta_alm_body_eq:
  assumes "almatr (p_alminib (almcb s i)) \<noteq> TA_NOEXS" and "t = base_time (tme s) + almtim"
    and "tm = (if almsta (almcb s i) then tmevtb_dequeue (AlmTmevtb i) (tme s) else tme s)"
    and "base_time tm = base_time (tme s)"
  shows "sta_alm_body i almtim s = (Ret E_OK,
    s\<lparr>almcb := (almcb s)(i := (almcb s i)\<lparr>almsta := True\<rparr>), tme := ev_start (AlmTmevtb i) t (Call_almhdr i) tm\<rparr>)"
proof (cases "almsta (almcb s i)")
  case True
  then show ?thesis
    using assms almsta_idem(1)[OF True] by (simp add: sta_alm_body_def enqueue_ev_start fun_upd_idem)
next
  case False
  then show ?thesis using assms by (simp add: sta_alm_body_def enqueue_ev_start)
qed

text \<open>The heap between the removal of the old event of a running handler and the insertion of the new one.\<close>

lemma alm_tm:
  assumes "kinv s" and "alm_inv cfg s" and "tm = (if almsta (almcb s i) then tmevtb_dequeue (AlmTmevtb i) (tme s) else tme s)"
  shows "heap_ok tm" and "evts tm = (evts (tme s))(AlmTmevtb i := None)" and "same_clock (tme s) tm"
    and "base_time tm = base_time (tme s)"
proof -
  have h: "heap_ok (tme s)" using tsk_invD(2)[OF kinvD(1)[OF assms(1)]] .
  have ev: "almsta (almcb s i) \<longleftrightarrow> evts (tme s) (AlmTmevtb i) \<noteq> None"
    using hdl_invD(3)[OF assms(2)[unfolded alm_inv_def]] .
  show r: "heap_ok tm" "evts tm = (evts (tme s))(AlmTmevtb i := None)" "same_clock (tme s) tm"
    using ev ev_stop_ok(1-3)[OF h, of "AlmTmevtb i"] h by (auto simp: assms(3) fun_upd_idem same_clock_def)
  show "base_time tm = base_time (tme s)" using r(3) by (simp add: same_clock_def)
qed

lemma sta_alm_body_ok:
  assumes "kinv s" and "alm_inv cfg s"
  shows "kinv (snd (sta_alm_body i almtim s)) \<and> alm_inv cfg (snd (sta_alm_body i almtim s))"
proof (cases "almatr (p_alminib (almcb s i)) = TA_NOEXS")
  case True
  then show ?thesis using assms by (simp add: sta_alm_body_def)
next
  case False
  let ?s = "s\<lparr>almcb := (almcb s)(i := (almcb s i)\<lparr>almsta := True\<rparr>)\<rparr>"
  note e = sta_alm_body_eq[OF False refl refl alm_tm(4)[OF assms refl], of almtim]
  note st = alm.start_ok[OF assms(1) assms(2)[unfolded alm_inv_def] False, where ?s1.0 = ?s and s' = "snd (sta_alm_body i almtim s)"]
  have "kinv (snd (sta_alm_body i almtim s))" by (rule st(1)) (use False in \<open>simp_all add: same_tasks_def e\<close>)
  moreover have "alm_inv cfg (snd (sta_alm_body i almtim s))"
    unfolding alm_inv_def by (rule st(2)) (use False in \<open>simp_all add: same_tasks_def e\<close>)
  ultimately show ?thesis by simp
qed

lemma alm_stop:
  assumes "kinv s" and "alm_inv cfg s" and "almsta (almcb s i)"
    and "s' = upd_tme (tmevtb_dequeue (AlmTmevtb i)) (upd_alm i (\<lambda>c. c\<lparr>almsta := False\<rparr>) s)"
  shows "kinv s'" and "alm_inv cfg s'" and "\<not> almsta (almcb s' i)"
proof -
  let ?s = "upd_alm i (\<lambda>c. c\<lparr>almsta := False\<rparr>) s"
  have a: "almatr (p_alminib (almcb s i)) \<noteq> TA_NOEXS"
    using hdl_invD(4)[OF assms(2)[unfolded alm_inv_def], of i] assms(3) by blast
  note st = alm.stop_ok[OF assms(1) assms(2)[unfolded alm_inv_def] assms(3), where ?s1.0 = ?s and s' = s']
  show "kinv s'" by (rule st(1)) (use a in \<open>simp_all add: same_tasks_def assms(4)\<close>)
  show "alm_inv cfg s'"
    unfolding alm_inv_def by (rule st(2)) (use a in \<open>simp_all add: same_tasks_def assms(4)\<close>)
  show "\<not> almsta (almcb s' i)" by (simp add: assms(4))
qed

lemma stp_alm_body_ok:
  assumes "kinv s" and "alm_inv cfg s"
  shows "kinv (snd (stp_alm_body i s)) \<and> alm_inv cfg (snd (stp_alm_body i s))"
  using assms alm_stop(1,2)[OF assms _ refl, of i] by (simp add: stp_alm_body_def Let_def)

lemma alm_calls:
  assumes "kinv s" and "alm_inv cfg s"
  shows "(\<And>s. kinv s \<Longrightarrow> alm_inv cfg s \<Longrightarrow> kinv (snd (body s)) \<and> alm_inv cfg (snd (body s))) \<Longrightarrow>
      kinv (snd (tsk_call body s)) \<and> alm_inv cfg (snd (tsk_call body s)) \<and>
      kinv (snd (int_call body s)) \<and> alm_inv cfg (snd (int_call body s))"
  using assms by (simp add: tsk_call_def int_call_def case_prod_beta)

lemma start_stop_alm_inv:
  assumes "kinv s" and "alm_inv cfg s"
  shows "kinv (snd (sta_alm cfg almid almtim s)) \<and> alm_inv cfg (snd (sta_alm cfg almid almtim s))"
    and "kinv (snd (ista_alm cfg almid almtim s)) \<and> alm_inv cfg (snd (ista_alm cfg almid almtim s))"
    and "kinv (snd (stp_alm cfg almid s)) \<and> alm_inv cfg (snd (stp_alm cfg almid s))"
    and "kinv (snd (istp_alm cfg almid s)) \<and> alm_inv cfg (snd (istp_alm cfg almid s))"
  using assms alm_calls[OF assms, of "sta_alm_body (INDEX_ALM almid) almtim"] alm_calls[OF assms, of "stp_alm_body (INDEX_ALM almid)"]
    sta_alm_body_ok stp_alm_body_ok
  by (simp_all add: sta_alm_def ista_alm_def stp_alm_def istp_alm_def)

lemma ref_alm_inv:
  assumes "kinv s" and "alm_inv cfg s"
  shows "kinv (snd (ref_alm cfg almid s)) \<and> alm_inv cfg (snd (ref_alm cfg almid s))"
  using assms by (simp add: ref_alm_def tsk_call_def Let_def)

lemma acre_alm_inv:
  assumes "kinv s" and "alm_inv cfg s"
  shows "kinv (snd (acre_alm cfg pk s)) \<and> alm_inv cfg (snd (acre_alm cfg pk s))"
proof (cases "CHECK_TSKCTX_UNL s \<and> CHECK_RSATR (almatr pk) TA_NULL \<and> FUNC_ALIGNED (almhdr pk) \<and> almhdr pk \<noteq> 0 \<and>
    tnum_alm cfg \<noteq> 0 \<and> free_almcb s \<noteq> []")
  case False
  then show ?thesis using assms by (auto simp: acre_alm_def tsk_call_def lock_objects)
next
  case ok: True
  obtain i js where fr: "free_almcb s = i # js" using ok by (cases "free_almcb s") auto
  let ?s = "t_lock_cpu s" and ?n = "\<lparr>almatr = almatr pk, alm_exinf = alm_exinf pk, almhdr = almhdr pk\<rparr>"
  define s1 where "s1 = upd_alm i (\<lambda>c. c\<lparr>p_alminib := ?n, almsta := False\<rparr>) (?s\<lparr>free_almcb := js\<rparr>)"
  have i: "kinv ?s" "alm_inv cfg ?s" using assms by simp_all
  have a: "almatr pk \<noteq> TA_NOEXS" using ok rsatr_exists(1)[of "almatr pk" TA_NULL] by simp
  have "kinv s1" using i(1) same_tasks_kinv(1)[of ?s s1] by (simp add: s1_def same_tasks_def)
  moreover have "alm_inv cfg s1"
    unfolding alm_inv_def
    by (rule alm.create_ok[OF i(2)[unfolded alm_inv_def], of i js]) (use fr a in \<open>simp_all add: s1_def lock_objects\<close>)
  moreover have "snd (acre_alm cfg pk s) = t_unlock_cpu s1"
    using ok fr by (simp add: acre_alm_def tsk_call_def lock_objects lock_sel Let_def s1_def)
  ultimately show ?thesis by simp
qed

lemma del_alm_inv:
  assumes "kinv s" and "alm_inv cfg s"
  shows "kinv (snd (del_alm cfg almid s)) \<and> alm_inv cfg (snd (del_alm cfg almid s))"
proof (cases "CHECK_TSKCTX_UNL s \<and> VALID_ALMID cfg almid \<and> almatr (p_alminib (almcb s (INDEX_ALM almid))) \<noteq> TA_NOEXS \<and>
    ALMID (INDEX_ALM almid) > tmax_salmid cfg")
  case False
  then show ?thesis using assms by (auto simp: del_alm_def tsk_call_def lock_objects Let_def)
next
  case ok: True
  let ?s = "t_lock_cpu s" and ?i = "INDEX_ALM almid"
  have i: "kinv ?s" "alm_inv cfg ?s" using assms by simp_all
  define s1 where "s1 = (if almsta (almcb ?s ?i) then upd_tme (tmevtb_dequeue (AlmTmevtb ?i)) (upd_alm ?i (\<lambda>c. c\<lparr>almsta := False\<rparr>) ?s)
    else ?s)"
  have s1: "kinv s1" "alm_inv cfg s1" "\<not> almsta (almcb s1 ?i)"
    using alm_stop[OF i _ refl, of ?i] i by (auto simp: s1_def)
  have a: "almatr (p_alminib (almcb s1 ?i)) \<noteq> TA_NOEXS" using ok by (simp add: s1_def lock_objects)
  define s2 where "s2 = (upd_alm ?i (\<lambda>c. c\<lparr>p_alminib := (p_alminib c)\<lparr>almatr := TA_NOEXS\<rparr>\<rparr>) s1)\<lparr>free_almcb := free_almcb s1 @ [?i]\<rparr>"
  have b: "tnum_salm cfg \<le> ?i" "?i < tnum_alm cfg"
    using ok by (auto simp: VALID_ALMID_def ALMID_def INDEX_ALM_def tnum_salm_def tnum_alm_def)
  have "kinv s2" using s1(1) same_tasks_kinv(1)[of s1 s2] by (simp add: s2_def same_tasks_def)
  moreover have "alm_inv cfg s2"
    unfolding alm_inv_def
    by (rule alm.delete_ok[OF s1(2)[unfolded alm_inv_def] a s1(3) b]) (use s1(3) in \<open>simp_all add: s2_def\<close>)
  moreover have "snd (del_alm cfg almid s) = t_unlock_cpu s2"
    using ok by (simp add: del_alm_def tsk_call_def lock_objects Let_def s1_def[symmetric] s2_def del: fun_upd_apply)
      (auto simp: s1_def lock_objects)
  ultimately show ?thesis by simp
qed

section \<open>Properties\<close>

lemma alm_inv_run_kernel: "alm_inv sample_cfg run_kernel"
  by (simp add: alm_inv_def hdl_inv_def run_kernel_objects run_kernel_sel idle_kernel_def sample_tmevt_ok)

text \<open>
  Every service call on alarm handlers, from a task or from a handler, keeps the invariant of the
  kernel and of the alarms: an alarm is started exactly when its time event is in the heap, with the
  callback that runs its handler; unused control blocks are stopped and in the list of unused blocks once.
\<close>

lemma alarm_calls_keep_inv:
  assumes "kinv s" and "alm_inv cfg s"
    and "s' \<in> {snd (acre_alm cfg pk s), snd (del_alm cfg almid s), snd (sta_alm cfg almid almtim s), snd (ista_alm cfg almid almtim s),
      snd (stp_alm cfg almid s), snd (istp_alm cfg almid s), snd (ref_alm cfg almid s)}"
  shows "kinv s' \<and> alm_inv cfg s'"
  using assms(3) acre_alm_inv[OF assms(1,2)] del_alm_inv[OF assms(1,2)] start_stop_alm_inv[OF assms(1,2)] ref_alm_inv[OF assms(1,2)]
  by auto

lemma alarm_calls_keep_inv_witness:
  "kinv (snd (sta_alm sample_cfg 1 5 run_kernel)) \<and> alm_inv sample_cfg (snd (sta_alm sample_cfg 1 5 run_kernel))"
  by (rule alarm_calls_keep_inv[OF kinv_run_kernel alm_inv_run_kernel, of _ undefined 1 5]) simp

text \<open>
  An alarm that is started, whether it was stopped or already waiting for an earlier or later time,
  has exactly one time event, the given time after the next tick, and reports that time as the time
  left; a stop takes the event back.
\<close>

lemma sta_alm_restarts:
  assumes "kinv s" and "alm_inv cfg s" and "CHECK_TSKCTX_UNL s" and "VALID_ALMID cfg almid" and "i = INDEX_ALM almid"
    and "almatr (p_alminib (almcb s i)) \<noteq> TA_NOEXS" and "almtim \<le> TMAX_RELTIM" and "next_time (tme s) - min_time (tme s) \<le> 2"
    and "s1 = snd (sta_alm cfg almid almtim s)" and "s2 = snd (stp_alm cfg almid s1)"
  shows "fst (sta_alm cfg almid almtim s) = Ret E_OK \<and>
    evts (tme s1) = (evts (tme s))(AlmTmevtb i \<mapsto> next_time (tme s) + almtim) \<and>
    fst (ref_alm cfg almid s1) = (Ret E_OK, Some \<lparr>ralm_almstat = TALM_STA, ralm_lefttim = Some almtim\<rparr>) \<and>
    fst (ref_alm cfg almid s2) = (Ret E_OK, Some \<lparr>ralm_almstat = TALM_STP, ralm_lefttim = None\<rparr>) \<and>
    evts (tme s2) = (evts (tme s))(AlmTmevtb i := None)"
proof -
  let ?s = "t_lock_cpu s" and ?t = "next_time (tme s) + almtim"
  have i: "kinv ?s" "alm_inv cfg ?s" "almatr (p_alminib (almcb ?s i)) \<noteq> TA_NOEXS" using assms(1,2,6) by (simp_all add: lock_objects)
  define tm where "tm = (if almsta (almcb ?s i) then tmevtb_dequeue (AlmTmevtb i) (tme ?s) else tme ?s)"
  note tm = alm_tm[OF i(1,2) tm_def]
  have e: "sta_alm cfg almid almtim s = (Ret E_OK, t_unlock_cpu (?s\<lparr>almcb := (almcb s)(i := (almcb s i)\<lparr>almsta := True\<rparr>),
      tme := ev_start (AlmTmevtb i) ?t (Call_almhdr i) tm\<rparr>))"
    using sta_alm_body_eq[OF i(3) refl tm_def tm(4), of almtim] assms(3-7)
    by (simp add: sta_alm_def tsk_call_def lock_objects lock_sel)
  have n: "evts tm (AlmTmevtb i) = None" using tm(2) by simp
  note st = ev_start_ok[OF tm(1) n, of ?t "Call_almhdr i"]
  have s1: "heap_ok (tme s1)" "evts (tme s1) = (evts (tme s))(AlmTmevtb i \<mapsto> ?t)" "same_clock (tme s) (tme s1)"
    using st tm by (simp_all add: assms(9) e lock_sel same_clock_def)
  have u1: "CHECK_TSKCTX_UNL s1" "almatr (p_alminib (almcb s1 i)) \<noteq> TA_NOEXS" "almsta (almcb s1 i)"
    using assms(3,6) by (simp_all add: assms(9) e CHECK_TSKCTX_UNL_def t_unlock_cpu_def t_lock_cpu_def)
  have l: "tmevt_lefttim (AlmTmevtb i) (tme s1) = almtim"
    by (rule lefttim_start) (use s1 assms(7,8) in \<open>simp_all add: same_clock_def\<close>)
  have e2: "s2 = t_unlock_cpu (upd_tme (tmevtb_dequeue (AlmTmevtb i)) (upd_alm i (\<lambda>c. c\<lparr>almsta := False\<rparr>) (t_lock_cpu s1)))"
    using u1 assms(4,5) by (simp add: assms(10) stp_alm_def stp_alm_body_def tsk_call_def lock_objects lock_sel Let_def)
  have u2: "CHECK_TSKCTX_UNL s2" using u1(1) by (simp add: e2 CHECK_TSKCTX_UNL_def t_unlock_cpu_def t_lock_cpu_def)
  have "evts (tme s2) = (evts (tme s))(AlmTmevtb i := None)"
    using ev_stop_ok(2)[OF s1(1), of "AlmTmevtb i"] s1(2) by (simp add: e2 lock_sel)
  moreover have "fst (ref_alm cfg almid s1) = (Ret E_OK, Some \<lparr>ralm_almstat = TALM_STA, ralm_lefttim = Some almtim\<rparr>)"
    using u1 assms(4,5) l by (simp add: ref_alm_def tsk_call_def lock_objects lock_sel Let_def)
  moreover have "fst (ref_alm cfg almid s2) = (Ret E_OK, Some \<lparr>ralm_almstat = TALM_STP, ralm_lefttim = None\<rparr>)"
    using u2 u1(2) assms(4,5) by (simp add: ref_alm_def tsk_call_def lock_objects lock_sel Let_def e2)
  ultimately show ?thesis using s1(2) by (simp add: e)
qed

lemma sta_alm_restarts_witness:
  "evts (tme (snd (sta_alm sample_cfg 1 7 (snd (sta_alm sample_cfg 1 5 run_kernel))))) (AlmTmevtb 0) = Some 6"
proof -
  let ?s = "snd (sta_alm sample_cfg 1 5 run_kernel)"
  have v: "CHECK_TSKCTX_UNL run_kernel" "VALID_ALMID sample_cfg 1" "0 = INDEX_ALM 1"
    "almatr (p_alminib (almcb run_kernel 0)) \<noteq> TA_NOEXS" "next_time (tme run_kernel) = 0xffffffff" "min_time (tme run_kernel) = 0xfffffffe"
    by (simp_all add: CHECK_TSKCTX_UNL_def run_kernel_sel run_kernel_objects VALID_ALMID_def sample_cfg_def INDEX_ALM_def
        idle_kernel_def sample_tmevt_def)
  have e: "?s = t_unlock_cpu ((t_lock_cpu run_kernel)\<lparr>almcb := (almcb run_kernel)(0 := (almcb run_kernel 0)\<lparr>almsta := True\<rparr>),
      tme := ev_start (AlmTmevtb 0) (0xffffffff + 5) (Call_almhdr 0) (tme run_kernel)\<rparr>)"
    using v by (simp add: sta_alm_def sta_alm_body_def tsk_call_def lock_objects lock_sel enqueue_ev_start run_kernel_objects idle_kernel_def)
  have "heap_ok (tme run_kernel)" "evts (tme run_kernel) (AlmTmevtb 0) = None" by (simp_all add: run_kernel_sel sample_tmevt_ok)
  note st = ev_start_ok(3)[OF this, of "0xffffffff + 5" "Call_almhdr 0"]
  have w: "CHECK_TSKCTX_UNL ?s" "almatr (p_alminib (almcb ?s 0)) \<noteq> TA_NOEXS" "next_time (tme ?s) = 0xffffffff"
      "next_time (tme ?s) - min_time (tme ?s) \<le> 2"
    using v st by (simp_all add: e CHECK_TSKCTX_UNL_def t_unlock_cpu_def t_lock_cpu_def same_clock_def)
  note k = start_stop_alm_inv(1)[OF kinv_run_kernel alm_inv_run_kernel, of 1 5]
  have six: "0xffffffff + 7 = (6 :: 32 word)" by (rule word_uint_eqI) simp
  show ?thesis
    using six sta_alm_restarts[OF conjunct1[OF k] conjunct2[OF k] w(1) v(2,3) w(2) _ w(4) refl refl, of 7] w(3) by simp
qed

end
