(* ===== verification/Asp_Timer.thy ===== *)
theory Asp_Timer
  imports Asp_Cyclic Asp_Alarm
begin

text \<open>
  The supply of time ticks with the callbacks of the kernel: timeouts of tasks, cyclic and alarm
  handlers. The routines of the handlers are a parameter \<open>hdr\<close>; the contract \<open>timer_env\<close> says what the
  kernel relies on: a routine changes the state by service calls for handlers, which keep the
  invariants, leave the clock alone, and register time events only for later ticks.
\<close>

section \<open>The callbacks\<close>

fun run_callback :: "(nat \<Rightarrow> intptr_t \<Rightarrow> kernel \<Rightarrow> kernel) \<Rightarrow> cback \<Rightarrow> kernel \<Rightarrow> kernel" where
  "run_callback hdr (Wait_tmout p) s = wait_tmout p s"
| "run_callback hdr (Wait_tmout_ok p) s = wait_tmout_ok p s"
| "run_callback hdr (Call_cychdr i) s = call_cychdr hdr i s"
| "run_callback hdr (Call_almhdr i) s = call_almhdr hdr i s"

definition later_only :: "TMEVT \<Rightarrow> TMEVT \<Rightarrow> bool" where
  "later_only tm tm' \<longleftrightarrow> same_clock tm tm' \<and>
    (\<forall>b t. evts tm' b = Some t \<longrightarrow> evts tm b = Some t \<or> EVTTIM_LT tm (current_time tm) t)"

text \<open>The clock during a tick, and between two ticks; \<open>TIC_NUME\<close> is 1.\<close>

definition in_tick :: "TMEVT \<Rightarrow> bool" where
  "in_tick tm \<longleftrightarrow> current_time tm - min_time tm = 1 \<and> next_time tm - min_time tm = 2"

definition off_tick :: "TMEVT \<Rightarrow> bool" where
  "off_tick tm \<longleftrightarrow> current_time tm = min_time tm \<and> next_time tm = current_time tm + 1"

definition timer_inv :: "kernel_cfg \<Rightarrow> kernel \<Rightarrow> bool" where
  "timer_inv cfg s \<longleftrightarrow> kinv s \<and> cyc_inv cfg s \<and> alm_inv cfg s"

lemma later_only_refl [simp]: "later_only tm tm"
  by (simp add: later_only_def same_clock_def)

lemma in_tick_clock: "same_clock tm tm' \<Longrightarrow> in_tick tm' = in_tick tm"
  by (simp add: in_tick_def same_clock_def)

lemma later_only_trans:
  assumes "later_only tm1 tm2" and "later_only tm2 tm3"
  shows "later_only tm1 tm3"
  using assms by (auto simp: later_only_def same_clock_def EVTTIM_LT_def)

text \<open>A time a positive distance after the current tick is later, and a registration for it is harmless.\<close>

lemma tick_later:
  assumes "in_tick tm" and "d \<le> TMAX_RELTIM"
  shows "EVTTIM_LT tm (current_time tm) (next_time tm + d)"
proof -
  have e: "next_time tm + d - min_time tm = (next_time tm - min_time tm) + d" by simp
  have "unat (2 + d) = 2 + unat d"
    using assms(2) by (simp add: unat_plus_if' word_le_nat_alt)
  then show ?thesis
    using assms(1) unfolding EVTTIM_LT_def e by (simp add: in_tick_def word_less_nat_alt)
qed

lemma period_later:
  assumes "in_tick tm" and "EVTTIM_LE tm t (current_time tm)" and "0 < d" and "d \<le> TMAX_RELTIM"
  shows "EVTTIM_LT tm t (t + d)"
proof -
  have e: "t + d - min_time tm = (t - min_time tm) + d" by simp
  have "unat (t - min_time tm) \<le> 1" "0 < unat d" "unat d \<le> 2147483647"
    using assms by (simp_all add: EVTTIM_LE_def in_tick_def word_le_nat_alt word_less_nat_alt)
  moreover from this have "unat (t - min_time tm + d) = unat (t - min_time tm) + unat d"
    by (simp add: unat_plus_if')
  ultimately show ?thesis unfolding EVTTIM_LT_def e by (simp add: word_less_nat_alt)
qed

section \<open>The clock and the invariants\<close>

lemma kinv_tme:
  assumes "kinv s" and "heap_ok tm" and "evts tm = evts (tme s)" and "\<And>b. callback (tmevtb tm b) = callback (tmevtb (tme s) b)"
  shows "kinv (s\<lparr>tme := tm\<rparr>)"
proof -
  note t = kinvD(1)[OF assms(1)]
  have w: "wobjatr (s\<lparr>tme := tm\<rparr>) = wobjatr s" by (rule wobjatr_objects) simp
  have "ready_ok (s\<lparr>tme := tm\<rparr>)" by (rule ready_ok_other[OF tsk_invD(1)[OF t]]) (use tsk_invD(7)[OF t] in simp_all)
  then have "tsk_inv (s\<lparr>tme := tm\<rparr>)"
    using t assms(2) by (simp add: tsk_inv_def w assms(3,4) tmout_ok_def)
  then show ?thesis using assms(1) by (simp add: kinv_def winv_def)
qed

lemma hdl_inv_tme:
  assumes "cb s' = cb s" and "free s' = free s" and "\<And>i. evts (tme s') (evb i) = evts (tme s) (evb i)"
    and "\<And>i. callback (tmevtb (tme s') (evb i)) = callback (tmevtb (tme s) (evb i))"
  shows "hdl_inv evb cbk cb atr sta free P lo hi s' = hdl_inv evb cbk cb atr sta free P lo hi s"
  using assms by (simp add: hdl_inv_def)

lemma timer_inv_quiet:
  assumes "timer_inv cfg s" and "kinv s'" and "cyccb s' = cyccb s \<and> free_cyccb s' = free_cyccb s \<and> almcb s' = almcb s \<and> free_almcb s' = free_almcb s"
    and "\<And>b. hdl_event b \<Longrightarrow> evts (tme s') b = evts (tme s) b \<and> callback (tmevtb (tme s') b) = callback (tmevtb (tme s) b)"
  shows "timer_inv cfg s'"
proof -
  have "cyc_inv cfg s' = cyc_inv cfg s"
    unfolding cyc_inv_def by (rule hdl_inv_tme) (use assms(3,4) cyc.evb_hdl in simp_all)
  moreover have "alm_inv cfg s' = alm_inv cfg s"
    unfolding alm_inv_def by (rule hdl_inv_tme) (use assms(3,4) alm.evb_hdl in simp_all)
  ultimately show ?thesis using assms(1,2) by (simp add: timer_inv_def)
qed

lemma timer_inv_tme:
  assumes "timer_inv cfg s" and "heap_ok tm" and "evts tm = evts (tme s)" and "\<And>b. callback (tmevtb tm b) = callback (tmevtb (tme s) b)"
  shows "timer_inv cfg (s\<lparr>tme := tm\<rparr>)"
  by (rule timer_inv_quiet[OF assms(1)]) (use assms kinv_tme[of s tm] in \<open>simp_all add: timer_inv_def\<close>)

lemma timer_inv_lock [simp]:
  "timer_inv cfg (t_lock_cpu s) = timer_inv cfg s" "timer_inv cfg (t_unlock_cpu s) = timer_inv cfg s"
  "timer_inv cfg (i_lock_cpu s) = timer_inv cfg s" "timer_inv cfg (i_unlock_cpu s) = timer_inv cfg s"
  by (simp_all add: timer_inv_def cyc_inv_def)

lemma timer_inv_heap: "timer_inv cfg s \<Longrightarrow> heap_ok (tme s)"
  unfolding timer_inv_def using tsk_invD(2)[OF kinvD(1)] by blast

lemma timer_inv_same:
  assumes "timer_inv cfg s" and "same_tasks s s'" and "objects s' = objects (s\<lparr>intpri := v\<rparr>)"
  shows "timer_inv cfg s'"
proof -
  have "cyccb s' = cyccb s" "free_cyccb s' = free_cyccb s" "almcb s' = almcb s" "free_almcb s' = free_almcb s"
    using objectsD(24-27)[OF assms(3)] by simp_all
  moreover have "wobjatr s' = wobjatr s" using wobjatr_objects[OF assms(3)] by (simp add: wobjatr_def fun_eq_iff split: wobj.split)
  then have "kinv s'" using assms(1) same_tasks_kinv(1)[OF assms(2)] by (simp add: timer_inv_def)
  ultimately show ?thesis by (intro timer_inv_quiet[OF assms(1)]) (use assms(2) in \<open>simp_all add: same_tasks_def\<close>)
qed

section \<open>The contract\<close>

text \<open>The objects that no time event handler belongs to.\<close>

definition fixed where
  "fixed s = (mtxqs s, mtxcb s, free_mtxcb s, semcb s, free_semcb s, flgcb s, free_flgcb s, dtqcb s, free_dtqcb s,
    pdqcb s, free_pdqcb s, mbxcb s, free_mbxcb s, pk_next s, msgpri s, mpfcb s, free_mpfcb s)"

lemma fixed_upd [simp]:
  "fixed (s\<lparr>tcb := a\<rparr>) = fixed s" "fixed (s\<lparr>queues := b\<rparr>) = fixed s" "fixed (s\<lparr>tme := c\<rparr>) = fixed s"
  "fixed (s\<lparr>cyccb := d\<rparr>) = fixed s" "fixed (s\<lparr>almcb := e\<rparr>) = fixed s" "fixed (s\<lparr>reqflg := f\<rparr>) = fixed s"
  "fixed (s\<lparr>intpri := g\<rparr>) = fixed s" "fixed (s\<lparr>cpu_lock := h\<rparr>) = fixed s" "fixed (i_lock_cpu s) = fixed s" "fixed (i_unlock_cpu s) = fixed s"
  by (simp_all add: fixed_def i_lock_cpu_def i_unlock_cpu_def)

locale timer_env =
  fixes cfg :: kernel_cfg and J :: "kernel \<Rightarrow> bool" and hdr :: "nat \<Rightarrow> intptr_t \<Rightarrow> kernel \<Rightarrow> kernel"
  assumes J_release: "timer_inv cfg s \<Longrightarrow> J s \<Longrightarrow> TSTAT_WAITING (tstat (tcb s p)) \<Longrightarrow> tm_without p (tme s) tm \<Longrightarrow>
      J (snd (release e tm p s))"
    and J_frame: "J s \<Longrightarrow> tcb s' = tcb s \<Longrightarrow> queues s' = queues s \<Longrightarrow> fixed s' = fixed s \<Longrightarrow> J s'"
    and hdr_law: "timer_inv cfg s \<Longrightarrow> J s \<Longrightarrow> in_tick (tme s) \<Longrightarrow>
      timer_inv cfg (hdr a x s) \<and> J (hdr a x s) \<and> later_only (tme s) (tme (hdr a x s))"
begin

abbreviation inv :: "kernel \<Rightarrow> bool" where "inv s \<equiv> timer_inv cfg s \<and> J s"

text \<open>The part of a handler callback after the change of the state of the handler.\<close>

definition run_hdr :: "nat \<Rightarrow> intptr_t \<Rightarrow> kernel \<Rightarrow> kernel" where
  "run_hdr a x s =
    (let saved_ipm = intpri s;
         s = i_unlock_cpu s;
         s = hdr a x s;
         s = (if \<not> cpu_lock s then i_lock_cpu s else s)
     in s\<lparr>intpri := saved_ipm\<rparr>)"

lemma run_hdr_ok:
  assumes "inv s" and "in_tick (tme s)"
  shows "inv (run_hdr a x s)" and "later_only (tme s) (tme (run_hdr a x s))"
proof -
  let ?h = "hdr a x (i_unlock_cpu s)" and ?l = "\<lambda>s. if \<not> cpu_lock s then i_lock_cpu s else s"
  have i: "inv (i_unlock_cpu s)"
    using assms(1) J_frame[of s "i_unlock_cpu s"] by (simp add: lock_sel)
  have h: "inv ?h" "later_only (tme s) (tme ?h)"
    using hdr_law[of "i_unlock_cpu s" a x] i assms(2) by (simp_all add: lock_sel)
  have l: "same_tasks ?h ((?l ?h)\<lparr>intpri := intpri s\<rparr>)" "fixed ((?l ?h)\<lparr>intpri := intpri s\<rparr>) = fixed ?h"
    "objects ((?l ?h)\<lparr>intpri := intpri s\<rparr>) = objects (?h\<lparr>intpri := intpri s\<rparr>)"
    by (simp_all add: same_tasks_def i_lock_cpu_def objects_def)
  have r: "run_hdr a x s = (?l ?h)\<lparr>intpri := intpri s\<rparr>" by (simp add: run_hdr_def Let_def)
  have "timer_inv cfg (run_hdr a x s)"
    using timer_inv_same[OF _ l(1,3)] h(1) by (simp add: r)
  moreover have "J (run_hdr a x s)"
    using J_frame[of ?h "run_hdr a x s"] h(1) l by (simp add: r same_tasks_def)
  ultimately show "inv (run_hdr a x s)" by simp
  show "later_only (tme s) (tme (run_hdr a x s))" using h(2) l(1) by (simp add: r same_tasks_def)
qed

lemma tmout_law:
  assumes "inv s" and "evts (tme s) (TskTmevtb p) \<noteq> None" and "tm_without p (tme s) tm"
    and "s2 = run_callback hdr (callback (tmevtb tm (TskTmevtb p))) (s\<lparr>tme := tm\<rparr>)"
  shows "inv s2" and "later_only tm (tme s2)"
proof -
  have k: "kinv s" using assms(1) by (simp add: timer_inv_def)
  note t = kinvD(1)[OF k]
  have td: "timed p (tcb s p)" using tsk_invD(4)[OF t, of p] assms(2) by (simp add: tmout_ok_def)
  then have w: "TSTAT_WAITING (tstat (tcb s p))" by (simp add: timed_def)
  have cb: "callback (tmevtb tm (TskTmevtb p)) =
      (if tstat (tcb s p) AND TS_WAIT_MASK = TS_WAIT_DLY then Wait_tmout_ok p else Wait_tmout p)"
    using tsk_invD(4)[OF t, of p] td assms(3) by (simp add: tmout_ok_def tm_without_def)
  have no: "\<not> TSTAT_WAIT_WOBJ (tstat (tcb s p))" if "tstat (tcb s p) AND TS_WAIT_MASK = TS_WAIT_DLY"
    using that by (simp add: TSTAT_defs)
  define e where "e = (if tstat (tcb s p) AND TS_WAIT_MASK = TS_WAIT_DLY then E_OK else E_TMOUT)"
  have e: "s2 = i_lock_cpu (i_unlock_cpu (reqflg_if (release e tm p s)))"
    using wait_tmout_release[OF t w, of tm] wait_tmout_ok_release[OF t w no, of tm] by (simp add: assms(4) cb e_def)
  let ?r = "reqflg_if (release e tm p s)"
  have r: "tcb ?r = tcb (snd (release e tm p s))" "queues ?r = queues (snd (release e tm p s))" "tme ?r = tm" "fixed ?r = fixed (snd (release e tm p s))"
    "objects ?r = objects s"
    by (simp_all add: reqflg_if_def)
  have "winv s" using kinvD(2)[OF k] .
  then have "kinv ?r" using op_ok_reqflg_if[OF k release_op_ok[OF _ w assms(3)]] by blast
  then have "timer_inv cfg ?r"
    by (rule timer_inv_quiet[OF conjunct1[OF assms(1)]])
      (use objectsD(24-27)[OF r(5)] assms(3) in \<open>auto simp: r tm_without_def hdl_event_def\<close>)
  moreover have "J (snd (release e tm p s))" using J_release assms(1,3) w by blast
  then have "J s2" by (rule J_frame) (simp_all add: e lock_sel r)
  ultimately show "inv s2" by (simp add: e)
  show "later_only tm (tme s2)" by (simp add: e lock_sel r)
qed

text \<open>The heap after the root was deleted.\<close>

definition popped :: "tmevtb_id \<Rightarrow> TMEVT \<Rightarrow> TMEVT \<Rightarrow> bool" where
  "popped b tm tm' \<longleftrightarrow> heap_ok tm' \<and> evts tm' = (evts tm)(b := None) \<and> same_clock tm tm' \<and>
    (\<forall>c. callback (tmevtb tm' c) = callback (tmevtb tm c))"

lemma handler_other:
  assumes "inv s" and "same_but_tme b s u" and "hdl_event b" and "fixed u = fixed s"
    and "\<And>i. b \<noteq> AlmTmevtb i \<or> alm_inv cfg u" and "\<And>i. b \<noteq> CycTmevtb i \<or> cyc_inv cfg u"
    and "(\<forall>i. b \<noteq> AlmTmevtb i) \<longrightarrow> almcb u = almcb s \<and> free_almcb u = free_almcb s"
    and "(\<forall>i. b \<noteq> CycTmevtb i) \<longrightarrow> cyccb u = cyccb s \<and> free_cyccb u = free_cyccb s"
  shows "inv u"
proof -
  have "kinv u" using kinv_same_but_tme[OF _ assms(2,3)] assms(1) by (simp add: timer_inv_def)
  moreover have "alm_inv cfg u"
  proof (cases "\<exists>i. b = AlmTmevtb i")
    case False
    then have "alm_inv cfg u = alm_inv cfg s"
      unfolding alm_inv_def by (intro hdl_inv_tme) (use assms(2,7) in \<open>auto simp: same_but_tme_def\<close>)
    then show ?thesis using assms(1) by (simp add: timer_inv_def)
  qed (use assms(5) in blast)
  moreover have "cyc_inv cfg u"
  proof (cases "\<exists>i. b = CycTmevtb i")
    case False
    then have "cyc_inv cfg u = cyc_inv cfg s"
      unfolding cyc_inv_def by (intro hdl_inv_tme) (use assms(2,8) in \<open>auto simp: same_but_tme_def\<close>)
    then show ?thesis using assms(1) by (simp add: timer_inv_def)
  qed (use assms(6) in blast)
  moreover have "J u"
    by (rule J_frame[OF conjunct2[OF assms(1)]]) (use assms(2,4) in \<open>simp_all add: same_but_tme_def\<close>)
  ultimately show ?thesis by (simp add: timer_inv_def)
qed

lemma cychdr_law:
  assumes "inv s" and "in_tick (tme s)" and "evts (tme s) (CycTmevtb i) = Some t0"
    and "EVTTIM_LE (tme s) t0 (current_time (tme s))" and "popped (CycTmevtb i) (tme s) tm"
    and "s2 = run_callback hdr (callback (tmevtb tm (CycTmevtb i))) (s\<lparr>tme := tm\<rparr>)"
  shows "inv s2" and "same_clock tm (tme s2)"
    and "evts (tme s2) b = Some t \<Longrightarrow> evts tm b = Some t \<or> EVTTIM_LT tm (current_time tm) t \<or>
      b = CycTmevtb i \<and> EVTTIM_LT tm t0 t"
proof -
  have c: "cyc_inv cfg s" using assms(1) by (simp add: timer_inv_def)
  note d = hdl_invD[OF c[unfolded cyc_inv_def]]
  have st: "cycsta (cyccb s i)" using d(3)[of i] assms(3) by simp
  then have ex: "cycatr (p_cycinib (cyccb s i)) \<noteq> TA_NOEXS" using d(4)[of i] by auto
  have ok: "cyc_evttim (cyccb s i) = t0" "0 < cyctim (p_cycinib (cyccb s i))" "cyctim (p_cycinib (cyccb s i)) \<le> TMAX_RELTIM"
    "cycphs (p_cycinib (cyccb s i)) \<le> TMAX_RELTIM"
    using d(5)[OF ex] assms(3) by (simp_all add: cyc_ok_def)
  have p: "heap_ok tm" "evts tm (CycTmevtb i) = None" "evts tm = (evts (tme s))(CycTmevtb i := None)" "same_clock (tme s) tm"
    "\<And>c. callback (tmevtb tm c) = callback (tmevtb (tme s) c)"
    using assms(5) by (simp_all add: popped_def)
  let ?t = "t0 + cyctim (p_cycinib (cyccb s i))"
  define u where "u = s\<lparr>cyccb := (cyccb s)(i := (cyccb s i)\<lparr>cyc_evttim := ?t\<rparr>), tme := ev_start (CycTmevtb i) ?t (Call_cychdr i) tm\<rparr>"
  note st_ev = ev_start_ok[OF p(1,2), of ?t "Call_cychdr i"]
  have s2: "s2 = run_hdr (cychdr (p_cycinib (cyccb s i))) (cyc_exinf (p_cycinib (cyccb s i))) u"
    using d(6)[OF st] ok(1) by (simp add: assms(6) p(5) call_cychdr_def enqueue_cyc_eq run_hdr_def u_def Let_def lock_objects)
  have sb: "same_but_tme (CycTmevtb i) s u"
    using st_ev p by (simp add: same_but_tme_def u_def same_clock_def)
  have "cyc_inv cfg u"
    unfolding cyc_inv_def
    by (rule cyc.inv_one[OF c[unfolded cyc_inv_def] sb]) (use st ex ok st_ev in \<open>simp_all add: u_def cyc_ok_def\<close>)
  then have iu: "inv u"
    by (intro handler_other[OF assms(1) sb]) (simp_all add: u_def cyc.evb_hdl)
  have cl: "same_clock tm (tme u)" using st_ev(3) by (simp add: u_def)
  then have "same_clock (tme s) (tme u)" using p(4) by (simp add: same_clock_def)
  then have "in_tick (tme u)" using assms(2) in_tick_clock by blast
  note r = run_hdr_ok[OF iu this, of "cychdr (p_cycinib (cyccb s i))" "cyc_exinf (p_cycinib (cyccb s i))", folded s2]
  show "inv s2" by (rule r(1))
  show "same_clock tm (tme s2)" using r(2) cl by (simp add: later_only_def same_clock_def)
  have lt: "EVTTIM_LT tm t0 ?t"
    using period_later[OF assms(2,4) ok(2,3)] p(4) by (simp add: EVTTIM_LT_def same_clock_def)
  show "evts tm b = Some t \<or> EVTTIM_LT tm (current_time tm) t \<or> b = CycTmevtb i \<and> EVTTIM_LT tm t0 t"
    if "evts (tme s2) b = Some t"
  proof -
    have "evts (tme u) b = Some t \<or> EVTTIM_LT tm (current_time tm) t"
      using r(2) that cl by (auto simp: later_only_def same_clock_def EVTTIM_LT_def)
    then show ?thesis using st_ev(2) lt by (auto simp: u_def split: if_splits)
  qed
qed

lemma almhdr_law:
  assumes "inv s" and "in_tick (tme s)" and "evts (tme s) (AlmTmevtb i) \<noteq> None" and "popped (AlmTmevtb i) (tme s) tm"
    and "s2 = run_callback hdr (callback (tmevtb tm (AlmTmevtb i))) (s\<lparr>tme := tm\<rparr>)"
  shows "inv s2" and "later_only tm (tme s2)"
proof -
  have c: "alm_inv cfg s" using assms(1) by (simp add: timer_inv_def)
  note d = hdl_invD[OF c[unfolded alm_inv_def]]
  have st: "almsta (almcb s i)" using d(3)[of i] assms(3) by simp
  then have ex: "almatr (p_alminib (almcb s i)) \<noteq> TA_NOEXS" using d(4)[of i] by auto
  have p: "heap_ok tm" "evts tm (AlmTmevtb i) = None" "evts tm = (evts (tme s))(AlmTmevtb i := None)" "same_clock (tme s) tm"
    "\<And>c. callback (tmevtb tm c) = callback (tmevtb (tme s) c)"
    using assms(4) by (simp_all add: popped_def)
  define u where "u = s\<lparr>tme := tm, almcb := (almcb s)(i := (almcb s i)\<lparr>almsta := False\<rparr>)\<rparr>"
  have s2: "s2 = run_hdr (almhdr (p_alminib (almcb s i))) (alm_exinf (p_alminib (almcb s i))) u"
    using d(6)[OF st] by (simp add: assms(5) p(5) call_almhdr_def run_hdr_def u_def Let_def lock_objects)
  have sb: "same_but_tme (AlmTmevtb i) s u"
    using p by (simp add: same_but_tme_def u_def same_clock_def)
  have "alm_inv cfg u"
    unfolding alm_inv_def
    by (rule alm.inv_one[OF c[unfolded alm_inv_def] sb]) (use ex p in \<open>simp_all add: u_def\<close>)
  then have iu: "inv u"
    by (intro handler_other[OF assms(1) sb]) (simp_all add: u_def alm.evb_hdl)
  have tu: "tme u = tm" by (simp add: u_def)
  then have "in_tick (tme u)" using assms(2) in_tick_clock[OF p(4)] by simp
  from run_hdr_ok[OF iu this, of "almhdr (p_alminib (almcb s i))" "alm_exinf (p_alminib (almcb s i))", folded s2]
  show "inv s2" "later_only tm (tme s2)" by (simp_all add: tu)
qed

text \<open>The contract of the loop over the due events.\<close>

lemma callback_law:
  assumes "inv s \<and> in_tick (tme s)" and "0 < last_index (tme s)"
    and "EVTTIM_LE (tme s) (time (TMEVT_NODE (tme s) 1)) (current_time (tme s))"
    and "s1 = s\<lparr>tme := tmevtb_delete_top (tme s)\<rparr>"
    and "s2 = run_callback hdr (callback (tmevtb (tme s1) (p_tmevtb (TMEVT_NODE (tme s) 1)))) s1"
  shows "(inv s2 \<and> in_tick (tme s2)) \<and> same_clock (tme s1) (tme s2) \<and>
    (\<forall>b t. evts (tme s2) b = Some t \<longrightarrow>
      evts (tme s1) b = Some t \<or> EVTTIM_LT (tme s1) (current_time (tme s1)) t \<or>
      b = p_tmevtb (TMEVT_NODE (tme s) 1) \<and> EVTTIM_LT (tme s1) (time (TMEVT_NODE (tme s) 1)) t)"
proof -
  let ?r = "p_tmevtb (TMEVT_NODE (tme s) 1)" and ?t = "time (TMEVT_NODE (tme s) 1)" and ?tm = "tmevtb_delete_top (tme s)"
  have i: "inv s" "in_tick (tme s)" using assms(1) by simp_all
  have h: "heap_ok (tme s)" using timer_inv_heap i(1) by blast
  have n: "1 \<le> last_index (tme s)" using assms(2) by simp
  have po: "popped ?r (tme s) ?tm"
    using tmevtb_delete_top_ok(1,2)[OF h n] tmevtb_delete_top_sel[OF h n] by (simp add: popped_def same_clock_def)
  have ev: "evts (tme s) ?r = Some ?t" by (rule heap_root_event[OF h n])
  have s2: "s2 = run_callback hdr (callback (tmevtb ?tm ?r)) (s\<lparr>tme := ?tm\<rparr>)" by (simp add: assms(4,5))
  have main: "inv s2 \<and> same_clock ?tm (tme s2) \<and> (\<forall>b t. evts (tme s2) b = Some t \<longrightarrow>
      evts ?tm b = Some t \<or> EVTTIM_LT ?tm (current_time ?tm) t \<or> b = ?r \<and> EVTTIM_LT ?tm ?t t)"
  proof (cases ?r)
    case (TskTmevtb p)
    have w: "tm_without p (tme s) ?tm" using po unfolding TskTmevtb popped_def tm_without_def .
    have e: "evts (tme s) (TskTmevtb p) \<noteq> None" using ev unfolding TskTmevtb by simp
    from tmout_law[OF i(1) e w s2[unfolded TskTmevtb]] show ?thesis by (auto simp: later_only_def)
  next
    case (CycTmevtb j)
    from cychdr_law[OF i ev[unfolded CycTmevtb] assms(3) po[unfolded CycTmevtb] s2[unfolded CycTmevtb]]
    show ?thesis unfolding CycTmevtb by blast
  next
    case (AlmTmevtb j)
    have e: "evts (tme s) (AlmTmevtb j) \<noteq> None" using ev unfolding AlmTmevtb by simp
    from almhdr_law[OF i e po[unfolded AlmTmevtb] s2[unfolded AlmTmevtb]] show ?thesis by (auto simp: later_only_def)
  qed
  moreover have "same_clock (tme s) (tme s2)" using main po by (simp add: popped_def same_clock_def)
  then have "in_tick (tme s2)" using i(2) in_tick_clock by blast
  ultimately show ?thesis by (simp add: assms(4))
qed

lemma tick_ok:
  assumes "inv s \<and> off_tick (tme s)"
  shows "inv (time_tick s) \<and> in_tick (tme (time_tick s))"
proof -
  let ?tm = "(tme s)\<lparr>current_time := next_time (tme s), next_time := next_time (tme s) + TIC_NUME\<rparr>"
  have e: "time_tick s = (i_lock_cpu s)\<lparr>tme := ?tm\<rparr>"
    by (simp add: time_tick_def i_lock_cpu_def)
  have "heap_ok (tme s)" using assms timer_inv_heap by blast
  then have "timer_inv cfg (time_tick s)"
    unfolding e using assms by (intro timer_inv_tme) (simp_all add: lock_sel)
  moreover have "J (time_tick s)" by (rule J_frame[of s]) (use assms in \<open>simp_all add: e lock_sel\<close>)
  moreover have "in_tick (tme (time_tick s))"
    using assms by (simp add: e in_tick_def off_tick_def)
  ultimately show ?thesis by simp
qed

lemma tock_ok:
  assumes "inv s \<and> in_tick (tme s)" and "due (tme s) = {}"
  shows "inv (time_tock s) \<and> off_tick (tme (time_tock s))"
proof -
  let ?tm = "(tme s)\<lparr>min_time := current_time (tme s)\<rparr>"
  have e: "time_tock s = i_unlock_cpu (s\<lparr>tme := ?tm\<rparr>)" by (simp add: time_tock_def)
  have h: "heap_ok (tme s)" using assms timer_inv_heap by blast
  have "EVTTIM_LE (tme s) (current_time (tme s)) t" if "evts (tme s) b = Some t" for b t
  proof -
    have "\<not> EVTTIM_LE (tme s) t (current_time (tme s))" using assms(2) that by (auto simp: due_def)
    then show ?thesis by (simp add: EVTTIM_LE_def)
  qed
  then have "heap_ok ?tm" by (rule min_time_advance[OF h])
  then have "timer_inv cfg (s\<lparr>tme := ?tm\<rparr>)" using assms by (intro timer_inv_tme) simp_all
  then have "timer_inv cfg (time_tock s)" by (simp add: e)
  moreover have "J (time_tock s)" by (rule J_frame[of s]) (use assms in \<open>simp_all add: e lock_sel\<close>)
  moreover have "next_time (tme s) = current_time (tme s) + 1"
  proof -
    have "next_time (tme s) - current_time (tme s) =
        (next_time (tme s) - min_time (tme s)) - (current_time (tme s) - min_time (tme s))" by simp
    also have "\<dots> = 1" using assms(1) by (simp add: in_tick_def)
    finally show ?thesis by (simp add: algebra_simps)
  qed
  then have "off_tick (tme (time_tock s))" by (simp add: e off_tick_def lock_sel)
  ultimately show ?thesis by simp
qed

end

sublocale timer_env \<subseteq> ticks: time_callbacks "run_callback hdr" "\<lambda>s. inv s \<and> in_tick (tme s)" "\<lambda>s. inv s \<and> off_tick (tme s)"
proof
  show "heap_ok (tme s)" if "inv s \<and> in_tick (tme s)" for s using that timer_inv_heap by blast
qed (use callback_law tick_ok tock_ok in blast)+

section \<open>Alarm calls from handlers\<close>

text \<open>A call that only changes one alarm: its control block and its time event.\<close>

definition alarm_step :: "nat \<Rightarrow> kernel \<Rightarrow> kernel \<Rightarrow> bool" where
  "alarm_step i s s' \<longleftrightarrow> same_but_tme (AlmTmevtb i) s s' \<and> fixed s' = fixed s \<and> cyccb s' = cyccb s \<and> free_cyccb s' = free_cyccb s \<and>
    (\<forall>t. evts (tme s') (AlmTmevtb i) = Some t \<longrightarrow> evts (tme s) (AlmTmevtb i) = Some t \<or>
      (\<exists>d \<le> TMAX_RELTIM. t = next_time (tme s) + d))"

lemma alarm_stepD:
  assumes "alarm_step i s s'" and "in_tick (tme s)"
  shows "later_only (tme s) (tme s')"
  unfolding later_only_def
proof (intro conjI allI impI)
  show "same_clock (tme s) (tme s')" using assms(1) by (simp add: alarm_step_def same_but_tme_def)
  fix b t
  assume "evts (tme s') b = Some t"
  then show "evts (tme s) b = Some t \<or> EVTTIM_LT (tme s) (current_time (tme s)) t"
    using assms tick_later[OF assms(2)] by (cases "b = AlmTmevtb i") (auto simp: alarm_step_def same_but_tme_def)
qed

lemma alarm_step_cyc: "alarm_step i s s' \<Longrightarrow> cyc_inv cfg s' = cyc_inv cfg s"
  unfolding cyc_inv_def by (rule hdl_inv_tme) (simp_all add: alarm_step_def same_but_tme_def)

lemma alarm_step_refl: "heap_ok (tme s) \<Longrightarrow> alarm_step i s s"
  by (simp add: alarm_step_def same_but_tme_def same_clock_def)

lemma alarm_step_lock:
  assumes "alarm_step i s s'"
  shows "alarm_step i s (i_unlock_cpu s')" and "alarm_step i s (t_unlock_cpu s')"
proof -
  have "same_but_tme (AlmTmevtb i) s (i_unlock_cpu s')" "same_but_tme (AlmTmevtb i) s (t_unlock_cpu s')"
    using assms by (simp_all add: alarm_step_def same_but_tme_def i_unlock_cpu_def t_unlock_cpu_def wobjatr_def fun_eq_iff split: wobj.split)
  then show "alarm_step i s (i_unlock_cpu s')" "alarm_step i s (t_unlock_cpu s')"
    using assms by (simp_all add: alarm_step_def i_unlock_cpu_def t_unlock_cpu_def)
qed

lemma alarm_step_lock_l:
  "alarm_step i (i_lock_cpu s) s' = alarm_step i s s'" "alarm_step i (t_lock_cpu s) s' = alarm_step i s s'"
proof -
  have "wobjatr (i_lock_cpu s) = wobjatr s" "wobjatr (t_lock_cpu s) = wobjatr s" by (rule wobjatr_objects; simp)+
  then show "alarm_step i (i_lock_cpu s) s' = alarm_step i s s'" "alarm_step i (t_lock_cpu s) s' = alarm_step i s s'"
    by (simp_all add: alarm_step_def same_but_tme_def i_lock_cpu_def t_lock_cpu_def)
qed

lemma sta_alm_body_step:
  assumes "kinv s" and "alm_inv cfg s" and "almtim \<le> TMAX_RELTIM"
  shows "alarm_step i s (snd (sta_alm_body i almtim s))"
proof (cases "almatr (p_alminib (almcb s i)) = TA_NOEXS")
  case True
  then show ?thesis using tsk_invD(2)[OF kinvD(1)[OF assms(1)]] by (simp add: sta_alm_body_def alarm_step_refl)
next
  case False
  note tm = alm_tm[OF assms(1,2) refl, of i]
  note e = sta_alm_body_eq[OF False refl refl tm(4), of almtim]
  have n: "evts (if almsta (almcb s i) then tmevtb_dequeue (AlmTmevtb i) (tme s) else tme s) (AlmTmevtb i) = None"
    unfolding tm(2) by simp
  have cb: "callback (tmevtb (if almsta (almcb s i) then tmevtb_dequeue (AlmTmevtb i) (tme s) else tme s) b) = callback (tmevtb (tme s) b)" for b
    using ev_stop_ok(4)[OF tsk_invD(2)[OF kinvD(1)[OF assms(1)]], of "AlmTmevtb i"]
      hdl_invD(3)[OF assms(2)[unfolded alm_inv_def], of i] by auto
  note st = ev_start_ok[OF tm(1) n, of "next_time (tme s) + almtim" "Call_almhdr i"]
  have "same_but_tme (AlmTmevtb i) s (snd (sta_alm_body i almtim s))"
    unfolding e same_but_tme_def using st tm(3) cb unfolding tm(2) by (auto simp: same_clock_def)
  then show ?thesis
    using st(2) assms(3) unfolding tm(2) by (auto simp: alarm_step_def e)
qed

lemma stp_alm_body_step:
  assumes "kinv s" and "alm_inv cfg s"
  shows "alarm_step i s (snd (stp_alm_body i s))"
proof (cases "almatr (p_alminib (almcb s i)) = TA_NOEXS \<or> \<not> almsta (almcb s i)")
  case True
  then show ?thesis using tsk_invD(2)[OF kinvD(1)[OF assms(1)]] by (auto simp: stp_alm_body_def alarm_step_refl)
next
  case False
  have h: "heap_ok (tme s)" using tsk_invD(2)[OF kinvD(1)[OF assms(1)]] .
  have "evts (tme s) (AlmTmevtb i) \<noteq> None" using hdl_invD(3)[OF assms(2)[unfolded alm_inv_def], of i] False by simp
  note st = ev_stop_ok[OF h this]
  have "same_but_tme (AlmTmevtb i) s (snd (stp_alm_body i s))"
    using False st by (simp add: stp_alm_body_def same_but_tme_def)
  then show ?thesis using False st(2) by (simp add: alarm_step_def stp_alm_body_def)
qed

lemma alarm_icalls_step:
  assumes "kinv s" and "alm_inv cfg s"
  shows "alarm_step (INDEX_ALM almid) s (snd (ista_alm cfg almid almtim s))"
    and "alarm_step (INDEX_ALM almid) s (snd (istp_alm cfg almid s))"
proof -
  have h: "heap_ok (tme s)" using tsk_invD(2)[OF kinvD(1)[OF assms(1)]] .
  have l: "kinv (i_lock_cpu s)" "alm_inv cfg (i_lock_cpu s)" using assms by simp_all
  show "alarm_step (INDEX_ALM almid) s (snd (ista_alm cfg almid almtim s))"
    using sta_alm_body_step[OF l, of almtim "INDEX_ALM almid"] alarm_step_refl[OF h]
    by (auto simp: ista_alm_def int_call_def case_prod_beta alarm_step_lock_l intro: alarm_step_lock)
  show "alarm_step (INDEX_ALM almid) s (snd (istp_alm cfg almid s))"
    using stp_alm_body_step[OF l, of "INDEX_ALM almid"] alarm_step_refl[OF h]
    by (auto simp: istp_alm_def int_call_def case_prod_beta alarm_step_lock_l intro: alarm_step_lock)
qed

end
