(* ===== verification/Asp_Sys_Manage.thy ===== *)
theory Asp_Sys_Manage
  imports Asp_Task_Manage
begin

text \<open>
  System state management, \<^verbatim>\<open>kernel/sys_manage.c\<close>, and the reference of the system time of
  \<^verbatim>\<open>kernel/time_manage.c\<close>. An output parameter is the second part of the result, present when the
  call returns \<open>E_OK\<close>. The flag \<open>kerflg\<close> is a parameter of \<open>sns_ker\<close>; it belongs to the start-up.
\<close>

section \<open>Operations\<close>

definition CHECK_INTCTX :: "kernel \<Rightarrow> bool" where
  "CHECK_INTCTX s \<longleftrightarrow> intctx s"

definition rot_rdq :: "PRI \<Rightarrow> kernel \<Rightarrow> result \<times> kernel" where
  "rot_rdq tpri s =
    (if \<not> CHECK_TSKCTX_UNL s then (Ret E_CTX, s)
     else if \<not> CHECK_TPRI_SELF tpri then (Ret E_PAR, s)
     else tsk_call (\<lambda>s.
       let pri = (if tpri = TPRI_SELF then bpriority (tcb s (runtsk s)) else INT_PRIORITY tpri)
       in (Ret E_OK, dispatch_if (rotate_ready_queue pri s))) s)"

definition irot_rdq :: "PRI \<Rightarrow> kernel \<Rightarrow> result \<times> kernel" where
  "irot_rdq tpri s =
    (if \<not> CHECK_INTCTX_UNL s then (Ret E_CTX, s)
     else if \<not> VALID_TPRI tpri then (Ret E_PAR, s)
     else int_call (\<lambda>s. (Ret E_OK, reqflg_if (rotate_ready_queue (INT_PRIORITY tpri) s))) s)"

definition get_tid :: "kernel \<Rightarrow> (result \<times> ID option) \<times> kernel" where
  "get_tid s =
    (if \<not> CHECK_TSKCTX_UNL s then ((Ret E_CTX, None), s)
     else tsk_call (\<lambda>s. ((Ret E_OK, Some (TSKID (runtsk s))), s)) s)"

definition iget_tid :: "kernel \<Rightarrow> (result \<times> ID option) \<times> kernel" where
  "iget_tid s =
    (if \<not> CHECK_INTCTX_UNL s then ((Ret E_CTX, None), s)
     else int_call (\<lambda>s. ((Ret E_OK, Some (if p_runtsk s = None then TSK_NONE else TSKID (runtsk s))), s)) s)"

definition loc_cpu :: "kernel \<Rightarrow> result \<times> kernel" where
  "loc_cpu s =
    (if \<not> CHECK_TSKCTX s then (Ret E_CTX, s)
     else (Ret E_OK, if \<not> cpu_lock s then t_lock_cpu s else s))"

definition iloc_cpu :: "kernel \<Rightarrow> result \<times> kernel" where
  "iloc_cpu s =
    (if \<not> CHECK_INTCTX s then (Ret E_CTX, s)
     else (Ret E_OK, if \<not> cpu_lock s then i_lock_cpu s else s))"

definition unl_cpu :: "kernel \<Rightarrow> result \<times> kernel" where
  "unl_cpu s =
    (if \<not> CHECK_TSKCTX s then (Ret E_CTX, s)
     else (Ret E_OK, if cpu_lock s then t_unlock_cpu s else s))"

definition iunl_cpu :: "kernel \<Rightarrow> result \<times> kernel" where
  "iunl_cpu s =
    (if \<not> CHECK_INTCTX s then (Ret E_CTX, s)
     else (Ret E_OK, if cpu_lock s then i_unlock_cpu s else s))"

definition dis_dsp :: "kernel \<Rightarrow> result \<times> kernel" where
  "dis_dsp s =
    (if \<not> CHECK_TSKCTX_UNL s then (Ret E_CTX, s)
     else tsk_call (\<lambda>s. (Ret E_OK, s\<lparr>disdsp := True, dspflg := False\<rparr>)) s)"

definition ena_dsp :: "kernel \<Rightarrow> result \<times> kernel" where
  "ena_dsp s =
    (if \<not> CHECK_TSKCTX_UNL s then (Ret E_CTX, s)
     else tsk_call (\<lambda>s.
       let s = s\<lparr>disdsp := False\<rparr>
       in (Ret E_OK, if ipmflg s
                     then (let s = s\<lparr>dspflg := True\<rparr>
                           in if p_runtsk s \<noteq> p_schedtsk s then dispatch s else s)
                     else s)) s)"

definition sns_ctx :: "kernel \<Rightarrow> bool" where "sns_ctx s = (if intctx s then True else False)"
definition sns_loc :: "kernel \<Rightarrow> bool" where "sns_loc s = (if cpu_lock s then True else False)"
definition sns_dsp :: "kernel \<Rightarrow> bool" where "sns_dsp s = disdsp s"
definition sns_dpn :: "kernel \<Rightarrow> bool" where
  "sns_dpn s = (if intctx s \<or> cpu_lock s \<or> \<not> dspflg s then True else False)"
definition sns_ker :: "bool \<Rightarrow> bool" where "sns_ker kerflg = (if kerflg then False else True)"

definition get_tim :: "kernel \<Rightarrow> (result \<times> EVTTIM option) \<times> kernel" where
  "get_tim s =
    (if \<not> CHECK_TSKCTX_UNL s then ((Ret E_CTX, None), s)
     else tsk_call (\<lambda>s. ((Ret E_OK, Some (current_time (tme s))), s)) s)"

text \<open>
  The time for performance measurements, in microseconds. The counter of the target, read before and after
  the probe for a pending timer interrupt, and its conversion are parameters; \<open>TIC_DENO\<close> is 1.
\<close>

definition get_utm :: "('clock :: linorder \<Rightarrow> 32 word) \<Rightarrow> 'clock \<Rightarrow> bool \<Rightarrow> 'clock \<Rightarrow> kernel \<Rightarrow> (result \<times> 32 word) \<times> kernel" where
  "get_utm TO_USEC clock1 ireq clock2 s =
    (let time = next_time (tme s);
         utime = time * 1000;
         utime = (if \<not> ireq \<or> clock1 > clock2 then utime - TIC_NUME * 1000 else utime);
         utime = utime + TO_USEC clock1
     in ((Ret E_OK, utime), s))"

section \<open>Rotation of a ready queue\<close>

lemma rotate_sel:
  "tcb (snd (rotate_ready_queue pri s)) = tcb s" "tme (snd (rotate_ready_queue pri s)) = tme s"
  "objects (snd (rotate_ready_queue pri s)) = objects s" "p_runtsk (snd (rotate_ready_queue pri s)) = p_runtsk s"
  "reqflg (snd (rotate_ready_queue pri s)) = reqflg s" "ready_primap (snd (rotate_ready_queue pri s)) = ready_primap s"
  by (simp_all add: rotate_ready_queue_def Let_def split: prod.split)

lemma rotate_op_ok:
  assumes "winv s"
  shows "op_ok s (rotate_ready_queue pri s)"
proof -
  let ?s = "snd (rotate_ready_queue pri s)"
  note t = conjunct1[OF assms[unfolded winv_def]]
  have w: "wobjatr ?s = wobjatr s" by (rule wobjatr_objects) (rule rotate_sel(3))
  have q: "set (queues ?s h) = set (queues s h)" "queues ?s (WaitQ v) = queues s (WaitQ v)" for h v
    by (simp_all add: rotate_ready_queue_queues)
  have "tsk_inv ?s"
    using t rotate_ready_queue_ready_ok(1)[OF tsk_invD(1)[OF t], of pri]
    unfolding tsk_inv_def rotate_sel(1,2) w q by simp
  then show ?thesis
    using assms rotate_ready_queue_ready_ok(2)[OF tsk_invD(1)[OF t], of pri] objectsD(4)[OF rotate_sel(3)[of pri s]]
    by (simp add: op_ok_def winv_def rotate_sel)
qed

lemma rot_kinv:
  assumes "kinv s"
  shows "kinv (snd (rot_rdq tpri s))" and "kinv (snd (irot_rdq tpri s))"
proof -
  have "kinv (dispatch_if (rotate_ready_queue pri s))" "kinv (reqflg_if (rotate_ready_queue pri s))" if "kinv s" for pri s
    using op_ok_dispatch_if[OF that] op_ok_reqflg_if[OF that] rotate_op_ok[OF kinvD(2)[OF that]] by blast+
  then show "kinv (snd (rot_rdq tpri s))" "kinv (snd (irot_rdq tpri s))"
    using assms by (auto simp: rot_rdq_def irot_rdq_def Let_def intro!: kinv_tsk_call kinv_int_call)
qed

lemma kinv_flags:
  assumes "kinv s"
  shows "kinv (s\<lparr>disdsp := d, dspflg := False\<rparr>)"
    and "p_runtsk s = p_schedtsk s \<Longrightarrow> kinv (s\<lparr>disdsp := d, dspflg := True\<rparr>)"
    and "kinv (dispatch (s\<lparr>disdsp := d, dspflg := True\<rparr>))" and "kinv (s\<lparr>disdsp := d\<rparr>)"
proof -
  have t: "tsk_inv (s\<lparr>disdsp := d, dspflg := f\<rparr>)" "winv (s\<lparr>disdsp := d, dspflg := f\<rparr>)" for f
  proof -
    have w: "wobjatr (s\<lparr>disdsp := d, dspflg := f\<rparr>) = wobjatr s" by (simp add: wobjatr_def fun_eq_iff split: wobj.split)
    show "tsk_inv (s\<lparr>disdsp := d, dspflg := f\<rparr>)"
      by (rule tsk_inv_cong[OF _ _ _ _ _ _ kinvD(1)[OF assms]]) (simp_all add: w)
    then show "winv (s\<lparr>disdsp := d, dspflg := f\<rparr>)" using kinvD(2)[OF assms] by (simp add: winv_def)
  qed
  show "kinv (s\<lparr>disdsp := d, dspflg := False\<rparr>)" using t(2)[of False] by (simp add: kinv_def)
  show "kinv (s\<lparr>disdsp := d, dspflg := True\<rparr>)" if "p_runtsk s = p_schedtsk s" using t(2)[of True] that by (simp add: kinv_def)
  show "kinv (dispatch (s\<lparr>disdsp := d, dspflg := True\<rparr>))" by (rule kinv_dispatch[OF t(1)])
  show "kinv (s\<lparr>disdsp := d\<rparr>)" using t(2)[of "dspflg s"] assms by (simp add: kinv_def)
qed

text \<open>A call of this module: the kernel invariant, and nothing but the ready queues and the flags.\<close>

definition flags_step :: "kernel \<Rightarrow> kernel \<Rightarrow> bool" where
  "flags_step s s' \<longleftrightarrow> kinv s' \<and> tcb s' = tcb s \<and> tme s' = tme s \<and> pools s' = pools s \<and> mtxqs s' = mtxqs s \<and>
    mtxcb s' = mtxcb s \<and> free_mtxcb s' = free_mtxcb s \<and> (\<forall>h. is_waitq h \<longrightarrow> queues s' h = queues s h)"

lemma flags_step_refl: "kinv s \<Longrightarrow> flags_step s s"
  by (simp add: flags_step_def)

lemma flags_step_call:
  "flags_step s (snd (body (t_lock_cpu s))) \<Longrightarrow> flags_step s (snd (tsk_call body s))"
  "flags_step s (snd (body' (i_lock_cpu s))) \<Longrightarrow> flags_step s (snd (int_call body' s))"
  by (simp_all add: flags_step_def tsk_call_def int_call_def case_prod_beta lock_sel lock_objects)

lemma flags_step_lock [simp]:
  "flags_step (t_lock_cpu s) s' = flags_step s s'" "flags_step (i_lock_cpu s) s' = flags_step s s'"
  "flags_step s (t_lock_cpu s') = flags_step s s'" "flags_step s (t_unlock_cpu s') = flags_step s s'"
  "flags_step s (i_lock_cpu s') = flags_step s s'" "flags_step s (i_unlock_cpu s') = flags_step s s'"
  by (simp_all add: flags_step_def lock_sel lock_objects)

lemma rotate_step:
  assumes "kinv s"
  shows "flags_step s (dispatch_if (rotate_ready_queue pri s))" and "flags_step s (reqflg_if (rotate_ready_queue pri s))"
proof -
  note o = op_ok_dispatch_if[OF assms rotate_op_ok[OF kinvD(2)[OF assms]], of pri]
    op_ok_reqflg_if[OF assms rotate_op_ok[OF kinvD(2)[OF assms]], of pri]
  note ob = objectsD[OF rotate_sel(3)[of pri s]]
  have p: "pools (dispatch_if (rotate_ready_queue pri s)) = pools s" "pools (reqflg_if (rotate_ready_queue pri s)) = pools s"
    by (rule pools_objects; simp add: rotate_sel dispatch_if_def reqflg_if_def dispatch_def)+
  have q: "is_waitq h \<Longrightarrow> queues (snd (rotate_ready_queue pri s)) h = queues s h" for h
    by (auto simp: rotate_ready_queue_queues is_waitq_def)
  show "flags_step s (dispatch_if (rotate_ready_queue pri s))"
    using o(1) p(1) ob q by (simp add: flags_step_def dispatch_if_def dispatch_def rotate_sel)
  show "flags_step s (reqflg_if (rotate_ready_queue pri s))"
    using o(2) p(2) ob q by (simp add: flags_step_def reqflg_if_def rotate_sel)
qed

lemma flag_steps:
  assumes "kinv s"
  shows "flags_step s (s\<lparr>disdsp := True, dspflg := False\<rparr>)"
    and "flags_step s (let s = s\<lparr>disdsp := False\<rparr> in if ipmflg s
      then (let s = s\<lparr>dspflg := True\<rparr> in if p_runtsk s \<noteq> p_schedtsk s then dispatch s else s) else s)"
  using kinv_flags[OF assms, of True] kinv_flags[OF assms, of False]
  by (auto simp: flags_step_def Let_def dispatch_def)

lemma sys_manage_steps:
  assumes "kinv s"
  shows "flags_step s (snd (rot_rdq tpri s))" and "flags_step s (snd (irot_rdq tpri s))" and "flags_step s (snd (get_tid s))"
    and "flags_step s (snd (iget_tid s))" and "flags_step s (snd (loc_cpu s))" and "flags_step s (snd (iloc_cpu s))"
    and "flags_step s (snd (unl_cpu s))" and "flags_step s (snd (iunl_cpu s))" and "flags_step s (snd (dis_dsp s))"
    and "flags_step s (snd (ena_dsp s))" and "flags_step s (snd (get_tim s))"
proof -
  have k: "kinv (t_lock_cpu s)" "kinv (i_lock_cpu s)" using assms by simp_all
  note r = flags_step_refl[OF assms]
  show "flags_step s (snd (rot_rdq tpri s))" "flags_step s (snd (irot_rdq tpri s))"
    using rotate_step(1)[OF k(1)] rotate_step(2)[OF k(2)] r
    by (auto simp: rot_rdq_def irot_rdq_def Let_def intro!: flags_step_call)
  show "flags_step s (snd (get_tid s))" "flags_step s (snd (iget_tid s))" "flags_step s (snd (get_tim s))"
    using r by (auto simp: get_tid_def iget_tid_def get_tim_def intro!: flags_step_call)
  show "flags_step s (snd (loc_cpu s))" "flags_step s (snd (iloc_cpu s))" "flags_step s (snd (unl_cpu s))" "flags_step s (snd (iunl_cpu s))"
    using r by (auto simp: loc_cpu_def iloc_cpu_def unl_cpu_def iunl_cpu_def)
  show "flags_step s (snd (dis_dsp s))" "flags_step s (snd (ena_dsp s))"
    using flag_steps[OF k(1)] r unfolding dis_dsp_def ena_dsp_def Let_def
    by (auto intro!: flags_step_call simp del: if_split)
qed

section \<open>Properties\<close>

text \<open>
  \<open>rot_rdq\<close> moves the first task of the ready queue of the priority, with \<open>TPRI_SELF\<close> that of
  the base priority of the caller, to the end of that queue, changes no other queue and no task, and
  leaves the processor to the first task of the highest priority that has one. No ready task is lost.
\<close>

lemma rot_rdq_rotates:
  assumes "kinv s" and "p_runtsk s = Some p" and "CHECK_DISPATCH s" and "\<not> reqflg s" and "CHECK_TPRI_SELF tpri"
    and "pri = (if tpri = TPRI_SELF then bpriority (tcb s p) else INT_PRIORITY tpri)" and "s' = snd (rot_rdq tpri s)"
  shows "fst (rot_rdq tpri s) = Ret E_OK \<and> queues s' = (queues s)(ReadyQ pri := rotate1 (queues s (ReadyQ pri))) \<and>
    tcb s' = tcb s \<and> tme s' = tme s \<and> p_runtsk s' = top_ready (queues s') \<and> kinv s'"
proof -
  let ?r = "rotate_ready_queue pri (t_lock_cpu s)"
  have u: "CHECK_TSKCTX_UNL s" using assms(3) by (simp add: CHECK_DISPATCH_def CHECK_TSKCTX_UNL_def)
  have k: "kinv s'" using rot_kinv(1)[OF assms(1)] by (simp add: assms(7))
  have e: "rot_rdq tpri s = (Ret E_OK, t_unlock_cpu (dispatch_if ?r))"
    using u assms(2,5,6) by (auto simp: rot_rdq_def tsk_call_def lock_sel)
  have f: "dspflg s'" "\<not> reqflg s'"
    using assms(3,4) objectsD(4)[OF rotate_sel(3)[of pri "t_lock_cpu s"]]
    by (simp_all add: assms(7) e dispatch_if_def dispatch_def rotate_sel lock_objects t_unlock_cpu_def t_lock_cpu_def CHECK_DISPATCH_def)
  have "p_runtsk s' = p_schedtsk s'" using k f by (simp add: kinv_def)
  moreover have "p_schedtsk s' = top_ready (queues s')"
    using ready_okD(4)[OF tsk_invD(1)[OF kinvD(1)[OF k]]] .
  moreover have "queues s' = (queues s)(ReadyQ pri := rotate1 (queues s (ReadyQ pri)))" "tcb s' = tcb s" "tme s' = tme s"
    by (simp_all add: assms(7) e dispatch_if_def dispatch_def rotate_sel rotate_ready_queue_queues lock_sel)
  ultimately show ?thesis using k by (simp add: e)
qed

lemma rot_rdq_rotates_witness:
  "queues (snd (rot_rdq 5 run_kernel)) (ReadyQ 4) = [1, 0] \<and> p_runtsk (snd (rot_rdq 5 run_kernel)) = top_ready ((\<lambda>_. [])(ReadyQ 4 := [1, 0]))"
proof -
  have v: "CHECK_DISPATCH run_kernel" "CHECK_TPRI_SELF 5" "4 = (if (5::int) = TPRI_SELF then bpriority (tcb run_kernel 0) else INT_PRIORITY 5)"
    by (simp_all add: CHECK_DISPATCH_def CHECK_TPRI_SELF_def VALID_TPRI_def run_kernel_sel INT_PRIORITY_def)
  show ?thesis
    using rot_rdq_rotates[OF kinv_run_kernel run_kernel_sel(3) v(1) run_kernel_sel(8) v(2,3) refl] by (simp add: run_kernel_sel)
qed

text \<open>
  no call that locks or unlocks the CPU, disables or enables dispatching, rotates a ready queue or
  reads the system state breaks the kernel invariant; they touch no task, no time event and no object.
\<close>

lemma sys_manage_calls_keep_inv:
  assumes "kinv s"
    and "s' \<in> {snd (rot_rdq tpri s), snd (irot_rdq tpri s), snd (get_tid s), snd (iget_tid s), snd (loc_cpu s), snd (iloc_cpu s),
      snd (unl_cpu s), snd (iunl_cpu s), snd (dis_dsp s), snd (ena_dsp s), snd (get_tim s)}"
  shows "kinv s' \<and> tcb s' = tcb s \<and> tme s' = tme s \<and> pools s' = pools s \<and> mtxcb s' = mtxcb s \<and>
    (\<forall>h. is_waitq h \<longrightarrow> queues s' h = queues s h)"
  using assms(2) sys_manage_steps[OF assms(1)] unfolding flags_step_def by auto

lemma sys_manage_calls_keep_inv_witness:
  "kinv (snd (dis_dsp run_kernel)) \<and> pools (snd (dis_dsp run_kernel)) = pools run_kernel"
  using sys_manage_calls_keep_inv[OF kinv_run_kernel, of "snd (dis_dsp run_kernel)" 0] by simp

end
