(* ===== verification/Asp_Task_Refer.thy ===== *)
theory Asp_Task_Refer
  imports Asp_Sys_Manage
begin

text \<open>
  Reference of the state of a task, \<^verbatim>\<open>kernel/task_refer.c\<close>. The fields of \<open>T_RTSK\<close> that the call
  leaves unwritten in some states are optional.
\<close>

section \<open>The call\<close>

abbreviation (input) TTS_RUN :: STAT where "TTS_RUN \<equiv> 0x01"
abbreviation (input) TTS_RDY :: STAT where "TTS_RDY \<equiv> 0x02"
abbreviation (input) TTS_WAI :: STAT where "TTS_WAI \<equiv> 0x04"
abbreviation (input) TTS_SUS :: STAT where "TTS_SUS \<equiv> 0x08"
abbreviation (input) TTS_WAS :: STAT where "TTS_WAS \<equiv> 0x0c"
abbreviation (input) TTS_DMT :: STAT where "TTS_DMT \<equiv> 0x10"

abbreviation (input) TTW_SLP :: STAT where "TTW_SLP \<equiv> 0x0001"
abbreviation (input) TTW_DLY :: STAT where "TTW_DLY \<equiv> 0x0002"
abbreviation (input) TTW_SEM :: STAT where "TTW_SEM \<equiv> 0x0004"
abbreviation (input) TTW_FLG :: STAT where "TTW_FLG \<equiv> 0x0008"
abbreviation (input) TTW_SDTQ :: STAT where "TTW_SDTQ \<equiv> 0x0010"
abbreviation (input) TTW_RDTQ :: STAT where "TTW_RDTQ \<equiv> 0x0020"
abbreviation (input) TTW_SPDQ :: STAT where "TTW_SPDQ \<equiv> 0x0100"
abbreviation (input) TTW_RPDQ :: STAT where "TTW_RPDQ \<equiv> 0x0200"
abbreviation (input) TTW_MBX :: STAT where "TTW_MBX \<equiv> 0x0040"
abbreviation (input) TTW_MTX :: STAT where "TTW_MTX \<equiv> 0x0080"
abbreviation (input) TTW_MPF :: STAT where "TTW_MPF \<equiv> 0x2000"

record T_RTSK =
  rtsk_tskstat :: STAT
  rtsk_tskpri :: "PRI option"
  rtsk_tskbpri :: "PRI option"
  rtsk_tskwait :: "STAT option"
  rtsk_wobjid :: "ID option"
  rtsk_lefttmo :: "TMO option"
  rtsk_actcnt :: nat
  rtsk_wupcnt :: "nat option"

text \<open>The ID macros \<open>SEMID\<close> to \<open>MTXID\<close> of the control block a waiting task points to.\<close>

definition wobj_id :: "wobj \<Rightarrow> ID" where
  "wobj_id w = (case w of SEM i \<Rightarrow> int i + 1 | FLG i \<Rightarrow> int i + 1 | DTQ i \<Rightarrow> int i + 1 | PDQ i \<Rightarrow> int i + 1
    | MBX i \<Rightarrow> int i + 1 | MPF i \<Rightarrow> int i + 1 | MTX i \<Rightarrow> int i + 1)"

text \<open>The \<open>switch\<close>: the wait cause, and for an object the field \<open>wobjid\<close>.\<close>

definition ref_tskwait :: "TCB \<Rightarrow> STAT option \<times> ID option" where
  "ref_tskwait t =
    (let c = tstat t AND TS_WAIT_MASK; wobjid = Some (wobj_id (p_wobjcb (p_winfo t)))
     in if c = TS_WAIT_SLP then (Some TTW_SLP, None)
        else if c = TS_WAIT_DLY then (Some TTW_DLY, None)
        else if c = TS_WAIT_SEM then (Some TTW_SEM, wobjid)
        else if c = TS_WAIT_FLG then (Some TTW_FLG, wobjid)
        else if c = TS_WAIT_SDTQ then (Some TTW_SDTQ, wobjid)
        else if c = TS_WAIT_RDTQ then (Some TTW_RDTQ, wobjid)
        else if c = TS_WAIT_SPDQ then (Some TTW_SPDQ, wobjid)
        else if c = TS_WAIT_RPDQ then (Some TTW_RPDQ, wobjid)
        else if c = TS_WAIT_MBX then (Some TTW_MBX, wobjid)
        else if c = TS_WAIT_MTX then (Some TTW_MTX, wobjid)
        else if c = TS_WAIT_MPF then (Some TTW_MPF, wobjid)
        else (None, None))"

definition ref_tsk_body :: "tsk \<Rightarrow> kernel \<Rightarrow> T_RTSK" where
  "ref_tsk_body p s =
    (let t = tcb s p;
         rt = (if TSTAT_DORMANT (tstat t)
           then \<lparr>rtsk_tskstat = TTS_DMT, rtsk_tskpri = None, rtsk_tskbpri = None, rtsk_tskwait = None,
             rtsk_wobjid = None, rtsk_lefttmo = None, rtsk_actcnt = 0, rtsk_wupcnt = None\<rparr>
           else \<lparr>rtsk_tskstat =
               (if TSTAT_SUSPENDED (tstat t) then (if TSTAT_WAITING (tstat t) then TTS_WAS else TTS_SUS)
                else if TSTAT_WAITING (tstat t) then TTS_WAI
                else if Some p = p_runtsk s then TTS_RUN else TTS_RDY),
             rtsk_tskpri = Some (EXT_TSKPRI (priority t)), rtsk_tskbpri = Some (EXT_TSKPRI (bpriority t)),
             rtsk_tskwait = (if TSTAT_WAITING (tstat t) then fst (ref_tskwait t) else None),
             rtsk_wobjid = (if TSTAT_WAITING (tstat t) then snd (ref_tskwait t) else None),
             rtsk_lefttmo = (if TSTAT_WAITING (tstat t)
               then (case winfo (p_winfo t) of P_tmevtb (Some b) \<Rightarrow> Some (sint (tmevt_lefttim b (tme s))) | _ \<Rightarrow> Some TMO_FEVR)
               else None),
             rtsk_actcnt = 0, rtsk_wupcnt = Some (if wupque t then 1 else 0)\<rparr>)
     in rt\<lparr>rtsk_actcnt := if actque t then 1 else 0\<rparr>)"

definition ref_tsk :: "kernel_cfg \<Rightarrow> ID \<Rightarrow> kernel \<Rightarrow> (result \<times> T_RTSK option) \<times> kernel" where
  "ref_tsk cfg tskid s =
    (if \<not> CHECK_TSKCTX_UNL s then ((Ret E_CTX, None), s)
     else if \<not> CHECK_TSKID_SELF cfg tskid then ((Ret E_ID, None), s)
     else let p = get_tcb_self tskid s in tsk_call (\<lambda>s.
       if tskatr (p_tinib (tcb s p)) = TA_NOEXS then ((Ret E_NOEXS, None), s)
       else ((Ret E_OK, Some (ref_tsk_body p s)), s)) s)"

section \<open>What the call reports\<close>

fun wait_cause :: "qhead \<Rightarrow> STAT" where
  "wait_cause (RWaitQ (DTQ _)) = TTW_RDTQ"
| "wait_cause (RWaitQ (PDQ _)) = TTW_RPDQ"
| "wait_cause (WaitQ (SEM _)) = TTW_SEM"
| "wait_cause (WaitQ (FLG _)) = TTW_FLG"
| "wait_cause (WaitQ (DTQ _)) = TTW_SDTQ"
| "wait_cause (WaitQ (PDQ _)) = TTW_SPDQ"
| "wait_cause (WaitQ (MBX _)) = TTW_MBX"
| "wait_cause (WaitQ (MPF _)) = TTW_MPF"
| "wait_cause (WaitQ (MTX _)) = TTW_MTX"
| "wait_cause _ = TTW_DLY"

fun wait_object :: "qhead \<Rightarrow> wobj option" where
  "wait_object (WaitQ w) = Some w"
| "wait_object (RWaitQ w) = Some w"
| "wait_object _ = None"

lemma waiting_place:
  assumes "tcb_ok p t" and "TSTAT_WAITING (tstat t)"
  shows "(\<exists>h w. is_waitq h \<and> wait_object h = Some w \<and> task_place t = Some h \<and> ref_tskwait t = (Some (wait_cause h), Some (wobj_id w))) \<or>
    (task_place t = None \<and> ref_tskwait t \<in> {(Some TTW_SLP, None), (Some TTW_DLY, None)})"
proof (cases "TSTAT_WAIT_WOBJ (tstat t)")
  case False
  have c: "tstat t AND TS_WAIT_MASK \<in> {TS_WAIT_DLY, TS_WAIT_SLP}"
    using assms False by (auto simp: tcb_ok_def tstat_ok_def TSTAT_defs)
  have "tskatr (p_tinib t) \<noteq> TA_NOEXS" "\<not> TSTAT_RUNNABLE (tstat t)"
    using assms tstat_ok_excl(2) by (auto simp: tcb_ok_def TSTAT_defs split: if_splits)
  then have "task_place t = None" using False by (simp add: task_place_def)
  then show ?thesis using c by (auto simp: ref_tskwait_def Let_def)
next
  case True
  let ?w = "p_wobjcb (p_winfo t)" and ?c = "tstat t AND TS_WAIT_MASK"
  have ex: "tskatr (p_tinib t) \<noteq> TA_NOEXS" "\<not> TSTAT_RUNNABLE (tstat t)"
    using assms tstat_ok_excl(2) by (auto simp: tcb_ok_def TSTAT_defs split: if_splits)
  define h where "h = (if ?c \<in> {TS_WAIT_RDTQ, TS_WAIT_RPDQ} then RWaitQ ?w else WaitQ ?w)"
  have pl: "task_place t = Some h" using ex assms(2) True by (simp add: task_place_def h_def)
  have wc: "wait_code h = ?c" using assms True pl by (simp add: tcb_ok_def)
  have "ref_tskwait t = (Some (wait_cause h), Some (wobj_id ?w))"
    using wc by (cases ?w) (auto simp: h_def ref_tskwait_def Let_def split: if_splits)
  moreover have "is_waitq h" "wait_object h = Some ?w" by (simp_all add: h_def is_waitq_def)
  ultimately show ?thesis using pl by blast
qed

section \<open>Properties\<close>

text \<open>
  C38: \<open>ref_tsk\<close> tells where a task is. It reports a task as running or ready exactly when the task is in
  the ready queue of its priority, and as running exactly when it is the running task; a task in the
  wait queue of an object is reported with the wait cause of that queue and the ID of the object, and
  no other task with an object; a timeout is reported exactly for a waiting task with a time event.
\<close>

theorem ref_tsk_tells_queue:
  assumes "kinv s" and "CHECK_TSKCTX_UNL s" and "CHECK_TSKID_SELF cfg tskid" and "p = get_tcb_self tskid s"
    and "tskatr (p_tinib (tcb s p)) \<noteq> TA_NOEXS"
  shows "\<exists>rt. ref_tsk cfg tskid s = ((Ret E_OK, Some rt), t_unlock_cpu (t_lock_cpu s)) \<and>
    (rtsk_tskstat rt \<in> {TTS_RUN, TTS_RDY} \<longleftrightarrow> p \<in> set (queues s (ReadyQ (tskpri s p)))) \<and>
    (rtsk_tskstat rt = TTS_RUN \<longleftrightarrow> p_runtsk s = Some p) \<and>
    (\<forall>h w. is_waitq h \<and> wait_object h = Some w \<and> p \<in> set (queues s h) \<longrightarrow>
      rtsk_tskwait rt = Some (wait_cause h) \<and> rtsk_wobjid rt = Some (wobj_id w)) \<and>
    (rtsk_wobjid rt \<noteq> None \<longrightarrow> (\<exists>h. is_waitq h \<and> p \<in> set (queues s h))) \<and>
    (evts (tme s) (TskTmevtb p) \<noteq> None \<longrightarrow> rtsk_lefttmo rt = Some (sint (tmevt_lefttim (TskTmevtb p) (tme s)))) \<and>
    (evts (tme s) (TskTmevtb p) = None \<longrightarrow> rtsk_lefttmo rt \<in> {None, Some TMO_FEVR})"
proof -
  let ?t = "tcb s p" and ?rt = "ref_tsk_body p s"
  note t = kinvD(1)[OF assms(1)]
  have ok: "tcb_ok p ?t" "tstat_ok (tstat ?t)" using tsk_invD(3)[OF t, of p] by (simp_all add: tcb_ok_def)
  have b: "ref_tsk_body p (t_lock_cpu s) = ?rt" by (simp only: ref_tsk_body_def lock_sel lock_runtsk)
  have e: "ref_tsk cfg tskid s = ((Ret E_OK, Some ?rt), t_unlock_cpu (t_lock_cpu s))"
    using assms(2-5) b by (simp add: ref_tsk_def tsk_call_def lock_sel)
  have in_q: "p \<in> set (queues s h) \<longleftrightarrow> task_place ?t = Some h" for h using tsk_invD(5)[OF t] .
  have rd: "p \<in> set (queues s (ReadyQ (tskpri s p))) \<longleftrightarrow> TSTAT_RUNNABLE (tstat ?t)"
    using assms(5) by (auto simp: in_q task_place_def)
  have st: "rtsk_tskstat ?rt \<in> {TTS_RUN, TTS_RDY} \<longleftrightarrow> TSTAT_RUNNABLE (tstat ?t)"
    using tstat_ok_excl[OF ok(2)] by (auto simp: ref_tsk_body_def Let_def TSTAT_DORMANT_def)
  have run: "rtsk_tskstat ?rt = TTS_RUN \<longleftrightarrow> p_runtsk s = Some p"
    using kinvD(3)[OF assms(1), of p] tstat_ok_excl[OF ok(2)] by (auto simp: ref_tsk_body_def Let_def TSTAT_DORMANT_def)
  have wq: "TSTAT_WAITING (tstat ?t)" if "is_waitq h" "p \<in> set (queues s h)" for h
    using that assms(5) by (auto simp: in_q task_place_def is_waitq_def split: if_splits)
  have nd: "\<not> TSTAT_DORMANT (tstat ?t)" if "TSTAT_WAITING (tstat ?t)"
    using that by (auto simp: TSTAT_defs)
  have w1: "rtsk_tskwait ?rt = Some (wait_cause h) \<and> rtsk_wobjid ?rt = Some (wobj_id w)"
    if h: "is_waitq h" "wait_object h = Some w" "p \<in> set (queues s h)" for h w
    using waiting_place[OF ok(1) wq[OF h(1,3)]] wq[OF h(1,3)] nd h(2,3) by (auto simp: ref_tsk_body_def Let_def in_q)
  have w2: "\<exists>h. is_waitq h \<and> p \<in> set (queues s h)" if "rtsk_wobjid ?rt \<noteq> None"
    using that waiting_place[OF ok(1)] by (auto simp: ref_tsk_body_def Let_def in_q split: if_splits)
  have td: "evts (tme s) (TskTmevtb p) \<noteq> None \<longleftrightarrow> timed p ?t" using tsk_invD(4)[OF t, of p] by (simp add: tmout_ok_def)
  have wi: "winfo (p_winfo ?t) \<in> {P_tmevtb None, P_tmevtb (Some (TskTmevtb p))}" if "TSTAT_WAITING (tstat ?t)"
    using ok(1) that by (simp add: tcb_ok_def)
  have l1: "rtsk_lefttmo ?rt = Some (sint (tmevt_lefttim (TskTmevtb p) (tme s)))" if "timed p ?t"
    using that nd by (auto simp: timed_def ref_tsk_body_def Let_def)
  have l2: "rtsk_lefttmo ?rt \<in> {None, Some TMO_FEVR}" if "\<not> timed p ?t"
    using that wi by (auto simp: timed_def ref_tsk_body_def Let_def)
  show ?thesis
    using e st rd run w1 w2 td l1 l2 by (intro exI[of _ ?rt] conjI) blast+
qed

theorem ref_tsk_tells_queue_witness:
  "\<exists>rt. fst (ref_tsk sample_cfg 1 run_kernel) = (Ret E_OK, Some rt) \<and> rtsk_tskstat rt = TTS_RUN"
proof -
  have v: "CHECK_TSKCTX_UNL run_kernel" "CHECK_TSKID_SELF sample_cfg 1" "0 = get_tcb_self 1 run_kernel"
    "tskatr (p_tinib (tcb run_kernel 0)) \<noteq> TA_NOEXS"
    by (simp_all add: CHECK_TSKCTX_UNL_def run_kernel_sel CHECK_TSKID_SELF_def VALID_TSKID_def sample_cfg_def get_tcb_self_def INDEX_TSK_def
        sample_tcb_def sample_tinib_def)
  show ?thesis
    using ref_tsk_tells_queue[OF kinv_run_kernel v] run_kernel_sel(3) by auto
qed

end
