(* ===== verification/Asp_Task_Except.thy ===== *)
theory Asp_Task_Except
  imports Asp_Sys_Manage
begin

text \<open>
  Task exception handling, \<^verbatim>\<open>kernel/task_except.c\<close> and \<open>call_texrtn\<close>, \<open>calltex\<close> of
  \<^verbatim>\<open>kernel/task.c\<close>, and \<open>chg_ipm\<close>, \<open>get_ipm\<close> of \<^verbatim>\<open>kernel/interrupt.c\<close>. Two parameters stand for
  code the kernel calls: \<open>rtn\<close>, what the task exception routine at an address does to the state, and
  \<open>others\<close>, what happens from a dispatch inside the loop of \<open>call_texrtn\<close> until the task runs again.
  The loop runs as long as requests arrive, so the calls that start it return an option.
\<close>

type_synonym texrtn_env = "(nat \<Rightarrow> TEXPTN \<Rightarrow> intptr_t \<Rightarrow> kernel \<Rightarrow> kernel) \<times> (tsk \<Rightarrow> kernel \<Rightarrow> kernel)"

section \<open>Operations\<close>

definition texrtn_round :: "texrtn_env \<Rightarrow> bool \<Rightarrow> kernel \<Rightarrow> kernel" where
  "texrtn_round env saved_disdsp s =
    (let ptn = texptn (tcb s (runtsk s));
         s = upd_tcb (runtsk s) (\<lambda>t. t\<lparr>texptn := 0\<rparr>) s;
         s = t_unlock_cpu s;
         s = fst env (the (texrtn (p_tinib (tcb s (runtsk s))))) ptn (exinf (p_tinib (tcb s (runtsk s)))) s;
         s = (if \<not> cpu_lock s then t_lock_cpu s else s);
         s = (if \<not> ipmflg s then s\<lparr>intpri := TIPM_ENAALL, ipmflg := True\<rparr> else s);
         s = s\<lparr>disdsp := saved_disdsp\<rparr>;
         s = s\<lparr>dspflg := \<not> disdsp s\<rparr>;
         s = upd_tcb (runtsk s) (\<lambda>t. t\<lparr>enatex := False\<rparr>) s
     in if p_runtsk s \<noteq> p_schedtsk s \<and> dspflg s then snd env (runtsk s) (dispatch s) else s)"

partial_function (option) texrtn_loop :: "texrtn_env \<Rightarrow> bool \<Rightarrow> kernel \<Rightarrow> kernel option" where
  "texrtn_loop env saved_disdsp s =
    (let s = texrtn_round env saved_disdsp s
     in if texptn (tcb s (runtsk s)) \<noteq> 0 then texrtn_loop env saved_disdsp s else Some s)"

definition call_texrtn :: "texrtn_env \<Rightarrow> kernel \<Rightarrow> kernel option" where
  "call_texrtn env s =
    (let saved_disdsp = disdsp s;
         s = upd_tcb (runtsk s) (\<lambda>t. t\<lparr>enatex := False\<rparr>) s
     in map_option (\<lambda>s. upd_tcb (runtsk s) (\<lambda>t. t\<lparr>enatex := True\<rparr>) s) (texrtn_loop env saved_disdsp s))"

definition calltex :: "texrtn_env \<Rightarrow> kernel \<Rightarrow> kernel option" where
  "calltex env s =
    (if enatex (tcb s (runtsk s)) \<and> texptn (tcb s (runtsk s)) \<noteq> 0 \<and> ipmflg s then call_texrtn env s else Some s)"

record T_DTEX =
  dtex_texatr :: ATR
  dtex_texrtn :: "nat option"

definition def_tex :: "kernel_cfg \<Rightarrow> ID \<Rightarrow> T_DTEX \<Rightarrow> kernel \<Rightarrow> result \<times> kernel" where
  "def_tex cfg tskid pk_dtex s =
    (if \<not> CHECK_TSKCTX_UNL s then (Ret E_CTX, s)
     else if \<not> CHECK_TSKID_SELF cfg tskid then (Ret E_ID, s)
     else if \<not> CHECK_RSATR (dtex_texatr pk_dtex) TA_NULL then (Ret E_RSATR, s)
     else if dtex_texrtn pk_dtex \<noteq> None \<and> \<not> FUNC_ALIGNED (the (dtex_texrtn pk_dtex)) then (Ret E_PAR, s)
     else if dtex_texrtn pk_dtex \<noteq> None \<and> \<not> FUNC_NONNULL (the (dtex_texrtn pk_dtex)) then (Ret E_PAR, s)
     else let p = get_tcb_self tskid s in tsk_call (\<lambda>s.
       if tskatr (p_tinib (tcb s p)) = TA_NOEXS then (Ret E_NOEXS, s)
       else if TSKID p > tmax_stskid cfg
       then (if dtex_texrtn pk_dtex \<noteq> None
             then (if texrtn (p_tinib (tcb s p)) \<noteq> None then (Ret E_OBJ, s)
                   else (let s = upd_tcb p (\<lambda>t. t\<lparr>p_tinib := (p_tinib t)\<lparr>texatr := dtex_texatr pk_dtex\<rparr>\<rparr>) s;
                             s = upd_tcb p (\<lambda>t. t\<lparr>p_tinib := (p_tinib t)\<lparr>texrtn := dtex_texrtn pk_dtex\<rparr>\<rparr>) s
                         in (Ret E_OK, s)))
             else (if texrtn (p_tinib (tcb s p)) \<noteq> None
                   then (let s = upd_tcb p (\<lambda>t. t\<lparr>p_tinib := (p_tinib t)\<lparr>texrtn := None\<rparr>\<rparr>) s;
                             s = upd_tcb p (\<lambda>t. t\<lparr>enatex := False\<rparr>) s;
                             s = upd_tcb p (\<lambda>t. t\<lparr>texptn := 0\<rparr>) s
                         in (Ret E_OK, s))
                   else (Ret E_OBJ, s)))
       else (Ret E_OBJ, s)) s)"

text \<open>The body of a call that may start the routine, with the CPU lock around it.\<close>

definition tsk_call_opt :: "(kernel \<Rightarrow> ('r \<times> kernel) option) \<Rightarrow> kernel \<Rightarrow> ('r \<times> kernel) option" where
  "tsk_call_opt body s = map_option (\<lambda>(r, s). (r, t_unlock_cpu s)) (body (t_lock_cpu s))"

definition ras_tex :: "texrtn_env \<Rightarrow> kernel_cfg \<Rightarrow> ID \<Rightarrow> TEXPTN \<Rightarrow> kernel \<Rightarrow> (result \<times> kernel) option" where
  "ras_tex env cfg tskid rasptn s =
    (if \<not> CHECK_TSKCTX_UNL s then Some (Ret E_CTX, s)
     else if \<not> CHECK_TSKID_SELF cfg tskid then Some (Ret E_ID, s)
     else if \<not> rasptn \<noteq> 0 then Some (Ret E_PAR, s)
     else let p = get_tcb_self tskid s in tsk_call_opt (\<lambda>s.
       if tskatr (p_tinib (tcb s p)) = TA_NOEXS then Some (Ret E_NOEXS, s)
       else if TSTAT_DORMANT (tstat (tcb s p)) \<or> texrtn (p_tinib (tcb s p)) = None then Some (Ret E_OBJ, s)
       else (let s = upd_tcb p (\<lambda>t. t\<lparr>texptn := texptn t OR rasptn\<rparr>) s
             in if Some p = p_runtsk s \<and> enatex (tcb s (runtsk s)) \<and> ipmflg s
                then map_option (Pair (Ret E_OK)) (call_texrtn env s)
                else Some (Ret E_OK, s))) s)"

definition iras_tex :: "kernel_cfg \<Rightarrow> ID \<Rightarrow> TEXPTN \<Rightarrow> kernel \<Rightarrow> result \<times> kernel" where
  "iras_tex cfg tskid rasptn s =
    (if \<not> CHECK_INTCTX_UNL s then (Ret E_CTX, s)
     else if \<not> VALID_TSKID cfg tskid then (Ret E_ID, s)
     else if \<not> rasptn \<noteq> 0 then (Ret E_PAR, s)
     else let p = INDEX_TSK tskid in int_call (\<lambda>s.
       if tskatr (p_tinib (tcb s p)) = TA_NOEXS then (Ret E_NOEXS, s)
       else if TSTAT_DORMANT (tstat (tcb s p)) \<or> texrtn (p_tinib (tcb s p)) = None then (Ret E_OBJ, s)
       else (let s = upd_tcb p (\<lambda>t. t\<lparr>texptn := texptn t OR rasptn\<rparr>) s
             in (Ret E_OK, if Some p = p_runtsk s \<and> enatex (tcb s (runtsk s)) \<and> ipmflg s
                           then s\<lparr>reqflg := True\<rparr> else s))) s)"

definition dis_tex :: "kernel \<Rightarrow> result \<times> kernel" where
  "dis_tex s =
    (if \<not> CHECK_TSKCTX_UNL s then (Ret E_CTX, s)
     else tsk_call (\<lambda>s.
       if texrtn (p_tinib (tcb s (runtsk s))) = None then (Ret E_OBJ, s)
       else (Ret E_OK, upd_tcb (runtsk s) (\<lambda>t. t\<lparr>enatex := False\<rparr>) s)) s)"

definition ena_tex :: "texrtn_env \<Rightarrow> kernel \<Rightarrow> (result \<times> kernel) option" where
  "ena_tex env s =
    (if \<not> CHECK_TSKCTX_UNL s then Some (Ret E_CTX, s)
     else tsk_call_opt (\<lambda>s.
       if texrtn (p_tinib (tcb s (runtsk s))) = None then Some (Ret E_OBJ, s)
       else (let s = upd_tcb (runtsk s) (\<lambda>t. t\<lparr>enatex := True\<rparr>) s
             in if texptn (tcb s (runtsk s)) \<noteq> 0 \<and> ipmflg s
                then map_option (Pair (Ret E_OK)) (call_texrtn env s)
                else Some (Ret E_OK, s))) s)"

definition sns_tex :: "kernel \<Rightarrow> bool" where
  "sns_tex s = (if p_runtsk s \<noteq> None \<and> enatex (tcb s (runtsk s)) then False else True)"

abbreviation (input) TTEX_ENA :: STAT where "TTEX_ENA \<equiv> 1"
abbreviation (input) TTEX_DIS :: STAT where "TTEX_DIS \<equiv> 2"

record T_RTEX =
  rtex_texstat :: STAT
  rtex_pndptn :: TEXPTN

definition ref_tex :: "kernel_cfg \<Rightarrow> ID \<Rightarrow> kernel \<Rightarrow> (result \<times> T_RTEX option) \<times> kernel" where
  "ref_tex cfg tskid s =
    (if \<not> CHECK_TSKCTX_UNL s then ((Ret E_CTX, None), s)
     else if \<not> CHECK_TSKID_SELF cfg tskid then ((Ret E_ID, None), s)
     else let p = get_tcb_self tskid s in tsk_call (\<lambda>s.
       if tskatr (p_tinib (tcb s p)) = TA_NOEXS then ((Ret E_NOEXS, None), s)
       else if TSTAT_DORMANT (tstat (tcb s p)) \<or> texrtn (p_tinib (tcb s p)) = None then ((Ret E_OBJ, None), s)
       else ((Ret E_OK, Some \<lparr>rtex_texstat = if enatex (tcb s p) then TTEX_ENA else TTEX_DIS,
               rtex_pndptn = texptn (tcb s p)\<rparr>), s)) s)"

section \<open>The interrupt priority mask\<close>

text \<open>\<open>TMIN_INTPRI\<close> is the lowest priority of interrupts, fixed by the target.\<close>

definition VALID_INTPRI_CHGIPM :: "PRI \<Rightarrow> PRI \<Rightarrow> bool" where
  "VALID_INTPRI_CHGIPM tmin_intpri ipri \<longleftrightarrow> tmin_intpri \<le> ipri \<and> ipri \<le> TIPM_ENAALL"

definition chg_ipm :: "texrtn_env \<Rightarrow> PRI \<Rightarrow> PRI \<Rightarrow> kernel \<Rightarrow> (result \<times> kernel) option" where
  "chg_ipm env tmin_intpri ipri s =
    (if \<not> CHECK_TSKCTX_UNL s then Some (Ret E_CTX, s)
     else if \<not> VALID_INTPRI_CHGIPM tmin_intpri ipri then Some (Ret E_PAR, s)
     else tsk_call_opt (\<lambda>s.
       let s = s\<lparr>intpri := ipri\<rparr>
       in if ipri = TIPM_ENAALL
          then (let s = s\<lparr>ipmflg := True\<rparr>;
                    s = (if \<not> disdsp s
                         then (let s = s\<lparr>dspflg := True\<rparr>
                               in if p_runtsk s \<noteq> p_schedtsk s then snd env (runtsk s) (dispatch s) else s)
                         else s)
                in if enatex (tcb s (runtsk s)) \<and> texptn (tcb s (runtsk s)) \<noteq> 0
                   then map_option (Pair (Ret E_OK)) (call_texrtn env s)
                   else Some (Ret E_OK, s))
          else (let s = s\<lparr>ipmflg := False\<rparr>;
                    s = s\<lparr>dspflg := False\<rparr>
                in Some (Ret E_OK, s))) s)"

definition get_ipm :: "kernel \<Rightarrow> (result \<times> PRI option) \<times> kernel" where
  "get_ipm s =
    (if \<not> CHECK_TSKCTX_UNL s then ((Ret E_CTX, None), s)
     else tsk_call (\<lambda>s. ((Ret E_OK, Some (intpri s)), s)) s)"

section \<open>The loop of call_texrtn\<close>

definition pending :: "kernel \<Rightarrow> bool" where
  "pending s \<longleftrightarrow> texptn (tcb s (runtsk s)) \<noteq> 0"

lemma texrtn_loop_Some:
  "texrtn_loop env d s = Some t \<Longrightarrow> \<exists>k. t = (texrtn_round env d ^^ Suc k) s \<and> \<not> pending t \<and>
    (\<forall>j < k. pending ((texrtn_round env d ^^ Suc j) s))"
proof (induction rule: texrtn_loop.raw_induct[rotated, consumes 1])
  case (1 loop env d s t)
  let ?r = "texrtn_round env d"
  show ?case
  proof (cases "pending (?r s)")
    case False
    then have "t = ?r s" using 1(2) by (simp add: pending_def Let_def split: if_splits)
    then show ?thesis using False by (intro exI[of _ 0]) simp
  next
    case True
    then have "loop env d (?r s) = Some t" using 1(2) by (simp add: pending_def Let_def split: if_splits)
    from 1(1)[OF this] obtain k where k: "t = (?r ^^ Suc k) (?r s)" "\<not> pending t" "\<forall>j < k. pending ((?r ^^ Suc j) (?r s))" by blast
    have "pending ((?r ^^ Suc j) s)" if "j < Suc k" for j
    proof (cases j)
      case 0
      then show ?thesis using True by simp
    next
      case (Suc i)
      then show ?thesis using k(3) that by (simp add: funpow_swap1)
    qed
    then show ?thesis using k(1,2) by (intro exI[of _ "Suc k"]) (simp add: funpow_swap1)
  qed
qed

lemma texrtn_loop_returns:
  "\<not> pending ((texrtn_round env d ^^ Suc k) s) \<Longrightarrow> \<exists>t. texrtn_loop env d s = Some t"
proof (induction k arbitrary: s)
  case 0
  then show ?case by (subst texrtn_loop.simps) (simp add: pending_def Let_def)
next
  case (Suc k)
  show ?case
  proof (cases "pending (texrtn_round env d s)")
    case True
    have "\<exists>t. texrtn_loop env d (texrtn_round env d s) = Some t"
      by (rule Suc.IH) (use Suc.prems in \<open>simp add: funpow_swap1\<close>)
    then show ?thesis using True by (subst texrtn_loop.simps) (simp add: pending_def Let_def)
  next
    case False
    then show ?thesis by (subst texrtn_loop.simps) (simp add: pending_def Let_def)
  qed
qed

section \<open>The invariant\<close>

lemma kinv_tex:
  assumes "kinv s" and "tstat t = tstat (tcb s p)" and "tskatr (p_tinib t) = tskatr (p_tinib (tcb s p))"
    and "ipriority (p_tinib t) = ipriority (p_tinib (tcb s p))"
    and "priority t = tskpri s p" and "bpriority t = bpriority (tcb s p)" and "p_winfo t = p_winfo (tcb s p)"
  shows "kinv (s\<lparr>tcb := (tcb s)(p := t)\<rparr>)"
proof -
  let ?s = "s\<lparr>tcb := (tcb s)(p := t)\<rparr>"
  note ti = kinvD(1)[OF assms(1)]
  have pl: "task_place t = task_place (tcb s p)" by (simp add: task_place_def assms)
  have c: "tcb_ok p t" using tsk_invD(3)[OF ti, of p] assms(2-) by (simp add: tcb_ok_def pl)
  have pr: "tskpri ?s = tskpri s" by (auto simp: assms(5) fun_eq_iff)
  have r: "ready_ok ?s"
    by (rule ready_ok_other[OF tsk_invD(1)[OF ti]]) (use tsk_invD(7)[OF ti] assms(5) in auto)
  have "tsk_inv ?s"
  proof (rule tsk_inv_one[OF ti r, where p = p and t = t])
    show "tmout_ok p t (tme ?s)" using tsk_invD(4)[OF ti, of p] assms(2-) by (simp add: tmout_ok_def timed_def)
    show "p \<in> set (queues ?s h) \<longleftrightarrow> task_place t = Some h" for h using tsk_invD(5)[OF ti, of p] by (simp add: pl)
    show "sorted (map (tskpri ?s) (queues ?s (WaitQ w)))" if "wobjatr s w AND TA_TPRI \<noteq> 0" for w
      using tsk_invD(6)[OF ti that] pr by simp
  qed (use tsk_invD(2)[OF ti] c in simp_all)
  then show ?thesis using assms(1,2) by (auto simp: kinv_def winv_def)
qed

text \<open>A call of this module that does not start a routine: only the task exception fields of tasks change.\<close>

definition tex_same :: "TCB \<Rightarrow> TCB \<Rightarrow> bool" where
  "tex_same t t' \<longleftrightarrow> tstat t' = tstat t \<and> priority t' = priority t \<and> bpriority t' = bpriority t \<and> actque t' = actque t \<and>
    wupque t' = wupque t \<and> p_winfo t' = p_winfo t \<and> tskatr (p_tinib t') = tskatr (p_tinib t) \<and>
    ipriority (p_tinib t') = ipriority (p_tinib t) \<and> (tcb_dormant t \<longrightarrow> tstat t = TS_DORMANT \<longrightarrow> tcb_dormant t')"

definition tex_step :: "kernel \<Rightarrow> kernel \<Rightarrow> bool" where
  "tex_step s s' \<longleftrightarrow> kinv s' \<and> (\<forall>p. tex_same (tcb s p) (tcb s' p)) \<and> queues s' = queues s \<and> tme s' = tme s \<and> objects s' = objects s"

lemma tex_same_refl [simp]: "tex_same t t"
  by (simp add: tex_same_def)

lemma tex_step_refl: "kinv s \<Longrightarrow> tex_step s s"
  by (simp add: tex_step_def)

lemma tex_step_one:
  assumes "kinv s" and "tex_same (tcb s p) t"
  shows "tex_step s (s\<lparr>tcb := (tcb s)(p := t)\<rparr>)"
  using kinv_tex[OF assms(1), of t p] assms(2) by (simp add: tex_step_def tex_same_def)

lemma tex_step_call:
  "tex_step s (snd (body (t_lock_cpu s))) \<Longrightarrow> tex_step s (snd (tsk_call body s))"
  "tex_step s (snd (body' (i_lock_cpu s))) \<Longrightarrow> tex_step s (snd (int_call body' s))"
  by (simp_all add: tex_step_def tsk_call_def int_call_def case_prod_beta lock_sel)

lemma tex_step_lock [simp]:
  "tex_step (t_lock_cpu s) s' = tex_step s s'" "tex_step (i_lock_cpu s) s' = tex_step s s'"
  "tex_step s (t_lock_cpu s') = tex_step s s'" "tex_step s (i_lock_cpu s') = tex_step s s'"
  by (simp_all add: tex_step_def lock_sel)

lemma tex_step_reqflg: "tex_step s s' \<Longrightarrow> tex_step s (s'\<lparr>reqflg := True\<rparr>)"
proof -
  assume a: "tex_step s s'"
  have k: "kinv s'" using a by (simp add: tex_step_def)
  have "op_ok s' (True, s')" using kinvD(2)[OF k] by (rule op_ok_refl)
  from op_ok_reqflg_if[OF k this] have "kinv (s'\<lparr>reqflg := True\<rparr>)" by (simp add: reqflg_if_def)
  then show ?thesis using a by (simp add: tex_step_def)
qed

lemma tex_steps:
  assumes "kinv s"
  shows "tex_step s (snd (def_tex cfg tskid pk s))" and "tex_step s (snd (iras_tex cfg tskid ptn s))"
    and "p_runtsk s = Some q \<Longrightarrow> tex_step s (snd (dis_tex s))" and "tex_step s (snd (ref_tex cfg tskid s))"
    and "tex_step s (snd (get_ipm s))"
proof -
  have k: "kinv (t_lock_cpu s)" "kinv (i_lock_cpu s)" using assms by simp_all
  note r = tex_step_refl[OF assms] and o1 = tex_step_one[OF k(1)] and o2 = tex_step_one[OF k(2)]
  show "tex_step s (snd (def_tex cfg tskid pk s))"
    using r by (auto simp: def_tex_def Let_def tex_same_def tcb_dormant_def lock_sel intro!: tex_step_call o1[simplified lock_sel tex_step_lock])
  show "tex_step s (snd (iras_tex cfg tskid ptn s))"
    using r by (auto simp: iras_tex_def Let_def tex_same_def TSTAT_DORMANT_def lock_sel
        intro!: tex_step_call tex_step_reqflg[OF o2[simplified lock_sel tex_step_lock]] o2[simplified lock_sel tex_step_lock])
  show "tex_step s (snd (dis_tex s))" if "p_runtsk s = Some q"
    using r that by (auto simp: dis_tex_def Let_def tex_same_def tcb_dormant_def lock_sel intro!: tex_step_call o1[simplified lock_sel tex_step_lock])
  show "tex_step s (snd (ref_tex cfg tskid s))" "tex_step s (snd (get_ipm s))"
    using r by (auto simp: ref_tex_def get_ipm_def Let_def intro!: tex_step_call)
qed

lemma quiet_round:
  assumes "\<And>p. texptn (tcb s p) = 0"
  shows "texptn (tcb (texrtn_round (\<lambda>_ _ _ s. s, \<lambda>_ s. s) d s) p) = 0"
  using assms by (simp add: texrtn_round_def Let_def lock_sel dispatch_def)

section \<open>Properties\<close>

text \<open>
  \<open>call_texrtn\<close> returns exactly when some round of its loop leaves no pending request to the running
  task, and then it stops at the first such round: nothing is pending and task exceptions are enabled
  again. A request raised during a round is never dropped, it makes another round.
\<close>

lemma call_texrtn_returns_iff:
  fixes env s
  defines "r \<equiv> texrtn_round env (disdsp s)" and "s0 \<equiv> upd_tcb (runtsk s) (\<lambda>t. t\<lparr>enatex := False\<rparr>) s"
  shows "((\<exists>s'. call_texrtn env s = Some s') \<longleftrightarrow> (\<exists>k. texptn (tcb ((r ^^ Suc k) s0) (runtsk ((r ^^ Suc k) s0))) = 0)) \<and>
    (\<forall>s'. call_texrtn env s = Some s' \<longrightarrow> texptn (tcb s' (runtsk s')) = 0 \<and> enatex (tcb s' (runtsk s')) \<and>
      (\<exists>k. s' = upd_tcb (runtsk ((r ^^ Suc k) s0)) (\<lambda>t. t\<lparr>enatex := True\<rparr>) ((r ^^ Suc k) s0) \<and>
        (\<forall>j < k. texptn (tcb ((r ^^ Suc j) s0) (runtsk ((r ^^ Suc j) s0))) \<noteq> 0)))"
proof -
  have c: "call_texrtn env s = map_option (\<lambda>s. upd_tcb (runtsk s) (\<lambda>t. t\<lparr>enatex := True\<rparr>) s) (texrtn_loop env (disdsp s) s0)"
    by (simp add: call_texrtn_def s0_def Let_def)
  have "(\<exists>s'. call_texrtn env s = Some s') \<longleftrightarrow> (\<exists>k. \<not> pending ((r ^^ Suc k) s0))"
    using texrtn_loop_Some[where env = env and d = "disdsp s" and s = s0]
      texrtn_loop_returns[where env = env and d = "disdsp s" and s = s0] unfolding c r_def by auto
  moreover have "texptn (tcb s' (runtsk s')) = 0 \<and> enatex (tcb s' (runtsk s')) \<and>
      (\<exists>k. s' = upd_tcb (runtsk ((r ^^ Suc k) s0)) (\<lambda>t. t\<lparr>enatex := True\<rparr>) ((r ^^ Suc k) s0) \<and>
        (\<forall>j < k. pending ((r ^^ Suc j) s0)))" if s': "call_texrtn env s = Some s'" for s'
  proof -
    obtain t where t: "texrtn_loop env (disdsp s) s0 = Some t" "s' = upd_tcb (runtsk t) (\<lambda>t. t\<lparr>enatex := True\<rparr>) t"
      using s' unfolding c by auto
    from texrtn_loop_Some[OF t(1)] obtain k where k: "t = (r ^^ Suc k) s0" "\<not> pending t" "\<forall>j < k. pending ((r ^^ Suc j) s0)"
      unfolding r_def by blast
    have "texptn (tcb s' (runtsk s')) = 0 \<and> enatex (tcb s' (runtsk s'))" using k(2) by (simp add: t(2) pending_def)
    then show ?thesis using k(1,3) t(2) by blast
  qed
  ultimately show ?thesis unfolding pending_def by (simp only: not_not) blast
qed

lemma call_texrtn_returns_iff_witness:
  "\<exists>s'. call_texrtn (\<lambda>_ _ _ s. s, \<lambda>_ s. s) run_kernel = Some s' \<and> texptn (tcb s' (runtsk s')) = 0"
proof -
  let ?env = "(\<lambda>_ _ _ s. s, \<lambda>_ s. s) :: texrtn_env"
  let ?s = "upd_tcb (runtsk run_kernel) (\<lambda>t. t\<lparr>enatex := False\<rparr>) run_kernel"
  have "texptn (tcb (((texrtn_round ?env (disdsp run_kernel)) ^^ Suc 0) ?s)
      (runtsk (((texrtn_round ?env (disdsp run_kernel)) ^^ Suc 0) ?s))) = 0"
    using quiet_round[of ?s] by (simp add: run_kernel_sel sample_tcb_def)
  then show ?thesis using call_texrtn_returns_iff[of ?env run_kernel] by blast
qed

text \<open>
  A request for task exceptions to a task that is not running, or whose task exceptions are
  disabled, only adds the bits to the pending pattern: the call returns at once with \<open>E_OK\<close>, and
  \<open>ref_tex\<close> then reports the old pattern with the new bits. Dormant tasks and tasks without a routine
  refuse the request with \<open>E_OBJ\<close>, and nothing changes.
\<close>

lemma ras_tex_pends:
  assumes "CHECK_TSKCTX_UNL s" and "CHECK_TSKID_SELF cfg tskid" and "p = get_tcb_self tskid s" and "ptn \<noteq> 0"
    and "tskatr (p_tinib (tcb s p)) \<noteq> TA_NOEXS" and "p_runtsk s \<noteq> Some p \<or> \<not> enatex (tcb s p) \<or> \<not> ipmflg s"
  shows "if tstat (tcb s p) = TS_DORMANT \<or> texrtn (p_tinib (tcb s p)) = None
    then ras_tex env cfg tskid ptn s = Some (Ret E_OBJ, t_unlock_cpu (t_lock_cpu s))
    else \<exists>s'. ras_tex env cfg tskid ptn s = Some (Ret E_OK, s') \<and>
      tcb s' = (tcb s)(p := (tcb s p)\<lparr>texptn := texptn (tcb s p) OR ptn\<rparr>) \<and> queues s' = queues s \<and> objects s' = objects s \<and>
      fst (ref_tex cfg tskid s') = (Ret E_OK, Some \<lparr>rtex_texstat = if enatex (tcb s p) then TTEX_ENA else TTEX_DIS,
        rtex_pndptn = texptn (tcb s p) OR ptn\<rparr>)"
proof (cases "tstat (tcb s p) = TS_DORMANT \<or> texrtn (p_tinib (tcb s p)) = None")
  case True
  then show ?thesis
    using assms by (auto simp: ras_tex_def tsk_call_opt_def TSTAT_DORMANT_def lock_sel lock_objects)
next
  case False
  let ?s = "t_unlock_cpu (upd_tcb p (\<lambda>t. t\<lparr>texptn := texptn t OR ptn\<rparr>) (t_lock_cpu s))"
  have n: "\<not> (Some p = p_runtsk s \<and> enatex (upd (tcb s) (runtsk s)) \<and> ipmflg s)"
    if "\<And>f. enatex (upd f p) = enatex (f p)" for upd
    using assms(6) that[of "tcb s"] by (auto dest: arg_cong[where f = the])
  note n1 = n[of "\<lambda>f. f(p := (f p)\<lparr>texptn := texptn (f p) OR ptn\<rparr>)"]
  have e: "ras_tex env cfg tskid ptn s = Some (Ret E_OK, ?s)"
    using assms(1-5) False n1 by (auto simp: ras_tex_def tsk_call_opt_def TSTAT_DORMANT_def lock_sel lock_objects Let_def)
  have u: "CHECK_TSKCTX_UNL ?s" "get_tcb_self tskid ?s = p"
    using assms(1,3) by (simp_all add: CHECK_TSKCTX_UNL_def t_unlock_cpu_def t_lock_cpu_def get_tcb_self_def)
  have "fst (ref_tex cfg tskid ?s) = (Ret E_OK, Some \<lparr>rtex_texstat = if enatex (tcb s p) then TTEX_ENA else TTEX_DIS,
      rtex_pndptn = texptn (tcb s p) OR ptn\<rparr>)"
    using u assms(2,5) False by (simp add: ref_tex_def tsk_call_def TSTAT_DORMANT_def lock_sel)
  then show ?thesis using False e by (simp add: lock_sel)
qed

lemma ras_tex_pends_witness:
  "fst (the (ras_tex (\<lambda>_ _ _ s. s, \<lambda>_ s. s) sample_cfg 2 1 run_kernel)) = Ret E_OBJ"
proof -
  have v: "CHECK_TSKCTX_UNL run_kernel" "CHECK_TSKID_SELF sample_cfg 2" "1 = get_tcb_self 2 run_kernel" "(1 :: TEXPTN) \<noteq> 0"
    "tskatr (p_tinib (tcb run_kernel 1)) \<noteq> TA_NOEXS" "p_runtsk run_kernel \<noteq> Some 1 \<or> \<not> enatex (tcb run_kernel 1) \<or> \<not> ipmflg run_kernel"
    by (simp_all add: CHECK_TSKCTX_UNL_def run_kernel_sel CHECK_TSKID_SELF_def VALID_TSKID_def sample_cfg_def get_tcb_self_def INDEX_TSK_def
        sample_tcb_def sample_tinib_def)
  show ?thesis
    using ras_tex_pends[OF v, of "(\<lambda>_ _ _ s. s, \<lambda>_ s. s)"] by (simp add: run_kernel_sel sample_tcb_def sample_tinib_def)
qed

end
