(* ===== verification/Asp_Interrupt.thy ===== *)
theory Asp_Interrupt
  imports Asp_Sys_Manage Asp_List
begin

text \<open>
  Interrupt service routines and interrupt request lines, \<^verbatim>\<open>kernel/interrupt.c\<close>, and the CPU exceptions
  of \<^verbatim>\<open>kernel/exception.c\<close>. The data of this module is a record of its own, \<open>isr_data\<close>; of the kernel
  the calls use the lock and the interrupt priority mask. Control block \<open>i\<close> is entry \<open>i\<close> of
  \<open>isrcb_table\<close>, a queue of service routines the index in \<open>isr_queue_table\<close>. The operations of the
  interrupt controller and what an interrupt service routine does are parameters.
\<close>

section \<open>Data\<close>

type_synonym INTNO = nat

record ISRINIB =
  isratr :: ATR
  isr_exinf :: intptr_t
  isr_intno :: INTNO
  p_isr_queue :: nat
  isr :: nat
  isrpri :: PRI

datatype isr_head = IsrQ nat | FreeIsr

record isr_data =
  isrinib :: "nat \<Rightarrow> ISRINIB"
  isrqs :: "(isr_head, nat) qstore"

record ISR_ENTRY =
  ent_intno :: INTNO
  ent_queue :: nat

record INTINIB =
  int_intno :: INTNO
  int_intatr :: ATR
  int_intpri :: PRI

record isr_cfg =
  tnum_isr_queue :: nat
  isr_queue_list :: "nat \<Rightarrow> ISR_ENTRY"
  tmax_isrid :: ID
  tnum_sisr :: nat
  sisrinib_table :: "nat \<Rightarrow> ISRINIB"
  intinib_table :: "INTINIB list"

definition tnum_isr :: "isr_cfg \<Rightarrow> nat" where "tnum_isr cfg = nat (tmax_isrid cfg) + tnum_sisr cfg"
definition INDEX_ISR :: "isr_cfg \<Rightarrow> ID \<Rightarrow> nat" where "INDEX_ISR cfg isrid = nat (isrid - 1) + tnum_sisr cfg"
definition ISRID :: "isr_cfg \<Rightarrow> nat \<Rightarrow> ID" where "ISRID cfg i = int i - int (tnum_sisr cfg) + 1"
definition VALID_ISRID :: "isr_cfg \<Rightarrow> ID \<Rightarrow> bool" where
  "VALID_ISRID cfg isrid \<longleftrightarrow> 1 \<le> isrid \<and> isrid \<le> tmax_isrid cfg"
definition VALID_ISRPRI :: "PRI \<Rightarrow> bool" where "VALID_ISRPRI pri \<longleftrightarrow> 1 \<le> pri \<and> pri \<le> 16"

section \<open>Operations\<close>

text \<open>The loop of \<open>enqueue_isr\<close> stops at the first entry of a lower priority.\<close>

fun isr_walk :: "(nat \<Rightarrow> PRI) \<Rightarrow> nat \<Rightarrow> nat list \<Rightarrow> nat list" where
  "isr_walk pr i [] = [i]"
| "isr_walk pr i (e # es) = (if pr i < pr e then i # e # es else e # isr_walk pr i es)"

definition enqueue_isr :: "nat \<Rightarrow> nat \<Rightarrow> isr_data \<Rightarrow> isr_data" where
  "enqueue_isr q i d =
    d\<lparr>isrqs := (isrqs d)(IsrQ q := isr_walk (\<lambda>e. isrpri (isrinib d e)) i (isrqs d (IsrQ q)))\<rparr>"

definition init_static_isr :: "isr_cfg \<Rightarrow> nat \<Rightarrow> isr_data \<Rightarrow> isr_data" where
  "init_static_isr cfg i d =
    (let d = d\<lparr>isrinib := (isrinib d)(i := sisrinib_table cfg i)\<rparr>
     in enqueue_isr (p_isr_queue (isrinib d i)) i d)"

definition init_free_isr :: "nat \<Rightarrow> isr_data \<Rightarrow> isr_data" where
  "init_free_isr i d =
    (let d = d\<lparr>isrinib := (isrinib d)(i := (isrinib d i)\<lparr>isratr := TA_NOEXS\<rparr>)\<rparr>
     in d\<lparr>isrqs := q_insert_prev FreeIsr i (isrqs d)\<rparr>)"

definition initialize_isr :: "isr_cfg \<Rightarrow> isr_data \<Rightarrow> isr_data" where
  "initialize_isr cfg d =
    (let d = fold (\<lambda>i d. d\<lparr>isrqs := q_initialize (IsrQ i) (isrqs d)\<rparr>) [0..<tnum_isr_queue cfg] d;
         d = fold (init_static_isr cfg) [0..<tnum_sisr cfg] d;
         d = d\<lparr>isrqs := q_initialize FreeIsr (isrqs d)\<rparr>
     in fold init_free_isr [tnum_sisr cfg..<tnum_isr cfg] d)"

text \<open>
  The routines of a queue, in order; before each but the first the state of the CPU lock and of the
  mask at the call is restored. Routines run outside of task contexts, where the queue cannot change.
\<close>

fun call_isr_loop :: "(nat \<Rightarrow> intptr_t \<Rightarrow> kernel \<Rightarrow> kernel) \<Rightarrow> (nat \<Rightarrow> ISRINIB) \<Rightarrow> PRI \<Rightarrow> nat list \<Rightarrow> kernel \<Rightarrow> kernel" where
  "call_isr_loop run inib saved_ipm [] s = s"
| "call_isr_loop run inib saved_ipm (e # es) s =
    (let s = run (isr (inib e)) (isr_exinf (inib e)) s;
         s = (if es \<noteq> []
              then (let s = (if cpu_lock s then i_unlock_cpu s else s) in s\<lparr>intpri := saved_ipm\<rparr>)
              else s)
     in call_isr_loop run inib saved_ipm es s)"

definition call_isr :: "(nat \<Rightarrow> intptr_t \<Rightarrow> kernel \<Rightarrow> kernel) \<Rightarrow> isr_data \<Rightarrow> nat \<Rightarrow> kernel \<Rightarrow> kernel" where
  "call_isr run d q s =
    (let saved_ipm = intpri s in call_isr_loop run (isrinib d) saved_ipm (isrqs d (IsrQ q)) s)"

text \<open>The binary search of \<open>search_isr_queue\<close>.\<close>

function isr_bsearch :: "(nat \<Rightarrow> ISR_ENTRY) \<Rightarrow> INTNO \<Rightarrow> nat \<Rightarrow> nat \<Rightarrow> nat" where
  "isr_bsearch es intno left right =
    (if left < right
     then (let i = (left + right + 1) div 2
           in if intno < ent_intno (es i) then isr_bsearch es intno left (i - 1)
              else isr_bsearch es intno i right)
     else left)"
  by pat_completeness auto
termination
  by (relation "measure (\<lambda>(es, intno, left, right). right - left)") auto

declare isr_bsearch.simps [simp del]

definition search_isr_queue :: "isr_cfg \<Rightarrow> INTNO \<Rightarrow> nat option" where
  "search_isr_queue cfg intno =
    (if tnum_isr_queue cfg = 0 then None
     else (let left = isr_bsearch (isr_queue_list cfg) intno 0 (tnum_isr_queue cfg - 1)
           in if ent_intno (isr_queue_list cfg left) = intno then Some (ent_queue (isr_queue_list cfg left)) else None))"

record T_CISR =
  cisr_isratr :: ATR
  cisr_exinf :: intptr_t
  cisr_intno :: INTNO
  cisr_isr :: nat
  cisr_isrpri :: PRI

text \<open>The valid interrupt numbers and attributes depend on the target.\<close>

definition acre_isr :: "(INTNO \<Rightarrow> bool) \<Rightarrow> ATR \<Rightarrow> isr_cfg \<Rightarrow> T_CISR \<Rightarrow> isr_data \<times> kernel \<Rightarrow> result \<times> (isr_data \<times> kernel)" where
  "acre_isr valid_intno target_isratr cfg pk_cisr ds =
    (case ds of (d, s) \<Rightarrow>
     if \<not> CHECK_TSKCTX_UNL s then (Ret E_CTX, (d, s))
     else if \<not> CHECK_RSATR (cisr_isratr pk_cisr) target_isratr then (Ret E_RSATR, (d, s))
     else if \<not> valid_intno (cisr_intno pk_cisr) then (Ret E_PAR, (d, s))
     else if \<not> FUNC_ALIGNED (cisr_isr pk_cisr) then (Ret E_PAR, (d, s))
     else if \<not> FUNC_NONNULL (cisr_isr pk_cisr) then (Ret E_PAR, (d, s))
     else if \<not> VALID_ISRPRI (cisr_isrpri pk_cisr) then (Ret E_PAR, (d, s))
     else (case search_isr_queue cfg (cisr_intno pk_cisr) of
        None \<Rightarrow> (Ret E_OBJ, (d, s))
      | Some q \<Rightarrow>
         (let s = t_lock_cpu s;
              (r, d) = (if tnum_isr cfg = 0 \<or> q_empty FreeIsr (isrqs d) then (Ret E_NOID, d)
                else (let (i, f) = q_delete_next FreeIsr (isrqs d);
                          d = d\<lparr>isrqs := f\<rparr>;
                          d = d\<lparr>isrinib := (isrinib d)(i := \<lparr>isratr = cisr_isratr pk_cisr, isr_exinf = cisr_exinf pk_cisr,
                                isr_intno = cisr_intno pk_cisr, p_isr_queue = q, isr = cisr_isr pk_cisr,
                                isrpri = cisr_isrpri pk_cisr\<rparr>)\<rparr>;
                          d = enqueue_isr q i d
                      in (Ret (ISRID cfg i), d)))
          in (r, (d, t_unlock_cpu s)))))"

definition del_isr :: "isr_cfg \<Rightarrow> ID \<Rightarrow> isr_data \<times> kernel \<Rightarrow> result \<times> (isr_data \<times> kernel)" where
  "del_isr cfg isrid ds =
    (case ds of (d, s) \<Rightarrow>
     if \<not> CHECK_TSKCTX_UNL s then (Ret E_CTX, (d, s))
     else if \<not> VALID_ISRID cfg isrid then (Ret E_ID, (d, s))
     else (let i = INDEX_ISR cfg isrid;
               s = t_lock_cpu s;
               (r, d) = (if isratr (isrinib d i) = TA_NOEXS then (Ret E_NOEXS, d)
                 else (let d = d\<lparr>isrqs := q_delete i (isrqs d)\<rparr>;
                           d = d\<lparr>isrinib := (isrinib d)(i := (isrinib d i)\<lparr>isratr := TA_NOEXS\<rparr>)\<rparr>;
                           d = d\<lparr>isrqs := q_insert_prev FreeIsr i (isrqs d)\<rparr>
                       in (Ret E_OK, d)))
           in (r, (d, t_unlock_cpu s))))"

text \<open>Configuration of the request lines and of the exceptions; \<open>define\<close> and \<open>config\<close> write to the hardware.\<close>

definition initialize_interrupt ::
  "(nat \<Rightarrow> nat \<Rightarrow> 'hw \<Rightarrow> 'hw) \<Rightarrow> (INTNO \<Rightarrow> ATR \<Rightarrow> PRI \<Rightarrow> 'hw \<Rightarrow> 'hw) \<Rightarrow> (nat \<times> nat) list \<Rightarrow> isr_cfg \<Rightarrow> 'hw \<Rightarrow> 'hw" where
  "initialize_interrupt x_define_inh x_config_int inhinib_table cfg hw =
    (let hw = fold (\<lambda>(inhno, int_entry). x_define_inh inhno int_entry) inhinib_table hw
     in fold (\<lambda>i. x_config_int (int_intno i) (int_intatr i) (int_intpri i)) (intinib_table cfg) hw)"

definition initialize_exception :: "(nat \<Rightarrow> nat \<Rightarrow> 'hw \<Rightarrow> 'hw) \<Rightarrow> (nat \<times> nat) list \<Rightarrow> 'hw \<Rightarrow> 'hw" where
  "initialize_exception x_define_exc excinib_table hw =
    fold (\<lambda>(excno, exc_entry). x_define_exc excno exc_entry) excinib_table hw"

text \<open>\<open>t_disable_int\<close> and \<open>t_enable_int\<close> tell whether the line is configured.\<close>

definition dis_int :: "(INTNO \<Rightarrow> bool) \<Rightarrow> (INTNO \<Rightarrow> 'hw \<Rightarrow> bool \<times> 'hw) \<Rightarrow> INTNO \<Rightarrow> 'hw \<times> kernel \<Rightarrow> result \<times> ('hw \<times> kernel)" where
  "dis_int valid_intno t_disable_int intno hs =
    (case hs of (hw, s) \<Rightarrow>
     if \<not> CHECK_TSKCTX s then (Ret E_CTX, (hw, s))
     else if \<not> valid_intno intno then (Ret E_PAR, (hw, s))
     else (let locked = cpu_lock s;
               s = (if \<not> locked then t_lock_cpu s else s);
               (ok, hw) = t_disable_int intno hw;
               s = (if \<not> locked then t_unlock_cpu s else s)
           in (if ok then Ret E_OK else Ret E_OBJ, (hw, s))))"

definition ena_int :: "(INTNO \<Rightarrow> bool) \<Rightarrow> (INTNO \<Rightarrow> 'hw \<Rightarrow> bool \<times> 'hw) \<Rightarrow> INTNO \<Rightarrow> 'hw \<times> kernel \<Rightarrow> result \<times> ('hw \<times> kernel)" where
  "ena_int valid_intno t_enable_int intno hs =
    (case hs of (hw, s) \<Rightarrow>
     if \<not> CHECK_TSKCTX s then (Ret E_CTX, (hw, s))
     else if \<not> valid_intno intno then (Ret E_PAR, (hw, s))
     else (let locked = cpu_lock s;
               s = (if \<not> locked then t_lock_cpu s else s);
               (ok, hw) = t_enable_int intno hw;
               s = (if \<not> locked then t_unlock_cpu s else s)
           in (if ok then Ret E_OK else Ret E_OBJ, (hw, s))))"

text \<open>CPU exceptions: \<open>masked\<close> is what \<open>exc_sense_intmask\<close> reads from the exception frame.\<close>

definition xsns_dpn :: "bool \<Rightarrow> bool \<Rightarrow> kernel \<Rightarrow> bool" where
  "xsns_dpn kerflg masked s = (if kerflg \<and> masked \<and> \<not> disdsp s then False else True)"

definition xsns_xpn :: "bool \<Rightarrow> bool \<Rightarrow> kernel \<Rightarrow> bool" where
  "xsns_xpn kerflg masked s = (if kerflg \<and> masked \<and> enatex (tcb s (runtsk s)) then False else True)"

section \<open>The search for the queue of a request line\<close>

definition isr_cfg_ok :: "isr_cfg \<Rightarrow> bool" where
  "isr_cfg_ok cfg \<longleftrightarrow>
    sorted_wrt (<) (map (\<lambda>k. ent_intno (isr_queue_list cfg k)) [0..<tnum_isr_queue cfg]) \<and>
    (\<forall>k<tnum_isr_queue cfg. ent_queue (isr_queue_list cfg k) < tnum_isr_queue cfg) \<and>
    (\<forall>i<tnum_sisr cfg. isratr (sisrinib_table cfg i) \<noteq> TA_NOEXS \<and>
      p_isr_queue (sisrinib_table cfg i) < tnum_isr_queue cfg)"

lemma isr_bsearch_hit:
  assumes "\<And>j. j < n \<Longrightarrow> intno < ent_intno (es j) \<longleftrightarrow> k < j"
    and "left \<le> k" and "k \<le> right" and "right < n"
  shows "isr_bsearch es intno left right = k"
  using assms
proof (induction es intno left right rule: isr_bsearch.induct)
  case (1 es intno l r)
  define i where "i = (l + r + 1) div 2"
  show ?case
  proof (cases "l < r")
    case False
    then show ?thesis using 1(4,5) by (simp add: isr_bsearch.simps)
  next
    case True
    then have i: "l < i" "i \<le> r" by (auto simp: i_def)
    have step: "isr_bsearch es intno l r =
        (if intno < ent_intno (es i) then isr_bsearch es intno l (i - 1) else isr_bsearch es intno i r)"
      unfolding i_def using True by (subst isr_bsearch.simps) (simp add: Let_def)
    have less: "intno < ent_intno (es i) \<longleftrightarrow> k < i" using 1(3)[of i] i(2) 1(6) by linarith
    show ?thesis
    proof (cases "k < i")
      case lt: True
      have "isr_bsearch es intno l (i - 1) = k"
        using lt less 1(4,6) i True by (intro 1(1)[OF True i_def]) (auto simp: 1(3))
      then show ?thesis using lt less by (simp add: step)
    next
      case ge: False
      have "isr_bsearch es intno i r = k"
        using ge less 1(5,6) i True by (intro 1(2)[OF True i_def]) (auto simp: 1(3))
      then show ?thesis using ge less by (simp add: step)
    qed
  qed
qed

lemma isr_bsearch_range: "left \<le> right \<Longrightarrow> isr_bsearch es intno left right \<le> right"
proof (induction es intno left right rule: isr_bsearch.induct)
  case (1 es intno l r)
  then show ?case
    by (subst isr_bsearch.simps) (fastforce simp: Let_def)
qed

lemma isr_cfg_less:
  "isr_cfg_ok cfg \<Longrightarrow> j < k \<Longrightarrow> k < tnum_isr_queue cfg \<Longrightarrow>
    ent_intno (isr_queue_list cfg j) < ent_intno (isr_queue_list cfg k)"
  by (auto simp: isr_cfg_ok_def sorted_wrt_iff_nth_less)

lemma search_isr_queue_hit:
  assumes ok: "isr_cfg_ok cfg" and k: "k < tnum_isr_queue cfg"
  shows "search_isr_queue cfg (ent_intno (isr_queue_list cfg k)) = Some (ent_queue (isr_queue_list cfg k))"
proof -
  have "ent_intno (isr_queue_list cfg k) < ent_intno (isr_queue_list cfg j) \<longleftrightarrow> k < j"
    if "j < tnum_isr_queue cfg" for j
    using isr_cfg_less[OF ok, of j k] isr_cfg_less[OF ok, of k j] that k by (cases j k rule: linorder_cases) auto
  then have "isr_bsearch (isr_queue_list cfg) (ent_intno (isr_queue_list cfg k)) 0 (tnum_isr_queue cfg - 1) = k"
    using k by (intro isr_bsearch_hit[where n = "tnum_isr_queue cfg"]) auto
  then show ?thesis using k by (simp add: search_isr_queue_def)
qed

lemma search_isr_queue_Some:
  assumes "search_isr_queue cfg intno = Some q"
  obtains k where "k < tnum_isr_queue cfg" and "ent_intno (isr_queue_list cfg k) = intno"
    and "ent_queue (isr_queue_list cfg k) = q"
proof
  let ?k = "isr_bsearch (isr_queue_list cfg) intno 0 (tnum_isr_queue cfg - 1)"
  show "?k < tnum_isr_queue cfg"
    using assms isr_bsearch_range[of 0 "tnum_isr_queue cfg - 1" "isr_queue_list cfg" intno]
    by (cases "tnum_isr_queue cfg = 0") (auto simp: search_isr_queue_def)
  show "ent_intno (isr_queue_list cfg ?k) = intno" "ent_queue (isr_queue_list cfg ?k) = q"
    using assms by (auto simp: search_isr_queue_def Let_def split: if_splits)
qed

text \<open>
  C39: For a configuration whose table of request lines is strictly ascending, the binary search of
  \<open>search_isr_queue\<close> agrees with looking the interrupt number up in the table as an association list: it
  finds the queue of every listed line and NULL for all other interrupt numbers.
\<close>
theorem search_isr_queue_lookup:
  assumes ok: "isr_cfg_ok cfg"
  shows "search_isr_queue cfg intno =
    map_of (map (\<lambda>k. (ent_intno (isr_queue_list cfg k), ent_queue (isr_queue_list cfg k)))
      [0..<tnum_isr_queue cfg]) intno" (is "_ = map_of ?al intno")
proof (cases "\<exists>k<tnum_isr_queue cfg. ent_intno (isr_queue_list cfg k) = intno")
  case True
  then obtain k where k: "k < tnum_isr_queue cfg" "ent_intno (isr_queue_list cfg k) = intno" by blast
  have "distinct (map fst ?al)" using ok by (simp add: isr_cfg_ok_def strict_sorted_iff comp_def)
  moreover have "(intno, ent_queue (isr_queue_list cfg k)) \<in> set ?al" using k by auto
  ultimately show ?thesis using search_isr_queue_hit[OF ok k(1)] k(2) by simp
next
  case False
  then have "map_of ?al intno = None" by (auto simp: map_of_eq_None_iff)
  moreover have "search_isr_queue cfg intno = None"
    using False search_isr_queue_Some by (cases "search_isr_queue cfg intno") blast+
  ultimately show ?thesis by simp
qed

definition sample_isr_cfg :: isr_cfg where
  "sample_isr_cfg = \<lparr>tnum_isr_queue = 3, isr_queue_list = (\<lambda>k. \<lparr>ent_intno = 10 * k + 2, ent_queue = k\<rparr>),
    tmax_isrid = 2, tnum_sisr = 1, sisrinib_table = (\<lambda>_. \<lparr>isratr = 0, isr_exinf = 0, isr_intno = 12,
      p_isr_queue = 1, isr = 4, isrpri = 5\<rparr>), intinib_table = []\<rparr>"

lemma sample_isr_cfg_ok: "isr_cfg_ok sample_isr_cfg"
  by (simp add: isr_cfg_ok_def sample_isr_cfg_def upt_rec)

theorem search_isr_queue_lookup_witness:
  "search_isr_queue sample_isr_cfg 12 = Some 1 \<and> search_isr_queue sample_isr_cfg 13 = None"
  using search_isr_queue_lookup[OF sample_isr_cfg_ok] by (simp add: sample_isr_cfg_def upt_rec)

section \<open>The queues of service routines\<close>

definition isr_part :: "isr_cfg \<Rightarrow> nat set \<Rightarrow> isr_data \<Rightarrow> bool" where
  "isr_part cfg A d \<longleftrightarrow>
    (\<forall>q<tnum_isr_queue cfg.
      distinct (isrqs d (IsrQ q)) \<and> sorted (map (\<lambda>i. isrpri (isrinib d i)) (isrqs d (IsrQ q))) \<and>
      (\<forall>i. i \<in> set (isrqs d (IsrQ q)) \<longleftrightarrow>
        i \<in> A \<and> isratr (isrinib d i) \<noteq> TA_NOEXS \<and> p_isr_queue (isrinib d i) = q)) \<and>
    distinct (isrqs d FreeIsr) \<and>
    (\<forall>i. i \<in> set (isrqs d FreeIsr) \<longleftrightarrow> i \<in> A \<and> isratr (isrinib d i) = TA_NOEXS) \<and>
    (\<forall>i\<in>A. isratr (isrinib d i) \<noteq> TA_NOEXS \<longrightarrow> p_isr_queue (isrinib d i) < tnum_isr_queue cfg)"

text \<open>All blocks are in exactly the queue of their request line, in priority order, or free.\<close>

definition isr_inv :: "isr_cfg \<Rightarrow> isr_data \<Rightarrow> bool" where
  "isr_inv cfg d \<longleftrightarrow> isr_part cfg {..<tnum_isr cfg} d"

lemma isr_walk_insert_pri: "isr_walk pr i es = insert_pri pr i es"
  by (induction es) (auto simp: insert_pri_Cons)

lemma map_upd_other: "i \<notin> set xs \<Longrightarrow> map (\<lambda>j. g ((f(i := v)) j)) xs = map (\<lambda>j. g (f j)) xs"
  by (induction xs) auto

lemma isr_part_link:
  assumes p: "isr_part cfg A d" and i: "i \<notin> A" and ib: "isratr ib \<noteq> TA_NOEXS" "p_isr_queue ib < tnum_isr_queue cfg"
  shows "isr_part cfg (insert i A) (enqueue_isr (p_isr_queue ib) i (d\<lparr>isrinib := (isrinib d)(i := ib)\<rparr>))"
proof -
  let ?d = "d\<lparr>isrinib := (isrinib d)(i := ib)\<rparr>"
  have out: "i \<notin> set (isrqs d (IsrQ q))" if "q < tnum_isr_queue cfg" for q
    using p i that by (auto simp: isr_part_def)
  have srt: "sorted (map (\<lambda>j. isrpri (isrinib ?d j)) (isrqs d (IsrQ q)))" if "q < tnum_isr_queue cfg" for q
    using p out[OF that] that by (simp add: isr_part_def map_upd_other del: fun_upd_apply)
  show ?thesis
    using p i ib out srt sorted_insert_pri[OF srt, of "p_isr_queue ib" i] distinct_insert_pri[OF out]
    by (auto simp: isr_part_def enqueue_isr_def isr_walk_insert_pri)
qed

lemma isr_part_free:
  assumes p: "isr_part cfg A d" and i: "i \<notin> A"
  shows "isr_part cfg (insert i A) (d\<lparr>isrinib := (isrinib d)(i := (isrinib d i)\<lparr>isratr := TA_NOEXS\<rparr>),
    isrqs := q_insert_prev FreeIsr i (isrqs d)\<rparr>)"
proof -
  have out: "i \<notin> set (isrqs d (IsrQ q))" if "q < tnum_isr_queue cfg" for q
    using p i that by (auto simp: isr_part_def)
  have "sorted (map (\<lambda>j. isrpri (((isrinib d)(i := ib)) j)) (isrqs d (IsrQ q)))" if "q < tnum_isr_queue cfg" for q ib
    using p out[OF that] that by (simp add: isr_part_def map_upd_other del: fun_upd_apply)
  then show ?thesis using p i out by (auto simp: isr_part_def queue_simps)
qed

lemma isr_part_take:
  assumes p: "isr_part cfg A d" and i: "i \<in> A"
  shows "isr_part cfg (A - {i}) (d\<lparr>isrqs := q_delete i (isrqs d)\<rparr>)"
  using assms unfolding isr_part_def
  by (auto simp: queue_simps sorted_map_remove1)

lemma isr_part_take_free:
  assumes p: "isr_part cfg A d" and ne: "\<not> q_empty FreeIsr (isrqs d)"
  shows "fst (q_delete_next FreeIsr (isrqs d)) \<in> A"
    and "isr_part cfg (A - {fst (q_delete_next FreeIsr (isrqs d))}) (d\<lparr>isrqs := snd (q_delete_next FreeIsr (isrqs d))\<rparr>)"
proof -
  obtain i r where q: "isrqs d FreeIsr = i # r" using ne by (cases "isrqs d FreeIsr") (auto simp: queue_simps)
  then show "fst (q_delete_next FreeIsr (isrqs d)) \<in> A" using p by (auto simp: isr_part_def queue_simps)
  have "i \<in> A" "isratr (isrinib d i) = TA_NOEXS" using p q unfolding isr_part_def by (metis list.set_intros(1))+
  moreover have "distinct (i # r)" "\<And>j. j \<in> set (i # r) \<longleftrightarrow> j \<in> A \<and> isratr (isrinib d j) = TA_NOEXS"
    using p q unfolding isr_part_def by metis+
  ultimately show "isr_part cfg (A - {fst (q_delete_next FreeIsr (isrqs d))})
      (d\<lparr>isrqs := snd (q_delete_next FreeIsr (isrqs d))\<rparr>)"
    using p by (auto simp: isr_part_def queue_simps q)
qed

text \<open>The initialization links the static blocks and frees the others.\<close>

lemma fold_q_initialize:
  "fold (\<lambda>i d. d\<lparr>isrqs := q_initialize (IsrQ i) (isrqs d)\<rparr>) is0 d =
    d\<lparr>isrqs := (\<lambda>h. if h \<in> IsrQ ` set is0 then [] else isrqs d h)\<rparr>"
  by (induction is0 arbitrary: d) (auto simp: queue_simps fun_eq_iff)

lemma init_static_isr_inib [simp]:
  "isrinib (init_static_isr cfg i d) = (isrinib d)(i := sisrinib_table cfg i)"
  by (simp add: init_static_isr_def enqueue_isr_def Let_def)

lemma isr_part_static:
  assumes "isr_cfg_ok cfg" and "isr_part cfg {} d" and "n \<le> tnum_sisr cfg"
  shows "isr_part cfg {..<n} (fold (init_static_isr cfg) [0..<n] d)"
  using assms(3)
proof (induction n)
  case 0
  show ?case using assms(2) by simp
next
  case (Suc n)
  define e where "e = fold (init_static_isr cfg) [0..<n] d"
  have "isr_part cfg {..<n} e" using Suc by (simp add: e_def)
  then have "isr_part cfg (insert n {..<n}) (init_static_isr cfg n e)"
    using Suc(2) assms(1) isr_part_link[of cfg "{..<n}" e n "sisrinib_table cfg n"]
    by (simp add: init_static_isr_def isr_cfg_ok_def del: fun_upd_apply) (simp add: fun_upd_def)
  then show ?case by (simp add: e_def lessThan_Suc)
qed

lemma isr_part_dynamic:
  assumes "isr_part cfg {..<m} d" and "m \<le> n"
  shows "isr_part cfg {..<n} (fold init_free_isr [m..<n] d)"
  using assms(2)
proof (induction n rule: dec_induct)
  case base
  show ?case using assms(1) by simp
next
  case (step n)
  then show ?case using isr_part_free[OF step.IH, of n]
    by (simp add: init_free_isr_def Let_def lessThan_Suc)
qed

lemma isr_static_inib:
  "i < n \<Longrightarrow> isrinib (fold (init_static_isr cfg) [0..<n] d) i = sisrinib_table cfg i"
  by (induction n) (auto simp: less_Suc_eq)

lemma isr_part_qfree: "isr_part cfg A (d\<lparr>isrqs := (isrqs d)(FreeIsr := xs)\<rparr>) \<Longrightarrow>
    \<forall>i\<in>A. isratr (isrinib d i) \<noteq> TA_NOEXS \<Longrightarrow> isr_part cfg A (d\<lparr>isrqs := q_initialize FreeIsr (isrqs d)\<rparr>)"
  by (auto simp: isr_part_def queue_simps)

lemma init_static_isr_qfree:
  "fold (init_static_isr cfg) is0 (d\<lparr>isrqs := (isrqs d)(FreeIsr := xs)\<rparr>) =
    (fold (init_static_isr cfg) is0 d)\<lparr>isrqs := (isrqs (fold (init_static_isr cfg) is0 d))(FreeIsr := xs)\<rparr>"
proof (induction is0 arbitrary: d)
  case (Cons i r)
  have "init_static_isr cfg i (d\<lparr>isrqs := (isrqs d)(FreeIsr := xs)\<rparr>) =
      (init_static_isr cfg i d)\<lparr>isrqs := (isrqs (init_static_isr cfg i d))(FreeIsr := xs)\<rparr>"
    by (simp add: init_static_isr_def enqueue_isr_def Let_def fun_upd_twist)
  then show ?case by (simp only: fold_simps Cons.IH)
qed simp

lemma initialize_isr_inv:
  assumes ok: "isr_cfg_ok cfg"
  shows "isr_inv cfg (initialize_isr cfg d)"
proof -
  define d1 where "d1 = fold (\<lambda>i d. d\<lparr>isrqs := q_initialize (IsrQ i) (isrqs d)\<rparr>) [0..<tnum_isr_queue cfg] d"
  define d2 where "d2 = fold (init_static_isr cfg) [0..<tnum_sisr cfg] d1"
  have "isr_part cfg {} (d1\<lparr>isrqs := (isrqs d1)(FreeIsr := [])\<rparr>)"
    by (simp add: d1_def fold_q_initialize isr_part_def)
  from isr_part_static[OF ok this order_refl]
  have "isr_part cfg {..<tnum_sisr cfg} (d2\<lparr>isrqs := (isrqs d2)(FreeIsr := [])\<rparr>)"
    by (simp add: init_static_isr_qfree d2_def)
  then have "isr_part cfg {..<tnum_sisr cfg} (d2\<lparr>isrqs := q_initialize FreeIsr (isrqs d2)\<rparr>)"
    by (rule isr_part_qfree) (use ok in \<open>auto simp: d2_def isr_static_inib isr_cfg_ok_def\<close>)
  then have "isr_part cfg {..<tnum_isr cfg}
      (fold init_free_isr [tnum_sisr cfg..<tnum_isr cfg] (d2\<lparr>isrqs := q_initialize FreeIsr (isrqs d2)\<rparr>))"
    by (rule isr_part_dynamic) (simp add: tnum_isr_def)
  then show ?thesis by (simp add: isr_inv_def initialize_isr_def d2_def d1_def Let_def)
qed

text \<open>The calls.\<close>

lemma acre_isr_inv:
  assumes ok: "isr_cfg_ok cfg" and inv: "isr_inv cfg d" and atr: "target_isratr \<noteq> -1"
  shows "isr_inv cfg (fst (snd (acre_isr valid_intno target_isratr cfg pk (d, s))))"
proof (cases "snd (acre_isr valid_intno target_isratr cfg pk (d, s)) = (d, s) \<or> tnum_isr cfg = 0 \<or> q_empty FreeIsr (isrqs d)")
  case True
  then show ?thesis using inv by (auto simp: acre_isr_def Let_def split: option.splits)
next
  case False
  then obtain q where q: "search_isr_queue cfg (cisr_intno pk) = Some q"
    and "CHECK_RSATR (cisr_isratr pk) target_isratr"
    by (auto simp: acre_isr_def split: if_splits option.splits)
  have natr: "cisr_isratr pk \<noteq> TA_NOEXS"
    using \<open>CHECK_RSATR (cisr_isratr pk) target_isratr\<close> atr
    by (metis CHECK_RSATR_def and.left_neutral bit.compl_zero bit.double_compl)
  have qn: "q < tnum_isr_queue cfg" using q ok by (auto elim!: search_isr_queue_Some simp: isr_cfg_ok_def)
  let ?q = "q_delete_next FreeIsr (isrqs d)"
  let ?ib = "\<lparr>isratr = cisr_isratr pk, isr_exinf = cisr_exinf pk,
    isr_intno = cisr_intno pk, p_isr_queue = q, isr = cisr_isr pk, isrpri = cisr_isrpri pk\<rparr>"
  from False inv have "fst ?q < tnum_isr cfg" "isr_part cfg ({..<tnum_isr cfg} - {fst ?q}) (d\<lparr>isrqs := snd ?q\<rparr>)"
    using isr_part_take_free[of cfg "{..<tnum_isr cfg}" d] by (auto simp: isr_inv_def)
  with isr_part_link[of cfg "{..<tnum_isr cfg} - {fst ?q}" "d\<lparr>isrqs := snd ?q\<rparr>" "fst ?q" ?ib] natr qn
  have "isr_inv cfg (enqueue_isr q (fst ?q) (d\<lparr>isrqs := snd ?q, isrinib := (isrinib d)(fst ?q := ?ib)\<rparr>))"
    by (simp add: isr_inv_def insert_absorb)
  then show ?thesis using False inv q
    by (auto simp: acre_isr_def Let_def split_beta)
qed

lemma del_isr_inv:
  assumes inv: "isr_inv cfg d"
  shows "isr_inv cfg (fst (snd (del_isr cfg isrid (d, s))))"
proof -
  let ?i = "INDEX_ISR cfg isrid"
  let ?d = "d\<lparr>isrqs := q_delete ?i (isrqs d)\<rparr>"
  have "isr_inv cfg (?d\<lparr>isrinib := (isrinib d)(?i := (isrinib d ?i)\<lparr>isratr := TA_NOEXS\<rparr>),
      isrqs := q_insert_prev FreeIsr ?i (isrqs ?d)\<rparr>)" if "VALID_ISRID cfg isrid"
  proof -
    have i: "?i < tnum_isr cfg" using that by (simp add: VALID_ISRID_def INDEX_ISR_def tnum_isr_def)
    then have "isr_part cfg ({..<tnum_isr cfg} - {?i}) ?d"
      using inv isr_part_take[of cfg "{..<tnum_isr cfg}" d ?i] by (simp add: isr_inv_def)
    from isr_part_free[OF this, of ?i] i show ?thesis by (simp add: isr_inv_def insert_absorb)
  qed
  then show ?thesis using inv by (auto simp: del_isr_def Let_def)
qed

text \<open>The states the module goes through, from its initialization.\<close>

inductive isr_reach :: "(INTNO \<Rightarrow> bool) \<Rightarrow> ATR \<Rightarrow> isr_cfg \<Rightarrow> isr_data \<Rightarrow> bool" for valid_intno target_isratr cfg where
  reach_init: "isr_reach valid_intno target_isratr cfg (initialize_isr cfg d)"
| reach_acre: "isr_reach valid_intno target_isratr cfg d \<Longrightarrow>
    acre_isr valid_intno target_isratr cfg pk (d, s) = (r, (d', s')) \<Longrightarrow> isr_reach valid_intno target_isratr cfg d'"
| reach_del: "isr_reach valid_intno target_isratr cfg d \<Longrightarrow>
    del_isr cfg isrid (d, s) = (r, (d', s')) \<Longrightarrow> isr_reach valid_intno target_isratr cfg d'"



end
