(* ===== verification/Asp_Frame.thy ===== *)
theory Asp_Frame
  imports Asp_Timer Asp_Semaphore Asp_Eventflag Asp_Dataqueue Asp_Pridataq Asp_Mailbox Asp_Mempfix Asp_Task_Sync Asp_Task_Manage Asp_Task_Except
begin

text \<open>
  What a service call leaves alone. A call on an object of one kind touches the control blocks of that
  kind only (\<open>others\<close>), takes tasks out of the wait queues of the other kinds but puts none in
  (\<open>wait_sub\<close>), and is \<open>calm\<close> towards the tasks and the handlers: priorities and dormant tasks are
  unchanged, so are the time events of cyclic handlers and alarms, and only tasks of a given set get a
  time event of their own.
\<close>

section \<open>The frame relation\<close>

definition calm :: "tsk set \<Rightarrow> kernel \<Rightarrow> kernel \<Rightarrow> bool" where
  "calm A s s' \<longleftrightarrow>
    (\<forall>p. priority (tcb s' p) = priority (tcb s p) \<and> bpriority (tcb s' p) = bpriority (tcb s p) \<and>
      (tstat (tcb s' p) = TS_DORMANT \<longleftrightarrow> tstat (tcb s p) = TS_DORMANT) \<and>
      (tstat (tcb s p) = TS_DORMANT \<longrightarrow> tcb s' p = tcb s p)) \<and>
    same_clock (tme s) (tme s') \<and>
    (\<forall>b. hdl_event b \<longrightarrow> evts (tme s') b = evts (tme s) b \<and> callback (tmevtb (tme s') b) = callback (tmevtb (tme s) b)) \<and>
    (\<forall>p t. p \<notin> A \<longrightarrow> evts (tme s') (TskTmevtb p) = Some t \<longrightarrow> evts (tme s) (TskTmevtb p) = Some t)"

lemma same_clock_refl [simp]: "same_clock tm tm"
  by (simp add: same_clock_def)

lemma same_clock_trans: "same_clock a b \<Longrightarrow> same_clock b c \<Longrightarrow> same_clock a c"
  by (simp add: same_clock_def)

lemma calm_refl [simp]: "calm A s s"
  by (simp add: calm_def)

lemma calm_trans: "calm A s s1 \<Longrightarrow> calm A s1 s2 \<Longrightarrow> calm A s s2"
  unfolding calm_def by (auto intro: same_clock_trans)

lemma calm_cong:
  assumes "tcb s1' = tcb s1" and "tme s1' = tme s1" and "tcb s2' = tcb s2" and "tme s2' = tme s2"
  shows "calm A s1' s2' = calm A s1 s2"
  by (simp add: calm_def assms)

lemma calm_later:
  assumes "calm {} s s'"
  shows "later_only (tme s) (tme s')"
  unfolding later_only_def
proof (intro conjI allI impI)
  show "same_clock (tme s) (tme s')" using assms by (simp add: calm_def)
  fix b t assume e: "evts (tme s') b = Some t"
  have "hdl_event b \<or> (\<exists>p. b = TskTmevtb p)" by (auto simp: hdl_event_def)
  then show "evts (tme s) b = Some t \<or> EVTTIM_LT (tme s) (current_time (tme s)) t"
    using assms e by (auto simp: calm_def)
qed

definition frame :: "qhead set \<Rightarrow> tsk set \<Rightarrow> kernel \<Rightarrow> kernel \<Rightarrow> bool" where
  "frame Q A s s' \<longleftrightarrow> wait_sub Q s s' \<and> calm A s s'"

lemma frame_refl [simp]: "frame Q A s s"
  by (simp add: frame_def)

lemma frame_trans: "frame Q A s s1 \<Longrightarrow> frame Q A s1 s2 \<Longrightarrow> frame Q A s s2"
  unfolding frame_def by (blast intro: wait_sub_trans calm_trans)

lemma frame_cong:
  assumes "tcb s1' = tcb s1" and "queues s1' = queues s1" and "tme s1' = tme s1"
    and "tcb s2' = tcb s2" and "queues s2' = queues s2" and "tme s2' = tme s2"
  shows "frame Q A s1' s2' = frame Q A s1 s2"
  using wait_sub_cong[of s1' s1 s2' s2] calm_cong[of s1' s1 s2' s2] assms by (simp add: frame_def)

lemma frame_same: "tcb s' = tcb s \<Longrightarrow> queues s' = queues s \<Longrightarrow> tme s' = tme s \<Longrightarrow> frame Q A s s'"
  using frame_cong[of s s s' s Q A] by simp

lemma frame_lock [simp]:
  "frame Q A s (t_lock_cpu s') = frame Q A s s'" "frame Q A s (t_unlock_cpu s') = frame Q A s s'"
  "frame Q A s (i_lock_cpu s') = frame Q A s s'" "frame Q A s (i_unlock_cpu s') = frame Q A s s'"
  "frame Q A (t_lock_cpu s) s' = frame Q A s s'" "frame Q A (i_lock_cpu s) s' = frame Q A s s'"
  "frame Q A (t_unlock_cpu s) s' = frame Q A s s'" "frame Q A (i_unlock_cpu s) s' = frame Q A s s'"
  "frame Q A s (dispatch s') = frame Q A s s'"
  by (rule frame_cong; simp add: lock_sel dispatch_def)+

lemma frame_if [simp]:
  "frame Q A s (dispatch_if r) = frame Q A s (snd r)" "frame Q A s (reqflg_if r) = frame Q A s (snd r)"
proof -
  have "frame Q A s (s'\<lparr>reqflg := b\<rparr>) = frame Q A s s'" for s' b by (rule frame_cong) simp_all
  then show "frame Q A s (dispatch_if r) = frame Q A s (snd r)" "frame Q A s (reqflg_if r) = frame Q A s (snd r)"
    by (simp_all add: dispatch_if_def reqflg_if_def)
qed

lemma frame_upd [simp]:
  "frame Q A s (s'\<lparr>semcb := a\<rparr>) = frame Q A s s'" "frame Q A s (s'\<lparr>free_semcb := b\<rparr>) = frame Q A s s'"
  "frame Q A s (s'\<lparr>flgcb := c\<rparr>) = frame Q A s s'" "frame Q A s (s'\<lparr>free_flgcb := b\<rparr>) = frame Q A s s'"
  "frame Q A s (s'\<lparr>dtqcb := d\<rparr>) = frame Q A s s'" "frame Q A s (s'\<lparr>free_dtqcb := b\<rparr>) = frame Q A s s'"
  "frame Q A s (s'\<lparr>pdqcb := e\<rparr>) = frame Q A s s'" "frame Q A s (s'\<lparr>free_pdqcb := b\<rparr>) = frame Q A s s'"
  "frame Q A s (s'\<lparr>mbxcb := f\<rparr>) = frame Q A s s'" "frame Q A s (s'\<lparr>free_mbxcb := b\<rparr>) = frame Q A s s'"
  "frame Q A s (s'\<lparr>mpfcb := g\<rparr>) = frame Q A s s'" "frame Q A s (s'\<lparr>free_mpfcb := b\<rparr>) = frame Q A s s'"
  "frame Q A s (s'\<lparr>mtxcb := h\<rparr>) = frame Q A s s'" "frame Q A s (s'\<lparr>free_mtxcb := b\<rparr>) = frame Q A s s'"
  "frame Q A s (s'\<lparr>pk_next := i\<rparr>) = frame Q A s s'" "frame Q A s (s'\<lparr>kmm_brk := j\<rparr>) = frame Q A s s'"
  "frame Q A s (s'\<lparr>cyccb := k\<rparr>) = frame Q A s s'" "frame Q A s (s'\<lparr>free_cyccb := b\<rparr>) = frame Q A s s'"
  "frame Q A s (s'\<lparr>almcb := l\<rparr>) = frame Q A s s'" "frame Q A s (s'\<lparr>free_almcb := b\<rparr>) = frame Q A s s'"
  by (rule frame_cong; simp)+

lemma frame_call:
  "frame Q A s (snd (body (t_lock_cpu s))) \<Longrightarrow> frame Q A s (snd (tsk_call body s))"
  "frame Q A s (snd (body' (i_lock_cpu s))) \<Longrightarrow> frame Q A s (snd (int_call body' s))"
  by (simp_all add: tsk_call_def int_call_def case_prod_beta)

section \<open>Release and wait\<close>

lemma calm_release:
  assumes "TSTAT_WAITING (tstat (tcb s p))" and "tm_without p (tme s) tm"
  shows "calm A s (snd (release e tm p s))"
  using assms waiting_not_dormant[OF assms(1)]
  by (auto simp: calm_def tm_without_def hdl_event_def)

lemma frame_release:
  assumes "tsk_inv s" and "TSTAT_WAITING (tstat (tcb s p))" and "tm_without p (tme s) tm"
  shows "frame Q A s (snd (release e tm p s))"
  unfolding frame_def using calm_release[OF assms(2,3)] wait_sub_release tsk_invD(7)[OF assms(1)] by blast

lemma frame_release_op:
  assumes "tsk_inv s" and "TSTAT_WAITING (tstat (tcb s p))"
  shows "frame Q A s (snd (release e (tm_dequeued p s) p s))"
  using frame_release[OF assms tm_dequeued_without[OF assms]] .

lemma calm_winfo:
  "tstat (tcb s p) \<noteq> TS_DORMANT \<Longrightarrow> calm A s (upd_winfo p g s)"
  by (auto simp: calm_def)

lemma frame_wake:
  assumes "winv s" and "queues s q = p # ps" and "is_waitq q"
    and "\<And>w. winfo (g w) = winfo w \<and> p_wobjcb (g w) = p_wobjcb w"
  shows "frame Q A s (snd (wait_complete p (upd_winfo p g (s\<lparr>queues := (queues s)(q := ps)\<rparr>))))"
proof -
  let ?s = "upd_winfo p g s"
  have w: "tsk_inv ?s" "TSTAT_WAITING (tstat (tcb ?s p))"
    using winv_winfo[OF assms(1,4)] waitq_waiting(1)[OF winvD(1)[OF assms(1)] _ assms(3)] assms(2) by (auto dest: winvD)
  have e: "upd_winfo p g (s\<lparr>queues := (queues s)(q := ps)\<rparr>) = ?s\<lparr>queues := (queues ?s)(q := ps)\<rparr>" by simp
  have "calm A ?s (snd (wait_complete p (upd_winfo p g (s\<lparr>queues := (queues s)(q := ps)\<rparr>))))"
    unfolding e using wait_complete_release[OF w(1), of q p ps] assms(2) calm_release[OF w(2) tm_dequeued_without[OF w]] by simp
  then have "calm A s (snd (wait_complete p (upd_winfo p g (s\<lparr>queues := (queues s)(q := ps)\<rparr>))))"
    using calm_trans[OF calm_winfo] waiting_not_dormant[OF w(2)] by simp
  then show ?thesis using wake_obj(2)[OF assms refl] by (simp add: frame_def)
qed

lemma frame_wake0:
  assumes "winv s" and "queues s q = p # ps" and "is_waitq q"
  shows "frame Q A s (snd (wait_complete p (s\<lparr>queues := (queues s)(q := ps)\<rparr>)))"
  using frame_release_op[OF winvD(1)[OF assms(1)] waitq_waiting(1)[OF winvD(1)[OF assms(1)] _ assms(3)]]
    wait_complete_release[OF winvD(1)[OF assms(1)] assms(2)] assms(2) by simp

lemma calm_blocked:
  assumes "tsk_inv s" and "TSTAT_RUNNABLE (tstat (tcb s p))" and "p \<in> A" and "v \<noteq> TS_DORMANT"
    and "tcb s' = (tcb s)(p := (tcb s p)\<lparr>tstat := v, p_winfo := w\<rparr>)" and "tme s' = tm_enqueued p tmout cb (tme s)"
  shows "calm A s s'"
proof -
  have "tstat (tcb s p) \<noteq> TS_DORMANT" using assms(2) by (auto simp: TSTAT_RUNNABLE_def)
  then show ?thesis
    using assms(3-6) tm_enqueued_ok[OF tsk_invD(2)[OF assms(1)] runnable_ready(3)[OF assms(1,2)], of tmout cb]
    by (auto simp: calm_def hdl_event_def)
qed

lemma frame_block:
  assumes "kinv s" and "p_runtsk s = Some p" and "p \<in> A" and "WaitQ w \<in> Q" and "c \<noteq> TS_DORMANT"
  shows "frame Q A s (wobj_make_wait_tmout w tmout (set_tstat p c (upd_winfo p g s)))"
    (is "frame Q A s (wobj_make_wait_tmout w tmout ?s)")
proof -
  have "wait_sub {WaitQ w} s (wobj_make_wait_tmout w tmout ?s)"
    using wait_sub_wobj_wait[OF kinvD(2)[OF assms(1)] assms(2), of ?s] assms(2) by simp
  then have "wait_sub Q s (wobj_make_wait_tmout w tmout ?s)" by (rule wait_sub_mono) (use assms(4) in simp)
  moreover have "calm A s (wobj_make_wait_tmout w tmout ?s)"
    by (rule calm_blocked[OF kinvD(1)[OF assms(1)] kinvD(3)[OF assms(1,2)] assms(3,5)])
      (use assms(2) in simp_all)
  ultimately show ?thesis by (simp add: frame_def)
qed

lemma frame_rblock:
  assumes "kinv s" and "p_runtsk s = Some p" and "p \<in> A" and "RWaitQ w \<in> Q" and "c \<noteq> TS_DORMANT"
  shows "frame Q A s (rwait_tmout w tmout (set_tstat p c (upd_winfo p g s)))"
    (is "frame Q A s (rwait_tmout w tmout ?s)")
proof -
  have "wait_sub {RWaitQ w} s (rwait_tmout w tmout ?s)"
    using wait_sub_rwait[OF kinvD(2)[OF assms(1)] assms(2), of ?s] assms(2) by simp
  then have "wait_sub Q s (rwait_tmout w tmout ?s)" by (rule wait_sub_mono) (use assms(4) in simp)
  moreover have "calm A s (rwait_tmout w tmout ?s)"
    by (rule calm_blocked[OF kinvD(1)[OF assms(1)] kinvD(3)[OF assms(1,2)] assms(3,5)])
      (use assms(2) in \<open>simp_all add: rwait_tmout_sel\<close>, simp add: rwait_tmout_def)
  ultimately show ?thesis by (simp add: frame_def)
qed

lemma frame_init:
  assumes "is_waitq q"
  shows "winv s \<Longrightarrow> frame Q A s (snd (init_wait_queue q s))"
  using assms
proof (induction s rule: init_wait_queue_induct)
  case (round s)
  show ?case
  proof (cases "queues s q")
    case Nil
    then show ?thesis by (subst init_wait_queue_round) (simp add: q_empty_def)
  next
    case (Cons p ps)
    note i = winvD(1)[OF round.prems(1)]
    have w: "TSTAT_WAITING (tstat (tcb s p))" using waitq_waiting(1)[OF i _ assms] Cons by simp
    have r: "init_wait_round q s = release E_DLT (tm_dequeued p s) p s"
      by (rule init_wait_round_release[OF i Cons])
    have k: "winv (snd (init_wait_round q s))"
      using release_op_ok[OF round.prems(1) w tm_dequeued_without[OF i w], of E_DLT] unfolding r by (simp add: op_ok_def)
    have "frame Q A s (snd (init_wait_round q s))" using frame_release_op[OF i w] unfolding r .
    moreover have "frame Q A (snd (init_wait_round q s)) (snd (init_wait_queue q (snd (init_wait_round q s))))"
      using round k Cons by (simp add: q_empty_def)
    ultimately show ?thesis using Cons frame_trans
      by (subst init_wait_queue_round) (simp_all add: q_empty_def assms split_beta)
  qed
qed (subst init_wait_queue_round, simp)

section \<open>The kinds of objects\<close>

datatype okind = OTsk | OMtx | OSem | OFlg | ODtq | OPdq | OMbx | OMpf | OCyc | OAlm

primrec wkind :: "wobj \<Rightarrow> okind" where
  "wkind (SEM i) = OSem" | "wkind (FLG i) = OFlg" | "wkind (DTQ i) = ODtq" | "wkind (PDQ i) = OPdq"
| "wkind (MBX i) = OMbx" | "wkind (MPF i) = OMpf" | "wkind (MTX i) = OMtx"

definition kindq :: "okind \<Rightarrow> qhead set" where
  "kindq K = {q. \<exists>w. wkind w = K \<and> (q = WaitQ w \<or> q = RWaitQ w)}"

lemma kindq_simps [simp]: "WaitQ w \<in> kindq K \<longleftrightarrow> wkind w = K" "RWaitQ w \<in> kindq K \<longleftrightarrow> wkind w = K"
  by (auto simp: kindq_def)

text \<open>The control blocks of the other kinds.\<close>

definition others where
  "others K s =
    ((if K = OMtx then None else Some (mtxqs s, mtxcb s, free_mtxcb s),
      if K = OSem then None else Some (semcb s, free_semcb s),
      if K = OFlg then None else Some (flgcb s, free_flgcb s),
      if K = ODtq then None else Some (dtqcb s, free_dtqcb s),
      if K = OPdq then None else Some (pdqcb s, free_pdqcb s)),
     (if K = OMbx then None else Some (mbxcb s, free_mbxcb s, pk_next s), msgpri s,
      if K = OMpf then None else Some (mpfcb s, free_mpfcb s),
      if K = OCyc then None else Some (cyccb s, free_cyccb s),
      if K = OAlm then None else Some (almcb s, free_almcb s)))"

lemma others_objects: "objects s' = objects s \<Longrightarrow> others K s' = others K s"
  using objectsD[of s' s] by (simp add: others_def)

lemma others_upd [simp]:
  "others K (s\<lparr>tcb := a\<rparr>) = others K s" "others K (s\<lparr>queues := b\<rparr>) = others K s" "others K (s\<lparr>tme := c\<rparr>) = others K s"
  "others K (s\<lparr>kmm_brk := j\<rparr>) = others K s" "others K (s\<lparr>reqflg := x\<rparr>) = others K s" "others K (s\<lparr>p_runtsk := y\<rparr>) = others K s"
  "others K (s\<lparr>intpri := z\<rparr>) = others K s" "others K (s\<lparr>dspflg := x\<rparr>) = others K s" "others K (s\<lparr>disdsp := x\<rparr>) = others K s"
  "others K (s\<lparr>ipmflg := x\<rparr>) = others K s" "others K (s\<lparr>p_schedtsk := y\<rparr>) = others K s"
  "others OSem (s\<lparr>semcb := d\<rparr>) = others OSem s" "others OSem (s\<lparr>free_semcb := l\<rparr>) = others OSem s"
  "others OFlg (s\<lparr>flgcb := e\<rparr>) = others OFlg s" "others OFlg (s\<lparr>free_flgcb := l\<rparr>) = others OFlg s"
  "others ODtq (s\<lparr>dtqcb := f\<rparr>) = others ODtq s" "others ODtq (s\<lparr>free_dtqcb := l\<rparr>) = others ODtq s"
  "others OPdq (s\<lparr>pdqcb := g\<rparr>) = others OPdq s" "others OPdq (s\<lparr>free_pdqcb := l\<rparr>) = others OPdq s"
  "others OMbx (s\<lparr>mbxcb := h\<rparr>) = others OMbx s" "others OMbx (s\<lparr>free_mbxcb := l\<rparr>) = others OMbx s"
  "others OMbx (s\<lparr>pk_next := i\<rparr>) = others OMbx s"
  "others OMpf (s\<lparr>mpfcb := k\<rparr>) = others OMpf s" "others OMpf (s\<lparr>free_mpfcb := l\<rparr>) = others OMpf s"
  "others OCyc (s\<lparr>cyccb := m\<rparr>) = others OCyc s" "others OCyc (s\<lparr>free_cyccb := l\<rparr>) = others OCyc s"
  "others OAlm (s\<lparr>almcb := n\<rparr>) = others OAlm s" "others OAlm (s\<lparr>free_almcb := l\<rparr>) = others OAlm s"
  by (simp_all add: others_def)

lemma others_prims [simp]:
  "others K (t_lock_cpu s) = others K s" "others K (t_unlock_cpu s) = others K s"
  "others K (i_lock_cpu s) = others K s" "others K (i_unlock_cpu s) = others K s"
  "others K (dispatch s) = others K s" "others K (dispatch_if r) = others K (snd r)" "others K (reqflg_if r) = others K (snd r)"
  "others K (snd (wait_complete p s)) = others K s" "others K (snd (wait_release p s)) = others K s"
  "others K (wobj_make_wait_tmout w tmout s) = others K s" "others K (rwait_tmout w tmout s) = others K s"
  "others K (make_wait_tmout tmout s) = others K s" "others K (snd (init_wait_queue q s)) = others K s"
  by (rule others_objects; simp add: rwait_tmout_sel)+

definition touches :: "okind \<Rightarrow> tsk set \<Rightarrow> kernel \<Rightarrow> kernel \<Rightarrow> bool" where
  "touches K A s s' \<longleftrightarrow> others K s' = others K s \<and> frame (kindq K) A s s'"

lemma touches_refl [simp]: "touches K A s s"
  by (simp add: touches_def)

lemma touches_trans: "touches K A s s1 \<Longrightarrow> touches K A s1 s2 \<Longrightarrow> touches K A s s2"
  unfolding touches_def by (auto intro: frame_trans)

lemma touches_call:
  "touches K A (t_lock_cpu s) (snd (body (t_lock_cpu s))) \<Longrightarrow> touches K A s (snd (tsk_call body s))"
  "touches K A (i_lock_cpu s) (snd (body' (i_lock_cpu s))) \<Longrightarrow> touches K A s (snd (int_call body' s))"
  by (simp_all add: touches_def tsk_call_def int_call_def case_prod_beta)

lemma touchesI: "others K s' = others K s \<Longrightarrow> frame (kindq K) A s s' \<Longrightarrow> touches K A s s'"
  by (simp add: touches_def)

text \<open>The same steps after a first part of a call.\<close>

lemma frame_wake_hd:
  assumes "frame Q A s t" and "kinv t" and "queues t q \<noteq> []" and "is_waitq q"
  shows "frame Q A s (snd (wait_complete (hd (queues t q)) (t\<lparr>queues := (queues t)(q := tl (queues t q))\<rparr>)))"
    and "(\<And>w. winfo (g w) = winfo w \<and> p_wobjcb (g w) = p_wobjcb w) \<Longrightarrow> frame Q A s
      (snd (wait_complete (hd (queues t q)) (upd_winfo (hd (queues t q)) g (t\<lparr>queues := (queues t)(q := tl (queues t q))\<rparr>))))"
  using frame_trans[OF assms(1)] frame_wake0[OF kinvD(2)[OF assms(2)], of q "hd (queues t q)" "tl (queues t q)"]
    frame_wake[OF kinvD(2)[OF assms(2)], of q "hd (queues t q)" "tl (queues t q)" g] assms(3,4) by simp_all

lemma frame_block_at:
  assumes "frame Q A s t" and "kinv t" and "p_runtsk t = Some p" and "p \<in> A" and "c \<noteq> TS_DORMANT"
  shows "WaitQ w \<in> Q \<Longrightarrow> frame Q A s (wobj_make_wait_tmout w tmout (set_tstat p c (upd_winfo p g t)))"
    and "WaitQ w \<in> Q \<Longrightarrow> frame Q A s (wobj_make_wait_tmout w tmout (set_tstat p c t))"
    and "RWaitQ w \<in> Q \<Longrightarrow> frame Q A s (rwait_tmout w tmout (set_tstat p c t))"
    and "WaitQ w \<in> Q \<Longrightarrow> frame Q A s (wobj_make_wait_tmout w tmout
      (t\<lparr>tcb := (tcb t)(p := (tcb t p)\<lparr>p_winfo := g (winfos t p), tstat := c\<rparr>)\<rparr>))"
  using frame_trans[OF assms(1)] frame_block[OF assms(2-4) _ assms(5), of w Q tmout g]
    frame_block[OF assms(2-4) _ assms(5), of w Q tmout "\<lambda>w. w"] frame_rblock[OF assms(2-4) _ assms(5), of w Q tmout "\<lambda>w. w"]
  by simp_all

lemma frame_init_at:
  "frame Q A s t \<Longrightarrow> winv t \<Longrightarrow> is_waitq q \<Longrightarrow> frame Q A s (snd (init_wait_queue q t))"
  using frame_trans frame_init by blast

lemma winv_init_wait_queue: "winv t \<Longrightarrow> is_waitq q \<Longrightarrow> winv (snd (init_wait_queue q t))"
  using init_wait_queue_op_ok by (simp add: op_ok_def)

lemma frame_q_init:
  assumes "frame Q A s u" and "f = queues u"
  shows "frame Q A s (u\<lparr>queues := q_initialize q f\<rparr>)" and "frame Q A s (u\<lparr>queues := f(q := [])\<rparr>)"
    and "frame Q A s (u\<lparr>queues := q_initialize q' (q_initialize q f)\<rparr>)"
  by (rule frame_trans[OF assms(1)], simp add: frame_def wait_sub_def calm_def queue_simps assms(2))+

lemmas frame_steps0 = touches_call touchesI frame_wake_hd frame_block_at frame_init_at winv_init_wait_queue
lemmas frame_steps = frame_steps0 frame_q_init(1,2)

lemma winv_lock [simp]:
  "winv (t_lock_cpu s) = winv s" "winv (i_lock_cpu s) = winv s"
  by (simp_all add: winv_def lock_sel)

lemma is_waitq_simps [simp]: "is_waitq (WaitQ w)" "is_waitq (RWaitQ w)"
  by (simp_all add: is_waitq_def)

section \<open>Semaphores\<close>

lemma sem_touches:
  assumes "kinv s"
  shows "touches OSem {} s (snd (sig_sem cfg semid s))" and "touches OSem {} s (snd (isig_sem cfg semid s))"
    and "touches OSem {} s (snd (pol_sem cfg semid s))" and "touches OSem {} s (snd (ref_sem cfg semid s))"
    and "touches OSem {} s (snd (ini_sem cfg semid s))" and "touches OSem {} s (snd (del_sem cfg semid s))"
    and "touches OSem {} s (snd (acre_sem cfg pk s))"
  using assms kinvD(2)[OF assms]
  by (auto simp: sig_sem_def isig_sem_def pol_sem_def ref_sem_def ini_sem_def del_sem_def acre_sem_def Let_def
      q_delete_next_def q_empty_def split_beta intro!: frame_steps)

lemma sem_wait_touches:
  assumes "kinv s" and "p_runtsk s = Some p"
  shows "touches OSem {p} s (snd (wai_sem cfg semid s))" and "touches OSem {p} s (snd (twai_sem cfg semid tmout s))"
  using assms
  by (auto simp: wai_sem_def twai_sem_def Let_def wobj_make_wait_eq intro!: frame_steps)

section \<open>Event flags\<close>

lemma wait_complete_delete:
  "wait_complete p (s\<lparr>queues := q_delete p (queues s)\<rparr>) = release E_OK (tm_dequeued p s) p s"
  using tm_dequeued_cong[of "s\<lparr>queues := q_delete p (queues s)\<rparr>" s p]
  by (simp add: wait_complete_def wait_dequeue_tmevtb_eq release_def Let_def)

lemma flg_wake_touches:
  assumes "winv s" and "p \<in> set (queues s (WaitQ (FLG i)))"
  shows "touches OFlg A s (snd (flg_wake i p s))"
proof -
  define s1 where "s1 = upd_winfo p (\<lambda>w. w\<lparr>w_flgptn := flgptn (flgcb s i)\<rparr>)
      (if flg_atr s i AND TA_CLR \<noteq> 0 then upd_flg i (\<lambda>c. c\<lparr>flgptn := 0\<rparr>) s else s)"
  have e: "flg_wake i p s = wait_complete p (s1\<lparr>queues := q_delete p (queues s1)\<rparr>)"
    by (simp add: flg_wake_def s1_def Let_def)
  have t: "TSTAT_WAITING (tstat (tcb s p))" using waitq_waiting(1)[OF winvD(1)[OF assms(1)] assms(2)] by simp
  have "winv (upd_winfo p (\<lambda>w. w\<lparr>w_flgptn := flgptn (flgcb s i)\<rparr>) s)" (is "winv ?u") by (rule winv_winfo[OF assms(1)]) simp
  moreover have "same_tasks ?u s1" "wobjatr s1 = wobjatr ?u" by (simp_all add: s1_def same_tasks_def)
  ultimately have w: "tsk_inv s1" using same_tasks_kinv(2)[of ?u s1] winvD(1) by blast
  have t1: "TSTAT_WAITING (tstat (tcb s1 p))" using t by (simp add: s1_def)
  have "calm A s s1" using waiting_not_dormant[OF t] by (auto simp: s1_def calm_def)
  then have "calm A s (snd (flg_wake i p s))"
    using calm_trans calm_release[OF t1 tm_dequeued_without[OF w t1]] unfolding e wait_complete_delete by blast
  moreover have "others OFlg (snd (flg_wake i p s)) = others OFlg s" by (simp add: flg_wake_def Let_def)
  ultimately show ?thesis using flg_wake_release(2)[OF assms] by (simp add: touches_def frame_def)
qed

lemma set_flg_loop_touches:
  assumes "winv s" and "set ps \<subseteq> set (queues s (WaitQ (FLG i)))" and "distinct ps"
  shows "touches OFlg A s (snd (set_flg_loop i ps s))"
  using assms
proof (induction ps arbitrary: s)
  case (Cons p ps)
  let ?s = "snd (flg_wake i p s)"
  have p: "p \<in> set (queues s (WaitQ (FLG i)))" using Cons.prems(2) by simp
  note w = flg_wake_touches[OF Cons.prems(1) p] and f = flg_wake_release[OF Cons.prems(1) p]
  have "touches OFlg A ?s (snd (set_flg_loop i ps ?s))"
  proof (rule Cons.IH)
    show "winv ?s" using f(1) by (simp add: op_ok_def)
    have "x \<in> set (remove1 p (queues s (WaitQ (FLG i))))" if "x \<in> set ps" for x
      using Cons.prems(2,3) that by (cases "x = p") auto
    then show "set ps \<subseteq> set (queues ?s (WaitQ (FLG i)))" using f(4)[of "WaitQ (FLG i)"] by auto
  qed (use Cons.prems(3) in simp)
  then show ?case using touches_trans[OF w] w Cons by (simp add: set_flg_loop_step)
qed simp

lemma set_flg_body_touches:
  assumes "kinv s"
  shows "frame (kindq OFlg) A u s \<Longrightarrow>
      frame (kindq OFlg) A u (snd (set_flg_loop i (queues s (WaitQ (FLG i))) (s\<lparr>flgcb := (flgcb s)(i := (flgcb s i)\<lparr>flgptn := n\<rparr>)\<rparr>)))"
    and "others OFlg (snd (set_flg_loop i (queues s (WaitQ (FLG i))) (s\<lparr>flgcb := (flgcb s)(i := (flgcb s i)\<lparr>flgptn := n\<rparr>)\<rparr>))) = others OFlg s"
proof -
  let ?s = "s\<lparr>flgcb := (flgcb s)(i := (flgcb s i)\<lparr>flgptn := n\<rparr>)\<rparr>"
  have "winv ?s" using kinvD(2)[OF assms] same_tasks_kinv(2)[of s ?s] by (simp add: same_tasks_def)
  then have "touches OFlg A ?s (snd (set_flg_loop i (queues s (WaitQ (FLG i))) ?s))"
    using queues_okD(1)[OF tsk_invD(7)[OF kinvD(1)[OF assms]]] by (intro set_flg_loop_touches) simp_all
  then show "frame (kindq OFlg) A u s \<Longrightarrow> frame (kindq OFlg) A u (snd (set_flg_loop i (queues s (WaitQ (FLG i))) ?s))"
    "others OFlg (snd (set_flg_loop i (queues s (WaitQ (FLG i))) ?s)) = others OFlg s"
    using frame_trans[of "kindq OFlg" A u ?s] by (simp_all add: touches_def)
qed

lemma flg_touches:
  assumes "kinv s"
  shows "touches OFlg {} s (snd (acre_flg cfg pk s))" and "touches OFlg {} s (snd (del_flg cfg flgid s))"
    and "touches OFlg {} s (snd (set_flg cfg flgid ptn s))" and "touches OFlg {} s (snd (iset_flg cfg flgid ptn s))"
    and "touches OFlg {} s (snd (clr_flg cfg flgid ptn s))" and "touches OFlg {} s (snd (pol_flg cfg flgid waiptn wfmode s))"
    and "touches OFlg {} s (snd (ini_flg cfg flgid s))" and "touches OFlg {} s (snd (ref_flg cfg flgid s))"
  using assms kinvD(2)[OF assms]
  by (auto simp: acre_flg_def del_flg_def set_flg_def iset_flg_def clr_flg_def pol_flg_def ini_flg_def ref_flg_def
      check_flg_cond_def set_flg_body_touches Let_def q_empty_def split_beta intro!: frame_steps)

lemma flg_wait_touches:
  assumes "kinv s" and "p_runtsk s = Some p"
  shows "touches OFlg {p} s (snd (wai_flg cfg flgid waiptn wfmode s))" and "touches OFlg {p} s (snd (twai_flg cfg flgid waiptn wfmode tmout s))"
  using assms
  by (auto simp: wai_flg_def twai_flg_def check_flg_cond_def Let_def wobj_make_wait_eq split_beta intro!: frame_steps)

section \<open>Data queues\<close>

text \<open>A release does not look at the control blocks of objects.\<close>

lemma make_runnable_cb:
  "make_runnable p (s\<lparr>dtqcb := c\<rparr>) = (fst (make_runnable p s), (snd (make_runnable p s))\<lparr>dtqcb := c\<rparr>)"
  "make_runnable p (s\<lparr>pdqcb := d\<rparr>) = (fst (make_runnable p s), (snd (make_runnable p s))\<lparr>pdqcb := d\<rparr>)"
  by (simp_all add: make_runnable_def primap_set_def Let_def)

lemma wait_complete_cb:
  "snd (wait_complete p (s\<lparr>dtqcb := c\<rparr>)) = (snd (wait_complete p s))\<lparr>dtqcb := c\<rparr>"
  "snd (wait_complete p (s\<lparr>pdqcb := d\<rparr>)) = (snd (wait_complete p s))\<lparr>pdqcb := d\<rparr>"
proof -
  have "wait_dequeue_tmevtb p (s\<lparr>dtqcb := c\<rparr>) = (wait_dequeue_tmevtb p s)\<lparr>dtqcb := c\<rparr>"
    "wait_dequeue_tmevtb p (s\<lparr>pdqcb := d\<rparr>) = (wait_dequeue_tmevtb p s)\<lparr>pdqcb := d\<rparr>"
    by (simp_all add: wait_dequeue_tmevtb_def split: winfo_union.splits option.splits)
  moreover have n: "snd (make_non_wait p (t\<lparr>dtqcb := c\<rparr>)) = (snd (make_non_wait p t))\<lparr>dtqcb := c\<rparr>"
    "snd (make_non_wait p (t\<lparr>pdqcb := d\<rparr>)) = (snd (make_non_wait p t))\<lparr>pdqcb := d\<rparr>" for t
  proof -
    have e: "t\<lparr>dtqcb := c, tcb := x\<rparr> = t\<lparr>tcb := x, dtqcb := c\<rparr>" "t\<lparr>pdqcb := d, tcb := x\<rparr> = t\<lparr>tcb := x, pdqcb := d\<rparr>" for x
      by simp_all
    show "snd (make_non_wait p (t\<lparr>dtqcb := c\<rparr>)) = (snd (make_non_wait p t))\<lparr>dtqcb := c\<rparr>"
      "snd (make_non_wait p (t\<lparr>pdqcb := d\<rparr>)) = (snd (make_non_wait p t))\<lparr>pdqcb := d\<rparr>"
      by (simp_all only: make_non_wait_def kernel.simps e make_runnable_cb if_distrib[of snd] snd_conv split: if_split) simp_all
  qed
  moreover have "set_wercd p E_OK (t\<lparr>dtqcb := c\<rparr>) = (set_wercd p E_OK t)\<lparr>dtqcb := c\<rparr>"
    "set_wercd p E_OK (t\<lparr>pdqcb := d\<rparr>) = (set_wercd p E_OK t)\<lparr>pdqcb := d\<rparr>" for t by simp_all
  ultimately show "snd (wait_complete p (s\<lparr>dtqcb := c\<rparr>)) = (snd (wait_complete p s))\<lparr>dtqcb := c\<rparr>"
    "snd (wait_complete p (s\<lparr>pdqcb := d\<rparr>)) = (snd (wait_complete p s))\<lparr>pdqcb := d\<rparr>"
    unfolding wait_complete_def Let_def by metis+
qed

lemma frame_wake_cb:
  assumes "frame Q A s t" and "kinv t" and "queues t q \<noteq> []" and "is_waitq q"
  shows "frame Q A s (snd (wait_complete (hd (queues t q)) (t\<lparr>dtqcb := c, queues := (queues t)(q := tl (queues t q))\<rparr>)))"
    and "frame Q A s (snd (wait_complete (hd (queues t q)) (t\<lparr>pdqcb := d, queues := (queues t)(q := tl (queues t q))\<rparr>)))"
    and "frame Q A s (snd (wait_complete (hd (queues t q)) (t\<lparr>queues := (queues t)(q := tl (queues t q)), dtqcb := c\<rparr>)))"
    and "frame Q A s (snd (wait_complete (hd (queues t q)) (t\<lparr>queues := (queues t)(q := tl (queues t q)), pdqcb := d\<rparr>)))"
  using frame_wake_hd(1)[OF assms] wait_complete_cb[where p = "hd (queues t q)" and s = "t\<lparr>queues := (queues t)(q := tl (queues t q))\<rparr>"]
  by (simp_all add: dtqcb_before_queues pdqcb_before_queues)

lemma send_data_touches:
  assumes "kinv t" and "frame Q A s t"
  shows "frame Q A s (snd (send_data i d t))" and "others ODtq (snd (send_data i d t)) = others ODtq t"
    and "frame Q A s (snd (force_send_data i d t))" and "others ODtq (snd (force_send_data i d t)) = others ODtq t"
    and "frame Q A s (snd (receive_data i t))" and "others ODtq (snd (receive_data i t)) = others ODtq t"
  using frame_wake_hd[OF assms(2,1)] frame_wake_cb[OF assms(2,1)] assms(2)
  by (auto simp: send_data_def force_send_data_def receive_data_def q_empty_def q_delete_next_def Let_def split_beta)

lemma send_data_None: "send_data i d t = (None, t') \<Longrightarrow> t' = t" "receive_data i t = (None, t') \<Longrightarrow> t' = t"
  by (auto simp: send_data_def receive_data_def Let_def split: if_splits prod.splits)

lemma frame_malloc: "frame Q A s t \<Longrightarrow> frame Q A s (snd (kernel_malloc cfg n t))"
  by (simp add: kernel_malloc_def Let_def)

lemma others_malloc [simp]:
  "others K (snd (kernel_malloc cfg n t)) = others K t" "others K (kernel_free x t) = others K t"
  by (simp_all add: kernel_malloc_def kernel_free_def Let_def)

lemma frame_free [simp]: "frame Q A s (kernel_free x t) = frame Q A s t"
  by (simp add: kernel_free_def)

lemma frame_send:
  assumes "kinv t" and "frame Q A s t" and "send_data i d t = (x, t')"
  shows "frame Q A s t'" and "others ODtq t' = others ODtq t"
  using send_data_touches(1,2)[OF assms(1,2), of i d] by (simp_all add: assms(3))

lemma frame_receive:
  assumes "kinv t" and "frame Q A s t" and "receive_data i t = (x, t')"
  shows "frame Q A s t'" and "others ODtq t' = others ODtq t"
  using send_data_touches(5,6)[OF assms(1,2), of i] by (simp_all add: assms(3))

lemma dtq_touches:
  assumes "kinv s"
  shows "touches ODtq {} s (snd (del_dtq cfg dtqid s))" and "touches ODtq {} s (snd (acre_dtq cfg pk s))"
    and "touches ODtq {} s (snd (psnd_dtq cfg dtqid d s))" and "touches ODtq {} s (snd (ipsnd_dtq cfg dtqid d s))"
    and "touches ODtq {} s (snd (fsnd_dtq cfg dtqid d s))" and "touches ODtq {} s (snd (ifsnd_dtq cfg dtqid d s))"
    and "touches ODtq {} s (snd (prcv_dtq cfg dtqid s))" and "touches ODtq {} s (snd (ini_dtq cfg dtqid s))"
    and "touches ODtq {} s (snd (ref_dtq cfg dtqid s))"
proof -
  show "touches ODtq {} s (snd (del_dtq cfg dtqid s))" "touches ODtq {} s (snd (ini_dtq cfg dtqid s))"
    "touches ODtq {} s (snd (ref_dtq cfg dtqid s))"
    using assms kinvD(2)[OF assms] by (auto simp: del_dtq_def ini_dtq_def ref_dtq_def Let_def split_beta intro!: frame_steps)
  show "touches ODtq {} s (snd (acre_dtq cfg pk s))"
    using assms by (auto simp: acre_dtq_def Let_def split_beta intro!: frame_steps0 frame_q_init(3) frame_malloc)
  show "touches ODtq {} s (snd (psnd_dtq cfg dtqid d s))" "touches ODtq {} s (snd (ipsnd_dtq cfg dtqid d s))"
    "touches ODtq {} s (snd (fsnd_dtq cfg dtqid d s))" "touches ODtq {} s (snd (ifsnd_dtq cfg dtqid d s))"
    "touches ODtq {} s (snd (prcv_dtq cfg dtqid s))"
    using assms send_data_touches[of "t_lock_cpu s" "kindq ODtq" "{}" s] send_data_touches[of "i_lock_cpu s" "kindq ODtq" "{}" s]
    by (auto simp: psnd_dtq_def ipsnd_dtq_def fsnd_dtq_def ifsnd_dtq_def prcv_dtq_def Let_def split_beta
      intro!: touches_call touchesI split: option.split prod.split)
qed

lemma dtq_wait_touches:
  assumes "kinv s" and "p_runtsk s = Some p"
  shows "touches ODtq {p} s (snd (snd_dtq cfg dtqid d s))" and "touches ODtq {p} s (snd (tsnd_dtq cfg dtqid d tmout s))"
    and "touches ODtq {p} s (snd (rcv_dtq cfg dtqid s))" and "touches ODtq {p} s (snd (trcv_dtq cfg dtqid tmout s))"
proof -
  have t: "kinv (t_lock_cpu s)" "frame (kindq ODtq) {p} s (t_lock_cpu s)" using assms(1) by simp_all
  obtain x s1 where e: "send_data (INDEX_DTQ dtqid) d (t_lock_cpu s) = (x, s1)" by fastforce
  note f = frame_send[OF t e] send_data_None(1)[of "INDEX_DTQ dtqid" d "t_lock_cpu s" s1]
  show "touches ODtq {p} s (snd (snd_dtq cfg dtqid d s))" "touches ODtq {p} s (snd (tsnd_dtq cfg dtqid d tmout s))"
    using assms t f
    by (cases x; auto simp: e snd_dtq_def tsnd_dtq_def wobj_make_wait_eq Let_def intro!: frame_steps)+
  obtain y s2 where e: "receive_data (INDEX_DTQ dtqid) (t_lock_cpu s) = (y, s2)" by fastforce
  note f = frame_receive[OF t e] send_data_None(2)[of "INDEX_DTQ dtqid" "t_lock_cpu s" s2]
  have r: "frame (kindq ODtq) {p} s (rwait_tmout (DTQ i) tmo (set_tstat p (TS_WAITING OR TS_WAIT_RDTQ) (t_lock_cpu s)))" for i tmo
    by (rule frame_block_at(3)[OF t(2,1)]) (use assms(2) in simp_all)
  show "touches ODtq {p} s (snd (rcv_dtq cfg dtqid s))"
    using assms t f r[of "INDEX_DTQ dtqid" TMO_FEVR]
    by (cases y; auto simp: e rcv_dtq_def make_wait_sel Let_def rwait_tmout_def intro!: touches_call touchesI)
  show "touches ODtq {p} s (snd (trcv_dtq cfg dtqid tmout s))"
    using assms t f r[of "INDEX_DTQ dtqid" tmout]
    by (cases y; auto simp: e trcv_dtq_def Let_def rwait_tmout_def intro!: touches_call touchesI)
qed

section \<open>Priority data queues\<close>

lemma send_pridata_touches:
  assumes "kinv t" and "frame Q A s t"
  shows "frame Q A s (snd (send_pridata i d pri t))" and "others OPdq (snd (send_pridata i d pri t)) = others OPdq t"
    and "frame Q A s (snd (receive_pridata i t))" and "others OPdq (snd (receive_pridata i t)) = others OPdq t"
  using frame_wake_hd(1)[OF assms(2,1)]
    frame_wake_hd(2)[OF assms(2,1), where g = "\<lambda>w. w\<lparr>w_data := d, w_datapri := pri\<rparr>"] frame_wake_cb[OF assms(2,1)] assms(2)
  by (auto simp: send_pridata_def receive_pridata_def q_empty_def q_delete_next_def Let_def split_beta)

lemma send_pridata_None: "send_pridata i d pri t = (None, t') \<Longrightarrow> t' = t" "receive_pridata i t = (None, t') \<Longrightarrow> t' = t"
  by (auto simp: send_pridata_def receive_pridata_def Let_def split: if_splits prod.splits)

lemma frame_psend:
  assumes "kinv t" and "frame Q A s t" and "send_pridata i d pri t = (x, t')"
  shows "frame Q A s t'" and "others OPdq t' = others OPdq t"
  using send_pridata_touches(1,2)[OF assms(1,2), of i d pri] by (simp_all add: assms(3))

lemma frame_preceive:
  assumes "kinv t" and "frame Q A s t" and "receive_pridata i t = (x, t')"
  shows "frame Q A s t'" and "others OPdq t' = others OPdq t"
  using send_pridata_touches(3,4)[OF assms(1,2), of i] by (simp_all add: assms(3))

lemma pdq_touches:
  assumes "kinv s"
  shows "touches OPdq {} s (snd (del_pdq cfg pdqid s))" and "touches OPdq {} s (snd (acre_pdq cfg pk s))"
    and "touches OPdq {} s (snd (psnd_pdq cfg pdqid d pri s))" and "touches OPdq {} s (snd (ipsnd_pdq cfg pdqid d pri s))"
    and "touches OPdq {} s (snd (prcv_pdq cfg pdqid s))" and "touches OPdq {} s (snd (ini_pdq cfg pdqid s))"
    and "touches OPdq {} s (snd (ref_pdq cfg pdqid s))"
proof -
  show "touches OPdq {} s (snd (del_pdq cfg pdqid s))" "touches OPdq {} s (snd (ini_pdq cfg pdqid s))"
    "touches OPdq {} s (snd (ref_pdq cfg pdqid s))"
    using assms kinvD(2)[OF assms] by (auto simp: del_pdq_def ini_pdq_def ref_pdq_def Let_def split_beta intro!: frame_steps)
  show "touches OPdq {} s (snd (acre_pdq cfg pk s))"
    using assms by (auto simp: acre_pdq_def Let_def split_beta intro!: frame_steps0 frame_q_init(3) frame_malloc)
  show "touches OPdq {} s (snd (psnd_pdq cfg pdqid d pri s))" "touches OPdq {} s (snd (ipsnd_pdq cfg pdqid d pri s))"
    "touches OPdq {} s (snd (prcv_pdq cfg pdqid s))"
    using assms send_pridata_touches[of "t_lock_cpu s" "kindq OPdq" "{}" s] send_pridata_touches[of "i_lock_cpu s" "kindq OPdq" "{}" s]
    by (auto simp: psnd_pdq_def ipsnd_pdq_def prcv_pdq_def Let_def split_beta
      intro!: touches_call touchesI split: option.split prod.split)
qed

lemma pdq_wait_touches:
  assumes "kinv s" and "p_runtsk s = Some p"
  shows "touches OPdq {p} s (snd (snd_pdq cfg pdqid d pri s))" and "touches OPdq {p} s (snd (tsnd_pdq cfg pdqid d pri tmout s))"
    and "touches OPdq {p} s (snd (rcv_pdq cfg pdqid s))" and "touches OPdq {p} s (snd (trcv_pdq cfg pdqid tmout s))"
proof -
  have t: "kinv (t_lock_cpu s)" "frame (kindq OPdq) {p} s (t_lock_cpu s)" using assms(1) by simp_all
  obtain x s1 where e: "send_pridata (INDEX_PDQ pdqid) d pri (t_lock_cpu s) = (x, s1)" by fastforce
  note f = frame_psend[OF t e] send_pridata_None(1)[of "INDEX_PDQ pdqid" d pri "t_lock_cpu s" s1]
  show "touches OPdq {p} s (snd (snd_pdq cfg pdqid d pri s))" "touches OPdq {p} s (snd (tsnd_pdq cfg pdqid d pri tmout s))"
    using assms t f
    by (cases x; auto simp: e snd_pdq_def tsnd_pdq_def wobj_make_wait_eq Let_def intro!: frame_steps)+
  obtain y s2 where e: "receive_pridata (INDEX_PDQ pdqid) (t_lock_cpu s) = (y, s2)" by fastforce
  note f = frame_preceive[OF t e] send_pridata_None(2)[of "INDEX_PDQ pdqid" "t_lock_cpu s" s2]
  have r: "frame (kindq OPdq) {p} s (rwait_tmout (PDQ i) tmo (set_tstat p (TS_WAITING OR TS_WAIT_RPDQ) (t_lock_cpu s)))" for i tmo
    by (rule frame_block_at(3)[OF t(2,1)]) (use assms(2) in simp_all)
  show "touches OPdq {p} s (snd (rcv_pdq cfg pdqid s))"
    using assms t f r[of "INDEX_PDQ pdqid" TMO_FEVR]
    by (cases y; auto simp: e rcv_pdq_def make_wait_sel Let_def rwait_tmout_def intro!: touches_call touchesI)
  show "touches OPdq {p} s (snd (trcv_pdq cfg pdqid tmout s))"
    using assms t f r[of "INDEX_PDQ pdqid" tmout]
    by (cases y; auto simp: e trcv_pdq_def Let_def rwait_tmout_def intro!: touches_call touchesI)
qed

section \<open>Mailboxes and memory pools\<close>

lemma enqueue_msg_pri_touches:
  assumes "frame Q A s t" and "enqueue_msg_pri i m t = Some t'"
  shows "frame Q A s t'" and "others OMbx t' = others OMbx t"
  using assms by (auto simp: enqueue_msg_pri_def split: option.splits)

text \<open>The search of the place of a message returns, because the lists of the mailboxes are finite.\<close>

lemma enqueue_returns:
  assumes "mbx_state cfg qs s" and "mbx_atr s i \<noteq> TA_NOEXS" and "mbx_atr s i AND TA_MPRI \<noteq> 0"
    and "TMIN_MPRI \<le> msgpri s m" and "msgpri s m \<le> maxmpri (p_mbxinib (mbxcb s i))" and "\<And>j. m \<notin> set (qs j)"
    and "queues s (WaitQ (MBX i)) = []"
  shows "\<exists>t. enqueue_msg_pri i m s = Some t"
  using enqueue_msg_pri_ok[OF assms(1-3) conjI[OF assms(4,5)] assms(6,7)] by metis

lemma mbx_touches:
  assumes "kinv s"
  shows "touches OMbx {} s (snd (acre_mbx cfg pk s))" and "touches OMbx {} s (snd (del_mbx cfg mbxid s))"
    and "touches OMbx {} s (snd (prcv_mbx cfg mbxid s))" and "touches OMbx {} s (snd (ini_mbx cfg mbxid s))"
    and "touches OMbx {} s (snd (ref_mbx cfg mbxid s))"
  using assms kinvD(2)[OF assms]
  by (auto simp: acre_mbx_def del_mbx_def prcv_mbx_def ini_mbx_def ref_mbx_def Let_def split_beta
    intro!: frame_steps split: option.split)

lemma snd_mbx_touches:
  assumes "mbx_state cfg qs s" and "\<And>j. m \<notin> set (qs j)"
  shows "touches OMbx {} s (snd (snd_mbx cfg mbxid m s))"
proof -
  let ?s = "t_lock_cpu s" and ?i = "INDEX_MBX mbxid"
  have k: "kinv ?s" and st: "mbx_state cfg qs ?s" using assms(1) by (simp_all add: mbx_state_def)
  have e: "touches OMbx {} ?s (the (enqueue_msg_pri ?i m ?s))"
    if a: "mbx_atr ?s ?i \<noteq> TA_NOEXS" "mbx_atr ?s ?i AND TA_MPRI \<noteq> 0"
      "TMIN_MPRI \<le> msgpri ?s m" "msgpri ?s m \<le> maxmpri (p_mbxinib (mbxcb ?s ?i))" "queues ?s (WaitQ (MBX ?i)) = []"
    proof -
    obtain t where t: "enqueue_msg_pri ?i m ?s = Some t" using enqueue_returns[OF st a(1-4) assms(2) a(5)] by blast
    show ?thesis using enqueue_msg_pri_touches[OF frame_refl t] unfolding touches_def t option.sel by blast
  qed
  show ?thesis
    using e[unfolded touches_def] k kinvD(2)[OF k] frame_wake_hd(2)[OF frame_refl k, of "WaitQ (MBX ?i)" "\<lambda>w. w\<lparr>w_msg := Some m\<rparr>"]
    by (auto simp: snd_mbx_def Let_def q_delete_next_def q_empty_def split_beta intro!: touches_call touchesI)
qed

lemma mbx_wait_touches:
  assumes "kinv s" and "p_runtsk s = Some p"
  shows "touches OMbx {p} s (snd (rcv_mbx cfg mbxid s))" and "touches OMbx {p} s (snd (trcv_mbx cfg mbxid tmout s))"
  using assms
  by (auto simp: rcv_mbx_def trcv_mbx_def Let_def wobj_make_wait_eq intro!: frame_steps split: option.split)

lemma mpf_touches:
  assumes "kinv s"
  shows "touches OMpf {} s (snd (acre_mpf cfg pk s))" and "touches OMpf {} s (snd (del_mpf cfg mpfid s))"
    and "touches OMpf {} s (snd (pget_mpf cfg mpfid s))" and "touches OMpf {} s (snd (ini_mpf cfg mpfid s))"
    and "touches OMpf {} s (snd (ref_mpf cfg mpfid s))" and "touches OMpf {} s (snd (rel_mpf cfg mpfid blk s))"
proof -
  show "touches OMpf {} s (snd (acre_mpf cfg pk s))"
    by (rule acre_mpf_cases[OF refl refl refl, of cfg pk s]) (auto simp: touches_def intro!: frame_q_init)
  show "touches OMpf {} s (snd (del_mpf cfg mpfid s))" "touches OMpf {} s (snd (pget_mpf cfg mpfid s))"
    "touches OMpf {} s (snd (ini_mpf cfg mpfid s))" "touches OMpf {} s (snd (ref_mpf cfg mpfid s))"
    using assms kinvD(2)[OF assms]
    by (auto simp: del_mpf_def pget_mpf_def ini_mpf_def ref_mpf_def Let_def split_beta intro!: frame_steps)
  show "touches OMpf {} s (snd (rel_mpf cfg mpfid blk s))"
    using assms frame_wake[OF kinvD(2)[of "t_lock_cpu s"]]
    by (auto simp: rel_mpf_body rel_body_def Let_def intro!: touches_call touchesI split: list.split)
qed

lemma mpf_wait_touches:
  assumes "kinv s" and "p_runtsk s = Some p"
  shows "touches OMpf {p} s (snd (get_mpf cfg mpfid s))" and "touches OMpf {p} s (snd (tget_mpf cfg mpfid tmout s))"
  using assms
  by (auto simp: get_mpf_def tget_mpf_def Let_def split_beta wobj_make_wait_eq intro!: frame_steps)

end
