(* ===== verification/Asp_Frame_Task.thy ===== *)
theory Asp_Frame_Task
  imports Asp_Frame Asp_Ceiling
begin

text \<open>
  The same for the calls of the task modules, of the system state and of the handlers. A call that
  changes priorities (\<open>chg_pri\<close>, the mutex calls) is not \<open>calm\<close>, but it leaves dormant tasks and the
  time events of handlers alone (\<open>mild\<close>).
\<close>

section \<open>Task-dependent synchronisation\<close>

lemma calm_tcb:
  assumes "tstat (tcb s p) \<noteq> TS_DORMANT" and "tstat t \<noteq> TS_DORMANT" and "priority t = tskpri s p" and "bpriority t = bpriority (tcb s p)"
    and "tcb s' = (tcb s)(p := t)" and "tme s' = tme s"
  shows "calm A s s'"
  using assms by (auto simp: calm_def)

lemma calm_lock [simp]:
  "calm A s (t_lock_cpu s') = calm A s s'" "calm A s (t_unlock_cpu s') = calm A s s'"
  "calm A s (i_lock_cpu s') = calm A s s'" "calm A s (i_unlock_cpu s') = calm A s s'"
  "calm A (t_lock_cpu s) s' = calm A s s'" "calm A (i_lock_cpu s) s' = calm A s s'"
  "calm A s (dispatch s') = calm A s s'"
  "calm A s (dispatch_if r) = calm A s (snd r)" "calm A s (reqflg_if r) = calm A s (snd r)"
proof -
  have "calm A s (s'\<lparr>reqflg := b\<rparr>) = calm A s s'" for b s' by (rule calm_cong) simp_all
  moreover have "calm A s (dispatch s') = calm A s s'" for s' by (rule calm_cong) (simp_all add: dispatch_def)
  ultimately show "calm A s (dispatch_if r) = calm A s (snd r)" "calm A s (reqflg_if r) = calm A s (snd r)"
    by (simp_all add: dispatch_if_def reqflg_if_def)
qed (rule calm_cong; simp add: lock_sel dispatch_def)+

lemma calm_call:
  "calm A s (snd (body (t_lock_cpu s))) \<Longrightarrow> calm A s (snd (tsk_call body s))"
  "calm A s (snd (body' (i_lock_cpu s))) \<Longrightarrow> calm A s (snd (int_call body' s))"
  by (simp_all add: tsk_call_def int_call_def case_prod_beta)

lemma task_step_touches:
  assumes "task_step s s'" and "calm A s s'"
  shows "touches OTsk A s s'"
proof -
  have "wait_sub (kindq OTsk) s s'" using assms(1) by (auto simp: task_step_def intro: wait_sub_mono)
  then show ?thesis using assms others_objects[of s' s] by (simp add: touches_def frame_def task_step_def)
qed

lemma calm_blocking:
  assumes "kinv s" and "p_runtsk s = Some p"
  shows "calm {p} s (make_wait_tmout tmout (set_tstat p (TS_WAITING OR TS_WAIT_SLP) s))"
    and "calm {p} s (delay d p s)"
proof -
  note t = kinvD(1)[OF assms(1)] and r = kinvD(3)[OF assms]
  show "calm {p} s (make_wait_tmout tmout (set_tstat p (TS_WAITING OR TS_WAIT_SLP) s))"
    by (rule calm_blocked[OF t r, where v = "TS_WAITING OR TS_WAIT_SLP"]) (use assms(2) in \<open>simp_all add: make_wait_tmout_sel\<close>)
  show "calm {p} s (delay d p s)"
    by (rule calm_blocked[OF t r, where v = "TS_WAITING OR TS_WAIT_DLY"]) (simp_all add: delay_sel)
qed

lemma calm_awake:
  assumes "kinv s"
  shows "TSTAT_WAITING (tstat (tcb s p)) \<Longrightarrow> tstat (tcb s p) \<noteq> TS_DORMANT"
    and "TSTAT_RUNNABLE (tstat (tcb s p)) \<Longrightarrow> tstat (tcb s p) \<noteq> TS_DORMANT"
    and "TSTAT_SUSPENDED (tstat (tcb s p)) \<Longrightarrow> tstat (tcb s p) \<noteq> TS_DORMANT"
    and "TSTAT_WAITING (tstat (tcb s p)) \<Longrightarrow> tstat (tcb s p) AND NOT TS_SUSPENDED \<noteq> TS_DORMANT"
    and "tstat (tcb s p) OR TS_SUSPENDED \<noteq> TS_DORMANT"
proof -
  have v: "tstat_ok (tstat (tcb s p))" using tsk_invD(3)[OF kinvD(1)[OF assms]] by (simp add: tcb_ok_def)
  show "TSTAT_WAITING (tstat (tcb s p)) \<Longrightarrow> tstat (tcb s p) \<noteq> TS_DORMANT"
    "TSTAT_RUNNABLE (tstat (tcb s p)) \<Longrightarrow> tstat (tcb s p) \<noteq> TS_DORMANT"
    "TSTAT_SUSPENDED (tstat (tcb s p)) \<Longrightarrow> tstat (tcb s p) \<noteq> TS_DORMANT"
    by (auto simp: TSTAT_defs)
  show "TSTAT_WAITING (tstat (tcb s p)) \<Longrightarrow> tstat (tcb s p) AND NOT TS_SUSPENDED \<noteq> TS_DORMANT"
    "tstat (tcb s p) OR TS_SUSPENDED \<noteq> TS_DORMANT"
    using v by (auto simp: tstat_ok_cases TSTAT_defs)
qed

lemma calm_wait_release:
  assumes "kinv s"
  shows "TSTAT_WAITING (tstat (tcb s p)) \<Longrightarrow> calm A s (snd (wait_release p s))"
    and "TSTAT_WAIT_SLP (tstat (tcb s p)) \<Longrightarrow> calm A s (snd (wait_complete p s))"
proof -
  note t = kinvD(1)[OF assms]
  show "TSTAT_WAITING (tstat (tcb s p)) \<Longrightarrow> calm A s (snd (wait_release p s))"
    using calm_release[OF _ tm_dequeued_without[OF t]] wait_release_release[OF t] by simp
  assume "TSTAT_WAIT_SLP (tstat (tcb s p))"
  note w = sleeping[OF t this]
  show "calm A s (snd (wait_complete p s))" using calm_release[OF w(1) tm_dequeued_without[OF t w(1)]] by (simp add: w(3))
qed

lemma task_sync_touches:
  assumes "kinv s" and "p_runtsk s = Some p"
  shows "touches OTsk {p} s (snd (slp_tsk s))" and "touches OTsk {p} s (snd (tslp_tsk tmout s))"
    and "touches OTsk {p} s (snd (dly_tsk dlytim s))"
proof -
  let ?s = "t_lock_cpu s"
  have k: "kinv ?s" "p_runtsk ?s = Some p" using assms by simp_all
  note c = calm_blocking[OF k] and n = calm_awake(2)[OF k(1) kinvD(3)[OF k]]
  have w: "calm {p} s (?s\<lparr>tcb := (tcb ?s)(p := (tcb ?s p)\<lparr>wupque := False\<rparr>)\<rparr>)"
    using calm_tcb[OF n, where s' = "?s\<lparr>tcb := (tcb ?s)(p := (tcb ?s p)\<lparr>wupque := False\<rparr>)\<rparr>" and A = "{p}"] n by simp
  have "calm {p} s (snd (slp_tsk s))" "calm {p} s (snd (tslp_tsk tmout s))" "calm {p} s (snd (dly_tsk dlytim s))"
    using k w c(1)[of TMO_FEVR] c(1)[of tmout] c(2)[of dlytim]
    by (auto simp: slp_tsk_def tslp_tsk_def dly_tsk_def delay_def make_wait_sel Let_def intro!: calm_call)
  then show "touches OTsk {p} s (snd (slp_tsk s))" "touches OTsk {p} s (snd (tslp_tsk tmout s))"
    "touches OTsk {p} s (snd (dly_tsk dlytim s))"
    using task_sync_steps[OF assms] task_step_touches by blast+
qed

lemma task_wakeup_touches:
  assumes "kinv s"
  shows "touches OTsk {} s (snd (wup_tsk cfg tskid s))" and "touches OTsk {} s (snd (iwup_tsk cfg tskid s))"
    and "touches OTsk {} s (snd (can_wup cfg tskid s))"
    and "touches OTsk {} s (snd (rel_wai cfg tskid s))" and "touches OTsk {} s (snd (irel_wai cfg tskid s))"
proof -
  have w: "calm {} u (u\<lparr>tcb := (tcb u)(p := (tcb u p)\<lparr>wupque := b\<rparr>)\<rparr>)" if "tstat (tcb u p) \<noteq> TS_DORMANT" for u p b
    using that by (rule calm_tcb) (use that in simp_all)
  have k: "kinv (t_lock_cpu s)" "kinv (i_lock_cpu s)" using assms by simp_all
  have "calm {} s (snd (wup_tsk cfg tskid s))" "calm {} s (snd (iwup_tsk cfg tskid s))" "calm {} s (snd (can_wup cfg tskid s))"
    "calm {} s (snd (rel_wai cfg tskid s))" "calm {} s (snd (irel_wai cfg tskid s))"
    using calm_wait_release[OF k(1), where A = "{}"] calm_wait_release[OF k(2), where A = "{}"]
      w[of "t_lock_cpu s"] w[of "i_lock_cpu s"]
    by (auto simp: wup_tsk_def iwup_tsk_def can_wup_def rel_wai_def irel_wai_def TSTAT_DORMANT_def Let_def intro!: calm_call)
  then show "touches OTsk {} s (snd (wup_tsk cfg tskid s))" "touches OTsk {} s (snd (iwup_tsk cfg tskid s))"
    "touches OTsk {} s (snd (can_wup cfg tskid s))"
    "touches OTsk {} s (snd (rel_wai cfg tskid s))" "touches OTsk {} s (snd (irel_wai cfg tskid s))"
    using task_wakeup_steps[OF assms] task_step_touches by blast+
qed

lemma task_suspend_touches:
  assumes "kinv s" and "p_runtsk s = Some p" and "\<not> reqflg s"
  shows "touches OTsk {} s (snd (sus_tsk cfg tskid s))" and "touches OTsk {} s (snd (rsm_tsk cfg tskid s))"
proof -
  have k: "kinv (t_lock_cpu s)" using assms by simp
  have r: "calm {} (t_lock_cpu s) (set_tstat p v (t_lock_cpu s))" if "tstat (tcb (t_lock_cpu s) p) \<noteq> TS_DORMANT" "v \<noteq> TS_DORMANT" for p v
    using that by (intro calm_tcb[where p = p and t = "(tcb (t_lock_cpu s) p)\<lparr>tstat := v\<rparr>"]) simp_all
  have q: "calm {} u (snd (make_runnable p t)) = calm {} u t" "calm {} u (snd (make_non_runnable p t)) = calm {} u t" for u p t
    by (rule calm_cong; simp)+
  have "calm {} s (snd (sus_tsk cfg tskid s))" "calm {} s (snd (rsm_tsk cfg tskid s))"
    using calm_awake[OF k] r
    by (auto simp: sus_tsk_def rsm_tsk_def TSTAT_DORMANT_def q Let_def intro!: calm_call)
  then show "touches OTsk {} s (snd (sus_tsk cfg tskid s))" "touches OTsk {} s (snd (rsm_tsk cfg tskid s))"
    using task_suspend_steps[OF assms] task_step_touches by blast+
qed

section \<open>Mild calls\<close>

text \<open>The kind an event belongs to; the clock and the events of the other handlers stay.\<close>

primrec ekind :: "tmevtb_id \<Rightarrow> okind" where
  "ekind (TskTmevtb p) = OTsk" | "ekind (CycTmevtb i) = OCyc" | "ekind (AlmTmevtb i) = OAlm"

definition ev_keep :: "okind \<Rightarrow> TMEVT \<Rightarrow> TMEVT \<Rightarrow> bool" where
  "ev_keep K tm tm' \<longleftrightarrow> same_clock tm tm' \<and> (\<forall>b. hdl_event b \<longrightarrow> ekind b \<noteq> K \<longrightarrow>
    evts tm' b = evts tm b \<and> callback (tmevtb tm' b) = callback (tmevtb tm b))"

lemma ev_keep_refl [simp]: "ev_keep K tm tm"
  by (simp add: ev_keep_def)

lemma ev_keep_trans: "ev_keep K tm1 tm2 \<Longrightarrow> ev_keep K tm2 tm3 \<Longrightarrow> ev_keep K tm1 tm3"
  unfolding ev_keep_def by (auto intro: same_clock_trans)

definition mild :: "okind \<Rightarrow> kernel \<Rightarrow> kernel \<Rightarrow> bool" where
  "mild K s s' \<longleftrightarrow> others K s' = others K s \<and> wait_sub (kindq K) s s' \<and> ev_keep K (tme s) (tme s')"

lemma touches_mild:
  assumes "touches K A s s'"
  shows "mild K s s'"
  using assms by (auto simp: touches_def frame_def mild_def ev_keep_def calm_def)

text \<open>A call that looks at the tasks only, and changes flags or handlers.\<close>

definition still :: "okind \<Rightarrow> kernel \<Rightarrow> kernel \<Rightarrow> bool" where
  "still K s s' \<longleftrightarrow> others K s' = others K s \<and> tcb s' = tcb s \<and> (\<forall>h. is_waitq h \<longrightarrow> queues s' h = queues s h) \<and>
    ev_keep K (tme s) (tme s')"

lemma still_mild: "still K s s' \<Longrightarrow> mild K s s'"
  by (simp add: still_def mild_def wait_sub_waitqs)

lemma still_lock [simp]:
  "still K s (t_lock_cpu s') = still K s s'" "still K s (t_unlock_cpu s') = still K s s'"
  "still K s (i_lock_cpu s') = still K s s'" "still K s (i_unlock_cpu s') = still K s s'"
  "still K (t_lock_cpu s) s' = still K s s'" "still K (i_lock_cpu s) s' = still K s s'"
  by (simp_all add: still_def lock_sel)

lemma still_refl [simp]: "still K s s"
  by (simp add: still_def)

lemma still_call:
  "still K s (snd (body (t_lock_cpu s))) \<Longrightarrow> still K s (snd (tsk_call body s))"
  "still K s (snd (body' (i_lock_cpu s))) \<Longrightarrow> still K s (snd (int_call body' s))"
  by (simp_all add: tsk_call_def int_call_def case_prod_beta)

lemma stillI:
  "others K s' = others K s \<Longrightarrow> tcb s' = tcb s \<Longrightarrow> queues s' = queues s \<Longrightarrow> ev_keep K (tme s) (tme s') \<Longrightarrow> still K s s'"
  by (simp add: still_def)

lemma flags_step_still: "flags_step s s' \<Longrightarrow> still OTsk s s'"
  by (simp add: still_def flags_step_def others_def pools_def)

section \<open>Handlers\<close>

lemma ev_keep_handler:
  assumes "heap_ok tm" and "run \<longleftrightarrow> evts tm b \<noteq> None" and "hdl_event b" and "K = ekind b"
  shows "ev_keep K tm (ev_start b t cb (if run then tmevtb_dequeue b tm else tm))"
    and "run \<Longrightarrow> ev_keep K tm (tmevtb_dequeue b tm)"
proof -
  let ?tm = "if run then tmevtb_dequeue b tm else tm"
  have n: "heap_ok ?tm" "evts ?tm b = None" using assms(1,2) ev_stop_ok(1,2)[OF assms(1)] by auto
  have d: "ev_keep K tm ?tm" using assms ev_stop_ok(2-4)[OF assms(1), of b] by (auto simp: ev_keep_def)
  have "ev_keep K ?tm (ev_start b t cb ?tm)" using ev_start_ok(2-4)[OF n] assms(4) by (auto simp: ev_keep_def)
  then show "ev_keep K tm (ev_start b t cb ?tm)" by (rule ev_keep_trans[OF d])
  show "run \<Longrightarrow> ev_keep K tm (tmevtb_dequeue b tm)" using d by simp
qed

lemma cyc_start_still:
  assumes "kinv s" and "cyc_inv cfg s"
    and "s1 = (if cycsta (cyccb s i) then upd_tme (tmevtb_dequeue (CycTmevtb i)) s else upd_cyc i (\<lambda>c. c\<lparr>cycsta := True\<rparr>) s)"
  shows "still OCyc s (tmevtb_enqueue_cyc i t s1)"
    and "cycsta (cyccb s i) \<Longrightarrow> ev_keep OCyc (tme s) (tmevtb_dequeue (CycTmevtb i) (tme s))"
proof -
  have "hdl_event (CycTmevtb i)" by (simp add: hdl_event_def)
  note k = ev_keep_handler[OF tsk_invD(2)[OF kinvD(1)[OF assms(1)]] hdl_invD(3)[OF assms(2)[unfolded cyc_inv_def]] this, of OCyc]
  show "still OCyc s (tmevtb_enqueue_cyc i t s1)"
    using k(1)[of t "Call_cychdr i"] by (simp add: assms(3) enqueue_cyc_eq still_def split: if_splits)
  show "cycsta (cyccb s i) \<Longrightarrow> ev_keep OCyc (tme s) (tmevtb_dequeue (CycTmevtb i) (tme s))"
    using k(2) by simp
qed

lemma cyc_still:
  assumes "kinv s" and "cyc_inv cfg s"
  shows "still OCyc s (snd (acre_cyc cfg pk s))" and "still OCyc s (snd (del_cyc cfg cycid s))"
    and "still OCyc s (snd (sta_cyc cfg cycid s))" and "still OCyc s (snd (stp_cyc cfg cycid s))"
    and "still OCyc s (snd (ref_cyc cfg cycid s))"
proof -
  have i: "kinv (t_lock_cpu s)" "cyc_inv cfg (t_lock_cpu s)" using assms by simp_all
  note c = hdl_invD[OF i(2)[unfolded cyc_inv_def]] and h = tsk_invD(2)[OF kinvD(1)[OF i(1)]]
  have new: "ev_keep OCyc (tme (t_lock_cpu s)) (ev_start (CycTmevtb (hd (free_cyccb (t_lock_cpu s)))) t cb (tme (t_lock_cpu s)))"
    if "free_cyccb (t_lock_cpu s) \<noteq> []" for t cb
    using ev_keep_handler(1)[OF h, of False "CycTmevtb (hd (free_cyccb (t_lock_cpu s)))" OCyc t cb] c(2,3,4)[of "hd (free_cyccb (t_lock_cpu s))"] that
    by (simp add: hdl_event_def)
  show "still OCyc s (snd (acre_cyc cfg pk s))"
    using new by (auto simp: acre_cyc_def enqueue_cyc_eq Let_def lock_sel intro!: still_call stillI)
  show "still OCyc s (snd (del_cyc cfg cycid s))" "still OCyc s (snd (stp_cyc cfg cycid s))" "still OCyc s (snd (ref_cyc cfg cycid s))"
    using cyc_start_still(2)[OF i refl]
    by (auto simp: del_cyc_def stp_cyc_def ref_cyc_def Let_def lock_sel intro!: still_call stillI)
  show "still OCyc s (snd (sta_cyc cfg cycid s))"
    using cyc_start_still(1)[OF i refl] unfolding sta_cyc_def Let_def by (auto intro!: still_call simp del: if_split)
qed

lemma alarm_step_still:
  assumes "alarm_step i s s'"
  shows "still OAlm s s'"
proof -
  have "ev_keep OAlm (tme s) (tme s')"
    using assms unfolding alarm_step_def same_but_tme_def ev_keep_def by (metis ekind.simps(3))
  then show ?thesis using assms by (simp add: alarm_step_def same_but_tme_def still_def others_def fixed_def)
qed

lemma alm_still:
  assumes "kinv s" and "alm_inv cfg s"
  shows "still OAlm s (snd (acre_alm cfg pk s))" and "still OAlm s (snd (del_alm cfg almid s))"
    and "still OAlm s (snd (sta_alm cfg almid almtim s))" and "still OAlm s (snd (ista_alm cfg almid almtim s))"
    and "still OAlm s (snd (stp_alm cfg almid s))" and "still OAlm s (snd (istp_alm cfg almid s))"
    and "still OAlm s (snd (ref_alm cfg almid s))"
proof -
  have i: "kinv (t_lock_cpu s)" "alm_inv cfg (t_lock_cpu s)" using assms by simp_all
  note c = hdl_invD[OF i(2)[unfolded alm_inv_def]] and h = tsk_invD(2)[OF kinvD(1)[OF i(1)]]
  have d: "ev_keep OAlm (tme (t_lock_cpu s)) (tmevtb_dequeue (AlmTmevtb k) (tme (t_lock_cpu s)))" if "almsta (almcb (t_lock_cpu s) k)" for k
    using ev_keep_handler(2)[OF h c(3)[of k], of OAlm] that by (simp add: hdl_event_def)
  show "still OAlm s (snd (acre_alm cfg pk s))" "still OAlm s (snd (del_alm cfg almid s))" "still OAlm s (snd (ref_alm cfg almid s))"
    using d by (auto simp: acre_alm_def del_alm_def ref_alm_def Let_def lock_sel intro!: still_call stillI)
  show "still OAlm s (snd (ista_alm cfg almid almtim s))" "still OAlm s (snd (istp_alm cfg almid s))"
    using alarm_icalls_step[OF assms] alarm_step_still by blast+
  show "still OAlm s (snd (sta_alm cfg almid almtim s))" "still OAlm s (snd (stp_alm cfg almid s))"
    using sta_alm_body_step[OF i, THEN alarm_step_still] stp_alm_body_step[OF i, THEN alarm_step_still]
    by (auto simp: sta_alm_def stp_alm_def intro!: still_call)
qed

section \<open>Task exceptions and the reference calls\<close>

lemma tex_step_mild: "tex_step s s' \<Longrightarrow> mild OTsk s s'"
  using others_objects[of s' s] by (auto simp: tex_step_def mild_def tex_same_def intro!: wait_sub_waitqs)

section \<open>Mutexes\<close>

text \<open>The operations on mutexes change priorities, owners and the queue of the mutex only.\<close>

definition mtx_step :: "kernel \<Rightarrow> kernel \<Rightarrow> bool" where
  "mtx_step s s' \<longleftrightarrow> mild OMtx s s' \<and> (\<forall>p. tstat (tcb s' p) = TS_DORMANT \<longrightarrow> tcb s' p = tcb s p)"

lemma mtx_step_refl [simp]: "mtx_step s s"
  by (simp add: mtx_step_def mild_def)

lemma mtx_step_trans:
  assumes "mtx_step s s1" and "mtx_step s1 s2"
  shows "mtx_step s s2"
proof -
  have "mild OMtx s s2"
    using assms unfolding mtx_step_def mild_def by (auto intro: ev_keep_trans wait_sub_trans)
  moreover have "tcb s2 p = tcb s p" if "tstat (tcb s2 p) = TS_DORMANT" for p
    using assms that unfolding mtx_step_def by metis
  ultimately show ?thesis by (simp add: mtx_step_def)
qed

lemma mtx_step_cong:
  assumes "tcb s1' = tcb s1" and "queues s1' = queues s1" and "tme s1' = tme s1" and "others OMtx s1' = others OMtx s1"
    and "tcb s2' = tcb s2" and "queues s2' = queues s2" and "tme s2' = tme s2" and "others OMtx s2' = others OMtx s2"
  shows "mtx_step s1' s2' = mtx_step s1 s2"
  using wait_sub_cong[of s1' s1 s2' s2] assms by (simp add: mtx_step_def mild_def)

lemma others_mtx [simp]:
  "others OMtx (s\<lparr>mtxqs := a\<rparr>) = others OMtx s" "others OMtx (s\<lparr>mtxcb := b\<rparr>) = others OMtx s"
  "others OMtx (s\<lparr>free_mtxcb := c\<rparr>) = others OMtx s"
  by (simp_all add: others_def)

lemma mtx_step_upd [simp]:
  "mtx_step s (t_lock_cpu s') = mtx_step s s'" "mtx_step s (t_unlock_cpu s') = mtx_step s s'"
  "mtx_step (t_lock_cpu s) s' = mtx_step s s'" "mtx_step s (dispatch s') = mtx_step s s'"
  "mtx_step s (s'\<lparr>mtxqs := a\<rparr>) = mtx_step s s'" "mtx_step s (s'\<lparr>mtxcb := b\<rparr>) = mtx_step s s'"
  "mtx_step s (s'\<lparr>free_mtxcb := c\<rparr>) = mtx_step s s'" "mtx_step s (dispatch_if r) = mtx_step s (snd r)"
proof -
  have d: "mtx_step s (dispatch s') = mtx_step s s'" for s' by (rule mtx_step_cong) (simp_all add: dispatch_def)
  then show "mtx_step s (dispatch s') = mtx_step s s'" .
  show "mtx_step s (dispatch_if r) = mtx_step s (snd r)" by (simp add: dispatch_if_def d)
qed (rule mtx_step_cong; simp add: lock_sel)+

lemma mtx_step_call: "mtx_step s (snd (body (t_lock_cpu s))) \<Longrightarrow> mtx_step s (snd (tsk_call body s))"
  by (simp add: tsk_call_def case_prod_beta)

lemma mtx_step_touches: "touches OMtx A s s' \<Longrightarrow> mtx_step s s'"
  using touches_mild[of OMtx A s s'] by (auto simp: mtx_step_def touches_def frame_def calm_def)

lemma ev_keep_without: "tm_without p tm tm' \<Longrightarrow> ev_keep K tm tm'"
  by (auto simp: tm_without_def ev_keep_def hdl_event_def)

lemma mtx_step_change_priority:
  assumes "winv s" and "tstat (tcb s p) \<noteq> TS_DORMANT" and "n < TNUM_TPRI"
  shows "mtx_step s (snd (change_priority p n m s))"
proof -
  have ex: "tskatr (p_tinib (tcb s p)) \<noteq> TA_NOEXS" by (rule waiting_exists[OF winvD(1)[OF assms(1)] assms(2)])
  have "wait_sub (kindq OMtx) s (snd (change_priority p n m s))"
    using change_priority_waitq[OF assms(1) ex assms(3)] by (auto simp: wait_sub_def change_priority_tcb)
  then show ?thesis
    using assms(2) by (auto simp: mtx_step_def mild_def change_priority_tcb intro: others_objects)
qed

lemma mtx_step_drop:
  assumes "winv s" and "tstat (tcb s p) \<noteq> TS_DORMANT"
  shows "mtx_step s (snd (mutex_drop_priority p old s))"
  using mtx_step_change_priority[OF assms] mutex_calc_lt[OF assms(1) waiting_exists[OF winvD(1)[OF assms(1)] assms(2)]]
  by (simp add: mutex_drop_priority_def Let_def)

lemma mtx_step_acquire:
  assumes "winv s" and "TSTAT_RUNNABLE (tstat (tcb s p))"
  shows "mtx_step s (snd (mutex_acquire p i s))"
proof -
  let ?s = "s\<lparr>mtxcb := (mtxcb s)(i := (mtxcb s i)\<lparr>p_loctsk := Some p\<rparr>), mtxqs := q_insert_next p i (mtxqs s)\<rparr>"
  have d: "tstat (tcb s p) \<noteq> TS_DORMANT" using assms(2) by (auto simp: TSTAT_defs)
  have w: "winv ?s" using assms(1) by simp
  have lt: "tskpri s p < TNUM_TPRI" using exists_pri(1)[OF assms(1) waiting_exists[OF winvD(1)[OF assms(1)] d]] .
  have "mtx_step ?s (snd (mutex_raise_priority p n ?s))" for n
    using mtx_step_change_priority[OF w, of p n True] d lt by (simp add: mutex_raise_priority_def)
  moreover have "mtx_step ?s t = mtx_step s t" for t by (rule mtx_step_cong) simp_all
  ultimately show ?thesis by (simp add: mutex_acquire_def Let_def)
qed

lemma mtx_step_release:
  assumes "winv s"
  shows "mtx_step s (snd (mutex_release i s))"
proof (cases "queues s (WaitQ (MTX i))")
  case Nil
  then show ?thesis by (simp add: mutex_release_nil)
next
  case (Cons p ps)
  note t = winvD(1)[OF assms]
  have w: "TSTAT_WAITING (tstat (tcb s p))" using waitq_waiting(1)[OF t, of p "WaitQ (MTX i)"] Cons by simp
  define c where "c = (if MTX_CEILING s i \<and> mtx_ceilpri s i < tskpri s p then mtx_ceilpri s i else tskpri s p)"
  define s0 where "s0 = s\<lparr>tcb := (tcb s)(p := (tcb s p)\<lparr>priority := c\<rparr>), mtxqs := q_insert_prev p i (mtxqs s),
    mtxcb := (mtxcb s)(i := (mtxcb s i)\<lparr>p_loctsk := Some p\<rparr>)\<rparr>"
  have r: "mutex_release i s = release E_OK (tm_dequeued p s) p s0" by (rule mutex_release_release[OF assms Cons c_def s0_def])
  have q: "queues s0 = queues s" "tme s0 = tme s" and ot: "others OMtx s0 = others OMtx s"
    and tc: "\<And>x. x \<noteq> p \<Longrightarrow> tcb s0 x = tcb s x" "tstat (tcb s0 p) = tstat (tcb s p)" "\<And>x. winfos s0 x = winfos s x"
    by (simp_all add: s0_def)
  have "queues_ok (queues s0)" using tsk_invD(7)[OF t] by (simp add: q)
  then have "wait_sub (kindq OMtx) s0 (snd (mutex_release i s))" unfolding r by (rule wait_sub_release)
  moreover have "wait_sub (kindq OMtx) s0 u = wait_sub (kindq OMtx) s u" for u by (simp only: wait_sub_def q tc(3))
  ultimately have ws: "wait_sub (kindq OMtx) s (snd (mutex_release i s))" by simp
  have "ev_keep OMtx (tme s) (tme (snd (mutex_release i s)))"
    using ev_keep_without[OF tm_dequeued_without[OF t w]] by (simp add: r)
  moreover have "others OMtx (snd (mutex_release i s)) = others OMtx s" 
    unfolding r using ot others_objects[of "snd (release E_OK (tm_dequeued p s) p s0)" s0] by simp
  ultimately have "mild OMtx s (snd (mutex_release i s))" using ws by (simp add: mild_def)
  moreover have "x \<noteq> p" if "tstat (tcb (snd (mutex_release i s)) x) = TS_DORMANT" for x
    using that waiting_not_dormant[OF w] by (auto simp: r tc split: if_splits)
  ultimately show ?thesis by (auto simp: mtx_step_def r tc)
qed

lemma mtx_step_block:
  assumes "kinv s" and "p_runtsk s = Some p" and "c \<noteq> TS_DORMANT"
  shows "mtx_step s (wobj_make_wait_tmout (MTX i) tmout (set_tstat p c s))"
  using frame_block_at(2)[OF frame_refl assms(1,2) singletonI assms(3), of "MTX i" "kindq OMtx" tmout]
  by (intro mtx_step_touches[OF touchesI]) simp_all

lemma mtx_step_lock_calls:
  assumes "kinv s" and "p_runtsk s = Some p"
  shows "mtx_step s (snd (loc_mtx cfg mtxid s))" and "mtx_step s (snd (ploc_mtx cfg mtxid s))"
    and "mtx_step s (snd (tloc_mtx cfg mtxid tmout s))" and "mtx_step s (snd (ref_mtx cfg mtxid s))"
proof -
  let ?s = "t_lock_cpu s"
  have k: "kinv ?s" "p_runtsk ?s = Some p" using assms by simp_all
  note b = mtx_step_block[OF k] and a = mtx_step_acquire[OF kinvD(2)[OF k(1)] kinvD(3)[OF k]]
  show "mtx_step s (snd (loc_mtx cfg mtxid s))" "mtx_step s (snd (ploc_mtx cfg mtxid s))"
    "mtx_step s (snd (tloc_mtx cfg mtxid tmout s))" "mtx_step s (snd (ref_mtx cfg mtxid s))"
    using k a b
    by (auto simp: loc_mtx_def ploc_mtx_def tloc_mtx_def ref_mtx_def wobj_make_wait_eq Let_def intro!: mtx_step_call)
qed

lemma mtx_step_unl:
  assumes "kinv s" and "p_runtsk s = Some p"
  shows "mtx_step s (snd (unl_mtx cfg mtxid s))"
proof -
  let ?s = "t_lock_cpu s" and ?i = "INDEX_MTX mtxid"
  define s1 where "s1 = ?s\<lparr>mtxqs := q_delete ?i (mtxqs ?s)\<rparr>"
  define r where "r = (if MTX_CEILING s1 ?i then mutex_drop_priority p (mtx_ceilpri s1 ?i) s1 else (False, s1))"
  have w: "winv s1" "p_runtsk s1 = Some p" using assms kinvD(2)[of ?s] by (simp_all add: s1_def)
  have d: "tstat (tcb s1 p) \<noteq> TS_DORMANT" using winvD(2)[OF w] by (auto simp: TSTAT_defs)
  have "mtx_step s1 (snd r)" "winv (snd r)"
    using mtx_step_drop[OF w(1) d] mutex_drop_op_ok[OF w(1) waiting_exists[OF winvD(1)[OF w(1)] d]] w(1)
    by (simp_all add: r_def op_ok_def)
  then have "mtx_step s1 (snd (mutex_release ?i (snd r)))" using mtx_step_trans mtx_step_release by blast
  moreover have "mtx_step s1 u = mtx_step s u" for u by (rule mtx_step_cong) (simp_all add: s1_def lock_sel)
  ultimately have c: "mtx_step s (snd (mutex_release ?i (snd r)))" by blast
  have p: "p_runtsk ?s = Some p" using assms(2) by simp
  show ?thesis
    using p w(2) c unfolding r_def
    by (auto simp: unl_mtx_def Let_def case_prod_beta s1_def[symmetric] intro!: mtx_step_call)
qed

lemma mtx_step_init:
  assumes "winv s" and "is_waitq q"
  shows "q = WaitQ (MTX i) \<Longrightarrow> mtx_step s (snd (init_wait_queue q s))"
  by (intro mtx_step_touches[OF touchesI] frame_init[OF assms(2,1)]) simp

lemma mtx_step_ini:
  assumes "kinv s" and "mtx_inv s"
  shows "mtx_step s (snd (ini_mtx cfg mtxid s))"
proof -
  let ?s = "t_lock_cpu s" and ?i = "INDEX_MTX mtxid"
  define r where "r = init_wait_queue (WaitQ (MTX ?i)) ?s"
  define s1 where "s1 = (snd r)\<lparr>mtxqs := q_delete ?i (mtxqs (snd r)),
    mtxcb := (mtxcb (snd r))(?i := (mtxcb (snd r) ?i)\<lparr>p_loctsk := None\<rparr>)\<rparr>"
  have k: "winv ?s" "mtx_inv ?s" using assms kinvD(2)[of ?s] by simp_all
  have q: "is_waitq (WaitQ (MTX ?i))" by simp
  have r: "winv (snd r)" "mtx_inv (snd r)" "mtx_step s (snd r)"
    using init_wait_queue_op_ok[OF q k(1)] init_wait_queue_mtx_inv[OF k(2,1) q] mtx_step_init[OF k(1) q refl]
    by (simp_all add: r_def op_ok_def)
  have w1: "winv s1" "mtx_step s s1"
    using r winv_mtx(3)[of "(snd r)\<lparr>mtxqs := q_delete ?i (mtxqs (snd r))\<rparr>" ?i None] by (simp_all add: s1_def)
  have d: "mtx_step s (snd (mutex_drop_priority p (mtx_ceilpri s1 ?i) s1))" if "p_loctsk (mtxcb (snd r) ?i) = Some p" for p
  proof (rule mtx_step_trans[OF w1(2) mtx_step_drop[OF w1(1)]])
    show "tstat (tcb s1 p) \<noteq> TS_DORMANT"
      using mtx_genD(3)[OF r(2)[unfolded mtx_inv_def], of ?i p] that by (simp add: s1_def)
  qed
  show ?thesis
    using r(3) w1(2) d
    by (cases "p_loctsk (mtxcb (snd r) ?i)")
      (auto simp: ini_mtx_def Let_def case_prod_beta r_def[symmetric] s1_def[symmetric] intro!: mtx_step_call)
qed

lemma mtx_step_create_delete:
  assumes "kinv s"
  shows "mtx_step s (snd (acre_mtx cfg pk s))" and "mtx_step s (snd (del_mtx cfg mtxid s))"
proof -
  let ?s = "t_lock_cpu s"
  have k: "winv ?s" using assms kinvD(2)[of ?s] by simp
  have "mtx_step u (u\<lparr>queues := q_initialize (WaitQ (MTX i)) (queues u)\<rparr>)" for u i
    by (auto simp: mtx_step_def mild_def wait_sub_def queue_simps)
  then have c: "mtx_step s (?s\<lparr>queues := q_initialize (WaitQ (MTX i)) (queues ?s)\<rparr>)" for i
    using mtx_step_upd(3) by blast
  have "mtx_step s (t\<lparr>queues := f\<rparr>)" if "mtx_step s (?s\<lparr>queues := f\<rparr>)" "tcb t = tcb ?s" "tme t = tme ?s" "others OMtx t = others OMtx ?s" for t f
    using that(1) mtx_step_cong[of s s "t\<lparr>queues := f\<rparr>" "?s\<lparr>queues := f\<rparr>"] that(2-4) by simp
  then show "mtx_step s (snd (acre_mtx cfg pk s))"
    using c by (auto simp: acre_mtx_def Let_def intro!: mtx_step_call)
  have "mtx_step s (snd (init_wait_queue (WaitQ (MTX i)) ?s))" for i using mtx_step_init[OF k _ refl, of i] by simp
  then show "mtx_step s (snd (del_mtx cfg mtxid s))"
    by (auto simp: del_mtx_def Let_def case_prod_beta intro!: mtx_step_call)
qed

section \<open>Task management\<close>

lemma ev_keep_release_all:
  "winv s \<Longrightarrow> ev_keep OMtx (tme s) (tme (snd (mutex_release_all p s)))"
proof (induction s rule: release_all_induct[where p = p])
  case (empty s)
  then show ?case by (subst mutex_release_all_round) simp
next
  case (round s)
  let ?r = "snd (release_all_round p s)"
  have "mtx_step s ?r"
    using mtx_step_release[of "s\<lparr>mtxqs := q_delete (hd (mtxqs s p)) (mtxqs s)\<rparr>" "hd (mtxqs s p)"] round.prems
      mtx_step_cong[of "s\<lparr>mtxqs := q_delete (hd (mtxqs s p)) (mtxqs s)\<rparr>" s ?r ?r]
    by (simp add: release_all_round_def)
  then have "ev_keep OMtx (tme s) (tme ?r)" by (simp add: mtx_step_def mild_def)
  moreover have "ev_keep OMtx (tme ?r) (tme (snd (mutex_release_all p ?r)))"
    by (rule round.IH) (rule release_all_round_winv[OF round.prems])
  ultimately show ?case using round.hyps by (subst mutex_release_all_round) (auto intro: ev_keep_trans)
qed

lemma ended_keep:
  assumes "tman_base cfg s" and "tstat (tcb s p) \<noteq> TS_DORMANT" and "v = mutex_release_all p (unlink_task p s)"
  shows "ev_keep OMtx (tme s) (tme (snd v))"
proof -
  note t = winvD(1)[OF tman_baseD(1)[OF assms(1)]]
  define t1 where "t1 = with_tcb p (dormant (tcb s p)) None (unlink_task p s)"
  note pri = exists_pri[OF tman_baseD(1)[OF assms(1)] waiting_exists[OF t assms(2)]]
  have "winv t1" using ended_start(1)[OF assms(1,2) t1_def] pri(3) by simp
  then have "ev_keep OMtx (tme t1) (tme (snd (ended p None s)))"
    using ev_keep_release_all[of t1 p] by (simp add: ended_def t1_def)
  moreover have "tme (snd (ended p None s)) = tme (snd v)"
    using ended_code(2)[OF t assms(2,3), of None] by (simp add: make_dormant_def)
  moreover have "same_clock (tme s) (tme (unlink_task p s))"
    using wait_dequeue_wobj_eq[OF t, of p] tm_dequeued_cong[of "s\<lparr>queues := q_delete p (queues s)\<rparr>" s p] tm_dequeued_without[OF t, of p]
    by (simp add: unlink_task_def wait_dequeue_tmevtb_eq tm_without_def)
  then have "ev_keep OMtx (tme s) (tme t1)"
    using unlink_task_sel(6,7)[OF t assms(2)] by (auto simp: t1_def with_tcb_def ev_keep_def hdl_event_def)
  ultimately show ?thesis using ev_keep_trans by simp
qed

lemma tman_call_tme:
  "tme (snd (tsk_call body s)) = tme (snd (body (t_lock_cpu s)))" "tme (snd (int_call body' s)) = tme (snd (body' (i_lock_cpu s)))"
  by (simp_all add: tsk_call_def int_call_def case_prod_beta lock_sel)

lemma tme_if [simp]: "tme (dispatch_if r) = tme (snd r)" "tme (reqflg_if r) = tme (snd r)" "tme (snd (make_active p s)) = tme s"
  by (simp_all add: dispatch_if_def reqflg_if_def dispatch_def make_active_def)

lemma ter_tsk_keep:
  assumes "tman_inv cfg s"
  shows "ev_keep OMtx (tme s) (tme (snd (ter_tsk cfg tskid s)))"
proof -
  let ?s = "t_lock_cpu s" and ?p = "INDEX_TSK tskid"
  define u where "u = unlink_task ?p ?s"
  define v where "v = mutex_release_all ?p u"
  have b: "tman_base cfg ?s" using tman_inv_base[of cfg ?s] assms by simp
  have v: "(if \<not> q_empty ?p (mtxqs u) then mutex_release_all ?p u else (False, u)) = v"
    by (simp add: v_def q_empty_def mutex_release_all_round)
  have k: "ev_keep OMtx (tme s) (tme (snd v))" if "tstat (tcb ?s ?p) \<noteq> TS_DORMANT"
    using ended_keep[OF b that v_def[unfolded u_def]] by (simp add: lock_sel)
  show ?thesis
    using k unfolding ter_tsk_def Let_def tsk_call_def unlink_task_def[symmetric] u_def[symmetric] v
    by (auto simp: case_prod_beta TSTAT_DORMANT_def make_dormant_def lock_sel)
qed

lemma ext_tsk_keep:
  assumes "tman_inv cfg s" and "p_runtsk s = Some p"
  shows "ev_keep OMtx (tme s) (tme (snd (ext_tsk s)))"
proof -
  let ?s = "ext_flags s"
  note f = ext_flags_sel[of s]
  have b: "tman_base cfg ?s" by (rule tman_base_same[OF tman_inv_base[OF assms(1)]]) (simp_all add: f)
  have run: "TSTAT_RUNNABLE (tstat (tcb ?s p))" using kinvD(3)[OF tman_invD(1)[OF assms(1)] assms(2)] by (simp add: f)
  then have nd: "tstat (tcb ?s p) \<noteq> TS_DORMANT" by (auto simp: TSTAT_defs)
  define u where "u = snd (make_non_runnable p ?s)"
  have u: "u = unlink_task p ?s" using run by (simp add: u_def unlink_task_def)
  define v where "v = mutex_release_all p u"
  have v: "(if \<not> q_empty p (mtxqs u) then snd (mutex_release_all p u) else u) = snd v"
    by (simp add: v_def q_empty_def mutex_release_all_round)
  have k: "ev_keep OMtx (tme s) (tme (snd v))" using ended_keep[OF b nd v_def[unfolded u]] by (simp add: f)
  have p: "runtsk ?s = p" using assms(2) by (simp add: f)
  have "snd (ext_tsk s) = s \<or> snd (ext_tsk s) = t_unlock_cpu (dispatch (let s = make_dormant p (snd v) in if actque (tcb s p)
        then (let s = upd_tcb p (\<lambda>t. t\<lparr>actque := False\<rparr>) s in snd (make_active p s)) else s))"
    using p unfolding v[symmetric] by (simp add: ext_tsk_def u_def ext_flags_def Let_def)
  then show ?thesis using k by (auto simp: Let_def make_dormant_def dispatch_def lock_sel)
qed

lemma tman_keep:
  shows "ev_keep OMtx (tme s) (tme (snd (del_tsk cfg tskid s)))"
    and "ev_keep OMtx (tme s) (tme (snd (act_tsk cfg tskid s)))" and "ev_keep OMtx (tme s) (tme (snd (iact_tsk cfg tskid s)))"
    and "ev_keep OMtx (tme s) (tme (snd (can_act cfg tskid s)))" and "ev_keep OMtx (tme s) (tme (snd (chg_pri cfg tskid pri s)))"
    and "ev_keep OMtx (tme s) (tme (snd (get_pri cfg tskid s)))" and "ev_keep OMtx (tme s) (tme (snd (get_inf s)))"
  by (auto simp: del_tsk_def act_tsk_def iact_tsk_def can_act_def chg_pri_def get_pri_def get_inf_def
    tman_call_tme make_dormant_def kernel_free_def lock_sel Let_def case_prod_beta)

lemma acre_tsk_keep: "ev_keep OMtx (tme s) (tme (snd (acre_tsk cfg pk s)))"
  by (cases rule: acre_tsk_cases[OF refl refl, where cfg = cfg and pk = pk and s = s]) (auto simp: new_tsk_def lock_sel)

lemma tman_step_mild:
  assumes "tman_step cfg s s'" and "ev_keep OMtx (tme s) (tme s')"
  shows "mild OMtx s s'"
proof -
  have "wait_sub (kindq OMtx) s s'" using assms(1) by (auto simp: tman_step_def intro: wait_sub_mono)
  then show ?thesis using assms by (simp add: mild_def tman_step_def others_def pools_def)
qed

end
