(* ===== verification/Asp_Calls.thy ===== *)
theory Asp_Calls
  imports Asp_Semaphore Asp_Mutex Asp_Eventflag Asp_Dataqueue Asp_Pridataq Asp_Mailbox Asp_Mempfix Asp_Cyclic Asp_Alarm Asp_Task_Sync Asp_Task_Refer Asp_Task_Except
begin

text \<open>
  The service calls as data: what a task or a handler can ask of the kernel, and the state the call
  leaves behind. A program of a handler is a tree of calls that branches on their results and on what
  the sense calls show.
\<close>

section \<open>The service calls of tasks\<close>

text \<open>The calls that a task can issue, component by component, and what they do to the kernel.\<close>

datatype sem_call =
  Acre_sem SEMINIB | Del_sem ID | Sig_sem ID | Wai_sem ID | Pol_sem ID | Twai_sem ID TMO | Ini_sem ID | Ref_sem ID

primrec exec_sem :: "kernel_cfg \<Rightarrow> sem_call \<Rightarrow> kernel \<Rightarrow> kernel" where
  "exec_sem cfg (Acre_sem pk) s = snd (acre_sem cfg pk s)"
| "exec_sem cfg (Del_sem i) s = snd (del_sem cfg i s)"
| "exec_sem cfg (Sig_sem i) s = snd (sig_sem cfg i s)"
| "exec_sem cfg (Wai_sem i) s = snd (wai_sem cfg i s)"
| "exec_sem cfg (Pol_sem i) s = snd (pol_sem cfg i s)"
| "exec_sem cfg (Twai_sem i tmo) s = snd (twai_sem cfg i tmo s)"
| "exec_sem cfg (Ini_sem i) s = snd (ini_sem cfg i s)"
| "exec_sem cfg (Ref_sem i) s = snd (ref_sem cfg i s)"

datatype flg_call =
  Acre_flg FLGINIB | Del_flg ID | Set_flg ID FLGPTN | Clr_flg ID FLGPTN | Wai_flg ID FLGPTN MODE | Pol_flg ID FLGPTN MODE | Twai_flg ID FLGPTN MODE TMO | Ini_flg ID | Ref_flg ID

primrec exec_flg :: "kernel_cfg \<Rightarrow> flg_call \<Rightarrow> kernel \<Rightarrow> kernel" where
  "exec_flg cfg (Acre_flg pk) s = snd (acre_flg cfg pk s)"
| "exec_flg cfg (Del_flg i) s = snd (del_flg cfg i s)"
| "exec_flg cfg (Set_flg i ptn) s = snd (set_flg cfg i ptn s)"
| "exec_flg cfg (Clr_flg i ptn) s = snd (clr_flg cfg i ptn s)"
| "exec_flg cfg (Wai_flg i ptn m) s = snd (wai_flg cfg i ptn m s)"
| "exec_flg cfg (Pol_flg i ptn m) s = snd (pol_flg cfg i ptn m s)"
| "exec_flg cfg (Twai_flg i ptn m tmo) s = snd (twai_flg cfg i ptn m tmo s)"
| "exec_flg cfg (Ini_flg i) s = snd (ini_flg cfg i s)"
| "exec_flg cfg (Ref_flg i) s = snd (ref_flg cfg i s)"

datatype dtq_call =
  Acre_dtq DTQINIB | Del_dtq ID | Snd_dtq ID intptr_t | Psnd_dtq ID intptr_t | Tsnd_dtq ID intptr_t TMO | Fsnd_dtq ID intptr_t | Rcv_dtq ID | Prcv_dtq ID | Trcv_dtq ID TMO | Ini_dtq ID | Ref_dtq ID

primrec exec_dtq :: "kernel_cfg \<Rightarrow> dtq_call \<Rightarrow> kernel \<Rightarrow> kernel" where
  "exec_dtq cfg (Acre_dtq pk) s = snd (acre_dtq cfg pk s)"
| "exec_dtq cfg (Del_dtq i) s = snd (del_dtq cfg i s)"
| "exec_dtq cfg (Snd_dtq i d) s = snd (snd_dtq cfg i d s)"
| "exec_dtq cfg (Psnd_dtq i d) s = snd (psnd_dtq cfg i d s)"
| "exec_dtq cfg (Tsnd_dtq i d tmo) s = snd (tsnd_dtq cfg i d tmo s)"
| "exec_dtq cfg (Fsnd_dtq i d) s = snd (fsnd_dtq cfg i d s)"
| "exec_dtq cfg (Rcv_dtq i) s = snd (rcv_dtq cfg i s)"
| "exec_dtq cfg (Prcv_dtq i) s = snd (prcv_dtq cfg i s)"
| "exec_dtq cfg (Trcv_dtq i tmo) s = snd (trcv_dtq cfg i tmo s)"
| "exec_dtq cfg (Ini_dtq i) s = snd (ini_dtq cfg i s)"
| "exec_dtq cfg (Ref_dtq i) s = snd (ref_dtq cfg i s)"

datatype pdq_call =
  Acre_pdq PDQINIB | Del_pdq ID | Snd_pdq ID intptr_t PRI | Psnd_pdq ID intptr_t PRI | Tsnd_pdq ID intptr_t PRI TMO | Rcv_pdq ID | Prcv_pdq ID | Trcv_pdq ID TMO | Ini_pdq ID | Ref_pdq ID

primrec exec_pdq :: "kernel_cfg \<Rightarrow> pdq_call \<Rightarrow> kernel \<Rightarrow> kernel" where
  "exec_pdq cfg (Acre_pdq pk) s = snd (acre_pdq cfg pk s)"
| "exec_pdq cfg (Del_pdq i) s = snd (del_pdq cfg i s)"
| "exec_pdq cfg (Snd_pdq i d pri) s = snd (snd_pdq cfg i d pri s)"
| "exec_pdq cfg (Psnd_pdq i d pri) s = snd (psnd_pdq cfg i d pri s)"
| "exec_pdq cfg (Tsnd_pdq i d pri tmo) s = snd (tsnd_pdq cfg i d pri tmo s)"
| "exec_pdq cfg (Rcv_pdq i) s = snd (rcv_pdq cfg i s)"
| "exec_pdq cfg (Prcv_pdq i) s = snd (prcv_pdq cfg i s)"
| "exec_pdq cfg (Trcv_pdq i tmo) s = snd (trcv_pdq cfg i tmo s)"
| "exec_pdq cfg (Ini_pdq i) s = snd (ini_pdq cfg i s)"
| "exec_pdq cfg (Ref_pdq i) s = snd (ref_pdq cfg i s)"

datatype mbx_call =
  Acre_mbx T_CMBX | Del_mbx ID | Snd_mbx ID nat | Rcv_mbx ID | Prcv_mbx ID | Trcv_mbx ID TMO | Ini_mbx ID | Ref_mbx ID

primrec exec_mbx :: "kernel_cfg \<Rightarrow> mbx_call \<Rightarrow> kernel \<Rightarrow> kernel" where
  "exec_mbx cfg (Acre_mbx pk) s = snd (acre_mbx cfg pk s)"
| "exec_mbx cfg (Del_mbx i) s = snd (del_mbx cfg i s)"
| "exec_mbx cfg (Snd_mbx i a) s = snd (snd_mbx cfg i a s)"
| "exec_mbx cfg (Rcv_mbx i) s = snd (rcv_mbx cfg i s)"
| "exec_mbx cfg (Prcv_mbx i) s = snd (prcv_mbx cfg i s)"
| "exec_mbx cfg (Trcv_mbx i tmo) s = snd (trcv_mbx cfg i tmo s)"
| "exec_mbx cfg (Ini_mbx i) s = snd (ini_mbx cfg i s)"
| "exec_mbx cfg (Ref_mbx i) s = snd (ref_mbx cfg i s)"

datatype mtx_call =
  Acre_mtx T_CMTX | Del_mtx ID | Loc_mtx ID | Ploc_mtx ID | Tloc_mtx ID TMO | Unl_mtx ID | Ini_mtx ID | Ref_mtx ID

primrec exec_mtx :: "kernel_cfg \<Rightarrow> mtx_call \<Rightarrow> kernel \<Rightarrow> kernel" where
  "exec_mtx cfg (Acre_mtx pk) s = snd (acre_mtx cfg pk s)"
| "exec_mtx cfg (Del_mtx i) s = snd (del_mtx cfg i s)"
| "exec_mtx cfg (Loc_mtx i) s = snd (loc_mtx cfg i s)"
| "exec_mtx cfg (Ploc_mtx i) s = snd (ploc_mtx cfg i s)"
| "exec_mtx cfg (Tloc_mtx i tmo) s = snd (tloc_mtx cfg i tmo s)"
| "exec_mtx cfg (Unl_mtx i) s = snd (unl_mtx cfg i s)"
| "exec_mtx cfg (Ini_mtx i) s = snd (ini_mtx cfg i s)"
| "exec_mtx cfg (Ref_mtx i) s = snd (ref_mtx cfg i s)"

datatype mpf_call =
  Acre_mpf T_CMPF | Del_mpf ID | Get_mpf ID | Pget_mpf ID | Tget_mpf ID TMO | Rel_mpf ID nat | Ini_mpf ID | Ref_mpf ID

primrec exec_mpf :: "kernel_cfg \<Rightarrow> mpf_call \<Rightarrow> kernel \<Rightarrow> kernel" where
  "exec_mpf cfg (Acre_mpf pk) s = snd (acre_mpf cfg pk s)"
| "exec_mpf cfg (Del_mpf i) s = snd (del_mpf cfg i s)"
| "exec_mpf cfg (Get_mpf i) s = snd (get_mpf cfg i s)"
| "exec_mpf cfg (Pget_mpf i) s = snd (pget_mpf cfg i s)"
| "exec_mpf cfg (Tget_mpf i tmo) s = snd (tget_mpf cfg i tmo s)"
| "exec_mpf cfg (Rel_mpf i a) s = snd (rel_mpf cfg i a s)"
| "exec_mpf cfg (Ini_mpf i) s = snd (ini_mpf cfg i s)"
| "exec_mpf cfg (Ref_mpf i) s = snd (ref_mpf cfg i s)"

datatype cyc_call =
  Acre_cyc CYCINIB | Del_cyc ID | Sta_cyc ID | Stp_cyc ID | Ref_cyc ID

primrec exec_cyc :: "kernel_cfg \<Rightarrow> cyc_call \<Rightarrow> kernel \<Rightarrow> kernel" where
  "exec_cyc cfg (Acre_cyc pk) s = snd (acre_cyc cfg pk s)"
| "exec_cyc cfg (Del_cyc i) s = snd (del_cyc cfg i s)"
| "exec_cyc cfg (Sta_cyc i) s = snd (sta_cyc cfg i s)"
| "exec_cyc cfg (Stp_cyc i) s = snd (stp_cyc cfg i s)"
| "exec_cyc cfg (Ref_cyc i) s = snd (ref_cyc cfg i s)"

datatype alm_call =
  Acre_alm ALMINIB | Del_alm ID | Sta_alm ID RELTIM | Stp_alm ID | Ref_alm ID

primrec exec_alm :: "kernel_cfg \<Rightarrow> alm_call \<Rightarrow> kernel \<Rightarrow> kernel" where
  "exec_alm cfg (Acre_alm pk) s = snd (acre_alm cfg pk s)"
| "exec_alm cfg (Del_alm i) s = snd (del_alm cfg i s)"
| "exec_alm cfg (Sta_alm i tim) s = snd (sta_alm cfg i tim s)"
| "exec_alm cfg (Stp_alm i) s = snd (stp_alm cfg i s)"
| "exec_alm cfg (Ref_alm i) s = snd (ref_alm cfg i s)"

text \<open>The calls of the task modules and of the system state.\<close>

datatype tsk_call0 =
  Acre_tsk T_CTSK | Del_tsk ID | Act_tsk ID | Can_act ID | Ext_tsk | Ter_tsk ID | Chg_pri ID PRI | Get_pri ID | Get_inf | Ref_tsk ID

primrec exec_tman :: "kernel_cfg \<Rightarrow> tsk_call0 \<Rightarrow> kernel \<Rightarrow> kernel" where
  "exec_tman cfg (Acre_tsk pk) s = snd (acre_tsk cfg pk s)"
| "exec_tman cfg (Del_tsk i) s = snd (del_tsk cfg i s)"
| "exec_tman cfg (Act_tsk i) s = snd (act_tsk cfg i s)"
| "exec_tman cfg (Can_act i) s = snd (can_act cfg i s)"
| "exec_tman cfg Ext_tsk s = snd (ext_tsk s)"
| "exec_tman cfg (Ter_tsk i) s = snd (ter_tsk cfg i s)"
| "exec_tman cfg (Chg_pri i pri) s = snd (chg_pri cfg i pri s)"
| "exec_tman cfg (Get_pri i) s = snd (get_pri cfg i s)"
| "exec_tman cfg Get_inf s = snd (get_inf s)"
| "exec_tman cfg (Ref_tsk i) s = snd (ref_tsk cfg i s)"

datatype sync_call =
  Slp_tsk | Tslp_tsk TMO | Wup_tsk ID | Can_wup ID | Rel_wai ID | Sus_tsk ID | Rsm_tsk ID | Dly_tsk RELTIM

primrec exec_sync :: "kernel_cfg \<Rightarrow> sync_call \<Rightarrow> kernel \<Rightarrow> kernel" where
  "exec_sync cfg Slp_tsk s = snd (slp_tsk s)"
| "exec_sync cfg (Tslp_tsk tmo) s = snd (tslp_tsk tmo s)"
| "exec_sync cfg (Wup_tsk i) s = snd (wup_tsk cfg i s)"
| "exec_sync cfg (Can_wup i) s = snd (can_wup cfg i s)"
| "exec_sync cfg (Rel_wai i) s = snd (rel_wai cfg i s)"
| "exec_sync cfg (Sus_tsk i) s = snd (sus_tsk cfg i s)"
| "exec_sync cfg (Rsm_tsk i) s = snd (rsm_tsk cfg i s)"
| "exec_sync cfg (Dly_tsk tim) s = snd (dly_tsk tim s)"

datatype sys_call =
  Rot_rdq PRI | Get_tid | Loc_cpu | Unl_cpu | Dis_dsp | Ena_dsp | Get_tim | Def_tex ID T_DTEX | Dis_tex | Ref_tex ID | Get_ipm

primrec exec_sys :: "kernel_cfg \<Rightarrow> sys_call \<Rightarrow> kernel \<Rightarrow> kernel" where
  "exec_sys cfg (Rot_rdq pri) s = snd (rot_rdq pri s)"
| "exec_sys cfg Get_tid s = snd (get_tid s)"
| "exec_sys cfg Loc_cpu s = snd (loc_cpu s)"
| "exec_sys cfg Unl_cpu s = snd (unl_cpu s)"
| "exec_sys cfg Dis_dsp s = snd (dis_dsp s)"
| "exec_sys cfg Ena_dsp s = snd (ena_dsp s)"
| "exec_sys cfg Get_tim s = snd (get_tim s)"
| "exec_sys cfg (Def_tex i pk) s = snd (def_tex cfg i pk s)"
| "exec_sys cfg Dis_tex s = snd (dis_tex s)"
| "exec_sys cfg (Ref_tex i) s = snd (ref_tex cfg i s)"
| "exec_sys cfg Get_ipm s = snd (get_ipm s)"

text \<open>
  What the calls rely on and do not check: a mutex is deleted unlocked, a message that is sent is in no
  mailbox, and the number of the blocks of a memory pool is below the value that marks a block in use.
\<close>

definition msg_free :: "nat \<Rightarrow> kernel \<Rightarrow> bool" where
  "msg_free m s \<longleftrightarrow> (\<forall>qs j. mbx_rep qs s \<longrightarrow> m \<notin> set (qs j))"

datatype svc =
  Sem sem_call | Flg flg_call | Dtq dtq_call | Pdq pdq_call | Mbx mbx_call | Mtx mtx_call | Mpf mpf_call
  | Cyc cyc_call | Alm alm_call | Tman tsk_call0 | Sync sync_call | Sys sys_call

fun svc_ok :: "svc \<Rightarrow> kernel \<Rightarrow> bool" where
  "svc_ok (Mtx (Del_mtx i)) s = (p_loctsk (mtxcb s (INDEX_MTX i)) = None)"
| "svc_ok (Mbx (Snd_mbx i m)) s = msg_free m s"
| "svc_ok (Mpf (Acre_mpf pk)) s = (cmpf_blkcnt pk < 0xFFFFFFFF)"
| "svc_ok _ s = True"

primrec exec_svc :: "kernel_cfg \<Rightarrow> svc \<Rightarrow> kernel \<Rightarrow> kernel" where
  "exec_svc cfg (Sem c) s = exec_sem cfg c s"
| "exec_svc cfg (Flg c) s = exec_flg cfg c s"
| "exec_svc cfg (Dtq c) s = exec_dtq cfg c s"
| "exec_svc cfg (Pdq c) s = exec_pdq cfg c s"
| "exec_svc cfg (Mbx c) s = exec_mbx cfg c s"
| "exec_svc cfg (Mtx c) s = exec_mtx cfg c s"
| "exec_svc cfg (Mpf c) s = exec_mpf cfg c s"
| "exec_svc cfg (Cyc c) s = exec_cyc cfg c s"
| "exec_svc cfg (Alm c) s = exec_alm cfg c s"
| "exec_svc cfg (Tman c) s = exec_tman cfg c s"
| "exec_svc cfg (Sync c) s = exec_sync cfg c s"
| "exec_svc cfg (Sys c) s = exec_sys cfg c s"

section \<open>The service calls of handlers\<close>

datatype icall =
  Iact_tsk ID | Iwup_tsk ID | Irel_wai ID | Isig_sem ID | Iset_flg ID FLGPTN | Ipsnd_dtq ID intptr_t | Ifsnd_dtq ID intptr_t
| Ipsnd_pdq ID intptr_t PRI | Irot_rdq PRI | Iget_tid | Iras_tex ID TEXPTN | Ista_alm ID RELTIM | Istp_alm ID | Iloc_cpu | Iunl_cpu

primrec exec_icall :: "kernel_cfg \<Rightarrow> icall \<Rightarrow> kernel \<Rightarrow> (result \<times> ID option) \<times> kernel" where
  "exec_icall cfg (Iact_tsk i) s = apfst (\<lambda>r. (r, None)) (iact_tsk cfg i s)"
| "exec_icall cfg (Iwup_tsk i) s = apfst (\<lambda>r. (r, None)) (iwup_tsk cfg i s)"
| "exec_icall cfg (Irel_wai i) s = apfst (\<lambda>r. (r, None)) (irel_wai cfg i s)"
| "exec_icall cfg (Isig_sem i) s = apfst (\<lambda>r. (r, None)) (isig_sem cfg i s)"
| "exec_icall cfg (Iset_flg i ptn) s = apfst (\<lambda>r. (r, None)) (iset_flg cfg i ptn s)"
| "exec_icall cfg (Ipsnd_dtq i d) s = apfst (\<lambda>r. (r, None)) (ipsnd_dtq cfg i d s)"
| "exec_icall cfg (Ifsnd_dtq i d) s = apfst (\<lambda>r. (r, None)) (ifsnd_dtq cfg i d s)"
| "exec_icall cfg (Ipsnd_pdq i d pri) s = apfst (\<lambda>r. (r, None)) (ipsnd_pdq cfg i d pri s)"
| "exec_icall cfg (Irot_rdq pri) s = apfst (\<lambda>r. (r, None)) (irot_rdq pri s)"
| "exec_icall cfg Iget_tid s = iget_tid s"
| "exec_icall cfg (Iras_tex i ptn) s = apfst (\<lambda>r. (r, None)) (iras_tex cfg i ptn s)"
| "exec_icall cfg (Ista_alm i tim) s = apfst (\<lambda>r. (r, None)) (ista_alm cfg i tim s)"
| "exec_icall cfg (Istp_alm i) s = apfst (\<lambda>r. (r, None)) (istp_alm cfg i s)"
| "exec_icall cfg Iloc_cpu s = apfst (\<lambda>r. (r, None)) (iloc_cpu s)"
| "exec_icall cfg Iunl_cpu s = apfst (\<lambda>r. (r, None)) (iunl_cpu s)"

text \<open>A handler: it ends, calls the kernel and goes on with the result, or looks at the state.\<close>

datatype hprog = Done | Icall icall "result \<times> ID option \<Rightarrow> hprog" | Sense "kernel \<Rightarrow> hprog"

primrec run_prog :: "kernel_cfg \<Rightarrow> hprog \<Rightarrow> kernel \<Rightarrow> kernel" where
  "run_prog cfg Done s = s"
| "run_prog cfg (Icall c k) s = run_prog cfg (k (fst (exec_icall cfg c s))) (snd (exec_icall cfg c s))"
| "run_prog cfg (Sense k) s = run_prog cfg (k s) s"

text \<open>The handlers of a system: the address of a function and its argument give its program.\<close>

type_synonym handlers = "nat \<Rightarrow> intptr_t \<Rightarrow> hprog"

definition run_handler :: "kernel_cfg \<Rightarrow> handlers \<Rightarrow> nat \<Rightarrow> intptr_t \<Rightarrow> kernel \<Rightarrow> kernel" where
  "run_handler cfg hs a x s = run_prog cfg (hs a x) s"

end
