(* ===== verification/Asp_Context.thy ===== *)
theory Asp_Context
  imports Asp_Calls Asp_Frame Asp_Timer
begin

text \<open>
  A service call of a task leaves the context alone: it neither enters nor leaves an interrupt, and it
  requests no delayed dispatch. Only calls of handlers set \<open>reqflg\<close>.
\<close>

definition ctx :: "kernel \<Rightarrow> bool \<times> bool" where
  "ctx s = (reqflg s, intctx s)"

lemma ctx_upd [simp]:
  "ctx (s\<lparr>tcb := x0\<rparr>) = ctx s" "ctx (s\<lparr>queues := x1\<rparr>) = ctx s" "ctx (s\<lparr>mtxqs := x2\<rparr>) = ctx
  s" "ctx (s\<lparr>p_runtsk := x3\<rparr>) = ctx s" "ctx (s\<lparr>p_schedtsk := x4\<rparr>) = ctx s" "ctx (s\<lparr>ipmflg :=
  x5\<rparr>) = ctx s" "ctx (s\<lparr>disdsp := x6\<rparr>) = ctx s" "ctx (s\<lparr>dspflg := x7\<rparr>) = ctx s" "ctx
  (s\<lparr>ready_primap := x8\<rparr>) = ctx s" "ctx (s\<lparr>cpu_lock := x9\<rparr>) = ctx s" "ctx (s\<lparr>intpri :=
  x10\<rparr>) = ctx s" "ctx (s\<lparr>kmm_brk := x11\<rparr>) = ctx s" "ctx (s\<lparr>tme := x12\<rparr>) = ctx s" "ctx
  (s\<lparr>semcb := x13\<rparr>) = ctx s" "ctx (s\<lparr>free_semcb := x14\<rparr>) = ctx s" "ctx (s\<lparr>flgcb := x15\<rparr>) =
  ctx s" "ctx (s\<lparr>free_flgcb := x16\<rparr>) = ctx s" "ctx (s\<lparr>dtqcb := x17\<rparr>) = ctx s" "ctx (s\<lparr>free_dtqcb
  := x18\<rparr>) = ctx s" "ctx (s\<lparr>pdqcb := x19\<rparr>) = ctx s" "ctx (s\<lparr>free_pdqcb := x20\<rparr>) = ctx s" "ctx
  (s\<lparr>mbxcb := x21\<rparr>) = ctx s" "ctx (s\<lparr>free_mbxcb := x22\<rparr>) = ctx s" "ctx (s\<lparr>pk_next := x23\<rparr>)
  = ctx s" "ctx (s\<lparr>msgpri := x24\<rparr>) = ctx s" "ctx (s\<lparr>mpfcb := x25\<rparr>) = ctx s" "ctx (s\<lparr>free_mpfcb :=
  x26\<rparr>) = ctx s" "ctx (s\<lparr>mtxcb := x27\<rparr>) = ctx s" "ctx (s\<lparr>free_mtxcb := x28\<rparr>) = ctx s" "ctx
  (s\<lparr>cyccb := x29\<rparr>) = ctx s" "ctx (s\<lparr>free_cyccb := x30\<rparr>) = ctx s" "ctx (s\<lparr>almcb := x31\<rparr>) =
  ctx s" "ctx (s\<lparr>free_almcb := x32\<rparr>) = ctx s"
  by (simp_all add: ctx_def)

section \<open>The operations below the calls\<close>

lemma ctx_prims [simp]:
  "ctx (t_lock_cpu s) = ctx s" "ctx (t_unlock_cpu s) = ctx s" "ctx (dispatch s) = ctx s" "ctx (dispatch_if r) = ctx (snd r)"
  by (simp_all add: t_lock_cpu_def t_unlock_cpu_def dispatch_def dispatch_if_def)

lemma ctx_call [simp]: "ctx (snd (tsk_call body s)) = ctx (snd (body (t_lock_cpu s)))"
  by (simp add: tsk_call_def case_prod_beta)

lemma ctx_primap [simp]: "ctx (primap_set pri s) = ctx s" "ctx (primap_clear pri s) = ctx s"
  by (simp_all add: primap_set_def primap_clear_def)

lemma ctx_task [simp]:
  "ctx (snd (make_runnable p s)) = ctx s" "ctx (snd (make_non_runnable p s)) = ctx s" "ctx (make_dormant p s) = ctx s"
  "ctx (snd (make_active p s)) = ctx s" "ctx (snd (rotate_ready_queue pri s)) = ctx s" "ctx (snd (change_priority p n m s)) = ctx s"
  by (auto simp: make_runnable_def make_non_runnable_def make_dormant_def make_active_def rotate_ready_queue_def change_priority_def
    wobj_change_priority_def Let_def case_prod_beta)

lemma ctx_wait [simp]:
  "ctx (make_wait s) = ctx s" "ctx (make_wait_tmout tmout s) = ctx s" "ctx (snd (make_non_wait p s)) = ctx s"
  "ctx (wait_dequeue_wobj p s) = ctx s" "ctx (wait_dequeue_tmevtb p s) = ctx s" "ctx (wobj_queue_insert w s) = ctx s"
  by (auto simp: make_wait_def make_wait_tmout_def make_non_wait_def wait_dequeue_wobj_def wait_dequeue_tmevtb_def wobj_queue_insert_def
    Let_def split: winfo_union.split option.split)

lemma ctx_release [simp]:
  "ctx (snd (wait_complete p s)) = ctx s" "ctx (snd (wait_release p s)) = ctx s"
  "ctx (wobj_make_wait w s) = ctx s" "ctx (wobj_make_wait_tmout w tmout s) = ctx s" "ctx (rwait_tmout w tmout s) = ctx s"
  by (simp_all add: wait_complete_def wait_release_def wobj_make_wait_def wobj_make_wait_tmout_def rwait_tmout_def Let_def)

lemma ctx_init_wait_queue [simp]: "ctx (snd (init_wait_queue q s)) = ctx s"
proof (cases "is_waitq q")
  case True
  then show ?thesis
  proof (induction s rule: init_wait_queue_induct)
    case (round s)
    then show ?case by (subst init_wait_queue_round) (auto simp: init_wait_round_def)
  qed (subst init_wait_queue_round, simp)
qed (subst init_wait_queue_round, simp)

lemma ctx_mutex [simp]:
  "ctx (snd (mutex_acquire p i s)) = ctx s" "ctx (snd (mutex_drop_priority p n s)) = ctx s" "ctx (snd (mutex_release i s)) = ctx s"
  by (auto simp: mutex_acquire_def mutex_raise_priority_def mutex_drop_priority_def mutex_release_def Let_def case_prod_beta)

lemma ctx_mutex_release_all [simp]: "ctx (snd (mutex_release_all p s)) = ctx s"
proof (induction s rule: release_all_induct[where p = p])
  case (round s)
  then show ?case by (subst mutex_release_all_round) (simp add: release_all_round_def)
qed (subst mutex_release_all_round, simp)

lemma ctx_set_flg_loop [simp]: "ctx (snd (set_flg_loop i ps s)) = ctx s"
  by (induction ps arbitrary: s) (auto simp: set_flg_loop_step flg_wake_def Let_def)

lemma ctx_data [simp]:
  "ctx (snd (send_data i d s)) = ctx s" "ctx (snd (force_send_data i d s)) = ctx s" "ctx (snd (receive_data i s)) = ctx s"
  "ctx (snd (send_pridata i d pri s)) = ctx s" "ctx (snd (receive_pridata i s)) = ctx s"
  "ctx (snd (kernel_malloc cfg n s)) = ctx s" "ctx (kernel_free a s) = ctx s"
  by (auto simp: send_data_def force_send_data_def receive_data_def send_pridata_def receive_pridata_def kernel_malloc_def kernel_free_def
    Let_def case_prod_beta)

lemma ctx_message [simp]: "enqueue_msg_pri i m s = Some t \<Longrightarrow> ctx t = ctx s"
  by (auto simp: enqueue_msg_pri_def split: option.splits)

section \<open>The calls\<close>

lemma ctx_sem: "ctx (exec_sem cfg c s) = ctx s"
  by (cases c) (auto simp: acre_sem_def del_sem_def sig_sem_def wai_sem_def pol_sem_def twai_sem_def ini_sem_def ref_sem_def
    Let_def case_prod_beta)

lemma ctx_flg: "ctx (exec_flg cfg c s) = ctx s"
  by (cases c) (auto simp: acre_flg_def del_flg_def set_flg_def clr_flg_def wai_flg_def pol_flg_def twai_flg_def ini_flg_def ref_flg_def
    check_flg_cond_def Let_def case_prod_beta)

lemma ctx_dtq: "ctx (exec_dtq cfg c s) = ctx s"
  by (cases c) (auto simp: acre_dtq_def del_dtq_def snd_dtq_def psnd_dtq_def tsnd_dtq_def fsnd_dtq_def rcv_dtq_def prcv_dtq_def
    trcv_dtq_def ini_dtq_def ref_dtq_def Let_def case_prod_beta split: option.splits prod.splits)

lemma ctx_pdq: "ctx (exec_pdq cfg c s) = ctx s"
  by (cases c) (auto simp: acre_pdq_def del_pdq_def snd_pdq_def psnd_pdq_def tsnd_pdq_def rcv_pdq_def prcv_pdq_def
    trcv_pdq_def ini_pdq_def ref_pdq_def Let_def case_prod_beta split: option.splits prod.splits)

lemma ctx_mtx: "ctx (exec_mtx cfg c s) = ctx s"
  by (cases c) (auto simp: acre_mtx_def del_mtx_def loc_mtx_def ploc_mtx_def tloc_mtx_def unl_mtx_def ini_mtx_def ref_mtx_def
    Let_def case_prod_beta split: option.splits)

lemma ctx_acre_mpf: "ctx (snd (acre_mpf cfg pk s)) = ctx s"
  by (rule acre_mpf_cases[OF refl refl refl, of cfg pk s]) simp_all

lemma ctx_mpf: "ctx (exec_mpf cfg c s) = ctx s"
  by (cases c) (auto simp: ctx_acre_mpf, auto simp: del_mpf_def get_mpf_def pget_mpf_def tget_mpf_def rel_mpf_def ini_mpf_def ref_mpf_def
    Let_def case_prod_beta)

lemma ctx_handlers: "ctx (exec_cyc cfg c s) = ctx s" "ctx (exec_alm cfg d s) = ctx s"
  by (cases c; auto simp: acre_cyc_def del_cyc_def sta_cyc_def stp_cyc_def ref_cyc_def tmevtb_enqueue_cyc_def Let_def)
    (cases d; auto simp: acre_alm_def del_alm_def sta_alm_def stp_alm_def ref_alm_def sta_alm_body_def stp_alm_body_def Let_def)

lemma ctx_sync: "ctx (exec_sync cfg c s) = ctx s"
  by (cases c) (auto simp: slp_tsk_def tslp_tsk_def wup_tsk_def can_wup_def rel_wai_def sus_tsk_def rsm_tsk_def dly_tsk_def Let_def)

lemma ctx_sys: "ctx (exec_sys cfg c s) = ctx s"
  by (cases c) (auto simp: rot_rdq_def get_tid_def loc_cpu_def unl_cpu_def dis_dsp_def ena_dsp_def get_tim_def def_tex_def dis_tex_def
    ref_tex_def get_ipm_def Let_def)

lemma ctx_acre_tsk: "ctx (snd (acre_tsk cfg pk s)) = ctx s"
  by (cases rule: acre_tsk_cases[OF refl refl, where cfg = cfg and pk = pk and s = s]) (auto simp: new_tsk_def)

lemma ctx_tman: "ctx (exec_tman cfg c s) = ctx s"
  by (cases c) (auto simp: ctx_acre_tsk, auto simp: del_tsk_def act_tsk_def can_act_def ext_tsk_def ter_tsk_def chg_pri_def get_pri_def get_inf_def ref_tsk_def
    Let_def case_prod_beta)


lemma ctx_mbx:
  assumes "mbx_state cfg qs s" and "svc_ok (Mbx c) s"
  shows "ctx (exec_mbx cfg c s) = ctx s"
proof (cases c)
  case (Snd_mbx mbxid m)
  let ?s = "t_lock_cpu s" and ?i = "INDEX_MBX mbxid"
  have st: "mbx_state cfg qs ?s" using assms(1) by simp
  have m: "\<And>j. m \<notin> set (qs j)" using assms Snd_mbx by (auto simp: msg_free_def mbx_state_def)
  have e: "ctx (the (enqueue_msg_pri ?i m ?s)) = ctx s"
    if a: "mbx_atr ?s ?i \<noteq> TA_NOEXS" "mbx_atr ?s ?i AND TA_MPRI \<noteq> 0"
      "TMIN_MPRI \<le> msgpri ?s m" "msgpri ?s m \<le> maxmpri (p_mbxinib (mbxcb ?s ?i))" "queues ?s (WaitQ (MBX ?i)) = []"
  proof -
    obtain t where t: "enqueue_msg_pri ?i m ?s = Some t" using enqueue_returns[OF st a(1-4) m a(5)] by blast
    show ?thesis using ctx_message[OF t] t by simp
  qed
  then show ?thesis by (auto simp: Snd_mbx snd_mbx_def Let_def q_empty_def case_prod_beta)
qed (auto simp: acre_mbx_def del_mbx_def rcv_mbx_def prcv_mbx_def trcv_mbx_def ini_mbx_def ref_mbx_def Let_def case_prod_beta
  split: option.splits)

lemma ctx_svc:
  assumes "mbx_state cfg qs s" and "svc_ok c s"
  shows "reqflg (exec_svc cfg c s) = reqflg s" and "intctx (exec_svc cfg c s) = intctx s"
proof -
  have "ctx (exec_svc cfg c s) = ctx s"
    using ctx_sem ctx_flg ctx_dtq ctx_pdq ctx_mbx[OF assms(1)] ctx_mtx ctx_mpf ctx_handlers ctx_tman ctx_sync ctx_sys assms(2)
    by (cases c) simp_all
  then show "reqflg (exec_svc cfg c s) = reqflg s" "intctx (exec_svc cfg c s) = intctx s" by (simp_all add: ctx_def)
qed

section \<open>Calls of handlers\<close>

text \<open>A call of a handler may request a dispatch, but it does not leave the interrupt.\<close>

lemma intctx_ctx: "intctx s = snd (ctx s)"
  by (simp add: ctx_def)

lemma ctx_int [simp]:
  "snd (ctx (snd (int_call body s))) = snd (ctx (snd (body (i_lock_cpu s))))" "snd (ctx (reqflg_if r)) = snd (ctx (snd r))"
  "ctx (i_lock_cpu s) = ctx s" "ctx (i_unlock_cpu s) = ctx s" "snd (ctx (s\<lparr>reqflg := b\<rparr>)) = snd (ctx s)"
  by (simp_all add: int_call_def reqflg_if_def i_lock_cpu_def i_unlock_cpu_def case_prod_beta ctx_def)

lemma intctx_icall: "intctx (snd (exec_icall cfg c s)) = intctx s"
  unfolding intctx_ctx
  by (cases c) (auto simp: iact_tsk_def iwup_tsk_def irel_wai_def isig_sem_def iset_flg_def ipsnd_dtq_def ifsnd_dtq_def ipsnd_pdq_def
    irot_rdq_def iget_tid_def iras_tex_def ista_alm_def istp_alm_def iloc_cpu_def iunl_cpu_def sta_alm_body_def stp_alm_body_def
    Let_def case_prod_beta split: option.splits prod.splits)

lemma intctx_prog: "intctx (run_prog cfg h s) = intctx s"
  by (induction h arbitrary: s) (simp_all add: intctx_icall)

lemma intctx_callback: "intctx (run_callback (run_handler cfg hs) c s) = intctx s"
proof -
  have h: "snd (ctx (run_handler cfg hs a x u)) = snd (ctx u)" for a x u
    using intctx_prog[of cfg "hs a x" u] by (simp add: run_handler_def intctx_ctx)
  show ?thesis
    unfolding intctx_ctx
    by (cases c) (simp_all add: wait_tmout_def wait_tmout_ok_def call_cychdr_def call_almhdr_def tmevtb_enqueue_cyc_def h Let_def)
qed

lemma intctx_expire:
  assumes "expire (run_callback (run_handler cfg hs)) s = Some s'"
  shows "intctx s' = intctx s"
proof -
  have "run_callback (run_handler cfg hs) = run_callback (run_handler cfg hs) \<longrightarrow> intctx s' = intctx s"
    by (rule expire.raw_induct[OF _ assms, where P = "\<lambda>c s s'. c = run_callback (run_handler cfg hs) \<longrightarrow> intctx s' = intctx s"])
      (auto simp: intctx_callback Let_def split: if_splits)
  then show ?thesis by blast
qed

lemma intctx_signal_time:
  assumes "signal_time (run_callback (run_handler cfg hs)) s = Some s'"
  shows "intctx s' = intctx s"
proof -
  obtain t where t: "expire (run_callback (run_handler cfg hs)) (time_tick s) = Some t" "s' = time_tock t"
    using assms by (auto simp: signal_time_def)
  show ?thesis
    using intctx_expire[OF t(1)] by (simp add: t(2) time_tick_def time_tock_def intctx_ctx Let_def)
qed

end
