(* ===== verification/Asp_System.thy ===== *)
theory Asp_System
  imports Asp_Frame_Task Asp_Context
begin

text \<open>
  The whole kernel. \<open>sys_inv\<close> is the conjunction of the invariants of all components, and the calls of
  every component keep it: the component's own lemmas give its part, the frame lemmas the others. On
  top of it, programs of handlers (\<open>hprog\<close>), the supply of a time tick with them, and the transition
  system of service calls, interrupts and ticks.
\<close>

section \<open>The invariant of the system\<close>

primrec part :: "okind \<Rightarrow> kernel_cfg \<Rightarrow> kernel \<Rightarrow> bool" where
  "part OTsk cfg s = dormant_ok s"
| "part OMtx cfg s = (mtx_inv s \<and> mtx_free cfg s \<and> ceil_inv s)"
| "part OSem cfg s = sem_inv cfg s"
| "part OFlg cfg s = flg_inv cfg s"
| "part ODtq cfg s = dtq_inv cfg s"
| "part OPdq cfg s = pdq_inv cfg s"
| "part OMbx cfg s = (\<exists>qs. mbx_inv cfg s \<and> mbx_rep qs s)"
| "part OMpf cfg s = mpf_inv cfg s"
| "part OCyc cfg s = cyc_inv cfg s"
| "part OAlm cfg s = alm_inv cfg s"

definition sys_inv :: "kernel_cfg \<Rightarrow> kernel \<Rightarrow> bool" where
  "sys_inv cfg s \<longleftrightarrow> kinv s \<and> (\<forall>K. part K cfg s)"

text \<open>What a call does: the invariant holds afterwards, and the clock stands still.\<close>

definition keeps :: "kernel_cfg \<Rightarrow> kernel \<Rightarrow> kernel \<Rightarrow> bool" where
  "keeps cfg s s' \<longleftrightarrow> sys_inv cfg s' \<and> same_clock (tme s) (tme s')"

lemma sys_invD:
  assumes "sys_inv cfg s"
  shows "kinv s" and "part K cfg s"
  using assms by (simp_all add: sys_inv_def)

lemma sys_partD:
  assumes "sys_inv cfg s"
  shows "dormant_ok s" and "mtx_inv s" and "mtx_free cfg s" and "ceil_inv s" and "sem_inv cfg s" and "flg_inv cfg s" and "dtq_inv cfg s"
    and "pdq_inv cfg s" and "mpf_inv cfg s" and "cyc_inv cfg s" and "alm_inv cfg s"
  using sys_invD(2)[OF assms, of OTsk] sys_invD(2)[OF assms, of OMtx] sys_invD(2)[OF assms, of OSem] sys_invD(2)[OF assms, of OFlg]
    sys_invD(2)[OF assms, of ODtq] sys_invD(2)[OF assms, of OPdq] sys_invD(2)[OF assms, of OMpf]
    sys_invD(2)[OF assms, of OCyc] sys_invD(2)[OF assms, of OAlm] by simp_all

lemma othersD:
  assumes "others K s' = others K s"
  shows "K \<noteq> OMtx \<Longrightarrow> mtxqs s' = mtxqs s \<and> mtxcb s' = mtxcb s \<and> free_mtxcb s' = free_mtxcb s"
    and "K \<noteq> OSem \<Longrightarrow> semcb s' = semcb s \<and> free_semcb s' = free_semcb s"
    and "K \<noteq> OFlg \<Longrightarrow> flgcb s' = flgcb s \<and> free_flgcb s' = free_flgcb s"
    and "K \<noteq> ODtq \<Longrightarrow> dtqcb s' = dtqcb s \<and> free_dtqcb s' = free_dtqcb s"
    and "K \<noteq> OPdq \<Longrightarrow> pdqcb s' = pdqcb s \<and> free_pdqcb s' = free_pdqcb s"
    and "K \<noteq> OMbx \<Longrightarrow> mbxcb s' = mbxcb s \<and> free_mbxcb s' = free_mbxcb s \<and> pk_next s' = pk_next s" and "msgpri s' = msgpri s"
    and "K \<noteq> OMpf \<Longrightarrow> mpfcb s' = mpfcb s \<and> free_mpfcb s' = free_mpfcb s"
    and "K \<noteq> OCyc \<Longrightarrow> cyccb s' = cyccb s \<and> free_cyccb s' = free_cyccb s"
    and "K \<noteq> OAlm \<Longrightarrow> almcb s' = almcb s \<and> free_almcb s' = free_almcb s"
  using assms by (simp_all add: others_def)

lemma mbx_rep_same:
  "mbxcb s' = mbxcb s \<Longrightarrow> pk_next s' = pk_next s \<Longrightarrow> msgpri s' = msgpri s \<Longrightarrow> mbx_rep qs s' = mbx_rep qs s"
  by (simp add: mbx_rep_def)

text \<open>A call keeps the parts of the other kinds of objects.\<close>

lemma part_mild:
  assumes "mild K s s'" and "part K' cfg s" and "K' \<noteq> K" and "K' \<noteq> OTsk" and "K' \<noteq> OMtx"
  shows "part K' cfg s'"
proof -
  note o = othersD[OF conjunct1[OF assms(1)[unfolded mild_def]]]
  have w: "wait_sub (kindq K) s s'" and e: "ev_keep K (tme s) (tme s')" using assms(1) by (simp_all add: mild_def)
  have nq: "queues s' (WaitQ v) = []" if "wkind v \<noteq> K" "queues s (WaitQ v) = []" for v
    using wait_subD(1)[OF w, of "WaitQ v"] that by simp
  show ?thesis
  proof (cases K')
    case OSem
    show ?thesis using sem_inv_shrink[of cfg s s'] o(2) nq assms(2,3) by (simp add: OSem)
  next
    case OFlg
    show ?thesis using flg.inv_other[OF _ _ _ w, of "tnum_sflg cfg" "tnum_flg cfg"] o(3) assms(2,3) by (simp add: OFlg flg_inv_def)
  next
    case ODtq
    show ?thesis using dtq.inv_other[OF _ _ _ w, of "tnum_sdtq cfg" "tnum_dtq cfg"] o(4) assms(2,3) by (simp add: ODtq)
  next
    case OPdq
    show ?thesis using pdq.inv_other[OF _ _ _ w, of "tnum_spdq cfg" "tnum_pdq cfg"] o(5) assms(2,3) by (simp add: OPdq)
  next
    case OMbx
    show ?thesis
      using mbx.inv_other[OF _ _ _ w, of "tnum_smbx cfg" "tnum_mbx cfg"] o(6,7) mbx_rep_same[of s' s] assms(2,3) by (simp add: OMbx)
  next
    case OMpf
    show ?thesis using mpf.inv_other[OF _ _ _ w, of "tnum_smpf cfg" "tnum_mpf cfg"] o(8) assms(2,3) by (simp add: OMpf)
  next
    case OCyc
    show ?thesis
      using assms(2) unfolding OCyc part.simps cyc_inv_def
      by (subst hdl_inv_tme[where s = s]) (use o(9) e assms(3) in \<open>simp_all add: OCyc ev_keep_def hdl_event_def\<close>)
  next
    case OAlm
    show ?thesis
      using assms(2) unfolding OAlm part.simps alm_inv_def
      by (subst hdl_inv_tme[where s = s]) (use o(10) e assms(3) in \<open>simp_all add: OAlm ev_keep_def hdl_event_def\<close>)
  qed (use assms(4,5) in simp_all)
qed

lemma sys_inv_mild:
  assumes "sys_inv cfg s" and "mild K s s'" and "kinv s'" and "part K cfg s'" and "part OTsk cfg s'" and "part OMtx cfg s'"
  shows "keeps cfg s s'"
proof -
  have "part K' cfg s'" for K'
    using part_mild[OF assms(2) sys_invD(2)[OF assms(1)], of K'] assms(4-6) by blast
  then show ?thesis using assms(2,3) by (simp add: keeps_def sys_inv_def mild_def ev_keep_def)
qed

lemma off_tick_clock: "same_clock tm tm' \<Longrightarrow> off_tick tm' = off_tick tm"
  by (simp add: off_tick_def same_clock_def)

text \<open>Calm and still calls also keep the parts of the tasks and of the mutexes.\<close>

lemma mtx_part_calm:
  assumes "part OMtx cfg s" and "others K s' = others K s" and "K \<noteq> OMtx" and "wait_sub (kindq K) s s'"
    and "\<And>p. priority (tcb s' p) = priority (tcb s p) \<and> bpriority (tcb s' p) = bpriority (tcb s p) \<and>
      (tstat (tcb s' p) = TS_DORMANT \<longleftrightarrow> tstat (tcb s p) = TS_DORMANT)"
  shows "part OMtx cfg s'"
proof -
  note o = othersD(1)[OF assms(2,3)]
  have w: "set (queues s' (WaitQ (MTX i))) \<subseteq> set (queues s (WaitQ (MTX i)))" for i
    using wait_subD(1)[OF assms(4), of "WaitQ (MTX i)"] assms(3) by simp
  have n: "queues s (WaitQ (MTX i)) = [] \<Longrightarrow> queues s' (WaitQ (MTX i)) = []" for i using w[of i] by simp
  have "mtx_inv s'" by (rule mtx_inv_same[of s]) (use assms(1,5) o n in simp_all)
  moreover have "mtx_free cfg s'" by (rule mtx_free_same[of cfg s]) (use assms(1) o n in simp_all)
  moreover have "ceil_inv s'" by (rule ceil_inv_mono[of s]) (use assms(1,5) o w in \<open>auto simp: mtx_user_def\<close>)
  ultimately show ?thesis by simp
qed

lemma sys_inv_touches:
  assumes "sys_inv cfg s" and "touches K A s s'" and "kinv s'" and "K \<noteq> OMtx" and "K = OTsk \<or> part K cfg s'"
  shows "keeps cfg s s'"
proof -
  have c: "calm A s s'" and w: "wait_sub (kindq K) s s'" and o: "others K s' = others K s"
    using assms(2) by (simp_all add: touches_def frame_def)
  have t: "part OTsk cfg s'"
    using dormant_ok_mono[of s s'] sys_invD(2)[OF assms(1), of OTsk] c by (auto simp: calm_def)
  have m: "part OMtx cfg s'"
    by (rule mtx_part_calm[OF sys_invD(2)[OF assms(1)] o assms(4) w]) (use c in \<open>simp add: calm_def\<close>)
  show ?thesis using sys_inv_mild[OF assms(1) touches_mild[OF assms(2)] assms(3) _ t m] assms(5) t by auto
qed

lemma sys_inv_still:
  assumes "sys_inv cfg s" and "still K s s'" and "kinv s'" and "K \<noteq> OMtx" and "K = OTsk \<or> part K cfg s'"
  shows "keeps cfg s s'"
proof -
  have t: "tcb s' = tcb s" and o: "others K s' = others K s" using assms(2) by (simp_all add: still_def)
  have p: "part OTsk cfg s'" using dormant_ok_mono[of s s'] sys_invD(2)[OF assms(1), of OTsk] t by simp
  have w: "wait_sub (kindq K) s s'" using still_mild[OF assms(2)] by (simp add: mild_def)
  have m: "part OMtx cfg s'" by (rule mtx_part_calm[OF sys_invD(2)[OF assms(1)] o assms(4) w]) (simp add: t)
  show ?thesis using sys_inv_mild[OF assms(1) still_mild[OF assms(2)] assms(3) _ p m] assms(5) p by auto
qed

section \<open>Every service call of a task keeps the invariant\<close>

lemma touches_any: "touches K {} s s' \<Longrightarrow> touches K A s s'"
  unfolding touches_def frame_def calm_def by blast

lemma sys_sem:
  assumes "sys_inv cfg s" and "p_runtsk s = Some p"
  shows "keeps cfg s (exec_sem cfg c s)"
proof -
  have k: "kinv s" "sem_inv cfg s" using sys_invD(1)[OF assms(1)] sys_partD[OF assms(1)] by simp_all
  note t = sem_touches[OF k(1), THEN touches_any[where A = "{p}"]] sem_wait_touches[OF k(1) assms(2)]
  note i = kinv_sem_calls[OF k(1)] kinv_sem_init[OF k(1)] sem_calls_inv[OF k(2)] sem_init_inv[OF k(2,1)] acre_sem_inv[OF k(2,1)]
  have "touches OSem {p} s (exec_sem cfg c s) \<and> kinv (exec_sem cfg c s) \<and> sem_inv cfg (exec_sem cfg c s)"
    using t i assms(2) by (cases c) simp_all
  then show ?thesis using sys_inv_touches[OF assms(1), where A = "{p}"] by auto
qed

lemma sys_flg:
  assumes "sys_inv cfg s" and "p_runtsk s = Some p"
  shows "keeps cfg s (exec_flg cfg c s)"
proof -
  have k: "kinv s" "flg_inv cfg s" using sys_invD(1)[OF assms(1)] sys_partD[OF assms(1)] by simp_all
  note t = flg_touches[OF k(1), THEN touches_any[where A = "{p}"]] flg_wait_touches[OF k(1) assms(2)]
  note i = set_flg_inv[OF k] flg_wait_inv[OF k assms(2)] flg_misc_inv[OF k] flg_init_inv[OF k] flg_create_inv[OF k]
  have "touches OFlg {p} s (exec_flg cfg c s) \<and> kinv (exec_flg cfg c s) \<and> flg_inv cfg (exec_flg cfg c s)"
    using t i by (cases c) simp_all
  then show ?thesis using sys_inv_touches[OF assms(1), where A = "{p}"] by auto
qed

lemma sys_dtq:
  assumes "sys_inv cfg s" and "p_runtsk s = Some p"
  shows "keeps cfg s (exec_dtq cfg c s)"
proof -
  have k: "kinv s" "dtq_inv cfg s" using sys_invD(1)[OF assms(1)] sys_partD[OF assms(1)] by simp_all
  note t = dtq_touches[OF k(1), THEN touches_any[where A = "{p}"]] dtq_wait_touches[OF k(1) assms(2)]
  note i = dtq_send_inv[OF k assms(2)] dtq_receive_inv[OF k assms(2)] dtq_init_inv[OF k] dtq_create_inv[OF k]
  have "touches ODtq {p} s (exec_dtq cfg c s) \<and> kinv (exec_dtq cfg c s) \<and> dtq_inv cfg (exec_dtq cfg c s)"
    using t i by (cases c) simp_all
  then show ?thesis using sys_inv_touches[OF assms(1), where A = "{p}"] by auto
qed

lemma sys_pdq:
  assumes "sys_inv cfg s" and "p_runtsk s = Some p"
  shows "keeps cfg s (exec_pdq cfg c s)"
proof -
  have k: "kinv s" "pdq_inv cfg s" using sys_invD(1)[OF assms(1)] sys_partD[OF assms(1)] by simp_all
  note t = pdq_touches[OF k(1), THEN touches_any[where A = "{p}"]] pdq_wait_touches[OF k(1) assms(2)]
  note i = pdq_send_inv[OF k assms(2)] pdq_receive_inv[OF k assms(2)] pdq_init_inv[OF k] pdq_create_inv[OF k]
  have "touches OPdq {p} s (exec_pdq cfg c s) \<and> kinv (exec_pdq cfg c s) \<and> pdq_inv cfg (exec_pdq cfg c s)"
    using t i by (cases c) simp_all
  then show ?thesis using sys_inv_touches[OF assms(1), where A = "{p}"] by auto
qed

lemma sys_mpf:
  assumes "sys_inv cfg s" and "p_runtsk s = Some p" and "svc_ok (Mpf c) s"
  shows "keeps cfg s (exec_mpf cfg c s)"
proof -
  have k: "kinv s" "mpf_inv cfg s" using sys_invD(1)[OF assms(1)] sys_partD[OF assms(1)] by simp_all
  note t = mpf_touches[OF k(1), THEN touches_any[where A = "{p}"]] mpf_wait_touches[OF k(1) assms(2)]
  note i = mpf_get_inv[OF k assms(2)] mpf_rel_inv[OF k] mpf_init_inv[OF k] mpf_create_inv[OF k]
  have "touches OMpf {p} s (exec_mpf cfg c s) \<and> kinv (exec_mpf cfg c s) \<and> mpf_inv cfg (exec_mpf cfg c s)"
    using t i assms(3) by (cases c) simp_all
  then show ?thesis using sys_inv_touches[OF assms(1), where A = "{p}"] by auto
qed

lemma snd_mbx_state:
  assumes "mbx_state cfg qs s" and "\<And>j. m \<notin> set (qs j)"
  shows "\<exists>qs'. mbx_state cfg qs' (snd (snd_mbx cfg mbxid m s))"
  using snd_mbx_cases[OF assms refl prod.collapse[of "snd_mbx cfg mbxid m s"]]
  by (cases "queues s (WaitQ (MBX (INDEX_MBX mbxid)))") blast+

lemma sys_mbx:
  assumes "sys_inv cfg s" and "p_runtsk s = Some p" and "svc_ok (Mbx c) s"
  shows "keeps cfg s (exec_mbx cfg c s)"
proof -
  obtain qs where q: "mbx_state cfg qs s"
    using sys_invD(2)[OF assms(1), of OMbx] sys_invD(1)[OF assms(1)] by (auto simp: mbx_state_def)
  have k: "kinv s" and r: "mbx_rep qs s" using q by (simp_all add: mbx_state_def)
  note t = mbx_touches[OF k, of cfg] mbx_wait_touches[OF k assms(2), of cfg]
  note i = mbx_create_ok[OF q] mbx_init_ok[OF q refl] mbx_receive_ok(2)[OF q refl] mbx_receive_ok(3)[OF q refl assms(2)]
  have "\<exists>A qs'. touches OMbx A s (exec_mbx cfg c s) \<and> mbx_state cfg qs' (exec_mbx cfg c s)"
  proof (cases c)
    case (Snd_mbx j m)
    then have m: "\<And>j. m \<notin> set (qs j)" using assms(3) r by (auto simp: msg_free_def)
    then show ?thesis using snd_mbx_touches[OF q m] snd_mbx_state[OF q m] Snd_mbx by auto
  next
    case (Acre_mbx pk)
    show ?thesis unfolding Acre_mbx exec_mbx.simps using t(1) i(1) by blast
  next
    case (Del_mbx j)
    show ?thesis unfolding Del_mbx exec_mbx.simps using t(2)[of j] i(3)[of j] by blast
  next
    case (Ini_mbx j)
    show ?thesis unfolding Ini_mbx exec_mbx.simps using t(4)[of j] i(2)[of j] by blast
  next
    case (Ref_mbx j)
    show ?thesis unfolding Ref_mbx exec_mbx.simps using t(5)[of j] i(4)[of _ j] by blast
  next
    case (Prcv_mbx j)
    show ?thesis unfolding Prcv_mbx exec_mbx.simps using t(3)[of j] i(4)[of _ j] by blast
  next
    case (Rcv_mbx j)
    show ?thesis unfolding Rcv_mbx exec_mbx.simps using t(6)[of j] i(5)[of _ j] by blast
  next
    case (Trcv_mbx j tmo)
    show ?thesis unfolding Trcv_mbx exec_mbx.simps using t(7)[of j tmo] i(5)[of _ j tmo] by blast
  qed
  then obtain A qs' where a: "touches OMbx A s (exec_mbx cfg c s)" "mbx_state cfg qs' (exec_mbx cfg c s)" by blast
  show ?thesis by (rule sys_inv_touches[OF assms(1) a(1)]) (use a(2) in \<open>auto simp: mbx_state_def\<close>)
qed

lemma sys_mtx:
  assumes "sys_inv cfg s" and "p_runtsk s = Some p" and "\<not> reqflg s" and "svc_ok (Mtx c) s"
  shows "keeps cfg s (exec_mtx cfg c s)"
proof -
  note k = sys_invD(1)[OF assms(1)] and q = sys_partD[OF assms(1)]
  have n: "dspflg s \<longrightarrow> \<not> reqflg s" using assms(3) by simp
  let ?s = "exec_mtx cfg c s"
  have st: "mtx_step s ?s"
    using mtx_step_lock_calls[OF k assms(2)] mtx_step_unl[OF k assms(2)] mtx_step_ini[OF k q(2)] mtx_step_create_delete[OF k]
    by (cases c) simp_all
  have "kinv ?s \<and> mtx_inv ?s \<and> mtx_free cfg ?s"
    using kinv_mtx_calls[OF k assms(2) n] mtx_lock_inv[OF q(2) k assms(2)] mtx_free_lock_calls[OF k q(3) assms(2)]
      kinv_unl_mtx[OF k assms(2)] unl_mtx_inv[OF q(2) k assms(2)] mtx_free_unl_mtx[OF k q(3) assms(2)]
      ini_mtx_inv[OF k q(2)] mtx_free_ini_mtx[OF k q(3,2)] acre_mtx_inv[OF k q(2,3)]
      kinv_del_mtx[OF k] del_mtx_inv[OF k q(2,3)] assms(4)
    by (cases c) simp_all
  moreover have "ceil_inv ?s"
    using ceil_inv_lock_calls[OF q(4) k assms(2)] ceil_inv_unl_mtx[OF q(4) k assms(2)] ceil_inv_ini_mtx[OF q(4) k q(2)]
      ceil_inv_create_delete[OF q(4) k q(2,3)] assms(4)
    by (cases c) simp_all
  moreover have "dormant_ok ?s" using dormant_ok_mono[OF q(1)] st by (simp add: mtx_step_def)
  ultimately show ?thesis by (intro sys_inv_mild[OF assms(1), of OMtx]) (use st in \<open>simp_all add: mtx_step_def\<close>)
qed

lemma sys_cyc:
  assumes "sys_inv cfg s"
  shows "keeps cfg s (exec_cyc cfg c s)"
proof -
  note k = sys_invD(1)[OF assms(1)] and i = sys_partD(10)[OF assms]
  have "still OCyc s (exec_cyc cfg c s)" "kinv (exec_cyc cfg c s) \<and> cyc_inv cfg (exec_cyc cfg c s)"
    using cyc_still[OF k i] start_stop_cyc_inv[OF k i] acre_cyc_inv[OF k i] del_cyc_inv[OF k i] by (cases c; simp)+
  then show ?thesis using sys_inv_still[OF assms] by auto
qed

lemma sys_alm:
  assumes "sys_inv cfg s"
  shows "keeps cfg s (exec_alm cfg c s)"
proof -
  note k = sys_invD(1)[OF assms(1)] and i = sys_partD(11)[OF assms]
  have "still OAlm s (exec_alm cfg c s)" "kinv (exec_alm cfg c s) \<and> alm_inv cfg (exec_alm cfg c s)"
    using alm_still[OF k i] start_stop_alm_inv[OF k i] ref_alm_inv[OF k i] acre_alm_inv[OF k i] del_alm_inv[OF k i]
    by (cases c; simp)+
  then show ?thesis using sys_inv_still[OF assms] by auto
qed

lemma sys_tman_inv: "sys_inv cfg s \<Longrightarrow> tman_inv cfg s"
  using sys_invD(1) sys_partD by (simp add: tman_inv_def)

lemma sys_tman_step:
  assumes "sys_inv cfg s" and "tman_step cfg s s'" and "ev_keep OMtx (tme s) (tme s')"
  shows "keeps cfg s s'"
  by (rule sys_inv_mild[OF assms(1) tman_step_mild[OF assms(2,3)]])
    (use assms(2) in \<open>simp_all add: tman_step_def tman_inv_def\<close>)

lemma flags_step_ref_tsk: "kinv s \<Longrightarrow> flags_step s (snd (ref_tsk cfg i s))"
  by (auto simp: ref_tsk_def Let_def intro!: flags_step_call flags_step_refl)

lemma sys_flags_step:
  assumes "sys_inv cfg s" and "flags_step s s'"
  shows "keeps cfg s s'"
  by (rule sys_inv_still[OF assms(1) flags_step_still[OF assms(2)]]) (use assms(2) in \<open>simp_all add: flags_step_def\<close>)

lemma sys_tman:
  assumes "sys_inv cfg s" and "p_runtsk s = Some p" and "\<not> reqflg s"
  shows "keeps cfg s (exec_tman cfg c s)"
proof (cases "\<exists>i. c = Ref_tsk i")
  case True
  then show ?thesis using sys_flags_step[OF assms(1)] flags_step_ref_tsk[OF sys_invD(1)[OF assms(1)]] by auto
next
  case False
  note i = sys_tman_inv[OF assms(1)]
  have "tman_step cfg s (exec_tman cfg c s)"
    using acre_tsk_step[OF i] del_tsk_step[OF i] act_tsk_steps[OF i] ext_tsk_step[OF i assms(2)]
      ter_tsk_step[OF i assms(3)] chg_pri_step[OF i assms(2)] False by (cases c) simp_all
  moreover have "ev_keep OMtx (tme s) (tme (exec_tman cfg c s))"
    using ter_tsk_keep[OF i] ext_tsk_keep[OF i assms(2)] tman_keep[of s] acre_tsk_keep[of s] False by (cases c) simp_all
  ultimately show ?thesis by (rule sys_tman_step[OF assms(1)])
qed

lemma sys_sync:
  assumes "sys_inv cfg s" and "p_runtsk s = Some p" and "\<not> reqflg s"
  shows "keeps cfg s (exec_sync cfg c s)"
proof -
  note k = sys_invD(1)[OF assms(1)]
  have "touches OTsk {p} s (exec_sync cfg c s)" "task_step s (exec_sync cfg c s)"
    using task_sync_touches[OF k assms(2)] task_wakeup_touches[OF k, THEN touches_any[where A = "{p}"]]
      task_suspend_touches[OF k assms(2,3), THEN touches_any[where A = "{p}"]]
      task_sync_steps[OF k assms(2)] task_wakeup_steps[OF k] task_suspend_steps[OF k assms(2,3)]
    by (cases c; simp)+
  then show ?thesis using sys_inv_touches[OF assms(1)] by (auto simp: task_step_def)
qed

lemma sys_tex_step:
  assumes "sys_inv cfg s" and "tex_step s s'"
  shows "keeps cfg s s'"
proof -
  have x: "tex_same (tcb s p) (tcb s' p)" for p using assms(2) by (simp add: tex_step_def)
  have d: "part OTsk cfg s'"
    using sys_partD(1)[OF assms(1)] x by (auto simp: dormant_ok_def tex_same_def)
  have m: "part OMtx cfg s'"
    by (rule mtx_part_calm[OF sys_invD(2)[OF assms(1)], where K = OTsk])
      (use x tex_step_mild[OF assms(2)] in \<open>simp_all add: mild_def tex_same_def\<close>)
  show ?thesis using sys_inv_mild[OF assms(1) tex_step_mild[OF assms(2)] _ d d m] assms(2) by (simp add: tex_step_def)
qed

lemma sys_sys:
  assumes "sys_inv cfg s" and "p_runtsk s = Some p"
  shows "keeps cfg s (exec_sys cfg c s)"
proof -
  note k = sys_invD(1)[OF assms(1)]
  have "flags_step s (exec_sys cfg c s) \<or> tex_step s (exec_sys cfg c s)"
    using sys_manage_steps[OF k] tex_steps[OF k] assms(2) by (cases c) simp_all
  then show ?thesis using sys_flags_step[OF assms(1)] sys_tex_step[OF assms(1)] by blast
qed

lemma sys_svc:
  assumes "sys_inv cfg s" and "p_runtsk s = Some p" and "\<not> reqflg s" and "svc_ok c s"
  shows "keeps cfg s (exec_svc cfg c s)"
  using sys_sem[OF assms(1,2)] sys_flg[OF assms(1,2)] sys_dtq[OF assms(1,2)] sys_pdq[OF assms(1,2)] sys_mbx[OF assms(1,2)]
    sys_mtx[OF assms(1-3)] sys_mpf[OF assms(1,2)] sys_cyc[OF assms(1)] sys_alm[OF assms(1)] sys_tman[OF assms(1-3)]
    sys_sync[OF assms(1-3)] sys_sys[OF assms(1,2)] assms(4)
  by (cases c) simp_all

section \<open>Handlers and the supply of a time tick\<close>

lemma tm_same_later: "tme s' = tme s \<Longrightarrow> later_only (tme s) (tme s')"
  by simp

lemma iact_tsk_tme: "tme (snd (iact_tsk cfg i s)) = tme s"
  by (auto simp: iact_tsk_def tman_call_tme lock_sel Let_def)

lemma sys_icall:
  assumes "sys_inv cfg s"
  shows "keeps cfg s (snd (exec_icall cfg c s))"
    and "in_tick (tme s) \<Longrightarrow> later_only (tme s) (tme (snd (exec_icall cfg c s)))"
proof -
  note k = sys_invD(1)[OF assms] and q = sys_partD[OF assms]
  let ?s = "snd (exec_icall cfg c s)"
  have a: "keeps cfg s ?s \<and> (in_tick (tme s) \<longrightarrow> later_only (tme s) (tme ?s))"
    if "touches K {} s ?s" "kinv ?s" "K \<noteq> OMtx" "K = OTsk \<or> part K cfg ?s" for K
    using sys_inv_touches[OF assms that] that(1) calm_later[of s ?s] by (auto simp: touches_def frame_def)
  have b: "keeps cfg s ?s \<and> (in_tick (tme s) \<longrightarrow> later_only (tme s) (tme ?s))" if "alarm_step j s ?s" "kinv ?s" "alm_inv cfg ?s" for j
    using sys_inv_still[OF assms alarm_step_still[OF that(1)]] that alarm_stepD[OF that(1)] by simp
  have d: "keeps cfg s ?s \<and> (in_tick (tme s) \<longrightarrow> later_only (tme s) (tme ?s))" if "flags_step s ?s \<or> tex_step s ?s"
    using sys_flags_step[OF assms] sys_tex_step[OF assms] that by (auto simp: flags_step_def tex_step_def)
  have "keeps cfg s ?s \<and> (in_tick (tme s) \<longrightarrow> later_only (tme s) (tme ?s))"
  proof (cases c)
    case (Iact_tsk i)
    have "keeps cfg s (snd (iact_tsk cfg i s))"
      by (rule sys_tman_step[OF assms act_tsk_steps(2)[OF sys_tman_inv[OF assms]] tman_keep(3)])
    then show ?thesis by (simp add: Iact_tsk iact_tsk_tme)
  next
    case (Iwup_tsk i)
    then show ?thesis using a[of OTsk] task_wakeup_touches(2)[OF k] task_wakeup_steps(2)[OF k] by (simp add: task_step_def)
  next
    case (Irel_wai i)
    then show ?thesis using a[of OTsk] task_wakeup_touches(5)[OF k] task_wakeup_steps(5)[OF k] by (simp add: task_step_def)
  next
    case (Isig_sem i)
    then show ?thesis using a[of OSem] sem_touches(2)[OF k] kinv_sem_calls(2)[OF k] sem_calls_inv(2)[OF q(5)] by simp
  next
    case (Iset_flg i ptn)
    then show ?thesis using a[of OFlg] flg_touches(4)[OF k] set_flg_inv(2)[OF k q(6)] by simp
  next
    case (Ipsnd_dtq i x)
    then show ?thesis using a[of ODtq] dtq_touches(4)[OF k] dtq_isend_inv(1)[OF k q(7)] by simp
  next
    case (Ifsnd_dtq i x)
    then show ?thesis using a[of ODtq] dtq_touches(6)[OF k] dtq_isend_inv(2)[OF k q(7)] by simp
  next
    case (Ipsnd_pdq i x pri)
    then show ?thesis using a[of OPdq] pdq_touches(4)[OF k] pdq_isend_inv[OF k q(8)] by simp
  next
    case (Ista_alm i tim)
    then show ?thesis using b[of "INDEX_ALM i"] alarm_icalls_step(1)[OF k q(11)] start_stop_alm_inv(2)[OF k q(11)] by simp
  next
    case (Istp_alm i)
    then show ?thesis using b[of "INDEX_ALM i"] alarm_icalls_step(2)[OF k q(11)] start_stop_alm_inv(4)[OF k q(11)] by simp
  qed (use d sys_manage_steps[OF k] tex_steps(2)[OF k] in simp_all)
  then show "keeps cfg s ?s" "in_tick (tme s) \<Longrightarrow> later_only (tme s) (tme ?s)" by simp_all
qed

lemma sys_prog:
  assumes "sys_inv cfg s"
  shows "keeps cfg s (run_prog cfg h s)" and "in_tick (tme s) \<Longrightarrow> later_only (tme s) (tme (run_prog cfg h s))"
proof -
  have "keeps cfg s (run_prog cfg h s) \<and> (in_tick (tme s) \<longrightarrow> later_only (tme s) (tme (run_prog cfg h s)))"
    using assms
  proof (induction h arbitrary: s)
    case (Icall c k)
    let ?s = "snd (exec_icall cfg c s)" and ?h = "k (fst (exec_icall cfg c s))"
    note i = sys_icall[OF Icall.prems, of c]
    have "keeps cfg ?s (run_prog cfg ?h ?s) \<and> (in_tick (tme ?s) \<longrightarrow> later_only (tme ?s) (tme (run_prog cfg ?h ?s)))"
      by (rule Icall.IH) (use i(1) in \<open>simp_all add: keeps_def\<close>)
    then show ?case
      using i in_tick_clock[of "tme s" "tme ?s"] later_only_trans[of "tme s" "tme ?s"]
      by (auto simp: keeps_def intro: same_clock_trans)
  qed (auto simp: keeps_def)
  then show "keeps cfg s (run_prog cfg h s)" "in_tick (tme s) \<Longrightarrow> later_only (tme s) (tme (run_prog cfg h s))" by simp_all
qed

text \<open>The parts that do not look at time events.\<close>

definition rest_inv :: "kernel_cfg \<Rightarrow> kernel \<Rightarrow> bool" where
  "rest_inv cfg s \<longleftrightarrow> (\<forall>K. K \<noteq> OCyc \<longrightarrow> K \<noteq> OAlm \<longrightarrow> part K cfg s)"

lemma sys_inv_split: "sys_inv cfg s \<longleftrightarrow> timer_inv cfg s \<and> rest_inv cfg s"
proof -
  have "(\<forall>K. part K cfg s) \<longleftrightarrow> cyc_inv cfg s \<and> alm_inv cfg s \<and> rest_inv cfg s"
    unfolding rest_inv_def using part.simps(9,10)[of cfg s] by metis
  then show ?thesis by (auto simp: sys_inv_def timer_inv_def)
qed

lemma rest_inv_release:
  assumes "timer_inv cfg s" and "rest_inv cfg s" and "TSTAT_WAITING (tstat (tcb s p))" and "tm_without p (tme s) tm"
  shows "rest_inv cfg (snd (release e tm p s))"
proof -
  let ?s = "snd (release e tm p s)"
  have s: "sys_inv cfg s" using assms(1,2) by (simp add: sys_inv_split)
  have ob: "others OTsk ?s = others OTsk s" by (rule others_objects) simp
  have f: "frame (kindq OTsk) {} s ?s" by (rule frame_release[OF kinvD(1)[OF sys_invD(1)[OF s]] assms(3,4)])
  have t: "touches OTsk {} s ?s" by (rule touchesI[OF ob f])
  have c: "calm {} s ?s" "wait_sub (kindq OTsk) s ?s" using f by (simp_all add: frame_def)
  have "part OTsk cfg ?s" using dormant_ok_mono[of s ?s] sys_partD(1)[OF s] c(1) by (auto simp: calm_def)
  moreover have "part OMtx cfg ?s"
    by (rule mtx_part_calm[OF sys_invD(2)[OF s] ob _ c(2)]) (use c(1) in \<open>simp_all add: calm_def\<close>)
  moreover have "part K cfg ?s" if "K \<noteq> OTsk" "K \<noteq> OMtx" for K
    using part_mild[OF touches_mild[OF t] sys_invD(2)[OF s], of K] that by blast
  ultimately have "part K cfg ?s" for K by (cases "K = OTsk \<or> K = OMtx") auto
  then show ?thesis by (simp add: rest_inv_def)
qed

lemma rest_inv_same:
  assumes "rest_inv cfg s" and "tcb s' = tcb s" and "queues s' = queues s" and "fixed s' = fixed s"
  shows "rest_inv cfg s'"
proof -
  have f: "mtxqs s' = mtxqs s" "mtxcb s' = mtxcb s" "free_mtxcb s' = free_mtxcb s" "semcb s' = semcb s" "free_semcb s' = free_semcb s"
    "flgcb s' = flgcb s" "free_flgcb s' = free_flgcb s" "dtqcb s' = dtqcb s" "free_dtqcb s' = free_dtqcb s"
    "pdqcb s' = pdqcb s" "free_pdqcb s' = free_pdqcb s" "mbxcb s' = mbxcb s" "free_mbxcb s' = free_mbxcb s"
    "pk_next s' = pk_next s" "msgpri s' = msgpri s" "mpfcb s' = mpfcb s" "free_mpfcb s' = free_mpfcb s"
    using assms(4) by (simp_all add: fixed_def)
  have m: "part OMtx cfg s'" if "part OMtx cfg s"
    using that mtx_inv_same[of s s'] mtx_free_same[of cfg s s'] ceil_inv_mono[of s s'] f assms(2,3) by (simp add: mtx_user_def)
  have "part K cfg s'" if "part K cfg s" "K \<noteq> OCyc" "K \<noteq> OAlm" for K
    using that m f assms(2,3)
    by (cases K) (simp_all add: dormant_ok_def sem_inv_def flg_inv_def pool_inv_def mbx_rep_def del: part.simps(2))
  then show ?thesis using assms(1) by (auto simp: rest_inv_def)
qed

text \<open>The contract of the time tick, met by the kernel with any table of handlers.\<close>

interpretation tick: timer_env cfg "rest_inv cfg" "run_handler cfg hs" for cfg hs
proof
  fix s p tm e
  assume "timer_inv cfg s" "rest_inv cfg s" "TSTAT_WAITING (tstat (tcb s p))" "tm_without p (tme s) tm"
  then show "rest_inv cfg (snd (release e tm p s))" by (rule rest_inv_release)
next
  fix s s' :: kernel
  assume "rest_inv cfg s" "tcb s' = tcb s" "queues s' = queues s" "fixed s' = fixed s"
  then show "rest_inv cfg s'" by (rule rest_inv_same)
next
  fix s a x
  assume "timer_inv cfg s" "rest_inv cfg s" "in_tick (tme s)"
  then show "timer_inv cfg (run_handler cfg hs a x s) \<and> rest_inv cfg (run_handler cfg hs a x s) \<and>
      later_only (tme s) (tme (run_handler cfg hs a x s))"
    using sys_prog[of cfg s "hs a x"] by (simp add: run_handler_def keeps_def sys_inv_split)
qed

section \<open>The transition system\<close>

text \<open>
  The exit of an interrupt, \<^verbatim>\<open>ret_int\<close> of the target-dependent part (assembly): a requested dispatch is
  done on the way back to the task, when dispatching is enabled.
\<close>

definition int_exit :: "kernel \<Rightarrow> kernel" where
  "int_exit s =
    (let s = s\<lparr>intctx := False\<rparr>
     in if reqflg s then (let s = s\<lparr>reqflg := False\<rparr> in if dspflg s then dispatch s else s) else s)"

text \<open>
  One step of the system: the running task calls the kernel, an interrupt comes in, a handler calls
  the kernel, the timer handler supplies a tick, the last handler returns.
\<close>

inductive sys_step :: "kernel_cfg \<Rightarrow> handlers \<Rightarrow> kernel \<Rightarrow> kernel \<Rightarrow> bool" for cfg hs where
  svc: "\<not> intctx s \<Longrightarrow> p_runtsk s = Some p \<Longrightarrow> svc_ok c s \<Longrightarrow> sys_step cfg hs s (exec_svc cfg c s)"
| enter: "\<not> cpu_lock s \<Longrightarrow> sys_step cfg hs s (s\<lparr>intctx := True\<rparr>)"
| icall: "intctx s \<Longrightarrow> sys_step cfg hs s (snd (exec_icall cfg c s))"
| tick: "intctx s \<Longrightarrow> \<not> cpu_lock s \<Longrightarrow> signal_time (run_callback (run_handler cfg hs)) s = Some s' \<Longrightarrow> sys_step cfg hs s s'"
| exit: "intctx s \<Longrightarrow> \<not> cpu_lock s \<Longrightarrow> sys_step cfg hs s (int_exit s)"

inductive_cases sys_stepE: "sys_step cfg hs s s'"

definition sys_state :: "kernel_cfg \<Rightarrow> kernel \<Rightarrow> bool" where
  "sys_state cfg s \<longleftrightarrow> sys_inv cfg s \<and> off_tick (tme s) \<and> (\<not> intctx s \<longrightarrow> \<not> reqflg s)"

lemma signal_time_sys:
  assumes "sys_inv cfg s" and "off_tick (tme s)"
  obtains s' where "signal_time (run_callback (run_handler cfg hs)) s = Some s'" and "sys_inv cfg s'" and "off_tick (tme s')"
    and "current_time (tme s') = current_time (tme s) + 1" and "\<And>b. evts (tme s') b \<noteq> Some (current_time (tme s'))"
proof -
  have "(timer_inv cfg s \<and> rest_inv cfg s) \<and> off_tick (tme s)" using assms by (simp add: sys_inv_split)
  from tick.ticks.signal_time_returns[OF this, of hs] show ?thesis
    using assms(2) by (elim exE conjE) (rule that; force simp: sys_inv_split off_tick_def)
qed

text \<open>The flags of the context are in no part of the invariant.\<close>

lemma sys_inv_flags:
  assumes "sys_inv cfg s" and "kinv s'" and "tcb s' = tcb s" and "queues s' = queues s" and "tme s' = tme s" and "others OTsk s' = others OTsk s"
  shows "sys_inv cfg s'"
  using sys_inv_still[OF assms(1) stillI[OF assms(6,3,4)] assms(2)] assms(5) by (simp add: keeps_def)

lemma sys_state_exit:
  assumes "sys_inv cfg s" and "off_tick (tme s)"
  shows "sys_state cfg (int_exit s)"
proof -
  note k = sys_invD(1)[OF assms(1)]
  have t: "tsk_inv (s\<lparr>intctx := False, reqflg := b\<rparr>)" "winv (s\<lparr>intctx := False, reqflg := b\<rparr>) = winv s" for b
    using kinvD(1)[OF k] by (simp_all add: winv_def)
  have "kinv (int_exit s)"
    using k kinv_dispatch[OF t(1)] t(2) by (auto simp: int_exit_def kinv_def winv_def Let_def)
  then have "sys_inv cfg (int_exit s)"
    by (rule sys_inv_flags[OF assms(1)]) (simp_all add: int_exit_def dispatch_def others_def Let_def)
  then show ?thesis using assms(2) by (simp add: sys_state_def int_exit_def dispatch_def Let_def)
qed

lemma keeps_state:
  assumes "sys_state cfg s" and "keeps cfg s s'" and "\<not> intctx s' \<longrightarrow> \<not> reqflg s'"
  shows "sys_state cfg s'"
  unfolding sys_state_def
  using assms off_tick_clock[OF conjunct2[OF assms(2)[unfolded keeps_def]]] by (simp add: sys_state_def keeps_def)

lemma sys_step_state:
  assumes "sys_state cfg s" and "sys_step cfg hs s s'"
  shows "sys_state cfg s'"
  using assms(2)
proof cases
  case (svc p c)
  note i = assms(1)[unfolded sys_state_def, THEN conjunct1]
  obtain qs where m: "mbx_state cfg qs s"
    using sys_invD(2)[OF i, of OMbx] sys_invD(1)[OF i] by (auto simp: mbx_state_def)
  have r: "\<not> reqflg s" using assms(1) svc(2) by (simp add: sys_state_def)
  have "keeps cfg s s'" unfolding svc(1) by (rule sys_svc[OF i svc(3) r svc(4)])
  moreover have "\<not> reqflg s'" using ctx_svc(1)[OF m svc(4)] r unfolding svc(1) by blast
  ultimately show ?thesis using keeps_state[OF assms(1)] by blast
next
  case enter
  note i = assms(1)[unfolded sys_state_def, THEN conjunct1]
  have k: "kinv (s\<lparr>intctx := True\<rparr>)" using sys_invD(1)[OF i] by (simp add: kinv_def winv_def)
  have o: "others OTsk (s\<lparr>intctx := True\<rparr>) = others OTsk s" by (simp add: others_def)
  have "sys_inv cfg (s\<lparr>intctx := True\<rparr>)" by (rule sys_inv_flags[OF i k _ _ _ o]) simp_all
  then show ?thesis using assms(1) unfolding enter(1) by (simp add: sys_state_def)
next
  case (icall c)
  have "keeps cfg s s'" using sys_icall(1)[of cfg s c] assms(1) by (simp add: icall(1) sys_state_def)
  moreover have "intctx s'" using intctx_icall[of cfg c s] icall(2) unfolding icall(1) by blast
  ultimately show ?thesis using keeps_state[OF assms(1)] by blast
next
  case tick
  obtain t where t: "signal_time (run_callback (run_handler cfg hs)) s = Some t" "sys_inv cfg t" "off_tick (tme t)"
    using signal_time_sys[of cfg s hs] assms(1) by (auto simp: sys_state_def)
  then show ?thesis using tick intctx_signal_time[OF t(1)] by (simp add: sys_state_def)
next
  case exit
  have "sys_inv cfg s" "off_tick (tme s)" using assms(1) by (simp_all add: sys_state_def)
  then show ?thesis unfolding exit(1) by (rule sys_state_exit)
qed

text \<open>A number of ticks, one after the other.\<close>

primrec ticks :: "kernel_cfg \<Rightarrow> handlers \<Rightarrow> nat \<Rightarrow> kernel \<Rightarrow> kernel option" where
  "ticks cfg hs 0 s = Some s"
| "ticks cfg hs (Suc n) s = Option.bind (ticks cfg hs n s) (signal_time (run_callback (run_handler cfg hs)))"

lemma ticks_sys:
  assumes "sys_inv cfg s" and "off_tick (tme s)"
  shows "\<exists>s'. ticks cfg hs n s = Some s' \<and> sys_inv cfg s' \<and> off_tick (tme s') \<and> current_time (tme s') = current_time (tme s) + of_nat n \<and>
    (0 < n \<longrightarrow> (\<forall>b. evts (tme s') b \<noteq> Some (current_time (tme s'))))"
proof (induction n)
  case (Suc n)
  then obtain t where t: "ticks cfg hs n s = Some t" "sys_inv cfg t" "off_tick (tme t)"
    "current_time (tme t) = current_time (tme s) + of_nat n" by blast
  obtain u where "signal_time (run_callback (run_handler cfg hs)) t = Some u" "sys_inv cfg u" "off_tick (tme u)"
    "current_time (tme u) = current_time (tme t) + 1" "\<And>b. evts (tme u) b \<noteq> Some (current_time (tme u))"
    using signal_time_sys[OF t(2,3), of hs] by blast
  then show ?case using t by (intro exI[of _ u]) (simp add: add.assoc)
qed (use assms in simp)

section \<open>Properties\<close>

lemma sys_state_run_kernel: "sys_state sample_cfg run_kernel"
proof -
  have "part K sample_cfg run_kernel" for K
    using tman_inv_run_kernel sem_inv_run_kernel flg_inv_run_kernel dtq_inv_run_kernel pdq_inv_run_kernel mbx_state_run_kernel
      mpf_inv_run_kernel cyc_inv_run_kernel alm_inv_run_kernel
    by (cases K) (auto simp: tman_inv_def mbx_state_def)
  moreover have "off_tick (tme run_kernel)" by (simp add: off_tick_def run_kernel_sel sample_tmevt_def)
  ultimately show ?thesis by (simp add: sys_state_def sys_inv_def kinv_run_kernel run_kernel_sel)
qed

lemma reachable_sys_state:
  assumes "sys_state cfg s" and "(sys_step cfg hs)\<^sup>*\<^sup>* s s'"
  shows "sys_state cfg s'"
  using assms(2,1) by (induction rule: rtranclp_induct) (auto intro: sys_step_state)





text \<open>
  C3: every time tick is served. With any table of handlers \<open>signal_time\<close> returns; the invariant
  holds, the clock advanced by one, and no time event is left whose time has come.
\<close>

theorem signal_time_terminates:
  assumes "sys_inv cfg s" and "off_tick (tme s)"
  shows "\<exists>s'. signal_time (run_callback (run_handler cfg hs)) s = Some s' \<and> sys_inv cfg s' \<and> off_tick (tme s') \<and>
    current_time (tme s') = current_time (tme s) + 1 \<and> (\<forall>b. evts (tme s') b \<noteq> Some (current_time (tme s')))"
  using signal_time_sys[OF assms, of hs] by metis

theorem signal_time_terminates_witness:
  "\<exists>s'. signal_time (run_callback (run_handler sample_cfg (\<lambda>a x. Icall (Isig_sem 1) (\<lambda>r. Icall (Ista_alm 1 5) (\<lambda>r. Done))))) run_kernel = Some s' \<and>
    sys_inv sample_cfg s'"
  using signal_time_terminates[of sample_cfg run_kernel "\<lambda>a x. Icall (Isig_sem 1) (\<lambda>r. Icall (Ista_alm 1 5) (\<lambda>r. Done))"]
    sys_state_run_kernel by (auto simp: sys_state_def)



end
