(* ===== verification/Asp_Startup.thy ===== *)
theory Asp_Startup
  imports Asp_System
begin

text \<open>
  The start of the kernel (\<^verbatim>\<open>kernel/startup.c\<close>): the initialisation of all modules, in the order of
  \<^verbatim>\<open>initialize_object\<close> that the configurator generates from \<^verbatim>\<open>kernel/kernel.tf\<close>, and the memory for dynamically
  created objects. From memory that nobody has linked anything in, the start establishes \<open>sys_state\<close>.
\<close>

section \<open>Operations\<close>

text \<open>\<open>kmm_brk\<close> is the offset into the area \<open>kmm\<close>.\<close>

definition initialize_kmm :: "kernel_cfg \<Rightarrow> kernel \<Rightarrow> kernel" where
  "initialize_kmm cfg s = s\<lparr>kmm_brk := kmmsz cfg\<rparr>"

text \<open>
  The modules whose data is in \<open>kernel\<close>. The initialisation of interrupts, service routines and CPU
  exceptions works on data of its own (theory \<open>Asp_Interrupt\<close>).
\<close>

definition initialize_object :: "kernel_cfg \<Rightarrow> kernel \<Rightarrow> kernel" where
  "initialize_object cfg s =
    (let s = initialize_task cfg s;
         s = initialize_semaphore cfg s;
         s = initialize_eventflag cfg s;
         s = initialize_dataqueue cfg s;
         s = initialize_pridataq cfg s;
         s = initialize_mailbox cfg s;
         s = initialize_mutex cfg s;
         s = initialize_mempfix cfg s;
         s = initialize_cyclic cfg s
     in initialize_alarm cfg s)"

text \<open>
  The target-dependent \<^verbatim>\<open>start_dispatch\<close> (assembly) starts the dispatcher: the task to run becomes the
  running one, in task context with the CPU unlocked.
\<close>

definition start_dispatch :: "kernel \<Rightarrow> kernel" where
  "start_dispatch s = dispatch (s\<lparr>cpu_lock := False, intctx := False\<rparr>)"

text \<open>
  The result is \<open>kerflg\<close> with the state. The initialisation of the target and the initialisation
  routines of the user are parameters.
\<close>

definition sta_ker :: "kernel_cfg \<Rightarrow> (kernel \<Rightarrow> kernel) \<Rightarrow> (kernel \<Rightarrow> kernel) \<Rightarrow> kernel \<Rightarrow> bool \<times> kernel" where
  "sta_ker cfg target_initialize call_inirtn s =
    (let s = target_initialize s;
         s = initialize_kmm cfg s;
         s = s\<lparr>tme := initialize_tmevt (tme s)\<rparr>;
         s = initialize_object cfg s;
         s = call_inirtn s;
         kerflg = True
     in (kerflg, start_dispatch s))"

text \<open>
  The end of the kernel. The interrupt lock, the termination routines of the user and the end of the target
  are parameters; \<open>target_exit\<close> does not return, so the result is the state in which the machine stops.
\<close>

definition exit_kernel :: "(kernel \<Rightarrow> kernel) \<Rightarrow> (kernel \<Rightarrow> kernel) \<Rightarrow> kernel \<Rightarrow> kernel" where
  "exit_kernel call_terrtn target_exit s = (let s = call_terrtn s in target_exit s)"

definition ext_ker :: "(kernel \<Rightarrow> kernel) \<Rightarrow> (kernel \<Rightarrow> kernel) \<Rightarrow> (kernel \<Rightarrow> kernel) \<Rightarrow> kernel \<Rightarrow> bool \<times> kernel" where
  "ext_ker SIL_LOC_INT call_terrtn target_exit s =
    (let s = SIL_LOC_INT s; kerflg = False in (kerflg, exit_kernel call_terrtn target_exit s))"

section \<open>Memory at the start\<close>

text \<open>
  What the start finds: no queue has a member, no mutex is locked and no handler runs (memory that is
  cleared before). Blocks beyond the tables, which the model has and the program does not, stand for no
  object; the control blocks of tasks are dormant.
\<close>

definition blank_tcb :: "TCB \<Rightarrow> bool" where
  "blank_tcb t \<longleftrightarrow> tstat t = TS_DORMANT \<and> tskatr (p_tinib t) \<noteq> TA_NOEXS \<and> ipriority (p_tinib t) < TNUM_TPRI \<and> tcb_dormant t"

definition boot_tasks :: "kernel \<Rightarrow> bool" where
  "boot_tasks s \<longleftrightarrow> (\<forall>h. queues s h = []) \<and> (\<forall>p. mtxqs s p = [] \<and> blank_tcb (tcb s p)) \<and>
    (\<forall>i. p_loctsk (mtxcb s i) = None) \<and> free_mtxcb s = []"

definition boot_objects :: "kernel_cfg \<Rightarrow> kernel \<Rightarrow> bool" where
  "boot_objects cfg s \<longleftrightarrow>
    (\<forall>i \<ge> tnum_sem cfg. sematr (p_seminib (semcb s i)) = TA_NOEXS) \<and>
    (\<forall>i \<ge> tnum_flg cfg. flgatr (p_flginib (flgcb s i)) = TA_NOEXS) \<and>
    (\<forall>i \<ge> tnum_dtq cfg. dtqatr (p_dtqinib (dtqcb s i)) = TA_NOEXS) \<and>
    (\<forall>i \<ge> tnum_pdq cfg. pdqatr (p_pdqinib (pdqcb s i)) = TA_NOEXS) \<and>
    (\<forall>i \<ge> tnum_mbx cfg. mbxatr (p_mbxinib (mbxcb s i)) = TA_NOEXS) \<and>
    (\<forall>i \<ge> tnum_mpf cfg. mpfatr (p_mpfinib (mpfcb s i)) = TA_NOEXS) \<and>
    (\<forall>i \<ge> tnum_cyc cfg. cycatr (p_cycinib (cyccb s i)) = TA_NOEXS) \<and>
    (\<forall>i \<ge> tnum_alm cfg. almatr (p_alminib (almcb s i)) = TA_NOEXS) \<and>
    (\<forall>i. \<not> cycsta (cyccb s i) \<and> \<not> almsta (almcb s i))"

text \<open>What the configurator checks of the static objects.\<close>

definition tasks_cfg_ok :: "kernel_cfg \<Rightarrow> bool" where
  "tasks_cfg_ok cfg \<longleftrightarrow> tnum_stsk cfg \<le> tnum_tsk cfg \<and> inj_on (\<lambda>i. INDEX_TSK (torder_table cfg i)) {..<tnum_stsk cfg} \<and>
    (\<forall>i < tnum_stsk cfg. INDEX_TSK (torder_table cfg i) < tnum_stsk cfg) \<and>
    (\<forall>p < tnum_stsk cfg. tskatr (tinib_table cfg p) \<noteq> TA_NOEXS \<and> ipriority (tinib_table cfg p) < TNUM_TPRI)"

definition objects_cfg_ok :: "kernel_cfg \<Rightarrow> bool" where
  "objects_cfg_ok cfg \<longleftrightarrow>
    (\<forall>i < tnum_ssem cfg. sematr (seminib_table cfg i) \<noteq> TA_NOEXS \<and> isemcnt (seminib_table cfg i) \<le> maxsem (seminib_table cfg i)) \<and>
    (\<forall>i < tnum_sflg cfg. flgatr (flginib_table cfg i) \<noteq> TA_NOEXS) \<and>
    (\<forall>i < tnum_sdtq cfg. dtqatr (dtqinib_table cfg i) \<noteq> TA_NOEXS) \<and>
    (\<forall>i < tnum_spdq cfg. pdqatr (pdqinib_table cfg i) \<noteq> TA_NOEXS) \<and>
    (\<forall>i < tnum_smbx cfg. mbxatr (mbxinib_table cfg i) \<noteq> TA_NOEXS) \<and>
    (\<forall>i < tnum_smpf cfg. mpfatr (mpfinib_table cfg i) \<noteq> TA_NOEXS \<and> blkcnt (mpfinib_table cfg i) < 0xFFFFFFFF) \<and>
    (\<forall>i < tnum_scyc cfg. cycatr (cycinib_table cfg i) \<noteq> TA_NOEXS \<and> 0 < cyctim (cycinib_table cfg i) \<and>
      cyctim (cycinib_table cfg i) \<le> TMAX_RELTIM \<and> cycphs (cycinib_table cfg i) \<le> TMAX_RELTIM) \<and>
    (\<forall>i < tnum_salm cfg. almatr (alminib_table cfg i) \<noteq> TA_NOEXS)"

section \<open>Initialisation of the tasks\<close>

lemma fold_upt_inv:
  assumes "Q a s" and "\<And>i t. a \<le> i \<Longrightarrow> i < b \<Longrightarrow> Q i t \<Longrightarrow> Q (Suc i) (f i t)" and "a \<le> b"
  shows "Q b (fold f [a..<b] s)"
  using assms(3,2)
proof (induction rule: dec_induct)
  case (step n)
  then show ?case using step(1) by (simp add: upt_Suc_append)
qed (use assms(1) in simp)

lemma boot_tsk_inv:
  assumes "boot_tasks s" and "p_schedtsk s = None" and "ready_primap s = 0" and "last_index (tme s) = 0"
  shows "tsk_inv s"
proof -
  have q: "queues s h = []" for h using assms(1) by (simp add: boot_tasks_def)
  have "ready_ok s"
    using assms(2,3) by (simp add: ready_ok_def queues_ok_def primap_ok_def ready_pri_ok_def q top_ready_def)
  moreover have "heap_ok (tme s)" "evts (tme s) b = None" for b
    using assms(4) by (simp_all add: heap_ok_def evts_def Let_def)
  moreover have "tcb_ok p (tcb s p)" "task_place (tcb s p) = None" "\<not> timed p (tcb s p)" for p
    using assms(1)
    by (auto simp: boot_tasks_def blank_tcb_def tcb_dormant_def tcb_ok_def task_place_def timed_def tstat_ok_def TSTAT_defs)
  ultimately show ?thesis by (simp add: tsk_inv_def tmout_ok_def q)
qed

definition boot_base :: "kernel_cfg \<Rightarrow> kernel \<Rightarrow> bool" where
  "boot_base cfg s \<longleftrightarrow> tman_base cfg s \<and> p_runtsk s = None \<and> \<not> reqflg s \<and> (\<forall>w. queues s (WaitQ w) = [] \<and> queues s (RWaitQ w) = [])"

lemma boot_base_start:
  assumes "boot_tasks s" and "p_schedtsk s = None" and "ready_primap s = 0" and "last_index (tme s) = 0" and "p_runtsk s = None"
    and "\<not> reqflg s"
  shows "boot_base cfg s"
proof -
  have q: "queues s h = []" "mtxqs s p = []" "p_loctsk (mtxcb s i) = None" "free_mtxcb s = []" "tstat (tcb s p) = TS_DORMANT"
      "tcb_dormant (tcb s p)" for h p i
    using assms(1) by (simp_all add: boot_tasks_def blank_tcb_def)
  have "winv s" using boot_tsk_inv[OF assms(1-4)] assms(5) by (simp add: winv_def)
  then show ?thesis
    using assms(5,6)
    by (simp add: boot_base_def tman_base_def mtx_inv_def mtx_gen_def mtx_free_def ceil_inv_def mtx_user_def dormant_ok_def q)
qed

text \<open>One task at a time, before any task runs.\<close>

lemma init_swap:
  assumes "tman_base cfg s" and "p_runtsk s = None" and "tstat (tcb s p) = TS_DORMANT" and "tstat t = TS_DORMANT" and "tcb_ok p t"
    and "tskatr (p_tinib t) = TA_NOEXS \<or> tcb_dormant t"
    and "remove1 p q = remove1 p (queues s FreeTcb)" and "distinct q" and "p \<in> set q \<longleftrightarrow> tskatr (p_tinib t) = TA_NOEXS"
    and "s' = s\<lparr>tcb := (tcb s)(p := t), mtxqs := (mtxqs s)(p := []), queues := (queues s)(FreeTcb := q)\<rparr>"
  shows "tman_base cfg s'"
proof -
  note b = tman_baseD[OF assms(1)]
  have "tman_inv cfg (dispatch s)"
    using b kinv_dispatch[OF winvD(1)[OF b(1)]] by (simp add: tman_inv_def)
  then have "tman_step cfg (dispatch s) (dispatch s')"
    by (rule dormant_swap[where p = p and t = t and q = q]) (use assms(3-9) in \<open>simp_all add: assms(10) dispatch_def pools_def\<close>)
  then have "tman_inv cfg (dispatch s')" by (simp add: tman_step_def)
  note i = tman_invD[OF this]
  have "tsk_inv s'" using kinvD(1)[OF i(1)] tsk_inv_same[of "dispatch s'" s'] by (simp add: dispatch_def wobjatr_def fun_eq_iff)
  then show ?thesis using i assms(2) by (simp add: tman_base_def winv_def assms(10))
qed

text \<open>The status of a static task after its initialisation.\<close>

definition boot_tstat :: "kernel_cfg \<Rightarrow> tsk \<Rightarrow> 8 word" where
  "boot_tstat cfg p = (if tskatr (tinib_table cfg p) AND TA_ACT \<noteq> 0 then TS_RUNNABLE else TS_DORMANT)"

lemma boot_static:
  assumes "boot_base cfg s" and "blank_tcb (tcb s j)" and "j \<notin> set (queues s FreeTcb)" and "tskatr (tinib_table cfg j) \<noteq> TA_NOEXS"
    and "ipriority (tinib_table cfg j) < TNUM_TPRI" and "INDEX_TSK (torder_table cfg i) = j" and "s' = initialize_task_body cfg i s"
  shows "boot_base cfg s'" and "queues s' FreeTcb = queues s FreeTcb" and "p \<noteq> j \<Longrightarrow> tcb s' p = tcb s p"
    and "others OMtx s' = others OMtx s" and "mtxcb s' = mtxcb s" and "free_mtxcb s' = free_mtxcb s" and "tme s' = tme s"
    and "tstat (tcb s' j) = boot_tstat cfg j"
proof -
  let ?t = "(tcb s j)\<lparr>p_tinib := tinib_table cfg j, actque := False, tstat := TS_DORMANT, bpriority := ipriority (tinib_table cfg j),
    priority := ipriority (tinib_table cfg j), wupque := False, enatex := False, texptn := 0\<rparr>"
  define s1 where "s1 = s\<lparr>tcb := (tcb s)(j := ?t), mtxqs := (mtxqs s)(j := []), queues := (queues s)(FreeTcb := queues s FreeTcb)\<rparr>"
  have b: "tman_base cfg s" "p_runtsk s = None" "\<not> reqflg s" "\<And>w. queues s (WaitQ w) = [] \<and> queues s (RWaitQ w) = []"
    using assms(1) by (simp_all add: boot_base_def)
  have d: "tstat (tcb s j) = TS_DORMANT" using assms(2) by (simp add: blank_tcb_def)
  have t: "tcb_dormant ?t" "tcb_ok j ?t" using assms(4,5) by (simp_all add: tcb_dormant_def tcb_ok_def tstat_ok_def TSTAT_defs)
  have s1: "tman_base cfg s1"
    by (rule init_swap[where q = "queues s FreeTcb", OF b(1,2) d _ t(2) _ refl])
      (use t assms(3,4) queues_okD(1)[OF tsk_invD(7)[OF winvD(1)[OF tman_baseD(1)[OF b(1)]]]] in \<open>simp_all add: s1_def\<close>)
  have e: "s' = (if tskatr (tinib_table cfg j) AND TA_ACT \<noteq> 0 then snd (make_active j s1) else s1)"
    by (simp add: assms(7) initialize_task_body_def Let_def assms(6) s1_def make_dormant_def q_initialize_def)
  note a = tman_baseD[OF s1]
  have n: "p_runtsk s1 = None" "\<not> reqflg s1" "queues s1 = queues s" "tcb s1 = (tcb s)(j := ?t)" by (simp_all add: s1_def b(2,3))
  have o: "tman_op cfg s1 (make_active j s1)"
    by (rule make_active_tman[OF a(1-4)]) (use a(5)[unfolded dormant_ok_def] assms(4) n(4) in \<open>blast | simp\<close>)+
  then have m: "tman_base cfg (snd (make_active j s1))"
    by (simp add: tman_op_def tman_base_def op_ok_def)
  show "boot_base cfg s'"
    using b(3,4) s1 m n by (simp add: boot_base_def e make_active_sel q_insert_prev_def)
  show "queues s' FreeTcb = queues s FreeTcb" "p \<noteq> j \<Longrightarrow> tcb s' p = tcb s p" "tme s' = tme s" "tstat (tcb s' j) = boot_tstat cfg j"
    using n by (simp_all add: e make_active_sel q_insert_prev_def boot_tstat_def) (simp_all add: s1_def)
  have ob: "others OMtx s1 = others OMtx s" "mtxcb s1 = mtxcb s" "free_mtxcb s1 = free_mtxcb s" by (simp_all add: s1_def others_def)
  show "others OMtx s' = others OMtx s" "mtxcb s' = mtxcb s" "free_mtxcb s' = free_mtxcb s"
    using ob others_objects[OF make_active_sel(3), of OMtx j s1] by (simp_all add: e)
qed

lemma boot_free:
  assumes "boot_base cfg s" and "blank_tcb (tcb s j)" and "j \<notin> set (queues s FreeTcb)" and "s' = initialize_task_free j s"
  shows "boot_base cfg s'" and "queues s' FreeTcb = queues s FreeTcb @ [j]" and "p \<noteq> j \<Longrightarrow> tcb s' p = tcb s p"
    and "others OMtx s' = others OMtx s" and "mtxcb s' = mtxcb s" and "free_mtxcb s' = free_mtxcb s" and "tme s' = tme s"
proof -
  let ?t = "(tcb s j)\<lparr>p_tinib := (p_tinib (tcb s j))\<lparr>tskatr := TA_NOEXS\<rparr>\<rparr>" and ?q = "queues s FreeTcb @ [j]"
  have b: "tman_base cfg s" "p_runtsk s = None" "\<not> reqflg s" "\<And>w. queues s (WaitQ w) = [] \<and> queues s (RWaitQ w) = []"
    using assms(1) by (simp_all add: boot_base_def)
  have d: "tstat (tcb s j) = TS_DORMANT" using assms(2) by (simp add: blank_tcb_def)
  note g = mtx_genD[OF tman_baseD(2)[OF b(1), unfolded mtx_inv_def]]
  have nil: "mtxqs s j = []" using g(2)[of _ j] g(3)[of _ j] d by (cases "mtxqs s j") auto
  have e: "s' = s\<lparr>tcb := (tcb s)(j := ?t), mtxqs := (mtxqs s)(j := []), queues := (queues s)(FreeTcb := ?q)\<rparr>"
    using nil by (simp add: assms(4) initialize_task_free_def q_insert_prev_def fun_upd_idem)
  have "tman_base cfg s'"
    by (rule init_swap[OF b(1,2) d _ _ _ _ _ _ e])
      (use d assms(3) queues_okD(1)[OF tsk_invD(7)[OF winvD(1)[OF tman_baseD(1)[OF b(1)]]]]
        in \<open>simp_all add: tcb_ok_def tstat_ok_def TSTAT_defs remove1_append remove1_idem\<close>)
  then show "boot_base cfg s'" using b by (simp add: boot_base_def e)
  show "queues s' FreeTcb = queues s FreeTcb @ [j]" "p \<noteq> j \<Longrightarrow> tcb s' p = tcb s p" "others OMtx s' = others OMtx s"
    "mtxcb s' = mtxcb s" "free_mtxcb s' = free_mtxcb s" "tme s' = tme s"
    by (simp_all add: e others_def)
qed

text \<open>The two loops.\<close>

definition boot_frame :: "kernel_cfg \<Rightarrow> kernel \<Rightarrow> kernel \<Rightarrow> bool" where
  "boot_frame cfg s t \<longleftrightarrow> boot_base cfg t \<and> others OMtx t = others OMtx s \<and> mtxcb t = mtxcb s \<and> free_mtxcb t = [] \<and> tme t = tme s"

lemma static_loop:
  assumes "boot_frame cfg s u" and "queues u FreeTcb = []" and "\<And>p. blank_tcb (tcb u p)" and "tasks_cfg_ok cfg"
    and "v = fold (initialize_task_body cfg) [0..<tnum_stsk cfg] u"
  shows "boot_frame cfg s v" and "queues v FreeTcb = []" and "tnum_stsk cfg \<le> p \<Longrightarrow> tcb v p = tcb u p"
    and "p < tnum_stsk cfg \<Longrightarrow> tstat (tcb v p) = boot_tstat cfg p"
proof -
  let ?j = "\<lambda>i. INDEX_TSK (torder_table cfg i)" and ?n = "tnum_stsk cfg"
  have inj: "inj_on ?j {..<?n}" and jn: "?j ` {..<?n} \<subseteq> {..<?n}" using assms(4) by (auto simp: tasks_cfg_ok_def)
  define A where "A i t \<longleftrightarrow> boot_frame cfg s t \<and> queues t FreeTcb = [] \<and> (\<forall>p. p \<notin> ?j ` {..<i} \<longrightarrow> tcb t p = tcb u p) \<and>
    (\<forall>p \<in> ?j ` {..<i}. tstat (tcb t p) = boot_tstat cfg p)" for i t
  have a: "A ?n v"
    unfolding assms(5)
  proof (rule fold_upt_inv)
    fix i t
    assume i: "i < ?n" and t: "A i t"
    have new: "?j i \<notin> ?j ` {..<i}" using inj inj_on_image_mem_iff[of ?j "{..<?n}" i "{..<i}"] i by auto
    then have bl: "blank_tcb (tcb t (?j i))" using t assms(3)[of "?j i"] by (simp add: A_def)
    have c: "tskatr (tinib_table cfg (?j i)) \<noteq> TA_NOEXS" "ipriority (tinib_table cfg (?j i)) < TNUM_TPRI"
      using assms(4) i by (simp_all add: tasks_cfg_ok_def)
    have "boot_base cfg t" "?j i \<notin> set (queues t FreeTcb)" using t by (simp_all add: boot_frame_def A_def)
    note st = boot_static[OF this(1) bl this(2) c refl refl]
    have "tcb (initialize_task_body cfg i t) p = tcb t p" if "p \<in> ?j ` {..<i}" for p using st(3)[of p] new that by metis
    then show "A (Suc i) (initialize_task_body cfg i t)"
      using t st unfolding A_def lessThan_Suc image_insert by (auto simp: boot_frame_def)
  qed (use assms(1-3) in \<open>simp_all add: A_def\<close>)
  then show "boot_frame cfg s v" "queues v FreeTcb = []" by (simp_all add: A_def)
  have all: "?j ` {..<?n} = {..<?n}" by (rule endo_inj_surj[OF _ jn inj]) simp
  then show "?n \<le> p \<Longrightarrow> tcb v p = tcb u p" "p < ?n \<Longrightarrow> tstat (tcb v p) = boot_tstat cfg p"
    using a unfolding A_def by (metis lessThan_iff not_less)+
qed

lemma free_loop:
  assumes "boot_frame cfg s v" and "queues v FreeTcb = []" and "\<And>p. n \<le> p \<Longrightarrow> blank_tcb (tcb v p)" and "n \<le> m"
    and "w = fold initialize_task_free [n..<m] v"
  shows "boot_frame cfg s w" and "p < n \<Longrightarrow> tcb w p = tcb v p"
proof -
  define B where "B i t \<longleftrightarrow> boot_frame cfg s t \<and> set (queues t FreeTcb) \<subseteq> {n..<i} \<and> (\<forall>p. p < n \<or> i \<le> p \<longrightarrow> tcb t p = tcb v p)" for i t
  have "B m w"
    unfolding assms(5)
  proof (rule fold_upt_inv)
    fix i t
    assume n: "n \<le> i" and t: "B i t"
    have "boot_base cfg t" "blank_tcb (tcb t i)" "i \<notin> set (queues t FreeTcb)" using t n assms(3)[of i] by (auto simp: boot_frame_def B_def)
    note st = boot_free[OF this refl]
    show "B (Suc i) (initialize_task_free i t)" using t st n by (auto simp: boot_frame_def B_def)
  qed (use assms(1,2,4) in \<open>simp_all add: B_def\<close>)
  then show "boot_frame cfg s w" "p < n \<Longrightarrow> tcb w p = tcb v p" by (simp_all add: B_def)
qed

lemma initialize_task_base:
  assumes "boot_tasks s" and "last_index (tme s) = 0" and "tasks_cfg_ok cfg"
  shows "boot_frame cfg s (initialize_task cfg s)"
    and "p < tnum_stsk cfg \<Longrightarrow> tstat (tcb (initialize_task cfg s) p) = boot_tstat cfg p"
proof -
  let ?n = "tnum_stsk cfg"
  define u where "u = s\<lparr>p_runtsk := None, p_schedtsk := None, reqflg := False, ipmflg := True, disdsp := False, dspflg := True,
    queues := fold (\<lambda>i. q_initialize (ReadyQ i)) [0..<TNUM_TPRI] (queues s), ready_primap := 0\<rparr>"
  have "fold (\<lambda>i. q_initialize (ReadyQ i)) xs f h = []" if "\<And>h. f h = []" for xs and h :: qhead and f :: "(qhead, tsk) qstore"
    using that by (induction xs arbitrary: f) (simp_all add: q_initialize_def)
  moreover have "queues s h = []" for h using assms(1) by (simp add: boot_tasks_def)
  ultimately have q: "queues u h = []" for h by (simp add: u_def)
  have bt: "boot_tasks u" using assms(1) q by (simp add: boot_tasks_def u_def)
  have "boot_base cfg u" by (rule boot_base_start[OF bt]) (simp_all add: u_def assms(2))
  then have u: "boot_frame cfg s u" using assms(1) by (simp add: boot_frame_def u_def others_def boot_tasks_def)
  have blank: "blank_tcb (tcb u p)" for p using bt by (simp add: boot_tasks_def)
  define v where "v = fold (initialize_task_body cfg) [0..<?n] u"
  note v = static_loop[OF u q blank assms(3) v_def]
  have vq: "v\<lparr>queues := q_initialize FreeTcb (queues v)\<rparr> = v" using v(2) by (simp add: q_initialize_def fun_upd_idem)
  have e: "initialize_task cfg s = fold initialize_task_free [?n..<tnum_tsk cfg] v"
    using vq by (simp add: initialize_task_def Let_def u_def v_def)
  have bl: "blank_tcb (tcb v p)" if "?n \<le> p" for p using v(3)[OF that] blank by simp
  have n: "?n \<le> tnum_tsk cfg" using assms(3) by (simp add: tasks_cfg_ok_def)
  note w = free_loop[OF v(1,2) bl n e]
  show "boot_frame cfg s (initialize_task cfg s)" by (rule w(1))
  show "p < ?n \<Longrightarrow> tstat (tcb (initialize_task cfg s) p) = boot_tstat cfg p" using w(2)[of p] v(4)[of p] by simp
qed

section \<open>Initialisation of the objects\<close>

text \<open>The common shape: the static objects get their tables, the other blocks go into the free list.\<close>

lemma free_blocks:
  assumes "P v" and "fr v = []" and "\<And>i t. P t \<Longrightarrow> P (h i t) \<and> get (h i t) = (get t)(i := k (get t i)) \<and> fr (h i t) = fr t @ [i]"
  shows "P (fold h [a..<b] v) \<and> get (fold h [a..<b] v) = (\<lambda>i. if a \<le> i \<and> i < b then k (get v i) else get v i) \<and> fr (fold h [a..<b] v) = [a..<b]"
proof (cases "a \<le> b")
  case True
  then show ?thesis
    by (intro fold_upt_inv[where Q = "\<lambda>n t. P t \<and> get t = (\<lambda>i. if a \<le> i \<and> i < n then k (get v i) else get v i) \<and> fr t = [a..<n]"])
      (use assms in \<open>auto simp: less_Suc_eq fun_eq_iff\<close>)
qed (use assms(1,2) in \<open>auto simp: fun_eq_iff\<close>)

lemma init_pool:
  assumes "P s" and "init = fold h [a..<b] (c (fold f [0..<a] s))"
    and "\<And>i t. P t \<Longrightarrow> P (f i t) \<and> get (f i t) = (get t)(i := g i (get t i))"
    and "\<And>t. P t \<Longrightarrow> P (c t) \<and> get (c t) = get t \<and> fr (c t) = []"
    and "\<And>i t. P t \<Longrightarrow> P (h i t) \<and> get (h i t) = (get t)(i := k (get t i)) \<and> fr (h i t) = fr t @ [i]"
  shows "P init \<and> get init = (\<lambda>i. if i < a then g i (get s i) else if i < b then k (get s i) else get s i) \<and> fr init = [a..<b]"
proof -
  define u where "u = fold f [0..<a] s"
  have u: "P u \<and> get u = (\<lambda>i. if i < a then g i (get s i) else get s i)"
    unfolding u_def
    by (rule fold_upt_inv[where Q = "\<lambda>n t. P t \<and> get t = (\<lambda>i. if i < n then g i (get s i) else get s i)"])
      (use assms(1,3) in \<open>auto simp: less_Suc_eq\<close>)
  have v: "P (c u)" "get (c u) = get u" "fr (c u) = []" using assms(4)[of u] u by simp_all
  have e: "init = fold h [a..<b] (c u)" by (simp add: assms(2) u_def)
  show ?thesis
    using free_blocks[where h = h and P = P and get = get and fr = fr and k = k, OF v(1,3) assms(5), of a b] u
    by (auto simp: e v(2) fun_eq_iff)
qed

text \<open>What the initialisation of a kind of objects leaves alone.\<close>

definition inits :: "okind \<Rightarrow> kernel \<Rightarrow> kernel \<Rightarrow> bool" where
  "inits K s t \<longleftrightarrow> same_tasks s t \<and> others K t = others K s"

definition no_waiters :: "kernel \<Rightarrow> bool" where
  "no_waiters s \<longleftrightarrow> (\<forall>w. queues s (WaitQ w) = [] \<and> queues s (RWaitQ w) = [])"

lemma inits_queue:
  assumes "no_waiters s" and "inits K s t"
  shows "q_initialize (WaitQ w) (queues t) = queues t" and "q_initialize (RWaitQ w) (queues t) = queues t"
  using assms by (simp_all add: no_waiters_def inits_def same_tasks_def q_initialize_def fun_upd_idem)

lemma inits_refl [simp]: "inits K s s"
  by (simp add: inits_def same_tasks_def)

lemma init_sem:
  assumes "no_waiters s" and "t = initialize_semaphore cfg s"
  shows "inits OSem s t \<and>
    semcb t = (\<lambda>i. if i < tnum_ssem cfg then (semcb s i)\<lparr>p_seminib := seminib_table cfg i, semcnt := isemcnt (seminib_table cfg i)\<rparr>
      else if i < tnum_sem cfg then (semcb s i)\<lparr>p_seminib := (p_seminib (semcb s i))\<lparr>sematr := TA_NOEXS\<rparr>\<rparr> else semcb s i) \<and>
    free_semcb t = [tnum_ssem cfg..<tnum_sem cfg]"
  by (rule init_pool[where P = "inits OSem s" and get = semcb and fr = free_semcb and c = "\<lambda>s. s\<lparr>free_semcb := []\<rparr>"
      and g = "\<lambda>i c. c\<lparr>p_seminib := seminib_table cfg i, semcnt := isemcnt (seminib_table cfg i)\<rparr>" and k = "\<lambda>c. c\<lparr>p_seminib := (p_seminib c)\<lparr>sematr := TA_NOEXS\<rparr>\<rparr>",
      OF inits_refl assms(2)[unfolded initialize_semaphore_def Let_def]])
    (simp_all add: inits_queue[OF assms(1)], simp_all add: inits_def same_tasks_def others_def)

lemma init_flg:
  assumes "no_waiters s" and "t = initialize_eventflag cfg s"
  shows "inits OFlg s t \<and>
    flgcb t = (\<lambda>i. if i < tnum_sflg cfg then (flgcb s i)\<lparr>p_flginib := flginib_table cfg i, flgptn := iflgptn (flginib_table cfg i)\<rparr>
      else if i < tnum_flg cfg then (flgcb s i)\<lparr>p_flginib := (p_flginib (flgcb s i))\<lparr>flgatr := TA_NOEXS\<rparr>\<rparr> else flgcb s i) \<and>
    free_flgcb t = [tnum_sflg cfg..<tnum_flg cfg]"
  by (rule init_pool[where P = "inits OFlg s" and get = flgcb and fr = free_flgcb and c = "\<lambda>s. s\<lparr>free_flgcb := []\<rparr>"
      and g = "\<lambda>i c. c\<lparr>p_flginib := flginib_table cfg i, flgptn := iflgptn (flginib_table cfg i)\<rparr>" and k = "\<lambda>c. c\<lparr>p_flginib := (p_flginib c)\<lparr>flgatr := TA_NOEXS\<rparr>\<rparr>",
      OF inits_refl assms(2)[unfolded initialize_eventflag_def Let_def]])
    (simp_all add: inits_queue[OF assms(1)], simp_all add: inits_def same_tasks_def others_def)

lemma init_dtq:
  assumes "no_waiters s" and "t = initialize_dataqueue cfg s"
  shows "inits ODtq s t \<and>
    dtqcb t = (\<lambda>i. if i < tnum_sdtq cfg then (dtqcb s i)\<lparr>p_dtqinib := dtqinib_table cfg i, dtq_count := 0, dtq_head := 0, dtq_tail := 0\<rparr>
      else if i < tnum_dtq cfg then (dtqcb s i)\<lparr>p_dtqinib := (p_dtqinib (dtqcb s i))\<lparr>dtqatr := TA_NOEXS\<rparr>\<rparr> else dtqcb s i) \<and>
    free_dtqcb t = [tnum_sdtq cfg..<tnum_dtq cfg]"
  by (rule init_pool[where P = "inits ODtq s" and get = dtqcb and fr = free_dtqcb and c = "\<lambda>s. s\<lparr>free_dtqcb := []\<rparr>"
      and g = "\<lambda>i c. c\<lparr>p_dtqinib := dtqinib_table cfg i, dtq_count := 0, dtq_head := 0, dtq_tail := 0\<rparr>" and k = "\<lambda>c. c\<lparr>p_dtqinib := (p_dtqinib c)\<lparr>dtqatr := TA_NOEXS\<rparr>\<rparr>",
      OF inits_refl assms(2)[unfolded initialize_dataqueue_def Let_def]])
    (simp_all add: inits_queue[OF assms(1)], simp_all add: inits_def same_tasks_def others_def)

lemma init_pdq:
  assumes "no_waiters s" and "t = initialize_pridataq cfg s"
  shows "inits OPdq s t \<and>
    pdqcb t = (\<lambda>i. if i < tnum_spdq cfg then (pdqcb s i)\<lparr>p_pdqinib := pdqinib_table cfg i, pdq_count := 0, pdq_head := None, pdq_unused := 0, pdq_freelist := None\<rparr>
      else if i < tnum_pdq cfg then (pdqcb s i)\<lparr>p_pdqinib := (p_pdqinib (pdqcb s i))\<lparr>pdqatr := TA_NOEXS\<rparr>\<rparr> else pdqcb s i) \<and>
    free_pdqcb t = [tnum_spdq cfg..<tnum_pdq cfg]"
  by (rule init_pool[where P = "inits OPdq s" and get = pdqcb and fr = free_pdqcb and c = "\<lambda>s. s\<lparr>free_pdqcb := []\<rparr>"
      and g = "\<lambda>i c. c\<lparr>p_pdqinib := pdqinib_table cfg i, pdq_count := 0, pdq_head := None, pdq_unused := 0, pdq_freelist := None\<rparr>" and k = "\<lambda>c. c\<lparr>p_pdqinib := (p_pdqinib c)\<lparr>pdqatr := TA_NOEXS\<rparr>\<rparr>",
      OF inits_refl assms(2)[unfolded initialize_pridataq_def Let_def]])
    (simp_all add: inits_queue[OF assms(1)], simp_all add: inits_def same_tasks_def others_def)

lemma init_mbx:
  assumes "no_waiters s" and "t = initialize_mailbox cfg s"
  shows "inits OMbx s t \<and>
    mbxcb t = (\<lambda>i. if i < tnum_smbx cfg then (mbxcb s i)\<lparr>p_mbxinib := mbxinib_table cfg i, pk_head := None\<rparr>
      else if i < tnum_mbx cfg then (mbxcb s i)\<lparr>p_mbxinib := (p_mbxinib (mbxcb s i))\<lparr>mbxatr := TA_NOEXS\<rparr>\<rparr> else mbxcb s i) \<and>
    free_mbxcb t = [tnum_smbx cfg..<tnum_mbx cfg]"
  by (rule init_pool[where P = "inits OMbx s" and get = mbxcb and fr = free_mbxcb and c = "\<lambda>s. s\<lparr>free_mbxcb := []\<rparr>"
      and g = "\<lambda>i c. c\<lparr>p_mbxinib := mbxinib_table cfg i, pk_head := None\<rparr>" and k = "\<lambda>c. c\<lparr>p_mbxinib := (p_mbxinib c)\<lparr>mbxatr := TA_NOEXS\<rparr>\<rparr>",
      OF inits_refl assms(2)[unfolded initialize_mailbox_def Let_def]])
    (simp_all add: inits_queue[OF assms(1)], simp_all add: inits_def same_tasks_def others_def)

lemma init_mpf:
  assumes "no_waiters s" and "t = initialize_mempfix cfg s"
  shows "inits OMpf s t \<and>
    mpfcb t = (\<lambda>i. if i < tnum_smpf cfg then (mpfcb s i)\<lparr>p_mpfinib := mpfinib_table cfg i, fblkcnt := blkcnt (mpfinib_table cfg i), mpf_unused := 0, mpf_freelist := None\<rparr>
      else if i < tnum_mpf cfg then (mpfcb s i)\<lparr>p_mpfinib := (p_mpfinib (mpfcb s i))\<lparr>mpfatr := TA_NOEXS\<rparr>\<rparr> else mpfcb s i) \<and>
    free_mpfcb t = [tnum_smpf cfg..<tnum_mpf cfg]"
  by (rule init_pool[where P = "inits OMpf s" and get = mpfcb and fr = free_mpfcb and c = "\<lambda>s. s\<lparr>free_mpfcb := []\<rparr>"
      and g = "\<lambda>i c. c\<lparr>p_mpfinib := mpfinib_table cfg i, fblkcnt := blkcnt (mpfinib_table cfg i), mpf_unused := 0, mpf_freelist := None\<rparr>" and k = "\<lambda>c. c\<lparr>p_mpfinib := (p_mpfinib c)\<lparr>mpfatr := TA_NOEXS\<rparr>\<rparr>",
      OF inits_refl assms(2)[unfolded initialize_mempfix_def Let_def]])
    (simp_all add: inits_queue[OF assms(1)], simp_all add: inits_def same_tasks_def others_def)

lemma init_mtx:
  assumes "no_waiters s" and "t = initialize_mutex cfg s"
  shows "inits OMtx s t \<and>
    mtxcb t = (\<lambda>i. if i < tnum_smtx cfg then (mtxcb s i)\<lparr>p_mtxinib := mtxinib_table cfg i, p_loctsk := None\<rparr>
      else if i < tnum_mtx cfg then (mtxcb s i)\<lparr>p_mtxinib := (p_mtxinib (mtxcb s i))\<lparr>mtxatr := TA_NOEXS\<rparr>\<rparr> else mtxcb s i) \<and>
    free_mtxcb t = [tnum_smtx cfg..<tnum_mtx cfg]"
  by (rule init_pool[where P = "inits OMtx s" and get = mtxcb and fr = free_mtxcb and c = "\<lambda>s. s\<lparr>free_mtxcb := []\<rparr>"
      and g = "\<lambda>i c. c\<lparr>p_mtxinib := mtxinib_table cfg i, p_loctsk := None\<rparr>" and k = "\<lambda>c. c\<lparr>p_mtxinib := (p_mtxinib c)\<lparr>mtxatr := TA_NOEXS\<rparr>\<rparr>",
      OF inits_refl assms(2)[unfolded initialize_mutex_def Let_def]])
    (simp_all add: inits_queue[OF assms(1)], simp_all add: inits_def same_tasks_def others_def)

lemma init_alm:
  assumes "no_waiters s" and "t = initialize_alarm cfg s"
  shows "inits OAlm s t \<and>
    almcb t = (\<lambda>i. if i < tnum_salm cfg then (almcb s i)\<lparr>p_alminib := alminib_table cfg i, almsta := False\<rparr>
      else if i < tnum_alm cfg then (almcb s i)\<lparr>p_alminib := (p_alminib (almcb s i))\<lparr>almatr := TA_NOEXS\<rparr>\<rparr> else almcb s i) \<and>
    free_almcb t = [tnum_salm cfg..<tnum_alm cfg]"
  by (rule init_pool[where P = "inits OAlm s" and get = almcb and fr = free_almcb and c = "\<lambda>s. s\<lparr>free_almcb := []\<rparr>"
      and g = "\<lambda>i c. c\<lparr>p_alminib := alminib_table cfg i, almsta := False\<rparr>" and k = "\<lambda>c. c\<lparr>p_alminib := (p_alminib c)\<lparr>almatr := TA_NOEXS\<rparr>\<rparr>",
      OF inits_refl assms(2)[unfolded initialize_alarm_def Let_def]])
    (simp_all add: inits_queue[OF assms(1)], simp_all add: inits_def same_tasks_def others_def)

section \<open>The cyclic handlers\<close>

text \<open>Static handlers with \<open>TA_STA\<close> start with their phase as the time of the first call.\<close>

definition cyc_frame :: "kernel \<Rightarrow> kernel \<Rightarrow> bool" where
  "cyc_frame s t \<longleftrightarrow> same_tasks s (t\<lparr>tme := tme s\<rparr>) \<and> others OCyc t = others OCyc s \<and> heap_ok (tme t) \<and> same_clock (tme s) (tme t) \<and>
    (\<forall>b. (\<forall>i. b \<noteq> CycTmevtb i) \<longrightarrow>
      evts (tme t) b = evts (tme s) b \<and> callback (tmevtb (tme t) b) = callback (tmevtb (tme s) b))"

lemma cyc_frame_upd [simp]: "cyc_frame s (t\<lparr>cyccb := c\<rparr>) = cyc_frame s t" "cyc_frame s (t\<lparr>free_cyccb := l\<rparr>) = cyc_frame s t"
  by (simp_all add: cyc_frame_def same_tasks_def others_def)

definition cyc_block :: "kernel \<Rightarrow> nat \<Rightarrow> bool" where
  "cyc_block t i \<longleftrightarrow> (cycsta (cyccb t i) \<longleftrightarrow> evts (tme t) (CycTmevtb i) \<noteq> None) \<and>
    (cycsta (cyccb t i) \<longrightarrow> callback (tmevtb (tme t) (CycTmevtb i)) = Call_cychdr i) \<and>
    cycatr (p_cycinib (cyccb t i)) \<noteq> TA_NOEXS \<and> cyc_ok (cyccb t i) (evts (tme t) (CycTmevtb i))"

definition cyc_booted :: "nat \<Rightarrow> kernel \<Rightarrow> kernel \<Rightarrow> bool" where
  "cyc_booted n s t \<longleftrightarrow> cyc_frame s t \<and> (\<forall>i < n. cyc_block t i) \<and>
    (\<forall>i \<ge> n. cyccb t i = cyccb s i \<and> evts (tme t) (CycTmevtb i) = None)"

lemma cyc_boot_step:
  assumes "cyc_booted n s t" and "cycatr ini \<noteq> TA_NOEXS" and "0 < cyctim ini" and "cyctim ini \<le> TMAX_RELTIM"
    and "cycphs ini \<le> TMAX_RELTIM"
    and "t' = (if cycatr ini AND TA_STA \<noteq> 0
      then tmevtb_enqueue_cyc n (cycphs ini) (upd_cyc n (\<lambda>c. c\<lparr>p_cycinib := ini, cycsta := True\<rparr>) t)
      else upd_cyc n (\<lambda>c. c\<lparr>p_cycinib := ini, cycsta := False\<rparr>) t)"
  shows "cyc_booted (Suc n) s t'"
proof -
  have f: "cyc_frame s t" and n: "heap_ok (tme t)" "evts (tme t) (CycTmevtb n) = None"
    using assms(1) by (simp_all add: cyc_booted_def cyc_frame_def)
  note e = ev_start_ok[OF n, of "cycphs ini" "Call_cychdr n"]
  have "cyc_frame s t'"
    using f e n by (auto simp: assms(6) cyc_frame_def enqueue_cyc_eq same_tasks_def others_def same_clock_def)
  moreover have "cyc_block t' i" if "i < Suc n" for i
  proof (cases "i = n")
    case True
    show ?thesis using assms(2-5) e n by (simp add: assms(6) True cyc_block_def enqueue_cyc_eq cyc_ok_def)
  next
    case False
    then have "cyc_block t i" using assms(1) that by (simp add: cyc_booted_def)
    then show ?thesis using False e by (simp add: assms(6) cyc_block_def enqueue_cyc_eq)
  qed
  moreover have "cyccb t' i = cyccb s i \<and> evts (tme t') (CycTmevtb i) = None" if "Suc n \<le> i" for i
    using assms(1) e that by (simp add: assms(6) cyc_booted_def enqueue_cyc_eq)
  ultimately show ?thesis by (simp add: cyc_booted_def)
qed

lemma init_cyc:
  assumes "heap_ok (tme s)" and "\<And>i. evts (tme s) (CycTmevtb i) = None" and "\<And>i. \<not> cycsta (cyccb s i)"
    and "\<And>i. tnum_cyc cfg \<le> i \<Longrightarrow> cycatr (p_cycinib (cyccb s i)) = TA_NOEXS" and "objects_cfg_ok cfg"
    and "t = initialize_cyclic cfg s"
  shows "cyc_frame s t" and "cyc_inv cfg t"
proof -
  let ?n = "tnum_scyc cfg" and ?m = "tnum_cyc cfg"
  define f where "f i s = (let s = upd_cyc i (\<lambda>c. c\<lparr>p_cycinib := cycinib_table cfg i\<rparr>) s
     in if cycatr (p_cycinib (cyccb s i)) AND TA_STA \<noteq> 0
        then (let s = upd_cyc i (\<lambda>c. c\<lparr>cycsta := True\<rparr>) s in tmevtb_enqueue_cyc i (cycphs (p_cycinib (cyccb s i))) s)
        else upd_cyc i (\<lambda>c. c\<lparr>cycsta := False\<rparr>) s)" for i s
  define u where "u = fold f [0..<?n] s"
  have "same_tasks s (s\<lparr>tme := tme s\<rparr>)" "same_clock (tme s) (tme s)" by (simp_all add: same_tasks_def same_clock_def)
  then have "cyc_booted 0 s s" using assms(1,2) by (simp add: cyc_booted_def cyc_frame_def)
  then have u: "cyc_booted ?n s u"
    unfolding u_def
  proof (rule fold_upt_inv)
    fix i t
    assume "i < ?n" "cyc_booted i s t"
    then show "cyc_booted (Suc i) s (f i t)"
      using assms(5) by (intro cyc_boot_step[of i s t "cycinib_table cfg i"]) (simp_all add: objects_cfg_ok_def f_def Let_def)
  qed simp
  define h where "h i s = (let s = upd_cyc i (\<lambda>c. c\<lparr>p_cycinib := (p_cycinib c)\<lparr>cycatr := TA_NOEXS\<rparr>\<rparr>) s
    in s\<lparr>free_cyccb := free_cyccb s @ [i]\<rparr>)" for i and s :: kernel
  have e: "t = fold h [?n..<?m] (u\<lparr>free_cyccb := []\<rparr>)"
    by (simp add: assms(6) initialize_cyclic_def u_def h_def[abs_def] f_def[abs_def] Let_def)
  have v: "cyc_frame s (u\<lparr>free_cyccb := []\<rparr>) \<and> tme (u\<lparr>free_cyccb := []\<rparr>) = tme u"
    using u by (simp add: cyc_booted_def)
  have hs: "(cyc_frame s (h i t) \<and> tme (h i t) = tme u) \<and>
      cyccb (h i t) = (cyccb t)(i := (cyccb t i)\<lparr>p_cycinib := (p_cycinib (cyccb t i))\<lparr>cycatr := TA_NOEXS\<rparr>\<rparr>) \<and> free_cyccb (h i t) = free_cyccb t @ [i]"
    if "cyc_frame s t \<and> tme t = tme u" for i t
    using that by (simp add: h_def)
  have "(cyc_frame s t \<and> tme t = tme u) \<and> cyccb t = (\<lambda>i. if ?n \<le> i \<and> i < ?m
      then (cyccb u i)\<lparr>p_cycinib := (p_cycinib (cyccb u i))\<lparr>cycatr := TA_NOEXS\<rparr>\<rparr> else cyccb u i) \<and> free_cyccb t = [?n..<?m]"
    using free_blocks[where P = "\<lambda>t. cyc_frame s t \<and> tme t = tme u" and get = cyccb and fr = free_cyccb and h = h
        and k = "\<lambda>c. c\<lparr>p_cycinib := (p_cycinib c)\<lparr>cycatr := TA_NOEXS\<rparr>\<rparr>", OF v _ hs, of ?n ?m] by (simp add: e cong: if_cong)
  then have t: "cyc_frame s t" "tme t = tme u" "free_cyccb t = [?n..<?m]"
    and c: "\<And>i. cyccb t i = (if ?n \<le> i \<and> i < ?m then (cyccb s i)\<lparr>p_cycinib := (p_cycinib (cyccb s i))\<lparr>cycatr := TA_NOEXS\<rparr>\<rparr> else cyccb u i)"
    using u by (simp_all add: cyc_booted_def)
  have old: "cyccb u i = cyccb s i" "evts (tme u) (CycTmevtb i) = None" if "?n \<le> i" for i using u that by (simp_all add: cyc_booted_def)
  have blk: "cyc_block u i" if "i < ?n" for i using u that by (simp add: cyc_booted_def)
  show "cyc_frame s t" by (rule t(1))
  have b: "(cycsta (cyccb t i) \<longleftrightarrow> evts (tme t) (CycTmevtb i) \<noteq> None) \<and>
      (cycatr (p_cycinib (cyccb t i)) = TA_NOEXS \<longrightarrow> \<not> cycsta (cyccb t i)) \<and>
      (cycatr (p_cycinib (cyccb t i)) \<noteq> TA_NOEXS \<longrightarrow> cyc_ok (cyccb t i) (evts (tme t) (CycTmevtb i))) \<and>
      (cycsta (cyccb t i) \<longrightarrow> callback (tmevtb (tme t) (CycTmevtb i)) = Call_cychdr i)" for i
  proof (cases "i < ?n")
    case True
    then show ?thesis using blk[OF True] by (simp add: c t(2) cyc_block_def)
  next
    case False
    then show ?thesis using old[of i] assms(3,4)[of i] by (cases "i < ?m") (simp_all add: c t(2))
  qed
  have f: "distinct (free_cyccb t)"
    "\<forall>i \<in> set (free_cyccb t). cycatr (p_cycinib (cyccb t i)) = TA_NOEXS \<and> ?n \<le> i \<and> i < ?m" by (simp_all add: t(3) c)
  show "cyc_inv cfg t"
    unfolding cyc_inv_def hdl_inv_def using f b by blast
qed

section \<open>The parts of the invariant, one after the other\<close>

text \<open>The parts of the kinds in \<open>Ks\<close> hold, before any task runs or waits.\<close>

definition booted :: "okind set \<Rightarrow> kernel_cfg \<Rightarrow> kernel \<Rightarrow> bool" where
  "booted Ks cfg s \<longleftrightarrow> winv s \<and> p_runtsk s = None \<and> \<not> reqflg s \<and> no_waiters s \<and> (\<forall>K \<in> Ks. part K cfg s)"

lemma winv_init:
  assumes "winv s" and "no_waiters s" and "p_runtsk s = None" and "same_tasks s (t\<lparr>tme := tme s\<rparr>)" and "heap_ok (tme t)"
    and "\<And>p. evts (tme t) (TskTmevtb p) = evts (tme s) (TskTmevtb p)"
    and "\<And>p. callback (tmevtb (tme t) (TskTmevtb p)) = callback (tmevtb (tme s) (TskTmevtb p))"
  shows "winv t" and "p_runtsk t = None" and "no_waiters t"
proof -
  note i = winvD(1)[OF assms(1)]
  have q: "tcb t = tcb s" "queues t = queues s" "p_runtsk t = p_runtsk s" "p_schedtsk t = p_schedtsk s" "ready_primap t = ready_primap s"
    using assms(4) by (simp_all add: same_tasks_def)
  have "ready_ok t" using tsk_invD(1)[OF i] by (simp add: ready_ok_def primap_ok_def ready_pri_ok_def q)
  moreover have "tmout_ok p (tcb t p) (tme t)" for p using tsk_invD(4)[OF i, of p] assms(6,7) by (simp add: tmout_ok_def q)
  moreover have "queues t (WaitQ w) = []" for w using assms(2) by (simp add: no_waiters_def q)
  ultimately have "tsk_inv t" using tsk_invD(3,5)[OF i] assms(5) by (simp add: tsk_inv_def q)
  then show "winv t" "p_runtsk t = None" "no_waiters t" using assms(2,3) by (simp_all add: winv_def no_waiters_def q)
qed

lemma part_still:
  assumes "still K s t" and "part K' cfg s" and "K' \<noteq> K"
  shows "part K' cfg t"
proof -
  have t: "tcb t = tcb s" and o: "others K t = others K s" using assms(1) by (simp_all add: still_def)
  note m = still_mild[OF assms(1)]
  show ?thesis
  proof (cases "K' = OTsk \<or> K' = OMtx")
    case True
    then show ?thesis
      using dormant_ok_mono[of s t] mtx_part_calm[of cfg s K t] assms(2,3) t o m by (auto simp: mild_def simp del: part.simps(2))
  qed (use part_mild[OF m assms(2,3)] in blast)
qed

lemma booted_still:
  assumes "booted Ks cfg s" and "same_tasks s (t\<lparr>tme := tme s\<rparr>)" and "others K t = others K s" and "ev_keep K (tme s) (tme t)"
    and "heap_ok (tme t)" and "\<And>p. evts (tme t) (TskTmevtb p) = evts (tme s) (TskTmevtb p)"
    and "\<And>p. callback (tmevtb (tme t) (TskTmevtb p)) = callback (tmevtb (tme s) (TskTmevtb p))" and "part K cfg t"
  shows "booted (insert K Ks) cfg t"
proof -
  have b: "winv s" "no_waiters s" "p_runtsk s = None" using assms(1) by (simp_all add: booted_def)
  have "still K s t" using assms(2-4) by (intro stillI) (simp_all add: same_tasks_def)
  then have "part K' cfg t" if "K' \<in> insert K Ks" for K'
    using part_still[of K s t K' cfg] that assms(1,8) by (cases "K' = K") (simp_all add: booted_def)
  moreover have "reqflg t = reqflg s" using assms(2) by (simp add: same_tasks_def)
  ultimately show ?thesis using winv_init[OF b assms(2,5-7)] assms(1) by (simp add: booted_def)
qed

lemma booted_inits:
  assumes "booted Ks cfg s" and "inits K s t" and "part K cfg t"
  shows "booted (insert K Ks) cfg t"
proof -
  have e: "tme t = tme s" using assms(2) by (simp add: inits_def same_tasks_def)
  have "heap_ok (tme t)" using tsk_invD(2)[OF winvD(1)] assms(1) by (simp add: booted_def e)
  then show ?thesis
    using booted_still[OF assms(1) _ _ _ _ _ _ assms(3)] assms(2) by (simp add: inits_def same_tasks_def e)
qed

text \<open>A pool that was just initialised.\<close>

lemma pool_inv_init:
  assumes "no_waiters t" and "cb t = (\<lambda>i. if i < a then g i else if i < b then k i else c i)" and "fr t = [a..<b]"
    and "\<And>i. i < a \<Longrightarrow> atr (g i) \<noteq> TA_NOEXS \<and> P (g i) (winfos t) [] []" and "\<And>i. atr (k i) = TA_NOEXS"
    and "\<And>i. b \<le> i \<Longrightarrow> atr (c i) = TA_NOEXS"
  shows "pool_inv obj cb atr fr P a b t"
  using assms unfolding pool_inv_def no_waiters_def by auto

lemma boot_sem:
  assumes "no_waiters s" and "objects_cfg_ok cfg" and "\<And>i. tnum_sem cfg \<le> i \<Longrightarrow> sematr (p_seminib (semcb s i)) = TA_NOEXS"
  shows "inits OSem s (initialize_semaphore cfg s)" and "part OSem cfg (initialize_semaphore cfg s)"
proof -
  note i = init_sem[OF assms(1) refl, of cfg]
  show "inits OSem s (initialize_semaphore cfg s)" using i by blast
  then have "queues (initialize_semaphore cfg s) (WaitQ w) = []" for w
    using assms(1) by (simp add: inits_def same_tasks_def no_waiters_def)
  then show "part OSem cfg (initialize_semaphore cfg s)"
    using i assms(2,3) by (auto simp: sem_inv_def objects_cfg_ok_def)
qed
lemma boot_flg:
  assumes "no_waiters s" and "objects_cfg_ok cfg" and "\<And>i. tnum_flg cfg \<le> i \<Longrightarrow> flgatr (p_flginib (flgcb s i)) = TA_NOEXS"
  shows "inits OFlg s (initialize_eventflag cfg s)" and "part OFlg cfg (initialize_eventflag cfg s)"
proof -
  note i = init_flg[OF assms(1) refl, of cfg]
  show n: "inits OFlg s (initialize_eventflag cfg s)" using i by blast
  then have "no_waiters (initialize_eventflag cfg s)"
    using assms(1) by (simp add: inits_def same_tasks_def no_waiters_def)
  then show "part OFlg cfg (initialize_eventflag cfg s)"
    using i assms(2,3) unfolding part.simps flg_inv_def
    by (elim conjE) (rule pool_inv_init, assumption+, simp_all add: objects_cfg_ok_def flg_ok_def)
qed

lemma boot_dtq:
  assumes "no_waiters s" and "objects_cfg_ok cfg" and "\<And>i. tnum_dtq cfg \<le> i \<Longrightarrow> dtqatr (p_dtqinib (dtqcb s i)) = TA_NOEXS"
  shows "inits ODtq s (initialize_dataqueue cfg s)" and "part ODtq cfg (initialize_dataqueue cfg s)"
proof -
  note i = init_dtq[OF assms(1) refl, of cfg]
  show n: "inits ODtq s (initialize_dataqueue cfg s)" using i by blast
  then have "no_waiters (initialize_dataqueue cfg s)"
    using assms(1) by (simp add: inits_def same_tasks_def no_waiters_def)
  then show "part ODtq cfg (initialize_dataqueue cfg s)"
    using i assms(2,3) unfolding part.simps
    by (elim conjE) (rule pool_inv_init, assumption+, simp_all add: objects_cfg_ok_def dtq_ok_def buf_ok_def)
qed

lemma boot_pdq:
  assumes "no_waiters s" and "objects_cfg_ok cfg" and "\<And>i. tnum_pdq cfg \<le> i \<Longrightarrow> pdqatr (p_pdqinib (pdqcb s i)) = TA_NOEXS"
  shows "inits OPdq s (initialize_pridataq cfg s)" and "part OPdq cfg (initialize_pridataq cfg s)"
proof -
  note i = init_pdq[OF assms(1) refl, of cfg]
  show n: "inits OPdq s (initialize_pridataq cfg s)" using i by blast
  then have "no_waiters (initialize_pridataq cfg s)"
    using assms(1) by (simp add: inits_def same_tasks_def no_waiters_def)
  then show "part OPdq cfg (initialize_pridataq cfg s)"
    using i assms(2,3) unfolding part.simps
    by (elim conjE) (rule pool_inv_init, assumption+, simp_all add: objects_cfg_ok_def pdq_ok_def pdq_buf_ok_def pdq_nodes_def pdq_free_def pdq_contents_def)
qed

lemma boot_mpf:
  assumes "no_waiters s" and "objects_cfg_ok cfg" and "\<And>i. tnum_mpf cfg \<le> i \<Longrightarrow> mpfatr (p_mpfinib (mpfcb s i)) = TA_NOEXS"
  shows "inits OMpf s (initialize_mempfix cfg s)" and "part OMpf cfg (initialize_mempfix cfg s)"
proof -
  note i = init_mpf[OF assms(1) refl, of cfg]
  show n: "inits OMpf s (initialize_mempfix cfg s)" using i by blast
  then have "no_waiters (initialize_mempfix cfg s)"
    using assms(1) by (simp add: inits_def same_tasks_def no_waiters_def)
  then show "part OMpf cfg (initialize_mempfix cfg s)"
    using i assms(2,3) unfolding part.simps
    by (elim conjE) (rule pool_inv_init, assumption+, simp_all add: objects_cfg_ok_def mpf_ok_def mpf_blocks_ok_def mpf_free_def mpf_alloc_def)
qed

lemma boot_mbx:
  assumes "no_waiters s" and "objects_cfg_ok cfg" and "\<And>i. tnum_mbx cfg \<le> i \<Longrightarrow> mbxatr (p_mbxinib (mbxcb s i)) = TA_NOEXS"
  shows "inits OMbx s (initialize_mailbox cfg s)" and "part OMbx cfg (initialize_mailbox cfg s)"
proof -
  let ?t = "initialize_mailbox cfg s"
  note i = init_mbx[OF assms(1) refl, of cfg]
  show "inits OMbx s ?t" using i by blast
  then have n: "no_waiters ?t" using assms(1) by (simp add: inits_def same_tasks_def no_waiters_def)
  have "mbx_inv cfg ?t"
    using n i assms(2,3) by (elim conjE) (rule pool_inv_init, assumption+, simp_all add: objects_cfg_ok_def mbx_ok_def)
  moreover have "mbx_rep (\<lambda>_. []) ?t" using i assms(3) by (auto simp: mbx_rep_def box_ok_def)
  ultimately show "part OMbx cfg ?t" by auto
qed

lemma fold_keeps: "(\<And>i t. get (f i t) = get t) \<Longrightarrow> get (fold f xs s) = get s"
  by (induction xs arbitrary: s) simp_all

text \<open>The mutexes: nobody holds one, so the part of the mutexes goes on to hold.\<close>

lemma boot_mtx:
  assumes "booted Ks cfg s" and "OMtx \<in> Ks" and "\<And>i. p_loctsk (mtxcb s i) = None"
  shows "inits OMtx s (initialize_mutex cfg s)" and "part OMtx cfg (initialize_mutex cfg s)"
proof -
  let ?t = "initialize_mutex cfg s"
  have n: "no_waiters s" and m: "mtx_inv s" using assms(1,2) by (auto simp: booted_def)
  note i = init_mtx[OF n refl, of cfg] and g = mtx_genD[OF m[unfolded mtx_inv_def]]
  show s: "inits OMtx s ?t" using i by blast
  have t: "tcb ?t = tcb s" "\<And>w. queues ?t (WaitQ w) = []" using s n by (simp_all add: inits_def same_tasks_def no_waiters_def)
  have l: "p_loctsk (mtxcb ?t i) = None" for i using i assms(3) by simp
  have q0: "mtxqs s p = []" for p using g(2)[of _ p] assms(3) by (cases "mtxqs s p") auto
  have "mtxqs ?t p = mtxqs s p" for p by (simp add: initialize_mutex_def fold_keeps[where get = mtxqs] Let_def)
  then show "part OMtx cfg ?t"
    using t l q0 g(5) i assms(3) by (auto simp: mtx_inv_def mtx_gen_def mtx_free_def ceil_inv_def mtx_user_def mutex_calc_priority_def)
qed

lemma boot_alm:
  assumes "no_waiters s" and "objects_cfg_ok cfg" and "\<And>i. tnum_alm cfg \<le> i \<Longrightarrow> almatr (p_alminib (almcb s i)) = TA_NOEXS"
    and "\<And>i. \<not> almsta (almcb s i)" and "\<And>i. evts (tme s) (AlmTmevtb i) = None"
  shows "inits OAlm s (initialize_alarm cfg s)" and "part OAlm cfg (initialize_alarm cfg s)"
proof -
  let ?t = "initialize_alarm cfg s"
  note i = init_alm[OF assms(1) refl, of cfg]
  show s: "inits OAlm s ?t" using i by blast
  then have "tme ?t = tme s" by (simp add: inits_def same_tasks_def)
  then show "part OAlm cfg ?t"
    using i assms(2-5) by (auto simp: alm_inv_def hdl_inv_def objects_cfg_ok_def)
qed

section \<open>The start\<close>

text \<open>What the start needs of the control blocks goes through the initialisation of the other kinds.\<close>

lemma initsD:
  assumes "inits K s t"
  shows "others K t = others K s" and "tme t = tme s" and "tcb t = tcb s" and "queues t = queues s"
  using assms by (simp_all add: inits_def same_tasks_def)

lemma bootedD: "booted Ks cfg s \<Longrightarrow> no_waiters s"
  by (simp add: booted_def)

definition initialize_first :: "kernel_cfg \<Rightarrow> kernel \<Rightarrow> kernel" where
  "initialize_first cfg s = initialize_mailbox cfg (initialize_pridataq cfg (initialize_dataqueue cfg (initialize_eventflag cfg
    (initialize_semaphore cfg (initialize_task cfg s)))))"

lemma initialize_first_ok:
  assumes "boot_tasks s" and "boot_objects cfg s" and "tasks_cfg_ok cfg" and "objects_cfg_ok cfg" and "last_index (tme s) = 0"
    and "s5 = initialize_first cfg s"
  shows "booted {OMbx, OPdq, ODtq, OFlg, OSem, OTsk, OMtx} cfg s5" and "mtxcb s5 = mtxcb s" and "mpfcb s5 = mpfcb s"
    and "cyccb s5 = cyccb s" and "almcb s5 = almcb s" and "tme s5 = tme s" and "tcb s5 = tcb (initialize_task cfg s)"
proof -
  define s0 where "s0 = initialize_task cfg s"
  define s1 where "s1 = initialize_semaphore cfg s0"
  define s2 where "s2 = initialize_eventflag cfg s1"
  define s3 where "s3 = initialize_dataqueue cfg s2"
  define s4 where "s4 = initialize_pridataq cfg s3"
  have s5: "s5 = initialize_mailbox cfg s4" by (simp add: assms(6) initialize_first_def s0_def s1_def s2_def s3_def s4_def)
  note o = assms(2)[unfolded boot_objects_def] and c = assms(4)
  have f: "boot_frame cfg s s0" using initialize_task_base(1)[OF assms(1,5,3)] by (simp add: s0_def)
  then have f0: "others OMtx s0 = others OMtx s" "mtxcb s0 = mtxcb s" "tme s0 = tme s" by (simp_all add: boot_frame_def)
  note e0 = othersD(2-)[OF f0(1)]
  have b0: "booted {OTsk, OMtx} cfg s0"
    using f by (simp add: boot_frame_def boot_base_def tman_base_def booted_def no_waiters_def)
  have "sematr (p_seminib (semcb s0 i)) = TA_NOEXS" if "tnum_sem cfg \<le> i" for i using o that e0(1) by simp
  note p1 = boot_sem[OF bootedD[OF b0] c this, folded s1_def]
  note b1 = booted_inits[OF b0 p1] and e1 = othersD[OF initsD(1)[OF p1(1)]]
  have "flgatr (p_flginib (flgcb s1 i)) = TA_NOEXS" if "tnum_flg cfg \<le> i" for i using o that e0 e1 by simp
  note p2 = boot_flg[OF bootedD[OF b1] c this, folded s2_def]
  note b2 = booted_inits[OF b1 p2] and e2 = othersD[OF initsD(1)[OF p2(1)]]
  have "dtqatr (p_dtqinib (dtqcb s2 i)) = TA_NOEXS" if "tnum_dtq cfg \<le> i" for i using o that e0 e1 e2 by simp
  note p3 = boot_dtq[OF bootedD[OF b2] c this, folded s3_def]
  note b3 = booted_inits[OF b2 p3] and e3 = othersD[OF initsD(1)[OF p3(1)]]
  have "pdqatr (p_pdqinib (pdqcb s3 i)) = TA_NOEXS" if "tnum_pdq cfg \<le> i" for i using o that e0 e1 e2 e3 by simp
  note p4 = boot_pdq[OF bootedD[OF b3] c this, folded s4_def]
  note b4 = booted_inits[OF b3 p4] and e4 = othersD[OF initsD(1)[OF p4(1)]]
  have "mbxatr (p_mbxinib (mbxcb s4 i)) = TA_NOEXS" if "tnum_mbx cfg \<le> i" for i using o that e0 e1 e2 e3 e4 by simp
  note p5 = boot_mbx[OF bootedD[OF b4] c this, folded s5]
  note b5 = booted_inits[OF b4 p5] and e5 = othersD[OF initsD(1)[OF p5(1)]]
  show "booted {OMbx, OPdq, ODtq, OFlg, OSem, OTsk, OMtx} cfg s5" by (rule b5)
  show "mtxcb s5 = mtxcb s" "mpfcb s5 = mpfcb s" "cyccb s5 = cyccb s" "almcb s5 = almcb s"
    using f0(2) e0 e1 e2 e3 e4 e5 by simp_all
  show "tme s5 = tme s" "tcb s5 = tcb (initialize_task cfg s)"
    using f0(3) initsD(2,3)[OF p1(1)] initsD(2,3)[OF p2(1)] initsD(2,3)[OF p3(1)] initsD(2,3)[OF p4(1)] initsD(2,3)[OF p5(1)]
    by (simp_all add: s0_def)
qed

lemma initialize_object_ok:
  assumes "boot_tasks s" and "boot_objects cfg s" and "tasks_cfg_ok cfg" and "objects_cfg_ok cfg" and "last_index (tme s) = 0"
    and "t = initialize_object cfg s"
  shows "booted UNIV cfg t" and "same_clock (tme s) (tme t)" and "p < tnum_stsk cfg \<Longrightarrow> tstat (tcb t p) = boot_tstat cfg p"
proof -
  define s5 where "s5 = initialize_first cfg s"
  define s6 where "s6 = initialize_mutex cfg s5"
  define s7 where "s7 = initialize_mempfix cfg s6"
  define s8 where "s8 = initialize_cyclic cfg s7"
  have t: "t = initialize_alarm cfg s8"
    by (simp add: assms(6) initialize_object_def initialize_first_def Let_def s5_def s6_def s7_def s8_def)
  note o = assms(2)[unfolded boot_objects_def] and c = assms(4)
  note f5 = initialize_first_ok[OF assms(1-5) s5_def]
  note b5 = f5(1)
  have "p_loctsk (mtxcb s5 i) = None" for i using assms(1) f5(2) by (simp add: boot_tasks_def)
  note p6 = boot_mtx[OF b5 _ this, folded s6_def]
  then have p6: "inits OMtx s5 s6" "part OMtx cfg s6" by blast+
  note b6 = booted_inits[OF b5 p6] and e6 = othersD[OF initsD(1)[OF p6(1)]]
  have "mpfatr (p_mpfinib (mpfcb s6 i)) = TA_NOEXS" if "tnum_mpf cfg \<le> i" for i using o that f5(3) e6 by simp
  note p7 = boot_mpf[OF bootedD[OF b6] c this, folded s7_def]
  note b7 = booted_inits[OF b6 p7] and e7 = othersD[OF initsD(1)[OF p7(1)]]
  have tm: "tme s7 = tme s" using initsD(2)[OF p6(1)] initsD(2)[OF p7(1)] f5(6) by simp
  have ev: "evts (tme s7) b = None" for b using assms(5) by (simp add: tm evts_def Let_def)
  have hp: "heap_ok (tme s7)" using assms(5) by (simp add: tm heap_ok_def)
  have cy: "cyccb s7 = cyccb s" and al: "almcb s7 = almcb s" using f5(4,5) e6 e7 by simp_all
  note p8 = init_cyc[OF hp ev _ _ c s8_def]
  have p8: "cyc_frame s7 s8" "cyc_inv cfg s8" using p8 o cy by simp_all
  have ek: "ekind b \<noteq> OCyc \<Longrightarrow> b \<noteq> CycTmevtb i" for b i by auto
  have b8: "booted (insert OCyc (insert OMpf (insert OMtx (insert OMbx (insert OPdq (insert ODtq (insert OFlg (insert OSem {OTsk, OMtx})))))))) cfg s8"
    by (rule booted_still[OF b7]) (use p8 ek in \<open>simp_all add: cyc_frame_def ev_keep_def\<close>)
  have "inits OAlm s8 t \<and> part OAlm cfg t"
  proof -
    have a: "almcb s8 = almcb s" using p8(1) al by (simp add: cyc_frame_def others_def)
    have "evts (tme s8) (AlmTmevtb i) = None" for i using p8(1) ev by (simp add: cyc_frame_def)
    then show ?thesis using boot_alm[OF bootedD[OF b8] c, folded t] o a by simp
  qed
  then have p9: "inits OAlm s8 t" "part OAlm cfg t" by blast+
  have "insert OAlm (insert OCyc (insert OMpf (insert OMtx (insert OMbx (insert OPdq (insert ODtq (insert OFlg (insert OSem {OTsk, OMtx})))))))) = UNIV"
    using okind.exhaust by auto
  then show "booted UNIV cfg t" using booted_inits[OF b8 p9] by simp
  show "same_clock (tme s) (tme t)" using initsD(2)[OF p9(1)] p8(1) by (simp add: tm cyc_frame_def)
  have "tcb t = tcb (initialize_task cfg s)"
    using f5(7) initsD(3)[OF p6(1)] initsD(3)[OF p7(1)] initsD(3)[OF p9(1)] p8(1) by (simp add: cyc_frame_def same_tasks_def)
  then show "p < tnum_stsk cfg \<Longrightarrow> tstat (tcb t p) = boot_tstat cfg p"
    using initialize_task_base(2)[OF assms(1,5,3), of p] by simp
qed


text \<open>A small memory before the start: no object exists yet.\<close>

definition boot_kernel :: kernel where
  "boot_kernel = idle_kernel\<lparr>
    semcb := (\<lambda>_. \<lparr>p_seminib = \<lparr>sematr = TA_NOEXS, isemcnt = 0, maxsem = 1\<rparr>, semcnt = 0\<rparr>),
    flgcb := (\<lambda>_. \<lparr>p_flginib = \<lparr>flgatr = TA_NOEXS, iflgptn = 0\<rparr>, flgptn = 0\<rparr>),
    dtqcb := (\<lambda>i. (dtqcb idle_kernel i)\<lparr>p_dtqinib := \<lparr>dtqatr = TA_NOEXS, dtqcnt = 0, p_dtqmb = None\<rparr>\<rparr>),
    pdqcb := (\<lambda>i. (pdqcb idle_kernel i)\<lparr>p_pdqinib := \<lparr>pdqatr = TA_NOEXS, pdqcnt = 0, maxdpri = 1, p_pdqmb = None\<rparr>\<rparr>),
    mbxcb := (\<lambda>i. (mbxcb idle_kernel i)\<lparr>p_mbxinib := \<lparr>mbxatr = TA_NOEXS, maxmpri = 1\<rparr>\<rparr>),
    mpfcb := (\<lambda>i. (mpfcb idle_kernel i)\<lparr>p_mpfinib := \<lparr>mpfatr = TA_NOEXS, blkcnt = 0, blksz = 0, mpf = 0, p_mpfmb = None\<rparr>\<rparr>),
    cyccb := (\<lambda>i. (cyccb idle_kernel i)\<lparr>p_cycinib := \<lparr>cycatr = TA_NOEXS, cyc_exinf = 0, cychdr = 0, cyctim = 1, cycphs = 0\<rparr>\<rparr>),
    almcb := (\<lambda>i. (almcb idle_kernel i)\<lparr>p_alminib := \<lparr>almatr = TA_NOEXS, alm_exinf = 0, almhdr = 0\<rparr>\<rparr>)\<rparr>"

lemma boot_kernel_ok: "boot_tasks boot_kernel" "boot_objects cfg boot_kernel"
  by (simp_all add: boot_tasks_def boot_objects_def boot_kernel_def idle_kernel_def blank_tcb_def tcb_dormant_def sample_tcb_def sample_tinib_def)

lemma sample_cfg_ok: "tasks_cfg_ok sample_cfg" "objects_cfg_ok sample_cfg"
  by (simp_all add: tasks_cfg_ok_def objects_cfg_ok_def sample_cfg_def sample_tinib_def inj_on_def INDEX_TSK_def tnum_stsk_def tnum_tsk_def)


section \<open>The allocator\<close>

text \<open>A sequence of requests, and the areas given out with their sizes.\<close>

primrec mallocs :: "kernel_cfg \<Rightarrow> nat list \<Rightarrow> kernel \<Rightarrow> nat option list \<times> kernel" where
  "mallocs cfg [] s = ([], s)"
| "mallocs cfg (n # ns) s =
    (let (p, s) = kernel_malloc cfg n s; (ps, s) = mallocs cfg ns s in (p # ps, s))"

definition areas :: "nat option list \<Rightarrow> nat list \<Rightarrow> (nat \<times> nat) list" where
  "areas ps ns = map (\<lambda>(p, n). (the p, n)) (filter (\<lambda>(p, n). p \<noteq> None) (zip ps ns))"

lemma areas_simps [simp]:
  "areas [] [] = []" "areas (Some a # ps) (n # ns) = (a, n) # areas ps ns" "areas (None # ps) (n # ns) = areas ps ns"
  by (simp_all add: areas_def)

lemma mallocs_ok:
  "set (areas (fst (mallocs cfg ns s)) ns) \<subseteq> {(a, n). kmm cfg \<le> a \<and> a + n \<le> kmm cfg + kmm_brk s} \<and>
   sorted_wrt (\<lambda>(a, n) (b, m). b + m \<le> a) (areas (fst (mallocs cfg ns s)) ns) \<and>
   (None \<notin> set (fst (mallocs cfg ns s)) \<longleftrightarrow> sum_list ns \<le> kmm_brk s)"
proof (induction ns arbitrary: s)
  case (Cons n ns)
  show ?case
  proof (cases "n \<le> kmm_brk s")
    case True
    let ?s = "s\<lparr>kmm_brk := kmm_brk s - n\<rparr>"
    have e: "mallocs cfg (n # ns) s = (Some (kmm cfg + kmm_brk ?s) # fst (mallocs cfg ns ?s), snd (mallocs cfg ns ?s))"
      using True by (simp add: kernel_malloc_def case_prod_beta)
    show ?thesis using Cons[of ?s] True unfolding e by auto
  next
    case False
    then have e: "mallocs cfg (n # ns) s = (None # fst (mallocs cfg ns s), snd (mallocs cfg ns s))"
      by (simp add: kernel_malloc_def case_prod_beta)
    show ?thesis using Cons[of s] False unfolding e by auto
  qed
qed simp

text \<open>
  C24: memory is given out once. From the start, every sequence of requests to \<open>kernel_malloc\<close> gets areas
  inside \<open>kmm\<close> that do not overlap, each below the ones before, and all requests are met exactly when
  their sizes fit into the area together.
\<close>

theorem kernel_malloc_disjoint:
  "set (areas (fst (mallocs cfg ns (initialize_kmm cfg s))) ns) \<subseteq> {(a, n). kmm cfg \<le> a \<and> a + n \<le> kmm cfg + kmmsz cfg} \<and>
   sorted_wrt (\<lambda>(a, n) (b, m). b + m \<le> a) (areas (fst (mallocs cfg ns (initialize_kmm cfg s))) ns) \<and>
   (None \<notin> set (fst (mallocs cfg ns (initialize_kmm cfg s))) \<longleftrightarrow> sum_list ns \<le> kmmsz cfg)"
  using mallocs_ok[of cfg ns "initialize_kmm cfg s"] by (simp add: initialize_kmm_def)

end
