(* ===== verification/Asp_Syslog.thy ===== *)
theory Asp_Syslog
  imports Asp_State "HOL-Library.Char_ord"
begin

text \<open>
  The system log: the ring buffer of log records with the service calls on it (\<^verbatim>\<open>syssvc/syslog.c\<close>), the
  formatted output (\<^verbatim>\<open>library/log_output.c\<close>) and the collection of the arguments of a message
  (\<^verbatim>\<open>library/vasyslog.c\<close>). The buffer is a list that keeps the latest records, the printed numbers can be
  read back, and a message that was collected is printed with its own arguments.

  A string is the list of its characters before the terminating NUL; \<open>mem\<close> gives the string at an
  address. What the low-level output routine of the target prints is kept in \<open>fput_log\<close>.
\<close>

section \<open>Data\<close>

definition TMAX_LOGINFO :: nat where "TMAX_LOGINFO = 6"
definition TCNT_SYSLOG_BUFFER :: nat where "TCNT_SYSLOG_BUFFER = 32"

definition LOG_TYPE_COMMENT :: "32 word" where "LOG_TYPE_COMMENT = 0x01"
definition LOG_TYPE_ASSERT :: "32 word" where "LOG_TYPE_ASSERT = 0x02"

record SYSLOG =
  logtype :: "32 word"
  logtim :: EVTTIM
  loginfo :: "nat \<Rightarrow> intptr_t"

record T_SYSLOG_RLOG =
  rlog_count :: nat
  rlog_lost :: "32 word"
  rlog_logmask :: "32 word"
  rlog_lowmask :: "32 word"

record log_state =
  syslog_buffer :: "nat \<Rightarrow> SYSLOG"
  syslog_count :: nat
  syslog_head :: nat
  syslog_tail :: nat
  syslog_lost :: "32 word"
  syslog_logmask :: "32 word"
  syslog_lowmask_not :: "32 word"
  fput_log :: string

definition LOG_MASK :: "nat \<Rightarrow> 32 word" where "LOG_MASK prio = push_bit prio 1"

section \<open>Formatted output\<close>

definition CONVERT_BUFLEN :: nat where "CONVERT_BUFLEN = (4 * 8 + 2) div 3"

definition raddec :: string where "raddec = ''0123456789''"
definition radhex :: string where "radhex = ''0123456789abcdef''"
definition radHEX :: string where "radHEX = ''0123456789ABCDEF''"

text \<open>The contents of \<open>buf\<close> from index \<open>i\<close> on, the lowest digit first.\<close>

function convert_buf :: "string \<Rightarrow> 32 word \<Rightarrow> 32 word \<Rightarrow> nat \<Rightarrow> string" where
  "convert_buf radchar radix val i =
    radchar ! unat (val mod radix) #
      (let i = i + 1; val = val div radix
       in if i < CONVERT_BUFLEN \<and> val \<noteq> 0 then convert_buf radchar radix val i else [])"
  by pat_completeness auto
termination
  by (relation "measure (\<lambda>(radchar, radix, val, i). CONVERT_BUFLEN - i)") auto

definition convert :: "32 word \<Rightarrow> 32 word \<Rightarrow> string \<Rightarrow> 32 word \<Rightarrow> bool \<Rightarrow> bool \<Rightarrow> string" where
  "convert val radix radchar width neg padzero =
    (let buf = convert_buf radchar radix val 0;
         width = (if neg \<and> width > 0 then width - 1 else width)
     in (if neg \<and> padzero then ''-'' else []) @
        replicate (unat width - length buf) (if padzero then CHR ''0'' else CHR '' '') @
        (if neg \<and> \<not> padzero then ''-'' else []) @
        rev buf)"

definition is_digit :: "char \<Rightarrow> bool" where "is_digit c \<longleftrightarrow> CHR ''0'' \<le> c \<and> c \<le> CHR ''9''"

fun scan_width :: "32 word \<Rightarrow> string \<Rightarrow> 32 word \<times> string" where
  "scan_width width [] = (width, [])"
| "scan_width width (c # format) =
    (if is_digit c then scan_width (width * 10 + of_char c - of_char (CHR ''0'')) format else (width, c # format))"

text \<open>One case of the switch: what is printed, and the number of the next argument.\<close>

definition printf_conv :: "(intptr_t \<Rightarrow> string) \<Rightarrow> char \<Rightarrow> 32 word \<Rightarrow> bool \<Rightarrow> (nat \<Rightarrow> intptr_t) \<Rightarrow> nat \<Rightarrow> string \<times> nat" where
  "printf_conv mem c width padzero p_args k =
    (let val = p_args k in
     if c = CHR ''d''
     then (if 0 \<le> sint val then (convert val 10 raddec width False padzero, k + 1)
           else (convert (- val) 10 raddec width True padzero, k + 1))
     else if c = CHR ''u'' then (convert val 10 raddec width False padzero, k + 1)
     else if c = CHR ''x'' \<or> c = CHR ''p'' then (convert val 16 radhex width False padzero, k + 1)
     else if c = CHR ''X'' then (convert val 16 radHEX width False padzero, k + 1)
     else if c = CHR ''c'' then ([char_of (unat val)], k + 1)
     else if c = CHR ''s'' then (mem val, k + 1)
     else if c = CHR ''%'' then (''%'', k)
     else ([], k))"

text \<open>The part of a conversion before the switch: padding, width and the letter \<open>l\<close>.\<close>

definition skip_long :: "string \<Rightarrow> string" where
  "skip_long format = (case format of [] \<Rightarrow> [] | c # cs \<Rightarrow> if c = CHR ''l'' then cs else format)"

definition scan_zero :: "string \<Rightarrow> bool \<times> string" where
  "scan_zero format = (case format of [] \<Rightarrow> (False, []) | c # cs \<Rightarrow> if c = CHR ''0'' then (True, cs) else (False, format))"

definition scan_conv :: "string \<Rightarrow> bool \<times> 32 word \<times> string" where
  "scan_conv format =
    (let (padzero, format) = scan_zero format;
         (width, format) = scan_width 0 format
     in (padzero, width, skip_long format))"

lemma scan_length:
  "length (skip_long cs) \<le> length cs" "length (snd (scan_zero cs)) \<le> length cs" "length (snd (scan_width w cs)) \<le> length cs"
  by (simp_all add: skip_long_def scan_zero_def split: list.split) (induction w cs rule: scan_width.induct; auto)

lemma scan_conv_length: "scan_conv cs = (z, w, d # ds) \<Longrightarrow> length ds < length cs"
proof -
  assume "scan_conv cs = (z, w, d # ds)"
  then have "d # ds = skip_long (snd (scan_width 0 (snd (scan_zero cs))))"
    by (simp add: scan_conv_def case_prod_beta Let_def)
  then have "length (d # ds) \<le> length (snd (scan_width 0 (snd (scan_zero cs))))" using scan_length(1) by metis
  then show "length ds < length cs" using scan_length(2)[of cs] scan_length(3)[of 0 "snd (scan_zero cs)"] by simp
qed

function syslog_printf :: "(intptr_t \<Rightarrow> string) \<Rightarrow> string \<Rightarrow> (nat \<Rightarrow> intptr_t) \<Rightarrow> nat \<Rightarrow> string" where
  "syslog_printf mem format p_args k =
    (case format of
       [] \<Rightarrow> []
     | c # format \<Rightarrow>
        if c \<noteq> CHR ''%'' then c # syslog_printf mem format p_args k
        else (let (padzero, width, format) = scan_conv format
              in case format of
                   [] \<Rightarrow> []
                 | c # format \<Rightarrow>
                    (let (out, k) = printf_conv mem c width padzero p_args k
                     in out @ syslog_printf mem format p_args k)))"
  by pat_completeness auto
termination
  by (relation "measure (\<lambda>(mem, format, p_args, k). length format)")
    (auto dest!: scan_conv_length[OF sym])

declare syslog_printf.simps [simp del] convert_buf.simps [simp del]

definition syslog_print :: "(intptr_t \<Rightarrow> string) \<Rightarrow> SYSLOG \<Rightarrow> string" where
  "syslog_print mem p_syslog =
    (if logtype p_syslog = LOG_TYPE_COMMENT
     then syslog_printf mem (mem (loginfo p_syslog 0)) (\<lambda>j. loginfo p_syslog (1 + j)) 0
     else if logtype p_syslog = LOG_TYPE_ASSERT
     then syslog_printf mem (''%s:%u: Assertion `%s'' @ [CHR 0x27] @ '' failed.'') (loginfo p_syslog) 0
     else [])"

definition syslog_lostmsg :: "(intptr_t \<Rightarrow> string) \<Rightarrow> 32 word \<Rightarrow> string" where
  "syslog_lostmsg mem lostlog =
    syslog_printf mem ''%d messages are lost.'' (\<lambda>_. lostlog) 0 @ [CHR 0x0A]"

section \<open>The ring buffer\<close>

definition syslog_initialize :: "log_state \<Rightarrow> log_state" where
  "syslog_initialize s =
    s\<lparr>syslog_count := 0, syslog_head := 0, syslog_tail := 0, syslog_lost := 0, syslog_logmask := 0, syslog_lowmask_not := 0\<rparr>"

definition syslog_wri_log :: "(intptr_t \<Rightarrow> string) \<Rightarrow> EVTTIM \<Rightarrow> nat \<Rightarrow> SYSLOG \<Rightarrow> log_state \<Rightarrow> int \<times> log_state" where
  "syslog_wri_log mem kernel_time prio p_syslog s =
    (let p_syslog = p_syslog\<lparr>logtim := kernel_time\<rparr>;
         s = (if syslog_logmask s AND LOG_MASK prio \<noteq> 0
              then (let s = s\<lparr>syslog_buffer := (syslog_buffer s)(syslog_tail s := p_syslog)\<rparr>;
                        s = s\<lparr>syslog_tail := syslog_tail s + 1\<rparr>;
                        s = (if syslog_tail s \<ge> TCNT_SYSLOG_BUFFER then s\<lparr>syslog_tail := 0\<rparr> else s)
                    in if syslog_count s < TCNT_SYSLOG_BUFFER then s\<lparr>syslog_count := syslog_count s + 1\<rparr>
                       else s\<lparr>syslog_head := syslog_tail s, syslog_lost := syslog_lost s + 1\<rparr>)
              else s);
         s = (if NOT (syslog_lowmask_not s) AND LOG_MASK prio \<noteq> 0
              then s\<lparr>fput_log := fput_log s @ syslog_print mem p_syslog @ [CHR 0x0A]\<rparr> else s)
     in (E_OK, s))"

definition syslog_rea_log :: "log_state \<Rightarrow> (int \<times> SYSLOG option) \<times> log_state" where
  "syslog_rea_log s =
    (if syslog_count s > 0
     then (let p_syslog = syslog_buffer s (syslog_head s);
               s = s\<lparr>syslog_count := syslog_count s - 1\<rparr>;
               s = s\<lparr>syslog_head := syslog_head s + 1\<rparr>;
               s = (if syslog_head s \<ge> TCNT_SYSLOG_BUFFER then s\<lparr>syslog_head := 0\<rparr> else s);
               ercd = sint (syslog_lost s)
           in ((ercd, Some p_syslog), s\<lparr>syslog_lost := 0\<rparr>))
     else ((E_OBJ, None), s))"

definition syslog_msk_log :: "32 word \<Rightarrow> 32 word \<Rightarrow> log_state \<Rightarrow> int \<times> log_state" where
  "syslog_msk_log logmask lowmask s = (E_OK, s\<lparr>syslog_logmask := logmask, syslog_lowmask_not := NOT lowmask\<rparr>)"

definition syslog_ref_log :: "log_state \<Rightarrow> int \<times> T_SYSLOG_RLOG" where
  "syslog_ref_log s =
    (E_OK, \<lparr>rlog_count = syslog_count s, rlog_lost = syslog_lost s, rlog_logmask = syslog_logmask s,
            rlog_lowmask = NOT (syslog_lowmask_not s)\<rparr>)"

text \<open>
  A message with its arguments. On the 32-bit target every argument is a word, so the prefix \<open>l\<close> makes no
  difference; \<open>j\<close> is the number of the next argument in the argument list.
\<close>

definition skip_conv :: "string \<Rightarrow> string" where "skip_conv format = skip_long (dropWhile is_digit format)"

lemma skip_conv_length: "skip_conv cs = d # ds \<Longrightarrow> length ds < length cs"
  using scan_length(1)[of "dropWhile is_digit cs"] length_dropWhile_le[of is_digit cs] by (simp add: skip_conv_def)

function syslog_args :: "string \<Rightarrow> (nat \<Rightarrow> intptr_t) \<Rightarrow> nat \<Rightarrow> nat \<Rightarrow> (nat \<Rightarrow> intptr_t) \<Rightarrow> nat \<Rightarrow> intptr_t" where
  "syslog_args format ap j i info =
    (case format of
       [] \<Rightarrow> info
     | c # format \<Rightarrow>
        if \<not> i < TMAX_LOGINFO then info
        else if c \<noteq> CHR ''%'' then syslog_args format ap j i info
        else (case skip_conv format of
                [] \<Rightarrow> info
              | c # format \<Rightarrow>
                  if c \<in> set ''duxXpcs'' then syslog_args format ap (j + 1) (i + 1) (info(i := ap j))
                  else syslog_args format ap j i info))"
  by pat_completeness auto
termination
  by (relation "measure (\<lambda>(format, ap, j, i, info). length format)") (auto dest!: skip_conv_length)

declare syslog_args.simps [simp del]

definition syslog :: "(intptr_t \<Rightarrow> string) \<Rightarrow> EVTTIM \<Rightarrow> nat \<Rightarrow> intptr_t \<Rightarrow> (nat \<Rightarrow> intptr_t) \<Rightarrow> (nat \<Rightarrow> intptr_t) \<Rightarrow> log_state \<Rightarrow> int \<times> log_state" where
  "syslog mem kernel_time prio format ap undef s =
    (let info = undef(0 := format);
         info = syslog_args (mem format) ap 0 1 info
     in syslog_wri_log mem kernel_time prio \<lparr>logtype = LOG_TYPE_COMMENT, logtim = 0, loginfo = info\<rparr> s)"

section \<open>The numbers that are printed\<close>

text \<open>Reading a number back: the value of a digit, of a sequence of digits, and of a signed number.\<close>

definition digit_val :: "char \<Rightarrow> nat" where
  "digit_val c = (if c \<le> CHR ''9'' then of_char c - 48 else if c \<le> CHR ''F'' then of_char c - 55 else of_char c - 87)"

definition digits_val :: "nat \<Rightarrow> string \<Rightarrow> nat" where
  "digits_val radix ds = foldl (\<lambda>n d. radix * n + digit_val d) 0 ds"

definition read_num :: "nat \<Rightarrow> string \<Rightarrow> int" where
  "read_num radix cs =
    (case dropWhile (\<lambda>c. c = CHR '' '') cs of
       [] \<Rightarrow> 0
     | c # ds \<Rightarrow> if c = CHR ''-'' then - int (digits_val radix ds) else int (digits_val radix (c # ds)))"

lemma digits_val_simps [simp]:
  "digits_val radix [] = 0" "digits_val radix (ds @ [d]) = radix * digits_val radix ds + digit_val d"
  by (simp_all add: digits_val_def)

lemma digits_val_zeros: "digits_val radix (replicate n (CHR ''0'') @ ds) = digits_val radix ds"
proof -
  have "foldl (\<lambda>n d. radix * n + digit_val d) 0 (replicate n (CHR ''0'')) = 0"
    by (induction n) (simp_all add: digit_val_def)
  then show ?thesis by (simp add: digits_val_def)
qed

definition radix_ok :: "string \<Rightarrow> 32 word \<Rightarrow> bool" where
  "radix_ok radchar radix \<longleftrightarrow> 8 \<le> unat radix \<and> (\<forall>d < unat radix. digit_val (radchar ! d) = d \<and> radchar ! d \<notin> set '' -'')"

lemma radix_ok: "radix_ok raddec 10" "radix_ok radhex 16" "radix_ok radHEX 16"
proof -
  have all: "(\<forall>d < n. P d) \<longleftrightarrow> list_all P [0..<n]" for n P by (auto simp: list_all_iff)
  show "radix_ok raddec 10" "radix_ok radhex 16" "radix_ok radHEX 16"
    unfolding radix_ok_def all by (simp_all add: upt_rec raddec_def radhex_def radHEX_def digit_val_def less_eq_char_def)
qed

lemma convert_buf_ok:
  assumes "radix_ok radchar radix" and "i < CONVERT_BUFLEN" and "unat val < unat radix ^ (CONVERT_BUFLEN - i)"
    and "b = convert_buf radchar radix val i"
  shows "digits_val (unat radix) (rev b) = unat val \<and> b \<noteq> [] \<and> set b \<inter> set '' -'' = {} \<and> i + length b \<le> CONVERT_BUFLEN"
  using assms
proof (induction radchar radix val i arbitrary: b rule: convert_buf.induct)
  case (1 radchar radix val i)
  let ?r = "unat radix" and ?v = "val div radix"
  have r: "8 \<le> ?r" "digit_val (radchar ! d) = d" "radchar ! d \<notin> set '' -''" if "d < ?r" for d
    using 1(2) that by (auto simp: radix_ok_def)
  have r0: "0 < ?r" using 1(2) by (simp add: radix_ok_def)
  have m: "unat (val mod radix) < ?r" using r0 by (simp add: unat_mod_distrib)
  have d: "?r * unat ?v + unat (val mod radix) = unat val" by (simp add: unat_div_distrib unat_mod_distrib)
  show ?case
  proof (cases "i + 1 < CONVERT_BUFLEN \<and> ?v \<noteq> 0")
    case True
    have "?r * ?r ^ (CONVERT_BUFLEN - (i + 1)) = ?r ^ (CONVERT_BUFLEN - i)" using True by (simp flip: power_Suc add: Suc_diff_Suc)
    then have "unat ?v < ?r ^ (CONVERT_BUFLEN - (i + 1))"
      using 1(4) r0 by (simp add: unat_div_distrib less_mult_imp_div_less mult.commute)
    note ih = 1(1)[OF refl refl True 1(2) conjunct1[OF True] this refl]
    have b: "b = radchar ! unat (val mod radix) # convert_buf radchar radix ?v (i + 1)"
      using True 1(5) by (simp add: convert_buf.simps[of radchar radix val i])
    show ?thesis using ih d r[OF m] True unfolding b by auto
  next
    case False
    have "unat ?v = 0"
    proof (cases "i + 1 < CONVERT_BUFLEN")
      case True
      then show ?thesis using False by simp
    next
      case f: False
      then have "CONVERT_BUFLEN - i = 1" using 1(3) by simp
      then show ?thesis using 1(4) by (simp add: unat_div_distrib)
    qed
    moreover have "b = [radchar ! unat (val mod radix)]"
      using False 1(5) by (auto simp: convert_buf.simps[of radchar radix val i] Let_def)
    ultimately show ?thesis using d r[OF m] 1(3) by (auto simp: digits_val_def)
  qed
qed

text \<open>The buffer is large enough, and the number can be read back from any padding.\<close>

lemma convert_ok:
  assumes "radix_ok radchar radix"
  shows "length (convert_buf radchar radix val 0) \<le> CONVERT_BUFLEN"
    and "read_num (unat radix) (convert val radix radchar width neg padzero) = (if neg then - int (unat val) else int (unat val))"
proof -
  let ?b = "convert_buf radchar radix val 0"
  have "(8 :: nat) ^ 11 \<le> unat radix ^ 11" using assms by (intro power_mono) (simp_all add: radix_ok_def)
  moreover have "unat val < 2 ^ LENGTH(32)" by (rule unsigned_less)
  ultimately have "unat val < unat radix ^ (CONVERT_BUFLEN - 0)" by (simp add: CONVERT_BUFLEN_def)
  from convert_buf_ok[OF assms _ this refl] have b: "digits_val (unat radix) (rev ?b) = unat val" "rev ?b \<noteq> []"
    "set ?b \<inter> set '' -'' = {}" "length ?b \<le> CONVERT_BUFLEN" by (simp_all add: CONVERT_BUFLEN_def)
  show "length ?b \<le> CONVERT_BUFLEN" by (rule b(4))
  obtain c cs where c: "rev ?b = c # cs" using b(2) by (cases "rev ?b") auto
  then have "c \<in> set ?b" by (metis list.set_intros(1) set_rev)
  then have n: "c \<noteq> CHR '' ''" "c \<noteq> CHR ''-''" using b(3) by auto
  have z: "dropWhile (\<lambda>c. c = CHR '' '') (replicate k (CHR '' '') @ xs) = dropWhile (\<lambda>c. c = CHR '' '') xs" for k xs
    by (induction k) simp_all
  have v: "digits_val (unat radix) (c # cs) = unat val" using b(1) c by simp
  show "read_num (unat radix) (convert val radix radchar width neg padzero) = (if neg then - int (unat val) else int (unat val))"
  proof (cases padzero)
    case False
    then show ?thesis using n v by (simp add: convert_def Let_def read_num_def z c)
  next
    case True
    show ?thesis
    proof (cases neg)
      case True
      then show ?thesis using \<open>padzero\<close> v by (simp add: convert_def Let_def read_num_def c digits_val_zeros)
    next
      case False
      let ?s = "replicate (unat width - length ?b) (CHR ''0'') @ c # cs"
      have "read_num (unat radix) ?s = int (digits_val (unat radix) ?s)"
        using n by (cases "unat width - length ?b") (simp_all add: read_num_def)
      then show ?thesis using False \<open>padzero\<close> v by (simp add: convert_def Let_def c digits_val_zeros)
    qed
  qed
qed

lemma sint_parts:
  fixes v :: "32 word"
  shows "0 \<le> sint v \<Longrightarrow> uint v = sint v" and "\<not> 0 \<le> sint v \<Longrightarrow> - uint (- v) = sint v"
proof -
  have b: "0 \<le> uint v" "uint v < 4294967296" using uint_lt2p[of v] by simp_all
  have s: "sint v = (uint v + 2147483648) mod 4294967296 - 2147483648"
    by (simp add: sint_uint signed_take_bit_eq_take_bit_shift take_bit_eq_mod)
  have m: "uint (- v) = (- uint v) mod 4294967296" by (simp add: uint_word_ariths)
  have "sint v = uint v" if "uint v < 2147483648" using that b by (simp add: s)
  moreover have "- uint (- v) = sint v \<and> sint v < 0" if "\<not> uint v < 2147483648"
  proof -
    have "(uint v + 2147483648) mod 4294967296 = uint v - 2147483648"
      using minus_mod_self2[of "uint v + 2147483648" 4294967296] mod_pos_pos_trivial[of "uint v - 2147483648" 4294967296] b that by simp
    moreover have "(- uint v) mod 4294967296 = 4294967296 - uint v" using b that by (simp add: zmod_zminus1_eq_if)
    ultimately show ?thesis using b by (simp add: s m)
  qed
  ultimately show "0 \<le> sint v \<Longrightarrow> uint v = sint v" "\<not> 0 \<le> sint v \<Longrightarrow> - uint (- v) = sint v" using b by force+
qed

text \<open>
  C29: what is printed for a number is the number. For every argument, width and padding, the output of the
  conversions \<open>%d\<close>, \<open>%u\<close> and \<open>%x\<close> reads back as the signed, unsigned and hexadecimal value of
  the argument, the smallest integer included, and \<open>convert\<close> never writes behind its buffer.
\<close>

theorem printf_number_roundtrip:
  "read_num 10 (fst (printf_conv mem CHR ''d'' width padzero p_args k)) = sint (p_args k) \<and>
   read_num 10 (fst (printf_conv mem CHR ''u'' width padzero p_args k)) = uint (p_args k) \<and>
   read_num 16 (fst (printf_conv mem CHR ''x'' width padzero p_args k)) = uint (p_args k) \<and>
   read_num 16 (fst (printf_conv mem CHR ''X'' width padzero p_args k)) = uint (p_args k) \<and>
   length (convert_buf raddec 10 v 0) \<le> CONVERT_BUFLEN \<and> length (convert_buf radhex 16 v 0) \<le> CONVERT_BUFLEN"
proof -
  have r: "unat (10 :: 32 word) = 10" "unat (16 :: 32 word) = 16" by simp_all
  note c = convert_ok(2)[OF radix_ok(1), unfolded r] convert_ok(2)[OF radix_ok(2), unfolded r] convert_ok(2)[OF radix_ok(3), unfolded r]
  have u: "int (unat (p_args k)) = uint (p_args k)" by simp
  show ?thesis
    using c u sint_parts[of "p_args k"] convert_ok(1)[OF radix_ok(1)] convert_ok(1)[OF radix_ok(2)] by (simp add: printf_conv_def Let_def)
qed

section \<open>The buffer keeps the latest records\<close>

definition log_ok :: "log_state \<Rightarrow> bool" where
  "log_ok s \<longleftrightarrow> syslog_count s \<le> TCNT_SYSLOG_BUFFER \<and> syslog_head s < TCNT_SYSLOG_BUFFER \<and>
    syslog_tail s = (syslog_head s + syslog_count s) mod TCNT_SYSLOG_BUFFER"

definition log_contents :: "log_state \<Rightarrow> SYSLOG list" where
  "log_contents s = ring_list (syslog_buffer s) TCNT_SYSLOG_BUFFER (syslog_head s) (syslog_count s)"

lemma log_ok_initialize: "log_ok (syslog_initialize s)" "log_contents (syslog_initialize s) = []"
  by (simp_all add: log_ok_def log_contents_def syslog_initialize_def TCNT_SYSLOG_BUFFER_def)

lemma wri_log_ok:
  assumes "log_ok s" and "s' = snd (syslog_wri_log mem t prio p s)"
  shows "log_ok s'" and "syslog_logmask s' = syslog_logmask s" and "syslog_logmask s AND LOG_MASK prio = 0 \<Longrightarrow>
      log_contents s' = log_contents s \<and> syslog_lost s' = syslog_lost s"
    and "syslog_logmask s AND LOG_MASK prio \<noteq> 0 \<Longrightarrow>
      log_contents s' = (if syslog_count s < TCNT_SYSLOG_BUFFER then log_contents s else tl (log_contents s)) @ [p\<lparr>logtim := t\<rparr>] \<and>
      syslog_lost s' = (if syslog_count s < TCNT_SYSLOG_BUFFER then syslog_lost s else syslog_lost s + 1)"
proof -
  let ?n = TCNT_SYSLOG_BUFFER and ?h = "syslog_head s" and ?c = "syslog_count s" and ?t = "syslog_tail s"
  have i: "?c \<le> ?n" "?h < ?n" "?t = (?h + ?c) mod ?n" using assms(1) by (simp_all add: log_ok_def)
  then have tn: "?t < ?n" by simp
  have tl: "(if ?n \<le> ?t + 1 then 0 else ?t + 1) = (?h + (?c + 1)) mod ?n" unfolding wrap_index[OF tn] by (simp add: i(3) mod_Suc_eq)
  show "syslog_logmask s' = syslog_logmask s" by (simp add: assms(2) syslog_wri_log_def Let_def)
  show "syslog_logmask s AND LOG_MASK prio = 0 \<Longrightarrow> log_contents s' = log_contents s \<and> syslog_lost s' = syslog_lost s"
    by (simp add: assms(2) syslog_wri_log_def log_contents_def Let_def)
  define b where "b = (syslog_buffer s)(?t := p\<lparr>logtim := t\<rparr>)"
  define t' where "t' = (if ?n \<le> ?t + 1 then 0 else ?t + 1)"
  have r: "syslog_buffer s' = b \<and> syslog_tail s' = t' \<and>
      (if ?c < ?n then syslog_count s' = ?c + 1 \<and> syslog_head s' = ?h \<and> syslog_lost s' = syslog_lost s
       else syslog_count s' = ?c \<and> syslog_head s' = t' \<and> syslog_lost s' = syslog_lost s + 1)"
    if "syslog_logmask s AND LOG_MASK prio \<noteq> 0"
    using that by (simp add: assms(2) syslog_wri_log_def b_def t'_def Let_def)
  have full: "?t = ?h" "t' = (?h + 1) mod ?n" if "\<not> ?c < ?n"
    using that i tl wrap_index[OF tn] by (simp_all add: t'_def)
  have t'n: "t' < ?n" using tl[folded t'_def] i(2) by simp
  show "log_ok s'"
  proof (cases "syslog_logmask s AND LOG_MASK prio = 0")
    case True
    then show ?thesis using assms(1) by (simp add: assms(2) syslog_wri_log_def log_ok_def Let_def)
  next
    case False
    then show ?thesis using r[OF False] i tl[folded t'_def] full t'n by (cases "?c < ?n") (simp_all add: log_ok_def)
  qed
  assume m: "syslog_logmask s AND LOG_MASK prio \<noteq> 0"
  have "log_contents s' = (if ?c < ?n then log_contents s else tl (log_contents s)) @ [p\<lparr>logtim := t\<rparr>]"
  proof (cases "?c < ?n")
    case True
    then show ?thesis using r[OF m] ring_push[OF True i(3)] by (simp add: log_contents_def b_def)
  next
    case False
    then have c: "?c = ?n" using i(1) by simp
    have g: "?n - 1 < ?n" "(t' + (?n - 1)) mod ?n = ?h"
      using i(2) mod_back[of ?n ?h ?n] unfolding full(2)[OF False] by simp_all
    have p: "ring_list b ?n t' (?n - 1 + 1) = ring_list (syslog_buffer s) ?n t' (?n - 1) @ [p\<lparr>logtim := t\<rparr>]"
      unfolding b_def full(1)[OF False] by (rule ring_push[OF g(1) g(2)[symmetric]])
    have "tl (log_contents s) = ring_list (syslog_buffer s) ?n t' (?n - 1)"
      using ring_pop[OF _ i(2) full(2)[OF False], of ?c "syslog_buffer s"] c i(2) by (simp add: log_contents_def)
    then show ?thesis using p r[OF m] False c i(2) by (simp add: log_contents_def)
  qed
  then show "log_contents s' = (if ?c < ?n then log_contents s else tl (log_contents s)) @ [p\<lparr>logtim := t\<rparr>] \<and>
      syslog_lost s' = (if ?c < ?n then syslog_lost s else syslog_lost s + 1)" using r[OF m] by simp
qed

lemma rea_log_ok:
  assumes "log_ok s" and "(r, s') = syslog_rea_log s"
  shows "log_ok s'" and "log_contents s = [] \<Longrightarrow> r = (E_OBJ, None) \<and> s' = s"
    and "log_contents s = x # xs \<Longrightarrow> r = (sint (syslog_lost s), Some x) \<and> log_contents s' = xs \<and> syslog_lost s' = 0"
proof -
  let ?n = TCNT_SYSLOG_BUFFER and ?h = "syslog_head s" and ?c = "syslog_count s"
  have i: "?c \<le> ?n" "?h < ?n" "syslog_tail s = (?h + ?c) mod ?n" using assms(1) by (simp_all add: log_ok_def)
  have l: "length (log_contents s) = ?c" by (simp add: log_contents_def)
  note w = wrap_index[OF i(2)]
  have e: "log_contents s = syslog_buffer s ?h # ring_list (syslog_buffer s) ?n (if ?n \<le> ?h + 1 then 0 else ?h + 1) (?c - 1)" if "0 < ?c"
    unfolding log_contents_def by (rule ring_pop[OF that i(2) w])
  show "log_contents s = [] \<Longrightarrow> r = (E_OBJ, None) \<and> s' = s"
    using assms(2) l by (simp add: syslog_rea_log_def)
  show "log_contents s = x # xs \<Longrightarrow> r = (sint (syslog_lost s), Some x) \<and> log_contents s' = xs \<and> syslog_lost s' = 0"
    using assms(2) l e by (auto simp: syslog_rea_log_def log_contents_def Let_def split: if_splits)
  show "log_ok s'"
  proof (cases "0 < ?c")
    case True
    have h: "syslog_head s' = (?h + 1) mod ?n" using assms(2) True w by (auto simp: syslog_rea_log_def Let_def split: if_splits)
    show ?thesis
      using assms(2) True i mod_back[OF True, of ?h ?n] unfolding log_ok_def h by (auto simp: syslog_rea_log_def Let_def split: if_splits)
  qed (use assms in \<open>simp add: syslog_rea_log_def\<close>)
qed

text \<open>A sequence of records, each with its time and priority.\<close>

primrec wri_logs :: "(intptr_t \<Rightarrow> string) \<Rightarrow> (EVTTIM \<times> nat \<times> SYSLOG) list \<Rightarrow> log_state \<Rightarrow> log_state" where
  "wri_logs mem [] s = s"
| "wri_logs mem (r # rs) s = wri_logs mem rs (snd (syslog_wri_log mem (fst r) (fst (snd r)) (snd (snd r)) s))"

definition recorded :: "32 word \<Rightarrow> (EVTTIM \<times> nat \<times> SYSLOG) list \<Rightarrow> SYSLOG list" where
  "recorded logmask rs = map (\<lambda>(t, prio, p). p\<lparr>logtim := t\<rparr>) (filter (\<lambda>(t, prio, p). logmask AND LOG_MASK prio \<noteq> 0) rs)"

lemma wri_logs_ok:
  assumes "log_ok s" and "l = log_contents s @ recorded (syslog_logmask s) rs" and "s' = wri_logs mem rs s"
  shows "log_ok s' \<and> log_contents s' = drop (length l - TCNT_SYSLOG_BUFFER) l \<and>
    syslog_lost s' = syslog_lost s + of_nat (length l - TCNT_SYSLOG_BUFFER)"
  using assms
proof (induction rs arbitrary: s l)
  case Nil
  have "length (log_contents s) \<le> TCNT_SYSLOG_BUFFER" using Nil(1) by (simp add: log_ok_def log_contents_def)
  then show ?case using Nil by (simp add: recorded_def)
next
  case (Cons r rs)
  obtain t prio p where r: "r = (t, prio, p)" by (cases r) auto
  define u where "u = snd (syslog_wri_log mem t prio p s)"
  note w = wri_log_ok[OF Cons(2) u_def]
  have c: "length (log_contents s) = syslog_count s" "syslog_count s \<le> TCNT_SYSLOG_BUFFER"
    using Cons(2) by (simp_all add: log_contents_def log_ok_def)
  have ih: "log_ok s' \<and> log_contents s' = drop (length m - TCNT_SYSLOG_BUFFER) m \<and>
      syslog_lost s' = syslog_lost u + of_nat (length m - TCNT_SYSLOG_BUFFER)"
    if "m = log_contents u @ recorded (syslog_logmask s) rs" for m
    using Cons(1)[OF w(1), of m] that w(2) Cons(4) by (simp add: r u_def)
  show ?case
  proof (cases "syslog_logmask s AND LOG_MASK prio = 0")
    case True
    then show ?thesis using ih[of l] w(3) Cons(3) by (simp add: r recorded_def)
  next
    case False
    have l: "l = log_contents s @ p\<lparr>logtim := t\<rparr> # recorded (syslog_logmask s) rs" using False Cons(3) by (simp add: r recorded_def)
    show ?thesis
    proof (cases "syslog_count s < TCNT_SYSLOG_BUFFER")
      case True
      then show ?thesis using ih[of l] w(4)[OF False] l by simp
    next
      case f: False
      have "log_contents s \<noteq> []" using c f by (auto simp: TCNT_SYSLOG_BUFFER_def)
      then have "tl l = log_contents u @ recorded (syslog_logmask s) rs" using w(4)[OF False] f l by simp
      moreover have "TCNT_SYSLOG_BUFFER < length l" using c f l by simp
      then have "length l - TCNT_SYSLOG_BUFFER = Suc (length (tl l) - TCNT_SYSLOG_BUFFER)" by simp
      ultimately show ?thesis using ih[of "tl l"] w(4)[OF False] f by (simp add: drop_Suc)
    qed
  qed
qed

definition sample_log :: SYSLOG where
  "sample_log = \<lparr>logtype = LOG_TYPE_COMMENT, logtim = 0, loginfo = (\<lambda>_. 0)\<rparr>"

definition sample_logs :: log_state where
  "sample_logs = \<lparr>syslog_buffer = (\<lambda>_. sample_log), syslog_count = 3, syslog_head = 1, syslog_tail = 4, syslog_lost = 0,
    syslog_logmask = 0, syslog_lowmask_not = 0, fput_log = []\<rparr>"



section \<open>The arguments of a message\<close>

text \<open>The number of arguments that the conversions of a format take.\<close>

function nargs :: "string \<Rightarrow> nat" where
  "nargs format =
    (case format of
       [] \<Rightarrow> 0
     | c # format \<Rightarrow>
        if c \<noteq> CHR ''%'' then nargs format
        else (case skip_conv format of
                [] \<Rightarrow> 0
              | c # format \<Rightarrow> (if c \<in> set ''duxXpcs'' then 1 else 0) + nargs format))"
  by pat_completeness auto
termination
  by (relation "measure length") (auto dest!: skip_conv_length)

declare nargs.simps [simp del]

lemma nargs_eqs:
  "nargs [] = 0" "c \<noteq> CHR ''%'' \<Longrightarrow> nargs (c # cs) = nargs cs" "skip_conv cs = [] \<Longrightarrow> nargs (CHR ''%'' # cs) = 0"
  "skip_conv cs = d # es \<Longrightarrow> nargs (CHR ''%'' # cs) = (if d \<in> set ''duxXpcs'' then 1 else 0) + nargs es"
  by (subst nargs.simps; simp del: set_simps)+

lemma printf_eqs:
  "syslog_printf mem [] ap k = []" "c \<noteq> CHR ''%'' \<Longrightarrow> syslog_printf mem (c # cs) ap k = c # syslog_printf mem cs ap k"
  "scan_conv cs = (z, w, []) \<Longrightarrow> syslog_printf mem (CHR ''%'' # cs) ap k = []"
  "scan_conv cs = (z, w, d # es) \<Longrightarrow> syslog_printf mem (CHR ''%'' # cs) ap k =
    (let (out, k) = printf_conv mem d w z ap k in out @ syslog_printf mem es ap k)"
  by (subst syslog_printf.simps; simp)+

lemma is_digit_0: "is_digit CHR ''0''"
  by (simp add: is_digit_def less_eq_char_def)

lemma scan_conv_skip: "scan_conv cs = (z, w, ds) \<Longrightarrow> ds = skip_conv cs"
proof -
  assume a: "scan_conv cs = (z, w, ds)"
  have w: "snd (scan_width w cs) = dropWhile is_digit cs" for w cs by (induction w cs rule: scan_width.induct) auto
  have z: "dropWhile is_digit (snd (scan_zero cs)) = dropWhile is_digit cs"
    using is_digit_0 by (cases cs) (simp_all add: scan_zero_def)
  show "ds = skip_conv cs" using a by (simp add: scan_conv_def skip_conv_def Let_def case_prod_beta w z)
qed

lemma printf_conv_args:
  "snd (printf_conv mem c w z ap k) = k + (if c \<in> set ''duxXpcs'' then 1 else 0)"
  "(c \<in> set ''duxXpcs'' \<Longrightarrow> ap' k = ap k) \<Longrightarrow> printf_conv mem c w z ap' k = printf_conv mem c w z ap k"
  by (auto simp: printf_conv_def Let_def)

text \<open>The output depends on these arguments only.\<close>

lemma printf_args:
  assumes "\<And>m. k \<le> m \<Longrightarrow> m < k + nargs format \<Longrightarrow> ap' m = ap m"
  shows "syslog_printf mem format ap' k = syslog_printf mem format ap k"
  using assms
proof (induction mem format ap k rule: syslog_printf.induct)
  case (1 mem format ap k)
  show ?case
  proof (cases format)
    case Nil
    then show ?thesis by (simp add: printf_eqs)
  next
    case (Cons c cs)
    show ?thesis
    proof (cases "c = CHR ''%''")
      case False
      then have "syslog_printf mem cs ap' k = syslog_printf mem cs ap k" using 1(1)[OF Cons False] 1(3) by (simp add: Cons nargs_eqs)
      then show ?thesis using False by (simp add: Cons printf_eqs)
    next
      case True
      obtain z w ds where s: "scan_conv cs = (z, w, ds)" by (cases "scan_conv cs") auto
      show ?thesis
      proof (cases ds)
        case Nil
        then show ?thesis using True s by (simp add: Cons printf_eqs)
      next
        case ds: (Cons d es)
        let ?u = "if d \<in> set ''duxXpcs'' then 1 else 0 :: nat"
        have n: "nargs format = ?u + nargs es"
          unfolding Cons True by (rule nargs_eqs) (use scan_conv_skip[OF s] ds in simp)
        have p: "printf_conv mem d w z ap' k = printf_conv mem d w z ap k"
          by (rule printf_conv_args(2)) (use 1(3)[of k] n in auto)
        obtain out k' where o: "printf_conv mem d w z ap k = (out, k')" by fastforce
        then have k': "k' = k + ?u" using printf_conv_args(1)[of mem d w z ap k] by simp
        have "syslog_printf mem es ap' k' = syslog_printf mem es ap k'"
          by (rule 1(2)[OF Cons _ s[symmetric] refl refl ds o[symmetric] refl]) (use True 1(3) n k' in auto)
        then show ?thesis using s o p unfolding Cons True ds by (simp add: printf_eqs)
      qed
    qed
  qed
qed

lemma args_ok:
  assumes "j + nargs format < TMAX_LOGINFO" and "r = syslog_args format ap j (j + 1) info"
  shows "(\<forall>m \<le> j. r m = info m) \<and> (\<forall>m. j \<le> m \<longrightarrow> m < j + nargs format \<longrightarrow> r (1 + m) = ap m)"
  using assms
proof (induction "length format" arbitrary: format j info rule: less_induct)
  case less
  show ?case
  proof (cases format)
    case Nil
    then show ?thesis using less by (simp add: syslog_args.simps nargs.simps)
  next
    case (Cons c cs)
    note e = less(3)[unfolded Cons syslog_args.simps[of "c # cs"]]
    show ?thesis
    proof (cases "j + 1 < TMAX_LOGINFO")
      case False
      then show ?thesis using e less(2) by simp
    next
      case i: True
      show ?thesis
      proof (cases "c = CHR ''%''")
        case False
        then show ?thesis using less(1)[of cs j info] less(2) e i Cons by (simp add: nargs_eqs)
      next
        case True
        show ?thesis
        proof (cases "skip_conv cs")
          case Nil
          then show ?thesis using e i True Cons by (simp add: nargs_eqs)
        next
          case ds: (Cons d es)
          have l: "length es < length format" using skip_conv_length[OF ds] Cons by simp
          show ?thesis
          proof (cases "d \<in> set ''duxXpcs''")
            case d: True
            have nn: "nargs format = 1 + nargs es" using nargs_eqs(4)[OF ds] d True Cons by simp
            have r: "r = syslog_args es ap (j + 1) (j + 1 + 1) (info(j + 1 := ap j))"
              using e i True ds d by simp
            have ih: "(\<forall>m \<le> j + 1. r m = (info(j + 1 := ap j)) m) \<and> (\<forall>m. j + 1 \<le> m \<longrightarrow> m < j + 1 + nargs es \<longrightarrow> r (1 + m) = ap m)"
              by (rule less(1)[OF l _ r]) (use less(2) nn in simp)
            have "r (1 + m) = ap m" if "j \<le> m" "m < j + nargs format" for m
              using ih that nn by (cases "m = j") auto
            then show ?thesis using ih by auto
          next
            case d: False
            have nn: "nargs format = nargs es" using nargs_eqs(4)[OF ds] d True Cons by simp
            have r: "r = syslog_args es ap j (j + 1) info" using e i True ds d by simp
            show ?thesis using less(1)[OF l _ r] less(2) nn by simp
          qed
        qed
      qed
    qed
  qed
qed

text \<open>
  A message is printed with its own arguments, when its conversions take at most five: what \<open>syslog\<close>
  stored in the record and \<open>syslog_print\<close> prints is the format applied to the arguments of the call. A
  sixth argument is not stored, and the output reads behind \<open>loginfo\<close>.
\<close>

lemma syslog_prints_own_args:
  assumes "nargs (mem format) < TMAX_LOGINFO"
  shows "syslog_print mem \<lparr>logtype = LOG_TYPE_COMMENT, logtim = t, loginfo = syslog_args (mem format) ap 0 1 (undef(0 := format))\<rparr> =
    syslog_printf mem (mem format) ap 0"
proof -
  let ?r = "syslog_args (mem format) ap 0 1 (undef(0 := format))"
  have "(\<forall>m \<le> 0. ?r m = (undef(0 := format)) m) \<and> (\<forall>m. 0 \<le> m \<longrightarrow> m < 0 + nargs (mem format) \<longrightarrow> ?r (1 + m) = ap m)"
    by (rule args_ok[where info = "undef(0 := format)"]) (use assms in simp_all)
  then show ?thesis
    using printf_args[of 0 "mem format" "\<lambda>j. ?r (1 + j)" ap mem] by (simp add: syslog_print_def)
qed

lemma syslog_sixth_arg_missing: "syslog_args ''%d%d%d%d%d%d'' ap 0 1 info 6 = info 6"
  by (simp add: syslog_args.simps skip_conv_def skip_long_def is_digit_def less_eq_char_def TMAX_LOGINFO_def)

end
