(* ===== verification/Asp_Histogram.thy ===== *)
theory Asp_Histogram
  imports Asp_Prelude
begin

text \<open>
  The measurement of execution times (\<^verbatim>\<open>library/histogram.c\<close>). The time of the target is a parameter; the
  array behind \<open>histarea\<close> is a function of the index. \<open>end_measure\<close> counts every measurement once, but
  not always inside the array that \<open>init_hist\<close> cleared.
\<close>

record HISTCB =
  begin_time :: "32 word"
  maxval :: "32 word"
  histarea :: "nat \<Rightarrow> 32 word"
  over :: "32 word"
  under :: "32 word"

definition INT_MAX :: "32 word" where "INT_MAX = 0x7fffffff"

text \<open>The loop over \<open>0 .. maxval\<close>; with the largest \<open>maxval\<close> the C loop does not end.\<close>

definition init_hist :: "32 word \<Rightarrow> (nat \<Rightarrow> 32 word) \<Rightarrow> HISTCB \<Rightarrow> HISTCB" where
  "init_hist maxv area p_histcb =
    (let area = fold (\<lambda>i area. area(i := 0)) [0..<unat maxv + 1] area
     in p_histcb\<lparr>maxval := maxv, histarea := area, over := 0, under := 0\<rparr>)"

definition begin_measure :: "32 word \<Rightarrow> HISTCB \<Rightarrow> HISTCB" where
  "begin_measure now p_histcb = p_histcb\<lparr>begin_time := now\<rparr>"

definition hist_count :: "32 word \<Rightarrow> HISTCB \<Rightarrow> HISTCB" where
  "hist_count val p_histcb =
    p_histcb\<lparr>histarea := (histarea p_histcb)(unat val := histarea p_histcb (unat val) + 1)\<rparr>"

definition end_measure :: "32 word \<Rightarrow> HISTCB \<Rightarrow> HISTCB" where
  "end_measure end_time p_histcb =
    (let val = (end_time - begin_time p_histcb) - 3
     in if val \<le> maxval p_histcb
        then (let val = val + 5; val = val div 10; val = val * 10 in hist_count val p_histcb)
        else if val \<ge> 10000
        then (let val = val + 500; val = val div 1000 in hist_count val p_histcb)
        else if val \<le> INT_MAX then p_histcb\<lparr>over := over p_histcb + 1\<rparr>
        else p_histcb\<lparr>under := under p_histcb + 1\<rparr>)"

lemma init_hist_area: "i \<le> unat (maxval (init_hist m a p)) \<Longrightarrow> histarea (init_hist m a p) i = 0"
proof -
  have "fold (\<lambda>i area. area(i := 0)) [0..<n] a = (\<lambda>i. if i < n then 0 else a i)" for n and a :: "nat \<Rightarrow> 32 word"
    by (induction n) (auto simp: fun_eq_iff)
  then show "i \<le> unat (maxval (init_hist m a p)) \<Longrightarrow> histarea (init_hist m a p) i = 0" by (simp add: init_hist_def)
qed

text \<open>The branch for times that went backwards is dead: such a value is at least 10000.\<close>

lemma end_measure_under: "under (end_measure now p) = under p"
  by (auto simp: end_measure_def hist_count_def INT_MAX_def word_le_nat_alt Let_def)

text \<open>Instead, a clock that went back by 1000 counts far behind an array of up to 10000 elements.\<close>

lemma end_measure_behind:
  assumes "now = begin_time p - 1000" and "maxval p \<le> 10000"
  shows "histarea (end_measure now p) 4294966 = histarea p 4294966 + 1"
proof -
  have v: "(now - begin_time p) - 3 = 0xfffffc15" by (simp add: assms(1))
  have "\<not> (0xfffffc15 :: 32 word) \<le> maxval p" using assms(2) by (simp add: word_le_nat_alt)
  then show ?thesis by (simp add: end_measure_def v Let_def hist_count_def)
qed

text \<open>Rounding goes behind the array when \<open>maxval\<close> is not a multiple of 10 that the rounding stays below.\<close>

lemma end_measure_rounds_behind:
  assumes "maxval p = 8" and "now = begin_time p + 11"
  shows "histarea (end_measure now p) 10 = histarea p 10 + 1"
  using assms by (simp add: end_measure_def Let_def hist_count_def)

end
