(* ===== verification/Asp_Serial.thy ===== *)
theory Asp_Serial
  imports Asp_Prelude "HOL-Library.Char_ord"
begin

text \<open>
  The serial interface driver (\<^verbatim>\<open>syssvc/serial.c\<close>), for one port. A service call is a tree of actions, so
  that tasks and interrupts can come between any two of them: a call of the kernel with its return value, a
  look at the control block or a change of it, and the two regions that run with the CPU locked, which are
  one action each. The callbacks of the device run as a whole.

  The device is not part of the sources modelled: \<open>rdy\<close> is the answer of \<open>sio_snd_chr\<close>, and \<open>SIOPCB\<close> keeps what
  the driver sees of a port, the characters it has taken and the callbacks that are allowed. \<open>wri_log\<close>, \<open>rcv_log\<close>
  and \<open>rea_log\<close> are history variables: the characters accepted from tasks, put into the receive buffer and
  handed to tasks. They are read by no operation.
\<close>

section \<open>Data\<close>

datatype cbrtn = SIO_RDY_SND | SIO_RDY_RCV

record SIOPCB =
  sio_out :: string
  sio_cbr :: "cbrtn \<Rightarrow> bool"

record SPCB =
  p_siopcb :: SIOPCB
  openflag :: bool
  errorflag :: bool
  ioctl :: "32 word"
  rcv_bufsz :: nat
  rcv_buffer :: "nat \<Rightarrow> char"
  rcv_read_ptr :: nat
  rcv_write_ptr :: nat
  rcv_count :: nat
  rcv_fc_chr :: char
  rcv_stopped :: bool
  snd_bufsz :: nat
  snd_buffer :: "nat \<Rightarrow> char"
  snd_read_ptr :: nat
  snd_write_ptr :: nat
  snd_count :: nat
  snd_stopped :: bool
  wri_log :: string
  rcv_log :: string
  rea_log :: string

record T_SERIAL_RPOR =
  rpor_reacnt :: nat
  rpor_wricnt :: nat

definition IOCTL_ECHO :: "32 word" where "IOCTL_ECHO = 0x0001"
definition IOCTL_CRLF :: "32 word" where "IOCTL_CRLF = 0x0010"
definition IOCTL_FCSND :: "32 word" where "IOCTL_FCSND = 0x0100"
definition IOCTL_FCANY :: "32 word" where "IOCTL_FCANY = 0x0200"
definition IOCTL_FCRCV :: "32 word" where "IOCTL_FCRCV = 0x0400"

definition FC_STOP :: char where "FC_STOP = CHR 0x13"
definition FC_START :: char where "FC_START = CHR 0x11"
definition NUL :: char where "NUL = CHR 0x00"
definition LF :: char where "LF = CHR 0x0A"
definition CR :: char where "CR = CHR 0x0D"

text \<open>Arithmetic on \<open>uint_t\<close>.\<close>

definition inc_u :: "nat \<Rightarrow> nat" where "inc_u n = (n + 1) mod 2 ^ 32"
definition dec_u :: "nat \<Rightarrow> nat" where "dec_u n = (if n = 0 then 2 ^ 32 - 1 else n - 1)"

definition INC_PTR :: "nat \<Rightarrow> nat \<Rightarrow> nat" where "INC_PTR ptr bufsz = (if inc_u ptr = bufsz then 0 else inc_u ptr)"

definition BUFCNT_STOP :: "nat \<Rightarrow> nat" where "BUFCNT_STOP bufsz = bufsz * 3 mod 2 ^ 32 div 4"
definition BUFCNT_START :: "nat \<Rightarrow> nat" where "BUFCNT_START bufsz = bufsz div 2"

section \<open>The actions of a task\<close>

datatype semid = Rcv_sem | Snd_sem

datatype svc = Sns_dpn | Dis_dsp | Ena_dsp | Loc_cpu | Unl_cpu | Wai_sem semid | Sig_sem semid | Ini_sem semid

datatype 'a act =
    Done 'a
  | Svc svc "ER \<Rightarrow> 'a act"
  | Look "SPCB \<Rightarrow> 'a act"
  | Upd "SPCB \<Rightarrow> SPCB" "'a act"
  | Wri char "bool \<Rightarrow> 'a act"
  | Rea "char \<times> bool \<Rightarrow> 'a act"

primrec bind_act :: "'a act \<Rightarrow> ('a \<Rightarrow> 'b act) \<Rightarrow> 'b act" where
  "bind_act (Done x) f = f x"
| "bind_act (Svc c k) f = Svc c (\<lambda>r. bind_act (k r) f)"
| "bind_act (Look k) f = Look (\<lambda>p. bind_act (k p) f)"
| "bind_act (Upd u k) f = Upd u (bind_act k f)"
| "bind_act (Wri c k) f = Wri c (\<lambda>b. bind_act (k b) f)"
| "bind_act (Rea k) f = Rea (\<lambda>b. bind_act (k b) f)"

section \<open>Errors\<close>

definition MERCD :: "ER \<Rightarrow> ER" where "MERCD ercd = signed_take_bit 7 ercd"

definition gen_ercd_sys :: "ER act" where
  "gen_ercd_sys = Upd (\<lambda>p. p\<lparr>errorflag := True\<rparr>) (Done E_SYS)"

definition gen_ercd_wait :: "ER \<Rightarrow> ER act" where
  "gen_ercd_wait rercd =
    (if MERCD rercd = E_RLWAI \<or> MERCD rercd = E_DLT then Done rercd else Upd (\<lambda>p. p\<lparr>errorflag := True\<rparr>) (Done E_SYS))"

section \<open>The regions with the CPU locked\<close>

text \<open>\<open>sio_snd_chr\<close> puts the character into the transmit register when it is free.\<close>

definition sio_snd_chr :: "bool \<Rightarrow> char \<Rightarrow> SPCB \<Rightarrow> SPCB" where
  "sio_snd_chr rdy c p = (if rdy then p\<lparr>p_siopcb := p_siopcb p\<lparr>sio_out := sio_out (p_siopcb p) @ [c]\<rparr>\<rparr> else p)"

definition sio_set_cbr :: "cbrtn \<Rightarrow> bool \<Rightarrow> SPCB \<Rightarrow> SPCB" where
  "sio_set_cbr r b p = p\<lparr>p_siopcb := p_siopcb p\<lparr>sio_cbr := (sio_cbr (p_siopcb p))(r := b)\<rparr>\<rparr>"

definition serial_snd_chr :: "bool \<Rightarrow> char \<Rightarrow> SPCB \<Rightarrow> bool \<times> SPCB" where
  "serial_snd_chr rdy c p =
    (let p = sio_snd_chr rdy c p
     in if rdy then (True, p) else (False, sio_set_cbr SIO_RDY_SND True p))"

text \<open>The region of \<open>serial_wri_chr\<close>: whether the buffer has become full.\<close>

definition wri_region :: "bool \<Rightarrow> char \<Rightarrow> SPCB \<Rightarrow> bool \<times> SPCB" where
  "wri_region rdy c p =
    (let p = p\<lparr>wri_log := wri_log p @ [c]\<rparr>;
         (sent, p) = (if snd_count p = 0 \<and> \<not> snd_stopped p then serial_snd_chr rdy c p else (False, p))
     in if sent then (False, p)
        else (let p = p\<lparr>snd_buffer := (snd_buffer p)(snd_write_ptr p := c)\<rparr>;
                  p = p\<lparr>snd_write_ptr := INC_PTR (snd_write_ptr p) (snd_bufsz p)\<rparr>;
                  p = p\<lparr>snd_count := inc_u (snd_count p)\<rparr>
              in (snd_count p = snd_bufsz p, p)))"

text \<open>The region of \<open>serial_rea_chr\<close>: the character, and whether the buffer has become empty.\<close>

definition rea_region :: "bool \<Rightarrow> SPCB \<Rightarrow> char \<times> bool \<times> SPCB" where
  "rea_region rdy p =
    (let c = rcv_buffer p (rcv_read_ptr p);
         p = p\<lparr>rea_log := rea_log p @ [c]\<rparr>;
         p = p\<lparr>rcv_read_ptr := INC_PTR (rcv_read_ptr p) (rcv_bufsz p)\<rparr>;
         p = p\<lparr>rcv_count := dec_u (rcv_count p)\<rparr>;
         buffer_empty = (rcv_count p = 0);
         p = (if rcv_stopped p \<and> rcv_count p \<le> BUFCNT_START (rcv_bufsz p)
              then (let (sent, p) = serial_snd_chr rdy FC_START p;
                        p = (if sent then p else p\<lparr>rcv_fc_chr := FC_START\<rparr>)
                    in p\<lparr>rcv_stopped := False\<rparr>)
              else p)
     in (c, buffer_empty, p))"

section \<open>Sending\<close>

definition of_bool_t :: "bool \<Rightarrow> ER" where "of_bool_t b = (if b then 1 else 0)"

definition wri_locked :: "char \<Rightarrow> ER act" where
  "wri_locked c =
    Svc Loc_cpu (\<lambda>r. if r < 0 then gen_ercd_sys
      else Wri c (\<lambda>buffer_full. Svc Unl_cpu (\<lambda>r. if r < 0 then gen_ercd_sys else Done (of_bool_t buffer_full))))"

function serial_wri_chr :: "char \<Rightarrow> ER act" where
  "serial_wri_chr c =
    Look (\<lambda>p. if c = LF \<and> ioctl p AND IOCTL_CRLF \<noteq> 0
      then bind_act (serial_wri_chr CR) (\<lambda>rercd.
             if rercd < 0 then Done rercd
             else if rercd \<noteq> 0
                  then Svc (Wai_sem Snd_sem) (\<lambda>rercd. if rercd < 0 then gen_ercd_wait rercd else wri_locked c)
                  else wri_locked c)
      else wri_locked c)"
  by pat_completeness auto
termination
  by (relation "measure (\<lambda>c. if c = LF then 1 else 0)") (auto simp: LF_def CR_def)

declare serial_wri_chr.simps [simp del]

text \<open>The exit of \<open>serial_wri_dat\<close>, and its loop over the rest of the data.\<close>

definition exit_cnt :: "nat \<Rightarrow> ER \<Rightarrow> ER act" where
  "exit_cnt cnt ercd = Done (if cnt > 0 then int cnt else ercd)"

definition wai_if :: "bool \<Rightarrow> semid \<Rightarrow> ER act" where
  "wai_if b s = (if b then Svc (Wai_sem s) (\<lambda>rercd. if rercd < 0 then gen_ercd_wait rercd else Done 0) else Done 0)"

primrec wri_loop :: "string \<Rightarrow> nat \<Rightarrow> bool \<Rightarrow> ER act" where
  "wri_loop [] wricnt buffer_full =
    (if \<not> buffer_full
     then Svc (Sig_sem Snd_sem) (\<lambda>r. if r < 0 then bind_act gen_ercd_sys (exit_cnt wricnt) else exit_cnt wricnt E_OK)
     else exit_cnt wricnt E_OK)"
| "wri_loop (c # buf) wricnt buffer_full =
    bind_act (wai_if buffer_full Snd_sem) (\<lambda>rercd.
      if rercd < 0 then exit_cnt wricnt rercd
      else bind_act (serial_wri_chr c) (\<lambda>rercd.
        if rercd < 0 then exit_cnt wricnt rercd else wri_loop buf (wricnt + 1) (rercd \<noteq> 0)))"

text \<open>The checks that the service calls share.\<close>

definition port_checks :: "(ER \<Rightarrow> 'a) \<Rightarrow> int \<Rightarrow> int \<Rightarrow> 'a act \<Rightarrow> 'a act" where
  "port_checks err tnum_port portid k =
    Svc Sns_dpn (\<lambda>r. if r \<noteq> 0 then Done (err E_CTX)
      else if \<not> (1 \<le> portid \<and> portid \<le> tnum_port) then Done (err E_ID) else k)"

definition opened :: "(ER \<Rightarrow> 'a) \<Rightarrow> 'a act \<Rightarrow> 'a act" where
  "opened err k =
    Look (\<lambda>p. if \<not> openflag p then Done (err E_OBJ) else Look (\<lambda>p. if errorflag p then Done (err E_SYS) else k))"

definition serial_wri_dat :: "int \<Rightarrow> int \<Rightarrow> string \<Rightarrow> ER act" where
  "serial_wri_dat tnum_port portid buf = port_checks id tnum_port portid (opened id (wri_loop buf 0 True))"

section \<open>Receiving\<close>

definition serial_rea_chr :: "(ER \<times> char) act" where
  "serial_rea_chr =
    Svc Loc_cpu (\<lambda>r. if r < 0 then bind_act gen_ercd_sys (\<lambda>e. Done (e, NUL))
      else Rea (\<lambda>(c, buffer_empty). Svc Unl_cpu (\<lambda>r.
        if r < 0 then bind_act gen_ercd_sys (\<lambda>e. Done (e, c)) else Done (of_bool_t buffer_empty, c))))"

definition echo_back :: "char \<Rightarrow> ER act" where
  "echo_back c =
    Look (\<lambda>p. if ioctl p AND IOCTL_ECHO \<noteq> 0
      then Svc (Wai_sem Snd_sem) (\<lambda>rercd. if rercd < 0 then gen_ercd_wait rercd
             else bind_act (serial_wri_chr c) (\<lambda>rercd. if rercd < 0 then Done rercd
               else if rercd = 0 then Svc (Sig_sem Snd_sem) (\<lambda>r. if r < 0 then gen_ercd_sys else Done 0)
               else Done 0))
      else Done 0)"

text \<open>The loop of \<open>serial_rea_dat\<close> for \<open>len\<close> more characters; \<open>buf\<close> is what was read so far.\<close>

definition exit_buf :: "string \<Rightarrow> ER \<Rightarrow> (ER \<times> string) act" where
  "exit_buf buf ercd = Done (if buf \<noteq> [] then int (length buf) else ercd, buf)"

primrec rea_loop :: "nat \<Rightarrow> string \<Rightarrow> bool \<Rightarrow> (ER \<times> string) act" where
  "rea_loop 0 buf buffer_empty =
    (if \<not> buffer_empty
     then Svc (Sig_sem Rcv_sem) (\<lambda>r. if r < 0 then bind_act gen_ercd_sys (exit_buf buf) else exit_buf buf E_OK)
     else exit_buf buf E_OK)"
| "rea_loop (Suc len) buf buffer_empty =
    bind_act (wai_if buffer_empty Rcv_sem) (\<lambda>rercd.
      if rercd < 0 then exit_buf buf rercd
      else bind_act serial_rea_chr (\<lambda>(rercd, c).
        if rercd < 0 then exit_buf buf rercd
        else bind_act (echo_back c) (\<lambda>r.
          if r < 0 then exit_buf (buf @ [c]) r else rea_loop len (buf @ [c]) (rercd \<noteq> 0))))"

definition serial_rea_dat :: "int \<Rightarrow> int \<Rightarrow> nat \<Rightarrow> (ER \<times> string) act" where
  "serial_rea_dat tnum_port portid len =
    port_checks (\<lambda>ercd. (ercd, [])) tnum_port portid (opened (\<lambda>ercd. (ercd, [])) (rea_loop len [] True))"

section \<open>Opening, closing and control\<close>

definition serial_initialize :: "SPCB \<Rightarrow> SPCB" where
  "serial_initialize p = p\<lparr>openflag := False\<rparr>"

text \<open>A call with \<open>SVC\<close> that ends the operation with \<open>E_SYS\<close> when it fails.\<close>

definition svc_sys :: "svc \<Rightarrow> ER act \<Rightarrow> ER act" where
  "svc_sys c k = Svc c (\<lambda>r. if r < 0 then gen_ercd_sys else k)"

definition init_port :: "SPCB \<Rightarrow> SPCB" where
  "init_port p =
    p\<lparr>ioctl := IOCTL_ECHO OR IOCTL_CRLF OR IOCTL_FCSND OR IOCTL_FCRCV,
      rcv_read_ptr := 0, rcv_write_ptr := 0, rcv_count := 0, rcv_fc_chr := NUL, rcv_stopped := False,
      snd_read_ptr := 0, snd_write_ptr := 0, snd_count := 0, snd_stopped := False\<rparr>"

text \<open>\<open>sio\<close> is the port as \<open>sio_opn_por\<close> leaves it.\<close>

definition open_region :: "SIOPCB \<Rightarrow> SPCB \<Rightarrow> SPCB" where
  "open_region sio p =
    (let p = p\<lparr>p_siopcb := sio\<rparr>;
         p = sio_set_cbr SIO_RDY_RCV True p
     in p\<lparr>openflag := True, errorflag := False\<rparr>)"

definition serial_opn_por :: "SIOPCB \<Rightarrow> int \<Rightarrow> int \<Rightarrow> ER act" where
  "serial_opn_por sio tnum_port portid =
    port_checks id tnum_port portid (svc_sys Dis_dsp (bind_act
      (Look (\<lambda>p. if openflag p then Done E_OBJ
         else Upd init_port (Svc Loc_cpu (\<lambda>r. if r < 0 then Done E_SYS
           else Upd (open_region sio) (Svc Unl_cpu (\<lambda>r.
             if r < 0 then Upd (\<lambda>p. p\<lparr>errorflag := True\<rparr>) (Done E_SYS) else Done E_OK))))))
      (\<lambda>ercd. svc_sys Ena_dsp (Done ercd))))"

text \<open>\<open>sio_cls\<close> is what \<open>sio_cls_por\<close> does to the port.\<close>

definition serial_cls_por :: "(SIOPCB \<Rightarrow> SIOPCB) \<Rightarrow> int \<Rightarrow> int \<Rightarrow> ER act" where
  "serial_cls_por sio_cls tnum_port portid =
    port_checks id tnum_port portid (svc_sys Dis_dsp (bind_act
      (Look (\<lambda>p. if \<not> openflag p then Done E_OBJ
         else Svc Loc_cpu (\<lambda>r1. Upd (\<lambda>p. p\<lparr>p_siopcb := sio_cls (p_siopcb p), openflag := False\<rparr>)
           (Svc Unl_cpu (\<lambda>r2. Svc (Ini_sem Snd_sem) (\<lambda>r3. Svc (Ini_sem Rcv_sem) (\<lambda>r4.
             if r1 < 0 \<or> r2 < 0 \<or> r3 < 0 \<or> r4 < 0 then gen_ercd_sys else Done E_OK)))))))
      (\<lambda>ercd. svc_sys Ena_dsp (Done ercd))))"

definition serial_ctl_por :: "int \<Rightarrow> int \<Rightarrow> 32 word \<Rightarrow> ER act" where
  "serial_ctl_por tnum_port portid ioc =
    port_checks id tnum_port portid (opened id (Upd (\<lambda>p. p\<lparr>ioctl := ioc\<rparr>) (Done E_OK)))"

definition serial_ref_por :: "int \<Rightarrow> int \<Rightarrow> (ER \<times> T_SERIAL_RPOR option) act" where
  "serial_ref_por tnum_port portid =
    port_checks (\<lambda>ercd. (ercd, None)) tnum_port portid (opened (\<lambda>ercd. (ercd, None))
      (Look (\<lambda>p. Look (\<lambda>q. Done (E_OK, Some \<lparr>rpor_reacnt = rcv_count p, rpor_wricnt = snd_count q\<rparr>)))))"

section \<open>The callbacks of the device\<close>

text \<open>The semaphores of a port have at most one resource (\<^verbatim>\<open>syssvc/serial.cfg\<close>).\<close>

definition port_isig_sem :: "semid \<Rightarrow> (semid \<Rightarrow> nat) \<Rightarrow> ER \<times> (semid \<Rightarrow> nat)" where
  "port_isig_sem s sem = (if sem s < 1 then (E_OK, sem(s := sem s + 1)) else (E_QOVR, sem))"

text \<open>The callbacks signal a semaphore and record a failure.\<close>

definition signal_port :: "semid \<Rightarrow> SPCB \<times> (semid \<Rightarrow> nat) \<Rightarrow> SPCB \<times> (semid \<Rightarrow> nat)" where
  "signal_port s q =
    (let (p, sem) = q; (r, sem) = port_isig_sem s sem in (if r < 0 then p\<lparr>errorflag := True\<rparr> else p, sem))"

definition sent_chr :: "SPCB \<times> (semid \<Rightarrow> nat) \<Rightarrow> SPCB \<times> (semid \<Rightarrow> nat)" where
  "sent_chr q =
    (let (p, sem) = q;
         p = p\<lparr>snd_read_ptr := INC_PTR (snd_read_ptr p) (snd_bufsz p)\<rparr>;
         (p, sem) = (if snd_count p = snd_bufsz p then signal_port Snd_sem (p, sem) else (p, sem))
     in (p\<lparr>snd_count := dec_u (snd_count p)\<rparr>, sem))"

definition sio_irdy_snd :: "bool \<Rightarrow> SPCB \<times> (semid \<Rightarrow> nat) \<Rightarrow> SPCB \<times> (semid \<Rightarrow> nat)" where
  "sio_irdy_snd rdy q =
    (let (p, sem) = q in
     if rcv_fc_chr p \<noteq> NUL then ((sio_snd_chr rdy (rcv_fc_chr p) p)\<lparr>rcv_fc_chr := NUL\<rparr>, sem)
     else if \<not> snd_stopped p \<and> snd_count p > 0
     then sent_chr (sio_snd_chr rdy (snd_buffer p (snd_read_ptr p)) p, sem)
     else (sio_set_cbr SIO_RDY_SND False p, sem))"

definition put_rcv :: "char \<Rightarrow> SPCB \<times> (semid \<Rightarrow> nat) \<Rightarrow> SPCB \<times> (semid \<Rightarrow> nat)" where
  "put_rcv c q =
    (let (p, sem) = q;
         p = p\<lparr>rcv_log := rcv_log p @ [c]\<rparr>;
         p = p\<lparr>rcv_buffer := (rcv_buffer p)(rcv_write_ptr p := c)\<rparr>;
         p = p\<lparr>rcv_write_ptr := INC_PTR (rcv_write_ptr p) (rcv_bufsz p)\<rparr>;
         (p, sem) = (if rcv_count p = 0 then signal_port Rcv_sem (p, sem) else (p, sem))
     in (p\<lparr>rcv_count := inc_u (rcv_count p)\<rparr>, sem))"

definition send_stop :: "bool \<Rightarrow> SPCB \<Rightarrow> SPCB" where
  "send_stop rdy p =
    (if ioctl p AND IOCTL_FCRCV \<noteq> 0 \<and> \<not> rcv_stopped p \<and> rcv_count p \<ge> BUFCNT_STOP (rcv_bufsz p)
     then (let (sent, p) = serial_snd_chr rdy FC_STOP p;
               p = (if sent then p else p\<lparr>rcv_fc_chr := FC_STOP\<rparr>)
           in p\<lparr>rcv_stopped := True\<rparr>)
     else p)"

definition sio_irdy_rcv :: "bool \<Rightarrow> char \<Rightarrow> SPCB \<times> (semid \<Rightarrow> nat) \<Rightarrow> SPCB \<times> (semid \<Rightarrow> nat)" where
  "sio_irdy_rcv rdy c q =
    (let (p, sem) = q in
     if ioctl p AND IOCTL_FCSND \<noteq> 0 \<and> c = FC_STOP then (p\<lparr>snd_stopped := True\<rparr>, sem)
     else if snd_stopped p \<and> (c = FC_START \<or> ioctl p AND IOCTL_FCANY \<noteq> 0)
     then (let p = p\<lparr>snd_stopped := False\<rparr>
           in if snd_count p > 0
              then (let (sent, p) = serial_snd_chr rdy (snd_buffer p (snd_read_ptr p)) p
                    in if sent then sent_chr (p, sem) else (p, sem))
              else (p, sem))
     else if ioctl p AND IOCTL_FCSND \<noteq> 0 \<and> c = FC_START then (p, sem)
     else if rcv_count p = rcv_bufsz p then (p, sem)
     else (let (p, sem) = put_rcv c (p, sem) in (send_stop rdy p, sem)))"

text \<open>The characters not sent yet, taken out one by one when the kernel ends.\<close>

definition serial_get_chr :: "int \<Rightarrow> int \<Rightarrow> SPCB \<Rightarrow> char option \<times> SPCB" where
  "serial_get_chr tnum_port portid p =
    (if 1 \<le> portid \<and> portid \<le> tnum_port \<and> openflag p \<and> snd_count p > 0
     then (Some (snd_buffer p (snd_read_ptr p)),
           p\<lparr>snd_read_ptr := INC_PTR (snd_read_ptr p) (snd_bufsz p), snd_count := dec_u (snd_count p)\<rparr>)
     else (None, p))"

section \<open>The steps of a port\<close>

text \<open>
  Any number of tasks write, read and control an open port, with settings in \<open>I\<close>. \<open>reply\<close> says which errors the
  kernel may return for a call; a wait that the kernel ends with an error, such as \<open>E_RLWAI\<close>, takes no resource.
\<close>

record serial =
  port :: SPCB
  sem :: "semid \<Rightarrow> nat"
  tasks :: "nat \<Rightarrow> (ER \<times> string) act"

definition calls :: "(32 word \<Rightarrow> bool) \<Rightarrow> (ER \<times> string) act set" where
  "calls I = {bind_act (serial_wri_dat n i buf) (\<lambda>r. Done (r, [])) | n i buf. True} \<union>
    {serial_rea_dat n i len | n i len. True} \<union>
    {bind_act (serial_ctl_por n i ioc) (\<lambda>r. Done (r, [])) | n i ioc. I ioc}"

inductive serial_step :: "(svc \<Rightarrow> ER \<Rightarrow> bool) \<Rightarrow> (ER \<times> string) act set \<Rightarrow> serial \<Rightarrow> serial \<Rightarrow> bool"
  for reply :: "svc \<Rightarrow> ER \<Rightarrow> bool" and C :: "(ER \<times> string) act set" where
  call: "tasks s t = Done x \<Longrightarrow> q \<in> C \<Longrightarrow> serial_step reply C s (s\<lparr>tasks := (tasks s)(t := q)\<rparr>)"
| wait: "tasks s t = Svc (Wai_sem m) k \<Longrightarrow> sem s m > 0 \<Longrightarrow>
    serial_step reply C s (s\<lparr>sem := (sem s)(m := sem s m - 1), tasks := (tasks s)(t := k E_OK)\<rparr>)"
| signal: "tasks s t = Svc (Sig_sem m) k \<Longrightarrow> port_isig_sem m (sem s) = (r, ms) \<Longrightarrow>
    serial_step reply C s (s\<lparr>sem := ms, tasks := (tasks s)(t := k r)\<rparr>)"
| service: "tasks s t = Svc c k \<Longrightarrow> c \<in> {Sns_dpn, Dis_dsp, Ena_dsp, Loc_cpu, Unl_cpu} \<Longrightarrow>
    serial_step reply C s (s\<lparr>tasks := (tasks s)(t := k E_OK)\<rparr>)"
| failure: "tasks s t = Svc c k \<Longrightarrow> reply c r \<Longrightarrow> r < 0 \<or> c = Sns_dpn \<Longrightarrow>
    serial_step reply C s (s\<lparr>tasks := (tasks s)(t := k r)\<rparr>)"
| look: "tasks s t = Look k \<Longrightarrow> serial_step reply C s (s\<lparr>tasks := (tasks s)(t := k (port s))\<rparr>)"
| upd: "tasks s t = Upd u k \<Longrightarrow> serial_step reply C s (s\<lparr>port := u (port s), tasks := (tasks s)(t := k)\<rparr>)"
| wri: "tasks s t = Wri c k \<Longrightarrow> wri_region rdy c (port s) = (b, p) \<Longrightarrow>
    serial_step reply C s (s\<lparr>port := p, tasks := (tasks s)(t := k b)\<rparr>)"
| rea: "tasks s t = Rea k \<Longrightarrow> rea_region rdy (port s) = (c, b, p) \<Longrightarrow>
    serial_step reply C s (s\<lparr>port := p, tasks := (tasks s)(t := k (c, b))\<rparr>)"
| irdy_snd: "sio_cbr (p_siopcb (port s)) SIO_RDY_SND \<Longrightarrow> sio_irdy_snd True (port s, sem s) = (p, ms) \<Longrightarrow>
    serial_step reply C s (s\<lparr>port := p, sem := ms\<rparr>)"
| irdy_rcv: "sio_cbr (p_siopcb (port s)) SIO_RDY_RCV \<Longrightarrow> sio_irdy_rcv rdy c (port s, sem s) = (p, ms) \<Longrightarrow>
    serial_step reply C s (s\<lparr>port := p, sem := ms\<rparr>)"

section \<open>The buffers\<close>

definition snd_data :: "SPCB \<Rightarrow> string" where
  "snd_data p = ring_list (snd_buffer p) (snd_bufsz p) (snd_read_ptr p) (snd_count p)"

definition rcv_data :: "SPCB \<Rightarrow> string" where
  "rcv_data p = ring_list (rcv_buffer p) (rcv_bufsz p) (rcv_read_ptr p) (rcv_count p)"

text \<open>The characters that went out are the accepted ones not in the buffer any more, mixed with START and STOP.\<close>

definition snd_ok :: "SPCB \<Rightarrow> bool" where
  "snd_ok p \<longleftrightarrow>
    0 < snd_bufsz p \<and> snd_bufsz p < 2 ^ 32 \<and> snd_read_ptr p < snd_bufsz p \<and> snd_count p \<le> snd_bufsz p \<and>
    snd_write_ptr p = (snd_read_ptr p + snd_count p) mod snd_bufsz p \<and> rcv_fc_chr p \<in> {NUL, FC_STOP, FC_START} \<and>
    (\<exists>xs fcs. sio_out (p_siopcb p) \<in> shuffles xs fcs \<and> set fcs \<subseteq> {FC_STOP, FC_START} \<and> wri_log p = xs @ snd_data p)"

definition rcv_ok :: "SPCB \<Rightarrow> bool" where
  "rcv_ok p \<longleftrightarrow>
    0 < rcv_bufsz p \<and> rcv_bufsz p < 2 ^ 32 \<and> rcv_read_ptr p < rcv_bufsz p \<and> rcv_count p \<le> rcv_bufsz p \<and>
    rcv_write_ptr p = (rcv_read_ptr p + rcv_count p) mod rcv_bufsz p \<and> rcv_log p = rea_log p @ rcv_data p"

lemma inc_u_less: "n < m \<Longrightarrow> m < 2 ^ 32 \<Longrightarrow> inc_u n = n + 1"
  by (simp add: inc_u_def)

lemma dec_u_pos: "0 < n \<Longrightarrow> dec_u n = n - 1"
  by (simp add: dec_u_def)

lemma INC_PTR_mod: "i < n \<Longrightarrow> n < 2 ^ 32 \<Longrightarrow> INC_PTR i n = (i + 1) mod n"
  using wrap_index[of i n] by (auto simp: INC_PTR_def inc_u_less)

lemma shuffles_single: "ys @ [c] \<in> shuffles [c] ys"
  by (induction ys) (auto simp: Cons_in_shuffles_iff)

lemma shuffles_snoc:
  "zs \<in> shuffles xs ys \<Longrightarrow> zs @ [c] \<in> shuffles (xs @ [c]) ys"
  "zs \<in> shuffles xs ys \<Longrightarrow> zs @ [c] \<in> shuffles xs (ys @ [c])"
  using shuffles_single[of _ c] shuffles_commutes[of _ "[c]"]
  by (induction xs ys arbitrary: zs rule: shuffles.induct) (auto simp: Cons_in_shuffles_iff)

text \<open>What leaves the sending side alone.\<close>

lemma snd_ok_cong:
  assumes "snd_bufsz q = snd_bufsz p" "snd_buffer q = snd_buffer p" "snd_read_ptr q = snd_read_ptr p"
    "snd_write_ptr q = snd_write_ptr p" "snd_count q = snd_count p" "wri_log q = wri_log p"
    "sio_out (p_siopcb q) = sio_out (p_siopcb p)" "rcv_fc_chr q \<in> {NUL, FC_STOP, FC_START}" "snd_ok p"
  shows "snd_ok q"
  using assms unfolding snd_ok_def snd_data_def by simp

lemma rcv_ok_cong:
  assumes "rcv_bufsz q = rcv_bufsz p" "rcv_buffer q = rcv_buffer p" "rcv_read_ptr q = rcv_read_ptr p"
    "rcv_write_ptr q = rcv_write_ptr p" "rcv_count q = rcv_count p" "rcv_log q = rcv_log p" "rea_log q = rea_log p" "rcv_ok p"
  shows "rcv_ok q"
  using assms unfolding rcv_ok_def rcv_data_def by simp

text \<open>A flow control character goes out, or waits.\<close>

lemma snd_ok_fc:
  assumes "snd_ok p" and "fc \<in> {FC_STOP, FC_START}" and "serial_snd_chr rdy fc p = (b, q)"
  shows "snd_ok (if b then q else q\<lparr>rcv_fc_chr := fc\<rparr>)"
proof -
  obtain xs fcs where x: "sio_out (p_siopcb p) \<in> shuffles xs fcs" "set fcs \<subseteq> {FC_STOP, FC_START}" "wri_log p = xs @ snd_data p"
    using assms(1) by (auto simp: snd_ok_def)
  have "sio_out (p_siopcb p) @ [fc] \<in> shuffles xs (fcs @ [fc])" "set (fcs @ [fc]) \<subseteq> {FC_STOP, FC_START}"
    using shuffles_snoc(2)[OF x(1)] x(2) assms(2) by simp_all
  then have "\<exists>xs fcs. sio_out (p_siopcb p) @ [fc] \<in> shuffles xs fcs \<and> set fcs \<subseteq> {FC_STOP, FC_START} \<and> wri_log p = xs @ snd_data p"
    using x(3) by blast
  then show ?thesis
    using assms by (auto simp: serial_snd_chr_def sio_snd_chr_def sio_set_cbr_def Let_def snd_ok_def snd_data_def split: if_splits)
qed

text \<open>The first character of the buffer goes out.\<close>

definition drop_snd :: "SPCB \<Rightarrow> SPCB" where
  "drop_snd p = p\<lparr>snd_read_ptr := INC_PTR (snd_read_ptr p) (snd_bufsz p), snd_count := dec_u (snd_count p)\<rparr>"

lemma snd_ok_send:
  assumes "snd_ok p" and "0 < snd_count p"
  shows "snd_ok (drop_snd (sio_snd_chr True (snd_buffer p (snd_read_ptr p)) p))"
    and "snd_data (drop_snd (sio_snd_chr True c p)) = tl (snd_data p)"
proof -
  let ?c = "snd_buffer p (snd_read_ptr p)"
  have b: "snd_read_ptr p < snd_bufsz p" "snd_bufsz p < 2 ^ 32" "snd_count p \<le> snd_bufsz p" using assms(1) by (simp_all add: snd_ok_def)
  note m = INC_PTR_mod[OF b(1,2)]
  have r: "snd_data p = ?c # snd_data (drop_snd p)"
    using ring_pop[OF assms(2) b(1) m] by (simp add: snd_data_def drop_snd_def dec_u_pos assms(2))
  obtain xs fcs where x: "sio_out (p_siopcb p) \<in> shuffles xs fcs" "set fcs \<subseteq> {FC_STOP, FC_START}" "wri_log p = xs @ snd_data p"
    using assms(1) by (auto simp: snd_ok_def)
  have "wri_log p = (xs @ [?c]) @ snd_data (drop_snd p)" using x(3) r by simp
  then have e: "\<exists>xs fcs. sio_out (p_siopcb p) @ [?c] \<in> shuffles xs fcs \<and> set fcs \<subseteq> {FC_STOP, FC_START} \<and>
      wri_log p = xs @ snd_data (drop_snd p)"
    using shuffles_snoc(1)[OF x(1)] x(2) by blast
  have d: "snd_data (drop_snd (sio_snd_chr True c p)) = snd_data (drop_snd p)" for c
    by (simp add: snd_data_def drop_snd_def sio_snd_chr_def)
  then show "snd_data (drop_snd (sio_snd_chr True c p)) = tl (snd_data p)" using r by simp
  show "snd_ok (drop_snd (sio_snd_chr True ?c p))"
    using assms b e d[of ?c] mod_back[OF assms(2), of "snd_read_ptr p" "snd_bufsz p"] unfolding snd_ok_def
    by (simp add: drop_snd_def sio_snd_chr_def m dec_u_pos)
qed

text \<open>The regions with the CPU locked.\<close>

lemma wri_region_ok:
  assumes "snd_ok p" and "snd_count p < snd_bufsz p" and "wri_region rdy c p = (b, q)"
  shows "snd_ok q" and "b \<longleftrightarrow> snd_count q = snd_bufsz q" and "wri_log q = wri_log p @ [c]"
proof -
  let ?d = "snd_count p = 0 \<and> \<not> snd_stopped p \<and> rdy"
  have b: "snd_read_ptr p < snd_bufsz p" "snd_bufsz p < 2 ^ 32" "snd_write_ptr p = (snd_read_ptr p + snd_count p) mod snd_bufsz p"
    using assms(1) by (simp_all add: snd_ok_def)
  have m: "INC_PTR (snd_write_ptr p) (snd_bufsz p) = (snd_read_ptr p + (snd_count p + 1)) mod snd_bufsz p"
    using INC_PTR_mod[of "snd_write_ptr p", OF _ b(2)] b by (simp add: mod_Suc_eq)
  obtain xs fcs where x: "sio_out (p_siopcb p) \<in> shuffles xs fcs" "set fcs \<subseteq> {FC_STOP, FC_START}" "wri_log p = xs @ snd_data p"
    using assms(1) by (auto simp: snd_ok_def)
  note i = inc_u_less[OF assms(2) b(2)]
  have q: "?d \<Longrightarrow> b = False \<and> q = (sio_snd_chr True c p)\<lparr>wri_log := wri_log p @ [c]\<rparr>"
    "\<not> ?d \<Longrightarrow> b = (snd_count p + 1 = snd_bufsz p) \<and> snd_bufsz q = snd_bufsz p \<and> snd_read_ptr q = snd_read_ptr p \<and>
      snd_buffer q = (snd_buffer p)(snd_write_ptr p := c) \<and> snd_count q = snd_count p + 1 \<and> rcv_fc_chr q = rcv_fc_chr p \<and>
      snd_write_ptr q = (snd_read_ptr p + (snd_count p + 1)) mod snd_bufsz p \<and> wri_log q = wri_log p @ [c] \<and>
      sio_out (p_siopcb q) = sio_out (p_siopcb p)"
    using assms(3) i m by (auto simp: wri_region_def serial_snd_chr_def sio_snd_chr_def sio_set_cbr_def Let_def split: if_splits)
  have "snd_ok q \<and> (b \<longleftrightarrow> snd_count q = snd_bufsz q) \<and> wri_log q = wri_log p @ [c]"
  proof (cases ?d)
    case True
    then have "wri_log p @ [c] = (xs @ [c]) @ snd_data p" using x(3) by (simp add: snd_data_def)
    then have "\<exists>ys fcs. sio_out (p_siopcb p) @ [c] \<in> shuffles ys fcs \<and> set fcs \<subseteq> {FC_STOP, FC_START} \<and> wri_log p @ [c] = ys @ snd_data p"
      using shuffles_snoc(1)[OF x(1)] x(2) by blast
    then show ?thesis using q(1)[OF True] assms(1,2) True by (simp add: snd_ok_def snd_data_def sio_snd_chr_def)
  next
    case False
    note q' = q(2)[OF False]
    have "snd_data q = snd_data p @ [c]" using ring_push[OF assms(2) b(3)] q' by (simp add: snd_data_def)
    then have "wri_log q = xs @ snd_data q" using x(3) q' by simp
    then show ?thesis using q' assms(1,2) x(1,2) unfolding snd_ok_def by auto
  qed
  then show "snd_ok q" and "b \<longleftrightarrow> snd_count q = snd_bufsz q" and "wri_log q = wri_log p @ [c]" by blast+
qed

definition port_ok :: "SPCB \<Rightarrow> bool" where "port_ok p \<longleftrightarrow> snd_ok p \<and> rcv_ok p"

definition snd_full :: "SPCB \<Rightarrow> nat" where "snd_full p = (if snd_count p = snd_bufsz p then 1 else 0)"
definition rcv_empty :: "SPCB \<Rightarrow> nat" where "rcv_empty p = (if rcv_count p = 0 then 1 else 0)"

text \<open>What the sending of a flow control character leaves alone.\<close>

lemma serial_snd_chr_same:
  assumes "serial_snd_chr rdy c p = (b, q)"
  shows "snd_bufsz q = snd_bufsz p \<and> snd_buffer q = snd_buffer p \<and> snd_read_ptr q = snd_read_ptr p \<and>
    snd_write_ptr q = snd_write_ptr p \<and> snd_count q = snd_count p \<and> wri_log q = wri_log p \<and> rcv_fc_chr q = rcv_fc_chr p \<and>
    rcv_bufsz q = rcv_bufsz p \<and> rcv_buffer q = rcv_buffer p \<and> rcv_read_ptr q = rcv_read_ptr p \<and>
    rcv_write_ptr q = rcv_write_ptr p \<and> rcv_count q = rcv_count p \<and> rcv_log q = rcv_log p \<and> rea_log q = rea_log p \<and>
    ioctl q = ioctl p \<and> snd_stopped q = snd_stopped p \<and> b = rdy"
  using assms by (auto simp: serial_snd_chr_def sio_snd_chr_def sio_set_cbr_def Let_def split: if_splits)

definition flow_chr :: "bool \<Rightarrow> char \<Rightarrow> bool \<Rightarrow> SPCB \<Rightarrow> SPCB" where
  "flow_chr rdy fc st p =
    (let (sent, p) = serial_snd_chr rdy fc p; p = (if sent then p else p\<lparr>rcv_fc_chr := fc\<rparr>) in p\<lparr>rcv_stopped := st\<rparr>)"

lemma flow_chr_ok:
  assumes "q = flow_chr rdy fc st p"
  shows "snd_ok p \<Longrightarrow> fc \<in> {FC_STOP, FC_START} \<Longrightarrow> snd_ok q" and "rcv_ok p \<Longrightarrow> rcv_ok q"
    and "snd_full q = snd_full p \<and> rcv_empty q = rcv_empty p \<and> snd_data q = snd_data p \<and> rcv_data q = rcv_data p \<and>
      ioctl q = ioctl p \<and> wri_log q = wri_log p \<and> rcv_log q = rcv_log p \<and> rea_log q = rea_log p"
proof -
  obtain b u where u: "serial_snd_chr rdy fc p = (b, u)" by (metis surj_pair)
  define v where "v = (if b then u else u\<lparr>rcv_fc_chr := fc\<rparr>)"
  note n = serial_snd_chr_same[OF u]
  have q: "q = v\<lparr>rcv_stopped := st\<rparr>" using assms by (simp add: flow_chr_def u v_def)
  show "snd_ok p \<Longrightarrow> fc \<in> {FC_STOP, FC_START} \<Longrightarrow> snd_ok q"
  proof -
    assume a: "snd_ok p" "fc \<in> {FC_STOP, FC_START}"
    have v: "snd_ok v" using snd_ok_fc[OF a u] by (simp add: v_def)
    then have "rcv_fc_chr v \<in> {NUL, FC_STOP, FC_START}" by (simp add: snd_ok_def)
    then show "snd_ok q" using snd_ok_cong[OF _ _ _ _ _ _ _ _ v, of q] by (simp add: q)
  qed
  show "rcv_ok p \<Longrightarrow> rcv_ok q" by (rule rcv_ok_cong[of q p]) (use n in \<open>simp_all add: q v_def\<close>)
  show "snd_full q = snd_full p \<and> rcv_empty q = rcv_empty p \<and> snd_data q = snd_data p \<and> rcv_data q = rcv_data p \<and>
      ioctl q = ioctl p \<and> wri_log q = wri_log p \<and> rcv_log q = rcv_log p \<and> rea_log q = rea_log p"
    using n by (auto simp: q v_def snd_full_def rcv_empty_def snd_data_def rcv_data_def)
qed

text \<open>The first character of the receive buffer is taken.\<close>

definition drop_rcv :: "SPCB \<Rightarrow> SPCB" where
  "drop_rcv p =
    p\<lparr>rea_log := rea_log p @ [rcv_buffer p (rcv_read_ptr p)], rcv_read_ptr := INC_PTR (rcv_read_ptr p) (rcv_bufsz p),
      rcv_count := dec_u (rcv_count p)\<rparr>"

lemma drop_rcv_ok:
  assumes "rcv_ok p" and "0 < rcv_count p"
  shows "rcv_ok (drop_rcv p)"
proof -
  have b: "rcv_read_ptr p < rcv_bufsz p" "rcv_bufsz p < 2 ^ 32" using assms(1) by (simp_all add: rcv_ok_def)
  note m = INC_PTR_mod[OF b]
  have "rcv_data p = rcv_buffer p (rcv_read_ptr p) # rcv_data (drop_rcv p)"
    using ring_pop[OF assms(2) b(1) m] by (simp add: rcv_data_def drop_rcv_def dec_u_pos assms(2))
  moreover have "rcv_count p - 1 \<le> rcv_bufsz p" using assms(1) by (auto simp: rcv_ok_def)
  ultimately show ?thesis
    using assms b mod_back[OF assms(2), of "rcv_read_ptr p" "rcv_bufsz p"] unfolding rcv_ok_def
    by (simp add: drop_rcv_def m dec_u_pos)
qed

lemma rea_region_ok:
  assumes "port_ok p" and "0 < rcv_count p" and "rea_region rdy p = (c, b, q)"
  shows "port_ok q" and "b \<longleftrightarrow> rcv_count q = 0" and "snd_full q = snd_full p" and "ioctl q = ioctl p"
    and "rea_log q = rea_log p @ [c] \<and> wri_log q = wri_log p"
proof -
  define u where "u = drop_rcv p"
  let ?f = "rcv_stopped u \<and> rcv_count u \<le> BUFCNT_START (rcv_bufsz u)"
  have q: "q = (if ?f then flow_chr rdy FC_START False u else u)" "b \<longleftrightarrow> rcv_count u = 0" "c = rcv_buffer p (rcv_read_ptr p)"
    using assms(3) by (auto simp: rea_region_def Let_def flow_chr_def u_def drop_rcv_def)
  have u: "snd_ok u" "rcv_ok u" "snd_full u = snd_full p" "ioctl u = ioctl p" "rea_log u = rea_log p @ [c] \<and> wri_log u = wri_log p"
    using assms(1) drop_rcv_ok[OF _ assms(2)] snd_ok_cong[of u p]
    by (auto simp: port_ok_def u_def drop_rcv_def snd_full_def snd_ok_def q(3))
  note f = flow_chr_ok[of "flow_chr rdy FC_START False u" rdy FC_START False u]
  have f': "snd_ok (flow_chr rdy FC_START False u)" "rcv_ok (flow_chr rdy FC_START False u)" using f(1,2) u by simp_all
  have e: "rcv_count (flow_chr rdy FC_START False u) = 0 \<longleftrightarrow> rcv_count u = 0"
    using f(3) by (simp add: rcv_empty_def split: if_splits)
  show "port_ok q" using f' u q(1) by (simp add: port_ok_def)
  show "b \<longleftrightarrow> rcv_count q = 0" using q e by simp
  show "snd_full q = snd_full p" "ioctl q = ioctl p" "rea_log q = rea_log p @ [c] \<and> wri_log q = wri_log p"
    using f(3) u q(1) by simp_all
qed

text \<open>The callbacks keep the buffers, and signal exactly when a full buffer gets room or an empty one a character.\<close>

lemma sent_chr_ok:
  assumes "snd_ok p" and "0 < snd_count p" and "snd_full p = 1 \<Longrightarrow> ms Snd_sem = 0"
    and "sent_chr (sio_snd_chr True (snd_buffer p (snd_read_ptr p)) p, ms) = (q, ns)"
  shows "q = drop_snd (sio_snd_chr True (snd_buffer p (snd_read_ptr p)) p)" and "snd_ok q"
    and "ns Snd_sem + snd_full q = ms Snd_sem + snd_full p" and "ns Rcv_sem = ms Rcv_sem"
proof -
  let ?u = "sio_snd_chr True (snd_buffer p (snd_read_ptr p)) p"
  show q: "q = drop_snd ?u"
    using assms(3,4) by (auto simp: sent_chr_def sio_snd_chr_def signal_port_def port_isig_sem_def drop_snd_def Let_def snd_full_def split: if_splits)
  show "snd_ok q" using snd_ok_send(1)[OF assms(1,2)] by (simp add: q)
  have f: "snd_full q = 0" using assms(1,2) unfolding q by (auto simp: drop_snd_def sio_snd_chr_def snd_full_def snd_ok_def dec_u_pos)
  have "ns = (if snd_count p = snd_bufsz p then ms(Snd_sem := ms Snd_sem + 1) else ms)"
    using assms(3,4) by (auto simp: sent_chr_def sio_snd_chr_def signal_port_def port_isig_sem_def Let_def snd_full_def split: if_splits)
  then show "ns Snd_sem + snd_full q = ms Snd_sem + snd_full p" and "ns Rcv_sem = ms Rcv_sem"
    using f by (auto simp: snd_full_def)
qed

lemma drop_snd_rcv:
  "rcv_ok (drop_snd (sio_snd_chr b c p)) \<longleftrightarrow> rcv_ok p" "rcv_empty (drop_snd (sio_snd_chr b c p)) = rcv_empty p"
  "ioctl (drop_snd (sio_snd_chr b c p)) = ioctl p"
  by (simp_all add: drop_snd_def sio_snd_chr_def rcv_ok_def rcv_data_def rcv_empty_def)

lemma fc_sent_ok:
  assumes "snd_ok p" and "rcv_fc_chr p \<noteq> NUL" and "q = (sio_snd_chr True (rcv_fc_chr p) p)\<lparr>rcv_fc_chr := NUL\<rparr>"
  shows "snd_ok q"
proof -
  have f: "rcv_fc_chr p \<in> {FC_STOP, FC_START}" using assms(1,2) by (auto simp: snd_ok_def)
  have "snd_ok (sio_snd_chr True (rcv_fc_chr p) p)"
    using snd_ok_fc[OF assms(1) f, of True True "sio_snd_chr True (rcv_fc_chr p) p"] by (simp add: serial_snd_chr_def)
  then show ?thesis by (rule snd_ok_cong[rotated -1]) (simp_all add: assms(3))
qed

lemma sio_irdy_snd_ok:
  assumes "port_ok p" and "snd_full p = 1 \<Longrightarrow> ms Snd_sem = 0" and "sio_irdy_snd True (p, ms) = (q, ns)"
  shows "port_ok q" and "ns Snd_sem + snd_full q = ms Snd_sem + snd_full p" and "ns Rcv_sem + rcv_empty q = ms Rcv_sem + rcv_empty p"
    and "ioctl q = ioctl p"
proof -
  have o: "snd_ok p" "rcv_ok p" using assms(1) by (simp_all add: port_ok_def)
  consider (fc) "rcv_fc_chr p \<noteq> NUL" "q = (sio_snd_chr True (rcv_fc_chr p) p)\<lparr>rcv_fc_chr := NUL\<rparr>" "ns = ms"
    | (data) "0 < snd_count p" "sent_chr (sio_snd_chr True (snd_buffer p (snd_read_ptr p)) p, ms) = (q, ns)"
    | (off) "q = sio_set_cbr SIO_RDY_SND False p" "ns = ms"
    using assms(3) by (auto simp: sio_irdy_snd_def split: if_splits)
  then have "port_ok q \<and> ns Snd_sem + snd_full q = ms Snd_sem + snd_full p \<and> ns Rcv_sem + rcv_empty q = ms Rcv_sem + rcv_empty p \<and>
    ioctl q = ioctl p"
  proof cases
    case fc
    then show ?thesis using fc_sent_ok[OF o(1) fc(1,2)] o(2)
      by (simp add: port_ok_def snd_full_def rcv_empty_def sio_snd_chr_def rcv_ok_def rcv_data_def)
  next
    case data
    note d = sent_chr_ok[OF o(1) data(1) assms(2) data(2)]
    show ?thesis using d(2-4) o(2) by (simp add: port_ok_def drop_snd_rcv d(1))
  next
    case off
    then show ?thesis using o
      by (simp add: port_ok_def snd_full_def rcv_empty_def sio_set_cbr_def rcv_ok_def rcv_data_def snd_ok_def snd_data_def)
  qed
  then show "port_ok q" and "ns Snd_sem + snd_full q = ms Snd_sem + snd_full p" and "ns Rcv_sem + rcv_empty q = ms Rcv_sem + rcv_empty p"
    and "ioctl q = ioctl p" by blast+
qed

lemma put_rcv_ok:
  assumes "rcv_ok p" and "rcv_count p < rcv_bufsz p" and "rcv_empty p = 1 \<Longrightarrow> ms Rcv_sem = 0"
    and "put_rcv c (p, ms) = (q, ns)"
  shows "rcv_ok q" and "snd_ok q \<longleftrightarrow> snd_ok p" and "ns Rcv_sem + rcv_empty q = ms Rcv_sem + rcv_empty p"
    and "ns Snd_sem = ms Snd_sem" and "snd_full q = snd_full p" and "ioctl q = ioctl p" and "rcv_log q = rcv_log p @ [c]"
proof -
  have b: "rcv_bufsz p < 2 ^ 32" "rcv_write_ptr p < rcv_bufsz p" "rcv_write_ptr p = (rcv_read_ptr p + rcv_count p) mod rcv_bufsz p"
    using assms(1) by (simp_all add: rcv_ok_def)
  have m: "INC_PTR (rcv_write_ptr p) (rcv_bufsz p) = (rcv_read_ptr p + (rcv_count p + 1)) mod rcv_bufsz p"
    using INC_PTR_mod[OF b(2,1)] b(3) by (simp add: mod_Suc_eq)
  have q: "q = p\<lparr>rcv_log := rcv_log p @ [c], rcv_buffer := (rcv_buffer p)(rcv_write_ptr p := c),
      rcv_write_ptr := (rcv_read_ptr p + (rcv_count p + 1)) mod rcv_bufsz p, rcv_count := rcv_count p + 1\<rparr>"
    and n: "ns = (if rcv_count p = 0 then ms(Rcv_sem := ms Rcv_sem + 1) else ms)"
    using assms(3,4) m inc_u_less[OF assms(2) b(1)]
    by (auto simp: put_rcv_def signal_port_def port_isig_sem_def Let_def rcv_empty_def split: if_splits)
  have d: "rcv_data q = rcv_data p @ [c]" using ring_push[OF assms(2) b(3)] by (simp add: rcv_data_def q)
  show "rcv_ok q" using assms(1,2) d by (auto simp: rcv_ok_def q)
  show "snd_ok q \<longleftrightarrow> snd_ok p" by (simp add: snd_ok_def snd_data_def q)
  show "ns Rcv_sem + rcv_empty q = ms Rcv_sem + rcv_empty p" "ns Snd_sem = ms Snd_sem"
    using n by (auto simp: rcv_empty_def q)
  show "snd_full q = snd_full p" "ioctl q = ioctl p" "rcv_log q = rcv_log p @ [c]" by (simp_all add: snd_full_def q)
qed

lemma send_stop_flow:
  "send_stop rdy p =
    (if ioctl p AND IOCTL_FCRCV \<noteq> 0 \<and> \<not> rcv_stopped p \<and> rcv_count p \<ge> BUFCNT_STOP (rcv_bufsz p)
     then flow_chr rdy FC_STOP True p else p)"
  by (simp add: send_stop_def flow_chr_def)

text \<open>Sending is resumed: the first character of the buffer goes out, or the callback will send it.\<close>

lemma resume_ok:
  assumes "snd_ok p" and "0 < snd_count p" and "snd_full p = 1 \<Longrightarrow> ms Snd_sem = 0"
    and "serial_snd_chr rdy (snd_buffer p (snd_read_ptr p)) p = (b, u)"
    and "(q, ns) = (if b then sent_chr (u, ms) else (u, ms))"
  shows "snd_ok q \<and> ns Snd_sem + snd_full q = ms Snd_sem + snd_full p \<and> ns Rcv_sem = ms Rcv_sem \<and>
    (rcv_ok q \<longleftrightarrow> rcv_ok p) \<and> rcv_empty q = rcv_empty p \<and> ioctl q = ioctl p"
proof (cases b)
  case True
  then have u: "u = sio_snd_chr True (snd_buffer p (snd_read_ptr p)) p"
    using assms(4) by (auto simp: serial_snd_chr_def Let_def split: if_splits)
  have s: "sent_chr (sio_snd_chr True (snd_buffer p (snd_read_ptr p)) p, ms) = (q, ns)" using assms(5) True u by simp
  note d = sent_chr_ok[OF assms(1-3) s]
  show ?thesis using d(2-4) by (simp add: d(1) drop_snd_rcv)
next
  case False
  then have "q = sio_set_cbr SIO_RDY_SND True p" "ns = ms"
    using assms(4,5) by (auto simp: serial_snd_chr_def sio_snd_chr_def Let_def split: if_splits)
  then show ?thesis using assms(1)
    by (simp add: sio_set_cbr_def snd_ok_def snd_data_def snd_full_def rcv_ok_def rcv_data_def rcv_empty_def)
qed

lemma sio_irdy_rcv_ok:
  assumes "port_ok p" and "snd_full p = 1 \<Longrightarrow> ms Snd_sem = 0" and "rcv_empty p = 1 \<Longrightarrow> ms Rcv_sem = 0"
    and "sio_irdy_rcv rdy c (p, ms) = (q, ns)"
  shows "port_ok q" and "ns Snd_sem + snd_full q = ms Snd_sem + snd_full p" and "ns Rcv_sem + rcv_empty q = ms Rcv_sem + rcv_empty p"
    and "ioctl q = ioctl p"
proof -
  have o: "snd_ok p" "rcv_ok p" using assms(1) by (simp_all add: port_ok_def)
  define v where "v = p\<lparr>snd_stopped := False\<rparr>"
  have v: "snd_ok v" "rcv_ok v" "snd_full v = snd_full p" "rcv_empty v = rcv_empty p" "ioctl v = ioctl p"
    using o by (simp_all add: v_def snd_ok_def snd_data_def rcv_ok_def rcv_data_def snd_full_def rcv_empty_def)
  obtain b u where u: "serial_snd_chr rdy (snd_buffer p (snd_read_ptr p)) v = (b, u)" by (metis surj_pair)
  obtain w ws where w: "put_rcv c (p, ms) = (w, ws)" by (metis surj_pair)
  note d = assms(4)[unfolded sio_irdy_rcv_def prod.case Let_def v_def[symmetric] w]
  have "snd_count v = snd_count p" "snd_buffer v = snd_buffer p" "snd_read_ptr v = snd_read_ptr p" by (simp_all add: v_def)
  note d = d[unfolded this u prod.case]
  note f = flow_chr_ok[of "flow_chr rdy FC_STOP True w" rdy FC_STOP True w]
  consider (stop) "q = p\<lparr>snd_stopped := True\<rparr>" "ns = ms"
    | (resume) "0 < snd_count p" "(q, ns) = (if b then sent_chr (u, ms) else (u, ms))"
    | (resumed) "q = v" "ns = ms" | (same) "q = p" "ns = ms"
    | (put) "rcv_count p \<noteq> rcv_bufsz p" "ns = ws" "q = send_stop rdy w"
    using d unfolding prod.inject if_split_eq1 by (metis (no_types) prod.inject)
  then have "port_ok q \<and> ns Snd_sem + snd_full q = ms Snd_sem + snd_full p \<and> ns Rcv_sem + rcv_empty q = ms Rcv_sem + rcv_empty p \<and>
    ioctl q = ioctl p"
  proof cases
    case stop
    then show ?thesis using o
      by (simp add: port_ok_def snd_ok_def snd_data_def rcv_ok_def rcv_data_def snd_full_def rcv_empty_def)
  next
    case resume
    have "serial_snd_chr rdy (snd_buffer v (snd_read_ptr v)) v = (b, u)" "0 < snd_count v" using u resume(1) by (simp_all add: v_def)
    then show ?thesis using resume_ok[OF v(1) _ _ _ resume(2), of rdy] v(2-5) assms(2) by (simp add: port_ok_def)
  next
    case resumed
    then show ?thesis using v by (simp add: port_ok_def)
  next
    case same
    then show ?thesis using assms(1) by simp
  next
    case put
    have "rcv_count p < rcv_bufsz p" using o(2) put(1) by (simp add: rcv_ok_def)
    note w = put_rcv_ok[OF o(2) this assms(3) w]
    show ?thesis using w f o put(2,3) by (simp add: send_stop_flow port_ok_def)
  qed
  then show "port_ok q" and "ns Snd_sem + snd_full q = ms Snd_sem + snd_full p" and "ns Rcv_sem + rcv_empty q = ms Rcv_sem + rcv_empty p"
    and "ioctl q = ioctl p" by blast+
qed

section \<open>Who may use a buffer\<close>

text \<open>
  A task that has taken the resource of a semaphore may use the buffer until the buffer is full, or empty; the
  flags \<open>s\<close> and \<open>r\<close> say whether it has the one for sending and the one for receiving. \<open>proper E I act P s r\<close>: the
  actions keep to that (only the echo waits for the one while it has the other), for the errors \<open>E\<close> of the kernel and the settings \<open>I\<close>, and end with \<open>P\<close>.
\<close>

definition svc_may :: "(32 word \<Rightarrow> bool) \<Rightarrow> svc \<Rightarrow> bool \<Rightarrow> bool \<Rightarrow> bool" where
  "svc_may I c s r \<longleftrightarrow> (c = Wai_sem Snd_sem \<longrightarrow> \<not> s \<and> (r \<longrightarrow> (\<exists>ioc. I ioc \<and> ioc AND IOCTL_ECHO \<noteq> 0))) \<and> (c = Wai_sem Rcv_sem \<longrightarrow> \<not> s \<and> \<not> r) \<and>
    (c = Sig_sem Snd_sem \<longrightarrow> s) \<and> (c = Sig_sem Rcv_sem \<longrightarrow> r) \<and> (\<forall>m. c \<noteq> Ini_sem m)"

definition svc_has :: "semid \<Rightarrow> svc \<Rightarrow> ER \<Rightarrow> bool \<Rightarrow> bool" where
  "svc_has m c v b = (if c = Wai_sem m then 0 \<le> v else if c = Sig_sem m then False else b)"

primrec proper :: "(svc \<Rightarrow> ER \<Rightarrow> bool) \<Rightarrow> (32 word \<Rightarrow> bool) \<Rightarrow> 'a act \<Rightarrow> ('a \<Rightarrow> bool \<Rightarrow> bool \<Rightarrow> bool) \<Rightarrow> bool \<Rightarrow> bool \<Rightarrow> bool" where
  "proper E I (Done x) = (\<lambda>P s r. P x s r)"
| "proper E I (Svc c k) = (\<lambda>P s r. svc_may I c s r \<and>
    (\<forall>v. v = 0 \<or> E c v \<and> (v < 0 \<or> c = Sns_dpn) \<longrightarrow> proper E I (k v) P (svc_has Snd_sem c v s) (svc_has Rcv_sem c v r)))"
| "proper E I (Look k) = (\<lambda>P s r. \<forall>p. I (ioctl p) \<longrightarrow> proper E I (k p) P s r)"
| "proper E I (Upd u k) = (\<lambda>P s r. (\<forall>p. I (ioctl p) \<longrightarrow> I (ioctl (u p)) \<and>
      u p = p\<lparr>errorflag := errorflag (u p), ioctl := ioctl (u p)\<rparr>) \<and> proper E I k P s r)"
| "proper E I (Wri c k) = (\<lambda>P s r. s \<and> (\<forall>b. proper E I (k b) P (\<not> b) r))"
| "proper E I (Rea k) = (\<lambda>P s r. r \<and> (\<forall>c b. proper E I (k (c, b)) P s (\<not> b)))"

lemma proper_bind:
  "proper E I a P s r \<Longrightarrow> (\<And>x s r. P x s r \<Longrightarrow> proper E I (f x) Q s r) \<Longrightarrow> proper E I (bind_act a f) Q s r"
  by (induction a arbitrary: s r) auto

text \<open>
  With \<open>st\<close>, the only errors of the kernel are those of waits, and the port does not echo. Then an operation gives
  back what it took, whatever it returns.
\<close>

definition setting :: "bool \<Rightarrow> (svc \<Rightarrow> ER \<Rightarrow> bool) \<Rightarrow> (32 word \<Rightarrow> bool) \<Rightarrow> bool" where
  "setting st E I \<longleftrightarrow> (st \<longrightarrow> (\<forall>c v. E c v \<longrightarrow> c \<in> range Wai_sem) \<and> (\<forall>ioc. I ioc \<longrightarrow> ioc AND IOCTL_ECHO = 0))"

definition chr_post :: "bool \<Rightarrow> bool \<Rightarrow> ER \<Rightarrow> bool \<Rightarrow> bool \<Rightarrow> bool" where
  "chr_post st r0 x s r \<longleftrightarrow> (0 \<le> x \<longrightarrow> s = (x = 0) \<and> r = r0) \<and> (x < 0 \<and> st \<longrightarrow> \<not> s \<and> r = r0)"

definition dat_post :: "bool \<Rightarrow> 'a \<Rightarrow> bool \<Rightarrow> bool \<Rightarrow> bool" where
  "dat_post st x s r \<longleftrightarrow> (st \<longrightarrow> \<not> s \<and> \<not> r)"

lemma dat_postI: "(st \<Longrightarrow> \<not> s \<and> \<not> r) \<Longrightarrow> dat_post st x s r"
  by (simp add: dat_post_def)

lemma proper_errors [simp]:
  "proper E I gen_ercd_sys P s r \<longleftrightarrow> P E_SYS s r"
  "proper E I (exit_cnt n x) P s r \<longleftrightarrow> P (if n > 0 then int n else x) s r"
  "proper E I (exit_buf buf x) Q s r \<longleftrightarrow> Q (if buf \<noteq> [] then int (length buf) else x, buf) s r"
  by (simp_all add: gen_ercd_sys_def exit_cnt_def exit_buf_def)

lemma proper_gen_ercd_wait: "v < 0 \<Longrightarrow> (\<And>x. x < 0 \<Longrightarrow> P x s r) \<Longrightarrow> proper E I (gen_ercd_wait v) P s r"
  by (simp add: gen_ercd_wait_def)

lemma proper_wri_locked: "setting st E I \<Longrightarrow> proper E I (wri_locked c) (chr_post st r0) True r0"
  by (auto simp: wri_locked_def svc_may_def svc_has_def chr_post_def of_bool_t_def setting_def)

lemma proper_wri_chr:
  assumes "r0 \<Longrightarrow> \<exists>ioc. I ioc \<and> ioc AND IOCTL_ECHO \<noteq> 0"
  shows "setting st E I \<Longrightarrow> proper E I (serial_wri_chr c) (chr_post st r0) True r0"
proof (induction c rule: serial_wri_chr.induct)
  case (1 c)
  let ?k = "\<lambda>rercd. if rercd < 0 then Done rercd
             else if rercd \<noteq> 0
                  then Svc (Wai_sem Snd_sem) (\<lambda>rercd. if rercd < 0 then gen_ercd_wait rercd else wri_locked c)
                  else wri_locked c"
  note l = proper_wri_locked[OF 1(2), of c r0]
  have k: "proper E I (?k x) (chr_post st r0) s r" if "chr_post st r0 x s r" for x s r
    using that l proper_gen_ercd_wait[of _ "chr_post st r0" False r0 E I] assms
    by (auto simp: chr_post_def svc_may_def svc_has_def)
  show ?case
    using l proper_bind[OF 1(1)[OF _ 1(2)] k] by (subst serial_wri_chr.simps) (auto simp del: bind_act.simps)
qed

lemma proper_wai_if:
  "proper E I (wai_if b Snd_sem) (\<lambda>x s r. \<not> r \<and> (0 \<le> x \<longrightarrow> s) \<and> (x < 0 \<longrightarrow> b \<and> \<not> s)) (\<not> b) False"
  "proper E I (wai_if b Rcv_sem) (\<lambda>x s r. \<not> s \<and> (0 \<le> x \<longrightarrow> r) \<and> (x < 0 \<longrightarrow> b \<and> \<not> r)) False (\<not> b)"
  by (auto simp: wai_if_def svc_may_def svc_has_def intro!: proper_gen_ercd_wait)

lemma proper_wri_loop: "setting st E I \<Longrightarrow> proper E I (wri_loop buf n full) (dat_post st) (\<not> full) False"
proof (induction buf arbitrary: n full)
  case Nil
  then show ?case by (auto simp: svc_may_def svc_has_def dat_post_def gen_ercd_sys_def)
next
  case (Cons c buf)
  have k: "proper E I (if x < 0 then exit_cnt n x else wri_loop buf (n + 1) (x \<noteq> 0)) (dat_post st) s r"
    if "chr_post st False x s r" for x s r
    using that Cons(1)[OF Cons(2), of "n + 1" "x \<noteq> 0"] by (cases "x = 0") (auto simp: chr_post_def intro!: dat_postI)
  have w: "proper E I (if x < 0 then exit_cnt n x else bind_act (serial_wri_chr c) (\<lambda>x.
      if x < 0 then exit_cnt n x else wri_loop buf (n + 1) (x \<noteq> 0))) (dat_post st) s r"
    if "\<not> r \<and> (0 \<le> x \<longrightarrow> s) \<and> (x < 0 \<longrightarrow> full \<and> \<not> s)" for x s r
    using that proper_bind[OF proper_wri_chr[OF _ Cons(2)] k] by (auto intro: dat_postI)
  show ?case unfolding wri_loop.simps by (rule proper_bind[OF proper_wai_if(1)[of E I full] w])
qed

lemma proper_port_checks:
  "proper E I k P False False \<Longrightarrow> (\<And>x. P (err x) False False) \<Longrightarrow>
    proper E I (port_checks err n i (opened err k)) P False False"
  by (simp add: port_checks_def opened_def svc_may_def svc_has_def)

lemma proper_rea_chr:
  assumes "setting st E I"
  shows "proper E I serial_rea_chr (\<lambda>(x, c) s r. \<not> s \<and> (0 \<le> x \<longrightarrow> r = (x = 0)) \<and> (x < 0 \<longrightarrow> \<not> st)) False True"
  using assms by (auto simp: serial_rea_chr_def svc_may_def svc_has_def of_bool_t_def setting_def gen_ercd_sys_def)

lemma proper_echo:
  assumes "setting st E I"
  shows "proper E I (echo_back c) (\<lambda>x s r. (0 \<le> x \<longrightarrow> \<not> s \<and> r = r0) \<and> (x < 0 \<longrightarrow> \<not> st)) False r0"
proof (cases st)
  case True
  then show ?thesis using assms by (auto simp: echo_back_def setting_def)
next
  case False
  let ?P = "\<lambda>x s r. (0 \<le> x \<longrightarrow> \<not> s \<and> r = r0) \<and> (x < 0 \<longrightarrow> \<not> st)"
  let ?k = "\<lambda>x. if x < 0 then Done x else if x = 0
      then Svc (Sig_sem Snd_sem) (\<lambda>r. if r < 0 then gen_ercd_sys else Done 0) else Done 0"
  have k: "proper E I (?k x) ?P s r" if "chr_post False r0 x s r" for x s r
    using that False by (auto simp: chr_post_def svc_may_def svc_has_def)
  have st: "setting False E I" by (simp add: setting_def)
  have "proper E I (bind_act (serial_wri_chr c) ?k) ?P True r0" if "I ioc" "ioc AND IOCTL_ECHO \<noteq> 0" for ioc
    by (rule proper_bind[OF proper_wri_chr[OF _ st] k]) (use that in blast)
  then show ?thesis using False proper_gen_ercd_wait[of _ ?P False r0 E I]
    by (auto simp: echo_back_def svc_may_def svc_has_def)
qed

lemma proper_rea_loop: "setting st E I \<Longrightarrow> proper E I (rea_loop n buf e) (dat_post st) False (\<not> e)"
proof (induction n arbitrary: buf e)
  case 0
  then show ?case by (auto simp: svc_may_def svc_has_def dat_post_def gen_ercd_sys_def)
next
  case (Suc n)
  let ?k1 = "\<lambda>c x y. if y < 0 then exit_buf (buf @ [c]) y else rea_loop n (buf @ [c]) (x \<noteq> 0)"
  let ?k2 = "\<lambda>(x, c). if x < 0 then exit_buf buf x else bind_act (echo_back c) (?k1 c x)"
  have k1: "proper E I (?k1 c x y) (dat_post st) s r" if "(0 \<le> y \<longrightarrow> \<not> s \<and> r = (x = 0)) \<and> (y < 0 \<longrightarrow> \<not> st)" for c x y s r
    using that Suc(1)[OF Suc(2), of "buf @ [c]" "x \<noteq> 0"] by (cases "x = 0") (auto intro!: dat_postI)
  have e: "proper E I (bind_act (echo_back c) (?k1 c x)) (dat_post st) False (x = 0)" for c x
    by (rule proper_bind[OF proper_echo[OF Suc(2), of c "x = 0"] k1])
  have k2: "proper E I (?k2 xc) (dat_post st) s r"
    if "(\<lambda>(x, c) s r. \<not> s \<and> (0 \<le> x \<longrightarrow> r = (x = 0)) \<and> (x < 0 \<longrightarrow> \<not> st)) xc s r" for xc s r
  proof (cases xc)
    case (Pair x c)
    then show ?thesis using that e[of c x] by (cases "x < 0") (auto intro: dat_postI)
  qed
  have w: "proper E I (if x < 0 then exit_buf buf x else bind_act serial_rea_chr ?k2) (dat_post st) s r"
    if "\<not> s \<and> (0 \<le> x \<longrightarrow> r) \<and> (x < 0 \<longrightarrow> e \<and> \<not> r)" for x s r
    using that proper_bind[OF proper_rea_chr[OF Suc(2)] k2] by (auto intro: dat_postI)
  show ?case unfolding rea_loop.simps by (rule proper_bind[OF proper_wai_if(2)[of E I e] w])
qed

lemma proper_calls:
  assumes "setting st E I" and "q \<in> calls I"
  shows "proper E I q (dat_post st) False False"
proof -
  have w: "proper E I (serial_wri_dat n i buf) (dat_post st) False False" for n i buf
    unfolding serial_wri_dat_def using proper_wri_loop[OF assms(1), of buf 0 True]
    by (intro proper_port_checks) (simp_all add: dat_post_def)
  have r: "proper E I (serial_rea_dat n i len) (dat_post st) False False" for n i len
    unfolding serial_rea_dat_def using proper_rea_loop[OF assms(1), of len "[]" True]
    by (intro proper_port_checks) (simp_all add: dat_post_def)
  have c: "proper E I (serial_ctl_por n i ioc) (dat_post st) False False" if "I ioc" for n i ioc
    unfolding serial_ctl_por_def using that by (intro proper_port_checks) (simp_all add: dat_post_def)
  have b: "proper E I (bind_act a (\<lambda>x. Done (x, [] :: string))) (dat_post st) False False" if "proper E I a (dat_post st) False False"
    for a :: "ER act"
    by (rule proper_bind[OF that]) (simp add: dat_post_def)
  show ?thesis using assms(2) w r c b by (auto simp: calls_def)
qed

section \<open>The invariant of a port\<close>

definition held :: "nat option \<Rightarrow> nat" where "held h = (if h = None then 0 else 1)"

definition take_by :: "nat \<Rightarrow> bool \<Rightarrow> nat option \<Rightarrow> nat option" where
  "take_by t b h = (if b then Some t else if h = Some t then None else h)"

text \<open>The resource is counted by the semaphore, held by a task, or given up because of the buffer; at most once.\<close>

definition one_of :: "bool \<Rightarrow> nat \<Rightarrow> bool" where "one_of st n \<longleftrightarrow> (if st then n = 1 else n \<le> 1)"

definition serial_inv ::
  "bool \<Rightarrow> (svc \<Rightarrow> ER \<Rightarrow> bool) \<Rightarrow> (32 word \<Rightarrow> bool) \<Rightarrow> nat option \<Rightarrow> nat option \<Rightarrow> serial \<Rightarrow> bool" where
  "serial_inv st E I hs hr s \<longleftrightarrow>
    port_ok (port s) \<and> I (ioctl (port s)) \<and>
    one_of st (sem s Snd_sem + held hs + snd_full (port s)) \<and> one_of st (sem s Rcv_sem + held hr + rcv_empty (port s)) \<and>
    (\<forall>t. proper E I (tasks s t) (dat_post st) (hs = Some t) (hr = Some t))"

lemma take_by_eq:
  "take_by t b h = Some t \<longleftrightarrow> b" "u \<noteq> t \<Longrightarrow> b \<longrightarrow> h = None \<or> h = Some t \<Longrightarrow> take_by t b h = Some u \<longleftrightarrow> h = Some u"
  by (auto simp: take_by_def)

lemma held_simps [simp]:
  "held None = 0" "held (Some t) = 1" "(if h = Some t then 1 else if h = Some t then 0 else held h) = held h"
  "(if h = Some t then Suc 0 else if h = Some t then 0 else held h) = held h"
  by (simp_all add: held_def)

lemma held_take: "held (take_by t b h) = (if b then 1 else if h = Some t then 0 else held h)"
  by (simp add: take_by_def held_def)

lemma tasks_proper:
  assumes "\<forall>t. proper E I (ts t) P (hs = Some t) (hr = Some t)" and "proper E I a P b c"
    and "b \<Longrightarrow> hs = None \<or> hs = Some t" and "c \<Longrightarrow> hr = None \<or> hr = Some t"
  shows "\<forall>u. proper E I ((ts(t := a)) u) P (take_by t b hs = Some u) (take_by t c hr = Some u)"
proof
  fix u
  show "proper E I ((ts(t := a)) u) P (take_by t b hs = Some u) (take_by t c hr = Some u)"
    using assms by (cases "u = t") (simp_all add: take_by_eq)
qed

text \<open>One action of a task: what it held before and what it holds after it.\<close>

lemma serial_inv_task:
  assumes "serial_inv st E I hs hr s" and "proper E I a (dat_post st) b c" and "port_ok p" and "I (ioctl p)"
    and "b \<Longrightarrow> hs = None \<or> hs = Some t" and "c \<Longrightarrow> hr = None \<or> hr = Some t"
    and "one_of st (ms Snd_sem + (if b then 1 else if hs = Some t then 0 else held hs) + snd_full p)"
    and "one_of st (ms Rcv_sem + (if c then 1 else if hr = Some t then 0 else held hr) + rcv_empty p)"
  shows "\<exists>hs hr. serial_inv st E I hs hr (s\<lparr>port := p, sem := ms, tasks := (tasks s)(t := a)\<rparr>)"
  using assms tasks_proper[OF _ assms(2,5,6), of "tasks s"] unfolding serial_inv_def
  by (intro exI[of _ "take_by t b hs"] exI[of _ "take_by t c hr"]) (simp add: held_take)

lemma take_by_same [simp]: "take_by t (h = Some t) h = h"
  by (simp add: take_by_def)

lemma wri_region_rcv:
  assumes "wri_region rdy c p = (b, q)"
  shows "rcv_ok q \<longleftrightarrow> rcv_ok p" and "rcv_empty q = rcv_empty p" and "ioctl q = ioctl p" and "rea_log q = rea_log p"
  using assms by (auto simp: wri_region_def serial_snd_chr_def sio_snd_chr_def sio_set_cbr_def Let_def rcv_ok_def rcv_data_def
      rcv_empty_def split: if_splits)

lemma serial_step_inv:
  assumes "serial_step E (calls I) s s'" and "setting st E I" and "serial_inv st E I hs hr s"
  shows "\<exists>hs hr. serial_inv st E I hs hr s'"
  using assms(1)
proof (cases rule: serial_step.cases)
  note i = assms(3)[unfolded serial_inv_def]
  have p: "proper E I (tasks s t) (dat_post st) (hs = Some t) (hr = Some t)" for t using i by blast
  note T = serial_inv_task[OF assms(3)]
  have full: "snd_full (port s) = 1 \<Longrightarrow> sem s Snd_sem = 0 \<and> hs = None" and empty: "rcv_empty (port s) = 1 \<Longrightarrow> sem s Rcv_sem = 0 \<and> hr = None"
    and hs: "hs = Some t \<Longrightarrow> sem s Snd_sem = 0 \<and> snd_full (port s) = 0" and hr: "hr = Some t \<Longrightarrow> sem s Rcv_sem = 0 \<and> rcv_empty (port s) = 0"
    and free: "0 < sem s Snd_sem \<Longrightarrow> sem s Snd_sem = 1 \<and> hs = None \<and> snd_full (port s) = 0" "0 < sem s Rcv_sem \<Longrightarrow> sem s Rcv_sem = 1 \<and> hr = None \<and> rcv_empty (port s) = 0" for t
    using i by (auto simp: one_of_def held_def split: if_splits)
  {
    case (call t x q)
    show ?thesis
      using T[OF proper_calls[OF assms(2) call(3)], of "port s" t "sem s"] p[of t] i call(1,2)
      by (auto simp: dat_post_def one_of_def held_def split: if_splits)
  next
    case (wait t m k)
    show ?thesis
      using T[of "k 0" "svc_has Snd_sem (Wai_sem m) 0 (hs = Some t)" "svc_has Rcv_sem (Wai_sem m) 0 (hr = Some t)" "port s" t
          "(sem s)(m := sem s m - 1)"] p[of t] i free wait
      by (cases m) (auto simp: svc_may_def svc_has_def)
  next
    case (signal t m k r ms)
    have "r = 0 \<and> ms = (sem s)(m := 1)" using signal(3) p[of t] hs[of t] hr[of t] by (cases m) (auto simp: signal(2) svc_may_def port_isig_sem_def split: if_splits)
    then show ?thesis
      using T[of "k 0" "svc_has Snd_sem (Sig_sem m) 0 (hs = Some t)" "svc_has Rcv_sem (Sig_sem m) 0 (hr = Some t)" "port s" t ms]
        p[of t] i signal(1,2) hs[of t] hr[of t]
      by (cases m) (auto simp: svc_may_def svc_has_def)
  next
    case (service t c k)
    show ?thesis using T[of "k 0" "hs = Some t" "hr = Some t" "port s" t "sem s"] p[of t] i service by (auto simp: svc_has_def)
  next
    case (failure t c k r)
    let ?b = "\<lambda>m h. svc_has m c r (h = Some t)"
    have m: "svc_may I c (hs = Some t) (hr = Some t)" and k: "proper E I (k r) (dat_post st) (?b Snd_sem hs) (?b Rcv_sem hr)"
      using p[of t] failure(3,4) unfolding failure(2) proper.simps by blast+
    have "st \<Longrightarrow> c \<noteq> Sig_sem m" for m using assms(2) failure(3) by (auto simp: setting_def)
    then have n: "one_of st (n + (if ?b m h then 1 else if h = Some t then 0 else held h) + l)"
      if "one_of st (n + held h + l)" "c = Wai_sem m \<Longrightarrow> h \<noteq> Some t" for n m h l
      using that failure(4) by (cases "c = Wai_sem m"; cases "c = Sig_sem m"; cases "h = Some t") (auto simp: svc_has_def one_of_def)
    have b: "?b m h \<Longrightarrow> h = None \<or> h = Some t" for m h using failure(4) by (auto simp: svc_has_def split: if_splits)
    show ?thesis unfolding failure(1)
      using T[OF k, of "port s" t "sem s", OF _ _ b b n n] i m by (simp add: svc_may_def)
  next
    case (look t k)
    show ?thesis using T[of "k (port s)" "hs = Some t" "hr = Some t" "port s" t "sem s"] p[of t] i by (simp add: look)
  next
    case (upd t u k)
    have u: "I (ioctl (u (port s)))" "u (port s) = (port s)\<lparr>errorflag := errorflag (u (port s)), ioctl := ioctl (u (port s))\<rparr>"
      and k: "proper E I k (dat_post st) (hs = Some t) (hr = Some t)"
      using p[of t] i unfolding upd(2) proper.simps by blast+
    have "port_ok (u (port s))" "snd_full (u (port s)) = snd_full (port s)" "rcv_empty (u (port s)) = rcv_empty (port s)"
      using i by (subst u(2); simp add: port_ok_def snd_ok_def snd_data_def rcv_ok_def rcv_data_def snd_full_def rcv_empty_def)+
    then show ?thesis using T[of k "hs = Some t" "hr = Some t" "u (port s)" t "sem s"] k i u(1) by (simp add: upd(1))
  next
    case (wri t c k rdy b q)
    have h: "hs = Some t" "proper E I (k b) (dat_post st) (\<not> b) (hr = Some t)" using p[of t] by (auto simp: wri(2))
    have "snd_ok (port s)" "snd_count (port s) < snd_bufsz (port s)"
      using i hs[OF h(1)] by (auto simp: port_ok_def snd_ok_def snd_full_def split: if_splits)
    note w = wri_region_ok[OF this wri(3)] wri_region_rcv[OF wri(3)]
    show ?thesis
      using T[OF h(2), of q t "sem s"] i w h(1) hs[OF h(1)]
      by (cases b) (auto simp: wri(1) port_ok_def snd_full_def)
  next
    case (rea t k rdy c b q)
    have h: "hr = Some t" "proper E I (k (c, b)) (dat_post st) (hs = Some t) (\<not> b)" using p[of t] by (auto simp: rea(2))
    have "port_ok (port s)" "0 < rcv_count (port s)" using i hr[OF h(1)] by (auto simp: rcv_empty_def split: if_splits)
    note w = rea_region_ok[OF this rea(3)]
    show ?thesis
      using T[OF h(2), of q t "sem s"] i w h(1) hr[OF h(1)] by (cases b) (auto simp: rea(1) rcv_empty_def)
  next
    case (irdy_snd q ms)
    note w = sio_irdy_snd_ok[OF _ _ irdy_snd(3)]
    show ?thesis using i w full by (intro exI[of _ hs] exI[of _ hr]) (simp add: irdy_snd(1) serial_inv_def add.commute add.left_commute)
  next
    case (irdy_rcv rdy c q ms)
    note w = sio_irdy_rcv_ok[OF _ _ _ irdy_rcv(3)]
    show ?thesis using i w full empty by (intro exI[of _ hs] exI[of _ hr]) (simp add: irdy_rcv(1) serial_inv_def add.commute add.left_commute)
  }
qed

text \<open>A port after \<open>serial_opn_por\<close> and \<open>serial_ctl_por\<close>, with tasks outside of the driver.\<close>

definition new_port :: "SIOPCB \<Rightarrow> SPCB \<Rightarrow> bool" where
  "new_port sio p \<longleftrightarrow>
    0 < snd_bufsz p \<and> snd_bufsz p < 2 ^ 32 \<and> 0 < rcv_bufsz p \<and> rcv_bufsz p < 2 ^ 32 \<and>
    wri_log p = [] \<and> rcv_log p = [] \<and> rea_log p = [] \<and> sio_out sio = []"

definition opened_port :: "SIOPCB \<Rightarrow> 32 word \<Rightarrow> SPCB \<Rightarrow> (nat \<Rightarrow> ER \<times> string) \<Rightarrow> serial" where
  "opened_port sio ioc p rs =
    \<lparr>port = (open_region sio (init_port p))\<lparr>ioctl := ioc\<rparr>, sem = (\<lambda>m. if m = Snd_sem then 1 else 0), tasks = (\<lambda>t. Done (rs t))\<rparr>"

lemma opened_port_inv:
  assumes "new_port sio p" and "I ioc"
  shows "serial_inv st E I None None (opened_port sio ioc p rs)"
  using assms
  by (auto simp: serial_inv_def opened_port_def new_port_def open_region_def init_port_def sio_set_cbr_def Let_def port_ok_def
      snd_ok_def snd_data_def rcv_ok_def rcv_data_def snd_full_def rcv_empty_def one_of_def dat_post_def)

lemma serial_reachable_inv:
  assumes "(serial_step E (calls I))\<^sup>*\<^sup>* (opened_port sio ioc p rs) s" and "new_port sio p" and "I ioc" and "setting st E I"
  shows "\<exists>hs hr. serial_inv st E I hs hr s"
  using assms(1)
proof (induction rule: rtranclp_induct)
  case base
  then show ?case using opened_port_inv[where I = I, OF assms(2,3)] by blast
next
  case (step s s')
  then show ?case using serial_step_inv[OF step(2) assms(4)] by blast
qed

text \<open>A small port that has received a character, for examples.\<close>

definition sample_sio :: SIOPCB where "sample_sio = \<lparr>sio_out = [], sio_cbr = (\<lambda>_. False)\<rparr>"

definition sample_port :: SPCB where
  "sample_port =
    \<lparr>p_siopcb = sample_sio, openflag = True, errorflag = False, ioctl = 0, rcv_bufsz = 4, rcv_buffer = (\<lambda>_. NUL),
     rcv_read_ptr = 0, rcv_write_ptr = 0, rcv_count = 0, rcv_fc_chr = NUL, rcv_stopped = False, snd_bufsz = 4,
     snd_buffer = (\<lambda>_. NUL), snd_read_ptr = 0, snd_write_ptr = 0, snd_count = 0, snd_stopped = False, wri_log = [],
     rcv_log = [], rea_log = []\<rparr>"

lemma new_sample_port: "new_port sample_sio sample_port"
  by (simp add: new_port_def sample_sio_def sample_port_def)

definition sample_serial :: "32 word \<Rightarrow> serial" where "sample_serial ioc = opened_port sample_sio ioc sample_port (\<lambda>_. (0, []))"

definition sample_received :: "32 word \<Rightarrow> serial" where
  "sample_received ioc =
    (let s = sample_serial ioc; (p, ms) = sio_irdy_rcv True CHR ''a'' (port s, sem s) in s\<lparr>port := p, sem := ms\<rparr>)"

lemma sample_received_reachable: "(serial_step E C)\<^sup>*\<^sup>* (opened_port sample_sio ioc sample_port (\<lambda>_. (0, []))) (sample_received ioc)"
proof -
  have "sio_cbr (p_siopcb (port (sample_serial ioc))) SIO_RDY_RCV"
    by (simp add: sample_serial_def opened_port_def open_region_def sio_set_cbr_def Let_def)
  then have "serial_step E C (sample_serial ioc) (sample_received ioc)"
    unfolding sample_received_def Let_def by (cases "sio_irdy_rcv True CHR ''a'' (port (sample_serial ioc), sem (sample_serial ioc))")
      (auto intro: serial_step.irdy_rcv)
  then show ?thesis by (simp add: sample_serial_def)
qed

text \<open>
  C25: characters pass the serial driver in order, whatever tasks and interrupts do. In every state that any
  number of reading and writing tasks, the callbacks of the device and any errors of the kernel lead to, the
  buffers do not overflow; what went out is the accepted characters in their order, less those in the send
  buffer, mixed with START and STOP only; and what tasks have read, with what is in the receive buffer, is
  what was received.
\<close>

theorem serial_fifo:
  assumes "new_port sio p" and "(serial_step E (calls (\<lambda>_. True)))\<^sup>*\<^sup>* (opened_port sio ioc p rs) s"
  shows "snd_count (port s) \<le> snd_bufsz (port s) \<and> rcv_count (port s) \<le> rcv_bufsz (port s) \<and>
    (\<exists>xs fcs. wri_log (port s) = xs @ snd_data (port s) \<and> sio_out (p_siopcb (port s)) \<in> shuffles xs fcs \<and>
      set fcs \<subseteq> {FC_STOP, FC_START}) \<and>
    rcv_log (port s) = rea_log (port s) @ rcv_data (port s)"
proof -
  have "setting False E (\<lambda>_. True)" by (simp add: setting_def)
  then have "port_ok (port s)" using serial_reachable_inv[OF assms(2,1) TrueI] by (auto simp: serial_inv_def)
  then show ?thesis by (auto simp: port_ok_def snd_ok_def rcv_ok_def)
qed

theorem serial_fifo_witness: "rcv_log (port (sample_received 0)) = rcv_data (port (sample_received 0)) \<and> rcv_log (port (sample_received 0)) = ''a''"
proof -
  have r: "rea_log (port (sample_received 0)) = [] \<and> rcv_log (port (sample_received 0)) = ''a''"
    by (simp add: sample_received_def sample_serial_def opened_port_def open_region_def init_port_def sample_sio_def sample_port_def
        sio_irdy_rcv_def put_rcv_def signal_port_def port_isig_sem_def send_stop_def sio_set_cbr_def Let_def)
  have "rcv_log (port (sample_received 0)) = rea_log (port (sample_received 0)) @ rcv_data (port (sample_received 0))"
    using serial_fifo[OF new_sample_port sample_received_reachable[of "\<lambda>_ _. False" _ 0]] by blast
  then show ?thesis using r by (metis append_Nil)
qed



section \<open>An operation on its own\<close>

text \<open>The operation without any other action between, with fixed answers of the kernel: its result and its calls.\<close>

primrec run :: "(svc \<Rightarrow> ER) \<Rightarrow> bool \<Rightarrow> 'a act \<Rightarrow> SPCB \<Rightarrow> 'a \<times> svc list \<times> SPCB" where
  "run rep rdy (Done x) p = (x, [], p)"
| "run rep rdy (Svc c k) p = (let (x, cs, q) = run rep rdy (k (rep c)) p in (x, c # cs, q))"
| "run rep rdy (Look k) p = run rep rdy (k p) p"
| "run rep rdy (Upd u k) p = run rep rdy k (u p)"
| "run rep rdy (Wri c k) p = (let (b, q) = wri_region rdy c p in run rep rdy (k b) q)"
| "run rep rdy (Rea k) p = (let (c, b, q) = rea_region rdy p in run rep rdy (k (c, b)) q)"

lemma run_bind:
  "run rep rdy (bind_act a f) p =
    (let (x, cs, q) = run rep rdy a p; (y, ds, u) = run rep rdy (f x) q in (y, cs @ ds, u))"
  by (induction a arbitrary: p) (auto simp: split_beta Let_def)

text \<open>The characters for a string: with \<open>IOCTL_CRLF\<close>, CR goes before LF.\<close>

primrec crlf :: "32 word \<Rightarrow> string \<Rightarrow> string" where
  "crlf ioc [] = []"
| "crlf ioc (c # cs) = (if c = LF \<and> ioc AND IOCTL_CRLF \<noteq> 0 then [CR, LF] else [c]) @ crlf ioc cs"

definition same_flags :: "SPCB \<Rightarrow> SPCB \<Rightarrow> bool" where
  "same_flags p q \<longleftrightarrow> ioctl q = ioctl p \<and> openflag q = openflag p \<and> errorflag q = errorflag p"

lemma wri_region_flags:
  assumes "wri_region rdy c p = (b, q)"
  shows "same_flags p q \<and> wri_log q = wri_log p @ [c]"
  using assms by (auto simp: same_flags_def wri_region_def serial_snd_chr_def sio_snd_chr_def sio_set_cbr_def Let_def split: if_splits)

lemma run_wri_locked:
  assumes "rep = (\<lambda>_. E_OK)"
  shows "\<exists>r cs q. run rep rdy (wri_locked c) p = (r, cs, q) \<and> 0 \<le> r \<and> same_flags p q \<and> wri_log q = wri_log p @ [c]"
proof -
  obtain b q where w: "wri_region rdy c p = (b, q)" by (metis surj_pair)
  show ?thesis using wri_region_flags[OF w] by (simp add: wri_locked_def w assms of_bool_t_def)
qed

lemma run_wri_chr:
  assumes "rep = (\<lambda>_. E_OK)"
  shows "\<exists>r cs q. run rep rdy (serial_wri_chr c) p = (r, cs, q) \<and> 0 \<le> r \<and> same_flags p q \<and>
    wri_log q = wri_log p @ crlf (ioctl p) [c]"
proof (cases "c = LF \<and> ioctl p AND IOCTL_CRLF \<noteq> 0")
  case False
  have "run rep rdy (serial_wri_chr c) p = run rep rdy (wri_locked c) p"
    unfolding serial_wri_chr.simps[of c] run.simps if_not_P[OF False] by (rule refl)
  moreover have "crlf (ioctl p) [c] = [c]" using False by simp
  ultimately show ?thesis using run_wri_locked[OF assms, of rdy c p] by simp
next
  case True
  have cr: "serial_wri_chr CR = Look (\<lambda>p. wri_locked CR)" by (subst serial_wri_chr.simps) (simp add: CR_def LF_def cong: if_cong)
  obtain r cs q where q: "run rep rdy (wri_locked CR) p = (r, cs, q)" "0 \<le> r" "same_flags p q" "wri_log q = wri_log p @ [CR]"
    using run_wri_locked[OF assms, of rdy CR p] by blast
  obtain r2 ds q2 where q2: "run rep rdy (wri_locked c) q = (r2, ds, q2)" "0 \<le> r2" "same_flags q q2" "wri_log q2 = wri_log q @ [c]"
    using run_wri_locked[OF assms, of rdy c q] by blast
  show ?thesis using True q q2 by (subst serial_wri_chr.simps) (auto simp: cr run_bind assms same_flags_def)
qed

lemma run_wri_loop:
  assumes "rep = (\<lambda>_. E_OK)"
  shows "\<exists>cs q. run rep rdy (wri_loop buf n full) p = (int (n + length buf), cs, q) \<and> same_flags p q \<and>
    wri_log q = wri_log p @ crlf (ioctl p) buf"
proof (induction buf arbitrary: n full p)
  case Nil
  show ?case by (simp add: exit_cnt_def assms same_flags_def)
next
  case (Cons c buf)
  obtain r cs q where q: "run rep rdy (serial_wri_chr c) p = (r, cs, q)" "0 \<le> r" "same_flags p q"
      "wri_log q = wri_log p @ crlf (ioctl p) [c]"
    using run_wri_chr[OF assms, of rdy c p] by blast
  obtain ds u where u: "run rep rdy (wri_loop buf (n + 1) (r \<noteq> 0)) q = (int (n + length (c # buf)), ds, u)" "same_flags q u"
      "wri_log u = wri_log q @ crlf (ioctl q) buf" using Cons[of "n + 1" "r \<noteq> 0" q] by auto
  show ?case using q u by (auto simp: run_bind wai_if_def assms same_flags_def)
qed

text \<open>
  When no other task comes between and no call fails, \<open>serial_wri_dat\<close> accepts the whole string, each LF
  after a CR if the port is set so, and returns its length.
\<close>

lemma serial_wri_dat_writes:
  assumes "openflag p" and "\<not> errorflag p" and "1 \<le> portid" and "portid \<le> tnum_port"
  shows "\<exists>cs q. run (\<lambda>_. E_OK) rdy (serial_wri_dat tnum_port portid buf) p = (int (length buf), cs, q) \<and> same_flags p q \<and>
    wri_log q = wri_log p @ crlf (ioctl p) buf"
  using run_wri_loop[OF refl, of rdy buf 0 True p] assms by (auto simp: serial_wri_dat_def port_checks_def opened_def)

text \<open>
  An ended wait in the echo loses the resource of the receive buffer. When the wait of the echo for the
  send buffer is ended with \<open>E_RLWAI\<close> and there are more characters, \<open>serial_rea_dat\<close> returns the number of
  characters read, as if nothing had happened, but never signals the receive semaphore: no task and no
  callback will, before the buffer is empty, and no task can empty it.
\<close>

lemma echo_release_loses_resource:
  assumes "openflag p" and "\<not> errorflag p" and "1 \<le> portid" and "portid \<le> tnum_port"
    and "ioctl p AND IOCTL_ECHO \<noteq> 0" and "1 < rcv_count p" and "rcv_ok p"
    and "run (\<lambda>c. if c = Wai_sem Snd_sem then E_RLWAI else E_OK) rdy (serial_rea_dat tnum_port portid 1) p = ((r, buf), cs, q)"
  shows "r = 1 \<and> buf = [rcv_buffer p (rcv_read_ptr p)] \<and> Wai_sem Rcv_sem \<in> set cs \<and> Sig_sem Rcv_sem \<notin> set cs \<and> 0 < rcv_count q"
proof -
  obtain c b u where u: "rea_region rdy p = (c, b, u)" by (metis prod_cases3)
  have e: "c = rcv_buffer p (rcv_read_ptr p)" "rcv_count u = dec_u (rcv_count p)" "b \<longleftrightarrow> rcv_count u = 0" "ioctl u = ioctl p"
    using u by (auto simp: rea_region_def serial_snd_chr_def sio_snd_chr_def sio_set_cbr_def Let_def split: if_splits)
  have "\<not> b" "0 < rcv_count u" using e(2,3) assms(6) by (simp_all add: dec_u_def)
  moreover have "MERCD E_RLWAI = E_RLWAI" by (simp add: MERCD_def signed_take_bit_eq_take_bit_shift take_bit_eq_mod)
  ultimately show ?thesis
    using assms u e
    by (auto simp: serial_rea_dat_def port_checks_def opened_def run_bind wai_if_def serial_rea_chr_def echo_back_def
        exit_buf_def of_bool_t_def gen_ercd_wait_def)
qed

text \<open>
  A port that received two characters while sending was stopped: the case of \<open>echo_release_loses_resource\<close>
  exists.
\<close>

definition sample_two :: SPCB where
  "sample_two = sample_port\<lparr>ioctl := IOCTL_ECHO, rcv_buffer := (\<lambda>_. NUL)(0 := CHR ''a'', 1 := CHR ''b''), rcv_write_ptr := 2,
    rcv_count := 2, rcv_log := ''ab''\<rparr>"

lemma echo_release_example:
  "\<exists>cs q. run (\<lambda>c. if c = Wai_sem Snd_sem then E_RLWAI else E_OK) True (serial_rea_dat 1 1 1) sample_two = ((1, ''a''), cs, q) \<and>
    Wai_sem Rcv_sem \<in> set cs \<and> Sig_sem Rcv_sem \<notin> set cs \<and> 0 < rcv_count q"
proof -
  let ?rep = "\<lambda>c. if c = Wai_sem Snd_sem then E_RLWAI else E_OK"
  have d: "rcv_data sample_two = ''ab''" by (simp add: rcv_data_def sample_two_def sample_port_def ring_list_def numeral_2_eq_2)
  then have "rcv_ok sample_two" by (simp add: rcv_ok_def) (simp add: sample_two_def sample_port_def)
  then have p: "openflag sample_two" "\<not> errorflag sample_two" "ioctl sample_two AND IOCTL_ECHO \<noteq> 0" "1 < rcv_count sample_two"
    "rcv_ok sample_two" "rcv_buffer sample_two (rcv_read_ptr sample_two) = CHR ''a''"
    by (simp_all add: sample_two_def sample_port_def IOCTL_ECHO_def)
  obtain x cs q where "run ?rep True (serial_rea_dat 1 1 1) sample_two = (x, cs, q)" by (rule prod_cases3)
  then obtain r buf where r: "run ?rep True (serial_rea_dat 1 1 1) sample_two = ((r, buf), cs, q)" by (cases x) auto
  show ?thesis using echo_release_loses_resource[OF p(1,2) order_refl order_refl p(3-5) r] p(6) r by auto
qed

text \<open>
  Sending resumed by START stalls. When START arrives with at least two characters in the buffer, the send
  callback forbidden and the transmit register free, one character goes out and the callback stays forbidden.
  A task that writes then only fills the buffer: nothing more goes out until sending is stopped and resumed
  once more, or a flow control character has to wait.
\<close>

lemma resume_stalls:
  assumes "snd_ok p" and "snd_stopped p" and "1 < snd_count p" and "\<not> sio_cbr (p_siopcb p) SIO_RDY_SND"
    and "ioctl p AND IOCTL_FCSND \<noteq> 0" and "ms Snd_sem = 0"
    and "sio_irdy_rcv True FC_START (p, ms) = (q, ns)" and "wri_region rdy c q = (b, u)"
  shows "sio_out (p_siopcb q) = sio_out (p_siopcb p) @ [snd_buffer p (snd_read_ptr p)] \<and>
    0 < snd_count q \<and> \<not> snd_stopped q \<and> \<not> sio_cbr (p_siopcb q) SIO_RDY_SND \<and>
    sio_out (p_siopcb u) = sio_out (p_siopcb q) \<and> \<not> sio_cbr (p_siopcb u) SIO_RDY_SND"
proof -
  have f: "FC_START \<noteq> FC_STOP" by (simp add: FC_START_def FC_STOP_def)
  have q: "snd_count q = snd_count p - 1" "\<not> snd_stopped q" "\<not> sio_cbr (p_siopcb q) SIO_RDY_SND"
      "sio_out (p_siopcb q) = sio_out (p_siopcb p) @ [snd_buffer p (snd_read_ptr p)]"
    using assms(2-4,6,7) f
    by (auto simp: sio_irdy_rcv_def serial_snd_chr_def sio_snd_chr_def sent_chr_def signal_port_def port_isig_sem_def dec_u_def Let_def split: if_splits)
  then have "0 < snd_count q" using assms(3) by simp
  then show ?thesis using q assms(8) by (auto simp: wri_region_def Let_def)
qed

text \<open>
  A START overtakes a STOP that waits. When STOP waits for the transmit register and the buffer has become half
  empty with the register free, START goes out at once, and the STOP that still waits goes out after it,
  although the driver takes the other side as started.
\<close>

lemma start_overtakes_stop:
  assumes "rcv_fc_chr p = FC_STOP" and "rcv_stopped p" and "dec_u (rcv_count p) \<le> BUFCNT_START (rcv_bufsz p)"
    and "rea_region True p = (c, b, q)" and "sio_irdy_snd True (q, ms) = (u, ns)"
  shows "sio_out (p_siopcb u) = sio_out (p_siopcb p) @ [FC_START, FC_STOP] \<and> \<not> rcv_stopped u"
proof -
  have "FC_STOP \<noteq> NUL" by (simp add: FC_STOP_def NUL_def)
  then show ?thesis using assms by (auto simp: rea_region_def serial_snd_chr_def sio_snd_chr_def sio_irdy_snd_def Let_def)
qed

end
