(* ===== verification/Asp_Serial_Kernel.thy ===== *)
theory Asp_Serial_Kernel
  imports Asp_Semaphore Asp_Serial
begin

text \<open>
  The semaphores that the serial driver counts on are those of the kernel: with one resource at most, as
  \<^verbatim>\<open>syssvc/serial.cfg\<close> creates them, \<open>isig_sem\<close> and \<open>wai_sem\<close> of \<^verbatim>\<open>kernel/semaphore.c\<close> do what the steps of a port
  assume. A signal while a task waits is a signal and the end of that wait in one.
\<close>

text \<open>The semaphores of a port, by their IDs.\<close>

definition port_sems :: "(semid \<Rightarrow> ID) \<Rightarrow> kernel \<Rightarrow> semid \<Rightarrow> nat" where
  "port_sems ids s m = unat (semcnt (semcb s (INDEX_SEM (ids m))))"

definition port_sems_ok :: "kernel_cfg \<Rightarrow> (semid \<Rightarrow> ID) \<Rightarrow> kernel \<Rightarrow> bool" where
  "port_sems_ok cfg ids s \<longleftrightarrow> ids Snd_sem \<noteq> ids Rcv_sem \<and>
    (\<forall>m. VALID_SEMID cfg (ids m) \<and> sematr (p_seminib (semcb s (INDEX_SEM (ids m)))) \<noteq> TA_NOEXS \<and>
      maxsem (p_seminib (semcb s (INDEX_SEM (ids m)))) = 1)"

lemma index_port_sems: "port_sems_ok cfg ids s \<Longrightarrow> INDEX_SEM (ids m) = INDEX_SEM (ids n) \<longleftrightarrow> m = n"
proof -
  assume a: "port_sems_ok cfg ids s"
  have p: "1 \<le> ids m" for m using a by (simp add: port_sems_ok_def VALID_SEMID_def)
  show ?thesis using a p[of m] p[of n] by (cases m; cases n) (auto simp: port_sems_ok_def INDEX_SEM_def eq_nat_nat_iff)
qed

lemma port_sems_upd:
  assumes "port_sems_ok cfg ids s"
  shows "port_sems ids (upd_sem (INDEX_SEM (ids m)) (\<lambda>c. c\<lparr>semcnt := n\<rparr>) s) = (port_sems ids s)(m := unat n)"
  using index_port_sems[OF assms] by (auto simp: port_sems_def fun_eq_iff)

text \<open>A signal with no task waiting.\<close>

lemma isig_sem_port:
  assumes "CHECK_INTCTX_UNL s" and "port_sems_ok cfg ids s" and "q_empty (WaitQ (SEM (INDEX_SEM (ids m)))) (queues s)"
    and "isig_sem cfg (ids m) s = (r, s')" and "port_isig_sem m (port_sems ids s) = (ercd, ms)"
  shows "r = Ret ercd \<and> port_sems ids s' = ms"
proof -
  let ?c = "semcnt (semcb s (INDEX_SEM (ids m)))"
  have c: "?c < 1 \<longleftrightarrow> port_sems ids s m < 1" by (simp add: port_sems_def word_less_nat_alt)
  have o: "VALID_SEMID cfg (ids m)" "sematr (p_seminib (semcb s (INDEX_SEM (ids m)))) \<noteq> TA_NOEXS"
    "maxsem (p_seminib (semcb s (INDEX_SEM (ids m)))) = 1" using assms(2) by (simp_all add: port_sems_ok_def)
  have l: "port_sems ids (t\<lparr>cpu_lock := b\<rparr>) = port_sems ids t" for t b by (simp add: port_sems_def fun_eq_iff)
  have u: "?c < 1 \<Longrightarrow> port_sems ids (upd_sem (INDEX_SEM (ids m)) (\<lambda>c. c\<lparr>semcnt := semcnt c + 1\<rparr>) s) = (port_sems ids s)(m := port_sems ids s m + 1)"
    using port_sems_upd[OF assms(2), of m "?c + 1"] by (simp add: port_sems_def word_less_nat_alt unat_eq_0)
  have k: "(r, s') = (if ?c < 1 then (Ret E_OK, (upd_sem (INDEX_SEM (ids m)) (\<lambda>c. c\<lparr>semcnt := semcnt c + 1\<rparr>) s)\<lparr>cpu_lock := False\<rparr>)
      else (Ret E_QOVR, s\<lparr>cpu_lock := False\<rparr>))"
    using assms(1,3,4) o by (auto simp: isig_sem_def int_call_def Let_def i_lock_cpu_def i_unlock_cpu_def)
  show ?thesis using k assms(5) c u unfolding port_isig_sem_def by (cases "?c < 1") (auto simp: l)
qed

text \<open>A signal while a task waits: that task goes on with the resource, which the semaphore does not count.\<close>

lemma isig_sem_port_waiting:
  assumes "CHECK_INTCTX_UNL s" and "port_sems_ok cfg ids s" and "\<not> q_empty (WaitQ (SEM (INDEX_SEM (ids m)))) (queues s)"
    and "isig_sem cfg (ids m) s = (r, s')" and "port_sems ids s m = 0"
    and "port_isig_sem m (port_sems ids s) = (ercd, ms)"
  shows "r = Ret ercd \<and> port_sems ids s' = ms(m := ms m - 1)"
proof -
  have o: "VALID_SEMID cfg (ids m)" "sematr (p_seminib (semcb s (INDEX_SEM (ids m)))) \<noteq> TA_NOEXS"
    using assms(2) by (simp_all add: port_sems_ok_def)
  obtain p f where q: "q_delete_next (WaitQ (SEM (INDEX_SEM (ids m)))) (queues s) = (p, f)" by (metis surj_pair)
  have k: "(r, s') = (Ret E_OK, i_unlock_cpu (reqflg_if (wait_complete p ((i_lock_cpu s)\<lparr>queues := f\<rparr>))))"
    using assms(1,3,4) o q by (auto simp: isig_sem_def int_call_def Let_def i_lock_cpu_def)
  have "semcb (i_unlock_cpu t) = semcb t" for t by (simp add: i_unlock_cpu_def)
  then have "semcb s' = semcb (i_lock_cpu s)"
    using k objectsD[OF objects_wait2(1), of p "(i_lock_cpu s)\<lparr>queues := f\<rparr>"] objectsD[OF reqflg_if_objects] by simp
  then have "semcb s' = semcb s" by (simp add: i_lock_cpu_def)
  then show ?thesis using k assms(5,6) by (auto simp: port_isig_sem_def port_sems_def fun_eq_iff split: if_splits)
qed

text \<open>A wait when the resource is there does not block.\<close>

lemma wai_sem_port:
  assumes "CHECK_DISPATCH s" and "port_sems_ok cfg ids s" and "0 < port_sems ids s m" and "wai_sem cfg (ids m) s = (r, s')"
  shows "r = Ret E_OK \<and> port_sems ids s' = (port_sems ids s)(m := port_sems ids s m - 1)"
proof -
  let ?c = "semcnt (semcb s (INDEX_SEM (ids m)))"
  have c: "1 \<le> ?c" using assms(3) by (simp add: port_sems_def word_le_nat_alt)
  have o: "VALID_SEMID cfg (ids m)" "sematr (p_seminib (semcb s (INDEX_SEM (ids m)))) \<noteq> TA_NOEXS"
    using assms(2) by (simp_all add: port_sems_ok_def)
  have l: "port_sems ids (t\<lparr>cpu_lock := b\<rparr>) = port_sems ids t" for t b by (simp add: port_sems_def fun_eq_iff)
  have u: "port_sems ids (upd_sem (INDEX_SEM (ids m)) (\<lambda>c. c\<lparr>semcnt := semcnt c - 1\<rparr>) s) = (port_sems ids s)(m := port_sems ids s m - 1)"
    using port_sems_upd[OF assms(2), of m "?c - 1"] c by (simp add: port_sems_def unat_minus_one word_le_nat_alt unat_sub_if')
  have "(r, s') = (Ret E_OK, (upd_sem (INDEX_SEM (ids m)) (\<lambda>c. c\<lparr>semcnt := semcnt c - 1\<rparr>) s)\<lparr>cpu_lock := False\<rparr>)"
    using assms(1,4) o c by (auto simp: wai_sem_def tsk_call_def Let_def t_lock_cpu_def t_unlock_cpu_def)
  then show ?thesis using u by (simp add: l)
qed

end
