(* ===== verification/Asp_Logtask.thy ===== *)
theory Asp_Logtask
  imports Asp_Syslog Asp_Serial
begin

text \<open>
  The system log task (\<^verbatim>\<open>syssvc/logtask.c\<close>), over the log buffer and the serial driver: one round of its loop,
  waiting for the log to be printed, and the output of what is left when the kernel ends. The log that is
  printed is the log that was recorded, character by character, down to the serial port.
\<close>

section \<open>Printing the log\<close>

text \<open>One character to the serial port, and a string of them. Errors are ignored.\<close>

definition logtask_putc :: "int \<Rightarrow> int \<Rightarrow> char \<Rightarrow> unit act" where
  "logtask_putc tnum_port portid c = bind_act (serial_wri_dat tnum_port portid [c]) (\<lambda>_. Done ())"

primrec logtask_puts :: "int \<Rightarrow> int \<Rightarrow> string \<Rightarrow> unit act" where
  "logtask_puts tnum_port portid [] = Done ()"
| "logtask_puts tnum_port portid (c # cs) = bind_act (logtask_putc tnum_port portid c) (\<lambda>_. logtask_puts tnum_port portid cs)"

lemma rea_log_decreases:
  "\<not> fst (fst (syslog_rea_log s)) < 0 \<Longrightarrow> syslog_count (snd (syslog_rea_log s)) < syslog_count s"
  by (auto simp: syslog_rea_log_def Let_def split: if_splits)

text \<open>
  The loop that reads and prints the records, with the number of lost ones not reported yet; what is printed,
  that number after it, and the log. No record is written meanwhile.
\<close>

function print_logs :: "(intptr_t \<Rightarrow> string) \<Rightarrow> 32 word \<Rightarrow> log_state \<Rightarrow> string \<times> 32 word \<times> log_state" where
  "print_logs mem lostlog s =
    (let q = syslog_rea_log s; rercd = fst (fst q); logbuf = snd (fst q); s' = snd q in
     if rercd < 0 then ([], lostlog, s')
     else (let lostlog = lostlog + of_int rercd; logbuf = the logbuf in
           if logtype logbuf \<ge> LOG_TYPE_COMMENT
           then (let out = (if lostlog > 0 then syslog_lostmsg mem lostlog else []) @ syslog_print mem logbuf @ [CHR 0x0A];
                     (outs, l, s) = print_logs mem 0 s'
                 in (out @ outs, l, s))
           else print_logs mem lostlog s'))"
  by pat_completeness auto
termination
  by (relation "measure (\<lambda>(mem, l, s). syslog_count s)") (auto dest: rea_log_decreases)

declare print_logs.simps [simp del]

definition logtask_round :: "(intptr_t \<Rightarrow> string) \<Rightarrow> log_state \<Rightarrow> string \<times> log_state" where
  "logtask_round mem s =
    (let (out, lostlog, s) = print_logs mem 0 s
     in (out @ (if lostlog > 0 then syslog_lostmsg mem lostlog else []), s))"

section \<open>Waiting for the log\<close>

text \<open>
  \<open>logs k\<close>, \<open>ports k\<close> and \<open>dly k\<close> are what the round \<open>k\<close> of the loop gets from \<open>syslog_ref_log\<close>, \<open>serial_ref_por\<close> and
  \<open>dly_tsk\<close>. The loop need not end: the value is \<open>None\<close> then.
\<close>

partial_function (option) flush_loop ::
  "(nat \<Rightarrow> ER \<times> nat) \<Rightarrow> (nat \<Rightarrow> ER \<times> nat) \<Rightarrow> (nat \<Rightarrow> ER) \<Rightarrow> nat \<Rightarrow> nat \<Rightarrow> ER option" where
  "flush_loop logs ports dly cnt k =
    (if fst (logs k) < 0 then Some E_SYS
     else if snd (logs k) \<le> cnt \<and> cnt = 0 \<and> fst (ports k) < 0 then Some E_SYS
     else if snd (logs k) \<le> cnt \<and> (cnt = 0 \<longrightarrow> snd (ports k) = 0) then Some E_OK
     else if dly k < 0 then Some (if dly k = E_RLWAI then dly k else E_SYS)
     else flush_loop logs ports dly cnt (k + 1))"

definition logtask_flush ::
  "bool \<Rightarrow> (nat \<Rightarrow> ER \<times> nat) \<Rightarrow> (nat \<Rightarrow> ER \<times> nat) \<Rightarrow> (nat \<Rightarrow> ER) \<Rightarrow> nat \<Rightarrow> ER option" where
  "logtask_flush dpn logs ports dly cnt = (if dpn then Some E_CTX else flush_loop logs ports dly cnt 0)"

section \<open>The end of the kernel\<close>

lemma get_chr_decreases:
  "serial_get_chr n i p = (Some c, q) \<Longrightarrow> snd_count q < snd_count p"
  by (auto simp: serial_get_chr_def dec_u_def split: if_splits)

function put_unsent :: "int \<Rightarrow> int \<Rightarrow> SPCB \<Rightarrow> string \<times> SPCB" where
  "put_unsent tnum_port portid p =
    (case serial_get_chr tnum_port portid p of
       (None, q) \<Rightarrow> ([], q)
     | (Some c, q) \<Rightarrow> (let (out, u) = put_unsent tnum_port portid q in (c # out, u)))"
  by pat_completeness auto
termination
  by (relation "measure (\<lambda>(n, i, p). snd_count p)") (auto dest: get_chr_decreases[OF sym])

declare put_unsent.simps [simp del]

function print_rest :: "(intptr_t \<Rightarrow> string) \<Rightarrow> bool \<Rightarrow> log_state \<Rightarrow> string \<times> log_state" where
  "print_rest mem msgflg s =
    (let q = syslog_rea_log s; rercd = fst (fst q); logbuf = snd (fst q); s' = snd q in
     if rercd < 0 then ([], s')
     else (let logbuf = the logbuf;
               out = (if \<not> msgflg then syslog_printf mem (''-- buffered messages --'' @ [CHR 0x0A]) (\<lambda>_. 0) 0 else []) @
                 (if rercd > 0 then syslog_lostmsg mem (of_int rercd) else []) @
                 (if logtype logbuf \<ge> LOG_TYPE_COMMENT then syslog_print mem logbuf @ [CHR 0x0A] else []);
               (outs, s) = print_rest mem True s'
           in (out @ outs, s)))"
  by pat_completeness auto
termination
  by (relation "measure (\<lambda>(mem, m, s). syslog_count s)") (auto dest: rea_log_decreases)

declare print_rest.simps [simp del]

definition logtask_terminate ::
  "(intptr_t \<Rightarrow> string) \<Rightarrow> int \<Rightarrow> int \<Rightarrow> SPCB \<Rightarrow> log_state \<Rightarrow> SPCB \<times> log_state" where
  "logtask_terminate mem tnum_port portid p s =
    (let (out1, p) = put_unsent tnum_port portid p;
         s = s\<lparr>fput_log := fput_log s @ out1\<rparr>;
         (out2, s) = print_rest mem False s
     in (p, s\<lparr>fput_log := fput_log s @ out2\<rparr>))"

section \<open>What is printed\<close>

text \<open>The lines of some records, with the number of lost ones before the first.\<close>

definition log_line :: "(intptr_t \<Rightarrow> string) \<Rightarrow> SYSLOG \<Rightarrow> string" where
  "log_line mem r = (if logtype r \<ge> LOG_TYPE_COMMENT then syslog_print mem r @ [CHR 0x0A] else [])"

definition lost_line :: "(intptr_t \<Rightarrow> string) \<Rightarrow> 32 word \<Rightarrow> string" where
  "lost_line mem l = (if l > 0 then syslog_lostmsg mem l else [])"

lemma logs_read:
  assumes "log_ok s"
  shows "log_contents s = [] \<Longrightarrow> syslog_rea_log s = ((E_OBJ, None), s)"
    and "log_contents s = x # xs \<Longrightarrow> \<exists>s'. syslog_rea_log s = ((sint (syslog_lost s), Some x), s') \<and> log_ok s' \<and>
      log_contents s' = xs \<and> syslog_lost s' = 0 \<and> fput_log s' = fput_log s"
proof -
  obtain r s' where r: "syslog_rea_log s = (r, s')" by (metis surj_pair)
  note a = rea_log_ok[OF assms r[symmetric]]
  have "fput_log s' = fput_log s" using r by (auto simp: syslog_rea_log_def Let_def split: if_splits)
  then show "log_contents s = [] \<Longrightarrow> syslog_rea_log s = ((E_OBJ, None), s)"
    and "log_contents s = x # xs \<Longrightarrow> \<exists>s'. syslog_rea_log s = ((sint (syslog_lost s), Some x), s') \<and> log_ok s' \<and>
      log_contents s' = xs \<and> syslog_lost s' = 0 \<and> fput_log s' = fput_log s"
    using a r by auto
qed

text \<open>The lost records are reported before the first line, or at the end when there is none.\<close>

lemma print_logs_ok:
  assumes "log_ok s" and "0 \<le> sint (syslog_lost s)" and "log_contents s = rs"
  shows "\<exists>out k s'. print_logs mem l s = (out, k, s') \<and> log_contents s' = [] \<and> log_ok s' \<and>
    out @ lost_line mem k = lost_line mem (if rs = [] then l else l + syslog_lost s) @ concat (map (log_line mem) rs)"
  using assms
proof (induction rs arbitrary: s l)
  case Nil
  then show ?case using logs_read(1)[OF Nil(1,3)] by (subst print_logs.simps) simp
next
  case (Cons r rs)
  obtain u where u: "syslog_rea_log s = ((sint (syslog_lost s), Some r), u)" "log_ok u" "log_contents u = rs" "syslog_lost u = 0"
    using logs_read(2)[OF Cons(2,4)] by blast
  have i: "of_int (sint (syslog_lost s)) = syslog_lost s" by simp
  obtain out k s' where o: "print_logs mem 0 u = (out, k, s')" "log_contents s' = []" "log_ok s'"
    "out @ lost_line mem k = concat (map (log_line mem) rs)"
    using Cons(1)[OF u(2) _ u(3), of 0] u(4) by (auto simp: lost_line_def)
  obtain out2 k2 s2 where o2: "print_logs mem (l + syslog_lost s) u = (out2, k2, s2)" "log_contents s2 = []" "log_ok s2"
    "out2 @ lost_line mem k2 = lost_line mem (l + syslog_lost s) @ concat (map (log_line mem) rs)"
    using Cons(1)[OF u(2) _ u(3), of "l + syslog_lost s"] u(4) by (auto simp: lost_line_def)
  show ?case
    using Cons(3) u(1) i o o2 by (subst print_logs.simps) (auto simp: Let_def log_line_def lost_line_def)
qed

lemma run_puts:
  assumes "openflag p" and "\<not> errorflag p" and "1 \<le> portid" and "portid \<le> tnum_port"
  shows "\<exists>cs q. run (\<lambda>_. E_OK) rdy (logtask_puts tnum_port portid out) p = ((), cs, q) \<and> same_flags p q \<and>
    wri_log q = wri_log p @ crlf (ioctl p) out"
  using assms(1,2)
proof (induction out arbitrary: p)
  case Nil
  then show ?case by (simp add: same_flags_def)
next
  case (Cons c out)
  obtain cs q where q: "run (\<lambda>_. E_OK) rdy (serial_wri_dat tnum_port portid [c]) p = (int (length [c]), cs, q)" "same_flags p q"
      "wri_log q = wri_log p @ crlf (ioctl p) [c]"
    using serial_wri_dat_writes[OF Cons(2,3) assms(3,4), of rdy "[c]"] by blast
  obtain ds u where u: "run (\<lambda>_. E_OK) rdy (logtask_puts tnum_port portid out) q = ((), ds, u)" "same_flags q u"
      "wri_log u = wri_log q @ crlf (ioctl q) out"
    using Cons(1)[of q] Cons(2,3) q(2) by (auto simp: same_flags_def)
  show ?case using q u by (auto simp: run_bind logtask_putc_def same_flags_def)
qed



text \<open>When \<open>logtask_flush\<close> returns \<open>E_OK\<close>, the log was printed to the number of records asked for.\<close>

lemma flush_loop_ok:
  "flush_loop logs ports dly cnt k = Some r \<Longrightarrow> r = E_OK \<longrightarrow>
    (\<exists>j \<ge> k. snd (logs j) \<le> cnt \<and> (cnt = 0 \<longrightarrow> snd (ports j) = 0))"
proof (induction rule: flush_loop.raw_induct[rotated, consumes 1])
  case (1 f logs ports dly cnt k r)
  show ?case
  proof (cases "snd (logs k) \<le> cnt \<and> (cnt = 0 \<longrightarrow> snd (ports k) = 0)")
    case False
    then have "r = E_SYS \<or> r = E_RLWAI \<or> f logs ports dly cnt (k + 1) = Some r"
      using 1(2) by (simp split: if_split_asm)
    then show ?thesis using 1(1)[of logs ports dly cnt "k + 1" r] by (auto intro: Suc_leD)
  qed blast
qed

lemma flush_loop_returns:
  assumes "\<And>i. k \<le> i \<Longrightarrow> i < j \<Longrightarrow> 0 \<le> fst (logs i) \<and> 0 \<le> fst (ports i) \<and> 0 \<le> dly i" and "k \<le> j"
    and "0 \<le> fst (logs j)" and "0 \<le> fst (ports j)" and "snd (logs j) \<le> cnt \<and> (cnt = 0 \<longrightarrow> snd (ports j) = 0)"
  shows "flush_loop logs ports dly cnt k = Some E_OK"
  using assms
proof (induction "j - k" arbitrary: k)
  case 0
  then show ?case by (subst flush_loop.simps) simp
next
  case (Suc d)
  then have "flush_loop logs ports dly cnt (k + 1) = Some E_OK" by simp
  moreover have "0 \<le> fst (logs k)" "0 \<le> fst (ports k)" "0 \<le> dly k" using Suc(3)[of k] Suc(2) by simp_all
  ultimately show ?case by (subst flush_loop.simps) (simp only: linorder_not_less[symmetric] if_False split: if_split; blast)
qed

section \<open>What is left when the kernel ends\<close>

lemma put_unsent_ok:
  assumes "snd_read_ptr p < snd_bufsz p" and "snd_bufsz p < 2 ^ 32" and "openflag p" and "1 \<le> portid" and "portid \<le> tnum_port"
    and "snd_count p = m"
  shows "\<exists>q. put_unsent tnum_port portid p = (snd_data p, q) \<and> snd_count q = 0"
  using assms
proof (induction m arbitrary: p)
  case 0
  then show ?case by (subst put_unsent.simps) (simp add: serial_get_chr_def snd_data_def)
next
  case (Suc m)
  let ?c = "snd_buffer p (snd_read_ptr p)" and ?q = "drop_snd p"
  note m = INC_PTR_mod[OF Suc(2,3)]
  have n: "snd_count p > 0" using Suc(7) by simp
  have g: "serial_get_chr tnum_port portid p = (Some ?c, ?q)" using Suc(4-7) by (simp add: serial_get_chr_def drop_snd_def)
  have r: "snd_data p = ?c # snd_data ?q"
    using ring_pop[OF n Suc(2) m] by (simp add: snd_data_def drop_snd_def dec_u_pos n)
  have "\<exists>u. put_unsent tnum_port portid ?q = (snd_data ?q, u) \<and> snd_count u = 0"
    using Suc(1)[of ?q] Suc(2-7) m by (simp add: drop_snd_def dec_u_pos)
  then show ?case using g r by (subst put_unsent.simps) auto
qed

lemma print_rest_ok:
  assumes "log_ok s" and "0 \<le> sint (syslog_lost s)" and "log_contents s = rs"
  shows "\<exists>s'. print_rest mem m s = ((if rs = [] \<or> m then [] else ''-- buffered messages --'' @ [CHR 0x0A]) @
      (if rs = [] then [] else lost_line mem (syslog_lost s)) @ concat (map (log_line mem) rs), s') \<and>
    log_contents s' = [] \<and> fput_log s' = fput_log s"
  using assms
proof (induction rs arbitrary: s m)
  case Nil
  then show ?case using logs_read(1)[OF Nil(1,3)] by (subst print_rest.simps) simp
next
  case (Cons r rs)
  obtain u where u: "syslog_rea_log s = ((sint (syslog_lost s), Some r), u)" "log_ok u" "log_contents u = rs" "syslog_lost u = 0"
    "fput_log u = fput_log s" using logs_read(2)[OF Cons(2,4)] by blast
  have f: "syslog_printf mem (''-- buffered messages --'' @ [CHR 0x0A]) ap 0 = ''-- buffered messages --'' @ [CHR 0x0A]" for ap
    by (simp add: printf_eqs)
  have i: "of_int (sint (syslog_lost s)) = syslog_lost s" "0 < sint (syslog_lost s) \<longleftrightarrow> 0 < syslog_lost s"
    using Cons(3) signed_eq_0_iff[of "syslog_lost s"] by (auto simp: word_gt_0 order_less_le)
  obtain s' where o: "print_rest mem True u = (concat (map (log_line mem) rs), s')" "log_contents s' = []" "fput_log s' = fput_log s"
    using Cons(1)[OF u(2) _ u(3), of True] u(4,5) by (auto simp: lost_line_def)
  show ?case
    using Cons(3) u(1) i o by (subst print_rest.simps) (simp add: Let_def log_line_def lost_line_def f del: append.simps)
qed

text \<open>
  What the driver did not send and the log task did not print goes out when the kernel ends: the characters of
  the send buffer, a heading if there are records, the number of lost ones, and the lines, all in order.
\<close>

lemma logtask_terminate_prints:
  assumes "log_ok s" and "0 \<le> sint (syslog_lost s)" and "snd_ok p" and "openflag p" and "1 \<le> portid" and "portid \<le> tnum_port"
    and "(q, s') = logtask_terminate mem tnum_port portid p s"
  shows "snd_count q = 0 \<and> log_contents s' = [] \<and>
    fput_log s' = fput_log s @ snd_data p @ (if log_contents s = [] then []
      else ''-- buffered messages --'' @ [CHR 0x0A] @ lost_line mem (syslog_lost s)) @ concat (map (log_line mem) (log_contents s))"
proof -
  obtain u where u: "put_unsent tnum_port portid p = (snd_data p, u)" "snd_count u = 0"
    using put_unsent_ok[OF _ _ assms(4-6) refl] assms(3) by (auto simp: snd_ok_def)
  define t where "t = s\<lparr>fput_log := fput_log s @ snd_data p\<rparr>"
  have t: "log_ok t" "0 \<le> sint (syslog_lost t)" "log_contents t = log_contents s" "syslog_lost t = syslog_lost s"
    using assms(1,2) by (simp_all add: t_def log_ok_def log_contents_def)
  obtain v where v: "print_rest mem False t = ((if log_contents s = [] then [] else ''-- buffered messages --'' @ [CHR 0x0A]) @
      (if log_contents s = [] then [] else lost_line mem (syslog_lost s)) @ concat (map (log_line mem) (log_contents s)), v)"
    "log_contents v = []" "fput_log v = fput_log t" using print_rest_ok[OF t(1-3), of mem False] t(4) by auto
  show ?thesis
    using assms(7) u v by (simp add: logtask_terminate_def t_def[symmetric] log_contents_def) (simp add: t_def)
qed

end
